(* ===== verification/Prelude.thy ===== *)
theory Prelude
  imports Main "HOL-Library.Word"
begin

text \<open>
  Shared vocabulary of the development: the machine integers of the ESP32 target (where
  \<open>size_t\<close> is 32 bits wide), the outcome of a C operation (an error code, a failed
  \<open>assert\<close>, or behaviour the C standard leaves undefined), byte memory with bounds, and
  generic lemmas on lists, words and sums that the component theories share.
\<close>

unbundle bit_operations_syntax

named_theorems res_simps "evaluation rules of the outcome type"
named_theorems mem_simps "evaluation rules of byte memory"

section \<open>Machine integers\<close>

type_synonym u8 = "8 word"
type_synonym u16 = "16 word"
type_synonym u32 = "32 word"
type_synonym u64 = "64 word"
type_synonym bytes = "8 word list"

section \<open>Outcomes of C operations\<close>

text \<open>
  \<open>Code c\<close> is the error code \<open>c\<close> returned to the caller; \<open>Assert_failed\<close> is a failing
  \<open>assert\<close>; \<open>Undefined\<close> is undefined behaviour (an access out of bounds, a signed
  overflow). A theorem that an operation returns \<open>Inr\<close> or \<open>Inl (Code c)\<close> therefore also
  states that it neither aborts nor leaves the defined part of the language.
\<close>

datatype 'e fault = Code 'e | Assert_failed | Undefined

definition rbind :: "'e fault + 'a \<Rightarrow> ('a \<Rightarrow> 'e fault + 'b) \<Rightarrow> 'e fault + 'b" where
  "rbind m f = (case m of Inl e \<Rightarrow> Inl e | Inr x \<Rightarrow> f x)"

definition assert_that :: "bool \<Rightarrow> 'e fault + unit" where
  "assert_that b = (if b then Inr () else Inl Assert_failed)"

definition of_option :: "'a option \<Rightarrow> 'e fault + 'a" where
  "of_option x = (case x of None \<Rightarrow> Inl Undefined | Some y \<Rightarrow> Inr y)"

lemma rbind_Inr [simp, res_simps]: "rbind (Inr x) f = f x"
  by (simp add: rbind_def)

lemma rbind_Inl [simp, res_simps]: "rbind (Inl e) f = Inl e"
  by (simp add: rbind_def)

lemma rbind_assoc: "rbind (rbind m f) g = rbind m (\<lambda>x. rbind (f x) g)"
  by (cases m) simp_all

lemma rbind_eq_Inr_iff: "rbind m f = Inr y \<longleftrightarrow> (\<exists>x. m = Inr x \<and> f x = Inr y)"
  by (cases m) auto

lemma assert_that_simps [simp, res_simps]:
  "assert_that True = Inr ()" "assert_that False = Inl Assert_failed"
  by (simp_all add: assert_that_def)

lemma of_option_simps [simp, res_simps]:
  "of_option None = Inl Undefined" "of_option (Some x) = Inr x"
  by (simp_all add: of_option_def)

section \<open>Checked signed arithmetic\<close>

text \<open>A signed 32-bit result: outside the range of \<open>int32_t\<close> the C expression is undefined.\<close>

definition INT32_MIN :: int where "INT32_MIN = - 2147483648"
definition INT32_MAX :: int where "INT32_MAX = 2147483647"

definition in_i32 :: "int \<Rightarrow> bool" where
  "in_i32 x \<longleftrightarrow> INT32_MIN \<le> x \<and> x \<le> INT32_MAX"

definition i32 :: "int \<Rightarrow> 'e fault + int" where
  "i32 x = (if in_i32 x then Inr x else Inl Undefined)"

lemmas i32_range = in_i32_def INT32_MIN_def INT32_MAX_def

lemma i32_Inr [simp, res_simps]: "in_i32 x \<Longrightarrow> i32 x = Inr x"
  by (simp add: i32_def)

section \<open>Byte memory\<close>

text \<open>
  An object of \<open>n\<close> bytes is a list of length \<open>n\<close>; a pointer into it is an offset. Reads and
  writes outside the object are \<open>None\<close>.
\<close>

definition mem_read :: "bytes \<Rightarrow> nat \<Rightarrow> nat \<Rightarrow> bytes option" where
  "mem_read m off n = (if off + n \<le> length m then Some (take n (drop off m)) else None)"

definition mem_write :: "bytes \<Rightarrow> nat \<Rightarrow> bytes \<Rightarrow> bytes option" where
  "mem_write m off bs =
     (if off + length bs \<le> length m
      then Some (take off m @ bs @ drop (off + length bs) m) else None)"

lemma mem_write_length: "mem_write m off bs = Some m' \<Longrightarrow> length m' = length m"
  by (auto simp: mem_write_def split: if_splits)

lemma mem_write_defined: "off + length bs \<le> length m \<Longrightarrow> \<exists>m'. mem_write m off bs = Some m'"
  by (simp add: mem_write_def)

lemma mem_read_write_same:
  "mem_write m off bs = Some m' \<Longrightarrow> mem_read m' off (length bs) = Some bs"
  by (auto simp: mem_write_def mem_read_def split: if_splits)

lemma mem_read_write_below:
  "mem_write m off bs = Some m' \<Longrightarrow> a + n \<le> off \<Longrightarrow> mem_read m' a n = mem_read m a n"
  by (auto simp: mem_write_def mem_read_def min_def take_drop split: if_splits)

lemma mem_read_write_above:
  assumes "mem_write m off bs = Some m'" and "off + length bs \<le> a"
  shows "mem_read m' a n = mem_read m a n"
proof -
  from assms have ok: "off + length bs \<le> length m"
    and m': "m' = take off m @ bs @ drop (off + length bs) m"
    by (auto simp: mem_write_def split: if_splits)
  then have "drop a m' = drop a m" using assms(2) by simp
  with ok m' show ?thesis by (auto simp: mem_read_def)
qed

lemma mem_read_sub:
  assumes "mem_read m off k = Some bs" and "i + n \<le> k"
  shows "mem_read m (off + i) n = Some (take n (drop i bs))"
  using assms by (auto simp: mem_read_def drop_take min_def add.commute split: if_splits)

section \<open>Big- and little-endian words\<close>

definition be16 :: "u16 \<Rightarrow> bytes" where
  "be16 n = [ucast (drop_bit 8 n), ucast n]"

definition be32 :: "u32 \<Rightarrow> bytes" where
  "be32 n = [ucast (drop_bit 24 n), ucast (drop_bit 16 n), ucast (drop_bit 8 n), ucast n]"

lemma length_be [simp]: "length (be16 m) = 2" "length (be32 n) = 4"
  by (simp_all add: be16_def be32_def)

section \<open>Lists\<close>

lemma nth_update_cases: "i < length xs \<Longrightarrow> xs[i := v] ! j = (if j = i then v else xs ! j)"
  by auto

text \<open>
  A lookup table of the source written as runs: \<open>expand 0 [(b\<^sub>1, v\<^sub>1), (b\<^sub>2, v\<^sub>2), ...]\<close> is
  \<open>v\<^sub>1\<close> below index \<open>b\<^sub>1\<close>, \<open>v\<^sub>2\<close> from there below \<open>b\<^sub>2\<close>, and so on; \<open>at_runs\<close> reads it.
\<close>

fun expand :: "nat \<Rightarrow> (nat \<times> 'a) list \<Rightarrow> 'a list" where
  "expand a [] = []"
| "expand a ((b, v) # rs) = replicate (b - a) v @ expand b rs"

fun at_runs :: "(nat \<times> 'a) list \<Rightarrow> 'a \<Rightarrow> nat \<Rightarrow> 'a" where
  "at_runs [] d n = d"
| "at_runs ((b, v) # rs) d n = (if n < b then v else at_runs rs d n)"

fun runs_end :: "nat \<Rightarrow> (nat \<times> 'a) list \<Rightarrow> nat" where
  "runs_end a [] = a"
| "runs_end a ((b, v) # rs) = (if a \<le> b then runs_end b rs else 0)"

lemma replicate_numeral_Cons:
  "replicate (numeral k) x = x # replicate (pred_numeral k) x"
  by (simp add: numeral_eq_Suc)

lemma nth_expand:
  "a \<le> n \<Longrightarrow> n < runs_end a rs \<Longrightarrow> expand a rs ! (n - a) = at_runs rs d n"
proof (induction rs arbitrary: a)
  case (Cons r rs)
  obtain b v where r: "r = (b, v)" by (cases r)
  show ?case
  proof (cases "n < b")
    case True
    then have "n - a < b - a" using Cons.prems by arith
    with True r show ?thesis by (simp add: nth_append)
  next
    case False
    with Cons.prems r have "a \<le> b" "n < runs_end b rs" by (auto split: if_splits)
    moreover have "expand b rs ! (n - b) = at_runs rs d n"
      using Cons.IH [of b] False \<open>n < runs_end b rs\<close> by simp
    moreover have "\<not> n - a < b - a" "n - a - (b - a) = n - b"
      using False \<open>a \<le> b\<close> by arith+
    ultimately show ?thesis using False r by (simp add: nth_append)
  qed
qed simp

lemma u8_less: "unat (c :: u8) < 256"
  using unsigned_less [of c] by simp

lemma table_runs:
  assumes "T = expand 0 rs" and "runs_end 0 rs = 256"
  shows "T ! unat (c :: u8) = at_runs rs d (unat c)"
  using nth_expand [of 0 "unat c" rs d] assms u8_less [of c] by simp

end
