(* ===== verification/Errors.thy ===== *)
theory Errors
  imports Prelude
begin

text \<open>
  The library's error codes (\<open>nghttp2.h\<close>, \<open>nghttp2_int.h\<close>) as a datatype with the integer
  each one has on the wire of the C API, the test for fatal codes, and the two tables of
  messages of \<open>nghttp2_helper.c\<close>.
\<close>

datatype (plugins only: code size) nghttp2_error =
    NGHTTP2_ERR_INVALID_ARGUMENT
  | NGHTTP2_ERR_BUFFER_ERROR
  | NGHTTP2_ERR_UNSUPPORTED_VERSION
  | NGHTTP2_ERR_WOULDBLOCK
  | NGHTTP2_ERR_PROTO
  | NGHTTP2_ERR_INVALID_FRAME
  | NGHTTP2_ERR_EOF
  | NGHTTP2_ERR_DEFERRED
  | NGHTTP2_ERR_STREAM_ID_NOT_AVAILABLE
  | NGHTTP2_ERR_STREAM_CLOSED
  | NGHTTP2_ERR_STREAM_CLOSING
  | NGHTTP2_ERR_STREAM_SHUT_WR
  | NGHTTP2_ERR_INVALID_STREAM_ID
  | NGHTTP2_ERR_INVALID_STREAM_STATE
  | NGHTTP2_ERR_DEFERRED_DATA_EXIST
  | NGHTTP2_ERR_START_STREAM_NOT_ALLOWED
  | NGHTTP2_ERR_GOAWAY_ALREADY_SENT
  | NGHTTP2_ERR_INVALID_HEADER_BLOCK
  | NGHTTP2_ERR_INVALID_STATE
  | NGHTTP2_ERR_TEMPORAL_CALLBACK_FAILURE
  | NGHTTP2_ERR_FRAME_SIZE_ERROR
  | NGHTTP2_ERR_HEADER_COMP
  | NGHTTP2_ERR_FLOW_CONTROL
  | NGHTTP2_ERR_INSUFF_BUFSIZE
  | NGHTTP2_ERR_PAUSE
  | NGHTTP2_ERR_TOO_MANY_INFLIGHT_SETTINGS
  | NGHTTP2_ERR_PUSH_DISABLED
  | NGHTTP2_ERR_DATA_EXIST
  | NGHTTP2_ERR_SESSION_CLOSING
  | NGHTTP2_ERR_HTTP_HEADER
  | NGHTTP2_ERR_HTTP_MESSAGING
  | NGHTTP2_ERR_REFUSED_STREAM
  | NGHTTP2_ERR_INTERNAL
  | NGHTTP2_ERR_CANCEL
  | NGHTTP2_ERR_SETTINGS_EXPECTED
  | NGHTTP2_ERR_TOO_MANY_SETTINGS
  | NGHTTP2_ERR_FATAL
  | NGHTTP2_ERR_NOMEM
  | NGHTTP2_ERR_CALLBACK_FAILURE
  | NGHTTP2_ERR_BAD_CLIENT_MAGIC
  | NGHTTP2_ERR_FLOODED
  | NGHTTP2_ERR_CREDENTIAL_PENDING
  | NGHTTP2_ERR_IGN_HEADER_BLOCK
  | NGHTTP2_ERR_IGN_PAYLOAD
  | NGHTTP2_ERR_IGN_HTTP_HEADER
  | NGHTTP2_ERR_REMOVE_HTTP_HEADER

type_synonym 'a res = "nghttp2_error fault + 'a"

primrec err_code :: "nghttp2_error \<Rightarrow> int" where
  "err_code NGHTTP2_ERR_INVALID_ARGUMENT = - 501"
| "err_code NGHTTP2_ERR_BUFFER_ERROR = - 502"
| "err_code NGHTTP2_ERR_UNSUPPORTED_VERSION = - 503"
| "err_code NGHTTP2_ERR_WOULDBLOCK = - 504"
| "err_code NGHTTP2_ERR_PROTO = - 505"
| "err_code NGHTTP2_ERR_INVALID_FRAME = - 506"
| "err_code NGHTTP2_ERR_EOF = - 507"
| "err_code NGHTTP2_ERR_DEFERRED = - 508"
| "err_code NGHTTP2_ERR_STREAM_ID_NOT_AVAILABLE = - 509"
| "err_code NGHTTP2_ERR_STREAM_CLOSED = - 510"
| "err_code NGHTTP2_ERR_STREAM_CLOSING = - 511"
| "err_code NGHTTP2_ERR_STREAM_SHUT_WR = - 512"
| "err_code NGHTTP2_ERR_INVALID_STREAM_ID = - 513"
| "err_code NGHTTP2_ERR_INVALID_STREAM_STATE = - 514"
| "err_code NGHTTP2_ERR_DEFERRED_DATA_EXIST = - 515"
| "err_code NGHTTP2_ERR_START_STREAM_NOT_ALLOWED = - 516"
| "err_code NGHTTP2_ERR_GOAWAY_ALREADY_SENT = - 517"
| "err_code NGHTTP2_ERR_INVALID_HEADER_BLOCK = - 518"
| "err_code NGHTTP2_ERR_INVALID_STATE = - 519"
| "err_code NGHTTP2_ERR_TEMPORAL_CALLBACK_FAILURE = - 521"
| "err_code NGHTTP2_ERR_FRAME_SIZE_ERROR = - 522"
| "err_code NGHTTP2_ERR_HEADER_COMP = - 523"
| "err_code NGHTTP2_ERR_FLOW_CONTROL = - 524"
| "err_code NGHTTP2_ERR_INSUFF_BUFSIZE = - 525"
| "err_code NGHTTP2_ERR_PAUSE = - 526"
| "err_code NGHTTP2_ERR_TOO_MANY_INFLIGHT_SETTINGS = - 527"
| "err_code NGHTTP2_ERR_PUSH_DISABLED = - 528"
| "err_code NGHTTP2_ERR_DATA_EXIST = - 529"
| "err_code NGHTTP2_ERR_SESSION_CLOSING = - 530"
| "err_code NGHTTP2_ERR_HTTP_HEADER = - 531"
| "err_code NGHTTP2_ERR_HTTP_MESSAGING = - 532"
| "err_code NGHTTP2_ERR_REFUSED_STREAM = - 533"
| "err_code NGHTTP2_ERR_INTERNAL = - 534"
| "err_code NGHTTP2_ERR_CANCEL = - 535"
| "err_code NGHTTP2_ERR_SETTINGS_EXPECTED = - 536"
| "err_code NGHTTP2_ERR_TOO_MANY_SETTINGS = - 537"
| "err_code NGHTTP2_ERR_FATAL = - 900"
| "err_code NGHTTP2_ERR_NOMEM = - 901"
| "err_code NGHTTP2_ERR_CALLBACK_FAILURE = - 902"
| "err_code NGHTTP2_ERR_BAD_CLIENT_MAGIC = - 903"
| "err_code NGHTTP2_ERR_FLOODED = - 904"
| "err_code NGHTTP2_ERR_CREDENTIAL_PENDING = - 101"
| "err_code NGHTTP2_ERR_IGN_HEADER_BLOCK = - 103"
| "err_code NGHTTP2_ERR_IGN_PAYLOAD = - 104"
| "err_code NGHTTP2_ERR_IGN_HTTP_HEADER = - 105"
| "err_code NGHTTP2_ERR_REMOVE_HTTP_HEADER = - 106"

definition nghttp2_strerror :: "int \<Rightarrow> string" where
  "nghttp2_strerror error_code =
    (if error_code = 0 then ''Success''
     else if error_code = - 501 then ''Invalid argument''
     else if error_code = - 502 then ''Out of buffer space''
     else if error_code = - 503 then ''Unsupported SPDY version''
     else if error_code = - 504 then ''Operation would block''
     else if error_code = - 505 then ''Protocol error''
     else if error_code = - 506 then ''Invalid frame octets''
     else if error_code = - 507 then ''EOF''
     else if error_code = - 508 then ''Data transfer deferred''
     else if error_code = - 509 then ''No more Stream ID available''
     else if error_code = - 510 then ''Stream was already closed or invalid''
     else if error_code = - 511 then ''Stream is closing''
     else if error_code = - 512 then ''The transmission is not allowed for this stream''
     else if error_code = - 513 then ''Stream ID is invalid''
     else if error_code = - 514 then ''Invalid stream state''
     else if error_code = - 515 then ''Another DATA frame has already been deferred''
     else if error_code = - 516 then ''request HEADERS is not allowed''
     else if error_code = - 517 then ''GOAWAY has already been sent''
     else if error_code = - 518 then ''Invalid header block''
     else if error_code = - 519 then ''Invalid state''
     else if error_code = - 521 then ''The user callback function failed due to the temporal error''
     else if error_code = - 522 then ''The length of the frame is invalid''
     else if error_code = - 523 then ''Header compression/decompression error''
     else if error_code = - 524 then ''Flow control error''
     else if error_code = - 525 then ''Insufficient buffer size given to function''
     else if error_code = - 526 then ''Callback was paused by the application''
     else if error_code = - 527 then ''Too many inflight SETTINGS''
     else if error_code = - 528 then ''Server push is disabled by peer''
     else if error_code = - 529 then ''DATA or HEADERS frame has already been submitted for the stream''
     else if error_code = - 530 then ''The current session is closing''
     else if error_code = - 531 then ''Invalid HTTP header field was received''
     else if error_code = - 532 then ''Violation in HTTP messaging rule''
     else if error_code = - 533 then ''Stream was refused''
     else if error_code = - 534 then ''Internal error''
     else if error_code = - 535 then ''Cancel''
     else if error_code = - 536 then ''When a local endpoint expects to receive SETTINGS frame, it receives an other type of frame''
     else if error_code = - 901 then ''Out of memory''
     else if error_code = - 902 then ''The user callback function failed''
     else if error_code = - 903 then ''Received bad client magic byte string''
     else if error_code = - 904 then ''Flooding was detected in this HTTP/2 session, and it must be closed''
     else if error_code = - 537 then ''SETTINGS frame contained more than the maximum allowed entries''
     else ''Unknown error code'')"


text \<open>The HTTP/2 error codes carried by RST_STREAM and GOAWAY.\<close>

datatype http2_error_code =
    NGHTTP2_NO_ERROR
  | NGHTTP2_PROTOCOL_ERROR
  | NGHTTP2_INTERNAL_ERROR
  | NGHTTP2_FLOW_CONTROL_ERROR
  | NGHTTP2_SETTINGS_TIMEOUT
  | NGHTTP2_STREAM_CLOSED
  | NGHTTP2_FRAME_SIZE_ERROR
  | NGHTTP2_REFUSED_STREAM
  | NGHTTP2_CANCEL
  | NGHTTP2_COMPRESSION_ERROR
  | NGHTTP2_CONNECT_ERROR
  | NGHTTP2_ENHANCE_YOUR_CALM
  | NGHTTP2_INADEQUATE_SECURITY
  | NGHTTP2_HTTP_1_1_REQUIRED

primrec http2_code :: "http2_error_code \<Rightarrow> u32" where
  "http2_code NGHTTP2_NO_ERROR = 0"
| "http2_code NGHTTP2_PROTOCOL_ERROR = 1"
| "http2_code NGHTTP2_INTERNAL_ERROR = 2"
| "http2_code NGHTTP2_FLOW_CONTROL_ERROR = 3"
| "http2_code NGHTTP2_SETTINGS_TIMEOUT = 4"
| "http2_code NGHTTP2_STREAM_CLOSED = 5"
| "http2_code NGHTTP2_FRAME_SIZE_ERROR = 6"
| "http2_code NGHTTP2_REFUSED_STREAM = 7"
| "http2_code NGHTTP2_CANCEL = 8"
| "http2_code NGHTTP2_COMPRESSION_ERROR = 9"
| "http2_code NGHTTP2_CONNECT_ERROR = 10"
| "http2_code NGHTTP2_ENHANCE_YOUR_CALM = 11"
| "http2_code NGHTTP2_INADEQUATE_SECURITY = 12"
| "http2_code NGHTTP2_HTTP_1_1_REQUIRED = 13"

definition nghttp2_http2_strerror :: "u32 \<Rightarrow> string" where
  "nghttp2_http2_strerror error_code =
    (if error_code = 0 then ''NO_ERROR''
     else if error_code = 1 then ''PROTOCOL_ERROR''
     else if error_code = 2 then ''INTERNAL_ERROR''
     else if error_code = 3 then ''FLOW_CONTROL_ERROR''
     else if error_code = 4 then ''SETTINGS_TIMEOUT''
     else if error_code = 5 then ''STREAM_CLOSED''
     else if error_code = 6 then ''FRAME_SIZE_ERROR''
     else if error_code = 7 then ''REFUSED_STREAM''
     else if error_code = 8 then ''CANCEL''
     else if error_code = 9 then ''COMPRESSION_ERROR''
     else if error_code = 10 then ''CONNECT_ERROR''
     else if error_code = 11 then ''ENHANCE_YOUR_CALM''
     else if error_code = 12 then ''INADEQUATE_SECURITY''
     else if error_code = 13 then ''HTTP_1_1_REQUIRED''
     else ''unknown'')"

section \<open>Fatal codes\<close>

definition nghttp2_is_fatal :: "int \<Rightarrow> bool" where
  "nghttp2_is_fatal lib_error_code \<longleftrightarrow> lib_error_code < err_code NGHTTP2_ERR_FATAL"

lemma err_code_negative: "err_code e < 0"
  by (cases e) simp_all

lemma is_fatal_iff:
  "nghttp2_is_fatal (err_code e) \<longleftrightarrow>
     e \<in> {NGHTTP2_ERR_NOMEM, NGHTTP2_ERR_CALLBACK_FAILURE, NGHTTP2_ERR_BAD_CLIENT_MAGIC,
          NGHTTP2_ERR_FLOODED}"
  by (cases e) (simp_all add: nghttp2_is_fatal_def)

end
