(* ===== verification/Helper.thy ===== *)
theory Helper
  imports Errors
begin

text \<open>
  \<open>nghttp2_helper.c\<close>: integers in network byte order, the flow-control window arithmetic
  shared by the connection and its streams, and the table-driven checks of header names and
  values. The tables are the source's; each check is proved equivalent to a predicate on
  characters.
\<close>

section \<open>Network byte order\<close>

text \<open>The target is little-endian: \<open>htons\<close> and \<open>htonl\<close> swap bytes, and \<open>memcpy\<close> of an
  integer copies its least significant byte first.\<close>

definition htons :: "u16 \<Rightarrow> u16" where
  "htons n = push_bit 8 n OR drop_bit 8 n"

definition htonl :: "u32 \<Rightarrow> u32" where
  "htonl n = push_bit 24 n OR push_bit 16 (drop_bit 8 n AND mask 8) OR
             push_bit 8 (drop_bit 16 n AND mask 8) OR drop_bit 24 n"

definition image16 :: "u16 \<Rightarrow> bytes" where
  "image16 n = [ucast n, ucast (drop_bit 8 n)]"

definition image32 :: "u32 \<Rightarrow> bytes" where
  "image32 n = [ucast n, ucast (drop_bit 8 n), ucast (drop_bit 16 n), ucast (drop_bit 24 n)]"

fun load16 :: "bytes \<Rightarrow> u16" where
  "load16 (a # b # _) = ucast a OR push_bit 8 (ucast b)"
| "load16 _ = 0"

fun load32 :: "bytes \<Rightarrow> u32" where
  "load32 (a # b # c # d # _) =
     ucast a OR push_bit 8 (ucast b) OR push_bit 16 (ucast c) OR push_bit 24 (ucast d)"
| "load32 _ = 0"

definition nghttp2_put_uint16be :: "bytes \<Rightarrow> nat \<Rightarrow> u16 \<Rightarrow> bytes res" where
  "nghttp2_put_uint16be buf off n = of_option (mem_write buf off (image16 (htons n)))"

definition nghttp2_put_uint32be :: "bytes \<Rightarrow> nat \<Rightarrow> u32 \<Rightarrow> bytes res" where
  "nghttp2_put_uint32be buf off n = of_option (mem_write buf off (image32 (htonl n)))"

definition nghttp2_get_uint16 :: "bytes \<Rightarrow> nat \<Rightarrow> u16 res" where
  "nghttp2_get_uint16 data off =
     rbind (of_option (mem_read data off 2)) (\<lambda>bs. Inr (htons (load16 bs)))"

definition nghttp2_get_uint32 :: "bytes \<Rightarrow> nat \<Rightarrow> u32 res" where
  "nghttp2_get_uint32 data off =
     rbind (of_option (mem_read data off 4)) (\<lambda>bs. Inr (htonl (load32 bs)))"

lemma image16_htons: "image16 (htons n) = be16 n"
  by (auto simp: image16_def htons_def be16_def bit_eq_iff bit_simps)

lemma image32_htonl: "image32 (htonl n) = be32 n"
  by (auto simp: image32_def htonl_def be32_def bit_eq_iff bit_simps)

lemma htons_load16_be16 [simp]: "htons (load16 (be16 n)) = n"
  by (auto simp: htons_def be16_def bit_eq_iff bit_simps)

lemma byte_position_cases:
  assumes "k < (32 :: nat)"
  obtains j where "j < 8" "k = j" | j where "j < 8" "k = 8 + j"
  | j where "j < 8" "k = 16 + j" | j where "j < 8" "k = 24 + j"
proof -
  consider "k < 8" | "8 \<le> k" "k < 16" | "16 \<le> k" "k < 24" | "24 \<le> k" using assms by fastforce
  then show thesis
  proof cases
    case 1 then show ?thesis using that(1) by blast
  next
    case 2 then show ?thesis using that(2) [of "k - 8"] by simp
  next
    case 3 then show ?thesis using that(3) [of "k - 16"] by simp
  next
    case 4 then show ?thesis using that(4) [of "k - 24"] assms by simp
  qed
qed

lemma not_bit_beyond32: "32 \<le> k \<Longrightarrow> \<not> bit (n :: u32) k"
  by (auto dest: bit_imp_le_length)

lemma load32_be32: "load32 (be32 n) = htonl n"
proof (rule bit_word_eqI)
  fix k assume "k < LENGTH(32)"
  then have "k < 32" by simp
  then show "bit (load32 (be32 n)) k \<longleftrightarrow> bit (htonl n) k"
    by (cases rule: byte_position_cases) (simp_all add: be32_def htonl_def bit_simps not_bit_beyond32)
qed

lemma htonl_htonl: "htonl (htonl n) = n"
proof (rule bit_word_eqI)
  fix k assume "k < LENGTH(32)"
  then have "k < 32" by simp
  then show "bit (htonl (htonl n)) k \<longleftrightarrow> bit n k"
    by (cases rule: byte_position_cases) (simp_all add: htonl_def bit_simps)
qed

lemma htonl_load32_be32 [simp]: "htonl (load32 (be32 n)) = n"
  by (simp add: load32_be32 htonl_htonl)

lemma put_uint16be_eq: "nghttp2_put_uint16be buf off n = of_option (mem_write buf off (be16 n))"
  by (simp add: nghttp2_put_uint16be_def image16_htons)

lemma put_uint32be_eq: "nghttp2_put_uint32be buf off n = of_option (mem_write buf off (be32 n))"
  by (simp add: nghttp2_put_uint32be_def image32_htonl)

text \<open>What is stored in network order is read back.\<close>
lemma get_put_uint32:
  assumes "off + 4 \<le> length buf"
  shows "\<exists>buf'. nghttp2_put_uint32be buf off n = Inr buf' \<and> length buf' = length buf \<and>
           mem_read buf' off 4 = Some (be32 n) \<and> nghttp2_get_uint32 buf' off = Inr n"
proof -
  obtain buf' where w: "mem_write buf off (be32 n) = Some buf'"
    using mem_write_defined [of off "be32 n" buf] assms by auto
  have r: "mem_read buf' off 4 = Some (be32 n)"
    using mem_read_write_same [OF w] by simp
  then show ?thesis
    using w mem_write_length [OF w]
    by (simp add: put_uint32be_eq nghttp2_get_uint32_def)
qed

lemma get_put_uint16:
  assumes "off + 2 \<le> length buf"
  shows "\<exists>buf'. nghttp2_put_uint16be buf off n = Inr buf' \<and> length buf' = length buf \<and>
           mem_read buf' off 2 = Some (be16 n) \<and> nghttp2_get_uint16 buf' off = Inr n"
proof -
  obtain buf' where w: "mem_write buf off (be16 n) = Some buf'"
    using mem_write_defined [of off "be16 n" buf] assms by auto
  have r: "mem_read buf' off 2 = Some (be16 n)"
    using mem_read_write_same [OF w] by simp
  then show ?thesis
    using w mem_write_length [OF w]
    by (simp add: put_uint16be_eq nghttp2_get_uint16_def)
qed

definition nghttp2_cpymem :: "bytes \<Rightarrow> nat \<Rightarrow> bytes \<Rightarrow> (bytes \<times> nat) res" where
  "nghttp2_cpymem dest off src =
     (if length src = 0 then Inr (dest, off)
      else rbind (of_option (mem_write dest off src))
             (\<lambda>dest'. Inr (dest', off + length src)))"

section \<open>Lower case\<close>

definition DOWNCASE_TBL :: "u8 list" where
  "DOWNCASE_TBL = [
    0, 1, 2, 3, 4, 5, 6, 7, 8, 9, 10, 11, 12, 13, 14, 15,
    16, 17, 18, 19, 20, 21, 22, 23, 24, 25, 26, 27, 28, 29, 30, 31,
    32, 33, 34, 35, 36, 37, 38, 39, 40, 41, 42, 43, 44, 45, 46, 47,
    48, 49, 50, 51, 52, 53, 54, 55, 56, 57, 58, 59, 60, 61, 62, 63,
    64, 97, 98, 99, 100, 101, 102, 103, 104, 105, 106, 107, 108, 109, 110, 111,
    112, 113, 114, 115, 116, 117, 118, 119, 120, 121, 122, 91, 92, 93, 94, 95,
    96, 97, 98, 99, 100, 101, 102, 103, 104, 105, 106, 107, 108, 109, 110, 111,
    112, 113, 114, 115, 116, 117, 118, 119, 120, 121, 122, 123, 124, 125, 126, 127,
    128, 129, 130, 131, 132, 133, 134, 135, 136, 137, 138, 139, 140, 141, 142, 143,
    144, 145, 146, 147, 148, 149, 150, 151, 152, 153, 154, 155, 156, 157, 158, 159,
    160, 161, 162, 163, 164, 165, 166, 167, 168, 169, 170, 171, 172, 173, 174, 175,
    176, 177, 178, 179, 180, 181, 182, 183, 184, 185, 186, 187, 188, 189, 190, 191,
    192, 193, 194, 195, 196, 197, 198, 199, 200, 201, 202, 203, 204, 205, 206, 207,
    208, 209, 210, 211, 212, 213, 214, 215, 216, 217, 218, 219, 220, 221, 222, 223,
    224, 225, 226, 227, 228, 229, 230, 231, 232, 233, 234, 235, 236, 237, 238, 239,
    240, 241, 242, 243, 244, 245, 246, 247, 248, 249, 250, 251, 252, 253, 254, 255]"

text \<open>The loop writes the buffer in place, one byte after the other.\<close>

fun nghttp2_downcase :: "bytes \<Rightarrow> nat \<Rightarrow> bytes res" where
  "nghttp2_downcase s 0 = Inr s"
| "nghttp2_downcase s (Suc n) =
     rbind (nghttp2_downcase s n)
       (\<lambda>s'. if n < length s' then Inr (s'[n := DOWNCASE_TBL ! unat (s' ! n)])
             else Inl Undefined)"

section \<open>Characters allowed in header fields\<close>

text \<open>A check walks over the field and stops at the first byte whose table entry is 0.\<close>

fun all_valid :: "int list \<Rightarrow> bytes \<Rightarrow> bool" where
  "all_valid tbl [] = True"
| "all_valid tbl (c # cs) = (if tbl ! unat c = 0 then False else all_valid tbl cs)"

definition VALID_HD_NAME_CHARS :: "int list" where
  "VALID_HD_NAME_CHARS = [
    0, 0, 0, 0, 0, 0, 0, 0, 0, 0, 0, 0, 0, 0, 0, 0, 0, 0, 0, 0, 0, 0, 0, 0, 0, 0, 0, 0, 0, 0, 0, 0,
    0, 1, 0, 1, 1, 1, 1, 1, 0, 0, 1, 1, 0, 1, 1, 0, 1, 1, 1, 1, 1, 1, 1, 1, 1, 1, 0, 0, 0, 0, 0, 0,
    0, 0, 0, 0, 0, 0, 0, 0, 0, 0, 0, 0, 0, 0, 0, 0, 0, 0, 0, 0, 0, 0, 0, 0, 0, 0, 0, 0, 0, 0, 1, 1,
    1, 1, 1, 1, 1, 1, 1, 1, 1, 1, 1, 1, 1, 1, 1, 1, 1, 1, 1, 1, 1, 1, 1, 1, 1, 1, 1, 0, 1, 0, 1, 0,
    0, 0, 0, 0, 0, 0, 0, 0, 0, 0, 0, 0, 0, 0, 0, 0, 0, 0, 0, 0, 0, 0, 0, 0, 0, 0, 0, 0, 0, 0, 0, 0,
    0, 0, 0, 0, 0, 0, 0, 0, 0, 0, 0, 0, 0, 0, 0, 0, 0, 0, 0, 0, 0, 0, 0, 0, 0, 0, 0, 0, 0, 0, 0, 0,
    0, 0, 0, 0, 0, 0, 0, 0, 0, 0, 0, 0, 0, 0, 0, 0, 0, 0, 0, 0, 0, 0, 0, 0, 0, 0, 0, 0, 0, 0, 0, 0,
    0, 0, 0, 0, 0, 0, 0, 0, 0, 0, 0, 0, 0, 0, 0, 0, 0, 0, 0, 0, 0, 0, 0, 0, 0, 0, 0, 0, 0, 0, 0, 0]"

definition VALID_HD_VALUE_CHARS :: "int list" where
  "VALID_HD_VALUE_CHARS = [
    0, 0, 0, 0, 0, 0, 0, 0, 0, 1, 0, 0, 0, 0, 0, 0, 0, 0, 0, 0, 0, 0, 0, 0, 0, 0, 0, 0, 0, 0, 0, 0,
    1, 1, 1, 1, 1, 1, 1, 1, 1, 1, 1, 1, 1, 1, 1, 1, 1, 1, 1, 1, 1, 1, 1, 1, 1, 1, 1, 1, 1, 1, 1, 1,
    1, 1, 1, 1, 1, 1, 1, 1, 1, 1, 1, 1, 1, 1, 1, 1, 1, 1, 1, 1, 1, 1, 1, 1, 1, 1, 1, 1, 1, 1, 1, 1,
    1, 1, 1, 1, 1, 1, 1, 1, 1, 1, 1, 1, 1, 1, 1, 1, 1, 1, 1, 1, 1, 1, 1, 1, 1, 1, 1, 1, 1, 1, 1, 0,
    1, 1, 1, 1, 1, 1, 1, 1, 1, 1, 1, 1, 1, 1, 1, 1, 1, 1, 1, 1, 1, 1, 1, 1, 1, 1, 1, 1, 1, 1, 1, 1,
    1, 1, 1, 1, 1, 1, 1, 1, 1, 1, 1, 1, 1, 1, 1, 1, 1, 1, 1, 1, 1, 1, 1, 1, 1, 1, 1, 1, 1, 1, 1, 1,
    1, 1, 1, 1, 1, 1, 1, 1, 1, 1, 1, 1, 1, 1, 1, 1, 1, 1, 1, 1, 1, 1, 1, 1, 1, 1, 1, 1, 1, 1, 1, 1,
    1, 1, 1, 1, 1, 1, 1, 1, 1, 1, 1, 1, 1, 1, 1, 1, 1, 1, 1, 1, 1, 1, 1, 1, 1, 1, 1, 1, 1, 1, 1, 1]"

definition VALID_METHOD_CHARS :: "int list" where
  "VALID_METHOD_CHARS = [
    0, 0, 0, 0, 0, 0, 0, 0, 0, 0, 0, 0, 0, 0, 0, 0, 0, 0, 0, 0, 0, 0, 0, 0, 0, 0, 0, 0, 0, 0, 0, 0,
    0, 1, 0, 1, 1, 1, 1, 1, 0, 0, 1, 1, 0, 1, 1, 0, 1, 1, 1, 1, 1, 1, 1, 1, 1, 1, 0, 0, 0, 0, 0, 0,
    0, 1, 1, 1, 1, 1, 1, 1, 1, 1, 1, 1, 1, 1, 1, 1, 1, 1, 1, 1, 1, 1, 1, 1, 1, 1, 1, 0, 0, 0, 1, 1,
    1, 1, 1, 1, 1, 1, 1, 1, 1, 1, 1, 1, 1, 1, 1, 1, 1, 1, 1, 1, 1, 1, 1, 1, 1, 1, 1, 0, 1, 0, 1, 0,
    0, 0, 0, 0, 0, 0, 0, 0, 0, 0, 0, 0, 0, 0, 0, 0, 0, 0, 0, 0, 0, 0, 0, 0, 0, 0, 0, 0, 0, 0, 0, 0,
    0, 0, 0, 0, 0, 0, 0, 0, 0, 0, 0, 0, 0, 0, 0, 0, 0, 0, 0, 0, 0, 0, 0, 0, 0, 0, 0, 0, 0, 0, 0, 0,
    0, 0, 0, 0, 0, 0, 0, 0, 0, 0, 0, 0, 0, 0, 0, 0, 0, 0, 0, 0, 0, 0, 0, 0, 0, 0, 0, 0, 0, 0, 0, 0,
    0, 0, 0, 0, 0, 0, 0, 0, 0, 0, 0, 0, 0, 0, 0, 0, 0, 0, 0, 0, 0, 0, 0, 0, 0, 0, 0, 0, 0, 0, 0, 0]"

definition VALID_PATH_CHARS :: "int list" where
  "VALID_PATH_CHARS = [
    0, 0, 0, 0, 0, 0, 0, 0, 0, 0, 0, 0, 0, 0, 0, 0, 0, 0, 0, 0, 0, 0, 0, 0, 0, 0, 0, 0, 0, 0, 0, 0,
    0, 1, 1, 1, 1, 1, 1, 1, 1, 1, 1, 1, 1, 1, 1, 1, 1, 1, 1, 1, 1, 1, 1, 1, 1, 1, 1, 1, 1, 1, 1, 1,
    1, 1, 1, 1, 1, 1, 1, 1, 1, 1, 1, 1, 1, 1, 1, 1, 1, 1, 1, 1, 1, 1, 1, 1, 1, 1, 1, 1, 1, 1, 1, 1,
    1, 1, 1, 1, 1, 1, 1, 1, 1, 1, 1, 1, 1, 1, 1, 1, 1, 1, 1, 1, 1, 1, 1, 1, 1, 1, 1, 1, 1, 1, 1, 0,
    1, 1, 1, 1, 1, 1, 1, 1, 1, 1, 1, 1, 1, 1, 1, 1, 1, 1, 1, 1, 1, 1, 1, 1, 1, 1, 1, 1, 1, 1, 1, 1,
    1, 1, 1, 1, 1, 1, 1, 1, 1, 1, 1, 1, 1, 1, 1, 1, 1, 1, 1, 1, 1, 1, 1, 1, 1, 1, 1, 1, 1, 1, 1, 1,
    1, 1, 1, 1, 1, 1, 1, 1, 1, 1, 1, 1, 1, 1, 1, 1, 1, 1, 1, 1, 1, 1, 1, 1, 1, 1, 1, 1, 1, 1, 1, 1,
    1, 1, 1, 1, 1, 1, 1, 1, 1, 1, 1, 1, 1, 1, 1, 1, 1, 1, 1, 1, 1, 1, 1, 1, 1, 1, 1, 1, 1, 1, 1, 1]"

definition VALID_AUTHORITY_CHARS :: "int list" where
  "VALID_AUTHORITY_CHARS = [
    0, 0, 0, 0, 0, 0, 0, 0, 0, 0, 0, 0, 0, 0, 0, 0, 0, 0, 0, 0, 0, 0, 0, 0, 0, 0, 0, 0, 0, 0, 0, 0,
    0, 1, 0, 0, 1, 1, 1, 1, 1, 1, 1, 1, 1, 1, 1, 0, 1, 1, 1, 1, 1, 1, 1, 1, 1, 1, 1, 1, 0, 1, 0, 0,
    1, 1, 1, 1, 1, 1, 1, 1, 1, 1, 1, 1, 1, 1, 1, 1, 1, 1, 1, 1, 1, 1, 1, 1, 1, 1, 1, 1, 0, 1, 0, 1,
    0, 1, 1, 1, 1, 1, 1, 1, 1, 1, 1, 1, 1, 1, 1, 1, 1, 1, 1, 1, 1, 1, 1, 1, 1, 1, 1, 0, 0, 0, 1, 0,
    0, 0, 0, 0, 0, 0, 0, 0, 0, 0, 0, 0, 0, 0, 0, 0, 0, 0, 0, 0, 0, 0, 0, 0, 0, 0, 0, 0, 0, 0, 0, 0,
    0, 0, 0, 0, 0, 0, 0, 0, 0, 0, 0, 0, 0, 0, 0, 0, 0, 0, 0, 0, 0, 0, 0, 0, 0, 0, 0, 0, 0, 0, 0, 0,
    0, 0, 0, 0, 0, 0, 0, 0, 0, 0, 0, 0, 0, 0, 0, 0, 0, 0, 0, 0, 0, 0, 0, 0, 0, 0, 0, 0, 0, 0, 0, 0,
    0, 0, 0, 0, 0, 0, 0, 0, 0, 0, 0, 0, 0, 0, 0, 0, 0, 0, 0, 0, 0, 0, 0, 0, 0, 0, 0, 0, 0, 0, 0, 0]"

definition nghttp2_check_header_name :: "bytes \<Rightarrow> bool" where
  "nghttp2_check_header_name name =
     (if length name = 0 then False
      else if hd name = 58 then
        (if length name = 1 then False else all_valid VALID_HD_NAME_CHARS (tl name))
      else all_valid VALID_HD_NAME_CHARS name)"

definition nghttp2_check_header_value :: "bytes \<Rightarrow> bool" where
  "nghttp2_check_header_value value = all_valid VALID_HD_VALUE_CHARS value"

definition nghttp2_check_header_value_rfc9113 :: "bytes \<Rightarrow> bool" where
  "nghttp2_check_header_value_rfc9113 value =
     (if length value = 0 then True
      else if hd value = 32 \<or> hd value = 9 \<or> last value = 32 \<or> last value = 9 then False
      else nghttp2_check_header_value value)"

definition nghttp2_check_method :: "bytes \<Rightarrow> bool" where
  "nghttp2_check_method value =
     (if length value = 0 then False else all_valid VALID_METHOD_CHARS value)"

definition nghttp2_check_path :: "bytes \<Rightarrow> bool" where
  "nghttp2_check_path value = all_valid VALID_PATH_CHARS value"

definition nghttp2_check_authority :: "bytes \<Rightarrow> bool" where
  "nghttp2_check_authority value = all_valid VALID_AUTHORITY_CHARS value"

subsection \<open>The tables as predicates\<close>

definition ascii_digit :: "u8 \<Rightarrow> bool" where
  "ascii_digit c \<longleftrightarrow> 48 \<le> unat c \<and> unat c \<le> 57"

definition ascii_lower :: "u8 \<Rightarrow> bool" where
  "ascii_lower c \<longleftrightarrow> 97 \<le> unat c \<and> unat c \<le> 122"

definition ascii_upper :: "u8 \<Rightarrow> bool" where
  "ascii_upper c \<longleftrightarrow> 65 \<le> unat c \<and> unat c \<le> 90"

text \<open>The punctuation of a \<open>token\<close> (RFC 9110, 5.6.2): \<open>! # $ % & ' * + - . ^ _ ` | ~\<close>.\<close>

definition token_punct :: "u8 \<Rightarrow> bool" where
  "token_punct c \<longleftrightarrow> unat c \<in> {33, 35, 36, 37, 38, 39, 42, 43, 45, 46, 94, 95, 96, 124, 126}"

definition token_char :: "u8 \<Rightarrow> bool" where
  "token_char c \<longleftrightarrow> ascii_digit c \<or> ascii_lower c \<or> ascii_upper c \<or> token_punct c"

definition field_value_char :: "u8 \<Rightarrow> bool" where
  "field_value_char c \<longleftrightarrow> unat c = 9 \<or> 32 \<le> unat c \<and> unat c \<noteq> 127"

definition path_char :: "u8 \<Rightarrow> bool" where
  "path_char c \<longleftrightarrow> 33 \<le> unat c \<and> unat c \<noteq> 127"

lemmas char_defs = ascii_digit_def ascii_lower_def ascii_upper_def token_punct_def
  token_char_def field_value_char_def path_char_def

lemma VALID_HD_NAME_CHARS_runs:
  "VALID_HD_NAME_CHARS = expand 0
     [(33, 0), (34, 1), (35, 0), (40, 1), (42, 0), (44, 1), (45, 0), (47, 1), (48, 0),
       (58, 1), (94, 0), (123, 1), (124, 0), (125, 1), (126, 0), (127, 1), (256, 0)]"
  by (simp add: VALID_HD_NAME_CHARS_def replicate_numeral_Cons)

lemma VALID_HD_NAME_CHARS_iff:
  "VALID_HD_NAME_CHARS ! unat c \<noteq> 0 \<longleftrightarrow> token_char c \<and> \<not> ascii_upper c"
  by (subst table_runs [OF VALID_HD_NAME_CHARS_runs, where d = 0]) (auto simp: char_defs u8_less)

lemma VALID_HD_VALUE_CHARS_runs:
  "VALID_HD_VALUE_CHARS = expand 0
     [(9, 0), (10, 1), (32, 0), (127, 1), (128, 0), (256, 1)]"
  by (simp add: VALID_HD_VALUE_CHARS_def replicate_numeral_Cons)

lemma VALID_HD_VALUE_CHARS_iff:
  "VALID_HD_VALUE_CHARS ! unat c \<noteq> 0 \<longleftrightarrow> field_value_char c"
  by (subst table_runs [OF VALID_HD_VALUE_CHARS_runs, where d = 0]) (auto simp: char_defs u8_less)

lemma VALID_METHOD_CHARS_runs:
  "VALID_METHOD_CHARS = expand 0
     [(33, 0), (34, 1), (35, 0), (40, 1), (42, 0), (44, 1), (45, 0), (47, 1), (48, 0),
       (58, 1), (65, 0), (91, 1), (94, 0), (123, 1), (124, 0), (125, 1), (126, 0),
       (127, 1), (256, 0)]"
  by (simp add: VALID_METHOD_CHARS_def replicate_numeral_Cons)

lemma VALID_METHOD_CHARS_iff:
  "VALID_METHOD_CHARS ! unat c \<noteq> 0 \<longleftrightarrow> token_char c"
  by (subst table_runs [OF VALID_METHOD_CHARS_runs, where d = 0]) (auto simp: char_defs u8_less)

lemma VALID_PATH_CHARS_runs:
  "VALID_PATH_CHARS = expand 0
     [(33, 0), (127, 1), (128, 0), (256, 1)]"
  by (simp add: VALID_PATH_CHARS_def replicate_numeral_Cons)

lemma VALID_PATH_CHARS_iff:
  "VALID_PATH_CHARS ! unat c \<noteq> 0 \<longleftrightarrow> path_char c"
  by (subst table_runs [OF VALID_PATH_CHARS_runs, where d = 0]) (auto simp: char_defs u8_less)

lemma VALID_AUTHORITY_CHARS_runs:
  "VALID_AUTHORITY_CHARS = expand 0
     [(33, 0), (34, 1), (36, 0), (47, 1), (48, 0), (60, 1), (61, 0), (62, 1), (64, 0),
       (92, 1), (93, 0), (94, 1), (95, 0), (96, 1), (97, 0), (123, 1), (126, 0), (127, 1),
       (256, 0)]"
  by (simp add: VALID_AUTHORITY_CHARS_def replicate_numeral_Cons)

text \<open>The punctuation of an authority: from \<open>$\<close> to \<open>.\<close>, and \<open>! : ; = @ [ ] _ ~\<close>.\<close>

definition authority_char :: "u8 \<Rightarrow> bool" where
  "authority_char c \<longleftrightarrow> ascii_digit c \<or> ascii_lower c \<or> ascii_upper c \<or>
     36 \<le> unat c \<and> unat c \<le> 46 \<or> unat c \<in> {33, 58, 59, 61, 64, 91, 93, 95, 126}"

lemma VALID_AUTHORITY_CHARS_iff:
  "VALID_AUTHORITY_CHARS ! unat c \<noteq> 0 \<longleftrightarrow> authority_char c"
  by (subst table_runs [OF VALID_AUTHORITY_CHARS_runs, where d = 0])
    (auto simp: char_defs authority_char_def u8_less)

lemma all_valid_iff: "all_valid tbl cs \<longleftrightarrow> list_all (\<lambda>c. tbl ! unat c \<noteq> 0) cs"
  by (induction cs) auto

text \<open>The header-name check accepts exactly the lower-case tokens of RFC 9113, 8.2.1,
  with an optional leading colon that must be followed by something; the value check accepts
  tab and every byte that is neither a control character nor DEL; the method check accepts
  the nonempty tokens; the authority and path checks their character classes. So the
  generated tables and the loops over them are equivalent to predicates on characters.\<close>
theorem header_checks_iff:
  "(nghttp2_check_header_name name \<longleftrightarrow>
      (let body = (if name \<noteq> [] \<and> hd name = 58 then tl name else name)
       in body \<noteq> [] \<and> list_all (\<lambda>c. token_char c \<and> \<not> ascii_upper c) body)) \<and>
   (nghttp2_check_header_value value \<longleftrightarrow> list_all field_value_char value) \<and>
   (nghttp2_check_method value \<longleftrightarrow> value \<noteq> [] \<and> list_all token_char value) \<and>
   (nghttp2_check_authority value \<longleftrightarrow> list_all authority_char value) \<and>
   (nghttp2_check_path value \<longleftrightarrow> list_all path_char value)"
proof -
  have "length name = Suc 0 \<longleftrightarrow> tl name = []" if "name \<noteq> []"
    using that by (cases name) auto
  then show ?thesis
    by (simp add: nghttp2_check_header_name_def nghttp2_check_header_value_def
        nghttp2_check_method_def nghttp2_check_authority_def nghttp2_check_path_def
        all_valid_iff VALID_HD_NAME_CHARS_iff VALID_HD_VALUE_CHARS_iff VALID_METHOD_CHARS_iff
        VALID_AUTHORITY_CHARS_iff VALID_PATH_CHARS_iff Let_def)
qed

subsection \<open>Lower case\<close>

definition ascii_downcase :: "u8 \<Rightarrow> u8" where
  "ascii_downcase c = (if ascii_upper c then c + 32 else c)"

fun follows :: "(nat \<Rightarrow> nat) \<Rightarrow> nat \<Rightarrow> bytes \<Rightarrow> bool" where
  "follows f k [] = True"
| "follows f k (x # xs) = (unat x = f k \<and> follows f (Suc k) xs)"

lemma follows_nth: "follows f k xs \<Longrightarrow> i < length xs \<Longrightarrow> unat (xs ! i) = f (k + i)"
proof (induction xs arbitrary: k i)
  case (Cons x xs)
  then show ?case by (cases i) auto
qed simp

lemma DOWNCASE_TBL_follows:
  "follows (\<lambda>c. if 65 \<le> c \<and> c \<le> 90 then c + 32 else c) 0 DOWNCASE_TBL"
  by (simp add: DOWNCASE_TBL_def)

lemma DOWNCASE_TBL_nth: "DOWNCASE_TBL ! unat c = ascii_downcase c"
proof -
  have "length DOWNCASE_TBL = 256" by (simp add: DOWNCASE_TBL_def)
  then have "unat (DOWNCASE_TBL ! unat c) = (if ascii_upper c then unat c + 32 else unat c)"
    using follows_nth [OF DOWNCASE_TBL_follows, of "unat c"] u8_less [of c]
    by (simp add: ascii_upper_def)
  also have "\<dots> = unat (ascii_downcase c)"
    by (auto simp: ascii_downcase_def ascii_upper_def unat_word_ariths)
  finally show ?thesis by (simp only: word_unat_eq_iff)
qed

text \<open>\<open>nghttp2_downcase\<close> run over a whole buffer stays inside it and replaces each
  upper-case letter by its lower-case form and no other byte.\<close>
theorem downcase_correct: "nghttp2_downcase s (length s) = Inr (map ascii_downcase s)"
proof -
  have "nghttp2_downcase s n = Inr (map ascii_downcase (take n s) @ drop n s)"
    if "n \<le> length s" for n
    using that
  proof (induction n)
    case (Suc n)
    then show ?case
      by (simp add: nth_append DOWNCASE_TBL_nth list_update_append take_Suc_conv_app_nth
          Cons_nth_drop_Suc [symmetric])
  qed simp
  then show ?thesis by simp
qed

end
