(* ===== verification/Pq.thy ===== *)
theory Pq
  imports Errors "HOL-Library.Multiset"
begin

text \<open>
  \<open>nghttp2_pq.c\<close>: the binary heap that schedules streams. An entry is a pointer to a
  \<open>nghttp2_pq_entry\<close> inside a larger object; here it is a value of any type \<open>'e\<close>, and the
  field \<open>index\<close> of all entries is a function, so that the aliasing between the array and the
  entries is explicit. The locale \<open>pq_order\<close> is what the heap needs of the comparison function
  the client gives it, on the entries it holds.
\<close>

section \<open>State and operations\<close>

text \<open>\<open>q\<close> holds the first \<open>length\<close> slots of the array; \<open>capacity\<close> is the number of its slots.\<close>

record 'e pq =
  q :: "'e list"
  capacity :: nat
  index :: "'e \<Rightarrow> nat"

definition nghttp2_pq_init :: "('e \<Rightarrow> nat) \<Rightarrow> 'e pq" where
  "nghttp2_pq_init ix = \<lparr>q = [], capacity = 0, index = ix\<rparr>"

definition swap :: "'e pq \<Rightarrow> nat \<Rightarrow> nat \<Rightarrow> 'e pq" where
  "swap p i j =
     (let a = q p ! i; b = q p ! j
      in p\<lparr>q := (q p)[i := b, j := a], index := (index p)(b := i, a := j)\<rparr>)"

function bubble_up :: "('e \<Rightarrow> 'e \<Rightarrow> bool) \<Rightarrow> 'e pq \<Rightarrow> nat \<Rightarrow> 'e pq" where
  "bubble_up lt p i =
     (if i = 0 then p
      else let parent = (i - 1) div 2
           in if \<not> lt (q p ! i) (q p ! parent) then p
              else bubble_up lt (swap p parent i) parent)"
  by pat_completeness auto
termination by (relation "measure (\<lambda>(lt, p, i). i)") auto

text \<open>The inner loop of \<open>bubble_down\<close>: at most two children, starting at \<open>j\<close>.\<close>

fun min_child :: "('e \<Rightarrow> 'e \<Rightarrow> bool) \<Rightarrow> 'e list \<Rightarrow> nat \<Rightarrow> nat \<Rightarrow> nat \<Rightarrow> nat" where
  "min_child lt xs 0 j minindex = minindex"
| "min_child lt xs (Suc n) j minindex =
     (if j \<ge> length xs then minindex
      else min_child lt xs n (j + 1) (if lt (xs ! j) (xs ! minindex) then j else minindex))"

lemma min_child_2:
  "min_child lt xs 2 j k =
     (if length xs \<le> j then k
      else let m = (if lt (xs ! j) (xs ! k) then j else k)
           in if length xs \<le> j + 1 then m
              else if lt (xs ! (j + 1)) (xs ! m) then j + 1 else m)"
  by (simp add: numeral_2_eq_2 Let_def)

lemma min_child_bounds:
  "min_child lt xs 2 (k * 2 + 1) k \<noteq> k \<Longrightarrow>
     min_child lt xs 2 (k * 2 + 1) k < length xs \<and> k < min_child lt xs 2 (k * 2 + 1) k"
  by (auto simp: min_child_2 Let_def split: if_splits)

lemma length_swap [simp]: "length (q (swap p i j)) = length (q p)"
  by (simp add: swap_def Let_def)

function bubble_down :: "('e \<Rightarrow> 'e \<Rightarrow> bool) \<Rightarrow> 'e pq \<Rightarrow> nat \<Rightarrow> 'e pq" where
  "bubble_down lt p i =
     (let minindex = min_child lt (q p) 2 (i * 2 + 1) i
      in if minindex = i then p else bubble_down lt (swap p i minindex) minindex)"
  by pat_completeness auto
termination
  by (relation "measure (\<lambda>(lt, p, i). length (q p) - i)")
    (use min_child_bounds in \<open>fastforce+\<close>)

declare bubble_up.simps [simp del] bubble_down.simps [simp del]

text \<open>\<open>alloc n\<close> tells whether the allocator can provide \<open>n\<close> bytes. The sizes are
  \<open>size_t\<close>; a slot is a pointer of 4 bytes.\<close>

definition nghttp2_pq_push ::
  "(nat \<Rightarrow> bool) \<Rightarrow> ('e \<Rightarrow> 'e \<Rightarrow> bool) \<Rightarrow> 'e pq \<Rightarrow> 'e \<Rightarrow> 'e pq res" where
  "nghttp2_pq_push alloc lt p item =
     rbind (if capacity p \<le> length (q p) then
              let ncapacity = max 4 (capacity p * 2 mod 2 ^ 32);
                  request = ncapacity * 4 mod 2 ^ 32
              in if \<not> alloc request then Inl (Code NGHTTP2_ERR_NOMEM)
                 else if length (q p) < request div 4 then Inr (p\<lparr>capacity := ncapacity\<rparr>)
                 else Inl Undefined
            else Inr p) (\<lambda>p1.
     let p2 = p1\<lparr>q := q p1 @ [item], index := (index p1)(item := length (q p1))\<rparr>
     in Inr (bubble_up lt p2 (length (q p2) - 1)))"

definition nghttp2_pq_top :: "'e pq \<Rightarrow> 'e option" where
  "nghttp2_pq_top p = (if length (q p) = 0 then None else Some (q p ! 0))"

definition nghttp2_pq_pop :: "('e \<Rightarrow> 'e \<Rightarrow> bool) \<Rightarrow> 'e pq \<Rightarrow> 'e pq" where
  "nghttp2_pq_pop lt p =
     (if length (q p) > 0 then
        let moved = q p ! (length (q p) - 1);
            p1 = p\<lparr>q := butlast ((q p)[0 := moved]), index := (index p)(moved := 0)\<rparr>
        in bubble_down lt p1 0
      else p)"

definition nghttp2_pq_remove :: "('e \<Rightarrow> 'e \<Rightarrow> bool) \<Rightarrow> 'e pq \<Rightarrow> 'e \<Rightarrow> 'e pq res" where
  "nghttp2_pq_remove lt p item =
     (let i = index p item in
      if \<not> i < length (q p) then Inl Undefined
      else rbind (assert_that (q p ! i = item)) (\<lambda>_.
        if i = 0 then Inr (nghttp2_pq_pop lt p)
        else if i = length (q p) - 1 then Inr (p\<lparr>q := butlast (q p)\<rparr>)
        else
          let moved = q p ! (length (q p) - 1);
              p1 = p\<lparr>q := butlast ((q p)[i := moved]), index := (index p)(moved := i)\<rparr>
          in Inr (if lt item moved then bubble_down lt p1 i else bubble_up lt p1 i)))"

definition nghttp2_pq_empty :: "'e pq \<Rightarrow> bool" where
  "nghttp2_pq_empty p \<longleftrightarrow> length (q p) = 0"

definition nghttp2_pq_size :: "'e pq \<Rightarrow> nat" where
  "nghttp2_pq_size p = length (q p)"

text \<open>\<open>nghttp2_pq_update\<close> lets a callback change the objects \<open>h\<close> that contain the entries, and
  with them the order, then restores the heap from the last index to the first.\<close>

fun update_entries :: "('e \<Rightarrow> 'h \<Rightarrow> bool \<times> 'h) \<Rightarrow> 'e list \<Rightarrow> 'h \<Rightarrow> bool \<times> 'h" where
  "update_entries f [] h = (False, h)"
| "update_entries f (e # es) h =
     (let (changed, h1) = f e h; (rest, h2) = update_entries f es h1 in (changed \<or> rest, h2))"

fun bubble_down_all :: "('e \<Rightarrow> 'e \<Rightarrow> bool) \<Rightarrow> 'e pq \<Rightarrow> nat \<Rightarrow> 'e pq" where
  "bubble_down_all lt p 0 = p"
| "bubble_down_all lt p (Suc n) = bubble_down_all lt (bubble_down lt p n) n"

definition nghttp2_pq_update ::
  "('h \<Rightarrow> 'e \<Rightarrow> 'e \<Rightarrow> bool) \<Rightarrow> ('e \<Rightarrow> 'h \<Rightarrow> bool \<times> 'h) \<Rightarrow> 'e pq \<Rightarrow> 'h \<Rightarrow> 'e pq \<times> 'h" where
  "nghttp2_pq_update lt f p h =
     (if length (q p) = 0 then (p, h)
      else let (rv, h') = update_entries f (q p) h
           in if rv then (bubble_down_all (lt h') p (length (q p)), h') else (p, h'))"

fun each_entry :: "('e \<Rightarrow> 'h \<Rightarrow> bool \<times> 'h) \<Rightarrow> 'e list \<Rightarrow> 'h \<Rightarrow> bool \<times> 'h" where
  "each_entry f [] h = (False, h)"
| "each_entry f (e # es) h =
     (let (stop, h1) = f e h in if stop then (True, h1) else each_entry f es h1)"

definition nghttp2_pq_each :: "('e \<Rightarrow> 'h \<Rightarrow> bool \<times> 'h) \<Rightarrow> 'e pq \<Rightarrow> 'h \<Rightarrow> bool \<times> 'h" where
  "nghttp2_pq_each f p h = each_entry f (q p) h"

section \<open>Structure of the operations\<close>

text \<open>The index field of every entry of the heap is its position.\<close>

definition indexed :: "'e pq \<Rightarrow> bool" where
  "indexed p \<longleftrightarrow> (\<forall>i < length (q p). index p (q p ! i) = i)"

lemma indexed_distinct: "indexed p \<Longrightarrow> distinct (q p)"
  unfolding distinct_conv_nth indexed_def by metis

lemma mset_swap_entries:
  "i < length (q p) \<Longrightarrow> j < length (q p) \<Longrightarrow> mset (q (swap p i j)) = mset (q p)"
  by (simp add: swap_def Let_def mset_swap)

lemma set_swap_entries:
  "i < length (q p) \<Longrightarrow> j < length (q p) \<Longrightarrow> set (q (swap p i j)) = set (q p)"
  by (metis mset_swap_entries set_mset_mset)

lemma nth_swap:
  "i < length (q p) \<Longrightarrow> j < length (q p) \<Longrightarrow> k < length (q p) \<Longrightarrow>
     q (swap p i j) ! k = (if k = j then q p ! i else if k = i then q p ! j else q p ! k)"
  by (simp add: swap_def Let_def nth_list_update)

lemma index_swap:
  "index (swap p i j) = (index p)(q p ! j := i, q p ! i := j)"
  by (simp add: swap_def Let_def)

lemma capacity_swap [simp]: "capacity (swap p i j) = capacity p"
  by (simp add: swap_def Let_def)

lemma indexed_swap:
  assumes "indexed p" "i < length (q p)" "j < length (q p)"
  shows "indexed (swap p i j)"
  unfolding indexed_def
proof (intro allI impI)
  fix k assume k: "k < length (q (swap p i j))"
  have ix: "\<And>a b. a < length (q p) \<Longrightarrow> b < length (q p) \<Longrightarrow> q p ! a = q p ! b \<Longrightarrow> a = b"
    using assms(1) unfolding indexed_def by metis
  show "index (swap p i j) (q (swap p i j) ! k) = k"
    using k assms ix [of k i] ix [of k j] ix [of i j]
    by (auto simp: nth_swap index_swap indexed_def)
qed

lemma bubble_up_structure:
  "i < length (q p) \<Longrightarrow>
     mset (q (bubble_up lt p i)) = mset (q p) \<and> length (q (bubble_up lt p i)) = length (q p) \<and>
     capacity (bubble_up lt p i) = capacity p \<and>
     (indexed p \<longrightarrow> indexed (bubble_up lt p i))"
proof (induction lt p i rule: bubble_up.induct)
  case (1 lt p i)
  let ?par = "(i - 1) div 2"
  have par: "?par < length (q p)" using 1(2) by simp
  show ?case
  proof (cases "i = 0 \<or> \<not> lt (q p ! i) (q p ! ?par)")
    case True
    then show ?thesis by (subst (1 2 3 4) bubble_up.simps) (auto simp: Let_def)
  next
    case False
    then have step: "bubble_up lt p i = bubble_up lt (swap p ?par i) ?par"
      by (subst bubble_up.simps) (auto simp: Let_def)
    show ?thesis
      using 1(1) [OF _ refl] False par 1(2) unfolding step
      by (simp add: mset_swap_entries indexed_swap)
  qed
qed

lemma bubble_down_structure:
  "mset (q (bubble_down lt p i)) = mset (q p) \<and> length (q (bubble_down lt p i)) = length (q p) \<and>
     capacity (bubble_down lt p i) = capacity p \<and>
     (indexed p \<longrightarrow> indexed (bubble_down lt p i))"
proof (induction lt p i rule: bubble_down.induct)
  case (1 lt p i)
  let ?m = "min_child lt (q p) 2 (i * 2 + 1) i"
  show ?case
  proof (cases "?m = i")
    case True
    then show ?thesis by (subst (1 2 3 4) bubble_down.simps) (auto simp: Let_def)
  next
    case False
    then have step: "bubble_down lt p i = bubble_down lt (swap p i ?m) ?m"
      by (subst bubble_down.simps) (auto simp: Let_def)
    have "?m < length (q p)" "i < ?m" using min_child_bounds [OF False] by auto
    then show ?thesis
      using 1 [OF refl False] unfolding step
      by (simp add: mset_swap_entries indexed_swap)
  qed
qed

lemma bubble_down_all_structure:
  "mset (q (bubble_down_all lt p n)) = mset (q p) \<and>
     length (q (bubble_down_all lt p n)) = length (q p) \<and>
     capacity (bubble_down_all lt p n) = capacity p \<and>
     (indexed p \<longrightarrow> indexed (bubble_down_all lt p n))"
proof (induction n arbitrary: p)
  case (Suc n)
  then show ?case using bubble_down_structure [of lt p n] by simp
qed simp

lemma indexed_butlast: "indexed p \<Longrightarrow> indexed (p\<lparr>q := butlast (q p)\<rparr>)"
  by (simp add: indexed_def nth_butlast)

lemma replaced_nth:
  "i < length xs - 1 \<Longrightarrow> j < length xs - 1 \<Longrightarrow>
     butlast (xs[i := last xs]) ! j = (if j = i then last xs else xs ! j)"
  by (auto simp: nth_butlast nth_list_update)

lemma replaced_mset:
  assumes "i < length xs - 1"
  shows "mset (butlast (xs[i := last xs])) = mset xs - {#xs ! i#}"
proof -
  have ne: "xs \<noteq> []" using assms by auto
  have xs: "xs = butlast xs @ [last xs]" using ne by simp
  have "butlast (xs[i := last xs]) = (butlast xs)[i := last xs]"
    using assms by (simp add: butlast_list_update)
  then have "mset (butlast (xs[i := last xs])) =
      add_mset (last xs) (mset (butlast xs) - {#butlast xs ! i#})"
    using assms by (simp add: mset_update)
  also have "\<dots> = add_mset (last xs) (mset (butlast xs)) - {#butlast xs ! i#}"
    using assms by (simp add: nth_mem_mset)
  also have "add_mset (last xs) (mset (butlast xs)) = mset xs"
    using xs by (metis add_mset_add_single mset.simps mset_append)
  finally show ?thesis using assms by (simp add: nth_butlast)
qed

lemma replaced_set:
  "i < length xs - 1 \<Longrightarrow> set (butlast (xs[i := last xs])) \<subseteq> set xs"
  using replaced_mset [of i xs] by (metis in_diffD set_mset_mset subsetI)

lemma replaced_structure:
  assumes "indexed p" "i < length (q p) - 1"
  defines "p' \<equiv> p\<lparr>q := butlast ((q p)[i := last (q p)]), index := (index p)(last (q p) := i)\<rparr>"
  shows "indexed p'" "mset (butlast ((q p)[i := last (q p)])) = mset (q p) - {#q p ! i#}"
proof -
  have ne: "q p \<noteq> []" using assms by auto
  have d: "\<And>j. j < length (q p) - 1 \<Longrightarrow> q p ! j \<noteq> last (q p)"
  proof
    fix j assume j: "j < length (q p) - 1" "q p ! j = last (q p)"
    have "index p (q p ! j) = j" "index p (q p ! (length (q p) - 1)) = length (q p) - 1"
      using assms(1) j(1) ne unfolding indexed_def by force+
    then show False using j ne by (simp add: last_conv_nth)
  qed
  show "indexed p'"
    using assms d by (auto simp: indexed_def replaced_nth)
qed (rule replaced_mset [OF assms(2)])

section \<open>The order the client provides\<close>

definition parent :: "nat \<Rightarrow> nat" where
  "parent i = (i - 1) div 2"

text \<open>\<open>heap_from r lt xs\<close>: no entry comes before its parent, for the parents from \<open>r\<close> on.\<close>

definition heap_from :: "nat \<Rightarrow> ('e \<Rightarrow> 'e \<Rightarrow> bool) \<Rightarrow> 'e list \<Rightarrow> bool" where
  "heap_from r lt xs \<longleftrightarrow>
     (\<forall>i. 0 < i \<longrightarrow> i < length xs \<longrightarrow> r \<le> parent i \<longrightarrow> \<not> lt (xs ! i) (xs ! parent i))"

abbreviation heap :: "('e \<Rightarrow> 'e \<Rightarrow> bool) \<Rightarrow> 'e list \<Rightarrow> bool" where
  "heap \<equiv> heap_from 0"

text \<open>The heap with one entry, at \<open>k\<close>, that may have to move up, or down.\<close>

definition up_ok :: "('e \<Rightarrow> 'e \<Rightarrow> bool) \<Rightarrow> 'e list \<Rightarrow> nat \<Rightarrow> bool" where
  "up_ok lt xs k \<longleftrightarrow>
     (\<forall>i. 0 < i \<longrightarrow> i < length xs \<longrightarrow> i \<noteq> k \<longrightarrow> \<not> lt (xs ! i) (xs ! parent i)) \<and>
     (\<forall>i. 0 < i \<longrightarrow> i < length xs \<longrightarrow> parent i = k \<longrightarrow> 0 < k \<longrightarrow> \<not> lt (xs ! i) (xs ! parent k))"

definition down_ok :: "nat \<Rightarrow> ('e \<Rightarrow> 'e \<Rightarrow> bool) \<Rightarrow> 'e list \<Rightarrow> nat \<Rightarrow> bool" where
  "down_ok r lt xs k \<longleftrightarrow>
     (\<forall>i. 0 < i \<longrightarrow> i < length xs \<longrightarrow> r \<le> parent i \<longrightarrow> parent i \<noteq> k \<longrightarrow>
        \<not> lt (xs ! i) (xs ! parent i)) \<and>
     (\<forall>i. 0 < i \<longrightarrow> i < length xs \<longrightarrow> parent i = k \<longrightarrow> 0 < k \<longrightarrow> r \<le> parent k \<longrightarrow>
        \<not> lt (xs ! i) (xs ! parent k))"

lemma parent_less: "0 < i \<Longrightarrow> parent i < i"
  unfolding parent_def by linarith

lemma child_iff: "0 < i \<Longrightarrow> parent i = k \<longleftrightarrow> i = k * 2 + 1 \<or> i = k * 2 + 2"
  unfolding parent_def by linarith

lemma parent_child [simp]: "parent (Suc (k * 2)) = k" "parent (Suc (Suc (k * 2))) = k"
  by (simp_all add: parent_def)

lemma heap_fromD: "heap_from r lt xs \<Longrightarrow> 0 < i \<Longrightarrow> i < length xs \<Longrightarrow> r \<le> parent i \<Longrightarrow>
    \<not> lt (xs ! i) (xs ! parent i)"
  by (simp add: heap_from_def)

lemma heap_butlast: "heap lt xs \<Longrightarrow> heap lt (butlast xs)"
  unfolding heap_from_def
proof (intro allI impI)
  fix i
  assume h: "\<forall>i. 0 < i \<longrightarrow> i < length xs \<longrightarrow> 0 \<le> parent i \<longrightarrow> \<not> lt (xs ! i) (xs ! parent i)"
    and i: "0 < i" "i < length (butlast xs)"
  then show "\<not> lt (butlast xs ! i) (butlast xs ! parent i)"
    using parent_less [of i] by (simp add: nth_butlast)
qed

text \<open>What the queue promises between two operations: its entries belong to the set \<open>S\<close> on
  which the order is meaningful, they form a heap, each knows its position, and they fit the
  array.\<close>

definition pq_ok :: "'e set \<Rightarrow> ('e \<Rightarrow> 'e \<Rightarrow> bool) \<Rightarrow> 'e pq \<Rightarrow> bool" where
  "pq_ok S lt p \<longleftrightarrow> set (q p) \<subseteq> S \<and> heap lt (q p) \<and> indexed p \<and> length (q p) \<le> capacity p"

locale pq_order =
  fixes lt :: "'e \<Rightarrow> 'e \<Rightarrow> bool" and S :: "'e set"
  assumes asym: "a \<in> S \<Longrightarrow> b \<in> S \<Longrightarrow> lt a b \<Longrightarrow> \<not> lt b a"
    and negtrans: "a \<in> S \<Longrightarrow> b \<in> S \<Longrightarrow> c \<in> S \<Longrightarrow> \<not> lt a b \<Longrightarrow> \<not> lt b c \<Longrightarrow> \<not> lt a c"
begin

lemma lt_trans:
  "a \<in> S \<Longrightarrow> b \<in> S \<Longrightarrow> c \<in> S \<Longrightarrow> lt a b \<Longrightarrow> lt b c \<Longrightarrow> lt a c"
  using asym negtrans by blast

lemma min_child_spec:
  assumes "set xs \<subseteq> S" "k < length xs"
    and m: "m = min_child lt xs 2 (k * 2 + 1) k"
  shows min_child_lt: "m \<noteq> k \<Longrightarrow> 0 < m \<and> m < length xs \<and> parent m = k \<and> lt (xs ! m) (xs ! k)"
    and min_child_min: "0 < i \<Longrightarrow> i < length xs \<Longrightarrow> parent i = k \<Longrightarrow> i \<noteq> m \<Longrightarrow>
      \<not> lt (xs ! i) (xs ! m)"
proof -
  let ?a = "Suc (k * 2)" and ?b = "Suc (Suc (k * 2))"
  have mem: "\<And>i. i < length xs \<Longrightarrow> xs ! i \<in> S" using assms(1) by auto
  have meq: "m = (if length xs \<le> ?a then k
      else let c = (if lt (xs ! ?a) (xs ! k) then ?a else k)
           in if length xs \<le> ?b then c else if lt (xs ! ?b) (xs ! c) then ?b else c)"
    by (simp add: m min_child_2 Let_def)
  consider
      (stay) "m = k" "?a < length xs \<longrightarrow> \<not> lt (xs ! ?a) (xs ! k)"
        "?b < length xs \<longrightarrow> \<not> lt (xs ! ?b) (xs ! k)"
    | (first) "m = ?a" "?a < length xs" "lt (xs ! ?a) (xs ! k)"
        "?b < length xs \<longrightarrow> \<not> lt (xs ! ?b) (xs ! ?a)"
    | (second) "m = ?b" "?b < length xs" "lt (xs ! ?b) (xs ! ?a)" "lt (xs ! ?a) (xs ! k)"
    | (second') "m = ?b" "?b < length xs" "lt (xs ! ?b) (xs ! k)" "\<not> lt (xs ! ?a) (xs ! k)"
    using meq
    by (cases "length xs \<le> ?a"; cases "length xs \<le> ?b"; cases "lt (xs ! ?a) (xs ! k)";
        cases "lt (xs ! ?b) (xs ! ?a)"; cases "lt (xs ! ?b) (xs ! k)") simp_all
  note m_cases = this
  show "m \<noteq> k \<Longrightarrow> 0 < m \<and> m < length xs \<and> parent m = k \<and> lt (xs ! m) (xs ! k)"
    using m_cases
  proof cases
    case second
    then show ?thesis using lt_trans [OF mem mem mem, of ?b ?a k] assms(2) by simp
  qed simp_all
  assume i: "0 < i" "i < length xs" "parent i = k" "i \<noteq> m"
  then have ab: "i = ?a \<or> i = ?b" using child_iff [of i k] by simp
  show "\<not> lt (xs ! i) (xs ! m)"
    using m_cases
  proof cases
    case stay
    then show ?thesis using ab i by auto
  next
    case first
    then show ?thesis using ab i by auto
  next
    case second
    then show ?thesis using ab i asym [OF mem mem, of ?b ?a] by auto
  next
    case second'
    have "\<not> lt (xs ! k) (xs ! ?b)" using asym [OF mem mem, of ?b k] second' assms(2) by simp
    then show ?thesis
      using ab i second' negtrans [OF mem mem mem, of ?a k ?b] assms(2) by auto
  qed
qed

lemma up_ok_step:
  assumes S: "set (q p) \<subseteq> S" and k: "k < length (q p)" "0 < k" and up: "up_ok lt (q p) k"
    and lt: "lt (q p ! k) (q p ! parent k)"
  shows "up_ok lt (q (swap p (parent k) k)) (parent k)"
proof -
  let ?x = "q p" and ?y = "q (swap p (parent k) k)" and ?j = "parent k"
  have j: "?j < k" "?j < length ?x" using k parent_less [of k] by auto
  have y: "\<And>i. i < length ?x \<Longrightarrow>
      ?y ! i = (if i = k then ?x ! ?j else if i = ?j then ?x ! k else ?x ! i)"
    using k j by (simp add: nth_swap)
  have mem: "\<And>i. i < length ?x \<Longrightarrow> ?x ! i \<in> S" using S by auto
  have up1: "\<And>i. 0 < i \<Longrightarrow> i < length ?x \<Longrightarrow> i \<noteq> k \<Longrightarrow> \<not> lt (?x ! i) (?x ! parent i)"
    and up2: "\<And>i. 0 < i \<Longrightarrow> i < length ?x \<Longrightarrow> parent i = k \<Longrightarrow> \<not> lt (?x ! i) (?x ! ?j)"
    using up k by (auto simp: up_ok_def)
  have jk: "\<not> lt (?x ! ?j) (?x ! k)" using asym lt mem k j by blast
  show ?thesis
    unfolding up_ok_def length_swap
  proof (intro conjI allI impI)
    fix i assume i: "0 < i" "i < length ?x" "i \<noteq> ?j"
    have pi: "parent i < i" "parent i < length ?x" using i parent_less [of i] by auto
    consider "i = k" | "i \<noteq> k" "parent i = k" | "i \<noteq> k" "parent i = ?j"
      | "i \<noteq> k" "parent i \<noteq> k" "parent i \<noteq> ?j" by blast
    then show "\<not> lt (?y ! i) (?y ! parent i)"
    proof cases
      case 1 then show ?thesis using jk j k by (simp add: y)
    next
      case 2 then show ?thesis using up2 [of i] i pi k j by (simp add: y)
    next
      case 3
      then have "\<not> lt (?x ! i) (?x ! ?j)" using up1 [of i] i by metis
      then show ?thesis using 3 negtrans [OF mem mem mem _ jk, of i] i j k
        by (simp add: y)
    next
      case 4 then show ?thesis using up1 [of i] i pi by (simp add: y)
    qed
  next
    fix i assume i: "0 < i" "i < length ?x" "parent i = ?j" "0 < ?j"
    have jj: "\<not> lt (?x ! ?j) (?x ! parent ?j)" using up1 [of ?j] i j by simp
    have pj: "parent ?j < ?j" "parent ?j < length ?x" using i(4) j parent_less [of ?j] by auto
    have "\<not> lt (if i = k then ?x ! ?j else ?x ! i) (?x ! parent ?j)"
      using jj negtrans [OF mem mem mem _ jj, of i] up1 [of i] i j pj by auto
    then show "\<not> lt (?y ! i) (?y ! parent ?j)" using i j k pj by (auto simp: y)
  qed
qed

lemma down_ok_step:
  assumes S: "set (q p) \<subseteq> S" and k: "k < length (q p)" and down: "down_ok r lt (q p) k"
    and m: "m = min_child lt (q p) 2 (k * 2 + 1) k" "m \<noteq> k" and r: "r \<le> k"
  shows "down_ok r lt (q (swap p k m)) m"
proof -
  let ?x = "q p" and ?y = "q (swap p k m)"
  have mm: "0 < m" "m < length ?x" "parent m = k" and lt_mk: "lt (?x ! m) (?x ! k)"
    using min_child_lt [OF S k m(1,2)] by auto
  have km: "k < m" using mm parent_less [of m] by simp
  have sib: "\<And>i. 0 < i \<Longrightarrow> i < length ?x \<Longrightarrow> parent i = k \<Longrightarrow> i \<noteq> m \<Longrightarrow> \<not> lt (?x ! i) (?x ! m)"
    using min_child_min [OF S k m(1)] by blast
  have y: "\<And>i. i < length ?x \<Longrightarrow>
      ?y ! i = (if i = m then ?x ! k else if i = k then ?x ! m else ?x ! i)"
    using k mm by (simp add: nth_swap)
  have mem: "\<And>i. i < length ?x \<Longrightarrow> ?x ! i \<in> S" using S by auto
  have d1: "\<And>i. 0 < i \<Longrightarrow> i < length ?x \<Longrightarrow> r \<le> parent i \<Longrightarrow> parent i \<noteq> k \<Longrightarrow>
      \<not> lt (?x ! i) (?x ! parent i)"
    and d2: "\<And>i. 0 < i \<Longrightarrow> i < length ?x \<Longrightarrow> parent i = k \<Longrightarrow> 0 < k \<Longrightarrow> r \<le> parent k \<Longrightarrow>
      \<not> lt (?x ! i) (?x ! parent k)"
    using down by (auto simp: down_ok_def)
  show ?thesis
    unfolding down_ok_def length_swap
  proof (intro conjI allI impI)
    fix i assume i: "0 < i" "i < length ?x" "r \<le> parent i" "parent i \<noteq> m"
    have pi: "parent i < i" "parent i < length ?x" using i parent_less [of i] by auto
    consider "i = m" | "i = k" | "i \<noteq> m" "i \<noteq> k" "parent i = k"
      | "i \<noteq> m" "i \<noteq> k" "parent i \<noteq> k" by blast
    then show "\<not> lt (?y ! i) (?y ! parent i)"
    proof cases
      case 1 then show ?thesis using asym [OF mem mem lt_mk] mm k km by (simp add: y)
    next
      case 2 then show ?thesis using d2 [of m] mm i pi k km by (simp add: y)
    next
      case 3 then show ?thesis using sib [of i] i k km by (simp add: y)
    next
      case 4 then show ?thesis using d1 [of i] i pi by (simp add: y)
    qed
  next
    fix i assume i: "0 < i" "i < length ?x" "parent i = m" "0 < m" "r \<le> parent m"
    then have "m < i" using parent_less by blast
    then show "\<not> lt (?y ! i) (?y ! parent m)" using d1 [of i] i mm k km r by (simp add: y)
  qed
qed

lemma bubble_up_heap:
  "set (q p) \<subseteq> S \<Longrightarrow> i < length (q p) \<Longrightarrow> up_ok lt (q p) i \<Longrightarrow> heap lt (q (bubble_up lt p i))"
proof (induction i arbitrary: p rule: less_induct)
  case (less i)
  show ?case
  proof (cases "i = 0 \<or> \<not> lt (q p ! i) (q p ! parent i)")
    case True
    then have "bubble_up lt p i = p"
      by (subst bubble_up.simps) (auto simp: Let_def parent_def)
    moreover have "heap lt (q p)"
      unfolding heap_from_def
    proof (intro allI impI)
      fix j assume "0 < j" "j < length (q p)"
      then show "\<not> lt (q p ! j) (q p ! parent j)"
        using less.prems(3) True by (cases "j = i") (auto simp: up_ok_def)
    qed
    ultimately show ?thesis by simp
  next
    case False
    then have step: "bubble_up lt p i = bubble_up lt (swap p (parent i) i) (parent i)"
      by (subst bubble_up.simps) (auto simp: Let_def parent_def)
    have par: "parent i < i" using parent_less False by blast
    have len: "parent i < length (q p)" using par less.prems(2) by simp
    have "set (q (swap p (parent i) i)) \<subseteq> S"
      using set_swap_entries [OF len less.prems(2)] less.prems(1) by simp
    moreover have "up_ok lt (q (swap p (parent i) i)) (parent i)"
      using less.prems False by (intro up_ok_step) simp_all
    ultimately show ?thesis
      unfolding step using less.IH [OF par] len by simp
  qed
qed

lemma bubble_down_heap:
  "set (q p) \<subseteq> S \<Longrightarrow> i < length (q p) \<Longrightarrow> r \<le> i \<Longrightarrow> down_ok r lt (q p) i \<Longrightarrow>
     heap_from r lt (q (bubble_down lt p i))"
proof (induction "length (q p) - i" arbitrary: p i rule: less_induct)
  case less
  let ?m = "min_child lt (q p) 2 (i * 2 + 1) i"
  show ?case
  proof (cases "?m = i")
    case True
    then have "bubble_down lt p i = p"
      by (subst bubble_down.simps) (simp add: Let_def)
    moreover have "\<not> lt (q p ! j) (q p ! i)" if "0 < j" "j < length (q p)" "parent j = i" for j
    proof (cases "j = i")
      case False
      then show ?thesis
        using min_child_min [OF less.prems(1,2) refl, of j] that True by simp
    qed (use that parent_less [of j] in simp)
    ultimately show ?thesis
      unfolding heap_from_def using less.prems(4) unfolding down_ok_def by simp blast
  next
    case False
    then have step: "bubble_down lt p i = bubble_down lt (swap p i ?m) ?m"
      by (subst bubble_down.simps) (simp add: Let_def)
    have m: "?m < length (q p)" "i < ?m" using min_child_bounds [OF False] by auto
    have "set (q (swap p i ?m)) \<subseteq> S"
      using set_swap_entries [OF less.prems(2) m(1)] less.prems(1) by simp
    moreover have "down_ok r lt (q (swap p i ?m)) ?m"
      using less.prems False by (intro down_ok_step) simp_all
    ultimately show ?thesis
      unfolding step using less.hyps [of "swap p i ?m" ?m] m less.prems(2,3) by simp
  qed
qed

lemma bubble_down_all_heap:
  "set (q p) \<subseteq> S \<Longrightarrow> n \<le> length (q p) \<Longrightarrow> heap_from n lt (q p) \<Longrightarrow>
     heap lt (q (bubble_down_all lt p n))"
proof (induction n arbitrary: p)
  case (Suc n)
  have "down_ok n lt (q p) n"
    using Suc.prems(3) parent_less [of n] unfolding down_ok_def heap_from_def
    by (metis Suc_leI le_neq_implies_less not_le)
  then have "heap_from n lt (q (bubble_down lt p n))"
    using Suc.prems by (intro bubble_down_heap) simp_all
  then show ?case
    using Suc.IH [of "bubble_down lt p n"] bubble_down_structure [of lt p n] Suc.prems
    by (metis Suc_leD bubble_down_all.simps(2) mset_eq_setD)
qed simp

lemma heap_root:
  "set xs \<subseteq> S \<Longrightarrow> heap lt xs \<Longrightarrow> i < length xs \<Longrightarrow> \<not> lt (xs ! i) (xs ! 0)"
proof (induction i rule: less_induct)
  case (less i)
  show ?case
  proof (cases "i = 0")
    case True
    then show ?thesis using asym less.prems by (metis nth_mem subsetD)
  next
    case False
    then have p: "parent i < i" "\<not> lt (xs ! i) (xs ! parent i)"
      using parent_less [of i] heap_fromD [OF less.prems(2)] less.prems(3) by auto
    then have "\<not> lt (xs ! parent i) (xs ! 0)" using less by simp
    then show ?thesis
      using negtrans [of "xs ! i" "xs ! parent i" "xs ! 0"] p less.prems
      by (meson False gr_zeroI less_trans nth_mem subsetD)
  qed
qed

lemma replaced_ok:
  assumes S: "set xs \<subseteq> S" and h: "heap lt xs" and i: "0 < i" "i < length xs - 1"
  defines "ys \<equiv> butlast (xs[i := last xs])"
  shows "lt (xs ! i) (last xs) \<Longrightarrow> down_ok 0 lt ys i"
    and "\<not> lt (xs ! i) (last xs) \<Longrightarrow> up_ok lt ys i"
proof -
  have len: "length ys = length xs - 1" by (simp add: ys_def)
  have ne: "xs \<noteq> []" using i by auto
  have lastS: "last xs \<in> S" using S ne by auto
  have y: "\<And>j. j < length ys \<Longrightarrow> ys ! j = (if j = i then last xs else xs ! j)"
    unfolding ys_def using i by (auto simp: nth_butlast nth_list_update)
  have mem: "\<And>j. j < length ys \<Longrightarrow> xs ! j \<in> S" using S len by auto
  have hp: "\<And>j. 0 < j \<Longrightarrow> j < length ys \<Longrightarrow> \<not> lt (xs ! j) (xs ! parent j)"
    using heap_fromD [OF h] len by simp
  have pl: "\<And>j. 0 < j \<Longrightarrow> j < length ys \<Longrightarrow> parent j < length ys"
    using parent_less less_trans by blast
  have grand: "\<And>j. 0 < j \<Longrightarrow> j < length ys \<Longrightarrow> parent j = i \<Longrightarrow> \<not> lt (ys ! j) (ys ! parent i)"
  proof -
    fix j assume j: "0 < j" "j < length ys" "parent j = i"
    have "j \<noteq> i" "parent i \<noteq> i" "i < length ys"
      using j parent_less [of j] parent_less [of i] i pl [of j] by auto
    then show "\<not> lt (ys ! j) (ys ! parent i)"
      using negtrans [OF mem mem mem, of j i "parent i"] hp [of j] hp [of i] j i pl [of i]
      by (simp add: y)
  qed
  show "down_ok 0 lt ys i" if l: "lt (xs ! i) (last xs)"
    unfolding down_ok_def
  proof (intro conjI allI impI)
    fix j assume j: "0 < j" "j < length ys" "parent j \<noteq> i"
    have il: "i < length ys" using i len by simp
    show "\<not> lt (ys ! j) (ys ! parent j)"
    proof (cases "j = i")
      case True
      have "\<not> lt (last xs) (xs ! i)" using asym [OF mem lastS l] il by blast
      then show ?thesis
        using True negtrans [OF lastS mem mem, of i "parent i"] hp [of i] j pl [of j]
        by (simp add: y)
    next
      case False
      then show ?thesis using hp [of j] j pl [of j] by (simp add: y)
    qed
  qed (use grand in blast)
  show "up_ok lt ys i" if l: "\<not> lt (xs ! i) (last xs)"
    unfolding up_ok_def
  proof (intro conjI allI impI)
    fix j assume j: "0 < j" "j < length ys" "j \<noteq> i"
    show "\<not> lt (ys ! j) (ys ! parent j)"
    proof (cases "parent j = i")
      case True
      then show ?thesis
        using negtrans [OF mem mem lastS _ l, of j] hp [of j] j pl [of j] by (simp add: y)
    next
      case False
      then show ?thesis using hp [of j] j pl [of j] by (simp add: y)
    qed
  qed (use grand in blast)
qed

lemma pq_okD: "pq_ok S lt p \<Longrightarrow> set (q p) \<subseteq> S" "pq_ok S lt p \<Longrightarrow> heap lt (q p)" "pq_ok S lt p \<Longrightarrow> indexed p"
  "pq_ok S lt p \<Longrightarrow> length (q p) \<le> capacity p"
  by (simp_all add: pq_ok_def)

lemma init_ok: "pq_ok S lt (nghttp2_pq_init ix)"
  by (simp add: pq_ok_def nghttp2_pq_init_def heap_from_def indexed_def)

lemma bubble_up_ok:
  assumes "set (q p) \<subseteq> S" "indexed p" "length (q p) \<le> capacity p"
    and "i < length (q p)" "up_ok lt (q p) i"
  shows "pq_ok S lt (bubble_up lt p i) \<and> mset (q (bubble_up lt p i)) = mset (q p)"
  using assms bubble_up_structure [of i p lt] bubble_up_heap [of p i]
  by (metis mset_eq_setD pq_ok_def)

lemma bubble_down_ok:
  assumes "set (q p) \<subseteq> S" "indexed p" "length (q p) \<le> capacity p"
    and "i < length (q p)" "down_ok 0 lt (q p) i"
  shows "pq_ok S lt (bubble_down lt p i) \<and> mset (q (bubble_down lt p i)) = mset (q p)"
  using assms bubble_down_structure [of lt p i] bubble_down_heap [of p i 0]
  by (metis le0 mset_eq_setD pq_ok_def)

lemma appended_ok:
  assumes ok: "pq_ok S lt p" and item: "item \<in> S" "item \<notin> set (q p)"
    and c: "length (q p) < c"
  defines "p' \<equiv> p\<lparr>capacity := c, q := q p @ [item], index := (index p)(item := length (q p))\<rparr>"
  shows "set (q p') \<subseteq> S" "indexed p'" "length (q p') \<le> capacity p'"
    "up_ok lt (q p') (length (q p))"
proof -
  show "set (q p') \<subseteq> S" "length (q p') \<le> capacity p'"
    using pq_okD [OF ok] item c by (auto simp: p'_def)
  show "indexed p'"
    using pq_okD(3) [OF ok] item(2) by (auto simp: p'_def indexed_def nth_append less_Suc_eq)
  show "up_ok lt (q p') (length (q p))"
    unfolding up_ok_def
  proof (intro conjI allI impI)
    fix i assume "0 < i" "i < length (q p')" "i \<noteq> length (q p)"
    then show "\<not> lt (q p' ! i) (q p' ! parent i)"
      using heap_fromD [OF pq_okD(2) [OF ok], of i] parent_less [of i]
      by (simp add: p'_def nth_append)
  next
    fix i assume "0 < i" "i < length (q p')" "parent i = length (q p)"
    then show "\<not> lt (q p' ! i) (q p' ! parent (length (q p)))"
      using parent_less [of i] by (simp add: p'_def)
  qed
qed

lemma push_ok:
  assumes ok: "pq_ok S lt p" and item: "item \<in> S" "item \<notin> set (q p)"
    and room: "capacity p < 2 ^ 29"
  shows "nghttp2_pq_push alloc lt p item = Inl (Code NGHTTP2_ERR_NOMEM) \<and>
           capacity p = length (q p) \<and> \<not> alloc (max 4 (capacity p * 2) * 4)
       \<or> (\<exists>p'. nghttp2_pq_push alloc lt p item = Inr p' \<and> pq_ok S lt p' \<and>
             mset (q p') = add_mset item (mset (q p)))"
proof (cases "capacity p \<le> length (q p)")
  case False
  let ?p = "p\<lparr>capacity := capacity p, q := q p @ [item],
              index := (index p)(item := length (q p))\<rparr>"
  have "nghttp2_pq_push alloc lt p item = Inr (bubble_up lt ?p (length (q p)))"
    using False by (simp add: nghttp2_pq_push_def)
  moreover have "pq_ok S lt (bubble_up lt ?p (length (q p))) \<and>
      mset (q (bubble_up lt ?p (length (q p)))) = mset (q ?p)"
    using appended_ok [OF ok item, of "capacity p"] False by (intro bubble_up_ok) auto
  ultimately show ?thesis by simp
next
  case True
  define nc where "nc = max 4 (length (q p) * 2)"
  have eq: "capacity p = length (q p)" using True pq_okD(4) [OF ok] by simp
  then have fits: "length (q p) * 2 mod 2 ^ 32 = length (q p) * 2" "nc * 4 mod 2 ^ 32 = nc * 4"
    using room by (simp_all add: nc_def max_def)
  have lt_nc: "length (q p) < nc"
    by (cases "length (q p) = 0") (simp_all add: nc_def max_def)
  have push: "nghttp2_pq_push alloc lt p item =
      (if \<not> alloc (nc * 4) then Inl (Code NGHTTP2_ERR_NOMEM)
       else Inr (bubble_up lt (p\<lparr>capacity := nc, q := q p @ [item],
                   index := (index p)(item := length (q p))\<rparr>) (length (q p))))"
    unfolding nghttp2_pq_push_def eq Let_def fits(1) nc_def [symmetric] fits(2)
    using lt_nc by simp
  show ?thesis
  proof (cases "alloc (nc * 4)")
    case False
    then show ?thesis using eq push by (simp add: nc_def)
  next
    case alloc: True
    let ?p = "p\<lparr>capacity := nc, q := q p @ [item], index := (index p)(item := length (q p))\<rparr>"
    have "nghttp2_pq_push alloc lt p item = Inr (bubble_up lt ?p (length (q p)))"
      using alloc push by simp
    moreover have "pq_ok S lt (bubble_up lt ?p (length (q p))) \<and>
        mset (q (bubble_up lt ?p (length (q p)))) = mset (q ?p)"
      using appended_ok [OF ok item lt_nc] by (intro bubble_up_ok) auto
    ultimately show ?thesis by simp
  qed
qed

lemma top_minimum:
  "pq_ok S lt p \<Longrightarrow> nghttp2_pq_top p = Some e \<Longrightarrow> e \<in> set (q p) \<and> (\<forall>x \<in> set (q p). \<not> lt x e)"
  using heap_root [of "q p"] pq_okD
  by (fastforce simp: nghttp2_pq_top_def in_set_conv_nth split: if_splits)

lemma pop_ok:
  assumes ok: "pq_ok S lt p" and ne: "q p \<noteq> []"
  shows "pq_ok S lt (nghttp2_pq_pop lt p) \<and>
         mset (q (nghttp2_pq_pop lt p)) = mset (q p) - {#q p ! 0#}"
proof (cases "length (q p) = 1")
  case True
  then obtain e where e: "q p = [e]" by (cases "q p") auto
  have "bubble_down lt (p\<lparr>q := [], index := (index p)(e := 0)\<rparr>) 0 =
      p\<lparr>q := [], index := (index p)(e := 0)\<rparr>"
    by (subst bubble_down.simps) (simp add: min_child_2)
  then show ?thesis using e
    by (simp add: nghttp2_pq_pop_def pq_ok_def heap_from_def indexed_def)
next
  case False
  let ?ys = "butlast ((q p)[0 := last (q p)])"
  let ?p = "p\<lparr>q := ?ys, index := (index p)(last (q p) := 0)\<rparr>"
  have pos: "0 < length (q p) - 1" using False ne by (cases "q p") auto
  have pop: "nghttp2_pq_pop lt p = bubble_down lt ?p 0"
    using ne by (simp add: nghttp2_pq_pop_def Let_def last_conv_nth)
  note st = replaced_structure [OF pq_okD(3) [OF ok] pos]
  have S: "set ?ys \<subseteq> S"
    using replaced_set [OF pos] pq_okD(1) [OF ok] by auto
  have "down_ok 0 lt ?ys 0"
    unfolding down_ok_def
  proof (intro conjI allI impI)
    fix j assume j: "0 < j" "j < length ?ys" "parent j \<noteq> 0"
    then show "\<not> lt (?ys ! j) (?ys ! parent j)"
      using heap_fromD [OF pq_okD(2) [OF ok], of j] parent_less [of j]
      by (simp add: nth_butlast)
  qed simp
  then show ?thesis
    unfolding pop using bubble_down_ok [of ?p 0] S st pq_okD(4) [OF ok] pos by simp
qed

lemma remove_ok:
  assumes ok: "pq_ok S lt p" and item: "item \<in> set (q p)"
  shows "\<exists>p'. nghttp2_pq_remove lt p item = Inr p' \<and> pq_ok S lt p' \<and>
              mset (q p') = mset (q p) - {#item#}"
proof -
  obtain i where i: "i < length (q p)" "q p ! i = item" using item by (auto simp: in_set_conv_nth)
  then have ix: "index p item = i" using pq_okD(3) [OF ok] by (auto simp: indexed_def)
  have ne: "q p \<noteq> []" using item by auto
  consider "i = 0" | "0 < i" "i = length (q p) - 1" | "0 < i" "i < length (q p) - 1"
    using i(1) by linarith
  then show ?thesis
  proof cases
    case 1
    then show ?thesis using pop_ok [OF ok ne] i ix by (simp add: nghttp2_pq_remove_def)
  next
    case 2
    then have item: "item = last (q p)" using i ne by (simp add: last_conv_nth)
    have "q p = butlast (q p) @ [item]" using ne item by simp
    then have m: "mset (q p) = add_mset item (mset (butlast (q p)))"
      by (metis add_mset_add_single mset.simps mset_append)
    have "pq_ok S lt (p\<lparr>q := butlast (q p)\<rparr>)"
      using ok heap_butlast indexed_butlast
      by (auto simp: pq_ok_def dest: in_set_butlastD)
    then show ?thesis using 2 i ix m by (simp add: nghttp2_pq_remove_def)
  next
    case 3
    let ?ys = "butlast ((q p)[i := last (q p)])"
    let ?p = "p\<lparr>q := ?ys, index := (index p)(last (q p) := i)\<rparr>"
    have rm: "nghttp2_pq_remove lt p item =
        Inr (if lt item (last (q p)) then bubble_down lt ?p i else bubble_up lt ?p i)"
      using 3 i ix ne by (simp add: nghttp2_pq_remove_def Let_def last_conv_nth)
    note st = replaced_structure [OF pq_okD(3) [OF ok] 3(2)]
    have S: "set (q ?p) \<subseteq> S" "indexed ?p" "length (q ?p) \<le> capacity ?p" "i < length (q ?p)"
      using replaced_set [OF 3(2)] pq_okD(1,4) [OF ok] st 3(2) by auto
    note ro = replaced_ok [OF pq_okD(1,2) [OF ok] 3]
    show ?thesis
    proof (cases "lt item (last (q p))")
      case True
      then show ?thesis unfolding rm
        using bubble_down_ok [OF S] ro(1) i(2) st(2) by simp
    next
      case False
      then show ?thesis unfolding rm
        using bubble_up_ok [OF S] ro(2) i(2) st(2) by simp
    qed
  qed
qed

lemma update_ok:
  assumes S: "set (q p) \<subseteq> S" and ix: "indexed p" "length (q p) \<le> capacity p"
    and f: "update_entries f (q p) h = (True, h')" and lts: "lts h' = lt"
  shows "pq_ok S lt (fst (nghttp2_pq_update lts f p h)) \<and>
         mset (q (fst (nghttp2_pq_update lts f p h))) = mset (q p)"
proof -
  have "q p \<noteq> []" using f by auto
  then have u: "fst (nghttp2_pq_update lts f p h) = bubble_down_all lt p (length (q p))"
    using f lts by (simp add: nghttp2_pq_update_def)
  have "heap_from (length (q p)) lt (q p)"
    using parent_less by (auto simp: heap_from_def dest: leD intro: less_trans)
  then have "heap lt (q (bubble_down_all lt p (length (q p))))"
    by (intro bubble_down_all_heap S) simp_all
  then show ?thesis
    using u bubble_down_all_structure [of lt p "length (q p)"] S ix
    by (simp add: pq_ok_def) (metis mset_eq_setD)
qed

end

end
