(* ===== verification/Window.thy ===== *)
theory Window
  imports Errors "HOL-Library.Signed_Division"
begin

text \<open>
  The flow-control window arithmetic of \<open>nghttp2_helper.c\<close>, shared by the connection and its
  streams. The four \<open>int32_t\<close> variables the functions update through pointers are the record
  \<open>window\<close> and a \<open>delta\<close>; every C expression on them is evaluated by \<open>i32\<close>, so that a signed
  overflow is the outcome \<open>Undefined\<close>.
\<close>

record window =
  local_window_size :: int
  recv_window_size :: int
  recv_reduction :: int

definition NGHTTP2_MAX_WINDOW_SIZE :: int where
  "NGHTTP2_MAX_WINDOW_SIZE = 2147483647"

text \<open>The first branch of \<open>nghttp2_adjust_local_window_size\<close> after the received bytes have been
  returned: \<open>delta\<close> is what is left to add to the window.\<close>

definition adjust_enlarge :: "window \<Rightarrow> int \<Rightarrow> int \<Rightarrow> (window \<times> int) res" where
  "adjust_enlarge w delta_ptr delta =
     rbind (i32 (NGHTTP2_MAX_WINDOW_SIZE - delta)) (\<lambda>room.
     if local_window_size w > room then Inl (Code NGHTTP2_ERR_FLOW_CONTROL)
     else
       rbind (i32 (local_window_size w + delta)) (\<lambda>lws.
       let recv_reduction_delta = min (recv_reduction w) delta in
       rbind (i32 (recv_reduction w - recv_reduction_delta)) (\<lambda>red.
       rbind (if recv_window_size w < 0 then i32 (recv_window_size w + recv_reduction_delta)
              else Inr recv_reduction_delta) (\<lambda>recv.
       rbind (i32 (delta_ptr - recv_reduction_delta)) (\<lambda>delta_ptr'.
       Inr (w\<lparr>local_window_size := lws, recv_window_size := recv, recv_reduction := red\<rparr>,
            delta_ptr'))))))"

text \<open>The test of the decreasing branch, evaluated from left to right with the short circuit
  of \<open>||\<close>.\<close>

definition adjust_refused :: "window \<Rightarrow> int \<Rightarrow> bool res" where
  "adjust_refused w delta_ptr =
     rbind (i32 (local_window_size w + delta_ptr)) (\<lambda>a.
     if a < 0 then Inr True
     else rbind (i32 (INT32_MIN - delta_ptr)) (\<lambda>b.
       if recv_window_size w < b then Inr True
       else rbind (i32 (INT32_MAX + delta_ptr)) (\<lambda>c.
         Inr (recv_reduction w > c))))"

definition nghttp2_adjust_local_window_size :: "window \<Rightarrow> int \<Rightarrow> (window \<times> int) res" where
  "nghttp2_adjust_local_window_size w delta_ptr =
     (if delta_ptr > 0 then
        rbind (i32 (max 0 (recv_window_size w) - delta_ptr)) (\<lambda>new_recv_window_size.
        if new_recv_window_size \<ge> 0
        then Inr (w\<lparr>recv_window_size := new_recv_window_size\<rparr>, delta_ptr)
        else rbind (i32 (- new_recv_window_size)) (\<lambda>delta. adjust_enlarge w delta_ptr delta))
      else
        rbind (adjust_refused w delta_ptr) (\<lambda>refused.
        if refused then Inl (Code NGHTTP2_ERR_FLOW_CONTROL)
        else
          rbind (i32 (local_window_size w + delta_ptr)) (\<lambda>lws.
          rbind (i32 (recv_window_size w + delta_ptr)) (\<lambda>recv.
          rbind (i32 (recv_reduction w - delta_ptr)) (\<lambda>red.
          Inr (w\<lparr>local_window_size := lws, recv_window_size := recv, recv_reduction := red\<rparr>,
               0))))))"

definition nghttp2_increase_local_window_size :: "window \<Rightarrow> int \<Rightarrow> (window \<times> int) res" where
  "nghttp2_increase_local_window_size w delta_ptr =
     rbind (assert_that (delta_ptr \<ge> 0)) (\<lambda>_.
     rbind (i32 (NGHTTP2_MAX_WINDOW_SIZE - delta_ptr)) (\<lambda>room.
     if local_window_size w > room then Inl (Code NGHTTP2_ERR_FLOW_CONTROL)
     else
       rbind (i32 (local_window_size w + delta_ptr)) (\<lambda>lws.
       let recv_reduction_delta = min (recv_reduction w) delta_ptr in
       rbind (i32 (recv_reduction w - recv_reduction_delta)) (\<lambda>red.
       rbind (i32 (recv_window_size w + recv_reduction_delta)) (\<lambda>recv.
       rbind (i32 (delta_ptr - recv_reduction_delta)) (\<lambda>delta'.
       Inr (w\<lparr>local_window_size := lws, recv_window_size := recv, recv_reduction := red\<rparr>,
            delta')))))))"

definition nghttp2_should_send_window_update :: "int \<Rightarrow> int \<Rightarrow> bool" where
  "nghttp2_should_send_window_update local_size recv_size \<longleftrightarrow>
     recv_size > 0 \<and> recv_size \<ge> local_size sdiv 2"

section \<open>The invariant of a window\<close>

text \<open>The sizes fit their type, neither the window nor the reduction is negative, together they
  never exceed the largest window of the protocol, and no more bytes are accounted as received
  than the window holds.\<close>

definition window_ok :: "window \<Rightarrow> bool" where
  "window_ok w \<longleftrightarrow> 0 \<le> local_window_size w \<and> 0 \<le> recv_reduction w \<and>
     local_window_size w + recv_reduction w \<le> NGHTTP2_MAX_WINDOW_SIZE \<and>
     INT32_MIN \<le> recv_window_size w \<and> recv_window_size w \<le> local_window_size w"

text \<open>The bytes the peer may still send: what is left of the window after what was received.\<close>

definition available :: "window \<Rightarrow> int" where
  "available w = local_window_size w - recv_window_size w"

lemmas window_arith = window_ok_def available_def NGHTTP2_MAX_WINDOW_SIZE_def i32_range

text \<open>The outcome of a window operation, given when it refuses, the new size, the new reduction, and the
  bytes it reports back to be announced to the peer.\<close>

definition window_outcome :: "window \<Rightarrow> bool \<Rightarrow> int \<Rightarrow> int \<Rightarrow> int \<Rightarrow> (window \<times> int) res \<Rightarrow> bool" where
  "window_outcome w refused lws reduction reported r \<longleftrightarrow>
     (if refused then r = Inl (Code NGHTTP2_ERR_FLOW_CONTROL)
      else 0 \<le> reported \<and> (\<exists>w'. r = Inr (w', reported) \<and> window_ok w' \<and> local_window_size w' = lws \<and>
             recv_reduction w' = reduction \<and> available w' = available w + reported))"

text \<open>By how much an adjustment enlarges the window (or shrinks it): bytes that were received and not yet
  returned are returned first. What was taken from the window before without telling the peer is paid
  back without telling it either.\<close>

definition growth :: "window \<Rightarrow> int \<Rightarrow> int" where
  "growth w d = (if d > 0 then max 0 (d - max 0 (recv_window_size w)) else d)"

definition paid_back :: "window \<Rightarrow> int \<Rightarrow> int" where
  "paid_back w d = min (recv_reduction w) (growth w d)"

lemma adjust_enlarge_outcome:
  assumes "window_ok w" and "0 < delta" "delta \<le> INT32_MAX" "d \<le> INT32_MAX"
    and "d = delta + max 0 (recv_window_size w)"
  shows "window_outcome w (local_window_size w + delta > NGHTTP2_MAX_WINDOW_SIZE)
           (local_window_size w + delta) (recv_reduction w - min (recv_reduction w) delta)
           (d - min (recv_reduction w) delta) (adjust_enlarge w d delta)"
proof (cases "local_window_size w > NGHTTP2_MAX_WINDOW_SIZE - delta")
  case True
  then show ?thesis using assms
    by (simp add: window_outcome_def adjust_enlarge_def window_arith)
next
  case False
  then show ?thesis using assms
    by (auto simp: window_outcome_def adjust_enlarge_def window_arith Let_def min_def max_def
        split: if_splits)
qed

lemma adjust_refused_eq:
  assumes "window_ok w" "d \<le> 0" "in_i32 d"
  shows "adjust_refused w d =
           Inr (local_window_size w + d < 0 \<or> recv_window_size w + d < INT32_MIN)"
  using assms by (auto simp: adjust_refused_def window_arith)

text \<open>C35: Adjusting a window by any 32-bit delta never overflows. It fails, with
  \<open>NGHTTP2_ERR_FLOW_CONTROL\<close>, exactly when the new window would leave the range of the
  protocol (or the receive count its type). Otherwise a delta that is not positive shrinks the window by
  just that much, adds it to the reduction and reports nothing; a positive one first returns bytes that
  were received, enlarges the window by the rest, pays back the reduction as far as it goes, and reports
  the delta less what was paid back. In every case the window keeps its invariant, and the bytes the peer
  may send grow by exactly what is reported, which is what the WINDOW_UPDATE frame then announces.\<close>
theorem adjust_local_window_size_correct:
  assumes "window_ok w" and "in_i32 d"
  shows "window_outcome w
           (if d > 0 then local_window_size w + growth w d > NGHTTP2_MAX_WINDOW_SIZE
            else local_window_size w + d < 0 \<or> recv_window_size w + d < INT32_MIN)
           (local_window_size w + growth w d)
           (if d > 0 then recv_reduction w - paid_back w d else recv_reduction w - d)
           (if d > 0 then d - paid_back w d else 0)
           (nghttp2_adjust_local_window_size w d)"
proof (cases "d > 0")
  case True
  let ?new = "max 0 (recv_window_size w) - d"
  have fits: "in_i32 ?new" "in_i32 (- ?new)"
    using True assms by (auto simp: window_arith max_def)
  show ?thesis
  proof (cases "?new \<ge> 0")
    case True
    then have "growth w d = 0" "paid_back w d = 0"
      using assms \<open>d > 0\<close> by (auto simp: growth_def paid_back_def window_ok_def)
    then show ?thesis using True \<open>d > 0\<close> assms fits(1)
      by (auto simp: nghttp2_adjust_local_window_size_def window_outcome_def window_arith
          max_def split: if_splits)
  next
    case False
    have g: "growth w d = - ?new" "paid_back w d = min (recv_reduction w) (- ?new)"
      using False \<open>d > 0\<close> by (auto simp: growth_def paid_back_def)
    have "window_outcome w (local_window_size w + (- ?new) > NGHTTP2_MAX_WINDOW_SIZE)
            (local_window_size w + (- ?new)) (recv_reduction w - min (recv_reduction w) (- ?new))
            (d - min (recv_reduction w) (- ?new)) (adjust_enlarge w d (- ?new))"
      using False fits assms by (intro adjust_enlarge_outcome) (auto simp: i32_range)
    then show ?thesis using False fits \<open>d > 0\<close> g
      by (simp add: nghttp2_adjust_local_window_size_def)
  qed
next
  case False
  then show ?thesis using assms adjust_refused_eq [of w d]
    by (auto simp: nghttp2_adjust_local_window_size_def window_outcome_def window_arith growth_def)
qed

text \<open>An adjustment of each kind: enlarging beyond what was received, returning received bytes only,
  shrinking, and one that is refused.\<close>
theorem adjust_local_window_size_correct_witness:
  "let w = \<lparr>local_window_size = 65535, recv_window_size = -10, recv_reduction = 20\<rparr>;
       v = w\<lparr>recv_window_size := 300\<rparr>
   in window_ok w \<and> window_ok v \<and>
     window_outcome w False 65635 0 80 (nghttp2_adjust_local_window_size w 100) \<and>
     window_outcome v False 65535 20 100 (nghttp2_adjust_local_window_size v 100) \<and>
     window_outcome w False 65435 120 0 (nghttp2_adjust_local_window_size w (- 100)) \<and>
     window_outcome w True 0 0 0 (nghttp2_adjust_local_window_size w (- 65536))"
proof -
  let ?w = "\<lparr>local_window_size = 65535, recv_window_size = -10, recv_reduction = 20\<rparr>"
  let ?v = "?w\<lparr>recv_window_size := 300\<rparr>"
  have ok: "window_ok ?w" "window_ok ?v" by (simp_all add: window_ok_def NGHTTP2_MAX_WINDOW_SIZE_def i32_range)
  note adjusted = adjust_local_window_size_correct [OF ok(1)] adjust_local_window_size_correct [OF ok(2)]
  show ?thesis
    using ok adjusted(1) [of 100] adjusted(2) [of 100] adjusted(1) [of "- 100"] adjusted(1) [of "- 65536"]
    by (simp add: window_outcome_def NGHTTP2_MAX_WINDOW_SIZE_def i32_range growth_def paid_back_def)
qed

text \<open>\<open>nghttp2_increase_local_window_size\<close>, used when a WINDOW_UPDATE is submitted, has the
  same contract for every nonnegative delta: no overflow, refusal exactly beyond the largest
  window, and otherwise the window grows by the delta and the available bytes by what is left of it
  after the reduction is paid back.\<close>
theorem increase_local_window_size_correct:
  assumes "window_ok w" and "0 \<le> d" "in_i32 d"
  shows "window_outcome w (local_window_size w + d > NGHTTP2_MAX_WINDOW_SIZE) (local_window_size w + d)
           (recv_reduction w - min (recv_reduction w) d) (d - min (recv_reduction w) d)
           (nghttp2_increase_local_window_size w d)"
proof (cases "local_window_size w > NGHTTP2_MAX_WINDOW_SIZE - d")
  case True
  then show ?thesis using assms
    by (simp add: window_outcome_def nghttp2_increase_local_window_size_def window_arith)
next
  case False
  then show ?thesis using assms
    by (auto simp: window_outcome_def nghttp2_increase_local_window_size_def window_arith
        Let_def min_def)
qed

theorem increase_local_window_size_correct_witness:
  "nghttp2_increase_local_window_size
     \<lparr>local_window_size = 100, recv_window_size = 40, recv_reduction = 5\<rparr> 30 =
     Inr (\<lparr>local_window_size = 130, recv_window_size = 45, recv_reduction = 0\<rparr>, 25) \<and>
   window_outcome \<lparr>local_window_size = 100, recv_window_size = 40, recv_reduction = 5\<rparr> False 130 0 25
     (nghttp2_increase_local_window_size
       \<lparr>local_window_size = 100, recv_window_size = 40, recv_reduction = 5\<rparr> 30)"
  using increase_local_window_size_correct
    [of "\<lparr>local_window_size = 100, recv_window_size = 40, recv_reduction = 5\<rparr>" 30]
  by (simp add: window_ok_def NGHTTP2_MAX_WINDOW_SIZE_def i32_range
      nghttp2_increase_local_window_size_def)

end
