(* ===== verification/Stream.thy ===== *)
theory Stream
  imports Pq Window
begin

text \<open>
  \<open>nghttp2_stream.c\<close>: the state of a stream, its life cycle, and the schedule of the streams of
  one parent. A parent keeps its queued children in a priority queue ordered by
  \<open>stream_less\<close>, which compares 64-bit cycle counters that wrap around; the theory shows on
  which sets of streams that comparison is an order, that the scheduler stays on such a set,
  and with it that the heap of \<open>Pq\<close> works. Pointers to streams and items are identifiers.
\<close>

section \<open>The stream\<close>

datatype nghttp2_stream_state =
    NGHTTP2_STREAM_INITIAL
  | NGHTTP2_STREAM_OPENING
  | NGHTTP2_STREAM_OPENED
  | NGHTTP2_STREAM_CLOSING
  | NGHTTP2_STREAM_RESERVED
  | NGHTTP2_STREAM_IDLE

datatype nghttp2_stream_proto_state =
    NGHTTP2_STREAM_STATE_IDLE
  | NGHTTP2_STREAM_STATE_OPEN
  | NGHTTP2_STREAM_STATE_RESERVED_LOCAL
  | NGHTTP2_STREAM_STATE_RESERVED_REMOTE
  | NGHTTP2_STREAM_STATE_HALF_CLOSED_LOCAL
  | NGHTTP2_STREAM_STATE_HALF_CLOSED_REMOTE
  | NGHTTP2_STREAM_STATE_CLOSED

record stream =
  content_length :: int
  recv_content_length :: int
  descendant_last_cycle :: u64
  cycle :: u64
  descendant_next_seq :: u64
  seq :: u64
  dep_prev :: "nat option"
  dep_next :: "nat option"
  sib_prev :: "nat option"
  sib_next :: "nat option"
  closed_prev :: "nat option"
  closed_next :: "nat option"
  stream_user_data :: nat
  item :: "nat option"
  last_writelen :: u32
  stream_id :: int
  remote_window_size :: int
  recv_window_size :: int
  consumed_size :: int
  recv_reduction :: int
  local_window_size :: int
  weight :: int
  pending_penalty :: u32
  sum_dep_weight :: int
  state :: nghttp2_stream_state
  status_code :: int
  http_flags :: u32
  flags :: u8
  shut_flags :: u8
  queued :: bool
  window_update_queued :: bool
  extpri :: u8
  http_extpri :: u8

definition NGHTTP2_SHUT_RD :: u8 where "NGHTTP2_SHUT_RD = 0x01"
definition NGHTTP2_SHUT_WR :: u8 where "NGHTTP2_SHUT_WR = 0x02"
definition NGHTTP2_SHUT_RDWR :: u8 where
  "NGHTTP2_SHUT_RDWR = NGHTTP2_SHUT_RD OR NGHTTP2_SHUT_WR"

definition NGHTTP2_STREAM_FLAG_PUSH :: u8 where "NGHTTP2_STREAM_FLAG_PUSH = 0x01"
definition NGHTTP2_STREAM_FLAG_CLOSED :: u8 where "NGHTTP2_STREAM_FLAG_CLOSED = 0x02"
definition NGHTTP2_STREAM_FLAG_DEFERRED_FLOW_CONTROL :: u8 where
  "NGHTTP2_STREAM_FLAG_DEFERRED_FLOW_CONTROL = 0x04"
definition NGHTTP2_STREAM_FLAG_DEFERRED_ALL :: u8 where
  "NGHTTP2_STREAM_FLAG_DEFERRED_ALL = 0x0c"

definition NGHTTP2_STREAM_FLAG_NO_RFC7540_PRIORITIES :: u8 where
  "NGHTTP2_STREAM_FLAG_NO_RFC7540_PRIORITIES = 0x10"

definition NGHTTP2_EXTPRI_DEFAULT_URGENCY :: u32 where "NGHTTP2_EXTPRI_DEFAULT_URGENCY = 3"

text \<open>The fields of the stream itself; its queue \<open>obq\<close> starts as \<open>nghttp2_pq_init\<close>.\<close>

definition nghttp2_stream_init ::
  "int \<Rightarrow> u8 \<Rightarrow> nghttp2_stream_state \<Rightarrow> int \<Rightarrow> int \<Rightarrow> int \<Rightarrow> nat \<Rightarrow> stream" where
  "nghttp2_stream_init sid fl initial_state wt remote_initial local_initial user_data =
     \<lparr>content_length = -1, recv_content_length = 0, descendant_last_cycle = 0, cycle = 0,
      descendant_next_seq = 0, seq = 0, dep_prev = None, dep_next = None, sib_prev = None,
      sib_next = None, closed_prev = None, closed_next = None, stream_user_data = user_data,
      item = None, last_writelen = 0, stream_id = sid, remote_window_size = remote_initial,
      recv_window_size = 0, consumed_size = 0, recv_reduction = 0,
      local_window_size = local_initial, weight = wt, pending_penalty = 0, sum_dep_weight = 0,
      state = initial_state, status_code = -1, http_flags = 0, flags = fl, shut_flags = 0,
      queued = False, window_update_queued = False,
      extpri = ucast NGHTTP2_EXTPRI_DEFAULT_URGENCY,
      http_extpri = ucast NGHTTP2_EXTPRI_DEFAULT_URGENCY\<rparr>"

definition nghttp2_stream_shutdown :: "stream \<Rightarrow> u8 \<Rightarrow> stream" where
  "nghttp2_stream_shutdown s flag = s\<lparr>shut_flags := shut_flags s OR flag\<rparr>"

definition stream_active :: "stream \<Rightarrow> bool" where
  "stream_active s \<longleftrightarrow> item s \<noteq> None \<and> flags s AND NGHTTP2_STREAM_FLAG_DEFERRED_ALL = 0"

definition stream_subtree_active :: "stream \<Rightarrow> nat pq \<Rightarrow> bool" where
  "stream_subtree_active s obq \<longleftrightarrow> stream_active s \<or> \<not> nghttp2_pq_empty obq"

definition nghttp2_stream_check_deferred_item :: "stream \<Rightarrow> bool" where
  "nghttp2_stream_check_deferred_item s \<longleftrightarrow>
     item s \<noteq> None \<and> flags s AND NGHTTP2_STREAM_FLAG_DEFERRED_ALL \<noteq> 0"

definition nghttp2_stream_check_deferred_by_flow_control :: "stream \<Rightarrow> bool" where
  "nghttp2_stream_check_deferred_by_flow_control s \<longleftrightarrow>
     item s \<noteq> None \<and> flags s AND NGHTTP2_STREAM_FLAG_DEFERRED_FLOW_CONTROL \<noteq> 0"

definition nghttp2_stream_promise_fulfilled :: "stream \<Rightarrow> stream" where
  "nghttp2_stream_promise_fulfilled s =
     s\<lparr>state := NGHTTP2_STREAM_OPENED, flags := flags s AND NOT NGHTTP2_STREAM_FLAG_PUSH\<rparr>"

definition nghttp2_stream_in_dep_tree :: "stream \<Rightarrow> bool" where
  "nghttp2_stream_in_dep_tree s \<longleftrightarrow>
     dep_prev s \<noteq> None \<or> dep_next s \<noteq> None \<or> sib_prev s \<noteq> None \<or> sib_next s \<noteq> None"

definition nghttp2_stream_get_state :: "stream \<Rightarrow> nghttp2_stream_proto_state" where
  "nghttp2_stream_get_state s =
     (if flags s AND NGHTTP2_STREAM_FLAG_CLOSED \<noteq> 0 then NGHTTP2_STREAM_STATE_CLOSED
      else if flags s AND NGHTTP2_STREAM_FLAG_PUSH \<noteq> 0 \<and> shut_flags s AND NGHTTP2_SHUT_RD \<noteq> 0
        then NGHTTP2_STREAM_STATE_RESERVED_LOCAL
      else if flags s AND NGHTTP2_STREAM_FLAG_PUSH \<noteq> 0 \<and> shut_flags s AND NGHTTP2_SHUT_WR \<noteq> 0
        then NGHTTP2_STREAM_STATE_RESERVED_REMOTE
      else if shut_flags s AND NGHTTP2_SHUT_RD \<noteq> 0
        then NGHTTP2_STREAM_STATE_HALF_CLOSED_REMOTE
      else if shut_flags s AND NGHTTP2_SHUT_WR \<noteq> 0
        then NGHTTP2_STREAM_STATE_HALF_CLOSED_LOCAL
      else if state s = NGHTTP2_STREAM_IDLE then NGHTTP2_STREAM_STATE_IDLE
      else NGHTTP2_STREAM_STATE_OPEN)"

section \<open>Windows\<close>

text \<open>The sum of three 32-bit values is computed in 64 bits, where it cannot overflow.\<close>

definition update_initial_window_size :: "int \<Rightarrow> int \<Rightarrow> int \<Rightarrow> int option" where
  "update_initial_window_size window_size new_initial old_initial =
     (let new_window_size = window_size + new_initial - old_initial
      in if INT32_MIN > new_window_size \<or> new_window_size > NGHTTP2_MAX_WINDOW_SIZE then None
         else Some new_window_size)"

definition nghttp2_stream_update_remote_initial_window_size ::
  "stream \<Rightarrow> int \<Rightarrow> int \<Rightarrow> stream option" where
  "nghttp2_stream_update_remote_initial_window_size s new_initial old_initial =
     map_option (\<lambda>w. s\<lparr>remote_window_size := w\<rparr>)
       (update_initial_window_size (remote_window_size s) new_initial old_initial)"

definition nghttp2_stream_update_local_initial_window_size ::
  "stream \<Rightarrow> int \<Rightarrow> int \<Rightarrow> stream option" where
  "nghttp2_stream_update_local_initial_window_size s new_initial old_initial =
     map_option (\<lambda>w. s\<lparr>local_window_size := w\<rparr>)
       (update_initial_window_size (local_window_size s) new_initial old_initial)"

text \<open>When the peer changes the initial window size, a stream's window moves by the
  difference, or the call fails and nothing is stored; it fails exactly when the new window is
  no value of the protocol, so a stored window always fits \<open>int32_t\<close> and never exceeds the
  largest window.\<close>
theorem update_initial_window_size_correct:
  "nghttp2_stream_update_remote_initial_window_size s new_initial old_initial =
     (let w = remote_window_size s + new_initial - old_initial
      in if INT32_MIN \<le> w \<and> w \<le> NGHTTP2_MAX_WINDOW_SIZE then Some (s\<lparr>remote_window_size := w\<rparr>)
         else None) \<and>
   nghttp2_stream_update_local_initial_window_size s new_initial old_initial =
     (let w = local_window_size s + new_initial - old_initial
      in if INT32_MIN \<le> w \<and> w \<le> NGHTTP2_MAX_WINDOW_SIZE then Some (s\<lparr>local_window_size := w\<rparr>)
         else None)"
  by (auto simp: nghttp2_stream_update_remote_initial_window_size_def
      nghttp2_stream_update_local_initial_window_size_def update_initial_window_size_def Let_def)

section \<open>The schedule of the children of a stream\<close>

definition NGHTTP2_MAX_WEIGHT :: u64 where "NGHTTP2_MAX_WEIGHT = 256"

definition NGHTTP2_MAX_FRAME_SIZE_MAX :: u64 where "NGHTTP2_MAX_FRAME_SIZE_MAX = 16777215"

definition NGHTTP2_MAX_CYCLE_DISTANCE :: u64 where
  "NGHTTP2_MAX_CYCLE_DISTANCE = NGHTTP2_MAX_FRAME_SIZE_MAX * 256 + 255"

definition stream_less :: "stream \<Rightarrow> stream \<Rightarrow> bool" where
  "stream_less lhs rhs =
     (if cycle lhs = cycle rhs then seq lhs < seq rhs
      else cycle rhs - cycle lhs \<le> NGHTTP2_MAX_CYCLE_DISTANCE)"

definition stream_next_cycle :: "stream \<Rightarrow> u64 \<Rightarrow> stream res" where
  "stream_next_cycle s last_cycle =
     (let penalty = ucast (last_writelen s) * NGHTTP2_MAX_WEIGHT + ucast (pending_penalty s);
          w = ucast (word_of_int (weight s) :: u32) :: u64
      in if w = 0 then Inl Undefined
         else Inr (s\<lparr>cycle := last_cycle + penalty div w,
                     pending_penalty := ucast (penalty mod w)\<rparr>))"

definition nghttp2_stream_dep_distributed_weight :: "stream \<Rightarrow> int \<Rightarrow> int res" where
  "nghttp2_stream_dep_distributed_weight s wt =
     rbind (i32 (weight s * wt)) (\<lambda>prod.
     if sum_dep_weight s = 0 then Inl Undefined
     else rbind (i32 (prod sdiv sum_dep_weight s)) (\<lambda>wt'. Inr (max 1 wt')))"

lemma max_cycle_distance: "NGHTTP2_MAX_CYCLE_DISTANCE = 4294967295"
  by (simp add: NGHTTP2_MAX_CYCLE_DISTANCE_def NGHTTP2_MAX_FRAME_SIZE_MAX_def)

text \<open>The cycles that follow \<open>base\<close> within the distance, modulo \<open>2 ^ 64\<close>.\<close>

definition in_window :: "u64 \<Rightarrow> stream \<Rightarrow> bool" where
  "in_window base s \<longleftrightarrow> cycle s - base \<le> NGHTTP2_MAX_CYCLE_DISTANCE"

lemma word_distance:
  fixes x y :: u64
  assumes "x \<le> 4294967295" "y \<le> 4294967295"
  shows "y - x \<le> 4294967295 \<longleftrightarrow> x \<le> y"
  using assms unsigned_less [of x] unsigned_less [of y]
  by (auto simp: word_le_nat_alt unat_sub_if')

lemma stream_less_iff:
  assumes "in_window base a" "in_window base b"
  shows "stream_less a b \<longleftrightarrow>
    cycle a - base < cycle b - base \<or> cycle a = cycle b \<and> seq a < seq b"
proof -
  have "cycle b - cycle a = (cycle b - base) - (cycle a - base)" by simp
  then have "cycle b - cycle a \<le> 4294967295 \<longleftrightarrow> cycle a - base \<le> cycle b - base"
    using word_distance [of "cycle a - base" "cycle b - base"] assms
    by (simp add: in_window_def max_cycle_distance)
  moreover have "cycle a - base = cycle b - base \<longleftrightarrow> cycle a = cycle b" by simp
  ultimately show ?thesis
    by (auto simp: stream_less_def max_cycle_distance order.order_iff_strict)
qed

text \<open>The comparison of two queued streams, by the identifiers of the heap.\<close>

definition entry_less :: "(nat \<Rightarrow> stream) \<Rightarrow> nat \<Rightarrow> nat \<Rightarrow> bool" where
  "entry_less st a b = stream_less (st a) (st b)"

definition window_entries :: "(nat \<Rightarrow> stream) \<Rightarrow> u64 \<Rightarrow> nat set" where
  "window_entries st base = {a. in_window base (st a)}"

interpretation obq: pq_order "entry_less st" "window_entries st base"
  for st :: "nat \<Rightarrow> stream" and base :: u64
  by unfold_locales
    (auto simp: entry_less_def window_entries_def stream_less_iff [where base = base])

text \<open>C25: Within a window of cycles, the queue of a parent is a correct priority queue: \<open>push\<close>
  adds the stream or reports NGHTTP2_ERR_NOMEM, and changes nothing else; \<open>remove\<close> takes out
  the stream given, wherever it is; \<open>pop\<close> takes out the top; and the heap order, the index
  stored in each entry and the bounds of the array hold again after each. No access is out of
  bounds and no assertion fails.\<close>
theorem obq_operations:
  assumes ok: "pq_ok (window_entries st base) (entry_less st) p"
    and e: "in_window base (st e)" "e \<notin> set (q p)" and room: "capacity p < 2 ^ 29"
    and d: "d \<in> set (q p)"
  shows "(nghttp2_pq_push alloc (entry_less st) p e = Inl (Code NGHTTP2_ERR_NOMEM) \<or>
          (\<exists>p'. nghttp2_pq_push alloc (entry_less st) p e = Inr p' \<and>
                pq_ok (window_entries st base) (entry_less st) p' \<and>
                mset (q p') = add_mset e (mset (q p)))) \<and>
         (\<exists>p'. nghttp2_pq_remove (entry_less st) p d = Inr p' \<and>
               pq_ok (window_entries st base) (entry_less st) p' \<and>
               mset (q p') = mset (q p) - {#d#}) \<and>
         (let p' = nghttp2_pq_pop (entry_less st) p
          in pq_ok (window_entries st base) (entry_less st) p' \<and>
             mset (q p') = mset (q p) - {#q p ! 0#})"
proof (intro conjI)
  have ne: "q p \<noteq> []" using d by auto
  show "nghttp2_pq_push alloc (entry_less st) p e = Inl (Code NGHTTP2_ERR_NOMEM) \<or>
         (\<exists>p'. nghttp2_pq_push alloc (entry_less st) p e = Inr p' \<and>
               pq_ok (window_entries st base) (entry_less st) p' \<and>
               mset (q p') = add_mset e (mset (q p)))"
    using obq.push_ok [OF ok _ e(2) room, of alloc] e(1) by (auto simp: window_entries_def)
  show "let p' = nghttp2_pq_pop (entry_less st) p
        in pq_ok (window_entries st base) (entry_less st) p' \<and>
           mset (q p') = mset (q p) - {#q p ! 0#}"
    using obq.pop_ok [OF ok ne] by (simp add: Let_def)
qed (rule obq.remove_ok [OF ok d])

definition example_stream :: "int \<Rightarrow> u64 \<Rightarrow> stream" where
  "example_stream i c =
     (nghttp2_stream_init i 0 NGHTTP2_STREAM_OPENED 16 65535 65535 0)\<lparr>cycle := c\<rparr>"

definition example_streams :: "nat \<Rightarrow> stream" where
  "example_streams a =
     (if a = 1 then example_stream 1 18446744073709551615 else example_stream 3 7)"

text \<open>Two streams on both sides of the wrap-around of the counter: stream 1, with the largest
  cycle, still comes before stream 3, with cycle 7.\<close>

theorem obq_operations_witness:
  "q (nghttp2_pq_pop (entry_less example_streams)
        \<lparr>q = [1, 3], capacity = 4, index = (\<lambda>i. if i = 1 then 0 else 1)\<rparr>) = [3] \<and>
   (\<exists>p'. nghttp2_pq_remove (entry_less example_streams)
           \<lparr>q = [1, 3], capacity = 4, index = (\<lambda>i. if i = 1 then 0 else 1)\<rparr> 3 = Inr p' \<and>
         mset (q p') = {#1#})"
proof -
  let ?p = "\<lparr>q = [1, 3], capacity = 4, index = (\<lambda>i. if i = 1 then 0 else 1)\<rparr>"
  have ok: "pq_ok (window_entries example_streams 18446744073709551615)
      (entry_less example_streams) ?p"
    by (auto simp: pq_ok_def window_entries_def in_window_def example_streams_def
        example_stream_def max_cycle_distance heap_from_def indexed_def entry_less_def
        stream_less_def less_Suc_eq parent_def)
  show ?thesis
    using obq_operations [OF ok, of 5 1 "\<lambda>_. True"]
      obq_operations [OF ok, of 5 3 "\<lambda>_. True"]
    by (auto simp: in_window_def example_streams_def example_stream_def max_cycle_distance
        Let_def)
qed

text \<open>The stream at the top of the queue, which the scheduler serves next, is one whose
  cycle comes first after the base of the window, also when the 64-bit cycles have wrapped
  around.\<close>
theorem obq_top_first:
  assumes "pq_ok (window_entries st base) (entry_less st) p" and "nghttp2_pq_top p = Some e"
    and "d \<in> set (q p)"
  shows "cycle (st e) - base \<le> cycle (st d) - base"
proof -
  have "e \<in> set (q p)" "\<not> entry_less st d e"
    using obq.top_minimum [OF assms(1,2)] assms(3) by auto
  moreover have "in_window base (st d)" "in_window base (st e)"
    using assms(1,3) \<open>e \<in> set (q p)\<close> by (auto simp: pq_ok_def window_entries_def)
  ultimately show ?thesis
    by (auto simp: entry_less_def stream_less_iff [where base = base])
qed

theorem obq_top_first_witness:
  "cycle (example_streams 1) - 18446744073709551615
     \<le> cycle (example_streams 3) - 18446744073709551615"
proof -
  let ?p = "\<lparr>q = [1, 3], capacity = 4, index = (\<lambda>i. if i = 1 then 0 else 1)\<rparr>"
  have ok: "pq_ok (window_entries example_streams 18446744073709551615)
      (entry_less example_streams) ?p"
    by (auto simp: pq_ok_def window_entries_def in_window_def example_streams_def
        example_stream_def max_cycle_distance heap_from_def indexed_def entry_less_def
        stream_less_def less_Suc_eq parent_def)
  show ?thesis
    by (rule obq_top_first [OF ok]) (simp_all add: nghttp2_pq_top_def)
qed

text \<open>The constant that bounds the distance of cycles is the right one: for a valid weight,
  a frame of at most the largest length and a penalty below the weight, the next cycle lies
  within the window that starts at the parent's last cycle, so the comparison stays an order;
  the weight never divides by zero, no penalty is lost, and what is carried over stays below
  the weight.\<close>
theorem stream_next_cycle_correct:
  assumes "1 \<le> weight s" "weight s \<le> 256" and "last_writelen s \<le> 16777215"
    and "pending_penalty s \<le> 255"
  shows "\<exists>s'. stream_next_cycle s last_cycle = Inr s' \<and> in_window last_cycle s' \<and>
           int (unat (pending_penalty s')) < weight s \<and>
           int (unat (cycle s' - last_cycle)) * weight s + int (unat (pending_penalty s')) =
             int (unat (last_writelen s)) * 256 + int (unat (pending_penalty s))"
proof -
  define n where "n = nat (weight s)"
  have n: "weight s = int n" "1 \<le> n" "n \<le> 256" using assms by (auto simp: n_def)
  define w :: u64 where "w = ucast (word_of_int (weight s) :: u32)"
  have w: "unat w = n"
    using n unfolding w_def by (simp add: unsigned_ucast_eq unat_of_nat take_bit_nat_eq_self)
  let ?l = "unat (last_writelen s)" and ?pp = "unat (pending_penalty s)"
  let ?pen = "ucast (last_writelen s) * NGHTTP2_MAX_WEIGHT + ucast (pending_penalty s) :: u64"
  have b: "?l \<le> 16777215" "?pp \<le> 255" using assms by (auto simp: word_le_nat_alt)
  have pen: "unat ?pen = ?l * 256 + ?pp"
    using b by (simp add: NGHTTP2_MAX_WEIGHT_def unat_word_ariths unsigned_ucast_eq
        take_bit_nat_eq_self)
  have "w \<noteq> 0" using w n by (metis not_one_le_zero unat_0)
  define s' where
    "s' = s\<lparr>cycle := last_cycle + ?pen div w, pending_penalty := ucast (?pen mod w)\<rparr>"
  have eq: "stream_next_cycle s last_cycle = Inr s'"
    using \<open>w \<noteq> 0\<close> by (simp add: stream_next_cycle_def Let_def w_def s'_def)
  have s': "cycle s' - last_cycle = ?pen div w" "pending_penalty s' = ucast (?pen mod w)"
    by (simp_all add: s'_def)
  have d: "unat (?pen div w) = (?l * 256 + ?pp) div n" and m: "unat (?pen mod w) = (?l * 256 + ?pp) mod n"
    using pen w by (simp_all add: unat_div unat_mod)
  have mn: "(?l * 256 + ?pp) mod n < n" using n by simp
  then have "(?l * 256 + ?pp) mod n < 2 ^ 32"
    using n(3) by (intro less_le_trans [OF mn]) simp
  then have m32: "unat (ucast (?pen mod w) :: u32) = (?l * 256 + ?pp) mod n"
    using m by (simp add: unsigned_ucast_eq take_bit_nat_eq_self)
  have "(?l * 256 + ?pp) div n \<le> ?l * 256 + ?pp" by simp
  also have "\<dots> \<le> 4294967295" using b by linarith
  finally have "?pen div w \<le> NGHTTP2_MAX_CYCLE_DISTANCE"
    by (simp add: word_le_nat_alt d max_cycle_distance)
  moreover have "int ((?l * 256 + ?pp) div n * n + (?l * 256 + ?pp) mod n) =
      int (?l * 256 + ?pp)"
    by (simp only: div_mult_mod_eq)
  then have "int ((?l * 256 + ?pp) div n) * weight s + int ((?l * 256 + ?pp) mod n) =
      int ?l * 256 + int ?pp"
    by (simp only: n(1) of_nat_mult of_nat_add of_nat_numeral)
  ultimately have "in_window last_cycle s' \<and> int (unat (pending_penalty s')) < weight s \<and>
      int (unat (cycle s' - last_cycle)) * weight s + int (unat (pending_penalty s')) =
        int ?l * 256 + int ?pp"
    using mn by (simp only: in_window_def s' m32 d n(1) of_nat_less_iff simp_thms)
  then show ?thesis using eq by blast
qed

theorem stream_next_cycle_correct_witness:
  "\<exists>s'. stream_next_cycle ((example_stream 1 0)\<lparr>last_writelen := 16777215\<rparr>)
           18446744073709551615 = Inr s' \<and> in_window 18446744073709551615 s'"
  using stream_next_cycle_correct
    [of "(example_stream 1 0)\<lparr>last_writelen := 16777215\<rparr>" 18446744073709551615]
  by (auto simp: example_stream_def nghttp2_stream_init_def)

end
