(* ===== verification/DepTree.thy ===== *)
theory DepTree
  imports Stream
begin

text \<open>
  The dependency tree of \<open>nghttp2_stream.c\<close>: streams linked to their parent, their first child and
  their siblings, each with the heap of its queued children. Streams live in a store, so that what two
  pointers share is explicit. Every loop along the links takes the number of rounds it may run; a loop
  that runs out of them would not end, which C leaves undefined. The definitions of this theory are the
  code; \<open>DepQueue\<close> and \<open>DepShape\<close> show what they do to the heaps and to the tree.
\<close>

section \<open>The store\<close>

text \<open>\<open>heaps a\<close> is the array of the heap \<open>obq\<close> of stream \<open>a\<close> and its capacity; \<open>pqi\<close> is the field
  \<open>index\<close> of the entry each stream has for the heap of its parent.\<close>

record dtree =
  str :: "nat \<Rightarrow> stream"
  heaps :: "nat \<Rightarrow> nat list \<times> nat"
  pqi :: "nat \<Rightarrow> nat"

definition upd :: "dtree \<Rightarrow> nat \<Rightarrow> (stream \<Rightarrow> stream) \<Rightarrow> dtree" where
  "upd t a f = t\<lparr>str := (str t)(a := f (str t a))\<rparr>"

definition obq_of :: "dtree \<Rightarrow> nat \<Rightarrow> nat pq" where
  "obq_of t a = \<lparr>q = fst (heaps t a), capacity = snd (heaps t a), index = pqi t\<rparr>"

definition store_obq :: "dtree \<Rightarrow> nat \<Rightarrow> nat pq \<Rightarrow> dtree" where
  "store_obq t a p = t\<lparr>heaps := (heaps t)(a := (q p, capacity p)), pqi := index p\<rparr>"

definition subtree_active :: "dtree \<Rightarrow> nat \<Rightarrow> bool" where
  "subtree_active t a = stream_subtree_active (str t a) (obq_of t a)"

text \<open>A function that returns a code leaves the tree behind also when the code is an error.\<close>

type_synonym coded = "(dtree \<times> nghttp2_error option) res"

definition and_ok :: "coded \<Rightarrow> (dtree \<Rightarrow> coded) \<Rightarrow> coded" where
  "and_ok m f = rbind m (\<lambda>(t, rv). case rv of None \<Rightarrow> f t | Some e \<Rightarrow> Inr (t, Some e))"

definition queue_push :: "(nat \<Rightarrow> bool) \<Rightarrow> dtree \<Rightarrow> nat \<Rightarrow> nat \<Rightarrow> coded" where
  "queue_push alloc t d s =
     (case nghttp2_pq_push alloc (entry_less (str t)) (obq_of t d) s of
        Inr p \<Rightarrow> Inr (store_obq t d p, None)
      | Inl (Code e) \<Rightarrow> Inr (t, Some e)
      | Inl Assert_failed \<Rightarrow> Inl Assert_failed
      | Inl Undefined \<Rightarrow> Inl Undefined)"

definition queue_remove :: "dtree \<Rightarrow> nat \<Rightarrow> nat \<Rightarrow> dtree res" where
  "queue_remove t d s =
     rbind (nghttp2_pq_remove (entry_less (str t)) (obq_of t d) s) (\<lambda>p. Inr (store_obq t d p))"

section \<open>Queueing a stream and its ancestors\<close>

fun stream_obq_push :: "(nat \<Rightarrow> bool) \<Rightarrow> nat \<Rightarrow> dtree \<Rightarrow> nat option \<Rightarrow> nat \<Rightarrow> coded" where
  "stream_obq_push alloc n t None s = Inr (t, None)"
| "stream_obq_push alloc 0 t (Some d) s = Inl Undefined"
| "stream_obq_push alloc (Suc n) t (Some d) s =
     (if queued (str t s) then Inr (t, None)
      else rbind (stream_next_cycle (str t s) (descendant_last_cycle (str t d))) (\<lambda>s'.
        let t1 = upd t s (\<lambda>_. s'\<lparr>seq := descendant_next_seq (str t d)\<rparr>);
            t2 = upd t1 d (\<lambda>x. x\<lparr>descendant_next_seq := descendant_next_seq x + 1\<rparr>)
        in and_ok (queue_push alloc t2 d s) (\<lambda>t3.
          let t4 = upd t3 s (\<lambda>x. x\<lparr>queued := True\<rparr>)
          in stream_obq_push alloc n t4 (dep_prev (str t4 d)) d)))"

fun obq_remove_loop :: "nat \<Rightarrow> dtree \<Rightarrow> nat option \<Rightarrow> nat \<Rightarrow> dtree res" where
  "obq_remove_loop n t None s = Inr t"
| "obq_remove_loop 0 t (Some d) s = Inl Undefined"
| "obq_remove_loop (Suc n) t (Some d) s =
     rbind (queue_remove t d s) (\<lambda>t1.
     rbind (assert_that (queued (str t1 s))) (\<lambda>_.
     let t2 = upd t1 s (\<lambda>x. x\<lparr>queued := False, cycle := 0, pending_penalty := 0,
                              descendant_last_cycle := 0, last_writelen := 0\<rparr>)
     in if subtree_active t2 d then Inr t2
        else obq_remove_loop n t2 (dep_prev (str t2 d)) d))"

definition stream_obq_remove :: "nat \<Rightarrow> dtree \<Rightarrow> nat \<Rightarrow> dtree res" where
  "stream_obq_remove n t s =
     (if \<not> queued (str t s) then Inr t else obq_remove_loop n t (dep_prev (str t s)) s)"

definition stream_obq_move ::
  "(nat \<Rightarrow> bool) \<Rightarrow> nat \<Rightarrow> dtree \<Rightarrow> nat option \<Rightarrow> nat \<Rightarrow> nat \<Rightarrow> coded" where
  "stream_obq_move alloc n t dest src s =
     (if \<not> queued (str t s) then Inr (t, None)
      else rbind (queue_remove t src s) (\<lambda>t1.
        stream_obq_push alloc n (upd t1 s (\<lambda>x. x\<lparr>queued := False\<rparr>)) dest s))"

text \<open>The code of the push is ignored here; the slot that was just freed is large enough.\<close>

fun reschedule_loop :: "(nat \<Rightarrow> bool) \<Rightarrow> nat \<Rightarrow> dtree \<Rightarrow> nat option \<Rightarrow> nat \<Rightarrow> dtree res" where
  "reschedule_loop alloc n t None s = Inr t"
| "reschedule_loop alloc 0 t (Some d) s = Inl Undefined"
| "reschedule_loop alloc (Suc n) t (Some d) s =
     rbind (queue_remove t d s) (\<lambda>t1.
     rbind (stream_next_cycle (str t1 s) (descendant_last_cycle (str t1 d))) (\<lambda>s'.
     let t2 = upd t1 s (\<lambda>_. s'\<lparr>seq := descendant_next_seq (str t1 d)\<rparr>);
         t3 = upd t2 d (\<lambda>x. x\<lparr>descendant_next_seq := descendant_next_seq x + 1\<rparr>)
     in rbind (queue_push alloc t3 d s) (\<lambda>(t4, rv).
        let t5 = upd t4 d (\<lambda>x. x\<lparr>last_writelen := last_writelen (str t4 s)\<rparr>)
        in reschedule_loop alloc n t5 (dep_prev (str t5 d)) d)))"

definition nghttp2_stream_reschedule :: "(nat \<Rightarrow> bool) \<Rightarrow> nat \<Rightarrow> dtree \<Rightarrow> nat \<Rightarrow> dtree res" where
  "nghttp2_stream_reschedule alloc n t s =
     rbind (assert_that (queued (str t s))) (\<lambda>_. reschedule_loop alloc n t (dep_prev (str t s)) s)"

text \<open>The cycle of a queued stream under its new weight: the cycle it was given before the last
  penalty was added, and the penalty again, in 64 bits that wrap around.\<close>

definition reweigh :: "stream \<Rightarrow> int \<Rightarrow> stream res" where
  "reweigh s old_weight =
     (let old32 = word_of_int old_weight :: u32;
          old = ucast old32 :: u64;
          wlen_penalty = ucast (last_writelen s) * NGHTTP2_MAX_WEIGHT
      in if old = 0 then Inl Undefined
         else let pp = ucast ((ucast (pending_penalty s + old32) - wlen_penalty mod old) mod old) :: u32;
                  last_cycle = cycle s - (wlen_penalty + ucast pp) div old
              in stream_next_cycle (s\<lparr>pending_penalty := pp\<rparr>) last_cycle)"

definition nghttp2_stream_change_weight :: "(nat \<Rightarrow> bool) \<Rightarrow> dtree \<Rightarrow> nat \<Rightarrow> int \<Rightarrow> dtree res" where
  "nghttp2_stream_change_weight alloc t s wt =
     (let old_weight = weight (str t s)
      in if old_weight = wt then Inr t
         else let t1 = upd t s (\<lambda>x. x\<lparr>weight := wt\<rparr>)
              in case dep_prev (str t1 s) of
                   None \<Rightarrow> Inr t1
                 | Some d \<Rightarrow>
                     rbind (i32 (wt - old_weight)) (\<lambda>change.
                     rbind (i32 (sum_dep_weight (str t1 d) + change)) (\<lambda>sum.
                     let t2 = upd t1 d (\<lambda>x. x\<lparr>sum_dep_weight := sum\<rparr>)
                     in if \<not> queued (str t2 s) then Inr t2
                        else rbind (queue_remove t2 d s) (\<lambda>t3.
                             rbind (reweigh (str t3 s) old_weight) (\<lambda>s'.
                             let s'' = (if descendant_last_cycle (str t3 d) - cycle s'
                                           \<le> NGHTTP2_MAX_CYCLE_DISTANCE
                                        then s'\<lparr>cycle := descendant_last_cycle (str t3 d)\<rparr> else s')
                             in rbind (queue_push alloc (upd t3 s (\<lambda>_. s'')) d s) (\<lambda>(t4, rv). Inr t4))))))"

section \<open>The item of a stream\<close>

definition no_tree :: "stream \<Rightarrow> bool" where
  "no_tree s \<longleftrightarrow> flags s AND NGHTTP2_STREAM_FLAG_NO_RFC7540_PRIORITIES \<noteq> 0"

definition stream_update_dep_on_attach_item :: "(nat \<Rightarrow> bool) \<Rightarrow> nat \<Rightarrow> dtree \<Rightarrow> nat \<Rightarrow> coded" where
  "stream_update_dep_on_attach_item alloc n t s = stream_obq_push alloc n t (dep_prev (str t s)) s"

definition stream_update_dep_on_detach_item :: "nat \<Rightarrow> dtree \<Rightarrow> nat \<Rightarrow> dtree res" where
  "stream_update_dep_on_detach_item n t s =
     (if nghttp2_pq_empty (obq_of t s) then stream_obq_remove n t s else Inr t)"

definition nghttp2_stream_attach_item :: "(nat \<Rightarrow> bool) \<Rightarrow> nat \<Rightarrow> dtree \<Rightarrow> nat \<Rightarrow> nat \<Rightarrow> coded" where
  "nghttp2_stream_attach_item alloc n t s it =
     rbind (assert_that (flags (str t s) AND NGHTTP2_STREAM_FLAG_DEFERRED_ALL = 0)) (\<lambda>_.
     rbind (assert_that (item (str t s) = None)) (\<lambda>_.
     let t1 = upd t s (\<lambda>x. x\<lparr>item := Some it\<rparr>)
     in if no_tree (str t1 s) then Inr (t1, None)
        else rbind (stream_update_dep_on_attach_item alloc n t1 s) (\<lambda>(t2, rv).
          if rv \<noteq> None then Inr (upd t2 s (\<lambda>x. x\<lparr>item := None\<rparr>), rv) else Inr (t2, None))))"

definition nghttp2_stream_detach_item :: "nat \<Rightarrow> dtree \<Rightarrow> nat \<Rightarrow> dtree res" where
  "nghttp2_stream_detach_item n t s =
     (let t1 = upd t s (\<lambda>x. x\<lparr>item := None, flags := flags x AND NOT NGHTTP2_STREAM_FLAG_DEFERRED_ALL\<rparr>)
      in if no_tree (str t1 s) then Inr t1 else stream_update_dep_on_detach_item n t1 s)"

definition nghttp2_stream_defer_item :: "nat \<Rightarrow> dtree \<Rightarrow> nat \<Rightarrow> u8 \<Rightarrow> dtree res" where
  "nghttp2_stream_defer_item n t s fl =
     rbind (assert_that (item (str t s) \<noteq> None)) (\<lambda>_.
     let t1 = upd t s (\<lambda>x. x\<lparr>flags := flags x OR fl\<rparr>)
     in if no_tree (str t1 s) then Inr t1 else stream_update_dep_on_detach_item n t1 s)"

definition nghttp2_stream_resume_deferred_item ::
  "(nat \<Rightarrow> bool) \<Rightarrow> nat \<Rightarrow> dtree \<Rightarrow> nat \<Rightarrow> u8 \<Rightarrow> coded" where
  "nghttp2_stream_resume_deferred_item alloc n t s fl =
     rbind (assert_that (item (str t s) \<noteq> None)) (\<lambda>_.
     let t1 = upd t s (\<lambda>x. x\<lparr>flags := flags x AND NOT fl\<rparr>)
     in if flags (str t1 s) AND NGHTTP2_STREAM_FLAG_DEFERRED_ALL \<noteq> 0 then Inr (t1, None)
        else if no_tree (str t1 s) then Inr (t1, None)
        else stream_update_dep_on_attach_item alloc n t1 s)"

section \<open>Links\<close>

fun dep_find_ancestor :: "nat \<Rightarrow> dtree \<Rightarrow> nat option \<Rightarrow> nat \<Rightarrow> bool res" where
  "dep_find_ancestor n t None target = Inr False"
| "dep_find_ancestor 0 t (Some s) target = Inl Undefined"
| "dep_find_ancestor (Suc n) t (Some s) target =
     (if s = target then Inr True else dep_find_ancestor n t (dep_prev (str t s)) target)"

definition nghttp2_stream_dep_find_ancestor :: "nat \<Rightarrow> dtree \<Rightarrow> nat \<Rightarrow> nat \<Rightarrow> bool res" where
  "nghttp2_stream_dep_find_ancestor n t s target = dep_find_ancestor n t (Some s) target"

fun stream_last_sib :: "nat \<Rightarrow> dtree \<Rightarrow> nat \<Rightarrow> nat res" where
  "stream_last_sib 0 t s = Inl Undefined"
| "stream_last_sib (Suc n) t s =
     (case sib_next (str t s) of None \<Rightarrow> Inr s | Some s' \<Rightarrow> stream_last_sib n t s')"

fun set_dep_prev :: "nat \<Rightarrow> dtree \<Rightarrow> nat option \<Rightarrow> nat option \<Rightarrow> dtree res" where
  "set_dep_prev n t None dep = Inr t"
| "set_dep_prev 0 t (Some s) dep = Inl Undefined"
| "set_dep_prev (Suc n) t (Some s) dep =
     (let t1 = upd t s (\<lambda>x. x\<lparr>dep_prev := dep\<rparr>) in set_dep_prev n t1 (sib_next (str t1 s)) dep)"

definition link_dep :: "dtree \<Rightarrow> nat \<Rightarrow> nat option \<Rightarrow> dtree" where
  "link_dep t d s =
     (let t1 = upd t d (\<lambda>x. x\<lparr>dep_next := s\<rparr>)
      in case s of None \<Rightarrow> t1 | Some s' \<Rightarrow> upd t1 s' (\<lambda>x. x\<lparr>dep_prev := Some d\<rparr>))"

definition link_sib :: "dtree \<Rightarrow> nat \<Rightarrow> nat option \<Rightarrow> dtree" where
  "link_sib t a b =
     (let t1 = upd t a (\<lambda>x. x\<lparr>sib_next := b\<rparr>)
      in case b of None \<Rightarrow> t1 | Some b' \<Rightarrow> upd t1 b' (\<lambda>x. x\<lparr>sib_prev := Some a\<rparr>))"

definition insert_link_dep :: "dtree \<Rightarrow> nat \<Rightarrow> nat \<Rightarrow> dtree res" where
  "insert_link_dep t d s =
     rbind (assert_that (sib_prev (str t s) = None)) (\<lambda>_.
     Inr (link_dep (link_sib t s (dep_next (str t d))) d (Some s)))"

text \<open>Joins the children of \<open>s\<close>, from \<open>first\<close> on, to the siblings behind \<open>s\<close>.\<close>

definition splice_children :: "nat \<Rightarrow> dtree \<Rightarrow> nat \<Rightarrow> nat \<Rightarrow> dtree res" where
  "splice_children n t s first =
     rbind (set_dep_prev n t (Some first) (dep_prev (str t s))) (\<lambda>t1.
     case sib_next (str t1 s) of
       None \<Rightarrow> Inr t1
     | Some next \<Rightarrow> rbind (stream_last_sib n t1 first) (\<lambda>l. Inr (link_sib t1 l (Some next))))"

definition unlink_sib :: "nat \<Rightarrow> dtree \<Rightarrow> nat \<Rightarrow> dtree res" where
  "unlink_sib n t s =
     (case sib_prev (str t s) of
        None \<Rightarrow> Inl Assert_failed
      | Some prev \<Rightarrow>
          (case dep_next (str t s) of
             Some first \<Rightarrow> splice_children n (link_sib t prev (Some first)) s first
           | None \<Rightarrow>
               (let next = sib_next (str t s);
                    t1 = upd t prev (\<lambda>x. x\<lparr>sib_next := next\<rparr>)
                in case next of None \<Rightarrow> Inr t1
                   | Some b \<Rightarrow> Inr (upd t1 b (\<lambda>x. x\<lparr>sib_prev := Some prev\<rparr>)))))"

definition unlink_dep :: "nat \<Rightarrow> dtree \<Rightarrow> nat \<Rightarrow> dtree res" where
  "unlink_dep n t s =
     (case dep_prev (str t s) of
        None \<Rightarrow> Inl Assert_failed
      | Some prev \<Rightarrow>
          (case dep_next (str t s) of
             Some first \<Rightarrow> splice_children n (link_dep t prev (Some first)) s first
           | None \<Rightarrow>
               (case sib_next (str t s) of
                  Some next \<Rightarrow> Inr (link_dep (upd t next (\<lambda>x. x\<lparr>sib_prev := None\<rparr>)) prev (Some next))
                | None \<Rightarrow> Inr (upd t prev (\<lambda>x. x\<lparr>dep_next := None\<rparr>)))))"

section \<open>Operations on the tree\<close>

definition add_dep_weight :: "dtree \<Rightarrow> nat \<Rightarrow> int \<Rightarrow> dtree res" where
  "add_dep_weight t d w =
     rbind (i32 (sum_dep_weight (str t d) + w)) (\<lambda>sum. Inr (upd t d (\<lambda>x. x\<lparr>sum_dep_weight := sum\<rparr>)))"

text \<open>Puts the children from \<open>si\<close> on below \<open>s\<close>, and the queued ones into its heap.\<close>

fun adopt_loop :: "(nat \<Rightarrow> bool) \<Rightarrow> nat \<Rightarrow> nat \<Rightarrow> dtree \<Rightarrow> nat \<Rightarrow> nat \<Rightarrow> nat option \<Rightarrow> coded" where
  "adopt_loop alloc m n t d s None = Inr (t, None)"
| "adopt_loop alloc m 0 t d s (Some si) = Inl Undefined"
| "adopt_loop alloc m (Suc n) t d s (Some si) =
     (let t1 = upd t si (\<lambda>x. x\<lparr>dep_prev := Some s\<rparr>)
      in and_ok (if queued (str t1 si) then stream_obq_move alloc m t1 (Some s) d si else Inr (t1, None))
           (\<lambda>t2. adopt_loop alloc m n t2 d s (sib_next (str t2 si))))"

definition nghttp2_stream_dep_insert :: "(nat \<Rightarrow> bool) \<Rightarrow> nat \<Rightarrow> dtree \<Rightarrow> nat \<Rightarrow> nat \<Rightarrow> coded" where
  "nghttp2_stream_dep_insert alloc n t d s =
     (let t1 = upd t s (\<lambda>x. x\<lparr>sum_dep_weight := sum_dep_weight (str t d)\<rparr>);
          t2 = upd t1 d (\<lambda>x. x\<lparr>sum_dep_weight := weight (str t1 s)\<rparr>);
          linked = (\<lambda>t. Inr (upd (upd t d (\<lambda>x. x\<lparr>dep_next := Some s\<rparr>)) s
                               (\<lambda>x. x\<lparr>dep_prev := Some d\<rparr>), None))
      in if dep_next (str t2 d) \<noteq> None
         then and_ok (adopt_loop alloc n n t2 d s (dep_next (str t2 d))) (\<lambda>t3.
              and_ok (if subtree_active t3 s then stream_obq_push alloc n t3 (Some d) s
                      else Inr (t3, None)) (\<lambda>t4.
              linked (upd t4 s (\<lambda>x. x\<lparr>dep_next := dep_next (str t4 d)\<rparr>))))
         else linked t2)"

definition nghttp2_stream_dep_add :: "dtree \<Rightarrow> nat \<Rightarrow> nat \<Rightarrow> dtree res" where
  "nghttp2_stream_dep_add t d s =
     rbind (add_dep_weight t d (weight (str t s))) (\<lambda>t1.
     if dep_next (str t1 d) = None then Inr (link_dep t1 d (Some s)) else insert_link_dep t1 d s)"

text \<open>Gives the children from \<open>si\<close> on their share of the weight of \<open>s\<close>, and moves the queued ones
  into the heap of its parent; \<open>delta\<close> is what the sum of the parent changes by.\<close>

fun distribute_loop ::
  "(nat \<Rightarrow> bool) \<Rightarrow> nat \<Rightarrow> nat \<Rightarrow> dtree \<Rightarrow> nat \<Rightarrow> int \<Rightarrow> nat option \<Rightarrow>
     ((dtree \<times> int) \<times> nghttp2_error option) res" where
  "distribute_loop alloc m n t s delta None = Inr ((t, delta), None)"
| "distribute_loop alloc m 0 t s delta (Some si) = Inl Undefined"
| "distribute_loop alloc m (Suc n) t s delta (Some si) =
     rbind (nghttp2_stream_dep_distributed_weight (str t s) (weight (str t si))) (\<lambda>w.
     let t1 = upd t si (\<lambda>x. x\<lparr>weight := w\<rparr>)
     in rbind (i32 (delta + w)) (\<lambda>delta'.
        rbind (if queued (str t1 si) then stream_obq_move alloc m t1 (dep_prev (str t1 s)) s si
               else Inr (t1, None)) (\<lambda>(t2, rv).
        case rv of Some e \<Rightarrow> Inr ((t2, delta'), Some e)
        | None \<Rightarrow> distribute_loop alloc m n t2 s delta' (sib_next (str t2 si)))))"

definition nghttp2_stream_dep_remove :: "(nat \<Rightarrow> bool) \<Rightarrow> nat \<Rightarrow> dtree \<Rightarrow> nat \<Rightarrow> coded" where
  "nghttp2_stream_dep_remove alloc n t s =
     rbind (i32 (- weight (str t s))) (\<lambda>delta0.
     rbind (distribute_loop alloc n n t s delta0 (dep_next (str t s))) (\<lambda>((t1, delta), rv).
     case rv of Some e \<Rightarrow> Inr (t1, Some e)
     | None \<Rightarrow>
         (case dep_prev (str t1 s) of
            None \<Rightarrow> Inl Assert_failed
          | Some d \<Rightarrow>
              rbind (add_dep_weight t1 d delta) (\<lambda>t2.
              rbind (if queued (str t2 s) then stream_obq_remove n t2 s else Inr t2) (\<lambda>t3.
              rbind (if sib_prev (str t3 s) \<noteq> None then unlink_sib n t3 s else unlink_dep n t3 s) (\<lambda>t4.
              Inr (upd t4 s (\<lambda>x. x\<lparr>sum_dep_weight := 0, dep_prev := None, dep_next := None,
                                   sib_prev := None, sib_next := None\<rparr>), None)))))))"

definition nghttp2_stream_dep_insert_subtree ::
  "(nat \<Rightarrow> bool) \<Rightarrow> nat \<Rightarrow> dtree \<Rightarrow> nat \<Rightarrow> nat \<Rightarrow> coded" where
  "nghttp2_stream_dep_insert_subtree alloc n t d s =
     rbind (add_dep_weight t s (sum_dep_weight (str t d))) (\<lambda>t1.
     let t2 = upd t1 d (\<lambda>x. x\<lparr>sum_dep_weight := weight (str t1 s)\<rparr>)
     in and_ok
          (case dep_next (str t2 d) of
             Some first \<Rightarrow>
               (let t3 = link_dep t2 d (Some s)
                in rbind (case dep_next (str t3 s) of
                            Some c \<Rightarrow> rbind (stream_last_sib n t3 c) (\<lambda>l. Inr (link_sib t3 l (Some first)))
                          | None \<Rightarrow> Inr (link_dep t3 s (Some first))) (\<lambda>t4.
                   adopt_loop alloc n n t4 d s (Some first)))
           | None \<Rightarrow> Inr (link_dep t2 d (Some s), None))
          (\<lambda>t5. if subtree_active t5 s then stream_obq_push alloc n t5 (Some d) s else Inr (t5, None)))"

definition nghttp2_stream_dep_add_subtree ::
  "(nat \<Rightarrow> bool) \<Rightarrow> nat \<Rightarrow> dtree \<Rightarrow> nat \<Rightarrow> nat \<Rightarrow> coded" where
  "nghttp2_stream_dep_add_subtree alloc n t d s =
     rbind (add_dep_weight t d (weight (str t s))) (\<lambda>t1.
     rbind (if dep_next (str t1 d) \<noteq> None then insert_link_dep t1 d s
            else Inr (link_dep t1 d (Some s))) (\<lambda>t2.
     if subtree_active t2 s then stream_obq_push alloc n t2 (Some d) s else Inr (t2, None)))"

definition nghttp2_stream_dep_remove_subtree :: "nat \<Rightarrow> dtree \<Rightarrow> nat \<Rightarrow> dtree res" where
  "nghttp2_stream_dep_remove_subtree n t s =
     (case dep_prev (str t s) of
        None \<Rightarrow> Inl Assert_failed
      | Some d \<Rightarrow>
          (let t1 = (case sib_prev (str t s) of
                       Some p \<Rightarrow> link_sib t p (sib_next (str t s))
                     | None \<Rightarrow>
                         (let next = sib_next (str t s); t' = link_dep t d next
                          in case next of None \<Rightarrow> t' | Some b \<Rightarrow> upd t' b (\<lambda>x. x\<lparr>sib_prev := None\<rparr>)))
           in rbind (add_dep_weight t1 d (- weight (str t1 s))) (\<lambda>t2.
              rbind (if queued (str t2 s) then stream_obq_remove n t2 s else Inr t2) (\<lambda>t3.
              Inr (upd t3 s (\<lambda>x. x\<lparr>sib_prev := None, sib_next := None, dep_prev := None\<rparr>))))))"

section \<open>The next item to send\<close>

fun find_active :: "nat \<Rightarrow> dtree \<Rightarrow> nat \<Rightarrow> nat option res" where
  "find_active 0 t a = Inl Undefined"
| "find_active (Suc n) t a =
     (if stream_active (str t a) then Inr (Some a)
      else case nghttp2_pq_top (obq_of t a) of None \<Rightarrow> Inr None | Some b \<Rightarrow> find_active n t b)"

fun set_last_cycle :: "nat \<Rightarrow> dtree \<Rightarrow> nat \<Rightarrow> dtree res" where
  "set_last_cycle 0 t s = Inl Undefined"
| "set_last_cycle (Suc n) t s =
     (case dep_prev (str t s) of
        None \<Rightarrow> Inr t
      | Some d \<Rightarrow> set_last_cycle n (upd t d (\<lambda>x. x\<lparr>descendant_last_cycle := cycle (str t s)\<rparr>)) d)"

definition nghttp2_stream_next_outbound_item :: "nat \<Rightarrow> dtree \<Rightarrow> nat \<Rightarrow> (dtree \<times> nat option) res" where
  "nghttp2_stream_next_outbound_item n t a =
     rbind (find_active n t a) (\<lambda>r.
     case r of
       None \<Rightarrow> Inr (t, None)
     | Some b \<Rightarrow> rbind (set_last_cycle n t b) (\<lambda>t'. Inr (t', item (str t' b))))"

end
