(* ===== verification/DepQueue.thy ===== *)
theory DepQueue
  imports DepTree
begin

text \<open>
  The heaps of the dependency tree. What the operations of \<open>DepTree\<close> do to the queues is stated over a
  function \<open>par\<close> that gives the parent of each stream, because some of them move a stream to the heap of
  its new parent before it is linked there. Between two operations a stream is queued at its parent
  exactly when it, or a stream below it, has something to send.
\<close>

section \<open>A heap without its order\<close>

text \<open>The order of the entries plays no part here: whatever the comparison says, an operation keeps the
  members of the heap and the index of each.\<close>

lemma bubble_up_index:
  "i < length (q p) \<Longrightarrow> x \<notin> set (q p) \<Longrightarrow> index (bubble_up lt p i) x = index p x"
proof (induction lt p i rule: bubble_up.induct)
  case (1 lt p i)
  let ?par = "(i - 1) div 2"
  show ?case
  proof (cases "i = 0 \<or> \<not> lt (q p ! i) (q p ! ?par)")
    case True
    then show ?thesis by (subst bubble_up.simps) (auto simp: Let_def)
  next
    case False
    have par: "?par < length (q p)" using 1(2) by simp
    have step: "bubble_up lt p i = bubble_up lt (swap p ?par i) ?par"
      using False by (subst bubble_up.simps) (auto simp: Let_def)
    have ne: "q p ! i \<noteq> x" "q p ! ?par \<noteq> x" using 1(2,3) par nth_mem by metis+
    show ?thesis
      using 1(1) [OF _ refl] False par 1(2,3) ne unfolding step
      by (simp add: set_swap_entries index_swap)
  qed
qed

lemma bubble_down_index:
  "i < length (q p) \<Longrightarrow> x \<notin> set (q p) \<Longrightarrow> index (bubble_down lt p i) x = index p x"
proof (induction lt p i rule: bubble_down.induct)
  case (1 lt p i)
  let ?m = "min_child lt (q p) 2 (i * 2 + 1) i"
  show ?case
  proof (cases "?m = i")
    case True
    then show ?thesis by (subst bubble_down.simps) (auto simp: Let_def)
  next
    case False
    have m: "?m < length (q p)" using min_child_bounds [OF False] by auto
    have step: "bubble_down lt p i = bubble_down lt (swap p i ?m) ?m"
      using False by (subst bubble_down.simps) (auto simp: Let_def)
    have ne: "q p ! i \<noteq> x" "q p ! ?m \<noteq> x" using 1(2,3) m nth_mem by metis+
    show ?thesis
      using 1(1) [OF refl False] m 1(2,3) ne unfolding step
      by (simp add: set_swap_entries index_swap)
  qed
qed

text \<open>What a heap is without its order, and how two of them differ.\<close>

definition heap_shape :: "'e pq \<Rightarrow> bool" where
  "heap_shape p \<longleftrightarrow> indexed p \<and> length (q p) \<le> capacity p \<and> capacity p < 2 ^ 29"

definition same_index :: "'e set \<Rightarrow> 'e pq \<Rightarrow> 'e pq \<Rightarrow> bool" where
  "same_index A p p' \<longleftrightarrow> (\<forall>x. x \<notin> A \<longrightarrow> index p' x = index p x)"

lemma appended_shape:
  assumes "indexed p" "e \<notin> set (q p)"
  shows "indexed (p\<lparr>capacity := c, q := q p @ [e], index := (index p)(e := length (q p))\<rparr>)"
  using assms by (auto simp: indexed_def nth_append less_Suc_eq)

lemma bubble_up_shape:
  assumes "heap_shape p" "i < length (q p)"
  shows "heap_shape (bubble_up lt p i)" "set (q (bubble_up lt p i)) = set (q p)"
    "capacity (bubble_up lt p i) = capacity p" "same_index (set (q p)) p (bubble_up lt p i)"
    "length (q (bubble_up lt p i)) = length (q p)"
  using assms bubble_up_structure [of i p lt] bubble_up_index [of i p _ lt]
  by (auto simp: heap_shape_def same_index_def dest: mset_eq_setD)

lemma bubble_down_shape:
  assumes "heap_shape p" "i < length (q p)"
  shows "heap_shape (bubble_down lt p i)" "set (q (bubble_down lt p i)) = set (q p)"
    "capacity (bubble_down lt p i) = capacity p" "same_index (set (q p)) p (bubble_down lt p i)"
    "length (q (bubble_down lt p i)) = length (q p)"
  using assms bubble_down_structure [of lt p i] bubble_down_index [of i p _ lt]
  by (auto simp: heap_shape_def same_index_def dest: mset_eq_setD)

lemma push_shape:
  assumes ok: "heap_shape p" and e: "e \<notin> set (q p)" and small: "length (q p) \<le> 2 ^ 27"
  shows "nghttp2_pq_push alloc lt p e = Inl (Code NGHTTP2_ERR_NOMEM) \<and> capacity p = length (q p) \<or>
    (\<exists>p'. nghttp2_pq_push alloc lt p e = Inr p' \<and> heap_shape p' \<and>
       set (q p') = insert e (set (q p)) \<and> same_index (insert e (set (q p))) p p')"
proof -
  have l: "length (q p) \<le> capacity p" "capacity p < 2 ^ 29" using ok by (auto simp: heap_shape_def)
  define c where "c = (if capacity p \<le> length (q p) then max 4 (capacity p * 2) else capacity p)"
  define p1 where "p1 = p\<lparr>capacity := c, q := q p @ [e], index := (index p)(e := length (q p))\<rparr>"
  have c: "length (q p) < c" "c < 2 ^ 29" using l small by (auto simp: c_def max_def)
  have shape1: "heap_shape p1"
    using c appended_shape [of p e c] ok e by (auto simp: heap_shape_def p1_def)
  have nomod: "max 4 (capacity p * 2 mod 2 ^ 32) = max 4 (capacity p * 2)"
    "max 4 (capacity p * 2) * 4 mod 2 ^ 32 = max 4 (capacity p * 2) * 4"
    using l by (auto simp: max_def)
  have push: "nghttp2_pq_push alloc lt p e =
      (if capacity p \<le> length (q p) \<and> \<not> alloc (max 4 (capacity p * 2) * 4)
       then Inl (Code NGHTTP2_ERR_NOMEM) else Inr (bubble_up lt p1 (length (q p))))"
    using c l nomod unfolding nghttp2_pq_push_def Let_def
    by (auto simp: c_def p1_def)
  have q1: "set (q p1) = insert e (set (q p))" "length (q p) < length (q p1)"
    by (simp_all add: p1_def)
  have "same_index (insert e (set (q p))) p p1" by (auto simp: same_index_def p1_def)
  then show ?thesis
    using push l bubble_up_shape [OF shape1 q1(2), of lt] q1 by (auto simp: same_index_def)
qed

lemma push_shape_room:
  assumes "heap_shape p" "e \<notin> set (q p)" "length (q p) < capacity p"
  shows "\<exists>p'. nghttp2_pq_push alloc lt p e = Inr p' \<and> heap_shape p' \<and>
       set (q p') = insert e (set (q p)) \<and> same_index (insert e (set (q p))) p p'"
proof -
  let ?p1 = "p\<lparr>q := q p @ [e], index := (index p)(e := length (q p))\<rparr>"
  have push: "nghttp2_pq_push alloc lt p e = Inr (bubble_up lt ?p1 (length (q p)))"
    using assms(3) by (simp add: nghttp2_pq_push_def)
  have shape1: "heap_shape ?p1"
    using appended_shape [of p e "capacity p"] assms by (auto simp: heap_shape_def)
  show ?thesis
    using push bubble_up_shape [OF shape1, of "length (q p)" lt] by (auto simp: same_index_def)
qed

lemma last_not_butlast: "distinct xs \<Longrightarrow> xs \<noteq> [] \<Longrightarrow> set (butlast xs) = set xs - {last xs}"
  by (cases xs rule: rev_cases) auto

lemma set_less_one:
  assumes "mset ys = mset xs - {#x#}" "distinct xs"
  shows "set ys = set xs - {x}"
proof -
  have "mset ys = mset (remove1 x xs)" using assms(1) by simp
  then have "set ys = set (remove1 x xs)" by (rule mset_eq_setD)
  then show ?thesis using assms(2) by (simp add: set_remove1_eq)
qed

lemma pop_shape:
  assumes ok: "heap_shape p" and ne: "q p \<noteq> []"
  shows "heap_shape (nghttp2_pq_pop lt p) \<and> set (q (nghttp2_pq_pop lt p)) = set (q p) - {q p ! 0} \<and>
    same_index (set (q p)) p (nghttp2_pq_pop lt p) \<and> capacity (nghttp2_pq_pop lt p) = capacity p \<and>
    length (q (nghttp2_pq_pop lt p)) = length (q p) - 1"
proof (cases "length (q p) = 1")
  case True
  then obtain e where e: "q p = [e]" by (cases "q p") auto
  have "bubble_down lt (p\<lparr>q := [], index := (index p)(e := 0)\<rparr>) 0 =
      p\<lparr>q := [], index := (index p)(e := 0)\<rparr>"
    by (subst bubble_down.simps) (simp add: min_child_2)
  then show ?thesis using e ok
    by (simp add: nghttp2_pq_pop_def heap_shape_def indexed_def same_index_def)
next
  case False
  let ?ys = "butlast ((q p)[0 := last (q p)])"
  let ?p = "p\<lparr>q := ?ys, index := (index p)(last (q p) := 0)\<rparr>"
  have pos: "0 < length (q p) - 1" using False ne by (cases "q p") auto
  have pop: "nghttp2_pq_pop lt p = bubble_down lt ?p 0"
    using ne by (simp add: nghttp2_pq_pop_def Let_def last_conv_nth)
  have ix: "indexed p" using ok by (simp add: heap_shape_def)
  note st = replaced_structure [OF ix pos]
  have ys: "set ?ys = set (q p) - {q p ! 0}"
    using set_less_one [OF st(2)] indexed_distinct [OF ix] by simp
  have shape: "heap_shape ?p" using st(1) ok by (auto simp: heap_shape_def)
  have sub: "set ?ys \<subseteq> set (q p)" "last (q p) \<in> set (q p)" using ys ne by auto
  show ?thesis
    unfolding pop using bubble_down_shape [OF shape, of 0 lt] pos ys sub
    by (auto simp: same_index_def)
qed

lemma remove_shape:
  assumes ok: "heap_shape p" and e: "e \<in> set (q p)"
  shows "\<exists>p'. nghttp2_pq_remove lt p e = Inr p' \<and> heap_shape p' \<and> set (q p') = set (q p) - {e} \<and>
    same_index (set (q p)) p p' \<and> length (q p') < capacity p'"
proof -
  have ix: "indexed p" using ok by (simp add: heap_shape_def)
  obtain i where i: "i < length (q p)" "q p ! i = e" using e by (auto simp: in_set_conv_nth)
  then have at: "index p e = i" using ix by (auto simp: indexed_def)
  have ne: "q p \<noteq> []" using e by auto
  then have pos: "0 < length (q p)" by simp
  have cap: "length (q p) \<le> capacity p" using ok by (simp add: heap_shape_def)
  have drop: "length (q p) - Suc 0 < capacity p" using pos cap by linarith
  consider "i = 0" | "0 < i" "i = length (q p) - 1" | "0 < i" "i < length (q p) - 1"
    using i(1) by linarith
  then show ?thesis
  proof cases
    case 1
    then have "nghttp2_pq_remove lt p e = Inr (nghttp2_pq_pop lt p)"
      using at i by (simp add: nghttp2_pq_remove_def Let_def)
    then show ?thesis using pop_shape [OF ok ne, of lt] 1 i drop by simp
  next
    case 2
    have "nghttp2_pq_remove lt p e = Inr (p\<lparr>q := butlast (q p)\<rparr>)"
      using at i 2 by (simp add: nghttp2_pq_remove_def Let_def)
    moreover have "set (butlast (q p)) = set (q p) - {e}"
      using last_not_butlast [OF indexed_distinct [OF ix] ne] 2 i ne by (simp add: last_conv_nth)
    ultimately show ?thesis using indexed_butlast [OF ix] ok drop
      by (simp add: heap_shape_def same_index_def)
  next
    case 3
    let ?ys = "butlast ((q p)[i := last (q p)])"
    let ?p = "p\<lparr>q := ?ys, index := (index p)(last (q p) := i)\<rparr>"
    have rem: "nghttp2_pq_remove lt p e =
        Inr (if lt e (last (q p)) then bubble_down lt ?p i else bubble_up lt ?p i)"
      using at i 3 ne by (simp add: nghttp2_pq_remove_def Let_def last_conv_nth)
    note st = replaced_structure [OF ix 3(2)]
    have ys: "set ?ys = set (q p) - {e}"
      using set_less_one [OF st(2)] indexed_distinct [OF ix] i by simp
    have shape: "heap_shape ?p" using st(1) ok by (auto simp: heap_shape_def)
    have sub: "set ?ys \<subseteq> set (q p)" "last (q p) \<in> set (q p)" using ys ne by auto
    have less: "i < length (q ?p)" "length (q ?p) < capacity ?p" using 3 cap pos by auto
    show ?thesis
      unfolding rem
      using bubble_down_shape [OF shape less(1), of lt] bubble_up_shape [OF shape less(1), of lt]
        less ys sub by (auto simp: same_index_def)
  qed
qed

section \<open>All heaps\<close>

text \<open>\<open>m a\<close> is the set of members of the heap of \<open>a\<close>.\<close>

definition heaps_hold :: "nat set \<Rightarrow> (nat \<Rightarrow> nat set) \<Rightarrow> dtree \<Rightarrow> bool" where
  "heaps_hold V m t \<longleftrightarrow> (\<forall>a\<in>V. heap_shape (obq_of t a) \<and> set (fst (heaps t a)) = m a)"

lemma upd_heaps [simp]: "heaps (upd t a f) = heaps t" "pqi (upd t a f) = pqi t"
  "obq_of (upd t a f) b = obq_of t b"
  by (simp_all add: upd_def obq_of_def)

lemma upd_str [simp]: "str (upd t a f) b = (if b = a then f (str t a) else str t b)"
  by (simp add: upd_def)

lemma str_store [simp]: "str (store_obq t a p) = str t"
  by (simp add: store_obq_def)

lemma q_obq_of [simp]: "q (obq_of t a) = fst (heaps t a)" "index (obq_of t a) = pqi t"
  "capacity (obq_of t a) = snd (heaps t a)"
  by (simp_all add: obq_of_def)

lemma heaps_hold_upd [simp]: "heaps_hold V m (upd t a f) = heaps_hold V m t"
  by (simp add: heaps_hold_def)

lemma heaps_hold_cong: "heaps_hold V m t \<Longrightarrow> (\<And>a. a \<in> V \<Longrightarrow> m' a = m a) \<Longrightarrow> heaps_hold V m' t"
  by (simp add: heaps_hold_def)

lemma obq_of_store: "obq_of (store_obq t d p) b = (if b = d then p else (obq_of t b)\<lparr>index := index p\<rparr>)"
  by (simp add: obq_of_def store_obq_def)

lemma heaps_hold_store:
  assumes hold: "heaps_hold V m t" and d: "d \<in> V"
    and p: "heap_shape p" "set (q p) = A" "same_index C (obq_of t d) p"
    and away: "\<And>b. b \<in> V \<Longrightarrow> b \<noteq> d \<Longrightarrow> m b \<inter> C = {}"
  shows "heaps_hold V (m(d := A)) (store_obq t d p)"
  unfolding heaps_hold_def
proof
  fix b assume b: "b \<in> V"
  show "heap_shape (obq_of (store_obq t d p) b) \<and> set (fst (heaps (store_obq t d p) b)) = (m(d := A)) b"
  proof (cases "b = d")
    case True
    then show ?thesis using p by (simp add: obq_of_store) (simp add: store_obq_def)
  next
    case False
    have old: "heap_shape (obq_of t b)" "set (fst (heaps t b)) = m b"
      using hold b by (auto simp: heaps_hold_def)
    have "index p x = pqi t x" if "x \<in> m b" for x
      using p(3) away [OF b False] that by (auto simp: same_index_def)
    then have "index p (fst (heaps t b) ! i) = pqi t (fst (heaps t b) ! i)"
      if "i < length (fst (heaps t b))" for i using that old(2) nth_mem by blast
    then have "indexed ((obq_of t b)\<lparr>index := index p\<rparr>)"
      using old(1) by (simp add: indexed_def heap_shape_def)
    then show ?thesis using False old
      by (simp add: obq_of_store heap_shape_def) (simp add: store_obq_def)
  qed
qed

lemma queue_push_holds:
  assumes hold: "heaps_hold V m t" and d: "d \<in> V" and s: "\<And>b. b \<in> V \<Longrightarrow> s \<notin> m b"
    and apart: "\<And>b. b \<in> V \<Longrightarrow> b \<noteq> d \<Longrightarrow> m b \<inter> m d = {}"
    and V: "finite V" "card V \<le> 2 ^ 27" "m d \<subseteq> V"
  shows "queue_push alloc t d s = Inr (t, Some NGHTTP2_ERR_NOMEM) \<or>
    (\<exists>t'. queue_push alloc t d s = Inr (t', None) \<and> str t' = str t \<and>
       heaps_hold V (m(d := insert s (m d))) t')"
    and "length (fst (heaps t d)) < snd (heaps t d) \<Longrightarrow>
      \<exists>t'. queue_push alloc t d s = Inr (t', None) \<and> str t' = str t \<and>
       heaps_hold V (m(d := insert s (m d))) t'"
proof -
  have shape: "heap_shape (obq_of t d)" "set (fst (heaps t d)) = m d"
    using hold d by (auto simp: heaps_hold_def)
  have e: "s \<notin> set (q (obq_of t d))" using s [OF d] shape by simp
  have "length (fst (heaps t d)) = card (m d)"
    using shape indexed_distinct [of "obq_of t d"] by (simp add: heap_shape_def flip: distinct_card)
  then have small: "length (q (obq_of t d)) \<le> 2 ^ 27"
    using card_mono [OF V(1,3)] V(2) by simp
  have hold': "heaps_hold V (m(d := insert s (m d))) (store_obq t d p)"
    if "heap_shape p" "set (q p) = insert s (m d)" "same_index (insert s (m d)) (obq_of t d) p" for p
    using that s apart by (intro heaps_hold_store [OF hold d]) auto
  show "queue_push alloc t d s = Inr (t, Some NGHTTP2_ERR_NOMEM) \<or>
    (\<exists>t'. queue_push alloc t d s = Inr (t', None) \<and> str t' = str t \<and>
       heaps_hold V (m(d := insert s (m d))) t')"
    using push_shape [OF shape(1) e small, of alloc "entry_less (str t)"] hold' shape(2)
    by (auto simp: queue_push_def)
  show "\<exists>t'. queue_push alloc t d s = Inr (t', None) \<and> str t' = str t \<and>
       heaps_hold V (m(d := insert s (m d))) t'"
    if "length (fst (heaps t d)) < snd (heaps t d)"
    using push_shape_room [OF shape(1) e, of alloc "entry_less (str t)"] that hold' shape(2)
    by (auto simp: queue_push_def)
qed

lemma queue_remove_holds:
  assumes hold: "heaps_hold V m t" and d: "d \<in> V" and s: "s \<in> m d"
    and apart: "\<And>b. b \<in> V \<Longrightarrow> b \<noteq> d \<Longrightarrow> m b \<inter> m d = {}"
  shows "\<exists>t'. queue_remove t d s = Inr t' \<and> str t' = str t \<and> heaps_hold V (m(d := m d - {s})) t' \<and>
    length (fst (heaps t' d)) < snd (heaps t' d)"
proof -
  have shape: "heap_shape (obq_of t d)" "set (fst (heaps t d)) = m d"
    using hold d by (auto simp: heaps_hold_def)
  have e: "s \<in> set (q (obq_of t d))" using s shape by simp
  obtain p where p: "nghttp2_pq_remove (entry_less (str t)) (obq_of t d) s = Inr p" "heap_shape p"
    "set (q p) = m d - {s}" "same_index (m d) (obq_of t d) p" "length (q p) < capacity p"
    using remove_shape [OF shape(1) e, of "entry_less (str t)"] shape(2) by auto
  have "heaps_hold V (m(d := m d - {s})) (store_obq t d p)"
    using p apart by (intro heaps_hold_store [OF hold d]) auto
  then show ?thesis using p(1,5) by (simp add: queue_remove_def) (simp add: store_obq_def)
qed

section \<open>Parents and ancestors\<close>

definition par_edges :: "(nat \<Rightarrow> nat option) \<Rightarrow> (nat \<times> nat) set" where
  "par_edges par = {(c, a). par c = Some a}"

definition anc :: "(nat \<Rightarrow> nat option) \<Rightarrow> nat \<Rightarrow> nat set" where
  "anc par c = {a. (c, a) \<in> (par_edges par)\<^sup>+}"

definition parents_ok :: "nat set \<Rightarrow> (nat \<Rightarrow> nat option) \<Rightarrow> bool" where
  "parents_ok V par \<longleftrightarrow> finite V \<and> card V \<le> 2 ^ 27 \<and>
     (\<forall>c a. par c = Some a \<longrightarrow> c \<in> V \<and> a \<in> V) \<and> acyclic (par_edges par)"

lemma anc_None: "par c = None \<Longrightarrow> anc par c = {}"
  by (auto simp: anc_def par_edges_def dest: tranclD)

lemma anc_Some: "par c = Some a \<Longrightarrow> anc par c = insert a (anc par a)"
  unfolding anc_def
  by (auto simp: par_edges_def rtrancl_eq_or_trancl
      intro: trancl_into_trancl2 [of _ a] dest!: tranclD [of c])

lemma anc_subset: "parents_ok V par \<Longrightarrow> anc par c \<subseteq> V"
  by (auto simp: anc_def parents_ok_def par_edges_def dest: tranclD2)

lemma anc_self: "parents_ok V par \<Longrightarrow> c \<notin> anc par c"
  by (auto simp: anc_def parents_ok_def acyclic_def)

lemma anc_trans: "a \<in> anc par c \<Longrightarrow> anc par a \<subseteq> anc par c"
  by (auto simp: anc_def intro: trancl_trans)

lemma anc_finite: "parents_ok V par \<Longrightarrow> finite (anc par c)"
  using anc_subset [of V par c] by (auto simp: parents_ok_def intro: finite_subset)

lemma anc_card: "parents_ok V par \<Longrightarrow> par c = Some a \<Longrightarrow> card (anc par c) = Suc (card (anc par a))"
  using anc_Some [of par c a] anc_finite [of V par a] anc_self [of V par a] by simp

lemma anc_card_less:
  assumes "parents_ok V par" "c \<in> V"
  shows "card (anc par c) < card V"
proof -
  have "anc par c \<subset> V" using anc_subset [OF assms(1), of c] anc_self [OF assms(1), of c] assms(2) by auto
  then show ?thesis using assms(1) by (auto simp: parents_ok_def intro: psubset_card_mono)
qed

lemma child_not_anc:
  "parents_ok V par \<Longrightarrow> par c = Some a \<Longrightarrow> c \<notin> insert a (anc par a)"
  using anc_Some [of par c a] anc_self [of V par c] by metis

section \<open>The schedule\<close>

definition kids :: "nat set \<Rightarrow> (nat \<Rightarrow> nat option) \<Rightarrow> (nat \<Rightarrow> stream) \<Rightarrow> nat \<Rightarrow> nat set" where
  "kids V par st a = {c \<in> V. par c = Some a \<and> queued (st c)}"

definition busy :: "nat set \<Rightarrow> (nat \<Rightarrow> nat option) \<Rightarrow> (nat \<Rightarrow> stream) \<Rightarrow> nat \<Rightarrow> bool" where
  "busy V par st c \<longleftrightarrow> stream_active (st c) \<or> kids V par st c \<noteq> {}"

definition weights_ok :: "nat set \<Rightarrow> (nat \<Rightarrow> stream) \<Rightarrow> bool" where
  "weights_ok V st \<longleftrightarrow> (\<forall>c\<in>V. 1 \<le> weight (st c) \<and> weight (st c) \<le> 256)"

text \<open>The heaps hold the queued children; a stream with a parent is queued if, unless it is in \<open>N\<close>, and
  only if, unless it is in \<open>B\<close>, something below it can be sent.\<close>

definition sched :: "nat set \<Rightarrow> (nat \<Rightarrow> nat option) \<Rightarrow> nat set \<Rightarrow> nat set \<Rightarrow> dtree \<Rightarrow> bool" where
  "sched V par N B t \<longleftrightarrow> parents_ok V par \<and> weights_ok V (str t) \<and>
     heaps_hold V (kids V par (str t)) t \<and>
     (\<forall>c\<in>V. queued (str t c) \<longrightarrow> par c \<noteq> None) \<and>
     (\<forall>c\<in>V - N. busy V par (str t) c \<longrightarrow> par c \<noteq> None \<longrightarrow> queued (str t c)) \<and>
     (\<forall>c\<in>V - B. queued (str t c) \<longrightarrow> busy V par (str t) c)"

lemma schedI:
  assumes "parents_ok V par" "weights_ok V (str t)" "heaps_hold V (kids V par (str t)) t"
    and "\<And>c. c \<in> V \<Longrightarrow> queued (str t c) \<Longrightarrow> par c \<noteq> None"
    and "\<And>c. c \<in> V \<Longrightarrow> c \<notin> N \<Longrightarrow> busy V par (str t) c \<Longrightarrow> par c \<noteq> None \<Longrightarrow> queued (str t c)"
    and "\<And>c. c \<in> V \<Longrightarrow> c \<notin> B \<Longrightarrow> queued (str t c) \<Longrightarrow> busy V par (str t) c"
  shows "sched V par N B t"
  using assms unfolding sched_def by blast

lemma schedD:
  assumes "sched V par N B t"
  shows "parents_ok V par" "weights_ok V (str t)" "heaps_hold V (kids V par (str t)) t"
    and "c \<in> V \<Longrightarrow> queued (str t c) \<Longrightarrow> par c \<noteq> None"
    and "c \<in> V \<Longrightarrow> c \<notin> N \<Longrightarrow> busy V par (str t) c \<Longrightarrow> par c \<noteq> None \<Longrightarrow> queued (str t c)"
    and "c \<in> V \<Longrightarrow> c \<notin> B \<Longrightarrow> queued (str t c) \<Longrightarrow> busy V par (str t) c"
  using assms unfolding sched_def by blast+

text \<open>The fields the schedule does not touch.\<close>

definition core :: "stream \<Rightarrow> stream" where
  "core s = s\<lparr>descendant_last_cycle := 0, cycle := 0, descendant_next_seq := 0, seq := 0,
              last_writelen := 0, pending_penalty := 0, queued := False\<rparr>"

definition same_core :: "(nat \<Rightarrow> stream) \<Rightarrow> (nat \<Rightarrow> stream) \<Rightarrow> bool" where
  "same_core st st' \<longleftrightarrow> (\<forall>a. core (st' a) = core (st a))"

lemma core_fields:
  assumes "core s' = core s"
  shows "dep_prev s' = dep_prev s" "dep_next s' = dep_next s" "sib_prev s' = sib_prev s"
    "sib_next s' = sib_next s" "weight s' = weight s" "sum_dep_weight s' = sum_dep_weight s"
    "item s' = item s" "flags s' = flags s"
  using arg_cong [OF assms, of dep_prev] arg_cong [OF assms, of dep_next]
    arg_cong [OF assms, of sib_prev] arg_cong [OF assms, of sib_next] arg_cong [OF assms, of weight]
    arg_cong [OF assms, of sum_dep_weight] arg_cong [OF assms, of item] arg_cong [OF assms, of flags]
  by (simp_all add: core_def)

lemma same_coreD:
  assumes "same_core st st'"
  shows "dep_prev (st' a) = dep_prev (st a)" "dep_next (st' a) = dep_next (st a)"
    "sib_prev (st' a) = sib_prev (st a)" "sib_next (st' a) = sib_next (st a)"
    "weight (st' a) = weight (st a)" "sum_dep_weight (st' a) = sum_dep_weight (st a)"
    "stream_active (st' a) = stream_active (st a)"
  using core_fields [of "st' a" "st a"] assms by (simp_all add: same_core_def stream_active_def)

lemma same_core_refl [simp]: "same_core st st" by (simp add: same_core_def)

lemma same_core_trans: "same_core a b \<Longrightarrow> same_core b c \<Longrightarrow> same_core a c"
  by (simp add: same_core_def)

lemma weights_core: "same_core st st' \<Longrightarrow> weights_ok V st' = weights_ok V st"
  by (simp add: weights_ok_def same_coreD)

lemma busy_core:
  "same_core st st' \<Longrightarrow> (\<And>c. c \<in> V \<Longrightarrow> par c = Some a \<Longrightarrow> queued (st' c) = queued (st c)) \<Longrightarrow>
     busy V par st' a = busy V par st a"
  by (auto simp: busy_def kids_def same_coreD)

lemma next_cycle_ok:
  assumes "1 \<le> weight s" "weight s \<le> 256"
  shows "\<exists>s'. stream_next_cycle s c = Inr s' \<and> core s' = core s \<and> queued s' = queued s"
proof -
  define n where "n = nat (weight s)"
  have n: "weight s = int n" "1 \<le> n" "n \<le> 256" using assms by (auto simp: n_def)
  then have "unat (ucast (word_of_int (weight s) :: u32) :: u64) = n"
    by (simp add: unsigned_ucast_eq unat_of_nat take_bit_nat_eq_self)
  then have "(ucast (word_of_int (weight s) :: u32) :: u64) \<noteq> 0" using n(2) by auto
  then show ?thesis by (simp add: stream_next_cycle_def Let_def core_def)
qed

lemma subtree_active_busy:
  "heaps_hold V (kids V par (str t)) t \<Longrightarrow> a \<in> V \<Longrightarrow> subtree_active t a = busy V par (str t) a"
  by (auto simp: subtree_active_def stream_subtree_active_def busy_def nghttp2_pq_empty_def heaps_hold_def)

section \<open>Pushing\<close>

lemma kids_apart: "a \<noteq> b \<Longrightarrow> kids V par st a \<inter> kids V par st b = {}"
  by (auto simp: kids_def)

lemma kids_subset: "kids V par st a \<subseteq> V" by (auto simp: kids_def)

lemma not_kid: "\<not> queued (st s) \<Longrightarrow> s \<notin> kids V par st b" by (simp add: kids_def)

lemma in_kids: "s \<in> V \<Longrightarrow> par s = Some d \<Longrightarrow> queued (st s) \<Longrightarrow> s \<in> kids V par st d"
  by (simp add: kids_def)

lemma sched_queued:
  assumes ok: "sched V par (insert s N) B t" and s: "s \<in> V" "par s = Some d" "\<not> queued (str t s)"
    "busy V par (str t) s"
    and core: "same_core (str t) (str t')"
    and q: "\<And>c. queued (str t' c) = (c = s \<or> queued (str t c))"
    and hold: "heaps_hold V ((kids V par (str t))(d := insert s (kids V par (str t) d))) t'"
  shows "sched V par (insert d N) B t'" "busy V par (str t') d"
proof -
  have kids: "kids V par (str t') a = ((kids V par (str t))(d := insert s (kids V par (str t) d))) a" for a
    using s by (auto simp: kids_def q)
  have same: "busy V par (str t') c = busy V par (str t) c" if "c \<noteq> d" for c
    using that s q by (intro busy_core [OF core]) auto
  show bd: "busy V par (str t') d" using kids [of d] by (auto simp: busy_def)
  have par: "parents_ok V par" using ok by (rule schedD)
  have nd: "s \<noteq> d" using child_not_anc [OF par s(2)] by auto
  show "sched V par (insert d N) B t'"
  proof (rule schedI [OF par])
    show "weights_ok V (str t')" using schedD(2) [OF ok] weights_core [OF core] by simp
    show "heaps_hold V (kids V par (str t')) t'" using hold kids by (simp add: heaps_hold_def)
    show "par c \<noteq> None" if "c \<in> V" "queued (str t' c)" for c
      using that q s schedD(4) [OF ok] by auto
    show "queued (str t' c)" if "c \<in> V" "c \<notin> insert d N" "busy V par (str t') c" "par c \<noteq> None" for c
      using that q same schedD(5) [OF ok] by auto
    show "busy V par (str t') c" if "c \<in> V" "c \<notin> B" "queued (str t' c)" for c
      using that q same bd s nd schedD(6) [OF ok] by (cases "c = d") auto
  qed
qed

definition pushed ::
  "nat set \<Rightarrow> (nat \<Rightarrow> nat option) \<Rightarrow> nat set \<Rightarrow> nat set \<Rightarrow> nat \<Rightarrow> dtree \<Rightarrow> dtree \<Rightarrow> bool" where
  "pushed V par N B s t t' \<longleftrightarrow> sched V par N B t' \<and>
     (\<forall>c. queued (str t c) \<longrightarrow> queued (str t' c)) \<and>
     (\<forall>c. c \<notin> insert s (anc par s) \<longrightarrow> queued (str t' c) = queued (str t c)) \<and>
     (par s \<noteq> None \<longrightarrow> queued (str t' s))"

text \<open>The possible results of an operation that may run out of memory.\<close>

definition gives :: "coded \<Rightarrow> (dtree \<Rightarrow> bool) \<Rightarrow> bool" where
  "gives m P \<longleftrightarrow> (\<exists>t'. m = Inr (t', Some NGHTTP2_ERR_NOMEM)) \<or> (\<exists>t'. m = Inr (t', None) \<and> P t')"

lemma gives_Inr [simp]: "gives (Inr (t, None)) P \<longleftrightarrow> P t"
  by (simp add: gives_def)

lemma gives_and_ok:
  assumes "gives m P" "\<And>t. P t \<Longrightarrow> gives (f t) Q"
  shows "gives (and_ok m f) Q"
proof -
  consider (fail) t where "m = Inr (t, Some NGHTTP2_ERR_NOMEM)" | (go) t where "m = Inr (t, None)" "P t"
    using assms(1) unfolding gives_def by blast
  then show ?thesis
  proof cases
    case fail
    then have "and_ok m f = Inr (t, Some NGHTTP2_ERR_NOMEM)" by (simp add: and_ok_def)
    then show ?thesis unfolding gives_def by blast
  next
    case go
    then have "and_ok m f = f t" by (simp add: and_ok_def)
    then show ?thesis using assms(2) [OF go(2)] by simp
  qed
qed

lemma gives_mono: "gives m P \<Longrightarrow> (\<And>t. P t \<Longrightarrow> Q t) \<Longrightarrow> gives m Q"
  by (auto simp: gives_def)

lemma sched_mono: "sched V par N B t \<Longrightarrow> N \<subseteq> N' \<Longrightarrow> B \<subseteq> B' \<Longrightarrow> sched V par N' B' t"
  unfolding sched_def by (simp add: Ball_def subset_iff) metis

lemma sched_less_N:
  assumes ok: "sched V par (insert s N) B t"
    and s: "par s = None \<or> queued (str t s) \<or> \<not> busy V par (str t) s"
  shows "sched V par N B t"
proof (rule schedI [OF schedD(1-3) [OF ok]])
  show "queued (str t c)" if "c \<in> V" "c \<notin> N" "busy V par (str t) c" "par c \<noteq> None" for c
    using schedD(5) [OF ok that(1) _ that(3,4)] s that by (cases "c = s") auto
qed (use schedD(4,6) [OF ok] in simp_all)

lemma sched_less_B:
  assumes ok: "sched V par N {s} t" and s: "\<not> queued (str t s) \<or> busy V par (str t) s"
  shows "sched V par N {} t"
proof (rule schedI [OF schedD(1-3) [OF ok]])
  show "busy V par (str t) c" if "c \<in> V" "queued (str t c)" for c
    using schedD(6) [OF ok that(1) _ that(2)] s that by (cases "c = s") auto
qed (use schedD(4,5) [OF ok] in simp_all)

lemma pushed_mono: "pushed V par N B s t t' \<Longrightarrow> N \<subseteq> N' \<Longrightarrow> pushed V par N' B s t t'"
  using sched_mono [of V par N B t' N' B] by (simp add: pushed_def)

text \<open>Streams in \<open>N\<close>, which have yet to be queued, may lie on the way.\<close>

lemma obq_push_ok:
  assumes "sched V par (insert s N) B t" "s \<in> V" "busy V par (str t) s"
    and "\<And>a. a \<in> anc par s \<Longrightarrow> dep_prev (str t a) = par a" and "card (anc par s) \<le> n"
  shows "gives (stream_obq_push alloc n t (par s) s)
           (\<lambda>t'. same_core (str t) (str t') \<and>
             pushed V par (if queued (str t s) then N else N - set_option (par s)) B s t t')"
  using assms
proof (induction n arbitrary: t s N)
  case 0
  have "par s = None"
    using 0(5) anc_finite [OF schedD(1) [OF 0(1)], of s] anc_Some [of par s "the (par s)"] by (cases "par s") auto
  then show ?case using sched_less_N [OF 0(1)] by (simp add: pushed_def)
next
  case (Suc n)
  note par = schedD(1) [OF Suc(2)]
  show ?case
  proof (cases "par s")
    case None
    then show ?thesis using sched_less_N [OF Suc(2)] by (simp add: pushed_def)
  next
    case (Some d)
    have V: "d \<in> V" "finite V" "card V \<le> 2 ^ 27" using par Some by (auto simp: parents_ok_def)
    have anc_s: "anc par s = insert d (anc par d)" using anc_Some [of par s d] Some by simp
    have above: "s \<notin> insert d (anc par d)" using child_not_anc [of V par s d] par Some by simp
    then have nd: "s \<noteq> d" by simp
    show ?thesis
    proof (cases "queued (str t s)")
      case True
      then show ?thesis using sched_less_N [OF Suc(2)] Some by (simp add: pushed_def)
    next
      case False
      obtain s' where s': "stream_next_cycle (str t s) (descendant_last_cycle (str t d)) = Inr s'"
        "core s' = core (str t s)" "queued s' = queued (str t s)"
        using next_cycle_ok [of "str t s"] schedD(2) [OF Suc(2)] Suc(3) unfolding weights_ok_def by meson
      define t2 where "t2 = upd (upd t s (\<lambda>_. s'\<lparr>seq := descendant_next_seq (str t d)\<rparr>)) d
        (\<lambda>x. x\<lparr>descendant_next_seq := descendant_next_seq x + 1\<rparr>)"
      have core2: "same_core (str t) (str t2)"
        using s'(2) by (auto simp: same_core_def t2_def core_def)
      have q2: "queued (str t2 c) = queued (str t c)" for c
        using s'(3) by (simp add: t2_def)
      let ?m = "kids V par (str t)"
      have hold2: "heaps_hold V ?m t2" using schedD(3) [OF Suc(2)] by (simp add: t2_def)
      let ?f = "\<lambda>t3. let t4 = upd t3 s (\<lambda>x. x\<lparr>queued := True\<rparr>)
          in stream_obq_push alloc n t4 (dep_prev (str t4 d)) d"
      have step: "stream_obq_push alloc (Suc n) t (par s) s = and_ok (queue_push alloc t2 d s) ?f"
        using False s'(1) by (simp add: Some t2_def Let_def)
      have "gives (queue_push alloc t2 d s)
          (\<lambda>t3. str t3 = str t2 \<and> heaps_hold V (?m(d := insert s (?m d))) t3)"
        using queue_push_holds(1) [OF hold2 V(1) not_kid, of s alloc] False V kids_apart kids_subset
        unfolding gives_def by blast
      then show ?thesis unfolding step
      proof (rule gives_and_ok)
        fix t3 assume t3: "str t3 = str t2 \<and> heaps_hold V (?m(d := insert s (?m d))) t3"
        define t4 where "t4 = upd t3 s (\<lambda>x. x\<lparr>queued := True\<rparr>)"
        have core4: "same_core (str t) (str t4)"
          using core2 t3 by (auto simp: t4_def same_core_def core_def)
        have q4: "queued (str t4 c) = (c = s \<or> queued (str t c))" for c
          using q2 t3 by (simp add: t4_def)
        have hold4: "heaps_hold V (?m(d := insert s (?m d))) t4" using t3 by (simp add: t4_def)
        note ok4 = sched_queued [OF Suc(2,3) Some False Suc(4) core4 q4 hold4]
        have ok4': "sched V par (insert d (N - {d})) B t4" using ok4(1) by simp
        have links: "dep_prev (str t4 a) = par a" if "a \<in> insert d (anc par d)" for a
          using that Suc(5) same_coreD(1) [OF core4] anc_s by simp
        have "gives (stream_obq_push alloc n t4 (par d) d)
            (\<lambda>t'. same_core (str t4) (str t') \<and> pushed V par (N - {d}) B d t4 t')"
        proof (rule gives_mono)
          show "gives (stream_obq_push alloc n t4 (par d) d)
              (\<lambda>t'. same_core (str t4) (str t') \<and> pushed V par
                (if queued (str t4 d) then N - {d} else N - {d} - set_option (par d)) B d t4 t')"
            using Suc(1) [OF ok4' V(1) ok4(2)] links Suc(6) anc_card [of V par s d] par Some by simp
        qed (auto split: if_splits elim: pushed_mono)
        moreover have "?f t3 = stream_obq_push alloc n t4 (par d) d"
          using links [of d] by (simp add: t4_def Let_def)
        ultimately show "gives (?f t3) (\<lambda>t'. same_core (str t) (str t') \<and>
            pushed V par (if queued (str t s) then N else N - set_option (par s)) B s t t')"
          using q4 core4 above anc_s False Some
          by (auto simp: pushed_def elim!: gives_mono dest: same_core_trans)
      qed
    qed
  qed
qed

section \<open>Removing\<close>

lemma sched_unqueued:
  assumes ok: "sched V par N {s} t" and s: "s \<in> V" "par s = Some d" "queued (str t s)"
    and core: "same_core (str t) (str t')"
    and q: "\<And>c. queued (str t' c) = (c \<noteq> s \<and> queued (str t c))"
    and hold: "heaps_hold V ((kids V par (str t))(d := kids V par (str t) d - {s})) t'"
  shows "sched V par (insert s N) {d} t'"
proof -
  have kids: "kids V par (str t') a = ((kids V par (str t))(d := kids V par (str t) d - {s})) a" for a
    using s by (auto simp: kids_def q)
  have same: "busy V par (str t') c = busy V par (str t) c" if "c \<noteq> d" for c
    using that s by (intro busy_core [OF core]) (auto simp: q)
  have less: "busy V par (str t) d" if "busy V par (str t') d"
    using that kids [of d] same_coreD(7) [OF core] by (auto simp: busy_def)
  show ?thesis
  proof (rule schedI)
    show "parents_ok V par" using ok by (rule schedD)
    show "weights_ok V (str t')" using schedD(2) [OF ok] weights_core [OF core] by simp
    show "heaps_hold V (kids V par (str t')) t'" using hold kids by (simp add: heaps_hold_def)
    show "par c \<noteq> None" if "c \<in> V" "queued (str t' c)" for c
      using that schedD(4) [OF ok] by (simp add: q)
    show "queued (str t' c)" if "c \<in> V" "c \<notin> insert s N" "busy V par (str t') c" "par c \<noteq> None" for c
      using that same less schedD(5) [OF ok, of c] by (cases "c = d") (auto simp: q)
    show "busy V par (str t') c" if "c \<in> V" "c \<notin> {d}" "queued (str t' c)" for c
      using that same schedD(6) [OF ok, of c] by (auto simp: q)
  qed
qed

definition removed :: "nat set \<Rightarrow> (nat \<Rightarrow> nat option) \<Rightarrow> nat set \<Rightarrow> nat \<Rightarrow> dtree \<Rightarrow> dtree \<Rightarrow> bool" where
  "removed V par N s t t' \<longleftrightarrow> sched V par (insert s N) {} t' \<and> \<not> queued (str t' s) \<and>
     (\<forall>c. c \<notin> insert s (anc par s) \<longrightarrow> queued (str t' c) = queued (str t c))"

lemma obq_remove_ok:
  assumes "sched V par N {s} t" "s \<in> V" "queued (str t s)" "N \<inter> anc par s = {}"
    and "\<And>a. a \<in> anc par s \<Longrightarrow> dep_prev (str t a) = par a" and "card (anc par s) \<le> n"
  shows "\<exists>t'. obq_remove_loop n t (par s) s = Inr t' \<and> same_core (str t) (str t') \<and> removed V par N s t t'"
  using assms
proof (induction n arbitrary: t s N)
  case 0
  have "par s \<noteq> None" using schedD(4) [OF 0(1,2,3)] .
  then have "anc par s \<noteq> {}" using anc_Some [of par s "the (par s)"] by auto
  then show ?case using 0(6) anc_finite [OF schedD(1) [OF 0(1)], of s] by simp
next
  case (Suc n)
  note par = schedD(1) [OF Suc(2)]
  obtain d where d: "par s = Some d" using schedD(4) [OF Suc(2,3,4)] by auto
  have V: "d \<in> V" "finite V" "card V \<le> 2 ^ 27" using par d by (auto simp: parents_ok_def)
  have anc_s: "anc par s = insert d (anc par d)" by (rule anc_Some) (rule d)
  have above: "s \<notin> insert d (anc par d)" using child_not_anc [of V par s d] par d by simp
  let ?m = "kids V par (str t)"
  obtain t1 where t1: "queue_remove t d s = Inr t1" "str t1 = str t"
    "heaps_hold V (?m(d := ?m d - {s})) t1"
    using queue_remove_holds [OF schedD(3) [OF Suc(2)] V(1) in_kids] Suc(3,4) d kids_apart by blast
  define t2 where "t2 = upd t1 s (\<lambda>x. x\<lparr>queued := False, cycle := 0, pending_penalty := 0,
    descendant_last_cycle := 0, last_writelen := 0\<rparr>)"
  have core2: "same_core (str t) (str t2)" using t1(2) by (auto simp: t2_def same_core_def core_def)
  have q2: "queued (str t2 c) = (c \<noteq> s \<and> queued (str t c))" for c using t1(2) by (simp add: t2_def)
  have hold2: "heaps_hold V (?m(d := ?m d - {s})) t2" using t1(3) by (simp add: t2_def)
  have ok2: "sched V par (insert s N) {d} t2"
    by (rule sched_unqueued [OF Suc(2,3) d Suc(4) core2 q2 hold2])
  have links: "dep_prev (str t2 a) = par a" if "a \<in> insert d (anc par d)" for a
    using that Suc(6) same_coreD(1) [OF core2] anc_s by simp
  have act: "subtree_active t2 d = busy V par (str t2) d"
    by (rule subtree_active_busy [OF schedD(3) [OF ok2] V(1)])
  have step: "obq_remove_loop (Suc n) t (par s) s =
      (if busy V par (str t2) d then Inr t2 else obq_remove_loop n t2 (par d) d)"
    using t1 Suc(4) d act links [of d] by (simp add: t2_def Let_def)
  show ?case
  proof (cases "busy V par (str t2) d")
    case True
    then show ?thesis
      using step core2 q2 sched_less_B [OF ok2] anc_s by (auto simp: removed_def)
  next
    case False
    show ?thesis
    proof (cases "par d")
      case None
      have "\<not> queued (str t2 d)" using schedD(4) [OF ok2 V(1)] None by blast
      then show ?thesis
        using step False None core2 q2 sched_less_B [OF ok2] anc_s by (auto simp: removed_def)
    next
      case (Some d')
      have "busy V par (str t) d" using in_kids [of s V par d "str t"] Suc(3,4) d by (auto simp: busy_def)
      then have "queued (str t d)" using schedD(5) [OF Suc(2) V(1)] Suc(5) Some anc_s by simp
      then have "queued (str t2 d)" using q2 above by auto
      then obtain t' where t': "obq_remove_loop n t2 (par d) d = Inr t'" "same_core (str t2) (str t')"
        "removed V par (insert s N) d t2 t'"
        using Suc(1) [OF ok2 V(1)] links above Suc(5,7) anc_s anc_card [of V par s d] par d by auto
      have "busy V par (str t') d = busy V par (str t2) d"
        using t'(3) child_not_anc [of V par _ d] par
        by (intro busy_core [OF t'(2)]) (auto simp: removed_def)
      then have "sched V par (insert s N) {} t'"
        using t'(3) False sched_less_N [of V par d "insert s N"] by (auto simp: removed_def)
      then show ?thesis
        using step False t' core2 q2 above anc_s
        by (auto simp: removed_def dest: same_core_trans)
    qed
  qed
qed

lemma stream_obq_remove_ok:
  assumes "sched V par {} {s} t" "s \<in> V"
    and "\<And>a. a \<in> insert s (anc par s) \<Longrightarrow> dep_prev (str t a) = par a" and "card V \<le> n"
  shows "\<exists>t'. stream_obq_remove n t s = Inr t' \<and> same_core (str t) (str t') \<and> removed V par {} s t t'"
proof (cases "queued (str t s)")
  case False
  then show ?thesis
    using sched_mono [OF sched_less_B [OF assms(1)], of "{s}" "{}"]
    by (simp add: stream_obq_remove_def removed_def)
next
  case True
  then show ?thesis
    using obq_remove_ok [OF assms(1,2) True, of n] assms(3,4)
      anc_card_less [OF schedD(1) [OF assms(1)] assms(2)]
    by (simp add: stream_obq_remove_def)
qed

section \<open>Moving\<close>

lemma sched_cong:
  assumes ok: "sched V par N B t" and w: "weights_ok V (str t')"
    and same: "\<And>c. c \<in> V \<Longrightarrow> queued (str t' c) = queued (str t c)"
      "\<And>c. c \<in> V \<Longrightarrow> c \<notin> C \<Longrightarrow> stream_active (str t' c) = stream_active (str t c)"
    and heaps: "heaps t' = heaps t" "pqi t' = pqi t"
  shows "sched V par (N \<union> C) (B \<union> C) t'"
proof -
  have kids: "kids V par (str t') a = kids V par (str t) a" for a
    using same(1) by (auto simp: kids_def)
  have busy: "busy V par (str t') c = busy V par (str t) c" if "c \<in> V" "c \<notin> C" for c
    using that same(2) by (simp add: busy_def kids)
  have "heaps_hold V (kids V par (str t')) t'"
    using schedD(3) [OF ok] by (simp add: heaps_hold_def obq_of_def heaps kids)
  then show ?thesis
    by (rule schedI [OF schedD(1) [OF ok] w])
      (use same(1) busy schedD(4,5,6) [OF ok] in auto)
qed

text \<open>A stream that is not queued gets another parent.\<close>

lemma sched_reparent:
  assumes ok: "sched V par N B t" and s: "s \<in> V" "\<not> queued (str t s)"
    and par': "parents_ok V (par(s := x))"
  shows "sched V (par(s := x)) (insert s N) B t"
proof -
  have kids: "kids V (par(s := x)) (str t) = kids V par (str t)"
    using s by (auto simp: kids_def fun_eq_iff)
  then have busy: "busy V (par(s := x)) (str t) c = busy V par (str t) c" for c
    by (simp add: busy_def)
  show ?thesis
    by (rule schedI [OF par' schedD(2) [OF ok]])
      (use s busy kids schedD(3,4,5,6) [OF ok] in auto)
qed

lemma stream_obq_move_ok:
  assumes ok: "sched V par N B t" and s: "s \<in> V" "s \<notin> B" "par s = Some src" "queued (str t s)"
    and par': "parents_ok V (par(s := Some dest))"
    and links: "\<And>a. a \<in> anc (par(s := Some dest)) s \<Longrightarrow> dep_prev (str t a) = (par(s := Some dest)) a"
    and n: "card V \<le> n"
  shows "gives (stream_obq_move alloc n t (Some dest) src s)
    (\<lambda>t'. same_core (str t) (str t') \<and> sched V (par(s := Some dest)) (N - {dest}) (insert src B) t' \<and>
       (\<forall>c. queued (str t c) \<longrightarrow> queued (str t' c)) \<and>
       (\<forall>c. c \<notin> anc (par(s := Some dest)) s \<longrightarrow> queued (str t' c) = queued (str t c)))"
proof -
  let ?m = "kids V par (str t)" and ?par = "par(s := Some dest)"
  note pok = schedD(1) [OF ok]
  have V: "src \<in> V" using pok s(3) by (auto simp: parents_ok_def)
  have nsrc: "s \<noteq> src" using child_not_anc [of V par s src] pok s(3) by auto
  obtain t1 where t1: "queue_remove t src s = Inr t1" "str t1 = str t"
    "heaps_hold V (?m(src := ?m src - {s})) t1"
    using queue_remove_holds [OF schedD(3) [OF ok] V in_kids] s kids_apart by blast
  define t2 where "t2 = upd t1 s (\<lambda>x. x\<lparr>queued := False\<rparr>)"
  have core2: "same_core (str t) (str t2)" using t1(2) by (auto simp: t2_def same_core_def core_def)
  have q2: "queued (str t2 c) = (c \<noteq> s \<and> queued (str t c))" for c using t1(2) by (simp add: t2_def)
  have act2: "stream_active (str t2 c) = stream_active (str t c)" for c
    using same_coreD(7) [OF core2] .
  have hold2: "heaps_hold V (?m(src := ?m src - {s})) t2" using t1(3) by (simp add: t2_def)
  have kids2: "kids V par (str t2) a = (?m(src := ?m src - {s})) a" for a
    using s(1,3) by (auto simp: kids_def q2)
  have busy2: "busy V par (str t2) c = busy V par (str t) c" if "c \<noteq> src" for c
    using that kids2 [of c] act2 by (simp add: busy_def)
  have less: "busy V par (str t) src" if "busy V par (str t2) src"
    using that kids2 [of src] act2 by (auto simp: busy_def)
  have ok2: "sched V par (insert s N) (insert src B) t2"
  proof (rule schedI [OF pok])
    show "weights_ok V (str t2)" using schedD(2) [OF ok] weights_core [OF core2] by simp
    show "heaps_hold V (kids V par (str t2)) t2" using hold2 kids2 by (simp add: heaps_hold_def)
    show "par c \<noteq> None" if "c \<in> V" "queued (str t2 c)" for c
      using that schedD(4) [OF ok] by (simp add: q2)
    show "queued (str t2 c)" if "c \<in> V" "c \<notin> insert s N" "busy V par (str t2) c" "par c \<noteq> None" for c
      using that busy2 less schedD(5) [OF ok, of c] by (cases "c = src") (auto simp: q2)
    show "busy V par (str t2) c" if "c \<in> V" "c \<notin> insert src B" "queued (str t2 c)" for c
      using that busy2 schedD(6) [OF ok, of c] by (auto simp: q2)
  qed
  have ok2': "sched V ?par (insert s N) (insert src B) t2"
    using sched_reparent [OF ok2 s(1) _ par'] by (simp add: q2)
  have "busy V par (str t2) s" using busy2 nsrc schedD(6) [OF ok s(1,2,4)] by simp
  moreover have "kids V ?par (str t2) s = kids V par (str t2) s"
    by (auto simp: kids_def q2)
  ultimately have b: "busy V ?par (str t2) s" by (simp add: busy_def)
  have links2: "dep_prev (str t2 a) = ?par a" if "a \<in> anc ?par s" for a
    using links [OF that] same_coreD(1) [OF core2] by simp
  have few: "card (anc ?par s) \<le> n" using anc_card_less [OF par' s(1)] n by simp
  have push: "gives (stream_obq_push alloc n t2 (?par s) s)
      (\<lambda>t'. same_core (str t2) (str t') \<and> pushed V ?par (if queued (str t2 s) then N else N - set_option (?par s)) (insert src B) s t2 t')"
    by (rule obq_push_ok [OF ok2' s(1) b links2 few])
  have "stream_obq_move alloc n t (Some dest) src s = stream_obq_push alloc n t2 (?par s) s"
    using t1(1) s(4) by (simp add: stream_obq_move_def t2_def)
  then show ?thesis
    using push core2 s(4)
    by (auto simp: pushed_def q2 elim!: gives_mono dest: same_core_trans)
qed

section \<open>Queueing again\<close>

lemma requeue:
  assumes ok: "sched V par N B t" and s: "s \<in> V" "par s = Some d" "queued (str t s)"
  obtains t1 where "queue_remove t d s = Inr t1" "str t1 = str t"
    "\<And>t2 :: dtree. heaps t2 = heaps t1 \<Longrightarrow> pqi t2 = pqi t1 \<Longrightarrow>
      \<exists>t3. queue_push alloc t2 d s = Inr (t3, None) \<and> str t3 = str t2 \<and>
        heaps_hold V (kids V par (str t)) t3"
proof -
  let ?m = "kids V par (str t)"
  let ?m1 = "?m(d := ?m d - {s})"
  have V: "d \<in> V" "finite V" "card V \<le> 2 ^ 27"
    using schedD(1) [OF ok] s(2) by (auto simp: parents_ok_def)
  have m: "s \<in> ?m d" using s by (rule in_kids)
  obtain t1 where t1: "queue_remove t d s = Inr t1" "str t1 = str t" "heaps_hold V ?m1 t1"
    "length (fst (heaps t1 d)) < snd (heaps t1 d)"
    using queue_remove_holds [OF schedD(3) [OF ok] V(1) m kids_apart] by blast
  have eq: "?m1(d := insert s (?m1 d)) = ?m" using m by (simp add: insert_absorb)
  have away: "s \<notin> ?m1 b" for b using m kids_apart [of b d V par "str t"] by (cases "b = d") auto
  have apart: "?m1 b \<inter> ?m1 d = {}" if "b \<noteq> d" for b
    using that kids_apart [of b d V par "str t"] by auto
  have sub: "?m1 d \<subseteq> V" by (auto simp: kids_def)
  show ?thesis
  proof (rule that [OF t1(1,2)])
    fix t2 :: dtree assume same: "heaps t2 = heaps t1" "pqi t2 = pqi t1"
    have hold2: "heaps_hold V ?m1 t2" using t1(3) same by (simp add: heaps_hold_def obq_of_def)
    have full: "length (fst (heaps t2 d)) < snd (heaps t2 d)" using t1(4) same by simp
    have "\<exists>t3. queue_push alloc t2 d s = Inr (t3, None) \<and> str t3 = str t2 \<and>
        heaps_hold V (?m1(d := insert s (?m1 d))) t3"
      by (rule queue_push_holds(2) [OF hold2 V(1) away _ V(2,3) sub full]) (rule apart)
    then show "\<exists>t3. queue_push alloc t2 d s = Inr (t3, None) \<and> str t3 = str t2 \<and> heaps_hold V ?m t3"
      by (simp only: eq)
  qed
qed

lemma sched_same:
  assumes "sched V par N B t" "same_core (str t) (str t')" "\<And>c. queued (str t' c) = queued (str t c)"
    and "heaps_hold V (kids V par (str t)) t'"
  shows "sched V par N B t'"
proof -
  have "kids V par (str t') = kids V par (str t)" by (auto simp: kids_def fun_eq_iff assms(3))
  moreover have "busy V par (str t') c = busy V par (str t) c" for c
    by (rule busy_core [OF assms(2)]) (rule assms(3))
  ultimately show ?thesis
    using assms(1,3,4) weights_core [OF assms(2)] by (simp add: sched_def)
qed

lemma kid_busy: "s \<in> V \<Longrightarrow> par s = Some d \<Longrightarrow> queued (st s) \<Longrightarrow> busy V par st d"
  by (auto simp: busy_def kids_def)

lemma reschedule_ok:
  assumes "sched V par {} {} t" "s \<in> V" "queued (str t s)"
    and "\<And>a. a \<in> anc par s \<Longrightarrow> dep_prev (str t a) = par a" and "card (anc par s) \<le> n"
  shows "\<exists>t'. reschedule_loop alloc n t (par s) s = Inr t' \<and> same_core (str t) (str t') \<and>
    sched V par {} {} t'"
  using assms
proof (induction n arbitrary: t s)
  case 0
  have "par s \<noteq> None" using schedD(4) [OF 0(1,2,3)] .
  then have "anc par s \<noteq> {}" using anc_Some [of par s "the (par s)"] by auto
  then show ?case using 0(5) anc_finite [OF schedD(1) [OF 0(1)], of s] by simp
next
  case (Suc n)
  obtain d where d: "par s = Some d" using schedD(4) [OF Suc(2,3,4)] by auto
  have V: "d \<in> V" using schedD(1) [OF Suc(2)] d by (auto simp: parents_ok_def)
  have anc_s: "anc par s = insert d (anc par d)" by (rule anc_Some) (rule d)
  obtain t1 where t1: "queue_remove t d s = Inr t1" "str t1 = str t"
    "\<And>t2 :: dtree. heaps t2 = heaps t1 \<Longrightarrow> pqi t2 = pqi t1 \<Longrightarrow>
      \<exists>t3. queue_push alloc t2 d s = Inr (t3, None) \<and> str t3 = str t2 \<and>
        heaps_hold V (kids V par (str t)) t3"
    using requeue [OF Suc(2,3) d Suc(4)] by blast
  obtain s' where s': "stream_next_cycle (str t s) (descendant_last_cycle (str t d)) = Inr s'"
    "core s' = core (str t s)" "queued s' = queued (str t s)"
    using next_cycle_ok [of "str t s"] schedD(2) [OF Suc(2)] Suc(3) unfolding weights_ok_def by meson
  define t3 where "t3 = upd (upd t1 s (\<lambda>_. s'\<lparr>seq := descendant_next_seq (str t d)\<rparr>)) d
    (\<lambda>x. x\<lparr>descendant_next_seq := descendant_next_seq x + 1\<rparr>)"
  obtain t4 where t4: "queue_push alloc t3 d s = Inr (t4, None)" "str t4 = str t3"
    "heaps_hold V (kids V par (str t)) t4"
    using t1(3) [of t3] by (auto simp: t3_def)
  define t5 where "t5 = upd t4 d (\<lambda>x. x\<lparr>last_writelen := last_writelen (str t4 s)\<rparr>)"
  have core5: "same_core (str t) (str t5)"
    using s'(2) t1(2) t4(2) by (auto simp: same_core_def t5_def t3_def core_def)
  have q5: "queued (str t5 c) = queued (str t c)" for c
    using s'(3) t1(2) t4(2) by (simp add: t5_def t3_def)
  have ok5: "sched V par {} {} t5"
    by (rule sched_same [OF Suc(2) core5 q5]) (simp add: t5_def t4(3))
  have links: "dep_prev (str t5 a) = par a" if "a \<in> insert d (anc par d)" for a
    using that Suc(5) same_coreD(1) [OF core5] anc_s by simp
  have step: "reschedule_loop alloc (Suc n) t (par s) s = reschedule_loop alloc n t5 (par d) d"
    using t1(1,2) s'(1) t4(1) d links [of d] by (simp add: t3_def t5_def Let_def)
  show ?case
  proof (cases "par d")
    case None
    then show ?thesis using step core5 ok5 by simp
  next
    case (Some d')
    have "queued (str t5 d)"
      using schedD(5) [OF Suc(2) V] kid_busy [of s V par d "str t"] Suc(3,4) d Some q5 by simp
    then show ?thesis
      using Suc(1) [OF ok5 V] links Suc(6) anc_card [of V par s d] schedD(1) [OF Suc(2)] d step core5
      by (auto dest: same_core_trans)
  qed
qed

lemma reweigh_ok:
  assumes "1 \<le> w" "w \<le> 256" "1 \<le> weight s" "weight s \<le> 256"
  shows "\<exists>s'. reweigh s w = Inr s' \<and> core s' = core s \<and> queued s' = queued s"
proof -
  define n where "n = nat w"
  have n: "w = int n" "1 \<le> n" "n \<le> 256" using assms by (auto simp: n_def)
  then have "unat (ucast (word_of_int w :: u32) :: u64) = n"
    by (simp add: unsigned_ucast_eq unat_of_nat take_bit_nat_eq_self)
  then have old: "(ucast (word_of_int w :: u32) :: u64) \<noteq> 0" using n(2) by auto
  define s1 where "s1 = s\<lparr>pending_penalty :=
    ucast ((ucast (pending_penalty s + word_of_int w) -
      ucast (last_writelen s) * NGHTTP2_MAX_WEIGHT mod ucast (word_of_int w :: u32)) mod
      (ucast (word_of_int w :: u32) :: u64))\<rparr>"
  have "\<exists>c. reweigh s w = stream_next_cycle s1 c"
    using old by (simp add: reweigh_def Let_def s1_def) blast
  moreover have "core s1 = core s" "queued s1 = queued s" "weight s1 = weight s"
    by (simp_all add: s1_def core_def)
  ultimately show ?thesis using next_cycle_ok [of s1] assms(3,4) by metis
qed

end
