(* ===== verification/DepSched.thy ===== *)
theory DepSched
  imports DepQueue
begin

text \<open>
  The operations on one stream of the dependency tree: attaching an item, taking it away, putting it
  off and resuming it, a new weight, another round, and the choice of the next item to send. The parent
  of a stream is now the one its link names.
\<close>

section \<open>Between two operations\<close>

definition par_of :: "nat set \<Rightarrow> (nat \<Rightarrow> stream) \<Rightarrow> nat \<Rightarrow> nat option" where
  "par_of V st c = (if c \<in> V then dep_prev (st c) else None)"

definition dep_sched :: "nat set \<Rightarrow> dtree \<Rightarrow> bool" where
  "dep_sched V t \<longleftrightarrow> sched V (par_of V (str t)) {} {} t"

lemma par_of_core: "same_core st st' \<Longrightarrow> par_of V st' = par_of V st"
  by (auto simp: par_of_def same_coreD)

lemma par_of_in: "s \<in> V \<Longrightarrow> par_of V st s = dep_prev (st s)"
  by (simp add: par_of_def)

lemma par_of_anc:
  assumes "parents_ok V (par_of V st)" "a \<in> anc (par_of V st) s"
  shows "dep_prev (st a) = par_of V st a"
  using anc_subset [OF assms(1), of s] assms(2) by (auto simp: par_of_def)

lemma dep_schedD: "dep_sched V t \<Longrightarrow> sched V (par_of V (str t)) {} {} t"
  by (simp add: dep_sched_def)

section \<open>Weights and rounds\<close>

text \<open>The fields of the streams after the weight of \<open>s\<close> has become \<open>wt\<close>.\<close>

definition with_weight :: "(nat \<Rightarrow> stream) \<Rightarrow> nat \<Rightarrow> int \<Rightarrow> nat \<Rightarrow> stream" where
  "with_weight st s wt =
     (let st1 = st(s := (st s)\<lparr>weight := wt\<rparr>)
      in case dep_prev (st s) of None \<Rightarrow> st1
         | Some d \<Rightarrow> st1(d := (st1 d)\<lparr>sum_dep_weight := sum_dep_weight (st d) + (wt - weight (st s))\<rparr>))"

lemma change_weight_ok:
  assumes ok: "dep_sched V t" and s: "s \<in> V" and wt: "1 \<le> wt" "wt \<le> 256"
    and sum: "\<And>d. dep_prev (str t s) = Some d \<Longrightarrow> in_i32 (sum_dep_weight (str t d) + (wt - weight (str t s)))"
  shows "\<exists>t'. nghttp2_stream_change_weight alloc t s wt = Inr t' \<and> dep_sched V t' \<and>
    same_core (with_weight (str t) s wt) (str t')"
proof -
  let ?par = "par_of V (str t)"
  note sok = dep_schedD [OF ok]
  have w: "1 \<le> weight (str t s)" "weight (str t s) \<le> 256"
    using schedD(2) [OF sok] s by (auto simp: weights_ok_def)
  have diff: "in_i32 (wt - weight (str t s))" using w wt by (simp add: i32_range)
  have par_eq: "par_of V st = ?par" if "\<And>c. dep_prev (st c) = dep_prev (str t c)" for st
    using that by (simp add: par_of_def fun_eq_iff)
  have W: "weights_ok V (str t')" if "\<And>c. weight (str t' c) = (if c = s then wt else weight (str t c))"
    for t' :: dtree
    using that schedD(2) [OF sok] wt by (auto simp: weights_ok_def)
  have keep: "sched V ?par {} {} t'"
    if "\<And>c. weight (str t' c) = (if c = s then wt else weight (str t c))"
      "\<And>c. queued (str t' c) = queued (str t c)"
      "\<And>c. stream_active (str t' c) = stream_active (str t c)"
      "heaps t' = heaps t" "pqi t' = pqi t" for t' :: dtree
    using sched_cong [OF sok W [OF that(1)], of "{}"] that by simp
  show ?thesis
  proof (cases "weight (str t s) = wt")
    case True
    then have "with_weight (str t) s wt = str t"
      by (auto simp: with_weight_def Let_def split: option.split)
    then show ?thesis using True ok by (simp add: nghttp2_stream_change_weight_def Let_def)
  next
    case change: False
    define t1 where "t1 = upd t s (\<lambda>x. x\<lparr>weight := wt\<rparr>)"
    show ?thesis
    proof (cases "dep_prev (str t s)")
      case None
      have "nghttp2_stream_change_weight alloc t s wt = Inr t1"
        using change None by (simp add: nghttp2_stream_change_weight_def Let_def t1_def)
      moreover have "str t1 = with_weight (str t) s wt"
        using None by (auto simp: t1_def with_weight_def Let_def)
      moreover have "sched V ?par {} {} t1"
        by (rule keep) (auto simp: t1_def stream_active_def)
      moreover have "par_of V (str t1) = ?par" by (rule par_eq) (simp add: t1_def)
      ultimately show ?thesis by (metis dep_sched_def same_core_refl)
    next
      case (Some d)
      have d: "?par s = Some d" using s Some by (simp add: par_of_def)
      have nd: "d \<noteq> s" using child_not_anc [of V ?par s d] schedD(1) [OF sok] d by auto
      define t2 where "t2 = upd t1 d (\<lambda>x. x\<lparr>sum_dep_weight :=
        sum_dep_weight (str t d) + (wt - weight (str t s))\<rparr>)"
      have str2: "str t2 = with_weight (str t) s wt"
        using Some by (auto simp: t2_def t1_def with_weight_def Let_def)
      have par2: "par_of V (str t2) = ?par" by (rule par_eq) (simp add: t2_def t1_def)
      have ok2: "sched V ?par {} {} t2"
        by (rule keep) (auto simp: t2_def t1_def stream_active_def)
      have queued2: "queued (str t2 c) = queued (str t c)" for c by (simp add: t2_def t1_def)
      show ?thesis
      proof (cases "queued (str t s)")
        case False
        have "nghttp2_stream_change_weight alloc t s wt = Inr t2"
          using change Some False diff sum [OF Some] nd
          by (simp add: nghttp2_stream_change_weight_def Let_def t1_def t2_def)
        then show ?thesis using ok2 str2 par2 by (metis dep_sched_def same_core_refl)
      next
        case True
        obtain t3 where t3: "queue_remove t2 d s = Inr t3" "str t3 = str t2"
          "\<And>t4 :: dtree. heaps t4 = heaps t3 \<Longrightarrow> pqi t4 = pqi t3 \<Longrightarrow>
            \<exists>t5. queue_push alloc t4 d s = Inr (t5, None) \<and> str t5 = str t4 \<and>
              heaps_hold V (kids V ?par (str t2)) t5"
          using requeue [OF ok2 s d] True queued2 by metis
        have w3: "weight (str t3 s) = wt" using t3(2) nd by (simp add: t2_def t1_def)
        obtain s' where s': "reweigh (str t3 s) (weight (str t s)) = Inr s'" "core s' = core (str t3 s)"
          "queued s' = queued (str t3 s)"
          using reweigh_ok [of "weight (str t s)" "str t3 s"] w wt w3 by blast
        define s'' where "s'' = (if descendant_last_cycle (str t3 d) - cycle s' \<le> NGHTTP2_MAX_CYCLE_DISTANCE
          then s'\<lparr>cycle := descendant_last_cycle (str t3 d)\<rparr> else s')"
        have s'': "core s'' = core (str t2 s)" "queued s'' = queued (str t2 s)"
          using s' t3(2) by (simp_all add: s''_def) (simp add: core_def)
        obtain t5 where t5: "queue_push alloc (upd t3 s (\<lambda>_. s'')) d s = Inr (t5, None)"
          "str t5 = str (upd t3 s (\<lambda>_. s''))" "heaps_hold V (kids V ?par (str t2)) t5"
          using t3(3) [of "upd t3 s (\<lambda>_. s'')"] by auto
        have core5: "same_core (str t2) (str t5)" using s''(1) t5(2) t3(2) by (simp add: same_core_def)
        have "sched V ?par {} {} t5"
          using sched_same [OF ok2 core5 _ t5(3)] t5(2) s''(2) t3(2) by simp
        moreover have "nghttp2_stream_change_weight alloc t s wt = Inr t5"
          using change Some True diff nd sum [OF Some] t3(1) s'(1) t5(1) queued2
          by (simp add: nghttp2_stream_change_weight_def Let_def t1_def [symmetric])
            (simp add: t2_def t1_def s''_def)
        moreover have "par_of V (str t5) = ?par" using par_of_core [OF core5] par2 by simp
        ultimately show ?thesis using core5 str2 by (metis dep_sched_def)
      qed
    qed
  qed
qed

lemma nghttp2_stream_reschedule_ok:
  assumes ok: "dep_sched V t" and s: "s \<in> V" "queued (str t s)" and n: "card V \<le> n"
  shows "\<exists>t'. nghttp2_stream_reschedule alloc n t s = Inr t' \<and> dep_sched V t' \<and> same_core (str t) (str t')"
proof -
  let ?par = "par_of V (str t)"
  note sok = dep_schedD [OF ok]
  have few: "card (anc ?par s) \<le> n" using anc_card_less [OF schedD(1) [OF sok] s(1)] n by simp
  obtain t' where "reschedule_loop alloc n t (?par s) s = Inr t'" "same_core (str t) (str t')"
    "sched V ?par {} {} t'"
    using reschedule_ok [OF sok s par_of_anc [OF schedD(1) [OF sok], where s = s] few, where alloc = alloc]
    by blast
  then show ?thesis
    using s par_of_core [of "str t" "str t'" V]
    by (auto simp: nghttp2_stream_reschedule_def dep_sched_def par_of_in)
qed

section \<open>Items\<close>

text \<open>The fields of the streams after an operation on \<open>s\<close> that changes its item and flags by \<open>f\<close>.\<close>

definition item_changed :: "nat set \<Rightarrow> dtree \<Rightarrow> nat \<Rightarrow> (stream \<Rightarrow> stream) \<Rightarrow> dtree \<Rightarrow> bool" where
  "item_changed V t s f t' \<longleftrightarrow> dep_sched V t' \<and> same_core (str (upd t s f)) (str t')"

definition keeps_links :: "(stream \<Rightarrow> stream) \<Rightarrow> bool" where
  "keeps_links f \<longleftrightarrow> (\<forall>x. dep_prev (f x) = dep_prev x \<and> weight (f x) = weight x \<and> queued (f x) = queued x)"

lemma sched_upd:
  assumes ok: "dep_sched V t" and f: "keeps_links f"
  shows "sched V (par_of V (str (upd t s f))) {s} {s} (upd t s f)"
    "par_of V (str (upd t s f)) = par_of V (str t)"
proof -
  show par: "par_of V (str (upd t s f)) = par_of V (str t)"
    using f by (auto simp: par_of_def keeps_links_def fun_eq_iff)
  have "weights_ok V (str (upd t s f))"
    using schedD(2) [OF dep_schedD [OF ok]] f by (auto simp: weights_ok_def keeps_links_def)
  then show "sched V (par_of V (str (upd t s f))) {s} {s} (upd t s f)"
    unfolding par using sched_cong [OF dep_schedD [OF ok], of "upd t s f" "{s}"] f
    by (auto simp: keeps_links_def)
qed

lemma attach_update_ok:
  assumes ok: "dep_sched V t" and s: "s \<in> V" and f: "keeps_links f"
    and act: "stream_active (f (str t s))" and n: "card V \<le> n"
  shows "gives (stream_update_dep_on_attach_item alloc n (upd t s f) s) (item_changed V t s f)"
proof -
  let ?t = "upd t s f" and ?par = "par_of V (str (upd t s f))"
  note sok = sched_upd [OF ok f, of s]
  have b: "busy V ?par (str ?t) s" using act by (simp add: busy_def)
  have few: "card (anc ?par s) \<le> n" using anc_card_less [OF schedD(1) [OF sok(1)] s] n by simp
  have ok1: "sched V ?par {s} {} ?t" using sched_less_B [OF sok(1)] b by blast
  have "gives (stream_obq_push alloc n ?t (?par s) s)
      (\<lambda>t'. same_core (str ?t) (str t') \<and> pushed V ?par {} {} s ?t t')"
    using obq_push_ok [OF ok1 s b par_of_anc [OF schedD(1) [OF sok(1)], where s = s] few, where alloc = alloc]
    by (simp add: empty_Diff cong: if_cong)
  then show ?thesis
    unfolding stream_update_dep_on_attach_item_def par_of_in [OF s, symmetric]
  proof (rule gives_mono)
    fix t' assume t': "same_core (str ?t) (str t') \<and> pushed V ?par {} {} s ?t t'"
    then have "par_of V (str t') = ?par" by (intro par_of_core) simp
    then show "item_changed V t s f t'" using t' by (simp add: item_changed_def dep_sched_def pushed_def)
  qed
qed

lemma detach_update_ok:
  assumes ok: "dep_sched V t" and s: "s \<in> V" and f: "keeps_links f"
    and act: "\<not> stream_active (f (str t s))" and n: "card V \<le> n"
  shows "\<exists>t'. stream_update_dep_on_detach_item n (upd t s f) s = Inr t' \<and> item_changed V t s f t'"
proof -
  let ?t = "upd t s f" and ?par = "par_of V (str (upd t s f))"
  note sok = sched_upd [OF ok f, of s]
  note hold = schedD(3) [OF sok(1)]
  have empty: "nghttp2_pq_empty (obq_of ?t s) \<longleftrightarrow> \<not> busy V ?par (str ?t) s"
    using subtree_active_busy [OF hold s] act
    by (simp add: subtree_active_def stream_subtree_active_def) blast
  have "kids V ?par (str ?t) s = kids V (par_of V (str t)) (str t) s"
    using f by (auto simp: kids_def sok(2) keeps_links_def)
  then have was: "busy V (par_of V (str t)) (str t) s" if "busy V ?par (str ?t) s"
    using that act by (auto simp: busy_def)
  show ?thesis
  proof (cases "busy V ?par (str ?t) s")
    case True
    have "?par s = None \<or> queued (str ?t s)"
      using schedD(5) [OF dep_schedD [OF ok] s _ was [OF True]] f
      by (cases "par_of V (str t) s") (auto simp: sok(2) keeps_links_def)
    then have "sched V ?par {} {} ?t"
      using sched_less_N [OF sched_less_B [OF sok(1)]] True by blast
    then show ?thesis using empty True
      by (simp add: stream_update_dep_on_detach_item_def item_changed_def dep_sched_def)
  next
    case False
    have "sched V ?par {} {s} ?t" using sched_less_N [OF sok(1)] False by blast
    moreover have "dep_prev (str ?t a) = ?par a" if "a \<in> insert s (anc ?par s)" for a
      using that par_of_anc [OF schedD(1) [OF sok(1)]] s par_of_in by (metis insertE)
    ultimately obtain t' where t': "stream_obq_remove n ?t s = Inr t'" "same_core (str ?t) (str t')"
      "removed V ?par {} s ?t t'"
      using stream_obq_remove_ok [of V ?par s ?t n] s n by blast
    have "busy V ?par (str t') s = busy V ?par (str ?t) s"
      using t'(3) child_not_anc [of V ?par _ s] schedD(1) [OF sok(1)]
      by (intro busy_core [OF t'(2)]) (auto simp: removed_def)
    then have "sched V ?par {} {} t'"
      using False t'(3) sched_less_N [of V ?par s "{}" "{}" t'] by (simp add: removed_def)
    then show ?thesis
      using t' empty False par_of_core [OF t'(2), of V]
      by (simp add: stream_update_dep_on_detach_item_def item_changed_def dep_sched_def)
  qed
qed

text \<open>Outside the tree, where the priorities of RFC 7540 are not used, only the stream changes.\<close>

lemma alone_update_ok:
  assumes "dep_sched V t" "s \<in> V" "keeps_links f" "dep_prev (str t s) = None"
  shows "item_changed V t s f (upd t s f)"
proof -
  let ?par = "par_of V (str (upd t s f))"
  note sok = sched_upd [OF assms(1,3), of s]
  have none: "?par s = None" using assms(2,4) by (simp add: sok(2) par_of_in)
  then have "\<not> queued (str (upd t s f) s)" using schedD(4) [OF sok(1) assms(2)] by blast
  then have "sched V ?par {} {} (upd t s f)"
    using sched_less_N [OF sched_less_B [OF sok(1)]] none by blast
  then show ?thesis by (simp add: item_changed_def dep_sched_def)
qed

lemma keeps_links_simps [simp]:
  "keeps_links (\<lambda>x. x\<lparr>item := i\<rparr>)" "keeps_links (\<lambda>x. x\<lparr>flags := g x\<rparr>)"
  "keeps_links (\<lambda>x. x\<lparr>item := i, flags := g x\<rparr>)"
  by (simp_all add: keeps_links_def)

lemma attach_item_ok:
  assumes ok: "dep_sched V t" and s: "s \<in> V" "item (str t s) = None"
    "flags (str t s) AND NGHTTP2_STREAM_FLAG_DEFERRED_ALL = 0"
    and tree: "no_tree (str t s) \<Longrightarrow> dep_prev (str t s) = None" and n: "card V \<le> n"
  shows "gives (nghttp2_stream_attach_item alloc n t s it) (item_changed V t s (\<lambda>x. x\<lparr>item := Some it\<rparr>))"
proof (cases "no_tree (str t s)")
  case True
  then show ?thesis
    using alone_update_ok [OF ok s(1) _ tree [OF True]] s
    by (simp add: nghttp2_stream_attach_item_def Let_def no_tree_def)
next
  case False
  let ?f = "\<lambda>x. x\<lparr>item := Some it\<rparr> :: stream"
  have "gives (stream_update_dep_on_attach_item alloc n (upd t s ?f) s) (item_changed V t s ?f)"
    using s by (intro attach_update_ok [OF ok s(1) _ _ n]) (auto simp: stream_active_def)
  then show ?thesis
    using s False by (auto simp: nghttp2_stream_attach_item_def Let_def no_tree_def gives_def)
qed

lemma detach_item_ok:
  assumes ok: "dep_sched V t" and s: "s \<in> V"
    and tree: "no_tree (str t s) \<Longrightarrow> dep_prev (str t s) = None" and n: "card V \<le> n"
  shows "\<exists>t'. nghttp2_stream_detach_item n t s = Inr t' \<and>
    item_changed V t s (\<lambda>x. x\<lparr>item := None,
      flags := flags x AND NOT NGHTTP2_STREAM_FLAG_DEFERRED_ALL\<rparr>) t'"
proof -
  let ?f = "\<lambda>x. x\<lparr>item := None, flags := flags x AND NOT NGHTTP2_STREAM_FLAG_DEFERRED_ALL\<rparr> :: stream"
  have bits: "no_tree (?f x) = no_tree x" for x
  proof -
    have "NOT NGHTTP2_STREAM_FLAG_DEFERRED_ALL AND NGHTTP2_STREAM_FLAG_NO_RFC7540_PRIORITIES =
        NGHTTP2_STREAM_FLAG_NO_RFC7540_PRIORITIES"
      by (simp add: NGHTTP2_STREAM_FLAG_DEFERRED_ALL_def NGHTTP2_STREAM_FLAG_NO_RFC7540_PRIORITIES_def)
    then show ?thesis by (simp add: no_tree_def and.assoc)
  qed
  show ?thesis
  proof (cases "no_tree (str t s)")
    case True
    then show ?thesis
      using alone_update_ok [OF ok s _ tree [OF True]] bits
      by (simp add: nghttp2_stream_detach_item_def Let_def)
  next
    case False
    then show ?thesis
      using detach_update_ok [OF ok s, of ?f n] n bits
      by (simp add: nghttp2_stream_detach_item_def Let_def stream_active_def)
  qed
qed

lemma defer_item_ok:
  assumes ok: "dep_sched V t" and s: "s \<in> V" "item (str t s) \<noteq> None"
    and fl: "fl AND NGHTTP2_STREAM_FLAG_DEFERRED_ALL \<noteq> 0" "fl AND NGHTTP2_STREAM_FLAG_NO_RFC7540_PRIORITIES = 0"
    and tree: "no_tree (str t s) \<Longrightarrow> dep_prev (str t s) = None" and n: "card V \<le> n"
  shows "\<exists>t'. nghttp2_stream_defer_item n t s fl = Inr t' \<and>
    item_changed V t s (\<lambda>x. x\<lparr>flags := flags x OR fl\<rparr>) t'"
proof -
  let ?f = "\<lambda>x. x\<lparr>flags := flags x OR fl\<rparr> :: stream"
  have bits: "no_tree (?f x) = no_tree x" for x
    using fl(2) by (simp add: no_tree_def bit.conj_disj_distrib2)
  have "\<not> stream_active (?f x)" for x
    using fl(1) by (auto simp: stream_active_def bit.conj_disj_distrib2 or_eq_0_iff)
  then show ?thesis
    using alone_update_ok [OF ok s(1), of ?f] tree bits detach_update_ok [OF ok s(1), of ?f n] n s
    by (cases "no_tree (str t s)") (simp_all add: nghttp2_stream_defer_item_def Let_def)
qed

lemma idle_update_ok:
  assumes ok: "dep_sched V t" and f: "keeps_links f"
    and act: "stream_active (f (str t s)) = stream_active (str t s)"
  shows "item_changed V t s f (upd t s f)"
proof -
  have "weights_ok V (str (upd t s f))"
    using schedD(2) [OF dep_schedD [OF ok]] f by (auto simp: weights_ok_def keeps_links_def)
  then have "sched V (par_of V (str t)) {} {} (upd t s f)"
    using sched_cong [OF dep_schedD [OF ok], of "upd t s f" "{}"] f act by (auto simp: keeps_links_def)
  then show ?thesis using sched_upd(2) [OF ok f, of s] by (simp add: item_changed_def dep_sched_def)
qed

lemma and_not_disjoint:
  assumes "(b :: u8) AND c = 0"
  shows "(a AND NOT b) AND c = a AND c"
proof (rule bit_word_eqI)
  fix i
  have "\<not> (bit b i \<and> bit c i)" using arg_cong [OF assms, of "\<lambda>x. bit x i"] by (simp add: bit_and_iff)
  then show "bit ((a AND NOT b) AND c) i \<longleftrightarrow> bit (a AND c) i" if "i < LENGTH(8)"
    using that by (auto simp: bit_and_iff bit_not_iff)
qed

lemma resume_item_ok:
  assumes ok: "dep_sched V t" and s: "s \<in> V" "item (str t s) \<noteq> None"
    and fl: "fl AND NGHTTP2_STREAM_FLAG_NO_RFC7540_PRIORITIES = 0"
    and tree: "no_tree (str t s) \<Longrightarrow> dep_prev (str t s) = None" and n: "card V \<le> n"
  shows "gives (nghttp2_stream_resume_deferred_item alloc n t s fl)
    (item_changed V t s (\<lambda>x. x\<lparr>flags := flags x AND NOT fl\<rparr>))"
proof -
  let ?f = "\<lambda>x. x\<lparr>flags := flags x AND NOT fl\<rparr> :: stream"
  have bits: "no_tree (?f x) = no_tree x" for x
    using and_not_disjoint [OF fl] by (simp add: no_tree_def)
  show ?thesis
  proof (cases "flags (?f (str t s)) AND NGHTTP2_STREAM_FLAG_DEFERRED_ALL \<noteq> 0")
    case True
    have "(flags (str t s) AND NOT fl) AND NGHTTP2_STREAM_FLAG_DEFERRED_ALL =
        NOT fl AND (flags (str t s) AND NGHTTP2_STREAM_FLAG_DEFERRED_ALL)"
      by (simp only: and.assoc and.commute and.left_commute)
    then have "flags (str t s) AND NGHTTP2_STREAM_FLAG_DEFERRED_ALL \<noteq> 0" using True by auto
    then have "stream_active (?f (str t s)) = stream_active (str t s)"
      using True by (simp add: stream_active_def)
    then show ?thesis using True s idle_update_ok [OF ok, of ?f s]
      by (simp add: nghttp2_stream_resume_deferred_item_def Let_def)
  next
    case False
    then have act: "stream_active (?f (str t s))" using s by (simp add: stream_active_def)
    show ?thesis
      using False s bits tree alone_update_ok [OF ok s(1), of ?f]
        attach_update_ok [OF ok s(1) _ _ n, where f = ?f and alloc = alloc] act
      by (cases "no_tree (str t s)") (simp_all add: nghttp2_stream_resume_deferred_item_def Let_def)
  qed
qed

section \<open>The next item\<close>

definition below :: "nat set \<Rightarrow> (nat \<Rightarrow> nat option) \<Rightarrow> nat \<Rightarrow> nat set" where
  "below V par a = {c \<in> V. a \<in> anc par c}"

lemma below_child:
  assumes "parents_ok V par" "par b = Some a"
  shows "card (below V par b) < card (below V par a)"
proof (rule psubset_card_mono)
  show "finite (below V par a)" using assms(1) by (simp add: below_def parents_ok_def)
  have b: "b \<in> V" "a \<in> anc par b" using assms anc_Some [of par b a] by (auto simp: parents_ok_def)
  have "b \<notin> below V par b" using anc_self [OF assms(1), of b] by (simp add: below_def)
  moreover have "b \<in> below V par a" using b by (simp add: below_def)
  moreover have "below V par b \<subseteq> below V par a"
    using b(2) anc_trans by (fastforce simp: below_def)
  ultimately show "below V par b \<subset> below V par a" by auto
qed

lemma find_active_ok:
  assumes ok: "sched V par {} {} t" and a: "a \<in> V" and n: "card (below V par a) < n"
  shows "if busy V par (str t) a
    then \<exists>b. find_active n t a = Inr (Some b) \<and> stream_active (str t b) \<and> b \<in> V \<and> (b = a \<or> a \<in> anc par b)
    else find_active n t a = Inr None"
  using a n
proof (induction n arbitrary: a)
  case (Suc n)
  have members: "set (fst (heaps t a)) = kids V par (str t) a"
    using schedD(3) [OF ok] Suc(2) by (simp add: heaps_hold_def)
  show ?case
  proof (cases "stream_active (str t a)")
    case True
    then show ?thesis using Suc(2) by (simp add: busy_def)
  next
    case False
    show ?thesis
    proof (cases "fst (heaps t a)")
      case Nil
      then show ?thesis using False members by (simp add: busy_def nghttp2_pq_top_def)
    next
      case (Cons b bs)
      have b: "b \<in> V" "par b = Some a" "queued (str t b)" using members Cons by (auto simp: kids_def)
      have fewer: "card (below V par b) < n" using below_child [of V par b a] schedD(1) [OF ok] b(2) Suc(3) by simp
      have "busy V par (str t) b" using schedD(6) [OF ok b(1) _ b(3)] by simp
      then obtain c where c: "find_active n t b = Inr (Some c)" "stream_active (str t c)" "c \<in> V"
        "c = b \<or> b \<in> anc par c"
        using Suc(1) [OF b(1) fewer] by auto
      have "a \<in> anc par c" using c(4) anc_Some [of par b a] b(2) anc_trans [of b par c] by auto
      moreover have "busy V par (str t) a" using members Cons by (auto simp: busy_def)
      ultimately show ?thesis using c False Cons by (simp add: nghttp2_pq_top_def)
    qed
  qed
qed simp

lemma set_last_cycle_ok:
  assumes "sched V par {} {} t" "s \<in> V" "card (anc par s) < n"
    and "\<And>a. a \<in> insert s (anc par s) \<Longrightarrow> dep_prev (str t a) = par a"
  shows "\<exists>t'. set_last_cycle n t s = Inr t' \<and> same_core (str t) (str t') \<and> sched V par {} {} t'"
  using assms
proof (induction n arbitrary: t s)
  case (Suc n)
  show ?case
  proof (cases "par s")
    case None
    then show ?thesis using Suc by simp
  next
    case (Some d)
    define t1 where "t1 = upd t d (\<lambda>x. x\<lparr>descendant_last_cycle := cycle (str t s)\<rparr>)"
    have core1: "same_core (str t) (str t1)" by (simp add: same_core_def core_def t1_def)
    have hold1: "heaps_hold V (kids V par (str t)) t1" using schedD(3) [OF Suc(2)] by (simp add: t1_def)
    have ok1: "sched V par {} {} t1"
      by (rule sched_same [OF Suc(2) core1 _ hold1]) (simp add: t1_def)
    have d: "d \<in> V" using schedD(1) [OF Suc(2)] Some by (auto simp: parents_ok_def)
    have anc_s: "anc par s = insert d (anc par d)" by (rule anc_Some) (rule Some)
    have few: "card (anc par d) < n" using anc_card [of V par s d] schedD(1) [OF Suc(2)] Some Suc(4) by simp
    have links: "dep_prev (str t1 a) = par a" if "a \<in> insert d (anc par d)" for a
      using that Suc(5) anc_s same_coreD(1) [OF core1] by simp
    have "set_last_cycle (Suc n) t s = set_last_cycle n t1 d" using Suc(5) Some by (simp add: t1_def)
    then show ?thesis
      using Suc(1) [OF ok1 d few links] core1 by (auto dest: same_core_trans)
  qed
qed simp

text \<open>The stream \<open>b\<close> is \<open>a\<close> or below it.\<close>

definition at_or_below :: "nat set \<Rightarrow> dtree \<Rightarrow> nat \<Rightarrow> nat \<Rightarrow> bool" where
  "at_or_below V t a b \<longleftrightarrow> b \<in> V \<and> (b = a \<or> a \<in> anc (par_of V (str t)) b)"

lemma active_busy:
  assumes ok: "sched V par {} {} t" and n: "card (anc par b) \<le> n"
    and b: "b \<in> V" "busy V par (str t) b" "b = a \<or> a \<in> anc par b"
  shows "busy V par (str t) a"
  using n b
proof (induction n arbitrary: b)
  case 0
  then have "anc par b = {}" using anc_finite [OF schedD(1) [OF ok], of b] by simp
  then show ?case using 0 by simp
next
  case (Suc n)
  show ?case
  proof (cases "b = a")
    case False
    then have "anc par b \<noteq> {}" using Suc(5) by auto
    then obtain d where d: "par b = Some d" using anc_None [of par b] by (cases "par b") auto
    have "queued (str t b)" using schedD(5) [OF ok Suc(3) _ Suc(4)] d by simp
    then have bd: "busy V par (str t) d" using kid_busy [of b V par d "str t"] Suc(3) d by simp
    have "d \<in> V" using schedD(1) [OF ok] d by (auto simp: parents_ok_def)
    then show ?thesis
      using Suc(1) [OF _ _ bd] anc_card [of V par b d] schedD(1) [OF ok] d Suc(2,5) False
        anc_Some [of par b d] by auto
  qed (use Suc(4) in simp)
qed

lemma next_outbound_item_ok:
  assumes ok: "dep_sched V t" and a: "a \<in> V" and n: "card V \<le> n"
  shows "\<exists>t' r. nghttp2_stream_next_outbound_item n t a = Inr (t', r) \<and> dep_sched V t' \<and>
    same_core (str t) (str t') \<and>
    (case r of None \<Rightarrow> \<forall>b. at_or_below V t a b \<longrightarrow> \<not> stream_active (str t b)
     | Some i \<Rightarrow> \<exists>b. at_or_below V t a b \<and> stream_active (str t b) \<and> item (str t b) = Some i)"
proof -
  let ?par = "par_of V (str t)"
  note sok = dep_schedD [OF ok]
  have fin: "finite V" using schedD(1) [OF sok] by (simp add: parents_ok_def)
  have "a \<notin> below V ?par a" using anc_self [OF schedD(1) [OF sok], of a] by (simp add: below_def)
  moreover have "below V ?par a \<subseteq> V" by (auto simp: below_def)
  ultimately have "below V ?par a \<subset> V" using a by blast
  then have few: "card (below V ?par a) < n" using psubset_card_mono [OF fin, of "below V ?par a"] n by simp
  show ?thesis
  proof (cases "busy V ?par (str t) a")
    case True
    then obtain b where b: "find_active n t a = Inr (Some b)" "stream_active (str t b)" "b \<in> V"
      "b = a \<or> a \<in> anc ?par b"
      using find_active_ok [OF sok a few] by auto
    have "card (anc ?par b) < n" using anc_card_less [OF schedD(1) [OF sok] b(3)] n by simp
    moreover have "dep_prev (str t c) = ?par c" if "c \<in> insert b (anc ?par b)" for c
      using that par_of_anc [OF schedD(1) [OF sok]] b(3) par_of_in by (metis insertE)
    ultimately obtain t' where t': "set_last_cycle n t b = Inr t'" "same_core (str t) (str t')"
      "sched V ?par {} {} t'"
      using set_last_cycle_ok [OF sok b(3)] by blast
    obtain i where i: "item (str t b) = Some i" using b(2) by (auto simp: stream_active_def)
    have "core (str t' b) = core (str t b)" using t'(2) by (simp add: same_core_def)
    then have "item (str t' b) = Some i" using i core_fields(7) by metis
    then show ?thesis
      using b t' i par_of_core [OF t'(2), of V]
      by (auto simp: nghttp2_stream_next_outbound_item_def dep_sched_def at_or_below_def)
  next
    case False
    have "\<not> stream_active (str t b)" if "at_or_below V t a b" for b
      using active_busy [OF sok order_refl, of b a] that False by (auto simp: at_or_below_def busy_def)
    then show ?thesis
      using False find_active_ok [OF sok a few] ok
      by (auto simp: nghttp2_stream_next_outbound_item_def)
  qed
qed

end
