(* ===== verification/DepShape.thy ===== *)
theory DepShape
  imports DepSched
begin

text \<open>
  The links of the dependency tree: they form a forest, in which the children of each stream are a list.
  Each of the operations on the tree is shown to be one step on these lists, to keep the sums of the
  weights, and to keep the schedule of \<open>DepSched\<close>.
\<close>

section \<open>Lists of siblings\<close>

definition first_or :: "nat option \<Rightarrow> nat list \<Rightarrow> nat option" where
  "first_or n xs = (case xs of [] \<Rightarrow> n | x # _ \<Rightarrow> Some x)"

definition last_or :: "nat option \<Rightarrow> nat list \<Rightarrow> nat option" where
  "last_or p xs = (if xs = [] then p else Some (last xs))"

text \<open>The links of the siblings \<open>xs\<close>, between what comes before them and what comes after.\<close>

fun chain :: "(nat \<Rightarrow> stream) \<Rightarrow> nat option \<Rightarrow> nat list \<Rightarrow> nat option \<Rightarrow> bool" where
  "chain st p [] n \<longleftrightarrow> True"
| "chain st p (x # xs) n \<longleftrightarrow>
     sib_prev (st x) = p \<and> sib_next (st x) = first_or n xs \<and> chain st (Some x) xs n"

lemma first_or_simps [simp]: "first_or n [] = n" "first_or n (x # xs) = Some x"
  "first_or n (xs @ ys) = first_or (first_or n ys) xs"
  by (simp_all add: first_or_def split: list.split)

lemma last_or_simps [simp]: "last_or p [] = p" "last_or p (x # xs) = last_or (Some x) xs"
  "last_or p (xs @ ys) = last_or (last_or p xs) ys"
  by (simp_all add: last_or_def)

lemma first_or_hd: "xs \<noteq> [] \<Longrightarrow> first_or n xs = Some (hd xs)"
  by (cases xs) simp_all

lemma last_or_last: "xs \<noteq> [] \<Longrightarrow> last_or p xs = Some (last xs)"
  by (simp add: last_or_def)

lemma chain_append: "chain st p (xs @ ys) n \<longleftrightarrow> chain st p xs (first_or n ys) \<and> chain st (last_or p xs) ys n"
  by (induction xs arbitrary: p) auto

lemma chain_relink:
  assumes "chain st p xs n" "distinct xs"
    and "\<And>x. x \<in> set xs \<Longrightarrow> sib_prev (st' x) = (if x = hd xs then p' else sib_prev (st x))"
    and "\<And>x. x \<in> set xs \<Longrightarrow> sib_next (st' x) = (if x = last xs then n' else sib_next (st x))"
  shows "chain st' p' xs n'"
  using assms
proof (induction xs arbitrary: p p')
  case (Cons x xs)
  show ?case
  proof (cases xs)
    case Nil
    then show ?thesis using Cons(4) [of x] Cons(5) [of x] by simp
  next
    case (Cons y ys)
    have "chain st' (Some x) xs n'"
    proof (rule Cons.IH)
      show "chain st (Some x) xs n" "distinct xs" using Cons.prems(1,2) by simp_all
      show "sib_prev (st' z) = (if z = hd xs then Some x else sib_prev (st z))" if "z \<in> set xs" for z
        using Cons.prems(1,2) Cons.prems(3) [of z] that local.Cons by auto
      show "sib_next (st' z) = (if z = last xs then n' else sib_next (st z))" if "z \<in> set xs" for z
        using Cons.prems(4) [of z] that local.Cons by auto
    qed
    moreover have "x \<noteq> last xs" using Cons.prems(2) local.Cons last_in_set [of xs] by auto
    ultimately show ?thesis
      using Cons.prems(1) Cons.prems(3) [of x] Cons.prems(4) [of x] local.Cons by simp
  qed
qed simp

lemma chain_ends:
  assumes "chain st p xs n"
  shows "hd xs \<in> set xs \<Longrightarrow> sib_prev (st (hd xs)) = p" "last xs \<in> set xs \<Longrightarrow> sib_next (st (last xs)) = n"
proof -
  show "sib_prev (st (hd xs)) = p" if "hd xs \<in> set xs"
    using assms that by (cases xs) simp_all
  have "xs \<noteq> [] \<Longrightarrow> sib_next (st (last xs)) = n"
    using assms by (induction xs arbitrary: p) auto
  then show "sib_next (st (last xs)) = n" if "last xs \<in> set xs"
    using that by (cases "xs = []") simp_all
qed

lemma chain_cong:
  assumes "\<And>x. x \<in> set xs \<Longrightarrow> sib_prev (st' x) = sib_prev (st x) \<and> sib_next (st' x) = sib_next (st x)"
  shows "chain st' p xs n = chain st p xs n"
  using assms by (induction xs arbitrary: p) auto

section \<open>Forests\<close>

definition kin :: "(nat \<Rightarrow> stream) \<Rightarrow> nat \<Rightarrow> nat list \<Rightarrow> bool" where
  "kin st a xs \<longleftrightarrow> dep_next (st a) = first_or None xs \<and> chain st None xs None \<and>
     (\<forall>x\<in>set xs. dep_prev (st x) = Some a)"

text \<open>\<open>ch a\<close> are the children of \<open>a\<close>, the one added last first.\<close>

definition forest :: "nat set \<Rightarrow> (nat \<Rightarrow> nat list) \<Rightarrow> (nat \<Rightarrow> stream) \<Rightarrow> bool" where
  "forest V ch st \<longleftrightarrow>
     (\<forall>a\<in>V. set (ch a) \<subseteq> V \<and> distinct (ch a) \<and> kin st a (ch a)) \<and>
     (\<forall>c\<in>V. \<forall>a. dep_prev (st c) = Some a \<longrightarrow> a \<in> V \<and> c \<in> set (ch a)) \<and>
     (\<forall>c\<in>V. dep_prev (st c) = None \<longrightarrow> sib_prev (st c) = None \<and> sib_next (st c) = None)"

lemma forestI:
  assumes "\<And>a. a \<in> V \<Longrightarrow> set (ch a) \<subseteq> V" "\<And>a. a \<in> V \<Longrightarrow> distinct (ch a)"
    and "\<And>a. a \<in> V \<Longrightarrow> kin st a (ch a)"
    and "\<And>c a. c \<in> V \<Longrightarrow> dep_prev (st c) = Some a \<Longrightarrow> a \<in> V \<and> c \<in> set (ch a)"
    and "\<And>c. c \<in> V \<Longrightarrow> dep_prev (st c) = None \<Longrightarrow> sib_prev (st c) = None \<and> sib_next (st c) = None"
  shows "forest V ch st"
  using assms by (simp add: forest_def)

lemma forestD:
  assumes "forest V ch st"
  shows "a \<in> V \<Longrightarrow> set (ch a) \<subseteq> V" "a \<in> V \<Longrightarrow> distinct (ch a)" "a \<in> V \<Longrightarrow> kin st a (ch a)"
    and "c \<in> V \<Longrightarrow> dep_prev (st c) = Some a \<Longrightarrow> a \<in> V \<and> c \<in> set (ch a)"
    and "c \<in> V \<Longrightarrow> dep_prev (st c) = None \<Longrightarrow> sib_prev (st c) = None \<and> sib_next (st c) = None"
  using assms by (simp_all add: forest_def)

lemma kinD:
  assumes "kin st a xs"
  shows "dep_next (st a) = first_or None xs" "chain st None xs None"
    "x \<in> set xs \<Longrightarrow> dep_prev (st x) = Some a"
  using assms by (simp_all add: kin_def)

lemma kin_cong:
  assumes "dep_next (st' a) = dep_next (st a)"
    and "\<And>x. x \<in> set xs \<Longrightarrow> sib_prev (st' x) = sib_prev (st x) \<and> sib_next (st' x) = sib_next (st x) \<and>
      dep_prev (st' x) = dep_prev (st x)"
  shows "kin st' a xs = kin st a xs"
  using assms chain_cong [of xs st' st None None] by (auto simp: kin_def)

lemma forest_parent: "forest V ch st \<Longrightarrow> a \<in> V \<Longrightarrow> x \<in> set (ch a) \<Longrightarrow> dep_prev (st x) = Some a"
  using forestD(3) [of V ch st a] kinD(3) by blast

lemma forest_core: "same_core st st' \<Longrightarrow> forest V ch st' = forest V ch st"
proof -
  assume c: "same_core st st'"
  have "kin st' a xs = kin st a xs" for a xs by (rule kin_cong) (simp_all add: same_coreD [OF c])
  then show ?thesis by (simp add: forest_def same_coreD [OF c])
qed

text \<open>A root \<open>s\<close> becomes the first child of \<open>d\<close>.\<close>

lemma forest_add:
  assumes ok: "forest V ch st" and V: "d \<in> V" "s \<in> V" "s \<noteq> d" "dep_prev (st s) = None"
    and dp: "\<And>x. dep_prev (st' x) = (if x = s then Some d else dep_prev (st x))"
    and dn: "\<And>x. dep_next (st' x) = (if x = d then Some s else dep_next (st x))"
    and sn: "\<And>x. sib_next (st' x) = (if x = s then first_or None (ch d) else sib_next (st x))"
    and sp: "\<And>x. sib_prev (st' x) = (if ch d \<noteq> [] \<and> x = hd (ch d) then Some s else sib_prev (st x))"
  shows "forest V (ch(d := s # ch d)) st'"
proof -
  have s_out: "s \<notin> set (ch a)" if "a \<in> V" for a
    using forest_parent [OF ok that, of s] V(4) by auto
  have kin_d: "kin st' d (s # ch d)"
  proof -
    have end_d: "sib_next (st (last (ch d))) = None" if "last (ch d) \<in> set (ch d)"
      by (rule chain_ends(2) [OF kinD(2) [OF forestD(3) [OF ok V(1)]] that])
    have "chain st' (Some s) (ch d) None"
      by (rule chain_relink [OF kinD(2) [OF forestD(3) [OF ok V(1)]] forestD(2) [OF ok V(1)]])
        (use sp sn s_out [OF V(1)] end_d in auto)
    then show ?thesis
      using s_out [OF V(1)] forestD(5) [OF ok V(2,4)] forest_parent [OF ok V(1)]
      by (auto simp: kin_def dp dn sn sp dest: hd_in_set)
  qed
  show ?thesis
  proof (rule forestI)
    show "set ((ch(d := s # ch d)) a) \<subseteq> V" if "a \<in> V" for a using forestD(1) [OF ok that] V by auto
    show "distinct ((ch(d := s # ch d)) a)" if "a \<in> V" for a
      using forestD(2) [OF ok that] s_out that by auto
    show "kin st' a ((ch(d := s # ch d)) a)" if "a \<in> V" for a
    proof (cases "a = d")
      case False
      have "x \<noteq> s \<and> \<not> (ch d \<noteq> [] \<and> x = hd (ch d))" if "x \<in> set (ch a)" for x
        using that s_out [OF \<open>a \<in> V\<close>] forest_parent [OF ok \<open>a \<in> V\<close> that] forest_parent [OF ok V(1)] False
        by (metis hd_in_set option.inject)
      then show ?thesis
        using False forestD(3) [OF ok that] by (subst kin_cong [where st = st]) (auto simp: dp dn sn sp)
    qed (use kin_d in simp)
    show "a \<in> V \<and> c \<in> set ((ch(d := s # ch d)) a)" if "c \<in> V" "dep_prev (st' c) = Some a" for c a
      using that forestD(4) [OF ok that(1)] V by (auto simp: dp split: if_splits)
    show "sib_prev (st' c) = None \<and> sib_next (st' c) = None" if "c \<in> V" "dep_prev (st' c) = None" for c
      using that forestD(5) [OF ok that(1)] forest_parent [OF ok V(1), of "hd (ch d)"]
      by (auto simp: dp sn sp split: if_splits)
  qed
qed

lemma forest_disjoint:
  "forest V ch st \<Longrightarrow> a \<in> V \<Longrightarrow> b \<in> V \<Longrightarrow> x \<in> set (ch a) \<Longrightarrow> x \<in> set (ch b) \<Longrightarrow> a = b"
  using forest_parent [of V ch st] by (metis option.inject)

text \<open>The children of \<open>d\<close> go behind those of the root \<open>s\<close>, which becomes the only child of \<open>d\<close>.\<close>

lemma forest_adopt:
  assumes ok: "forest V ch st" and V: "d \<in> V" "s \<in> V" "s \<noteq> d" "dep_prev (st s) = None"
    and dp: "\<And>x. dep_prev (st' x) = (if x = s then Some d else if x \<in> set (ch d) then Some s
                                       else dep_prev (st x))"
    and dn: "\<And>x. dep_next (st' x) = (if x = d then Some s else if x = s then first_or None (ch s @ ch d)
                                       else dep_next (st x))"
    and sn: "\<And>x. sib_next (st' x) = (if ch s \<noteq> [] \<and> ch d \<noteq> [] \<and> x = last (ch s)
                                       then first_or None (ch d) else sib_next (st x))"
    and sp: "\<And>x. sib_prev (st' x) = (if ch s \<noteq> [] \<and> ch d \<noteq> [] \<and> x = hd (ch d)
                                       then last_or None (ch s) else sib_prev (st x))"
  shows "forest V (ch(s := ch s @ ch d, d := [s])) st'"
proof -
  let ?ch = "ch(s := ch s @ ch d, d := [s])"
  have s_out: "s \<notin> set (ch a)" if "a \<in> V" for a
    using forest_parent [OF ok that, of s] V(4) by auto
  have apart: "x \<notin> set (ch d)" if "x \<in> set (ch s)" for x
    using that forest_disjoint [OF ok V(1,2)] V(3) by auto
  note kin_d = forestD(3) [OF ok V(1)] and kin_s = forestD(3) [OF ok V(2)]
  have c1: "chain st' None (ch s) (first_or None (ch d))"
    by (rule chain_relink [OF kinD(2) [OF kin_s] forestD(2) [OF ok V(2)]])
      (use chain_ends [OF kinD(2) [OF kin_s]] apart in \<open>auto simp: sp sn dest: hd_in_set\<close>)
  have c2: "chain st' (last_or None (ch s)) (ch d) None"
    by (rule chain_relink [OF kinD(2) [OF kin_d] forestD(2) [OF ok V(1)]])
      (use chain_ends [OF kinD(2) [OF kin_d]] apart in \<open>auto simp: sp sn dest: last_in_set\<close>)
  have "kin st' s (ch s @ ch d)"
    using c1 c2 V(3) apart s_out [OF V(1)] s_out [OF V(2)] forest_parent [OF ok V(2)]
    by (auto simp: kin_def dp dn chain_append)
  moreover have "sib_prev (st' s) = None" "sib_next (st' s) = None"
    using forestD(5) [OF ok V(2,4)] s_out V by (auto simp: sp sn dest: hd_in_set last_in_set)
  then have "kin st' d [s]" by (simp add: kin_def dp dn)
  ultimately have kin: "kin st' a (?ch a)" if "a \<in> V" for a
  proof (cases "a = d \<or> a = s")
    case False
    have "x \<noteq> s \<and> x \<notin> set (ch d) \<and> x \<notin> set (ch s)" if "x \<in> set (ch a)" for x
      using that s_out [OF \<open>a \<in> V\<close>] forest_disjoint [OF ok \<open>a \<in> V\<close> V(1)]
        forest_disjoint [OF ok \<open>a \<in> V\<close> V(2)] False by auto
    then have "kin st' a (ch a) = kin st a (ch a)"
      using False by (intro kin_cong) (auto simp: dp dn sn sp dest: hd_in_set last_in_set)
    then show ?thesis using False forestD(3) [OF ok that] by simp
  qed auto
  show ?thesis
  proof (rule forestI)
    show "set (?ch a) \<subseteq> V" if "a \<in> V" for a
      using forestD(1) [OF ok that] forestD(1) [OF ok V(1)] V by auto
    show "distinct (?ch a)" if "a \<in> V" for a
      using forestD(2) [OF ok that] forestD(2) [OF ok V(1)] apart by auto
    show "a \<in> V \<and> c \<in> set (?ch a)" if "c \<in> V" "dep_prev (st' c) = Some a" for c a
      using that forestD(4) [OF ok that(1)] V forest_parent [OF ok V(1), of c] by (auto simp: dp split: if_splits)
    show "sib_prev (st' c) = None \<and> sib_next (st' c) = None" if "c \<in> V" "dep_prev (st' c) = None" for c
    proof -
      have "c \<noteq> s" "c \<notin> set (ch d)" "dep_prev (st c) = None" using that(2) by (auto simp: dp split: if_splits)
      moreover have "c \<notin> set (ch s)" using forest_parent [OF ok V(2), of c] \<open>dep_prev (st c) = None\<close> by auto
      ultimately show ?thesis
        using forestD(5) [OF ok that(1)] by (auto simp: sp sn dest: hd_in_set last_in_set)
    qed
  qed (rule kin)
qed

text \<open>The child \<open>s\<close> of \<open>d\<close> leaves, and \<open>cs\<close> comes in its place: either its own children, or nothing.\<close>

lemma forest_splice:
  assumes ok: "forest V ch st" and V: "d \<in> V" "s \<in> V" "s \<noteq> d" and at: "ch d = xs @ s # ys"
    and cs: "cs = ch s \<and> es = [] \<or> cs = [] \<and> es = ch s"
    and dp: "\<And>x. dep_prev (st' x) = (if x = s then None else if x \<in> set cs then Some d else dep_prev (st x))"
    and dn: "\<And>x. dep_next (st' x) = (if x = d then first_or None (xs @ cs @ ys)
                                       else if x = s then first_or None es else dep_next (st x))"
    and sp: "\<And>x. sib_prev (st' x) =
      (if x = s then None else if cs \<noteq> [] \<and> x = hd cs then last_or None xs
       else if ys \<noteq> [] \<and> x = hd ys then last_or None (xs @ cs) else sib_prev (st x))"
    and sn: "\<And>x. sib_next (st' x) =
      (if x = s then None else if xs \<noteq> [] \<and> x = last xs then first_or None (cs @ ys)
       else if cs \<noteq> [] \<and> x = last cs then first_or None ys else sib_next (st x))"
  shows "forest V (ch(d := xs @ cs @ ys, s := es)) st'"
proof -
  let ?ch = "ch(d := xs @ cs @ ys, s := es)"
  have dist: "distinct (xs @ s # ys)" using forestD(2) [OF ok V(1)] at by simp
  have s_par: "dep_prev (st s) = Some d" using forest_parent [OF ok V(1)] at by simp
  have s_out: "s \<notin> set (ch a)" if "a \<in> V" "a \<noteq> d" for a
    using forest_parent [OF ok that(1), of s] that(2) s_par by auto
  have sub: "set cs \<subseteq> set (ch s)" "set es \<subseteq> set (ch s)" "distinct cs" "distinct es"
    using cs forestD(2) [OF ok V(2)] by auto
  have apart: "x \<notin> set (xs @ s # ys)" if "x \<in> set (ch s)" for x
    using that forest_disjoint [OF ok V(1,2), of x] V(3) at by auto
  have apart_cs: "x \<notin> set (xs @ s # ys)" if "x \<in> set cs" for x using apart sub(1) that by auto
  have untouched: "sib_prev (st' x) = sib_prev (st x) \<and> sib_next (st' x) = sib_next (st x) \<and>
      dep_prev (st' x) = dep_prev (st x)"
    if "x \<noteq> s" "x \<notin> set xs" "x \<notin> set ys" "x \<notin> set cs" for x
  proof -
    have "\<not> (cs \<noteq> [] \<and> x = hd cs)" "\<not> (cs \<noteq> [] \<and> x = last cs)" "\<not> (ys \<noteq> [] \<and> x = hd ys)"
      "\<not> (xs \<noteq> [] \<and> x = last xs)"
      using that hd_in_set last_in_set by metis+
    then show ?thesis using that by (simp only: sp sn dp if_False simp_thms)
  qed
  note kin_d = forestD(3) [OF ok V(1)] and kin_s = forestD(3) [OF ok V(2)]
  have old: "chain st None xs (Some s)" "chain st (Some s) ys None"
    using kinD(2) [OF kin_d] by (simp_all add: at chain_append)
  have old_cs: "chain st None cs None" using kinD(2) [OF kin_s] cs by auto
  have c1: "chain st' None xs (first_or None (cs @ ys))"
    by (rule chain_relink [OF old(1)])
      (use dist chain_ends [OF old(1)] apart_cs in \<open>auto simp: sp sn dest: hd_in_set last_in_set\<close>)
  have c2: "chain st' (last_or None xs) cs (first_or None ys)"
    by (rule chain_relink [OF old_cs sub(3)])
      (use chain_ends [OF old_cs] apart_cs in \<open>auto simp: sp sn dest: hd_in_set last_in_set\<close>)
  have c3: "chain st' (last_or None (xs @ cs)) ys None"
    by (rule chain_relink [OF old(2)])
      (use dist chain_ends [OF old(2)] apart_cs in \<open>auto simp: sp sn dest: hd_in_set last_in_set\<close>)
  have "kin st' d (xs @ cs @ ys)"
  proof -
    have "dep_prev (st' x) = Some d" if "x \<in> set (xs @ cs @ ys)" for x
    proof (cases "x \<in> set cs")
      case True
      then show ?thesis using apart_cs [OF True] by (simp add: dp)
    next
      case False
      then have "x \<noteq> s" "x \<in> set (ch d)" using that dist at by auto
      then show ?thesis using False forest_parent [OF ok V(1)] by (simp add: dp)
    qed
    then show ?thesis using c1 c2 c3 by (simp add: kin_def dn chain_append)
  qed
  moreover have "kin st' s es"
  proof -
    have out: "x \<noteq> s \<and> x \<notin> set xs \<and> x \<notin> set ys \<and> x \<notin> set cs" if "x \<in> set es" for x
      using that apart sub cs by auto
    have "chain st' None es None = chain st None es None"
      by (rule chain_cong) (use untouched out in blast)
    then have "chain st' None es None" using kinD(2) [OF kin_s] cs by auto
    then show ?thesis using out V(3) sub forest_parent [OF ok V(2)] by (auto simp: kin_def dp dn)
  qed
  ultimately have kin: "kin st' a (?ch a)" if "a \<in> V" for a
  proof (cases "a = d \<or> a = s")
    case False
    have "x \<noteq> s \<and> x \<notin> set (ch d) \<and> x \<notin> set (ch s)" if "x \<in> set (ch a)" for x
      using that s_out [OF \<open>a \<in> V\<close>] forest_disjoint [OF ok \<open>a \<in> V\<close> V(1)]
        forest_disjoint [OF ok \<open>a \<in> V\<close> V(2)] False by auto
    then have "x \<noteq> s \<and> x \<notin> set xs \<and> x \<notin> set ys \<and> x \<notin> set cs" if "x \<in> set (ch a)" for x
      using that sub(1) at by auto
    then have "kin st' a (ch a) = kin st a (ch a)"
      using False untouched by (intro kin_cong) (simp_all add: dn)
    then show ?thesis using False forestD(3) [OF ok that] by simp
  qed auto
  show ?thesis
  proof (rule forestI)
    show "set (?ch a) \<subseteq> V" if "a \<in> V" for a
      using forestD(1) [OF ok that] forestD(1) [OF ok V(1)] forestD(1) [OF ok V(2)] sub at by auto
    show "distinct (?ch a)" if "a \<in> V" for a
      using forestD(2) [OF ok that] dist sub apart_cs by auto
    show "a \<in> V \<and> c \<in> set (?ch a)" if "c \<in> V" "dep_prev (st' c) = Some a" for c a
      using that forestD(4) [OF ok that(1), of a] V cs at forest_parent [OF ok V(2), of c]
      by (auto simp: dp split: if_splits)
    show "sib_prev (st' c) = None \<and> sib_next (st' c) = None" if "c \<in> V" "dep_prev (st' c) = None" for c
    proof (cases "c = s")
      case False
      then have none: "c \<notin> set cs" "dep_prev (st c) = None" using that(2) by (auto simp: dp split: if_splits)
      then have "c \<notin> set xs" "c \<notin> set ys" using forest_parent [OF ok V(1), of c] at by auto
      then show ?thesis
        using untouched [OF False] none forestD(5) [OF ok that(1)] by simp
    qed (simp add: sp sn)
  qed (rule kin)
qed

end
