(* ===== verification/DepForest.thy ===== *)
theory DepForest
  imports DepShape
begin

text \<open>
  The operations on the dependency tree as steps on lists of children. Between two of them the links form
  a forest, a stream knows the sum of the weights of its children, and its schedule is the one of
  \<open>DepSched\<close>; each operation keeps this, whatever it has to move between heaps.
\<close>

section \<open>New parents\<close>

lemma edges_cong:
  assumes "\<And>x. x \<in> insert s (anc par s) \<Longrightarrow> par' x = par x" "(s, a) \<in> (par_edges par)\<^sup>+"
  shows "(s, a) \<in> (par_edges par')\<^sup>+"
  using assms(2)
proof (induction rule: trancl_induct)
  case (base b)
  then show ?case using assms(1) [of s] by (intro r_into_trancl) (simp add: par_edges_def)
next
  case (step b c)
  then have "par' b = par b" using assms(1) [of b] by (simp add: anc_def)
  then have "(b, c) \<in> par_edges par'" using step(2) by (simp add: par_edges_def)
  then show ?case using step(3) by (rule trancl_into_trancl [rotated])
qed

lemma anc_cong:
  assumes "\<And>x. x \<in> insert s (anc par s) \<Longrightarrow> par' x = par x"
  shows "anc par' s = anc par s"
proof
  show "anc par s \<subseteq> anc par' s" using edges_cong [of s par par', OF assms] by (auto simp: anc_def)
  have "a \<in> anc par s" if "(s, a) \<in> (par_edges par')\<^sup>+" for a
    using that
  proof (induction rule: trancl_induct)
    case (base b)
    then show ?case using assms [of s] by (auto simp: anc_def par_edges_def)
  next
    case (step b c)
    then have "(b, c) \<in> par_edges par" using assms [of b] by (auto simp: par_edges_def)
    then show ?case using step(3) by (auto simp: anc_def intro: trancl_into_trancl)
  qed
  then show "anc par' s \<subseteq> anc par s" by (auto simp: anc_def)
qed

lemma anc_upd: "x \<notin> insert s (anc par s) \<Longrightarrow> anc (par(x := y)) s = anc par s"
  by (rule anc_cong) auto

lemma parents_ok_Some:
  assumes ok: "parents_ok V par" and V: "s \<in> V" "d \<in> V" and up: "s \<notin> insert d (anc par d)"
  shows "parents_ok V (par(s := Some d))"
proof -
  have "(d, s) \<notin> (par_edges par)\<^sup>*" using up by (auto simp: anc_def rtrancl_eq_or_trancl)
  then have "acyclic (insert (s, d) (par_edges par))"
    using ok by (simp add: parents_ok_def)
  then have "acyclic (par_edges (par(s := Some d)))"
    by (rule acyclic_subset) (auto simp: par_edges_def split: if_splits)
  then show ?thesis using ok V by (auto simp: parents_ok_def split: if_splits)
qed

lemma parents_ok_None:
  assumes "parents_ok V par"
  shows "parents_ok V (par(s := None))"
proof -
  have "acyclic (par_edges (par(s := None)))"
    using assms by (auto simp: parents_ok_def par_edges_def split: if_splits intro: acyclic_subset)
  then show ?thesis using assms by (auto simp: parents_ok_def split: if_splits)
qed

lemma kids_reparent: "\<not> queued (st s) \<Longrightarrow> kids V (par(s := x)) st a = kids V par st a"
  by (auto simp: kids_def)

lemma sched_move_idle:
  assumes ok: "sched V par N B t" and s: "s \<in> V" "\<not> queued (str t s)" "s \<notin> N" "par s \<noteq> None"
    and par': "parents_ok V (par(s := x))"
  shows "sched V (par(s := x)) N B t"
proof -
  have "\<not> busy V par (str t) s" using schedD(5) [OF ok s(1,3) _ s(4)] s(2) by blast
  then have "\<not> busy V (par(s := x)) (str t) s" using kids_reparent [of "str t" s] s(2) by (simp add: busy_def)
  then show ?thesis using sched_less_N [OF sched_reparent [OF ok s(1,2) par']] by blast
qed

lemma sched_links:
  assumes "sched V par N B t"
    and "\<And>x. weight (f x) = weight x" "\<And>x. queued (f x) = queued x" "\<And>x. stream_active (f x) = stream_active x"
  shows "sched V par N B (upd t s f)"
proof -
  have "weights_ok V (str (upd t s f))"
    using schedD(2) [OF assms(1)] assms(2) by (simp add: weights_ok_def)
  then show ?thesis using sched_cong [OF assms(1), of "upd t s f" "{}"] assms(2-4) by simp
qed

section \<open>Adopting the children of a stream\<close>

definition with_parent :: "(nat \<Rightarrow> stream) \<Rightarrow> nat list \<Rightarrow> nat \<Rightarrow> nat \<Rightarrow> stream" where
  "with_parent st xs s = (\<lambda>x. if x \<in> set xs then (st x)\<lparr>dep_prev := Some s\<rparr> else st x)"

definition owed :: "nat set \<Rightarrow> (nat \<Rightarrow> nat option) \<Rightarrow> dtree \<Rightarrow> nat \<Rightarrow> nat \<Rightarrow> bool" where
  "owed V par t d s \<longleftrightarrow> (queued (str t d) \<longrightarrow> busy V par (str t) d \<or> kids V par (str t) s \<noteq> {})"

lemma with_parent_Cons:
  assumes "same_core (\<lambda>y. if y = x then (st x)\<lparr>dep_prev := Some s\<rparr> else st y) st2"
    "same_core (with_parent st2 xs s) st3"
  shows "same_core (with_parent st (x # xs) s) st3"
  unfolding same_core_def
proof
  fix a
  have core_parent: "core (y\<lparr>dep_prev := p\<rparr>) = core z\<lparr>dep_prev := p\<rparr>" if "core y = core z" for y z p
  proof -
    have "core (y\<lparr>dep_prev := p\<rparr>) = (core y)\<lparr>dep_prev := p\<rparr>" by (simp add: core_def)
    then show ?thesis using that by simp
  qed
  have 1: "core (st2 a) = core (if a = x then (st x)\<lparr>dep_prev := Some s\<rparr> else st a)"
    and 2: "core (st3 a) = core (with_parent st2 xs s a)"
    using assms by (simp_all add: same_core_def)
  show "core (st3 a) = core (with_parent st (x # xs) s a)"
    unfolding 2 using 1 core_parent [OF 1] by (auto simp: with_parent_def) (simp_all add: core_def)
qed

lemma adopt_loop_ok:
  assumes "sched V par N {d} t" "N \<subseteq> {s}" and "d \<in> V" "s \<in> V" "d \<noteq> s"
    and "\<And>x. x \<in> set xs \<Longrightarrow> x \<in> V \<and> par x = Some d \<and> x \<noteq> s"
    and "distinct xs" "chain (str t) p xs None"
    and "par s = None \<or> par s = Some d"
    and "\<And>a. a \<in> insert s (anc par s) \<Longrightarrow> dep_prev (str t a) = par a"
    and "owed V par t d s" and "length xs \<le> n" "card V \<le> m"
  shows "gives (adopt_loop alloc m n t d s (first_or None xs))
    (\<lambda>t'. sched V (\<lambda>x. if x \<in> set xs then Some s else par x) N {d} t' \<and>
       owed V (\<lambda>x. if x \<in> set xs then Some s else par x) t' d s \<and>
       same_core (with_parent (str t) xs s) (str t'))"
  using assms
proof (induction xs arbitrary: par t p n)
  case Nil
  then show ?case by (simp add: with_parent_def)
next
  case (Cons x xs)
  note ok = Cons.prems(1)
  have x: "x \<in> V" "par x = Some d" "x \<noteq> s" using Cons.prems(6) by simp_all
  have above: "x \<notin> insert s (anc par s)"
    using child_not_anc [of V par x d] schedD(1) [OF ok] x Cons.prems(9) anc_None [of par s] anc_Some [of par s d]
    by auto
  define par1 where "par1 = par(x := Some s)"
  have par1: "parents_ok V par1"
    unfolding par1_def using parents_ok_Some [OF schedD(1) [OF ok] x(1) Cons.prems(4)] above by simp
  have anc1: "anc par1 s = anc par s" unfolding par1_def by (rule anc_upd) (rule above)
  obtain n' where n': "n = Suc n'" using Cons.prems(12) by (cases n) auto
  define t1 where "t1 = upd t x (\<lambda>y. y\<lparr>dep_prev := Some s\<rparr>)"
  have ok1: "sched V par N {d} t1"
    unfolding t1_def using ok by (rule sched_links) (simp_all add: stream_active_def)
  have str1: "str t1 = (\<lambda>y. if y = x then (str t x)\<lparr>dep_prev := Some s\<rparr> else str t y)"
    by (auto simp: t1_def)
  have links1: "dep_prev (str t1 a) = par1 a" if "a \<in> insert s (anc par s)" for a
    using Cons.prems(10) [OF that] that above by (auto simp: par1_def str1)
  have q1: "queued (str t1 x) = queued (str t x)" by (simp add: str1)
  have next_step: "gives (if queued (str t1 x) then stream_obq_move alloc m t1 (Some s) d x else Inr (t1, None))
      (\<lambda>t2. same_core (str t1) (str t2) \<and> sched V par1 N {d} t2 \<and> owed V par1 t2 d s)"
  proof (cases "queued (str t1 x)")
    case True
    have "gives (stream_obq_move alloc m t1 (Some s) d x)
      (\<lambda>t2. same_core (str t1) (str t2) \<and> sched V par1 (N - {s}) (insert d {d}) t2 \<and>
         (\<forall>c. queued (str t1 c) \<longrightarrow> queued (str t2 c)) \<and>
         (\<forall>c. c \<notin> anc par1 x \<longrightarrow> queued (str t2 c) = queued (str t1 c)))"
      unfolding par1_def
    proof (rule stream_obq_move_ok [OF ok1 x(1) _ x(2) True])
      show "x \<notin> {d}" using child_not_anc [of V par x d] schedD(1) [OF ok] x by auto
      show "parents_ok V (par(x := Some s))" using par1 by (simp add: par1_def)
      show "dep_prev (str t1 a) = (par(x := Some s)) a" if "a \<in> anc (par(x := Some s)) x" for a
        using that links1 [of a] anc_Some [of "par(x := Some s)" x s] anc1 by (simp add: par1_def)
    qed (rule Cons.prems(13))
    then show ?thesis unfolding if_P [OF True]
    proof (rule gives_mono)
      fix t2
      assume t2: "same_core (str t1) (str t2) \<and> sched V par1 (N - {s}) (insert d {d}) t2 \<and>
         (\<forall>c. queued (str t1 c) \<longrightarrow> queued (str t2 c)) \<and>
         (\<forall>c. c \<notin> anc par1 x \<longrightarrow> queued (str t2 c) = queued (str t1 c))"
      then have "x \<in> kids V par1 (str t2) s" using True x(1) by (auto simp: kids_def par1_def)
      then have "owed V par1 t2 d s" by (auto simp: owed_def)
      then show "same_core (str t1) (str t2) \<and> sched V par1 N {d} t2 \<and> owed V par1 t2 d s"
        using t2 sched_mono [of V par1 "N - {s}" "{d}" t2 N "{d}"] by auto
    qed
  next
    case False
    have "x \<notin> N" using Cons.prems(2) x(3) by auto
    then have "sched V par1 N {d} t1"
      unfolding par1_def using sched_move_idle [OF ok1 x(1) False] x(2) par1 by (simp add: par1_def)
    moreover have "owed V par1 t1 d s"
    proof -
      have "kids V par1 (str t1) a = kids V par (str t) a" for a
        using False by (auto simp: kids_def par1_def str1)
      moreover have "stream_active (str t1 d) = stream_active (str t d)"
        by (simp add: str1 stream_active_def)
      ultimately show ?thesis using Cons.prems(11) by (auto simp: owed_def busy_def str1)
    qed
    ultimately show ?thesis using False by simp
  qed
  have step: "adopt_loop alloc m n t d s (first_or None (x # xs)) =
      and_ok (if queued (str t1 x) then stream_obq_move alloc m t1 (Some s) d x else Inr (t1, None))
        (\<lambda>t2. adopt_loop alloc m n' t2 d s (sib_next (str t2 x)))"
    by (simp add: n' t1_def Let_def)
  show ?case unfolding step
  proof (rule gives_and_ok [OF next_step])
    fix t2
    assume t2: "same_core (str t1) (str t2) \<and> sched V par1 N {d} t2 \<and> owed V par1 t2 d s"
    have next_x: "sib_next (str t2 x) = first_or None xs"
      using same_coreD(4) [of "str t1" "str t2" x] t2 Cons.prems(8) by (simp add: str1)
    have sibs: "sib_prev (str t2 y) = sib_prev (str t y) \<and> sib_next (str t2 y) = sib_next (str t y)" for y
      using same_coreD(3,4) [of "str t1" "str t2" y] t2 by (simp add: str1)
    have c2: "chain (str t2) (Some x) xs None"
      using Cons.prems(8) chain_cong [of xs "str t2" "str t" "Some x" None] sibs by simp
    have l2: "dep_prev (str t2 a) = par1 a" if "a \<in> insert s (anc par1 s)" for a
      using links1 [of a] that anc1 same_coreD(1) [of "str t1" "str t2" a] t2 by simp
    have p1: "par1 y = par y" if "y \<noteq> x" for y using that by (simp add: par1_def)
    have rec: "gives (adopt_loop alloc m n' t2 d s (first_or None xs))
      (\<lambda>t'. sched V (\<lambda>y. if y \<in> set xs then Some s else par1 y) N {d} t' \<and>
         owed V (\<lambda>y. if y \<in> set xs then Some s else par1 y) t' d s \<and>
         same_core (with_parent (str t2) xs s) (str t'))"
    proof (rule Cons.IH)
      show "y \<in> V \<and> par1 y = Some d \<and> y \<noteq> s" if "y \<in> set xs" for y
        using that Cons.prems(6) [of y] Cons.prems(7) p1 [of y] by auto
      show "distinct xs" "length xs \<le> n'" using Cons.prems(7,12) n' by simp_all
      show "par1 s = None \<or> par1 s = Some d" using Cons.prems(9) p1 x(3) by simp
    qed (use t2 Cons.prems(2-5,13) c2 l2 in auto)
    have fe: "(\<lambda>y. if y \<in> set xs then Some s else par1 y) = (\<lambda>y. if y \<in> set (x # xs) then Some s else par y)"
      by (auto simp: par1_def)
    show "gives (adopt_loop alloc m n' t2 d s (sib_next (str t2 x)))
      (\<lambda>t'. sched V (\<lambda>y. if y \<in> set (x # xs) then Some s else par y) N {d} t' \<and>
         owed V (\<lambda>y. if y \<in> set (x # xs) then Some s else par y) t' d s \<and>
         same_core (with_parent (str t) (x # xs) s) (str t'))"
      unfolding next_x
      using rec unfolding fe
      by (rule gives_mono) (use t2 with_parent_Cons in \<open>simp add: str1, blast\<close>)
  qed
qed

section \<open>The abstract forest\<close>

record dep =
  children :: "nat \<Rightarrow> nat list"
  weights :: "nat \<Rightarrow> int"
  items :: "nat \<Rightarrow> nat option \<times> u8"

definition represents :: "nat set \<Rightarrow> dep \<Rightarrow> dtree \<Rightarrow> bool" where
  "represents V f t \<longleftrightarrow> forest V (children f) (str t) \<and>
     (\<forall>a\<in>V. weight (str t a) = weights f a \<and> (item (str t a), flags (str t a)) = items f a \<and>
        sum_dep_weight (str t a) = sum_list (map (weights f) (children f a))) \<and>
     dep_sched V t \<and> card V \<le> 2 ^ 21"

lemma representsD:
  assumes "represents V f t"
  shows "forest V (children f) (str t)" "dep_sched V t" "card V \<le> 2 ^ 21" "finite V"
    "a \<in> V \<Longrightarrow> weight (str t a) = weights f a"
    "a \<in> V \<Longrightarrow> items f a = (item (str t a), flags (str t a))"
    "a \<in> V \<Longrightarrow> sum_dep_weight (str t a) = sum_list (map (weights f) (children f a))"
  using assms schedD(1) [OF dep_schedD [of V t]] by (auto simp: represents_def parents_ok_def)

lemma weights_range:
  assumes "represents V f t" "a \<in> V"
  shows "1 \<le> weights f a" "weights f a \<le> 256"
  using schedD(2) [OF dep_schedD [OF representsD(2) [OF assms(1)]]] representsD(5) [OF assms] assms(2)
  by (auto simp: weights_ok_def)

lemma sum_list_le: "(\<And>x. x \<in> set xs \<Longrightarrow> g x \<le> (k :: int)) \<Longrightarrow> sum_list (map g xs) \<le> k * int (length xs)"
  by (induction xs) (auto simp: algebra_simps add_mono)

lemma sum_list_ge: "(\<And>x. x \<in> set xs \<Longrightarrow> 1 \<le> (g x :: int)) \<Longrightarrow> int (length xs) \<le> sum_list (map g xs)"
proof (induction xs)
  case (Cons x xs)
  then have "1 \<le> g x" "int (length xs) \<le> sum_list (map g xs)" by simp_all
  then show ?case by simp
qed simp

lemma children_sum:
  assumes "represents V f t" "a \<in> V"
  shows "0 \<le> sum_list (map (weights f) (children f a))" "sum_list (map (weights f) (children f a)) \<le> 2 ^ 29"
    "length (children f a) \<le> card V"
proof -
  note forest = representsD(1) [OF assms(1)]
  have in_V: "x \<in> V" if "x \<in> set (children f a)" for x using forestD(1) [OF forest assms(2)] that by auto
  show len: "length (children f a) \<le> card V"
    using card_mono [OF representsD(4) [OF assms(1)] forestD(1) [OF forest assms(2)]]
      forestD(2) [OF forest assms(2)] by (simp add: distinct_card)
  show "0 \<le> sum_list (map (weights f) (children f a))"
    using sum_list_ge [of "children f a" "weights f"] weights_range(1) [OF assms(1) in_V] by simp
  have "sum_list (map (weights f) (children f a)) \<le> 256 * int (length (children f a))"
    using weights_range(2) [OF assms(1) in_V] by (rule sum_list_le)
  then show "sum_list (map (weights f) (children f a)) \<le> 2 ^ 29"
    using len representsD(3) [OF assms(1)] by simp
qed

text \<open>What the operations on links leave alone.\<close>

definition payload :: "stream \<Rightarrow> stream" where
  "payload s = s\<lparr>dep_prev := None, dep_next := None, sib_prev := None, sib_next := None\<rparr>"

lemma payload_fields:
  assumes "payload s' = payload s"
  shows "weight s' = weight s" "sum_dep_weight s' = sum_dep_weight s" "item s' = item s"
    "flags s' = flags s" "queued s' = queued s" "stream_active s' = stream_active s"
  using arg_cong [OF assms, of weight] arg_cong [OF assms, of sum_dep_weight] arg_cong [OF assms, of item]
    arg_cong [OF assms, of flags] arg_cong [OF assms, of queued]
  by (simp_all add: payload_def stream_active_def)

definition relinked :: "dtree \<Rightarrow> dtree \<Rightarrow> bool" where
  "relinked t t' \<longleftrightarrow> (\<forall>x. payload (str t' x) = payload (str t x)) \<and> heaps t' = heaps t \<and> pqi t' = pqi t"

lemma relinkedD: "relinked t t' \<Longrightarrow> payload (str t' x) = payload (str t x)" "relinked t t' \<Longrightarrow> heaps t' = heaps t"
  "relinked t t' \<Longrightarrow> pqi t' = pqi t"
  by (simp_all add: relinked_def)

lemma relinked_refl [simp]: "relinked t t" by (simp add: relinked_def)

lemma relinked_trans: "relinked a b \<Longrightarrow> relinked b c \<Longrightarrow> relinked a c" by (simp add: relinked_def)

lemma relinked_upd: "(\<And>x. payload (f x) = payload x) \<Longrightarrow> relinked t (upd t a f)"
  by (simp add: relinked_def)

lemma payload_links [simp]:
  "payload (x\<lparr>dep_prev := l\<rparr>) = payload x" "payload (x\<lparr>dep_next := l\<rparr>) = payload x"
  "payload (x\<lparr>sib_prev := l\<rparr>) = payload x" "payload (x\<lparr>sib_next := l\<rparr>) = payload x"
  by (simp_all add: payload_def)

lemma relinked_link_dep: "relinked t (link_dep t d s)"
  by (cases s) (auto simp: link_dep_def Let_def relinked_def)

lemma relinked_link_sib: "relinked t (link_sib t d s)"
  by (cases s) (auto simp: link_sib_def Let_def relinked_def)

lemma sched_relinked: "sched V par N B t \<Longrightarrow> relinked t t' \<Longrightarrow> sched V par N B t'"
  using sched_cong [of V par N B t t' "{}"] schedD(2) [of V par N B t]
  by (auto simp: weights_ok_def payload_fields [OF relinkedD(1)] dest: relinkedD(2,3))

text \<open>The sum of the weights below \<open>d\<close> changes.\<close>

lemma add_dep_weight_ok:
  "in_i32 (sum_dep_weight (str t d) + w) \<Longrightarrow>
     add_dep_weight t d w = Inr (upd t d (\<lambda>x. x\<lparr>sum_dep_weight := sum_dep_weight x + w\<rparr>))"
  by (simp add: add_dep_weight_def upd_def)

section \<open>Adding a stream or a subtree\<close>

definition abs_add :: "dep \<Rightarrow> nat \<Rightarrow> nat \<Rightarrow> dep" where
  "abs_add f d s = f\<lparr>children := (children f)(d := s # children f d)\<rparr>"

text \<open>\<open>s\<close> is a root and \<open>d\<close> is not below it.\<close>

definition apart :: "nat set \<Rightarrow> dtree \<Rightarrow> nat \<Rightarrow> nat \<Rightarrow> bool" where
  "apart V t d s \<longleftrightarrow> d \<in> V \<and> s \<in> V \<and> dep_prev (str t s) = None \<and> \<not> at_or_below V t s d"

lemma apartD:
  assumes "apart V t d s"
  shows "d \<in> V" "s \<in> V" "s \<noteq> d" "dep_prev (str t s) = None" "s \<notin> insert d (anc (par_of V (str t)) d)"
  using assms by (auto simp: apart_def at_or_below_def)

definition add_links :: "dtree \<Rightarrow> nat \<Rightarrow> nat \<Rightarrow> dtree res" where
  "add_links t d s = (if dep_next (str t d) = None then Inr (link_dep t d (Some s)) else insert_link_dep t d s)"

lemma add_links_ok:
  assumes forest: "forest V ch (str t)" and V: "d \<in> V" "s \<in> V" "s \<noteq> d" "dep_prev (str t s) = None"
  shows "\<exists>t'. add_links t d s = Inr t' \<and> relinked t t' \<and> forest V (ch(d := s # ch d)) (str t') \<and>
    par_of V (str t') = (par_of V (str t))(s := Some d)"
proof -
  note root = forestD(5) [OF forest V(2,4)] and kin = forestD(3) [OF forest V(1)]
  have head: "dep_next (str t d) = first_or None (ch d)" using kinD(1) [OF kin] .
  define t' where "t' = (if ch d = [] then link_dep t d (Some s)
    else link_dep (link_sib t s (first_or None (ch d))) d (Some s))"
  have eq: "add_links t d s = Inr t'"
    using head root by (cases "ch d") (simp_all add: add_links_def t'_def insert_link_dep_def)
  have rel: "relinked t t'"
    using relinked_trans [OF relinked_link_sib relinked_link_dep] relinked_link_dep by (simp add: t'_def)
  have dp: "dep_prev (str t' x) = (if x = s then Some d else dep_prev (str t x))" for x
    using V(3) by (cases "ch d") (auto simp: t'_def link_dep_def link_sib_def Let_def)
  have "forest V (ch(d := s # ch d)) (str t')"
  proof (rule forest_add [OF forest V dp])
    show "dep_next (str t' x) = (if x = d then Some s else dep_next (str t x))" for x
      using V(3) by (cases "ch d") (auto simp: t'_def link_dep_def link_sib_def Let_def)
    show "sib_next (str t' x) = (if x = s then first_or None (ch d) else sib_next (str t x))" for x
      using V(3) root by (cases "ch d") (auto simp: t'_def link_dep_def link_sib_def Let_def)
    show "sib_prev (str t' x) = (if ch d \<noteq> [] \<and> x = hd (ch d) then Some s else sib_prev (str t x))" for x
      using V(3) by (cases "ch d") (auto simp: t'_def link_dep_def link_sib_def Let_def)
  qed
  moreover have "par_of V (str t') = (par_of V (str t))(s := Some d)"
    using V(2) by (auto simp: par_of_def dp)
  ultimately show ?thesis using eq rel by blast
qed

lemma forest_same:
  assumes "\<And>x. dep_prev (st' x) = dep_prev (st x) \<and> dep_next (st' x) = dep_next (st x) \<and>
    sib_prev (st' x) = sib_prev (st x) \<and> sib_next (st' x) = sib_next (st x)"
  shows "forest V ch st' = forest V ch st"
proof -
  have "kin st' a xs = kin st a xs" for a xs by (rule kin_cong) (simp_all add: assms)
  then show ?thesis by (simp add: forest_def assms)
qed

lemma par_of_same: "(\<And>x. dep_prev (st' x) = dep_prev (st x)) \<Longrightarrow> par_of V st' = par_of V st"
  by (simp add: par_of_def fun_eq_iff)

lemma represents_final:
  assumes "forest V (children f) (str t2)" "same_core (str t2) (str t3)" "card V \<le> 2 ^ 21"
    and "sched V (par_of V (str t2)) {} {} t3"
    and "\<And>a. a \<in> V \<Longrightarrow> weight (str t2 a) = weights f a \<and> items f a = (item (str t2 a), flags (str t2 a)) \<and>
        sum_dep_weight (str t2 a) = sum_list (map (weights f) (children f a))"
  shows "represents V f t3"
proof -
  have "item (str t3 a) = item (str t2 a)" "flags (str t3 a) = flags (str t2 a)" for a
    using core_fields(7,8) [of "str t3 a" "str t2 a"] assms(2) by (simp_all add: same_core_def)
  then show ?thesis
    using assms forest_core [OF assms(2)] par_of_core [OF assms(2)]
    by (simp add: represents_def dep_sched_def same_coreD [OF assms(2)])
qed

lemma sum_bounds:
  assumes "represents V f t" "a \<in> V"
  shows "0 \<le> sum_dep_weight (str t a)" "sum_dep_weight (str t a) \<le> 2 ^ 29"
  using children_sum [OF assms] representsD(7) [OF assms] by simp_all

lemma sum_step_i32:
  "represents V f t \<Longrightarrow> a \<in> V \<Longrightarrow> \<bar>w\<bar> \<le> 2 ^ 30 \<Longrightarrow> in_i32 (sum_dep_weight (str t a) + w)"
  using sum_bounds [of V f t a] by (auto simp: i32_range abs_le_iff)

lemma added:
  assumes ok: "represents V f t" and ap: "apart V t d s"
  obtains t2 where "rbind (add_dep_weight t d (weight (str t s))) (\<lambda>t1. add_links t1 d s) = Inr t2"
    "relinked (upd t d (\<lambda>x. x\<lparr>sum_dep_weight := sum_dep_weight x + weight (str t s)\<rparr>)) t2"
    "forest V (children (abs_add f d s)) (str t2)"
    "par_of V (str t2) = (par_of V (str t))(s := Some d)"
    "sched V (par_of V (str t2)) {s} {} t2" "\<not> queued (str t2 s)"
proof -
  note a = apartD [OF ap]
  let ?par = "par_of V (str t)"
  define t1 where "t1 = upd t d (\<lambda>x. x\<lparr>sum_dep_weight := sum_dep_weight x + weight (str t s)\<rparr>)"
  note sok = dep_schedD [OF representsD(2) [OF ok]]
  have "in_i32 (sum_dep_weight (str t d) + weight (str t s))"
    using sum_step_i32 [OF ok a(1)] weights_range [OF ok a(2)] representsD(5) [OF ok a(2)] by simp
  then have 1: "add_dep_weight t d (weight (str t s)) = Inr t1" unfolding t1_def by (rule add_dep_weight_ok)
  have forest1: "forest V (children f) (str t1)"
    using representsD(1) [OF ok] forest_same [of "str t1" "str t" V "children f"] by (simp add: t1_def)
  have par1: "par_of V (str t1) = ?par" by (rule par_of_same) (simp add: t1_def)
  have root1: "dep_prev (str t1 s) = None" using a by (simp add: t1_def)
  obtain t2 where t2: "add_links t1 d s = Inr t2" "relinked t1 t2"
    "forest V ((children f)(d := s # children f d)) (str t2)" "par_of V (str t2) = ?par(s := Some d)"
    using add_links_ok [OF forest1 a(1-3) root1] par1 by auto
  have "?par s = None" using a by (simp add: par_of_def)
  then have nq: "\<not> queued (str t s)" using schedD(4) [OF sok a(2)] by blast
  then have nq2: "\<not> queued (str t2 s)"
    using payload_fields(5) [OF relinkedD(1) [OF t2(2), of s]] a(3) by (simp add: t1_def)
  have "sched V ?par {} {} t1" unfolding t1_def using sok by (rule sched_links) (simp_all add: stream_active_def)
  then have "sched V ?par {} {} t2" using t2(2) by (rule sched_relinked)
  then have "sched V (?par(s := Some d)) {s} {} t2"
    using sched_reparent [OF _ a(2) nq2 parents_ok_Some [OF schedD(1) [OF sok] a(2,1,5)]] by simp
  then show ?thesis
    using that [of t2] 1 t2 nq2 by (simp add: t1_def abs_add_def)
qed

lemma added_fields:
  assumes ok: "represents V f t" and ap: "apart V t d s" and a: "a \<in> V"
    and rel: "relinked (upd t d (\<lambda>x. x\<lparr>sum_dep_weight := sum_dep_weight x + weight (str t s)\<rparr>)) t2"
  shows "weight (str t2 a) = weights (abs_add f d s) a \<and>
    items (abs_add f d s) a = (item (str t2 a), flags (str t2 a)) \<and>
    sum_dep_weight (str t2 a) = sum_list (map (weights (abs_add f d s)) (children (abs_add f d s) a))"
  using payload_fields [OF relinkedD(1) [OF rel, of a]] representsD(5,6,7) [OF ok a]
    representsD(5) [OF ok apartD(2) [OF ap]] apartD(3) [OF ap]
  by (cases "a = d") (simp_all add: abs_add_def stream_active_def)

lemma dep_add_ok:
  assumes ok: "represents V f t" and ap: "apart V t d s" and idle: "\<not> subtree_active t s"
  shows "\<exists>t'. nghttp2_stream_dep_add t d s = Inr t' \<and> represents V (abs_add f d s) t'"
proof -
  note sok = dep_schedD [OF representsD(2) [OF ok]] and a = apartD [OF ap]
  obtain t2 where t2: "rbind (add_dep_weight t d (weight (str t s))) (\<lambda>t1. add_links t1 d s) = Inr t2"
    "relinked (upd t d (\<lambda>x. x\<lparr>sum_dep_weight := sum_dep_weight x + weight (str t s)\<rparr>)) t2"
    "forest V (children (abs_add f d s)) (str t2)" "sched V (par_of V (str t2)) {s} {} t2"
    by (rule added [OF ok ap])
  have "subtree_active t2 s = subtree_active t s"
    using payload_fields(6) [OF relinkedD(1) [OF t2(2), of s]] relinkedD(2,3) [OF t2(2)]
    by (simp add: subtree_active_def stream_subtree_active_def obq_of_def stream_active_def)
  then have "\<not> busy V (par_of V (str t2)) (str t2) s"
    using idle subtree_active_busy [OF schedD(3) [OF t2(4)] a(2)] by simp
  then have "sched V (par_of V (str t2)) {} {} t2" using sched_less_N [OF t2(4)] by blast
  then have "represents V (abs_add f d s) t2"
    by (rule represents_final [OF t2(3) same_core_refl representsD(3) [OF ok]])
      (rule added_fields [OF ok ap _ t2(2)])
  then show ?thesis using t2(1) by (simp add: nghttp2_stream_dep_add_def add_links_def)
qed

text \<open>Queueing a stream that has just been linked.\<close>

lemma push_linked:
  assumes ok: "sched V par {s} B t" and s: "s \<in> V" "par s = Some d"
    and links: "\<And>a. a \<in> anc par s \<Longrightarrow> dep_prev (str t a) = par a" and n: "card V \<le> n"
    and B: "B = {} \<or> B = {d} \<and> owed V par t d s"
  shows "gives (if subtree_active t s then stream_obq_push alloc n t (Some d) s else Inr (t, None))
    (\<lambda>t'. same_core (str t) (str t') \<and> sched V par {} {} t')"
proof -
  note act = subtree_active_busy [OF schedD(3) [OF ok] s(1)]
  show ?thesis
  proof (cases "busy V par (str t) s")
    case True
    have few: "card (anc par s) \<le> n" using anc_card_less [OF schedD(1) [OF ok] s(1)] n by simp
    have "gives (stream_obq_push alloc n t (par s) s)
        (\<lambda>t'. same_core (str t) (str t') \<and> pushed V par {} B s t t')"
      using obq_push_ok [OF ok s(1) True links few, where alloc = alloc]
      by (simp add: empty_Diff cong: if_cong)
    then have "gives (stream_obq_push alloc n t (par s) s)
        (\<lambda>t'. same_core (str t) (str t') \<and> sched V par {} {} t')"
    proof (rule gives_mono)
      fix t' assume t': "same_core (str t) (str t') \<and> pushed V par {} B s t t'"
      then have "queued (str t' s)" using s(2) by (simp add: pushed_def)
      then have "busy V par (str t') d" using kid_busy [of s V par d "str t'"] s by simp
      then have "sched V par {} {} t'"
        using t' B sched_less_B [of V par "{}" d t'] by (auto simp: pushed_def)
      then show "same_core (str t) (str t') \<and> sched V par {} {} t'" using t' by simp
    qed
    then show ?thesis using True act s(2) by simp
  next
    case False
    then have "kids V par (str t) s = {}" by (simp add: busy_def)
    then have "sched V par {s} {} t"
      using B ok sched_less_B [of V par "{s}" d t] by (auto simp: owed_def)
    then show ?thesis using False act sched_less_N [of V par s "{}" "{}" t] by simp
  qed
qed

lemma dep_add_subtree_ok:
  assumes ok: "represents V f t" and ap: "apart V t d s" and n: "card V \<le> n"
  shows "gives (nghttp2_stream_dep_add_subtree alloc n t d s) (represents V (abs_add f d s))"
proof -
  note a = apartD [OF ap]
  obtain t2 where t2: "rbind (add_dep_weight t d (weight (str t s))) (\<lambda>t1. add_links t1 d s) = Inr t2"
    "relinked (upd t d (\<lambda>x. x\<lparr>sum_dep_weight := sum_dep_weight x + weight (str t s)\<rparr>)) t2"
    "forest V (children (abs_add f d s)) (str t2)" "par_of V (str t2) = (par_of V (str t))(s := Some d)"
    "sched V (par_of V (str t2)) {s} {} t2"
    by (rule added [OF ok ap])
  have link: "dep_prev (str t2 s) = Some d"
    using fun_cong [OF t2(4), of s] a(2) by (simp add: par_of_def)
  have "gives (if subtree_active t2 s then stream_obq_push alloc n t2 (Some d) s else Inr (t2, None))
      (\<lambda>t'. same_core (str t2) (str t') \<and> sched V (par_of V (str t2)) {} {} t')"
    using link a(2) par_of_anc [OF schedD(1) [OF t2(5)]] n
    by (intro push_linked [OF t2(5) a(2)]) (simp_all add: par_of_def)
  then have "gives (if subtree_active t2 s then stream_obq_push alloc n t2 (Some d) s else Inr (t2, None))
      (represents V (abs_add f d s))"
    by (rule gives_mono)
      (use represents_final [OF t2(3) _ representsD(3) [OF ok]] added_fields [OF ok ap _ t2(2)] in blast)
  moreover obtain t1 where "add_dep_weight t d (weight (str t s)) = Inr t1" "add_links t1 d s = Inr t2"
    using t2(1) by (auto simp: rbind_eq_Inr_iff)
  then have "nghttp2_stream_dep_add_subtree alloc n t d s =
      (if subtree_active t2 s then stream_obq_push alloc n t2 (Some d) s else Inr (t2, None))"
    by (cases "dep_next (str t1 d)") (simp_all add: nghttp2_stream_dep_add_subtree_def add_links_def)
  ultimately show ?thesis by simp
qed

section \<open>Inserting a stream or a subtree\<close>

definition abs_insert :: "dep \<Rightarrow> nat \<Rightarrow> nat \<Rightarrow> dep" where
  "abs_insert f d s = f\<lparr>children := (children f)(s := children f s @ children f d, d := [s])\<rparr>"

lemma last_sib_ok:
  "chain (str t) p xs None \<Longrightarrow> xs \<noteq> [] \<Longrightarrow> length xs \<le> n \<Longrightarrow> stream_last_sib n t (hd xs) = Inr (last xs)"
proof (induction xs arbitrary: p n)
  case (Cons x xs)
  then obtain n' where n': "n = Suc n'" by (cases n) auto
  show ?case
  proof (cases xs)
    case (Cons y ys)
    then show ?thesis using Cons.IH [of "Some x" n'] Cons.prems n' by simp
  qed (use Cons.prems n' in simp)
qed simp

text \<open>The sums of \<open>d\<close> and \<open>s\<close>.\<close>

definition insert_sums :: "dtree \<Rightarrow> nat \<Rightarrow> nat \<Rightarrow> dtree" where
  "insert_sums t d s = upd (upd t s (\<lambda>x. x\<lparr>sum_dep_weight := sum_dep_weight x + sum_dep_weight (str t d)\<rparr>))
     d (\<lambda>x. x\<lparr>sum_dep_weight := weight (str t s)\<rparr>)"

lemma insert_sums_fields [simp]:
  "dep_prev (str (insert_sums t d s) x) = dep_prev (str t x)"
  "dep_next (str (insert_sums t d s) x) = dep_next (str t x)"
  "sib_prev (str (insert_sums t d s) x) = sib_prev (str t x)"
  "sib_next (str (insert_sums t d s) x) = sib_next (str t x)"
  "weight (str (insert_sums t d s) x) = weight (str t x)"
  "item (str (insert_sums t d s) x) = item (str t x)"
  "flags (str (insert_sums t d s) x) = flags (str t x)"
  by (simp_all add: insert_sums_def)

lemma insert_sums_sched: "sched V par N B t \<Longrightarrow> sched V par N B (insert_sums t d s)"
  unfolding insert_sums_def by (intro sched_links) (simp_all add: stream_active_def)

definition same_info :: "stream \<Rightarrow> stream \<Rightarrow> bool" where
  "same_info x y \<longleftrightarrow> weight x = weight y \<and> sum_dep_weight x = sum_dep_weight y \<and> item x = item y \<and>
     flags x = flags y"

lemma same_info_core: "core x = core y \<Longrightarrow> same_info x y"
  using core_fields [of x y] by (simp add: same_info_def)

lemma same_info_payload: "payload x = payload y \<Longrightarrow> same_info x y"
  using payload_fields [of x y] by (simp add: same_info_def)

lemma same_info_trans: "same_info x y \<Longrightarrow> same_info y z \<Longrightarrow> same_info x z"
  by (simp add: same_info_def)

lemma same_info_parent: "same_info (with_parent st xs s a) (st a)"
  by (simp add: same_info_def with_parent_def)

lemma inserted_fields:
  assumes ok: "represents V f t" and ap: "apart V t d s" and a: "a \<in> V"
    and same: "same_info (str t2 a) (str (insert_sums t d s) a)"
  shows "weight (str t2 a) = weights (abs_insert f d s) a \<and>
    items (abs_insert f d s) a = (item (str t2 a), flags (str t2 a)) \<and>
    sum_dep_weight (str t2 a) = sum_list (map (weights (abs_insert f d s)) (children (abs_insert f d s) a))"
proof -
  have "sum_dep_weight (str (insert_sums t d s) a) =
      (if a = d then weights f s else if a = s then sum_list (map (weights f) (children f s @ children f d))
       else sum_list (map (weights f) (children f a)))"
    using representsD(7) [OF ok] representsD(5) [OF ok] apartD(1-3) [OF ap] a by (simp add: insert_sums_def)
  then show ?thesis
    using same representsD(5,6) [OF ok a] apartD(3) [OF ap]
    by (simp add: abs_insert_def same_info_def)
qed

text \<open>The schedule while the children of \<open>d\<close> move to \<open>s\<close>; the parent of \<open>s\<close> is \<open>p\<close>, not yet linked or
  already \<open>d\<close>.\<close>

lemma adopt_all:
  assumes ok: "represents V f t" and ap: "apart V t d s"
    and t4: "sched V (par_of V (str t)) {} {} t4" and p: "p = None \<or> p = Some d"
    and chain4: "chain (str t4) l (children f d) None"
    and links: "dep_prev (str t4 s) = p" "\<And>a. a \<in> insert d (anc (par_of V (str t)) d) \<Longrightarrow>
      dep_prev (str t4 a) = dep_prev (str t a)"
    and n: "card V \<le> n"
  defines "par5 \<equiv> \<lambda>x. if x \<in> set (children f d) then Some s else ((par_of V (str t))(s := p)) x"
  shows "gives (adopt_loop alloc n n t4 d s (first_or None (children f d)))
    (\<lambda>t5. sched V par5 {s} {d} t5 \<and> owed V par5 t5 d s \<and>
       same_core (with_parent (str t4) (children f d) s) (str t5) \<and> \<not> (p = None \<and> queued (str t5 s)))"
proof -
  let ?par = "par_of V (str t)"
  note a = apartD [OF ap] and forest = representsD(1) [OF ok]
  note pok = schedD(1) [OF t4]
  have "?par s = None" using a by (simp add: par_of_def)
  then have nq: "\<not> queued (str t4 s)" using schedD(4) [OF t4 a(2)] by blast
  have par1: "parents_ok V (?par(s := p))"
    using p parents_ok_Some [OF pok a(2,1,5)] parents_ok_None [OF pok, of s] by auto
  have anc_d: "anc (?par(s := p)) d = anc ?par d" by (rule anc_upd) (rule a(5))
  have ok4: "sched V (?par(s := p)) {s} {d} t4"
    using sched_mono [OF sched_reparent [OF t4 a(2) nq par1]] by auto
  have owed4: "owed V (?par(s := p)) t4 d s"
  proof -
    have "busy V (?par(s := p)) (str t4) d = busy V ?par (str t4) d"
      using kids_reparent [of "str t4" s] nq by (simp add: busy_def)
    then show ?thesis using schedD(6) [OF t4 a(1)] by (simp add: owed_def)
  qed
  have kids: "x \<in> V \<and> (?par(s := p)) x = Some d \<and> x \<noteq> s" if "x \<in> set (children f d)" for x
    using forestD(1) [OF forest a(1)] forest_parent [OF forest a(1) that] that a(4) by (auto simp: par_of_def)
  have links4: "dep_prev (str t4 x) = (?par(s := p)) x" if "x \<in> insert s (anc (?par(s := p)) s)" for x
  proof (cases "x = s")
    case False
    then have "p = Some d" "x \<in> insert d (anc ?par d)"
      using that p anc_None [of "?par(s := p)" s] anc_Some [of "?par(s := p)" s d] anc_d by auto
    then show ?thesis using links(2) [of x] par_of_anc [OF pok, of x d] a(1) False
      by (auto simp: par_of_def)
  qed (simp add: links)
  have len: "length (children f d) \<le> n" using children_sum(3) [OF ok a(1)] n by simp
  have "gives (adopt_loop alloc n n t4 d s (first_or None (children f d)))
    (\<lambda>t5. sched V (\<lambda>x. if x \<in> set (children f d) then Some s else (?par(s := p)) x) {s} {d} t5 \<and>
       owed V (\<lambda>x. if x \<in> set (children f d) then Some s else (?par(s := p)) x) t5 d s \<and>
       same_core (with_parent (str t4) (children f d) s) (str t5))"
    using p by (intro adopt_loop_ok [OF ok4 subset_refl a(1,2) _ kids forestD(2) [OF forest a(1)] chain4 _ links4 owed4 len n])
      (use a(3) in auto)
  then show ?thesis unfolding par5_def
  proof (rule gives_mono)
    fix t5
    assume t5: "sched V (\<lambda>x. if x \<in> set (children f d) then Some s else (?par(s := p)) x) {s} {d} t5 \<and>
       owed V (\<lambda>x. if x \<in> set (children f d) then Some s else (?par(s := p)) x) t5 d s \<and>
       same_core (with_parent (str t4) (children f d) s) (str t5)"
    have "s \<notin> set (children f d)" using kids [of s] by auto
    then have "\<not> (p = None \<and> queued (str t5 s))" using t5 schedD(4) [of V _ "{s}" "{d}" t5 s] a(2) by fastforce
    then show "sched V (\<lambda>x. if x \<in> set (children f d) then Some s else (?par(s := p)) x) {s} {d} t5 \<and>
       owed V (\<lambda>x. if x \<in> set (children f d) then Some s else (?par(s := p)) x) t5 d s \<and>
       same_core (with_parent (str t4) (children f d) s) (str t5) \<and> \<not> (p = None \<and> queued (str t5 s))"
      using t5 by blast
  qed
qed

text \<open>The links after an insertion, read off the lists of children.\<close>

lemma adopted_links:
  assumes ok: "represents V f t" and ap: "apart V t d s"
    and dp: "\<And>x. dep_prev (st' x) = (if x = s then Some d else if x \<in> set (children f d) then Some s
                                       else dep_prev (str t x))"
    and dn: "\<And>x. dep_next (st' x) = (if x = d then Some s
       else if x = s then first_or None (children f s @ children f d) else dep_next (str t x))"
    and sn: "\<And>x. sib_next (st' x) = (if children f s \<noteq> [] \<and> children f d \<noteq> [] \<and> x = last (children f s)
       then first_or None (children f d) else sib_next (str t x))"
    and sp: "\<And>x. sib_prev (st' x) = (if children f s \<noteq> [] \<and> children f d \<noteq> [] \<and> x = hd (children f d)
       then last_or None (children f s) else sib_prev (str t x))"
  shows "forest V (children (abs_insert f d s)) st'"
    "par_of V st' = (\<lambda>x. if x \<in> set (children f d) then Some s else ((par_of V (str t))(s := Some d)) x)"
proof -
  note a = apartD [OF ap] and forest = representsD(1) [OF ok]
  show "forest V (children (abs_insert f d s)) st'"
    using forest_adopt [OF forest a(1-4) dp dn sn sp] by (simp add: abs_insert_def)
  have "s \<notin> set (children f d)" using forest_parent [OF forest a(1), of s] a(4) by auto
  then show "par_of V st' = (\<lambda>x. if x \<in> set (children f d) then Some s else ((par_of V (str t))(s := Some d)) x)"
    using forestD(1) [OF forest a(1)] a(2) by (auto simp: par_of_def dp fun_eq_iff)
qed

text \<open>After the children have moved, \<open>s\<close> is queued at \<open>d\<close>.\<close>

lemma push_adopter:
  assumes ok: "represents V f t" and ap: "apart V t d s"
    and t4: "\<And>a. a \<in> insert d (anc (par_of V (str t)) d) \<Longrightarrow> dep_prev (str t4 a) = dep_prev (str t a)"
    and core5: "same_core (with_parent (str t4) (children f d) s) (str t5)"
    and p: "p = Some d \<or> p = None \<and> \<not> queued (str t5 s)"
    and t5: "sched V (\<lambda>x. if x \<in> set (children f d) then Some s else ((par_of V (str t))(s := p)) x) {s} {d} t5"
      "owed V (\<lambda>x. if x \<in> set (children f d) then Some s else ((par_of V (str t))(s := p)) x) t5 d s"
    and n: "card V \<le> n"
  shows "gives (if subtree_active t5 s then stream_obq_push alloc n t5 (Some d) s else Inr (t5, None))
    (\<lambda>t'. same_core (str t5) (str t') \<and>
       sched V (\<lambda>x. if x \<in> set (children f d) then Some s else ((par_of V (str t))(s := Some d)) x) {} {} t')"
proof -
  let ?par = "par_of V (str t)"
  let ?par5 = "\<lambda>x. if x \<in> set (children f d) then Some s else (?par(s := p)) x"
  let ?par6 = "\<lambda>x. if x \<in> set (children f d) then Some s else (?par(s := Some d)) x"
  note a = apartD [OF ap] and forest = representsD(1) [OF ok]
  note pok = schedD(1) [OF dep_schedD [OF representsD(2) [OF ok]]]
  have s_out: "s \<notin> set (children f d)" using forest_parent [OF forest a(1), of s] a(4) by auto
  then have eq: "?par6 = ?par5(s := Some d)" by (auto simp: fun_eq_iff)
  have not_kid: "x \<notin> set (children f d)" if "x \<in> insert d (anc ?par d)" for x
  proof
    assume x: "x \<in> set (children f d)"
    have "?par x = Some d" using forestD(1) [OF forest a(1)] forest_parent [OF forest a(1) x] x
      by (auto simp: par_of_def)
    then show False using child_not_anc [OF pok, of x d] that by simp
  qed
  have not_s: "x \<noteq> s" if "x \<in> insert d (anc ?par d)" for x using a(5) that by auto
  have anc5: "anc ?par5 d = anc ?par d" by (rule anc_cong) (use not_kid not_s in auto)
  have anc6: "anc ?par6 d = anc ?par d" by (rule anc_cong) (use not_kid not_s in auto)
  have ok6: "sched V ?par6 {s} {d} t5" and owed6: "owed V ?par6 t5 d s"
  proof -
    show "sched V ?par6 {s} {d} t5"
    proof (cases "p = Some d")
      case False
      then have nq: "\<not> queued (str t5 s)" using p by simp
      have "parents_ok V ?par6"
        unfolding eq by (rule parents_ok_Some [OF schedD(1) [OF t5(1)] a(2,1)]) (use a(5) anc5 in simp)
      then show ?thesis using sched_reparent [OF t5(1) a(2) nq, of "Some d"] eq by simp
    next
      case True
      show ?thesis using t5(1) unfolding True .
    qed
    show "owed V ?par6 t5 d s"
    proof (cases "p = Some d")
      case False
      then have "kids V ?par6 (str t5) x = kids V ?par5 (str t5) x" for x
        using kids_reparent [of "str t5" s V ?par5 "Some d" x] p eq by simp
      then show ?thesis using t5(2) by (simp add: owed_def busy_def)
    next
      case True
      show ?thesis using t5(2) unfolding True .
    qed
  qed
  have par6: "?par6 s = Some d" using s_out by simp
  have link: "dep_prev (str t5 x) = ?par6 x" if "x \<in> anc ?par6 s" for x
  proof -
    have x: "x \<in> insert d (anc ?par d)" using that anc_Some [of ?par6 s d, OF par6] anc6 by simp
    have "dep_prev (str t5 x) = dep_prev (str t x)"
      using same_coreD(1) [OF core5, of x] not_kid [OF x] t4 [OF x] by (simp add: with_parent_def)
    moreover have "dep_prev (str t x) = ?par x"
      using x par_of_anc [OF pok, of x d] a(1) by (auto simp: par_of_def)
    ultimately show ?thesis using not_kid [OF x] not_s [OF x] by simp
  qed
  show ?thesis
    by (rule push_linked [OF ok6 a(2) par6 _ n]) (use link owed6 in blast)+
qed

lemma dep_insert_ok:
  assumes ok: "represents V f t" and ap: "apart V t d s" and fresh: "children f s = []"
    and idle: "\<not> subtree_active t s" and n: "card V \<le> n"
  shows "gives (nghttp2_stream_dep_insert alloc n t d s) (represents V (abs_insert f d s))"
proof -
  let ?par = "par_of V (str t)" and ?cs = "children f d"
  let ?par6 = "\<lambda>x. if x \<in> set ?cs then Some s else (?par(s := Some d)) x"
  note a = apartD [OF ap] and forest = representsD(1) [OF ok]
  note sok = dep_schedD [OF representsD(2) [OF ok]]
  have kin: "dep_next (str t d) = first_or None ?cs" "chain (str t) None ?cs None"
    "dep_next (str t s) = None"
    using kinD [OF forestD(3) [OF forest a(1)]] kinD(1) [OF forestD(3) [OF forest a(2)]] fresh by simp_all
  have s_out: "s \<notin> set ?cs" using forest_parent [OF forest a(1), of s] a(4) by auto
  define t2 where "t2 = insert_sums t d s"
  define linked where "linked = (\<lambda>t. upd (upd t d (\<lambda>x. x\<lparr>dep_next := Some s\<rparr>)) s (\<lambda>x. x\<lparr>dep_prev := Some d\<rparr>))"
  have sums: "upd (upd t s (\<lambda>x. x\<lparr>sum_dep_weight := sum_dep_weight (str t d)\<rparr>)) d
      (\<lambda>x. x\<lparr>sum_dep_weight := weight (str (upd t s (\<lambda>x. x\<lparr>sum_dep_weight := sum_dep_weight (str t d)\<rparr>)) s)\<rparr>) = t2"
    using representsD(7) [OF ok a(2)] fresh by (simp add: t2_def insert_sums_def upd_def)
  have ok2: "sched V ?par {} {} t2" unfolding t2_def using sok by (rule insert_sums_sched)
  have finish: "represents V (abs_insert f d s) t7"
    if forest7: "forest V (children (abs_insert f d s)) (str t7)" "par_of V (str t7) = ?par6"
      and s7: "sched V ?par6 {} {} t7" and i7: "\<And>x. same_info (str t7 x) (str t2 x)" for t7
  proof (rule represents_final [OF forest7(1) same_core_refl representsD(3) [OF ok]])
    show "sched V (par_of V (str t7)) {} {} t7" using s7 forest7(2) by simp
  qed (rule inserted_fields [OF ok ap _ i7 [unfolded t2_def]])
  show ?thesis
  proof (cases "?cs = []")
    case True
    have "nghttp2_stream_dep_insert alloc n t d s = Inr (linked t2, None)"
      using kin(1) True unfolding nghttp2_stream_dep_insert_def Let_def sums
      by (simp add: t2_def linked_def)
    moreover have "represents V (abs_insert f d s) (linked t2)"
    proof (rule finish)
      have s_links: "sib_next (str t s) = None" "sib_prev (str t s) = None"
        using forestD(5) [OF forest a(2,4)] by simp_all
      show "forest V (children (abs_insert f d s)) (str (linked t2))" "par_of V (str (linked t2)) = ?par6"
        by (rule adopted_links [OF ok ap]; use a(3) True fresh kin in \<open>simp add: linked_def t2_def\<close>)+
      have nq: "\<not> queued (str t2 s)" using schedD(4) [OF ok2 a(2)] a(2,4) by (auto simp: par_of_def)
      have "sched V (?par(s := Some d)) {s} {} t2"
        using sched_reparent [OF ok2 a(2) nq parents_ok_Some [OF schedD(1) [OF sok] a(2,1,5)]] by simp
      moreover have "\<not> busy V (?par(s := Some d)) (str t2) s"
      proof -
        have "subtree_active t2 s = subtree_active t s"
          using a(3) by (simp add: subtree_active_def stream_subtree_active_def stream_active_def t2_def
              insert_sums_def)
        then show ?thesis
          using idle subtree_active_busy [OF schedD(3) [OF ok2] a(2)] kids_reparent [of "str t2" s] nq
          by (simp add: busy_def)
      qed
      ultimately have "sched V (?par(s := Some d)) {} {} t2" using sched_less_N by blast
      then show "sched V ?par6 {} {} (linked t2)"
        unfolding linked_def True by (intro sched_links) (simp_all add: stream_active_def fun_upd_def)
      show "same_info (str (linked t2) x) (str t2 x)" for x by (simp add: linked_def same_info_def)
    qed
    ultimately show ?thesis by simp
  next
    case False
    let ?par5 = "\<lambda>x. if x \<in> set ?cs then Some s else (?par(s := None)) x"
    have chain2: "chain (str t2) None ?cs None"
      using kin(2) chain_cong [of ?cs "str t2" "str t" None None] by (simp add: t2_def)
    have root: "dep_prev (str t2 s) = None" using a(4) by (simp add: t2_def)
    have adopt: "gives (adopt_loop alloc n n t2 d s (first_or None ?cs))
      (\<lambda>t5. sched V ?par5 {s} {d} t5 \<and> owed V ?par5 t5 d s \<and>
         same_core (with_parent (str t2) ?cs s) (str t5) \<and> \<not> (None = (None :: nat option) \<and> queued (str t5 s)))"
      by (rule adopt_all [OF ok ap ok2 _ chain2 root _ n]) (simp_all add: t2_def)
    have eq: "nghttp2_stream_dep_insert alloc n t d s =
      and_ok (adopt_loop alloc n n t2 d s (first_or None ?cs)) (\<lambda>t3.
        and_ok (if subtree_active t3 s then stream_obq_push alloc n t3 (Some d) s else Inr (t3, None))
          (\<lambda>t4. Inr (linked (upd t4 s (\<lambda>x. x\<lparr>dep_next := dep_next (str t4 d)\<rparr>)), None)))"
      using kin(1) False unfolding nghttp2_stream_dep_insert_def Let_def sums
      by (cases ?cs) (simp_all add: t2_def linked_def)
    show ?thesis unfolding eq
    proof (rule gives_and_ok [OF adopt])
      fix t5
      assume t5: "sched V ?par5 {s} {d} t5 \<and> owed V ?par5 t5 d s \<and>
         same_core (with_parent (str t2) ?cs s) (str t5) \<and> \<not> (None = (None :: nat option) \<and> queued (str t5 s))"
      have push: "gives (if subtree_active t5 s then stream_obq_push alloc n t5 (Some d) s else Inr (t5, None))
        (\<lambda>t'. same_core (str t5) (str t') \<and> sched V ?par6 {} {} t')"
        using t5 by (intro push_adopter [OF ok ap, of t2 t5 None]) (simp_all add: t2_def n)
      show "gives (and_ok (if subtree_active t5 s then stream_obq_push alloc n t5 (Some d) s else Inr (t5, None))
          (\<lambda>t4. Inr (linked (upd t4 s (\<lambda>x. x\<lparr>dep_next := dep_next (str t4 d)\<rparr>)), None)))
        (represents V (abs_insert f d s))"
      proof (rule gives_and_ok [OF push])
        fix t6 assume t6: "same_core (str t5) (str t6) \<and> sched V ?par6 {} {} t6"
        then have core6: "same_core (with_parent (str t2) ?cs s) (str t6)" and s6: "sched V ?par6 {} {} t6"
          using t5 same_core_trans by blast+
        note c = same_coreD [OF core6]
        define t7 where "t7 = linked (upd t6 s (\<lambda>x. x\<lparr>dep_next := dep_next (str t6 d)\<rparr>))"
        have "represents V (abs_insert f d s) t7"
        proof (rule finish)
          show "forest V (children (abs_insert f d s)) (str t7)" "par_of V (str t7) = ?par6"
            by (rule adopted_links [OF ok ap];
                use a(3) s_out fresh kin in \<open>simp add: t7_def linked_def c with_parent_def t2_def\<close>)+
          show "sched V ?par6 {} {} t7"
            unfolding t7_def linked_def by (intro sched_links s6) (simp_all add: stream_active_def)
          show "same_info (str t7 x) (str t2 x)" for x
          proof -
            have "same_info (str t7 x) (str t6 x)" by (simp add: t7_def linked_def same_info_def)
            moreover have "same_info (str t6 x) (with_parent (str t2) ?cs s x)"
              using core6 by (intro same_info_core) (simp add: same_core_def)
            ultimately show ?thesis using same_info_parent same_info_trans by blast
          qed
        qed
        then show "gives (Inr (linked (upd t6 s (\<lambda>x. x\<lparr>dep_next := dep_next (str t6 d)\<rparr>)), None))
            (represents V (abs_insert f d s))" by (simp add: t7_def)
      qed
    qed
  qed
qed

text \<open>The links set before the children move: those of \<open>s\<close> and the joint of the two lists.\<close>

definition join_links :: "nat \<Rightarrow> dtree \<Rightarrow> nat \<Rightarrow> nat \<Rightarrow> nat \<Rightarrow> dtree res" where
  "join_links n t d s first =
     (let t3 = link_dep t d (Some s)
      in case dep_next (str t3 s) of
           Some c \<Rightarrow> rbind (stream_last_sib n t3 c) (\<lambda>l. Inr (link_sib t3 l (Some first)))
         | None \<Rightarrow> Inr (link_dep t3 s (Some first)))"

lemma join_links_ok:
  assumes forest: "forest V ch (str t)" and V: "d \<in> V" "s \<in> V" "s \<noteq> d" "dep_prev (str t s) = None"
    and first: "ch d \<noteq> []" and n: "length (ch s) \<le> n"
  obtains t4 where "join_links n t d s (hd (ch d)) = Inr t4" "relinked t t4"
    "\<And>x. dep_prev (str t4 x) = (if x = s then Some d
       else if ch s = [] \<and> x = hd (ch d) then Some s else dep_prev (str t x))"
    "\<And>x. dep_next (str t4 x) = (if x = d then Some s else if x = s then first_or None (ch s @ ch d)
       else dep_next (str t x))"
    "\<And>x. sib_next (str t4 x) = (if ch s \<noteq> [] \<and> x = last (ch s) then Some (hd (ch d)) else sib_next (str t x))"
    "\<And>x. sib_prev (str t4 x) = (if ch s \<noteq> [] \<and> x = hd (ch d) then last_or None (ch s) else sib_prev (str t x))"
proof -
  note kin_s = forestD(3) [OF forest V(2)]
  have head: "dep_next (str t s) = first_or None (ch s)" using kinD(1) [OF kin_s] .
  have s_out: "hd (ch d) \<noteq> s" using forest_parent [OF forest V(1), of s] V(4) hd_in_set [OF first] by auto
  let ?t3 = "link_dep t d (Some s)"
  have sibs: "sib_prev (str ?t3 x) = sib_prev (str t x)" "sib_next (str ?t3 x) = sib_next (str t x)" for x
    by (simp_all add: link_dep_def)
  show ?thesis
  proof (cases "ch s = []")
    case True
    show ?thesis
    proof (rule that [of "link_dep ?t3 s (Some (hd (ch d)))"])
      show "join_links n t d s (hd (ch d)) = Inr (link_dep ?t3 s (Some (hd (ch d))))"
        using head True V(3) by (simp add: join_links_def link_dep_def)
      show "relinked t (link_dep ?t3 s (Some (hd (ch d))))"
        using relinked_trans [OF relinked_link_dep relinked_link_dep] .
    qed (use True V(3) s_out first in \<open>simp_all add: link_dep_def first_or_hd\<close>)
  next
    case False
    have "chain (str ?t3) None (ch s) None"
      using kinD(2) [OF kin_s] chain_cong [of "ch s" "str ?t3" "str t" None None] sibs by simp
    then have last: "stream_last_sib n ?t3 (hd (ch s)) = Inr (last (ch s))"
      using last_sib_ok False n by blast
    show ?thesis
    proof (rule that [of "link_sib ?t3 (last (ch s)) (Some (hd (ch d)))"])
      show "join_links n t d s (hd (ch d)) = Inr (link_sib ?t3 (last (ch s)) (Some (hd (ch d))))"
        using head False V(3) last by (simp add: join_links_def link_dep_def first_or_hd)
      show "relinked t (link_sib ?t3 (last (ch s)) (Some (hd (ch d))))"
        using relinked_trans [OF relinked_link_dep relinked_link_sib] .
    qed (use False V(3) s_out head in \<open>simp_all add: link_dep_def link_sib_def first_or_hd last_or_last\<close>)
  qed
qed

lemma dep_insert_subtree_ok:
  assumes ok: "represents V f t" and ap: "apart V t d s" and n: "card V \<le> n"
  shows "gives (nghttp2_stream_dep_insert_subtree alloc n t d s) (represents V (abs_insert f d s))"
proof -
  let ?par = "par_of V (str t)" and ?cs = "children f d"
  let ?par6 = "\<lambda>x. if x \<in> set ?cs then Some s else (?par(s := Some d)) x"
  note a = apartD [OF ap] and forest = representsD(1) [OF ok]
  note sok = dep_schedD [OF representsD(2) [OF ok]]
  have kin: "dep_next (str t d) = first_or None ?cs" "chain (str t) None ?cs None"
    using kinD [OF forestD(3) [OF forest a(1)]] by simp_all
  have s_out: "s \<notin> set ?cs" using forest_parent [OF forest a(1), of s] a(4) by auto
  define t2 where "t2 = insert_sums t d s"
  have "in_i32 (sum_dep_weight (str t s) + sum_dep_weight (str t d))"
    using sum_step_i32 [OF ok a(2)] sum_bounds [OF ok a(1)] by simp
  then have sums: "add_dep_weight t s (sum_dep_weight (str t d)) =
      Inr (upd t s (\<lambda>x. x\<lparr>sum_dep_weight := sum_dep_weight x + sum_dep_weight (str t d)\<rparr>))"
    by (rule add_dep_weight_ok)
  have t2: "upd (upd t s (\<lambda>x. x\<lparr>sum_dep_weight := sum_dep_weight x + sum_dep_weight (str t d)\<rparr>)) d
      (\<lambda>x. x\<lparr>sum_dep_weight := weight (str (upd t s (\<lambda>x. x\<lparr>sum_dep_weight :=
        sum_dep_weight x + sum_dep_weight (str t d)\<rparr>)) s)\<rparr>) = t2"
    by (simp add: t2_def insert_sums_def)
  have ok2: "sched V ?par {} {} t2" unfolding t2_def using sok by (rule insert_sums_sched)
  have finish: "gives (if subtree_active t5 s then stream_obq_push alloc n t5 (Some d) s else Inr (t5, None))
      (represents V (abs_insert f d s))"
    if forest5: "forest V (children (abs_insert f d s)) (str t5)" "par_of V (str t5) = ?par6"
      and i5: "\<And>x. same_info (str t5 x) (str t2 x)"
      and push: "gives (if subtree_active t5 s then stream_obq_push alloc n t5 (Some d) s else Inr (t5, None))
        (\<lambda>t'. same_core (str t5) (str t') \<and> sched V ?par6 {} {} t')" for t5
    using push
  proof (rule gives_mono)
    fix t' assume t': "same_core (str t5) (str t') \<and> sched V ?par6 {} {} t'"
    show "represents V (abs_insert f d s) t'"
      by (rule represents_final [OF forest5(1) _ representsD(3) [OF ok]])
        (use t' forest5(2) inserted_fields [OF ok ap _ i5 [unfolded t2_def]] in auto)
  qed
  define rest where "rest = (\<lambda>t5. if subtree_active t5 s then stream_obq_push alloc n t5 (Some d) s
    else Inr (t5, None :: nghttp2_error option))"
  have eq: "nghttp2_stream_dep_insert_subtree alloc n t d s =
    and_ok (case dep_next (str t2 d) of
        Some first \<Rightarrow> rbind (join_links n t2 d s first) (\<lambda>t4. adopt_loop alloc n n t4 d s (Some first))
      | None \<Rightarrow> Inr (link_dep t2 d (Some s), None)) rest"
    unfolding nghttp2_stream_dep_insert_subtree_def sums rbind_Inr Let_def t2 rest_def join_links_def ..
  show ?thesis
  proof (cases "?cs = []")
    case True
    let ?t5 = "link_dep t2 d (Some s)"
    have "nghttp2_stream_dep_insert_subtree alloc n t d s = rest ?t5"
      unfolding eq using kin(1) True by (simp add: t2_def and_ok_def)
    moreover have "gives (rest ?t5) (represents V (abs_insert f d s))"
      unfolding rest_def
    proof (rule finish)
      show "forest V (children (abs_insert f d s)) (str ?t5)" "par_of V (str ?t5) = ?par6"
        by (rule adopted_links [OF ok ap];
            use a(3) True kinD(1) [OF forestD(3) [OF forest a(2)]] in \<open>simp add: link_dep_def t2_def\<close>)+
      show "same_info (str ?t5 x) (str t2 x)" for x
        using relinkedD(1) [OF relinked_link_dep] by (rule same_info_payload)
      have ok5: "sched V ?par {} {} ?t5" by (rule sched_relinked [OF ok2 relinked_link_dep])
      have nq: "\<not> queued (str ?t5 s)" using schedD(4) [OF ok5 a(2)] a(2,4) by (auto simp: par_of_def)
      have par6: "?par6 = ?par(s := Some d)" using True by (simp add: fun_eq_iff)
      have ok6: "sched V ?par6 {s} {} ?t5"
        unfolding par6 using sched_reparent [OF ok5 a(2) nq parents_ok_Some [OF schedD(1) [OF sok] a(2,1,5)]]
        by simp
      have anc6: "anc ?par6 d = anc ?par d" unfolding par6 by (rule anc_upd) (rule a(5))
      have s6: "?par6 s = Some d" using s_out by simp
      have links: "dep_prev (str ?t5 x) = ?par6 x" if "x \<in> anc ?par6 s" for x
      proof -
        have x: "x \<in> insert d (anc ?par d)" using that anc_Some [of ?par6 s d, OF s6] anc6 by simp
        then have "x \<noteq> s" using a(5) by auto
        then show ?thesis
          using x par_of_anc [OF schedD(1) [OF sok], of x d] a(1)
          by (auto simp: True link_dep_def t2_def par_of_def)
      qed
      show "gives (if subtree_active ?t5 s then stream_obq_push alloc n ?t5 (Some d) s else Inr (?t5, None))
        (\<lambda>t'. same_core (str ?t5) (str t') \<and> sched V ?par6 {} {} t')"
        by (rule push_linked [OF ok6 a(2) s6 _ n]) (use links in blast)+
    qed
    ultimately show ?thesis by simp
  next
    case False
    let ?par5 = "\<lambda>x. if x \<in> set ?cs then Some s else (?par(s := Some d)) x"
    have forest2: "forest V (children f) (str t2)"
      using forest forest_same [of "str t2" "str t" V "children f"] by (simp add: t2_def)
    have root: "dep_prev (str t2 s) = None" using a(4) by (simp add: t2_def)
    have len: "length (children f s) \<le> n" using children_sum(3) [OF ok a(2)] n by simp
    obtain t4 where t4: "join_links n t2 d s (hd ?cs) = Inr t4" "relinked t2 t4"
      "\<And>x. dep_prev (str t4 x) = (if x = s then Some d
         else if children f s = [] \<and> x = hd ?cs then Some s else dep_prev (str t2 x))"
      "\<And>x. dep_next (str t4 x) = (if x = d then Some s else if x = s then first_or None (children f s @ ?cs)
         else dep_next (str t2 x))"
      "\<And>x. sib_next (str t4 x) = (if children f s \<noteq> [] \<and> x = last (children f s) then Some (hd ?cs)
         else sib_next (str t2 x))"
      "\<And>x. sib_prev (str t4 x) = (if children f s \<noteq> [] \<and> x = hd ?cs then last_or None (children f s)
         else sib_prev (str t2 x))"
      by (rule join_links_ok [OF forest2 a(1-3) root False len]) (rule that)
    have ok4: "sched V ?par {} {} t4" by (rule sched_relinked [OF ok2 t4(2)])
    have not_s_kid: "last (children f s) \<notin> set ?cs" if "children f s \<noteq> []"
      using forest_disjoint [OF forest a(1,2)] last_in_set [OF that] a(3) by blast
    have chain4: "chain (str t4) (if children f s = [] then None else last_or None (children f s)) ?cs None"
    proof (rule chain_relink [OF kin(2) forestD(2) [OF forest a(1)]])
      show "sib_prev (str t4 x) = (if x = hd ?cs then if children f s = [] then None
          else last_or None (children f s) else sib_prev (str t x))" if "x \<in> set ?cs" for x
        using chain_ends(1) [OF kin(2)] False by (auto simp: t4(6) t2_def)
      show "sib_next (str t4 x) = (if x = last ?cs then None else sib_next (str t x))" if "x \<in> set ?cs" for x
        using chain_ends(2) [OF kin(2)] False not_s_kid that by (auto simp: t4(5) t2_def)
    qed
    have links4: "dep_prev (str t4 x) = dep_prev (str t x)" if "x \<in> insert d (anc ?par d)" for x
    proof -
      have "x \<noteq> s" using a(5) that by auto
      moreover have "x \<noteq> hd ?cs"
      proof
        assume "x = hd ?cs"
        then have x: "x \<in> set ?cs" using False by simp
        then have "?par x = Some d" using forestD(1) [OF forest a(1)] forest_parent [OF forest a(1) x]
          by (auto simp: par_of_def)
        then show False using child_not_anc [OF schedD(1) [OF sok], of x d] that by simp
      qed
      ultimately show ?thesis by (simp add: t4(3) t2_def)
    qed
    have head: "first_or None ?cs = Some (hd ?cs)" using False by (rule first_or_hd)
    have adopt: "gives (adopt_loop alloc n n t4 d s (first_or None ?cs))
      (\<lambda>t5. sched V ?par5 {s} {d} t5 \<and> owed V ?par5 t5 d s \<and>
         same_core (with_parent (str t4) ?cs s) (str t5) \<and> \<not> (Some d = None \<and> queued (str t5 s)))"
      by (rule adopt_all [OF ok ap ok4 _ chain4 _ _ n]) (use links4 t4(3) in auto)
    have eq': "nghttp2_stream_dep_insert_subtree alloc n t d s =
        and_ok (adopt_loop alloc n n t4 d s (first_or None ?cs)) rest"
      unfolding eq using kin(1) head t4(1) by (simp add: t2_def)
    show ?thesis unfolding eq'
    proof (rule gives_and_ok [OF adopt])
      fix t5
      assume t5: "sched V ?par5 {s} {d} t5 \<and> owed V ?par5 t5 d s \<and>
         same_core (with_parent (str t4) ?cs s) (str t5) \<and> \<not> (Some d = None \<and> queued (str t5 s))"
      then have core5: "same_core (with_parent (str t4) ?cs s) (str t5)" by simp
      note c = same_coreD [OF core5]
      show "gives (rest t5) (represents V (abs_insert f d s))"
        unfolding rest_def
      proof (rule finish)
        have hd_in: "hd ?cs \<in> set ?cs" using False by simp
        show "forest V (children (abs_insert f d s)) (str t5)" "par_of V (str t5) = ?par6"
          by (rule adopted_links [OF ok ap];
              use a(3) s_out False head hd_in t4 in \<open>auto simp add: c with_parent_def t2_def\<close>)+
        show "same_info (str t5 x) (str t2 x)" for x
        proof -
          have "same_info (str t5 x) (with_parent (str t4) ?cs s x)"
            using core5 by (intro same_info_core) (simp add: same_core_def)
          moreover have "same_info (str t4 x) (str t2 x)"
            using relinkedD(1) [OF t4(2)] by (rule same_info_payload)
          ultimately show ?thesis using same_info_parent same_info_trans by blast
        qed
        show "gives (if subtree_active t5 s then stream_obq_push alloc n t5 (Some d) s else Inr (t5, None))
          (\<lambda>t'. same_core (str t5) (str t') \<and> sched V ?par6 {} {} t')"
          using t5 by (intro push_adopter [OF ok ap links4 core5, of "Some d"]) (simp_all add: n)
      qed
    qed
  qed
qed

end
