(* ===== verification/DepRemove.thy ===== *)
theory DepRemove
  imports DepForest
begin

text \<open>
  Taking a stream out of the dependency tree, alone or with all that is below it. A stream that leaves
  alone gives its weight to its children, in proportion to theirs, and they take its place.
\<close>

section \<open>Cutting off a subtree\<close>

definition abs_cut :: "dep \<Rightarrow> nat \<Rightarrow> nat \<Rightarrow> dep" where
  "abs_cut f d s = f\<lparr>children := (children f)(d := remove1 s (children f d))\<rparr>"

lemma split_child:
  assumes "x \<in> set zs"
  obtains xs ys where "zs = xs @ x # ys"
  using assms by (auto simp: in_set_conv_decomp)

lemma child_facts:
  assumes ok: "represents V f t" and s: "s \<in> V" "dep_prev (str t s) = Some d"
  shows "d \<in> V" "s \<noteq> d" "s \<in> set (children f d)" "par_of V (str t) s = Some d"
    "s \<notin> insert d (anc (par_of V (str t)) d)"
proof -
  note forest = representsD(1) [OF ok]
  show "d \<in> V" "s \<in> set (children f d)" using forestD(4) [OF forest s] by simp_all
  show par: "par_of V (str t) s = Some d" using s by (simp add: par_of_def)
  show "s \<notin> insert d (anc (par_of V (str t)) d)"
    using child_not_anc [OF schedD(1) [OF dep_schedD [OF representsD(2) [OF ok]]] par] .
  then show "s \<noteq> d" by simp
qed

lemma sibling_links:
  assumes "forest V ch st" "d \<in> V" "ch d = xs @ s # ys"
  shows "sib_prev (st s) = last_or None xs" "sib_next (st s) = first_or None ys"
    "dep_next (st d) = first_or None (xs @ [s])"
  using kinD(1,2) [OF forestD(3) [OF assms(1,2)]] unfolding assms(3) by (simp_all add: chain_append)

definition cut_links :: "dtree \<Rightarrow> nat \<Rightarrow> nat \<Rightarrow> dtree" where
  "cut_links t d s =
     (case sib_prev (str t s) of
        Some p \<Rightarrow> link_sib t p (sib_next (str t s))
      | None \<Rightarrow>
          (let next = sib_next (str t s); t' = link_dep t d next
           in case next of None \<Rightarrow> t' | Some b \<Rightarrow> upd t' b (\<lambda>x. x\<lparr>sib_prev := None\<rparr>)))"

lemma cut_links_ok:
  assumes forest: "forest V ch (str t)" and d: "d \<in> V" and at: "ch d = xs @ s # ys"
  shows "relinked t (cut_links t d s)"
    "dep_prev (str (cut_links t d s) x) = dep_prev (str t x)"
    "dep_next (str (cut_links t d s) x) = (if x = d then first_or None (xs @ ys) else dep_next (str t x))"
    "sib_prev (str (cut_links t d s) x) =
       (if ys \<noteq> [] \<and> x = hd ys then last_or None xs else sib_prev (str t x))"
    "sib_next (str (cut_links t d s) x) =
       (if xs \<noteq> [] \<and> x = last xs then first_or None ys else sib_next (str t x))"
proof -
  note links = sibling_links [OF forest d at]
  have kid: "dep_prev (str t y) = Some d" if "y \<in> set ys" for y
    using forest_parent [OF forest d, of y] that at by simp
  have both: "relinked t (cut_links t d s) \<and> dep_prev (str (cut_links t d s) x) = dep_prev (str t x) \<and>
    dep_next (str (cut_links t d s) x) = (if x = d then first_or None (xs @ ys) else dep_next (str t x)) \<and>
    sib_prev (str (cut_links t d s) x) =
       (if ys \<noteq> [] \<and> x = hd ys then last_or None xs else sib_prev (str t x)) \<and>
    sib_next (str (cut_links t d s) x) =
       (if xs \<noteq> [] \<and> x = last xs then first_or None ys else sib_next (str t x))"
  proof (cases "xs = []")
    case True
    show ?thesis
    proof (cases ys)
      case Nil
      then show ?thesis using True links by (simp add: cut_links_def link_dep_def relinked_def)
    next
      case (Cons y zs)
      then show ?thesis using True links kid [of y] by (auto simp: cut_links_def link_dep_def relinked_def)
    qed
  next
    case False
    then have prev: "sib_prev (str t s) = Some (last xs)" using links(1) by (simp add: last_or_last)
    have next_d: "dep_next (str t d) = first_or None (xs @ ys)" using links(3) False by (cases xs) simp_all
    show ?thesis
      using False prev next_d links(2)
      by (cases ys) (simp_all add: cut_links_def link_sib_def relinked_def last_or_last)
  qed
  then show "relinked t (cut_links t d s)" by simp
  from both show "dep_prev (str (cut_links t d s) x) = dep_prev (str t x)" by simp
  from both show "dep_next (str (cut_links t d s) x) =
    (if x = d then first_or None (xs @ ys) else dep_next (str t x))" by simp
  from both show "sib_prev (str (cut_links t d s) x) =
    (if ys \<noteq> [] \<and> x = hd ys then last_or None xs else sib_prev (str t x))" by simp
  from both show "sib_next (str (cut_links t d s) x) =
    (if xs \<noteq> [] \<and> x = last xs then first_or None ys else sib_next (str t x))" by simp
qed

text \<open>Leaving the heap of the parent, then the parent itself.\<close>

lemma leave_parent:
  assumes ok: "sched V par {} {s} t" and s: "s \<in> V"
    and links: "\<And>a. a \<in> insert s (anc par s) \<Longrightarrow> dep_prev (str t a) = par a" and n: "card V \<le> n"
  obtains t' where "(if queued (str t s) then stream_obq_remove n t s else Inr t) = Inr t'"
    "same_core (str t) (str t')" "sched V (par(s := None)) {} {} t'"
proof -
  obtain t' where t': "stream_obq_remove n t s = Inr t'" "same_core (str t) (str t')" "removed V par {} s t t'"
    using stream_obq_remove_ok [OF ok s links n] by blast
  have same: "(if queued (str t s) then stream_obq_remove n t s else Inr t) = Inr t'"
    using t'(1) by (auto simp: stream_obq_remove_def split: if_splits)
  have "sched V par {s} {} t'" "\<not> queued (str t' s)" using t'(3) by (simp_all add: removed_def)
  then have "sched V (par(s := None)) {s} {} t'"
    using sched_reparent [of V par "{s}" "{}" t' s None] s parents_ok_None [OF schedD(1) [OF ok]] by simp
  then have "sched V (par(s := None)) {} {} t'" by (rule sched_less_N) simp
  then show ?thesis using that same t'(2) by blast
qed

lemma sum_without:
  "zs = xs @ x # ys \<Longrightarrow> sum_list (map (g :: nat \<Rightarrow> int) (xs @ ys)) = sum_list (map g zs) - g x"
  by simp

lemma dep_remove_subtree_ok:
  assumes ok: "represents V f t" and s: "s \<in> V" "dep_prev (str t s) = Some d" and n: "card V \<le> n"
  shows "\<exists>t'. nghttp2_stream_dep_remove_subtree n t s = Inr t' \<and> represents V (abs_cut f d s) t'"
proof -
  let ?par = "par_of V (str t)"
  note forest = representsD(1) [OF ok] and sok = dep_schedD [OF representsD(2) [OF ok]]
  note c = child_facts [OF ok s]
  obtain xs ys where at: "children f d = xs @ s # ys" by (rule split_child [OF c(3)])
  have dist: "distinct (xs @ s # ys)" using forestD(2) [OF forest c(1)] at by simp
  note cut = cut_links_ok [OF forest c(1) at]
  define t1 where "t1 = cut_links t d s"
  define t2 where "t2 = upd t1 d (\<lambda>x. x\<lparr>sum_dep_weight := sum_dep_weight x + - weight (str t1 s)\<rparr>)"
  note p1 = payload_fields [OF relinkedD(1) [OF cut(1)]]
  have w: "weight (str t1 s) = weights f s" "sum_dep_weight (str t1 d) = sum_dep_weight (str t d)"
    using p1(1,2) representsD(5) [OF ok s(1)] by (simp_all add: t1_def)
  have "in_i32 (sum_dep_weight (str t1 d) + - weight (str t1 s))"
    using sum_step_i32 [OF ok c(1), of "- weights f s"] weights_range [OF ok s(1)] by (simp add: w)
  then have add: "add_dep_weight t1 d (- weight (str t1 s)) = Inr t2"
    unfolding t2_def by (rule add_dep_weight_ok)
  have "sched V ?par {} {} t1" unfolding t1_def by (rule sched_relinked [OF sok cut(1)])
  then have "sched V ?par {} {} t2" unfolding t2_def by (rule sched_links) (simp_all add: stream_active_def)
  then have ok2: "sched V ?par {} {s} t2" by (rule sched_mono) simp_all
  have dp2: "dep_prev (str t2 x) = dep_prev (str t x)" for x using cut(2) by (simp add: t2_def t1_def)
  have links2: "dep_prev (str t2 a) = ?par a" if "a \<in> insert s (anc ?par s)" for a
    using that par_of_anc [OF schedD(1) [OF sok], of a s] s(1) by (auto simp: dp2 par_of_def)
  obtain t3 where t3: "(if queued (str t2 s) then stream_obq_remove n t2 s else Inr t2) = Inr t3"
    "same_core (str t2) (str t3)" "sched V (?par(s := None)) {} {} t3"
    by (rule leave_parent [OF ok2 s(1) links2 n])
  define t4 where "t4 = upd t3 s (\<lambda>x. x\<lparr>sib_prev := None, sib_next := None, dep_prev := None\<rparr>)"
  have eq: "nghttp2_stream_dep_remove_subtree n t s = Inr t4"
    unfolding nghttp2_stream_dep_remove_subtree_def s(2) option.case Let_def
      cut_links_def [symmetric, unfolded Let_def] t1_def [symmetric] add rbind_Inr t3(1) t4_def ..
  note core3 = same_coreD [OF t3(2)]
  have s_out: "s \<notin> set xs" "s \<notin> set ys" using dist by simp_all
  have "forest V ((children f)(d := xs @ [] @ ys, s := children f s)) (str t4)"
  proof (rule forest_splice [OF forest c(1) s(1) c(2) at, where cs = "[]"])
    show "dep_prev (str t4 x) = (if x = s then None else if x \<in> set [] then Some d else dep_prev (str t x))" for x
      by (simp add: t4_def core3 dp2)
    show "dep_next (str t4 x) = (if x = d then first_or None (xs @ [] @ ys)
        else if x = s then first_or None (children f s) else dep_next (str t x))" for x
      using c(2) kinD(1) [OF forestD(3) [OF forest s(1)]] by (simp add: t4_def core3 t2_def t1_def cut)
    show "sib_prev (str t4 x) = (if x = s then None else if [] \<noteq> [] \<and> x = hd [] then last_or None xs
        else if ys \<noteq> [] \<and> x = hd ys then last_or None (xs @ []) else sib_prev (str t x))" for x
      using c(2) by (simp add: t4_def core3 t2_def t1_def cut)
    show "sib_next (str t4 x) = (if x = s then None else if xs \<noteq> [] \<and> x = last xs then first_or None ([] @ ys)
        else if [] \<noteq> [] \<and> x = last [] then first_or None ys else sib_next (str t x))" for x
      using c(2) by (simp add: t4_def core3 t2_def t1_def cut)
  qed simp
  moreover have "(children f)(d := xs @ [] @ ys, s := children f s) = children (abs_cut f d s)"
    using c(2) s_out at by (simp add: abs_cut_def remove1_append fun_eq_iff)
  ultimately have forest4: "forest V (children (abs_cut f d s)) (str t4)" by simp
  have par4: "par_of V (str t4) = ?par(s := None)"
    by (auto simp: par_of_def fun_eq_iff t4_def core3 dp2)
  have "represents V (abs_cut f d s) t4"
  proof (rule represents_final [OF forest4 same_core_refl representsD(3) [OF ok]])
    show "sched V (par_of V (str t4)) {} {} t4"
      unfolding par4 unfolding t4_def using t3(3) by (rule sched_links) (simp_all add: stream_active_def)
    fix a assume a: "a \<in> V"
    have core: "core (str t3 a) = core (str t2 a)" using t3(2) by (simp add: same_core_def)
    note p1' = p1(1-4) [folded t1_def]
    have i2: "weight (str t2 a) = weight (str t a)" "item (str t2 a) = item (str t a)"
      "flags (str t2 a) = flags (str t a)"
      "sum_dep_weight (str t2 a) = (if a = d then sum_dep_weight (str t a) - weights f s else sum_dep_weight (str t a))"
      by (simp_all add: t2_def p1' representsD(5) [OF ok s(1)])
    have i4: "weight (str t4 a) = weight (str t3 a)" "item (str t4 a) = item (str t3 a)"
      "flags (str t4 a) = flags (str t3 a)" "sum_dep_weight (str t4 a) = sum_dep_weight (str t3 a)"
      by (simp_all add: t4_def)
    note info = i4(1-4) [unfolded core_fields(5-8) [OF core] i2]
    show "weight (str t4 a) = weights (abs_cut f d s) a \<and>
      items (abs_cut f d s) a = (item (str t4 a), flags (str t4 a)) \<and>
      sum_dep_weight (str t4 a) = sum_list (map (weights (abs_cut f d s)) (children (abs_cut f d s) a))"
      using info representsD(5,6,7) [OF ok a] sum_without [OF at, of "weights f"] s_out at
      by (auto simp: abs_cut_def remove1_append)
  qed
  then show ?thesis using eq by blast
qed

section \<open>Ancestors\<close>

lemma find_ancestor_ok:
  assumes ok: "dep_sched V t" and s: "s \<in> V" and n: "card V \<le> n"
  shows "nghttp2_stream_dep_find_ancestor n t s target = Inr (target = s \<or> target \<in> anc (par_of V (str t)) s)"
proof -
  note pok = schedD(1) [OF dep_schedD [OF ok]]
  have "dep_find_ancestor n t (Some s) target = Inr (target = s \<or> target \<in> anc (par_of V (str t)) s)"
    if "card (anc (par_of V (str t)) s) < n" "s \<in> V" for s
    using that
  proof (induction n arbitrary: s)
    case (Suc n)
    show ?case
    proof (cases "dep_prev (str t s)")
      case None
      then have "par_of V (str t) s = None" by (simp add: par_of_def)
      then show ?thesis using None anc_None [of "par_of V (str t)" s] by simp
    next
      case (Some a)
      then have par: "par_of V (str t) s = Some a" using Suc(3) by (simp add: par_of_def)
      have "a \<in> V" using pok par by (auto simp: parents_ok_def)
      then show ?thesis
        using Suc(1) [of a] anc_card [OF pok par] Suc(2) Some anc_Some [of "par_of V (str t)" s a, OF par] by auto
    qed
  qed simp
  then show ?thesis
    using anc_card_less [OF pok s] n s by (simp add: nghttp2_stream_dep_find_ancestor_def)
qed

section \<open>Removing one stream\<close>

text \<open>The share of the weight of \<open>s\<close> one of its children gets.\<close>

definition share :: "dep \<Rightarrow> nat \<Rightarrow> nat \<Rightarrow> int" where
  "share f s x = max 1 (weights f s * weights f x div sum_list (map (weights f) (children f s)))"

definition abs_remove :: "dep \<Rightarrow> nat \<Rightarrow> nat \<Rightarrow> dep" where
  "abs_remove f d s = f\<lparr>
     children := (children f)(d := concat (map (\<lambda>x. if x = s then children f s else [x]) (children f d)), s := []),
     weights := (\<lambda>x. if x \<in> set (children f s) then share f s x else weights f x)\<rparr>"

lemma concat_other: "s \<notin> set xs \<Longrightarrow> concat (map (\<lambda>x. if x = s then cs else [x]) xs) = xs"
  by (induction xs) auto

lemma distributed_weight:
  assumes "1 \<le> w" "w \<le> 256" "1 \<le> weight s" "weight s \<le> 256" "w \<le> sum_dep_weight s"
    "sum_dep_weight s \<le> 2 ^ 29"
  shows "nghttp2_stream_dep_distributed_weight s w = Inr (max 1 (weight s * w div sum_dep_weight s))"
    "max 1 (weight s * w div sum_dep_weight s) \<le> 256"
proof -
  have p: "0 < sum_dep_weight s" using assms(1,5) by simp
  have pos: "0 < weight s * w" using assms by (intro mult_pos_pos) auto
  have prod: "0 \<le> weight s * w" "weight s * w \<le> 256 * 256"
    using assms mult_mono [of "weight s" 256 w 256] by auto
  have "weight s * w \<le> 256 * sum_dep_weight s" using assms by (intro mult_mono) auto
  then have "weight s * w div sum_dep_weight s \<le> 256 * sum_dep_weight s div sum_dep_weight s"
    using p by (intro zdiv_mono1)
  then have q: "0 \<le> weight s * w div sum_dep_weight s" "weight s * w div sum_dep_weight s \<le> 256"
    using prod p by (simp_all add: pos_imp_zdiv_nonneg_iff)
  have "(weight s * w) sdiv sum_dep_weight s = weight s * w div sum_dep_weight s"
    using pos p by (simp add: signed_divide_int_def)
  then show "nghttp2_stream_dep_distributed_weight s w = Inr (max 1 (weight s * w div sum_dep_weight s))"
    using prod q p by (simp add: nghttp2_stream_dep_distributed_weight_def i32_range)
  show "max 1 (weight s * w div sum_dep_weight s) \<le> 256" using q(2) by simp
qed

definition with_shares :: "(nat \<Rightarrow> stream) \<Rightarrow> (nat \<Rightarrow> int) \<Rightarrow> nat list \<Rightarrow> nat \<Rightarrow> stream" where
  "with_shares st g xs = (\<lambda>x. if x \<in> set xs then (st x)\<lparr>weight := g x\<rparr> else st x)"

lemma with_shares_Cons:
  assumes "same_core (\<lambda>y. if y = x then (st x)\<lparr>weight := g x\<rparr> else st y) st2"
    "same_core (with_shares st2 g xs) st3"
  shows "same_core (with_shares st g (x # xs)) st3"
  unfolding same_core_def
proof
  fix a
  have core_weight: "core (y\<lparr>weight := p\<rparr>) = core (z\<lparr>weight := p\<rparr>)" if "core y = core z" for y z p
  proof -
    have "core (y\<lparr>weight := p\<rparr>) = (core y)\<lparr>weight := p\<rparr>" for y by (simp add: core_def)
    then show ?thesis using that by simp
  qed
  have 1: "core (st2 a) = core (if a = x then (st x)\<lparr>weight := g x\<rparr> else st a)"
    and 2: "core (st3 a) = core (with_shares st2 g xs a)"
    using assms by (simp_all add: same_core_def)
  show "core (st3 a) = core (with_shares st g (x # xs) a)"
    unfolding 2 using 1 core_weight [OF 1, of "g a"] by (auto simp: with_shares_def)
qed

definition gives_pair ::
  "((dtree \<times> int) \<times> nghttp2_error option) res \<Rightarrow> int \<Rightarrow> (dtree \<Rightarrow> bool) \<Rightarrow> bool" where
  "gives_pair m k P \<longleftrightarrow> (\<exists>t' k'. m = Inr ((t', k'), Some NGHTTP2_ERR_NOMEM)) \<or>
     (\<exists>t'. m = Inr ((t', k), None) \<and> P t')"

lemma distribute_loop_ok:
  assumes "sched V par {} {s} t" and "s \<in> V" "par s = Some d"
    and "\<And>x. x \<in> set xs \<Longrightarrow> x \<in> V \<and> par x = Some s" and "distinct xs" "chain (str t) p xs None"
    and "\<And>a. a \<in> insert s (anc par s) \<Longrightarrow> dep_prev (str t a) = par a"
    and "\<And>x. x \<in> set xs \<Longrightarrow> weight (str t x) \<le> sum_dep_weight (str t s)"
    and "sum_dep_weight (str t s) \<le> 2 ^ 29"
    and "\<bar>k\<bar> + 256 * int (length xs) \<le> 2 ^ 30" and "length xs \<le> n" "card V \<le> m"
  defines "g \<equiv> \<lambda>x. max 1 (weight (str t s) * weight (str t x) div sum_dep_weight (str t s))"
  shows "gives_pair (distribute_loop alloc m n t s k (first_or None xs)) (k + sum_list (map g xs))
    (\<lambda>t'. sched V (\<lambda>x. if x \<in> set xs then Some d else par x) {} {s} t' \<and>
       same_core (with_shares (str t) g xs) (str t'))"
  using assms(1-12) unfolding g_def
proof (induction xs arbitrary: par t p n k)
  case Nil
  then show ?case by (simp add: gives_pair_def with_shares_def)
next
  case (Cons x xs)
  let ?g = "\<lambda>y. max 1 (weight (str t s) * weight (str t y) div sum_dep_weight (str t s))"
  note ok = Cons.prems(1)
  have x: "x \<in> V" "par x = Some s" using Cons.prems(4) by simp_all
  have xs: "x \<noteq> s" "x \<notin> insert s (anc par s)"
    using child_not_anc [OF schedD(1) [OF ok] x(2)] by auto
  have d: "d \<in> V" using schedD(1) [OF ok] Cons.prems(3) by (auto simp: parents_ok_def)
  have anc_s: "anc par s = insert d (anc par d)" by (rule anc_Some) (rule Cons.prems(3))
  define par1 where "par1 = par(x := Some d)"
  have par1: "parents_ok V par1"
    unfolding par1_def by (rule parents_ok_Some [OF schedD(1) [OF ok] x(1) d]) (use xs anc_s in auto)
  have anc1: "anc par1 d = anc par d" unfolding par1_def by (rule anc_upd) (use xs anc_s in auto)
  have anc1s: "anc par1 s = anc par s" unfolding par1_def by (rule anc_upd) (rule xs(2))
  obtain n' where n': "n = Suc n'" using Cons.prems(11) by (cases n) auto
  have W: "1 \<le> weight (str t y) \<and> weight (str t y) \<le> 256" if "y \<in> V" for y
    using schedD(2) [OF ok] that by (simp add: weights_ok_def)
  have share: "nghttp2_stream_dep_distributed_weight (str t s) (weight (str t x)) = Inr (?g x)" "?g x \<le> 256"
    using distributed_weight [of "weight (str t x)" "str t s"] W [OF x(1)] W [OF Cons.prems(2)]
      Cons.prems(8) [of x] Cons.prems(9) by simp_all
  have g_range: "1 \<le> ?g x" "k \<le> 1073741824" "- k \<le> 1073741824"
    using Cons.prems(10) by (simp_all add: abs_le_iff)
  then have i32: "in_i32 (k + ?g x)" using share(2) unfolding i32_range by (intro conjI) linarith+
  define t1 where "t1 = upd t x (\<lambda>y. y\<lparr>weight := ?g x\<rparr>)"
  have str1: "str t1 = (\<lambda>y. if y = x then (str t x)\<lparr>weight := ?g x\<rparr> else str t y)"
    by (auto simp: t1_def)
  have W1: "weights_ok V (str t1)"
    using W share(2) by (auto simp: weights_ok_def str1)
  have ok1: "sched V par {} {s} t1"
    using sched_cong [OF ok W1, of "{}"] by (auto simp: t1_def stream_active_def)
  have links1: "dep_prev (str t1 a) = par a" if "a \<in> insert s (anc par s)" for a
    using Cons.prems(7) [OF that] that xs(2) by (auto simp: str1)
  have q1: "queued (str t1 x) = queued (str t x)" by (simp add: str1)
  have to_d: "dep_prev (str t1 s) = Some d" using links1 [of s] Cons.prems(3) by simp
  have next_step: "gives (if queued (str t1 x) then stream_obq_move alloc m t1 (dep_prev (str t1 s)) s x
        else Inr (t1, None)) (\<lambda>t2. same_core (str t1) (str t2) \<and> sched V par1 {} {s} t2)"
  proof (cases "queued (str t1 x)")
    case True
    have "gives (stream_obq_move alloc m t1 (Some d) s x)
      (\<lambda>t2. same_core (str t1) (str t2) \<and> sched V par1 ({} - {d}) (insert s {s}) t2 \<and>
         (\<forall>c. queued (str t1 c) \<longrightarrow> queued (str t2 c)) \<and>
         (\<forall>c. c \<notin> anc par1 x \<longrightarrow> queued (str t2 c) = queued (str t1 c)))"
      unfolding par1_def
    proof (rule stream_obq_move_ok [OF ok1 x(1) _ x(2) True])
      show "x \<notin> {s}" using xs(1) by simp
      show "parents_ok V (par(x := Some d))" using par1 by (simp add: par1_def)
      show "dep_prev (str t1 a) = (par(x := Some d)) a" if "a \<in> anc (par(x := Some d)) x" for a
      proof -
        have a: "a \<in> insert d (anc par d)"
          using that anc_Some [of "par(x := Some d)" x d] anc1 by (simp add: par1_def)
        then show ?thesis using links1 [of a] anc_s xs(2) by auto
      qed
    qed (rule Cons.prems(12))
    then show ?thesis unfolding if_P [OF True] to_d
      by (rule gives_mono) simp
  next
    case False
    have "sched V par1 {} {s} t1"
      unfolding par1_def using sched_move_idle [OF ok1 x(1) False] x(2) par1 by (simp add: par1_def)
    then show ?thesis using False by simp
  qed
  let ?go = "\<lambda>t2. distribute_loop alloc m n' t2 s (k + ?g x) (sib_next (str t2 x))"
  have step: "distribute_loop alloc m n t s k (first_or None (x # xs)) =
      rbind (if queued (str t1 x) then stream_obq_move alloc m t1 (dep_prev (str t1 s)) s x else Inr (t1, None))
        (\<lambda>(t2, rv). case rv of Some e \<Rightarrow> Inr ((t2, k + ?g x), Some e) | None \<Rightarrow> ?go t2)"
    using share(1) i32 by (simp add: n' t1_def Let_def)
  consider t2 where "(if queued (str t1 x) then stream_obq_move alloc m t1 (dep_prev (str t1 s)) s x
        else Inr (t1, None)) = Inr (t2, Some NGHTTP2_ERR_NOMEM)"
    | t2 where "(if queued (str t1 x) then stream_obq_move alloc m t1 (dep_prev (str t1 s)) s x
        else Inr (t1, None)) = Inr (t2, None)" "same_core (str t1) (str t2)" "sched V par1 {} {s} t2"
    using next_step unfolding gives_def by blast
  then show ?case
  proof cases
    case 1
    show ?thesis unfolding step 1 by (simp add: gives_pair_def)
  next
    case 2
    note c = same_coreD [OF 2(2)]
    have next_x: "sib_next (str t2 x) = first_or None xs"
      using c(4) [of x] Cons.prems(6) by (simp add: str1)
    have chain2: "chain (str t2) (Some x) xs None"
      using Cons.prems(6) chain_cong [of xs "str t2" "str t" "Some x" None] c by (simp add: str1)
    have g2: "max 1 (weight (str t2 s) * weight (str t2 y) div sum_dep_weight (str t2 s)) = ?g y"
      if "y \<in> set xs" for y
      using that Cons.prems(5) xs(1) c by (auto simp: str1)
    have p1: "par1 y = par y" if "y \<noteq> x" for y using that by (simp add: par1_def)
    have "gives_pair (distribute_loop alloc m n' t2 s (k + ?g x) (first_or None xs))
      (k + ?g x + sum_list (map (\<lambda>y. max 1 (weight (str t2 s) * weight (str t2 y) div sum_dep_weight (str t2 s))) xs))
      (\<lambda>t'. sched V (\<lambda>y. if y \<in> set xs then Some d else par1 y) {} {s} t' \<and>
         same_core (with_shares (str t2) (\<lambda>y. max 1 (weight (str t2 s) * weight (str t2 y) div
           sum_dep_weight (str t2 s))) xs) (str t'))"
    proof (rule Cons.IH [OF 2(3) Cons.prems(2)])
      show "par1 s = Some d" using Cons.prems(3) p1 xs(1) by simp
      show "y \<in> V \<and> par1 y = Some s" if "y \<in> set xs" for y
        using that Cons.prems(4) [of y] Cons.prems(5) p1 [of y] by auto
      show "distinct xs" "length xs \<le> n'" using Cons.prems(5,11) n' by simp_all
      show "dep_prev (str t2 a) = par1 a" if "a \<in> insert s (anc par1 s)" for a
      proof -
        have "a \<noteq> x" "a \<in> insert s (anc par s)" using that anc1s xs by auto
        then show ?thesis using links1 [of a] p1 [of a] c(1) by simp
      qed
      show "weight (str t2 y) \<le> sum_dep_weight (str t2 s)" if "y \<in> set xs" for y
        using that Cons.prems(5) Cons.prems(8) [of y] xs(1) c by (auto simp: str1)
      show "sum_dep_weight (str t2 s) \<le> 2 ^ 29" using Cons.prems(9) xs(1) c by (simp add: str1)
      show "\<bar>k + ?g x\<bar> + 256 * int (length xs) \<le> 2 ^ 30" using Cons.prems(10) share(2) g_range by simp
    qed (rule chain2, rule Cons.prems(12))
    moreover have "map (\<lambda>y. max 1 (weight (str t2 s) * weight (str t2 y) div sum_dep_weight (str t2 s))) xs =
        map ?g xs" using g2 by simp
    moreover have "with_shares (str t2) (\<lambda>y. max 1 (weight (str t2 s) * weight (str t2 y) div
           sum_dep_weight (str t2 s))) xs = with_shares (str t2) ?g xs"
      using g2 by (auto simp: with_shares_def fun_eq_iff)
    ultimately have rec: "gives_pair (?go t2) (k + sum_list (map ?g (x # xs)))
      (\<lambda>t'. sched V (\<lambda>y. if y \<in> set xs then Some d else par1 y) {} {s} t' \<and>
         same_core (with_shares (str t2) ?g xs) (str t'))"
      by (simp add: next_x add.assoc)
    have fe: "(\<lambda>y. if y \<in> set xs then Some d else par1 y) = (\<lambda>y. if y \<in> set (x # xs) then Some d else par y)"
      by (auto simp: par1_def)
    have "distribute_loop alloc m n t s k (first_or None (x # xs)) = ?go t2" unfolding step 2(1) by simp
    moreover have "same_core (with_shares (str t) ?g (x # xs)) (str t')"
      if "same_core (with_shares (str t2) ?g xs) (str t')" for t'
      using with_shares_Cons [OF _ that] 2(2) by (simp add: str1)
    ultimately show ?thesis using rec unfolding fe gives_pair_def by auto
  qed
qed

section \<open>Unlinking\<close>

lemma set_dep_prev_ok:
  assumes "chain (str t) p xs None" "distinct xs" "length xs \<le> n"
  shows "\<exists>t'. set_dep_prev n t (first_or None xs) dep = Inr t' \<and> relinked t t' \<and>
    (\<forall>x. str t' x = (if x \<in> set xs then (str t x)\<lparr>dep_prev := dep\<rparr> else str t x))"
  using assms
proof (induction xs arbitrary: t p n)
  case (Cons x xs)
  obtain n' where n': "n = Suc n'" using Cons.prems(3) by (cases n) auto
  define t1 where "t1 = upd t x (\<lambda>y. y\<lparr>dep_prev := dep\<rparr>)"
  have t1: "str t1 y = (if y = x then (str t x)\<lparr>dep_prev := dep\<rparr> else str t y)" for y by (simp add: t1_def)
  have "chain (str t1) (Some x) xs None"
    using Cons.prems(1) chain_cong [of xs "str t1" "str t" "Some x" None] by (simp add: t1)
  then obtain t' where t': "set_dep_prev n' t1 (first_or None xs) dep = Inr t'" "relinked t1 t'"
    "\<forall>y. str t' y = (if y \<in> set xs then (str t1 y)\<lparr>dep_prev := dep\<rparr> else str t1 y)"
    using Cons.IH [of t1 "Some x" n'] Cons.prems n' by auto
  have "sib_next (str t1 x) = first_or None xs" using Cons.prems(1) by (simp add: t1)
  then have "set_dep_prev n t (first_or None (x # xs)) dep = Inr t'"
    using t'(1) n' by (simp add: t1_def Let_def)
  moreover have "relinked t t1" unfolding t1_def by (rule relinked_upd) simp
  then have "relinked t t'" using t'(2) by (rule relinked_trans)
  moreover have "str t' y = (if y \<in> set (x # xs) then (str t y)\<lparr>dep_prev := dep\<rparr> else str t y)" for y
    using t'(3) Cons.prems(2) by (auto simp: t1)
  ultimately show ?case by blast
qed simp

lemma splice_children_ok:
  assumes cs: "chain (str t) p cs None" "cs \<noteq> []" "distinct cs" "s \<notin> set cs" "length cs \<le> n"
    and out: "sib_next (str t s) \<noteq> Some (last cs)"
  shows "\<exists>t'. splice_children n t s (hd cs) = Inr t' \<and> relinked t t' \<and>
    (\<forall>x. dep_prev (str t' x) = (if x \<in> set cs then dep_prev (str t s) else dep_prev (str t x)) \<and>
      dep_next (str t' x) = dep_next (str t x) \<and>
      sib_prev (str t' x) = (if sib_next (str t s) = Some x then Some (last cs) else sib_prev (str t x)) \<and>
      sib_next (str t' x) = (if x = last cs \<and> sib_next (str t s) \<noteq> None then sib_next (str t s)
        else sib_next (str t x)))"
proof -
  obtain t1 where t1: "set_dep_prev n t (Some (hd cs)) (dep_prev (str t s)) = Inr t1" "relinked t t1"
    "\<And>x. str t1 x = (if x \<in> set cs then (str t x)\<lparr>dep_prev := dep_prev (str t s)\<rparr> else str t x)"
    using set_dep_prev_ok [OF cs(1,3,5)] first_or_hd [OF cs(2)] by metis
  have same: "sib_next (str t1 x) = sib_next (str t x)" "sib_prev (str t1 x) = sib_prev (str t x)" for x
    by (simp_all add: t1(3))
  show ?thesis
  proof (cases "sib_next (str t s)")
    case None
    then show ?thesis using t1 by (simp add: splice_children_def)
  next
    case (Some b)
    have "chain (str t1) p cs None" using cs(1) chain_cong [of cs "str t1" "str t" p None] same by simp
    then have last: "stream_last_sib n t1 (hd cs) = Inr (last cs)" using last_sib_ok cs(2,5) by blast
    have "relinked t (link_sib t1 (last cs) (Some b))"
      using t1(2) relinked_link_sib by (rule relinked_trans)
    then show ?thesis
      using t1(1) Some last out same
      by (auto simp: splice_children_def link_sib_def t1(3))
  qed
qed

definition unlinked :: "nat \<Rightarrow> dtree \<Rightarrow> nat \<Rightarrow> dtree res" where
  "unlinked n t s = (if sib_prev (str t s) \<noteq> None then unlink_sib n t s else unlink_dep n t s)"

lemma unlink_ok:
  assumes forest: "forest V ch (str t)" and V: "d \<in> V" "s \<in> V" "s \<noteq> d" and at: "ch d = xs @ s # ys"
    and n: "length (ch s) \<le> n"
  obtains t' where "unlinked n t s = Inr t'" "relinked t t'"
    "\<And>x. dep_prev (str t' x) = (if x \<in> set (ch s) then Some d else dep_prev (str t x))"
    "\<And>x. dep_next (str t' x) = (if x = d then first_or None (xs @ ch s @ ys) else dep_next (str t x))"
    "\<And>x. sib_prev (str t' x) = (if ch s \<noteq> [] \<and> x = hd (ch s) then last_or None xs
       else if ys \<noteq> [] \<and> x = hd ys then last_or None (xs @ ch s) else sib_prev (str t x))"
    "\<And>x. x \<noteq> s \<Longrightarrow> sib_next (str t' x) = (if xs \<noteq> [] \<and> x = last xs then first_or None (ch s @ ys)
       else if ch s \<noteq> [] \<and> x = last (ch s) then first_or None ys else sib_next (str t x))"
proof -
  note links = sibling_links [OF forest V(1) at] and cut = cut_links_ok [OF forest V(1) at]
    and kin_s = forestD(3) [OF forest V(2)]
  have par: "dep_prev (str t s) = Some d" using forest_parent [OF forest V(1)] at by simp
  have dist: "distinct (xs @ s # ys)" using forestD(2) [OF forest V(1)] at by simp
  have apart: "x \<notin> set (xs @ s # ys)" if "x \<in> set (ch s)" for x
    using that forest_disjoint [OF forest V(1,2), of x] V(3) at by auto
  show ?thesis
  proof (cases "ch s = []")
    case True
    then have none: "dep_next (str t s) = None" using kinD(1) [OF kin_s] by simp
    have "unlinked n t s = Inr (cut_links t d s)"
    proof (cases "xs = []")
      case first: True
      have "unlinked n t s = unlink_dep n t s" using links(1) first by (simp add: unlinked_def)
      also have "\<dots> = Inr (cut_links t d s)"
        using links(1,2) first par none
        by (cases ys) (simp_all add: unlink_dep_def cut_links_def link_dep_def upd_def fun_eq_iff)
      finally show ?thesis .
    next
      case False
      then have "sib_prev (str t s) = Some (last xs)" using links(1) by (simp add: last_or_last)
      then show ?thesis
        using none by (cases "sib_next (str t s)")
          (simp_all add: unlinked_def unlink_sib_def cut_links_def link_sib_def)
    qed
    then show ?thesis using that [of "cut_links t d s"] cut True by simp
  next
    case False
    let ?cs = "ch s"
    note old = kinD(2) [OF kin_s]
    have head: "dep_next (str t s) = Some (hd ?cs)" using kinD(1) [OF kin_s] False by (simp add: first_or_hd)
    have hd_cs: "hd ?cs \<in> set ?cs" "last ?cs \<in> set ?cs" using False by simp_all
    have s_out: "s \<notin> set ?cs" using apart by auto
    define t1 where "t1 = (if xs = [] then link_dep t d (Some (hd ?cs)) else link_sib t (last xs) (Some (hd ?cs)))"
    have rel1: "relinked t t1" using relinked_link_dep relinked_link_sib by (simp add: t1_def)
    have f1: "dep_prev (str t1 x) = (if xs = [] \<and> x = hd ?cs then Some d else dep_prev (str t x))"
      "dep_next (str t1 x) = (if xs = [] \<and> x = d then Some (hd ?cs) else dep_next (str t x))"
      "sib_prev (str t1 x) = (if xs \<noteq> [] \<and> x = hd ?cs then Some (last xs) else sib_prev (str t x))"
      "sib_next (str t1 x) = (if xs \<noteq> [] \<and> x = last xs then Some (hd ?cs) else sib_next (str t x))" for x
      by (auto simp: t1_def link_dep_def link_sib_def)
    have eq: "unlinked n t s = splice_children n t1 s (hd ?cs)"
    proof (cases "xs = []")
      case True
      then show ?thesis using links(1) par head by (simp add: unlinked_def unlink_dep_def t1_def)
    next
      case ne: False
      then have "sib_prev (str t s) = Some (last xs)" using links(1) by (simp add: last_or_last)
      then show ?thesis using ne head by (simp add: unlinked_def unlink_sib_def t1_def)
    qed
    have not_last: "\<not> (xs \<noteq> [] \<and> x = last xs)" if "x \<notin> set xs" for x using that by auto
    have chain1: "chain (str t1) (last_or None xs) ?cs None"
    proof (rule chain_relink [OF old forestD(2) [OF forest V(2)]])
      show "sib_prev (str t1 x) = (if x = hd ?cs then last_or None xs else sib_prev (str t x))" if "x \<in> set ?cs" for x
        using chain_ends(1) [OF old hd_cs(1)] by (simp add: f1(3) last_or_def)
      show "sib_next (str t1 x) = (if x = last ?cs then None else sib_next (str t x))" if "x \<in> set ?cs" for x
        using chain_ends(2) [OF old hd_cs(2)] apart [OF that] not_last [of x] by (auto simp: f1(4))
    qed
    have s1: "sib_next (str t1 s) = first_or None ys" "dep_prev (str t1 s) = Some d"
      using links(2) par not_last [of s] dist s_out hd_cs by (auto simp: f1)
    have far: "sib_next (str t1 s) \<noteq> Some (last ?cs)"
      using apart [OF hd_cs(2)] by (cases ys) (auto simp: s1)
    obtain t' where sp: "splice_children n t1 s (hd ?cs) = Inr t'" "relinked t1 t'"
      "\<forall>x. dep_prev (str t' x) = (if x \<in> set ?cs then Some d else dep_prev (str t1 x)) \<and>
        dep_next (str t' x) = dep_next (str t1 x) \<and>
        sib_prev (str t' x) = (if first_or None ys = Some x then Some (last ?cs) else sib_prev (str t1 x)) \<and>
        sib_next (str t' x) = (if x = last ?cs \<and> first_or None ys \<noteq> None then first_or None ys
          else sib_next (str t1 x))"
      using splice_children_ok [OF chain1 False forestD(2) [OF forest V(2)] s_out n far] unfolding s1
      by (elim exE conjE)
    have t': "dep_prev (str t' x) = (if x \<in> set ?cs then Some d else dep_prev (str t1 x))"
      "dep_next (str t' x) = dep_next (str t1 x)"
      "sib_prev (str t' x) = (if first_or None ys = Some x then Some (last ?cs) else sib_prev (str t1 x))"
      "sib_next (str t' x) = (if x = last ?cs \<and> first_or None ys \<noteq> None then first_or None ys
         else sib_next (str t1 x))" for x
      using spec [OF sp(3), of x] by simp_all
    show ?thesis
    proof (rule that)
      show "unlinked n t s = Inr t'" using eq sp(1) by simp
      show "relinked t t'" using rel1 sp(2) by (rule relinked_trans)
      show "dep_prev (str t' x) = (if x \<in> set ?cs then Some d else dep_prev (str t x))" for x
        using hd_cs by (auto simp: t'(1) f1)
      show "dep_next (str t' x) = (if x = d then first_or None (xs @ ?cs @ ys) else dep_next (str t x))" for x
        using False links(3) by (cases xs) (auto simp: t'(2) f1 first_or_hd)
      show "sib_prev (str t' x) = (if ?cs \<noteq> [] \<and> x = hd ?cs then last_or None xs
         else if ys \<noteq> [] \<and> x = hd ys then last_or None (xs @ ?cs) else sib_prev (str t x))" for x
      proof -
        have "hd ?cs \<noteq> y" if "y \<in> set ys" for y using apart [OF hd_cs(1)] that by auto
        then show ?thesis
          using False chain_ends(1) [OF old hd_cs(1)]
          by (cases ys) (auto simp: t'(3) f1 last_or_def)
      qed
      show "sib_next (str t' x) = (if xs \<noteq> [] \<and> x = last xs then first_or None (?cs @ ys)
         else if ?cs \<noteq> [] \<and> x = last ?cs then first_or None ys else sib_next (str t x))" if "x \<noteq> s" for x
      proof -
        have "last ?cs \<noteq> y" if "y \<in> set xs" for y using apart [OF hd_cs(2)] that by auto
        then have "\<not> (xs \<noteq> [] \<and> last ?cs = last xs)" by (metis last_in_set)
        then show ?thesis
          using False chain_ends(2) [OF old hd_cs(2)]
          by (cases ys) (auto simp: t'(4) f1 first_or_hd)
      qed
    qed
  qed
qed

section \<open>The whole removal\<close>

lemma mem_sum_list: "x \<in> set xs \<Longrightarrow> (\<And>y. y \<in> set xs \<Longrightarrow> 0 \<le> (g y :: int)) \<Longrightarrow> g x \<le> sum_list (map g xs)"
proof (induction xs)
  case (Cons y ys)
  have "0 \<le> sum_list (map g ys)" using Cons.prems(2) by (intro sum_list_nonneg) auto
  moreover have g: "0 \<le> g y" using Cons.prems(2) by simp
  ultimately show ?case
  proof (cases "x = y")
    case False
    then have "g x \<le> sum_list (map g ys)" using Cons by auto
    then show ?thesis using g by simp
  qed simp
qed simp

lemma replaced_children:
  assumes "zs = xs @ s # ys" "distinct zs"
  shows "concat (map (\<lambda>x. if x = s then cs else [x]) zs) = xs @ cs @ ys"
  using assms by (simp add: concat_other)

lemma dep_remove_ok:
  assumes ok: "represents V f t" and s: "s \<in> V" "dep_prev (str t s) = Some d" and n: "card V \<le> n"
  shows "gives (nghttp2_stream_dep_remove alloc n t s) (represents V (abs_remove f d s))"
proof -
  let ?par = "par_of V (str t)" and ?cs = "children f s" and ?g = "share f s"
  let ?par1 = "\<lambda>x. if x \<in> set ?cs then Some d else ?par x"
  note forest = representsD(1) [OF ok] and sok = dep_schedD [OF representsD(2) [OF ok]]
  note c = child_facts [OF ok s]
  note pok = schedD(1) [OF sok]
  obtain xs ys where at: "children f d = xs @ s # ys" by (rule split_child [OF c(3)])
  have dist: "distinct (children f d)" using forestD(2) [OF forest c(1)] .
  have kids: "x \<in> V \<and> ?par x = Some s" if "x \<in> set ?cs" for x
    using forestD(1) [OF forest s(1)] forest_parent [OF forest s(1) that] that by (auto simp: par_of_def)
  have not_anc: "x \<notin> insert s (anc ?par s)" if "x \<in> set ?cs" for x
    using child_not_anc [OF pok, of x s] kids [OF that] by simp
  have out: "s \<notin> set ?cs" "d \<notin> set ?cs" "x \<in> set ?cs \<Longrightarrow> x \<notin> set (xs @ s # ys)" for x
    using not_anc anc_Some [of ?par s d] c(4) forest_disjoint [OF forest c(1) s(1), of x] c(2) at by auto
  have Wt: "weight (str t x) = weights f x" if "x \<in> V" for x by (rule representsD(5) [OF ok that])
  have sum_s: "sum_dep_weight (str t s) = sum_list (map (weights f) ?cs)" by (rule representsD(7) [OF ok s(1)])
  have g_eq: "map (\<lambda>x. max 1 (weight (str t s) * weight (str t x) div sum_dep_weight (str t s))) ?cs = map ?g ?cs"
    using Wt s(1) kids sum_s by (auto simp: share_def)
  have small: "weight (str t x) \<le> sum_dep_weight (str t s)" if "x \<in> set ?cs" for x
    unfolding sum_s using mem_sum_list [OF that, of "weights f"] weights_range(1) [OF ok] kids that Wt by force
  have g_range: "1 \<le> ?g x" "?g x \<le> 256" if "x \<in> set ?cs" for x
  proof -
    have x: "x \<in> V" using kids that by simp
    show "1 \<le> ?g x" by (simp add: share_def)
    show "?g x \<le> 256"
      using distributed_weight(2) [of "weights f x" "str t s"] weights_range [OF ok x] weights_range [OF ok s(1)]
        small [OF that] sum_bounds(2) [OF ok s(1)] Wt [OF x] Wt [OF s(1)] sum_s by (simp add: share_def)
  qed
  have len: "length ?cs \<le> card V" "card V \<le> 2 ^ 21"
    using children_sum(3) [OF ok s(1)] representsD(3) [OF ok] by simp_all
  define k where "k = - weights f s"
  have ws: "1 \<le> weights f s" "weights f s \<le> 256" using weights_range [OF ok s(1)] .
  have start: "i32 (- weight (str t s)) = Inr k" using ws by (simp add: k_def Wt [OF s(1)] i32_range)
  have links: "dep_prev (str t a) = ?par a" if "a \<in> insert s (anc ?par s)" for a
    using that par_of_anc [OF pok, of a s] s(1) by (auto simp: par_of_def)
  have budget: "\<bar>k\<bar> + 256 * int (length ?cs) \<le> 2 ^ 30" using ws len by (simp add: k_def)
  have "gives_pair (distribute_loop alloc n n t s k (first_or None ?cs))
    (k + sum_list (map (\<lambda>x. max 1 (weight (str t s) * weight (str t x) div sum_dep_weight (str t s))) ?cs))
    (\<lambda>t'. sched V ?par1 {} {s} t' \<and> same_core (with_shares (str t)
      (\<lambda>x. max 1 (weight (str t s) * weight (str t x) div sum_dep_weight (str t s))) ?cs) (str t'))"
  proof (rule distribute_loop_ok [OF _ s(1) c(4) kids forestD(2) [OF forest s(1)] kinD(2) [OF forestD(3) [OF forest s(1)]]
        links small sum_bounds(2) [OF ok s(1)] budget _ n])
    show "sched V ?par {} {s} t" using sok by (rule sched_mono) simp_all
    show "length ?cs \<le> n" using len n by simp
  qed
  moreover have "with_shares (str t) (\<lambda>x. max 1 (weight (str t s) * weight (str t x) div sum_dep_weight (str t s))) ?cs =
      with_shares (str t) ?g ?cs"
    using g_eq by (auto simp: with_shares_def fun_eq_iff)
  ultimately have loop: "gives_pair (distribute_loop alloc n n t s k (first_or None ?cs)) (k + sum_list (map ?g ?cs))
    (\<lambda>t'. sched V ?par1 {} {s} t' \<and> same_core (with_shares (str t) ?g ?cs) (str t'))"
    by (simp only: g_eq)
  have head: "dep_next (str t s) = first_or None ?cs" using kinD(1) [OF forestD(3) [OF forest s(1)]] .
  define final where "final = (\<lambda>(t1, delta). case dep_prev (str t1 s) of
      None \<Rightarrow> Inl Assert_failed
    | Some d \<Rightarrow> rbind (add_dep_weight t1 d delta) (\<lambda>t2.
        rbind (if queued (str t2 s) then stream_obq_remove n t2 s else Inr t2) (\<lambda>t3.
        rbind (unlinked n t3 s) (\<lambda>t4.
        Inr (upd t4 s (\<lambda>x. x\<lparr>sum_dep_weight := 0, dep_prev := None, dep_next := None,
          sib_prev := None, sib_next := None\<rparr>), None :: nghttp2_error option)))))"
  have code: "nghttp2_stream_dep_remove alloc n t s =
      rbind (distribute_loop alloc n n t s k (first_or None ?cs)) (\<lambda>((t1, delta), rv).
        case rv of Some e \<Rightarrow> Inr (t1, Some e) | None \<Rightarrow> final (t1, delta))"
    unfolding nghttp2_stream_dep_remove_def start rbind_Inr head final_def unlinked_def
    by (simp only: prod.case cong: if_cong)
  consider t1 k' where "distribute_loop alloc n n t s k (first_or None ?cs) = Inr ((t1, k'), Some NGHTTP2_ERR_NOMEM)"
    | t1 where "distribute_loop alloc n n t s k (first_or None ?cs) = Inr ((t1, k + sum_list (map ?g ?cs)), None)"
      "sched V ?par1 {} {s} t1" "same_core (with_shares (str t) ?g ?cs) (str t1)"
    using loop unfolding gives_pair_def by blast
  then show ?thesis
  proof cases
    case 1
    then show ?thesis unfolding code by (simp add: gives_def)
  next
    case (2 t1)
    note c1 = same_coreD [OF 2(3)]
    define delta where "delta = k + sum_list (map ?g ?cs)"
    have l1: "dep_prev (str t1 x) = dep_prev (str t x)" "dep_next (str t1 x) = dep_next (str t x)"
      "sib_prev (str t1 x) = sib_prev (str t x)" "sib_next (str t1 x) = sib_next (str t x)"
      "sum_dep_weight (str t1 x) = sum_dep_weight (str t x)" for x
      by (simp_all add: c1 with_shares_def)
    define t2 where "t2 = upd t1 d (\<lambda>x. x\<lparr>sum_dep_weight := sum_dep_weight x + delta\<rparr>)"
    have "0 \<le> sum_list (map ?g ?cs)" "sum_list (map ?g ?cs) \<le> 256 * int (length ?cs)"
      using g_range sum_list_le [of ?cs ?g 256] sum_list_ge [of ?cs ?g] by auto
    then have "\<bar>delta\<bar> \<le> 2 ^ 30" using ws len by (simp add: delta_def k_def abs_le_iff)
    then have "in_i32 (sum_dep_weight (str t1 d) + delta)"
      using sum_step_i32 [OF ok c(1)] l1(5) by simp
    then have add: "add_dep_weight t1 d delta = Inr t2" unfolding t2_def by (rule add_dep_weight_ok)
    have ok2: "sched V ?par1 {} {s} t2"
      unfolding t2_def using 2(2) by (rule sched_links) (simp_all add: stream_active_def)
    have anc1: "anc ?par1 s = anc ?par s" by (rule anc_cong) (use not_anc in auto)
    have l2: "dep_prev (str t2 x) = dep_prev (str t x)" "dep_next (str t2 x) = dep_next (str t x)"
      "sib_prev (str t2 x) = sib_prev (str t x)" "sib_next (str t2 x) = sib_next (str t x)" for x
      by (simp_all add: t2_def l1)
    have links2: "dep_prev (str t2 a) = ?par1 a" if "a \<in> insert s (anc ?par1 s)" for a
      using that links [of a] anc1 not_anc [of a] by (auto simp: l2)
    obtain t3 where t3: "(if queued (str t2 s) then stream_obq_remove n t2 s else Inr t2) = Inr t3"
      "same_core (str t2) (str t3)" "sched V (?par1(s := None)) {} {} t3"
      by (rule leave_parent [OF ok2 s(1) links2 n])
    have l3: "dep_prev (str t3 x) = dep_prev (str t x)" "dep_next (str t3 x) = dep_next (str t x)"
      "sib_prev (str t3 x) = sib_prev (str t x)" "sib_next (str t3 x) = sib_next (str t x)" for x
      using same_coreD [OF t3(2)] by (simp_all add: l2)
    have forest3: "forest V (children f) (str t3)"
      using forest forest_same [of "str t3" "str t" V "children f"] l3 by simp
    have len3: "length ?cs \<le> n" using len n by simp
    obtain t4 where t4: "unlinked n t3 s = Inr t4" "relinked t3 t4"
      "\<And>x. dep_prev (str t4 x) = (if x \<in> set ?cs then Some d else dep_prev (str t3 x))"
      "\<And>x. dep_next (str t4 x) = (if x = d then first_or None (xs @ ?cs @ ys) else dep_next (str t3 x))"
      "\<And>x. sib_prev (str t4 x) = (if ?cs \<noteq> [] \<and> x = hd ?cs then last_or None xs
         else if ys \<noteq> [] \<and> x = hd ys then last_or None (xs @ ?cs) else sib_prev (str t3 x))"
      "\<And>x. x \<noteq> s \<Longrightarrow> sib_next (str t4 x) = (if xs \<noteq> [] \<and> x = last xs then first_or None (?cs @ ys)
         else if ?cs \<noteq> [] \<and> x = last ?cs then first_or None ys else sib_next (str t3 x))"
      by (rule unlink_ok [OF forest3 c(1) s(1) c(2) at len3]) (rule that)
    define t5 where "t5 = upd t4 s (\<lambda>x. x\<lparr>sum_dep_weight := 0, dep_prev := None, dep_next := None,
      sib_prev := None, sib_next := None\<rparr>)"
    have "dep_prev (str t1 s) = Some d" using s(2) l1 by simp
    then have eq: "nghttp2_stream_dep_remove alloc n t s = Inr (t5, None)"
      unfolding code 2(1) delta_def [symmetric] final_def
      by (simp add: add t3(1) t4(1) t5_def)
    have "forest V ((children f)(d := xs @ ?cs @ ys, s := [])) (str t5)"
    proof (rule forest_splice [OF forest c(1) s(1) c(2) at, where cs = ?cs])
      show "dep_prev (str t5 x) = (if x = s then None else if x \<in> set ?cs then Some d else dep_prev (str t x))" for x
        by (simp add: t5_def t4 l3)
      show "dep_next (str t5 x) = (if x = d then first_or None (xs @ ?cs @ ys)
          else if x = s then first_or None [] else dep_next (str t x))" for x
        using c(2) by (simp add: t5_def t4 l3)
      show "sib_prev (str t5 x) = (if x = s then None else if ?cs \<noteq> [] \<and> x = hd ?cs then last_or None xs
          else if ys \<noteq> [] \<and> x = hd ys then last_or None (xs @ ?cs) else sib_prev (str t x))" for x
        by (simp add: t5_def t4 l3)
      show "sib_next (str t5 x) = (if x = s then None else if xs \<noteq> [] \<and> x = last xs then first_or None (?cs @ ys)
          else if ?cs \<noteq> [] \<and> x = last ?cs then first_or None ys else sib_next (str t x))" for x
        by (simp add: t5_def t4 l3)
    qed simp
    then have forest5: "forest V (children (abs_remove f d s)) (str t5)"
      using replaced_children [OF at dist] by (simp add: abs_remove_def)
    have par5: "par_of V (str t5) = ?par1(s := None)"
      using kids by (auto simp: par_of_def fun_eq_iff t5_def t4 l3)
    have "represents V (abs_remove f d s) t5"
    proof (rule represents_final [OF forest5 same_core_refl representsD(3) [OF ok]])
      have "sched V (?par1(s := None)) {} {} t4" using t3(3) t4(2) by (rule sched_relinked)
      then show "sched V (par_of V (str t5)) {} {} t5"
        unfolding par5 unfolding t5_def by (rule sched_links) (simp_all add: stream_active_def)
      fix a assume a: "a \<in> V"
      note p4 = payload_fields(1-4) [OF relinkedD(1) [OF t4(2), of a]]
      have core3: "core (str t3 a) = core (str t2 a)" using t3(2) by (simp add: same_core_def)
      have core1: "core (str t1 a) = core (with_shares (str t) ?g ?cs a)" using 2(3) by (simp add: same_core_def)
      have i1: "weight (str t1 a) = (if a \<in> set ?cs then ?g a else weight (str t a))"
        "item (str t1 a) = item (str t a)" "flags (str t1 a) = flags (str t a)"
        using core_fields(5,7,8) [OF core1] by (simp_all add: with_shares_def)
      have i2: "weight (str t2 a) = weight (str t1 a)" "item (str t2 a) = item (str t1 a)"
        "flags (str t2 a) = flags (str t1 a)"
        "sum_dep_weight (str t2 a) = (if a = d then sum_dep_weight (str t a) + delta else sum_dep_weight (str t a))"
        by (simp_all add: t2_def l1)
      have i5: "weight (str t5 a) = weight (str t4 a)" "item (str t5 a) = item (str t4 a)"
        "flags (str t5 a) = flags (str t4 a)"
        "sum_dep_weight (str t5 a) = (if a = s then 0 else sum_dep_weight (str t4 a))"
        by (simp_all add: t5_def)
      note info = i5 [unfolded p4 core_fields(5-8) [OF core3] i2 i1]
      have other: "map (weights (abs_remove f d s)) zs = map (weights f) zs" if "set zs \<inter> set ?cs = {}" for zs
        using that by (auto simp: abs_remove_def)
      have sums: "sum_list (map (weights (abs_remove f d s)) (children (abs_remove f d s) a)) =
          (if a = s then 0 else if a = d then sum_dep_weight (str t a) + delta else sum_dep_weight (str t a))"
      proof (cases "a = s \<or> a \<noteq> d")
        case True
        have "set (children f a) \<inter> set ?cs = {}" if "a \<noteq> s"
          using forest_disjoint [OF forest a s(1)] that by auto
        then have "map (weights (abs_remove f d s)) (children f a) = map (weights f) (children f a)" if "a \<noteq> s"
          using other that by blast
        moreover have "children (abs_remove f d s) a = (if a = s then [] else children f a)"
          using True by (auto simp: abs_remove_def)
        ultimately show ?thesis using True c(2) representsD(7) [OF ok a] by (auto cong: map_cong)
      next
        case False
        have "children (abs_remove f d s) a = xs @ ?cs @ ys"
          using False c(2) replaced_children [OF at dist] by (simp add: abs_remove_def)
        moreover have "map (weights (abs_remove f d s)) ?cs = map ?g ?cs" by (simp add: abs_remove_def)
        moreover have "set xs \<inter> set ?cs = {}" "set ys \<inter> set ?cs = {}" using out(3) by auto
        ultimately show ?thesis
          using False c(2) other [of xs] other [of ys] representsD(7) [OF ok c(1)]
          by (simp add: at delta_def k_def cong: map_cong)
      qed
      show "weight (str t5 a) = weights (abs_remove f d s) a \<and>
        items (abs_remove f d s) a = (item (str t5 a), flags (str t5 a)) \<and>
        sum_dep_weight (str t5 a) = sum_list (map (weights (abs_remove f d s)) (children (abs_remove f d s) a))"
        using info representsD(5,6) [OF ok a] unfolding sums by (simp add: abs_remove_def)
    qed
    then show ?thesis unfolding eq by simp
  qed
qed

end
