(* ===== verification/DepSpec.thy ===== *)
theory DepSpec
  imports DepRemove
begin

text \<open>
  What the dependency tree promises: its operations are steps on a forest, a stream that has something to
  send is found, and operations on items and weights keep the schedule.
\<close>

section \<open>Streams that are not linked yet\<close>

definition isolated :: "nat set \<Rightarrow> dtree \<Rightarrow> bool" where
  "isolated V t \<longleftrightarrow> (\<forall>a\<in>V. dep_prev (str t a) = None \<and> dep_next (str t a) = None \<and>
     sib_prev (str t a) = None \<and> sib_next (str t a) = None \<and> sum_dep_weight (str t a) = 0 \<and>
     \<not> queued (str t a) \<and> 1 \<le> weight (str t a) \<and> weight (str t a) \<le> 256 \<and> heaps t a = ([], 0))"

lemma isolated_represents:
  assumes iso: "isolated V t" and V: "finite V" "card V \<le> 2 ^ 21"
  shows "represents V \<lparr>children = (\<lambda>_. []), weights = (\<lambda>a. weight (str t a)),
    items = (\<lambda>a. (item (str t a), flags (str t a)))\<rparr> t"
proof -
  have none: "par_of V (str t) = (\<lambda>_. None)" using iso by (auto simp: par_of_def isolated_def)
  have "acyclic (par_edges (\<lambda>_. None))" by (simp add: par_edges_def acyclic_def)
  then have par: "parents_ok V (par_of V (str t))" using V by (simp add: none parents_ok_def)
  have "heap_shape (obq_of t a)" if "a \<in> V" for a
    using iso that by (simp add: isolated_def heap_shape_def indexed_def)
  then have "heaps_hold V (kids V (par_of V (str t)) (str t)) t"
    using iso by (simp add: heaps_hold_def kids_def none isolated_def)
  then have "dep_sched V t"
    unfolding dep_sched_def
    by (intro schedI [OF par]) (use iso in \<open>auto simp: isolated_def weights_ok_def none\<close>)
  moreover have "forest V (\<lambda>_. []) (str t)"
    by (rule forestI) (use iso in \<open>auto simp: isolated_def kin_def\<close>)
  ultimately show ?thesis using iso V(2) by (simp add: represents_def isolated_def)
qed

section \<open>Examples\<close>

definition plain_stream :: "int \<Rightarrow> stream" where
  "plain_stream i = nghttp2_stream_init i 0 NGHTTP2_STREAM_OPENED 16 65535 65535 0"

definition three_streams :: dtree where
  "three_streams = \<lparr>str = (\<lambda>a. plain_stream (int a)), heaps = (\<lambda>_. ([], 0)), pqi = (\<lambda>_. 0)\<rparr>"

text \<open>Stream 1 below the root 0, and stream 2 alone.\<close>

definition small_tree :: dtree where
  "small_tree = (case nghttp2_stream_dep_add three_streams 0 1 of Inr t \<Rightarrow> t | Inl _ \<Rightarrow> three_streams)"

definition no_children :: dep where
  "no_children = \<lparr>children = (\<lambda>_. []), weights = (\<lambda>_. 16), items = (\<lambda>_. (None, 0))\<rparr>"

lemma three_streams_ok: "represents {0, 1, 2} no_children three_streams"
proof -
  have "isolated {0, 1, 2} three_streams"
    by (simp add: isolated_def three_streams_def plain_stream_def nghttp2_stream_init_def)
  then have "represents {0, 1, 2} \<lparr>children = (\<lambda>_. []), weights = (\<lambda>a. weight (str three_streams a)),
      items = (\<lambda>a. (item (str three_streams a), flags (str three_streams a)))\<rparr> three_streams"
    by (rule isolated_represents) simp_all
  then show ?thesis
    by (simp add: no_children_def three_streams_def plain_stream_def nghttp2_stream_init_def)
qed

lemma apart_root:
  assumes "represents V f t" "d \<in> V" "s \<in> V" "s \<noteq> d" "dep_prev (str t s) = None" "children f s = []"
  shows "apart V t d s"
proof -
  have "s \<notin> anc (par_of V (str t)) x" if "x \<in> V" for x
  proof
    assume "s \<in> anc (par_of V (str t)) x"
    then obtain c where "par_of V (str t) c = Some s"
      unfolding anc_def by (auto simp: par_edges_def elim: trancl_induct dest: tranclD2)
    then have "c \<in> V" "dep_prev (str t c) = Some s" by (auto simp: par_of_def split: if_splits)
    then show False using forestD(4) [OF representsD(1) [OF assms(1)]] assms(6) by fastforce
  qed
  then show ?thesis using assms by (auto simp: apart_def at_or_below_def)
qed

lemma small_tree_ok:
  "represents {0, 1, 2} (abs_add no_children 0 1) small_tree"
  "nghttp2_stream_dep_add three_streams 0 1 = Inr small_tree"
proof -
  have ap: "apart {0, 1, 2} three_streams 0 1"
    by (rule apart_root [OF three_streams_ok])
      (simp_all add: three_streams_def plain_stream_def nghttp2_stream_init_def no_children_def)
  have idle: "\<not> subtree_active three_streams 1"
    by (simp add: subtree_active_def stream_subtree_active_def stream_active_def three_streams_def
        plain_stream_def nghttp2_stream_init_def nghttp2_pq_empty_def)
  obtain t where t: "nghttp2_stream_dep_add three_streams 0 1 = Inr t"
    "represents {0, 1, 2} (abs_add no_children 0 1) t"
    using dep_add_ok [OF three_streams_ok ap idle] by blast
  then show "represents {0, 1, 2} (abs_add no_children 0 1) small_tree"
    "nghttp2_stream_dep_add three_streams 0 1 = Inr small_tree"
    by (simp_all add: small_tree_def)
qed

lemma small_tree_links:
  "dep_prev (str small_tree 1) = Some 0" "dep_prev (str small_tree 2) = None" "item (str small_tree 1) = None"
  "flags (str small_tree 1) = 0" "weight (str small_tree 1) = 16" "sum_dep_weight (str small_tree 0) = 16"
  "\<not> subtree_active small_tree 2"
  by (simp_all add: small_tree_def nghttp2_stream_dep_add_def add_dep_weight_def three_streams_def
      plain_stream_def nghttp2_stream_init_def i32_range upd_def link_dep_def subtree_active_def
      stream_subtree_active_def stream_active_def nghttp2_pq_empty_def obq_of_def)

text \<open>Stream 1 of the small tree with an item.\<close>

definition busy_tree :: dtree where
  "busy_tree = (case nghttp2_stream_attach_item (\<lambda>_. True) 3 small_tree 1 7 of
     Inr (t, None) \<Rightarrow> t | _ \<Rightarrow> small_tree)"

lemma at_or_below_child:
  assumes "dep_sched V t" "b \<in> V" "dep_prev (str t b) = Some a"
  shows "at_or_below V t a b"
  using assms anc_Some [of "par_of V (str t)" b a] by (simp add: at_or_below_def par_of_def)

lemma no_tree_small: "\<not> no_tree (str small_tree 1)"
  using small_tree_links(4) by (simp add: no_tree_def)

lemma small_tree_start:
  "heaps small_tree 0 = ([], 0)" "dep_prev (str small_tree 0) = None" "last_writelen (str small_tree 1) = 0"
  "pending_penalty (str small_tree 1) = 0" "\<not> queued (str small_tree 1)"
  by (simp_all add: small_tree_def nghttp2_stream_dep_add_def add_dep_weight_def three_streams_def
      plain_stream_def nghttp2_stream_init_def i32_range upd_def link_dep_def subtree_active_def
      stream_subtree_active_def stream_active_def nghttp2_pq_empty_def obq_of_def)

lemma push_first:
  assumes "heaps t d = ([], 0)"
  shows "\<exists>t'. queue_push (\<lambda>_. True) t d s = Inr (t', None) \<and> str t' = str t"
proof -
  have "bubble_up lt p 0 = p" for lt :: "nat \<Rightarrow> nat \<Rightarrow> bool" and p by (subst bubble_up.simps) simp
  then show ?thesis
    using assms by (simp add: queue_push_def nghttp2_pq_push_def obq_of_def store_obq_def)
qed

lemma attach_small: "\<exists>t. nghttp2_stream_attach_item (\<lambda>_. True) 3 small_tree 1 7 = Inr (t, None)"
proof -
  let ?s = "str small_tree 1\<lparr>item := Some 7\<rparr>"
  let ?t1 = "upd (upd small_tree 1 (\<lambda>x. x\<lparr>item := Some 7\<rparr>)) 1
    (\<lambda>_. ?s\<lparr>cycle := descendant_last_cycle (str small_tree 0), pending_penalty := 0,
      seq := descendant_next_seq (str small_tree 0)\<rparr>)"
  let ?t2 = "upd ?t1 0 (\<lambda>x. x\<lparr>descendant_next_seq := descendant_next_seq x + 1\<rparr>)"
  have stepped: "stream_next_cycle ?s l = Inr (?s\<lparr>cycle := l, pending_penalty := 0\<rparr>)" for l
    using small_tree_start small_tree_links by (simp add: stream_next_cycle_def)
  obtain t3 where "queue_push (\<lambda>_. True) ?t2 0 1 = Inr (t3, None)" "str t3 = str ?t2"
    using push_first [of ?t2 0 1] small_tree_start(1) by (auto simp: upd_def)
  then show ?thesis
    using small_tree_start small_tree_links no_tree_small stepped
    by (simp add: nghttp2_stream_attach_item_def stream_update_dep_on_attach_item_def numeral_3_eq_3
        and_ok_def Let_def no_tree_def)
qed

lemma small_tree_sched: "dep_sched {0, 1, 2} small_tree"
  using small_tree_ok(1) representsD by blast

lemma busy_tree_ok:
  "nghttp2_stream_attach_item (\<lambda>_. True) 3 small_tree 1 7 = Inr (busy_tree, None)"
  "item_changed {0, 1, 2} small_tree 1 (\<lambda>x. x\<lparr>item := Some 7\<rparr>) busy_tree"
proof -
  let ?m = "nghttp2_stream_attach_item (\<lambda>_. True) 3 small_tree 1 7"
  have g: "gives ?m (item_changed {0, 1, 2} small_tree 1 (\<lambda>x. x\<lparr>item := Some 7\<rparr>))"
    using small_tree_links no_tree_small by (intro attach_item_ok [OF small_tree_sched]) simp_all
  show eq: "?m = Inr (busy_tree, None)"
    using attach_small by (auto simp: busy_tree_def)
  show "item_changed {0, 1, 2} small_tree 1 (\<lambda>x. x\<lparr>item := Some 7\<rparr>) busy_tree"
    using g eq by simp
qed

lemma busy_tree_active:
  "dep_sched {0, 1, 2} busy_tree" "stream_active (str busy_tree 1)" "at_or_below {0, 1, 2} busy_tree 0 1"
  "\<not> no_tree (str busy_tree 1)" "dep_prev (str busy_tree 1) = Some 0" "weight (str busy_tree 1) = 16"
  "sum_dep_weight (str busy_tree 0) = 16"
proof -
  show ok: "dep_sched {0, 1, 2} busy_tree" using busy_tree_ok(2) by (simp add: item_changed_def)
  have core: "same_core (str (upd small_tree 1 (\<lambda>x. x\<lparr>item := Some 7\<rparr>))) (str busy_tree)"
    using busy_tree_ok(2) by (simp add: item_changed_def)
  note links = same_coreD [OF core] small_tree_links
  show "stream_active (str busy_tree 1)" using links by (simp add: stream_active_def)
  show prev: "dep_prev (str busy_tree 1) = Some 0" "weight (str busy_tree 1) = 16"
    "sum_dep_weight (str busy_tree 0) = 16"
    using links by simp_all
  show "at_or_below {0, 1, 2} busy_tree 0 1" by (rule at_or_below_child [OF ok _ prev(1)]) simp
  have "core (str busy_tree 1) = core (str small_tree 1\<lparr>item := Some 7\<rparr>)"
    using core by (simp add: same_core_def)
  from core_fields [OF this] show "\<not> no_tree (str busy_tree 1)"
    using small_tree_links by (simp add: no_tree_def)
qed

section \<open>Steps on a forest\<close>

text \<open>C7: The six operations that change the dependency tree of RFC 7540 are steps on a forest of lists of
  children: adding a stream, or a stream with all below it, puts it first among the children; inserting it
  hands it the children its new parent had; taking it out with its subtree leaves its siblings; taking it out
  alone puts its children in its place and distributes its weight among them. After each, the links
  between parents, children and siblings agree, every stream knows the sum of the weights of its children, and
  the heap of a stream holds exactly its children that have something to send, whatever had to move from
  one heap to another. The only failure is a lack of memory for a heap; no assertion fails, nothing
  overflows and every loop ends within as many rounds as there are streams.\<close>
theorem dep_tree_operations:
  assumes ok: "represents V f t" and n: "card V \<le> n"
    and ap: "apart V t d s" and c: "c \<in> V" "dep_prev (str t c) = Some e"
  shows "gives (nghttp2_stream_dep_add_subtree alloc n t d s) (represents V (abs_add f d s)) \<and>
    gives (nghttp2_stream_dep_insert_subtree alloc n t d s) (represents V (abs_insert f d s)) \<and>
    (\<not> subtree_active t s \<longrightarrow>
       (\<exists>t'. nghttp2_stream_dep_add t d s = Inr t' \<and> represents V (abs_add f d s) t')) \<and>
    (\<not> subtree_active t s \<and> children f s = [] \<longrightarrow>
       gives (nghttp2_stream_dep_insert alloc n t d s) (represents V (abs_insert f d s))) \<and>
    gives (nghttp2_stream_dep_remove alloc n t c) (represents V (abs_remove f e c)) \<and>
    (\<exists>t'. nghttp2_stream_dep_remove_subtree n t c = Inr t' \<and> represents V (abs_cut f e c) t')"
  using dep_add_subtree_ok [OF ok ap n] dep_insert_subtree_ok [OF ok ap n] dep_add_ok [OF ok ap]
    dep_insert_ok [OF ok ap _ _ n] dep_remove_ok [OF ok c n] dep_remove_subtree_ok [OF ok c n] by blast

theorem dep_tree_operations_witness:
  "gives (nghttp2_stream_dep_insert (\<lambda>_. True) 3 small_tree 0 2)
     (represents {0, 1, 2} (abs_insert (abs_add no_children 0 1) 0 2)) \<and>
   gives (nghttp2_stream_dep_remove (\<lambda>_. True) 3 small_tree 1)
     (represents {0, 1, 2} (abs_remove (abs_add no_children 0 1) 0 1))"
proof -
  have ap: "apart {0, 1, 2} small_tree 0 2"
    by (rule apart_root [OF small_tree_ok(1)]) (simp_all add: small_tree_links abs_add_def no_children_def)
  show ?thesis
    using dep_tree_operations [OF small_tree_ok(1) _ ap _ small_tree_links(1), of 3 "\<lambda>_. True"]
      small_tree_links(7) by (simp add: abs_add_def no_children_def)
qed

section \<open>The next item\<close>

text \<open>C8: Asked for the next item at a stream, usually the root, the scheduler finds one exactly when some
  stream at or below it has an item that is not put off: the search goes down the tops of the heaps, never
  ends at a stream that was queued for nothing, and never overlooks one that is deep in the tree. The item
  is that of such a stream, and updating the cycles on the way keeps the tree.\<close>
theorem next_outbound_item_found:
  assumes "dep_sched V t" and "a \<in> V" and "card V \<le> n"
  shows "\<exists>t' r. nghttp2_stream_next_outbound_item n t a = Inr (t', r) \<and> dep_sched V t' \<and>
    (r \<noteq> None \<longleftrightarrow> (\<exists>b. at_or_below V t a b \<and> stream_active (str t b))) \<and>
    (\<forall>i. r = Some i \<longrightarrow> (\<exists>b. at_or_below V t a b \<and> stream_active (str t b) \<and> item (str t b) = Some i))"
proof -
  obtain t' r where "nghttp2_stream_next_outbound_item n t a = Inr (t', r)" "dep_sched V t'"
    "case r of None \<Rightarrow> \<forall>b. at_or_below V t a b \<longrightarrow> \<not> stream_active (str t b)
     | Some i \<Rightarrow> \<exists>b. at_or_below V t a b \<and> stream_active (str t b) \<and> item (str t b) = Some i"
    using next_outbound_item_ok [OF assms] by blast
  then show ?thesis by (cases r) auto
qed

theorem next_outbound_item_found_witness:
  "\<exists>t' i. nghttp2_stream_next_outbound_item 3 busy_tree 0 = Inr (t', Some i) \<and> dep_sched {0, 1, 2} t'"
  using next_outbound_item_found [OF busy_tree_active(1), of 0 3] busy_tree_active(2,3) by auto

section \<open>Operations on one stream\<close>

lemma deferred_bits:
  "NGHTTP2_STREAM_FLAG_DEFERRED_FLOW_CONTROL AND NGHTTP2_STREAM_FLAG_DEFERRED_ALL \<noteq> 0"
  "NGHTTP2_STREAM_FLAG_DEFERRED_FLOW_CONTROL AND NGHTTP2_STREAM_FLAG_NO_RFC7540_PRIORITIES = 0"
  by (simp_all add: NGHTTP2_STREAM_FLAG_DEFERRED_FLOW_CONTROL_def NGHTTP2_STREAM_FLAG_DEFERRED_ALL_def
      NGHTTP2_STREAM_FLAG_NO_RFC7540_PRIORITIES_def)

text \<open>C22: The operations on one stream of the dependency tree keep the schedule. Taking a stream's item away,
  putting it off and resuming it change that stream's item and flags only, a new weight changes the
  weight and the sum its parent keeps, and starting another round changes neither; attaching and
  resuming may run out of memory for a heap and then say so. After each, a stream is in the heap of its
  parent exactly when it or one below it has something to send, and no assertion fails: in
  particular a stream that is put off leaves the heaps of its ancestors up to the first that has
  something else to send.\<close>
theorem stream_item_operations:
  assumes ok: "dep_sched V t" and n: "card V \<le> n" and s: "s \<in> V"
    and tree: "no_tree (str t s) \<Longrightarrow> dep_prev (str t s) = None"
    and fl: "fl AND NGHTTP2_STREAM_FLAG_DEFERRED_ALL \<noteq> 0" "fl AND NGHTTP2_STREAM_FLAG_NO_RFC7540_PRIORITIES = 0"
    and wt: "1 \<le> wt" "wt \<le> 256"
      "\<And>d. dep_prev (str t s) = Some d \<Longrightarrow> in_i32 (sum_dep_weight (str t d) + (wt - weight (str t s)))"
  shows "(item (str t s) = None \<and> flags (str t s) AND NGHTTP2_STREAM_FLAG_DEFERRED_ALL = 0 \<longrightarrow>
      gives (nghttp2_stream_attach_item alloc n t s it) (item_changed V t s (\<lambda>x. x\<lparr>item := Some it\<rparr>))) \<and>
    (\<exists>t'. nghttp2_stream_detach_item n t s = Inr t' \<and> item_changed V t s (\<lambda>x. x\<lparr>item := None,
       flags := flags x AND NOT NGHTTP2_STREAM_FLAG_DEFERRED_ALL\<rparr>) t') \<and>
    (item (str t s) \<noteq> None \<longrightarrow>
      (\<exists>t'. nghttp2_stream_defer_item n t s fl = Inr t' \<and>
         item_changed V t s (\<lambda>x. x\<lparr>flags := flags x OR fl\<rparr>) t') \<and>
      gives (nghttp2_stream_resume_deferred_item alloc n t s fl)
        (item_changed V t s (\<lambda>x. x\<lparr>flags := flags x AND NOT fl\<rparr>))) \<and>
    (\<exists>t'. nghttp2_stream_change_weight alloc t s wt = Inr t' \<and> dep_sched V t' \<and>
       same_core (with_weight (str t) s wt) (str t')) \<and>
    (queued (str t s) \<longrightarrow>
      (\<exists>t'. nghttp2_stream_reschedule alloc n t s = Inr t' \<and> dep_sched V t' \<and> same_core (str t) (str t')))"
  using attach_item_ok [OF ok s _ _ tree n] detach_item_ok [OF ok s tree n]
    defer_item_ok [OF ok s _ fl tree n] resume_item_ok [OF ok s _ fl(2) tree n]
    change_weight_ok [OF ok s wt] nghttp2_stream_reschedule_ok [OF ok s _ n]
  by (intro conjI impI) simp_all

theorem stream_item_operations_witness:
  "\<exists>t'. nghttp2_stream_detach_item 3 busy_tree 1 = Inr t' \<and> dep_sched {0, 1, 2} t' \<and>
     \<not> stream_active (str t' 1)"
proof -
  have "\<exists>t'. nghttp2_stream_detach_item 3 busy_tree 1 = Inr t' \<and> item_changed {0, 1, 2} busy_tree 1
      (\<lambda>x. x\<lparr>item := None, flags := flags x AND NOT NGHTTP2_STREAM_FLAG_DEFERRED_ALL\<rparr>) t'"
    using stream_item_operations [OF busy_tree_active(1), of 3 1 NGHTTP2_STREAM_FLAG_DEFERRED_FLOW_CONTROL 16]
      busy_tree_active(4-7) deferred_bits by (simp add: i32_range)
  then obtain t' where "nghttp2_stream_detach_item 3 busy_tree 1 = Inr t'" and t': "dep_sched {0, 1, 2} t'"
    "same_core (str (upd busy_tree 1 (\<lambda>x. x\<lparr>item := None,
       flags := flags x AND NOT NGHTTP2_STREAM_FLAG_DEFERRED_ALL\<rparr>))) (str t')"
    unfolding item_changed_def by blast
  moreover have "\<not> stream_active (str t' 1)"
    using same_coreD(7) [OF t'(2), of 1] by (simp add: stream_active_def)
  ultimately show ?thesis by blast
qed

end
