(* ===== verification/Queue.thy ===== *)
theory Queue
  imports Errors
begin

text \<open>
  The two FIFO queues of the library: \<open>nghttp2_queue.c\<close>, a linked list of cells it allocates,
  and the outbound queue of \<open>nghttp2_outbound_item.c\<close>, which links the items themselves.
  Cells live in a store, so that a dangling or shared pointer would show. The locale \<open>fifo\<close> is
  the contract of both; its lemmas are proved once and interpreted on each model.
\<close>

section \<open>Linked lists in a store\<close>

text \<open>\<open>nx a\<close> is the \<open>next\<close> pointer of the object at \<open>a\<close>, \<open>None\<close> where nothing is allocated.\<close>

fun chain :: "(nat \<Rightarrow> nat option option) \<Rightarrow> nat option \<Rightarrow> nat list \<Rightarrow> bool" where
  "chain nx p [] \<longleftrightarrow> p = None"
| "chain nx p (a # as) \<longleftrightarrow> p = Some a \<and> (case nx a of None \<Rightarrow> False | Some p' \<Rightarrow> chain nx p' as)"

lemma chain_other: "a \<notin> set as \<Longrightarrow> chain (nx(a := v)) p as = chain nx p as"
  by (induction as arbitrary: p) (auto split: option.splits)

lemma chain_eq: "(\<And>a. a \<in> set as \<Longrightarrow> nx' a = nx a) \<Longrightarrow> chain nx' p as = chain nx p as"
  by (induction as arbitrary: p) (auto split: option.splits)

lemma chain_allocated: "chain nx p as \<Longrightarrow> a \<in> set as \<Longrightarrow> nx a \<noteq> None"
  by (induction as arbitrary: p) (auto split: option.splits)

lemma chain_snoc:
  assumes "chain nx p (as @ [b])" "distinct (as @ [b])" "n \<notin> set (as @ [b])"
    and "\<And>a. a \<in> set as \<Longrightarrow> nx' a = nx a" "nx' b = Some (Some n)" "nx' n = Some None"
  shows "chain nx' p (as @ [b, n])"
  using assms
proof (induction as arbitrary: p)
  case (Cons a as)
  then show ?case by (auto split: option.splits)
qed (auto split: option.splits)

text \<open>A queue of the objects \<open>as\<close>, from the pointer to the first to the pointer to the last.\<close>

definition linked :: "(nat \<Rightarrow> nat option option) \<Rightarrow> nat option \<Rightarrow> nat option \<Rightarrow> nat list \<Rightarrow> bool" where
  "linked nx first final as \<longleftrightarrow> chain nx first as \<and> distinct as \<and>
     final = (if as = [] then None else Some (last as))"

lemma linked_nil [simp]: "linked nx p b [] \<longleftrightarrow> p = None \<and> b = None"
  by (auto simp: linked_def)

lemma linked_single: "nx' n = Some None \<Longrightarrow> linked nx' (Some n) (Some n) [n]"
  by (simp add: linked_def)

lemma linked_push:
  assumes "linked nx p (Some b) as" "as \<noteq> []" "n \<notin> set as"
    and nx': "\<And>a. a \<in> set as \<Longrightarrow> a \<noteq> b \<Longrightarrow> nx' a = nx a" "nx' b = Some (Some n)" "nx' n = Some None"
  shows "linked nx' p (Some n) (as @ [n])"
proof -
  obtain bs where as: "as = bs @ [b]"
    using assms(1,2) by (metis append_butlast_last_id linked_def option.inject)
  then have "chain nx' p (bs @ [b, n])"
    using assms by (intro chain_snoc [of nx]) (auto simp: linked_def)
  then show ?thesis using assms(1,3) as by (auto simp: linked_def)
qed

lemma linked_cons_iff:
  "linked nx p b (a # as) \<Longrightarrow>
     p = Some a \<and> (\<exists>p'. nx a = Some p' \<and> linked nx p' (if as = [] then None else b) as)"
  by (auto simp: linked_def split: option.splits)

lemma linked_tl:
  assumes "linked nx p b (a # as)" "\<And>c. c \<in> set as \<Longrightarrow> nx' c = nx c" "nx a = Some p'"
  shows "linked nx' p' (if as = [] then None else b) as"
  using assms chain_eq [of as nx' nx p'] by (auto simp: linked_def)

section \<open>The contract of a queue\<close>

text \<open>\<open>rep s xs\<close>: the state \<open>s\<close> holds the elements \<open>xs\<close>, the oldest first. \<open>fresh s e\<close> is what a
  client must know to push: that the object it hands over is not in the queue already.\<close>

locale fifo =
  fixes rep :: "'s \<Rightarrow> 'a list \<Rightarrow> bool"
    and fresh :: "'s \<Rightarrow> 'a \<Rightarrow> bool"
    and push :: "'s \<Rightarrow> 'a \<Rightarrow> 's res"
    and pop :: "'s \<Rightarrow> 's res"
    and peek :: "'s \<Rightarrow> 'a res"
  assumes push_rep: "rep s xs \<Longrightarrow> fresh s x \<Longrightarrow> \<exists>s'. push s x = Inr s' \<and> rep s' (xs @ [x])"
    and pop_rep: "rep s (x # xs) \<Longrightarrow> \<exists>s'. pop s = Inr s' \<and> rep s' xs"
    and peek_rep: "rep s (x # xs) \<Longrightarrow> peek s = Inr x"
begin

text \<open>Taking \<open>n\<close> elements out, one after the other.\<close>

fun drain :: "nat \<Rightarrow> 's \<Rightarrow> ('a list \<times> 's) res" where
  "drain 0 s = Inr ([], s)"
| "drain (Suc n) s =
     rbind (peek s) (\<lambda>x. rbind (pop s) (\<lambda>s'. rbind (drain n s') (\<lambda>(xs, s''). Inr (x # xs, s''))))"

lemma drain_rep:
  "rep s xs \<Longrightarrow> n \<le> length xs \<Longrightarrow> \<exists>s'. drain n s = Inr (take n xs, s') \<and> rep s' (drop n xs)"
proof (induction n arbitrary: s xs)
  case (Suc n)
  then obtain x ys where xs: "xs = x # ys" by (cases xs) auto
  obtain s' where s': "pop s = Inr s'" "rep s' ys" using pop_rep Suc.prems xs by blast
  have "\<exists>s''. drain n s' = Inr (take n ys, s'') \<and> rep s'' (drop n ys)"
    using Suc.IH [OF s'(2)] Suc.prems xs by simp
  then show ?case using s' xs peek_rep Suc.prems(1) by auto
qed simp

lemma push_drain:
  assumes "rep s xs" "fresh s x"
  shows "\<exists>s' s''. push s x = Inr s' \<and> drain (Suc (length xs)) s' = Inr (xs @ [x], s'') \<and>
           rep s'' []"
proof -
  obtain s' where "push s x = Inr s'" "rep s' (xs @ [x])" using push_rep [OF assms] by blast
  then show ?thesis using drain_rep [of s' "xs @ [x]" "Suc (length xs)"] by auto
qed

end

section \<open>nghttp2_queue\<close>

record cell =
  cell_data :: nat
  cell_next :: "nat option"

text \<open>The heap of cells, the queue, and the answer of the next call of \<open>malloc\<close>.\<close>

record nghttp2_queue =
  cells :: "nat \<Rightarrow> cell option"
  q_front :: "nat option"
  q_back :: "nat option"

definition nghttp2_queue_init :: "nghttp2_queue \<Rightarrow> nghttp2_queue" where
  "nghttp2_queue_init qu = qu\<lparr>q_front := None, q_back := None\<rparr>"

definition nghttp2_queue_push :: "nat option \<Rightarrow> nghttp2_queue \<Rightarrow> nat \<Rightarrow> nghttp2_queue res" where
  "nghttp2_queue_push new_cell qu x =
     (case new_cell of
        None \<Rightarrow> Inl (Code NGHTTP2_ERR_NOMEM)
      | Some n \<Rightarrow>
          let heap = (cells qu)(n \<mapsto> \<lparr>cell_data = x, cell_next = None\<rparr>) in
          (case q_back qu of
             Some b \<Rightarrow>
               (case heap b of
                  None \<Rightarrow> Inl Undefined
                | Some c \<Rightarrow> Inr (qu\<lparr>cells := heap(b \<mapsto> c\<lparr>cell_next := Some n\<rparr>), q_back := Some n\<rparr>))
           | None \<Rightarrow> Inr (qu\<lparr>cells := heap, q_front := Some n, q_back := Some n\<rparr>)))"

definition nghttp2_queue_pop :: "nghttp2_queue \<Rightarrow> nghttp2_queue res" where
  "nghttp2_queue_pop qu =
     (case q_front qu of
        None \<Rightarrow> Inl Assert_failed
      | Some f \<Rightarrow>
          rbind (of_option (cells qu f)) (\<lambda>c.
          Inr (qu\<lparr>cells := (cells qu)(f := None), q_front := cell_next c,
                  q_back := (if Some f = q_back qu then None else q_back qu)\<rparr>)))"

definition nghttp2_queue_front :: "nghttp2_queue \<Rightarrow> nat res" where
  "nghttp2_queue_front qu =
     (case q_front qu of None \<Rightarrow> Inl Assert_failed
      | Some f \<Rightarrow> rbind (of_option (cells qu f)) (\<lambda>c. Inr (cell_data c)))"

definition nghttp2_queue_back :: "nghttp2_queue \<Rightarrow> nat res" where
  "nghttp2_queue_back qu =
     (case q_back qu of None \<Rightarrow> Inl Assert_failed
      | Some f \<Rightarrow> rbind (of_option (cells qu f)) (\<lambda>c. Inr (cell_data c)))"

definition nghttp2_queue_empty :: "nghttp2_queue \<Rightarrow> bool" where
  "nghttp2_queue_empty qu \<longleftrightarrow> q_front qu = None"

text \<open>\<open>nghttp2_queue_free\<close> walks the list and frees every cell; the fuel bounds the walk.\<close>

fun free_cells :: "nat \<Rightarrow> (nat \<Rightarrow> cell option) \<Rightarrow> nat option \<Rightarrow> (nat \<Rightarrow> cell option) res" where
  "free_cells n heap None = Inr heap"
| "free_cells 0 heap (Some p) = Inl Undefined"
| "free_cells (Suc n) heap (Some p) =
     rbind (of_option (heap p)) (\<lambda>c. free_cells n (heap(p := None)) (cell_next c))"

definition nghttp2_queue_free :: "nat \<Rightarrow> nghttp2_queue \<Rightarrow> nghttp2_queue res" where
  "nghttp2_queue_free fuel qu =
     rbind (free_cells fuel (cells qu) (q_front qu)) (\<lambda>heap. Inr (qu\<lparr>cells := heap\<rparr>))"

text \<open>The queue holds the data \<open>xs\<close>, in cells that are allocated and not shared.\<close>

definition queue_rep :: "nghttp2_queue \<Rightarrow> nat list \<Rightarrow> bool" where
  "queue_rep qu xs \<longleftrightarrow>
     (\<exists>as. linked (\<lambda>a. map_option cell_next (cells qu a)) (q_front qu) (q_back qu) as \<and>
           map (\<lambda>a. map_option cell_data (cells qu a)) as = map Some xs)"

text \<open>An allocator that answers with memory not in use.\<close>

definition queue_fresh :: "(nghttp2_queue \<Rightarrow> nat) \<Rightarrow> nghttp2_queue \<Rightarrow> nat \<Rightarrow> bool" where
  "queue_fresh alloc qu x \<longleftrightarrow> cells qu (alloc qu) = None"

lemma queue_push_rep:
  assumes rep: "queue_rep qu xs" and n: "cells qu n = None"
  shows "\<exists>qu'. nghttp2_queue_push (Some n) qu x = Inr qu' \<and> queue_rep qu' (xs @ [x])"
proof -
  let ?nx = "\<lambda>qu a. map_option cell_next (cells qu a)"
  obtain as where as: "linked (?nx qu) (q_front qu) (q_back qu) as"
    and xs: "map (\<lambda>a. map_option cell_data (cells qu a)) as = map Some xs"
    using rep by (auto simp: queue_rep_def)
  have alloc: "\<And>a. a \<in> set as \<Longrightarrow> cells qu a \<noteq> None"
    using as chain_allocated by (fastforce simp: linked_def)
  then have n_new: "n \<notin> set as" using n by metis
  show ?thesis
  proof (cases "as = []")
    case True
    then have "q_back qu = None" "xs = []" using as xs by auto
    then show ?thesis
      by (auto simp: nghttp2_queue_push_def Let_def queue_rep_def linked_single
          intro!: exI [of _ "[n]"])
  next
    case False
    then obtain b where b: "q_back qu = Some b" "b = last as" using as by (simp add: linked_def)
    then have bs: "b \<in> set as" "b \<noteq> n" using False n_new by auto
    then obtain c where c: "cells qu b = Some c" using alloc by auto
    let ?qu = "qu\<lparr>cells := (cells qu)(n \<mapsto> \<lparr>cell_data = x, cell_next = None\<rparr>,
                                      b \<mapsto> c\<lparr>cell_next := Some n\<rparr>), q_back := Some n\<rparr>"
    have "nghttp2_queue_push (Some n) qu x = Inr ?qu"
      using b c bs by (simp add: nghttp2_queue_push_def Let_def)
    moreover have "linked (?nx ?qu) (q_front ?qu) (q_back ?qu) (as @ [n])"
    proof -
      have "linked (?nx ?qu) (q_front qu) (Some n) (as @ [n])"
      proof (rule linked_push [OF as [unfolded b(1)] False n_new])
        show "\<And>a. a \<in> set as \<Longrightarrow> a \<noteq> b \<Longrightarrow> ?nx ?qu a = ?nx qu a" using n_new by auto
      qed (use bs in simp_all)
      then show ?thesis by simp
    qed
    moreover have "map (\<lambda>a. map_option cell_data (cells ?qu a)) as =
        map (\<lambda>a. map_option cell_data (cells qu a)) as"
      using n_new c by (intro map_cong) auto
    then have "map (\<lambda>a. map_option cell_data (cells ?qu a)) (as @ [n]) = map Some (xs @ [x])"
      using xs bs by simp
    ultimately show ?thesis unfolding queue_rep_def by blast
  qed
qed

lemma queue_pop_rep:
  assumes rep: "queue_rep qu (x # xs)"
  shows "\<exists>qu'. nghttp2_queue_pop qu = Inr qu' \<and> queue_rep qu' xs"
    and "nghttp2_queue_front qu = Inr x"
proof -
  let ?nx = "\<lambda>qu a. map_option cell_next (cells qu a)"
  obtain as0 where as0: "linked (?nx qu) (q_front qu) (q_back qu) as0"
    and xs0: "map (\<lambda>a. map_option cell_data (cells qu a)) as0 = map Some (x # xs)"
    using rep by (auto simp: queue_rep_def)
  then obtain a as where eq: "as0 = a # as" by (cases as0) auto
  note as = as0 [unfolded eq] and xs = xs0 [unfolded eq]
  obtain c where f: "q_front qu = Some a" and c: "cells qu a = Some c" "cell_data c = x"
    using linked_cons_iff [OF as] xs by auto
  have a_new: "a \<notin> set as" using as by (simp add: linked_def)
  let ?qu = "qu\<lparr>cells := (cells qu)(a := None), q_front := cell_next c,
                q_back := (if Some a = q_back qu then None else q_back qu)\<rparr>"
  have "Some a = q_back qu \<longleftrightarrow> as = []"
    using as a_new by (auto simp: linked_def split: if_splits)
  moreover have "linked (?nx ?qu) (cell_next c) (if as = [] then None else q_back qu) as"
  proof (rule linked_tl [OF as])
    show "\<And>b. b \<in> set as \<Longrightarrow> ?nx ?qu b = ?nx qu b" using a_new by auto
  qed (simp add: c)
  ultimately have "linked (?nx ?qu) (q_front ?qu) (q_back ?qu) as" by simp
  moreover have "map (\<lambda>b. map_option cell_data (cells ?qu b)) as =
      map (\<lambda>b. map_option cell_data (cells qu b)) as"
    using a_new by (intro map_cong) auto
  then have "map (\<lambda>b. map_option cell_data (cells ?qu b)) as = map Some xs"
    by (rule trans) (use xs in simp)
  moreover have "nghttp2_queue_pop qu = Inr ?qu"
    using f c by (simp add: nghttp2_queue_pop_def)
  ultimately show "\<exists>qu'. nghttp2_queue_pop qu = Inr qu' \<and> queue_rep qu' xs"
    unfolding queue_rep_def by blast
  show "nghttp2_queue_front qu = Inr x"
    using f c by (simp add: nghttp2_queue_front_def)
qed

interpretation lq: fifo queue_rep "queue_fresh alloc"
  "\<lambda>qu. nghttp2_queue_push (Some (alloc qu)) qu" nghttp2_queue_pop nghttp2_queue_front
  for alloc :: "nghttp2_queue \<Rightarrow> nat"
  by unfold_locales (auto simp: queue_fresh_def intro: queue_push_rep queue_pop_rep)

text \<open>\<open>nghttp2_queue\<close> is first-in first-out: when the allocator provides a cell, a push
  succeeds, and popping as many elements as there are yields the old ones in order and the new
  one last and leaves the queue empty, without touching memory that is not its own. When the
  allocator has none, the push reports NGHTTP2_ERR_NOMEM.\<close>
theorem nghttp2_queue_fifo:
  assumes "queue_rep qu xs" and "cells qu (alloc qu) = None"
  shows "(\<exists>qu' qu''. nghttp2_queue_push (Some (alloc qu)) qu x = Inr qu' \<and>
            lq.drain (Suc (length xs)) qu' = Inr (xs @ [x], qu'') \<and> queue_rep qu'' [] \<and>
            nghttp2_queue_empty qu'') \<and>
         nghttp2_queue_push None qu x = Inl (Code NGHTTP2_ERR_NOMEM)"
proof -
  have "\<And>qu. queue_rep qu [] \<Longrightarrow> nghttp2_queue_empty qu"
    by (simp add: queue_rep_def nghttp2_queue_empty_def)
  then show ?thesis
    using lq.push_drain [of qu xs alloc x] assms
    by (auto simp: queue_fresh_def nghttp2_queue_push_def)
qed

definition example_queue :: nghttp2_queue where
  "example_queue = \<lparr>cells = [1 \<mapsto> \<lparr>cell_data = 7, cell_next = None\<rparr>],
                    q_front = Some 1, q_back = Some 1\<rparr>"

lemma example_queue_rep: "queue_rep example_queue [7]"
  unfolding queue_rep_def example_queue_def
  by (rule exI [of _ "[1]"]) (simp add: linked_def)

theorem nghttp2_queue_fifo_witness:
  "\<exists>qu' qu''. nghttp2_queue_push (Some 2) example_queue 9 = Inr qu' \<and>
     lq.drain (Suc (length [7])) qu' = Inr ([7] @ [9], qu'') \<and> nghttp2_queue_empty qu''"
  using nghttp2_queue_fifo [OF example_queue_rep, of "\<lambda>_. 2" 9]
  by (auto simp: example_queue_def)

lemma free_cells_rep:
  assumes "chain (\<lambda>a. map_option cell_next (cl a)) p as" "distinct as" "length as \<le> n"
  shows "free_cells n cl p = Inr (\<lambda>a. if a \<in> set as then None else cl a)"
  using assms
proof (induction as arbitrary: cl p n)
  case (Cons a as)
  then obtain c m where c: "p = Some a" "cl a = Some c" "n = Suc m"
    "chain (\<lambda>a. map_option cell_next (cl a)) (cell_next c) as" "length as \<le> m"
    by (cases n) (auto split: option.splits)
  let ?cl = "cl(a := None)"
  have "chain (\<lambda>a. map_option cell_next (?cl a)) (cell_next c) as"
  proof (subst chain_eq [where nx = "\<lambda>a. map_option cell_next (cl a)"])
    show "\<And>b. b \<in> set as \<Longrightarrow> map_option cell_next (?cl b) = map_option cell_next (cl b)"
      using Cons.prems(2) by auto
  qed (rule c(4))
  then have "free_cells m ?cl (cell_next c) = Inr (\<lambda>b. if b \<in> set as then None else ?cl b)"
    by (rule Cons.IH) (use Cons.prems(2) c(5) in auto)
  then show ?case using c(1-3) by (auto simp: fun_eq_iff)
qed simp

text \<open>Freeing a queue terminates, frees each of its cells once and no other memory, and
  leaves none of them allocated.\<close>
theorem nghttp2_queue_free_correct:
  assumes "linked (\<lambda>a. map_option cell_next (cells qu a)) (q_front qu) (q_back qu) as"
    and "length as \<le> fuel"
  shows "nghttp2_queue_free fuel qu =
           Inr (qu\<lparr>cells := (\<lambda>a. if a \<in> set as then None else cells qu a)\<rparr>)"
  using assms free_cells_rep [of "cells qu" "q_front qu" as fuel]
  by (simp add: linked_def nghttp2_queue_free_def)

theorem nghttp2_queue_free_correct_witness:
  "nghttp2_queue_free 1 example_queue =
     Inr (example_queue\<lparr>cells := (\<lambda>a. if a \<in> set [1] then None else cells example_queue a)\<rparr>)"
  by (rule nghttp2_queue_free_correct) (simp_all add: example_queue_def linked_def)

section \<open>nghttp2_outbound_queue\<close>

text \<open>The queue links the items; \<open>qnext\<close> is the field of that name of every allocated item.\<close>

record nghttp2_outbound_queue =
  qnext :: "nat \<Rightarrow> nat option option"
  head_item :: "nat option"
  tail_item :: "nat option"
  n_items :: u32

definition nghttp2_outbound_queue_init :: "nghttp2_outbound_queue \<Rightarrow> nghttp2_outbound_queue" where
  "nghttp2_outbound_queue_init qu = qu\<lparr>head_item := None, tail_item := None, n_items := 0\<rparr>"

definition nghttp2_outbound_queue_push ::
  "nghttp2_outbound_queue \<Rightarrow> nat \<Rightarrow> nghttp2_outbound_queue res" where
  "nghttp2_outbound_queue_push qu e =
     (case tail_item qu of
        Some t \<Rightarrow>
          if qnext qu t = None then Inl Undefined
          else Inr (qu\<lparr>qnext := (qnext qu)(t \<mapsto> Some e), tail_item := Some e,
                       n_items := n_items qu + 1\<rparr>)
      | None \<Rightarrow> Inr (qu\<lparr>head_item := Some e, tail_item := Some e, n_items := n_items qu + 1\<rparr>))"

definition nghttp2_outbound_queue_pop ::
  "nghttp2_outbound_queue \<Rightarrow> nghttp2_outbound_queue res" where
  "nghttp2_outbound_queue_pop qu =
     (case head_item qu of
        None \<Rightarrow> Inr qu
      | Some h \<Rightarrow>
          rbind (of_option (qnext qu h)) (\<lambda>h'.
          Inr (qu\<lparr>qnext := (qnext qu)(h \<mapsto> None), head_item := h',
                  tail_item := (if h' = None then None else tail_item qu),
                  n_items := n_items qu - 1\<rparr>)))"

definition nghttp2_outbound_queue_top :: "nghttp2_outbound_queue \<Rightarrow> nat option" where
  "nghttp2_outbound_queue_top qu = head_item qu"

definition nghttp2_outbound_queue_size :: "nghttp2_outbound_queue \<Rightarrow> u32" where
  "nghttp2_outbound_queue_size qu = n_items qu"

definition outbound_rep :: "nghttp2_outbound_queue \<Rightarrow> nat list \<Rightarrow> bool" where
  "outbound_rep qu es \<longleftrightarrow> linked (qnext qu) (head_item qu) (tail_item qu) es \<and>
     n_items qu = of_nat (length es)"

text \<open>An item that may be pushed is allocated, is linked to nothing, and is not the tail.\<close>

definition outbound_fresh :: "nghttp2_outbound_queue \<Rightarrow> nat \<Rightarrow> bool" where
  "outbound_fresh qu e \<longleftrightarrow> qnext qu e = Some None \<and> tail_item qu \<noteq> Some e"

lemma chain_end: "chain nx p as \<Longrightarrow> a \<in> set as \<Longrightarrow> nx a = Some None \<Longrightarrow> a = last as"
  by (induction as arbitrary: p) (auto split: option.splits elim: chain.elims)

lemma outbound_push_rep:
  assumes rep: "outbound_rep qu es" and fresh: "outbound_fresh qu e"
  shows "\<exists>qu'. nghttp2_outbound_queue_push qu e = Inr qu' \<and> outbound_rep qu' (es @ [e])"
proof -
  have l: "linked (qnext qu) (head_item qu) (tail_item qu) es" using rep by (simp add: outbound_rep_def)
  show ?thesis
  proof (cases "es = []")
    case True
    then show ?thesis using rep fresh
      by (simp add: outbound_rep_def outbound_fresh_def nghttp2_outbound_queue_push_def
          linked_single)
  next
    case False
    then obtain t where t: "tail_item qu = Some t" "t = last es" "t \<in> set es"
      using l by (auto simp: linked_def)
    have e: "e \<notin> set es" "e \<noteq> t"
      using fresh l t chain_end by (auto simp: outbound_fresh_def linked_def)
    have "linked ((qnext qu)(t \<mapsto> Some e)) (head_item qu) (Some e) (es @ [e])"
    proof (rule linked_push [OF l [unfolded t(1)] False e(1)])
      show "\<And>a. a \<in> set es \<Longrightarrow> a \<noteq> t \<Longrightarrow> ((qnext qu)(t \<mapsto> Some e)) a = qnext qu a" by simp
    qed (use fresh e in \<open>simp_all add: outbound_fresh_def\<close>)
    moreover have "qnext qu t \<noteq> None" using l t chain_allocated by (auto simp: linked_def)
    ultimately show ?thesis using rep t
      by (simp add: outbound_rep_def nghttp2_outbound_queue_push_def)
  qed
qed

lemma outbound_pop_rep:
  assumes rep: "outbound_rep qu (e # es)"
  shows "\<exists>qu'. nghttp2_outbound_queue_pop qu = Inr qu' \<and> outbound_rep qu' es \<and>
               qnext qu' e = Some None"
    and "nghttp2_outbound_queue_top qu = Some e"
proof -
  have l: "linked (qnext qu) (head_item qu) (tail_item qu) (e # es)"
    using rep by (simp add: outbound_rep_def)
  obtain h' where h': "head_item qu = Some e" "qnext qu e = Some h'"
    and l': "linked (qnext qu) h' (if es = [] then None else tail_item qu) es"
    using linked_cons_iff [OF l] by auto
  have "linked ((qnext qu)(e \<mapsto> None)) h' (if es = [] then None else tail_item qu) es"
    by (rule linked_tl [OF l _ h'(2)]) (use l in \<open>auto simp: linked_def\<close>)
  moreover have "h' = None \<longleftrightarrow> es = []" using l' by (cases es) (auto simp: linked_def)
  ultimately show "\<exists>qu'. nghttp2_outbound_queue_pop qu = Inr qu' \<and> outbound_rep qu' es \<and>
      qnext qu' e = Some None"
    using rep h' by (auto simp: outbound_rep_def nghttp2_outbound_queue_pop_def)
  show "nghttp2_outbound_queue_top qu = Some e"
    using h' by (simp add: nghttp2_outbound_queue_top_def)
qed

interpretation oq: fifo outbound_rep outbound_fresh nghttp2_outbound_queue_push
  nghttp2_outbound_queue_pop "\<lambda>qu. of_option (nghttp2_outbound_queue_top qu)"
  using outbound_push_rep outbound_pop_rep by unfold_locales fastforce+

text \<open>C36: The outbound queue is first-in first-out: an item that is allocated and not queued
  can always be pushed, and popping every element yields the items in the order they came,
  so that none is lost, repeated or overtaken. The operations never follow a dangling pointer.\<close>
theorem nghttp2_outbound_queue_fifo:
  assumes "outbound_rep qu es" and "outbound_fresh qu e"
  shows "\<exists>qu' qu''. nghttp2_outbound_queue_push qu e = Inr qu' \<and>
           nghttp2_outbound_queue_size qu' = of_nat (length es + 1) \<and>
           oq.drain (Suc (length es)) qu' = Inr (es @ [e], qu'') \<and> outbound_rep qu'' []"
  using oq.push_drain [OF assms] outbound_push_rep [OF assms]
  by (auto simp: outbound_rep_def nghttp2_outbound_queue_size_def)

theorem nghttp2_outbound_queue_fifo_witness:
  "\<exists>qu' qu''. nghttp2_outbound_queue_push
       \<lparr>qnext = [1 \<mapsto> None, 2 \<mapsto> None], head_item = Some 1, tail_item = Some 1, n_items = 1\<rparr> 2
       = Inr qu' \<and>
     oq.drain (Suc (length [1])) qu' = Inr ([1] @ [2], qu'')"
  using nghttp2_outbound_queue_fifo
    [of "\<lparr>qnext = [1 \<mapsto> None, 2 \<mapsto> None], head_item = Some 1, tail_item = Some 1, n_items = 1\<rparr>"
        "[1]" 2]
  by (auto simp: outbound_rep_def outbound_fresh_def linked_def)

end
