(* ===== verification/App.thy ===== *)
theory App
  imports Prelude
begin

text \<open>
  \<open>main/main.c\<close>: the firmware's \<open>app_main\<close>, which sets up an audio pipeline from the
  microphone to the speaker of the board and then counts seconds for ever. The audio framework
  and the operating system are not part of the repository: each call of them is an event of
  the trace, and the handle it returns is a parameter, an environment \<open>env\<close> that may answer
  differently at every point. \<open>proto_step\<close> is the order of calls the framework asks for.
\<close>

section \<open>Configuration\<close>

text \<open>A field of a configuration is a number, a flag, or a macro of the framework.\<close>

datatype cfg_value = Num int | Flag bool | Sym string | Flags "string list"

record i2s_config =
  mode :: cfg_value
  sample_rate :: cfg_value
  bits_per_sample :: cfg_value
  channel_format :: cfg_value
  communication_format :: cfg_value
  intr_alloc_flags :: cfg_value
  dma_buf_count :: cfg_value
  dma_buf_len :: cfg_value
  use_apll :: cfg_value
  tx_desc_auto_clear :: cfg_value
  fixed_mclk :: cfg_value

record i2s_stream_cfg =
  stream_type :: cfg_value
  i2s_cfg :: i2s_config
  i2s_port :: cfg_value
  use_alc :: cfg_value
  volume :: cfg_value
  out_rb_size :: cfg_value
  task_stack :: cfg_value
  task_core :: cfg_value
  task_prio :: cfg_value
  stack_in_ext :: cfg_value
  multi_out_num :: cfg_value
  uninstall_drv :: cfg_value
  need_expand :: cfg_value
  expand_src_bits :: cfg_value
  buffer_len :: cfg_value

definition I2S_STREAM_CUSTOM_READ_CFG :: i2s_stream_cfg where
  "I2S_STREAM_CUSTOM_READ_CFG =
     \<lparr>stream_type = Sym ''AUDIO_STREAM_READER'',
      i2s_cfg =
        \<lparr>mode = Flags [''I2S_MODE_MASTER'', ''I2S_MODE_TX'', ''I2S_MODE_RX''],
         sample_rate = Num 22050,
         bits_per_sample = Sym ''I2S_BITS_PER_SAMPLE_16BIT'',
         channel_format = Sym ''I2S_CHANNEL_FMT_ONLY_LEFT'',
         communication_format = Sym ''I2S_COMM_FORMAT_STAND_I2S'',
         intr_alloc_flags = Flags [''ESP_INTR_FLAG_LEVEL2'', ''ESP_INTR_FLAG_IRAM''],
         dma_buf_count = Num 2,
         dma_buf_len = Num 900,
         use_apll = Flag True,
         tx_desc_auto_clear = Flag True,
         fixed_mclk = Num 0\<rparr>,
      i2s_port = Sym ''I2S_NUM_0'',
      use_alc = Num 0,
      volume = Num 3,
      out_rb_size = Sym ''I2S_STREAM_RINGBUFFER_SIZE'',
      task_stack = Sym ''I2S_STREAM_TASK_STACK'',
      task_core = Sym ''I2S_STREAM_TASK_CORE'',
      task_prio = Sym ''I2S_STREAM_TASK_PRIO'',
      stack_in_ext = Flag False,
      multi_out_num = Num 0,
      uninstall_drv = Flag True,
      need_expand = Flag False,
      expand_src_bits = Sym ''I2S_BITS_PER_SAMPLE_16BIT'',
      buffer_len = Num 900\<rparr>"

definition I2S_STREAM_CUSTOM_WRITE_CFG :: i2s_stream_cfg where
  "I2S_STREAM_CUSTOM_WRITE_CFG =
     \<lparr>stream_type = Sym ''AUDIO_STREAM_WRITER'',
      i2s_cfg =
        \<lparr>mode = Flags [''I2S_MODE_MASTER'', ''I2S_MODE_TX'', ''I2S_MODE_RX''],
         sample_rate = Num 22050,
         bits_per_sample = Sym ''I2S_BITS_PER_SAMPLE_16BIT'',
         channel_format = Sym ''I2S_CHANNEL_FMT_ONLY_RIGHT'',
         communication_format = Sym ''I2S_COMM_FORMAT_STAND_I2S'',
         intr_alloc_flags = Flags [''ESP_INTR_FLAG_LEVEL2'', ''ESP_INTR_FLAG_IRAM''],
         dma_buf_count = Num 2,
         dma_buf_len = Num 900,
         use_apll = Flag True,
         tx_desc_auto_clear = Flag True,
         fixed_mclk = Num 0\<rparr>,
      i2s_port = Sym ''I2S_NUM_1'',
      use_alc = Num 0,
      volume = Num 50,
      out_rb_size = Sym ''I2S_STREAM_RINGBUFFER_SIZE'',
      task_stack = Sym ''I2S_STREAM_TASK_STACK'',
      task_core = Num 1,
      task_prio = Sym ''I2S_STREAM_TASK_PRIO'',
      stack_in_ext = Flag False,
      multi_out_num = Num 0,
      uninstall_drv = Flag True,
      need_expand = Flag False,
      expand_src_bits = Sym ''I2S_BITS_PER_SAMPLE_16BIT'',
      buffer_len = Num 900\<rparr>"

section \<open>Calls of the framework\<close>

text \<open>A handle is a number, 0 the null pointer.\<close>

type_synonym handle = nat

datatype (plugins only: code size) call =
    Audio_board_init
  | Esp_log_level_set string string
  | Esp_periph_set_init
  | Audio_hal_ctrl_codec handle
  | Audio_pipeline_init
  | I2s_stream_init i2s_stream_cfg
  | Audio_pipeline_register handle handle string
  | Audio_pipeline_link handle "string list" nat
  | Audio_event_iface_init
  | Audio_pipeline_set_listener handle handle
  | Audio_pipeline_run handle
  | VTaskDelay nat
  | Log_info string
  | Log_seconds int
  | Audio_pipeline_stop handle
  | Audio_pipeline_wait_for_stop handle
  | Audio_pipeline_terminate handle
  | Audio_pipeline_unregister handle handle
  | Audio_pipeline_remove_listener handle
  | Audio_event_iface_destroy handle
  | Audio_pipeline_deinit handle
  | Audio_element_deinit handle

text \<open>The environment answers each call, knowing the trace so far. \<open>hal_of\<close> reads the field
  \<open>audio_hal\<close> of the board object the framework returned.\<close>

record env =
  answer :: "(call \<times> handle) list \<Rightarrow> call \<Rightarrow> handle"
  hal_of :: "handle \<Rightarrow> handle"
  portTICK_PERIOD_MS :: nat

type_synonym event = "call \<times> handle"
type_synonym 'a io = "event list \<Rightarrow> (unit fault + 'a) \<times> event list"

definition io_return :: "'a \<Rightarrow> 'a io" where
  "io_return x tr = (Inr x, tr)"

definition io_fail :: "unit fault \<Rightarrow> 'a io" where
  "io_fail f tr = (Inl f, tr)"

definition io_bind :: "'a io \<Rightarrow> ('a \<Rightarrow> 'b io) \<Rightarrow> 'b io" where
  "io_bind m k tr = (case m tr of (Inl f, tr') \<Rightarrow> (Inl f, tr') | (Inr x, tr') \<Rightarrow> k x tr')"

definition io_call :: "env \<Rightarrow> call \<Rightarrow> handle io" where
  "io_call e c tr = (Inr (answer e tr c), tr @ [(c, answer e tr c)])"

fun io_calls :: "env \<Rightarrow> call list \<Rightarrow> unit io" where
  "io_calls e [] = io_return ()"
| "io_calls e (c # cs) = io_bind (io_call e c) (\<lambda>_. io_calls e cs)"

lemmas io_defs = io_return_def io_fail_def io_bind_def io_call_def

section \<open>The program\<close>

record handles =
  pipeline :: handle
  i2s_reader :: handle
  i2s_writer :: handle
  evt :: handle

definition log_levels :: "env \<Rightarrow> unit io" where
  "log_levels e = io_calls e
     [Esp_log_level_set ''*'' ''ESP_LOG_WARN'', Esp_log_level_set ''monitoring'' ''ESP_LOG_INFO'']"

definition link_tag :: "string list" where
  "link_tag = [''i2sr'', ''i2sw'']"

text \<open>From the entry of \<open>app_main\<close> to the loop.\<close>

definition app_setup :: "env \<Rightarrow> handles io" where
  "app_setup e =
     io_bind (io_call e Audio_board_init) (\<lambda>board_handle.
     io_bind (log_levels e) (\<lambda>_.
     io_bind (io_call e Esp_periph_set_init) (\<lambda>_.
     io_bind (if board_handle = 0 then io_fail Undefined
              else io_call e (Audio_hal_ctrl_codec (hal_of e board_handle))) (\<lambda>_.
     io_bind (io_call e (Log_info ''1) Configured and initialised codec chip'')) (\<lambda>_.
     io_bind (io_call e Audio_pipeline_init) (\<lambda>pl.
     io_bind (if pl = 0 then io_fail Assert_failed else io_return ()) (\<lambda>_.
     io_bind (io_call e (Log_info ''2) Initialised pipeline'')) (\<lambda>_.
     io_bind (io_call e (I2s_stream_init (I2S_STREAM_CUSTOM_READ_CFG
                \<lparr>stream_type := Sym ''AUDIO_STREAM_READER'', i2s_port := Sym ''I2S_NUM_0''\<rparr>)))
       (\<lambda>reader.
     io_bind (io_call e (Log_info ''3) Configured I2S stream read'')) (\<lambda>_.
     io_bind (io_call e (I2s_stream_init (I2S_STREAM_CUSTOM_WRITE_CFG
                \<lparr>stream_type := Sym ''AUDIO_STREAM_WRITER'', i2s_port := Sym ''I2S_NUM_1''\<rparr>)))
       (\<lambda>writer.
     io_bind (io_call e (Log_info ''4) Configured I2S stream write'')) (\<lambda>_.
     io_bind (io_call e (Audio_pipeline_register pl reader ''i2sr'')) (\<lambda>_.
     io_bind (io_call e (Audio_pipeline_register pl writer ''i2sw'')) (\<lambda>_.
     io_bind (io_call e (Log_info ''7) Registered pipeline elements'')) (\<lambda>_.
     io_bind (io_call e (Audio_pipeline_link pl link_tag 2)) (\<lambda>_.
     io_bind (io_call e (Log_info (''8) successfully linked together [codec_chip]--> i2s_read'' @
        ''--> wav_encoder--> wav_decoder--> i2s_write --> [codec chip]''))) (\<lambda>_.
     io_bind (io_call e Audio_event_iface_init) (\<lambda>ev.
     io_bind (io_call e (Log_info ''9) Set up  event listener'')) (\<lambda>_.
     io_bind (io_call e (Audio_pipeline_set_listener pl ev)) (\<lambda>_.
     io_bind (io_call e (Log_info ''10) Listening event from pipeline'')) (\<lambda>_.
     io_bind (io_call e (Audio_pipeline_run pl)) (\<lambda>_.
     io_bind (io_call e (Log_info ''11) Started audio pipeline'')) (\<lambda>_.
     io_return \<lparr>pipeline = pl, i2s_reader = reader, i2s_writer = writer, evt = ev\<rparr>)))))))))))))))))))))))"

text \<open>The body of the loop; the static variable \<open>seconds_played\<close> is an \<open>int\<close>.\<close>

definition loop_body :: "env \<Rightarrow> int \<Rightarrow> int io" where
  "loop_body e seconds_played =
     io_bind (if portTICK_PERIOD_MS e = 0 then io_fail Undefined
              else io_call e (VTaskDelay (1000 div portTICK_PERIOD_MS e))) (\<lambda>_.
     io_bind (io_call e (Log_seconds seconds_played)) (\<lambda>_.
     (\<lambda>tr. (i32 (seconds_played + 1), tr))))"

definition app_cleanup :: "env \<Rightarrow> handles \<Rightarrow> unit io" where
  "app_cleanup e h = io_calls e
     [Log_info ''[ 7 ] Stop audio_pipeline'',
      Audio_pipeline_stop (pipeline h),
      Audio_pipeline_wait_for_stop (pipeline h),
      Audio_pipeline_terminate (pipeline h),
      Audio_pipeline_unregister (pipeline h) (i2s_reader h),
      Audio_pipeline_unregister (pipeline h) (i2s_writer h),
      Audio_pipeline_remove_listener (pipeline h),
      Audio_event_iface_destroy (evt h),
      Audio_pipeline_deinit (pipeline h),
      Audio_element_deinit (i2s_reader h),
      Audio_element_deinit (i2s_writer h)]"

definition while_condition :: int where "while_condition = 1"

text \<open>The states of the task: before the set-up, in the loop, returned, or gone wrong.\<close>

datatype app_state =
    Start
  | Looping handles int "event list"
  | Returned "event list"
  | Failed "unit fault" "event list"

fun trace :: "app_state \<Rightarrow> event list" where
  "trace Start = []"
| "trace (Looping h n tr) = tr"
| "trace (Returned tr) = tr"
| "trace (Failed f tr) = tr"

inductive app_step :: "env \<Rightarrow> app_state \<Rightarrow> app_state \<Rightarrow> bool" for e :: env where
  begin_loop: "app_setup e [] = (Inr h, tr) \<Longrightarrow> app_step e Start (Looping h 1 tr)"
| begin_fails: "app_setup e [] = (Inl f, tr) \<Longrightarrow> app_step e Start (Failed f tr)"
| loop: "while_condition \<noteq> 0 \<Longrightarrow> loop_body e n tr = (Inr n', tr') \<Longrightarrow>
    app_step e (Looping h n tr) (Looping h n' tr')"
| loop_fails: "while_condition \<noteq> 0 \<Longrightarrow> loop_body e n tr = (Inl f, tr') \<Longrightarrow>
    app_step e (Looping h n tr) (Failed f tr')"
| leave: "while_condition = 0 \<Longrightarrow> app_cleanup e h tr = (r, tr') \<Longrightarrow>
    app_step e (Looping h n tr) (Returned tr')"

inductive app_reach :: "env \<Rightarrow> app_state \<Rightarrow> bool" for e :: env where
  init: "app_reach e Start"
| step: "app_reach e s \<Longrightarrow> app_step e s s' \<Longrightarrow> app_reach e s'"

inductive_simps app_step_looping: "app_step e (Looping h n tr) s"
inductive_cases app_step_startE: "app_step e Start s"

section \<open>The order of calls the framework asks for\<close>

text \<open>The abstract specification: what is known of the framework's objects after a trace.\<close>

record proto =
  board :: handle
  codec_on :: bool
  known_pipeline :: handle
  elements :: "(handle \<times> cfg_value) list"
  registered :: "(string \<times> handle) list"
  linked_tags :: "string list"
  event_ifaces :: "handle list"
  listening :: bool
  running :: bool

definition proto_init :: proto where
  "proto_init = \<lparr>board = 0, codec_on = False, known_pipeline = 0, elements = [], registered = [], linked_tags = [],
     event_ifaces = [], listening = False, running = False\<rparr>"

text \<open>A tag names an element that was made with this type.\<close>

definition names_kind :: "proto \<Rightarrow> string \<Rightarrow> string \<Rightarrow> bool" where
  "names_kind p tag kind \<longleftrightarrow>
     (case map_of (registered p) tag of None \<Rightarrow> False | Some el \<Rightarrow> (el, Sym kind) \<in> set (elements p))"

definition guarded :: "bool \<Rightarrow> proto \<Rightarrow> proto option" where
  "guarded b p = (if b then Some p else None)"

text \<open>The codec is the one of the board, and is started before the pipeline runs. An element is registered
  under a new name, before the pipeline is linked; the linked tags are registered names, the first of
  them a reader and the last a writer; a pipeline runs only when it is linked and has a listener; and
  it is taken apart only after it stopped. \<open>hal\<close> reads the field \<open>audio_hal\<close> of a board.\<close>

fun proto_step :: "(handle \<Rightarrow> handle) \<Rightarrow> proto \<Rightarrow> event \<Rightarrow> proto option" where
  "proto_step hal p (Audio_board_init, r) = Some (p\<lparr>board := r\<rparr>)"
| "proto_step hal p (Audio_hal_ctrl_codec h, r) =
     guarded (board p \<noteq> 0 \<and> h = hal (board p) \<and> \<not> running p) (p\<lparr>codec_on := True\<rparr>)"
| "proto_step hal p (Audio_pipeline_init, r) = Some (p\<lparr>known_pipeline := r\<rparr>)"
| "proto_step hal p (I2s_stream_init cfg, r) =
     Some (p\<lparr>elements := (r, stream_type cfg) # elements p\<rparr>)"
| "proto_step hal p (Audio_pipeline_register pl el name, r) =
     guarded (pl \<noteq> 0 \<and> pl = known_pipeline p \<and> el \<in> set (map fst (elements p)) \<and>
              name \<notin> set (map fst (registered p)) \<and> linked_tags p = [])
       (p\<lparr>registered := registered p @ [(name, el)]\<rparr>)"
| "proto_step hal p (Audio_pipeline_link pl tags n, r) =
     guarded (pl \<noteq> 0 \<and> pl = known_pipeline p \<and> n = length tags \<and> 2 \<le> n \<and> distinct tags \<and>
              set tags \<subseteq> set (map fst (registered p)) \<and>
              names_kind p (hd tags) ''AUDIO_STREAM_READER'' \<and>
              names_kind p (last tags) ''AUDIO_STREAM_WRITER'')
       (p\<lparr>linked_tags := tags\<rparr>)"
| "proto_step hal p (Audio_event_iface_init, r) = Some (p\<lparr>event_ifaces := r # event_ifaces p\<rparr>)"
| "proto_step hal p (Audio_pipeline_set_listener pl ev, r) =
     guarded (pl \<noteq> 0 \<and> pl = known_pipeline p \<and> ev \<in> set (event_ifaces p)) (p\<lparr>listening := True\<rparr>)"
| "proto_step hal p (Audio_pipeline_run pl, r) =
     guarded (pl \<noteq> 0 \<and> pl = known_pipeline p \<and> linked_tags p \<noteq> [] \<and> listening p \<and> codec_on p \<and> \<not> running p)
       (p\<lparr>running := True\<rparr>)"
| "proto_step hal p (Audio_pipeline_stop pl, r) = guarded (running p) (p\<lparr>running := False\<rparr>)"
| "proto_step hal p (Audio_pipeline_unregister pl el, r) = guarded (\<not> running p) p"
| "proto_step hal p (Audio_pipeline_deinit pl, r) = guarded (\<not> running p) p"
| "proto_step hal p (Audio_element_deinit el, r) = guarded (\<not> running p) p"
| "proto_step hal p (c, r) = Some p"

fun proto_run :: "(handle \<Rightarrow> handle) \<Rightarrow> proto \<Rightarrow> event list \<Rightarrow> proto option" where
  "proto_run hal p [] = Some p"
| "proto_run hal p (ev # evs) = Option.bind (proto_step hal p ev) (\<lambda>p'. proto_run hal p' evs)"

lemma proto_run_append:
  "proto_run hal p (xs @ ys) = Option.bind (proto_run hal p xs) (\<lambda>p'. proto_run hal p' ys)"
  by (induction xs arbitrary: p) (simp_all add: Option.bind_assoc)

text \<open>Reasoning about a run: \<open>achieves F m Q tr\<close> says that \<open>m\<close>, started with trace \<open>tr\<close>, returns
  normally and its result and trace satisfy \<open>Q\<close>, or goes wrong and the fault and the trace satisfy \<open>F\<close>.
  The rules abstract from the answers.\<close>

definition achieves ::
  "(unit fault \<Rightarrow> event list \<Rightarrow> bool) \<Rightarrow> 'a io \<Rightarrow> ('a \<Rightarrow> event list \<Rightarrow> bool) \<Rightarrow> event list \<Rightarrow> bool" where
  "achieves F m Q tr = (case m tr of (Inr x, tr') \<Rightarrow> Q x tr' | (Inl f, tr') \<Rightarrow> F f tr')"

lemma achieves_return: "Q x tr \<Longrightarrow> achieves F (io_return x) Q tr"
  by (simp add: achieves_def io_return_def)

lemma achieves_skip: "achieves F (k ()) Q tr \<Longrightarrow> achieves F (io_bind (io_return ()) k) Q tr"
  by (simp add: achieves_def io_defs)

lemma achieves_assoc:
  "achieves F (io_bind m (\<lambda>x. io_bind (f x) k)) Q tr \<Longrightarrow> achieves F (io_bind (io_bind m f) k) Q tr"
  by (auto simp: achieves_def io_defs split: prod.splits sum.splits)

lemma achieves_call:
  "(\<And>r. r = answer e tr c \<Longrightarrow> achieves F (k r) Q (tr @ [(c, r)])) \<Longrightarrow>
     achieves F (io_bind (io_call e c) k) Q tr"
  by (simp add: achieves_def io_defs)

lemma achieves_any:
  "(\<And>r. achieves F (k r) Q (tr @ [(c, r)])) \<Longrightarrow> achieves F (io_bind (io_call e c) k) Q tr"
  by (rule achieves_call)

lemma achieves_check:
  "(x \<noteq> 0 \<Longrightarrow> achieves F (io_bind m k) Q tr) \<Longrightarrow> (x = 0 \<Longrightarrow> F f tr) \<Longrightarrow>
     achieves F (io_bind (if x = (0 :: nat) then io_fail f else m) k) Q tr"
  by (simp add: achieves_def io_defs)

lemmas achieves_rules = achieves_skip achieves_check achieves_assoc achieves_any achieves_return

definition ready :: "env \<Rightarrow> handles \<Rightarrow> event list \<Rightarrow> bool" where
  "ready e h tr \<longleftrightarrow> (\<exists>p. proto_run (hal_of e) proto_init tr = Some p \<and> running p \<and> codec_on p \<and>
     known_pipeline p = pipeline h \<and> linked_tags p = link_tag \<and>
     registered p = [(''i2sr'', i2s_reader h), (''i2sw'', i2s_writer h)] \<and>
     names_kind p ''i2sr'' ''AUDIO_STREAM_READER'' \<and> names_kind p ''i2sw'' ''AUDIO_STREAM_WRITER'')"

text \<open>The two ways the set-up goes wrong: \<open>board_handle->audio_hal\<close> of a null board, and \<open>mem_assert\<close>.\<close>

definition gave_up :: "env \<Rightarrow> unit fault \<Rightarrow> event list \<Rightarrow> bool" where
  "gave_up e f tr \<longleftrightarrow> (\<exists>p. proto_run (hal_of e) proto_init tr = Some p \<and> \<not> running p) \<and>
     (f = Undefined \<and> (Audio_board_init, 0) \<in> set tr \<or> f = Assert_failed \<and> (Audio_pipeline_init, 0) \<in> set tr)"

lemma setup_protocol: "achieves (gave_up e) (app_setup e) (ready e) []"
  unfolding app_setup_def log_levels_def io_calls.simps
  by (rule achieves_rules)+
    (simp_all add: ready_def gave_up_def proto_init_def guarded_def names_kind_def link_tag_def
      I2S_STREAM_CUSTOM_READ_CFG_def I2S_STREAM_CUSTOM_WRITE_CFG_def)

text \<open>A framework that gives a board and a pipeline.\<close>

definition comes_up :: "env \<Rightarrow> bool" where
  "comes_up e \<longleftrightarrow> (\<forall>tr. answer e tr Audio_board_init \<noteq> 0 \<and> answer e tr Audio_pipeline_init \<noteq> 0)"

lemma achieves_given:
  assumes "comes_up e" "c = Audio_board_init \<or> c = Audio_pipeline_init"
    and "\<And>r. r \<noteq> 0 \<Longrightarrow> achieves F (k r) Q (tr @ [(c, r)])"
  shows "achieves F (io_bind (io_call e c) k) Q tr"
  using assms by (intro achieves_call) (auto simp: comes_up_def)

lemmas achieves_board = achieves_given [where c = Audio_board_init, OF _ disjI1 [OF refl]]
lemmas achieves_pipeline = achieves_given [where c = Audio_pipeline_init, OF _ disjI2 [OF refl]]

lemma setup_comes_up:
  assumes "comes_up e"
  obtains h tr where "app_setup e [] = (Inr h, tr)"
proof -
  have "achieves (\<lambda>_ _. False) (app_setup e) (\<lambda>_ _. True) []"
    unfolding app_setup_def log_levels_def io_calls.simps
    by (rule achieves_board achieves_pipeline achieves_rules TrueI | rule assms | simp)+
  then show thesis
    using that by (auto simp: achieves_def split: prod.splits sum.splits)
qed

section \<open>Every run of the program\<close>

definition seconds_logged :: "event list \<Rightarrow> int list" where
  "seconds_logged tr = concat (map (\<lambda>(c, r). case c of Log_seconds n \<Rightarrow> [n] | _ \<Rightarrow> []) tr)"

lemma loop_body_eq:
  "loop_body e n tr =
     (if portTICK_PERIOD_MS e = 0 then (Inl Undefined, tr)
      else let tr1 = tr @ [(VTaskDelay (1000 div portTICK_PERIOD_MS e),
                            answer e tr (VTaskDelay (1000 div portTICK_PERIOD_MS e)))]
           in (i32 (n + 1), tr1 @ [(Log_seconds n, answer e tr1 (Log_seconds n))]))"
  by (simp add: loop_body_def io_defs Let_def)

lemma loop_keeps_ready:
  assumes "ready e h tr" and "loop_body e n tr = (r, tr')"
  shows "ready e h tr'"
proof -
  have "\<exists>a b d. tr' = tr \<or> tr' = tr @ [(VTaskDelay d, a), (Log_seconds n, b)]"
    using assms(2) by (auto simp: loop_body_eq Let_def split: if_splits)
  then show ?thesis using assms(1) by (auto simp: ready_def proto_run_append)
qed

text \<open>What is known of a state: the set-up gave up, or the pipeline is running.\<close>

definition in_order :: "env \<Rightarrow> app_state \<Rightarrow> bool" where
  "in_order e s \<longleftrightarrow> (case s of Start \<Rightarrow> True | Looping h n tr \<Rightarrow> ready e h tr | Returned tr \<Rightarrow> False
     | Failed f tr \<Rightarrow> gave_up e f tr \<or> (\<exists>h. ready e h tr))"

lemma reach_in_order: "app_reach e s \<Longrightarrow> in_order e s"
proof (induction rule: app_reach.induct)
  case (step s s')
  note begun = setup_protocol [of e, unfolded achieves_def]
  from step.hyps(2) show ?case
  proof cases
    case (loop n tr n' tr' h)
    then show ?thesis using step.IH loop_keeps_ready by (auto simp: in_order_def)
  next
    case (loop_fails n tr f tr' h)
    then show ?thesis using step.IH loop_keeps_ready [of e h tr n "Inl f" tr'] by (auto simp: in_order_def)
  qed (use begun in \<open>simp_all add: in_order_def while_condition_def\<close>)
qed (simp add: in_order_def)

text \<open>C14: Whatever the framework answers to each call, null handles and equal handles included, the calls
  made so far respect its protocol in every reachable state: the codec is that of the board, which is
  not null, and is started before the pipeline runs, the microphone's reader and the speaker's writer
  are registered under the names that are linked, reader first, and the listener is set before the
  pipeline runs. In the loop the pipeline is running and its elements are these two. The task goes
  wrong before the loop only when there is no board, whose field is read, or no pipeline, which is
  asserted, and then the pipeline has not been started.\<close>
theorem app_respects_protocol:
  assumes "app_reach e s"
  shows "\<exists>p. proto_run (hal_of e) proto_init (trace s) = Some p \<and>
     (case s of
        Looping h n tr \<Rightarrow> running p \<and> codec_on p \<and> known_pipeline p = pipeline h \<and>
          linked_tags p = [''i2sr'', ''i2sw''] \<and>
          registered p = [(''i2sr'', i2s_reader h), (''i2sw'', i2s_writer h)] \<and>
          (i2s_reader h, Sym ''AUDIO_STREAM_READER'') \<in> set (elements p) \<and>
          (i2s_writer h, Sym ''AUDIO_STREAM_WRITER'') \<in> set (elements p)
      | Failed f tr \<Rightarrow> running p \<or>
          f = Undefined \<and> (Audio_board_init, 0) \<in> set tr \<or> f = Assert_failed \<and> (Audio_pipeline_init, 0) \<in> set tr
      | _ \<Rightarrow> s = Start)"
  using reach_in_order [OF assms]
  by (cases s) (auto simp: in_order_def ready_def gave_up_def link_tag_def names_kind_def)

text \<open>An environment in which every call answers a new number, and one that has no pipeline.\<close>

definition example_env :: env where
  "example_env = \<lparr>answer = (\<lambda>tr c. Suc (sum_list (map snd tr))), hal_of = id,
                  portTICK_PERIOD_MS = 1\<rparr>"

definition no_pipeline :: env where
  "no_pipeline = \<lparr>answer = (\<lambda>tr c. if c = Audio_pipeline_init then 0 else 5), hal_of = id,
                  portTICK_PERIOD_MS = 1\<rparr>"

lemma example_comes_up: "comes_up example_env"
  by (simp add: comes_up_def example_env_def)

lemma example_reach: "\<exists>h tr. app_reach example_env (Looping h 1 tr)"
  by (rule setup_comes_up [OF example_comes_up]) (blast intro: app_reach.intros app_step.intros)

theorem app_respects_protocol_witness:
  "(\<exists>h tr p. app_reach example_env (Looping h 1 tr) \<and>
      proto_run id proto_init tr = Some p \<and> running p \<and> codec_on p) \<and>
   (\<exists>tr p. app_reach no_pipeline (Failed Assert_failed tr) \<and> proto_run id proto_init tr = Some p)"
proof -
  obtain h tr where r: "app_reach example_env (Looping h 1 tr)" using example_reach by blast
  have "\<exists>tr. app_setup no_pipeline [] = (Inl Assert_failed, tr)"
    by (simp add: app_setup_def log_levels_def io_defs no_pipeline_def)
  then obtain tr' where f: "app_reach no_pipeline (Failed Assert_failed tr')"
    by (blast intro: app_reach.intros app_step.intros)
  show ?thesis
    using app_respects_protocol [OF r] app_respects_protocol [OF f] r f
    by (fastforce simp: example_env_def no_pipeline_def)
qed

definition tears_down :: "call \<Rightarrow> bool" where
  "tears_down c \<longleftrightarrow> (case c of
     Audio_pipeline_stop _ \<Rightarrow> True | Audio_pipeline_wait_for_stop _ \<Rightarrow> True
   | Audio_pipeline_terminate _ \<Rightarrow> True | Audio_pipeline_unregister _ _ \<Rightarrow> True
   | Audio_pipeline_remove_listener _ \<Rightarrow> True | Audio_event_iface_destroy _ \<Rightarrow> True
   | Audio_pipeline_deinit _ \<Rightarrow> True | Audio_element_deinit _ \<Rightarrow> True | _ \<Rightarrow> False)"

definition avoids :: "(call \<Rightarrow> bool) \<Rightarrow> event list \<Rightarrow> bool" where
  "avoids P tr = list_all (\<lambda>(c, r). \<not> P c) tr"

lemma avoids_call: "avoids P tr \<Longrightarrow> \<not> P c \<Longrightarrow> avoids P (snd (io_call e c tr))"
  by (simp add: io_call_def avoids_def)

lemma avoids_bind:
  "(\<And>tr. avoids P tr \<Longrightarrow> avoids P (snd (m tr))) \<Longrightarrow>
   (\<And>x tr. avoids P tr \<Longrightarrow> avoids P (snd (k x tr))) \<Longrightarrow> avoids P tr \<Longrightarrow>
     avoids P (snd (io_bind m k tr))"
  by (simp add: io_bind_def split: prod.splits sum.splits) (metis snd_conv)

fun after_setup :: "call \<Rightarrow> bool" where
  "after_setup (VTaskDelay _) = True"
| "after_setup (Log_seconds _) = True"
| "after_setup c = tears_down c"

lemma setup_avoids: "avoids after_setup tr \<Longrightarrow> avoids after_setup (snd (app_setup e tr))"
  unfolding app_setup_def log_levels_def io_calls.simps
  by (rule avoids_bind avoids_call | assumption |
      simp add: tears_down_def io_return_def io_fail_def avoids_call)+

lemma setup_trace:
  assumes "app_setup e [] = (r, tr)"
  shows "avoids tears_down tr" "seconds_logged tr = []"
proof -
  have "avoids after_setup tr"
    using setup_avoids [of "[]" e] assms by (simp add: avoids_def)
  moreover have "avoids after_setup tr \<Longrightarrow> avoids tears_down tr \<and> seconds_logged tr = []" for tr
  proof (induction tr)
    case (Cons ev tr)
    obtain c r where "ev = (c, r)" by (cases ev)
    then show ?case using Cons
      by (cases c) (auto simp: avoids_def seconds_logged_def tears_down_def)
  qed (simp add: avoids_def seconds_logged_def)
  ultimately show "avoids tears_down tr" "seconds_logged tr = []" by auto
qed

lemma loop_no_teardown: "avoids tears_down tr \<Longrightarrow> avoids tears_down (snd (loop_body e n tr))"
  by (simp add: loop_body_eq avoids_def tears_down_def Let_def)

lemma reach_no_teardown:
  "app_reach e s \<Longrightarrow> avoids tears_down (trace s) \<and> (\<forall>tr. s \<noteq> Returned tr)"
proof (induction rule: app_reach.induct)
  case init
  show ?case by (simp add: avoids_def)
next
  case (step s s')
  from step.hyps(2) show ?case
  proof cases
    case (loop n tr n' tr' h)
    then show ?thesis using step.IH loop_no_teardown [of tr e n] by simp
  next
    case (loop_fails n tr f tr' h)
    then show ?thesis using step.IH loop_no_teardown [of tr e n] by simp
  qed (use setup_trace in \<open>auto simp: while_condition_def\<close>)
qed

text \<open>Whatever the framework answers, the task never returns from \<open>app_main\<close> and never
  stops, unregisters or destroys anything: the release code after the loop is unreachable.\<close>
theorem app_never_tears_down:
  assumes "app_reach e s"
  shows "(\<forall>tr. s \<noteq> Returned tr) \<and> list_all (\<lambda>(c, r). \<not> tears_down c) (trace s)"
  using reach_no_teardown [OF assms] by (simp add: avoids_def)

theorem app_never_tears_down_witness:
  "\<exists>h tr. app_reach example_env (Looping h 1 tr) \<and> list_all (\<lambda>(c, r). \<not> tears_down c) tr"
proof -
  obtain h tr where r: "app_reach example_env (Looping h 1 tr)" using example_reach by blast
  then show ?thesis using app_never_tears_down [OF r] by auto
qed

lemma reach_seconds:
  "app_reach e s \<Longrightarrow>
     (case s of Looping h n tr \<Rightarrow> 1 \<le> n \<and> n \<le> INT32_MAX \<and> seconds_logged tr = [1..n - 1]
      | _ \<Rightarrow> True)"
proof (induction rule: app_reach.induct)
  case (step s s')
  from step.hyps(2) show ?case
  proof cases
    case (begin_loop h tr)
    then show ?thesis using setup_trace by (auto simp: INT32_MAX_def)
  next
    case (loop n tr n' tr' h)
    then have "n' = n + 1" "in_i32 (n + 1)" "seconds_logged tr' = seconds_logged tr @ [n]"
      by (auto simp: loop_body_eq Let_def i32_def seconds_logged_def split: if_splits)
    moreover have "1 \<le> n \<Longrightarrow> [1..n - 1] @ [n] = [1..n]" by (simp add: upto_rec2)
    ultimately show ?thesis using step.IH loop by (auto simp: i32_range)
  qed simp_all
qed simp

lemma reach_every_second:
  assumes "comes_up e" "portTICK_PERIOD_MS e \<noteq> 0"
  shows "int n < INT32_MAX \<Longrightarrow> \<exists>h tr. app_reach e (Looping h (int n + 1) tr)"
proof (induction n)
  case 0
  obtain h tr where "app_setup e [] = (Inr h, tr)" by (rule setup_comes_up [OF assms(1)])
  then have "app_step e Start (Looping h 1 tr)" by (rule app_step.begin_loop)
  then show ?case using app_reach.step [OF app_reach.init] by auto
next
  case (Suc n)
  then obtain h tr where r: "app_reach e (Looping h (int n + 1) tr)" by auto
  have "in_i32 (int n + 1 + 1)" using Suc.prems by (simp add: i32_range)
  then obtain tr' where "loop_body e (int n + 1) tr = (Inr (int n + 1 + 1), tr')"
    using assms(2) by (simp add: loop_body_eq Let_def)
  then have "app_step e (Looping h (int n + 1) tr) (Looping h (int n + 1 + 1) tr')"
    by (intro app_step.loop) (simp_all add: while_condition_def)
  then show ?case using app_reach.step [OF r] by (auto simp: algebra_simps)
qed

text \<open>The second counter: whenever the loop is at count \<open>n\<close>, exactly the messages for the
  seconds 1 to \<open>n - 1\<close> have been printed, each once and in order, and \<open>n\<close> fits an \<open>int\<close>. The
  loop does get to every count up to \<open>INT32_MAX\<close>; there the next increment is a signed
  overflow, which is undefined behaviour.\<close>
theorem app_seconds:
  assumes "comes_up e" and "portTICK_PERIOD_MS e \<noteq> 0"
  shows "(\<forall>h n tr. app_reach e (Looping h n tr) \<longrightarrow>
            1 \<le> n \<and> n \<le> INT32_MAX \<and> seconds_logged tr = [1..n - 1]) \<and>
         (\<forall>n. int n < INT32_MAX \<longrightarrow> (\<exists>h tr. app_reach e (Looping h (int n + 1) tr))) \<and>
         (\<exists>tr. app_reach e (Failed Undefined tr))"
proof (intro conjI allI impI)
  obtain h tr where r: "app_reach e (Looping h INT32_MAX tr)"
    using reach_every_second [OF assms, of "nat (INT32_MAX - 1)"] by (auto simp: INT32_MAX_def)
  obtain tr' where "loop_body e INT32_MAX tr = (Inl Undefined, tr')"
    using assms(2) by (simp add: loop_body_eq Let_def i32_def i32_range)
  then have "app_step e (Looping h INT32_MAX tr) (Failed Undefined tr')"
    by (intro app_step.loop_fails) (simp_all add: while_condition_def)
  then show "\<exists>tr. app_reach e (Failed Undefined tr)" using app_reach.step [OF r] by blast
qed (use reach_seconds reach_every_second [OF assms] in fastforce)+

theorem app_seconds_witness: "\<exists>h tr. app_reach example_env (Looping h (int 9 + 1) tr)"
proof -
  have "portTICK_PERIOD_MS example_env \<noteq> 0" by (simp add: example_env_def)
  from app_seconds [OF example_comes_up this]
  have "\<forall>n. int n < INT32_MAX \<longrightarrow> (\<exists>h tr. app_reach example_env (Looping h (int n + 1) tr))"
    by blast
  then show ?thesis by (rule allE [of _ 9]) (simp add: INT32_MAX_def)
qed

end
