(* ===== verification/Buf.thy ===== *)
theory Buf
  imports Helper
begin

text \<open>
  \<open>nghttp2_buf.c\<close>: a buffer with its read and write positions, and a chain of buffers that
  grows chunk by chunk up to a limit. Pointers into a buffer are offsets from \<open>begin\<close>; the
  object is the list \<open>mem\<close>, so a write beyond \<open>end\<close> is \<open>Undefined\<close>. Operations on a chain
  return the chain together with the code, because C leaves the part already written in place
  when it fails. The allocator is a parameter: \<open>alloc k n\<close> answers the request for the \<open>n\<close> bytes
  of chunk \<open>k\<close>.
\<close>

section \<open>One buffer\<close>

record buf =
  mem :: bytes
  pos :: nat
  last_pos :: nat
  mark :: nat

definition nghttp2_buf_init :: buf where
  "nghttp2_buf_init = \<lparr>mem = [], pos = 0, last_pos = 0, mark = 0\<rparr>"

definition nghttp2_buf_len :: "buf \<Rightarrow> nat" where
  "nghttp2_buf_len b = last_pos b - pos b"

definition nghttp2_buf_avail :: "buf \<Rightarrow> nat" where
  "nghttp2_buf_avail b = length (mem b) - last_pos b"

definition nghttp2_buf_cap :: "buf \<Rightarrow> nat" where
  "nghttp2_buf_cap b = length (mem b)"

definition nghttp2_buf_shift_right :: "buf \<Rightarrow> nat \<Rightarrow> buf" where
  "nghttp2_buf_shift_right b amt = b\<lparr>pos := pos b + amt, last_pos := last_pos b + amt\<rparr>"

text \<open>\<open>realloc\<close> keeps the old contents; what follows is what the allocator gives.\<close>

definition nghttp2_buf_reserve :: "(nat \<Rightarrow> bytes option) \<Rightarrow> buf \<Rightarrow> nat \<Rightarrow> buf res" where
  "nghttp2_buf_reserve grant b new_cap =
     (let cap = nghttp2_buf_cap b in
      if cap \<ge> new_cap then Inr b
      else
        let new_cap' = max new_cap (cap * 2 mod 2 ^ 32) in
        (case grant new_cap' of
           None \<Rightarrow> Inl (Code NGHTTP2_ERR_NOMEM)
         | Some fresh \<Rightarrow> Inr (b\<lparr>mem := mem b @ drop cap fresh\<rparr>)))"

definition nghttp2_buf_init2 :: "(nat \<Rightarrow> bytes option) \<Rightarrow> nat \<Rightarrow> buf res" where
  "nghttp2_buf_init2 grant initial = nghttp2_buf_reserve grant nghttp2_buf_init initial"

definition nghttp2_buf_reset :: "buf \<Rightarrow> buf" where
  "nghttp2_buf_reset b = b\<lparr>pos := 0, last_pos := 0, mark := 0\<rparr>"

definition nghttp2_buf_wrap_init :: "bytes \<Rightarrow> buf" where
  "nghttp2_buf_wrap_init m = \<lparr>mem = m, pos = 0, last_pos = 0, mark = 0\<rparr>"

text \<open>\<open>buf->last = nghttp2_cpymem(buf->last, p, n)\<close>.\<close>

definition buf_append :: "buf \<Rightarrow> bytes \<Rightarrow> buf res" where
  "buf_append b bs =
     rbind (nghttp2_cpymem (mem b) (last_pos b) bs) (\<lambda>(m, l). Inr (b\<lparr>mem := m, last_pos := l\<rparr>))"

definition buf_ok :: "buf \<Rightarrow> bool" where
  "buf_ok b \<longleftrightarrow> pos b \<le> last_pos b \<and> last_pos b \<le> length (mem b)"

definition buf_data :: "buf \<Rightarrow> bytes" where
  "buf_data b = take (nghttp2_buf_len b) (drop (pos b) (mem b))"

lemma length_buf_data [simp]: "buf_ok b \<Longrightarrow> length (buf_data b) = nghttp2_buf_len b"
  by (auto simp: buf_data_def buf_ok_def nghttp2_buf_len_def)

lemma buf_append_ok:
  assumes "buf_ok b" "length bs \<le> nghttp2_buf_avail b"
  shows "\<exists>b'. buf_append b bs = Inr b' \<and> buf_ok b' \<and> buf_data b' = buf_data b @ bs \<and>
           length (mem b') = length (mem b) \<and> pos b' = pos b \<and>
           last_pos b' = last_pos b + length bs \<and> mark b' = mark b"
proof -
  have fit: "last_pos b + length bs \<le> length (mem b)" "pos b \<le> last_pos b"
    using assms by (auto simp: buf_ok_def nghttp2_buf_avail_def)
  show ?thesis
  proof (cases "bs = []")
    case True
    then show ?thesis using assms(1) by (simp add: buf_append_def nghttp2_cpymem_def)
  next
    case False
    let ?m = "take (last_pos b) (mem b) @ bs @ drop (last_pos b + length bs) (mem b)"
    let ?b = "b\<lparr>mem := ?m, last_pos := last_pos b + length bs\<rparr>"
    have "buf_append b bs = Inr ?b"
      using fit False by (simp add: buf_append_def nghttp2_cpymem_def mem_write_def)
    moreover have "buf_data ?b = buf_data b @ bs"
      using fit by (simp add: buf_data_def nghttp2_buf_len_def drop_take)
    ultimately show ?thesis using fit by (auto simp: buf_ok_def)
  qed
qed

lemma reserve_ok:
  assumes "buf_ok b" and grant: "\<And>n bs. grant n = Some bs \<Longrightarrow> length bs = n"
  shows "nghttp2_buf_reserve grant b n = Inl (Code NGHTTP2_ERR_NOMEM) \<or>
    (\<exists>b'. nghttp2_buf_reserve grant b n = Inr b' \<and> buf_ok b' \<and> n \<le> nghttp2_buf_cap b' \<and>
       buf_data b' = buf_data b \<and> pos b' = pos b \<and> last_pos b' = last_pos b)"
proof (cases "nghttp2_buf_cap b \<ge> n")
  case True
  then show ?thesis using assms(1) by (simp add: nghttp2_buf_reserve_def Let_def)
next
  case False
  let ?n = "max n (nghttp2_buf_cap b * 2 mod 2 ^ 32)"
  show ?thesis
  proof (cases "grant ?n")
    case None
    then show ?thesis using False by (simp add: nghttp2_buf_reserve_def Let_def)
  next
    case (Some fresh)
    have len: "length fresh = ?n" by (rule grant [OF Some])
    have "nghttp2_buf_reserve grant b n =
        Inr (b\<lparr>mem := mem b @ drop (nghttp2_buf_cap b) fresh\<rparr>)"
      using False Some by (simp add: nghttp2_buf_reserve_def Let_def)
    then show ?thesis using assms(1) len False
      by (auto simp: buf_ok_def buf_data_def nghttp2_buf_cap_def nghttp2_buf_len_def)
  qed
qed

section \<open>A chain of buffers\<close>

text \<open>\<open>chunks\<close> is the list from \<open>head\<close>; \<open>cur\<close> is the position of the current buffer in it.\<close>

record bufs =
  chunks :: "buf list"
  cur :: nat
  chunk_length :: nat
  max_chunk :: nat
  chunk_used :: nat
  chunk_keep :: nat
  hd_offset :: nat

text \<open>The code an operation returns, 0 being \<open>Inr ()\<close>, and the chain it leaves behind.\<close>

type_synonym bufs_op = "bufs \<Rightarrow> bufs \<times> unit res"

definition ok :: bufs_op where "ok bs = (bs, Inr ())"

definition fail_with :: "nghttp2_error \<Rightarrow> bufs_op" where
  "fail_with c bs = (bs, Inl (Code c))"

definition and_then :: "bufs_op \<Rightarrow> bufs_op \<Rightarrow> bufs_op" where
  "and_then f g bs = (case f bs of (bs', Inl e) \<Rightarrow> (bs', Inl e) | (bs', Inr _) \<Rightarrow> g bs')"

text \<open>An access through \<open>bufs->cur->buf\<close>.\<close>

definition upd_cur :: "(buf \<Rightarrow> buf res) \<Rightarrow> bufs_op" where
  "upd_cur f bs =
     (if cur bs < length (chunks bs) then
        (case f (chunks bs ! cur bs) of
           Inl e \<Rightarrow> (bs, Inl e)
         | Inr b \<Rightarrow> (bs\<lparr>chunks := (chunks bs)[cur bs := b]\<rparr>, Inr ()))
      else (bs, Inl Undefined))"

definition sizeof_buf_chain :: nat where "sizeof_buf_chain = 24"

text \<open>Two requests: the link of the chain, then its buffer.\<close>

definition buf_chain_new :: "(nat \<Rightarrow> bytes option) \<Rightarrow> nat \<Rightarrow> buf res" where
  "buf_chain_new grant n =
     (case grant sizeof_buf_chain of
        None \<Rightarrow> Inl (Code NGHTTP2_ERR_NOMEM)
      | Some _ \<Rightarrow>
          (case nghttp2_buf_init2 grant n of
             Inl _ \<Rightarrow> Inl (Code NGHTTP2_ERR_NOMEM)
           | Inr b \<Rightarrow> Inr b))"

definition nghttp2_bufs_init3 ::
  "(nat \<Rightarrow> bytes option) \<Rightarrow> nat \<Rightarrow> nat \<Rightarrow> nat \<Rightarrow> nat \<Rightarrow> bufs res" where
  "nghttp2_bufs_init3 grant length_of_chunk maxc keep off =
     (if keep = 0 \<or> maxc < keep \<or> length_of_chunk < off
      then Inl (Code NGHTTP2_ERR_INVALID_ARGUMENT)
      else rbind (buf_chain_new grant length_of_chunk) (\<lambda>b.
        Inr \<lparr>chunks = [nghttp2_buf_shift_right b off], cur = 0, chunk_length = length_of_chunk,
             max_chunk = maxc, chunk_used = 1, chunk_keep = keep, hd_offset = off\<rparr>))"

definition nghttp2_bufs_init2 ::
  "(nat \<Rightarrow> bytes option) \<Rightarrow> nat \<Rightarrow> nat \<Rightarrow> nat \<Rightarrow> bufs res" where
  "nghttp2_bufs_init2 grant length_of_chunk maxc off =
     nghttp2_bufs_init3 grant length_of_chunk maxc maxc off"

definition nghttp2_bufs_init :: "(nat \<Rightarrow> bytes option) \<Rightarrow> nat \<Rightarrow> nat \<Rightarrow> bufs res" where
  "nghttp2_bufs_init grant length_of_chunk maxc =
     nghttp2_bufs_init2 grant length_of_chunk maxc 0"

definition nghttp2_bufs_realloc :: "(nat \<Rightarrow> bytes option) \<Rightarrow> nat \<Rightarrow> bufs_op" where
  "nghttp2_bufs_realloc grant length_of_chunk bs =
     (if length_of_chunk < hd_offset bs then fail_with NGHTTP2_ERR_INVALID_ARGUMENT bs
      else (case buf_chain_new grant length_of_chunk of
          Inl e \<Rightarrow> (bs, Inl e)
        | Inr b \<Rightarrow> ok (bs\<lparr>chunks := [nghttp2_buf_shift_right b (hd_offset bs)], cur := 0,
                          chunk_length := length_of_chunk, chunk_used := 1\<rparr>)))"

definition nghttp2_bufs_wrap_init :: "(nat \<Rightarrow> bytes option) \<Rightarrow> bytes \<Rightarrow> bufs res" where
  "nghttp2_bufs_wrap_init grant m =
     (case grant sizeof_buf_chain of
        None \<Rightarrow> Inl (Code NGHTTP2_ERR_NOMEM)
      | Some _ \<Rightarrow> Inr \<lparr>chunks = [nghttp2_buf_wrap_init m], cur = 0, chunk_length = length m,
                      max_chunk = 1, chunk_used = 1, chunk_keep = 1, hd_offset = 0\<rparr>)"

definition nghttp2_bufs_len :: "bufs \<Rightarrow> nat" where
  "nghttp2_bufs_len bs = sum_list (map nghttp2_buf_len (chunks bs))"

definition bufs_alloc_chain :: "(nat \<Rightarrow> nat \<Rightarrow> bytes option) \<Rightarrow> bufs_op" where
  "bufs_alloc_chain alloc bs =
     (if cur bs + 1 < length (chunks bs) then ok (bs\<lparr>cur := cur bs + 1\<rparr>)
      else if max_chunk bs = chunk_used bs then fail_with NGHTTP2_ERR_BUFFER_ERROR bs
      else (case buf_chain_new (alloc (chunk_used bs)) (chunk_length bs) of
          Inl e \<Rightarrow> (bs, Inl e)
        | Inr b \<Rightarrow> ok (bs\<lparr>chunks := chunks bs @ [nghttp2_buf_shift_right b (hd_offset bs)],
                          cur := cur bs + 1, chunk_used := chunk_used bs + 1\<rparr>)))"

definition cur_avail :: "bufs \<Rightarrow> nat" where
  "cur_avail bs = nghttp2_buf_avail (chunks bs ! cur bs)"

text \<open>The loop of \<open>nghttp2_bufs_add\<close>; the fuel bounds its rounds, and running out is \<open>None\<close>.\<close>

fun nghttp2_bufs_add ::
  "nat \<Rightarrow> (nat \<Rightarrow> nat \<Rightarrow> bytes option) \<Rightarrow> bytes \<Rightarrow> bufs \<Rightarrow> (bufs \<times> unit res) option" where
  "nghttp2_bufs_add fuel alloc [] bs = Some (bs, Inr ())"
| "nghttp2_bufs_add 0 alloc (x # xs) bs = None"
| "nghttp2_bufs_add (Suc fuel) alloc (x # xs) bs =
     (let nwrite = min (cur_avail bs) (length (x # xs)) in
      if nwrite = 0 then
        (case bufs_alloc_chain alloc bs of
           (bs', Inl e) \<Rightarrow> Some (bs', Inl e)
         | (bs', Inr _) \<Rightarrow> nghttp2_bufs_add fuel alloc (x # xs) bs')
      else
        (case upd_cur (\<lambda>b. buf_append b (take nwrite (x # xs))) bs of
           (bs', Inl e) \<Rightarrow> Some (bs', Inl e)
         | (bs', Inr _) \<Rightarrow> nghttp2_bufs_add fuel alloc (drop nwrite (x # xs)) bs'))"

definition bufs_ensure_addb :: "(nat \<Rightarrow> nat \<Rightarrow> bytes option) \<Rightarrow> bufs_op" where
  "bufs_ensure_addb alloc bs = (if cur_avail bs > 0 then ok bs else bufs_alloc_chain alloc bs)"

definition nghttp2_bufs_addb :: "(nat \<Rightarrow> nat \<Rightarrow> bytes option) \<Rightarrow> u8 \<Rightarrow> bufs_op" where
  "nghttp2_bufs_addb alloc x = and_then (bufs_ensure_addb alloc) (upd_cur (\<lambda>b. buf_append b [x]))"

text \<open>The variants that keep \<open>last\<close> in place, or combine with the byte that is there.\<close>

definition buf_put_hold :: "(u8 \<Rightarrow> u8) \<Rightarrow> buf \<Rightarrow> buf res" where
  "buf_put_hold f b =
     (if last_pos b < length (mem b)
      then Inr (b\<lparr>mem := (mem b)[last_pos b := f (mem b ! last_pos b)]\<rparr>)
      else Inl Undefined)"

definition buf_advance :: "buf \<Rightarrow> buf" where
  "buf_advance b = b\<lparr>last_pos := last_pos b + 1\<rparr>"

definition nghttp2_bufs_addb_hold :: "(nat \<Rightarrow> nat \<Rightarrow> bytes option) \<Rightarrow> u8 \<Rightarrow> bufs_op" where
  "nghttp2_bufs_addb_hold alloc x =
     and_then (bufs_ensure_addb alloc) (upd_cur (buf_put_hold (\<lambda>_. x)))"

definition nghttp2_bufs_orb :: "(nat \<Rightarrow> nat \<Rightarrow> bytes option) \<Rightarrow> u8 \<Rightarrow> bufs_op" where
  "nghttp2_bufs_orb alloc x =
     and_then (bufs_ensure_addb alloc)
       (upd_cur (\<lambda>b. rbind (buf_put_hold (\<lambda>y. y OR x) b) (\<lambda>b'. Inr (buf_advance b'))))"

definition nghttp2_bufs_orb_hold :: "(nat \<Rightarrow> nat \<Rightarrow> bytes option) \<Rightarrow> u8 \<Rightarrow> bufs_op" where
  "nghttp2_bufs_orb_hold alloc x =
     and_then (bufs_ensure_addb alloc) (upd_cur (buf_put_hold (\<lambda>y. y OR x)))"

definition nghttp2_bufs_advance :: "(nat \<Rightarrow> nat \<Rightarrow> bytes option) \<Rightarrow> bufs_op" where
  "nghttp2_bufs_advance alloc = bufs_alloc_chain alloc"

definition nghttp2_bufs_next_present :: "bufs \<Rightarrow> bool" where
  "nghttp2_bufs_next_present bs \<longleftrightarrow>
     cur bs + 1 < length (chunks bs) \<and> nghttp2_buf_len (chunks bs ! (cur bs + 1)) \<noteq> 0"

fun seek_present :: "nat \<Rightarrow> buf list \<Rightarrow> nat \<Rightarrow> nat" where
  "seek_present i [] c = c"
| "seek_present i (b # ci) c = (if nghttp2_buf_len b = 0 then c else seek_present (i + 1) ci i)"

definition nghttp2_bufs_seek_last_present :: "bufs \<Rightarrow> bufs" where
  "nghttp2_bufs_seek_last_present bs =
     bs\<lparr>cur := seek_present (cur bs) (drop (cur bs) (chunks bs)) (cur bs)\<rparr>"

text \<open>Copying the data of all chunks, one after the other, into a buffer of the total length.\<close>

fun copy_chunks :: "buf list \<Rightarrow> buf \<Rightarrow> buf res" where
  "copy_chunks [] b = Inr b"
| "copy_chunks (c # cs) b = rbind (buf_append b (buf_data c)) (copy_chunks cs)"

definition nghttp2_bufs_remove :: "(nat \<Rightarrow> bytes option) \<Rightarrow> bufs \<Rightarrow> bytes res" where
  "nghttp2_bufs_remove grant bs =
     (let len = nghttp2_bufs_len bs in
      if len = 0 then Inr []
      else (case grant len of
          None \<Rightarrow> Inl (Code NGHTTP2_ERR_NOMEM)
        | Some res \<Rightarrow>
            rbind (copy_chunks (chunks bs) (nghttp2_buf_wrap_init res)) (\<lambda>b. Inr (mem b))))"

definition reset_chunk :: "nat \<Rightarrow> buf \<Rightarrow> buf" where
  "reset_chunk off b = nghttp2_buf_shift_right (nghttp2_buf_reset b) off"

definition nghttp2_bufs_reset :: "bufs \<Rightarrow> bufs" where
  "nghttp2_bufs_reset bs =
     (if 1 \<le> chunk_keep bs \<and> chunk_keep bs \<le> length (chunks bs)
      then bs\<lparr>chunks := map (reset_chunk (hd_offset bs)) (take (chunk_keep bs) (chunks bs)),
              chunk_used := chunk_keep bs, cur := 0\<rparr>
      else bs\<lparr>chunks := map (reset_chunk (hd_offset bs)) (chunks bs), cur := 0\<rparr>)"

section \<open>Correctness of the chain\<close>

definition fresh_chunk :: "bufs \<Rightarrow> buf \<Rightarrow> bool" where
  "fresh_chunk bs b \<longleftrightarrow> pos b = hd_offset bs \<and> last_pos b = hd_offset bs"

definition bufs_ok :: "bufs \<Rightarrow> bool" where
  "bufs_ok bs \<longleftrightarrow> cur bs < length (chunks bs) \<and> chunk_used bs = length (chunks bs) \<and>
     chunk_used bs \<le> max_chunk bs \<and> 1 \<le> chunk_keep bs \<and> chunk_keep bs \<le> max_chunk bs \<and>
     hd_offset bs < chunk_length bs \<and>
     (\<forall>b \<in> set (chunks bs). buf_ok b \<and> length (mem b) = chunk_length bs) \<and>
     (\<forall>b \<in> set (drop (cur bs + 1) (chunks bs)). fresh_chunk bs b)"

definition bufs_data :: "bufs \<Rightarrow> bytes" where
  "bufs_data bs = concat (map buf_data (chunks bs))"

text \<open>The bytes that can still be added.\<close>

definition room :: "bufs \<Rightarrow> nat" where
  "room bs = cur_avail bs + (max_chunk bs - (cur bs + 1)) * (chunk_length bs - hd_offset bs)"

definition same_limits :: "bufs \<Rightarrow> bufs \<Rightarrow> bool" where
  "same_limits bs bs' \<longleftrightarrow> chunk_length bs' = chunk_length bs \<and> max_chunk bs' = max_chunk bs \<and>
     chunk_keep bs' = chunk_keep bs \<and> hd_offset bs' = hd_offset bs"

definition grants :: "(nat \<Rightarrow> nat \<Rightarrow> bytes option) \<Rightarrow> bool" where
  "grants alloc \<longleftrightarrow> (\<forall>k n bs. alloc k n = Some bs \<longrightarrow> length bs = n)"

lemma fresh_data [simp]: "fresh_chunk bs b \<Longrightarrow> buf_data b = []"
  by (simp add: fresh_chunk_def buf_data_def nghttp2_buf_len_def)

lemma bufs_okD:
  assumes "bufs_ok bs"
  shows "cur bs < length (chunks bs)" "chunk_used bs = length (chunks bs)"
    "chunk_used bs \<le> max_chunk bs" "hd_offset bs < chunk_length bs"
    "\<And>b. b \<in> set (chunks bs) \<Longrightarrow> buf_ok b \<and> length (mem b) = chunk_length bs"
    "\<And>b. b \<in> set (drop (cur bs + 1) (chunks bs)) \<Longrightarrow> fresh_chunk bs b"
  using assms by (auto simp: bufs_ok_def)

lemma chain_split:
  "i < length xs \<Longrightarrow> xs = take i xs @ xs ! i # drop (i + 1) xs"
  by (simp add: id_take_nth_drop)

lemma bufs_data_split:
  assumes "bufs_ok bs"
  shows "bufs_data bs = concat (map buf_data (take (cur bs) (chunks bs))) @
                        buf_data (chunks bs ! cur bs)"
proof -
  have "concat (map buf_data (drop (cur bs + 1) (chunks bs))) = []"
  proof -
    have "\<forall>b \<in> set (drop (cur bs + 1) (chunks bs)). buf_data b = []"
      using bufs_okD(6) [OF assms] fresh_data by blast
    then show ?thesis by auto
  qed
  then show ?thesis
    unfolding bufs_data_def
    by (subst chain_split [OF bufs_okD(1) [OF assms]]) (simp del: concat_eq_Nil_conv)
qed

lemma upd_cur_append:
  assumes bs: "bufs_ok bs" and fits: "length xs \<le> cur_avail bs"
  shows "\<exists>bs'. upd_cur (\<lambda>b. buf_append b xs) bs = (bs', Inr ()) \<and> bufs_ok bs' \<and>
           same_limits bs bs' \<and> cur bs' = cur bs \<and> bufs_data bs' = bufs_data bs @ xs \<and>
           cur_avail bs' = cur_avail bs - length xs"
proof -
  note D = bufs_okD [OF bs]
  let ?c = "chunks bs ! cur bs"
  have c: "buf_ok ?c" "length (mem ?c) = chunk_length bs" using D(1,5) by auto
  obtain b' where b': "buf_append ?c xs = Inr b'" "buf_ok b'" "buf_data b' = buf_data ?c @ xs"
      "length (mem b') = chunk_length bs" "last_pos b' = last_pos ?c + length xs"
    using buf_append_ok [OF c(1), of xs] fits c(2) by (auto simp: cur_avail_def)
  let ?bs = "bs\<lparr>chunks := (chunks bs)[cur bs := b']\<rparr>"
  have "upd_cur (\<lambda>b. buf_append b xs) bs = (?bs, Inr ())"
    using D(1) b'(1) by (simp add: upd_cur_def)
  moreover have "bufs_ok ?bs"
    using bs b' by (auto simp: bufs_ok_def fresh_chunk_def dest!: set_update_subset_insert [THEN subsetD])
  moreover have "bufs_data ?bs = bufs_data bs @ xs"
    using bufs_data_split [OF \<open>bufs_ok ?bs\<close>] bufs_data_split [OF bs] D(1) b' by simp
  ultimately show ?thesis
    using D(1) b' c by (auto simp: same_limits_def cur_avail_def nghttp2_buf_avail_def)
qed

lemma chain_new_ok:
  assumes "grants alloc" "0 < n"
  shows "buf_chain_new (alloc k) n = Inl (Code NGHTTP2_ERR_NOMEM) \<or>
         (\<exists>b. buf_chain_new (alloc k) n = Inr b \<and> length (mem b) = n \<and> pos b = 0 \<and> last_pos b = 0)"
proof (cases "alloc k sizeof_buf_chain = None \<or> alloc k n = None")
  case True
  then show ?thesis using assms(2)
    by (auto simp: buf_chain_new_def nghttp2_buf_init2_def nghttp2_buf_reserve_def
        nghttp2_buf_init_def nghttp2_buf_cap_def Let_def split: option.splits)
next
  case False
  then obtain l fresh where a: "alloc k sizeof_buf_chain = Some l" "alloc k n = Some fresh"
    by auto
  moreover have "length fresh = n" using a(2) assms(1) by (simp add: grants_def)
  ultimately show ?thesis using assms(2)
    by (simp add: buf_chain_new_def nghttp2_buf_init2_def nghttp2_buf_reserve_def
        nghttp2_buf_init_def nghttp2_buf_cap_def Let_def)
qed

lemma alloc_chain_cases:
  assumes bs: "bufs_ok bs" and al: "grants alloc"
  obtains
      (moved) bs' where "bufs_alloc_chain alloc bs = (bs', Inr ())" "bufs_ok bs'"
        "same_limits bs bs'" "cur bs' = cur bs + 1" "bufs_data bs' = bufs_data bs"
        "cur_avail bs' = chunk_length bs - hd_offset bs" "cur bs + 1 < max_chunk bs"
    | (full) "bufs_alloc_chain alloc bs = (bs, Inl (Code NGHTTP2_ERR_BUFFER_ERROR))"
        "cur bs + 1 = max_chunk bs"
    | (nomem) "bufs_alloc_chain alloc bs = (bs, Inl (Code NGHTTP2_ERR_NOMEM))"
proof -
  note D = bufs_okD [OF bs]
  show thesis
  proof (cases "cur bs + 1 < length (chunks bs)")
    case True
    let ?bs = "bs\<lparr>cur := cur bs + 1\<rparr>"
    have "chunks bs ! (cur bs + 1) \<in> set (drop (cur bs + 1) (chunks bs))"
      using True by (metis Cons_nth_drop_Suc list.set_intros(1))
    then have f: "fresh_chunk bs (chunks bs ! (cur bs + 1))" using D(6) by blast
    have "set (drop (cur bs + 1 + 1) (chunks bs)) \<subseteq> set (drop (cur bs + 1) (chunks bs))"
      by (rule set_drop_subset_set_drop) simp
    then have "bufs_ok ?bs"
      using bs True by (auto simp: bufs_ok_def fresh_chunk_def)
    then show thesis
      using True f D(2,3) D(5) [of "chunks bs ! (cur bs + 1)"]
      by (intro moved [of ?bs]) (auto simp: bufs_alloc_chain_def ok_def same_limits_def
          bufs_data_def cur_avail_def nghttp2_buf_avail_def fresh_chunk_def)
  next
    case False
    then have last: "cur bs + 1 = length (chunks bs)" using D(1) by simp
    show thesis
    proof (cases "max_chunk bs = chunk_used bs")
      case True
      then show thesis using False last D(2)
        by (intro full) (simp_all add: bufs_alloc_chain_def fail_with_def)
    next
      case more: False
      from chain_new_ok [OF al, of "chunk_length bs" "chunk_used bs"] D(4)
      consider "buf_chain_new (alloc (chunk_used bs)) (chunk_length bs) = Inl (Code NGHTTP2_ERR_NOMEM)"
        | b where "buf_chain_new (alloc (chunk_used bs)) (chunk_length bs) = Inr b"
            "length (mem b) = chunk_length bs" "pos b = 0" "last_pos b = 0" by auto
      then show thesis
      proof cases
        case 1
        then show thesis using False more by (intro nomem) (simp add: bufs_alloc_chain_def)
      next
        case 2
        let ?b = "nghttp2_buf_shift_right b (hd_offset bs)"
        let ?bs = "bs\<lparr>chunks := chunks bs @ [?b], cur := cur bs + 1,
                      chunk_used := chunk_used bs + 1\<rparr>"
        have b: "pos ?b = hd_offset bs" "last_pos ?b = hd_offset bs" "mem ?b = mem b"
          using 2 by (simp_all add: nghttp2_buf_shift_right_def)
        have bd: "buf_data ?b = []" using b by (simp add: buf_data_def nghttp2_buf_len_def)
        have "bufs_ok ?bs"
          using bs more last D(2,4) b 2(2) by (auto simp: bufs_ok_def buf_ok_def)
        then show thesis
          using False more last 2 b bd D(2,3)
          by (intro moved [of ?bs]) (auto simp: bufs_alloc_chain_def ok_def same_limits_def
              bufs_data_def cur_avail_def nghttp2_buf_avail_def nth_append)
      qed
    qed
  qed
qed

lemma same_limits_trans: "same_limits a b \<Longrightarrow> same_limits b c \<Longrightarrow> same_limits a c"
  by (simp add: same_limits_def)

text \<open>What an operation promises that appends the bytes \<open>xs\<close>: they are behind the data, or the
  chain is full, or there is no memory.\<close>

definition appended :: "bufs \<Rightarrow> bytes \<Rightarrow> bufs \<times> unit res \<Rightarrow> bool" where
  "appended bs xs out \<longleftrightarrow>
     (case out of (bs', r) \<Rightarrow> bufs_ok bs' \<and> same_limits bs bs' \<and>
        (r = Inr () \<and> room bs' + length xs = room bs \<and> bufs_data bs' = bufs_data bs @ xs
         \<or> r = Inl (Code NGHTTP2_ERR_BUFFER_ERROR) \<and> room bs < length xs
         \<or> r = Inl (Code NGHTTP2_ERR_NOMEM)))"

lemma appended_nil [simp]: "appended bs [] (bs, Inr ()) \<longleftrightarrow> bufs_ok bs"
  by (simp add: appended_def same_limits_def)

lemma appended_then:
  "appended bs xs (bs', Inr ()) \<Longrightarrow> appended bs' ys out \<Longrightarrow> appended bs (xs @ ys) out"
  using same_limits_trans [of bs bs'] by (fastforce simp: appended_def)

lemma appended_fails: "appended bs xs (bs', Inl e) \<Longrightarrow> appended bs (xs @ ys) (bs', Inl e)"
  by (auto simp: appended_def)

lemma appended_bufs: "appended bs xs (bs', r) \<Longrightarrow> bufs_ok bs'"
  by (simp add: appended_def)

lemma upd_cur_appended:
  assumes "bufs_ok bs" "length xs \<le> cur_avail bs"
  shows "appended bs xs (upd_cur (\<lambda>b. buf_append b xs) bs) \<and>
    snd (upd_cur (\<lambda>b. buf_append b xs) bs) = Inr () \<and>
    cur_avail (fst (upd_cur (\<lambda>b. buf_append b xs) bs)) = cur_avail bs - length xs"
  using upd_cur_append [OF assms] assms(2) by (auto simp: appended_def room_def same_limits_def)

text \<open>What \<open>nghttp2_bufs_add\<close> promises for the bytes \<open>xs\<close>.\<close>

definition add_outcome :: "bufs \<Rightarrow> bytes \<Rightarrow> (bufs \<times> unit res) option \<Rightarrow> bool" where
  "add_outcome bs xs out \<longleftrightarrow> (\<exists>bs' r. out = Some (bs', r) \<and> appended bs xs (bs', r))"

lemma room_moved:
  assumes "cur bs' = cur bs + 1" "cur bs + 1 < max_chunk bs" "same_limits bs bs'"
    and "cur_avail bs' = chunk_length bs - hd_offset bs" "cur_avail bs = 0"
  shows "room bs' = room bs"
proof -
  obtain k where k: "max_chunk bs = cur bs + 2 + k"
    using assms(2) by (metis add_2_eq_Suc' Suc_eq_plus1 less_imp_Suc_add add_Suc)
  then show ?thesis using assms by (simp add: room_def same_limits_def)
qed

lemma bufs_add_outcome:
  assumes "grants alloc" and "bufs_ok bs" and "length xs + (max_chunk bs - cur bs) \<le> fuel"
  shows "add_outcome bs xs (nghttp2_bufs_add fuel alloc xs bs)"
  using assms
proof (induction fuel alloc xs bs rule: nghttp2_bufs_add.induct)
  case (1 fuel alloc bs)
  then show ?case by (simp add: add_outcome_def)
next
  case (2 alloc x xs bs)
  then show ?case by simp
next
  case (3 fuel alloc x xs bs)
  show ?case
  proof (cases "cur_avail bs = 0")
    case True
    from 3(4,3) show ?thesis
    proof (cases rule: alloc_chain_cases)
      case (moved bs')
      have m: "length (x # xs) + (max_chunk bs' - cur bs') \<le> fuel"
        using moved(3,4,7) 3(5) by (simp add: same_limits_def)
      have "add_outcome bs' (x # xs) (nghttp2_bufs_add fuel alloc (x # xs) bs')"
        by (rule 3(1) [OF refl _ moved(1) [symmetric] refl 3(3) moved(2) m]) (use True in simp)
      then show ?thesis
        using True moved room_moved [OF moved(4,7,3,6) True] same_limits_trans [OF moved(3)]
        by (simp add: add_outcome_def appended_def) fastforce
    next
      case full
      then show ?thesis using True 3(4) by (simp add: add_outcome_def appended_def same_limits_def room_def)
    next
      case nomem
      then show ?thesis using True 3(4) by (simp add: add_outcome_def appended_def same_limits_def)
    qed
  next
    case False
    let ?n = "min (cur_avail bs) (length (x # xs))"
    have n: "?n \<noteq> 0" "?n \<le> cur_avail bs" using False by auto
    obtain bs' where bs': "upd_cur (\<lambda>b. buf_append b (take ?n (x # xs))) bs = (bs', Inr ())"
        "appended bs (take ?n (x # xs)) (bs', Inr ())" "cur bs' = cur bs"
    proof -
      have len: "length (take ?n (x # xs)) \<le> cur_avail bs" by simp
      from upd_cur_append [OF 3(4) len] upd_cur_appended [OF 3(4) len] that show thesis by force
    qed
    have ok: "bufs_ok bs'" "same_limits bs bs'" using bs'(2) by (auto simp: appended_def)
    have m: "length (drop ?n (x # xs)) + (max_chunk bs' - cur bs') \<le> fuel"
      using bs'(3) ok(2) 3(5) n(1) by (simp add: same_limits_def)
    have "add_outcome bs' (drop ?n (x # xs))
        (nghttp2_bufs_add fuel alloc (drop ?n (x # xs)) bs')"
      by (rule 3(2) [OF refl n(1) bs'(1) [symmetric] refl 3(3) ok(1) m])
    moreover have "nghttp2_bufs_add (Suc fuel) alloc (x # xs) bs =
        nghttp2_bufs_add fuel alloc (drop ?n (x # xs)) bs'"
      unfolding nghttp2_bufs_add.simps Let_def if_not_P [OF n(1)] bs'(1) by simp
    ultimately show ?thesis
      using appended_then [OF bs'(2)] by (fastforce simp: add_outcome_def simp del: take_Suc_Cons drop_Suc_Cons)
  qed
qed

lemma bufs_addb_outcome:
  assumes "grants alloc" and "bufs_ok bs"
  shows "appended bs [x] (nghttp2_bufs_addb alloc x bs) \<and>
    (\<forall>e. snd (nghttp2_bufs_addb alloc x bs) = Inl e \<longrightarrow> fst (nghttp2_bufs_addb alloc x bs) = bs)"
proof (cases "cur_avail bs > 0")
  case True
  then show ?thesis
    using upd_cur_appended [OF assms(2), of "[x]"]
    by (auto simp: nghttp2_bufs_addb_def bufs_ensure_addb_def and_then_def ok_def split: prod.splits)
next
  case False
  from assms(2,1) show ?thesis
  proof (cases rule: alloc_chain_cases)
    case (moved bs')
    then have "length [x] \<le> cur_avail bs'" using bufs_okD(4) [OF assms(2)] by simp
    note up = upd_cur_appended [OF moved(2) this]
    have "room bs' = room bs" using room_moved [OF moved(4,7,3,6)] False by simp
    then show ?thesis
      using up False moved same_limits_trans [OF moved(3)]
      by (auto simp: nghttp2_bufs_addb_def bufs_ensure_addb_def and_then_def appended_def split: prod.splits)
  qed (use False assms(2) in \<open>auto simp: nghttp2_bufs_addb_def bufs_ensure_addb_def
      and_then_def appended_def same_limits_def room_def\<close>)
qed

text \<open>C26: \<open>nghttp2_bufs_add\<close> appends: it always returns, within a number of rounds bounded by
  the data and the chunks; it adds all the bytes behind what the chain holds, across as many
  chunks as it takes, exactly when they fit below the limit of chunks, and otherwise reports
  NGHTTP2_ERR_BUFFER_ERROR; the only other outcome is NGHTTP2_ERR_NOMEM. In every case the
  chain stays well formed, within its limits, and no write leaves a buffer.\<close>
theorem nghttp2_bufs_add_correct:
  assumes "grants alloc" and "bufs_ok bs" and "length xs + (max_chunk bs - cur bs) \<le> fuel"
  shows "\<exists>bs' r. nghttp2_bufs_add fuel alloc xs bs = Some (bs', r) \<and> bufs_ok bs' \<and>
           same_limits bs bs' \<and>
           (r = Inr () \<and> length xs \<le> room bs \<and> bufs_data bs' = bufs_data bs @ xs
            \<or> r = Inl (Code NGHTTP2_ERR_BUFFER_ERROR) \<and> room bs < length xs
            \<or> r = Inl (Code NGHTTP2_ERR_NOMEM))"
  using bufs_add_outcome [OF assms] by (fastforce simp: add_outcome_def appended_def)

definition example_bufs :: bufs where
  "example_bufs = \<lparr>chunks = [\<lparr>mem = replicate 3 0, pos = 1, last_pos = 1, mark = 0\<rparr>], cur = 0,
     chunk_length = 3, max_chunk = 2, chunk_used = 1, chunk_keep = 1, hd_offset = 1\<rparr>"

lemma example_bufs_ok: "bufs_ok example_bufs" "room example_bufs = 4"
  by (simp_all add: example_bufs_def bufs_ok_def buf_ok_def room_def cur_avail_def
      nghttp2_buf_avail_def)

lemma replicate_grants: "grants (\<lambda>k n. Some (replicate n 0))"
  by (simp add: grants_def)

theorem nghttp2_bufs_add_correct_witness:
  "\<exists>bs' r. nghttp2_bufs_add 5 (\<lambda>k n. Some (replicate n 0)) [1, 2, 3] example_bufs = Some (bs', r) \<and>
     bufs_ok bs' \<and> (r = Inr () \<longrightarrow> bufs_data bs' = [1, 2, 3])"
proof -
  have "length [1, 2, 3 :: u8] + (max_chunk example_bufs - cur example_bufs) \<le> 5"
    by (simp add: example_bufs_def)
  from nghttp2_bufs_add_correct [OF replicate_grants example_bufs_ok(1) this]
  show ?thesis
    by (auto simp: example_bufs_def bufs_data_def buf_data_def nghttp2_buf_len_def)
qed

text \<open>Adding one byte appends it or reports that the chain is full or that there is no
  memory; the chain stays well formed and the byte is never written outside a buffer. This
  rests on the chunk being longer than its offset, which \<open>nghttp2_bufs_init3\<close> does not check.\<close>
theorem nghttp2_bufs_addb_correct:
  assumes "grants alloc" and "bufs_ok bs"
  shows "\<exists>bs' r. nghttp2_bufs_addb alloc x bs = (bs', r) \<and> bufs_ok bs' \<and> same_limits bs bs' \<and>
           (r = Inr () \<and> bufs_data bs' = bufs_data bs @ [x]
            \<or> r = Inl (Code NGHTTP2_ERR_BUFFER_ERROR) \<and> room bs = 0 \<and> bs' = bs
            \<or> r = Inl (Code NGHTTP2_ERR_NOMEM) \<and> bs' = bs)"
proof -
  obtain bs' r where out: "nghttp2_bufs_addb alloc x bs = (bs', r)" by fastforce
  show ?thesis using bufs_addb_outcome [OF assms, of x] by (auto simp: out appended_def)
qed

theorem nghttp2_bufs_addb_correct_witness:
  "\<exists>bs' r. nghttp2_bufs_addb (\<lambda>k n. Some (replicate n 0)) 7 example_bufs = (bs', r) \<and> bufs_ok bs'"
  using nghttp2_bufs_addb_correct [OF replicate_grants example_bufs_ok(1), of 7] by blast

text \<open>A new chain accepts exactly the parameters the code tests for; it is empty, well
  formed when the chunk is longer than the offset, and has room for \<open>max_chunk\<close> chunks.\<close>
theorem nghttp2_bufs_init3_correct:
  assumes "grants alloc" and "0 < n"
  shows "(nghttp2_bufs_init3 (alloc k) n maxc keep off = Inl (Code NGHTTP2_ERR_INVALID_ARGUMENT)
            \<longleftrightarrow> keep = 0 \<or> maxc < keep \<or> n < off) \<and>
         (0 < keep \<and> keep \<le> maxc \<and> off < n \<longrightarrow>
            nghttp2_bufs_init3 (alloc k) n maxc keep off = Inl (Code NGHTTP2_ERR_NOMEM) \<or>
            (\<exists>bs. nghttp2_bufs_init3 (alloc k) n maxc keep off = Inr bs \<and> bufs_ok bs \<and>
                  bufs_data bs = [] \<and> room bs = maxc * (n - off)))"
proof -
  consider "buf_chain_new (alloc k) n = Inl (Code NGHTTP2_ERR_NOMEM)"
    | b where "buf_chain_new (alloc k) n = Inr b" "length (mem b) = n" "pos b = 0" "last_pos b = 0"
    using chain_new_ok [OF assms] by auto
  then show ?thesis
  proof cases
    case 1
    then show ?thesis by (simp add: nghttp2_bufs_init3_def)
  next
    case 2
    have "n - off + (maxc - 1) * (n - off) = maxc * (n - off)" if "0 < maxc"
      using that by (cases maxc) simp_all
    then show ?thesis using 2
      by (auto simp: nghttp2_bufs_init3_def bufs_ok_def buf_ok_def nghttp2_buf_shift_right_def
          bufs_data_def buf_data_def nghttp2_buf_len_def room_def cur_avail_def
          nghttp2_buf_avail_def)
  qed
qed

theorem nghttp2_bufs_init3_correct_witness:
  "\<exists>bs. nghttp2_bufs_init3 (\<lambda>n. Some (replicate n 0)) 3 2 1 1 = Inr bs \<and> bufs_ok bs \<and>
        room bs = 2 * (3 - 1)"
  using nghttp2_bufs_init3_correct [OF replicate_grants, of 3 2 1 1]
  by (auto simp: nghttp2_bufs_init3_def buf_chain_new_def nghttp2_buf_init2_def Let_def
      nghttp2_buf_reserve_def nghttp2_buf_init_def nghttp2_buf_cap_def)

text \<open>The boundary the test of \<open>nghttp2_bufs_init3\<close> lets through: with a chunk no longer than
  its offset, the first byte added is written behind the end of the buffer.\<close>
lemma nghttp2_bufs_init3_boundary:
  "\<exists>bs. nghttp2_bufs_init3 (\<lambda>n. Some (replicate n 0)) 1 2 1 1 = Inr bs \<and>
        snd (nghttp2_bufs_addb (\<lambda>k n. Some (replicate n 0)) 7 bs) = Inl Undefined"
  by (simp add: nghttp2_bufs_init3_def buf_chain_new_def nghttp2_buf_init2_def Let_def
      nghttp2_buf_reserve_def nghttp2_buf_init_def nghttp2_buf_cap_def nghttp2_bufs_addb_def
      bufs_ensure_addb_def and_then_def cur_avail_def nghttp2_buf_avail_def
      nghttp2_buf_shift_right_def bufs_alloc_chain_def ok_def upd_cur_def buf_append_def
      nghttp2_cpymem_def mem_write_def)

lemma copy_chunks_data:
  "buf_ok b \<Longrightarrow> pos b = 0 \<Longrightarrow> \<forall>c \<in> set cs. buf_ok c \<Longrightarrow>
     length (mem b) = last_pos b + sum_list (map nghttp2_buf_len cs) \<Longrightarrow>
     \<exists>b'. copy_chunks cs b = Inr b' \<and> mem b' = buf_data b @ concat (map buf_data cs)"
proof (induction cs arbitrary: b)
  case Nil
  then show ?case by (simp add: buf_data_def nghttp2_buf_len_def)
next
  case (Cons c cs)
  then have "length (buf_data c) \<le> nghttp2_buf_avail b" by (simp add: nghttp2_buf_avail_def)
  from buf_append_ok [OF Cons.prems(1) this] obtain b' where b':
    "buf_append b (buf_data c) = Inr b'" "buf_ok b'" "buf_data b' = buf_data b @ buf_data c"
    "length (mem b') = length (mem b)" "pos b' = pos b"
    "last_pos b' = last_pos b + length (buf_data c)" by blast
  then show ?case using Cons.IH [of b'] Cons.prems by simp
qed

text \<open>\<open>nghttp2_bufs_remove\<close> returns one block that holds exactly the data of all chunks in
  order, or NGHTTP2_ERR_NOMEM; the block is filled to its last byte and not beyond.\<close>
theorem nghttp2_bufs_remove_correct:
  assumes "bufs_ok bs" and "\<And>n m. grant n = Some m \<Longrightarrow> length m = n"
  shows "nghttp2_bufs_remove grant bs =
           (if bufs_data bs \<noteq> [] \<and> grant (length (bufs_data bs)) = None
            then Inl (Code NGHTTP2_ERR_NOMEM) else Inr (bufs_data bs))"
proof -
  have bufs: "\<forall>c \<in> set (chunks bs). buf_ok c" using assms(1) by (auto simp: bufs_ok_def)
  have "sum_list (map nghttp2_buf_len cs) = length (concat (map buf_data cs))"
    if "\<forall>c \<in> set cs. buf_ok c" for cs
    using that by (induction cs) simp_all
  then have len: "nghttp2_bufs_len bs = length (bufs_data bs)"
    using bufs by (simp add: nghttp2_bufs_len_def bufs_data_def)
  show ?thesis
  proof (cases "grant (length (bufs_data bs))")
    case None
    then show ?thesis by (simp add: nghttp2_bufs_remove_def len Let_def)
  next
    case (Some m)
    have "length m = length (bufs_data bs)" using assms(2) [OF Some] .
    then have "\<exists>b'. copy_chunks (chunks bs) (nghttp2_buf_wrap_init m) = Inr b' \<and>
        mem b' = buf_data (nghttp2_buf_wrap_init m) @ concat (map buf_data (chunks bs))"
      using bufs len by (intro copy_chunks_data)
        (simp_all add: nghttp2_buf_wrap_init_def buf_ok_def nghttp2_bufs_len_def)
    moreover have "buf_data (nghttp2_buf_wrap_init m) = []"
      by (simp add: nghttp2_buf_wrap_init_def buf_data_def nghttp2_buf_len_def)
    ultimately show ?thesis
      using Some by (auto simp: nghttp2_bufs_remove_def len Let_def bufs_data_def [symmetric])
  qed
qed

theorem nghttp2_bufs_remove_correct_witness:
  "nghttp2_bufs_remove (\<lambda>n. Some (replicate n 0)) (example_bufs\<lparr>chunks :=
       [\<lparr>mem = [1, 2, 3], pos = 1, last_pos = 3, mark = 0\<rparr>]\<rparr>) = Inr [2, 3]"
  by (subst nghttp2_bufs_remove_correct)
    (simp_all add: example_bufs_def bufs_ok_def buf_ok_def bufs_data_def buf_data_def
      nghttp2_buf_len_def)

lemma nghttp2_bufs_reset_ok:
  assumes "bufs_ok bs"
  shows "bufs_ok (nghttp2_bufs_reset bs) \<and> bufs_data (nghttp2_bufs_reset bs) = [] \<and>
         same_limits bs (nghttp2_bufs_reset bs)"
proof -
  have r: "pos (reset_chunk off b) = off" "last_pos (reset_chunk off b) = off"
    "mem (reset_chunk off b) = mem b" for off b
    by (simp_all add: reset_chunk_def nghttp2_buf_shift_right_def nghttp2_buf_reset_def)
  have e: "concat (map (buf_data \<circ> reset_chunk off) cs) = []" for off cs
    by (simp add: buf_data_def nghttp2_buf_len_def r)
  show ?thesis using assms
    by (auto simp: nghttp2_bufs_reset_def bufs_ok_def buf_ok_def fresh_chunk_def r same_limits_def
        bufs_data_def e drop_map dest!: in_set_takeD in_set_dropD)
qed

end
