(* ===== verification/Frame.thy ===== *)
theory Frame
  imports Buf
begin

text \<open>
  \<open>nghttp2_frame.c\<close>: writing and reading the frames of HTTP/2. A frame is written into the head
  buffer of a chain, its header into the nine bytes in front of \<open>pos\<close>. The writers are the
  source's, byte by byte through \<open>mem\<close>; the first group of lemmas gives the bytes each of them
  produces, the second shows that the reader gets back what was written. An \<open>int32_t\<close> stream
  identifier is the 32-bit pattern it is sent as.
\<close>

section \<open>Types and constants\<close>

record frame_hd =
  hd_length :: u32
  hd_stream_id :: u32
  hd_type :: u8
  hd_flags :: u8
  hd_reserved :: u8

record priority_spec =
  ps_stream_id :: u32
  ps_weight :: int
  ps_exclusive :: bool

definition NGHTTP2_FRAME_HDLEN :: nat where "NGHTTP2_FRAME_HDLEN = 9"
definition NGHTTP2_PRIORITY_SPECLEN :: nat where "NGHTTP2_PRIORITY_SPECLEN = 5"
definition NGHTTP2_FRAME_SETTINGS_ENTRY_LENGTH :: nat where
  "NGHTTP2_FRAME_SETTINGS_ENTRY_LENGTH = 6"
definition NGHTTP2_STREAM_ID_MASK :: u32 where "NGHTTP2_STREAM_ID_MASK = mask 31"
definition NGHTTP2_WINDOW_SIZE_INCREMENT_MASK :: u32 where
  "NGHTTP2_WINDOW_SIZE_INCREMENT_MASK = mask 31"

definition NGHTTP2_FLAG_NONE :: u8 where "NGHTTP2_FLAG_NONE = 0"
definition NGHTTP2_FLAG_END_HEADERS :: u8 where "NGHTTP2_FLAG_END_HEADERS = 0x04"
definition NGHTTP2_FLAG_PADDED :: u8 where "NGHTTP2_FLAG_PADDED = 0x08"
definition NGHTTP2_FLAG_PRIORITY :: u8 where "NGHTTP2_FLAG_PRIORITY = 0x20"

definition NGHTTP2_HEADERS :: u8 where "NGHTTP2_HEADERS = 0x01"
definition NGHTTP2_PRIORITY :: u8 where "NGHTTP2_PRIORITY = 0x02"
definition NGHTTP2_RST_STREAM :: u8 where "NGHTTP2_RST_STREAM = 0x03"
definition NGHTTP2_SETTINGS :: u8 where "NGHTTP2_SETTINGS = 0x04"
definition NGHTTP2_PUSH_PROMISE :: u8 where "NGHTTP2_PUSH_PROMISE = 0x05"
definition NGHTTP2_PING :: u8 where "NGHTTP2_PING = 0x06"
definition NGHTTP2_GOAWAY :: u8 where "NGHTTP2_GOAWAY = 0x07"
definition NGHTTP2_WINDOW_UPDATE :: u8 where "NGHTTP2_WINDOW_UPDATE = 0x08"
definition NGHTTP2_CONTINUATION :: u8 where "NGHTTP2_CONTINUATION = 0x09"

section \<open>The frame header\<close>

definition poke :: "bytes \<Rightarrow> nat \<Rightarrow> u8 \<Rightarrow> bytes res" where
  "poke m off b = of_option (mem_write m off [b])"

definition peek :: "bytes \<Rightarrow> nat \<Rightarrow> u8 res" where
  "peek m off = rbind (of_option (mem_read m off 1)) (\<lambda>bs. Inr (hd bs))"

definition nghttp2_frame_pack_frame_hd :: "bytes \<Rightarrow> nat \<Rightarrow> frame_hd \<Rightarrow> bytes res" where
  "nghttp2_frame_pack_frame_hd m off fh =
     rbind (nghttp2_put_uint32be m off (push_bit 8 (hd_length fh))) (\<lambda>m.
     rbind (poke m (off + 3) (hd_type fh)) (\<lambda>m.
     rbind (poke m (off + 4) (hd_flags fh)) (\<lambda>m.
     nghttp2_put_uint32be m (off + 5) (hd_stream_id fh))))"

definition nghttp2_frame_unpack_frame_hd :: "bytes \<Rightarrow> nat \<Rightarrow> frame_hd res" where
  "nghttp2_frame_unpack_frame_hd m off =
     rbind (nghttp2_get_uint32 m off) (\<lambda>l.
     rbind (peek m (off + 3)) (\<lambda>t.
     rbind (peek m (off + 4)) (\<lambda>f.
     rbind (nghttp2_get_uint32 m (off + 5)) (\<lambda>s.
     Inr \<lparr>hd_length = drop_bit 8 l, hd_stream_id = s AND NGHTTP2_STREAM_ID_MASK,
          hd_type = t, hd_flags = f, hd_reserved = 0\<rparr>))))"

definition nghttp2_frame_hd_init :: "u32 \<Rightarrow> u8 \<Rightarrow> u8 \<Rightarrow> u32 \<Rightarrow> frame_hd" where
  "nghttp2_frame_hd_init len type flags sid =
     \<lparr>hd_length = len, hd_stream_id = sid, hd_type = type, hd_flags = flags, hd_reserved = 0\<rparr>"

definition nghttp2_frame_priority_len :: "u8 \<Rightarrow> nat" where
  "nghttp2_frame_priority_len flags =
     (if flags AND NGHTTP2_FLAG_PRIORITY \<noteq> 0 then NGHTTP2_PRIORITY_SPECLEN else 0)"

text \<open>The nine bytes of a header (RFC 9113, 4.1).\<close>

definition hd_bytes :: "frame_hd \<Rightarrow> bytes" where
  "hd_bytes fh =
     [ucast (drop_bit 16 (hd_length fh)), ucast (drop_bit 8 (hd_length fh)),
      ucast (hd_length fh), hd_type fh, hd_flags fh] @ be32 (hd_stream_id fh)"

lemma length_hd_bytes [simp]: "length (hd_bytes fh) = 9"
  by (simp add: hd_bytes_def)

text \<open>A header that the wire can carry.\<close>

definition hd_ok :: "frame_hd \<Rightarrow> bool" where
  "hd_ok fh \<longleftrightarrow> hd_length fh \<le> 0xFFFFFF \<and> hd_stream_id fh \<le> NGHTTP2_STREAM_ID_MASK \<and>
     hd_reserved fh = 0"

lemma mem_write_app:
  "mem_write m off (xs @ ys) =
     Option.bind (mem_write m off xs) (\<lambda>m'. mem_write m' (off + length xs) ys)"
  by (auto simp: mem_write_def ac_simps split: bind_splits)

lemma mem_write_over:
  assumes "length ys \<le> length xs"
  shows "Option.bind (mem_write m off (zs @ xs)) (\<lambda>m'. mem_write m' (off + length zs) ys) =
         mem_write m off (zs @ ys @ drop (length ys) xs)"
  using assms by (auto simp: mem_write_def)

lemma be32_shifted:
  "be32 (push_bit 8 n) = [ucast (drop_bit 16 n), ucast (drop_bit 8 n), ucast n, 0]"
  by (auto simp: be32_def bit_eq_iff bit_simps)

lemma of_option_bind: "of_option (Option.bind x f) = rbind (of_option x) (\<lambda>y. of_option (f y))"
  by (cases x) simp_all

lemma mem_write_fourth:
  "Option.bind (mem_write m off [a, b, c, x]) (\<lambda>m'. mem_write m' (off + 3) [y]) =
   mem_write m off [a, b, c, y]"
  using mem_write_over [of "[y]" "[x]" m off "[a, b, c]"] by (simp add: eval_nat_numeral)

lemma mem_write_4_1:
  "mem_write m off ([a, b, c, x] @ y # ys) =
   Option.bind (mem_write m off [a, b, c, x])
     (\<lambda>m'. Option.bind (mem_write m' (off + 4) [y]) (\<lambda>m'. mem_write m' (off + 5) ys))"
  using mem_write_app [of m off "[a, b, c, x]" "[y] @ ys"] mem_write_app [of _ "off + 4" "[y]" ys]
  by (simp add: eval_nat_numeral)

lemma pack_frame_hd_eq:
  "nghttp2_frame_pack_frame_hd m off fh = of_option (mem_write m off (hd_bytes fh))"
proof -
  let ?a = "ucast (drop_bit 16 (hd_length fh))" and ?b = "ucast (drop_bit 8 (hd_length fh))"
  let ?c = "ucast (hd_length fh)"
  have bytes: "hd_bytes fh =
      [?a, ?b, ?c, hd_type fh] @ hd_flags fh # be32 (hd_stream_id fh)"
    by (simp add: hd_bytes_def)
  have "nghttp2_frame_pack_frame_hd m off fh =
      of_option (Option.bind (Option.bind (mem_write m off [?a, ?b, ?c, 0])
        (\<lambda>m'. mem_write m' (off + 3) [hd_type fh]))
        (\<lambda>m'. Option.bind (mem_write m' (off + 4) [hd_flags fh])
           (\<lambda>m'. mem_write m' (off + 5) (be32 (hd_stream_id fh)))))"
    by (simp add: nghttp2_frame_pack_frame_hd_def put_uint32be_eq be32_shifted poke_def
        of_option_bind rbind_assoc)
  then show ?thesis unfolding mem_write_fourth bytes mem_write_4_1 .
qed

lemma and_mask_id:
  fixes n :: u32
  assumes "unat n < 2 ^ k"
  shows "n AND mask k = n"
  using assms by (simp flip: take_bit_eq_mask add: word_unat_eq_iff unsigned_take_bit_eq
      take_bit_nat_eq_self)

lemma length_field:
  fixes l :: u32
  assumes "l \<le> 0xFFFFFF"
  shows "drop_bit 8 (htonl (load32 [ucast (drop_bit 16 l), ucast (drop_bit 8 l), ucast l, t])) = l"
proof -
  have "drop_bit 8 (htonl (load32 [ucast (drop_bit 16 l), ucast (drop_bit 8 l), ucast l, t])) =
      l AND mask 24"
  proof (rule bit_word_eqI)
    fix k assume "k < LENGTH(32)"
    then have "k < 32" by simp
    then show "bit (drop_bit 8 (htonl (load32 [ucast (drop_bit 16 l), ucast (drop_bit 8 l),
        ucast l, t]))) k \<longleftrightarrow> bit (l AND mask 24) k"
      by (cases rule: byte_position_cases)
        (auto simp: htonl_def bit_simps not_bit_beyond32)
  qed
  also have "\<dots> = l" by (rule and_mask_id) (use assms in \<open>simp add: word_le_nat_alt\<close>)
  finally show ?thesis .
qed

lemma unpack_frame_hd_eq:
  assumes "mem_read m off 9 = Some (hd_bytes fh)" and "hd_ok fh"
  shows "nghttp2_frame_unpack_frame_hd m off = Inr fh"
proof -
  obtain l s t f where fh: "fh = \<lparr>hd_length = l, hd_stream_id = s, hd_type = t, hd_flags = f,
      hd_reserved = 0\<rparr>" and l: "l \<le> 0xFFFFFF" and s: "unat s < 2 ^ 31"
    using assms(2)
    by (cases fh) (auto simp: hd_ok_def NGHTTP2_STREAM_ID_MASK_def word_le_nat_alt
        mask_eq_exp_minus_1)
  have rd: "mem_read m (off + i) n = Some (take n (drop i (hd_bytes fh)))" if "i + n \<le> 9" for i n
    using mem_read_sub [OF assms(1) that] by simp
  have r: "mem_read m off 4 = Some [ucast (drop_bit 16 l), ucast (drop_bit 8 l), ucast l, t]"
      "mem_read m (off + 3) 1 = Some [t]" "mem_read m (off + 4) 1 = Some [f]"
      "mem_read m (off + 5) 4 = Some (be32 s)"
    using rd [of 0 4] rd [of 3 1] rd [of 4 1] rd [of 5 4]
    by (simp_all add: fh hd_bytes_def be32_def eval_nat_numeral)
  show ?thesis
    by (simp add: nghttp2_frame_unpack_frame_hd_def nghttp2_get_uint32_def peek_def r
        r(2,3) [unfolded One_nat_def] fh length_field [OF l] NGHTTP2_STREAM_ID_MASK_def and_mask_id [OF s] del: load32.simps)
qed

text \<open>Frame headers make the round trip: writing a header whose length fits 24 bits and
  whose stream identifier fits 31 stays within its nine bytes, leaves the rest of the buffer
  alone, and reading it back gives the same header.\<close>
theorem frame_hd_roundtrip:
  assumes "hd_ok fh" and "off + 9 \<le> length m"
  shows "\<exists>m'. nghttp2_frame_pack_frame_hd m off fh = Inr m' \<and>
           nghttp2_frame_unpack_frame_hd m' off = Inr fh \<and>
           m' = take off m @ hd_bytes fh @ drop (off + 9) m"
proof -
  let ?m = "take off m @ hd_bytes fh @ drop (off + 9) m"
  have w: "mem_write m off (hd_bytes fh) = Some ?m"
    using assms(2) by (simp add: mem_write_def)
  then have "mem_read ?m off 9 = Some (hd_bytes fh)"
    using mem_read_write_same [OF w] by simp
  then show ?thesis
    using unpack_frame_hd_eq [OF _ assms(1)] w by (simp add: pack_frame_hd_eq)
qed

theorem frame_hd_roundtrip_witness:
  "\<exists>m'. nghttp2_frame_pack_frame_hd (replicate 10 0) 1
          (nghttp2_frame_hd_init 16384 NGHTTP2_HEADERS NGHTTP2_FLAG_END_HEADERS 5) = Inr m' \<and>
        m' = [0, 0, 0x40, 0, 1, 4, 0, 0, 0, 5]"
  using frame_hd_roundtrip [of "nghttp2_frame_hd_init 16384 NGHTTP2_HEADERS NGHTTP2_FLAG_END_HEADERS 5"
      1 "replicate 10 0"]
  by (simp add: hd_ok_def nghttp2_frame_hd_init_def NGHTTP2_STREAM_ID_MASK_def
      mask_eq_exp_minus_1 hd_bytes_def NGHTTP2_HEADERS_def NGHTTP2_FLAG_END_HEADERS_def be32_def)

section \<open>Priority specifications\<close>

definition NGHTTP2_DEFAULT_WEIGHT :: int where "NGHTTP2_DEFAULT_WEIGHT = 16"

definition nghttp2_priority_spec_init :: "u32 \<Rightarrow> int \<Rightarrow> int \<Rightarrow> priority_spec" where
  "nghttp2_priority_spec_init sid wt exclusive =
     \<lparr>ps_stream_id = sid, ps_weight = wt, ps_exclusive = (exclusive \<noteq> 0)\<rparr>"

definition nghttp2_priority_spec_default_init :: priority_spec where
  "nghttp2_priority_spec_default_init =
     \<lparr>ps_stream_id = 0, ps_weight = NGHTTP2_DEFAULT_WEIGHT, ps_exclusive = False\<rparr>"

definition nghttp2_priority_spec_check_default :: "priority_spec \<Rightarrow> bool" where
  "nghttp2_priority_spec_check_default ps \<longleftrightarrow>
     ps_stream_id ps = 0 \<and> ps_weight ps = NGHTTP2_DEFAULT_WEIGHT \<and> \<not> ps_exclusive ps"

definition nghttp2_priority_spec_normalize_weight :: "priority_spec \<Rightarrow> priority_spec" where
  "nghttp2_priority_spec_normalize_weight ps =
     (if ps_weight ps < 1 then ps\<lparr>ps_weight := 1\<rparr>
      else if ps_weight ps > 256 then ps\<lparr>ps_weight := 256\<rparr> else ps)"

definition nghttp2_frame_pack_priority_spec :: "bytes \<Rightarrow> nat \<Rightarrow> priority_spec \<Rightarrow> bytes res" where
  "nghttp2_frame_pack_priority_spec m off ps =
     rbind (nghttp2_put_uint32be m off (ps_stream_id ps)) (\<lambda>m.
     rbind (if ps_exclusive ps then rbind (peek m off) (\<lambda>b. poke m off (b OR 0x80)) else Inr m)
       (\<lambda>m. poke m (off + 4) (word_of_int (ps_weight ps - 1))))"

definition nghttp2_frame_unpack_priority_spec :: "bytes \<Rightarrow> nat \<Rightarrow> priority_spec res" where
  "nghttp2_frame_unpack_priority_spec m off =
     rbind (nghttp2_get_uint32 m off) (\<lambda>n.
     rbind (peek m off) (\<lambda>b0.
     rbind (peek m (off + 4)) (\<lambda>b4.
     Inr (nghttp2_priority_spec_init (n AND NGHTTP2_STREAM_ID_MASK) (uint b4 + 1)
            (if b0 AND 0x80 > 0 then 1 else 0)))))"

text \<open>The five bytes (RFC 9113, 6.3): the exclusive flag is the bit above the identifier.\<close>

definition ps_word :: "priority_spec \<Rightarrow> u32" where
  "ps_word ps = (if ps_exclusive ps then ps_stream_id ps OR push_bit 31 1 else ps_stream_id ps)"

definition ps_bytes :: "priority_spec \<Rightarrow> bytes" where
  "ps_bytes ps = be32 (ps_word ps) @ [word_of_int (ps_weight ps - 1)]"

definition ps_ok :: "priority_spec \<Rightarrow> bool" where
  "ps_ok ps \<longleftrightarrow> unat (ps_stream_id ps) < 2 ^ 31 \<and> 1 \<le> ps_weight ps \<and> ps_weight ps \<le> 256"

lemma length_ps_bytes [simp]: "length (ps_bytes ps) = 5"
  by (simp add: ps_bytes_def)

lemma be32_exclusive:
  "be32 (n OR push_bit 31 1) =
     [ucast (drop_bit 24 n) OR 0x80, ucast (drop_bit 16 n), ucast (drop_bit 8 n), ucast n]"
proof -
  have "(0x80 :: u8) = push_bit 7 1" by simp
  then show ?thesis
    by (auto simp: be32_def bit_eq_iff bit_simps simp del: push_bit_of_1)
qed

lemma pack_priority_spec_eq:
  "nghttp2_frame_pack_priority_spec m off ps = of_option (mem_write m off (ps_bytes ps))"
proof -
  have split: "of_option (mem_write m off (be32 n @ [x])) =
      rbind (of_option (mem_write m off (be32 n))) (\<lambda>m. poke m (off + 4) x)"
    for n x by (simp add: mem_write_app of_option_bind poke_def)
  show ?thesis
  proof (cases "ps_exclusive ps")
    case False
    then show ?thesis
      by (simp add: nghttp2_frame_pack_priority_spec_def put_uint32be_eq ps_bytes_def ps_word_def
          split)
  next
    case True
    let ?id = "ps_stream_id ps"
    have "rbind (of_option (mem_write m off (be32 ?id)))
        (\<lambda>m. rbind (peek m off) (\<lambda>b. poke m off (b OR 0x80))) =
        of_option (mem_write m off (be32 (?id OR push_bit 31 1)))"
      unfolding be32_exclusive
      by (auto simp: peek_def poke_def mem_read_def mem_write_def be32_def min_def)
    then show ?thesis using True
      by (simp add: nghttp2_frame_pack_priority_spec_def put_uint32be_eq ps_bytes_def ps_word_def
          split rbind_assoc [symmetric] del: push_bit_of_1)
  qed
qed

lemma unpack_priority_spec_eq:
  assumes "mem_read m off 5 = Some (ps_bytes ps)" and "ps_ok ps"
  shows "nghttp2_frame_unpack_priority_spec m off = Inr ps"
proof -
  have rd: "mem_read m (off + i) n = Some (take n (drop i (ps_bytes ps)))" if "i + n \<le> 5" for i n
    using mem_read_sub [OF assms(1) that] by simp
  have r: "mem_read m off 4 = Some (be32 (ps_word ps))"
      "mem_read m off (Suc 0) = Some [ucast (drop_bit 24 (ps_word ps))]"
      "mem_read m (off + 4) (Suc 0) = Some [word_of_int (ps_weight ps - 1)]"
    using rd [of 0 4] rd [of 0 1] rd [of 4 1]
    by (simp_all add: ps_bytes_def be32_def eval_nat_numeral)
  have id: "ps_word ps AND mask 31 = ps_stream_id ps"
  proof -
    have "ps_word ps AND mask 31 = ps_stream_id ps AND mask 31"
      by (auto simp: ps_word_def bit_eq_iff bit_simps simp del: push_bit_of_1)
    also have "\<dots> = ps_stream_id ps"
      by (rule and_mask_id) (use assms(2) in \<open>simp add: ps_ok_def\<close>)
    finally show ?thesis .
  qed
  have "\<not> bit (ps_stream_id ps) 31"
  proof -
    have "bit (ps_stream_id ps) 31 = bit (ps_stream_id ps AND mask 31) 31"
      by (subst and_mask_id) (use assms(2) in \<open>simp_all add: ps_ok_def\<close>)
    then show ?thesis by (simp add: bit_simps)
  qed
  then have b31: "bit (ps_word ps) 31 = ps_exclusive ps"
    by (simp add: ps_word_def bit_simps del: push_bit_of_1)
  have ex: "ucast (drop_bit 24 (ps_word ps)) AND (0x80 :: u8) > 0 \<longleftrightarrow> ps_exclusive ps"
  proof -
    have m: "(0x80 :: u8) = 2 ^ 7" by simp
    have "ucast (drop_bit 24 (ps_word ps)) AND (0x80 :: u8) = 0 \<longleftrightarrow> \<not> bit (ps_word ps) 31"
      unfolding m and_exp_eq_0_iff_not_bit by (simp add: bit_simps)
    then show ?thesis using b31 word_neq_0_conv by blast
  qed
  have w: "uint (word_of_int (ps_weight ps - 1) :: u8) + 1 = ps_weight ps"
    unfolding uint_word_of_int using assms(2) by (simp add: ps_ok_def)
  show ?thesis
    using r id ex w
    by (simp add: nghttp2_frame_unpack_priority_spec_def nghttp2_get_uint32_def peek_def
        NGHTTP2_STREAM_ID_MASK_def nghttp2_priority_spec_init_def)
qed

section \<open>Writing a frame into the head buffer\<close>

text \<open>\<open>buf->pos -= NGHTTP2_FRAME_HDLEN\<close> and the header there; a position that is less than nine
  bytes into the buffer would leave it.\<close>

definition pack_hd :: "frame_hd \<Rightarrow> buf \<Rightarrow> buf res" where
  "pack_hd fh b =
     (if pos b < NGHTTP2_FRAME_HDLEN then Inl Undefined
      else rbind (nghttp2_frame_pack_frame_hd (mem b) (pos b - NGHTTP2_FRAME_HDLEN) fh)
        (\<lambda>m. Inr (b\<lparr>mem := m, pos := pos b - NGHTTP2_FRAME_HDLEN\<rparr>)))"

definition put_last32 :: "u32 \<Rightarrow> buf \<Rightarrow> buf res" where
  "put_last32 n b =
     rbind (nghttp2_put_uint32be (mem b) (last_pos b) n)
       (\<lambda>m. Inr (b\<lparr>mem := m, last_pos := last_pos b + 4\<rparr>))"

definition put_last16 :: "u16 \<Rightarrow> buf \<Rightarrow> buf res" where
  "put_last16 n b =
     rbind (nghttp2_put_uint16be (mem b) (last_pos b) n)
       (\<lambda>m. Inr (b\<lparr>mem := m, last_pos := last_pos b + 2\<rparr>))"

definition upd_head :: "(buf \<Rightarrow> buf res) \<Rightarrow> bufs_op" where
  "upd_head f bs =
     (case chunks bs of
        [] \<Rightarrow> (bs, Inl Undefined)
      | b # cs \<Rightarrow> (case f b of
            Inl e \<Rightarrow> (bs, Inl e)
          | Inr b' \<Rightarrow> (bs\<lparr>chunks := b' # cs\<rparr>, Inr ())))"

text \<open>\<open>assert(bufs->head == bufs->cur)\<close>.\<close>

definition assert_single :: "bufs_op \<Rightarrow> bufs_op" where
  "assert_single f bs = (if cur bs \<noteq> 0 then (bs, Inl Assert_failed) else f bs)"

lemma buf_append_eq:
  "xs \<noteq> [] \<Longrightarrow> buf_append b xs =
     rbind (of_option (mem_write (mem b) (last_pos b) xs))
       (\<lambda>m. Inr (b\<lparr>mem := m, last_pos := last_pos b + length xs\<rparr>))"
  by (simp add: buf_append_def nghttp2_cpymem_def rbind_assoc)

lemma be_not_Nil [simp]: "be32 n \<noteq> []" "be16 m \<noteq> []"
  by (simp_all add: be32_def be16_def)

lemma put_last32_eq: "put_last32 n b = buf_append b (be32 n)"
  by (simp add: buf_append_eq put_last32_def put_uint32be_eq)

lemma put_last32_fun: "put_last32 n = (\<lambda>b. buf_append b (be32 n))"
  by (rule ext) (rule put_last32_eq)

lemma put_last16_eq: "put_last16 n b = buf_append b (be16 n)"
  by (simp add: buf_append_eq put_last16_def put_uint16be_eq)

lemma pack_hd_ok:
  assumes "buf_ok b" "9 \<le> pos b"
  shows "\<exists>b'. pack_hd fh b = Inr b' \<and> buf_ok b' \<and> buf_data b' = hd_bytes fh @ buf_data b \<and>
           nghttp2_buf_avail b' = nghttp2_buf_avail b \<and> length (mem b') = length (mem b) \<and>
           last_pos b' = last_pos b \<and> pos b' = pos b - 9"
proof -
  have p: "pos b \<le> last_pos b" "last_pos b \<le> length (mem b)" using assms(1) by (auto simp: buf_ok_def)
  let ?m = "take (pos b - 9) (mem b) @ hd_bytes fh @ drop (pos b) (mem b)"
  have "nghttp2_frame_pack_frame_hd (mem b) (pos b - 9) fh = Inr ?m"
    using p assms(2) by (simp add: pack_frame_hd_eq mem_write_def)
  then have "pack_hd fh b = Inr (b\<lparr>mem := ?m, pos := pos b - 9\<rparr>)"
    using assms(2) by (simp add: pack_hd_def NGHTTP2_FRAME_HDLEN_def)
  moreover have "buf_data (b\<lparr>mem := ?m, pos := pos b - 9\<rparr>) = hd_bytes fh @ buf_data b"
    using p assms(2) by (simp add: buf_data_def nghttp2_buf_len_def)
  ultimately show ?thesis using p assms(2)
    by (auto simp: buf_ok_def nghttp2_buf_avail_def)
qed

lemma buf_append_append:
  "rbind (buf_append b xs) (\<lambda>b. buf_append b ys) = buf_append b (xs @ ys)"
proof (cases "xs = [] \<or> ys = []")
  case True
  have nil: "buf_append c [] = Inr c" for c by (simp add: buf_append_def nghttp2_cpymem_def)
  then show ?thesis using True by (cases "buf_append b xs") auto
next
  case False
  then show ?thesis
    by (cases "mem_write (mem b) (last_pos b) xs")
      (simp_all add: buf_append_eq mem_write_app add.assoc)
qed

text \<open>What a writer of one frame promises: whatever the head buffer holds, it puts the header in
  front of it and the payload behind it, and stays inside the buffer.\<close>

definition emits :: "(buf \<Rightarrow> buf res) \<Rightarrow> frame_hd \<Rightarrow> bytes \<Rightarrow> bool" where
  "emits f fh payload \<longleftrightarrow>
     (\<forall>b. buf_ok b \<longrightarrow> 9 \<le> pos b \<longrightarrow> length payload \<le> nghttp2_buf_avail b \<longrightarrow>
        (\<exists>b'. f b = Inr b' \<and> buf_ok b' \<and> buf_data b' = hd_bytes fh @ buf_data b @ payload \<and>
              length (mem b') = length (mem b) \<and> last_pos b' = last_pos b + length payload))"

lemma emits_append: "emits (\<lambda>b. rbind (pack_hd fh b) (\<lambda>b. buf_append b xs)) fh xs"
  unfolding emits_def
proof (intro allI impI)
  fix b assume b: "buf_ok b" "9 \<le> pos b" "length xs \<le> nghttp2_buf_avail b"
  obtain b1 where b1: "pack_hd fh b = Inr b1" "buf_ok b1" "buf_data b1 = hd_bytes fh @ buf_data b"
      "length (mem b1) = length (mem b)" "nghttp2_buf_avail b1 = nghttp2_buf_avail b"
      "last_pos b1 = last_pos b"
    using pack_hd_ok [OF b(1,2)] by blast
  then have "length xs \<le> nghttp2_buf_avail b1" using b(3) by simp
  from buf_append_ok [OF b1(2) this] b1
  show "\<exists>b'. rbind (pack_hd fh b) (\<lambda>b. buf_append b xs) = Inr b' \<and> buf_ok b' \<and>
      buf_data b' = hd_bytes fh @ buf_data b @ xs \<and> length (mem b') = length (mem b) \<and>
      last_pos b' = last_pos b + length xs" by auto
qed

text \<open>The same, as seen from the chain: the data of a chain whose only buffer is empty.\<close>

lemma emits_upd_head:
  assumes e: "emits f fh payload"
    and bs: "chunks bs = [b]" "cur bs = 0" "buf_ok b" "buf_data b = []" "9 \<le> pos b"
      "length payload \<le> nghttp2_buf_avail b"
  shows "\<exists>bs'. upd_head f bs = (bs', Inr ()) \<and> bufs_data bs' = hd_bytes fh @ payload \<and>
           length (chunks bs') = 1"
proof -
  obtain b' where "f b = Inr b'" "buf_data b' = hd_bytes fh @ payload"
    using e bs unfolding emits_def by (metis append_Nil)
  then show ?thesis using bs by (simp add: upd_head_def bufs_data_def)
qed

section \<open>Frames of fixed layout\<close>

definition nghttp2_frame_pack_priority :: "frame_hd \<Rightarrow> priority_spec \<Rightarrow> bufs_op" where
  "nghttp2_frame_pack_priority fh ps =
     assert_single (upd_head (\<lambda>b.
       rbind (assert_that (nghttp2_buf_avail b \<ge> NGHTTP2_PRIORITY_SPECLEN)) (\<lambda>_.
       rbind (pack_hd fh b) (\<lambda>b.
       rbind (nghttp2_frame_pack_priority_spec (mem b) (last_pos b) ps) (\<lambda>m.
       Inr (b\<lparr>mem := m, last_pos := last_pos b + NGHTTP2_PRIORITY_SPECLEN\<rparr>))))))"

definition nghttp2_frame_unpack_priority_payload :: "bytes \<Rightarrow> priority_spec res" where
  "nghttp2_frame_unpack_priority_payload payload = nghttp2_frame_unpack_priority_spec payload 0"

definition nghttp2_frame_pack_rst_stream :: "frame_hd \<Rightarrow> u32 \<Rightarrow> bufs_op" where
  "nghttp2_frame_pack_rst_stream fh error_code =
     assert_single (upd_head (\<lambda>b.
       rbind (assert_that (nghttp2_buf_avail b \<ge> 4)) (\<lambda>_.
       rbind (pack_hd fh b) (put_last32 error_code))))"

definition nghttp2_frame_unpack_rst_stream_payload :: "bytes \<Rightarrow> u32 res" where
  "nghttp2_frame_unpack_rst_stream_payload payload = nghttp2_get_uint32 payload 0"

definition nghttp2_frame_pack_ping :: "frame_hd \<Rightarrow> bytes \<Rightarrow> bufs_op" where
  "nghttp2_frame_pack_ping fh opaque_data =
     assert_single (upd_head (\<lambda>b.
       rbind (assert_that (nghttp2_buf_avail b \<ge> 8)) (\<lambda>_.
       rbind (pack_hd fh b) (\<lambda>b. buf_append b opaque_data))))"

definition nghttp2_frame_unpack_ping_payload :: "bytes \<Rightarrow> bytes res" where
  "nghttp2_frame_unpack_ping_payload payload = of_option (mem_read payload 0 8)"

definition nghttp2_frame_pack_window_update :: "frame_hd \<Rightarrow> u32 \<Rightarrow> bufs_op" where
  "nghttp2_frame_pack_window_update fh window_size_increment =
     assert_single (upd_head (\<lambda>b.
       rbind (assert_that (nghttp2_buf_avail b \<ge> 4)) (\<lambda>_.
       rbind (pack_hd fh b) (put_last32 window_size_increment))))"

definition nghttp2_frame_unpack_window_update_payload :: "bytes \<Rightarrow> u32 res" where
  "nghttp2_frame_unpack_window_update_payload payload =
     rbind (nghttp2_get_uint32 payload 0) (\<lambda>n. Inr (n AND NGHTTP2_WINDOW_SIZE_INCREMENT_MASK))"

text \<open>A chain as the session prepares it for a frame: one empty buffer, with the offset in
  front of the position.\<close>

definition frame_bufs :: "bufs \<Rightarrow> nat \<Rightarrow> bool" where
  "frame_bufs bs n \<longleftrightarrow> cur bs = 0 \<and>
     (\<exists>b. chunks bs = [b] \<and> buf_ok b \<and> buf_data b = [] \<and> 9 \<le> pos b \<and>
          n \<le> nghttp2_buf_avail b)"

lemma frame_bufs_emits:
  assumes "frame_bufs bs n" "emits f fh payload" "length payload \<le> n"
  shows "\<exists>bs'. assert_single (upd_head (\<lambda>b. rbind (assert_that (nghttp2_buf_avail b \<ge> n)) (\<lambda>_. f b)))
             bs = (bs', Inr ()) \<and>
           bufs_data bs' = hd_bytes fh @ payload \<and> length (chunks bs') = 1"
proof -
  obtain b where b: "cur bs = 0" "chunks bs = [b]" "buf_ok b" "buf_data b = []" "9 \<le> pos b"
      "n \<le> nghttp2_buf_avail b" using assms(1) by (auto simp: frame_bufs_def)
  obtain b' where "f b = Inr b'" "buf_data b' = hd_bytes fh @ payload"
    using assms(2,3) b unfolding emits_def by (metis append_Nil le_trans)
  then show ?thesis using b by (simp add: assert_single_def upd_head_def bufs_data_def)
qed

lemma mem_read_all: "length m = n \<Longrightarrow> mem_read m 0 n = Some m"
  by (simp add: mem_read_def)

lemma get_uint32_be32: "nghttp2_get_uint32 (be32 n @ rest) 0 = Inr n"
  by (simp add: nghttp2_get_uint32_def mem_read_def)

lemma get_uint16_be16: "nghttp2_get_uint16 (be16 n @ rest) 0 = Inr n"
  by (simp add: nghttp2_get_uint16_def mem_read_def)

text \<open>The wire form: a frame was packed when the chain holds its header and then its payload.\<close>

definition packed :: "bufs \<times> unit res \<Rightarrow> frame_hd \<Rightarrow> bytes \<Rightarrow> bool" where
  "packed out fh payload \<longleftrightarrow>
     (\<exists>bs'. out = (bs', Inr ()) \<and> bufs_data bs' = hd_bytes fh @ payload)"

lemma packedI:
  assumes "frame_bufs bs n" "length payload \<le> n"
    and "f = assert_single (upd_head (\<lambda>b. rbind (assert_that (nghttp2_buf_avail b \<ge> n))
           (\<lambda>_. rbind (pack_hd fh b) (\<lambda>b. buf_append b payload))))"
  shows "packed (f bs) fh payload"
  using frame_bufs_emits [OF assms(1) emits_append assms(2)] assms(3) by (auto simp: packed_def)

lemma pack_priority_packed:
  assumes "frame_bufs bs 5"
  shows "packed (nghttp2_frame_pack_priority fh ps bs) fh (ps_bytes ps)"
proof (rule packedI [OF assms])
  have "rbind (nghttp2_frame_pack_priority_spec (mem b) (last_pos b) ps)
      (\<lambda>m. Inr (b\<lparr>mem := m, last_pos := last_pos b + 5\<rparr>)) = buf_append b (ps_bytes ps)" for b
    by (simp add: pack_priority_spec_eq buf_append_eq ps_bytes_def)
  then show "nghttp2_frame_pack_priority fh ps = assert_single (upd_head (\<lambda>b.
      rbind (assert_that (nghttp2_buf_avail b \<ge> 5))
        (\<lambda>_. rbind (pack_hd fh b) (\<lambda>b. buf_append b (ps_bytes ps)))))"
    by (simp add: nghttp2_frame_pack_priority_def NGHTTP2_PRIORITY_SPECLEN_def)
qed simp

lemma pack_rst_stream_packed:
  "frame_bufs bs 4 \<Longrightarrow> packed (nghttp2_frame_pack_rst_stream fh code bs) fh (be32 code)"
  by (erule packedI) (simp_all add: nghttp2_frame_pack_rst_stream_def put_last32_fun)

lemma pack_ping_packed:
  "frame_bufs bs 8 \<Longrightarrow> length d = 8 \<Longrightarrow> packed (nghttp2_frame_pack_ping fh d bs) fh d"
  by (erule packedI) (simp_all add: nghttp2_frame_pack_ping_def)

lemma pack_window_update_packed:
  "frame_bufs bs 4 \<Longrightarrow> packed (nghttp2_frame_pack_window_update fh inc bs) fh (be32 inc)"
  by (erule packedI) (simp_all add: nghttp2_frame_pack_window_update_def put_last32_fun)

lemma frame_bufs_mono: "frame_bufs bs n \<Longrightarrow> k \<le> n \<Longrightarrow> frame_bufs bs k"
  by (auto simp: frame_bufs_def)

text \<open>C37: The frames of fixed layout make the round trip. Packed into a prepared chain,
  PRIORITY, RST_STREAM, PING and WINDOW_UPDATE become their header followed by their payload,
  no assertion fails and no write leaves the buffer, and unpacking that payload yields the
  dependency, weight and flag, the error code, the opaque data and the increment that were
  packed.\<close>
theorem fixed_frames_roundtrip:
  assumes bs: "frame_bufs bs 8" and "ps_ok ps" and "length d = 8" and "unat inc < 2 ^ 31"
  shows "(packed (nghttp2_frame_pack_priority fh ps bs) fh (ps_bytes ps) \<and>
            nghttp2_frame_unpack_priority_payload (ps_bytes ps) = Inr ps) \<and>
         (packed (nghttp2_frame_pack_rst_stream fh code bs) fh (be32 code) \<and>
            nghttp2_frame_unpack_rst_stream_payload (be32 code) = Inr code) \<and>
         (packed (nghttp2_frame_pack_ping fh d bs) fh d \<and>
            nghttp2_frame_unpack_ping_payload d = Inr d) \<and>
         (packed (nghttp2_frame_pack_window_update fh inc bs) fh (be32 inc) \<and>
            nghttp2_frame_unpack_window_update_payload (be32 inc) = Inr inc)"
proof -
  have "nghttp2_frame_unpack_priority_payload (ps_bytes ps) = Inr ps"
    unfolding nghttp2_frame_unpack_priority_payload_def
    by (rule unpack_priority_spec_eq [OF _ assms(2)]) (simp add: mem_read_all)
  moreover have "nghttp2_frame_unpack_window_update_payload (be32 inc) = Inr inc"
    using get_uint32_be32 [of inc "[]"] and_mask_id [OF assms(4)]
    by (simp add: nghttp2_frame_unpack_window_update_payload_def
        NGHTTP2_WINDOW_SIZE_INCREMENT_MASK_def)
  moreover have "nghttp2_frame_unpack_rst_stream_payload (be32 code) = Inr code"
    using get_uint32_be32 [of code "[]"] by (simp add: nghttp2_frame_unpack_rst_stream_payload_def)
  ultimately show ?thesis
    using pack_priority_packed pack_rst_stream_packed pack_window_update_packed
      pack_ping_packed [OF bs assms(3)] frame_bufs_mono [OF bs] assms(3)
    by (simp add: nghttp2_frame_unpack_ping_payload_def mem_read_all)
qed

definition example_frame_bufs :: bufs where
  "example_frame_bufs = \<lparr>chunks = [\<lparr>mem = replicate 32 0, pos = 10, last_pos = 10, mark = 0\<rparr>],
     cur = 0, chunk_length = 32, max_chunk = 1, chunk_used = 1, chunk_keep = 1, hd_offset = 10\<rparr>"

lemma example_frame_bufs: "frame_bufs example_frame_bufs 22"
  by (simp add: frame_bufs_def example_frame_bufs_def buf_ok_def buf_data_def
      nghttp2_buf_len_def nghttp2_buf_avail_def)

theorem fixed_frames_roundtrip_witness:
  "nghttp2_frame_unpack_priority_payload
     (ps_bytes \<lparr>ps_stream_id = 3, ps_weight = 256, ps_exclusive = True\<rparr>) =
     Inr \<lparr>ps_stream_id = 3, ps_weight = 256, ps_exclusive = True\<rparr> \<and>
   packed (nghttp2_frame_pack_rst_stream
     (nghttp2_frame_hd_init 4 NGHTTP2_RST_STREAM NGHTTP2_FLAG_NONE 3) 8 example_frame_bufs)
     (nghttp2_frame_hd_init 4 NGHTTP2_RST_STREAM NGHTTP2_FLAG_NONE 3) [0, 0, 0, 8]"
proof -
  have "frame_bufs example_frame_bufs 8" by (rule frame_bufs_mono [OF example_frame_bufs]) simp
  moreover have "be32 8 = [0, 0, 0, 8]" by (simp add: be32_def)
  ultimately show ?thesis
    using fixed_frames_roundtrip [of example_frame_bufs
        "\<lparr>ps_stream_id = 3, ps_weight = 256, ps_exclusive = True\<rparr>" "replicate 8 0" 1
        "nghttp2_frame_hd_init 4 NGHTTP2_RST_STREAM NGHTTP2_FLAG_NONE 3" 8]
    by (simp add: ps_ok_def)
qed

end
