(* ===== verification/FrameVar.thy ===== *)
theory FrameVar
  imports Frame
begin

text \<open>
  The frames of \<open>nghttp2_frame.c\<close> whose payload has no fixed length: SETTINGS, GOAWAY, ALTSVC,
  ORIGIN and PRIORITY_UPDATE, the check of settings values, and padding. Each writer is shown to
  produce the bytes the reader accepts, and each reader to stay inside the payload it is given.
\<close>

section \<open>SETTINGS\<close>

record settings_entry =
  settings_id :: int
  settings_value :: u32

fun put_settings :: "bytes \<Rightarrow> nat \<Rightarrow> settings_entry list \<Rightarrow> bytes res" where
  "put_settings m off [] = Inr m"
| "put_settings m off (e # iv) =
     rbind (nghttp2_put_uint16be m off (word_of_int (settings_id e))) (\<lambda>m.
     rbind (nghttp2_put_uint32be m (off + 2) (settings_value e)) (\<lambda>m.
     put_settings m (off + NGHTTP2_FRAME_SETTINGS_ENTRY_LENGTH) iv))"

definition nghttp2_frame_pack_settings_payload ::
  "bytes \<Rightarrow> nat \<Rightarrow> settings_entry list \<Rightarrow> (bytes \<times> nat) res" where
  "nghttp2_frame_pack_settings_payload m off iv =
     rbind (put_settings m off iv)
       (\<lambda>m. Inr (m, NGHTTP2_FRAME_SETTINGS_ENTRY_LENGTH * length iv))"

definition nghttp2_frame_pack_settings :: "frame_hd \<Rightarrow> settings_entry list \<Rightarrow> bufs_op" where
  "nghttp2_frame_pack_settings fh iv =
     assert_single (upd_head (\<lambda>b.
       if nghttp2_buf_avail b < unat (hd_length fh) then Inl (Code NGHTTP2_ERR_FRAME_SIZE_ERROR)
       else rbind (pack_hd fh b) (\<lambda>b.
         rbind (nghttp2_frame_pack_settings_payload (mem b) (last_pos b) iv) (\<lambda>(m, n).
         Inr (b\<lparr>mem := m, last_pos := last_pos b + n\<rparr>)))))"

definition nghttp2_frame_unpack_settings_entry :: "bytes \<Rightarrow> nat \<Rightarrow> settings_entry res" where
  "nghttp2_frame_unpack_settings_entry payload off =
     rbind (nghttp2_get_uint16 payload off) (\<lambda>i.
     rbind (nghttp2_get_uint32 payload (off + 2)) (\<lambda>v.
     Inr \<lparr>settings_id = uint i, settings_value = v\<rparr>))"

text \<open>The loop over the entries \<open>i, ..., i + k - 1\<close>.\<close>

fun unpack_entries :: "bytes \<Rightarrow> nat \<Rightarrow> nat \<Rightarrow> settings_entry list res" where
  "unpack_entries payload i 0 = Inr []"
| "unpack_entries payload i (Suc k) =
     rbind (nghttp2_frame_unpack_settings_entry payload (i * NGHTTP2_FRAME_SETTINGS_ENTRY_LENGTH))
       (\<lambda>e. rbind (unpack_entries payload (i + 1) k) (\<lambda>es. Inr (e # es)))"

definition sizeof_settings_entry :: nat where "sizeof_settings_entry = 8"

definition nghttp2_frame_unpack_settings_payload2 ::
  "(nat \<Rightarrow> bool) \<Rightarrow> bytes \<Rightarrow> settings_entry list res" where
  "nghttp2_frame_unpack_settings_payload2 grant payload =
     (let niv = length payload div NGHTTP2_FRAME_SETTINGS_ENTRY_LENGTH in
      if niv = 0 then Inr []
      else if \<not> grant (niv * sizeof_settings_entry) then Inl (Code NGHTTP2_ERR_NOMEM)
      else unpack_entries payload 0 niv)"

definition entry_bytes :: "settings_entry \<Rightarrow> bytes" where
  "entry_bytes e = be16 (word_of_int (settings_id e)) @ be32 (settings_value e)"

definition settings_bytes :: "settings_entry list \<Rightarrow> bytes" where
  "settings_bytes iv = concat (map entry_bytes iv)"

definition entry_ok :: "settings_entry \<Rightarrow> bool" where
  "entry_ok e \<longleftrightarrow> 0 \<le> settings_id e \<and> settings_id e < 65536"

lemma length_entry_bytes [simp]: "length (entry_bytes e) = 6"
  by (simp add: entry_bytes_def)

lemma length_settings_bytes [simp]: "length (settings_bytes iv) = 6 * length iv"
  by (induction iv) (simp_all add: settings_bytes_def)

lemma settings_bytes_Cons: "settings_bytes (e # iv) = entry_bytes e @ settings_bytes iv"
  by (simp add: settings_bytes_def)

lemma mem_write_nil: "off \<le> length m \<Longrightarrow> mem_write m off [] = Some m"
  by (simp add: mem_write_def)

lemma put_settings_eq:
  "off \<le> length m \<Longrightarrow>
     put_settings m off iv = of_option (mem_write m off (settings_bytes iv))"
proof (induction iv arbitrary: m off)
  case Nil
  then show ?case by (simp add: settings_bytes_def mem_write_nil)
next
  case (Cons e iv)
  have "put_settings m off (e # iv) =
      rbind (of_option (mem_write m off (entry_bytes e))) (\<lambda>m. put_settings m (off + 6) iv)"
    by (simp add: put_uint16be_eq put_uint32be_eq entry_bytes_def mem_write_app of_option_bind
        rbind_assoc NGHTTP2_FRAME_SETTINGS_ENTRY_LENGTH_def)
  also have "\<dots> = of_option (Option.bind (mem_write m off (entry_bytes e))
      (\<lambda>m. mem_write m (off + 6) (settings_bytes iv)))"
  proof (cases "mem_write m off (entry_bytes e)")
    case (Some m')
    then have "off + 6 \<le> length m'"
      using mem_write_length [OF Some] by (auto simp: mem_write_def split: if_splits)
    then show ?thesis using Cons.IH Some by simp
  qed simp
  also have "\<dots> = of_option (mem_write m off (settings_bytes (e # iv)))"
    using mem_write_app [of m off "entry_bytes e" "settings_bytes iv"]
    by (simp add: settings_bytes_Cons)
  finally show ?case .
qed

lemma unpack_entry_at:
  assumes "entry_ok e"
  shows "nghttp2_frame_unpack_settings_entry (pre @ entry_bytes e @ rest) (length pre) = Inr e"
proof -
  let ?p = "pre @ entry_bytes e @ rest"
  have "mem_read ?p (length pre) 2 = Some (be16 (word_of_int (settings_id e)))"
    "mem_read ?p (length pre + 2) 4 = Some (be32 (settings_value e))"
    by (simp_all add: mem_read_def entry_bytes_def)
  moreover have "uint (word_of_int (settings_id e) :: u16) = settings_id e"
    unfolding uint_word_of_int using assms by (simp add: entry_ok_def)
  ultimately show ?thesis
    by (simp add: nghttp2_frame_unpack_settings_entry_def nghttp2_get_uint16_def
        nghttp2_get_uint32_def)
qed

lemma unpack_entries_at:
  "list_all entry_ok iv \<Longrightarrow> length pre = 6 * i \<Longrightarrow>
     unpack_entries (pre @ settings_bytes iv @ rest) i (length iv) = Inr iv"
proof (induction iv arbitrary: pre i)
  case (Cons e iv)
  have "unpack_entries ((pre @ entry_bytes e) @ settings_bytes iv @ rest) (i + 1) (length iv) = Inr iv"
    by (rule Cons.IH) (use Cons.prems in simp_all)
  moreover have "nghttp2_frame_unpack_settings_entry
      (pre @ entry_bytes e @ settings_bytes iv @ rest) (i * 6) = Inr e"
    using unpack_entry_at [of e pre "settings_bytes iv @ rest"] Cons.prems by (simp add: mult.commute)
  ultimately show ?case
    by (simp add: settings_bytes_Cons NGHTTP2_FRAME_SETTINGS_ENTRY_LENGTH_def)
qed simp

text \<open>C38: SETTINGS frames make the round trip: a frame of any number of entries that fits the
  buffer is packed as its header and six bytes per entry, and unpacking that payload yields the
  same entries in the same order or reports NGHTTP2_ERR_NOMEM; a frame that does not fit is
  refused with NGHTTP2_ERR_FRAME_SIZE_ERROR and the chain is left as it was.\<close>
theorem settings_roundtrip:
  assumes bs: "frame_bufs bs n" and iv: "list_all entry_ok iv"
    and len: "unat (hd_length fh) = 6 * length iv"
  shows "(6 * length iv \<le> n \<longrightarrow>
            packed (nghttp2_frame_pack_settings fh iv bs) fh (settings_bytes iv)) \<and>
         (\<forall>b. chunks bs = [b] \<and> nghttp2_buf_avail b < 6 * length iv \<longrightarrow>
            nghttp2_frame_pack_settings fh iv bs =
              (bs, Inl (Code NGHTTP2_ERR_FRAME_SIZE_ERROR))) \<and>
         nghttp2_frame_unpack_settings_payload2 grant (settings_bytes iv) =
           (if iv \<noteq> [] \<and> \<not> grant (8 * length iv) then Inl (Code NGHTTP2_ERR_NOMEM) else Inr iv)"
proof (intro conjI impI allI)
  obtain b where b: "cur bs = 0" "chunks bs = [b]" "buf_ok b" "buf_data b = []" "9 \<le> pos b"
      "n \<le> nghttp2_buf_avail b" using bs by (auto simp: frame_bufs_def)
  {
    assume "6 * length iv \<le> n"
    then have fits: "length (settings_bytes iv) \<le> nghttp2_buf_avail b" using b by simp
    obtain b1 where b1: "pack_hd fh b = Inr b1" "buf_ok b1" "buf_data b1 = hd_bytes fh"
        "nghttp2_buf_avail b1 = nghttp2_buf_avail b"
      using pack_hd_ok [OF b(3,5), of fh] b(4) by auto
    have "last_pos b1 \<le> length (mem b1)" using b1(2) by (simp add: buf_ok_def)
    then have put: "put_settings (mem b1) (last_pos b1) iv =
        of_option (mem_write (mem b1) (last_pos b1) (settings_bytes iv))"
      by (rule put_settings_eq)
    have fits1: "length (settings_bytes iv) \<le> nghttp2_buf_avail b1" using fits b1(4) by simp
    have "last_pos b1 + length (settings_bytes iv) \<le> length (mem b1)"
      using fits1 b1(2) by (auto simp: nghttp2_buf_avail_def buf_ok_def)
    then obtain m where m: "mem_write (mem b1) (last_pos b1) (settings_bytes iv) = Some m"
      using mem_write_defined by blast
    let ?b = "b1\<lparr>mem := m, last_pos := last_pos b1 + 6 * length iv\<rparr>"
    have "buf_append b1 (settings_bytes iv) = Inr ?b"
    proof (cases "iv = []")
      case True
      then show ?thesis using m b1(2)
        by (simp add: buf_append_def nghttp2_cpymem_def settings_bytes_def mem_write_nil buf_ok_def)
    next
      case False
      then have "settings_bytes iv \<noteq> []" by (cases iv) (simp_all add: settings_bytes_Cons entry_bytes_def)
      then show ?thesis using m by (simp add: buf_append_eq)
    qed
    then have "buf_data ?b = hd_bytes fh @ settings_bytes iv"
      using buf_append_ok [OF b1(2) fits1] b1(3) by auto
    then show "packed (nghttp2_frame_pack_settings fh iv bs) fh (settings_bytes iv)"
      using b b1 put m fits len
      by (simp add: packed_def nghttp2_frame_pack_settings_def assert_single_def upd_head_def
          nghttp2_frame_pack_settings_payload_def NGHTTP2_FRAME_SETTINGS_ENTRY_LENGTH_def
          bufs_data_def)
  }
  fix c assume "chunks bs = [c] \<and> nghttp2_buf_avail c < 6 * length iv"
  then show "nghttp2_frame_pack_settings fh iv bs =
      (bs, Inl (Code NGHTTP2_ERR_FRAME_SIZE_ERROR))"
    using b(1) len by (simp add: nghttp2_frame_pack_settings_def assert_single_def upd_head_def)
next
  show "nghttp2_frame_unpack_settings_payload2 grant (settings_bytes iv) =
      (if iv \<noteq> [] \<and> \<not> grant (8 * length iv) then Inl (Code NGHTTP2_ERR_NOMEM) else Inr iv)"
    using unpack_entries_at [OF iv, of "[]" 0 "[]"]
    by (simp add: nghttp2_frame_unpack_settings_payload2_def Let_def sizeof_settings_entry_def
        NGHTTP2_FRAME_SETTINGS_ENTRY_LENGTH_def mult.commute)
qed

theorem settings_roundtrip_witness:
  "packed (nghttp2_frame_pack_settings (nghttp2_frame_hd_init 6 NGHTTP2_SETTINGS 0 0)
      [\<lparr>settings_id = 4, settings_value = 65535\<rparr>] example_frame_bufs)
     (nghttp2_frame_hd_init 6 NGHTTP2_SETTINGS 0 0) (settings_bytes [\<lparr>settings_id = 4, settings_value = 65535\<rparr>]) \<and>
   nghttp2_frame_unpack_settings_payload2 (\<lambda>_. True) (settings_bytes
      [\<lparr>settings_id = 4, settings_value = 65535\<rparr>]) = Inr [\<lparr>settings_id = 4, settings_value = 65535\<rparr>]"
  using settings_roundtrip [OF example_frame_bufs, of "[\<lparr>settings_id = 4, settings_value = 65535\<rparr>]"
      "nghttp2_frame_hd_init 6 NGHTTP2_SETTINGS 0 0" "\<lambda>_. True"]
  by (simp add: entry_ok_def nghttp2_frame_hd_init_def)

subsection \<open>Values of settings\<close>

definition NGHTTP2_SETTINGS_ENABLE_PUSH :: int where "NGHTTP2_SETTINGS_ENABLE_PUSH = 2"
definition NGHTTP2_SETTINGS_INITIAL_WINDOW_SIZE :: int where
  "NGHTTP2_SETTINGS_INITIAL_WINDOW_SIZE = 4"
definition NGHTTP2_SETTINGS_MAX_FRAME_SIZE :: int where "NGHTTP2_SETTINGS_MAX_FRAME_SIZE = 5"
definition NGHTTP2_SETTINGS_ENABLE_CONNECT_PROTOCOL :: int where
  "NGHTTP2_SETTINGS_ENABLE_CONNECT_PROTOCOL = 8"
definition NGHTTP2_SETTINGS_NO_RFC7540_PRIORITIES :: int where
  "NGHTTP2_SETTINGS_NO_RFC7540_PRIORITIES = 9"

fun nghttp2_iv_check :: "settings_entry list \<Rightarrow> bool" where
  "nghttp2_iv_check [] = True"
| "nghttp2_iv_check (e # iv) =
     (if settings_id e = NGHTTP2_SETTINGS_ENABLE_PUSH \<and> settings_value e \<noteq> 0 \<and> settings_value e \<noteq> 1
      then False
      else if settings_id e = NGHTTP2_SETTINGS_INITIAL_WINDOW_SIZE \<and> settings_value e > 2147483647
      then False
      else if settings_id e = NGHTTP2_SETTINGS_MAX_FRAME_SIZE \<and>
              (settings_value e < 16384 \<or> settings_value e > 16777215)
      then False
      else if settings_id e = NGHTTP2_SETTINGS_ENABLE_CONNECT_PROTOCOL \<and>
              settings_value e \<noteq> 0 \<and> settings_value e \<noteq> 1
      then False
      else if settings_id e = NGHTTP2_SETTINGS_NO_RFC7540_PRIORITIES \<and>
              settings_value e \<noteq> 0 \<and> settings_value e \<noteq> 1
      then False
      else nghttp2_iv_check iv)"

lemma iv_check_append: "nghttp2_iv_check (a @ b) \<longleftrightarrow> nghttp2_iv_check a \<and> nghttp2_iv_check b"
  by (induction a) auto

section \<open>GOAWAY\<close>

text \<open>\<open>nghttp2_bufs_add\<close> after an operation on the head buffer.\<close>

definition then_add :: "bufs_op \<Rightarrow> nat \<Rightarrow> (nat \<Rightarrow> nat \<Rightarrow> bytes option) \<Rightarrow> bytes \<Rightarrow> bufs \<Rightarrow>
    (bufs \<times> unit res) option" where
  "then_add f fuel alloc xs bs =
     (case f bs of (bs', Inl e) \<Rightarrow> Some (bs', Inl e) | (bs', Inr _) \<Rightarrow> nghttp2_bufs_add fuel alloc xs bs')"

definition nghttp2_frame_pack_goaway ::
  "nat \<Rightarrow> (nat \<Rightarrow> nat \<Rightarrow> bytes option) \<Rightarrow> frame_hd \<Rightarrow> u32 \<Rightarrow> u32 \<Rightarrow> bytes \<Rightarrow> bufs \<Rightarrow>
     (bufs \<times> unit res) option" where
  "nghttp2_frame_pack_goaway fuel alloc fh last_stream_id error_code opaque_data bs =
     (case then_add (assert_single (upd_head (\<lambda>b.
         rbind (pack_hd fh b) (\<lambda>b. rbind (put_last32 last_stream_id b) (put_last32 error_code)))))
         fuel alloc opaque_data bs of
        None \<Rightarrow> None
      | Some (bs', r) \<Rightarrow>
          Some (bs', if r = Inl (Code NGHTTP2_ERR_BUFFER_ERROR)
                     then Inl (Code NGHTTP2_ERR_FRAME_SIZE_ERROR) else r))"

text \<open>\<open>var_gift_payload\<close> is a copy of what follows the first eight bytes.\<close>

definition nghttp2_frame_unpack_goaway_payload ::
  "bytes \<Rightarrow> bytes \<Rightarrow> (u32 \<times> u32 \<times> bytes) res" where
  "nghttp2_frame_unpack_goaway_payload payload var_gift_payload =
     rbind (nghttp2_get_uint32 payload 0) (\<lambda>i.
     rbind (nghttp2_get_uint32 payload 4) (\<lambda>c.
     Inr (i AND NGHTTP2_STREAM_ID_MASK, c, var_gift_payload)))"

definition nghttp2_frame_unpack_goaway_payload2 ::
  "(nat \<Rightarrow> bool) \<Rightarrow> bytes \<Rightarrow> (u32 \<times> u32 \<times> bytes) res" where
  "nghttp2_frame_unpack_goaway_payload2 grant payload =
     (let n = (if length payload > 8 then length payload - 8 else 0) in
      if n = 0 then nghttp2_frame_unpack_goaway_payload payload []
      else if \<not> grant n then Inl (Code NGHTTP2_ERR_NOMEM)
      else rbind (of_option (mem_read payload 8 n)) (nghttp2_frame_unpack_goaway_payload payload))"

text \<open>A prepared chain of the session: well formed, empty, and with \<open>n\<close> bytes of room in its head.\<close>

definition session_bufs :: "bufs \<Rightarrow> nat \<Rightarrow> bool" where
  "session_bufs bs n \<longleftrightarrow> bufs_ok bs \<and> frame_bufs bs n"

lemma emits_session:
  assumes "session_bufs bs n" "emits f fh payload" "length payload \<le> n"
  shows "\<exists>bs'. upd_head f bs = (bs', Inr ()) \<and> bufs_ok bs' \<and>
           bufs_data bs' = hd_bytes fh @ payload \<and> same_limits bs bs' \<and> cur bs' = 0 \<and>
           n - length payload \<le> cur_avail bs'"
proof -
  obtain b where b: "cur bs = 0" "chunks bs = [b]" "buf_ok b" "buf_data b = []" "9 \<le> pos b"
      "n \<le> nghttp2_buf_avail b" and ok: "bufs_ok bs"
    using assms(1) by (auto simp: frame_bufs_def session_bufs_def)
  obtain b' where b': "f b = Inr b'" "buf_ok b'" "buf_data b' = hd_bytes fh @ payload"
      "length (mem b') = length (mem b)" "last_pos b' = last_pos b + length payload"
    using assms(2,3) b unfolding emits_def by (metis append_Nil le_trans)
  have "bufs_ok (bs\<lparr>chunks := [b']\<rparr>)" using ok b b' by (simp add: bufs_ok_def)
  then show ?thesis using b b'
    by (simp add: upd_head_def bufs_data_def same_limits_def cur_avail_def nghttp2_buf_avail_def)
qed

lemma then_add_packed:
  assumes bs: "session_bufs bs n" and f: "emits f fh payload" "length payload \<le> n"
    and alloc: "grants alloc" and fuel: "length xs + max_chunk bs \<le> fuel"
  shows "\<exists>bs' r. then_add (upd_head f) fuel alloc xs bs = Some (bs', r) \<and> bufs_ok bs' \<and>
           (r = Inr () \<and> bufs_data bs' = hd_bytes fh @ payload @ xs
            \<or> r = Inl (Code NGHTTP2_ERR_BUFFER_ERROR) \<or> r = Inl (Code NGHTTP2_ERR_NOMEM))"
proof -
  obtain bs1 where bs1: "upd_head f bs = (bs1, Inr ())" "bufs_ok bs1"
      "bufs_data bs1 = hd_bytes fh @ payload" "same_limits bs bs1" "cur bs1 = 0"
    using emits_session [OF bs f] by blast
  have "length xs + (max_chunk bs1 - cur bs1) \<le> fuel"
    using fuel bs1(4,5) by (simp add: same_limits_def)
  from bufs_add_outcome [OF alloc bs1(2) this] show ?thesis
    using bs1 by (fastforce simp: then_add_def add_outcome_def appended_def)
qed

lemma emits_two:
  "emits (\<lambda>b. rbind (pack_hd fh b) (\<lambda>b. rbind (buf_append b xs) (\<lambda>b. buf_append b ys))) fh (xs @ ys)"
  by (simp add: buf_append_append emits_append)

text \<open>GOAWAY frames make the round trip. On a prepared chain the writer always returns; it
  packs the header, the last stream identifier, the error code and the debug data, or reports
  NGHTTP2_ERR_FRAME_SIZE_ERROR or NGHTTP2_ERR_NOMEM and nothing else; and unpacking the payload
  of a packed frame yields the three fields again, or NGHTTP2_ERR_NOMEM.\<close>
theorem goaway_roundtrip:
  assumes bs: "session_bufs bs 8" and alloc: "grants alloc"
    and fuel: "length d + max_chunk bs \<le> fuel" and sid: "unat sid < 2 ^ 31"
  shows "(\<exists>bs' r. nghttp2_frame_pack_goaway fuel alloc fh sid code d bs = Some (bs', r) \<and>
            bufs_ok bs' \<and>
            (r = Inr () \<and> bufs_data bs' = hd_bytes fh @ be32 sid @ be32 code @ d \<or>
             r = Inl (Code NGHTTP2_ERR_FRAME_SIZE_ERROR) \<or> r = Inl (Code NGHTTP2_ERR_NOMEM))) \<and>
         nghttp2_frame_unpack_goaway_payload2 grant (be32 sid @ be32 code @ d) =
           (if d \<noteq> [] \<and> \<not> grant (length d) then Inl (Code NGHTTP2_ERR_NOMEM)
            else Inr (sid, code, d))"
proof
  have "cur bs = 0" using bs by (simp add: session_bufs_def frame_bufs_def)
  then have pack: "nghttp2_frame_pack_goaway fuel alloc fh sid code d bs =
      (case then_add (upd_head (\<lambda>b. rbind (pack_hd fh b) (\<lambda>b. rbind (buf_append b (be32 sid))
          (\<lambda>b. buf_append b (be32 code))))) fuel alloc d bs of
         None \<Rightarrow> None
       | Some (bs', r) \<Rightarrow> Some (bs', if r = Inl (Code NGHTTP2_ERR_BUFFER_ERROR)
                     then Inl (Code NGHTTP2_ERR_FRAME_SIZE_ERROR) else r))"
    by (simp add: nghttp2_frame_pack_goaway_def then_add_def assert_single_def put_last32_fun)
  show "\<exists>bs' r. nghttp2_frame_pack_goaway fuel alloc fh sid code d bs = Some (bs', r) \<and>
      bufs_ok bs' \<and> (r = Inr () \<and> bufs_data bs' = hd_bytes fh @ be32 sid @ be32 code @ d \<or>
        r = Inl (Code NGHTTP2_ERR_FRAME_SIZE_ERROR) \<or> r = Inl (Code NGHTTP2_ERR_NOMEM))"
    unfolding pack using then_add_packed [OF bs emits_two _ alloc fuel, of "be32 sid" "be32 code" fh]
    by auto
  have "mem_read (be32 sid @ be32 code @ d) 4 4 = Some (be32 code)"
    "mem_read (be32 sid @ be32 code @ d) 8 (length d) = Some d"
    by (simp_all add: mem_read_def)
  then show "nghttp2_frame_unpack_goaway_payload2 grant (be32 sid @ be32 code @ d) =
      (if d \<noteq> [] \<and> \<not> grant (length d) then Inl (Code NGHTTP2_ERR_NOMEM)
       else Inr (sid, code, d))"
    using and_mask_id [OF sid] get_uint32_be32 [of sid "be32 code @ d"]
    by (cases "d = []") (simp_all add: nghttp2_frame_unpack_goaway_payload2_def Let_def
        NGHTTP2_STREAM_ID_MASK_def nghttp2_frame_unpack_goaway_payload_def
        nghttp2_get_uint32_def [of _ 4])
qed

lemma example_session_bufs: "session_bufs example_frame_bufs 22"
  by (simp add: session_bufs_def example_frame_bufs)
    (simp add: example_frame_bufs_def bufs_ok_def buf_ok_def)

theorem goaway_roundtrip_witness:
  "\<exists>bs' r. nghttp2_frame_pack_goaway 3 (\<lambda>k n. Some (replicate n 0))
     (nghttp2_frame_hd_init 10 NGHTTP2_GOAWAY 0 0) 5 0 [1, 2] example_frame_bufs = Some (bs', r) \<and>
     bufs_ok bs' \<and> nghttp2_frame_unpack_goaway_payload2 (\<lambda>_. True) (be32 5 @ be32 0 @ [1, 2])
       = Inr (5, 0, [1, 2])"
proof -
  have "session_bufs example_frame_bufs 8"
    using example_session_bufs frame_bufs_mono by (auto simp: session_bufs_def)
  from goaway_roundtrip [OF this replicate_grants, of "[1, 2]" 3 5
      "nghttp2_frame_hd_init 10 NGHTTP2_GOAWAY 0 0" 0 "\<lambda>_. True"]
  show ?thesis by (auto simp: example_frame_bufs_def)
qed

end
