(* ===== verification/FrameExt.thy ===== *)
theory FrameExt
  imports FrameVar
begin

text \<open>
  The extension frames of \<open>nghttp2_frame.c\<close>: ALTSVC, ORIGIN and PRIORITY_UPDATE. The reader of
  ORIGIN is proved against an abstract parser of the payload; its two passes, one that measures
  and one that copies, are shown to agree.
\<close>

section \<open>Adding data that fits the head buffer\<close>

lemma bufs_add_fits:
  assumes "bufs_ok bs" "length xs \<le> cur_avail bs" "0 < fuel"
  shows "\<exists>bs'. nghttp2_bufs_add fuel alloc xs bs = Some (bs', Inr ()) \<and> bufs_ok bs' \<and>
           bufs_data bs' = bufs_data bs @ xs \<and> cur_avail bs' = cur_avail bs - length xs"
proof (cases xs)
  case (Cons y ys)
  obtain bs' where bs': "upd_cur (\<lambda>b. buf_append b xs) bs = (bs', Inr ())" "bufs_ok bs'"
      "bufs_data bs' = bufs_data bs @ xs" "cur_avail bs' = cur_avail bs - length xs"
    using upd_cur_append [OF assms(1,2)] by blast
  obtain k where "fuel = Suc k" using assms(3) by (cases fuel) auto
  moreover have "min (cur_avail bs) (length xs) = length xs" using assms(2) by simp
  ultimately have "nghttp2_bufs_add fuel alloc xs bs = Some (bs', Inr ())"
    using bs'(1) Cons by (cases k) (simp_all add: Let_def)
  then show ?thesis using bs' by blast
qed (use assms in simp)

text \<open>\<open>assert(rv == 0)\<close> after \<open>nghttp2_bufs_add\<close>.\<close>

definition add_asserted :: "nat \<Rightarrow> (nat \<Rightarrow> nat \<Rightarrow> bytes option) \<Rightarrow> bytes \<Rightarrow> bufs \<Rightarrow>
    (bufs \<times> unit res) option" where
  "add_asserted fuel alloc xs bs =
     (case nghttp2_bufs_add fuel alloc xs bs of
        None \<Rightarrow> None
      | Some (bs', Inr _) \<Rightarrow> Some (bs', Inr ())
      | Some (bs', Inl _) \<Rightarrow> Some (bs', Inl Assert_failed))"

lemma add_asserted_fits:
  assumes "bufs_ok bs" "length xs \<le> cur_avail bs" "0 < fuel"
  shows "\<exists>bs'. add_asserted fuel alloc xs bs = Some (bs', Inr ()) \<and> bufs_ok bs' \<and>
           bufs_data bs' = bufs_data bs @ xs \<and> cur_avail bs' = cur_avail bs - length xs"
  using bufs_add_fits [OF assms, of alloc] by (auto simp: add_asserted_def)

section \<open>ALTSVC\<close>

definition nghttp2_frame_pack_altsvc ::
  "nat \<Rightarrow> (nat \<Rightarrow> nat \<Rightarrow> bytes option) \<Rightarrow> frame_hd \<Rightarrow> bytes \<Rightarrow> bytes \<Rightarrow> bufs \<Rightarrow>
     (bufs \<times> unit res) option" where
  "nghttp2_frame_pack_altsvc fuel alloc fh origin field_value bs =
     (case upd_head (\<lambda>b.
         rbind (assert_that (nghttp2_buf_avail b \<ge> 2 + length origin + length field_value)) (\<lambda>_.
         rbind (pack_hd fh b) (put_last16 (of_nat (length origin))))) bs of
        (bs', Inl e) \<Rightarrow> Some (bs', Inl e)
      | (bs', Inr _) \<Rightarrow>
          (case add_asserted fuel alloc origin bs' of
             Some (bs', Inr _) \<Rightarrow> add_asserted fuel alloc field_value bs'
           | r \<Rightarrow> r))"

text \<open>The two fields point into the payload; a first length beyond its end would move the
  pointer out of the object.\<close>

definition nghttp2_frame_unpack_altsvc_payload :: "nat \<Rightarrow> bytes \<Rightarrow> (bytes \<times> bytes) res" where
  "nghttp2_frame_unpack_altsvc_payload origin_len payload =
     (if origin_len \<le> length payload
      then Inr (take origin_len payload, drop origin_len payload)
      else Inl Undefined)"

text \<open>The result: \<open>Inl rv\<close> for a nonzero return value, \<open>Inr\<close> with the fields for 0.\<close>

definition nghttp2_frame_unpack_altsvc_payload2 ::
  "(nat \<Rightarrow> bool) \<Rightarrow> bytes \<Rightarrow> (int + bytes \<times> bytes) res" where
  "nghttp2_frame_unpack_altsvc_payload2 grant payload =
     (if length payload < 2 then Inr (Inl (uint (http2_code NGHTTP2_FRAME_SIZE_ERROR)))
      else rbind (nghttp2_get_uint16 payload 0) (\<lambda>origin_len.
        if \<not> grant (length payload - 2) then Inr (Inl (err_code NGHTTP2_ERR_NOMEM))
        else rbind (nghttp2_frame_unpack_altsvc_payload (unat origin_len) (drop 2 payload))
          (\<lambda>fields. Inr (Inr fields))))"

lemma emits_last16:
  "emits (\<lambda>b. rbind (pack_hd fh b) (put_last16 n)) fh (be16 n)"
proof -
  have "put_last16 n = (\<lambda>b. buf_append b (be16 n))" by (rule ext) (rule put_last16_eq)
  then show ?thesis using emits_append by simp
qed

text \<open>Under an assertion on the room of the head buffer that the prepared chain satisfies.\<close>

lemma asserted_session:
  assumes "session_bufs bs n" "emits f fh payload" "length payload \<le> n"
  shows "\<exists>bs'. upd_head (\<lambda>b. rbind (assert_that (nghttp2_buf_avail b \<ge> n)) (\<lambda>_. f b)) bs =
             (bs', Inr ()) \<and> bufs_ok bs' \<and> bufs_data bs' = hd_bytes fh @ payload \<and>
           n - length payload \<le> cur_avail bs'"
proof -
  obtain b where "chunks bs = [b]" "n \<le> nghttp2_buf_avail b"
    using assms(1) by (auto simp: session_bufs_def frame_bufs_def)
  then have "upd_head (\<lambda>b. rbind (assert_that (nghttp2_buf_avail b \<ge> n)) (\<lambda>_. f b)) bs =
      upd_head f bs" by (simp add: upd_head_def)
  then show ?thesis using emits_session [OF assms] by auto
qed

text \<open>ALTSVC frames make the round trip: on a chain with room for it, the frame is packed
  completely and no assertion fails, and the origin and the field value come back from its
  payload.\<close>
theorem altsvc_roundtrip:
  assumes bs: "session_bufs bs (2 + length origin + length fv)" and len: "length origin < 2 ^ 16"
    and fuel: "0 < fuel" and grant: "grant (length origin + length fv)"
  shows "(\<exists>bs'. nghttp2_frame_pack_altsvc fuel alloc fh origin fv bs = Some (bs', Inr ()) \<and>
            bufs_data bs' = hd_bytes fh @ be16 (of_nat (length origin)) @ origin @ fv) \<and>
         nghttp2_frame_unpack_altsvc_payload2 grant
           (be16 (of_nat (length origin)) @ origin @ fv) = Inr (Inr (origin, fv))"
proof
  let ?n = "be16 (of_nat (length origin))"
  obtain bs1 where bs1: "upd_head (\<lambda>b. rbind (assert_that (nghttp2_buf_avail b \<ge>
        2 + length origin + length fv)) (\<lambda>_. rbind (pack_hd fh b) (put_last16 (of_nat (length origin)))))
        bs = (bs1, Inr ())" "bufs_ok bs1" "bufs_data bs1 = hd_bytes fh @ ?n"
      "length origin + length fv \<le> cur_avail bs1"
    using asserted_session [OF bs emits_last16, of "of_nat (length origin)" fh] by auto
  then have "length origin \<le> cur_avail bs1" by simp
  from add_asserted_fits [OF bs1(2) this fuel, of alloc] obtain bs2 where bs2:
      "add_asserted fuel alloc origin bs1 = Some (bs2, Inr ())" "bufs_ok bs2"
      "bufs_data bs2 = bufs_data bs1 @ origin" "cur_avail bs2 = cur_avail bs1 - length origin"
    by blast
  then have "length fv \<le> cur_avail bs2" using bs1(4) by simp
  from add_asserted_fits [OF bs2(2) this fuel, of alloc]
  show "\<exists>bs'. nghttp2_frame_pack_altsvc fuel alloc fh origin fv bs = Some (bs', Inr ()) \<and>
      bufs_data bs' = hd_bytes fh @ ?n @ origin @ fv"
    using bs1 bs2 by (auto simp: nghttp2_frame_pack_altsvc_def)
  have "unat (of_nat (length origin) :: u16) = length origin"
    using len by (simp add: unat_of_nat take_bit_nat_eq_self)
  then show "nghttp2_frame_unpack_altsvc_payload2 grant (?n @ origin @ fv) = Inr (Inr (origin, fv))"
    using get_uint16_be16 grant
    by (simp add: nghttp2_frame_unpack_altsvc_payload2_def nghttp2_frame_unpack_altsvc_payload_def)
qed

theorem altsvc_roundtrip_witness:
  "nghttp2_frame_unpack_altsvc_payload2 (\<lambda>_. True) (be16 (of_nat (length [97])) @ [97] @ [98, 99]) =
     Inr (Inr ([97], [98, 99]))"
proof -
  have "frame_bufs example_frame_bufs 5" by (rule frame_bufs_mono [OF example_frame_bufs]) simp
  then have "session_bufs example_frame_bufs (2 + length [97 :: u8] + length [98, 99 :: u8])"
    using example_session_bufs by (simp add: session_bufs_def)
  from altsvc_roundtrip [OF this, of 1 "\<lambda>_. True"] show ?thesis by simp
qed

text \<open>A payload that is too short is answered with the code of the protocol, a positive number,
  and not with a code of the library.\<close>
lemma altsvc_short_payload:
  "nghttp2_frame_unpack_altsvc_payload2 grant [x] = Inr (Inl 6)" and "6 \<noteq> err_code e"
proof -
  show "nghttp2_frame_unpack_altsvc_payload2 grant [x] = Inr (Inl 6)"
    by (simp add: nghttp2_frame_unpack_altsvc_payload2_def)
  show "6 \<noteq> err_code e" using err_code_negative [of e] by simp
qed

section \<open>ORIGIN\<close>

fun put_origins :: "bytes list \<Rightarrow> buf \<Rightarrow> buf res" where
  "put_origins [] b = Inr b"
| "put_origins (x # xs) b =
     rbind (put_last16 (of_nat (length x)) b) (\<lambda>b. rbind (buf_append b x) (put_origins xs))"

definition nghttp2_frame_pack_origin :: "frame_hd \<Rightarrow> bytes list \<Rightarrow> bufs_op" where
  "nghttp2_frame_pack_origin fh origins =
     upd_head (\<lambda>b.
       if nghttp2_buf_avail b < unat (hd_length fh) then Inl (Code NGHTTP2_ERR_FRAME_SIZE_ERROR)
       else rbind (pack_hd fh b) (\<lambda>b. rbind (put_origins origins b) (\<lambda>b.
         rbind (assert_that (nghttp2_buf_len b = NGHTTP2_FRAME_HDLEN + unat (hd_length fh)))
           (\<lambda>_. Inr b))))"

text \<open>The first pass: from \<open>p\<close> on, the bytes the copies will need, and the number of origins.\<close>

function origin_scan :: "bytes \<Rightarrow> nat \<Rightarrow> nat \<Rightarrow> nat \<Rightarrow> (nat \<times> nat) res" where
  "origin_scan payload p len nov =
     (if length payload \<le> p then Inr (len, nov)
      else if length payload - p < 2 then Inl (Code NGHTTP2_ERR_FRAME_SIZE_ERROR)
      else (case nghttp2_get_uint16 payload p of
          Inl e \<Rightarrow> Inl e
        | Inr n \<Rightarrow>
            (let originlen = unat n; p = p + 2 in
             if originlen = 0 then origin_scan payload p len nov
             else if originlen > length payload - p then Inl (Code NGHTTP2_ERR_FRAME_SIZE_ERROR)
             else origin_scan payload (p + originlen) (len + originlen + 1) (nov + 1))))"
  by pat_completeness auto
termination by (relation "measure (\<lambda>(payload, p, len, nov). length payload - p)") auto

text \<open>The second pass: the origins are copied, each with a terminating zero, into a block of
  \<open>cap\<close> bytes from \<open>off\<close> on.\<close>

function origin_fill :: "bytes \<Rightarrow> nat \<Rightarrow> nat \<Rightarrow> nat \<Rightarrow> bytes list res" where
  "origin_fill payload p off cap =
     (if length payload \<le> p then Inr []
      else (case nghttp2_get_uint16 payload p of
          Inl e \<Rightarrow> Inl e
        | Inr n \<Rightarrow>
            (let originlen = unat n; p = p + 2 in
             if originlen = 0 then origin_fill payload p off cap
             else if cap < off + originlen + 1 then Inl Undefined
             else rbind (of_option (mem_read payload p originlen)) (\<lambda>x.
               rbind (origin_fill payload (p + originlen) (off + originlen + 1) cap)
                 (\<lambda>xs. Inr (x # xs))))))"
  by pat_completeness auto
termination by (relation "measure (\<lambda>(payload, p, off, cap). length payload - p)") auto

declare origin_scan.simps [simp del] origin_fill.simps [simp del]

definition sizeof_origin_entry :: nat where "sizeof_origin_entry = 8"

definition nghttp2_frame_unpack_origin_payload :: "(nat \<Rightarrow> bool) \<Rightarrow> bytes \<Rightarrow> bytes list res" where
  "nghttp2_frame_unpack_origin_payload grant payload =
     rbind (origin_scan payload 0 0 0) (\<lambda>(len, nov).
       if nov = 0 then Inr []
       else let cap = (len + nov * sizeof_origin_entry) mod 2 ^ 32 in
         if \<not> grant cap then Inl (Code NGHTTP2_ERR_NOMEM)
         else origin_fill payload 0 (nov * sizeof_origin_entry) cap)"

text \<open>The abstract grammar of the payload: a length of two bytes and as many bytes, any number
  of times; entries of length 0 are skipped.\<close>

function parse_origins :: "bytes \<Rightarrow> bytes list option" where
  "parse_origins [] = Some []"
| "parse_origins [x] = None"
| "parse_origins (x # y # rest) =
     (let n = unat x * 256 + unat y in
      if n = 0 then parse_origins rest
      else if length rest < n then None
      else map_option ((#) (take n rest)) (parse_origins (drop n rest)))"
  by pat_completeness auto
termination by (relation "measure length") auto

definition copied :: "bytes list \<Rightarrow> nat" where
  "copied xs = sum_list (map (\<lambda>x. length x + 1) xs)"

lemma htons_load16: "unat (htons (load16 (x # y # r))) = unat x * 256 + unat y"
proof -
  have "htons (load16 (x # y # r)) = (ucast x * 256 + ucast y :: u16)"
  proof -
    have "htons (load16 (x # y # r)) = (push_bit 8 (ucast x) OR ucast y :: u16)"
      by (rule bit_word_eqI) (auto simp: htons_def bit_simps dest: bit_imp_le_length)
    also have "\<dots> = push_bit 8 (ucast x) + (ucast y :: u16)"
      by (rule disjunctive_add [symmetric]) (auto simp: bit_simps dest: bit_imp_le_length)
    also have "push_bit 8 (ucast x :: u16) = ucast x * 256" by (simp add: push_bit_eq_mult)
    finally show ?thesis .
  qed
  moreover have "unat x < 256" "unat y < 256" by (simp_all add: u8_less)
  ultimately show ?thesis
    by (simp add: unat_word_ariths unsigned_ucast_eq take_bit_nat_eq_self)
qed

lemma get_uint16_at:
  assumes "drop p m = x # y # r"
  shows "\<exists>n. nghttp2_get_uint16 m p = Inr n \<and> unat n = unat x * 256 + unat y"
proof -
  have "p + 2 \<le> length m" using arg_cong [OF assms, of length] by simp
  then have "mem_read m p 2 = Some [x, y]" by (simp add: mem_read_def assms eval_nat_numeral)
  then show ?thesis using htons_load16 [of x y "[]"] by (simp add: nghttp2_get_uint16_def)
qed

lemma drop_2_cases:
  assumes "p < length m"
  obtains (one) x where "drop p m = [x]" "length m - p < 2"
    | (two) x y r where "drop p m = x # y # r" "drop (p + 2) m = r" "\<not> length m - p < 2"
        "length r = length m - (p + 2)"
proof (cases "drop p m")
  case Nil
  then show thesis using assms by simp
next
  case (Cons x xs)
  show thesis
  proof (cases xs)
    case Nil
    then have d: "drop p m = [x]" using \<open>drop p m = x # xs\<close> by simp
    then have "length m - p < 2" using arg_cong [OF d, of length] unfolding length_drop by (simp only: list.size)
    with d show thesis by (rule one)
  next
    case (Cons y r)
    have d: "drop p m = x # y # r" using \<open>drop p m = x # xs\<close> Cons by simp
    then have "drop (p + 2) m = r" by (metis add.commute drop_drop drop_Suc_Cons drop_0 numeral_2_eq_2)
    moreover have "length m - p = Suc (Suc (length r))"
      using arg_cong [OF d, of length] unfolding length_drop by (simp only: list.size)
    ultimately show thesis using two [OF d] by simp
  qed
qed

text \<open>The first pass computes what the grammar says.\<close>

lemma origin_scan_eq:
  "p \<le> length m \<Longrightarrow> origin_scan m p len nov =
     (case parse_origins (drop p m) of
        None \<Rightarrow> Inl (Code NGHTTP2_ERR_FRAME_SIZE_ERROR)
      | Some os \<Rightarrow> Inr (len + copied os, nov + length os))"
proof (induction m p len nov rule: origin_scan.induct)
  case (1 m p len nov)
  show ?case
  proof (cases "length m \<le> p")
    case True
    then show ?thesis by (simp add: origin_scan.simps [of m p] copied_def)
  next
    case False
    then have "p < length m" by simp
    then show ?thesis
    proof (cases rule: drop_2_cases)
      case (one x)
      then show ?thesis using False by (simp add: origin_scan.simps [of m p])
    next
      case (two x y r)
      obtain n where n: "nghttp2_get_uint16 m p = Inr n" "unat n = unat x * 256 + unat y"
        using get_uint16_at [OF two(1)] by blast
      have r: "drop (p + 2 + k) m = drop k r" for k
        using two(2) by (metis add.commute drop_drop)
      consider (zero) "unat n = 0" | (long) "unat n \<noteq> 0" "length m - (p + 2) < unat n"
        | (fits) "unat n \<noteq> 0" "unat n \<le> length m - (p + 2)" by linarith
      then show ?thesis
      proof cases
        case zero
        have "parse_origins (drop p m) = parse_origins r" using zero n two(1) by simp
        moreover have "origin_scan m p len nov = origin_scan m (p + 2) len nov"
          using zero n(1) False two(3) by (simp add: origin_scan.simps [of m p])
        ultimately show ?thesis
          using 1(1) [OF False two(3) n(1) refl refl zero] two(2) two(3) by simp
      next
        case long
        then have "parse_origins (drop p m) = None" using n two(1,4) by (auto simp: Let_def)
        then show ?thesis using long n(1) False two(3) by (simp add: origin_scan.simps [of m p])
      next
        case fits
        have "parse_origins (drop p m) =
            map_option ((#) (take (unat n) r)) (parse_origins (drop (unat n) r))"
          using fits n two(1,4) by (auto simp: Let_def)
        moreover have "origin_scan m p len nov =
            origin_scan m (p + 2 + unat n) (len + unat n + 1) (nov + 1)"
          using fits n(1) False two(3) by (simp add: origin_scan.simps [of m p] Let_def)
        moreover have "\<not> length m - (p + 2) < unat n" "p + 2 + unat n \<le> length m"
          using fits two(3) by arith+
        moreover have "parse_origins (drop (p + 2 + unat n) m) = parse_origins (drop (unat n) r)"
          by (simp only: r)
        ultimately show ?thesis
          using 1(2) [OF False two(3) n(1) refl refl] fits two(4)
          by (auto simp: copied_def split: option.split)
      qed
    qed
  qed
qed

lemma origin_fill_eq:
  "p \<le> length m \<Longrightarrow> parse_origins (drop p m) = Some os \<Longrightarrow> off + copied os \<le> cap \<Longrightarrow>
   origin_fill m p off cap = Inr os"
proof (induction m p off cap arbitrary: os rule: origin_fill.induct)
  case (1 m p off cap)
  show ?case
  proof (cases "length m \<le> p")
    case True
    then show ?thesis using 1(4) by (simp add: origin_fill.simps [of m p])
  next
    case False
    then have "p < length m" by simp
    then show ?thesis
    proof (cases rule: drop_2_cases)
      case (one x)
      then show ?thesis using 1(4) by simp
    next
      case (two x y r)
      obtain n where n: "nghttp2_get_uint16 m p = Inr n" "unat n = unat x * 256 + unat y"
        using get_uint16_at [OF two(1)] by blast
      have r: "drop (p + 2 + k) m = drop k r" for k
        using two(2) by (metis add.commute drop_drop)
      show ?thesis
      proof (cases "unat n = 0")
        case True
        then have "parse_origins r = Some os" using 1(4) n two(1) by simp
        then show ?thesis
          using 1(1) [OF False n(1) refl refl True] 1(5) True n(1) False two
          by (simp add: origin_fill.simps [of m p])
      next
        case nonzero: False
        then obtain os' where os': "unat n \<le> length r" "os = take (unat n) r # os'"
            "parse_origins (drop (unat n) r) = Some os'"
          using 1(4) n two(1) by (auto simp: Let_def split: if_splits)
        have fits: "p + 2 + unat n \<le> length m" using os'(1) two(3,4) by simp
        have cap: "\<not> cap < off + unat n + 1" "off + unat n + 1 + copied os' \<le> cap"
          using 1(5) os'(1,2) by (simp_all add: copied_def)
        have "origin_fill m (p + 2 + unat n) (off + unat n + 1) cap = Inr os'"
          using 1(2) [OF False n(1) refl refl nonzero cap(1)] os'(3) r [of "unat n"] cap(2)
            fits by simp
        moreover have "mem_read m (p + 2) (unat n) = Some (take (unat n) r)"
          using fits two(2) by (simp add: mem_read_def)
        ultimately show ?thesis
          using nonzero n(1) False cap(1) os'(2) by (simp add: origin_fill.simps [of m p])
      qed
    qed
  qed
qed

lemma parse_origins_size:
  "parse_origins m = Some os \<Longrightarrow> copied os \<le> length m \<and> length os \<le> length m"
proof (induction m arbitrary: os rule: parse_origins.induct)
  case (3 x y rest)
  let ?n = "unat x * 256 + unat y"
  show ?case
  proof (cases "?n = 0")
    case True
    then have "parse_origins rest = Some os" using "3.prems" by simp
    then show ?thesis using "3.IH"(1) [OF refl True] by simp
  next
    case False
    then obtain os' where os': "?n \<le> length rest" "os = take ?n rest # os'"
        "parse_origins (drop ?n rest) = Some os'"
      using "3.prems" by (auto simp: Let_def split: if_splits)
    then have "copied os' \<le> length rest - ?n \<and> length os' \<le> length rest - ?n"
      using "3.IH"(2) [OF refl False _ os'(3)] by simp
    moreover have "copied os = ?n + 1 + copied os'" using os'(1,2) by (simp add: copied_def)
    ultimately have "copied os \<le> ?n + 1 + (length rest - ?n)" "length os \<le> 1 + length rest"
      using os'(2) by auto
    then show ?thesis using os'(1) by simp
  qed
qed (simp_all add: copied_def)

text \<open>Reading an ORIGIN frame: the two passes accept exactly the payloads of the grammar
  and return its nonempty origins; the block they share is allocated once and large enough, so
  the copies never leave it.\<close>
theorem origin_payload_correct:
  assumes "length payload < 2 ^ 24"
  shows "nghttp2_frame_unpack_origin_payload grant payload =
    (case parse_origins payload of
       None \<Rightarrow> Inl (Code NGHTTP2_ERR_FRAME_SIZE_ERROR)
     | Some os \<Rightarrow>
         if os \<noteq> [] \<and> \<not> grant (copied os + 8 * length os) then Inl (Code NGHTTP2_ERR_NOMEM)
         else Inr os)"
proof (cases "parse_origins payload")
  case None
  then show ?thesis
    by (simp add: nghttp2_frame_unpack_origin_payload_def origin_scan_eq)
next
  case (Some os)
  have "copied os + length os * 8 < 2 ^ 32"
    using parse_origins_size [OF Some] assms by simp
  then have "nghttp2_frame_unpack_origin_payload grant payload =
      (if os = [] then Inr []
       else if \<not> grant (copied os + 8 * length os) then Inl (Code NGHTTP2_ERR_NOMEM)
       else origin_fill payload 0 (length os * 8) (copied os + 8 * length os))"
    using Some by (simp add: nghttp2_frame_unpack_origin_payload_def origin_scan_eq
        sizeof_origin_entry_def Let_def mult.commute)
  moreover have "origin_fill payload 0 (length os * 8) (copied os + 8 * length os) = Inr os"
    using Some by (intro origin_fill_eq) simp_all
  ultimately show ?thesis using Some by simp
qed

theorem origin_payload_correct_witness:
  "nghttp2_frame_unpack_origin_payload (\<lambda>n. n \<le> 11) [0, 2, 97, 98, 0, 0] = Inr [[97, 98]] \<and>
   nghttp2_frame_unpack_origin_payload (\<lambda>n. True) [0, 2, 97] =
     Inl (Code NGHTTP2_ERR_FRAME_SIZE_ERROR)"
proof -
  have "parse_origins [0, 2, 97, 98, 0, 0] = Some [[97, 98]]" "parse_origins [0, 2, 97] = None"
    by (simp_all add: Let_def)
  then show ?thesis
    using origin_payload_correct [of "[0, 2, 97, 98, 0, 0]" "\<lambda>n. n \<le> 11"]
      origin_payload_correct [of "[0, 2, 97]" "\<lambda>n. True"]
    by (simp add: copied_def)
qed

section \<open>Packing ORIGIN\<close>

definition origin_bytes :: "bytes list \<Rightarrow> bytes" where
  "origin_bytes os = concat (map (\<lambda>x. be16 (of_nat (length x)) @ x) os)"

lemma put_origins_eq: "put_origins os b = buf_append b (origin_bytes os)"
proof (induction os arbitrary: b)
  case Nil
  then show ?case by (simp add: origin_bytes_def buf_append_def nghttp2_cpymem_def)
next
  case (Cons x os)
  have "put_origins (x # os) b = rbind (rbind (buf_append b (be16 (of_nat (length x))))
      (\<lambda>b. buf_append b x)) (\<lambda>b. buf_append b (origin_bytes os))"
    by (simp add: put_last16_eq rbind_assoc Cons.IH [abs_def])
  then show ?case by (simp add: buf_append_append origin_bytes_def)
qed

lemma parse_origin_bytes:
  "\<forall>x\<in>set os. length x < 2 ^ 16 \<Longrightarrow>
   parse_origins (origin_bytes os) = Some (filter (\<lambda>x. x \<noteq> []) os)"
proof (induction os)
  case Nil
  then show ?case by (simp add: origin_bytes_def)
next
  case (Cons x os)
  let ?n = "of_nat (length x) :: u16"
  have len: "unat ?n = length x"
    using Cons.prems by (simp add: unat_of_nat take_bit_nat_eq_self)
  obtain a b where ab: "be16 ?n = [a, b]" by (simp add: be16_def)
  have "unat a * 256 + unat b = length x"
    using get_uint16_at [of 0 "be16 ?n" a b "[]"] ab get_uint16_be16 [of ?n "[]"] len by auto
  moreover have "origin_bytes (x # os) = a # b # x @ origin_bytes os"
    using ab by (simp add: origin_bytes_def)
  ultimately show ?case using Cons by (auto simp: Let_def)
qed

text \<open>C39: ORIGIN frames make the round trip: with room for the payload the header announces, the
  frame is packed completely and the final assertion on the bytes written holds; the origins
  that are not empty come back from its payload, in order.\<close>
theorem origin_roundtrip:
  assumes bs: "session_bufs bs (length (origin_bytes os))"
    and len: "unat (hd_length fh) = length (origin_bytes os)" "length (origin_bytes os) < 2 ^ 24"
    and os: "\<forall>x\<in>set os. length x < 2 ^ 16"
  shows "packed (nghttp2_frame_pack_origin fh os bs) fh (origin_bytes os) \<and>
         nghttp2_frame_unpack_origin_payload (\<lambda>_. True) (origin_bytes os) =
           Inr (filter (\<lambda>x. x \<noteq> []) os)"
proof
  obtain b where b: "chunks bs = [b]" "buf_ok b" "buf_data b = []" "9 \<le> pos b"
      "length (origin_bytes os) \<le> nghttp2_buf_avail b"
    using bs by (auto simp: session_bufs_def frame_bufs_def)
  obtain b' where b': "rbind (pack_hd fh b) (\<lambda>b. buf_append b (origin_bytes os)) = Inr b'"
      "buf_ok b'" "buf_data b' = hd_bytes fh @ origin_bytes os"
    using emits_append [of fh "origin_bytes os"] b unfolding emits_def by (metis append_Nil)
  then have "nghttp2_buf_len b' = 9 + length (origin_bytes os)"
    using length_buf_data [of b'] by simp
  then have "rbind (pack_hd fh b) (\<lambda>b. rbind (put_origins os b) (\<lambda>b.
      rbind (assert_that (nghttp2_buf_len b = NGHTTP2_FRAME_HDLEN + unat (hd_length fh)))
        (\<lambda>_. Inr b))) = Inr b'"
    using b'(1) len(1) by (simp add: put_origins_eq [abs_def] NGHTTP2_FRAME_HDLEN_def
        rbind_assoc [symmetric])
  then show "packed (nghttp2_frame_pack_origin fh os bs) fh (origin_bytes os)"
    using b b'(3) len(1)
    by (simp add: packed_def nghttp2_frame_pack_origin_def upd_head_def bufs_data_def)
  show "nghttp2_frame_unpack_origin_payload (\<lambda>_. True) (origin_bytes os) =
      Inr (filter (\<lambda>x. x \<noteq> []) os)"
    using parse_origins_size [OF parse_origin_bytes [OF os]] len(2) origin_scan_eq
      parse_origin_bytes [OF os] origin_fill_eq [of 0 "origin_bytes os" "filter (\<lambda>x. x \<noteq> []) os"]
    by (auto simp: nghttp2_frame_unpack_origin_payload_def sizeof_origin_entry_def Let_def)
qed

theorem origin_roundtrip_witness:
  "packed (nghttp2_frame_pack_origin (nghttp2_frame_hd_init 6 12 0 0) [[], [97, 98]]
     example_frame_bufs) (nghttp2_frame_hd_init 6 12 0 0) [0, 0, 0, 2, 97, 98]"
proof -
  have "origin_bytes [[], [97, 98]] = [0, 0, 0, 2, 97, 98]"
    by (simp add: origin_bytes_def be16_def)
  moreover from this have "session_bufs example_frame_bufs (length (origin_bytes [[], [97, 98]]))"
    using example_session_bufs frame_bufs_mono [OF example_frame_bufs]
    by (simp add: session_bufs_def)
  ultimately show ?thesis
    using origin_roundtrip [of example_frame_bufs "[[], [97, 98]]" "nghttp2_frame_hd_init 6 12 0 0"]
    by (simp add: nghttp2_frame_hd_init_def)
qed

section \<open>PRIORITY_UPDATE\<close>

definition nghttp2_frame_pack_priority_update ::
  "nat \<Rightarrow> (nat \<Rightarrow> nat \<Rightarrow> bytes option) \<Rightarrow> frame_hd \<Rightarrow> u32 \<Rightarrow> bytes \<Rightarrow> bufs \<Rightarrow>
     (bufs \<times> unit res) option" where
  "nghttp2_frame_pack_priority_update fuel alloc fh sid field_value bs =
     (case upd_head (\<lambda>b.
         rbind (assert_that (nghttp2_buf_avail b \<ge> 4 + length field_value)) (\<lambda>_.
         rbind (pack_hd fh b) (put_last32 sid))) bs of
        (bs', Inl e) \<Rightarrow> Some (bs', Inl e)
      | (bs', Inr _) \<Rightarrow> add_asserted fuel alloc field_value bs')"

definition nghttp2_frame_unpack_priority_update_payload :: "bytes \<Rightarrow> (u32 \<times> bytes) res" where
  "nghttp2_frame_unpack_priority_update_payload payload =
     rbind (assert_that (length payload \<ge> 4)) (\<lambda>_.
     rbind (nghttp2_get_uint32 payload 0) (\<lambda>n.
     Inr (n AND NGHTTP2_STREAM_ID_MASK,
          if length payload > 4 then drop 4 payload else [])))"

text \<open>PRIORITY_UPDATE frames make the round trip: no assertion of the writer or the reader
  fails, and the prioritized stream and the field value come back.\<close>
theorem priority_update_roundtrip:
  assumes bs: "session_bufs bs (4 + length fv)" and sid: "unat sid < 2 ^ 31" and fuel: "0 < fuel"
  shows "(\<exists>bs'. nghttp2_frame_pack_priority_update fuel alloc fh sid fv bs = Some (bs', Inr ()) \<and>
            bufs_data bs' = hd_bytes fh @ be32 sid @ fv) \<and>
         nghttp2_frame_unpack_priority_update_payload (be32 sid @ fv) = Inr (sid, fv)"
proof
  have "emits (\<lambda>b. rbind (pack_hd fh b) (put_last32 sid)) fh (be32 sid)"
    unfolding put_last32_fun by (rule emits_append)
  from asserted_session [OF bs this] obtain bs1 where bs1: "upd_head (\<lambda>b.
        rbind (assert_that (nghttp2_buf_avail b \<ge> 4 + length fv)) (\<lambda>_.
        rbind (pack_hd fh b) (put_last32 sid))) bs = (bs1, Inr ())" "bufs_ok bs1"
      "bufs_data bs1 = hd_bytes fh @ be32 sid" "length fv \<le> cur_avail bs1"
    by auto
  from add_asserted_fits [OF bs1(2,4) fuel, of alloc]
  show "\<exists>bs'. nghttp2_frame_pack_priority_update fuel alloc fh sid fv bs = Some (bs', Inr ()) \<and>
      bufs_data bs' = hd_bytes fh @ be32 sid @ fv"
    using bs1 by (auto simp: nghttp2_frame_pack_priority_update_def)
  show "nghttp2_frame_unpack_priority_update_payload (be32 sid @ fv) = Inr (sid, fv)"
    using and_mask_id [OF sid] get_uint32_be32
    by (simp add: nghttp2_frame_unpack_priority_update_payload_def NGHTTP2_STREAM_ID_MASK_def)
qed

theorem priority_update_roundtrip_witness:
  "nghttp2_frame_unpack_priority_update_payload (be32 7 @ [117, 61, 50]) = Inr (7, [117, 61, 50])"
proof -
  have "frame_bufs example_frame_bufs 7" by (rule frame_bufs_mono [OF example_frame_bufs]) simp
  then have "session_bufs example_frame_bufs (4 + length [117 :: u8, 61, 50])"
    using example_session_bufs by (simp add: session_bufs_def)
  from priority_update_roundtrip [OF this, of 7 1] show ?thesis by simp
qed

end
