(* ===== verification/FrameShared.thy ===== *)
theory FrameShared
  imports FrameVar
begin

text \<open>
  The helpers of \<open>nghttp2_frame.c\<close> that work on frames already packed: the CONTINUATION frames a
  long header block is split into (\<open>frame_pack_headers_shared\<close>) and the padding that is slipped
  in between the header and the payload of a frame (\<open>nghttp2_frame_add_pad\<close>).
\<close>

section \<open>CONTINUATION frames\<close>

definition pack_chunk_hd :: "frame_hd \<Rightarrow> buf \<Rightarrow> buf res" where
  "pack_chunk_hd fh b = pack_hd (fh\<lparr>hd_length := of_nat (nghttp2_buf_len b)\<rparr>) b"

text \<open>\<open>k\<close> is the number of buffers before \<open>bufs->cur\<close>, whose frame ends the header block.\<close>

fun pack_continuations :: "frame_hd \<Rightarrow> nat \<Rightarrow> buf list \<Rightarrow> buf list res" where
  "pack_continuations fh k [] = Inl Undefined"
| "pack_continuations fh 0 (b # bs) =
     rbind (pack_chunk_hd (fh\<lparr>hd_flags := NGHTTP2_FLAG_END_HEADERS\<rparr>) b) (\<lambda>b. Inr (b # bs))"
| "pack_continuations fh (Suc k) (b # bs) =
     rbind (pack_chunk_hd fh b) (\<lambda>b.
     rbind (pack_continuations fh k bs) (\<lambda>bs. Inr (b # bs)))"

definition frame_pack_headers_shared :: "frame_hd \<Rightarrow> bufs_op" where
  "frame_pack_headers_shared fh bs =
     (case chunks bs of
        [] \<Rightarrow> (bs, Inl Undefined)
      | b # rest \<Rightarrow>
          (let first = (if cur bs \<noteq> 0
                        then fh\<lparr>hd_flags := hd_flags fh AND NOT NGHTTP2_FLAG_END_HEADERS\<rparr>
                        else fh) in
           case rbind (pack_chunk_hd first b) (\<lambda>b.
               if cur bs \<noteq> 0
               then rbind (pack_continuations
                      (first\<lparr>hd_type := NGHTTP2_CONTINUATION, hd_flags := NGHTTP2_FLAG_NONE\<rparr>)
                      (cur bs - 1) rest) (\<lambda>rest. Inr (b # rest))
               else Inr (b # rest)) of
             Inl e \<Rightarrow> (bs, Inl e)
           | Inr cs \<Rightarrow> (bs\<lparr>chunks := cs\<rparr>, Inr ())))"

text \<open>What the peer reads: one frame per buffer, all on the same stream, and END_HEADERS on the
  last one only.\<close>

definition headers_frames :: "frame_hd \<Rightarrow> bytes list \<Rightarrow> frame_hd list" where
  "headers_frames fh parts =
     (let n = length parts in
      map (\<lambda>i. fh\<lparr>hd_length := of_nat (length (parts ! i)),
                  hd_type := (if i = 0 then hd_type fh else NGHTTP2_CONTINUATION),
                  hd_flags := (if i = 0 then
                                 (if n = 1 then hd_flags fh
                                  else hd_flags fh AND NOT NGHTTP2_FLAG_END_HEADERS)
                               else if i = n - 1 then NGHTTP2_FLAG_END_HEADERS
                               else NGHTTP2_FLAG_NONE)\<rparr>) [0..<n])"

definition packed_chunks :: "frame_hd list \<Rightarrow> bytes list \<Rightarrow> buf list \<Rightarrow> bool" where
  "packed_chunks fhs parts cs \<longleftrightarrow> map buf_data cs = map2 (\<lambda>h p. hd_bytes h @ p) fhs parts"

lemma pack_chunk_ok:
  assumes "buf_ok b" "9 \<le> pos b"
  shows "\<exists>b'. pack_chunk_hd fh b = Inr b' \<and>
    buf_data b' = hd_bytes (fh\<lparr>hd_length := of_nat (length (buf_data b))\<rparr>) @ buf_data b"
  using pack_hd_ok [OF assms] assms(1) by (fastforce simp: pack_chunk_hd_def)

definition continuation_frames :: "frame_hd \<Rightarrow> bytes list \<Rightarrow> frame_hd list" where
  "continuation_frames fh parts =
     map (\<lambda>i. fh\<lparr>hd_length := of_nat (length (parts ! i)),
                 hd_flags := (if i = length parts - 1 then NGHTTP2_FLAG_END_HEADERS
                              else hd_flags fh)\<rparr>) [0..<length parts]"

lemma continuation_Cons:
  "ps \<noteq> [] \<Longrightarrow> continuation_frames fh (p # ps) =
     (fh\<lparr>hd_length := of_nat (length p)\<rparr>) # continuation_frames fh ps"
  by (cases ps) (auto simp: continuation_frames_def upt_rec [of 0] map_Suc_upt [symmetric]
      simp del: upt_Suc)

lemma pack_continuations_ok:
  "\<forall>b\<in>set bs. buf_ok b \<and> 9 \<le> pos b \<Longrightarrow> length bs = Suc k \<Longrightarrow>
   \<exists>cs. pack_continuations fh k bs = Inr cs \<and>
     packed_chunks (continuation_frames fh (map buf_data bs)) (map buf_data bs) cs"
proof (induction fh k bs rule: pack_continuations.induct)
  case (1 fh k)
  then show ?case by simp
next
  case (2 fh b bs)
  then have b: "buf_ok b" "9 \<le> pos b" and bs: "bs = []" by auto
  from pack_chunk_ok [OF b, of "fh\<lparr>hd_flags := NGHTTP2_FLAG_END_HEADERS\<rparr>"] obtain b' where
    "pack_chunk_hd (fh\<lparr>hd_flags := NGHTTP2_FLAG_END_HEADERS\<rparr>) b = Inr b'"
    "buf_data b' = hd_bytes (fh\<lparr>hd_flags := NGHTTP2_FLAG_END_HEADERS,
        hd_length := of_nat (length (buf_data b))\<rparr>) @ buf_data b" by auto
  then show ?case
    by (cases fh) (simp add: bs packed_chunks_def continuation_frames_def)
next
  case (3 fh k b bs)
  then have b: "buf_ok b" "9 \<le> pos b" by auto
  obtain b' where b': "pack_chunk_hd fh b = Inr b'"
      "buf_data b' = hd_bytes (fh\<lparr>hd_length := of_nat (length (buf_data b))\<rparr>) @ buf_data b"
    using pack_chunk_ok [OF b, of fh] by blast
  obtain cs where cs: "pack_continuations fh k bs = Inr cs"
      "packed_chunks (continuation_frames fh (map buf_data bs)) (map buf_data bs) cs"
    using "3.IH" "3.prems" by auto
  have "map buf_data bs \<noteq> []" using "3.prems" by auto
  then show ?case using b' cs
    by (simp add: packed_chunks_def continuation_Cons)
qed

lemma headers_frames_single:
  "headers_frames fh [p] = [fh\<lparr>hd_length := of_nat (length p)\<rparr>]"
  by (cases fh) (simp add: headers_frames_def)

lemma headers_frames_Cons:
  assumes "ps \<noteq> []"
  shows "headers_frames fh (p # ps) =
    fh\<lparr>hd_length := of_nat (length p), hd_flags := hd_flags fh AND NOT NGHTTP2_FLAG_END_HEADERS\<rparr> #
    continuation_frames (fh\<lparr>hd_type := NGHTTP2_CONTINUATION, hd_flags := NGHTTP2_FLAG_NONE\<rparr>) ps"
proof -
  obtain n where n: "length ps = Suc n" using assms by (cases ps) auto
  have "[0..<Suc (Suc n)] = 0 # map Suc [0..<Suc n]" by (metis map_Suc_upt upt_conv_Cons zero_less_Suc)
  then show ?thesis
    by (cases fh) (simp add: headers_frames_def continuation_frames_def n del: upt_Suc)
qed

text \<open>C40: A header block is sent as one HEADERS or PUSH_PROMISE frame and CONTINUATION frames: for
  any chain whose buffers leave room for a frame header, every buffer up to the current one gets
  the header of its frame in front of its data. Put together, the payloads are the header block;
  each header announces the length of its payload; and END_HEADERS is set on the last frame and,
  when there are several, on no other.\<close>
theorem headers_shared_correct:
  assumes bs: "\<forall>b\<in>set (chunks bs). buf_ok b \<and> 9 \<le> pos b" "length (chunks bs) = Suc (cur bs)"
  shows "\<exists>bs'. frame_pack_headers_shared fh bs = (bs', Inr ()) \<and>
    packed_chunks (headers_frames fh (map buf_data (chunks bs))) (map buf_data (chunks bs)) (chunks bs')"
proof -
  obtain b rest where c: "chunks bs = b # rest" using bs(2) by (cases "chunks bs") auto
  have b: "buf_ok b" "9 \<le> pos b" and rest: "\<forall>b\<in>set rest. buf_ok b \<and> 9 \<le> pos b"
    using bs(1) c by auto
  show ?thesis
  proof (cases "cur bs = 0")
    case True
    then have "rest = []" using bs(2) c by simp
    then show ?thesis
      using True c pack_chunk_ok [OF b, of fh]
      by (auto simp: frame_pack_headers_shared_def packed_chunks_def headers_frames_single)
  next
    case False
    let ?first = "fh\<lparr>hd_flags := hd_flags fh AND NOT NGHTTP2_FLAG_END_HEADERS\<rparr>"
    let ?cont = "?first\<lparr>hd_type := NGHTTP2_CONTINUATION, hd_flags := NGHTTP2_FLAG_NONE\<rparr>"
    have ne: "map buf_data rest \<noteq> []" using False bs(2) c by auto
    obtain b' where b': "pack_chunk_hd ?first b = Inr b'"
        "buf_data b' = hd_bytes (?first\<lparr>hd_length := of_nat (length (buf_data b))\<rparr>) @ buf_data b"
      using pack_chunk_ok [OF b, of ?first] by blast
    have "length rest = Suc (cur bs - 1)" using False bs(2) c by simp
    from pack_continuations_ok [OF rest this, of ?cont] obtain cs where cs:
        "pack_continuations ?cont (cur bs - 1) rest = Inr cs"
        "packed_chunks (continuation_frames ?cont (map buf_data rest)) (map buf_data rest) cs"
      by blast
    have "?cont = fh\<lparr>hd_type := NGHTTP2_CONTINUATION, hd_flags := NGHTTP2_FLAG_NONE\<rparr>"
      by (cases fh) simp
    then show ?thesis using False b' cs c
      by (cases fh) (simp add: frame_pack_headers_shared_def Let_def packed_chunks_def
          headers_frames_Cons [OF ne])
  qed
qed

definition example_chain :: bufs where
  "example_chain = \<lparr>chunks = [\<lparr>mem = replicate 9 0 @ [130, 132], pos = 9, last_pos = 11, mark = 0\<rparr>,
       \<lparr>mem = replicate 9 0 @ [134, 0], pos = 9, last_pos = 10, mark = 0\<rparr>],
     cur = 1, chunk_length = 11, max_chunk = 4, chunk_used = 2, chunk_keep = 4, hd_offset = 9\<rparr>"

theorem headers_shared_correct_witness:
  "\<exists>bs'. frame_pack_headers_shared (nghttp2_frame_hd_init 0 1 5 3) example_chain = (bs', Inr ()) \<and>
     map buf_data (chunks bs') =
       [[0, 0, 2, 1, 1, 0, 0, 0, 3, 130, 132], [0, 0, 1, 9, 4, 0, 0, 0, 3, 134]]"
proof -
  have ok: "\<forall>b\<in>set (chunks example_chain). buf_ok b \<and> 9 \<le> pos b"
      "length (chunks example_chain) = Suc (cur example_chain)"
    by (simp_all add: example_chain_def buf_ok_def)
  have parts: "map buf_data (chunks example_chain) = [[130, 132], [134]]"
    by (simp add: example_chain_def buf_data_def nghttp2_buf_len_def)
  have hdrs: "headers_frames (nghttp2_frame_hd_init 0 1 5 3) [[130, 132], [134]] =
      [nghttp2_frame_hd_init 2 1 1 3, nghttp2_frame_hd_init 1 9 4 3]"
    by (simp add: headers_frames_def nghttp2_frame_hd_init_def NGHTTP2_FLAG_END_HEADERS_def
        NGHTTP2_CONTINUATION_def)
  show ?thesis
    using headers_shared_correct [OF ok, of "nghttp2_frame_hd_init 0 1 5 3"]
    unfolding parts hdrs packed_chunks_def
    by (simp add: hd_bytes_def be32_def nghttp2_frame_hd_init_def)
qed

section \<open>Padding\<close>

text \<open>\<open>memmove\<close> of the header one byte to the left, then the flag, the length, and (unless only the
  header is wanted) the length of the padding and the padding itself.\<close>

definition frame_set_pad :: "nat \<Rightarrow> bool \<Rightarrow> buf \<Rightarrow> buf res" where
  "frame_set_pad padlen framehd_only b =
     (if pos b < 1 then Inl Undefined
      else let p = pos b - 1 in
        rbind (of_option (mem_read (mem b) (pos b) NGHTTP2_FRAME_HDLEN)) (\<lambda>h.
        rbind (of_option (mem_write (mem b) p h)) (\<lambda>m.
        rbind (peek m (p + 4)) (\<lambda>f.
        rbind (poke m (p + 4) (f OR NGHTTP2_FLAG_PADDED)) (\<lambda>m.
        rbind (nghttp2_get_uint32 m p) (\<lambda>n.
        rbind (peek m (p + 3)) (\<lambda>t.
        rbind (nghttp2_put_uint32be m p (push_bit 8 (drop_bit 8 n + of_nat padlen) + ucast t)) (\<lambda>m.
        if framehd_only then Inr (b\<lparr>mem := m, pos := p\<rparr>)
        else
          rbind (poke m (p + NGHTTP2_FRAME_HDLEN) (of_nat (padlen - 1))) (\<lambda>m.
          rbind (of_option (mem_write m (last_pos b) (replicate (padlen - 1) 0))) (\<lambda>m.
          Inr (b\<lparr>mem := m, pos := p, last_pos := last_pos b + (padlen - 1)\<rparr>)))))))))))"

definition padded :: "frame_hd \<Rightarrow> nat \<Rightarrow> frame_hd" where
  "padded fh padlen = fh\<lparr>hd_length := hd_length fh + of_nat padlen,
     hd_flags := hd_flags fh OR NGHTTP2_FLAG_PADDED\<rparr>"

definition nghttp2_frame_add_pad ::
  "frame_hd \<Rightarrow> nat \<Rightarrow> bool \<Rightarrow> bufs \<Rightarrow> bufs \<times> (frame_hd res)" where
  "nghttp2_frame_add_pad fh padlen framehd_only bs =
     (if padlen = 0 then (bs, Inr fh)
      else case upd_head (\<lambda>b. rbind (assert_that (nghttp2_buf_avail b \<ge> padlen - 1))
             (\<lambda>_. frame_set_pad padlen framehd_only b)) bs of
          (bs', Inl e) \<Rightarrow> (bs', Inl e)
        | (bs', Inr _) \<Rightarrow> (bs', Inr (padded fh padlen)))"

text \<open>The header as a part of the buffer, and the accesses of \<open>frame_set_pad\<close> to its fields.\<close>

lemma hd_read_at: "mem_read (A @ hd_bytes fh @ R) (length A) 9 = Some (hd_bytes fh)"
  by (simp add: mem_read_def)

lemma hd_sub_read:
  "i + n \<le> 9 \<Longrightarrow> mem_read (A @ hd_bytes fh @ R) (length A + i) n = Some (take n (drop i (hd_bytes fh)))"
  by (rule mem_read_sub [OF hd_read_at])

lemma peek_hd:
  "peek (A @ hd_bytes fh @ R) (length A + 3) = Inr (hd_type fh)"
  "peek (A @ hd_bytes fh @ R) (length A + 4) = Inr (hd_flags fh)"
  using hd_sub_read [of 3 1 A fh R] hd_sub_read [of 4 1 A fh R]
  by (simp_all add: peek_def hd_bytes_def eval_nat_numeral)

lemma poke_flags:
  "poke (A @ hd_bytes fh @ R) (length A + 4) v = Inr (A @ hd_bytes (fh\<lparr>hd_flags := v\<rparr>) @ R)"
  by (simp add: poke_def mem_write_def hd_bytes_def eval_nat_numeral)

lemma get_length:
  assumes "hd_length fh \<le> 0xFFFFFF"
  shows "\<exists>n. nghttp2_get_uint32 (A @ hd_bytes fh @ R) (length A) = Inr n \<and> drop_bit 8 n = hd_length fh"
proof -
  have "mem_read (A @ hd_bytes fh @ R) (length A) 4 = Some [ucast (drop_bit 16 (hd_length fh)),
      ucast (drop_bit 8 (hd_length fh)), ucast (hd_length fh), hd_type fh]"
    using hd_sub_read [of 0 4 A fh R] by (simp add: hd_bytes_def eval_nat_numeral)
  then show ?thesis
    using length_field [OF assms, of "hd_type fh"]
    by (simp add: nghttp2_get_uint32_def del: load32.simps)
qed

lemma be32_length_type:
  "be32 (push_bit 8 l + ucast (t :: u8)) =
     [ucast (drop_bit 16 l), ucast (drop_bit 8 l), ucast l, t]"
proof -
  have "push_bit 8 l + ucast t = push_bit 8 l OR ucast t"
    by (rule disjunctive_add) (auto simp: bit_simps dest: bit_imp_le_length)
  then show ?thesis
    by (auto simp: be32_def bit_eq_iff bit_simps dest: bit_imp_le_length)
qed

lemma put_length:
  "nghttp2_put_uint32be (A @ hd_bytes fh @ R) (length A) (push_bit 8 l + ucast (hd_type fh)) =
     Inr (A @ hd_bytes (fh\<lparr>hd_length := l\<rparr>) @ R)"
  unfolding put_uint32be_eq be32_length_type
  by (simp add: mem_write_def hd_bytes_def eval_nat_numeral)

lemma mem_write_after:
  "length P = off \<Longrightarrow> length ys \<le> length B \<Longrightarrow>
   mem_write (P @ B) off ys = Some (P @ ys @ drop (length ys) B)"
  by (auto simp: mem_write_def)

lemma poke_after_hd:
  "poke (A @ hd_bytes fh @ y # R) (length A + 9) v = Inr (A @ hd_bytes fh @ v # R)"
  by (simp add: poke_def mem_write_def)

text \<open>The common part: the header moved by one byte and changed; the byte behind it is the old
  last byte of the header.\<close>

lemma set_pad_framehd_only:
  assumes b: "mem b = A @ x # hd_bytes fh @ R" "pos b = Suc (length A)"
    and len: "hd_length fh \<le> 0xFFFFFF"
  shows "\<exists>y. frame_set_pad padlen True b =
           Inr (b\<lparr>mem := A @ hd_bytes (padded fh padlen) @ y # R, pos := length A\<rparr>) \<and>
         frame_set_pad padlen False b =
           rbind (poke (A @ hd_bytes (padded fh padlen) @ y # R) (length A + 9) (of_nat (padlen - 1)))
             (\<lambda>m. rbind (of_option (mem_write m (last_pos b) (replicate (padlen - 1) 0)))
               (\<lambda>m. Inr (b\<lparr>mem := m, pos := length A, last_pos := last_pos b + (padlen - 1)\<rparr>)))"
proof -
  let ?y = "last (hd_bytes fh)" and ?f = "hd_flags fh OR NGHTTP2_FLAG_PADDED"
  let ?fh = "fh\<lparr>hd_flags := ?f\<rparr>"
  have r: "mem_read (mem b) (pos b) 9 = Some (hd_bytes fh)"
    using hd_read_at [of "A @ [x]" fh R] b by simp
  have split: "x # hd_bytes fh @ R = (x # butlast (hd_bytes fh)) @ ?y # R"
    by (metis append_butlast_last_id append_Cons append_assoc append_Nil length_hd_bytes
        list.size(3) zero_neq_numeral)
  have w: "mem_write (mem b) (length A) (hd_bytes fh) = Some (A @ hd_bytes fh @ ?y # R)"
    unfolding b(1) split by (simp add: mem_write_def)
  obtain n where n: "nghttp2_get_uint32 (A @ hd_bytes ?fh @ ?y # R) (length A) = Inr n"
      "drop_bit 8 n = hd_length fh"
    using get_length [of ?fh A "?y # R"] len by auto
  have put: "nghttp2_put_uint32be (A @ hd_bytes ?fh @ ?y # R) (length A)
      (push_bit 8 (hd_length fh + of_nat padlen) + ucast (hd_type fh)) =
      Inr (A @ hd_bytes (padded fh padlen) @ ?y # R)"
    using put_length [of A ?fh "?y # R"] by (cases fh) (simp add: padded_def)
  have t: "peek (A @ hd_bytes ?fh @ ?y # R) (length A + 3) = Inr (hd_type fh)"
    using peek_hd(1) [of A ?fh] by simp
  show ?thesis
    using b(2) r w n put t peek_hd(2) [of A fh] poke_flags [of A fh "?y # R" ?f]
    by (intro exI [of _ ?y]) (simp add: frame_set_pad_def NGHTTP2_FRAME_HDLEN_def Let_def)
qed

text \<open>Padding a packed frame: on a chain whose head holds the header and the payload of a
  frame, with a byte in front and room for the padding, no assertion fails and no byte is
  written outside the buffer. The header moves by one byte, its length grows by the padding and
  its PADDED flag is set; the length of the padding comes before the payload and zeros behind
  it; and the caller's header is updated in the same way.\<close>
theorem add_pad_correct:
  assumes bs: "chunks bs = b # cs" "buf_ok b" "0 < pos b" "buf_data b = hd_bytes fh @ payload"
    and pad: "1 \<le> padlen" "padlen - 1 \<le> nghttp2_buf_avail b" "unat (hd_length fh) + padlen < 2 ^ 24"
  shows "\<exists>b'. nghttp2_frame_add_pad fh padlen False bs =
             (bs\<lparr>chunks := b' # cs\<rparr>, Inr (padded fh padlen)) \<and> buf_ok b' \<and>
           unat (hd_length (padded fh padlen)) = unat (hd_length fh) + padlen \<and>
           buf_data b' = hd_bytes (padded fh padlen) @ [of_nat (padlen - 1)] @ payload @
             replicate (padlen - 1) 0"
proof -
  let ?A = "take (pos b - 1) (mem b)" and ?x = "mem b ! (pos b - 1)" and ?B = "drop (last_pos b) (mem b)"
  have p: "pos b \<le> last_pos b" "last_pos b \<le> length (mem b)" using bs(2) by (auto simp: buf_ok_def)
  have lens: "last_pos b - pos b = 9 + length payload"
    using length_buf_data [OF bs(2)] bs(4) by (simp add: nghttp2_buf_len_def)
  have "mem b = take (pos b) (mem b) @ buf_data b @ ?B"
    using p by (simp add: buf_data_def nghttp2_buf_len_def) (metis append.assoc append_take_drop_id le_add_diff_inverse take_add)
  moreover have "take (pos b) (mem b) = ?A @ [?x]"
    using p bs(3) lens take_Suc_conv_app_nth [of "pos b - 1" "mem b"] by simp
  ultimately have m: "mem b = ?A @ ?x # hd_bytes fh @ payload @ ?B" using bs(4) by simp
  have A: "length ?A = pos b - 1" "pos b = Suc (length ?A)" using p bs(3) by auto
  have len: "hd_length fh \<le> 0xFFFFFF" using pad(3) by (simp add: word_le_nat_alt)
  obtain y where y: "frame_set_pad padlen False b =
      rbind (poke (?A @ hd_bytes (padded fh padlen) @ y # payload @ ?B) (length ?A + 9) (of_nat (padlen - 1)))
        (\<lambda>m. rbind (of_option (mem_write m (last_pos b) (replicate (padlen - 1) 0)))
          (\<lambda>m. Inr (b\<lparr>mem := m, pos := length ?A, last_pos := last_pos b + (padlen - 1)\<rparr>)))"
    using set_pad_framehd_only [OF m A(2) len, of padlen] by auto
  let ?pre = "?A @ hd_bytes (padded fh padlen) @ of_nat (padlen - 1) # payload"
  let ?m = "?pre @ replicate (padlen - 1) 0 @ drop (padlen - 1) ?B"
  have poke: "poke (?A @ hd_bytes (padded fh padlen) @ y # payload @ ?B) (length ?A + 9) v =
      Inr (?A @ hd_bytes (padded fh padlen) @ v # payload @ ?B)" for v
    by (rule poke_after_hd)
  have "length ?pre = last_pos b" using A lens p by simp
  then have "mem_write (?pre @ ?B) (last_pos b) (replicate (padlen - 1) 0) = Some ?m"
    using mem_write_after [of ?pre "last_pos b" "replicate (padlen - 1) 0" ?B] pad(2)
    by (simp only: length_replicate length_drop nghttp2_buf_avail_def)
  then have set: "frame_set_pad padlen False b =
      Inr (b\<lparr>mem := ?m, pos := length ?A, last_pos := last_pos b + (padlen - 1)\<rparr>)"
    using y poke by simp
  let ?b = "b\<lparr>mem := ?m, pos := length ?A, last_pos := last_pos b + (padlen - 1)\<rparr>"
  have "upd_head (\<lambda>b. rbind (assert_that (nghttp2_buf_avail b \<ge> padlen - 1))
      (\<lambda>_. frame_set_pad padlen False b)) bs = (bs\<lparr>chunks := ?b # cs\<rparr>, Inr ())"
    using set pad(2) bs(1) by (simp add: upd_head_def)
  then have "nghttp2_frame_add_pad fh padlen False bs = (bs\<lparr>chunks := ?b # cs\<rparr>, Inr (padded fh padlen))"
    using pad(1) by (simp add: nghttp2_frame_add_pad_def)
  moreover have "buf_ok ?b"
    using pad(2) A lens p by (simp add: buf_ok_def nghttp2_buf_avail_def)
  moreover have "unat (hd_length (padded fh padlen)) = unat (hd_length fh) + padlen"
    using pad(3) by (simp add: padded_def unat_word_ariths unat_of_nat take_bit_nat_eq_self)
  moreover have "buf_data ?b = hd_bytes (padded fh padlen) @ [of_nat (padlen - 1)] @ payload @
      replicate (padlen - 1) 0" (is "_ = ?X")
  proof -
    have "nghttp2_buf_len ?b = length ?X"
      using A lens p pad(1) by (simp add: nghttp2_buf_len_def)
    moreover have "drop (pos ?b) (mem ?b) = ?X @ drop (padlen - 1) ?B" using A p by simp
    ultimately show ?thesis unfolding buf_data_def by (metis append_eq_conv_conj)
  qed
  ultimately show ?thesis by blast
qed

theorem add_pad_correct_witness:
  "\<exists>b'. nghttp2_frame_add_pad (nghttp2_frame_hd_init 2 0 1 3) 3 False
     \<lparr>chunks = [\<lparr>mem = replicate 1 7 @ [0, 0, 2, 0, 1, 0, 0, 0, 3, 104, 105] @ replicate 4 7,
        pos = 1, last_pos = 12, mark = 0\<rparr>], cur = 0, chunk_length = 16, max_chunk = 1,
        chunk_used = 1, chunk_keep = 1, hd_offset = 10\<rparr> = b' \<and>
     map buf_data (chunks (fst b')) = [[0, 0, 5, 0, 9, 0, 0, 0, 3, 2, 104, 105, 0, 0]]"
proof -
  let ?fh = "nghttp2_frame_hd_init 2 0 1 3"
  let ?b = "\<lparr>mem = replicate 1 7 @ [0, 0, 2, 0, 1, 0, 0, 0, 3, 104, 105] @ replicate 4 7,
        pos = 1, last_pos = 12, mark = 0\<rparr> :: buf"
  let ?bs = "\<lparr>chunks = [?b], cur = 0, chunk_length = 16, max_chunk = 1,
        chunk_used = 1, chunk_keep = 1, hd_offset = 10\<rparr>"
  have "buf_ok ?b" "buf_data ?b = hd_bytes ?fh @ [104, 105]" "2 \<le> nghttp2_buf_avail ?b"
    by (simp_all add: buf_ok_def buf_data_def nghttp2_buf_len_def hd_bytes_def be32_def
        nghttp2_frame_hd_init_def nghttp2_buf_avail_def)
  moreover have "hd_bytes (padded ?fh 3) @ [of_nat 2] @ [104, 105] @ replicate 2 0 =
      [0, 0, 5, 0, 9, 0, 0, 0, 3, 2, 104, 105, 0, 0]"
    by (simp add: hd_bytes_def be32_def padded_def nghttp2_frame_hd_init_def NGHTTP2_FLAG_PADDED_def
        replicate_numeral_Cons)
  ultimately show ?thesis
    using add_pad_correct [of ?bs ?b "[]" ?fh "[104, 105]" 3]
    by (auto simp: nghttp2_frame_hd_init_def)
qed

end
