(* ===== verification/HMap.thy ===== *)
theory HMap
  imports Errors "HOL-Library.Multiset"
begin

text \<open>
  \<open>nghttp2_map.c\<close>: the hash map from stream identifiers to streams, with open addressing and
  Robin Hood displacement. The well-formedness of a table is one inequality between neighbouring
  buckets, on the level of a bucket: 0 when it is empty, else one more than its distance from
  its home. The last sections show that insertion, lookup and removal implement a finite map.
  Loops take the number of steps they may run; the table has an empty bucket, so its length is
  enough.
\<close>

section \<open>The table\<close>

record 'a bucket =
  bkt_hash :: u32
  bkt_key :: u32
  bkt_data :: "'a option"

record 'a hmap =
  table :: "'a bucket list"
  tablelen :: u32
  tablelenbits :: nat
  map_size :: u32

definition NGHTTP2_INITIAL_TABLE_LENBITS :: nat where "NGHTTP2_INITIAL_TABLE_LENBITS = 8"

definition empty_bucket :: "'a bucket" where
  "empty_bucket = \<lparr>bkt_hash = 0, bkt_key = 0, bkt_data = None\<rparr>"

text \<open>\<open>calloc\<close>: \<open>grant n\<close> tells whether a block of \<open>n\<close> bytes is granted; the product must not
  overflow.\<close>

definition sizeof_bucket :: nat where "sizeof_bucket = 12"

definition calloc_table :: "(nat \<Rightarrow> bool) \<Rightarrow> u32 \<Rightarrow> 'a bucket list res" where
  "calloc_table grant n =
     (let total_size = unat n * sizeof_bucket in
      if total_size < 2 ^ 32 \<and> grant total_size then Inr (replicate (unat n) empty_bucket)
      else Inl (Code NGHTTP2_ERR_NOMEM))"

definition nghttp2_map_init :: "(nat \<Rightarrow> bool) \<Rightarrow> 'a hmap res" where
  "nghttp2_map_init grant =
     rbind (calloc_table grant (push_bit NGHTTP2_INITIAL_TABLE_LENBITS 1)) (\<lambda>t.
     Inr \<lparr>table = t, tablelen = push_bit NGHTTP2_INITIAL_TABLE_LENBITS 1,
          tablelenbits = NGHTTP2_INITIAL_TABLE_LENBITS, map_size = 0\<rparr>)"

definition hash :: "u32 \<Rightarrow> u32" where
  "hash key = key * 2654435769"

definition h2idx :: "u32 \<Rightarrow> nat \<Rightarrow> u32" where
  "h2idx h bits = drop_bit (32 - bits) h"

definition distance :: "u32 \<Rightarrow> nat \<Rightarrow> 'a bucket \<Rightarrow> u32 \<Rightarrow> u32" where
  "distance tlen bits bkt idx = (idx - h2idx (bkt_hash bkt) bits) AND (tlen - 1)"

section \<open>Operations\<close>

fun insert_loop :: "nat \<Rightarrow> 'a bucket list \<Rightarrow> u32 \<Rightarrow> nat \<Rightarrow> 'a bucket \<Rightarrow> u32 \<Rightarrow> u32 \<Rightarrow>
    ('a bucket list \<times> unit res) option" where
  "insert_loop 0 t tlen bits carry d idx = None"
| "insert_loop (Suc fuel) t tlen bits carry d idx =
     (if length t \<le> unat idx then Some (t, Inl Undefined)
      else let bkt = t ! unat idx; next_idx = (idx + 1) AND (tlen - 1) in
        if bkt_data bkt = None then Some (t[unat idx := carry], Inr ())
        else let dd = distance tlen bits bkt idx in
          if d > dd then insert_loop fuel (t[unat idx := carry]) tlen bits bkt (dd + 1) next_idx
          else if bkt_key bkt = bkt_key carry then Some (t, Inl (Code NGHTTP2_ERR_INVALID_ARGUMENT))
          else insert_loop fuel t tlen bits carry (d + 1) next_idx)"

definition map_insert_bucket :: "nat \<Rightarrow> 'a bucket list \<Rightarrow> u32 \<Rightarrow> nat \<Rightarrow> 'a bucket \<Rightarrow>
    ('a bucket list \<times> unit res) option" where
  "map_insert_bucket fuel t tlen bits bkt =
     insert_loop fuel t tlen bits bkt 0 (h2idx (bkt_hash bkt) bits)"

fun rehash :: "nat \<Rightarrow> 'a bucket list \<Rightarrow> 'a bucket list \<Rightarrow> u32 \<Rightarrow> nat \<Rightarrow> 'a bucket list res option" where
  "rehash fuel [] t tlen bits = Some (Inr t)"
| "rehash fuel (bkt # bkts) t tlen bits =
     (if bkt_data bkt = None then rehash fuel bkts t tlen bits
      else case map_insert_bucket fuel t tlen bits bkt of
          None \<Rightarrow> None
        | Some (t', Inl (Code _)) \<Rightarrow> Some (Inl Assert_failed)
        | Some (t', Inl e) \<Rightarrow> Some (Inl e)
        | Some (t', Inr _) \<Rightarrow> rehash fuel bkts t' tlen bits)"

definition map_resize :: "nat \<Rightarrow> (nat \<Rightarrow> bool) \<Rightarrow> 'a hmap \<Rightarrow> u32 \<Rightarrow> nat \<Rightarrow> ('a hmap \<times> unit res) option"
  where
  "map_resize fuel grant m new_tablelen new_tablelenbits =
     (case calloc_table grant new_tablelen of
        Inl e \<Rightarrow> Some (m, Inl e)
      | Inr new_table \<Rightarrow>
          (case rehash fuel (table m) new_table new_tablelen new_tablelenbits of
             None \<Rightarrow> None
           | Some (Inl e) \<Rightarrow> Some (m, Inl e)
           | Some (Inr t) \<Rightarrow>
               Some (m\<lparr>table := t, tablelen := new_tablelen, tablelenbits := new_tablelenbits\<rparr>,
                 Inr ())))"

definition insert_sized :: "nat \<Rightarrow> 'a hmap \<Rightarrow> u32 \<Rightarrow> 'a \<Rightarrow> ('a hmap \<times> unit res) option" where
  "insert_sized fuel m key data =
     (case map_insert_bucket fuel (table m) (tablelen m) (tablelenbits m)
         \<lparr>bkt_hash = hash key, bkt_key = key, bkt_data = Some data\<rparr> of
        None \<Rightarrow> None
      | Some (t, Inl e) \<Rightarrow> Some (m\<lparr>table := t\<rparr>, Inl e)
      | Some (t, Inr _) \<Rightarrow> Some (m\<lparr>table := t, map_size := map_size m + 1\<rparr>, Inr ()))"

definition nghttp2_map_insert ::
  "nat \<Rightarrow> (nat \<Rightarrow> bool) \<Rightarrow> 'a hmap \<Rightarrow> u32 \<Rightarrow> 'a option \<Rightarrow> ('a hmap \<times> unit res) option" where
  "nghttp2_map_insert fuel grant m key data =
     (case data of
        None \<Rightarrow> Some (m, Inl Assert_failed)
      | Some data \<Rightarrow>
          if (map_size m + 1) * 4 > tablelen m * 3
          then (case map_resize fuel grant m (tablelen m * 2) (tablelenbits m + 1) of
              Some (m', Inr _) \<Rightarrow> insert_sized fuel m' key data
            | r \<Rightarrow> r)
          else insert_sized fuel m key data)"

text \<open>The search of \<open>find\<close> and of \<open>remove\<close>: the index of the bucket, or nothing.\<close>

fun find_loop :: "nat \<Rightarrow> 'a bucket list \<Rightarrow> u32 \<Rightarrow> nat \<Rightarrow> u32 \<Rightarrow> u32 \<Rightarrow> u32 \<Rightarrow> u32 option res option" where
  "find_loop 0 t tlen bits key d idx = None"
| "find_loop (Suc fuel) t tlen bits key d idx =
     (if length t \<le> unat idx then Some (Inl Undefined)
      else let bkt = t ! unat idx in
        if bkt_data bkt = None \<or> d > distance tlen bits bkt idx then Some (Inr None)
        else if bkt_key bkt = key then Some (Inr (Some idx))
        else find_loop fuel t tlen bits key (d + 1) ((idx + 1) AND (tlen - 1)))"

definition nghttp2_map_find :: "nat \<Rightarrow> 'a hmap \<Rightarrow> u32 \<Rightarrow> 'a option res option" where
  "nghttp2_map_find fuel m key =
     (case find_loop fuel (table m) (tablelen m) (tablelenbits m) key 0
         (h2idx (hash key) (tablelenbits m)) of
        None \<Rightarrow> None
      | Some (Inl e) \<Rightarrow> Some (Inl e)
      | Some (Inr None) \<Rightarrow> Some (Inr None)
      | Some (Inr (Some idx)) \<Rightarrow> Some (Inr (bkt_data (table m ! unat idx))))"

text \<open>Backward shift: the buckets behind the removed one move up as long as they are not at home.\<close>

fun shift_loop :: "nat \<Rightarrow> 'a bucket list \<Rightarrow> u32 \<Rightarrow> nat \<Rightarrow> u32 \<Rightarrow> u32 \<Rightarrow> 'a bucket list res option" where
  "shift_loop 0 t tlen bits didx idx = None"
| "shift_loop (Suc fuel) t tlen bits didx idx =
     (if length t \<le> unat idx then Some (Inl Undefined)
      else let bkt = t ! unat idx in
        if bkt_data bkt = None \<or> distance tlen bits bkt idx = 0 then Some (Inr t)
        else shift_loop fuel (t[unat didx := bkt, unat idx := empty_bucket]) tlen bits idx
               ((idx + 1) AND (tlen - 1)))"

definition nghttp2_map_remove :: "nat \<Rightarrow> 'a hmap \<Rightarrow> u32 \<Rightarrow> ('a hmap \<times> unit res) option" where
  "nghttp2_map_remove fuel m key =
     (case find_loop fuel (table m) (tablelen m) (tablelenbits m) key 0
         (h2idx (hash key) (tablelenbits m)) of
        None \<Rightarrow> None
      | Some (Inl e) \<Rightarrow> Some (m, Inl e)
      | Some (Inr None) \<Rightarrow> Some (m, Inl (Code NGHTTP2_ERR_INVALID_ARGUMENT))
      | Some (Inr (Some idx)) \<Rightarrow>
          (case shift_loop fuel ((table m)[unat idx := empty_bucket]) (tablelen m) (tablelenbits m)
              idx ((idx + 1) AND (tablelen m - 1)) of
             None \<Rightarrow> None
           | Some (Inl e) \<Rightarrow> Some (m, Inl e)
           | Some (Inr t) \<Rightarrow> Some (m\<lparr>table := t, map_size := map_size m - 1\<rparr>, Inr ())))"

definition nghttp2_map_clear :: "'a hmap \<Rightarrow> 'a hmap" where
  "nghttp2_map_clear m =
     m\<lparr>table := replicate (unat (tablelen m)) empty_bucket, map_size := 0\<rparr>"

definition nghttp2_map_size :: "'a hmap \<Rightarrow> u32" where
  "nghttp2_map_size m = map_size m"

text \<open>The callback is a state transformer with a return value; the first nonzero one ends the
  iteration.\<close>

fun each_loop :: "('a \<Rightarrow> 's \<Rightarrow> 's \<times> int) \<Rightarrow> 'a bucket list \<Rightarrow> 's \<Rightarrow> 's \<times> int" where
  "each_loop f [] s = (s, 0)"
| "each_loop f (bkt # bkts) s =
     (case bkt_data bkt of
        None \<Rightarrow> each_loop f bkts s
      | Some x \<Rightarrow> (case f x s of (s', rv) \<Rightarrow> if rv \<noteq> 0 then (s', rv) else each_loop f bkts s'))"

definition nghttp2_map_each :: "('a \<Rightarrow> 's \<Rightarrow> 's \<times> int) \<Rightarrow> 'a hmap \<Rightarrow> 's \<Rightarrow> 's \<times> int" where
  "nghttp2_map_each f m = each_loop f (table m)"

definition nghttp2_map_each_free :: "('a \<Rightarrow> 's \<Rightarrow> 's \<times> int) \<Rightarrow> 'a hmap \<Rightarrow> 's \<Rightarrow> 's" where
  "nghttp2_map_each_free f m s = fst (each_loop (\<lambda>x s. (fst (f x s), 0)) (table m) s)"

section \<open>Positions on the ring\<close>

definition succ_at :: "nat \<Rightarrow> nat \<Rightarrow> nat" where
  "succ_at b i = (i + 1) mod 2 ^ b"

definition ring_dist :: "nat \<Rightarrow> nat \<Rightarrow> nat \<Rightarrow> nat" where
  "ring_dist b i h = nat ((int i - int h) mod 2 ^ b)"

lemma succ_at_less [simp]: "succ_at b i < 2 ^ b"
  by (simp add: succ_at_def)

lemma ring_dist_less [simp]: "ring_dist b i h < 2 ^ b"
proof -
  have "(int i - int h) mod 2 ^ b < 2 ^ b" by simp
  then show ?thesis unfolding ring_dist_def by (simp add: nat_less_iff)
qed

lemma ring_dist_int: "int (ring_dist b i h) = (int i - int h) mod 2 ^ b"
  by (simp add: ring_dist_def)

lemma ring_dist_self [simp]: "ring_dist b i i = 0"
  by (simp add: ring_dist_def)

lemma ring_dist_0: "i < 2 ^ b \<Longrightarrow> h < 2 ^ b \<Longrightarrow> ring_dist b i h = 0 \<longleftrightarrow> i = h"
proof
  assume b: "i < 2 ^ b" "h < 2 ^ b" and "ring_dist b i h = 0"
  then have "(int i - int h) mod 2 ^ b = 0" using ring_dist_int [of b i h] by simp
  then have "int i mod 2 ^ b = int h mod 2 ^ b" by (simp add: mod_eq_dvd_iff mod_eq_0_iff_dvd)
  then show "i = h" using b by (simp flip: of_nat_power of_nat_mod)
qed simp

lemma succ_int: "int (succ_at b i) = (int i + 1) mod 2 ^ b"
  by (simp add: succ_at_def of_nat_mod add.commute)

lemma ring_dist_succ: "ring_dist b (succ_at b i) h = (ring_dist b i h + 1) mod 2 ^ b"
proof -
  have "int (ring_dist b (succ_at b i) h) = (int i + 1 - int h) mod 2 ^ b"
    by (simp add: ring_dist_int succ_int mod_diff_left_eq)
  also have "\<dots> = ((int i - int h) mod 2 ^ b + 1) mod 2 ^ b"
    by (simp add: mod_add_left_eq) (simp add: algebra_simps)
  also have "\<dots> = int ((ring_dist b i h + 1) mod 2 ^ b)"
    by (simp add: ring_dist_int of_nat_mod add.commute)
  finally show ?thesis by simp
qed

lemma ring_dist_back: "ring_dist b e (succ_at b i) = (if ring_dist b e i = 0 then 2 ^ b - 1 else ring_dist b e i - 1)"
proof -
  have "int (ring_dist b e (succ_at b i)) = (int (ring_dist b e i) - 1) mod 2 ^ b"
    by (simp add: ring_dist_int succ_int mod_diff_right_eq mod_diff_left_eq algebra_simps)
  moreover have "(int k - 1) mod 2 ^ b = (if k = 0 then 2 ^ b - 1 else int k - 1)"
    if "k < 2 ^ b" for k
  proof (cases "k = 0")
    case True
    then show ?thesis using zmod_minus1 [of "2 ^ b"] by simp
  next
    case False
    moreover have "int k < 2 ^ b" using that by (metis of_nat_less_iff of_nat_numeral of_nat_power)
    moreover have "0 < k" using False by simp
    ultimately have "(int k - 1) mod 2 ^ b = int k - 1"
      by (intro mod_pos_pos_trivial) linarith+
    then show ?thesis using False by simp
  qed
  ultimately have "int (ring_dist b e (succ_at b i)) =
      (if ring_dist b e i = 0 then 2 ^ b - 1 else int (ring_dist b e i) - 1)" by simp
  moreover have "int (2 ^ b - 1) = 2 ^ b - 1" by (simp add: of_nat_diff)
  ultimately have "int (ring_dist b e (succ_at b i)) =
      int (if ring_dist b e i = 0 then 2 ^ b - 1 else ring_dist b e i - 1)"
    by (cases "ring_dist b e i = 0") (simp_all only: if_True if_False, simp_all add: of_nat_diff)
  then show ?thesis by (simp only: of_nat_eq_iff)
qed

section \<open>Well-formed tables\<close>

definition bkt_home :: "nat \<Rightarrow> 'a bucket \<Rightarrow> nat" where
  "bkt_home b bkt = unat (h2idx (bkt_hash bkt) b)"

text \<open>The level of bucket \<open>i\<close> if it holds \<open>bkt\<close>, and the inequality between neighbours.\<close>

definition level :: "nat \<Rightarrow> 'a bucket \<Rightarrow> nat \<Rightarrow> nat" where
  "level b bkt i = (if bkt_data bkt = None then 0 else Suc (ring_dist b i (bkt_home b bkt)))"

definition robin_hood :: "nat \<Rightarrow> 'a bucket list \<Rightarrow> bool" where
  "robin_hood b t \<longleftrightarrow>
     (\<forall>i < 2 ^ b. level b (t ! succ_at b i) (succ_at b i) \<le> level b (t ! i) i + 1)"

definition bucket_ok :: "'a bucket \<Rightarrow> bool" where
  "bucket_ok bkt \<longleftrightarrow> (bkt_data bkt \<noteq> None \<longrightarrow> bkt_hash bkt = hash (bkt_key bkt))"

definition entry :: "'a bucket \<Rightarrow> (u32 \<times> 'a) list" where
  "entry bkt = (case bkt_data bkt of None \<Rightarrow> [] | Some x \<Rightarrow> [(bkt_key bkt, x)])"

definition entries :: "'a bucket list \<Rightarrow> (u32 \<times> 'a) list" where
  "entries t = concat (map entry t)"

definition free_slot :: "nat \<Rightarrow> 'a bucket list \<Rightarrow> nat \<Rightarrow> bool" where
  "free_slot b t e \<longleftrightarrow> e < 2 ^ b \<and> bkt_data (t ! e) = None"

text \<open>The sizes of the table's words; \<open>bits\<close> stays below 29, since a table of 12-byte buckets
  fits the address space.\<close>

definition dims :: "'a bucket list \<Rightarrow> u32 \<Rightarrow> nat \<Rightarrow> bool" where
  "dims t tlen b \<longleftrightarrow> length t = 2 ^ b \<and> tlen = push_bit b 1 \<and> 8 \<le> b \<and> b \<le> 28"

lemma dims_update [simp]: "dims (t[i := x]) tlen b \<longleftrightarrow> dims t tlen b"
  by (simp add: dims_def)

lemma home_less:
  assumes "b \<le> 28" "0 < b"
  shows "bkt_home b bkt < 2 ^ b"
proof -
  have "unat (bkt_hash bkt) < 2 ^ 32" using unsigned_less [of "bkt_hash bkt"] by simp
  then have "unat (bkt_hash bkt) < 2 ^ b * 2 ^ (32 - b)" using assms by (simp flip: power_add)
  then have "unat (bkt_hash bkt) div 2 ^ (32 - b) < 2 ^ b" by (simp add: less_mult_imp_div_less)
  moreover have "bkt_home b bkt = unat (bkt_hash bkt) div 2 ^ (32 - b)"
    unfolding bkt_home_def h2idx_def unsigned_drop_bit_eq by (simp add: drop_bit_eq_div)
      (simp add: take_bit_eq_mod \<open>unat (bkt_hash bkt) < 2 ^ 32\<close> [simplified])
  ultimately show ?thesis by simp
qed

lemma word_mask:
  assumes "b \<le> 28" "0 < b"
  shows "unat ((w :: u32) AND (push_bit b 1 - 1)) = unat w mod 2 ^ b"
proof -
  have "(push_bit b 1 - 1 :: u32) = mask b" by (simp add: mask_eq_exp_minus_1)
  then have "w AND (push_bit b 1 - 1) = take_bit b w" by (simp add: take_bit_eq_mask)
  then show ?thesis by (simp only: unsigned_take_bit_eq) (simp add: take_bit_eq_mod)
qed

lemma next_idx:
  fixes idx :: u32
  assumes "b \<le> 28" "0 < b" "unat idx < 2 ^ b"
  shows "unat ((idx + 1) AND (push_bit b 1 - 1)) = succ_at b (unat idx)"
proof -
  have "(2 :: nat) ^ b \<le> 2 ^ 28" using assms(1) by (intro power_increasing) auto
  then have "unat (idx + 1) = unat idx + 1"
    using assms(3) by (simp add: unat_word_ariths)
  then show ?thesis using word_mask [OF assms(1,2)] by (simp add: succ_at_def)
qed

lemma distance_ring:
  fixes idx :: u32
  assumes "b \<le> 28" "0 < b" "unat idx < 2 ^ b"
  shows "unat (distance (push_bit b 1) b bkt idx) = ring_dist b (unat idx) (bkt_home b bkt)"
proof -
  let ?h = "h2idx (bkt_hash bkt) b"
  have "(idx - ?h) AND (push_bit b 1 - 1) = take_bit b (idx - ?h)"
    by (simp add: take_bit_eq_mask mask_eq_exp_minus_1)
  then have "uint (distance (push_bit b 1) b bkt idx) = take_bit b (uint (idx - ?h))"
    by (simp add: distance_def unsigned_take_bit_eq)
  also have "\<dots> = take_bit b (uint idx - uint ?h)"
    using assms(1) by (simp add: uint_word_arith_bintrs min_def)
  also have "\<dots> = (int (unat idx) - int (unat ?h)) mod 2 ^ b"
    by (simp add: take_bit_eq_mod)
  finally show ?thesis
    by (simp add: ring_dist_def bkt_home_def nat_eq_iff flip: nat_uint_eq)
qed

lemma level_0 [simp]: "level b bkt i = 0 \<longleftrightarrow> bkt_data bkt = None"
  by (simp add: level_def)

lemma level_empty [simp]: "level b empty_bucket i = 0"
  by (simp add: empty_bucket_def)

lemma level_pos: "n < level b bkt i \<Longrightarrow> bkt_data bkt \<noteq> None"
  by (auto simp: level_def split: if_splits)

lemma robin_hoodD:
  "robin_hood b t \<Longrightarrow> i < 2 ^ b \<Longrightarrow> level b (t ! succ_at b i) (succ_at b i) \<le> level b (t ! i) i + 1"
  by (simp add: robin_hood_def)

text \<open>Behind a free slot the levels grow by at most one with every step; so they stay below the
  length of the table.\<close>

lemma level_from_free:
  assumes "robin_hood b t" "free_slot b t e"
  shows "level b (t ! ((e + k) mod 2 ^ b)) ((e + k) mod 2 ^ b) \<le> k"
proof (induction k)
  case 0
  then show ?case using assms(2) by (simp add: free_slot_def)
next
  case (Suc k)
  have "succ_at b ((e + k) mod 2 ^ b) = (e + Suc k) mod 2 ^ b"
    by (simp add: succ_at_def mod_Suc_eq)
  then show ?case using robin_hoodD [OF assms(1), of "(e + k) mod 2 ^ b"] Suc by simp
qed

lemma level_less:
  assumes "robin_hood b t" "free_slot b t e" "i < 2 ^ b"
  shows "level b (t ! i) i < 2 ^ b"
proof -
  have e: "e < 2 ^ b" using assms(2) by (simp add: free_slot_def)
  have "(e + (if e \<le> i then i - e else 2 ^ b + i - e)) mod 2 ^ b = i"
    using assms(3) e by simp
  moreover have "(if e \<le> i then i - e else 2 ^ b + i - e) < 2 ^ b" using assms(3) e by auto
  ultimately show ?thesis using level_from_free [OF assms(1,2)] by (metis le_less_trans)
qed

section \<open>Entries\<close>

lemma entries_simps [simp]: "entries [] = []" "entries (x # t) = entry x @ entries t"
  by (simp_all add: entries_def)

lemma entry_empty [simp]: "entry empty_bucket = []" "bkt_data empty_bucket = None"
  by (simp_all add: entry_def empty_bucket_def)

lemma entry_None: "bkt_data bkt = None \<Longrightarrow> entry bkt = []"
  by (simp add: entry_def)

lemma entries_update:
  "i < length t \<Longrightarrow> mset (entries (t[i := x])) + mset (entry (t ! i)) = mset (entries t) + mset (entry x)"
proof (induction t arbitrary: i)
  case (Cons y t)
  then show ?case by (cases i) (auto simp: ac_simps)
qed simp

lemma entries_replicate [simp]: "entries (replicate n empty_bucket) = []"
  by (induction n) simp_all

lemma in_entries:
  "(k, x) \<in> set (entries t) \<longleftrightarrow> (\<exists>i < length t. bkt_key (t ! i) = k \<and> bkt_data (t ! i) = Some x)"
proof -
  have "(k, x) \<in> set (entries t) \<longleftrightarrow> (\<exists>bkt \<in> set t. bkt_key bkt = k \<and> bkt_data bkt = Some x)"
    by (induction t) (auto simp: entry_def split: option.splits)
  then show ?thesis by (simp add: Bex_def in_set_conv_nth) metis
qed

text \<open>No key occurs twice; the finite map a table stands for.\<close>

definition keys_distinct :: "'a bucket list \<Rightarrow> bool" where
  "keys_distinct t \<longleftrightarrow> distinct (map fst (entries t))"

definition contents :: "'a bucket list \<Rightarrow> u32 \<rightharpoonup> 'a" where
  "contents t = map_of (entries t)"

lemma contents_Some:
  "keys_distinct t \<Longrightarrow> contents t k = Some x \<longleftrightarrow> (k, x) \<in> set (entries t)"
  by (simp add: contents_def keys_distinct_def)

lemma contents_None: "contents t k = None \<longleftrightarrow> (\<forall>x. (k, x) \<notin> set (entries t))"
  by (force simp: contents_def map_of_eq_None_iff)

lemma distinct_position:
  assumes "keys_distinct t" "i < length t" "j < length t"
    and "bkt_data (t ! i) = Some x" "bkt_data (t ! j) = Some y" "bkt_key (t ! i) = bkt_key (t ! j)"
  shows "i = j"
proof (rule ccontr)
  assume "i \<noteq> j"
  let ?t = "t[i := empty_bucket]" and ?k = "bkt_key (t ! i)"
  have "mset (entries ?t) + {#(?k, x)#} = mset (entries t)"
    using entries_update [OF assms(2), of empty_bucket] assms(4) by (simp add: entry_def)
  then have "mset (map fst (entries t)) = mset (?k # map fst (entries ?t))" by (metis
    add_mset_add_single fst_conv image_mset_add_mset mset.simps(2) mset_map)
  then have "distinct (?k # map fst (entries ?t))"
    using assms(1) mset_eq_imp_distinct_iff unfolding keys_distinct_def by blast
  moreover have "(?k, y) \<in> set (entries ?t)"
    using \<open>i \<noteq> j\<close> assms(3,5,6) by (auto simp: in_entries)
  ultimately show False by force
qed

text \<open>A table that gained or lost an entry.\<close>

lemma entries_added:
  assumes "mset (entries t') = add_mset (k, x) (mset (entries t))" "contents t k = None"
    "keys_distinct t"
  shows "keys_distinct t'" "contents t' = (contents t)(k \<mapsto> x)"
    "length (entries t') = Suc (length (entries t))"
proof -
  have m: "mset (entries t') = mset ((k, x) # entries t)" using assms(1) by simp
  have "k \<notin> fst ` set (entries t)"
    using assms(2) by (simp add: contents_def map_of_eq_None_iff)
  then have d: "distinct (map fst ((k, x) # entries t))" using assms(3) by (simp add: keys_distinct_def)
  have "mset (map fst (entries t')) = mset (map fst ((k, x) # entries t))"
    by (metis m mset_map)
  then have d': "distinct (map fst (entries t'))" using d mset_eq_imp_distinct_iff by blast
  then show "keys_distinct t'" by (simp add: keys_distinct_def)
  have "map_of (entries t') = map_of ((k, x) # entries t)"
    using map_of_inject_set [OF d' d] m mset_eq_setD by blast
  then show "contents t' = (contents t)(k \<mapsto> x)" by (simp add: contents_def)
  show "length (entries t') = Suc (length (entries t))"
    using m by (metis length_Cons size_mset)
qed

lemma entries_removed:
  assumes "mset (entries t) = add_mset (k, x) (mset (entries t'))" "keys_distinct t"
  shows "keys_distinct t'" "contents t' = (contents t)(k := None)"
    "length (entries t) = Suc (length (entries t'))"
proof -
  have m: "mset (entries t) = mset ((k, x) # entries t')" using assms(1) by simp
  have d: "distinct (map fst (entries t))" using assms(2) by (simp add: keys_distinct_def)
  have "mset (map fst (entries t)) = mset (map fst ((k, x) # entries t'))"
    by (metis m mset_map)
  then have d': "distinct (map fst ((k, x) # entries t'))" using d mset_eq_imp_distinct_iff by blast
  then show "keys_distinct t'" by (simp add: keys_distinct_def)
  have "map_of (entries t) = map_of ((k, x) # entries t')"
    using map_of_inject_set [OF d d'] m mset_eq_setD by blast
  moreover have "map_of (entries t') k = None" using d' by (simp add: map_of_eq_None_iff)
  ultimately show "contents t' = (contents t)(k := None)" by (auto simp: contents_def)
  show "length (entries t) = Suc (length (entries t'))"
    using m by (metis length_Cons size_mset)
qed

section \<open>Insertion\<close>

lemma succ_at_inj:
  assumes "i < 2 ^ b" "j < 2 ^ b" "succ_at b i = succ_at b j"
  shows "i = j"
proof -
  have "ring_dist b (succ_at b i) (succ_at b j) = 0" using assms(3) by simp
  moreover have "int (ring_dist b (succ_at b i) (succ_at b j)) = (int i - int j) mod 2 ^ b"
    by (simp add: ring_dist_int succ_int mod_diff_left_eq mod_diff_right_eq)
  ultimately have "ring_dist b i j = 0" by (simp add: ring_dist_def)
  then show ?thesis using ring_dist_0 assms(1,2) by blast
qed

lemma succ_at_neq:
  assumes "0 < b" "i < 2 ^ b"
  shows "succ_at b i \<noteq> i"
proof
  assume "succ_at b i = i"
  then have "ring_dist b (succ_at b i) i = 0" by simp
  moreover have "(1 :: nat) < 2 ^ b" using one_less_power [of "2 :: nat" b] assms(1) by simp
  ultimately show False using ring_dist_succ [of b i i] by simp
qed

lemma robin_hood_update:
  assumes "robin_hood b t" "length t = 2 ^ b" "i < 2 ^ b" "0 < b"
    and "\<And>j. j < 2 ^ b \<Longrightarrow> succ_at b j = i \<Longrightarrow> level b x i \<le> level b (t ! j) j + 1"
    and "level b (t ! i) i \<le> level b x i"
  shows "robin_hood b (t[i := x])"
  unfolding robin_hood_def
proof (intro allI impI)
  fix j :: nat assume j: "j < 2 ^ b"
  have rh: "level b (t ! succ_at b j) (succ_at b j) \<le> level b (t ! j) j + 1"
    by (rule robin_hoodD [OF assms(1) j])
  show "level b (t[i := x] ! succ_at b j) (succ_at b j) \<le> level b (t[i := x] ! j) j + 1"
  proof (cases "succ_at b j = i")
    case True
    then have "j \<noteq> i" using succ_at_neq [OF assms(4) j] by auto
    then show ?thesis using True assms(2,3,5) j by simp
  next
    case False
    then show ?thesis using rh assms(2,3,6) by (cases "j = i") auto
  qed
qed

lemma small_word_Suc:
  assumes "unat (d :: u32) < 2 ^ b" "b \<le> 28"
  shows "unat (d + 1) = Suc (unat d)"
proof -
  have "(2 :: nat) ^ b \<le> 2 ^ 28" using assms(2) by (intro power_increasing) auto
  then show ?thesis using assms(1) by (simp add: unat_word_ariths)
qed

text \<open>Where a walk stands: at \<open>idx\<close>, with \<open>d\<close> the distance from the home of \<open>bkt\<close>, every bucket
  behind it at a level of at least \<open>d\<close>, and a free slot ahead.\<close>

definition walking :: "nat \<Rightarrow> 'a bucket list \<Rightarrow> 'a bucket \<Rightarrow> nat \<Rightarrow> nat \<Rightarrow> bool" where
  "walking b t bkt d i \<longleftrightarrow> i < 2 ^ b \<and> d = ring_dist b i (bkt_home b bkt) \<and>
     (\<forall>j < 2 ^ b. succ_at b j = i \<longrightarrow> d \<le> level b (t ! j) j)"

lemma walk_on:
  assumes "walking b t bkt d i" "robin_hood b t" "free_slot b t e" "d < level b (t ! i) i"
  shows "walking b t bkt (Suc d) (succ_at b i)" "Suc d < 2 ^ b"
    "ring_dist b e i = Suc (ring_dist b e (succ_at b i))"
proof -
  have i: "i < 2 ^ b" using assms(1) by (simp add: walking_def)
  show d: "Suc d < 2 ^ b" using level_less [OF assms(2,3) i] assms(4) by simp
  have "ring_dist b (succ_at b i) (bkt_home b bkt) = Suc d"
    using ring_dist_succ [of b i "bkt_home b bkt"] d assms(1) by (simp add: walking_def)
  then show "walking b t bkt (Suc d) (succ_at b i)"
    using assms(4) succ_at_inj [OF _ i] unfolding walking_def
    by (metis Suc_leI succ_at_less)
  have "i \<noteq> e" using assms(3,4) by (auto simp: free_slot_def level_def)
  then have "ring_dist b e i \<noteq> 0" using ring_dist_0 i assms(3) by (auto simp: free_slot_def)
  then show "ring_dist b e i = Suc (ring_dist b e (succ_at b i))"
    by (simp add: ring_dist_back)
qed

lemma walking_start:
  assumes "8 \<le> b" "b \<le> 28"
  shows "walking b t bkt 0 (bkt_home b bkt)"
  using home_less [of b bkt] assms by (simp add: walking_def)

definition insert_result :: "'a bucket list \<Rightarrow> 'a bucket \<Rightarrow> u32 \<Rightarrow> nat \<Rightarrow> 'a bucket list \<Rightarrow> bool" where
  "insert_result t carry tlen b t' \<longleftrightarrow> dims t' tlen b \<and> robin_hood b t' \<and>
     mset (entries t') = mset (entry carry) + mset (entries t) \<and>
     (\<forall>x\<in>set t'. x \<in> insert carry (set t))"

lemma insert_loop_ok:
  "dims t tlen b \<Longrightarrow> robin_hood b t \<Longrightarrow> free_slot b t e \<Longrightarrow> bkt_data carry \<noteq> None \<Longrightarrow>
   distinct (map fst (entry carry @ entries t)) \<Longrightarrow> walking b t carry (unat d) (unat idx) \<Longrightarrow>
   ring_dist b e (unat idx) < fuel \<Longrightarrow>
   \<exists>t'. insert_loop fuel t tlen b carry d idx = Some (t', Inr ()) \<and> insert_result t carry tlen b t'"
proof (induction fuel arbitrary: t carry d idx)
  case 0
  then show ?case by simp
next
  case (Suc fuel)
  let ?i = "unat idx"
  let ?B = "t ! ?i"
  let ?next = "(idx + 1) AND (tlen - 1)"
  have b: "8 \<le> b" "b \<le> 28" "0 < b" and len: "length t = 2 ^ b" and tl: "tlen = push_bit b 1"
    using Suc.prems(1) by (auto simp: dims_def)
  have i: "?i < 2 ^ b" and d: "unat d = ring_dist b ?i (bkt_home b carry)"
    and pred: "\<And>j. j < 2 ^ b \<Longrightarrow> succ_at b j = ?i \<Longrightarrow> unat d \<le> level b (t ! j) j"
    using Suc.prems(6) by (auto simp: walking_def)
  have nxt: "unat ?next = succ_at b ?i" using next_idx [OF b(2,3) i] by (simp add: tl)
  have dist: "unat (distance tlen b ?B idx) = ring_dist b ?i (bkt_home b ?B)"
    using distance_ring [OF b(2,3) i] by (simp add: tl)
  have carry: "level b carry ?i = Suc (unat d)" using Suc.prems(4) d by (simp add: level_def)
  have upd: "robin_hood b (t[?i := carry])" if "level b ?B ?i \<le> unat d"
    by (rule robin_hood_update [OF Suc.prems(2) len i b(3)]) (use pred carry that in fastforce)+
  have ents: "mset (entry ?B) + mset (entries (t[?i := carry])) = mset (entry carry) + mset (entries t)"
    using entries_update [of ?i t carry] i len by (simp add: ac_simps)
  have mem: "set (t[?i := carry]) \<subseteq> insert carry (set t)" by (rule set_update_subset_insert)
  show ?case
  proof (cases "bkt_data ?B = None")
    case True
    then have "insert_result t carry tlen b (t[?i := carry])"
      using upd ents mem Suc.prems(1) by (auto simp: insert_result_def entry_None level_def)
    then show ?thesis using True i len by auto
  next
    case occ: False
    let ?dd = "distance tlen b ?B idx"
    have lev: "level b ?B ?i = Suc (unat ?dd)" using occ dist by (simp add: level_def)
    show ?thesis
    proof (cases "d > ?dd")
      case True
      then have le: "level b ?B ?i \<le> unat d" using lev by (simp add: word_less_nat_alt)
      let ?t = "t[?i := carry]"
      have ei: "e \<noteq> ?i" using Suc.prems(3) occ by (auto simp: free_slot_def)
      then have free: "free_slot b ?t e" using Suc.prems(3) by (simp add: free_slot_def)
      have nd: "unat (?dd + 1) = Suc (unat ?dd)"
        using small_word_Suc [OF _ b(2), of ?dd] dist by simp
      have "walking b ?t ?B (unat ?dd) ?i"
        using pred le lev i len succ_at_neq [OF b(3)] dist
        by (auto simp: walking_def nth_list_update Suc_le_eq intro: less_imp_le order.strict_trans2)
      moreover have "unat ?dd < level b (?t ! ?i) ?i" using carry le lev i len by simp
      ultimately have walk: "walking b ?t ?B (unat (?dd + 1)) (unat ?next)"
        and fuel: "ring_dist b e ?i = Suc (ring_dist b e (unat ?next))"
        using walk_on [of b ?t ?B "unat ?dd" ?i e] upd [OF le] free nd nxt by auto
      have "mset (map fst (entry ?B @ entries ?t)) = mset (map fst (entry carry @ entries t))"
        using ents by (metis image_mset_union mset_append mset_map)
      then have "distinct (map fst (entry ?B @ entries ?t))"
        using Suc.prems(5) mset_eq_imp_distinct_iff by blast
      then obtain t' where t': "insert_loop fuel ?t tlen b ?B (?dd + 1) ?next = Some (t', Inr ())"
          "insert_result ?t ?B tlen b t'"
        using Suc.IH [of ?t ?B "?dd + 1" ?next] Suc.prems(1,7) upd [OF le] free occ walk fuel
        by auto
      have "insert_result t carry tlen b t'"
        using t'(2) ents mem i len nth_mem [of ?i t] by (auto simp: insert_result_def)
      then show ?thesis using t'(1) True occ i len by (auto simp: Let_def)
    next
      case False
      then have lt: "unat d < level b ?B ?i" using lev by (simp add: word_less_nat_alt)
      have key: "bkt_key ?B \<noteq> bkt_key carry"
      proof
        assume eq: "bkt_key ?B = bkt_key carry"
        obtain x where "bkt_data ?B = Some x" using occ by blast
        then have "(bkt_key carry, x) \<in> set (entries t)" using i len eq by (auto simp: in_entries)
        moreover obtain y where "entry carry = [(bkt_key carry, y)]"
          using Suc.prems(4) by (auto simp: entry_def)
        ultimately show False using Suc.prems(5) by force
      qed
      note walk = walk_on [OF Suc.prems(6,2,3) lt]
      have nd: "unat (d + 1) = Suc (unat d)"
        using small_word_Suc [OF _ b(2), of d] walk(2) by simp
      obtain t' where t': "insert_loop fuel t tlen b carry (d + 1) ?next = Some (t', Inr ())"
          "insert_result t carry tlen b t'"
        using Suc.IH [of t carry "d + 1" ?next] Suc.prems walk nd nxt by auto
      then show ?thesis using False key occ i len by (auto simp: Let_def)
    qed
  qed
qed

section \<open>Walking towards an entry\<close>

lemma level_back:
  "robin_hood b t \<Longrightarrow> i < 2 ^ b \<Longrightarrow> j < 2 ^ b \<Longrightarrow>
   level b (t ! j) j \<le> level b (t ! i) i + ring_dist b j i"
proof (induction "ring_dist b j i" arbitrary: i)
  case 0
  then show ?case using ring_dist_0 [of j b i] by simp
next
  case (Suc m)
  then have m: "ring_dist b j (succ_at b i) = m" by (simp add: ring_dist_back flip: Suc(2))
  then have "level b (t ! j) j \<le> level b (t ! succ_at b i) (succ_at b i) + m"
    using Suc(1) [of "succ_at b i"] Suc(3,5) by simp
  also have "\<dots> \<le> level b (t ! i) i + 1 + m" using robin_hoodD [OF Suc(3,4)] by simp
  finally show ?case using Suc(2) by simp
qed

text \<open>At \<open>i\<close> and distance \<open>d\<close>, on the way from the home of the entry in bucket \<open>j\<close> to \<open>j\<close>.\<close>

definition towards :: "nat \<Rightarrow> 'a bucket list \<Rightarrow> nat \<Rightarrow> nat \<Rightarrow> nat \<Rightarrow> bool" where
  "towards b t j d i \<longleftrightarrow> i < 2 ^ b \<and> j < 2 ^ b \<and> bkt_data (t ! j) \<noteq> None \<and>
     d + ring_dist b j i = ring_dist b j (bkt_home b (t ! j))"

lemma towards_level:
  assumes "towards b t j d i" "robin_hood b t"
  shows "d < level b (t ! i) i" "Suc d < 2 ^ b \<or> i = j"
proof -
  have "level b (t ! j) j = Suc (ring_dist b j (bkt_home b (t ! j)))"
    using assms(1) by (simp add: level_def towards_def)
  then show "d < level b (t ! i) i"
    using level_back [OF assms(2), of i j] assms(1) by (simp add: towards_def)
  have "d + ring_dist b j i < 2 ^ b" using assms(1) by (simp add: towards_def)
  moreover have "ring_dist b j i = 0 \<longleftrightarrow> j = i"
    using assms(1) ring_dist_0 by (auto simp: towards_def)
  ultimately show "Suc d < 2 ^ b \<or> i = j" by linarith
qed

lemma towards_on:
  assumes "towards b t j d i" "i \<noteq> j"
  shows "towards b t j (Suc d) (succ_at b i)" "ring_dist b j i = Suc (ring_dist b j (succ_at b i))"
proof -
  have "ring_dist b j i \<noteq> 0" using assms ring_dist_0 by (auto simp: towards_def)
  then show eq: "ring_dist b j i = Suc (ring_dist b j (succ_at b i))" by (simp add: ring_dist_back)
  then show "towards b t j (Suc d) (succ_at b i)" using assms(1) by (simp add: towards_def)
qed

lemma find_loop_hit:
  "dims t tlen b \<Longrightarrow> robin_hood b t \<Longrightarrow> keys_distinct t \<Longrightarrow> towards b t j (unat d) (unat idx) \<Longrightarrow>
   ring_dist b j (unat idx) < fuel \<Longrightarrow>
   \<exists>idx'. find_loop fuel t tlen b (bkt_key (t ! j)) d idx = Some (Inr (Some idx')) \<and> unat idx' = j"
proof (induction fuel arbitrary: d idx)
  case (Suc fuel)
  let ?i = "unat idx"
  have b: "b \<le> 28" "0 < b" and len: "length t = 2 ^ b" and tl: "tlen = push_bit b 1"
    and i: "?i < 2 ^ b" using Suc.prems(1,4) by (auto simp: dims_def towards_def)
  have lev: "unat d < level b (t ! ?i) ?i" by (rule towards_level [OF Suc.prems(4,2)])
  then have occ: "bkt_data (t ! ?i) \<noteq> None" by (rule level_pos)
  then have le: "\<not> distance tlen b (t ! ?i) idx < d"
    using lev distance_ring [OF b i, of "t ! ?i"]
    by (simp add: level_def tl word_less_nat_alt del: not_None_eq)
  show ?case
  proof (cases "?i = j")
    case True
    then show ?thesis using occ le i len by auto
  next
    case False
    then have key: "bkt_key (t ! ?i) \<noteq> bkt_key (t ! j)"
      using distinct_position [OF Suc.prems(3), of ?i j] occ i len Suc.prems(4)
      by (auto simp: towards_def)
    have nd: "unat (d + 1) = Suc (unat d)"
      using small_word_Suc [OF _ b(1), of d] towards_level(2) [OF Suc.prems(4,2)] False by simp
    show ?thesis
      using Suc.IH [of "d + 1" "(idx + 1) AND (tlen - 1)"] Suc.prems towards_on [OF Suc.prems(4) False]
        nd next_idx [OF b i] key occ le i len by (auto simp: tl Let_def)
  qed
qed simp

lemma find_loop_miss:
  "dims t tlen b \<Longrightarrow> free_slot b t e \<Longrightarrow> contents t key = None \<Longrightarrow> unat idx < 2 ^ b \<Longrightarrow>
   ring_dist b e (unat idx) < fuel \<Longrightarrow>
   find_loop fuel t tlen b key d idx = Some (Inr None)"
proof (induction fuel arbitrary: d idx)
  case (Suc fuel)
  let ?i = "unat idx"
  have b: "b \<le> 28" "0 < b" and len: "length t = 2 ^ b" and tl: "tlen = push_bit b 1"
    and i: "?i < 2 ^ b" using Suc.prems(1,4) by (auto simp: dims_def)
  show ?case
  proof (cases "bkt_data (t ! ?i) = None \<or> distance tlen b (t ! ?i) idx < d")
    case True
    then show ?thesis using i len by auto
  next
    case False
    then obtain x where "bkt_data (t ! ?i) = Some x" by auto
    then have "bkt_key (t ! ?i) \<noteq> key"
      using Suc.prems(3) i len contents_None in_entries by metis
    moreover have "?i \<noteq> e" using False Suc.prems(2) by (auto simp: free_slot_def)
    then have "ring_dist b e ?i \<noteq> 0" using ring_dist_0 i Suc.prems(2) by (auto simp: free_slot_def)
    then have "ring_dist b e (succ_at b ?i) < fuel" using Suc.prems(5) by (simp add: ring_dist_back)
    ultimately show ?thesis
      using False Suc.IH [of "(idx + 1) AND (tlen - 1)" "d + 1"] Suc.prems(1,2,3) next_idx [OF b i] i len
      by (auto simp: tl Let_def)
  qed
qed simp

lemma insert_loop_dup:
  "dims t tlen b \<Longrightarrow> robin_hood b t \<Longrightarrow> keys_distinct t \<Longrightarrow> towards b t j (unat d) (unat idx) \<Longrightarrow>
   bkt_key carry = bkt_key (t ! j) \<Longrightarrow> ring_dist b j (unat idx) < fuel \<Longrightarrow>
   insert_loop fuel t tlen b carry d idx = Some (t, Inl (Code NGHTTP2_ERR_INVALID_ARGUMENT))"
proof (induction fuel arbitrary: d idx)
  case (Suc fuel)
  let ?i = "unat idx"
  have b: "b \<le> 28" "0 < b" and len: "length t = 2 ^ b" and tl: "tlen = push_bit b 1"
    and i: "?i < 2 ^ b" using Suc.prems(1,4) by (auto simp: dims_def towards_def)
  have lev: "unat d < level b (t ! ?i) ?i" by (rule towards_level [OF Suc.prems(4,2)])
  then have occ: "bkt_data (t ! ?i) \<noteq> None" by (rule level_pos)
  then have le: "\<not> distance tlen b (t ! ?i) idx < d"
    using lev distance_ring [OF b i, of "t ! ?i"]
    by (simp add: level_def tl word_less_nat_alt del: not_None_eq)
  show ?case
  proof (cases "?i = j")
    case True
    then show ?thesis using occ le i len Suc.prems(5) by (auto simp: Let_def)
  next
    case False
    then have key: "bkt_key (t ! ?i) \<noteq> bkt_key carry"
      using distinct_position [OF Suc.prems(3), of ?i j] occ i len Suc.prems(4,5)
      by (auto simp: towards_def)
    have nd: "unat (d + 1) = Suc (unat d)"
      using small_word_Suc [OF _ b(1), of d] towards_level(2) [OF Suc.prems(4,2)] False by simp
    show ?thesis
      using Suc.IH [of "d + 1" "(idx + 1) AND (tlen - 1)"] Suc.prems towards_on [OF Suc.prems(4) False]
        nd next_idx [OF b i] key occ le i len by (simp add: tl Let_def)
  qed
qed simp

section \<open>Removal\<close>

text \<open>While the entries behind the hole move up, the inequality holds everywhere but at the hole.\<close>

definition hole_at :: "nat \<Rightarrow> 'a bucket list \<Rightarrow> nat \<Rightarrow> bool" where
  "hole_at b t h \<longleftrightarrow> h < 2 ^ b \<and> t ! h = empty_bucket \<and>
     (\<forall>i < 2 ^ b. i \<noteq> h \<longrightarrow> level b (t ! succ_at b i) (succ_at b i) \<le> level b (t ! i) i + 1) \<and>
     (\<forall>i < 2 ^ b. succ_at b i = h \<longrightarrow>
        level b (t ! succ_at b h) (succ_at b h) \<le> level b (t ! i) i + 2)"

lemma hole_closed:
  assumes "hole_at b t h" "level b (t ! succ_at b h) (succ_at b h) \<le> 1"
  shows "robin_hood b t"
  using assms unfolding hole_at_def robin_hood_def by (metis trans_le_add2)

lemma hole_made:
  assumes "robin_hood b t" "h < 2 ^ b" "length t = 2 ^ b" "0 < b"
  shows "hole_at b (t[h := empty_bucket]) h"
proof -
  have n: "succ_at b h \<noteq> h" by (rule succ_at_neq [OF assms(4,2)])
  have "level b (t ! succ_at b h) (succ_at b h) \<le> level b (t ! i) i + 2"
    if "i < 2 ^ b" "succ_at b i = h" for i
    using robin_hoodD [OF assms(1) that(1)] robin_hoodD [OF assms(1,2)] that(2) by simp
  moreover have "i \<noteq> h" if "succ_at b i = h" for i using n that by auto
  ultimately show ?thesis
    using robin_hoodD [OF assms(1)] assms(2,3) n
    by (auto simp: hole_at_def nth_list_update)
qed

lemma hole_moved:
  assumes "hole_at b t h" "length t = 2 ^ b" "2 < b"
    and "1 < level b (t ! succ_at b h) (succ_at b h)"
  shows "hole_at b (t[h := t ! succ_at b h, succ_at b h := empty_bucket]) (succ_at b h)"
proof -
  let ?g = "succ_at b h" and ?t = "t[h := t ! succ_at b h, succ_at b h := empty_bucket]"
  have h: "h < 2 ^ b" using assms(1) by (simp add: hole_at_def)
  have occ: "bkt_data (t ! ?g) \<noteq> None" using assms(4) by (rule level_pos)
  have "ring_dist b ?g (bkt_home b (t ! ?g)) \<noteq> 0" using assms(4) by (auto simp: level_def split: if_splits)
  then have "Suc (ring_dist b h (bkt_home b (t ! ?g))) = ring_dist b ?g (bkt_home b (t ! ?g))"
    using ring_dist_succ [of b h] ring_dist_less [of b h "bkt_home b (t ! ?g)"]
    by (metis Suc_eq_plus1 Suc_lessI mod_less mod_self)
  then have lev: "level b (t ! ?g) ?g = Suc (level b (t ! ?g) h)" using occ by (simp add: level_def)
  have gh: "?g \<noteq> h" using succ_at_neq [OF _ h] assms(3) by simp
  have gg: "succ_at b ?g \<noteq> ?g" using succ_at_neq [of b ?g] assms(3) by simp
  have ggh: "succ_at b ?g \<noteq> h"
  proof
    assume "succ_at b ?g = h"
    then have "ring_dist b (succ_at b ?g) h = 0" by simp
    moreover have "(2 :: nat) ^ 2 < 2 ^ b" using assms(3) by (intro power_strict_increasing) auto
    ultimately show False using assms(3) by (simp add: ring_dist_succ)
  qed
  show ?thesis unfolding hole_at_def
  proof (intro conjI allI impI)
    show "?g < 2 ^ b" by simp
    show "?t ! ?g = empty_bucket" using assms(2) by simp
  next
    fix i :: nat assume i: "i < 2 ^ b" "i \<noteq> ?g"
    consider (h) "i = h" | (before) "i \<noteq> h" "succ_at b i = h" | (other) "i \<noteq> h" "succ_at b i \<noteq> h"
      by blast
    then show "level b (?t ! succ_at b i) (succ_at b i) \<le> level b (?t ! i) i + 1"
    proof cases
      case h
      then show ?thesis using assms(2) by (simp add: level_def)
    next
      case before
      then have "level b (t ! ?g) ?g \<le> level b (t ! i) i + 2"
        using assms(1) i(1) by (auto simp: hole_at_def)
      then show ?thesis using before i gh lev h assms(2) by simp
    next
      case other
      then have "succ_at b i \<noteq> ?g" using succ_at_inj [OF i(1) h] by blast
      then show ?thesis using other i assms(1,2) h by (auto simp: hole_at_def)
    qed
  next
    fix i :: nat assume i: "i < 2 ^ b" "succ_at b i = ?g"
    then have "i = h" using succ_at_inj [OF _ h] by blast
    moreover have "level b (t ! succ_at b ?g) (succ_at b ?g) \<le> level b (t ! ?g) ?g + 1"
      using assms(1) gh by (auto simp: hole_at_def)
    ultimately show "level b (?t ! succ_at b ?g) (succ_at b ?g) \<le> level b (?t ! i) i + 2"
      using gh gg ggh lev h assms(2) by simp
  qed
qed

lemma shift_entries:
  assumes "h < length t" "g < length t" "h \<noteq> g" "t ! h = empty_bucket"
  shows "mset (entries (t[h := t ! g, g := empty_bucket])) = mset (entries t)"
proof -
  have "mset (entries (t[h := t ! g])) = mset (entries t) + mset (entry (t ! g))"
    using entries_update [OF assms(1), of "t ! g"] assms(4) by simp
  moreover have "mset (entries (t[h := t ! g, g := empty_bucket])) + mset (entry (t ! g)) =
      mset (entries (t[h := t ! g]))"
    using entries_update [of g "t[h := t ! g]" empty_bucket] assms by simp
  ultimately show ?thesis by simp
qed

lemma shift_loop_ok:
  "dims t tlen b \<Longrightarrow> hole_at b t (unat didx) \<Longrightarrow> unat idx = succ_at b (unat didx) \<Longrightarrow>
   free_slot b t e \<Longrightarrow> e \<noteq> unat didx \<Longrightarrow> ring_dist b e (unat idx) < fuel \<Longrightarrow>
   \<exists>t'. shift_loop fuel t tlen b didx idx = Some (Inr t') \<and> dims t' tlen b \<and> robin_hood b t' \<and>
        mset (entries t') = mset (entries t) \<and> set t' \<subseteq> insert empty_bucket (set t)"
proof (induction fuel arbitrary: t didx idx)
  case (Suc fuel)
  let ?i = "unat idx" and ?h = "unat didx"
  let ?t = "t[?h := t ! ?i, ?i := empty_bucket]"
  have b: "b \<le> 28" "0 < b" "2 < b" and len: "length t = 2 ^ b" and tl: "tlen = push_bit b 1"
    and i: "?i < 2 ^ b" and h: "?h < 2 ^ b" "t ! ?h = empty_bucket"
    using Suc.prems(1,2,3) by (auto simp: dims_def hole_at_def)
  have dist: "unat (distance tlen b (t ! ?i) idx) = ring_dist b ?i (bkt_home b (t ! ?i))"
    using distance_ring [OF b(1,2) i] by (simp add: tl)
  show ?case
  proof (cases "bkt_data (t ! ?i) = None \<or> distance tlen b (t ! ?i) idx = 0")
    case True
    then have "level b (t ! ?i) ?i \<le> 1" using dist by (auto simp: level_def)
    then have "robin_hood b t" using hole_closed [OF Suc.prems(2)] Suc.prems(3) by simp
    then show ?thesis using True i len Suc.prems(1) by auto
  next
    case False
    then have "distance tlen b (t ! ?i) idx \<noteq> 0" by blast
    then have "unat (distance tlen b (t ! ?i) idx) \<noteq> 0" by (simp add: unat_eq_0)
    then have "1 < level b (t ! ?i) ?i" using False dist by (simp add: level_def)
    then have hole: "hole_at b ?t ?i" using hole_moved [OF Suc.prems(2) len b(3)] Suc.prems(3) by simp
    have ei: "e \<noteq> ?i" using Suc.prems(4) False by (auto simp: free_slot_def)
    then have free: "free_slot b ?t e" using Suc.prems(4,5) len by (simp add: free_slot_def)
    have "ring_dist b e ?i \<noteq> 0" using ring_dist_0 i ei Suc.prems(4) by (auto simp: free_slot_def)
    then have fuel: "ring_dist b e (succ_at b ?i) < fuel" using Suc.prems(6) by (simp add: ring_dist_back)
    have ih: "?h \<noteq> ?i" using succ_at_neq [OF b(2) h(1)] Suc.prems(3) by simp
    obtain t' where t': "shift_loop fuel ?t tlen b idx ((idx + 1) AND (tlen - 1)) = Some (Inr t')"
        "dims t' tlen b" "robin_hood b t'" "mset (entries t') = mset (entries ?t)"
        "set t' \<subseteq> insert empty_bucket (set ?t)"
      using Suc.IH [of ?t idx "(idx + 1) AND (tlen - 1)"] Suc.prems(1) hole next_idx [OF b(1,2) i]
        free ei fuel by (auto simp: tl)
    have "set ?t \<subseteq> insert empty_bucket (set t)"
      using nth_mem [of ?i t] i len by (metis insert_absorb insert_subset set_update_subset_insert subset_trans insert_mono)
    then show ?thesis
      using t' False i len shift_entries [of ?h t ?i] ih h by (auto simp: Let_def)
  qed
qed simp

section \<open>The map\<close>

text \<open>Well-formed maps: at most three quarters of the buckets are in use.\<close>

definition map_ok :: "'a hmap \<Rightarrow> bool" where
  "map_ok m \<longleftrightarrow> dims (table m) (tablelen m) (tablelenbits m) \<and>
     robin_hood (tablelenbits m) (table m) \<and> keys_distinct (table m) \<and>
     (\<forall>bkt\<in>set (table m). bucket_ok bkt) \<and>
     unat (map_size m) = length (entries (table m)) \<and>
     4 * length (entries (table m)) \<le> 3 * length (table m)"

definition hmap_contents :: "'a hmap \<Rightarrow> u32 \<rightharpoonup> 'a" where
  "hmap_contents m = contents (table m)"

lemma entries_full: "\<forall>bkt\<in>set t. bkt_data bkt \<noteq> None \<Longrightarrow> length (entries t) = length t"
  by (induction t) (auto simp: entry_def)

lemma free_slot_ex:
  assumes "length t = 2 ^ b" "length (entries t) < length t"
  shows "\<exists>e. free_slot b t e"
proof -
  have "\<exists>bkt\<in>set t. bkt_data bkt = None" using entries_full [of t] assms(2) by (metis less_irrefl)
  then obtain e where "e < length t" "bkt_data (t ! e) = None" by (metis in_set_conv_nth)
  then show ?thesis using assms(1) by (auto simp: free_slot_def)
qed

lemma free_slots_two:
  fixes t :: "'a bucket list"
  assumes "length t = 2 ^ b" "length (entries t) + 1 < length t" "i < 2 ^ b"
  shows "\<exists>e. free_slot b (t[i := empty_bucket]) e \<and> e \<noteq> i"
proof (rule ccontr)
  assume none: "\<nexists>e. free_slot b (t[i := empty_bucket]) e \<and> e \<noteq> i"
  let ?x = "\<lparr>bkt_hash = 0, bkt_key = 0, bkt_data = Some (undefined :: 'a)\<rparr>"
  have "\<forall>bkt\<in>set (t[i := ?x]). bkt_data bkt \<noteq> None"
  proof
    fix bkt assume "bkt \<in> set (t[i := ?x])"
    then obtain e where "e < 2 ^ b" "bkt = t[i := ?x] ! e" using assms(1) by (metis in_set_conv_nth length_list_update)
    then show "bkt_data bkt \<noteq> None" using none assms(1,3) by (cases "e = i") (auto simp: free_slot_def)
  qed
  then have "length (entries (t[i := ?x])) = length t" using entries_full by fastforce
  moreover have "length (entries (t[i := ?x])) + length (entry (t ! i)) =
      length (entries t) + length (entry ?x)"
    using arg_cong [OF entries_update [of i t ?x], of size] assms(1,3) by simp
  ultimately show False using assms(2) by (simp add: entry_def)
qed

lemma map_insert_bucket_ok:
  assumes t: "dims t tlen b" "robin_hood b t" "keys_distinct t" "\<forall>x\<in>set t. bucket_ok x"
    and free: "length (entries t) < length t" and bkt: "bkt_data bkt = Some x" "bucket_ok bkt"
    and new: "contents t (bkt_key bkt) = None" and fuel: "length t \<le> fuel"
  shows "\<exists>t'. map_insert_bucket fuel t tlen b bkt = Some (t', Inr ()) \<and> dims t' tlen b \<and>
    robin_hood b t' \<and> keys_distinct t' \<and> (\<forall>x\<in>set t'. bucket_ok x) \<and>
    contents t' = (contents t)(bkt_key bkt \<mapsto> x) \<and> length (entries t') = Suc (length (entries t))"
proof -
  have b: "8 \<le> b" "b \<le> 28" "length t = 2 ^ b" using t(1) by (auto simp: dims_def)
  obtain e where e: "free_slot b t e" using free_slot_ex [OF b(3)] free by blast
  have "distinct (map fst (entry bkt @ entries t))"
    using t(3) new bkt(1) by (auto simp: keys_distinct_def entry_def contents_def map_of_eq_None_iff)
  moreover have "ring_dist b e (unat (h2idx (bkt_hash bkt) b)) < fuel"
    using fuel b(3) by (metis less_le_trans ring_dist_less)
  moreover have "walking b t bkt (unat (0 :: u32)) (unat (h2idx (bkt_hash bkt) b))"
    using walking_start [OF b(1,2)] by (simp add: bkt_home_def)
  ultimately obtain t' where t': "insert_loop fuel t tlen b bkt 0 (h2idx (bkt_hash bkt) b) = Some (t', Inr ())"
      "insert_result t bkt tlen b t'"
    using insert_loop_ok [OF t(1,2) e] bkt(1) by blast
  moreover have "mset (entries t') = add_mset (bkt_key bkt, x) (mset (entries t))"
    using t'(2) bkt(1) by (simp add: insert_result_def entry_def)
  moreover note entries_added [OF this new t(3)]
  ultimately show ?thesis
    using t(4) bkt(2) by (auto simp: insert_result_def map_insert_bucket_def)
qed

lemma insert_sized_ok:
  assumes "dims (table m) (tablelen m) (tablelenbits m)" "robin_hood (tablelenbits m) (table m)"
    "keys_distinct (table m)" "\<forall>bkt\<in>set (table m). bucket_ok bkt"
    "unat (map_size m) = length (entries (table m))"
    and room: "4 * Suc (length (entries (table m))) \<le> 3 * length (table m)"
    and new: "hmap_contents m key = None" and fuel: "length (table m) \<le> fuel"
  shows "\<exists>m'. insert_sized fuel m key x = Some (m', Inr ()) \<and> map_ok m' \<and>
    hmap_contents m' = (hmap_contents m)(key \<mapsto> x)"
proof -
  let ?bkt = "\<lparr>bkt_hash = hash key, bkt_key = key, bkt_data = Some x\<rparr>"
  have "length (entries (table m)) < length (table m)" using room by simp
  from map_insert_bucket_ok [OF assms(1-4) this, of ?bkt x fuel] new fuel
  obtain t' where t': "map_insert_bucket fuel (table m) (tablelen m) (tablelenbits m) ?bkt = Some (t', Inr ())"
    "dims t' (tablelen m) (tablelenbits m)" "robin_hood (tablelenbits m) t'" "keys_distinct t'"
    "\<forall>x\<in>set t'. bucket_ok x" "contents t' = (contents (table m))(key \<mapsto> x)"
    "length (entries t') = Suc (length (entries (table m)))"
    by (auto simp: bucket_ok_def hmap_contents_def)
  have len: "length t' = length (table m)" using t'(2) assms(1) by (simp add: dims_def)
  have "length (table m) \<le> 2 ^ 28"
    using assms(1) by (simp only: dims_def) (intro power_increasing, auto)
  then have "unat (map_size m + 1) = Suc (length (entries (table m)))"
    using assms(5) room by (simp add: unat_word_ariths)
  then show ?thesis using t' assms(1) room len
    by (simp add: insert_sized_def map_ok_def hmap_contents_def)
qed

section \<open>Resizing\<close>

lemma rehash_ok:
  "dims t tlen b \<Longrightarrow> robin_hood b t \<Longrightarrow> keys_distinct t \<Longrightarrow> \<forall>x\<in>set t. bucket_ok x \<Longrightarrow>
   \<forall>x\<in>set bkts. bucket_ok x \<Longrightarrow> distinct (map fst (entries bkts @ entries t)) \<Longrightarrow>
   length (entries bkts) + length (entries t) < length t \<Longrightarrow> length t \<le> fuel \<Longrightarrow>
   \<exists>t'. rehash fuel bkts t tlen b = Some (Inr t') \<and> dims t' tlen b \<and> robin_hood b t' \<and>
     keys_distinct t' \<and> (\<forall>x\<in>set t'. bucket_ok x) \<and> contents t' = contents t ++ map_of (entries bkts) \<and>
     length (entries t') = length (entries bkts) + length (entries t)"
proof (induction bkts arbitrary: t)
  case (Cons bkt bkts)
  show ?case
  proof (cases "bkt_data bkt")
    case None
    then show ?thesis using Cons by (simp add: entry_None)
  next
    case (Some x)
    then have entry: "entry bkt = [(bkt_key bkt, x)]" by (simp add: entry_def)
    have new: "contents t (bkt_key bkt) = None"
      using Cons.prems(6) entry by (auto simp: contents_def map_of_eq_None_iff)
    obtain t1 where t1: "map_insert_bucket fuel t tlen b bkt = Some (t1, Inr ())" "dims t1 tlen b"
        "robin_hood b t1" "keys_distinct t1" "\<forall>x\<in>set t1. bucket_ok x"
        "contents t1 = (contents t)(bkt_key bkt \<mapsto> x)" "length (entries t1) = Suc (length (entries t))"
      using map_insert_bucket_ok [OF Cons.prems(1-4) _ Some _ new Cons.prems(8)] Cons.prems(5,7) entry
      by auto
    have len: "length t1 = length t" using t1(2) Cons.prems(1) by (simp add: dims_def)
    have keys: "fst ` set (entries t1) = insert (bkt_key bkt) (fst ` set (entries t))"
      using t1(6) by (metis contents_def dom_fun_upd dom_map_of_conv_image_fst option.simps(3))
    have "distinct (map fst (entries bkts @ entries t1))"
      using Cons.prems(6) t1(4) entry by (auto simp: keys_distinct_def keys)
    then obtain t' where t': "rehash fuel bkts t1 tlen b = Some (Inr t')" "dims t' tlen b"
        "robin_hood b t'" "keys_distinct t'" "\<forall>x\<in>set t'. bucket_ok x"
        "contents t' = contents t1 ++ map_of (entries bkts)"
        "length (entries t') = length (entries bkts) + length (entries t1)"
      using Cons.IH [OF t1(2-5)] Cons.prems(5,7,8) t1(7) entry len by auto
    have "map_of (entries bkts) (bkt_key bkt) = None"
      using Cons.prems(6) entry by (auto simp: map_of_eq_None_iff)
    then have "contents t' = contents t ++ map_of (entries (bkt # bkts))"
      using t'(6) t1(6) entry by (auto simp: map_add_def fun_eq_iff split: option.splits)
    then show ?thesis using t'(1-5,7) t1(1,7) Some entry by (simp del: map_of.simps)
  qed
qed simp

lemma calloc_cases:
  fixes n :: u32
  shows "calloc_table grant n = Inr (replicate (unat n) empty_bucket) \<and> unat n * 12 < 2 ^ 32
    \<or> calloc_table grant n = Inl (Code NGHTTP2_ERR_NOMEM)"
  by (auto simp: calloc_table_def sizeof_bucket_def Let_def)

lemma robin_hood_empty: "robin_hood b (replicate (2 ^ b) empty_bucket)"
  by (simp add: robin_hood_def)

lemma map_resize_ok:
  assumes m: "map_ok m" and fuel: "2 * length (table m) \<le> fuel"
  shows "(\<exists>m'. map_resize fuel grant m (tablelen m * 2) (tablelenbits m + 1) = Some (m', Inr ()) \<and>
            map_ok m' \<and> hmap_contents m' = hmap_contents m \<and> map_size m' = map_size m \<and>
            length (table m') = 2 * length (table m)) \<or>
         map_resize fuel grant m (tablelen m * 2) (tablelenbits m + 1) =
           Some (m, Inl (Code NGHTTP2_ERR_NOMEM))"
proof -
  let ?b = "tablelenbits m"
  have d: "length (table m) = 2 ^ ?b" "tablelen m = push_bit ?b 1" "8 \<le> ?b" "?b \<le> 28"
    using m by (auto simp: map_ok_def dims_def)
  have tl2: "tablelen m * 2 = push_bit (Suc ?b) 1" using d(2) by simp
  have un: "unat (tablelen m * 2) = 2 ^ Suc ?b"
  proof -
    have "(2 :: nat) ^ Suc ?b < 2 ^ 32" using d(4) by (intro power_strict_increasing) auto
    then have "unat (of_nat (2 ^ Suc ?b) :: u32) = 2 ^ Suc ?b"
      by (simp only: unat_of_nat) (simp add: take_bit_nat_eq_self)
    then show ?thesis using tl2 by simp
  qed
  consider (nomem) "calloc_table grant (tablelen m * 2) = (Inl (Code NGHTTP2_ERR_NOMEM) :: 'a bucket list res)"
    | (mem) "calloc_table grant (tablelen m * 2) = Inr (replicate (2 ^ Suc ?b) empty_bucket :: 'a bucket list)"
        "2 ^ Suc ?b * 12 < (2 :: nat) ^ 32"
    using calloc_cases [of grant "tablelen m * 2", where ?'b = 'a] un by auto
  then show ?thesis
  proof cases
    case nomem
    then show ?thesis by (simp add: map_resize_def)
  next
    case mem
    let ?t = "replicate (2 ^ Suc ?b) empty_bucket :: 'a bucket list"
    have "Suc ?b \<le> 28"
    proof (rule ccontr)
      assume "\<not> Suc ?b \<le> 28"
      then have "(2 :: nat) ^ 29 \<le> 2 ^ Suc ?b" by (intro power_increasing) auto
      then show False using mem(2) by simp
    qed
    then have dims: "dims ?t (tablelen m * 2) (Suc ?b)" using d(3) tl2 by (simp add: dims_def)
    have "distinct (map fst (entries (table m) @ entries ?t))"
      using m by (simp add: map_ok_def keys_distinct_def del: replicate.simps power_Suc)
    moreover have "\<forall>x\<in>set ?t. bucket_ok x" by (simp add: bucket_ok_def)
    moreover have "length (entries (table m)) + length (entries ?t) < length ?t"
    proof -
      have "4 * length (entries (table m)) \<le> 3 * 2 ^ ?b" "0 < (2 :: nat) ^ ?b"
        using m d(1) by (simp_all add: map_ok_def)
      then have "length (entries (table m)) < 2 * 2 ^ ?b" by linarith
      then show ?thesis by (simp del: replicate.simps)
    qed
    ultimately obtain t' where t': "rehash fuel (table m) ?t (tablelen m * 2) (Suc ?b) = Some (Inr t')"
        "dims t' (tablelen m * 2) (Suc ?b)" "robin_hood (Suc ?b) t'" "keys_distinct t'"
        "\<forall>x\<in>set t'. bucket_ok x" "contents t' = contents ?t ++ map_of (entries (table m))"
        "length (entries t') = length (entries (table m)) + length (entries ?t)"
      using rehash_ok [OF dims robin_hood_empty, of "table m" fuel] m fuel d(1)
      by (auto simp: map_ok_def keys_distinct_def simp del: replicate.simps)
    have "contents t' = contents (table m)" "length (entries t') = length (entries (table m))"
      using t'(6,7) by (simp_all add: contents_def del: replicate.simps power_Suc)
    moreover have "length t' = 2 * length (table m)" using t'(2) d(1) by (simp add: dims_def)
    ultimately show ?thesis
      using mem(1) t' m by (simp add: map_resize_def map_ok_def hmap_contents_def)
  qed
qed

section \<open>The operations implement a finite map\<close>

lemma position_of:
  assumes "map_ok m" "hmap_contents m key = Some x"
  shows "\<exists>j. towards (tablelenbits m) (table m) j 0 (unat (h2idx (hash key) (tablelenbits m))) \<and>
    bkt_key (table m ! j) = key \<and> bkt_data (table m ! j) = Some x"
proof -
  let ?b = "tablelenbits m"
  have d: "dims (table m) (tablelen m) ?b" "keys_distinct (table m)" "\<forall>x\<in>set (table m). bucket_ok x"
    using assms(1) by (auto simp: map_ok_def)
  have "(key, x) \<in> set (entries (table m))"
    using assms(2) contents_Some [OF d(2)] by (simp add: hmap_contents_def)
  then obtain j where j: "j < length (table m)" "bkt_key (table m ! j) = key" "bkt_data (table m ! j) = Some x"
    by (auto simp: in_entries)
  then have "bkt_hash (table m ! j) = hash key" using d(3) by (force simp: bucket_ok_def)
  then have "bkt_home ?b (table m ! j) = unat (h2idx (hash key) ?b)" by (simp add: bkt_home_def)
  then have "towards ?b (table m) j 0 (unat (h2idx (hash key) ?b))"
    using home_less [of ?b "table m ! j"] j(1,3) d(1) by (auto simp: towards_def dims_def)
  then show ?thesis using j by blast
qed

lemma home_index_less:
  assumes "map_ok m"
  shows "unat (h2idx (hash key) (tablelenbits m)) < 2 ^ tablelenbits m"
  using home_less [of "tablelenbits m" "\<lparr>bkt_hash = hash key, bkt_key = key, bkt_data = None\<rparr>"] assms
  by (simp add: map_ok_def dims_def bkt_home_def)

lemma map_free:
  assumes "map_ok m"
  shows "length (entries (table m)) + 1 < length (table m)"
proof -
  have "4 * length (entries (table m)) \<le> 3 * 2 ^ tablelenbits m" "length (table m) = 2 ^ tablelenbits m"
    and b: "8 \<le> tablelenbits m"
    using assms by (auto simp: map_ok_def dims_def)
  moreover have "(2 :: nat) ^ 8 \<le> 2 ^ tablelenbits m" using b by (intro power_increasing) auto
  ultimately show ?thesis by simp
qed

lemma find_loop_total:
  assumes m: "map_ok m" and fuel: "length (table m) \<le> fuel"
  shows "find_loop fuel (table m) (tablelen m) (tablelenbits m) key 0
           (h2idx (hash key) (tablelenbits m)) = Some (Inr None) \<and> hmap_contents m key = None \<or>
         (\<exists>idx x. find_loop fuel (table m) (tablelen m) (tablelenbits m) key 0
           (h2idx (hash key) (tablelenbits m)) = Some (Inr (Some idx)) \<and> hmap_contents m key = Some x \<and>
           unat idx < length (table m) \<and> bkt_key (table m ! unat idx) = key \<and>
           bkt_data (table m ! unat idx) = Some x)"
proof -
  let ?b = "tablelenbits m" and ?h = "h2idx (hash key) (tablelenbits m)"
  have d: "dims (table m) (tablelen m) ?b" "robin_hood ?b (table m)" "keys_distinct (table m)"
    and len: "length (table m) = 2 ^ ?b"
    using m by (auto simp: map_ok_def dims_def)
  have fuel: "ring_dist ?b i j < fuel" for i j
    using fuel len ring_dist_less less_le_trans by metis
  show ?thesis
  proof (cases "hmap_contents m key")
    case None
    obtain e where "free_slot ?b (table m) e" using free_slot_ex [OF len] map_free [OF m] by auto
    then show ?thesis
      using find_loop_miss [OF d(1) _ _ home_index_less [OF m] fuel] None
      by (auto simp: hmap_contents_def)
  next
    case (Some x)
    then obtain j where j: "towards ?b (table m) j 0 (unat ?h)" "bkt_key (table m ! j) = key"
        "bkt_data (table m ! j) = Some x" using position_of [OF m] by blast
    then show ?thesis
      using find_loop_hit [OF d, of j 0 ?h fuel] fuel Some len by (fastforce simp: towards_def)
  qed
qed

text \<open>C28: Lookup: on a well-formed map, \<open>nghttp2_map_find\<close> returns, within as many steps as the
  table has buckets and without leaving it, the data of the key, or nothing when the key is not
  in the map.\<close>
theorem nghttp2_map_find_correct:
  assumes "map_ok m" "length (table m) \<le> fuel"
  shows "nghttp2_map_find fuel m key = Some (Inr (hmap_contents m key))"
  using find_loop_total [OF assms, of key] by (auto simp: nghttp2_map_find_def)

lemma insert_sized_dup:
  assumes m: "map_ok m" and key: "hmap_contents m key = Some y" and fuel: "length (table m) \<le> fuel"
  shows "insert_sized fuel m key x = Some (m, Inl (Code NGHTTP2_ERR_INVALID_ARGUMENT))"
proof -
  let ?b = "tablelenbits m" and ?h = "h2idx (hash key) (tablelenbits m)"
  have d: "dims (table m) (tablelen m) ?b" "robin_hood ?b (table m)" "keys_distinct (table m)"
    and len: "length (table m) = 2 ^ ?b"
    using m by (auto simp: map_ok_def dims_def)
  obtain j where j: "towards ?b (table m) j 0 (unat ?h)" "bkt_key (table m ! j) = key"
    using position_of [OF m key] by blast
  have "ring_dist ?b j (unat ?h) < fuel" using fuel len ring_dist_less less_le_trans by metis
  then show ?thesis
    using insert_loop_dup [OF d, of j 0 ?h "\<lparr>bkt_hash = hash key, bkt_key = key, bkt_data = Some x\<rparr>" fuel] j
    by (simp add: insert_sized_def map_insert_bucket_def)
qed

lemma insert_sized_total:
  assumes m: "map_ok m" and room: "4 * Suc (length (entries (table m))) \<le> 3 * length (table m)"
    and fuel: "length (table m) \<le> fuel"
  shows "\<exists>m' r. insert_sized fuel m key x = Some (m', r) \<and> map_ok m' \<and>
    (hmap_contents m key = None \<and> r = Inr () \<and> hmap_contents m' = (hmap_contents m)(key \<mapsto> x) \<or>
     hmap_contents m key \<noteq> None \<and> r = Inl (Code NGHTTP2_ERR_INVALID_ARGUMENT) \<and>
       hmap_contents m' = hmap_contents m)"
proof (cases "hmap_contents m key")
  case None
  then show ?thesis
    using insert_sized_ok [of m key fuel x] m room fuel by (auto simp: map_ok_def)
next
  case (Some y)
  then show ?thesis using insert_sized_dup [OF m Some fuel] m by auto
qed

lemma load_test:
  assumes "map_ok m"
  shows "(map_size m + 1) * 4 > tablelen m * 3 \<longleftrightarrow>
    4 * Suc (length (entries (table m))) > 3 * length (table m)"
proof -
  let ?b = "tablelenbits m"
  have d: "length (table m) = 2 ^ ?b" "tablelen m = push_bit ?b 1" "8 \<le> ?b" "?b \<le> 28"
    and s: "unat (map_size m) = length (entries (table m))"
      "4 * length (entries (table m)) \<le> 3 * length (table m)"
    using assms by (auto simp: map_ok_def dims_def)
  have b28: "(2 :: nat) ^ ?b \<le> 2 ^ 28" using d(4) by (intro power_increasing) auto
  have "unat (of_nat (2 ^ ?b) :: u32) = 2 ^ ?b"
    using b28 by (simp only: unat_of_nat) (simp add: take_bit_nat_eq_self)
  then have "unat (tablelen m) = 2 ^ ?b" using d(2) by simp
  then have "unat (tablelen m * 3) = 3 * 2 ^ ?b" using b28 by (simp add: unat_word_ariths)
  moreover have "unat ((map_size m + 1) * 4) = 4 * Suc (length (entries (table m)))"
    using s d(1) b28 by (simp add: unat_word_ariths)
  ultimately show ?thesis using d(1) by (simp add: word_less_nat_alt)
qed

text \<open>C27: Insertion: on a well-formed map, \<open>nghttp2_map_insert\<close> always returns, its internal
  assertion never fails, the result is well formed, and either the key was new and is now mapped
  to the data, or the key was present, the error is NGHTTP2_ERR_INVALID_ARGUMENT and nothing
  changed in the map, or the table had to grow, the memory was not granted and the map is as it
  was. Growing is possible up to a table of \<open>2\<^sup>28\<close> buckets, the last one that \<open>calloc\<close> can grant.\<close>
theorem nghttp2_map_insert_correct:
  assumes m: "map_ok m" and fuel: "2 * length (table m) \<le> fuel"
  shows "\<exists>m' r. nghttp2_map_insert fuel grant m key (Some x) = Some (m', r) \<and> map_ok m' \<and>
    (hmap_contents m key = None \<and> r = Inr () \<and> hmap_contents m' = (hmap_contents m)(key \<mapsto> x) \<or>
     hmap_contents m key \<noteq> None \<and> r = Inl (Code NGHTTP2_ERR_INVALID_ARGUMENT) \<and>
       hmap_contents m' = hmap_contents m \<or>
     3 * length (table m) < 4 * Suc (length (entries (table m))) \<and>
       r = Inl (Code NGHTTP2_ERR_NOMEM) \<and> m' = m)"
proof (cases "(map_size m + 1) * 4 > tablelen m * 3")
  case False
  then show ?thesis
    using insert_sized_total [OF m _, of fuel key x] load_test [OF m] fuel
    by (auto simp: nghttp2_map_insert_def)
next
  case True
  from map_resize_ok [OF m fuel, of grant] show ?thesis
  proof
    assume "\<exists>m'. map_resize fuel grant m (tablelen m * 2) (tablelenbits m + 1) = Some (m', Inr ()) \<and>
            map_ok m' \<and> hmap_contents m' = hmap_contents m \<and> map_size m' = map_size m \<and>
            length (table m') = 2 * length (table m)"
    then obtain m1 where m1: "map_resize fuel grant m (tablelen m * 2) (tablelenbits m + 1) = Some (m1, Inr ())"
        "map_ok m1" "hmap_contents m1 = hmap_contents m" "map_size m1 = map_size m"
        "length (table m1) = 2 * length (table m)" by blast
    have "length (entries (table m1)) = length (entries (table m))"
      using m m1(2,4) by (simp add: map_ok_def)
    then have "4 * Suc (length (entries (table m1))) \<le> 3 * length (table m1)"
      using m1(5) map_free [OF m] m by (auto simp: map_ok_def)
    from insert_sized_total [OF m1(2) this, of fuel key x] show ?thesis
      using True m1 fuel by (auto simp: nghttp2_map_insert_def)
  next
    assume "map_resize fuel grant m (tablelen m * 2) (tablelenbits m + 1) =
      Some (m, Inl (Code NGHTTP2_ERR_NOMEM))"
    then show ?thesis using True m load_test [OF m] by (auto simp: nghttp2_map_insert_def)
  qed
qed

text \<open>C5: Removal: on a well-formed map, \<open>nghttp2_map_remove\<close> always returns, within as many steps
  as the table has buckets; a key that is not present is an error and changes nothing; else the
  entry of the key, and only this, is gone, and the shifted table is well formed.\<close>
theorem nghttp2_map_remove_correct:
  assumes m: "map_ok m" and fuel: "length (table m) \<le> fuel"
  shows "if hmap_contents m key = None
    then nghttp2_map_remove fuel m key = Some (m, Inl (Code NGHTTP2_ERR_INVALID_ARGUMENT))
    else \<exists>m'. nghttp2_map_remove fuel m key = Some (m', Inr ()) \<and> map_ok m' \<and>
           hmap_contents m' = (hmap_contents m)(key := None)"
  using find_loop_total [OF m fuel, of key]
proof (elim disjE exE conjE)
  fix idx x
  assume f: "find_loop fuel (table m) (tablelen m) (tablelenbits m) key 0 (h2idx (hash key)
      (tablelenbits m)) = Some (Inr (Some idx))" and some: "hmap_contents m key = Some x"
    and idx: "unat idx < length (table m)" "bkt_key (table m ! unat idx) = key"
      "bkt_data (table m ! unat idx) = Some x"
  let ?b = "tablelenbits m" and ?t = "(table m)[unat idx := empty_bucket]"
  have d: "dims (table m) (tablelen m) ?b" "robin_hood ?b (table m)" "keys_distinct (table m)"
    and len: "length (table m) = 2 ^ ?b" and b: "?b \<le> 28" "0 < ?b"
    and tl: "tablelen m = push_bit ?b 1" and size: "unat (map_size m) = length (entries (table m))"
    using m by (auto simp: map_ok_def dims_def)
  have hole: "hole_at ?b ?t (unat idx)" using hole_made [OF d(2) _ len b(2)] idx(1) len by simp
  have nxt: "unat ((idx + 1) AND (tablelen m - 1)) = succ_at ?b (unat idx)"
    using next_idx [OF b] idx(1) len tl by simp
  obtain e where e: "free_slot ?b ?t e" "e \<noteq> unat idx"
    using free_slots_two [OF len map_free [OF m]] idx(1) len by auto
  have dims: "dims ?t (tablelen m) ?b" using d(1) by simp
  have fuel': "ring_dist ?b e (unat ((idx + 1) AND (tablelen m - 1))) < fuel"
    using fuel len ring_dist_less [of ?b e] by (metis less_le_trans)
  obtain t' where t': "shift_loop fuel ?t (tablelen m) ?b idx ((idx + 1) AND (tablelen m - 1)) = Some (Inr t')"
      "dims t' (tablelen m) ?b" "robin_hood ?b t'" "mset (entries t') = mset (entries ?t)"
      "set t' \<subseteq> insert empty_bucket (set ?t)"
    using shift_loop_ok [OF dims hole nxt e fuel'] by blast
  have "mset (entries (table m)) = add_mset (key, x) (mset (entries t'))"
    using entries_update [OF idx(1), of empty_bucket] t'(4) idx(2,3) by (simp add: entry_def)
  note removed = entries_removed [OF this d(3)]
  have "unat (map_size m - 1) = length (entries t')"
    using size removed(3) by (simp add: unat_sub_if' del: not_None_eq)
  moreover have "\<forall>x\<in>set t'. bucket_ok x"
    using t'(5) m set_update_subset_insert [of "table m" "unat idx" empty_bucket]
    by (fastforce simp: map_ok_def bucket_ok_def)
  moreover have "length t' = length (table m)" using t'(2) len by (simp add: dims_def)
  ultimately show ?thesis
    using f t' removed m some by (auto simp: nghttp2_map_remove_def map_ok_def hmap_contents_def)
qed (auto simp: nghttp2_map_remove_def)

text \<open>Initialisation and clearing: the map is well formed and empty; initialisation fails
  only for lack of memory.\<close>
theorem nghttp2_map_init_clear:
  "(case nghttp2_map_init grant of
      Inl e \<Rightarrow> e = Code NGHTTP2_ERR_NOMEM \<and> \<not> grant 3072
    | Inr m \<Rightarrow> grant 3072 \<and> map_ok (m :: 'a hmap) \<and> hmap_contents m = Map.empty \<and> nghttp2_map_size m = 0) \<and>
   (map_ok (m' :: 'a hmap) \<longrightarrow>
      map_ok (nghttp2_map_clear m') \<and> hmap_contents (nghttp2_map_clear m') = Map.empty)"
proof (intro conjI impI)
  have "map_ok \<lparr>table = replicate 256 (empty_bucket :: 'a bucket), tablelen = 256, tablelenbits = 8,
      map_size = 0\<rparr>"
    using robin_hood_empty [of 8]
    by (simp add: map_ok_def dims_def keys_distinct_def bucket_ok_def)
  then show "case nghttp2_map_init grant of
      Inl e \<Rightarrow> e = Code NGHTTP2_ERR_NOMEM \<and> \<not> grant 3072
    | Inr m \<Rightarrow> grant 3072 \<and> map_ok (m :: 'a hmap) \<and> hmap_contents m = Map.empty \<and> nghttp2_map_size m = 0"
    by (simp add: nghttp2_map_init_def calloc_table_def sizeof_bucket_def
        NGHTTP2_INITIAL_TABLE_LENBITS_def hmap_contents_def contents_def nghttp2_map_size_def)
next
  assume m: "map_ok m'"
  let ?b = "tablelenbits m'"
  have d: "tablelen m' = push_bit ?b 1" "?b \<le> 28" using m by (auto simp: map_ok_def dims_def)
  have "(2 :: nat) ^ ?b \<le> 2 ^ 28" using d(2) by (intro power_increasing) auto
  then have "unat (of_nat (2 ^ ?b) :: u32) = 2 ^ ?b"
    by (simp only: unat_of_nat) (simp add: take_bit_nat_eq_self)
  then have "unat (tablelen m') = 2 ^ ?b" using d(1) by simp
  then show "map_ok (nghttp2_map_clear m')" "hmap_contents (nghttp2_map_clear m') = Map.empty"
    using m robin_hood_empty [of ?b]
    by (auto simp: map_ok_def dims_def nghttp2_map_clear_def keys_distinct_def hmap_contents_def
        contents_def bucket_ok_def)
qed

text \<open>The iteration visits the data of every entry, each once.\<close>

lemma each_loop_entries:
  "each_loop f t s = each_loop f (map (\<lambda>(k, x). \<lparr>bkt_hash = hash k, bkt_key = k, bkt_data = Some x\<rparr>)
     (entries t)) s"
  by (induction t arbitrary: s) (auto simp: entry_def split: option.splits prod.splits)

definition example_hmap :: "nat hmap" where
  "example_hmap = \<lparr>table = (replicate 256 empty_bucket)
       [158 := \<lparr>bkt_hash = hash 1, bkt_key = 1, bkt_data = Some 7\<rparr>],
     tablelen = 256, tablelenbits = 8, map_size = 1\<rparr>"

lemma example_hmap_ok: "map_ok example_hmap"
proof -
  let ?x = "\<lparr>bkt_hash = hash 1, bkt_key = 1, bkt_data = Some (7 :: nat)\<rparr>"
  let ?t = "(replicate 256 empty_bucket)[158 := ?x]"
  have home: "bkt_home 8 ?x = 158"
    by (simp add: bkt_home_def h2idx_def hash_def)
  then have "level 8 ?x 158 = 1" by (simp add: level_def)
  then have "robin_hood 8 ?t"
    using robin_hood_empty [of 8] by (intro robin_hood_update) simp_all
  moreover have "mset (entries ?t) = {#(1, 7)#}"
    using entries_update [of 158 "replicate 256 empty_bucket" ?x] by (simp add: entry_def)
  then have "entries ?t = [(1, 7)]" by simp
  moreover have "set ?t \<subseteq> {empty_bucket, ?x}"
    using set_update_subset_insert [of "replicate 256 empty_bucket" 158 ?x] by auto
  then have "\<forall>x\<in>set ?t. bucket_ok x" by (auto simp: bucket_ok_def)
  ultimately show ?thesis
    by (simp add: map_ok_def example_hmap_def dims_def keys_distinct_def)
qed

lemma example_hmap_facts:
  "length (table example_hmap) = 256" "length (entries (table example_hmap)) = 1"
  "hmap_contents example_hmap = [1 \<mapsto> 7]"
proof -
  let ?x = "\<lparr>bkt_hash = hash 1, bkt_key = 1, bkt_data = Some (7 :: nat)\<rparr>"
  have "mset (entries ((replicate 256 empty_bucket)[158 := ?x])) = {#(1, 7)#}"
    using entries_update [of 158 "replicate 256 empty_bucket" ?x] by (simp add: entry_def)
  then have "entries (table example_hmap) = [(1, 7)]" by (simp add: example_hmap_def)
  then show "length (entries (table example_hmap)) = 1" "hmap_contents example_hmap = [1 \<mapsto> 7]"
    by (simp_all add: hmap_contents_def contents_def)
  show "length (table example_hmap) = 256" by (simp add: example_hmap_def)
qed

theorem nghttp2_map_find_correct_witness:
  "nghttp2_map_find 256 example_hmap 1 = Some (Inr (Some 7)) \<and>
   nghttp2_map_find 256 example_hmap 3 = Some (Inr None)"
  using nghttp2_map_find_correct [OF example_hmap_ok, of 256] example_hmap_facts by simp

theorem nghttp2_map_insert_correct_witness:
  "(\<exists>m. nghttp2_map_insert 512 (\<lambda>_. True) example_hmap 3 (Some 9) = Some (m, Inr ()) \<and>
     hmap_contents m = [1 \<mapsto> 7, 3 \<mapsto> 9]) \<and>
   (\<exists>m. nghttp2_map_insert 512 (\<lambda>_. True) example_hmap 1 (Some 9) =
     Some (m, Inl (Code NGHTTP2_ERR_INVALID_ARGUMENT)))"
  using nghttp2_map_insert_correct [OF example_hmap_ok, of 512 "\<lambda>_. True" 3 9]
    nghttp2_map_insert_correct [OF example_hmap_ok, of 512 "\<lambda>_. True" 1 9] example_hmap_facts
  by auto

theorem nghttp2_map_remove_correct_witness:
  "(\<exists>m. nghttp2_map_remove 256 example_hmap 1 = Some (m, Inr ()) \<and> hmap_contents m = Map.empty) \<and>
   nghttp2_map_remove 256 example_hmap 3 =
     Some (example_hmap, Inl (Code NGHTTP2_ERR_INVALID_ARGUMENT))"
  using nghttp2_map_remove_correct [OF example_hmap_ok, of 256 1]
    nghttp2_map_remove_correct [OF example_hmap_ok, of 256 3] example_hmap_facts
  by auto

theorem nghttp2_map_init_clear_witness:
  "map_ok (nghttp2_map_clear example_hmap) \<and> nghttp2_map_init (\<lambda>_. False) =
     (Inl (Code NGHTTP2_ERR_NOMEM) :: nat hmap res)"
  using nghttp2_map_init_clear [of "\<lambda>_. False" example_hmap] example_hmap_ok
  by (auto split: sum.splits)

end
