(* ===== verification/HdInt.thy ===== *)
theory HdInt
  imports Errors
begin

text \<open>
  The integers of HPACK (RFC 7541, 5.1) as \<open>nghttp2_hd.c\<close> writes and reads them: in the low
  \<open>prefix\<close> bits of the first byte, or all ones there and the rest in groups of seven bits, least
  significant first. The reader works on 32-bit words, checks every shift and addition, and may
  be given the bytes in pieces.
\<close>

section \<open>Writing\<close>

definition prefix_max :: "nat \<Rightarrow> nat" where
  "prefix_max prefix = push_bit prefix 1 - 1"

text \<open>The loops that shift \<open>n\<close> by seven bits while it is at least 128.\<close>

function count_tail :: "nat \<Rightarrow> nat" where
  "count_tail n = (if n \<ge> 128 then count_tail (drop_bit 7 n) + 1 else 0)"
  by pat_completeness auto
termination by (relation "measure id") (auto simp: drop_bit_eq_div)

definition count_encoded_length :: "nat \<Rightarrow> nat \<Rightarrow> nat" where
  "count_encoded_length n prefix =
     (let k = prefix_max prefix in
      if n < k then 1 else 1 + count_tail (n - k) + 1)"

function length_tail :: "nat \<Rightarrow> bytes" where
  "length_tail n =
     (if n \<ge> 128 then (push_bit 7 1 OR (of_nat n AND 0x7f)) # length_tail (drop_bit 7 n)
      else [of_nat n])"
  by pat_completeness auto
termination by (relation "measure id") (auto simp: drop_bit_eq_div)

declare count_tail.simps [simp del] length_tail.simps [simp del]

text \<open>The bytes written from \<open>buf\<close> on, where \<open>b\<close> is the byte found there.\<close>

definition encode_length :: "u8 \<Rightarrow> nat \<Rightarrow> nat \<Rightarrow> bytes" where
  "encode_length b n prefix =
     (let k = prefix_max prefix; b = b AND NOT (of_nat k) in
      if n < k then [b OR of_nat n]
      else (b OR of_nat k) # length_tail (n - k))"

section \<open>Reading\<close>

text \<open>What \<open>decode_length\<close> reports when it does not fail: the value so far, the next shift, whether
  the integer is complete, and the number of bytes taken.\<close>

record decoded =
  dl_res :: u32
  dl_shift :: nat
  dl_fin :: bool
  dl_taken :: nat

definition UINT32_MAX :: u32 where "UINT32_MAX = - 1"

text \<open>A shift of a 32-bit value by 32 or more is undefined in C.\<close>

definition shift_left :: "u32 \<Rightarrow> nat \<Rightarrow> u32 res" where
  "shift_left x s = (if s < 32 then Inr (push_bit s x) else Inl Undefined)"

definition shift_right :: "u32 \<Rightarrow> nat \<Rightarrow> u32 res" where
  "shift_right x s = (if s < 32 then Inr (drop_bit s x) else Inl Undefined)"

fun decode_loop :: "u32 \<Rightarrow> nat \<Rightarrow> bytes \<Rightarrow> nat \<Rightarrow> decoded option res" where
  "decode_loop n shift [] taken =
     Inr (Some \<lparr>dl_res = n, dl_shift = shift, dl_fin = False, dl_taken = taken\<rparr>)"
| "decode_loop n shift (b # bs) taken =
     (let add = ucast (b AND 0x7f) in
      if shift \<ge> 32 then Inr None
      else rbind (shift_right UINT32_MAX shift) (\<lambda>limit.
        if limit < add then Inr None
        else rbind (shift_left add shift) (\<lambda>add.
          if UINT32_MAX - add < n then Inr None
          else let n = n + add in
            if b AND push_bit 7 1 = 0
            then Inr (Some \<lparr>dl_res = n, dl_shift = shift, dl_fin = True, dl_taken = taken + 1\<rparr>)
            else decode_loop n (shift + 7) bs (taken + 1))))"

declare decode_loop.simps [simp del]

text \<open>\<open>None\<close> is the return value -1. With \<open>initial\<close> = 0 the first byte is read without a test.\<close>

definition decode_length :: "u32 \<Rightarrow> nat \<Rightarrow> bytes \<Rightarrow> nat \<Rightarrow> decoded option res" where
  "decode_length initial shift bs prefix =
     (let k = (of_nat (prefix_max prefix) :: u8) in
      if initial \<noteq> 0 then decode_loop initial shift bs 0
      else case bs of
          [] \<Rightarrow> Inl Undefined
        | b # bs \<Rightarrow>
            if b AND k \<noteq> k
            then Inr (Some \<lparr>dl_res = ucast (b AND k), dl_shift = 0, dl_fin = True, dl_taken = 1\<rparr>)
            else if bs = []
            then Inr (Some \<lparr>dl_res = ucast k, dl_shift = 0, dl_fin = False, dl_taken = 1\<rparr>)
            else decode_loop (ucast k) shift bs 1)"

section \<open>The loop without the checks of its shifts\<close>

fun plain_loop :: "u32 \<Rightarrow> nat \<Rightarrow> bytes \<Rightarrow> nat \<Rightarrow> decoded option" where
  "plain_loop n shift [] taken =
     Some \<lparr>dl_res = n, dl_shift = shift, dl_fin = False, dl_taken = taken\<rparr>"
| "plain_loop n shift (b # bs) taken =
     (let add = ucast (b AND 0x7f) in
      if shift \<ge> 32 then None
      else if drop_bit shift UINT32_MAX < add then None
      else let add = push_bit shift add in
        if UINT32_MAX - add < n then None
        else let n = n + add in
          if b AND push_bit 7 1 = 0
          then Some \<lparr>dl_res = n, dl_shift = shift, dl_fin = True, dl_taken = taken + 1\<rparr>
          else plain_loop n (shift + 7) bs (taken + 1))"

lemma decode_plain_loop [simp]: "decode_loop n shift bs taken = Inr (plain_loop n shift bs taken)"
  by (induction n shift bs taken rule: plain_loop.induct)
    (simp_all add: decode_loop.simps shift_left_def shift_right_def Let_def)

section \<open>The value of a group of seven-bit digits\<close>

fun digits_value :: "bytes \<Rightarrow> nat" where
  "digits_value [] = 0"
| "digits_value (b # bs) = unat b mod 128 + 128 * digits_value bs"

lemma drop_bit_7: "drop_bit 7 (n :: nat) = n div 128"
  by (simp add: drop_bit_eq_div)

lemma low_7: "(of_nat n AND 0x7f :: u8) = of_nat (n mod 128)"
proof -
  have m: "(0x7f :: u8) = mask 7" by (simp add: mask_eq_exp_minus_1)
  show ?thesis
    unfolding m take_bit_eq_mask [symmetric]
    by (simp only: take_bit_of_nat) (simp add: take_bit_eq_mod)
qed

lemma unat_small_u8: "k < 256 \<Longrightarrow> unat (of_nat k :: u8) = k"
  by (simp add: unat_of_nat take_bit_nat_eq_self)

lemma set_high_bit:
  assumes "k < 128"
  shows "(push_bit 7 1 OR of_nat k :: u8) = of_nat (128 + k)"
proof -
  have "\<not> bit k i" if "7 \<le> i" for i
  proof -
    have "(2 :: nat) ^ 7 \<le> 2 ^ i" using that by (intro power_increasing) auto
    then show ?thesis using assms by (simp add: bit_iff_odd)
  qed
  then have "(push_bit 7 1 OR of_nat k :: u8) = push_bit 7 1 + of_nat k"
    by (intro disjunctive_add [symmetric]) (auto simp: bit_simps simp del: push_bit_of_1)
  then show ?thesis by simp
qed

lemma length_tail_cases:
  "length_tail n = (if n \<ge> 128 then of_nat (128 + n mod 128) # length_tail (n div 128) else [of_nat n])"
proof -
  have "(push_bit 7 1 OR (of_nat n AND 0x7f) :: u8) = of_nat (128 + n mod 128)"
    unfolding low_7 by (rule set_high_bit) simp
  then show ?thesis by (subst length_tail.simps) (simp add: drop_bit_7)
qed

lemma length_tail_count: "length (length_tail n) = count_tail n + 1"
proof (induction n rule: count_tail.induct)
  case (1 n)
  then show ?case
    by (subst length_tail.simps, subst count_tail.simps) simp
qed

lemma length_tail_short: "n < 128 ^ Suc k \<Longrightarrow> length (length_tail n) \<le> Suc k"
proof (induction k arbitrary: n)
  case 0
  then show ?case by (subst length_tail.simps) simp
next
  case (Suc k)
  have "n div 128 < 128 ^ Suc k" using Suc.prems by (simp add: less_mult_imp_div_less ac_simps)
  then show ?case using Suc.IH [of "n div 128"] by (subst length_tail_cases) simp
qed

section \<open>Reading in pieces\<close>

lemma plain_loop_taken:
  "plain_loop n shift bs (t + k) = map_option (\<lambda>r. r\<lparr>dl_taken := dl_taken r + k\<rparr>) (plain_loop n shift bs t)"
proof (induction bs arbitrary: n shift t)
  case (Cons b bs)
  show ?case using Cons [of _ _ "t + 1"] by (simp add: Let_def)
qed simp

lemma plain_loop_append:
  "plain_loop n shift (xs @ ys) t =
     (case plain_loop n shift xs t of
        None \<Rightarrow> None
      | Some r \<Rightarrow> if dl_fin r then Some r else plain_loop (dl_res r) (dl_shift r) ys (dl_taken r))"
  by (induction xs arbitrary: n shift t) (simp_all add: Let_def)

lemma max_minus: "unat (UINT32_MAX - y) = 2 ^ 32 - 1 - unat y"
proof -
  have "unat (UINT32_MAX - y) = unat UINT32_MAX - unat y"
    by (rule unat_sub) (simp add: UINT32_MAX_def)
  then show ?thesis by (simp add: UINT32_MAX_def unsigned_minus_1_eq_mask mask_eq_exp_minus_1)
qed

lemma no_carry:
  fixes n y :: u32
  assumes "\<not> UINT32_MAX - y < n"
  shows "unat (n + y) = unat n + unat y"
proof -
  have "unat y < 2 ^ 32" using unsigned_less [of y] by simp
  then show ?thesis
    using assms max_minus [of y] by (simp add: word_less_nat_alt unat_word_ariths)
qed

lemma plain_loop_bounds:
  "plain_loop n shift bs t = Some r \<Longrightarrow>
   t \<le> dl_taken r \<and> dl_taken r \<le> t + length bs \<and> (\<not> dl_fin r \<longrightarrow> dl_taken r = t + length bs) \<and> n \<le> dl_res r"
proof (induction bs arbitrary: n shift t)
  case (Cons b bs)
  let ?add = "push_bit shift (ucast (b AND 0x7f)) :: u32"
  have ok: "\<not> UINT32_MAX - ?add < n" using Cons.prems by (auto simp: Let_def split: if_splits)
  then have le: "n \<le> n + ?add"
    by (simp add: word_le_nat_alt no_carry)
  show ?case
  proof (cases "b AND push_bit 7 1 = 0")
    case True
    then show ?thesis using Cons.prems le by (auto simp: Let_def split: if_splits)
  next
    case False
    then have "plain_loop (n + ?add) (shift + 7) bs (t + 1) = Some r"
      using Cons.prems by (auto simp: Let_def split: if_splits)
    from Cons.IH [OF this] le show ?thesis by auto
  qed
qed auto

section \<open>The round trip\<close>

lemma digit: "unat (ucast (b AND 0x7f :: u8) :: u32) = unat b mod 128"
proof -
  have "(0x7f :: u8) = mask 7" by (simp add: mask_eq_exp_minus_1)
  then have "unat (b AND 0x7f) = unat b mod 128"
    by (simp only: take_bit_eq_mask [symmetric] unsigned_take_bit_eq) (simp add: take_bit_eq_mod)
  moreover have "unat b mod 128 < 128" by simp
  ultimately show ?thesis by (simp add: unsigned_ucast_eq take_bit_nat_eq_self)
qed

lemma high_bit: "b AND push_bit 7 1 = (0 :: u8) \<longleftrightarrow> unat b < 128"
proof -
  have "b AND push_bit 7 1 = 0 \<longleftrightarrow> \<not> bit b 7"
    using and_exp_eq_0_iff_not_bit [of b 7] by simp
  also have "bit b 7 \<longleftrightarrow> odd (unat b div 128)"
    using bit_unsigned_iff [of b 7, where ?'a = nat] by (simp add: bit_iff_odd)
  also have "\<not> odd (unat b div 128) \<longleftrightarrow> unat b < 128"
  proof -
    have "unat b div 128 < 2" using u8_less [of b] by (intro less_mult_imp_div_less) simp
    then consider "unat b div 128 = 0" | "unat b div 128 = 1" by linarith
    then show ?thesis by cases (simp_all add: div_eq_0_iff)
  qed
  finally show ?thesis .
qed

lemma unat_max_shift: "unat (drop_bit s UINT32_MAX) = (2 ^ 32 - 1) div 2 ^ s"
  unfolding UINT32_MAX_def unsigned_drop_bit_eq
  by (simp add: unsigned_minus_1_eq_mask mask_eq_exp_minus_1 drop_bit_eq_div)

lemma unat_shifted:
  assumes "unat (x :: u32) * 2 ^ s < 2 ^ 32" "s < 32"
  shows "unat (push_bit s x) = unat x * 2 ^ s"
  using assms unfolding unsigned_push_bit_eq by (simp add: push_bit_eq_mult take_bit_eq_mod)

lemma decode_step:
  assumes "s < 32" "unat n + (unat b mod 128) * 2 ^ s < 2 ^ 32"
  shows "plain_loop n s (b # bs) t =
     (if unat b < 128
      then Some \<lparr>dl_res = n + push_bit s (ucast (b AND 0x7f)), dl_shift = s, dl_fin = True, dl_taken = t + 1\<rparr>
      else plain_loop (n + push_bit s (ucast (b AND 0x7f))) (s + 7) bs (t + 1))"
    and "unat (n + push_bit s (ucast (b AND 0x7f))) = unat n + (unat b mod 128) * 2 ^ s"
proof -
  let ?add = "ucast (b AND 0x7f) :: u32"
  have p: "unat (push_bit s ?add) = (unat b mod 128) * 2 ^ s"
    using unat_shifted [of ?add s] assms by (simp add: digit)
  have "unat b mod 128 \<le> (2 ^ 32 - 1) div 2 ^ s"
    using assms(2) by (simp add: less_eq_div_iff_mult_less_eq)
  then have "\<not> drop_bit s UINT32_MAX < ?add"
    by (simp add: word_less_nat_alt unat_max_shift digit)
  moreover have c: "\<not> UINT32_MAX - push_bit s ?add < n"
    using assms(2) p by (simp add: word_less_nat_alt max_minus)
  ultimately show "plain_loop n s (b # bs) t =
     (if unat b < 128
      then Some \<lparr>dl_res = n + push_bit s ?add, dl_shift = s, dl_fin = True, dl_taken = t + 1\<rparr>
      else plain_loop (n + push_bit s ?add) (s + 7) bs (t + 1))"
    using assms(1) high_bit [of b] by (simp add: Let_def)
  show "unat (n + push_bit s ?add) = unat n + (unat b mod 128) * 2 ^ s"
    using no_carry [OF c] p by simp
qed

lemma decode_length_tail:
  "s < 32 \<Longrightarrow> unat n + v * 2 ^ s < 2 ^ 32 \<Longrightarrow>
   \<exists>r. plain_loop n s (length_tail v @ rest) t = Some r \<and> dl_fin r \<and>
       unat (dl_res r) = unat n + v * 2 ^ s \<and> dl_taken r = t + length (length_tail v)"
proof (induction v arbitrary: n s t rule: less_induct)
  case (less v)
  show ?case
  proof (cases "v \<ge> 128")
    case False
    then have tail: "length_tail v = [of_nat v]" by (simp add: length_tail_cases)
    have v: "unat (of_nat v :: u8) = v" using False by (intro unat_small_u8) simp
    have "unat n + (unat (of_nat v :: u8) mod 128) * 2 ^ s < 2 ^ 32"
      using less.prems(2) v False by simp
    note step = decode_step [OF less.prems(1) this]
    show ?thesis using step v False unfolding tail by simp
  next
    case True
    let ?b = "of_nat (128 + v mod 128) :: u8" and ?w = "v div 128"
    have tail: "length_tail v = ?b # length_tail ?w" using True by (subst length_tail_cases) simp
    have b: "unat ?b = 128 + v mod 128" by (rule unat_small_u8) simp
    have "unat n + (v mod 128) * 2 ^ s \<le> unat n + v * 2 ^ s" by simp
    then have "unat n + (v mod 128) * 2 ^ s < 2 ^ 32" using less.prems(2) by (rule le_less_trans)
    then have "unat n + (unat ?b mod 128) * 2 ^ s < 2 ^ 32" unfolding b by simp
    note step = decode_step [OF less.prems(1) this]
    let ?n = "n + push_bit s (ucast (?b AND 0x7f))"
    have n: "unat ?n = unat n + (v mod 128) * 2 ^ s" using step(2) b by simp
    have eq: "unat ?n + ?w * 2 ^ (s + 7) = unat n + v * 2 ^ s"
    proof -
      have "v mod 128 * x + v div 128 * (x * 128) = v * x" for x :: nat
        by (metis (no_types) add.commute div_mult_mod_eq distrib_right mult.assoc mult.commute)
      then show ?thesis unfolding n by (simp add: power_add)
    qed
    have "1 * 2 ^ (s + 7) \<le> ?w * 2 ^ (s + 7)" using True by (intro mult_right_mono) auto
    then have "(2 :: nat) ^ (s + 7) < 2 ^ 32" using eq less.prems(2) by linarith
    then have s: "s + 7 < 32" by (rule power_less_imp_less_exp [rotated]) simp
    have "?w < v" using True by simp
    from less.IH [OF this s, of ?n "t + 1"] eq less.prems(2)
    obtain r where "plain_loop ?n (s + 7) (length_tail ?w @ rest) (t + 1) = Some r" "dl_fin r"
        "unat (dl_res r) = unat n + v * 2 ^ s" "dl_taken r = t + 1 + length (length_tail ?w)"
      by auto
    then show ?thesis using step(1) b tail by simp
  qed
qed

lemma prefix_max_eq: "prefix_max p = 2 ^ p - 1"
  by (simp add: prefix_max_def push_bit_eq_mult)

lemma prefix_mask: "(of_nat (prefix_max p) :: u8) = mask p"
  by (simp add: prefix_max_eq mask_eq_exp_minus_1 of_nat_diff)

lemma unat_prefix_mask: "p \<le> 7 \<Longrightarrow> unat (mask p :: u8) = 2 ^ p - 1"
proof -
  assume p: "p \<le> 7"
  have "(2 :: nat) ^ p \<le> 2 ^ 7" using p by (intro power_increasing) auto
  then have "prefix_max p < 256" by (simp add: prefix_max_eq)
  then show "unat (mask p :: u8) = 2 ^ p - 1"
    using unat_small_u8 [of "prefix_max p"] unfolding prefix_mask by (simp add: prefix_max_eq)
qed

lemma low_bits:
  assumes "n < 2 ^ p" "p \<le> 7"
  shows "((b AND NOT (mask p)) OR of_nat n) AND mask p = (of_nat n :: u8)"
proof -
  have "(of_nat n :: u8) AND mask p = of_nat n"
    using assms by (simp flip: take_bit_eq_mask add: take_bit_of_nat take_bit_nat_eq_self)
  moreover have "((b AND NOT (mask p)) OR of_nat n) AND mask p = (of_nat n :: u8) AND mask p"
    by (auto simp: bit_eq_iff bit_simps)
  ultimately show ?thesis by simp
qed

lemma encode_length_short:
  "n < 2 ^ p - 1 \<Longrightarrow> encode_length b n p = [(b AND NOT (mask p)) OR of_nat n]"
  unfolding encode_length_def prefix_mask Let_def by (simp add: prefix_max_eq)

lemma encode_length_long:
  "\<not> n < 2 ^ p - 1 \<Longrightarrow>
   encode_length b n p = ((b AND NOT (mask p)) OR mask p) # length_tail (n - (2 ^ p - 1))"
  unfolding encode_length_def prefix_mask Let_def by (simp add: prefix_max_eq)

lemma length_tail_nonempty [simp]: "length_tail n \<noteq> []"
  by (subst length_tail.simps) simp

lemma ucast_mask: "p \<le> 7 \<Longrightarrow> unat (ucast (mask p :: u8) :: u32) = 2 ^ p - 1"
  using unat_prefix_mask [of p] u8_less [of "mask p"]
  by (simp add: unsigned_ucast_eq take_bit_nat_eq_self)

lemma decode_first_ones:
  assumes "b AND mask p = mask p" "bs \<noteq> []"
  shows "decode_length 0 s (b # bs) p = Inr (plain_loop (ucast (mask p :: u8)) s bs 1)"
  using assms unfolding decode_length_def prefix_mask by simp

lemma decode_resume:
  assumes "n \<noteq> 0"
  shows "decode_length n s bs p = Inr (plain_loop n s bs 0)"
  using assms by (simp add: decode_length_def)

text \<open>The state between two pieces: a loop that would take more bytes than the first piece has
  stops at its end and goes on from there.\<close>

lemma decode_loop_split:
  assumes "plain_loop n s (xs @ ys) t = Some r" "t + length xs < dl_taken r"
  shows "\<exists>r1 r2. plain_loop n s xs t = Some r1 \<and> \<not> dl_fin r1 \<and> dl_taken r1 = t + length xs \<and>
    n \<le> dl_res r1 \<and> plain_loop (dl_res r1) (dl_shift r1) ys 0 = Some r2 \<and>
    r = r2\<lparr>dl_taken := dl_taken r2 + (t + length xs)\<rparr>"
proof -
  obtain r1 where r1: "plain_loop n s xs t = Some r1"
    using assms(1) by (auto simp: plain_loop_append split: option.splits)
  note b = plain_loop_bounds [OF r1]
  have nf: "\<not> dl_fin r1" using assms b r1 by (auto simp: plain_loop_append)
  then have "plain_loop (dl_res r1) (dl_shift r1) ys (0 + dl_taken r1) = Some r"
    using assms(1) r1 by (simp add: plain_loop_append)
  then show ?thesis
    using r1 nf b unfolding plain_loop_taken by auto
qed

lemma encode_decode_short:
  assumes p: "1 \<le> p" "p \<le> 7" and n: "n < 2 ^ p - 1"
  shows "decode_length 0 0 (encode_length b n p @ rest) p =
      Inr (Some \<lparr>dl_res = of_nat n, dl_shift = 0, dl_fin = True, dl_taken = 1\<rparr>)"
proof -
  let ?b = "(b AND NOT (mask p)) OR of_nat n :: u8"
  have "(2 :: nat) ^ p \<le> 2 ^ 7" using p by (intro power_increasing) auto
  then have un: "unat (of_nat n :: u8) = n" "n < 256" using n by (auto intro!: unat_small_u8)
  have low: "?b AND mask p = of_nat n" using low_bits [of n p b] n p by simp
  moreover have "(of_nat n :: u8) \<noteq> mask p"
    using un unat_prefix_mask [OF p(2)] n by (metis less_irrefl)
  moreover have "(ucast (of_nat n :: u8) :: u32) = of_nat n"
    using un by (simp add: word_unat_eq_iff unsigned_ucast_eq unat_of_nat take_bit_nat_eq_self)
  ultimately show ?thesis
    unfolding encode_length_short [OF n] decode_length_def prefix_mask by simp
qed

lemma tail_decode:
  assumes p: "1 \<le> p" "p \<le> 7" and n: "n < 2 ^ 32" "\<not> n < 2 ^ p - 1"
  shows "\<exists>r. plain_loop (ucast (mask p :: u8)) 0 (length_tail (n - (2 ^ p - 1)) @ rest) t = Some r \<and>
    dl_fin r \<and> unat (dl_res r) = n \<and> dl_taken r = t + length (length_tail (n - (2 ^ p - 1)))"
proof -
  have m: "unat (ucast (mask p :: u8) :: u32) = 2 ^ p - 1" by (rule ucast_mask [OF p(2)])
  then have "unat (ucast (mask p :: u8) :: u32) + (n - (2 ^ p - 1)) * 2 ^ 0 < 2 ^ 32" using n by simp
  from decode_length_tail [OF _ this, of rest t] show ?thesis using m n(2) by auto
qed

lemma encode_decode:
  assumes p: "1 \<le> p" "p \<le> 7" and n: "n < 2 ^ 32"
  shows "\<exists>r. decode_length 0 0 (encode_length b n p @ rest) p = Inr (Some r) \<and> dl_fin r \<and>
         unat (dl_res r) = n \<and> dl_taken r = length (encode_length b n p)"
proof (cases "n < 2 ^ p - 1")
  case True
  have "unat (of_nat n :: u32) = n" using n by (simp add: unat_of_nat take_bit_nat_eq_self)
  then show ?thesis using encode_decode_short [OF p True, of b rest] by (simp add: encode_length_short [OF True])
next
  case False
  have ones: "((b AND NOT (mask p)) OR mask p) AND mask p = (mask p :: u8)"
    by (auto simp: bit_eq_iff bit_simps)
  show ?thesis
    using tail_decode [OF p n False, of rest 1]
      decode_first_ones [OF ones, of "length_tail (n - (2 ^ p - 1)) @ rest" 0]
    by (auto simp: encode_length_long [OF False])
qed

lemma encode_count:
  assumes p: "1 \<le> p" "p \<le> 7" and n: "n < 2 ^ 32"
  shows "length (encode_length b n p) = count_encoded_length n p \<and> count_encoded_length n p \<le> 6"
proof (cases "n < 2 ^ p - 1")
  case True
  then show ?thesis by (simp add: encode_length_short count_encoded_length_def prefix_max_eq)
next
  case False
  have "length (length_tail (n - (2 ^ p - 1))) \<le> 5"
    using length_tail_short [of "n - (2 ^ p - 1)" 4] n by simp
  then show ?thesis
    using False by (simp add: encode_length_long count_encoded_length_def prefix_max_eq length_tail_count)
qed

lemma encode_decode_split:
  assumes p: "1 \<le> p" "p \<le> 7" and n: "n < 2 ^ 32"
    and split: "encode_length b n p = xs @ ys" "xs \<noteq> []" "ys \<noteq> []"
  shows "\<exists>r r'. decode_length 0 0 xs p = Inr (Some r) \<and> \<not> dl_fin r \<and> dl_taken r = length xs \<and>
          decode_length (dl_res r) (dl_shift r) (ys @ rest) p = Inr (Some r') \<and> dl_fin r' \<and>
          unat (dl_res r') = n \<and> dl_taken r' = length ys"
proof -
  let ?b = "(b AND NOT (mask p)) OR mask p :: u8" and ?m = "ucast (mask p :: u8) :: u32"
  let ?tail = "length_tail (n - (2 ^ p - 1))"
  have False: "\<not> n < 2 ^ p - 1"
    using split by (auto simp: encode_length_short Cons_eq_append_conv)
  have ones: "?b AND mask p = mask p" by (auto simp: bit_eq_iff bit_simps)
  have "(2 :: nat) ^ 1 \<le> 2 ^ p" using p(1) by (intro power_increasing) auto
  then have m0: "?m \<noteq> 0" using ucast_mask [OF p(2)] by (auto simp: word_unat_eq_iff)
  note loop = tail_decode [OF p n False, of rest]
  obtain zs where zs: "xs = ?b # zs" "?tail = zs @ ys"
    using split by (cases xs) (auto simp: encode_length_long [OF False])
  show ?thesis
  proof (cases "zs = []")
    case True
    then have "decode_length 0 0 xs p =
        Inr (Some \<lparr>dl_res = ?m, dl_shift = 0, dl_fin = False, dl_taken = 1\<rparr>)"
      using zs ones unfolding decode_length_def prefix_mask by simp
    moreover have "decode_length ?m 0 (ys @ rest) p = Inr (plain_loop ?m 0 (?tail @ rest) 0)"
      using decode_resume [OF m0] zs(2) True by simp
    ultimately show ?thesis using loop [of 0] zs True by auto
  next
    case ne: False
    obtain r where r: "plain_loop ?m 0 (zs @ ys @ rest) 1 = Some r" "dl_fin r"
        "unat (dl_res r) = n" "dl_taken r = 1 + length ?tail"
      using loop [of 1] zs(2) by auto
    have "1 + length zs < dl_taken r" using r(4) zs(2) split(3) by simp
    from decode_loop_split [OF r(1) this] obtain r1 r2 where r12:
      "plain_loop ?m 0 zs 1 = Some r1" "\<not> dl_fin r1" "dl_taken r1 = 1 + length zs" "?m \<le> dl_res r1"
      "plain_loop (dl_res r1) (dl_shift r1) (ys @ rest) 0 = Some r2"
      "r = r2\<lparr>dl_taken := dl_taken r2 + (1 + length zs)\<rparr>" by blast
    have "dl_res r1 \<noteq> 0" using r12(4) m0 by auto
    then show ?thesis
      using r12 r zs decode_first_ones [OF ones ne] decode_resume [of "dl_res r1"] by auto
  qed
qed

text \<open>C23: HPACK integers make the round trip: encoding a number below \<open>2\<^sup>32\<close> with any prefix of 1 to
  7 bits writes the number of bytes announced, at most six; decoding gives the number and takes
  exactly these bytes, and it does so as well when the bytes arrive in two pieces, cut anywhere,
  with the state of the first call handed to the second.\<close>
theorem hpack_integer_roundtrip:
  assumes p: "1 \<le> p" "p \<le> 7" and n: "n < 2 ^ 32"
  shows "length (encode_length b n p) = count_encoded_length n p \<and> count_encoded_length n p \<le> 6 \<and>
    (\<exists>r. decode_length 0 0 (encode_length b n p @ rest) p = Inr (Some r) \<and> dl_fin r \<and>
         unat (dl_res r) = n \<and> dl_taken r = length (encode_length b n p)) \<and>
    (\<forall>xs ys. encode_length b n p = xs @ ys \<longrightarrow> xs \<noteq> [] \<longrightarrow> ys \<noteq> [] \<longrightarrow>
       (\<exists>r r'. decode_length 0 0 xs p = Inr (Some r) \<and> \<not> dl_fin r \<and> dl_taken r = length xs \<and>
          decode_length (dl_res r) (dl_shift r) (ys @ rest) p = Inr (Some r') \<and> dl_fin r' \<and>
          unat (dl_res r') = n \<and> dl_taken r' = length ys))"
  using encode_count [OF p n, of b] encode_decode [OF p n, of b rest] encode_decode_split [OF p n, of b] by blast

theorem hpack_integer_roundtrip_witness:
  "\<exists>r. decode_length 0 0 (encode_length 0xE0 1337 5 @ [7]) 5 = Inr (Some r) \<and> dl_fin r \<and>
     unat (dl_res r) = 1337 \<and> dl_taken r = count_encoded_length 1337 5"
  using hpack_integer_roundtrip [of 5 1337 "0xE0" "[7]"] by auto

section \<open>The value of any bytes\<close>

text \<open>The bytes of an integer behind its prefix: up to the first below 128, if there is one.\<close>

definition integer_end :: "bytes \<Rightarrow> bool" where
  "integer_end bs \<longleftrightarrow> (\<exists>b\<in>set bs. unat b < 128)"

definition groups :: "bytes \<Rightarrow> nat" where
  "groups bs = length (takeWhile (\<lambda>b. 128 \<le> unat b) bs) + of_bool (integer_end bs)"

text \<open>What reading has to give when \<open>v\<close> is the value of what comes before, which ends below bit \<open>s\<close>: the integer
  is refused when it does not fit in 32 bits or a group begins behind them.\<close>

definition integer_value :: "nat \<Rightarrow> nat \<Rightarrow> bytes \<Rightarrow> decoded option" where
  "integer_value v s bs =
     (let k = groups bs; w = v + 2 ^ s * digits_value (take k bs)
      in if w < 2 ^ 32 \<and> (k = 0 \<or> s + 7 * (k - 1) < 32)
         then Some \<lparr>dl_res = of_nat w, dl_shift = s + 7 * (k - of_bool (integer_end bs)),
                    dl_fin = integer_end bs, dl_taken = k\<rparr>
         else None)"

lemma groups_simps [simp]:
  "groups [] = 0" "integer_end [] = False"
  "groups (b # bs) = (if unat b < 128 then 1 else Suc (groups bs))"
  "integer_end (b # bs) \<longleftrightarrow> unat b < 128 \<or> integer_end bs"
  by (auto simp: groups_def integer_end_def)

lemma groups_pos: "integer_end bs \<Longrightarrow> 0 < groups bs"
  by (simp add: groups_def)

lemma unat_small_u32: "m < 2 ^ 32 \<Longrightarrow> unat (of_nat m :: u32) = m"
  by (simp add: unat_of_nat take_bit_nat_eq_self)

lemma u32_of_unat: "unat (x :: u32) = m \<Longrightarrow> x = of_nat m"
  by auto

lemma integer_value_step:
  "integer_value v s (b # bs) =
     (let w = v + (unat b mod 128) * 2 ^ s
      in if s < 32 \<and> w < 2 ^ 32
         then if unat b < 128 then Some \<lparr>dl_res = of_nat w, dl_shift = s, dl_fin = True, dl_taken = 1\<rparr>
              else map_option (\<lambda>r. r\<lparr>dl_taken := dl_taken r + 1\<rparr>) (integer_value w (s + 7) bs)
         else None)"
proof (cases "unat b < 128")
  case True
  then show ?thesis by (auto simp: integer_value_def Let_def mult.commute)
next
  case False
  have d: "2 ^ s * (unat b mod 128 + 128 * x) = (unat b mod 128) * 2 ^ s + 2 ^ (s + 7) * x" for x :: nat
    by (simp add: power_add algebra_simps)
  show ?thesis
  proof (cases "groups bs = 0")
    case True
    then have "\<not> integer_end bs" using groups_pos by fastforce
    then show ?thesis using False True by (simp add: integer_value_def Let_def mult.commute)
  next
    case pos: False
    then obtain k where k: "groups bs = Suc k" using not0_implies_Suc by blast
    have "7 * (Suc k - of_bool e) + 7 = 7 * (Suc (Suc k) - of_bool e)" for e by simp
    then show ?thesis using False k
      by (auto simp: integer_value_def Let_def d add.assoc)
  qed
qed

lemma plain_loop_step:
  "plain_loop n s (b # bs) t =
     (let w = unat n + (unat b mod 128) * 2 ^ s
      in if s < 32 \<and> w < 2 ^ 32
         then if unat b < 128 then Some \<lparr>dl_res = of_nat w, dl_shift = s, dl_fin = True, dl_taken = t + 1\<rparr>
              else plain_loop (of_nat w) (s + 7) bs (t + 1)
         else None)"
proof (cases "s < 32 \<and> unat n + (unat b mod 128) * 2 ^ s < 2 ^ 32")
  case True
  have w: "n + push_bit s (ucast (b AND 0x7f)) = of_nat (unat n + (unat b mod 128) * 2 ^ s)"
    using decode_step(2) [of s n b] True by (intro u32_of_unat) blast
  show ?thesis using decode_step(1) [of s n b bs t] True unfolding w by (simp add: Let_def)
next
  case False
  let ?add = "ucast (b AND 0x7f) :: u32"
  have "plain_loop n s (b # bs) t = None" if s: "s < 32"
  proof (cases "drop_bit s UINT32_MAX < ?add")
    case fits: False
    then have "unat b mod 128 \<le> (2 ^ 32 - 1) div 2 ^ s"
      by (simp add: word_less_nat_alt unat_max_shift digit)
    then have "(unat b mod 128) * 2 ^ s \<le> (2 ^ 32 - 1) div 2 ^ s * 2 ^ s" by (rule mult_le_mono1)
    also have "\<dots> \<le> 2 ^ 32 - 1" by (rule div_times_less_eq_dividend)
    finally have le: "(unat b mod 128) * 2 ^ s \<le> 2 ^ 32 - 1" .
    then have "unat (push_bit s ?add) = (unat b mod 128) * 2 ^ s"
      using unat_shifted [of ?add s] s by (simp add: digit)
    moreover have "2 ^ 32 - 1 - c < m" if "c \<le> 2 ^ 32 - 1" "\<not> m + c < 2 ^ 32" for c m :: nat
      using that by simp
    from this [OF le] have "2 ^ 32 - 1 - (unat b mod 128) * 2 ^ s < unat n" using False s by blast
    ultimately have "UINT32_MAX - push_bit s ?add < n" by (simp only: word_less_nat_alt max_minus)
    then show ?thesis using s fits by (simp add: Let_def)
  qed (use s in simp)
  then show ?thesis using False by (cases "s < 32") (auto simp: Let_def)
qed

lemma plain_loop_value:
  "plain_loop n s bs t = map_option (\<lambda>r. r\<lparr>dl_taken := dl_taken r + t\<rparr>) (integer_value (unat n) s bs)"
proof (induction bs arbitrary: n s t)
  case Nil
  then show ?case using unsigned_less [of n, where 'a = nat] by (simp add: integer_value_def Let_def)
next
  case (Cons b bs)
  let ?w = "unat n + (unat b mod 128) * 2 ^ s"
  show ?case
  proof (cases "?w < 2 ^ 32")
    case True
    show ?thesis
      unfolding plain_loop_step integer_value_step Let_def Cons.IH unat_small_u32 [OF True]
      by (simp add: option.map_comp comp_def add.commute)
  qed (simp add: plain_loop_step integer_value_step del: plain_loop.simps)
qed

text \<open>C24: Whatever bytes a peer sends, in whatever pieces, reading an HPACK integer is defined and exact. A first
  call, on at least one byte, gives the value of the low bits of that byte, or, when they are all ones, what
  RFC 7541 says of the bytes behind; a call that goes on with a value and a shift does so with the next bytes. The
  integer is refused exactly when it needs more than 32 bits, or a group that begins behind bit 31; a result
  says how many bytes the integer took, and whether it is complete. No shift is by more bits than C allows.\<close>
theorem hpack_integer_sound:
  assumes p: "1 \<le> p" "p \<le> 7"
  shows "decode_length 0 0 (b # bs) p = Inr
      (if unat b mod 2 ^ p < 2 ^ p - 1
       then Some \<lparr>dl_res = of_nat (unat b mod 2 ^ p), dl_shift = 0, dl_fin = True, dl_taken = 1\<rparr>
       else map_option (\<lambda>r. r\<lparr>dl_taken := dl_taken r + 1\<rparr>) (integer_value (2 ^ p - 1) 0 bs)) \<and>
    (initial \<noteq> 0 \<longrightarrow> decode_length initial shift bs p = Inr (integer_value (unat initial) shift bs))"
proof -
  have m: "unat (mask p :: u8) = 2 ^ p - 1" by (rule unat_prefix_mask [OF p(2)])
  have low: "unat (b AND mask p) = unat b mod 2 ^ p"
    by (simp only: take_bit_eq_mask [symmetric] unsigned_take_bit_eq) (simp add: take_bit_eq_mod)
  have "x = 2 ^ p - 1 \<longleftrightarrow> \<not> x < 2 ^ p - 1" if "x < 2 ^ p" for x :: nat using that by linarith
  from this [of "unat b mod 2 ^ p"] have ones: "b AND mask p = mask p \<longleftrightarrow> \<not> unat b mod 2 ^ p < 2 ^ p - 1"
    using low m by (simp add: word_unat_eq_iff)
  have res: "(ucast (b AND mask p) :: u32) = of_nat (unat b mod 2 ^ p)"
    using u8_less [of "b AND mask p"] low
    by (simp add: word_unat_eq_iff unsigned_ucast_eq unat_of_nat take_bit_nat_eq_self)
  have "decode_length 0 0 (b # bs) p = Inr
      (if unat b mod 2 ^ p < 2 ^ p - 1
       then Some \<lparr>dl_res = of_nat (unat b mod 2 ^ p), dl_shift = 0, dl_fin = True, dl_taken = 1\<rparr>
       else map_option (\<lambda>r. r\<lparr>dl_taken := dl_taken r + 1\<rparr>) (integer_value (2 ^ p - 1) 0 bs))"
  proof (cases "b AND mask p = mask p")
    case False
    then show ?thesis using ones res unfolding decode_length_def prefix_mask by simp
  next
    case True
    have "decode_length 0 0 (b # bs) p = Inr (plain_loop (ucast (mask p :: u8)) 0 bs 1)"
      using True by (cases bs) (simp_all add: decode_length_def prefix_mask Let_def)
    then show ?thesis using True ones ucast_mask [OF p(2)] by (simp add: plain_loop_value)
  qed
  moreover have "initial \<noteq> 0 \<Longrightarrow> decode_length initial shift bs p = Inr (integer_value (unat initial) shift bs)"
    by (simp add: decode_resume plain_loop_value option.map_ident_strong)
  ultimately show ?thesis by blast
qed

text \<open>The number 1337 whole and in two pieces, a fifth group that exceeds the 32 bits, and a sixth group.\<close>
theorem hpack_integer_sound_witness:
  "decode_length 0 0 [0x1F, 0x9A, 0x0A] 5 =
     Inr (Some \<lparr>dl_res = 1337, dl_shift = 7, dl_fin = True, dl_taken = 3\<rparr>) \<and>
   decode_length 0 0 [0x1F, 0x9A] 5 = Inr (Some \<lparr>dl_res = 57, dl_shift = 7, dl_fin = False, dl_taken = 2\<rparr>) \<and>
   decode_length 57 7 [0x0A] 5 = Inr (Some \<lparr>dl_res = 1337, dl_shift = 7, dl_fin = True, dl_taken = 1\<rparr>) \<and>
   decode_length 0 0 [0x1F, 0xFF, 0xFF, 0xFF, 0xFF, 0x1F] 5 = Inr None \<and>
   decode_length 0 0 [0x1F, 0x80, 0x80, 0x80, 0x80, 0x80, 0x00] 5 = Inr None"
proof -
  have read: "decode_length 0 0 (0x1F # bs) 5 = Inr (map_option (\<lambda>r. r\<lparr>dl_taken := dl_taken r + 1\<rparr>) (integer_value 31 0 bs))"
    and resumed: "decode_length 57 7 bs 5 = Inr (integer_value 57 7 bs)" for bs
    by (simp_all add: hpack_integer_sound)
  show ?thesis unfolding read resumed by (simp add: integer_value_def Let_def)
qed

end
