(* ===== verification/Ring.thy ===== *)
theory Ring
  imports Errors
begin

text \<open>
  The ring buffer under the dynamic table of HPACK (\<open>hd_ringbuf_*\<close> of \<open>nghttp2_hd.c\<close>): an array
  whose length is a power of two, addressed modulo this length from a start index that moves
  backwards through all 32-bit words. The lemmas show that it is a list to which elements are
  added in front and from which they are dropped at the end.
\<close>

section \<open>The buffer\<close>

record 'a ringbuf =
  rb_buffer :: "'a option list"
  rb_mask :: u32
  rb_first :: u32
  rb_len :: nat

text \<open>\<open>for (size = 1; size < bufsize; size <<= 1)\<close>; the loop might never end, which is \<open>None\<close>.\<close>

partial_function (option) ring_size :: "u32 \<Rightarrow> u32 \<Rightarrow> u32 option" where
  "ring_size bufsize sz = (if sz < bufsize then ring_size bufsize (push_bit 1 sz) else Some sz)"

definition sizeof_pointer :: nat where "sizeof_pointer = 4"

definition ring_alloc :: "(nat \<Rightarrow> bool) \<Rightarrow> u32 \<Rightarrow> 'a option list res" where
  "ring_alloc grant sz =
     (if grant (sizeof_pointer * unat sz mod 2 ^ 32) then Inr (replicate (unat sz) None)
      else Inl (Code NGHTTP2_ERR_NOMEM))"

definition hd_ringbuf_init :: "(nat \<Rightarrow> bool) \<Rightarrow> u32 \<Rightarrow> 'a ringbuf res option" where
  "hd_ringbuf_init grant bufsize =
     map_option (\<lambda>size. rbind (ring_alloc grant size) (\<lambda>buffer.
       Inr \<lparr>rb_buffer = buffer, rb_mask = size - 1, rb_first = 0, rb_len = 0\<rparr>))
       (ring_size bufsize 1)"

definition hd_ringbuf_get :: "'a ringbuf \<Rightarrow> nat \<Rightarrow> 'a res" where
  "hd_ringbuf_get rb idx =
     rbind (assert_that (idx < rb_len rb)) (\<lambda>_.
       let i = unat ((rb_first rb + of_nat idx) AND rb_mask rb) in
       if i < length (rb_buffer rb) then of_option (rb_buffer rb ! i) else Inl Undefined)"

text \<open>The copy loop of \<open>hd_ringbuf_reserve\<close>, for the indices \<open>i\<close> to \<open>i + n\<close>.\<close>

fun ring_copy :: "'a ringbuf \<Rightarrow> nat \<Rightarrow> nat \<Rightarrow> 'a option list \<Rightarrow> 'a option list res" where
  "ring_copy rb i 0 buffer = Inr buffer"
| "ring_copy rb i (Suc n) buffer =
     rbind (hd_ringbuf_get rb i) (\<lambda>x.
       if i < length buffer then ring_copy rb (i + 1) n (buffer[i := Some x]) else Inl Undefined)"

definition hd_ringbuf_reserve :: "(nat \<Rightarrow> bool) \<Rightarrow> 'a ringbuf \<Rightarrow> u32 \<Rightarrow> 'a ringbuf res option" where
  "hd_ringbuf_reserve grant rb bufsize =
     (if rb_mask rb + 1 \<ge> bufsize then Some (Inr rb)
      else map_option (\<lambda>size.
        rbind (ring_alloc grant size) (\<lambda>buffer.
        rbind (ring_copy rb 0 (rb_len rb) buffer) (\<lambda>buffer.
        Inr (rb\<lparr>rb_buffer := buffer, rb_mask := size - 1, rb_first := 0\<rparr>)))) (ring_size bufsize 1))"

definition hd_ringbuf_push_front :: "(nat \<Rightarrow> bool) \<Rightarrow> 'a ringbuf \<Rightarrow> 'a \<Rightarrow> 'a ringbuf res option" where
  "hd_ringbuf_push_front grant rb ent =
     map_option (\<lambda>r. rbind r (\<lambda>rb.
       let first = rb_first rb - 1; i = unat (first AND rb_mask rb) in
       if i < length (rb_buffer rb)
       then Inr (rb\<lparr>rb_buffer := (rb_buffer rb)[i := Some ent], rb_first := first, rb_len := rb_len rb + 1\<rparr>)
       else Inl Undefined))
       (hd_ringbuf_reserve grant rb (of_nat (rb_len rb + 1)))"

definition hd_ringbuf_pop_back :: "'a ringbuf \<Rightarrow> 'a ringbuf res" where
  "hd_ringbuf_pop_back rb =
     rbind (assert_that (rb_len rb > 0)) (\<lambda>_. Inr (rb\<lparr>rb_len := rb_len rb - 1\<rparr>))"

section \<open>The list it holds\<close>

definition ring_at :: "'a ringbuf \<Rightarrow> nat \<Rightarrow> 'a option" where
  "ring_at rb i = rb_buffer rb ! ((unat (rb_first rb) + i) mod length (rb_buffer rb))"

definition ring_list :: "'a ringbuf \<Rightarrow> 'a list" where
  "ring_list rb = map (\<lambda>i. the (ring_at rb i)) [0..<rb_len rb]"

definition ring_ok :: "'a ringbuf \<Rightarrow> bool" where
  "ring_ok rb \<longleftrightarrow> (\<exists>k \<le> 30. length (rb_buffer rb) = 2 ^ k \<and> rb_mask rb = mask k) \<and>
     rb_len rb \<le> length (rb_buffer rb) \<and> (\<forall>i < rb_len rb. ring_at rb i \<noteq> None)"

lemma length_ring_list [simp]: "length (ring_list rb) = rb_len rb"
  by (simp add: ring_list_def)

lemma nth_ring_list: "i < rb_len rb \<Longrightarrow> ring_list rb ! i = the (ring_at rb i)"
  by (simp add: ring_list_def)

lemma unat_and_mask: "unat ((w :: u32) AND mask k) = unat w mod 2 ^ k"
  by (simp only: take_bit_eq_mask [symmetric] unsigned_take_bit_eq) (simp add: take_bit_eq_mod)

lemma mod_power_32: "k \<le> 32 \<Longrightarrow> (n :: nat) mod 2 ^ 32 mod 2 ^ k = n mod 2 ^ k"
  by (metis take_bit_eq_mod take_bit_take_bit min.absorb_iff1 min.commute)

lemma ring_index:
  assumes "k \<le> 30"
  shows "unat ((first + of_nat i :: u32) AND mask k) = (unat first + i) mod 2 ^ k"
  using assms mod_power_32 [of k "unat first + i"]
  by (simp add: unat_and_mask unat_word_ariths unat_of_nat take_bit_eq_mod mod_simps)

lemma get_ring_at:
  assumes "ring_ok rb" "i < rb_len rb"
  shows "hd_ringbuf_get rb i = Inr (ring_list rb ! i)"
proof -
  obtain k where k: "k \<le> 30" "length (rb_buffer rb) = 2 ^ k" "rb_mask rb = mask k"
    using assms(1) by (auto simp: ring_ok_def)
  moreover obtain x where "ring_at rb i = Some x" using assms by (auto simp: ring_ok_def)
  ultimately show ?thesis
    using assms(2) by (simp add: hd_ringbuf_get_def ring_index ring_at_def nth_ring_list Let_def)
qed

lemma pop_back_ring:
  assumes "ring_ok rb" "rb_len rb > 0"
  shows "\<exists>rb'. hd_ringbuf_pop_back rb = Inr rb' \<and> ring_ok rb' \<and> ring_list rb' = butlast (ring_list rb)"
proof -
  let ?rb = "rb\<lparr>rb_len := rb_len rb - 1\<rparr>"
  have at: "ring_at (rb\<lparr>rb_len := n\<rparr>) i = ring_at rb i" for i n by (simp add: ring_at_def)
  have "ring_ok ?rb" using assms at by (auto simp: ring_ok_def)
  moreover have "ring_list ?rb = butlast (ring_list rb)"
    by (rule nth_equalityI) (auto simp: nth_ring_list nth_butlast at)
  ultimately show ?thesis using assms(2) by (simp add: hd_ringbuf_pop_back_def)
qed

section \<open>Growing\<close>

lemma power_word: "k \<le> 31 \<Longrightarrow> unat (push_bit k 1 :: u32) = 2 ^ k"
proof -
  assume k: "k \<le> 31"
  have "(2 :: nat) ^ k < 2 ^ 32" using k by (intro power_strict_increasing) auto
  then have "unat (of_nat (2 ^ k) :: u32) = 2 ^ k"
    by (simp only: unat_of_nat) (simp add: take_bit_nat_eq_self)
  then show ?thesis by simp
qed

text \<open>The loop ends, at the least power of two that is large enough, as long as that power is a
  32-bit word.\<close>

lemma ring_size_step:
  "j \<le> k \<Longrightarrow> k \<le> 30 \<Longrightarrow> unat bufsize \<le> 2 ^ k \<Longrightarrow>
   \<exists>m. j \<le> m \<and> m \<le> k \<and> ring_size bufsize (push_bit j 1) = Some (push_bit m 1) \<and> unat bufsize \<le> 2 ^ m"
proof (induction "k - j" arbitrary: j)
  case 0
  then have "\<not> push_bit j 1 < bufsize" by (simp add: word_less_nat_alt power_word del: push_bit_of_1)
  then show ?case using 0 by (subst ring_size.simps) (auto intro!: exI [of _ j])
next
  case (Suc d)
  show ?case
  proof (cases "push_bit j 1 < bufsize")
    case True
    have "push_bit 1 (push_bit j 1 :: u32) = push_bit (Suc j) 1" by simp
    then have "ring_size bufsize (push_bit j 1) = ring_size bufsize (push_bit (Suc j) 1)"
      using True by (subst ring_size.simps) (simp del: push_bit_of_1)
    moreover have d: "d = k - Suc j" "Suc j \<le> k" using Suc.hyps(2) by arith+
    moreover obtain m where "Suc j \<le> m" "m \<le> k" "ring_size bufsize (push_bit (Suc j) 1) = Some (push_bit m 1)"
        "unat bufsize \<le> 2 ^ m"
      using Suc.hyps(1) [OF d] Suc.prems by blast
    ultimately show ?thesis by (metis Suc_leD)
  next
    case False
    then have "unat bufsize \<le> 2 ^ j" using Suc.prems
      by (simp add: word_less_nat_alt power_word del: push_bit_of_1)
    then show ?thesis using False Suc.prems by (subst ring_size.simps) (auto intro!: exI [of _ j])
  qed
qed

lemma ring_size_ok:
  assumes "unat bufsize \<le> 2 ^ 30"
  shows "\<exists>m \<le> 30. ring_size bufsize 1 = Some (push_bit m 1) \<and> unat bufsize \<le> 2 ^ m"
  using ring_size_step [of 0 30 bufsize] assms by auto

lemma ring_copy_ok:
  "ring_ok rb \<Longrightarrow> i + n \<le> rb_len rb \<Longrightarrow> i + n \<le> length buffer \<Longrightarrow>
   \<exists>b. ring_copy rb i n buffer = Inr b \<and> length b = length buffer \<and>
     (\<forall>j < length buffer. b ! j = (if i \<le> j \<and> j < i + n then Some (ring_list rb ! j) else buffer ! j))"
proof (induction n arbitrary: i buffer)
  case (Suc n)
  obtain b where b: "ring_copy rb (i + 1) n (buffer[i := Some (ring_list rb ! i)]) = Inr b"
      "length b = length buffer"
      "\<And>j. j < length buffer \<Longrightarrow> b ! j = (if i + 1 \<le> j \<and> j < i + 1 + n then Some (ring_list rb ! j)
        else buffer[i := Some (ring_list rb ! i)] ! j)"
    using Suc.IH [of "i + 1" "buffer[i := Some (ring_list rb ! i)]"] Suc.prems by auto
  have "b ! j = (if i \<le> j \<and> j < i + Suc n then Some (ring_list rb ! j) else buffer ! j)"
    if "j < length buffer" for j
    using b(3) [OF that] that by (cases "j = i") auto
  then show ?case
    using b(1,2) get_ring_at [OF Suc.prems(1), of i] Suc.prems(2,3) by simp
qed auto

lemma reserve_ring:
  assumes "ring_ok rb" "unat bufsize \<le> 2 ^ 30"
  shows "(\<exists>rb'. hd_ringbuf_reserve grant rb bufsize = Some (Inr rb') \<and> ring_ok rb' \<and>
            ring_list rb' = ring_list rb \<and> rb_len rb' = rb_len rb \<and> unat bufsize \<le> length (rb_buffer rb')) \<or>
         hd_ringbuf_reserve grant rb bufsize = Some (Inl (Code NGHTTP2_ERR_NOMEM))"
proof -
  obtain k where k: "k \<le> 30" "length (rb_buffer rb) = 2 ^ k" "rb_mask rb = mask k"
    using assms(1) by (auto simp: ring_ok_def)
  have size: "unat (rb_mask rb + 1) = 2 ^ k"
    using power_word [of k] k(1,3) by (simp add: mask_eq_exp_minus_1)
  show ?thesis
  proof (cases "rb_mask rb + 1 \<ge> bufsize")
    case True
    then show ?thesis using assms(1) k(2) size by (simp add: hd_ringbuf_reserve_def word_le_nat_alt)
  next
    case False
    obtain m where m: "m \<le> 30" "ring_size bufsize 1 = Some (push_bit m 1)" "unat bufsize \<le> 2 ^ m"
      using ring_size_ok [OF assms(2)] by blast
    have un: "unat (push_bit m 1 :: u32) = 2 ^ m" using power_word m(1) by simp
    have "2 ^ k < unat bufsize" using False size by (simp add: word_le_nat_alt)
    then have len: "rb_len rb \<le> 2 ^ m" using assms(1) k(2) m(3) by (simp add: ring_ok_def)
    let ?new = "replicate (2 ^ m) None"
    obtain b where b: "ring_copy rb 0 (rb_len rb) ?new = Inr b" "length b = 2 ^ m"
        "\<And>j. j < 2 ^ m \<Longrightarrow> b ! j = (if j < rb_len rb then Some (ring_list rb ! j) else None)"
      using ring_copy_ok [OF assms(1), of 0 "rb_len rb" ?new] len by auto
    let ?rb = "rb\<lparr>rb_buffer := b, rb_mask := push_bit m 1 - 1, rb_first := 0\<rparr>"
    have at: "ring_at ?rb i = Some (ring_list rb ! i)" if "i < rb_len rb" for i
      using that len b(2,3) by (simp add: ring_at_def)
    have "push_bit m 1 - 1 = (mask m :: u32)" by (simp add: mask_eq_exp_minus_1)
    then have ok: "ring_ok ?rb" using b(2) m(1) len at by (auto simp: ring_ok_def)
    have list: "ring_list ?rb = ring_list rb"
      using at nth_ring_list [of _ ?rb] by (intro nth_equalityI) auto
    show ?thesis
    proof (cases "grant (sizeof_pointer * unat (push_bit m 1 :: u32) mod 2 ^ 32)")
      case True
      then have "hd_ringbuf_reserve grant rb bufsize = Some (Inr ?rb)"
        using False m(2) b(1) un by (simp add: hd_ringbuf_reserve_def ring_alloc_def del: push_bit_of_1)
      then show ?thesis using ok list b(2) m(3) by simp
    next
      case no: False
      then show ?thesis
        using False m(2) by (simp add: hd_ringbuf_reserve_def ring_alloc_def del: push_bit_of_1)
    qed
  qed
qed

lemma push_front_ring:
  assumes "ring_ok rb" "rb_len rb < 2 ^ 30"
  shows "(\<exists>rb'. hd_ringbuf_push_front grant rb ent = Some (Inr rb') \<and> ring_ok rb' \<and>
            ring_list rb' = ent # ring_list rb) \<or>
         hd_ringbuf_push_front grant rb ent = Some (Inl (Code NGHTTP2_ERR_NOMEM))"
proof -
  have un: "unat (of_nat (rb_len rb + 1) :: u32) = rb_len rb + 1"
    using assms(2) by (simp only: unat_of_nat) (simp add: take_bit_nat_eq_self)
  then have "unat (of_nat (rb_len rb + 1) :: u32) \<le> 2 ^ 30" using assms(2) by simp
  from reserve_ring [OF assms(1) this, of grant] show ?thesis
  proof (elim disjE exE conjE)
    fix rb' assume r: "hd_ringbuf_reserve grant rb (of_nat (rb_len rb + 1)) = Some (Inr rb')"
      "ring_ok rb'" "ring_list rb' = ring_list rb" "rb_len rb' = rb_len rb"
      "unat (of_nat (rb_len rb + 1) :: u32) \<le> length (rb_buffer rb')"
    obtain k where k: "k \<le> 30" "length (rb_buffer rb') = 2 ^ k" "rb_mask rb' = mask k"
      using r(2) by (auto simp: ring_ok_def)
    let ?first = "rb_first rb' - 1"
    let ?i = "unat (?first AND rb_mask rb')"
    let ?rb = "rb'\<lparr>rb_buffer := (rb_buffer rb')[?i := Some ent], rb_first := ?first, rb_len := rb_len rb' + 1\<rparr>"
    have i: "?i = unat ?first mod 2 ^ k" by (simp add: k(3) unat_and_mask)
    then have "?i < length (rb_buffer rb')" by (simp add: k(2))
    then have push: "hd_ringbuf_push_front grant rb ent = Some (Inr ?rb)"
      using r(1) by (simp add: hd_ringbuf_push_front_def Let_def)
    have pos: "(unat ?first + Suc j) mod 2 ^ k = (unat (rb_first rb') + j) mod 2 ^ k" for j
      using ring_index [OF k(1), of ?first "Suc j"] ring_index [OF k(1), of "rb_first rb'" j] by simp
    have at0: "ring_at ?rb 0 = Some ent" using k(2) by (simp add: ring_at_def i)
    have at: "ring_at ?rb (Suc j) = ring_at rb' j" if "j < rb_len rb'" for j
    proof -
      have "Suc j < 2 ^ k" using that r(4,5) un k(2) by simp
      have "(unat ?first + Suc j) mod 2 ^ k \<noteq> unat ?first mod 2 ^ k"
      proof
        assume "(unat ?first + Suc j) mod 2 ^ k = unat ?first mod 2 ^ k"
        then have "2 ^ k dvd Suc j" using mod_eq_dvd_iff_nat [of "unat ?first" "unat ?first + Suc j"] by simp
        then show False using \<open>Suc j < 2 ^ k\<close> dvd_imp_le by fastforce
      qed
      then show ?thesis using pos [of j] k(2) i by (simp add: ring_at_def)
    qed
    have "ring_at ?rb j \<noteq> None" if "j < rb_len ?rb" for j
      using that at0 at r(2) by (cases j) (auto simp: ring_ok_def)
    moreover have "rb_len ?rb \<le> length (rb_buffer ?rb)" using r(4,5) un by simp
    ultimately have "ring_ok ?rb" using k by (simp add: ring_ok_def)
    moreover have "ring_list ?rb = ent # ring_list rb"
    proof (rule nth_equalityI)
      show "length (ring_list ?rb) = length (ent # ring_list rb)" using r(4) by simp
      fix j assume j: "j < length (ring_list ?rb)"
      then have "ring_list ?rb ! j = the (ring_at ?rb j)" by (intro nth_ring_list) simp
      then show "ring_list ?rb ! j = (ent # ring_list rb) ! j"
        using at0 at j nth_ring_list [of _ rb'] unfolding r(3) [symmetric] by (cases j) auto
    qed
    ultimately show ?thesis using push by blast
  next
    assume "hd_ringbuf_reserve grant rb (of_nat (rb_len rb + 1)) = Some (Inl (Code NGHTTP2_ERR_NOMEM))"
    then show ?thesis by (simp add: hd_ringbuf_push_front_def)
  qed
qed

lemma init_ring:
  assumes "unat bufsize \<le> 2 ^ 30"
  shows "(\<exists>rb. hd_ringbuf_init grant bufsize = Some (Inr rb) \<and> ring_ok (rb :: 'a ringbuf) \<and> ring_list rb = []) \<or>
         hd_ringbuf_init grant bufsize = Some (Inl (Code NGHTTP2_ERR_NOMEM) :: 'a ringbuf res)"
proof -
  obtain m where m: "m \<le> 30" "ring_size bufsize 1 = Some (push_bit m 1)"
    using ring_size_ok [OF assms] by blast
  let ?rb = "\<lparr>rb_buffer = replicate (2 ^ m) None, rb_mask = push_bit m 1 - 1, rb_first = 0, rb_len = 0\<rparr> :: 'a ringbuf"
  have "push_bit m 1 - 1 = (mask m :: u32)" by (simp add: mask_eq_exp_minus_1)
  then have "ring_ok ?rb" "ring_list ?rb = []" using m(1) by (auto simp: ring_ok_def ring_list_def)
  then show ?thesis using m power_word [of m]
    by (auto simp: hd_ringbuf_init_def ring_alloc_def simp del: push_bit_of_1)
qed

end
