(* ===== verification/Token.thy ===== *)
theory Token
  imports Helper
begin

text \<open>
  The tokens of \<open>nghttp2_hd.h\<close> for the header field names the library knows, the nested
  \<open>switch\<close> of \<open>lookup_token\<close> (\<open>nghttp2_hd.c\<close>) that finds them, and the static table of HPACK. The
  switch is kept as data, one entry per case, with the length of the name, its last character and
  the text before it; it is proved to find exactly the names of the table, and the columns of the
  static table are proved consistent with it.
\<close>

section \<open>Tokens\<close>

abbreviation (input) NGHTTP2_TOKEN__AUTHORITY :: int where "NGHTTP2_TOKEN__AUTHORITY \<equiv> 0"
abbreviation (input) NGHTTP2_TOKEN__METHOD :: int where "NGHTTP2_TOKEN__METHOD \<equiv> 1"
abbreviation (input) NGHTTP2_TOKEN__PATH :: int where "NGHTTP2_TOKEN__PATH \<equiv> 3"
abbreviation (input) NGHTTP2_TOKEN__SCHEME :: int where "NGHTTP2_TOKEN__SCHEME \<equiv> 5"
abbreviation (input) NGHTTP2_TOKEN__STATUS :: int where "NGHTTP2_TOKEN__STATUS \<equiv> 7"
abbreviation (input) NGHTTP2_TOKEN_ACCEPT_CHARSET :: int where "NGHTTP2_TOKEN_ACCEPT_CHARSET \<equiv> 14"
abbreviation (input) NGHTTP2_TOKEN_ACCEPT_ENCODING :: int where "NGHTTP2_TOKEN_ACCEPT_ENCODING \<equiv> 15"
abbreviation (input) NGHTTP2_TOKEN_ACCEPT_LANGUAGE :: int where "NGHTTP2_TOKEN_ACCEPT_LANGUAGE \<equiv> 16"
abbreviation (input) NGHTTP2_TOKEN_ACCEPT_RANGES :: int where "NGHTTP2_TOKEN_ACCEPT_RANGES \<equiv> 17"
abbreviation (input) NGHTTP2_TOKEN_ACCEPT :: int where "NGHTTP2_TOKEN_ACCEPT \<equiv> 18"
abbreviation (input) NGHTTP2_TOKEN_ACCESS_CONTROL_ALLOW_ORIGIN :: int where "NGHTTP2_TOKEN_ACCESS_CONTROL_ALLOW_ORIGIN \<equiv> 19"
abbreviation (input) NGHTTP2_TOKEN_AGE :: int where "NGHTTP2_TOKEN_AGE \<equiv> 20"
abbreviation (input) NGHTTP2_TOKEN_ALLOW :: int where "NGHTTP2_TOKEN_ALLOW \<equiv> 21"
abbreviation (input) NGHTTP2_TOKEN_AUTHORIZATION :: int where "NGHTTP2_TOKEN_AUTHORIZATION \<equiv> 22"
abbreviation (input) NGHTTP2_TOKEN_CACHE_CONTROL :: int where "NGHTTP2_TOKEN_CACHE_CONTROL \<equiv> 23"
abbreviation (input) NGHTTP2_TOKEN_CONTENT_DISPOSITION :: int where "NGHTTP2_TOKEN_CONTENT_DISPOSITION \<equiv> 24"
abbreviation (input) NGHTTP2_TOKEN_CONTENT_ENCODING :: int where "NGHTTP2_TOKEN_CONTENT_ENCODING \<equiv> 25"
abbreviation (input) NGHTTP2_TOKEN_CONTENT_LANGUAGE :: int where "NGHTTP2_TOKEN_CONTENT_LANGUAGE \<equiv> 26"
abbreviation (input) NGHTTP2_TOKEN_CONTENT_LENGTH :: int where "NGHTTP2_TOKEN_CONTENT_LENGTH \<equiv> 27"
abbreviation (input) NGHTTP2_TOKEN_CONTENT_LOCATION :: int where "NGHTTP2_TOKEN_CONTENT_LOCATION \<equiv> 28"
abbreviation (input) NGHTTP2_TOKEN_CONTENT_RANGE :: int where "NGHTTP2_TOKEN_CONTENT_RANGE \<equiv> 29"
abbreviation (input) NGHTTP2_TOKEN_CONTENT_TYPE :: int where "NGHTTP2_TOKEN_CONTENT_TYPE \<equiv> 30"
abbreviation (input) NGHTTP2_TOKEN_COOKIE :: int where "NGHTTP2_TOKEN_COOKIE \<equiv> 31"
abbreviation (input) NGHTTP2_TOKEN_DATE :: int where "NGHTTP2_TOKEN_DATE \<equiv> 32"
abbreviation (input) NGHTTP2_TOKEN_ETAG :: int where "NGHTTP2_TOKEN_ETAG \<equiv> 33"
abbreviation (input) NGHTTP2_TOKEN_EXPECT :: int where "NGHTTP2_TOKEN_EXPECT \<equiv> 34"
abbreviation (input) NGHTTP2_TOKEN_EXPIRES :: int where "NGHTTP2_TOKEN_EXPIRES \<equiv> 35"
abbreviation (input) NGHTTP2_TOKEN_FROM :: int where "NGHTTP2_TOKEN_FROM \<equiv> 36"
abbreviation (input) NGHTTP2_TOKEN_HOST :: int where "NGHTTP2_TOKEN_HOST \<equiv> 37"
abbreviation (input) NGHTTP2_TOKEN_IF_MATCH :: int where "NGHTTP2_TOKEN_IF_MATCH \<equiv> 38"
abbreviation (input) NGHTTP2_TOKEN_IF_MODIFIED_SINCE :: int where "NGHTTP2_TOKEN_IF_MODIFIED_SINCE \<equiv> 39"
abbreviation (input) NGHTTP2_TOKEN_IF_NONE_MATCH :: int where "NGHTTP2_TOKEN_IF_NONE_MATCH \<equiv> 40"
abbreviation (input) NGHTTP2_TOKEN_IF_RANGE :: int where "NGHTTP2_TOKEN_IF_RANGE \<equiv> 41"
abbreviation (input) NGHTTP2_TOKEN_IF_UNMODIFIED_SINCE :: int where "NGHTTP2_TOKEN_IF_UNMODIFIED_SINCE \<equiv> 42"
abbreviation (input) NGHTTP2_TOKEN_LAST_MODIFIED :: int where "NGHTTP2_TOKEN_LAST_MODIFIED \<equiv> 43"
abbreviation (input) NGHTTP2_TOKEN_LINK :: int where "NGHTTP2_TOKEN_LINK \<equiv> 44"
abbreviation (input) NGHTTP2_TOKEN_LOCATION :: int where "NGHTTP2_TOKEN_LOCATION \<equiv> 45"
abbreviation (input) NGHTTP2_TOKEN_MAX_FORWARDS :: int where "NGHTTP2_TOKEN_MAX_FORWARDS \<equiv> 46"
abbreviation (input) NGHTTP2_TOKEN_PROXY_AUTHENTICATE :: int where "NGHTTP2_TOKEN_PROXY_AUTHENTICATE \<equiv> 47"
abbreviation (input) NGHTTP2_TOKEN_PROXY_AUTHORIZATION :: int where "NGHTTP2_TOKEN_PROXY_AUTHORIZATION \<equiv> 48"
abbreviation (input) NGHTTP2_TOKEN_RANGE :: int where "NGHTTP2_TOKEN_RANGE \<equiv> 49"
abbreviation (input) NGHTTP2_TOKEN_REFERER :: int where "NGHTTP2_TOKEN_REFERER \<equiv> 50"
abbreviation (input) NGHTTP2_TOKEN_REFRESH :: int where "NGHTTP2_TOKEN_REFRESH \<equiv> 51"
abbreviation (input) NGHTTP2_TOKEN_RETRY_AFTER :: int where "NGHTTP2_TOKEN_RETRY_AFTER \<equiv> 52"
abbreviation (input) NGHTTP2_TOKEN_SERVER :: int where "NGHTTP2_TOKEN_SERVER \<equiv> 53"
abbreviation (input) NGHTTP2_TOKEN_SET_COOKIE :: int where "NGHTTP2_TOKEN_SET_COOKIE \<equiv> 54"
abbreviation (input) NGHTTP2_TOKEN_STRICT_TRANSPORT_SECURITY :: int where "NGHTTP2_TOKEN_STRICT_TRANSPORT_SECURITY \<equiv> 55"
abbreviation (input) NGHTTP2_TOKEN_TRANSFER_ENCODING :: int where "NGHTTP2_TOKEN_TRANSFER_ENCODING \<equiv> 56"
abbreviation (input) NGHTTP2_TOKEN_USER_AGENT :: int where "NGHTTP2_TOKEN_USER_AGENT \<equiv> 57"
abbreviation (input) NGHTTP2_TOKEN_VARY :: int where "NGHTTP2_TOKEN_VARY \<equiv> 58"
abbreviation (input) NGHTTP2_TOKEN_VIA :: int where "NGHTTP2_TOKEN_VIA \<equiv> 59"
abbreviation (input) NGHTTP2_TOKEN_WWW_AUTHENTICATE :: int where "NGHTTP2_TOKEN_WWW_AUTHENTICATE \<equiv> 60"
abbreviation (input) NGHTTP2_TOKEN_TE :: int where "NGHTTP2_TOKEN_TE \<equiv> 61"
abbreviation (input) NGHTTP2_TOKEN_CONNECTION :: int where "NGHTTP2_TOKEN_CONNECTION \<equiv> 62"
abbreviation (input) NGHTTP2_TOKEN_KEEP_ALIVE :: int where "NGHTTP2_TOKEN_KEEP_ALIVE \<equiv> 63"
abbreviation (input) NGHTTP2_TOKEN_PROXY_CONNECTION :: int where "NGHTTP2_TOKEN_PROXY_CONNECTION \<equiv> 64"
abbreviation (input) NGHTTP2_TOKEN_UPGRADE :: int where "NGHTTP2_TOKEN_UPGRADE \<equiv> 65"
abbreviation (input) NGHTTP2_TOKEN__PROTOCOL :: int where "NGHTTP2_TOKEN__PROTOCOL \<equiv> 66"
abbreviation (input) NGHTTP2_TOKEN_PRIORITY :: int where "NGHTTP2_TOKEN_PRIORITY \<equiv> 67"

text \<open>The bytes of a string literal.\<close>

definition ascii :: "string \<Rightarrow> bytes" where
  "ascii = map of_char"

lemma ascii_simps [simp]: "ascii [] = []" "ascii (c # s) = of_char c # ascii s"
  by (simp_all add: ascii_def)

lemma length_ascii [simp]: "length (ascii s) = length s"
  by (simp add: ascii_def)

lemma ascii_append [simp]: "ascii (s @ t) = ascii s @ ascii t"
  by (simp add: ascii_def)

section \<open>The switch\<close>

text \<open>Per length of the name: the last characters, and per character the texts compared with
  \<open>memeq\<close> and the token returned.\<close>

type_synonym token_switch = "(nat \<times> (char \<times> (string \<times> int) list) list) list"

definition token_cases_1 :: token_switch where
  "token_cases_1 =
    [(2, [(CHR ''e'', [(''t'', NGHTTP2_TOKEN_TE)])]),
     (3, [(CHR ''a'', [(''vi'', NGHTTP2_TOKEN_VIA)]),
       (CHR ''e'', [(''ag'', NGHTTP2_TOKEN_AGE)])]),
     (4, [(CHR ''e'', [(''dat'', NGHTTP2_TOKEN_DATE)]),
       (CHR ''g'', [(''eta'', NGHTTP2_TOKEN_ETAG)]),
       (CHR ''k'', [(''lin'', NGHTTP2_TOKEN_LINK)]),
       (CHR ''m'', [(''fro'', NGHTTP2_TOKEN_FROM)]),
       (CHR ''t'', [(''hos'', NGHTTP2_TOKEN_HOST)]),
       (CHR ''y'', [(''var'', NGHTTP2_TOKEN_VARY)])]),
     (5, [(CHR ''e'', [(''rang'', NGHTTP2_TOKEN_RANGE)]),
       (CHR ''h'', [('':pat'', NGHTTP2_TOKEN__PATH)]),
       (CHR ''w'', [(''allo'', NGHTTP2_TOKEN_ALLOW)])]),
     (6, [(CHR ''e'', [(''cooki'', NGHTTP2_TOKEN_COOKIE)]),
       (CHR ''r'', [(''serve'', NGHTTP2_TOKEN_SERVER)]),
       (CHR ''t'', [(''accep'', NGHTTP2_TOKEN_ACCEPT), (''expec'', NGHTTP2_TOKEN_EXPECT)])]),
     (7, [(CHR ''d'', [('':metho'', NGHTTP2_TOKEN__METHOD)]),
       (CHR ''e'', [('':schem'', NGHTTP2_TOKEN__SCHEME), (''upgrad'', NGHTTP2_TOKEN_UPGRADE)]),
       (CHR ''h'', [(''refres'', NGHTTP2_TOKEN_REFRESH)]),
       (CHR ''r'', [(''refere'', NGHTTP2_TOKEN_REFERER)]),
       (CHR ''s'', [('':statu'', NGHTTP2_TOKEN__STATUS), (''expire'', NGHTTP2_TOKEN_EXPIRES)])])]"

definition token_cases_2 :: token_switch where
  "token_cases_2 =
    [(8, [(CHR ''e'', [(''if-rang'', NGHTTP2_TOKEN_IF_RANGE)]),
       (CHR ''h'', [(''if-matc'', NGHTTP2_TOKEN_IF_MATCH)]),
       (CHR ''n'', [(''locatio'', NGHTTP2_TOKEN_LOCATION)]),
       (CHR ''y'', [(''priorit'', NGHTTP2_TOKEN_PRIORITY)])]),
     (9, [(CHR ''l'', [('':protoco'', NGHTTP2_TOKEN__PROTOCOL)])]),
     (10, [(CHR ''e'', [(''keep-aliv'', NGHTTP2_TOKEN_KEEP_ALIVE), (''set-cooki'', NGHTTP2_TOKEN_SET_COOKIE)]),
       (CHR ''n'', [(''connectio'', NGHTTP2_TOKEN_CONNECTION)]),
       (CHR ''t'', [(''user-agen'', NGHTTP2_TOKEN_USER_AGENT)]),
       (CHR ''y'', [('':authorit'', NGHTTP2_TOKEN__AUTHORITY)])]),
     (11, [(CHR ''r'', [(''retry-afte'', NGHTTP2_TOKEN_RETRY_AFTER)])]),
     (12, [(CHR ''e'', [(''content-typ'', NGHTTP2_TOKEN_CONTENT_TYPE)]),
       (CHR ''s'', [(''max-forward'', NGHTTP2_TOKEN_MAX_FORWARDS)])]),
     (13, [(CHR ''d'', [(''last-modifie'', NGHTTP2_TOKEN_LAST_MODIFIED)]),
       (CHR ''e'', [(''content-rang'', NGHTTP2_TOKEN_CONTENT_RANGE)]),
       (CHR ''h'', [(''if-none-matc'', NGHTTP2_TOKEN_IF_NONE_MATCH)]),
       (CHR ''l'', [(''cache-contro'', NGHTTP2_TOKEN_CACHE_CONTROL)]),
       (CHR ''n'', [(''authorizatio'', NGHTTP2_TOKEN_AUTHORIZATION)]),
       (CHR ''s'', [(''accept-range'', NGHTTP2_TOKEN_ACCEPT_RANGES)])]),
     (14, [(CHR ''h'', [(''content-lengt'', NGHTTP2_TOKEN_CONTENT_LENGTH)]),
       (CHR ''t'', [(''accept-charse'', NGHTTP2_TOKEN_ACCEPT_CHARSET)])]),
     (15, [(CHR ''e'', [(''accept-languag'', NGHTTP2_TOKEN_ACCEPT_LANGUAGE)]),
       (CHR ''g'', [(''accept-encodin'', NGHTTP2_TOKEN_ACCEPT_ENCODING)])])]"

definition token_cases_3 :: token_switch where
  "token_cases_3 =
    [(16, [(CHR ''e'', [(''content-languag'', NGHTTP2_TOKEN_CONTENT_LANGUAGE), (''www-authenticat'', NGHTTP2_TOKEN_WWW_AUTHENTICATE)]),
       (CHR ''g'', [(''content-encodin'', NGHTTP2_TOKEN_CONTENT_ENCODING)]),
       (CHR ''n'', [(''content-locatio'', NGHTTP2_TOKEN_CONTENT_LOCATION), (''proxy-connectio'', NGHTTP2_TOKEN_PROXY_CONNECTION)])]),
     (17, [(CHR ''e'', [(''if-modified-sinc'', NGHTTP2_TOKEN_IF_MODIFIED_SINCE)]),
       (CHR ''g'', [(''transfer-encodin'', NGHTTP2_TOKEN_TRANSFER_ENCODING)])]),
     (18, [(CHR ''e'', [(''proxy-authenticat'', NGHTTP2_TOKEN_PROXY_AUTHENTICATE)])]),
     (19, [(CHR ''e'', [(''if-unmodified-sinc'', NGHTTP2_TOKEN_IF_UNMODIFIED_SINCE)]),
       (CHR ''n'', [(''content-dispositio'', NGHTTP2_TOKEN_CONTENT_DISPOSITION), (''proxy-authorizatio'', NGHTTP2_TOKEN_PROXY_AUTHORIZATION)])]),
     (25, [(CHR ''y'', [(''strict-transport-securit'', NGHTTP2_TOKEN_STRICT_TRANSPORT_SECURITY)])]),
     (27, [(CHR ''n'', [(''access-control-allow-origi'', NGHTTP2_TOKEN_ACCESS_CONTROL_ALLOW_ORIGIN)])])]"

definition token_switch :: token_switch where
  "token_switch = token_cases_1 @ token_cases_2 @ token_cases_3"

fun memeq_cases :: "(string \<times> int) list \<Rightarrow> bytes \<Rightarrow> nat \<Rightarrow> int" where
  "memeq_cases [] name n = - 1"
| "memeq_cases ((s, t) # ss) name n = (if ascii s = take n name then t else memeq_cases ss name n)"

fun char_cases :: "(char \<times> (string \<times> int) list) list \<Rightarrow> bytes \<Rightarrow> nat \<Rightarrow> int" where
  "char_cases [] name n = - 1"
| "char_cases ((c, ss) # cs) name n =
     (if name ! n = of_char c then memeq_cases ss name n else char_cases cs name n)"

definition lookup_token :: "bytes \<Rightarrow> int" where
  "lookup_token name =
     (case map_of token_switch (length name) of
        None \<Rightarrow> - 1
      | Some cs \<Rightarrow> char_cases cs name (length name - 1))"

section \<open>The names found\<close>

definition switch_names :: "token_switch \<Rightarrow> (bytes \<times> int) list" where
  "switch_names sw =
     concat (map (\<lambda>(n, cs). concat (map (\<lambda>(c, ss). map (\<lambda>(s, t). (ascii s @ [of_char c], t)) ss) cs)) sw)"

definition token_names :: "(bytes \<times> int) list" where
  "token_names = switch_names token_switch"

lemma last_split: "length xs = Suc n \<Longrightarrow> xs = take n xs @ [xs ! n]"
  by (metis lessI order_refl take_Suc_conv_app_nth take_all)

lemma memeq_cases_found:
  "memeq_cases ss name n \<noteq> - 1 \<Longrightarrow> \<exists>s. (s, memeq_cases ss name n) \<in> set ss \<and> ascii s = take n name"
  by (induction ss name n rule: memeq_cases.induct) (auto split: if_splits)

lemma char_cases_found:
  "char_cases cs name n \<noteq> - 1 \<Longrightarrow>
   \<exists>c ss s. (c, ss) \<in> set cs \<and> (s, char_cases cs name n) \<in> set ss \<and> ascii s = take n name \<and>
     name ! n = of_char c"
proof (induction cs name n rule: char_cases.induct)
  case (2 c ss cs name n)
  show ?case
  proof (cases "name ! n = of_char c")
    case True
    then obtain s where "(s, char_cases ((c, ss) # cs) name n) \<in> set ss" "ascii s = take n name"
      using memeq_cases_found [of ss name n] 2(2) by auto
    with True show ?thesis by (intro exI [of _ c] exI [of _ ss] exI [of _ s]) simp
  next
    case False
    then obtain c' ss' s where "(c', ss') \<in> set cs" "(s, char_cases cs name n) \<in> set ss'"
        "ascii s = take n name" "name ! n = of_char c'"
      using 2 by auto
    with False show ?thesis by (intro exI [of _ c'] exI [of _ ss'] exI [of _ s]) simp
  qed
qed simp

lemma lookup_token_found:
  assumes "lookup_token name \<noteq> - 1"
  shows "(name, lookup_token name) \<in> set token_names"
proof -
  obtain cs where cs: "map_of token_switch (length name) = Some cs"
      "lookup_token name = char_cases cs name (length name - 1)"
    using assms by (auto simp: lookup_token_def split: option.splits)
  obtain c ss s where f: "(c, ss) \<in> set cs" "(s, lookup_token name) \<in> set ss"
      "ascii s = take (length name - 1) name" "name ! (length name - 1) = of_char c"
    using char_cases_found [of cs name "length name - 1"] assms cs(2) by auto
  have mem: "(length name, cs) \<in> set token_switch" using cs(1) by (rule map_of_SomeD)
  moreover have "\<forall>n \<in> fst ` set token_switch. n \<noteq> 0"
    by (simp add: token_switch_def token_cases_1_def token_cases_2_def token_cases_3_def)
  ultimately have "length name \<noteq> 0" by force
  then have "name = ascii s @ [of_char c]"
    using last_split [of name "length name - 1"] f(3,4) by simp
  then show ?thesis
    using mem f(1,2) unfolding token_names_def switch_names_def by force
qed

lemmas token_data = token_switch_def token_cases_1_def token_cases_2_def token_cases_3_def

lemma token_names_lookup: "list_all (\<lambda>(name, t). lookup_token name = t) token_names"
  by (simp add: token_names_def switch_names_def lookup_token_def token_data)

lemma token_names_tokens: "distinct (map snd token_names)" "\<forall>t \<in> snd ` set token_names. 0 \<le> t \<and> t \<le> 67"
  by (simp_all add: token_names_def switch_names_def token_data)

section \<open>The static table\<close>

record static_entry =
  st_name :: bytes
  st_value :: bytes
  st_token :: int
  st_hash :: u32

text \<open>\<open>MAKE_STATIC_ENT\<close>.\<close>

definition static_ent :: "string \<Rightarrow> string \<Rightarrow> int \<Rightarrow> u32 \<Rightarrow> static_entry" where
  "static_ent n v t h = \<lparr>st_name = ascii n, st_value = ascii v, st_token = t, st_hash = h\<rparr>"

definition NGHTTP2_STATIC_TABLE_LENGTH :: nat where "NGHTTP2_STATIC_TABLE_LENGTH = 61"

definition static_table :: "static_entry list" where
  "static_table =
    [static_ent '':authority'' '''' 0 3153725150,
     static_ent '':method'' ''GET'' 1 695666056,
     static_ent '':method'' ''POST'' 1 695666056,
     static_ent '':path'' ''/'' 3 3292848686,
     static_ent '':path'' ''/index.html'' 3 3292848686,
     static_ent '':scheme'' ''http'' 5 2510477674,
     static_ent '':scheme'' ''https'' 5 2510477674,
     static_ent '':status'' ''200'' 7 4000288983,
     static_ent '':status'' ''204'' 7 4000288983,
     static_ent '':status'' ''206'' 7 4000288983,
     static_ent '':status'' ''304'' 7 4000288983,
     static_ent '':status'' ''400'' 7 4000288983,
     static_ent '':status'' ''404'' 7 4000288983,
     static_ent '':status'' ''500'' 7 4000288983,
     static_ent ''accept-charset'' '''' 14 3664010344,
     static_ent ''accept-encoding'' ''gzip, deflate'' 15 3379649177,
     static_ent ''accept-language'' '''' 16 1979086614,
     static_ent ''accept-ranges'' '''' 17 1713753958,
     static_ent ''accept'' '''' 18 136609321,
     static_ent ''access-control-allow-origin'' '''' 19 2710797292,
     static_ent ''age'' '''' 20 742476188,
     static_ent ''allow'' '''' 21 2930878514,
     static_ent ''authorization'' '''' 22 2436257726,
     static_ent ''cache-control'' '''' 23 1355326669,
     static_ent ''content-disposition'' '''' 24 3889184348,
     static_ent ''content-encoding'' '''' 25 65203592,
     static_ent ''content-language'' '''' 26 24973587,
     static_ent ''content-length'' '''' 27 1308181789,
     static_ent ''content-location'' '''' 28 2302364718,
     static_ent ''content-range'' '''' 29 3555523146,
     static_ent ''content-type'' '''' 30 4244048277,
     static_ent ''cookie'' '''' 31 2007449791,
     static_ent ''date'' '''' 32 3564297305,
     static_ent ''etag'' '''' 33 113792960,
     static_ent ''expect'' '''' 34 2530896728,
     static_ent ''expires'' '''' 35 1049544579,
     static_ent ''from'' '''' 36 2513272949,
     static_ent ''host'' '''' 37 2952701295,
     static_ent ''if-match'' '''' 38 3597694698,
     static_ent ''if-modified-since'' '''' 39 2213050793,
     static_ent ''if-none-match'' '''' 40 2536202615,
     static_ent ''if-range'' '''' 41 2340978238,
     static_ent ''if-unmodified-since'' '''' 42 3794814858,
     static_ent ''last-modified'' '''' 43 3226950251,
     static_ent ''link'' '''' 44 232457833,
     static_ent ''location'' '''' 45 200649126,
     static_ent ''max-forwards'' '''' 46 1826162134,
     static_ent ''proxy-authenticate'' '''' 47 2709445359,
     static_ent ''proxy-authorization'' '''' 48 2686392507,
     static_ent ''range'' '''' 49 4208725202,
     static_ent ''referer'' '''' 50 3969579366,
     static_ent ''refresh'' '''' 51 3572655668,
     static_ent ''retry-after'' '''' 52 3336180598,
     static_ent ''server'' '''' 53 1085029842,
     static_ent ''set-cookie'' '''' 54 1848371000,
     static_ent ''strict-transport-security'' '''' 55 4138147361,
     static_ent ''transfer-encoding'' '''' 56 3719590988,
     static_ent ''user-agent'' '''' 57 606444526,
     static_ent ''vary'' '''' 58 1085005381,
     static_ent ''via'' '''' 59 1762798611,
     static_ent ''www-authenticate'' '''' 60 779865858]"

text \<open>The 32-bit FNV-1a hash of a name.\<close>

fun fnv_loop :: "u32 \<Rightarrow> bytes \<Rightarrow> u32" where
  "fnv_loop h [] = h"
| "fnv_loop h (c # cs) =
     (let h = h XOR ucast c in
      fnv_loop (h + (push_bit 1 h + push_bit 4 h + push_bit 7 h + push_bit 8 h + push_bit 24 h)) cs)"

definition name_hash :: "bytes \<Rightarrow> u32" where
  "name_hash name = fnv_loop 2166136261 name"

lemma length_static_table: "length static_table = 61"
  by (simp add: static_table_def)

lemma static_tokens: "list_all (\<lambda>e. lookup_token (st_name e) = st_token e) static_table"
  by (simp add: static_table_def static_ent_def lookup_token_def token_data)

lemma static_token_list:
  "map st_token static_table =
     [0, 1, 1, 3, 3, 5, 5, 7, 7, 7, 7, 7, 7, 7] @ map int [14..<61]"
  by (simp add: static_table_def static_ent_def upt_rec [of _ "numeral n" for n])

lemma nth_append_upt:
  "length xs = a \<Longrightarrow> \<not> i < a \<Longrightarrow> i < b \<Longrightarrow> (xs @ map int [a..<b]) ! i = int i"
  by (simp add: nth_append)

lemma static_token_at:
  assumes "i < 61"
  shows "0 \<le> st_token (static_table ! i) \<and> nat (st_token (static_table ! i)) \<le> i \<and>
    st_token (static_table ! nat (st_token (static_table ! i))) = st_token (static_table ! i)"
proof -
  have at: "st_token (static_table ! j) =
      ([0, 1, 1, 3, 3, 5, 5, 7, 7, 7, 7, 7, 7, 7] @ map int [14..<61]) ! j" if "j < 61" for j
    using nth_map [of j static_table st_token] that length_static_table
    unfolding static_token_list by metis
  show ?thesis
  proof (cases "i < 14")
    case True
    then have "i \<in> {0, 1, 2, 3, 4, 5, 6, 7, 8, 9, 10, 11, 12, 13}" by (simp, presburger)
    then show ?thesis by (elim insertE) (simp_all add: at)
  next
    case False
    then have "st_token (static_table ! i) = int i"
      unfolding at [OF assms] by (intro nth_append_upt [OF _ _ assms]) simp_all
    then show ?thesis by simp
  qed
qed

lemma lookup_token_inj:
  assumes "lookup_token a = lookup_token b" "lookup_token a \<noteq> - 1"
  shows "a = b"
proof -
  have "(a, lookup_token a) \<in> set token_names" "(b, lookup_token a) \<in> set token_names"
    using lookup_token_found [of a] lookup_token_found [of b] assms by auto
  moreover have "inj_on snd (set token_names)" using token_names_tokens(1) by (simp add: distinct_map)
  ultimately show ?thesis by (metis inj_onD prod.inject snd_conv)
qed

lemma lookup_token_map_of: "lookup_token name = (case map_of token_names name of None \<Rightarrow> - 1 | Some t \<Rightarrow> t)"
proof (cases "map_of token_names name")
  case None
  then have "(name, t) \<notin> set token_names" for t by (force simp: map_of_eq_None_iff)
  then show ?thesis using lookup_token_found [of name] None by auto
next
  case (Some t)
  then have "(name, t) \<in> set token_names" by (rule map_of_SomeD)
  then show ?thesis using Some token_names_lookup by (auto simp: list_all_iff)
qed

lemma static_token: "i < 61 \<Longrightarrow> lookup_token (st_name (static_table ! i)) = st_token (static_table ! i)"
  using static_tokens length_static_table by (simp add: list_all_length)

text \<open>The first row with the name of a row is the one its token says, and the rows in between have the
  same name.\<close>

lemma static_tokens_sorted:
  "i \<le> j \<Longrightarrow> j < 61 \<Longrightarrow> st_token (static_table ! i) \<le> st_token (static_table ! j)"
proof -
  have "sorted (map st_token static_table)"
    unfolding static_token_list by (auto simp: sorted_append sorted_map)
  then show "i \<le> j \<Longrightarrow> j < 61 \<Longrightarrow> st_token (static_table ! i) \<le> st_token (static_table ! j)"
    using sorted_nth_mono [of "map st_token static_table" i j] length_static_table by simp
qed

lemma static_row:
  assumes "i < 61"
  shows "0 \<le> st_token (static_table ! i) \<and> nat (st_token (static_table ! i)) \<le> i \<and>
    (\<forall>j. nat (st_token (static_table ! i)) \<le> j \<and> j \<le> i \<longrightarrow>
       st_token (static_table ! j) = st_token (static_table ! i) \<and>
       st_name (static_table ! j) = st_name (static_table ! i))"
proof -
  note at = static_token_at [OF assms]
  let ?t = "nat (st_token (static_table ! i))"
  have tok: "st_token (static_table ! j) = st_token (static_table ! i)" if "?t \<le> j" "j \<le> i" for j
    using static_tokens_sorted [of ?t j] static_tokens_sorted [of j i] that at assms by simp
  have "st_name (static_table ! j) = st_name (static_table ! i)" if "?t \<le> j" "j \<le> i" for j
    using lookup_token_inj [of "st_name (static_table ! j)" "st_name (static_table ! i)"]
      static_token [of j] static_token [of i] tok [OF that] that assms at by simp
  then show ?thesis using at tok by blast
qed

text \<open>\<open>lookup_token\<close> finds exactly the names of its table: the result is the token of the name,
  or -1 when it has none; two names with the same token are equal; and every row of the static
  table of HPACK carries the token of its name, which is the index of the first row with that
  name.\<close>
theorem lookup_token_correct:
  "lookup_token name = (case map_of token_names name of None \<Rightarrow> - 1 | Some t \<Rightarrow> t) \<and>
   (lookup_token a = lookup_token b \<and> lookup_token a \<noteq> - 1 \<longrightarrow> a = b) \<and>
   (i < 61 \<longrightarrow> lookup_token (st_name (static_table ! i)) = st_token (static_table ! i) \<and>
      nat (st_token (static_table ! i)) \<le> i \<and>
      st_name (static_table ! nat (st_token (static_table ! i))) = st_name (static_table ! i))"
proof -
  have "nat (st_token (static_table ! i)) \<le> i \<and>
      st_name (static_table ! nat (st_token (static_table ! i))) = st_name (static_table ! i)" if "i < 61"
    using static_row [OF that] by blast
  then show ?thesis using lookup_token_map_of [of name] lookup_token_inj [of a b] static_token [of i] by blast
qed

theorem lookup_token_correct_witness:
  "lookup_token (ascii '':path'') = 3 \<and> lookup_token (ascii ''x-custom'') = - 1 \<and>
   st_name (static_table ! 3) = st_name (static_table ! 4)"
proof -
  have p: "lookup_token (ascii '':path'') = 3" "lookup_token (ascii ''x-custom'') = - 1"
    by (simp_all add: lookup_token_def token_data)
  have "st_token (static_table ! 4) = 3" by (simp add: static_table_def static_ent_def)
  then show ?thesis
    using p lookup_token_correct [of "ascii '':path''" "ascii '':path''" "ascii '':path''" 4] by simp
qed

end
