(* ===== verification/HdTable.thy ===== *)
theory HdTable
  imports Ring Token "HOL-Library.Multiset"
begin

text \<open>
  The tables of HPACK (\<open>nghttp2_hd.c\<close>): the dynamic table with its eviction, the hash map the
  deflater searches it with, and the search over both tables. The reference counts of names and
  values are left out: an entry holds their bytes. A chain of the hash map is a list; an entry is
  recognised by its sequence number, as the source recognises it by its address. The lemmas show
  that the table holds what RFC 7541 prescribes and that an index found by the search leads to
  the field it was found for.
\<close>

section \<open>Entries and the hash map\<close>

record hd_nv =
  nv_name :: bytes
  nv_value :: bytes
  nv_token :: int
  nv_flags :: u8

record hd_entry =
  ent_nv :: hd_nv
  ent_seq :: u32
  ent_hash :: u32

type_synonym hd_map = "hd_entry list list"

definition NGHTTP2_HD_ENTRY_OVERHEAD :: u32 where "NGHTTP2_HD_ENTRY_OVERHEAD = 32"
definition HD_MAP_SIZE :: nat where "HD_MAP_SIZE = 128"
definition NGHTTP2_NV_FLAG_NONE :: u8 where "NGHTTP2_NV_FLAG_NONE = 0"

definition entry_room :: "nat \<Rightarrow> nat \<Rightarrow> u32" where
  "entry_room namelen valuelen = NGHTTP2_HD_ENTRY_OVERHEAD + of_nat namelen + of_nat valuelen"

definition hd_map_init :: hd_map where
  "hd_map_init = replicate HD_MAP_SIZE []"

definition map_slot :: "u32 \<Rightarrow> nat" where
  "map_slot h = unat (h AND (of_nat HD_MAP_SIZE - 1))"

definition hd_map_insert :: "hd_map \<Rightarrow> hd_entry \<Rightarrow> hd_map" where
  "hd_map_insert hm ent =
     (let b = map_slot (ent_hash ent) in
      if hm ! b = [] then hm[b := [ent]] else hm[b := ent # hm ! b])"

fun find_chain :: "hd_entry list \<Rightarrow> hd_entry option \<Rightarrow> bytes \<Rightarrow> bytes \<Rightarrow> int \<Rightarrow> u32 \<Rightarrow> bool \<Rightarrow>
    hd_entry option \<times> bool" where
  "find_chain [] found name val token h name_only = (found, False)"
| "find_chain (p # ps) found name val token h name_only =
     (if token \<noteq> nv_token (ent_nv p) \<or>
         (token = - 1 \<and> (h \<noteq> ent_hash p \<or> nv_name (ent_nv p) \<noteq> name))
      then find_chain ps found name val token h name_only
      else if found = None \<and> name_only then (Some p, False)
      else if nv_value (ent_nv p) = val then (Some p, True)
      else find_chain ps (if found = None then Some p else found) name val token h name_only)"

definition hd_map_find :: "hd_map \<Rightarrow> bytes \<Rightarrow> bytes \<Rightarrow> int \<Rightarrow> u32 \<Rightarrow> bool \<Rightarrow> hd_entry option \<times> bool" where
  "hd_map_find hm name val token h name_only =
     find_chain (hm ! map_slot h) None name val token h name_only"

fun unlink_entry :: "hd_entry \<Rightarrow> hd_entry list \<Rightarrow> hd_entry list" where
  "unlink_entry ent [] = []"
| "unlink_entry ent (p # ps) = (if ent_seq p \<noteq> ent_seq ent then p # unlink_entry ent ps else ps)"

definition hd_map_remove :: "hd_map \<Rightarrow> hd_entry \<Rightarrow> hd_map" where
  "hd_map_remove hm ent =
     (let b = map_slot (ent_hash ent) in hm[b := unlink_entry ent (hm ! b)])"

section \<open>The dynamic table\<close>

record hd_context =
  hd_table :: "hd_entry ringbuf"
  hd_table_bufsize :: u32
  hd_table_bufsize_max :: u32
  next_seq :: u32
  ctx_bad :: bool

definition NGHTTP2_HD_DEFAULT_MAX_BUFFER_SIZE :: u32 where "NGHTTP2_HD_DEFAULT_MAX_BUFFER_SIZE = 4096"

definition hd_context_init :: "(nat \<Rightarrow> bool) \<Rightarrow> hd_context res option" where
  "hd_context_init grant =
     map_option (\<lambda>r. rbind r (\<lambda>rb.
       Inr \<lparr>hd_table = rb, hd_table_bufsize = 0,
            hd_table_bufsize_max = NGHTTP2_HD_DEFAULT_MAX_BUFFER_SIZE, next_seq = 0, ctx_bad = False\<rparr>))
       (hd_ringbuf_init grant (NGHTTP2_HD_DEFAULT_MAX_BUFFER_SIZE div NGHTTP2_HD_ENTRY_OVERHEAD))"

text \<open>The two eviction loops: for a new entry of size \<open>room\<close>, and with \<open>room\<close> 0 for a smaller table.
  \<open>hm\<close> is the hash map of the deflater; the inflater has none.\<close>

function hd_evict :: "u32 \<Rightarrow> hd_context \<Rightarrow> hd_map option \<Rightarrow> (hd_context \<times> hd_map option) res" where
  "hd_evict room ctx hm =
     (if hd_table_bufsize ctx + room > hd_table_bufsize_max ctx \<and> rb_len (hd_table ctx) > 0
      then case hd_ringbuf_get (hd_table ctx) (rb_len (hd_table ctx) - 1) of
          Inl e \<Rightarrow> Inl e
        | Inr ent \<Rightarrow>
            (case hd_ringbuf_pop_back (hd_table ctx) of
               Inl e \<Rightarrow> Inl e
             | Inr rb \<Rightarrow>
                 hd_evict room
                   (ctx\<lparr>hd_table := rb,
                        hd_table_bufsize := hd_table_bufsize ctx -
                          entry_room (length (nv_name (ent_nv ent))) (length (nv_value (ent_nv ent)))\<rparr>)
                   (map_option (\<lambda>m. hd_map_remove m ent) hm))
      else Inr (ctx, hm))"
  by pat_completeness auto
termination
  by (relation "measure (\<lambda>(room, ctx, hm). rb_len (hd_table ctx))")
    (auto simp: hd_ringbuf_pop_back_def)

declare hd_evict.simps [simp del]

definition sizeof_hd_entry :: nat where "sizeof_hd_entry = 48"

definition add_hd_table_incremental :: "(nat \<Rightarrow> bool) \<Rightarrow> hd_context \<Rightarrow> hd_nv \<Rightarrow> hd_map option \<Rightarrow> u32 \<Rightarrow>
    (hd_context \<times> hd_map option \<times> unit res) option" where
  "add_hd_table_incremental grant ctx nv hm h =
     (let room = entry_room (length (nv_name nv)) (length (nv_value nv)) in
      case hd_evict room ctx hm of
        Inl e \<Rightarrow> Some (ctx, hm, Inl e)
      | Inr (ctx, hm) \<Rightarrow>
          if room > hd_table_bufsize_max ctx then Some (ctx, hm, Inr ())
          else if \<not> grant sizeof_hd_entry then Some (ctx, hm, Inl (Code NGHTTP2_ERR_NOMEM))
          else let new_ent = \<lparr>ent_nv = nv, ent_seq = next_seq ctx, ent_hash = h\<rparr> in
            (case hd_ringbuf_push_front grant (hd_table ctx) new_ent of
               None \<Rightarrow> None
             | Some (Inl e) \<Rightarrow> Some (ctx, hm, Inl e)
             | Some (Inr rb) \<Rightarrow>
                 Some (ctx\<lparr>hd_table := rb, hd_table_bufsize := hd_table_bufsize ctx + room,
                           next_seq := next_seq ctx + 1\<rparr>,
                   map_option (\<lambda>m. hd_map_insert m new_ent) hm, Inr ())))"

definition hd_context_shrink_table_size :: "hd_context \<Rightarrow> hd_map option \<Rightarrow> (hd_context \<times> hd_map option) res"
  where "hd_context_shrink_table_size ctx hm = hd_evict 0 ctx hm"

section \<open>Search and access\<close>

datatype indexing_mode = WITH_INDEXING | WITHOUT_INDEXING | NEVER_INDEXING

record search_result =
  sr_index :: int
  sr_match :: bool

text \<open>The loop over the rows from \<open>i\<close> on that have the token.\<close>

fun search_rows :: "static_entry list \<Rightarrow> int \<Rightarrow> int \<Rightarrow> bytes \<Rightarrow> search_result" where
  "search_rows [] i token val = \<lparr>sr_index = token, sr_match = False\<rparr>"
| "search_rows (ent # ents) i token val =
     (if i \<le> NGHTTP2_TOKEN_WWW_AUTHENTICATE \<and> st_token ent = token
      then if st_value ent = val then \<lparr>sr_index = i, sr_match = True\<rparr>
           else search_rows ents (i + 1) token val
      else \<lparr>sr_index = token, sr_match = False\<rparr>)"

definition search_static_table :: "bytes \<Rightarrow> int \<Rightarrow> bool \<Rightarrow> search_result" where
  "search_static_table val token name_only =
     (if name_only then \<lparr>sr_index = token, sr_match = False\<rparr>
      else search_rows (drop (nat token) static_table) token token val)"

definition search_hd_table :: "hd_context \<Rightarrow> bytes \<Rightarrow> bytes \<Rightarrow> int \<Rightarrow> indexing_mode \<Rightarrow> hd_map \<Rightarrow> u32 \<Rightarrow>
    search_result" where
  "search_hd_table ctx name val token mode hm h =
     (let name_only = (mode = NEVER_INDEXING) in
      case hd_map_find hm name val token h name_only of
        (ent, exact) \<Rightarrow>
          if \<not> exact \<and> 0 \<le> token \<and> token \<le> NGHTTP2_TOKEN_WWW_AUTHENTICATE
          then search_static_table val token name_only
          else (case ent of
              None \<Rightarrow> \<lparr>sr_index = - 1, sr_match = False\<rparr>
            | Some ent \<Rightarrow>
                \<lparr>sr_index = sint (next_seq ctx - 1 - ent_seq ent + of_nat NGHTTP2_STATIC_TABLE_LENGTH),
                 sr_match = exact\<rparr>))"

definition get_max_index :: "hd_context \<Rightarrow> nat" where
  "get_max_index ctx = rb_len (hd_table ctx) + NGHTTP2_STATIC_TABLE_LENGTH"

definition nghttp2_hd_table_get :: "hd_context \<Rightarrow> nat \<Rightarrow> hd_nv res" where
  "nghttp2_hd_table_get ctx idx =
     rbind (assert_that (idx < rb_len (hd_table ctx) + NGHTTP2_STATIC_TABLE_LENGTH)) (\<lambda>_.
       if idx \<ge> NGHTTP2_STATIC_TABLE_LENGTH
       then rbind (hd_ringbuf_get (hd_table ctx) (idx - NGHTTP2_STATIC_TABLE_LENGTH)) (\<lambda>ent. Inr (ent_nv ent))
       else let ent = static_table ! idx in
         Inr \<lparr>nv_name = st_name ent, nv_value = st_value ent, nv_token = st_token ent,
              nv_flags = NGHTTP2_NV_FLAG_NONE\<rparr>)"

section \<open>The table of RFC 7541\<close>

definition room_of :: "hd_nv \<Rightarrow> nat" where
  "room_of nv = 32 + length (nv_name nv) + length (nv_value nv)"

definition table_size :: "hd_nv list \<Rightarrow> nat" where
  "table_size nvs = sum_list (map room_of nvs)"

text \<open>What remains of a table, newest entry first, when entries are evicted from its end until it
  takes at most \<open>m\<close> bytes; and the table after an insertion (RFC 7541, 4.4).\<close>

fun fitting :: "nat \<Rightarrow> hd_nv list \<Rightarrow> hd_nv list" where
  "fitting m [] = []"
| "fitting m (nv # nvs) = (if room_of nv \<le> m then nv # fitting (m - room_of nv) nvs else [])"

definition rfc_insert :: "nat \<Rightarrow> hd_nv \<Rightarrow> hd_nv list \<Rightarrow> hd_nv list" where
  "rfc_insert max_size nv nvs =
     (if room_of nv \<le> max_size then nv # fitting (max_size - room_of nv) nvs else [])"

definition table_entries :: "hd_context \<Rightarrow> hd_entry list" where
  "table_entries ctx = ring_list (hd_table ctx)"

definition table_nvs :: "hd_context \<Rightarrow> hd_nv list" where
  "table_nvs ctx = map ent_nv (table_entries ctx)"

text \<open>The state between two operations. A maximum below \<open>2\<^sup>31\<close> keeps the sums of sizes from
  wrapping around.\<close>

definition context_ok :: "hd_context \<Rightarrow> bool" where
  "context_ok ctx \<longleftrightarrow> ring_ok (hd_table ctx) \<and>
     unat (hd_table_bufsize ctx) = table_size (table_nvs ctx) \<and>
     table_size (table_nvs ctx) < 2 ^ 31 \<and> unat (hd_table_bufsize_max ctx) < 2 ^ 31 \<and>
     (\<forall>i < length (table_entries ctx).
        ent_seq (table_entries ctx ! i) = next_seq ctx - 1 - of_nat i)"

definition hd_map_ok :: "hd_map \<Rightarrow> hd_entry list \<Rightarrow> bool" where
  "hd_map_ok hm es \<longleftrightarrow> length hm = HD_MAP_SIZE \<and>
     (\<forall>b < HD_MAP_SIZE. hm ! b = filter (\<lambda>e. map_slot (ent_hash e) = b) es)"

definition opt_map_ok :: "hd_map option \<Rightarrow> hd_entry list \<Rightarrow> bool" where
  "opt_map_ok hm es \<longleftrightarrow> (case hm of None \<Rightarrow> True | Some m \<Rightarrow> hd_map_ok m es)"

lemma table_size_simps [simp]:
  "table_size [] = 0" "table_size (nv # nvs) = room_of nv + table_size nvs"
  "table_size (xs @ ys) = table_size xs + table_size ys"
  by (simp_all add: table_size_def)

lemma table_size_length: "32 * length nvs \<le> table_size nvs"
  by (induction nvs) (simp_all add: room_of_def)

lemma fitting_all: "table_size nvs \<le> m \<Longrightarrow> fitting m nvs = nvs"
  by (induction nvs arbitrary: m) auto

lemma fitting_snoc: "m < table_size (nvs @ [nv]) \<Longrightarrow> fitting m (nvs @ [nv]) = fitting m nvs"
  by (induction nvs arbitrary: m) auto

lemma fitting_size: "table_size (fitting m nvs) \<le> m"
proof (induction nvs arbitrary: m)
  case (Cons nv nvs)
  show ?case using Cons [of "m - room_of nv"] by auto
qed simp

lemma unat_entry_room:
  assumes "room_of nv \<le> 2 ^ 31"
  shows "unat (entry_room (length (nv_name nv)) (length (nv_value nv))) = room_of nv"
proof -
  have "entry_room (length (nv_name nv)) (length (nv_value nv)) = of_nat (room_of nv)"
    by (simp add: entry_room_def room_of_def NGHTTP2_HD_ENTRY_OVERHEAD_def)
  then show ?thesis using assms by (simp only: unat_of_nat) (simp add: take_bit_nat_eq_self)
qed

section \<open>Eviction and insertion\<close>

lemma map_slot_less: "map_slot h < HD_MAP_SIZE"
proof -
  have "(of_nat HD_MAP_SIZE - 1 :: u32) = mask 7" by (simp add: HD_MAP_SIZE_def mask_eq_exp_minus_1)
  then have "map_slot h = unat h mod 2 ^ 7" unfolding map_slot_def by (simp only: unat_and_mask)
  then show ?thesis by (simp add: HD_MAP_SIZE_def)
qed

lemma seqs_differ:
  assumes "i < j" "j < 2 ^ 32"
  shows "(s :: u32) - 1 - of_nat i \<noteq> s - 1 - of_nat j"
proof
  assume "s - 1 - of_nat i = s - 1 - of_nat j"
  then have "(of_nat i :: u32) = of_nat j" by simp
  then have "unat (of_nat i :: u32) = unat (of_nat j :: u32)" by simp
  then show False using assms by (simp add: unat_of_nat take_bit_nat_eq_self)
qed

lemma context_seqs:
  assumes "context_ok ctx" "i < length (table_entries ctx)" "j < length (table_entries ctx)" "i \<noteq> j"
  shows "ent_seq (table_entries ctx ! i) \<noteq> ent_seq (table_entries ctx ! j)"
proof -
  have "length (table_entries ctx) < 2 ^ 32"
    using assms(1) table_size_length [of "table_nvs ctx"] by (simp add: context_ok_def table_nvs_def)
  then show ?thesis
    using assms seqs_differ [of i j "next_seq ctx"] seqs_differ [of j i "next_seq ctx"]
    by (cases "i < j") (auto simp: context_ok_def)
qed

lemma unlink_last:
  "\<forall>p \<in> set ps. ent_seq p \<noteq> ent_seq e \<Longrightarrow> unlink_entry e (ps @ [e]) = ps"
  by (induction ps) auto

lemma hd_map_remove_ok:
  assumes "hd_map_ok hm (es @ [e])" "\<forall>p \<in> set es. ent_seq p \<noteq> ent_seq e"
  shows "hd_map_ok (hd_map_remove hm e) es"
proof -
  let ?b = "map_slot (ent_hash e)"
  have "hm ! ?b = filter (\<lambda>x. map_slot (ent_hash x) = ?b) es @ [e]"
    using assms(1) map_slot_less [of "ent_hash e"] by (simp add: hd_map_ok_def)
  then have "unlink_entry e (hm ! ?b) = filter (\<lambda>x. map_slot (ent_hash x) = ?b) es"
    using unlink_last [of "filter (\<lambda>x. map_slot (ent_hash x) = ?b) es" e] assms(2) by simp
  moreover have "hm ! b = filter (\<lambda>x. map_slot (ent_hash x) = b) es" if "b < HD_MAP_SIZE" "b \<noteq> ?b" for b
    using assms(1) that by (simp add: hd_map_ok_def)
  ultimately have "hd_map_remove hm e ! b = filter (\<lambda>x. map_slot (ent_hash x) = b) es" if "b < HD_MAP_SIZE" for b
    using assms(1) that by (cases "b = ?b") (simp_all add: hd_map_ok_def hd_map_remove_def Let_def)
  then show ?thesis using assms(1) by (simp add: hd_map_ok_def) (simp add: hd_map_remove_def Let_def)
qed

lemma hd_map_insert_ok:
  assumes "hd_map_ok hm es"
  shows "hd_map_ok (hd_map_insert hm e) (e # es)"
  using assms map_slot_less [of "ent_hash e"]
  by (auto simp: hd_map_ok_def hd_map_insert_def Let_def nth_list_update)

lemma evict_step:
  assumes ctx: "context_ok ctx" and es: "table_entries ctx = es @ [e]" and hm: "opt_map_ok hm (es @ [e])"
  shows "\<exists>rb. hd_ringbuf_get (hd_table ctx) (rb_len (hd_table ctx) - 1) = Inr e \<and>
    hd_ringbuf_pop_back (hd_table ctx) = Inr rb \<and>
    (let ctx' = ctx\<lparr>hd_table := rb, hd_table_bufsize := hd_table_bufsize ctx -
           entry_room (length (nv_name (ent_nv e))) (length (nv_value (ent_nv e)))\<rparr> in
     context_ok ctx' \<and> table_entries ctx' = es \<and>
     opt_map_ok (map_option (\<lambda>m. hd_map_remove m e) hm) es)"
proof -
  have rb: "ring_ok (hd_table ctx)" "ring_list (hd_table ctx) = es @ [e]"
    using ctx es by (auto simp: context_ok_def table_entries_def)
  have len: "rb_len (hd_table ctx) = Suc (length es)" using rb(2) length_ring_list [of "hd_table ctx"] by simp
  obtain rb' where rb': "hd_ringbuf_pop_back (hd_table ctx) = Inr rb'" "ring_ok rb'" "ring_list rb' = es"
    using pop_back_ring [OF rb(1)] len rb(2) by auto
  have get: "hd_ringbuf_get (hd_table ctx) (rb_len (hd_table ctx) - 1) = Inr e"
    using get_ring_at [OF rb(1), of "length es"] len rb(2) by simp
  have size: "table_size (table_nvs ctx) = table_size (map ent_nv es) + room_of (ent_nv e)"
    using es by (simp add: table_nvs_def)
  have less: "table_size (table_nvs ctx) < 2 ^ 31" using ctx by (simp add: context_ok_def)
  then have room: "unat (entry_room (length (nv_name (ent_nv e))) (length (nv_value (ent_nv e)))) = room_of (ent_nv e)"
    using size by (intro unat_entry_room) simp
  have sub: "unat (hd_table_bufsize ctx - entry_room (length (nv_name (ent_nv e))) (length (nv_value (ent_nv e)))) =
      table_size (map ent_nv es)"
    using ctx size room by (simp add: unat_sub_if' context_ok_def)
  have seq: "ent_seq (es ! i) = next_seq ctx - 1 - of_nat i" if "i < length es" for i
    using ctx es that by (auto simp: context_ok_def nth_append dest!: spec [of _ i])
  have "\<forall>p \<in> set es. ent_seq p \<noteq> ent_seq e"
  proof
    fix p assume "p \<in> set es"
    then obtain i where "i < length es" "p = es ! i" by (metis in_set_conv_nth)
    then show "ent_seq p \<noteq> ent_seq e"
      using context_seqs [OF ctx, of i "length es"] es by (simp add: nth_append)
  qed
  then have "opt_map_ok (map_option (\<lambda>m. hd_map_remove m e) hm) es"
    using hm hd_map_remove_ok by (auto simp: opt_map_ok_def split: option.splits)
  then show ?thesis
    using get rb' ctx sub seq size less
    by (auto simp: context_ok_def table_entries_def table_nvs_def)
qed

definition evicted :: "u32 \<Rightarrow> hd_context \<Rightarrow> hd_context \<Rightarrow> bool" where
  "evicted room ctx ctx' \<longleftrightarrow> context_ok ctx' \<and>
     table_nvs ctx' = (if unat room \<le> unat (hd_table_bufsize_max ctx)
       then fitting (unat (hd_table_bufsize_max ctx) - unat room) (table_nvs ctx) else []) \<and>
     hd_table_bufsize_max ctx' = hd_table_bufsize_max ctx \<and> next_seq ctx' = next_seq ctx \<and>
     ctx_bad ctx' = ctx_bad ctx"

lemma evict_ok:
  "context_ok ctx \<Longrightarrow> opt_map_ok hm (table_entries ctx) \<Longrightarrow> unat room \<le> 2 ^ 31 \<Longrightarrow>
   \<exists>ctx' hm'. hd_evict room ctx hm = Inr (ctx', hm') \<and> evicted room ctx ctx' \<and>
     opt_map_ok hm' (table_entries ctx') \<and> (hm' = None \<longleftrightarrow> hm = None) \<and>
     (\<exists>k. table_entries ctx' = take k (table_entries ctx))"
proof (induction "length (table_entries ctx)" arbitrary: ctx hm)
  case 0
  then have nil: "table_entries ctx = []" by simp
  then have "rb_len (hd_table ctx) = 0" by (metis length_ring_list table_entries_def list.size(3))
  then show ?case using 0 nil
    by (subst hd_evict.simps) (auto simp: evicted_def table_nvs_def)
next
  case (Suc n)
  let ?max = "unat (hd_table_bufsize_max ctx)"
  obtain es e where es: "table_entries ctx = es @ [e]" using Suc.hyps(2) by (cases "table_entries ctx" rule: rev_cases) auto
  have len: "rb_len (hd_table ctx) > 0" using Suc.hyps(2) by (simp add: table_entries_def)
  have sizes: "unat (hd_table_bufsize ctx) = table_size (table_nvs ctx)" "table_size (table_nvs ctx) < 2 ^ 31"
    using Suc.prems(1) by (auto simp: context_ok_def)
  then have sum: "unat (hd_table_bufsize ctx + room) = table_size (table_nvs ctx) + unat room"
    using Suc.prems(3) by (simp add: unat_word_ariths)
  have nvs: "table_nvs ctx = map ent_nv es @ [ent_nv e]" by (simp add: table_nvs_def es)
  show ?case
  proof (cases "hd_table_bufsize ctx + room > hd_table_bufsize_max ctx")
    case False
    then have "table_size (table_nvs ctx) + unat room \<le> ?max" using sum by (simp add: word_less_nat_alt)
    then have "evicted room ctx ctx" using Suc.prems(1) by (simp add: evicted_def fitting_all)
    then show ?thesis using False Suc.prems(2)
      by (subst hd_evict.simps) (auto intro!: exI [of _ "length (table_entries ctx)"])
  next
    case True
    have "opt_map_ok hm (es @ [e])" using Suc.prems(2) es by simp
    from evict_step [OF Suc.prems(1) es this] obtain rb where rb:
      "hd_ringbuf_get (hd_table ctx) (rb_len (hd_table ctx) - 1) = Inr e"
      "hd_ringbuf_pop_back (hd_table ctx) = Inr rb"
      "let ctx' = ctx\<lparr>hd_table := rb, hd_table_bufsize := hd_table_bufsize ctx -
           entry_room (length (nv_name (ent_nv e))) (length (nv_value (ent_nv e)))\<rparr> in
       context_ok ctx' \<and> table_entries ctx' = es \<and>
       opt_map_ok (map_option (\<lambda>m. hd_map_remove m e) hm) es" by blast
    let ?ctx = "ctx\<lparr>hd_table := rb, hd_table_bufsize := hd_table_bufsize ctx -
           entry_room (length (nv_name (ent_nv e))) (length (nv_value (ent_nv e)))\<rparr>"
    let ?hm = "map_option (\<lambda>m. hd_map_remove m e) hm"
    have ok: "context_ok ?ctx" "table_entries ?ctx = es" "opt_map_ok ?hm es"
      using rb(3) by (auto simp: Let_def)
    have "n = length (table_entries ?ctx)" using Suc.hyps(2) es ok(2) by simp
    from Suc.hyps(1) [OF this ok(1) _ Suc.prems(3), of ?hm] ok obtain ctx' hm' k where IH:
      "hd_evict room ?ctx ?hm = Inr (ctx', hm')" "evicted room ?ctx ctx'"
      "opt_map_ok hm' (table_entries ctx')" "hm' = None \<longleftrightarrow> ?hm = None" "table_entries ctx' = take k es"
      by auto
    have step: "hd_evict room ctx hm = Inr (ctx', hm')"
      using True len rb(1,2) IH(1) by (subst hd_evict.simps) simp
    have "?max < table_size (table_nvs ctx) + unat room" using True sum by (simp add: word_less_nat_alt)
    then have "fitting (?max - unat room) (table_nvs ctx) = fitting (?max - unat room) (map ent_nv es)"
      if "unat room \<le> ?max"
      using that unfolding nvs by (intro fitting_snoc) simp
    then have evicted: "evicted room ctx ctx'"
      using IH(2) ok(2) by (simp add: evicted_def table_nvs_def)
    moreover have "take k es = take (min k (length es)) (es @ [e])" by (cases "k \<le> length es") auto
    ultimately have "\<exists>k. table_entries ctx' = take k (table_entries ctx)" using IH(5) es by metis
    moreover have "hm' = None \<longleftrightarrow> hm = None" using IH(4) by simp
    ultimately show ?thesis using step IH(3) evicted by blast
  qed
qed

text \<open>What an insertion leaves: the new entry before the entries that still fit, unless memory runs
  out; an entry that is larger than the table empties it.\<close>

lemma add_incremental_ok:
  assumes ctx: "context_ok ctx" and hm: "opt_map_ok hm (table_entries ctx)" and nv: "room_of nv \<le> 2 ^ 31"
  shows "\<exists>ctx' hm' r. add_hd_table_incremental grant ctx nv hm h = Some (ctx', hm', r) \<and>
    context_ok ctx' \<and> opt_map_ok hm' (table_entries ctx') \<and> (hm' = None \<longleftrightarrow> hm = None) \<and>
    hd_table_bufsize_max ctx' = hd_table_bufsize_max ctx \<and> ctx_bad ctx' = ctx_bad ctx \<and>
    (r = Inr () \<and> table_nvs ctx' = rfc_insert (unat (hd_table_bufsize_max ctx)) nv (table_nvs ctx) \<or>
     r = Inl (Code NGHTTP2_ERR_NOMEM) \<and> (\<exists>k. table_nvs ctx' = take k (table_nvs ctx))) \<and>
    (\<forall>e \<in> set (table_entries ctx'). e \<in> set (table_entries ctx) \<or> ent_nv e = nv \<and> ent_hash e = h)"
proof -
  let ?room = "entry_room (length (nv_name nv)) (length (nv_value nv))"
  have room: "unat ?room = room_of nv" by (rule unat_entry_room [OF nv])
  obtain ctx1 hm1 k where ev: "hd_evict ?room ctx hm = Inr (ctx1, hm1)" "evicted ?room ctx ctx1"
      "opt_map_ok hm1 (table_entries ctx1)" "hm1 = None \<longleftrightarrow> hm = None"
      "table_entries ctx1 = take k (table_entries ctx)"
    using evict_ok [OF ctx hm, of ?room] room nv by auto
  have sub: "set (table_entries ctx1) \<subseteq> set (table_entries ctx)" using ev(5) set_take_subset by metis
  have tk: "table_nvs ctx1 = take k (table_nvs ctx)" by (simp add: table_nvs_def ev(5) take_map)
  show ?thesis
  proof (cases "?room > hd_table_bufsize_max ctx1")
    case True
    then show ?thesis using ev room sub
      by (auto simp: add_hd_table_incremental_def Let_def evicted_def rfc_insert_def word_less_nat_alt)
  next
    case False
    let ?max = "unat (hd_table_bufsize_max ctx)"
    have ctx1: "context_ok ctx1" "hd_table_bufsize_max ctx1 = hd_table_bufsize_max ctx" "ctx_bad ctx1 = ctx_bad ctx"
      using ev(2) by (auto simp: evicted_def)
    have le: "room_of nv \<le> ?max" using False room ctx1(2) by (simp add: word_less_nat_alt)
    have nvs1: "table_nvs ctx1 = fitting (?max - room_of nv) (table_nvs ctx)"
      using ev(2) le room by (simp add: evicted_def)
    have size1: "table_size (table_nvs ctx1) \<le> ?max - room_of nv" unfolding nvs1 by (rule fitting_size)
    have max: "?max < 2 ^ 31" using ctx by (simp add: context_ok_def)
    have rb: "ring_ok (hd_table ctx1)" using ctx1(1) by (simp add: context_ok_def)
    have "32 * rb_len (hd_table ctx1) \<le> table_size (table_nvs ctx1)"
      using table_size_length [of "table_nvs ctx1"] by (simp add: table_nvs_def table_entries_def)
    then have "rb_len (hd_table ctx1) < 2 ^ 30" using size1 max by simp
    let ?ent = "\<lparr>ent_nv = nv, ent_seq = next_seq ctx1, ent_hash = h\<rparr>"
    have nomem: ?thesis if "add_hd_table_incremental grant ctx nv hm h = Some (ctx1, hm1, Inl (Code NGHTTP2_ERR_NOMEM))"
      using that ev(3,4) ctx1 sub tk by blast
    show ?thesis
    proof (cases "grant sizeof_hd_entry")
      case no: False
      then show ?thesis using False ev(1) by (intro nomem) (simp add: add_hd_table_incremental_def Let_def)
    next
      case grant: True
      from push_front_ring [OF rb \<open>rb_len (hd_table ctx1) < 2 ^ 30\<close>, of grant ?ent] show ?thesis
      proof (elim disjE exE conjE)
        assume "hd_ringbuf_push_front grant (hd_table ctx1) ?ent = Some (Inl (Code NGHTTP2_ERR_NOMEM))"
        then show ?thesis using False grant ev(1)
          by (intro nomem) (simp add: add_hd_table_incremental_def Let_def)
      next
        fix rb' assume rb': "hd_ringbuf_push_front grant (hd_table ctx1) ?ent = Some (Inr rb')" "ring_ok rb'"
          "ring_list rb' = ?ent # ring_list (hd_table ctx1)"
        let ?ctx = "ctx1\<lparr>hd_table := rb', hd_table_bufsize := hd_table_bufsize ctx1 + ?room,
                         next_seq := next_seq ctx1 + 1\<rparr>"
        let ?hm = "map_option (\<lambda>m. hd_map_insert m ?ent) hm1"
        have add: "add_hd_table_incremental grant ctx nv hm h = Some (?ctx, ?hm, Inr ())"
          using False grant ev(1) rb'(1) by (simp add: add_hd_table_incremental_def Let_def)
        have es: "table_entries ?ctx = ?ent # table_entries ctx1"
          using rb'(3) by (simp add: table_entries_def)
        have seq: "ent_seq (table_entries ?ctx ! i) = next_seq ?ctx - 1 - of_nat i"
          if "i < length (table_entries ?ctx)" for i
          using that ctx1(1) unfolding es by (cases i) (auto simp: context_ok_def)
        have size: "unat (hd_table_bufsize ?ctx) = table_size (table_nvs ?ctx)" "table_size (table_nvs ?ctx) < 2 ^ 31"
          using ctx1(1) room size1 max le by (auto simp: context_ok_def table_nvs_def es unat_word_ariths)
        have ok: "context_ok ?ctx"
          using rb'(2) seq size max ctx1(2) unfolding context_ok_def by simp
        have "opt_map_ok ?hm (table_entries ?ctx)"
          using ev(3) hd_map_insert_ok unfolding es by (auto simp: opt_map_ok_def split: option.splits)
        moreover have "table_nvs ?ctx = rfc_insert ?max nv (table_nvs ctx)"
          using nvs1 le by (simp add: table_nvs_def es rfc_insert_def)
        moreover have "\<forall>e \<in> set (table_entries ?ctx). e \<in> set (table_entries ctx) \<or> ent_nv e = nv \<and> ent_hash e = h"
          using sub unfolding es by auto
        ultimately show ?thesis using add ok ev(4) ctx1(2,3) by auto
      qed
    qed
  qed
qed

lemma rfc_insert_size: "table_size (rfc_insert m nv nvs) \<le> m"
  using fitting_size [of "m - room_of nv" nvs] by (auto simp: rfc_insert_def)

lemma shrink_ok:
  assumes "context_ok ctx" "opt_map_ok hm (table_entries ctx)"
  shows "\<exists>ctx' hm'. hd_context_shrink_table_size ctx hm = Inr (ctx', hm') \<and> context_ok ctx' \<and>
    opt_map_ok hm' (table_entries ctx') \<and> (hm' = None \<longleftrightarrow> hm = None) \<and>
    table_nvs ctx' = fitting (unat (hd_table_bufsize_max ctx)) (table_nvs ctx) \<and>
    hd_table_bufsize_max ctx' = hd_table_bufsize_max ctx \<and> ctx_bad ctx' = ctx_bad ctx \<and>
    set (table_entries ctx') \<subseteq> set (table_entries ctx)"
proof -
  obtain ctx' hm' k where ev: "hd_evict 0 ctx hm = Inr (ctx', hm')" "evicted 0 ctx ctx'"
      "opt_map_ok hm' (table_entries ctx')" "hm' = None \<longleftrightarrow> hm = None"
      "table_entries ctx' = take k (table_entries ctx)"
    using evict_ok [OF assms, of 0] by auto
  then show ?thesis
    using set_take_subset [of k "table_entries ctx"]
    by (auto simp: hd_context_shrink_table_size_def evicted_def)
qed

lemma table_size_take: "table_size (take k nvs) \<le> table_size nvs"
  using table_size_simps(3) [of "take k nvs" "drop k nvs"] by simp

text \<open>A context with an empty table, as \<open>hd_context_init\<close> makes it.\<close>

lemma context_init_ok:
  "(\<exists>ctx. hd_context_init grant = Some (Inr ctx) \<and> context_ok ctx \<and> table_entries ctx = [] \<and>
      hd_table_bufsize_max ctx = 4096 \<and> \<not> ctx_bad ctx) \<or>
   hd_context_init grant = Some (Inl (Code NGHTTP2_ERR_NOMEM))"
proof -
  have "unat (NGHTTP2_HD_DEFAULT_MAX_BUFFER_SIZE div NGHTTP2_HD_ENTRY_OVERHEAD) \<le> 2 ^ 30"
    by (simp add: NGHTTP2_HD_DEFAULT_MAX_BUFFER_SIZE_def NGHTTP2_HD_ENTRY_OVERHEAD_def)
  moreover have "rb_len rb = 0" if "ring_list rb = []" for rb :: "hd_entry ringbuf"
    using that length_ring_list [of rb] by simp
  ultimately show ?thesis
    using init_ring [of "NGHTTP2_HD_DEFAULT_MAX_BUFFER_SIZE div NGHTTP2_HD_ENTRY_OVERHEAD" grant, where 'a = hd_entry]
    by (fastforce simp: hd_context_init_def context_ok_def table_entries_def table_nvs_def
        NGHTTP2_HD_DEFAULT_MAX_BUFFER_SIZE_def)
qed

definition empty_context :: hd_context where
  "empty_context = \<lparr>hd_table = \<lparr>rb_buffer = [None], rb_mask = 0, rb_first = 0, rb_len = 0\<rparr>,
     hd_table_bufsize = 0, hd_table_bufsize_max = 4096, next_seq = 0, ctx_bad = False\<rparr>"

lemma empty_context_ok: "context_ok empty_context" "table_entries empty_context = []"
  by (auto simp: empty_context_def context_ok_def ring_ok_def table_nvs_def table_entries_def ring_list_def
      intro!: exI [of _ 0])

lemma hd_map_init_ok: "hd_map_ok hd_map_init []"
  by (simp add: hd_map_init_def hd_map_ok_def)

text \<open>C18: inserting a field into the dynamic table always returns, and leaves the table RFC 7541
  prescribes: the new field first, then the longest run of the newest entries that fits beside it,
  or the empty table for a field larger than the maximum size. When memory runs out the code says so
  and some newest entries remain. Either way the table stays well formed, within its maximum size,
  and the hash map of the deflater holds exactly its entries.\<close>
theorem add_hd_table_incremental_correct:
  assumes "context_ok ctx" "opt_map_ok hm (table_entries ctx)" "room_of nv \<le> 2 ^ 31"
    and "table_size (table_nvs ctx) \<le> unat (hd_table_bufsize_max ctx)"
  shows "\<exists>ctx' hm' r. add_hd_table_incremental grant ctx nv hm h = Some (ctx', hm', r) \<and>
    context_ok ctx' \<and> opt_map_ok hm' (table_entries ctx') \<and>
    hd_table_bufsize_max ctx' = hd_table_bufsize_max ctx \<and>
    table_size (table_nvs ctx') \<le> unat (hd_table_bufsize_max ctx) \<and>
    (r = Inr () \<and> table_nvs ctx' = rfc_insert (unat (hd_table_bufsize_max ctx)) nv (table_nvs ctx) \<or>
     r = Inl (Code NGHTTP2_ERR_NOMEM) \<and> (\<exists>k. table_nvs ctx' = take k (table_nvs ctx)))"
proof -
  have "table_size (take k (table_nvs ctx)) \<le> unat (hd_table_bufsize_max ctx)" for k
    using assms(4) table_size_take le_trans by blast
  with add_incremental_ok [OF assms(1-3), of grant h] show ?thesis
    using rfc_insert_size [of "unat (hd_table_bufsize_max ctx)" nv "table_nvs ctx"] by metis
qed

theorem add_hd_table_incremental_correct_witness:
  "\<exists>ctx' hm' r. add_hd_table_incremental (\<lambda>n. True) empty_context
      \<lparr>nv_name = ascii ''x'', nv_value = [1, 2], nv_token = - 1, nv_flags = 0\<rparr> (Some hd_map_init) 7 = Some (ctx', hm', r) \<and>
    context_ok ctx' \<and> table_size (table_nvs ctx') \<le> 4096"
proof -
  have e: "hd_table_bufsize_max empty_context = 4096" "table_nvs empty_context = []"
    by (simp_all add: empty_context_def table_nvs_def empty_context_ok(2) [unfolded empty_context_def])
  from add_hd_table_incremental_correct [OF empty_context_ok(1), of "Some hd_map_init"
      "\<lparr>nv_name = ascii ''x'', nv_value = [1, 2], nv_token = - 1, nv_flags = 0\<rparr>" "\<lambda>n. True" 7]
  show ?thesis by (auto simp: empty_context_ok(2) opt_map_ok_def hd_map_init_ok room_of_def e)
qed

end
