(* ===== verification/HdSearch.thy ===== *)
theory HdSearch
  imports HdTable
begin

text \<open>
  The search over the static and the dynamic table of HPACK (\<open>nghttp2_hd.c\<close>), whose code is in the
  theory \<open>HdTable\<close>: an index found leads back to the field that was searched, and a field of one of
  the tables is found.
\<close>

section \<open>Searching\<close>

text \<open>The hash \<open>deflate_nv\<close> computes for a name; the entries of the deflater's table carry it.\<close>

definition field_hash :: "bytes \<Rightarrow> u32" where
  "field_hash name =
     (let token = lookup_token name in
      if token = - 1 then name_hash name
      else if token \<le> NGHTTP2_TOKEN_WWW_AUTHENTICATE then st_hash (static_table ! nat token) else 0)"

definition entry_ok :: "hd_entry \<Rightarrow> bool" where
  "entry_ok e \<longleftrightarrow> nv_token (ent_nv e) = lookup_token (nv_name (ent_nv e)) \<and>
     ent_hash e = field_hash (nv_name (ent_nv e))"

text \<open>A result of the search over the rows from \<open>i\<close> on: a row with the token and the value, or none
  of the rows up to the first with another token has the value.\<close>

definition static_found :: "nat \<Rightarrow> int \<Rightarrow> bytes \<Rightarrow> search_result \<Rightarrow> bool" where
  "static_found i token val r \<longleftrightarrow>
     (if sr_match r
      then \<exists>k. sr_index r = int k \<and> i \<le> k \<and> k < 61 \<and> st_token (static_table ! k) = token \<and>
             st_value (static_table ! k) = val
      else sr_index r = token \<and>
        (\<forall>k. i \<le> k \<and> k < 61 \<and> (\<forall>j. i \<le> j \<and> j \<le> k \<longrightarrow> st_token (static_table ! j) = token) \<longrightarrow>
           st_value (static_table ! k) \<noteq> val))"

lemma static_found_Suc:
  assumes "static_found (Suc i) token val r" "st_value (static_table ! i) \<noteq> val"
  shows "static_found i token val r"
proof (cases "sr_match r")
  case True
  then show ?thesis using assms(1) by (auto simp: static_found_def)
next
  case False
  have "st_value (static_table ! k) \<noteq> val"
    if "i \<le> k" "k < 61" "\<forall>j. i \<le> j \<and> j \<le> k \<longrightarrow> st_token (static_table ! j) = token" for k
    using that assms False by (cases "k = i") (auto simp: static_found_def)
  then show ?thesis using False assms(1) by (auto simp: static_found_def)
qed

lemma search_rows_ok:
  "ents = drop i static_table \<Longrightarrow> static_found i token val (search_rows ents (int i) token val)"
proof (induction ents arbitrary: i)
  case Nil
  then show ?case by (auto simp: length_static_table static_found_def)
next
  case (Cons ent ents)
  have i: "i < 61" using Cons.prems length_static_table by (metis drop_eq_Nil2 list.distinct(1) not_le)
  then have "ent # ents = static_table ! i # drop (Suc i) static_table"
    using Cons.prems length_static_table by (simp add: Cons_nth_drop_Suc)
  then have ent: "static_table ! i = ent" "ents = drop (Suc i) static_table" by auto
  show ?case
  proof (cases "st_token ent = token \<and> st_value ent \<noteq> val")
    case True
    have "search_rows (ent # ents) (int i) token val = search_rows ents (int (Suc i)) token val"
      using True i by (simp add: algebra_simps)
    then show ?thesis using static_found_Suc [OF Cons.IH [OF ent(2)]] True ent(1) by simp
  next
    case False
    then show ?thesis using i ent(1) by (auto simp: static_found_def)
  qed
qed

definition chain_hit :: "bytes \<Rightarrow> int \<Rightarrow> u32 \<Rightarrow> hd_entry \<Rightarrow> bool" where
  "chain_hit name token h p \<longleftrightarrow> token = nv_token (ent_nv p) \<and>
     (token = - 1 \<longrightarrow> h = ent_hash p \<and> nv_name (ent_nv p) = name)"

lemma find_chain_Cons:
  "find_chain (p # ps) found name val token h name_only =
     (if \<not> chain_hit name token h p then find_chain ps found name val token h name_only
      else if found = None \<and> name_only then (Some p, False)
      else if nv_value (ent_nv p) = val then (Some p, True)
      else find_chain ps (if found = None then Some p else found) name val token h name_only)"
  by (simp add: chain_hit_def)

lemma find_chain_ok:
  "find_chain ps found name val token h name_only = (r, exact) \<Longrightarrow>
   (\<forall>p. found = Some p \<longrightarrow> chain_hit name token h p \<and> \<not> name_only) \<Longrightarrow>
   (\<forall>p. r = Some p \<longrightarrow> (p \<in> set ps \<or> found = Some p) \<and> chain_hit name token h p \<and>
      (exact \<longrightarrow> nv_value (ent_nv p) = val)) \<and>
   (exact \<longrightarrow> r \<noteq> None \<and> \<not> name_only) \<and>
   (r = None \<longrightarrow> found = None \<and> (\<forall>p \<in> set ps. \<not> chain_hit name token h p)) \<and>
   (\<not> exact \<and> \<not> name_only \<longrightarrow> (\<forall>p \<in> set ps. chain_hit name token h p \<longrightarrow> nv_value (ent_nv p) \<noteq> val))"
proof (induction ps arbitrary: found)
  case (Cons p ps)
  show ?case
  proof (cases "chain_hit name token h p \<and> ((found = None \<and> name_only) \<or> nv_value (ent_nv p) = val)")
    case True
    then show ?thesis using Cons.prems unfolding find_chain_Cons by (auto split: if_splits)
  next
    case False
    let ?found = "if chain_hit name token h p \<and> found = None then Some p else found"
    have "find_chain ps ?found name val token h name_only = (r, exact)"
      using Cons.prems(1) False unfolding find_chain_Cons by (auto split: if_splits)
    moreover have "\<forall>p. ?found = Some p \<longrightarrow> chain_hit name token h p \<and> \<not> name_only"
      using Cons.prems(2) False by auto
    ultimately have "(\<forall>p. r = Some p \<longrightarrow> (p \<in> set ps \<or> ?found = Some p) \<and> chain_hit name token h p \<and>
        (exact \<longrightarrow> nv_value (ent_nv p) = val)) \<and>
      (exact \<longrightarrow> r \<noteq> None \<and> \<not> name_only) \<and>
      (r = None \<longrightarrow> ?found = None \<and> (\<forall>p \<in> set ps. \<not> chain_hit name token h p)) \<and>
      (\<not> exact \<and> \<not> name_only \<longrightarrow> (\<forall>p \<in> set ps. chain_hit name token h p \<longrightarrow> nv_value (ent_nv p) \<noteq> val))"
      by (rule Cons.IH)
    then show ?thesis using False by (cases found; cases "chain_hit name token h p") auto
  qed
qed auto

lemma chain_hit_name:
  "entry_ok p \<Longrightarrow> chain_hit name (lookup_token name) (field_hash name) p \<longleftrightarrow> nv_name (ent_nv p) = name"
  using lookup_token_inj [of name "nv_name (ent_nv p)"] by (auto simp: chain_hit_def entry_ok_def)

text \<open>What \<open>nghttp2_hd_table_get\<close> returns for each index of the two tables.\<close>

definition table_field :: "hd_context \<Rightarrow> nat \<Rightarrow> hd_nv" where
  "table_field ctx i =
     (if i < 61
      then \<lparr>nv_name = st_name (static_table ! i), nv_value = st_value (static_table ! i),
            nv_token = st_token (static_table ! i), nv_flags = NGHTTP2_NV_FLAG_NONE\<rparr>
      else table_nvs ctx ! (i - 61))"

lemma NGHTTP2_STATIC_TABLE_LENGTH_61: "NGHTTP2_STATIC_TABLE_LENGTH = 61"
  by (simp add: NGHTTP2_STATIC_TABLE_LENGTH_def length_static_table)

lemma get_max_index_eq: "get_max_index ctx = 61 + length (table_nvs ctx)"
  by (simp add: get_max_index_def NGHTTP2_STATIC_TABLE_LENGTH_61 table_nvs_def table_entries_def)

lemma hd_table_get_ok:
  assumes "context_ok ctx" "i < get_max_index ctx"
  shows "nghttp2_hd_table_get ctx i = Inr (table_field ctx i)"
proof -
  have "ring_ok (hd_table ctx)" using assms(1) by (simp add: context_ok_def)
  then show ?thesis
    using assms(2) get_ring_at [of "hd_table ctx" "i - 61"]
    by (simp add: nghttp2_hd_table_get_def table_field_def get_max_index_def Let_def
        NGHTTP2_STATIC_TABLE_LENGTH_61 table_nvs_def table_entries_def)
qed

lemma dynamic_index:
  assumes "context_ok ctx" "i < length (table_entries ctx)"
  shows "sint (next_seq ctx - 1 - ent_seq (table_entries ctx ! i) + of_nat NGHTTP2_STATIC_TABLE_LENGTH) = 61 + int i"
proof -
  have "32 * length (table_entries ctx) < 2 ^ 31"
    using assms(1) table_size_length [of "table_nvs ctx"] by (simp add: context_ok_def table_nvs_def)
  then have i: "61 + i < 2 ^ 31" using assms(2) by simp
  have "next_seq ctx - 1 - ent_seq (table_entries ctx ! i) + of_nat NGHTTP2_STATIC_TABLE_LENGTH = (of_nat (61 + i) :: u32)"
    using assms by (simp add: context_ok_def NGHTTP2_STATIC_TABLE_LENGTH_61)
  moreover have "sint (of_nat (61 + i) :: u32) = int (61 + i)"
    using i by (simp only: signed_of_nat) (simp add: signed_take_bit_int_eq_self)
  ultimately show ?thesis by (simp only: of_nat_add of_nat_numeral)
qed

definition found_field :: "hd_context \<Rightarrow> bytes \<Rightarrow> bytes \<Rightarrow> bool \<Rightarrow> search_result \<Rightarrow> bool" where
  "found_field ctx name val name_only r \<longleftrightarrow>
     (if sr_index r = - 1
      then \<not> sr_match r \<and> (\<forall>i < get_max_index ctx. nv_name (table_field ctx i) \<noteq> name)
      else 0 \<le> sr_index r \<and> nat (sr_index r) < get_max_index ctx \<and>
        nv_name (table_field ctx (nat (sr_index r))) = name \<and>
        (if sr_match r
         then \<not> name_only \<and> nv_value (table_field ctx (nat (sr_index r))) = val
         else name_only \<or> (\<forall>i < get_max_index ctx. nv_name (table_field ctx i) = name \<longrightarrow>
                nv_value (table_field ctx i) \<noteq> val)))"

lemma static_tokens_cover: "list_all (\<lambda>(n, t). t \<le> 60 \<longrightarrow> t \<in> {0, 1, 3, 5, 7} \<or> 14 \<le> t) token_names"
  by (simp add: token_names_def switch_names_def token_data)

lemma static_search:
  assumes "0 \<le> lookup_token name" "lookup_token name \<le> NGHTTP2_TOKEN_WWW_AUTHENTICATE"
  shows "search_static_table val (lookup_token name) name_only = r \<Longrightarrow>
    0 \<le> sr_index r \<and> nat (sr_index r) < 61 \<and> st_name (static_table ! nat (sr_index r)) = name \<and>
    (if sr_match r then \<not> name_only \<and> st_value (static_table ! nat (sr_index r)) = val
     else name_only \<or> (\<forall>i < 61. st_name (static_table ! i) = name \<longrightarrow> st_value (static_table ! i) \<noteq> val))"
proof -
  let ?t = "lookup_token name"
  assume r: "search_static_table val ?t name_only = r"
  have "(name, ?t) \<in> set token_names" using assms(1) by (intro lookup_token_found) simp
  then have "?t \<in> {0, 1, 3, 5, 7} \<or> 14 \<le> ?t"
    using static_tokens_cover assms(2) by (auto simp: list_all_iff)
  moreover have "?t \<in> int ` {14..<61}" if "14 \<le> ?t"
    using that assms(2) by (intro image_eqI [of _ int "nat ?t"]) auto
  ultimately have "?t \<in> set (map st_token static_table)"
    unfolding static_token_list set_append set_map set_upt by auto
  then obtain i where i: "i < 61" "st_token (static_table ! i) = ?t"
    using length_static_table by (metis in_set_conv_nth length_map nth_map)
  have name: "st_name (static_table ! k) = name" if "k < 61" "st_token (static_table ! k) = ?t" for k
    using lookup_token_inj [of "st_name (static_table ! k)" name] static_token [OF that(1)] that assms(1) by simp
  have t: "nat ?t < 61" "st_token (static_table ! nat ?t) = ?t" using static_row [OF i(1)] i by auto
  show ?thesis
  proof (cases name_only)
    case True
    then show ?thesis using r t name [OF t] assms(1) by (auto simp: search_static_table_def)
  next
    case False
    then have "r = search_rows (drop (nat ?t) static_table) (int (nat ?t)) ?t val"
      using r assms(1) by (simp add: search_static_table_def)
    then have found: "static_found (nat ?t) ?t val r" using search_rows_ok [OF refl] by (simp only:)
    show ?thesis
    proof (cases "sr_match r")
      case True
      then show ?thesis using found False name by (auto simp: static_found_def)
    next
      case no: False
      have "st_value (static_table ! k) \<noteq> val" if "k < 61" "st_name (static_table ! k) = name" for k
      proof -
        have tok: "st_token (static_table ! k) = ?t" using static_token [OF that(1)] that(2) by simp
        have "nat ?t \<le> k" "\<forall>j. nat ?t \<le> j \<and> j \<le> k \<longrightarrow> st_token (static_table ! j) = ?t"
          using static_row [OF that(1)] unfolding tok by blast+
        then show ?thesis using found no that(1) by (simp add: static_found_def)
      qed
      moreover have "sr_index r = ?t" using found no by (simp add: static_found_def)
      ultimately show ?thesis using no t(1) name [OF t] assms(1) by simp
    qed
  qed
qed

lemma static_other:
  assumes "\<not> (0 \<le> lookup_token name \<and> lookup_token name \<le> NGHTTP2_TOKEN_WWW_AUTHENTICATE)" "i < 61"
  shows "st_name (static_table ! i) \<noteq> name"
proof
  assume "st_name (static_table ! i) = name"
  then have "st_token (static_table ! i) = lookup_token name" using static_token [OF assms(2)] by simp
  moreover have "0 \<le> st_token (static_table ! i)" "nat (st_token (static_table ! i)) \<le> i"
    using static_row [OF assms(2)] by blast+
  ultimately show False using assms by simp
qed

lemma search_hd_table_ok:
  assumes ctx: "context_ok ctx" and hm: "hd_map_ok hm (table_entries ctx)"
    and es: "\<forall>e \<in> set (table_entries ctx). entry_ok e"
  shows "found_field ctx name val (mode = NEVER_INDEXING)
    (search_hd_table ctx name val (lookup_token name) mode hm (field_hash name))"
proof -
  let ?t = "lookup_token name" and ?h = "field_hash name" and ?only = "mode = NEVER_INDEXING"
  let ?chain = "hm ! map_slot ?h"
  obtain r exact where fd: "hd_map_find hm name val ?t ?h ?only = (r, exact)" by fastforce
  have chain: "p \<in> set ?chain \<longleftrightarrow> p \<in> set (table_entries ctx) \<and> map_slot (ent_hash p) = map_slot ?h" for p
    using hm map_slot_less [of ?h] by (simp add: hd_map_ok_def)
  have named: "p \<in> set ?chain \<and> chain_hit name ?t ?h p" if "p \<in> set (table_entries ctx)" "nv_name (ent_nv p) = name" for p
    using that es chain_hit_name [of p name] by (auto simp: chain entry_ok_def)
  have hit: "p \<in> set (table_entries ctx) \<and> nv_name (ent_nv p) = name" if "p \<in> set ?chain" "chain_hit name ?t ?h p" for p
    using that es chain_hit_name [of p name] chain by auto
  have res: "\<forall>p. r = Some p \<longrightarrow> p \<in> set (table_entries ctx) \<and> nv_name (ent_nv p) = name \<and> (exact \<longrightarrow> nv_value (ent_nv p) = val)"
      "exact \<longrightarrow> r \<noteq> None \<and> \<not> ?only"
      "r = None \<longrightarrow> (\<forall>p \<in> set (table_entries ctx). nv_name (ent_nv p) \<noteq> name)"
      "\<not> exact \<and> \<not> ?only \<longrightarrow> (\<forall>p \<in> set (table_entries ctx). nv_name (ent_nv p) = name \<longrightarrow> nv_value (ent_nv p) \<noteq> val)"
    using find_chain_ok [of ?chain None name val ?t ?h ?only r exact] fd hit named
    unfolding hd_map_find_def by blast+
  have dyn: "\<exists>k. i = 61 + k \<and> k < length (table_entries ctx) \<and> table_field ctx i = ent_nv (table_entries ctx ! k)"
    if "i < get_max_index ctx" "\<not> i < 61" for i
    using that by (intro exI [of _ "i - 61"]) (auto simp: get_max_index_eq table_field_def table_nvs_def)
  let ?r = "search_hd_table ctx name val ?t mode hm ?h"
  consider (static) "\<not> exact" "0 \<le> ?t" "?t \<le> NGHTTP2_TOKEN_WWW_AUTHENTICATE"
    | (none) "r = None" "\<not> (0 \<le> ?t \<and> ?t \<le> NGHTTP2_TOKEN_WWW_AUTHENTICATE)"
    | (dynamic) p where "r = Some p" "exact \<or> \<not> (0 \<le> ?t \<and> ?t \<le> NGHTTP2_TOKEN_WWW_AUTHENTICATE)"
    using res(2) by (cases r) auto
  then show ?thesis
  proof cases
    case static
    then have r: "search_static_table val ?t ?only = ?r" using fd by (simp add: search_hd_table_def)
    note st = static_search [OF static(2,3) r]
    have idx: "nat (sr_index ?r) < get_max_index ctx" "sr_index ?r \<noteq> - 1" using st by (simp_all add: get_max_index_eq)
    have field: "table_field ctx i = \<lparr>nv_name = st_name (static_table ! i), nv_value = st_value (static_table ! i),
        nv_token = st_token (static_table ! i), nv_flags = NGHTTP2_NV_FLAG_NONE\<rparr>" if "i < 61" for i
      using that by (simp add: table_field_def)
    have "nv_value (table_field ctx i) \<noteq> val"
      if i: "i < get_max_index ctx" "nv_name (table_field ctx i) = name" and "\<not> ?only" "\<not> sr_match ?r" for i
    proof (cases "i < 61")
      case True
      then show ?thesis using st that field by auto
    next
      case False
      then show ?thesis using dyn [OF i(1) False] i(2) res(4) static(1) that(3) by auto
    qed
    then show ?thesis using st idx field [of "nat (sr_index ?r)"] by (auto simp: found_field_def)
  next
    case none
    then have r: "?r = \<lparr>sr_index = - 1, sr_match = False\<rparr>"
      using fd res(2) by (auto simp: search_hd_table_def)
    have "nv_name (table_field ctx i) \<noteq> name" if "i < get_max_index ctx" for i
      using static_other [OF none(2), of i] dyn [OF that] res(3) none(1)
      by (cases "i < 61") (auto simp: table_field_def)
    then show ?thesis by (simp add: found_field_def r)
  next
    case (dynamic p)
    then obtain k where k: "k < length (table_entries ctx)" "p = table_entries ctx ! k"
      using res(1) by (metis in_set_conv_nth)
    have r: "?r = \<lparr>sr_index = 61 + int k, sr_match = exact\<rparr>"
      using fd dynamic dynamic_index [OF ctx k(1)] k(2) by (auto simp: search_hd_table_def)
    have "61 + k < get_max_index ctx" "table_field ctx (61 + k) = ent_nv p"
      using k by (simp_all add: get_max_index_eq table_field_def table_nvs_def)
    moreover have "nat (61 + int k) = 61 + k" by simp
    moreover have "nv_value (table_field ctx i) \<noteq> val"
      if i: "i < get_max_index ctx" "nv_name (table_field ctx i) = name" and n: "\<not> exact" "\<not> ?only" for i
    proof (cases "i < 61")
      case True
      then show ?thesis using static_other [of name i] dynamic(2) n(1) i(2) by (simp add: table_field_def)
    next
      case False
      then show ?thesis using dyn [OF i(1) False] i(2) res(4) n by auto
    qed
    ultimately show ?thesis using res(1,2) dynamic(1) by (auto simp: found_field_def r)
  qed
qed

text \<open>C34: \<open>search_hd_table\<close> of the deflater is sound and complete. An index it returns is valid and
  \<open>nghttp2_hd_table_get\<close> reads a field with the name searched there, and with the value too when the
  result says so; -1 means no field of either table has the name; and a result without the value
  means that no field has both, unless the mode asks for the name only, which never matches a
  value.\<close>
theorem search_hd_table_correct:
  assumes "context_ok ctx" "hd_map_ok hm (table_entries ctx)" "\<forall>e \<in> set (table_entries ctx). entry_ok e"
  shows "found_field ctx name val (mode = NEVER_INDEXING)
      (search_hd_table ctx name val (lookup_token name) mode hm (field_hash name)) \<and>
    (\<forall>i < get_max_index ctx. nghttp2_hd_table_get ctx i = Inr (table_field ctx i))"
  using search_hd_table_ok [OF assms] hd_table_get_ok [OF assms(1)] by blast

theorem search_hd_table_correct_witness:
  "found_field empty_context (ascii '':method'') (ascii ''POST'') False
     (search_hd_table empty_context (ascii '':method'') (ascii ''POST'') (lookup_token (ascii '':method''))
        WITH_INDEXING hd_map_init (field_hash (ascii '':method'')))"
  using search_hd_table_correct [of empty_context hd_map_init "ascii '':method''" "ascii ''POST''" WITH_INDEXING]
  by (simp add: empty_context_ok hd_map_init_ok)

end
