(* ===== verification/HuffCode.thy ===== *)
theory HuffCode
  imports HuffTree
begin

text \<open>
  Huffman coding as a relation between bits and symbols: what reading bits along the code tree
  yields, and that the codes of \<open>nghttp2_hd_huffman_data.c\<close> are exactly the paths to the symbols, so
  that a sequence of codes can be read back in one way only. The code that encodes and decodes
  bytes is in the theory \<open>Huff\<close>.
\<close>

section \<open>Bits and the tree\<close>

text \<open>The \<open>n\<close> low bits of a number or word, the most significant one first.\<close>

definition msb_bits :: "nat \<Rightarrow> 'a::semiring_bits \<Rightarrow> bool list" where
  "msb_bits n x = map (bit x) (rev [0..<n])"

lemma msb_bits_simps [simp]:
  "msb_bits 0 x = []" "msb_bits (Suc n) x = bit x n # msb_bits n x" "length (msb_bits n x) = n"
  by (simp_all add: msb_bits_def)

lemma nth_msb_bits: "i < n \<Longrightarrow> msb_bits n x ! i = bit x (n - Suc i)"
  by (simp add: msb_bits_def rev_nth)

lemma msb_bits_cong: "(\<And>i. i < n \<Longrightarrow> bit x i = bit y i) \<Longrightarrow> msb_bits n x = msb_bits n y"
  by (simp add: msb_bits_def)

text \<open>What reading bits from a node of the tree leads to: the node reached and the symbols passed, or
  nothing when the end of the code is met.\<close>

fun feed :: "htree \<Rightarrow> bool list \<Rightarrow> (htree \<times> nat list) option" where
  "feed t [] = Some (t, [])"
| "feed (Branch i l r) (b # bs) =
     (case (if b then r else l) of
        Branch j l' r' \<Rightarrow> feed (Branch j l' r') bs
      | Sym s \<Rightarrow> if s = 256 then None else map_option (\<lambda>(t, out). (t, s # out)) (feed huff_tree bs))"
| "feed (Sym s) (b # bs) = None"

fun is_inner :: "htree \<Rightarrow> bool" where
  "is_inner (Branch i l r) = True"
| "is_inner (Sym s) = False"

lemma huff_tree_inner [simp]: "is_inner huff_tree"
  by (simp add: huff_tree_def)

lemma feed_inner: "feed t bs = Some (t', out) \<Longrightarrow> is_inner t \<Longrightarrow> is_inner t'"
  by (induction t bs arbitrary: t' out rule: feed.induct) (auto split: htree.splits if_splits)

lemma feed_append:
  "feed t (xs @ ys) = (case feed t xs of None \<Rightarrow> None
     | Some (t', out) \<Rightarrow> map_option (\<lambda>(t'', out'). (t'', out @ out')) (feed t' ys))"
proof (induction t xs rule: feed.induct)
  case (1 t)
  then show ?case by (simp add: option.map_id0 split: option.splits)
next
  case (2 i l r b bs)
  then show ?case
    by (auto simp: option.map_comp o_def split_def split: htree.splits option.splits if_splits)
qed auto

text \<open>The nodes of the tree.\<close>

lemma inner_refl: "is_inner t \<Longrightarrow> t \<in> set (inner t)"
  by (cases t) auto

lemma inner_child:
  "Branch i l r \<in> set (inner t) \<Longrightarrow> u = l \<or> u = r \<Longrightarrow> is_inner u \<Longrightarrow> u \<in> set (inner t)"
  by (induction t) (auto simp: inner_refl)

lemma feed_nodes:
  "feed t bs = Some (t', out) \<Longrightarrow> t \<in> set (inner huff_tree) \<Longrightarrow> t' \<in> set (inner huff_tree)"
proof (induction t bs arbitrary: t' out rule: feed.induct)
  case (2 i l r b bs)
  show ?case
  proof (cases "if b then r else l")
    case (Branch j l' r')
    then have "Branch j l' r' \<in> set (inner huff_tree)"
      using 2(4) inner_child [of i l r huff_tree "Branch j l' r'"] by (auto split: if_splits)
    then show ?thesis using 2(2) [OF Branch] 2(3) Branch by simp
  next
    case (Sym s)
    then have "s \<noteq> 256" using 2(3) by auto
    moreover have "huff_tree \<in> set (inner huff_tree)" by (rule inner_refl) simp
    ultimately show ?thesis using 2(1) [OF Sym] 2(3) Sym by auto
  qed
qed auto

text \<open>No code is shorter than five bits, so four bits pass at most one symbol.\<close>

fun min_depth :: "htree \<Rightarrow> nat" where
  "min_depth (Sym s) = 0"
| "min_depth (Branch i l r) = Suc (min (min_depth l) (min_depth r))"

lemma feed_short: "feed t bs = Some (t', out) \<Longrightarrow> length bs < min_depth t \<Longrightarrow> out = []"
  by (induction t bs arbitrary: t' out rule: feed.induct) (auto split: htree.splits if_splits)

lemma min_depth_tree: "min_depth huff_tree = 5"
  by (simp add: huff_tree_def)

lemma feed_four: "feed t bs = Some (t', out) \<Longrightarrow> length bs \<le> 4 \<Longrightarrow> length out \<le> 1"
proof (induction t bs arbitrary: t' out rule: feed.induct)
  case (2 i l r b bs)
  show ?case
  proof (cases "if b then r else l")
    case (Branch j l' r')
    then show ?thesis using 2(2) [OF Branch] 2(3,4) by simp
  next
    case (Sym s)
    then obtain out' where "feed huff_tree bs = Some (t', out')" "out = s # out'"
      using 2(3) by (auto split: if_splits)
    then show ?thesis using feed_short [of huff_tree bs t' out'] 2(4) by (simp add: min_depth_tree)
  qed
qed auto

text \<open>The rows of the automaton are the walks of four bits.\<close>

definition entry_of :: "nat option \<Rightarrow> (htree \<times> nat list) option \<Rightarrow> nat \<times> nat" where
  "entry_of s r = (case r of None \<Rightarrow> (0x100, 0)
     | Some (t, out) \<Rightarrow> row_entry (node_id t) (if out = [] then s else Some (last out)))"

lemma length_walks: "length (walks n s t) = 2 ^ n"
  by (induction n s t rule: walks.induct) auto

lemma top_bit:
  assumes "x < 2 ^ Suc n" "\<not> x < 2 ^ n"
  shows "bit (x :: nat) n \<and> msb_bits n (x - 2 ^ n) = msb_bits n x"
proof -
  have x: "x - 2 ^ n < 2 ^ n" "x = (x - 2 ^ n) + 2 ^ n" using assms by auto
  have "x mod 2 ^ n = (x - 2 ^ n) mod 2 ^ n" using assms(2) by (simp add: le_mod_geq)
  then have "bit x i = bit (x - 2 ^ n) i" if "i < n" for i
    using that by (metis bit_take_bit_iff take_bit_eq_mod)
  moreover have "x div 2 ^ n = 1" using x by (intro div_nat_eqI) auto
  then have "bit x n" by (simp add: bit_iff_odd)
  ultimately show ?thesis by (auto intro!: msb_bits_cong)
qed

lemma low_bit: "(x :: nat) < 2 ^ n \<Longrightarrow> \<not> bit x n"
  by (simp add: bit_iff_odd)

lemma nth_walks_gen:
  "x < 2 ^ n \<Longrightarrow> walks n s t ! x =
     (case t of Branch i l r \<Rightarrow> entry_of s (feed t (msb_bits n x))
      | Sym q \<Rightarrow> if q = 256 then (0x100, 0) else entry_of (Some q) (feed huff_tree (msb_bits n x)))"
proof (induction n s t arbitrary: x rule: walks.induct)
  case (1 s i l r)
  then show ?case by (simp add: entry_of_def)
next
  case (2 n s i l r)
  define u where "u = (if x < 2 ^ n then l else r)"
  define y where "y = (if x < 2 ^ n then x else x - 2 ^ n)"
  have y: "y < 2 ^ n" "walks (Suc n) s (Branch i l r) ! x = walks n s u ! y"
    using 2(3) by (auto simp: nth_append length_walks u_def y_def)
  have ih: "walks n s u ! y = (case u of Branch i l r \<Rightarrow> entry_of s (feed u (msb_bits n y))
      | Sym q \<Rightarrow> if q = 256 then (0x100, 0) else entry_of (Some q) (feed huff_tree (msb_bits n y)))"
    using 2(1) [OF y(1)] 2(2) [OF y(1)] unfolding u_def by (cases "x < 2 ^ n") simp_all
  have bits: "msb_bits (Suc n) x = (u = r \<and> bit x n \<or> bit x n) # msb_bits n y" "u = (if bit x n then r else l)"
    using top_bit [of x n] low_bit [of x n] 2(3) by (auto simp: u_def y_def)
  have out: "(if out = [] then Some q else Some (last out)) = (if q # out = [] then s else Some (last (q # out)))" for q out
    by simp
  have "feed (Branch i l r) (msb_bits (Suc n) x) =
      (case u of Branch j l' r' \<Rightarrow> feed (Branch j l' r') (msb_bits n y)
      | Sym q \<Rightarrow> if q = 256 then None else map_option (\<lambda>(t, out). (t, q # out)) (feed huff_tree (msb_bits n y)))"
    unfolding bits(1) bits(2) by simp
  then have "entry_of s (feed (Branch i l r) (msb_bits (Suc n) x)) = walks n s u ! y"
    unfolding ih by (cases u; cases "feed huff_tree (msb_bits n y)") (auto simp: entry_of_def)
  then show ?case using y(2) by simp
next
  case (3 n s q)
  show ?case
  proof (cases "q = 256")
    case False
    have "is_inner t \<Longrightarrow> (case t of Branch i l r \<Rightarrow> a | Sym q \<Rightarrow> b q) = a" for a :: "nat \<times> nat" and b t
      by (cases t) auto
    from this [OF huff_tree_inner] have "walks n (Some q) huff_tree ! x = entry_of (Some q) (feed huff_tree (msb_bits n x))"
      using 3(1) [OF False 3(2)] by (simp only:)
    then show ?thesis using False by simp
  qed (use 3(2) in simp)
qed

lemma nth_walks: "is_inner t \<Longrightarrow> x < 2 ^ n \<Longrightarrow> walks n s t ! x = entry_of s (feed t (msb_bits n x))"
  using nth_walks_gen [of x n s t] by (cases t) auto


section \<open>The codes\<close>

definition code_bits :: "nat \<times> nat \<Rightarrow> bool list" where
  "code_bits e = take (fst e) (msb_bits 32 (snd e))"

fun follow :: "htree \<Rightarrow> bool list \<Rightarrow> htree option" where
  "follow t [] = Some t"
| "follow (Branch i l r) (b # bs) = follow (if b then r else l) bs"
| "follow (Sym s) (b # bs) = None"

lemma length_sym_data: "length sym_data = 257"
  by (simp add: sym_data_def)

text \<open>The same walk, with the bits taken from the top of a number below \<open>2\<^sup>m\<close>.\<close>

fun descend :: "nat \<Rightarrow> nat \<Rightarrow> nat \<Rightarrow> htree \<Rightarrow> htree option" where
  "descend m 0 c t = Some t"
| "descend (Suc m) (Suc n) c (Branch i l r) =
     (if c < 2 ^ m then descend m n c l else descend m n (c - 2 ^ m) r)"
| "descend m (Suc n) c t = None"

lemma descend_numeral [simp]:
  "descend (numeral k) (numeral j) c (Branch i l r) =
     (if c < 2 ^ pred_numeral k then descend (pred_numeral k) (pred_numeral j) c l
      else descend (pred_numeral k) (pred_numeral j) (c - 2 ^ pred_numeral k) r)"
  "descend (numeral k) (Suc 0) c (Branch i l r) =
     (if c < 2 ^ pred_numeral k then Some l else Some r)"
  by (simp_all add: numeral_eq_Suc)

lemma follow_descend:
  "c < 2 ^ m \<Longrightarrow> n \<le> m \<Longrightarrow> follow t (take n (msb_bits m c)) = descend m n c t"
proof (induction m n c t rule: descend.induct [case_names stop step no_bits leaf])
  case (step m n c i l r)
  show ?case
  proof (cases "c < 2 ^ m")
    case True
    then show ?thesis using step(1) [OF True] step(4) low_bit [OF True] by simp
  next
    case False
    then have "c - 2 ^ m < 2 ^ m" using step(3) by simp
    then show ?thesis using step(2) [OF False] step(4) top_bit [OF step(3) False] False by simp
  qed
next
  case (no_bits n c t)
  then show ?case by auto
next
  case (leaf m n c s)
  then show ?case by (cases m) auto
qed auto

lemma sym_data_shape: "list_all (\<lambda>(n, c). 5 \<le> n \<and> n \<le> 30 \<and> c < 2 ^ 32 \<and> 2 ^ (32 - n) dvd c) sym_data"
  unfolding sym_data_def by simp

lemma descend_cong: "m = m' \<Longrightarrow> n = n' \<Longrightarrow> c = c' \<Longrightarrow> descend m n c t = descend m' n' c' t"
  by simp

lemma sym_data_descend: "map (\<lambda>(n, c). descend 32 n c huff_tree) sym_data = map (\<lambda>s. Some (Sym s)) [0..<257]"
  unfolding sym_data_def
  by (simp add: huff_tree_def [THEN arg_cong [of _ _ "descend m n c" for m n c]] upt_rec [of _ "numeral k" for k]
      cong: descend_cong)

definition sym_bits :: "nat \<Rightarrow> bool list" where
  "sym_bits s = take (fst (sym_data ! s)) (msb_bits 32 (snd (sym_data ! s)))"

lemma sym_data_at:
  assumes "s < 257"
  shows "5 \<le> fst (sym_data ! s)" "fst (sym_data ! s) \<le> 30" "snd (sym_data ! s) < 2 ^ 32"
    "2 ^ (32 - fst (sym_data ! s)) dvd snd (sym_data ! s)"
  using sym_data_shape assms length_sym_data
  by (auto simp: list_all_length split_def)

lemma length_sym_bits: "s < 257 \<Longrightarrow> length (sym_bits s) = fst (sym_data ! s)"
  using sym_data_at [of s] by (simp add: sym_bits_def)

lemma follow_sym:
  assumes "s < 257"
  shows "follow huff_tree (sym_bits s) = Some (Sym s)"
proof -
  have "map (\<lambda>(n, c). descend 32 n c huff_tree) sym_data ! s = Some (Sym s)"
    unfolding sym_data_descend using assms by (simp del: upt_conv_Cons_Cons)
  then show ?thesis
    using follow_descend [of "snd (sym_data ! s)" 32 "fst (sym_data ! s)" huff_tree] sym_data_at [OF assms]
      assms length_sym_data
    by (simp add: sym_bits_def split_def)
qed

lemma feed_follow:
  "follow t bs = Some (Sym s) \<Longrightarrow> is_inner t \<Longrightarrow> s \<noteq> 256 \<Longrightarrow>
   feed t (bs @ rest) = map_option (\<lambda>(t, out). (t, s # out)) (feed huff_tree rest)"
proof (induction t bs rule: follow.induct)
  case (2 i l r b bs)
  show ?case
  proof (cases "if b then r else l")
    case (Branch j l' r')
    then show ?thesis using 2 by simp
  next
    case (Sym q)
    then have "bs = []" "q = s" using 2(2) by (cases bs; auto)+
    then show ?thesis using 2(4) Sym by simp
  qed
qed auto

lemma feed_codes:
  "\<forall>s \<in> set src. s < 256 \<Longrightarrow>
   feed huff_tree (concat (map sym_bits src) @ rest) =
     map_option (\<lambda>(t, out). (t, src @ out)) (feed huff_tree rest)"
proof (induction src)
  case Nil
  then show ?case by (simp add: option.map_ident)
next
  case (Cons s src)
  then have "feed huff_tree (sym_bits s @ (concat (map sym_bits src) @ rest)) =
      map_option (\<lambda>(t, out). (t, s # out)) (feed huff_tree (concat (map sym_bits src) @ rest))"
    by (intro feed_follow follow_sym) auto
  then show ?case using Cons by (simp add: option.map_comp o_def split_def)
qed

section \<open>Reading back\<close>

text \<open>A tree has as many paths to symbols as leaves, so the 257 codes are all of them.\<close>

fun leaves :: "htree \<Rightarrow> nat" where
  "leaves (Sym s) = 1"
| "leaves (Branch i l r) = leaves l + leaves r"

definition sym_paths :: "htree \<Rightarrow> bool list set" where
  "sym_paths t = {p. \<exists>s. follow t p = Some (Sym s)}"

lemma sym_paths_simps:
  "sym_paths (Sym s) = {[]}"
  "sym_paths (Branch i l r) = Cons False ` sym_paths l \<union> Cons True ` sym_paths r"
proof -
  have "p = []" if "follow (Sym s) p = Some (Sym q)" for p q using that by (cases p) auto
  then show "sym_paths (Sym s) = {[]}" by (auto simp: sym_paths_def)
  have "p \<in> Cons False ` sym_paths l \<union> Cons True ` sym_paths r"
    if "follow (Branch i l r) p = Some (Sym q)" for p q
    using that by (cases p) (auto simp: sym_paths_def image_iff split: if_splits)
  then show "sym_paths (Branch i l r) = Cons False ` sym_paths l \<union> Cons True ` sym_paths r"
    by (auto simp: sym_paths_def)
qed

lemma card_sym_paths: "finite (sym_paths t) \<and> card (sym_paths t) = leaves t"
proof (induction t)
  case (Branch i l r)
  have "card (Cons b ` sym_paths t) = card (sym_paths t)" for b t by (rule card_image) simp
  then show ?case using Branch by (simp add: sym_paths_simps, subst card_Un_disjoint) auto
qed (simp add: sym_paths_simps)

lemma leaves_tree: "leaves huff_tree = 257"
  by (simp add: huff_tree_def)

lemma sym_path_unique:
  assumes "follow huff_tree p = Some (Sym s)"
  shows "s < 257 \<and> p = sym_bits s"
proof -
  have inj: "inj_on sym_bits {..<257}"
    using follow_sym by (intro inj_onI) (metis htree.inject(1) lessThan_iff option.inject)
  have "sym_bits ` {..<257} = sym_paths huff_tree"
  proof (rule card_subset_eq)
    show "finite (sym_paths huff_tree)" using card_sym_paths by blast
    show "sym_bits ` {..<257} \<subseteq> sym_paths huff_tree" using follow_sym by (auto simp: sym_paths_def)
    show "card (sym_bits ` {..<257}) = card (sym_paths huff_tree)"
      using card_image [OF inj] card_sym_paths [of huff_tree] leaves_tree by simp
  qed
  moreover have "p \<in> sym_paths huff_tree" using assms by (auto simp: sym_paths_def)
  ultimately obtain q where "q < 257" "p = sym_bits q" by auto
  then show ?thesis using follow_sym assms by fastforce
qed

lemma follow_append: "follow t (xs @ ys) = (case follow t xs of None \<Rightarrow> None | Some u \<Rightarrow> follow u ys)"
  by (induction t xs rule: follow.induct) auto

text \<open>Bits read are the codes of the symbols passed, followed by the path to the node reached.\<close>

lemma feed_sound:
  "feed t bs = Some (t', out) \<Longrightarrow> follow huff_tree q = Some t \<Longrightarrow>
   \<exists>rest. q @ bs = concat (map sym_bits out) @ rest \<and> follow huff_tree rest = Some t' \<and> (\<forall>s \<in> set out. s < 256)"
proof (induction t bs arbitrary: t' out q rule: feed.induct)
  case (2 i l r b bs)
  have child: "follow huff_tree (q @ [b]) = Some (if b then r else l)"
    using 2(4) by (simp add: follow_append)
  show ?case
  proof (cases "if b then r else l")
    case (Branch j l' r')
    then have "feed (Branch j l' r') bs = Some (t', out)" using 2(3) by simp
    from 2(2) [OF Branch this, of "q @ [b]"] child Branch show ?thesis by simp
  next
    case (Sym s)
    then obtain out' where f: "s \<noteq> 256" "feed huff_tree bs = Some (t', out')" "out = s # out'"
      using 2(3) by (auto split: if_splits)
    have "s < 257" "q @ [b] = sym_bits s" using sym_path_unique child Sym by auto
    moreover obtain rest where "bs = concat (map sym_bits out') @ rest" "follow huff_tree rest = Some t'"
        "\<forall>s \<in> set out'. s < 256"
      using 2(1) [OF Sym f(1,2), of "[]"] by auto
    ultimately show ?thesis using f(1,3) by (intro exI [of _ rest]) auto
  qed
qed auto

text \<open>The accepting nodes are the first eight on the path of ones.\<close>

fun off_spine :: "htree \<Rightarrow> bool" where
  "off_spine (Sym s) = True"
| "off_spine (Branch i l r) = (i \<notin> set accepting \<and> off_spine l \<and> off_spine r)"

fun on_spine :: "nat list \<Rightarrow> htree \<Rightarrow> bool" where
  "on_spine (i # is) (Branch j l r) = (i = j \<and> off_spine l \<and> on_spine is r)"
| "on_spine [] t = off_spine t"
| "on_spine is t = False"

lemma huff_tree_spine: "on_spine accepting huff_tree"
  unfolding huff_tree_def by (simp add: accepting_def)

lemma off_spine_path:
  "off_spine t \<Longrightarrow> follow t p = Some t' \<Longrightarrow> is_inner t' \<Longrightarrow> node_id t' \<notin> set accepting"
proof (induction t p rule: follow.induct)
  case (1 t)
  then show ?case by (cases t) auto
qed (auto split: if_splits)

lemma spine_path:
  "on_spine is t \<Longrightarrow> follow t p = Some t' \<Longrightarrow> is_inner t' \<Longrightarrow> node_id t' \<in> set accepting \<Longrightarrow>
   p = replicate (length p) True \<and> length p < length is"
proof (induction "is" t arbitrary: p rule: on_spine.induct)
  case (1 i "is" j l r)
  show ?case
  proof (cases p)
    case (Cons b p')
    then show ?thesis using 1 off_spine_path [of l p' t'] by (cases b) auto
  qed simp
next
  case (2 t)
  then show ?case using off_spine_path [of t p t'] by auto
qed auto

lemma spine_accepts:
  "k \<le> 7 \<Longrightarrow> \<exists>t. feed huff_tree (replicate k True) = Some (t, []) \<and> node_id t \<in> set accepting"
proof -
  assume "k \<le> 7"
  then have "k = 0 \<or> k = 1 \<or> k = 2 \<or> k = 3 \<or> k = 4 \<or> k = 5 \<or> k = 6 \<or> k = 7" by arith
  then show ?thesis unfolding huff_tree_def accepting_def by (elim disjE) (simp_all add: replicate_numeral_Cons)
qed

lemma accepted_path:
  assumes "follow huff_tree p = Some t" "is_inner t"
  shows "node_id t \<in> set accepting \<longleftrightarrow> p = replicate (length p) True \<and> length p \<le> 7"
proof
  assume "node_id t \<in> set accepting"
  then show "p = replicate (length p) True \<and> length p \<le> 7"
    using spine_path [OF huff_tree_spine assms] by (auto simp: accepting_def)
next
  assume p: "p = replicate (length p) True \<and> length p \<le> 7"
  then obtain t' where "feed huff_tree p = Some (t', [])" "node_id t' \<in> set accepting"
    using spine_accepts [of "length p"] by metis
  moreover from this have "follow huff_tree p = Some t'" using feed_sound [of huff_tree p t' "[]" "[]"] by simp
  ultimately show "node_id t \<in> set accepting" using assms(1) by simp
qed

end
