(* ===== verification/Huff.thy ===== *)
theory Huff
  imports Buf HuffCode
begin

text \<open>
  \<open>nghttp2_hd_huffman.c\<close>: encoding into a chain of buffers, and decoding piece by piece into one
  buffer. The encoder collects bits in a 64-bit register and empties it four bytes at a time when
  the current buffer has space, byte by byte otherwise. The lemmas show that both routines compute
  the code of \<open>HuffCode\<close>, so that decoding accepts exactly what encoding produces.
\<close>

section \<open>Encoding\<close>

definition nghttp2_hd_huff_encode_count :: "bytes \<Rightarrow> u32" where
  "nghttp2_hd_huff_encode_count src =
     (fold (\<lambda>c nbits. nbits + sym_nbits (huff_sym_table ! unat c)) src 0 + 7) div 8"

text \<open>The loops that add whole bytes while there are eight bits; they leave the register and the
  number of bits.\<close>

function huff_flush :: "(nat \<Rightarrow> nat \<Rightarrow> bytes option) \<Rightarrow> u64 \<Rightarrow> nat \<Rightarrow> bufs \<Rightarrow> bufs \<times> (u64 \<times> nat) res" where
  "huff_flush alloc code nbits bs =
     (if nbits \<ge> 8 then
        (case nghttp2_bufs_addb alloc (ucast (drop_bit 56 code)) bs of
           (bs', Inl e) \<Rightarrow> (bs', Inl e)
         | (bs', Inr _) \<Rightarrow> huff_flush alloc (push_bit 8 code) (nbits - 8) bs')
      else (bs, Inr (code, nbits)))"
  by pat_completeness auto
termination
  by (relation "measure (\<lambda>(alloc, code, nbits, bs). nbits)") auto

declare huff_flush.simps [simp del]

text \<open>What follows the main loop: the last bytes, the last of them filled with ones.\<close>

definition huff_finish :: "(nat \<Rightarrow> nat \<Rightarrow> bytes option) \<Rightarrow> u64 \<Rightarrow> nat \<Rightarrow> bufs \<Rightarrow> bufs \<times> unit res" where
  "huff_finish alloc code nbits bs =
     (case huff_flush alloc code nbits bs of
        (bs', Inl e) \<Rightarrow> (bs', Inl e)
      | (bs', Inr (code, nbits)) \<Rightarrow>
          if nbits \<noteq> 0
          then nghttp2_bufs_addb alloc (ucast (drop_bit 56 code) OR (push_bit (8 - nbits) 1 - 1)) bs'
          else (bs', Inr ()))"

fun huff_loop :: "(nat \<Rightarrow> nat \<Rightarrow> bytes option) \<Rightarrow> nat \<Rightarrow> u64 \<Rightarrow> nat \<Rightarrow> bytes \<Rightarrow> bufs \<Rightarrow> bufs \<times> unit res" where
  "huff_loop alloc avail code nbits [] bs = huff_finish alloc code nbits bs"
| "huff_loop alloc avail code nbits (c # src) bs =
     (let sym = huff_sym_table ! unat c;
          code = code OR push_bit (32 - nbits) (ucast (sym_code sym));
          nbits = nbits + unat (sym_nbits sym) in
      if nbits < 32 then huff_loop alloc avail code nbits src bs
      else if avail \<ge> 4 then
        (let x = htonl (ucast (drop_bit 32 code)) in
         case upd_cur (\<lambda>b. buf_append b (image32 x)) bs of
           (bs', Inl e) \<Rightarrow> (bs', Inl e)
         | (bs', Inr _) \<Rightarrow> huff_loop alloc (avail - 4) (push_bit 32 code) (nbits - 32) src bs')
      else
        (case huff_flush alloc code nbits bs of
           (bs', Inl e) \<Rightarrow> (bs', Inl e)
         | (bs', Inr (code, nbits)) \<Rightarrow> huff_loop alloc (cur_avail bs') code nbits src bs'))"

definition nghttp2_hd_huff_encode :: "(nat \<Rightarrow> nat \<Rightarrow> bytes option) \<Rightarrow> bytes \<Rightarrow> bufs \<Rightarrow> bufs \<times> unit res" where
  "nghttp2_hd_huff_encode alloc src bs = huff_loop alloc (cur_avail bs) 0 0 src bs"

section \<open>Decoding\<close>

definition NGHTTP2_HUFF_ACCEPTED :: u16 where "NGHTTP2_HUFF_ACCEPTED = push_bit 14 1"
definition NGHTTP2_HUFF_SYM :: u16 where "NGHTTP2_HUFF_SYM = push_bit 15 1"

definition nghttp2_hd_huff_decode_context_init :: u16 where
  "nghttp2_hd_huff_decode_context_init = NGHTTP2_HUFF_ACCEPTED"

text \<open>One transition: the entry of the table, and its symbol appended to the buffer.\<close>

definition huff_step :: "u16 \<Rightarrow> nat \<Rightarrow> buf \<Rightarrow> (u16 \<times> buf) res" where
  "huff_step fs x b =
     (let i = unat (fs AND 0x1ff) in
      if i < length huff_decode_table \<and> x < length (huff_decode_table ! i) then
        (let t = huff_decode_table ! i ! x in
         if fstate t AND NGHTTP2_HUFF_SYM \<noteq> 0
         then rbind (buf_append b [sym t]) (\<lambda>b. Inr (fstate t, b))
         else Inr (fstate t, b))
      else Inl Undefined)"

fun huff_decode_loop :: "u16 \<Rightarrow> bytes \<Rightarrow> buf \<Rightarrow> (u16 \<times> buf) res" where
  "huff_decode_loop fs [] b = Inr (fs, b)"
| "huff_decode_loop fs (c # src) b =
     rbind (huff_step fs (unat (drop_bit 4 c)) b) (\<lambda>(fs, b).
     rbind (huff_step fs (unat (c AND 0xf)) b) (\<lambda>(fs, b).
     huff_decode_loop fs src b))"

text \<open>The new context, the buffer and what is returned.\<close>

definition nghttp2_hd_huff_decode :: "u16 \<Rightarrow> buf \<Rightarrow> bytes \<Rightarrow> bool \<Rightarrow> (u16 \<times> buf \<times> nat res) res" where
  "nghttp2_hd_huff_decode fs b src final =
     rbind (huff_decode_loop fs src b) (\<lambda>(fs, b).
       Inr (fs, b,
         if final \<and> fs AND NGHTTP2_HUFF_ACCEPTED = 0 then Inl (Code NGHTTP2_ERR_HEADER_COMP)
         else Inr (length src)))"

definition nghttp2_hd_huff_decode_failure_state :: "u16 \<Rightarrow> bool" where
  "nghttp2_hd_huff_decode_failure_state fs \<longleftrightarrow> fs = 0x100"

section \<open>The code of a byte string\<close>

definition bytes_bits :: "bytes \<Rightarrow> bool list" where
  "bytes_bits bs = concat (map (msb_bits 8) bs)"

definition huff_bits :: "bytes \<Rightarrow> bool list" where
  "huff_bits src = concat (map (\<lambda>c. sym_bits (unat c)) src)"

text \<open>The bytes whose bits are a given list, and the code of a string: the codes of its bytes, filled
  with ones up to a whole number of bytes.\<close>

definition byte_of :: "bool list \<Rightarrow> u8" where
  "byte_of bs = horner_sum of_bool 2 (rev bs)"

function pack :: "bool list \<Rightarrow> bytes" where
  "pack bs = (if bs = [] then [] else byte_of (take 8 bs) # pack (drop 8 bs))"
  by pat_completeness auto
termination
  by (relation "measure length") auto

declare pack.simps [simp del]

definition eos_padded :: "bool list \<Rightarrow> bool list" where
  "eos_padded bs = bs @ replicate ((8 - length bs mod 8) mod 8) True"

definition huff_enc :: "bytes \<Rightarrow> bytes" where
  "huff_enc src = pack (eos_padded (huff_bits src))"

lemma pack_Nil [simp]: "pack [] = []"
  by (simp add: pack.simps)

lemma pack_append: "8 dvd length xs \<Longrightarrow> pack (xs @ ys) = pack xs @ pack ys"
proof (induction xs rule: pack.induct)
  case (1 xs)
  show ?case
  proof (cases "xs = []")
    case False
    then have len: "8 \<le> length xs" using 1(2) by (auto dest: dvd_imp_le)
    then have "8 dvd length (drop 8 xs)" using 1(2) by (simp add: dvd_diff_nat)
    then show ?thesis using 1(1) [OF False] False len by (simp add: pack.simps [of xs] pack.simps [of "xs @ ys"])
  qed simp
qed

lemma pack_byte: "length xs = 8 \<Longrightarrow> pack xs = [byte_of xs]"
  by (auto simp: pack.simps [of xs])

lemma bit_byte_of: "length bs = 8 \<Longrightarrow> i < 8 \<Longrightarrow> bit (byte_of bs) i = bs ! (7 - i)"
  by (simp add: byte_of_def bit_horner_sum_bit_word_iff rev_nth)

lemma msb_bits_byte_of: "length bs = 8 \<Longrightarrow> msb_bits 8 (byte_of bs) = bs"
  by (intro nth_equalityI) (simp_all add: nth_msb_bits bit_byte_of del: msb_bits_simps(2))

lemma byte_of_msb_bits: "byte_of (msb_bits 8 (c :: u8)) = c"
proof (rule bit_word_eqI)
  fix i assume "i < LENGTH(8)"
  then show "bit (byte_of (msb_bits 8 c)) i = bit c i"
    by (simp add: bit_byte_of nth_msb_bits)
qed

lemma bytes_bits_simps [simp]:
  "bytes_bits [] = []" "bytes_bits (c # cs) = msb_bits 8 c @ bytes_bits cs"
  "bytes_bits (xs @ ys) = bytes_bits xs @ bytes_bits ys"
  by (simp_all add: bytes_bits_def)

lemma length_bytes_bits [simp]: "length (bytes_bits bs) = 8 * length bs"
  by (induction bs) simp_all

lemma pack_msb_bits: "pack (msb_bits 8 (c :: u8) @ bs) = c # pack bs"
  by (subst pack_append) (simp_all only: msb_bits_simps(3) dvd_refl pack_byte byte_of_msb_bits append.simps)

lemma pack_bytes_bits: "pack (bytes_bits bs) = bs"
  by (induction bs) (simp_all only: bytes_bits_simps pack_Nil pack_msb_bits)

lemma bytes_bits_pack: "8 dvd length bs \<Longrightarrow> bytes_bits (pack bs) = bs"
proof (induction bs rule: pack.induct)
  case (1 bs)
  show ?case
  proof (cases "bs = []")
    case False
    then have len: "8 \<le> length bs" using 1(2) by (auto dest: dvd_imp_le)
    then have "8 dvd length (drop 8 bs)" using 1(2) by (simp add: dvd_diff_nat)
    then have "bytes_bits (pack (drop 8 bs)) = drop 8 bs" by (rule 1(1) [OF False])
    moreover have "pack bs = byte_of (take 8 bs) # pack (drop 8 bs)" using False by (simp add: pack.simps [of bs])
    moreover have "msb_bits 8 (byte_of (take 8 bs)) = take 8 bs" using len by (intro msb_bits_byte_of) simp
    ultimately show ?thesis by simp
  qed simp
qed

lemma pad_length:
  assumes "k < 8"
  shows "k = (8 - n mod 8) mod 8 \<longleftrightarrow> 8 dvd n + (k :: nat)"
proof -
  obtain q r where n: "n = 8 * q + r" "r < 8" by (metis mod_less_divisor mult_div_mod_eq zero_less_numeral)
  have "8 dvd n + k \<longleftrightarrow> 8 dvd r + k" unfolding n(1) add.assoc by (rule dvd_add_right_iff) simp
  also have "\<dots> \<longleftrightarrow> r + k = 0 \<or> r + k = 8" using n(2) assms by presburger
  also have "\<dots> \<longleftrightarrow> k = (8 - r) mod 8" using n(2) assms by (cases "r = 0") auto
  finally show ?thesis using n by simp
qed

lemma padded_dvd [simp]: "8 dvd length (eos_padded bs)"
  using pad_length [of "(8 - length bs mod 8) mod 8" "length bs"] by (simp add: eos_padded_def)

text \<open>The code is determined by its bits.\<close>

lemma huff_enc_iff:
  "huff_enc src = enc \<longleftrightarrow> (\<exists>k < 8. bytes_bits enc = huff_bits src @ replicate k True)"
proof
  assume "huff_enc src = enc"
  then have "bytes_bits enc = eos_padded (huff_bits src)" by (auto simp: huff_enc_def bytes_bits_pack)
  then show "\<exists>k < 8. bytes_bits enc = huff_bits src @ replicate k True"
    by (auto simp: eos_padded_def)
next
  assume "\<exists>k < 8. bytes_bits enc = huff_bits src @ replicate k True"
  then obtain k where k: "k < 8" "bytes_bits enc = huff_bits src @ replicate k True" by blast
  have "8 * length enc = length (huff_bits src) + k" using arg_cong [OF k(2), of length] by simp
  then have "8 dvd length (huff_bits src) + k" by (metis dvd_triv_left)
  then have "k = (8 - length (huff_bits src) mod 8) mod 8" using pad_length [OF k(1)] by simp
  then have "bytes_bits enc = eos_padded (huff_bits src)" using k(2) by (simp add: eos_padded_def)
  then show "huff_enc src = enc" unfolding huff_enc_def by (metis pack_bytes_bits)
qed

section \<open>The encoder\<close>

text \<open>The register holds the pending bits at its top and zeros below.\<close>

definition reg :: "u64 \<Rightarrow> bool list \<Rightarrow> bool" where
  "reg code pend \<longleftrightarrow> length pend \<le> 64 \<and>
     (\<forall>j < 64. bit code (63 - j) \<longleftrightarrow> j < length pend \<and> pend ! j)"

lemma reg_top:
  assumes "reg code pend" "8 \<le> length pend"
  shows "ucast (drop_bit 56 code) = byte_of (take 8 pend)"
proof (rule bit_word_eqI)
  fix i assume "i < LENGTH(8)"
  then have i: "i < 8" by simp
  then have "7 - i < 64" by simp
  then have "bit code (63 - (7 - i)) \<longleftrightarrow> 7 - i < length pend \<and> pend ! (7 - i)" using assms(1) unfolding reg_def by blast
  moreover have "63 - (7 - i) = i + 56" "7 - i < length pend" using i assms(2) by simp_all
  ultimately have "bit code (i + 56) = pend ! (7 - i)" using assms(2) i by simp
  then show "bit (ucast (drop_bit 56 code) :: u8) i = bit (byte_of (take 8 pend)) i"
    using i assms(2) by (auto simp: bit_byte_of bit_simps add.commute)
qed

lemma reg_push:
  assumes "reg code pend" "n \<le> length pend"
  shows "reg (push_bit n code) (drop n pend)"
proof -
  have "bit (push_bit n code) (63 - j) = (j < length (drop n pend) \<and> drop n pend ! j)" if "j < 64" for j
  proof (cases "j + n < 64")
    case True
    then have "63 - j - n = 63 - (j + n)" "n \<le> 63 - j" "63 - j < 64" by simp_all
    then have "bit (push_bit n code) (63 - j) = bit code (63 - (j + n))"
      by (simp add: bit_simps)
    then show ?thesis using assms True by (auto simp: reg_def add.commute)
  next
    case False
    then show ?thesis using assms that by (auto simp: reg_def bit_simps)
  qed
  then show ?thesis using assms by (auto simp: reg_def)
qed

lemma reg_push_word:
  assumes "reg code pend" "32 \<le> length pend"
  shows "be32 (ucast (drop_bit 32 code)) = pack (take 32 pend)"
proof -
  let ?c = "\<lambda>n. push_bit n code" and ?d = "\<lambda>n. drop n pend"
  have r: "reg (?c 8) (?d 8)" "reg (?c 16) (?d 16)" "reg (?c 24) (?d 24)"
    using reg_push [OF assms(1)] assms(2) by simp_all
  have top: "ucast (drop_bit 56 (?c n)) = byte_of (take 8 (?d n))" if "reg (?c n) (?d n)" "n \<le> 24" for n
    using reg_top [OF that(1)] that(2) assms(2) by simp
  have b: "(ucast (drop_bit 24 (ucast (drop_bit 32 code) :: u32)) :: u8) = ucast (drop_bit 56 code)"
    "(ucast (drop_bit 16 (ucast (drop_bit 32 code) :: u32)) :: u8) = ucast (drop_bit 56 (?c 8))"
    "(ucast (drop_bit 8 (ucast (drop_bit 32 code) :: u32)) :: u8) = ucast (drop_bit 56 (?c 16))"
    "(ucast (ucast (drop_bit 32 code) :: u32) :: u8) = ucast (drop_bit 56 (?c 24))"
    by (rule bit_word_eqI, simp add: bit_simps)+
  have "take 32 pend = take 8 pend @ take 8 (?d 8) @ take 8 (?d 16) @ take 8 (?d 24)"
    by (simp only: drop_drop take_add [symmetric] append.assoc [symmetric]) (simp add: take_add [symmetric])
  then have "pack (take 32 pend) =
      [byte_of (take 8 pend), byte_of (take 8 (?d 8)), byte_of (take 8 (?d 16)), byte_of (take 8 (?d 24))]"
    using assms(2) by (simp add: pack_append pack_byte)
  then show ?thesis
    using r top [of 8] top [of 16] top [of 24] reg_top [OF assms(1)] assms(2) by (simp add: be32_def b)
qed

lemma sym_entry:
  assumes "s < 257"
  shows "unat (sym_nbits (huff_sym_table ! s)) = length (sym_bits s)"
    "j < 32 \<Longrightarrow> bit (sym_code (huff_sym_table ! s)) (31 - j) \<longleftrightarrow> j < length (sym_bits s) \<and> sym_bits s ! j"
proof -
  let ?n = "fst (sym_data ! s)" and ?c = "snd (sym_data ! s)"
  note d = sym_data_at [OF assms]
  have e: "sym_nbits (huff_sym_table ! s) = of_nat ?n" "sym_code (huff_sym_table ! s) = of_nat ?c"
    using assms by (simp_all add: huff_sym_table_def length_sym_data split_def)
  show "unat (sym_nbits (huff_sym_table ! s)) = length (sym_bits s)"
    using d(2) by (simp add: e length_sym_bits [OF assms] unat_of_nat take_bit_nat_eq_self)
  have low: "\<not> bit ?c k" if "k < 32 - ?n" for k
  proof -
    have "take_bit (32 - ?n) ?c = 0" using d(4) by (simp add: take_bit_eq_0_iff)
    then show ?thesis using that by (metis bit_0_eq bit_take_bit_iff bot_apply bot_bool_def)
  qed
  assume j: "j < 32"
  have "bit (sym_code (huff_sym_table ! s)) (31 - j) = bit ?c (31 - j)"
    using less_imp_diff_less [of 31 32 j] by (simp add: e bit_of_nat_iff)
  moreover have "sym_bits s ! j = bit ?c (31 - j)" if "j < ?n"
    using that d(2) by (simp add: sym_bits_def nth_msb_bits)
  moreover have "\<not> bit ?c (31 - j)" if "\<not> j < ?n" using that j d(1) by (intro low) arith
  ultimately show "bit (sym_code (huff_sym_table ! s)) (31 - j) \<longleftrightarrow> j < length (sym_bits s) \<and> sym_bits s ! j"
    using length_sym_bits [OF assms] by auto
qed

lemma reg_add:
  assumes "reg code pend" "length pend < 32" "s < 257"
  shows "reg (code OR push_bit (32 - length pend) (ucast (sym_code (huff_sym_table ! s)))) (pend @ sym_bits s)"
proof -
  let ?w = "sym_code (huff_sym_table ! s)" and ?n = "length pend"
  have len: "length (sym_bits s) \<le> 30" using length_sym_bits sym_data_at(2) assms(3) by simp
  have "bit (code OR push_bit (32 - ?n) (ucast ?w)) (63 - j) \<longleftrightarrow> j < length (pend @ sym_bits s) \<and> (pend @ sym_bits s) ! j"
    if "j < 64" for j
  proof -
    have code: "bit code (63 - j) \<longleftrightarrow> j < ?n \<and> pend ! j" using assms(1) that by (simp add: reg_def)
    have push: "bit (push_bit (32 - ?n) (ucast ?w :: u64)) (63 - j) \<longleftrightarrow>
        32 - ?n \<le> 63 - j \<and> bit ?w (63 - j - (32 - ?n))"
      using that by (auto simp: bit_simps dest: bit_imp_le_length)
    consider "j < ?n" | k where "j = ?n + k" "k < 32" | k where "j = ?n + k" "32 \<le> k"
      by (metis le_Suc_ex not_le)
    then show ?thesis
    proof cases
      case 1
      then have "\<not> bit ?w (63 - j - (32 - ?n))" using assms(2) by (intro notI) (auto dest!: bit_imp_le_length)
      then show ?thesis using 1 code push by (simp add: bit_or_iff nth_append)
    next
      case 2
      then have "63 - j - (32 - ?n) = 31 - k" "32 - ?n \<le> 63 - j" using assms(2) by auto
      then show ?thesis using 2 code push sym_entry(2) [OF assms(3) 2(2)]
        by (simp add: bit_or_iff nth_append)
    next
      case 3
      then have "\<not> 32 - ?n \<le> 63 - j" using assms(2) that by auto
      then show ?thesis using 3 code push len by (simp add: bit_or_iff)
    qed
  qed
  then show ?thesis using len assms(2) by (simp add: reg_def)
qed

text \<open>Emptying the register.\<close>

lemma huff_flush_ok:
  assumes "grants alloc"
  shows "reg code pend \<Longrightarrow> nbits = length pend \<Longrightarrow> bufs_ok bs \<Longrightarrow>
    (case huff_flush alloc code nbits bs of (bs', r) \<Rightarrow>
       (case r of Inl e \<Rightarrow> appended bs (pack (take (8 * (nbits div 8)) pend)) (bs', Inl e)
        | Inr (code', nbits') \<Rightarrow>
            appended bs (pack (take (8 * (nbits div 8)) pend)) (bs', Inr ()) \<and>
            nbits' = nbits mod 8 \<and> reg code' (drop (8 * (nbits div 8)) pend)))"
proof (induction nbits arbitrary: code pend bs rule: less_induct)
  case (less nbits)
  show ?case
  proof (cases "nbits \<ge> 8")
    case False
    then show ?thesis using less(2-4) by (subst huff_flush.simps) simp
  next
    case True
    let ?x = "ucast (drop_bit 56 code) :: u8"
    have q: "8 * (nbits div 8) = 8 + 8 * ((nbits - 8) div 8)" using True le_div_geq [of 8 nbits] by simp
    have m: "(nbits - 8) mod 8 = nbits mod 8" using True by (simp add: le_mod_geq)
    have tk: "pack (take (8 * (nbits div 8)) pend) = [?x] @ pack (take (8 * ((nbits - 8) div 8)) (drop 8 pend))"
      unfolding q take_add using reg_top [OF less(2)] less(3) True by (simp add: pack_append pack_byte)
    have dr: "drop (8 * (nbits div 8)) pend = drop (8 * ((nbits - 8) div 8)) (drop 8 pend)"
      unfolding q by (simp add: add.commute)
    obtain bs1 r where add: "nghttp2_bufs_addb alloc ?x bs = (bs1, r)" by fastforce
    have app: "appended bs [?x] (bs1, r)" using bufs_addb_outcome [OF assms less(4), of ?x] add by simp
    show ?thesis
    proof (cases r)
      case (Inl e)
      then have "appended bs ([?x] @ pack (take (8 * ((nbits - 8) div 8)) (drop 8 pend))) (bs1, Inl e)"
        using app by (intro appended_fails) simp
      then show ?thesis using True add Inl unfolding tk by (subst huff_flush.simps) simp
    next
      case (Inr u)
      then have app: "appended bs [?x] (bs1, Inr ())" using app by simp
      have step: "huff_flush alloc code nbits bs = huff_flush alloc (push_bit 8 code) (nbits - 8) bs1"
        using True add Inr by (subst huff_flush.simps) simp
      have reg8: "reg (push_bit 8 code) (drop 8 pend)" using reg_push [OF less(2)] less(3) True by simp
      have "nbits - 8 < nbits" "nbits - 8 = length (drop 8 pend)" using True less(3) by simp_all
      note ih = less(1) [OF this(1) reg8 this(2) appended_bufs [OF app]]
      show ?thesis
        unfolding step tk dr using ih appended_then [OF app] m by (auto split: prod.splits sum.splits)
    qed
  qed
qed

lemma huff_finish_ok:
  assumes "grants alloc" "reg code pend" "nbits = length pend" "bufs_ok bs"
  shows "appended bs (pack (eos_padded pend)) (huff_finish alloc code nbits bs)"
proof -
  let ?full = "8 * (nbits div 8)"
  obtain bs1 r where fl: "huff_flush alloc code nbits bs = (bs1, r)" by fastforce
  note ok = huff_flush_ok [OF assms, unfolded fl prod.case]
  have pend: "eos_padded pend = take ?full pend @ eos_padded (drop ?full pend)"
    using assms(3) by (simp add: eos_padded_def minus_mult_div_eq_mod [symmetric])
  then have pk: "pack (eos_padded pend) = pack (take ?full pend) @ pack (eos_padded (drop ?full pend))"
    using assms(3) by (simp add: pack_append min_absorb2)
  show ?thesis
  proof (cases r)
    case (Inl e)
    then show ?thesis using ok appended_fails [of bs "pack (take ?full pend)" bs1 e] by (simp add: huff_finish_def fl pk)
  next
    case (Inr c)
    obtain code' nbits' where c: "c = (code', nbits')" by fastforce
    have ok1: "appended bs (pack (take ?full pend)) (bs1, Inr ())" "nbits' = nbits mod 8" "reg code' (drop ?full pend)"
      using ok Inr c by auto
    have len: "length (drop ?full pend) = nbits mod 8" using assms(3) by (simp add: minus_mult_div_eq_mod)
    show ?thesis
    proof (cases "nbits mod 8 = 0")
      case True
      then have "eos_padded (drop ?full pend) = []" using len by (simp add: eos_padded_def)
      then show ?thesis using ok1 True Inr c by (simp add: huff_finish_def fl pk)
    next
      case False
      let ?last = "eos_padded (drop ?full pend)" and ?k = "8 - nbits mod 8"
      have k: "?k < 8" "0 < ?k" using False by auto
      have last: "?last = drop ?full pend @ replicate ?k True" "length ?last = 8"
        using len False k by (simp_all add: eos_padded_def)
      have "ucast (drop_bit 56 code') OR (push_bit ?k 1 - 1) = byte_of ?last"
      proof (rule bit_word_eqI)
        fix i assume "i < LENGTH(8)"
        then have i: "i < 8" "7 - i < 64" "63 - (7 - i) = 56 + i" by simp_all
        have "bit code' (63 - (7 - i)) \<longleftrightarrow> 7 - i < length (drop ?full pend) \<and> drop ?full pend ! (7 - i)"
          using ok1(3) i(2) unfolding reg_def by blast
        then have "bit code' (56 + i) \<longleftrightarrow> 7 - i < nbits mod 8 \<and> drop ?full pend ! (7 - i)"
          using len i(3) by simp
        moreover have "push_bit ?k 1 - 1 = (mask ?k :: u8)" by (simp add: mask_eq_exp_minus_1)
        moreover have "i < ?k \<longleftrightarrow> \<not> 7 - i < nbits mod 8" using i(1) k by auto
        ultimately show "bit (ucast (drop_bit 56 code') OR (push_bit ?k 1 - 1) :: u8) i = bit (byte_of ?last) i"
          using i(1) len by (auto simp: bit_byte_of last nth_append bit_simps)
      qed
      then have "appended bs1 (pack ?last) (nghttp2_bufs_addb alloc (ucast (drop_bit 56 code') OR (push_bit ?k 1 - 1)) bs1)"
        using bufs_addb_outcome [OF assms(1) appended_bufs [OF ok1(1)]] by (simp add: pack_byte last(2))
      then show ?thesis using appended_then [OF ok1(1)] False Inr c ok1(2) by (simp add: huff_finish_def fl pk)
    qed
  qed
qed

lemma huff_bits_simps [simp]:
  "huff_bits [] = []" "huff_bits (c # cs) = sym_bits (unat c) @ huff_bits cs"
  by (simp_all add: huff_bits_def)

lemma u8_sym: "unat (c :: u8) < 257"
  using u8_less [of c] by simp

lemma padded_split: "8 dvd n \<Longrightarrow> n \<le> length xs \<Longrightarrow> pack (eos_padded (xs @ ys)) = pack (take n xs) @ pack (eos_padded (drop n xs @ ys))"
proof -
  assume n: "8 dvd n" "n \<le> length xs"
  then obtain k m where "n = 8 * k" "length xs = n + m" by (auto simp: le_iff_add)
  then have "(length xs - n + length ys) mod 8 = (length xs + length ys) mod 8"
    by (simp add: add.assoc)
  then have "eos_padded (xs @ ys) = take n xs @ eos_padded (drop n xs @ ys)" using n by (simp add: eos_padded_def)
  then show ?thesis using n by (simp add: pack_append min_absorb2)
qed

lemma huff_loop_ok:
  assumes "grants alloc"
  shows "reg code pend \<Longrightarrow> nbits = length pend \<Longrightarrow> nbits < 32 \<Longrightarrow> bufs_ok bs \<Longrightarrow>
    appended bs (pack (eos_padded (pend @ huff_bits src))) (huff_loop alloc (cur_avail bs) code nbits src bs)"
proof (induction src arbitrary: code pend nbits bs)
  case Nil
  then show ?case using huff_finish_ok [OF assms] by simp
next
  case (Cons c src)
  let ?sym = "huff_sym_table ! unat c" and ?p = "pend @ sym_bits (unat c)"
  let ?code = "code OR push_bit (32 - nbits) (ucast (sym_code ?sym))"
  let ?n = "nbits + unat (sym_nbits ?sym)"
  have r: "reg ?code ?p" using reg_add [OF Cons.prems(1) _ u8_sym] Cons.prems(2,3) by simp
  have n: "?n = length ?p" using sym_entry(1) [OF u8_sym] Cons.prems(2) by simp
  have bits: "pend @ huff_bits (c # src) = ?p @ huff_bits src" by simp
  show ?case
  proof (cases "?n < 32")
    case True
    then show ?thesis using Cons.IH [OF r n True Cons.prems(4)] by (simp add: Let_def)
  next
    case full: False
    show ?thesis
    proof (cases "cur_avail bs \<ge> 4")
      case True
      let ?x = "image32 (htonl (ucast (drop_bit 32 ?code)))"
      have x: "?x = pack (take 32 ?p)" using reg_push_word [OF r] full n by (simp add: image32_htonl)
      obtain bs1 where up: "upd_cur (\<lambda>b. buf_append b ?x) bs = (bs1, Inr ())" "appended bs ?x (bs1, Inr ())"
          "cur_avail bs1 = cur_avail bs - 4"
        using upd_cur_appended [OF Cons.prems(4), of ?x] True
        by (cases "upd_cur (\<lambda>b. buf_append b ?x) bs") (auto simp: image32_def)
      have len: "32 \<le> length ?p" using full n by simp
      have "?n < 64" using Cons.prems(2,3) length_sym_bits [OF u8_sym, of c] sym_data_at(2) [OF u8_sym, of c] n
        by simp
      then have n32: "?n - 32 = length (drop 32 ?p)" "?n - 32 < 32" using n by auto
      have "appended bs (?x @ pack (eos_padded (drop 32 ?p @ huff_bits src)))
          (huff_loop alloc (cur_avail bs1) (push_bit 32 ?code) (?n - 32) src bs1)"
        by (rule appended_then [OF up(2) Cons.IH [OF reg_push [OF r len] n32 appended_bufs [OF up(2)]]])
      moreover have "pack (eos_padded (?p @ huff_bits src)) = ?x @ pack (eos_padded (drop 32 ?p @ huff_bits src))"
        using padded_split [of 32 ?p] len x by simp
      moreover have "huff_loop alloc (cur_avail bs) code nbits (c # src) bs =
          huff_loop alloc (cur_avail bs1) (push_bit 32 ?code) (?n - 32) src bs1"
        using full True up(1,3) by (simp add: Let_def)
      ultimately show ?thesis unfolding bits by simp
    next
      case False
      let ?f = "8 * (?n div 8)"
      obtain bs1 res where fl: "huff_flush alloc ?code ?n bs = (bs1, res)" by fastforce
      note ok = huff_flush_ok [OF assms r n Cons.prems(4), unfolded fl prod.case]
      have split: "pack (eos_padded (?p @ huff_bits src)) = pack (take ?f ?p) @ pack (eos_padded (drop ?f ?p @ huff_bits src))"
        using padded_split [of ?f ?p] n by simp
      show ?thesis
      proof (cases res)
        case (Inl e)
        then have "appended bs (pack (take ?f ?p)) (bs1, Inl e)" using ok by simp
        from appended_fails [OF this] show ?thesis
          unfolding bits split using full False fl Inl by (simp add: Let_def)
      next
        case (Inr cn)
        obtain code' n' where cn: "cn = (code', n')" by fastforce
        have ok1: "appended bs (pack (take ?f ?p)) (bs1, Inr ())" "n' = ?n mod 8" "reg code' (drop ?f ?p)"
          using ok Inr cn by auto
        have "length (drop ?f ?p) = ?n mod 8" by (simp only: length_drop n [symmetric] minus_mult_div_eq_mod)
        then have n': "n' = length (drop ?f ?p)" "n' < 32" using ok1(2) by simp_all
        show ?thesis
          unfolding bits split using appended_then [OF ok1(1) Cons.IH [OF ok1(3) n' appended_bufs [OF ok1(1)]]]
            full False fl Inr cn by (simp add: Let_def)
      qed
    qed
  qed
qed

lemma huff_encode_ok:
  assumes "grants alloc" "bufs_ok bs"
  shows "appended bs (huff_enc src) (nghttp2_hd_huff_encode alloc src bs)"
proof -
  have "reg 0 []" by (simp add: reg_def)
  from huff_loop_ok [OF assms(1) this _ _ assms(2), of 0 src] show ?thesis
    by (simp add: nghttp2_hd_huff_encode_def huff_enc_def)
qed

lemma length_pack: "8 dvd length bs \<Longrightarrow> 8 * length (pack bs) = length bs"
  using bytes_bits_pack [of bs] length_bytes_bits [of "pack bs"] by simp

lemma length_huff_enc: "length (huff_enc src) = (length (huff_bits src) + 7) div 8"
proof -
  let ?n = "length (huff_bits src)"
  have "8 * length (huff_enc src) = ?n + (8 - ?n mod 8) mod 8"
    using length_pack [of "eos_padded (huff_bits src)"] by (simp add: huff_enc_def) (simp add: eos_padded_def)
  moreover have "(8 - ?n mod 8) mod 8 < 8" by simp
  ultimately show ?thesis by arith
qed

lemma huff_bits_bound: "length (huff_bits src) \<le> 30 * length src"
proof (induction src)
  case (Cons c src)
  then show ?case using length_sym_bits [OF u8_sym, of c] sym_data_at(2) [OF u8_sym, of c] by simp
qed simp

lemma encode_count_ok:
  assumes "length src \<le> 2 ^ 26"
  shows "unat (nghttp2_hd_huff_encode_count src) = length (huff_enc src)"
proof -
  have fold: "fold (\<lambda>c nbits. nbits + sym_nbits (huff_sym_table ! unat c)) src n = n + of_nat (length (huff_bits src))"
    for n :: u32
  proof (induction src arbitrary: n)
    case (Cons c src)
    have "sym_nbits (huff_sym_table ! unat c) = of_nat (length (sym_bits (unat c)))"
      using arg_cong [OF sym_entry(1) [OF u8_sym, of c], of "of_nat :: nat \<Rightarrow> u32"] by simp
    then show ?case using Cons by (simp add: add.assoc)
  qed simp
  have "length (huff_bits src) + 7 < 2 ^ 32" using huff_bits_bound [of src] assms by simp
  then have "unat (of_nat (length (huff_bits src) + 7) :: u32) = length (huff_bits src) + 7"
    by (simp only: unat_of_nat) (simp add: take_bit_nat_eq_self)
  moreover have "unat ((of_nat (length (huff_bits src)) + 7) div 8 :: u32) =
      unat (of_nat (length (huff_bits src)) + 7 :: u32) div unat (8 :: u32)" by (rule unat_div)
  ultimately show ?thesis
    by (simp add: nghttp2_hd_huff_encode_count_def fold length_huff_enc)
qed

end
