(* ===== verification/HuffDecode.thy ===== *)
theory HuffDecode
  imports Huff
begin

text \<open>
  The decoder of \<open>nghttp2_hd_huffman.c\<close>, whose code is in the theory \<open>Huff\<close>, proved against the code
  tree: its context is a node of the tree or the failure state, a byte takes it two steps further,
  and it accepts exactly the encodings, whatever pieces they arrive in.
\<close>

lemma node_ids: "map node_id (inner huff_tree) = [0..<256]"
  by (simp add: huff_tree_def upt_rec [of _ "numeral k" for k])

lemma length_inner: "length (inner huff_tree) = 256"
  using arg_cong [OF node_ids, of length] by simp

lemma node_at: "i < 256 \<Longrightarrow> node_id (inner huff_tree ! i) = i"
  using arg_cong [OF node_ids, of "\<lambda>xs. xs ! i"] by (simp add: length_inner)

definition entry_word :: "nat \<times> nat \<Rightarrow> nghttp2_huff_decode" where
  "entry_word e = \<lparr>fstate = of_nat (fst e), sym = of_nat (snd e)\<rparr>"

lemma table_length: "length huff_decode_table = 257"
  by (simp add: huff_decode_table_def huff_rows_tree [symmetric] length_inner)

lemma inner_branch: "t \<in> set (inner u) \<Longrightarrow> is_inner t"
  by (induction u) auto

lemma table_row:
  assumes "t \<in> set (inner huff_tree)"
  shows "node_id t < 256" "x < 16 \<Longrightarrow> huff_decode_table ! node_id t ! x = entry_word (entry_of None (feed t (msb_bits 4 x)))"
    "length (huff_decode_table ! node_id t) = 16"
proof -
  obtain i where i: "i < 256" "t = inner huff_tree ! i"
    using assms by (metis in_set_conv_nth length_inner)
  then have id: "node_id t = i" using node_at by simp
  then show "node_id t < 256" using i by simp
  have four: "Suc (Suc (Suc (Suc 0))) = (4 :: nat)" by simp
  have "huff_decode_table ! i = map entry_word (walks 4 None t)"
    using i length_inner
    by (simp add: huff_decode_table_def huff_rows_tree [symmetric, unfolded four] nth_append entry_word_def split_def)
  then show "x < 16 \<Longrightarrow> huff_decode_table ! node_id t ! x = entry_word (entry_of None (feed t (msb_bits 4 x)))"
    "length (huff_decode_table ! node_id t) = 16"
    using nth_walks [OF inner_branch [OF assms], of x 4 None] id by (simp_all add: length_walks)
qed

lemma table_fail: "length (huff_decode_table ! 256) = 16"
  "x < 16 \<Longrightarrow> huff_decode_table ! 256 ! x = entry_word (0x100, 0)"
  using length_inner by (simp_all add: huff_decode_table_def huff_rows_tree [symmetric] nth_append entry_word_def)

text \<open>The contexts: the failure state, or a node with its flags.\<close>

definition context_at :: "u16 \<Rightarrow> htree option \<Rightarrow> bool" where
  "context_at fs r \<longleftrightarrow>
     (case r of
        None \<Rightarrow> fs = 0x100
      | Some t \<Rightarrow> t \<in> set (inner huff_tree) \<and> unat (fs AND 0x1ff) = node_id t \<and>
          (fs AND NGHTTP2_HUFF_ACCEPTED \<noteq> 0 \<longleftrightarrow> node_id t \<in> set accepting))"

definition run :: "htree option \<Rightarrow> bool list \<Rightarrow> (htree \<times> nat list) option" where
  "run r bs = (case r of None \<Rightarrow> None | Some t \<Rightarrow> feed t bs)"

lemma run_append: "run r (xs @ ys) = (case run r xs of None \<Rightarrow> None
     | Some (t', out) \<Rightarrow> map_option (\<lambda>(t'', out'). (t'', out @ out')) (run (Some t') ys))"
  by (simp add: run_def feed_append split: option.splits)

lemma state_word:
  assumes "i < 256" "f < 4"
  shows "unat ((of_nat (f * 0x4000 + i) :: u16) AND 0x1ff) = i"
    "(of_nat (f * 0x4000 + i) :: u16) AND NGHTTP2_HUFF_ACCEPTED \<noteq> 0 \<longleftrightarrow> odd f"
    "(of_nat (f * 0x4000 + i) :: u16) AND NGHTTP2_HUFF_SYM \<noteq> 0 \<longleftrightarrow> 2 \<le> f"
proof -
  let ?w = "of_nat (f * 0x4000 + i) :: u16"
  have n: "f * 0x4000 + i < 2 ^ 16" using assms by simp
  then have un: "unat ?w = f * 0x4000 + i" by (simp only: unat_of_nat) (simp add: take_bit_nat_eq_self)
  have "bit ?w k = bit (unat ?w) k" for k by (simp add: bit_unsigned_iff)
  then have bit: "bit ?w k = odd ((f * 0x4000 + i) div 2 ^ k)" for k by (simp only: un bit_iff_odd)
  have "0x1ff = (mask 9 :: u16)" by (simp add: mask_eq_exp_minus_1)
  then have "unat (?w AND 0x1ff) = unat ?w mod 2 ^ 9"
    by (simp only: take_bit_eq_mask [symmetric] unsigned_take_bit_eq) (simp add: take_bit_eq_mod)
  also have "\<dots> = (i + 512 * (32 * f)) mod 512" unfolding un by (rule arg_cong2 [of _ _ _ _ "(mod)"]) simp_all
  also have "\<dots> = i" using assms(1) by (simp only: mod_mult_self2) simp
  finally show "unat (?w AND 0x1ff) = i" .
  have "(f * 0x4000 + i) div 2 ^ 14 = f" using assms(1) by (intro div_nat_eqI) auto
  then show "?w AND NGHTTP2_HUFF_ACCEPTED \<noteq> 0 \<longleftrightarrow> odd f"
    unfolding NGHTTP2_HUFF_ACCEPTED_def push_bit_of_1 and_exp_eq_0_iff_not_bit bit by simp
  have "(f * 0x4000 + i) div 2 ^ 15 = f div 2" using assms by (intro div_nat_eqI) auto
  moreover have "odd (f div 2) \<longleftrightarrow> 2 \<le> f" using assms(2) by presburger
  ultimately show "?w AND NGHTTP2_HUFF_SYM \<noteq> 0 \<longleftrightarrow> 2 \<le> f"
    unfolding NGHTTP2_HUFF_SYM_def push_bit_of_1 and_exp_eq_0_iff_not_bit bit by simp
qed

text \<open>One transition is four bits in the tree.\<close>

lemma row_entry_state:
  assumes "i < 256"
  shows "unat (of_nat (fst (row_entry i s)) AND 0x1ff :: u16) = i"
    "of_nat (fst (row_entry i s)) AND NGHTTP2_HUFF_ACCEPTED \<noteq> (0 :: u16) \<longleftrightarrow> i \<in> set accepting"
    "of_nat (fst (row_entry i s)) AND NGHTTP2_HUFF_SYM \<noteq> (0 :: u16) \<longleftrightarrow> s \<noteq> None"
proof -
  let ?f = "(if i \<in> set accepting then 1 else 0) + (if s = None then 0 else 2) :: nat"
  have "fst (row_entry i s) = ?f * 0x4000 + i" by (cases s) auto
  moreover note state_word [OF assms, of ?f]
  ultimately show "unat (of_nat (fst (row_entry i s)) AND 0x1ff :: u16) = i"
    "of_nat (fst (row_entry i s)) AND NGHTTP2_HUFF_ACCEPTED \<noteq> (0 :: u16) \<longleftrightarrow> i \<in> set accepting"
    "of_nat (fst (row_entry i s)) AND NGHTTP2_HUFF_SYM \<noteq> (0 :: u16) \<longleftrightarrow> s \<noteq> None"
    by (auto split: if_splits)
qed

lemma huff_step_ok:
  assumes "context_at fs r" "x < 16"
  shows "(case run r (msb_bits 4 x) of
      None \<Rightarrow> huff_step fs x b = Inr (0x100, b)
    | Some (t, out) \<Rightarrow> \<exists>fs'. context_at fs' (Some t) \<and> length out \<le> 1 \<and>
        huff_step fs x b = (if out = [] then Inr (fs', b)
          else rbind (buf_append b (map of_nat out)) (\<lambda>b. Inr (fs', b))))"
proof (cases r)
  case None
  then have "unat (fs AND 0x1ff) = 256" using assms(1) by (simp add: context_at_def)
  moreover have "(0x100 :: u16) AND NGHTTP2_HUFF_SYM = 0" by (simp add: NGHTTP2_HUFF_SYM_def)
  ultimately show ?thesis
    using None assms(2) table_fail
    by (simp add: huff_step_def run_def table_length entry_word_def Let_def)
next
  case (Some t)
  then have t: "t \<in> set (inner huff_tree)" "unat (fs AND 0x1ff) = node_id t"
    using assms(1) by (auto simp: context_at_def)
  note row = table_row [OF t(1)]
  let ?e = "entry_of None (feed t (msb_bits 4 x))"
  have step: "huff_step fs x b =
      (let e = entry_word ?e in if fstate e AND NGHTTP2_HUFF_SYM \<noteq> 0
       then rbind (buf_append b [sym e]) (\<lambda>b. Inr (fstate e, b)) else Inr (fstate e, b))"
    using row assms(2) t(2) by (simp add: huff_step_def table_length)
  show ?thesis
  proof (cases "feed t (msb_bits 4 x)")
    case None
    moreover have "(0x100 :: u16) AND NGHTTP2_HUFF_SYM = 0" by (simp add: NGHTTP2_HUFF_SYM_def)
    ultimately show ?thesis using Some step by (simp add: run_def entry_of_def entry_word_def)
  next
    case f: (Some p)
    obtain t' out where p: "p = (t', out)" by fastforce
    have t': "t' \<in> set (inner huff_tree)" using feed_nodes f p t(1) by simp
    have out: "length out \<le> 1" using feed_four [of t "msb_bits 4 x"] f p by simp
    let ?s = "if out = [] then None else Some (last out)"
    have e: "?e = row_entry (node_id t') ?s" using f p by (simp add: entry_of_def)
    note st = row_entry_state [OF table_row(1) [OF t'], of ?s]
    have at: "context_at (fstate (entry_word ?e)) (Some t')"
      using st(1,2) t' by (simp add: context_at_def e entry_word_def)
    have "sym (entry_word ?e) = of_nat (last out)" if "out \<noteq> []"
      using that by (simp add: e entry_word_def)
    moreover have "map of_nat out = [of_nat (last out)]" if "out \<noteq> []"
      using that out by (cases out) auto
    moreover have "fstate (entry_word ?e) AND NGHTTP2_HUFF_SYM \<noteq> 0 \<longleftrightarrow> out \<noteq> []"
      using st(3) by (simp add: e entry_word_def)
    ultimately show ?thesis
      using Some f p at out step by (auto simp: run_def Let_def intro!: exI [of _ "fstate (entry_word ?e)"])
  qed
qed

text \<open>What reading the bits \<open>bits\<close> does: the context follows the tree, the symbols passed, at most
  \<open>n\<close>, are appended to the buffer.\<close>

definition decodes :: "htree option \<Rightarrow> bool list \<Rightarrow> nat \<Rightarrow> buf \<Rightarrow> u16 \<times> buf \<Rightarrow> bool" where
  "decodes r bits n b res \<longleftrightarrow>
     (case res of (fs', b') \<Rightarrow>
        buf_ok b' \<and> length (mem b') = length (mem b) \<and> pos b' = pos b \<and> last_pos b' \<le> last_pos b + n \<and>
        (case run r bits of
           None \<Rightarrow> fs' = 0x100 \<and> (\<exists>out. buf_data b' = buf_data b @ out)
         | Some (t, out) \<Rightarrow> context_at fs' (Some t) \<and> buf_data b' = buf_data b @ map of_nat out))"

definition reached :: "htree option \<Rightarrow> bool list \<Rightarrow> htree option" where
  "reached r bits = map_option fst (run r bits)"

lemma decodes_context: "decodes r bits n b (fs', b') \<Longrightarrow> context_at fs' (reached r bits)"
  by (auto simp: decodes_def reached_def context_at_def split: option.splits)

lemma decodes_trans:
  assumes "decodes r xs m b (fs1, b1)" "decodes (reached r xs) ys n b1 res"
  shows "decodes r (xs @ ys) (m + n) b res"
  using assms
  by (auto simp: decodes_def reached_def run_append run_def [of None] split: option.splits prod.splits)

lemma step_decodes:
  assumes "context_at fs r" "x < 16" "buf_ok b" "1 \<le> nghttp2_buf_avail b"
  shows "\<exists>fs' b'. huff_step fs x b = Inr (fs', b') \<and> decodes r (msb_bits 4 x) 1 b (fs', b')"
proof (cases "run r (msb_bits 4 x)")
  case None
  then show ?thesis using huff_step_ok [OF assms(1,2), of b] assms(3)
    by (auto simp: decodes_def)
next
  case (Some p)
  obtain t out where p: "p = (t, out)" by fastforce
  obtain fs' where fs': "context_at fs' (Some t)" "length out \<le> 1"
      "huff_step fs x b = (if out = [] then Inr (fs', b)
          else rbind (buf_append b (map of_nat out)) (\<lambda>b. Inr (fs', b)))"
    using huff_step_ok [OF assms(1,2), of b] Some p by auto
  obtain b' where b': "buf_append b (map of_nat out) = Inr b'" "buf_ok b'"
      "buf_data b' = buf_data b @ map of_nat out" "length (mem b') = length (mem b)" "pos b' = pos b"
      "last_pos b' = last_pos b + length out"
    using buf_append_ok [OF assms(3), of "map of_nat out"] fs'(2) assms(4) by auto
  show ?thesis
  proof (cases "out = []")
    case True
    then show ?thesis using fs' Some p assms(3) by (auto simp: decodes_def)
  next
    case False
    then show ?thesis using fs' b' Some p by (auto simp: decodes_def)
  qed
qed

lemma nibbles: "msb_bits 8 (c :: u8) = msb_bits 4 (unat (drop_bit 4 c)) @ msb_bits 4 (unat (c AND 0xf))"
proof -
  have m: "0xf = (mask 4 :: u8)" by (simp add: mask_eq_exp_minus_1)
  show ?thesis
    unfolding m by (rule nth_equalityI)
      (auto simp: nth_append nth_msb_bits bit_simps simp del: msb_bits_simps(2))
qed

lemma nibble_bounds: "unat (drop_bit 4 (c :: u8)) < 16" "unat (c AND 0xf) < 16"
proof -
  have m: "0xf = (mask 4 :: u8)" by (simp add: mask_eq_exp_minus_1)
  show "unat (c AND 0xf) < 16"
    unfolding m by (simp only: take_bit_eq_mask [symmetric] unsigned_take_bit_eq) (simp add: take_bit_eq_mod)
  have "unat (drop_bit 4 c) = unat c div 2 ^ 4" unfolding unsigned_drop_bit_eq
    using u8_less [of c] by (simp add: drop_bit_eq_div take_bit_nat_eq_self)
  then show "unat (drop_bit 4 c) < 16" using u8_less [of c] by simp
qed

lemma decodes_avail:
  "decodes r bits n b (fs', b') \<Longrightarrow> n + k \<le> nghttp2_buf_avail b \<Longrightarrow> buf_ok b' \<and> k \<le> nghttp2_buf_avail b'"
  by (auto simp: decodes_def nghttp2_buf_avail_def)

lemma loop_decodes:
  "context_at fs r \<Longrightarrow> buf_ok b \<Longrightarrow> 2 * length src \<le> nghttp2_buf_avail b \<Longrightarrow>
   \<exists>fs' b'. huff_decode_loop fs src b = Inr (fs', b') \<and> decodes r (bytes_bits src) (2 * length src) b (fs', b')"
proof (induction src arbitrary: fs r b)
  case Nil
  then show ?case by (cases r) (auto simp: decodes_def run_def context_at_def)
next
  case (Cons c src)
  obtain fs1 b1 where 1: "huff_step fs (unat (drop_bit 4 c)) b = Inr (fs1, b1)"
      "decodes r (msb_bits 4 (unat (drop_bit 4 c))) 1 b (fs1, b1)"
    using step_decodes [OF Cons.prems(1) nibble_bounds(1) Cons.prems(2)] Cons.prems(3) by fastforce
  let ?r1 = "reached r (msb_bits 4 (unat (drop_bit 4 c)))"
  have b1: "buf_ok b1 \<and> Suc (2 * length src) \<le> nghttp2_buf_avail b1"
    using decodes_avail [OF 1(2), of "Suc (2 * length src)"] Cons.prems(3) by simp
  obtain fs2 b2 where 2: "huff_step fs1 (unat (c AND 0xf)) b1 = Inr (fs2, b2)"
      "decodes ?r1 (msb_bits 4 (unat (c AND 0xf))) 1 b1 (fs2, b2)"
    using step_decodes [OF decodes_context [OF 1(2)] nibble_bounds(2)] b1 by fastforce
  have d: "decodes r (msb_bits 8 c) (1 + 1) b (fs2, b2)"
    unfolding nibbles by (rule decodes_trans [OF 1(2) 2(2)])
  have b2: "buf_ok b2" "2 * length src \<le> nghttp2_buf_avail b2"
    using decodes_avail [OF d, of "2 * length src"] Cons.prems(3) by simp_all
  obtain fs' b' where 3: "huff_decode_loop fs2 src b2 = Inr (fs', b')"
      "decodes (reached r (msb_bits 8 c)) (bytes_bits src) (2 * length src) b2 (fs', b')"
    using Cons.IH [OF decodes_context [OF d] b2] by blast
  have "decodes r (bytes_bits (c # src)) (2 * length (c # src)) b (fs', b')"
    using decodes_trans [OF d 3(2)] by simp
  then show ?case using 1(1) 2(1) 3(1) by simp
qed

section \<open>Decoding accepts the encodings\<close>

lemma huff_bits_syms: "huff_bits src = concat (map sym_bits (map unat src))"
  by (simp add: huff_bits_def o_def)

lemma feed_encoded:
  assumes "huff_enc src = enc"
  shows "\<exists>t. feed huff_tree (bytes_bits enc) = Some (t, map unat src) \<and> node_id t \<in> set accepting"
proof -
  obtain k where k: "k < 8" "bytes_bits enc = huff_bits src @ replicate k True"
    using assms huff_enc_iff by blast
  obtain t where "feed huff_tree (replicate k True) = Some (t, [])" "node_id t \<in> set accepting"
    using spine_accepts [of k] k(1) by auto
  moreover have "\<forall>s \<in> set (map unat src). s < 256" using u8_less by auto
  ultimately show ?thesis
    using feed_codes [of "map unat src" "replicate k True"] k(2) by (simp add: huff_bits_syms)
qed

lemma feed_accepted:
  assumes "feed huff_tree (bytes_bits enc) = Some (t, out)" "node_id t \<in> set accepting"
  shows "huff_enc (map of_nat out) = enc"
proof -
  obtain rest where rest: "bytes_bits enc = concat (map sym_bits out) @ rest" "follow huff_tree rest = Some t"
      "\<forall>s \<in> set out. s < 256"
    using feed_sound [OF assms(1), of "[]"] by auto
  have "is_inner t" using feed_inner [OF assms(1)] by simp
  then have "rest = replicate (length rest) True" "length rest \<le> 7"
    using accepted_path [OF rest(2)] assms(2) by auto
  moreover have "map unat (map of_nat out :: bytes) = out"
    using rest(3) by (simp add: map_idI unat_of_nat take_bit_nat_eq_self)
  ultimately show ?thesis
    unfolding huff_enc_iff huff_bits_syms using rest(1) by (intro exI [of _ "length rest"]) simp
qed

lemma huff_decode_loop_append:
  "huff_decode_loop fs (xs @ ys) b = rbind (huff_decode_loop fs xs b) (\<lambda>(fs, b). huff_decode_loop fs ys b)"
  by (induction fs xs b rule: huff_decode_loop.induct) (simp_all add: rbind_assoc split_def)

lemma context_init_at: "context_at nghttp2_hd_huff_decode_context_init (Some huff_tree)"
proof -
  let ?w = "of_nat (1 * 0x4000 + 0) :: u16"
  have tree: "huff_tree \<in> set (inner huff_tree)" by (rule inner_refl) simp
  have id: "node_id huff_tree = 0" by (simp add: huff_tree_def)
  have acc: "0 \<in> set accepting" by (simp add: accepting_def)
  have init: "nghttp2_hd_huff_decode_context_init = ?w"
    by (simp add: nghttp2_hd_huff_decode_context_init_def NGHTTP2_HUFF_ACCEPTED_def)
  have "unat (?w AND 0x1ff) = 0" by (rule state_word(1)) simp_all
  moreover have "?w AND NGHTTP2_HUFF_ACCEPTED \<noteq> 0 \<longleftrightarrow> odd (1 :: nat)" by (rule state_word(2)) simp_all
  ultimately show ?thesis
    unfolding context_at_def option.case init id using tree acc by (simp only: odd_one simp_thms)
qed

text \<open>The end of a string, which may have arrived in pieces: what was read is an encoding exactly if the
  context accepts.\<close>

lemma decodes_final:
  assumes "decodes (Some huff_tree) (bytes_bits enc) n b (fs, b')"
  shows "(fs AND NGHTTP2_HUFF_ACCEPTED \<noteq> 0 \<and> (\<exists>src. huff_enc src = enc \<and> buf_data b' = buf_data b @ src)) \<or>
    (fs AND NGHTTP2_HUFF_ACCEPTED = 0 \<and> (\<nexists>src. huff_enc src = enc))"
proof (cases "feed huff_tree (bytes_bits enc)")
  case None
  then have "fs = 0x100" using assms by (simp add: decodes_def run_def)
  then have "fs AND NGHTTP2_HUFF_ACCEPTED = 0" by (simp add: NGHTTP2_HUFF_ACCEPTED_def)
  moreover have "huff_enc src \<noteq> enc" for src using feed_encoded [of src enc] None by auto
  ultimately show ?thesis by blast
next
  case (Some p)
  obtain t out where p: "p = (t, out)" by fastforce
  have d: "context_at fs (Some t)" "buf_data b' = buf_data b @ map of_nat out"
    using assms Some p by (auto simp: decodes_def run_def)
  have acc: "fs AND NGHTTP2_HUFF_ACCEPTED \<noteq> 0 \<longleftrightarrow> node_id t \<in> set accepting"
    using d(1) by (simp add: context_at_def)
  show ?thesis
  proof (cases "node_id t \<in> set accepting")
    case True
    then show ?thesis using acc d(2) feed_accepted [of enc t out] Some p by blast
  next
    case False
    have "huff_enc src \<noteq> enc" for src using feed_encoded [of src enc] Some p False by auto
    then show ?thesis using acc False by blast
  qed
qed

text \<open>C21: the Huffman decoder accepts exactly the codes of byte strings. Given a buffer with two bytes of
  space per byte of input, decoding a string that arrives in two pieces never leaves the buffer nor
  the table; at the end it succeeds exactly if the input is the encoding of some string, and then
  that string was appended to the buffer; otherwise it reports NGHTTP2_ERR_HEADER_COMP.\<close>
theorem huff_decode_correct:
  assumes "buf_ok b" "2 * length (xs @ ys) \<le> nghttp2_buf_avail b"
  shows "\<exists>fs1 b1 fs b' r.
    nghttp2_hd_huff_decode nghttp2_hd_huff_decode_context_init b xs False = Inr (fs1, b1, Inr (length xs)) \<and>
    nghttp2_hd_huff_decode fs1 b1 ys True = Inr (fs, b', r) \<and> buf_ok b' \<and>
    (r = Inr (length ys) \<and> (\<exists>src. huff_enc src = xs @ ys \<and> buf_data b' = buf_data b @ src) \<or>
     r = Inl (Code NGHTTP2_ERR_HEADER_COMP) \<and> (\<nexists>src. huff_enc src = xs @ ys))"
proof -
  obtain fs b' where l: "huff_decode_loop nghttp2_hd_huff_decode_context_init (xs @ ys) b = Inr (fs, b')"
      "decodes (Some huff_tree) (bytes_bits (xs @ ys)) (2 * length (xs @ ys)) b (fs, b')"
    using loop_decodes [OF context_init_at assms] by blast
  then obtain fs1 b1 where "huff_decode_loop nghttp2_hd_huff_decode_context_init xs b = Inr (fs1, b1)"
      "huff_decode_loop fs1 ys b1 = Inr (fs, b')"
    by (auto simp: huff_decode_loop_append rbind_eq_Inr_iff)
  moreover have "buf_ok b'" using l(2) by (simp add: decodes_def)
  ultimately show ?thesis
    using decodes_final [OF l(2)] by (auto simp: nghttp2_hd_huff_decode_def)
qed

theorem huff_decode_correct_witness:
  "\<exists>fs1 b1 fs b' r.
    nghttp2_hd_huff_decode nghttp2_hd_huff_decode_context_init (nghttp2_buf_wrap_init (replicate 4 0)) [0x1c] False =
      Inr (fs1, b1, Inr 1) \<and>
    nghttp2_hd_huff_decode fs1 b1 [0x64] True = Inr (fs, b', r) \<and> buf_ok b'"
  using huff_decode_correct [of "nghttp2_buf_wrap_init (replicate 4 0)" "[0x1c]" "[0x64]"]
  by (auto simp: nghttp2_buf_wrap_init_def buf_ok_def nghttp2_buf_avail_def)

text \<open>The Huffman encoder appends the code of the string to the chain of buffers, whatever lies in
  the chain and wherever its buffers end: it is exactly as long as announced, the chain stays well
  formed, and failing means that the chain is full or memory has run out.\<close>
theorem huff_encode_correct:
  assumes "grants alloc" "bufs_ok bs" "length src \<le> 2 ^ 26"
  shows "\<exists>bs' r. nghttp2_hd_huff_encode alloc src bs = (bs', r) \<and> bufs_ok bs' \<and> same_limits bs bs' \<and>
    (r = Inr () \<and> bufs_data bs' = bufs_data bs @ huff_enc src \<or>
     r = Inl (Code NGHTTP2_ERR_BUFFER_ERROR) \<and> room bs < unat (nghttp2_hd_huff_encode_count src) \<or>
     r = Inl (Code NGHTTP2_ERR_NOMEM)) \<and>
    unat (nghttp2_hd_huff_encode_count src) = length (huff_enc src)"
proof -
  obtain bs' r where out: "nghttp2_hd_huff_encode alloc src bs = (bs', r)" by fastforce
  show ?thesis
    using huff_encode_ok [OF assms(1,2), of src] encode_count_ok [OF assms(3)]
    by (auto simp: out appended_def)
qed

theorem huff_encode_correct_witness:
  "\<exists>bs' r. nghttp2_hd_huff_encode (\<lambda>k n. Some (replicate n 0)) [48, 49] example_bufs = (bs', r) \<and> bufs_ok bs'"
  using huff_encode_correct [OF replicate_grants example_bufs_ok(1), of "[48, 49]"] by auto

end
