(* ===== verification/HdDeflate.thy ===== *)
theory HdDeflate
  imports HdInt HdSearch HuffDecode
begin

text \<open>
  The deflater of HPACK (\<open>nghttp2_hd.c\<close>): the representations it emits, the choice between them, and
  a whole header block with its table size updates. Its state is the dynamic table, the hash map
  over it and the table sizes to announce. The lemmas give the bytes emitted for each field and the
  dynamic table left behind.
\<close>

section \<open>Emitting\<close>

text \<open>\<open>nghttp2_bufs_add\<close> with a number of rounds that is always enough.\<close>

definition bufs_add :: "(nat \<Rightarrow> nat \<Rightarrow> bytes option) \<Rightarrow> bytes \<Rightarrow> bufs_op" where
  "bufs_add alloc xs bs =
     (case nghttp2_bufs_add (length xs + max_chunk bs) alloc xs bs of
        None \<Rightarrow> (bs, Inl Undefined)
      | Some out \<Rightarrow> out)"

definition sizeof_sb :: nat where "sizeof_sb = 16"

definition emit_table_size :: "(nat \<Rightarrow> nat \<Rightarrow> bytes option) \<Rightarrow> nat \<Rightarrow> bufs_op" where
  "emit_table_size alloc sz bs =
     (let blocklen = count_encoded_length sz 5 in
      if sizeof_sb < blocklen then fail_with NGHTTP2_ERR_HEADER_COMP bs
      else bufs_add alloc (take blocklen (encode_length 0x20 sz 5)) bs)"

definition emit_indexed_block :: "(nat \<Rightarrow> nat \<Rightarrow> bytes option) \<Rightarrow> nat \<Rightarrow> bufs_op" where
  "emit_indexed_block alloc idx bs =
     (let blocklen = count_encoded_length (idx + 1) 7 in
      if sizeof_sb < blocklen then fail_with NGHTTP2_ERR_HEADER_COMP bs
      else bufs_add alloc (take blocklen (encode_length 0x80 (idx + 1) 7)) bs)"

definition emit_string :: "(nat \<Rightarrow> nat \<Rightarrow> bytes option) \<Rightarrow> bytes \<Rightarrow> bufs_op" where
  "emit_string alloc str bs =
     (let enclen = unat (nghttp2_hd_huff_encode_count str);
          huffman = enclen < length str;
          enclen = (if huffman then enclen else length str);
          blocklen = count_encoded_length enclen 7 in
      if sizeof_sb < blocklen then fail_with NGHTTP2_ERR_HEADER_COMP bs
      else and_then (bufs_add alloc (take blocklen (encode_length (if huffman then push_bit 7 1 else 0) enclen 7)))
        (if huffman then nghttp2_hd_huff_encode alloc str else bufs_add alloc str) bs)"

definition pack_first_byte :: "indexing_mode \<Rightarrow> u8" where
  "pack_first_byte mode =
     (case mode of WITH_INDEXING \<Rightarrow> 0x40 | WITHOUT_INDEXING \<Rightarrow> 0 | NEVER_INDEXING \<Rightarrow> 0x10)"

definition emit_indname_block :: "(nat \<Rightarrow> nat \<Rightarrow> bytes option) \<Rightarrow> nat \<Rightarrow> bytes \<Rightarrow> indexing_mode \<Rightarrow> bufs_op" where
  "emit_indname_block alloc idx val mode bs =
     (let prefixlen = (if mode = WITH_INDEXING then 6 else 4);
          blocklen = count_encoded_length (idx + 1) prefixlen in
      if sizeof_sb < blocklen then fail_with NGHTTP2_ERR_HEADER_COMP bs
      else and_then (bufs_add alloc (take blocklen (encode_length (pack_first_byte mode) (idx + 1) prefixlen)))
        (emit_string alloc val) bs)"

definition emit_newname_block :: "(nat \<Rightarrow> nat \<Rightarrow> bytes option) \<Rightarrow> bytes \<Rightarrow> bytes \<Rightarrow> indexing_mode \<Rightarrow> bufs_op" where
  "emit_newname_block alloc name val mode =
     and_then (nghttp2_bufs_addb alloc (pack_first_byte mode))
       (and_then (emit_string alloc name) (emit_string alloc val))"

section \<open>The deflater\<close>

record deflater =
  dctx :: hd_context
  dmap :: hd_map
  deflate_hd_table_bufsize_max :: u32
  min_hd_table_bufsize_max :: u32
  notify_table_size_change :: bool

text \<open>The field given to the deflater: \<open>nghttp2_nv\<close>.\<close>

record nghttp2_nv =
  nva_name :: bytes
  nva_value :: bytes
  nva_flags :: u8

definition NGHTTP2_NV_FLAG_NO_INDEX :: u8 where "NGHTTP2_NV_FLAG_NO_INDEX = 1"

definition nghttp2_hd_deflate_init2 :: "(nat \<Rightarrow> bool) \<Rightarrow> u32 \<Rightarrow> deflater res option" where
  "nghttp2_hd_deflate_init2 grant max_size =
     map_option (\<lambda>r. rbind r (\<lambda>ctx.
       let notify = max_size < NGHTTP2_HD_DEFAULT_MAX_BUFFER_SIZE in
       Inr \<lparr>dctx = (if notify then ctx\<lparr>hd_table_bufsize_max := max_size\<rparr> else ctx), dmap = hd_map_init,
            deflate_hd_table_bufsize_max = max_size, min_hd_table_bufsize_max = UINT32_MAX,
            notify_table_size_change = notify\<rparr>)) (hd_context_init grant)"

definition nghttp2_hd_deflate_change_table_size :: "deflater \<Rightarrow> u32 \<Rightarrow> deflater res" where
  "nghttp2_hd_deflate_change_table_size d settings_max =
     (let next_bufsize = min settings_max (deflate_hd_table_bufsize_max d);
          ctx = (dctx d)\<lparr>hd_table_bufsize_max := next_bufsize\<rparr> in
      rbind (hd_context_shrink_table_size ctx (Some (dmap d))) (\<lambda>(ctx, hm).
        Inr (d\<lparr>dctx := ctx, dmap := the hm,
               min_hd_table_bufsize_max := min (min_hd_table_bufsize_max d) next_bufsize,
               notify_table_size_change := True\<rparr>)))"

definition hd_deflate_decide_indexing :: "deflater \<Rightarrow> nghttp2_nv \<Rightarrow> int \<Rightarrow> indexing_mode" where
  "hd_deflate_decide_indexing d nv token =
     (if token = NGHTTP2_TOKEN__PATH \<or> token = NGHTTP2_TOKEN_AGE \<or>
         token = NGHTTP2_TOKEN_CONTENT_LENGTH \<or> token = NGHTTP2_TOKEN_ETAG \<or>
         token = NGHTTP2_TOKEN_IF_MODIFIED_SINCE \<or>
         token = NGHTTP2_TOKEN_IF_NONE_MATCH \<or> token = NGHTTP2_TOKEN_LOCATION \<or>
         token = NGHTTP2_TOKEN_SET_COOKIE \<or>
         entry_room (length (nva_name nv)) (length (nva_value nv)) > hd_table_bufsize_max (dctx d) * 3 div 4
      then WITHOUT_INDEXING else WITH_INDEXING)"

text \<open>\<open>nghttp2_rcbuf_new2\<close>: room for the bytes and a final zero.\<close>

definition sizeof_rcbuf :: nat where "sizeof_rcbuf = 20"

definition nghttp2_rcbuf_new2 :: "(nat \<Rightarrow> bool) \<Rightarrow> bytes \<Rightarrow> bytes res" where
  "nghttp2_rcbuf_new2 grant src =
     (if grant (sizeof_rcbuf + (length src + 1)) then Inr src else Inl (Code NGHTTP2_ERR_NOMEM))"

text \<open>The name of the entry stored: shared with the entry found, or a copy.\<close>

definition deflate_name :: "(nat \<Rightarrow> bool) \<Rightarrow> hd_context \<Rightarrow> int \<Rightarrow> nghttp2_nv \<Rightarrow> bytes res" where
  "deflate_name grant ctx idx nv =
     (if idx \<noteq> - 1 then rbind (nghttp2_hd_table_get ctx (nat idx)) (\<lambda>e. Inr (nv_name e))
      else nghttp2_rcbuf_new2 grant (nva_name nv))"

definition deflate_mode :: "deflater \<Rightarrow> nghttp2_nv \<Rightarrow> int \<Rightarrow> indexing_mode" where
  "deflate_mode d nv token =
     (if token = NGHTTP2_TOKEN_AUTHORIZATION \<or>
         (token = NGHTTP2_TOKEN_COOKIE \<and> length (nva_value nv) < 20) \<or>
         nva_flags nv AND NGHTTP2_NV_FLAG_NO_INDEX \<noteq> 0
      then NEVER_INDEXING else hd_deflate_decide_indexing d nv token)"

text \<open>Storing the field in the table; outer \<open>None\<close> stands for a call that does not return.\<close>

definition deflate_store :: "(nat \<Rightarrow> bool) \<Rightarrow> deflater \<Rightarrow> nghttp2_nv \<Rightarrow> int \<Rightarrow> u32 \<Rightarrow> int \<Rightarrow>
    (deflater \<times> unit res) option" where
  "deflate_store grant d nv token h idx =
     (case rbind (deflate_name grant (dctx d) idx nv) (\<lambda>n.
           rbind (nghttp2_rcbuf_new2 grant (nva_value nv)) (\<lambda>v. Inr (n, v))) of
        Inl e \<Rightarrow> Some (d, Inl e)
      | Inr (n, v) \<Rightarrow>
          (case add_hd_table_incremental grant (dctx d)
              \<lparr>nv_name = n, nv_value = v, nv_token = token, nv_flags = NGHTTP2_NV_FLAG_NONE\<rparr> (Some (dmap d)) h of
             None \<Rightarrow> None
           | Some (ctx, hm, r) \<Rightarrow>
               Some (d\<lparr>dctx := ctx, dmap := the hm\<rparr>,
                 case r of
                   Inl (Code e) \<Rightarrow> Inl (Code NGHTTP2_ERR_HEADER_COMP)
                 | r \<Rightarrow> r)))"

definition deflate_nv :: "(nat \<Rightarrow> bool) \<Rightarrow> (nat \<Rightarrow> nat \<Rightarrow> bytes option) \<Rightarrow> deflater \<Rightarrow> nghttp2_nv \<Rightarrow> bufs \<Rightarrow>
    (deflater \<times> bufs \<times> unit res) option" where
  "deflate_nv grant alloc d nv bs =
     (let token = lookup_token (nva_name nv);
          h = field_hash (nva_name nv);
          mode = deflate_mode d nv token;
          res = search_hd_table (dctx d) (nva_name nv) (nva_value nv) token mode (dmap d) h;
          idx = sr_index res in
      if sr_match res then
        (case emit_indexed_block alloc (nat idx) bs of (bs', r) \<Rightarrow> Some (d, bs', r))
      else
        (case (if mode = WITH_INDEXING then deflate_store grant d nv token h idx else Some (d, Inr ())) of
           None \<Rightarrow> None
         | Some (d', Inl e) \<Rightarrow> Some (d', bs, Inl e)
         | Some (d', Inr _) \<Rightarrow>
             (case (if idx = - 1 then emit_newname_block alloc (nva_name nv) (nva_value nv) mode bs
                    else emit_indname_block alloc (nat idx) (nva_value nv) mode bs) of
                (bs', r) \<Rightarrow> Some (d', bs', r))))"

fun deflate_nvs :: "(nat \<Rightarrow> bool) \<Rightarrow> (nat \<Rightarrow> nat \<Rightarrow> bytes option) \<Rightarrow> deflater \<Rightarrow> nghttp2_nv list \<Rightarrow> bufs \<Rightarrow>
    (deflater \<times> bufs \<times> unit res) option" where
  "deflate_nvs grant alloc d [] bs = Some (d, bs, Inr ())"
| "deflate_nvs grant alloc d (nv # nvs) bs =
     (case deflate_nv grant alloc d nv bs of
        None \<Rightarrow> None
      | Some (d', bs', Inl e) \<Rightarrow> Some (d', bs', Inl e)
      | Some (d', bs', Inr _) \<Rightarrow> deflate_nvs grant alloc d' nvs bs')"

text \<open>The table size updates at the head of a block.\<close>

definition deflate_sizes :: "(nat \<Rightarrow> nat \<Rightarrow> bytes option) \<Rightarrow> deflater \<Rightarrow> bufs_op" where
  "deflate_sizes alloc d =
     (let min_max = min_hd_table_bufsize_max d; max_size = hd_table_bufsize_max (dctx d) in
      and_then (if max_size > min_max then emit_table_size alloc (unat min_max) else ok)
        (emit_table_size alloc (unat max_size)))"

definition nghttp2_hd_deflate_hd_bufs :: "(nat \<Rightarrow> bool) \<Rightarrow> (nat \<Rightarrow> nat \<Rightarrow> bytes option) \<Rightarrow> deflater \<Rightarrow>
    nghttp2_nv list \<Rightarrow> bufs \<Rightarrow> (deflater \<times> bufs \<times> unit res) option" where
  "nghttp2_hd_deflate_hd_bufs grant alloc d nvs bs =
     (if ctx_bad (dctx d) then Some (d, bs, Inl (Code NGHTTP2_ERR_HEADER_COMP))
      else
        let fail = (\<lambda>(d, bs, r). (case r of Inl e \<Rightarrow> d\<lparr>dctx := (dctx d)\<lparr>ctx_bad := True\<rparr>\<rparr> | Inr _ \<Rightarrow> d, bs, r)) in
        case (if notify_table_size_change d
              then (d\<lparr>notify_table_size_change := False, min_hd_table_bufsize_max := UINT32_MAX\<rparr>,
                    deflate_sizes alloc d bs)
              else (d, bs, Inr ())) of
          (d, bs, Inl e) \<Rightarrow> Some (fail (d, bs, Inl e))
        | (d, bs, Inr _) \<Rightarrow> map_option fail (deflate_nvs grant alloc d nvs bs))"

text \<open>Deflating into one buffer of the caller: the buffer afterwards, and the length written.\<close>

definition nghttp2_hd_deflate_hd :: "(nat \<Rightarrow> bool) \<Rightarrow> (nat \<Rightarrow> nat \<Rightarrow> bytes option) \<Rightarrow> deflater \<Rightarrow> bytes \<Rightarrow>
    nghttp2_nv list \<Rightarrow> (deflater \<times> bytes \<times> nat res) option" where
  "nghttp2_hd_deflate_hd grant alloc d m nvs =
     (case nghttp2_bufs_wrap_init (alloc 0) m of
        Inl e \<Rightarrow> Some (d, m, Inl e)
      | Inr bs \<Rightarrow>
          (case nghttp2_hd_deflate_hd_bufs grant alloc d nvs bs of
             None \<Rightarrow> None
           | Some (d', bs', r) \<Rightarrow>
               Some (d', mem (chunks bs' ! 0),
                 case r of
                   Inr _ \<Rightarrow> Inr (nghttp2_bufs_len bs')
                 | Inl e \<Rightarrow> Inl (if e = Code NGHTTP2_ERR_BUFFER_ERROR then Code NGHTTP2_ERR_INSUFF_BUFSIZE else e))))"

definition nghttp2_hd_deflate_bound :: "nghttp2_nv list \<Rightarrow> nat" where
  "nghttp2_hd_deflate_bound nva =
     fold (\<lambda>nv n. n + (length (nva_name nv) + length (nva_value nv))) nva (12 + 6 * 2 * length nva)"

end
