(* ===== verification/HdDeflateOk.thy ===== *)
theory HdDeflateOk
  imports HdDeflate
begin

text \<open>
  What the deflater of HPACK writes: the bytes of each string and of each field, as a function of the
  dynamic table and the field, and the table after it. Every call returns, keeps the state well
  formed, and fails only when the chain is full or memory runs out.
\<close>

section \<open>Strings and integers\<close>

definition str_bytes :: "bytes \<Rightarrow> bytes" where
  "str_bytes s =
     (if length (huff_enc s) < length s then encode_length 0x80 (length (huff_enc s)) 7 @ huff_enc s
      else encode_length 0 (length s) 7 @ s)"

lemma bufs_add_appended:
  assumes "grants alloc" "bufs_ok bs"
  shows "appended bs xs (bufs_add alloc xs bs)"
proof -
  have "length xs + (max_chunk bs - cur bs) \<le> length xs + max_chunk bs" by simp
  from bufs_add_outcome [OF assms this] show ?thesis by (auto simp: bufs_add_def add_outcome_def)
qed

lemma and_then_appended:
  assumes "appended bs xs (f bs)" "\<And>bs'. f bs = (bs', Inr ()) \<Longrightarrow> bufs_ok bs' \<Longrightarrow> appended bs' ys (g bs')"
  shows "appended bs (xs @ ys) (and_then f g bs)"
proof -
  obtain bs' r where f: "f bs = (bs', r)" by fastforce
  show ?thesis
  proof (cases r)
    case (Inl e)
    then show ?thesis using appended_fails [of bs xs bs' e ys] assms(1) f by (simp add: and_then_def)
  next
    case (Inr u)
    then show ?thesis
      using appended_then [of bs xs bs' ys "g bs'"] assms f appended_bufs [of bs xs bs' r] by (simp add: and_then_def)
  qed
qed

text \<open>The emission of an integer, which every \<open>emit_\<close> function begins with.\<close>

lemma emit_length_appended:
  assumes "grants alloc" "bufs_ok bs" "1 \<le> p" "p \<le> 7" "n < 2 ^ 32"
  shows "\<not> sizeof_sb < count_encoded_length n p \<and>
    take (count_encoded_length n p) (encode_length b n p) = encode_length b n p \<and>
    appended bs (encode_length b n p) (bufs_add alloc (encode_length b n p) bs)"
  using encode_count [OF assms(3-5), of b] bufs_add_appended [OF assms(1,2)] by (auto simp: sizeof_sb_def)

lemma emit_indexed_appended:
  assumes "grants alloc" "bufs_ok bs" "idx + 1 < 2 ^ 32"
  shows "appended bs (encode_length 0x80 (idx + 1) 7) (emit_indexed_block alloc idx bs)"
  using emit_length_appended [OF assms(1,2) _ _ assms(3), where p = 7 and b = "0x80"] by (simp add: emit_indexed_block_def Let_def)

lemma emit_table_size_appended:
  assumes "grants alloc" "bufs_ok bs" "n < 2 ^ 32"
  shows "appended bs (encode_length 0x20 n 5) (emit_table_size alloc n bs)"
  using emit_length_appended [OF assms(1,2) _ _ assms(3), where p = 5 and b = "0x20"] by (simp add: emit_table_size_def Let_def)

lemma emit_string_appended:
  assumes g: "grants alloc" and bs: "bufs_ok bs" and s: "length str \<le> 2 ^ 26"
  shows "appended bs (str_bytes str) (emit_string alloc str bs)"
proof -
  have len: "unat (nghttp2_hd_huff_encode_count str) = length (huff_enc str)" by (rule encode_count_ok [OF s])
  show ?thesis
  proof (cases "length (huff_enc str) < length str")
    case True
    then have n: "length (huff_enc str) < 2 ^ 32" using s by simp
    from emit_length_appended [OF g bs _ _ n, where p = 7 and b = "push_bit 7 1"]
    have e: "\<not> sizeof_sb < count_encoded_length (length (huff_enc str)) 7"
      "take (count_encoded_length (length (huff_enc str)) 7) (encode_length (push_bit 7 1) (length (huff_enc str)) 7) =
        encode_length (push_bit 7 1) (length (huff_enc str)) 7"
      "appended bs (encode_length (push_bit 7 1) (length (huff_enc str)) 7)
        (bufs_add alloc (encode_length (push_bit 7 1) (length (huff_enc str)) 7) bs)" by simp_all
    have "appended bs (encode_length (push_bit 7 1) (length (huff_enc str)) 7 @ huff_enc str)
        (and_then (bufs_add alloc (encode_length (push_bit 7 1) (length (huff_enc str)) 7))
          (nghttp2_hd_huff_encode alloc str) bs)"
      using e(3) by (rule and_then_appended) (use huff_encode_ok [OF g] in simp_all)
    then show ?thesis using True e(1,2) len by (simp add: emit_string_def str_bytes_def Let_def)
  next
    case False
    have n: "length str < 2 ^ 32" using s by simp
    from emit_length_appended [OF g bs _ _ n, where p = 7 and b = 0]
    have e: "\<not> sizeof_sb < count_encoded_length (length str) 7"
      "take (count_encoded_length (length str) 7) (encode_length 0 (length str) 7) = encode_length 0 (length str) 7"
      "appended bs (encode_length 0 (length str) 7) (bufs_add alloc (encode_length 0 (length str) 7) bs)" by simp_all
    have "appended bs (encode_length 0 (length str) 7 @ str)
        (and_then (bufs_add alloc (encode_length 0 (length str) 7)) (bufs_add alloc str) bs)"
      using e(3) by (rule and_then_appended) (use bufs_add_appended [OF g] in simp_all)
    then show ?thesis using False e(1,2) len by (simp add: emit_string_def str_bytes_def Let_def)
  qed
qed

lemma emit_indname_appended:
  assumes g: "grants alloc" and bs: "bufs_ok bs" and n: "idx + 1 < 2 ^ 32" and s: "length val \<le> 2 ^ 26"
  shows "appended bs (encode_length (pack_first_byte mode) (idx + 1) (if mode = WITH_INDEXING then 6 else 4) @ str_bytes val)
    (emit_indname_block alloc idx val mode bs)"
proof -
  let ?p = "if mode = WITH_INDEXING then 6 else 4 :: nat"
  let ?enc = "encode_length (pack_first_byte mode) (idx + 1) ?p"
  have p: "1 \<le> ?p" "?p \<le> 7" by simp_all
  note e = emit_length_appended [OF g bs p n, where b = "pack_first_byte mode"]
  have "appended bs (?enc @ str_bytes val) (and_then (bufs_add alloc ?enc) (emit_string alloc val) bs)"
    by (rule and_then_appended) (use e emit_string_appended [OF g _ s] in simp_all)
  then show ?thesis using e by (simp only: emit_indname_block_def Let_def if_False)
qed

lemma emit_newname_appended:
  assumes g: "grants alloc" and bs: "bufs_ok bs" and s: "length name \<le> 2 ^ 26" "length val \<le> 2 ^ 26"
  shows "appended bs ([pack_first_byte mode] @ str_bytes name @ str_bytes val) (emit_newname_block alloc name val mode bs)"
  unfolding emit_newname_block_def
  using bufs_addb_outcome [OF g bs] emit_string_appended [OF g _ s(1)] emit_string_appended [OF g _ s(2)]
  by (intro and_then_appended) blast+

section \<open>One field\<close>

definition deflater_ok :: "deflater \<Rightarrow> bool" where
  "deflater_ok d \<longleftrightarrow> context_ok (dctx d) \<and> hd_map_ok (dmap d) (table_entries (dctx d)) \<and>
     (\<forall>e \<in> set (table_entries (dctx d)). entry_ok e \<and> nv_flags (ent_nv e) = NGHTTP2_NV_FLAG_NONE)"

text \<open>The representation chosen: the mode, and the index found.\<close>

definition nv_mode :: "deflater \<Rightarrow> nghttp2_nv \<Rightarrow> indexing_mode" where
  "nv_mode d nv = deflate_mode d nv (lookup_token (nva_name nv))"

definition nv_found :: "deflater \<Rightarrow> nghttp2_nv \<Rightarrow> search_result" where
  "nv_found d nv = search_hd_table (dctx d) (nva_name nv) (nva_value nv) (lookup_token (nva_name nv)) (nv_mode d nv)
     (dmap d) (field_hash (nva_name nv))"

text \<open>The bytes of a field, and the table after it.\<close>

definition nv_bytes :: "deflater \<Rightarrow> nghttp2_nv \<Rightarrow> bytes" where
  "nv_bytes d nv =
     (let r = nv_found d nv; idx = nat (sr_index r); mode = nv_mode d nv in
      if sr_match r then encode_length 0x80 (idx + 1) 7
      else if sr_index r = - 1 then [pack_first_byte mode] @ str_bytes (nva_name nv) @ str_bytes (nva_value nv)
      else encode_length (pack_first_byte mode) (idx + 1) (if mode = WITH_INDEXING then 6 else 4) @
             str_bytes (nva_value nv))"

definition stored_nv :: "nghttp2_nv \<Rightarrow> hd_nv" where
  "stored_nv nv = \<lparr>nv_name = nva_name nv, nv_value = nva_value nv, nv_token = lookup_token (nva_name nv),
     nv_flags = NGHTTP2_NV_FLAG_NONE\<rparr>"

definition nv_table :: "deflater \<Rightarrow> nghttp2_nv \<Rightarrow> hd_nv list" where
  "nv_table d nv =
     (if \<not> sr_match (nv_found d nv) \<and> nv_mode d nv = WITH_INDEXING
      then rfc_insert (unat (hd_table_bufsize_max (dctx d))) (stored_nv nv) (table_nvs (dctx d))
      else table_nvs (dctx d))"

text \<open>The lengths of the fields considered.\<close>

definition short_nv :: "nghttp2_nv \<Rightarrow> bool" where
  "short_nv nv \<longleftrightarrow> length (nva_name nv) \<le> 2 ^ 26 \<and> length (nva_value nv) \<le> 2 ^ 26"

definition same_sizes :: "deflater \<Rightarrow> deflater \<Rightarrow> bool" where
  "same_sizes d d' \<longleftrightarrow> hd_table_bufsize_max (dctx d') = hd_table_bufsize_max (dctx d) \<and>
     ctx_bad (dctx d') = ctx_bad (dctx d) \<and> deflate_hd_table_bufsize_max d' = deflate_hd_table_bufsize_max d \<and>
     min_hd_table_bufsize_max d' = min_hd_table_bufsize_max d \<and>
     notify_table_size_change d' = notify_table_size_change d"

lemma same_sizes_refl [simp]: "same_sizes d d"
  by (simp add: same_sizes_def)

lemma same_sizes_trans: "same_sizes d d' \<Longrightarrow> same_sizes d' d'' \<Longrightarrow> same_sizes d d''"
  by (simp add: same_sizes_def)

lemma nv_found_ok:
  assumes "deflater_ok d"
  shows "found_field (dctx d) (nva_name nv) (nva_value nv) (nv_mode d nv = NEVER_INDEXING) (nv_found d nv)"
  using search_hd_table_ok assms by (simp add: deflater_ok_def nv_found_def)

lemma found_index:
  assumes "deflater_ok d" "sr_index (nv_found d nv) \<noteq> - 1"
  shows "nat (sr_index (nv_found d nv)) < get_max_index (dctx d)" "nat (sr_index (nv_found d nv)) + 1 < 2 ^ 31"
proof -
  show i: "nat (sr_index (nv_found d nv)) < get_max_index (dctx d)"
    using nv_found_ok [OF assms(1), of nv] assms(2) by (simp add: found_field_def)
  have "32 * length (table_nvs (dctx d)) < 2 ^ 31"
    using table_size_length [of "table_nvs (dctx d)"] assms(1) by (simp add: deflater_ok_def context_ok_def)
  then show "nat (sr_index (nv_found d nv)) + 1 < 2 ^ 31" using i by (simp add: get_max_index_eq)
qed

lemma deflate_name_ok:
  assumes "deflater_ok d"
  shows "deflate_name grant (dctx d) (sr_index (nv_found d nv)) nv = Inr (nva_name nv) \<or>
    deflate_name grant (dctx d) (sr_index (nv_found d nv)) nv = Inl (Code NGHTTP2_ERR_NOMEM)"
  using nv_found_ok [OF assms, of nv] hd_table_get_ok [of "dctx d"] assms
  by (auto simp: deflate_name_def found_field_def nghttp2_rcbuf_new2_def deflater_ok_def)

lemma deflate_store_ok:
  assumes d: "deflater_ok d" and nv: "short_nv nv"
  shows "\<exists>d' r. deflate_store grant d nv (lookup_token (nva_name nv)) (field_hash (nva_name nv))
      (sr_index (nv_found d nv)) = Some (d', r) \<and> deflater_ok d' \<and> same_sizes d d' \<and>
    (r = Inr () \<and> table_nvs (dctx d') = rfc_insert (unat (hd_table_bufsize_max (dctx d))) (stored_nv nv) (table_nvs (dctx d)) \<or>
     r = Inl (Code NGHTTP2_ERR_NOMEM) \<or> r = Inl (Code NGHTTP2_ERR_HEADER_COMP))"
proof -
  let ?store = "deflate_store grant d nv (lookup_token (nva_name nv)) (field_hash (nva_name nv)) (sr_index (nv_found d nv))"
  consider (fails) "?store = Some (d, Inl (Code NGHTTP2_ERR_NOMEM))"
    | (stores) "deflate_name grant (dctx d) (sr_index (nv_found d nv)) nv = Inr (nva_name nv)"
      "nghttp2_rcbuf_new2 grant (nva_value nv) = Inr (nva_value nv)"
    using deflate_name_ok [OF d, of grant nv]
    by (cases "grant (Suc (sizeof_rcbuf + length (nva_value nv)))") (auto simp: deflate_store_def nghttp2_rcbuf_new2_def)
  then show ?thesis
  proof cases
    case fails
    then show ?thesis using d by auto
  next
    case stores
    have ctx: "context_ok (dctx d)" and hm: "opt_map_ok (Some (dmap d)) (table_entries (dctx d))"
      using d by (auto simp: deflater_ok_def opt_map_ok_def)
    have room: "room_of (stored_nv nv) \<le> 2 ^ 31" using nv by (simp add: room_of_def stored_nv_def short_nv_def)
    from add_incremental_ok [OF ctx hm room, of grant "field_hash (nva_name nv)"] obtain ctx' hm' r where a:
      "add_hd_table_incremental grant (dctx d) (stored_nv nv) (Some (dmap d)) (field_hash (nva_name nv)) = Some (ctx', hm', r)"
      "context_ok ctx'" "opt_map_ok hm' (table_entries ctx')" "hm' \<noteq> None"
      "hd_table_bufsize_max ctx' = hd_table_bufsize_max (dctx d)" "ctx_bad ctx' = ctx_bad (dctx d)"
      "r = Inr () \<and> table_nvs ctx' = rfc_insert (unat (hd_table_bufsize_max (dctx d))) (stored_nv nv) (table_nvs (dctx d)) \<or>
       r = Inl (Code NGHTTP2_ERR_NOMEM)"
      "\<forall>e \<in> set (table_entries ctx'). e \<in> set (table_entries (dctx d)) \<or>
         ent_nv e = stored_nv nv \<and> ent_hash e = field_hash (nva_name nv)"
      by auto
    let ?d = "d\<lparr>dctx := ctx', dmap := the hm'\<rparr>"
    have "entry_ok e \<and> nv_flags (ent_nv e) = NGHTTP2_NV_FLAG_NONE" if "e \<in> set (table_entries ctx')" for e
      using a(8) that d by (auto simp: deflater_ok_def entry_ok_def stored_nv_def)
    then have "deflater_ok ?d" using a(2-4) by (auto simp: deflater_ok_def opt_map_ok_def)
    moreover have "same_sizes d ?d" using a(5,6) by (simp add: same_sizes_def)
    ultimately show ?thesis
      using a(1,7) stores by (auto simp: deflate_store_def stored_nv_def [symmetric])
  qed
qed

text \<open>What a call leaves: the bytes in the chain and the table, or an error.\<close>

definition deflated :: "deflater \<Rightarrow> bufs \<Rightarrow> bytes \<Rightarrow> hd_nv list \<Rightarrow> (deflater \<times> bufs \<times> unit res) option \<Rightarrow> bool" where
  "deflated d bs xs nvs out \<longleftrightarrow>
     (\<exists>d' bs' r. out = Some (d', bs', r) \<and> deflater_ok d' \<and> same_sizes d d' \<and> bufs_ok bs' \<and> same_limits bs bs' \<and>
        (appended bs xs (bs', r) \<and> table_nvs (dctx d') = nvs \<or>
         r = Inl (Code NGHTTP2_ERR_NOMEM) \<or> r = Inl (Code NGHTTP2_ERR_HEADER_COMP)))"

lemma deflatedI:
  assumes "appended bs xs out" "deflater_ok d'" "same_sizes d d'" "table_nvs (dctx d') = nvs"
  shows "deflated d bs xs nvs (case out of (bs', r) \<Rightarrow> Some (d', bs', r))"
proof -
  obtain bs' r where out: "out = (bs', r)" by fastforce
  have "bufs_ok bs'" "same_limits bs bs'" using assms(1) by (simp_all add: appended_def out)
  then show ?thesis using assms by (simp add: deflated_def out)
qed

lemma deflate_nv_ok:
  assumes g: "grants alloc" and bs: "bufs_ok bs" and d: "deflater_ok d" and nv: "short_nv nv"
  shows "deflated d bs (nv_bytes d nv) (nv_table d nv) (deflate_nv grant alloc d nv bs)"
proof -
  let ?r = "nv_found d nv" and ?mode = "nv_mode d nv"
  let ?out = "if sr_index ?r = - 1 then emit_newname_block alloc (nva_name nv) (nva_value nv) ?mode bs
    else emit_indname_block alloc (nat (sr_index ?r)) (nva_value nv) ?mode bs"
  have step: "deflate_nv grant alloc d nv bs =
      (if sr_match ?r then (case emit_indexed_block alloc (nat (sr_index ?r)) bs of (bs', r) \<Rightarrow> Some (d, bs', r))
       else case (if ?mode = WITH_INDEXING then deflate_store grant d nv (lookup_token (nva_name nv))
                  (field_hash (nva_name nv)) (sr_index ?r) else Some (d, Inr ())) of
           None \<Rightarrow> None
         | Some (d', Inl e) \<Rightarrow> Some (d', bs, Inl e)
         | Some (d', Inr _) \<Rightarrow> (case ?out of (bs', r) \<Rightarrow> Some (d', bs', r)))"
    unfolding deflate_nv_def Let_def nv_found_def nv_mode_def by simp
  show ?thesis
  proof (cases "sr_match ?r")
    case True
    then have "sr_index ?r \<noteq> - 1" using nv_found_ok [OF d, of nv] by (auto simp: found_field_def)
    then have "nat (sr_index ?r) + 1 < 2 ^ 32" using found_index [OF d] by fastforce
    from deflatedI [OF emit_indexed_appended [OF g bs this] d same_sizes_refl refl] show ?thesis
      using True unfolding step by (simp add: nv_bytes_def nv_table_def Let_def)
  next
    case False
    have emit: "appended bs (nv_bytes d nv) ?out"
    proof (cases "sr_index ?r = - 1")
      case True
      then show ?thesis
        using False emit_newname_appended [OF g bs, of "nva_name nv" "nva_value nv" ?mode] nv
        by (simp add: nv_bytes_def Let_def short_nv_def)
    next
      case idx: False
      then have "nat (sr_index ?r) + 1 < 2 ^ 32" using found_index [OF d] by fastforce
      then show ?thesis
        using False idx emit_indname_appended [OF g bs, of "nat (sr_index ?r)" "nva_value nv" ?mode] nv
        by (simp add: nv_bytes_def Let_def short_nv_def)
    qed
    have limits: "same_limits bs bs" by (simp add: same_limits_def)
    show ?thesis
    proof (cases "?mode = WITH_INDEXING")
      case plain: False
      then show ?thesis
        using deflatedI [OF emit d same_sizes_refl refl] False unfolding step by (simp add: nv_table_def)
    next
      case True
      obtain d' r where st: "deflate_store grant d nv (lookup_token (nva_name nv)) (field_hash (nva_name nv))
            (sr_index ?r) = Some (d', r)" "deflater_ok d'" "same_sizes d d'"
          "r = Inr () \<and> table_nvs (dctx d') = nv_table d nv \<or>
           r = Inl (Code NGHTTP2_ERR_NOMEM) \<or> r = Inl (Code NGHTTP2_ERR_HEADER_COMP)"
        using deflate_store_ok [OF d nv, of grant] True False by (auto simp: nv_table_def)
      from st(4) show ?thesis
      proof (elim disjE conjE)
        assume r: "r = Inr ()" "table_nvs (dctx d') = nv_table d nv"
        from deflatedI [OF emit st(2,3) r(2)] show ?thesis using False True st(1) r(1) unfolding step by simp
      qed (use st(1-3) False True bs limits in \<open>simp_all add: step deflated_def\<close>)
    qed
  qed
qed

end
