(* ===== verification/HdInflate.thy ===== *)
theory HdInflate
  imports HdDeflate
begin

text \<open>
  The inflater of HPACK (\<open>nghttp2_hd.c\<close>): a state machine that is fed a header block in pieces and
  emits one field per call. The reference-counted buffers of name and value are the memory of
  \<open>namebuf\<close> and \<open>valuebuf\<close>; \<open>namercbuf\<close> and \<open>valuercbuf\<close> hold their lengths, \<open>None\<close> for a null pointer.
  One round of the loop is \<open>inflate_step\<close>.
\<close>

section \<open>State\<close>

datatype hd_opcode = OPCODE_NONE | OPCODE_INDEXED | OPCODE_NEWNAME | OPCODE_INDNAME

datatype inflate_state =
    EXPECT_TABLE_SIZE | INFLATE_START | STATE_OPCODE | READ_TABLE_SIZE | READ_INDEX
  | NEWNAME_CHECK_NAMELEN | NEWNAME_READ_NAMELEN | NEWNAME_READ_NAMEHUFF | NEWNAME_READ_NAME
  | CHECK_VALUELEN | READ_VALUELEN | READ_VALUEHUFF | READ_VALUE

record inflater =
  ictx :: hd_context
  huff_decode_ctx :: u16
  namebuf :: buf
  valuebuf :: buf
  namercbuf :: "nat option"
  valuercbuf :: "nat option"
  inf_left :: nat
  hd_index :: nat
  settings_hd_table_bufsize_max :: u32
  min_table_bufsize_max :: u32
  hd_shift :: nat
  inf_opcode :: hd_opcode
  inf_state :: inflate_state
  huffman_encoded :: bool
  index_required :: bool
  no_index :: bool

definition NGHTTP2_HD_MAX_NV :: nat where "NGHTTP2_HD_MAX_NV = 65536"

definition nghttp2_hd_inflate_init :: "(nat \<Rightarrow> bool) \<Rightarrow> inflater res option" where
  "nghttp2_hd_inflate_init grant =
     map_option (\<lambda>r. rbind r (\<lambda>ctx. Inr
       \<lparr>ictx = ctx, huff_decode_ctx = 0, namebuf = nghttp2_buf_init, valuebuf = nghttp2_buf_init,
        namercbuf = None, valuercbuf = None, inf_left = 0, hd_index = 0,
        settings_hd_table_bufsize_max = NGHTTP2_HD_DEFAULT_MAX_BUFFER_SIZE,
        min_table_bufsize_max = UINT32_MAX, hd_shift = 0, inf_opcode = OPCODE_NONE,
        inf_state = INFLATE_START, huffman_encoded = False, index_required = False,
        no_index = False\<rparr>)) (hd_context_init grant)"

definition nghttp2_hd_inflate_change_table_size :: "inflater \<Rightarrow> u32 \<Rightarrow> inflater res" where
  "nghttp2_hd_inflate_change_table_size i settings_max =
     (if inf_state i = EXPECT_TABLE_SIZE \<or> inf_state i = INFLATE_START then
        let i = i\<lparr>settings_hd_table_bufsize_max := settings_max\<rparr> in
        if hd_table_bufsize_max (ictx i) > settings_max then
          rbind (hd_context_shrink_table_size ((ictx i)\<lparr>hd_table_bufsize_max := settings_max\<rparr>) None)
            (\<lambda>(ctx, _). Inr (i\<lparr>ictx := ctx, min_table_bufsize_max := settings_max, inf_state := EXPECT_TABLE_SIZE\<rparr>))
        else Inr i
      else Inl (Code NGHTTP2_ERR_INVALID_STATE))"

section \<open>Reading\<close>

text \<open>The integer read: the inflater with its new \<open>left\<close> and \<open>shift\<close>, whether it is complete, and the
  rest of the input.\<close>

definition hd_inflate_read_len :: "inflater \<Rightarrow> bytes \<Rightarrow> nat \<Rightarrow> nat \<Rightarrow> (inflater \<times> bool \<times> bytes) res" where
  "hd_inflate_read_len i inp prefix maxlen =
     rbind (decode_length (of_nat (inf_left i)) (hd_shift i) inp prefix) (\<lambda>r.
       case r of
         None \<Rightarrow> Inl (Code NGHTTP2_ERR_HEADER_COMP)
       | Some r \<Rightarrow>
           if unat (dl_res r) > maxlen then Inl (Code NGHTTP2_ERR_HEADER_COMP)
           else Inr (i\<lparr>inf_left := unat (dl_res r), hd_shift := dl_shift r\<rparr>, dl_fin r, drop (dl_taken r) inp))"

text \<open>Reading into a buffer of the inflater: the buffer and the rest of the input.\<close>

definition hd_inflate_read_huff :: "inflater \<Rightarrow> buf \<Rightarrow> bytes \<Rightarrow> (inflater \<times> buf \<times> bytes) res" where
  "hd_inflate_read_huff i b inp =
     (let fin = length inp \<ge> inf_left i;
          src = (if fin then take (inf_left i) inp else inp) in
      rbind (nghttp2_hd_huff_decode (huff_decode_ctx i) b src fin) (\<lambda>(fs, b, r).
      rbind r (\<lambda>readlen.
        if nghttp2_hd_huff_decode_failure_state fs then Inl (Code NGHTTP2_ERR_HEADER_COMP)
        else Inr (i\<lparr>huff_decode_ctx := fs, inf_left := inf_left i - readlen\<rparr>, b, drop readlen inp))))"

definition hd_inflate_read :: "inflater \<Rightarrow> buf \<Rightarrow> bytes \<Rightarrow> (inflater \<times> buf \<times> bytes) res" where
  "hd_inflate_read i b inp =
     (let len = min (length inp) (inf_left i) in
      rbind (buf_append b (take len inp)) (\<lambda>b. Inr (i\<lparr>inf_left := inf_left i - len\<rparr>, b, drop len inp)))"

text \<open>\<open>nghttp2_rcbuf_new\<close>, and the new buffer wrapped around its memory.\<close>

definition rcbuf_new :: "(nat \<Rightarrow> bytes option) \<Rightarrow> nat \<Rightarrow> (nat \<times> buf) res" where
  "rcbuf_new grant n =
     (case grant (sizeof_rcbuf + n) of
        None \<Rightarrow> Inl (Code NGHTTP2_ERR_NOMEM)
      | Some m \<Rightarrow> Inr (n, nghttp2_buf_wrap_init (drop sizeof_rcbuf m)))"

text \<open>The final zero, and the length of the string.\<close>

definition terminate :: "buf \<Rightarrow> (buf \<times> nat) res" where
  "terminate b = rbind (buf_put_hold (\<lambda>_. 0) b) (\<lambda>b. Inr (b, nghttp2_buf_len b))"

definition rcbuf_bytes :: "buf \<Rightarrow> nat option \<Rightarrow> bytes res" where
  "rcbuf_bytes b len = rbind (of_option len) (\<lambda>n. of_option (mem_read (mem b) 0 n))"

section \<open>Committing a field\<close>

definition hd_inflate_commit_indexed :: "inflater \<Rightarrow> hd_nv res" where
  "hd_inflate_commit_indexed i = nghttp2_hd_table_get (ictx i) (hd_index i)"

definition commit_flags :: "inflater \<Rightarrow> u8" where
  "commit_flags i = (if no_index i then NGHTTP2_NV_FLAG_NO_INDEX else NGHTTP2_NV_FLAG_NONE)"

text \<open>Storing the field if it is required; outer \<open>None\<close> stands for a call that does not return.\<close>

definition commit_store :: "(nat \<Rightarrow> bytes option) \<Rightarrow> inflater \<Rightarrow> hd_nv \<Rightarrow> (inflater \<times> unit res) option" where
  "commit_store grant i nv =
     (if index_required i then
        map_option (\<lambda>(ctx, _, r). (i\<lparr>ictx := ctx\<rparr>, r)) (add_hd_table_incremental (\<lambda>n. grant n \<noteq> None) (ictx i) nv None 0)
      else Some (i, Inr ()))"

definition hd_inflate_commit_newname :: "(nat \<Rightarrow> bytes option) \<Rightarrow> inflater \<Rightarrow> (inflater \<times> hd_nv res) option" where
  "hd_inflate_commit_newname grant i =
     (case rbind (rcbuf_bytes (namebuf i) (namercbuf i)) (\<lambda>n.
           rbind (rcbuf_bytes (valuebuf i) (valuercbuf i)) (\<lambda>v. Inr (n, v))) of
        Inl e \<Rightarrow> Some (i, Inl e)
      | Inr (n, v) \<Rightarrow>
          let nv = \<lparr>nv_name = n, nv_value = v, nv_token = lookup_token n, nv_flags = commit_flags i\<rparr> in
          map_option (\<lambda>(i, r). (case r of
               Inl e \<Rightarrow> (i, Inl e)
             | Inr _ \<Rightarrow> (i\<lparr>namercbuf := None, valuercbuf := None\<rparr>, Inr nv))) (commit_store grant i nv))"

definition hd_inflate_commit_indname :: "(nat \<Rightarrow> bytes option) \<Rightarrow> inflater \<Rightarrow> (inflater \<times> hd_nv res) option" where
  "hd_inflate_commit_indname grant i =
     (case rbind (nghttp2_hd_table_get (ictx i) (hd_index i)) (\<lambda>e.
           rbind (rcbuf_bytes (valuebuf i) (valuercbuf i)) (\<lambda>v. Inr (e, v))) of
        Inl e \<Rightarrow> Some (i, Inl e)
      | Inr (e, v) \<Rightarrow>
          let nv = e\<lparr>nv_flags := commit_flags i, nv_value := v\<rparr> in
          map_option (\<lambda>(i, r). (case r of
               Inl (Code c) \<Rightarrow> (i, Inl (Code NGHTTP2_ERR_NOMEM))
             | Inl e \<Rightarrow> (i, Inl e)
             | Inr _ \<Rightarrow> (i\<lparr>valuercbuf := None\<rparr>, Inr nv))) (commit_store grant i nv))"

section \<open>The state machine\<close>

text \<open>How a round of the loop ends: the loop goes on, \<open>busy\<close> telling it to do so without input; a field is
  emitted; the input ended inside an item; or the block is refused.\<close>

datatype round = Continue inflater bytes bool | Emitted inflater bytes hd_nv | Almost inflater bytes
  | Failed inflater "nghttp2_error fault"

definition failing :: "inflater \<Rightarrow> 'a res \<Rightarrow> ('a \<Rightarrow> round) \<Rightarrow> round" where
  "failing i r f = (case r of Inl e \<Rightarrow> Failed i e | Inr x \<Rightarrow> f x)"

definition step_opcode :: "inflater \<Rightarrow> bytes \<Rightarrow> round" where
  "step_opcode i inp =
     (case inp of
        [] \<Rightarrow> Failed i Undefined
      | b # rest \<Rightarrow>
          if b AND 0xe0 = 0x20 then
            if inf_state i = STATE_OPCODE then Failed i (Code NGHTTP2_ERR_HEADER_COMP)
            else Continue (i\<lparr>inf_left := 0, hd_shift := 0, inf_opcode := OPCODE_INDEXED,
                             inf_state := READ_TABLE_SIZE\<rparr>) inp False
          else if b AND 0x80 \<noteq> 0 then
            Continue (i\<lparr>inf_left := 0, hd_shift := 0, inf_opcode := OPCODE_INDEXED,
                        inf_state := READ_INDEX\<rparr>) inp False
          else
            let i = i\<lparr>inf_left := 0, hd_shift := 0, index_required := (b AND 0x40 \<noteq> 0),
                      no_index := (b AND 0xf0 = 0x10)\<rparr> in
            if b = 0x40 \<or> b = 0 \<or> b = 0x10
            then Continue (i\<lparr>inf_opcode := OPCODE_NEWNAME, inf_state := NEWNAME_CHECK_NAMELEN\<rparr>) rest False
            else Continue (i\<lparr>inf_opcode := OPCODE_INDNAME, inf_state := READ_INDEX\<rparr>) inp False)"

definition step_expect_table_size :: "inflater \<Rightarrow> bytes \<Rightarrow> round" where
  "step_expect_table_size i inp =
     (case inp of
        [] \<Rightarrow> Failed i Undefined
      | b # rest \<Rightarrow>
          if b AND 0xe0 \<noteq> 0x20 then Failed i (Code NGHTTP2_ERR_HEADER_COMP) else step_opcode i inp)"

definition step_read_table_size :: "inflater \<Rightarrow> bytes \<Rightarrow> round" where
  "step_read_table_size i inp =
     failing i (hd_inflate_read_len i inp 5
         (min (unat (min_table_bufsize_max i)) (unat (settings_hd_table_bufsize_max i)))) (\<lambda>(i, fin, rest).
       if \<not> fin then Almost i rest
       else failing i (hd_context_shrink_table_size
                ((ictx i)\<lparr>hd_table_bufsize_max := of_nat (inf_left i)\<rparr>) None) (\<lambda>(ctx, _).
         Continue (i\<lparr>min_table_bufsize_max := UINT32_MAX, ictx := ctx, inf_state := INFLATE_START\<rparr>) rest False))"

definition step_read_index :: "inflater \<Rightarrow> bytes \<Rightarrow> round" where
  "step_read_index i inp =
     (let prefixlen = (if inf_opcode i = OPCODE_INDEXED then 7 else if index_required i then 6 else 4) in
      failing i (hd_inflate_read_len i inp prefixlen (get_max_index (ictx i))) (\<lambda>(i, fin, rest).
        if \<not> fin then Almost i rest
        else if inf_left i = 0 then Failed i (Code NGHTTP2_ERR_HEADER_COMP)
        else
          let i = i\<lparr>hd_index := inf_left i - 1\<rparr> in
          if inf_opcode i = OPCODE_INDEXED
          then failing i (hd_inflate_commit_indexed i) (\<lambda>nv. Emitted (i\<lparr>inf_state := STATE_OPCODE\<rparr>) rest nv)
          else Continue (i\<lparr>inf_state := CHECK_VALUELEN\<rparr>) rest False))"

definition step_read_namelen :: "(nat \<Rightarrow> bytes option) \<Rightarrow> inflater \<Rightarrow> bytes \<Rightarrow> round" where
  "step_read_namelen grant i inp =
     failing i (hd_inflate_read_len i inp 7 NGHTTP2_HD_MAX_NV) (\<lambda>(i, fin, rest).
       if \<not> fin then Almost i rest
       else failing i (rcbuf_new grant (if huffman_encoded i then inf_left i * 2 + 1 else inf_left i + 1)) (\<lambda>(n, b).
         Continue (i\<lparr>huff_decode_ctx := (if huffman_encoded i then nghttp2_hd_huff_decode_context_init
                                          else huff_decode_ctx i),
                     namebuf := b, namercbuf := Some n,
                     inf_state := (if huffman_encoded i then NEWNAME_READ_NAMEHUFF else NEWNAME_READ_NAME)\<rparr>)
           rest False))"

text \<open>\<open>hd_inflate_set_huffman_encoded\<close>, and the start of a length.\<close>

definition set_huffman :: "inflater \<Rightarrow> bytes \<Rightarrow> inflate_state \<Rightarrow> inflater res" where
  "set_huffman i inp st =
     (case inp of
        [] \<Rightarrow> Inl Undefined
      | b # _ \<Rightarrow> Inr (i\<lparr>inf_left := 0, hd_shift := 0, inf_state := st, huffman_encoded := (b AND push_bit 7 1 \<noteq> 0)\<rparr>))"

definition step_read_name :: "inflater \<Rightarrow> bytes \<Rightarrow> bool \<Rightarrow> round" where
  "step_read_name i inp huff =
     failing i ((if huff then hd_inflate_read_huff else hd_inflate_read) i (namebuf i) inp) (\<lambda>(i, b, rest).
       let i = i\<lparr>namebuf := b\<rparr> in
       if inf_left i \<noteq> 0 then Almost i rest
       else failing i (terminate b) (\<lambda>(b, n).
         Continue (i\<lparr>namebuf := b, namercbuf := Some n, inf_state := CHECK_VALUELEN\<rparr>) rest False))"

definition step_read_valuelen :: "(nat \<Rightarrow> bytes option) \<Rightarrow> inflater \<Rightarrow> bytes \<Rightarrow> round" where
  "step_read_valuelen grant i inp =
     failing i (hd_inflate_read_len i inp 7 NGHTTP2_HD_MAX_NV) (\<lambda>(i, fin, rest).
       if \<not> fin then Almost i rest
       else failing i (rcbuf_new grant (if huffman_encoded i then inf_left i * 2 + 1 else inf_left i + 1)) (\<lambda>(n, b).
         Continue (i\<lparr>huff_decode_ctx := (if huffman_encoded i then nghttp2_hd_huff_decode_context_init
                                          else huff_decode_ctx i),
                     valuebuf := b, valuercbuf := Some n,
                     inf_state := (if huffman_encoded i then READ_VALUEHUFF else READ_VALUE)\<rparr>)
           rest True))"

definition step_read_value :: "(nat \<Rightarrow> bytes option) \<Rightarrow> inflater \<Rightarrow> bytes \<Rightarrow> bool \<Rightarrow> round option" where
  "step_read_value grant i inp huff =
     (case (if huff then hd_inflate_read_huff else hd_inflate_read) i (valuebuf i) inp of
        Inl e \<Rightarrow> Some (Failed i e)
      | Inr (i, b, rest) \<Rightarrow>
          let i = i\<lparr>valuebuf := b\<rparr> in
          if inf_left i \<noteq> 0 then Some (Almost i rest)
          else (case terminate b of
              Inl e \<Rightarrow> Some (Failed i e)
            | Inr (b, n) \<Rightarrow>
                let i = i\<lparr>valuebuf := b, valuercbuf := Some n\<rparr> in
                map_option (\<lambda>(i, r). failing i r (\<lambda>nv. Emitted (i\<lparr>inf_state := STATE_OPCODE\<rparr>) rest nv))
                  (if inf_opcode i = OPCODE_NEWNAME then hd_inflate_commit_newname grant i
                   else hd_inflate_commit_indname grant i)))"

definition inflate_step :: "(nat \<Rightarrow> bytes option) \<Rightarrow> inflater \<Rightarrow> bytes \<Rightarrow> round option" where
  "inflate_step grant i inp =
     (case inf_state i of
        EXPECT_TABLE_SIZE \<Rightarrow> Some (step_expect_table_size i inp)
      | INFLATE_START \<Rightarrow> Some (step_opcode i inp)
      | STATE_OPCODE \<Rightarrow> Some (step_opcode i inp)
      | READ_TABLE_SIZE \<Rightarrow> Some (step_read_table_size i inp)
      | READ_INDEX \<Rightarrow> Some (step_read_index i inp)
      | NEWNAME_CHECK_NAMELEN \<Rightarrow>
          Some (failing i (set_huffman i inp NEWNAME_READ_NAMELEN) (\<lambda>i. step_read_namelen grant i inp))
      | NEWNAME_READ_NAMELEN \<Rightarrow> Some (step_read_namelen grant i inp)
      | NEWNAME_READ_NAMEHUFF \<Rightarrow> Some (step_read_name i inp True)
      | NEWNAME_READ_NAME \<Rightarrow> Some (step_read_name i inp False)
      | CHECK_VALUELEN \<Rightarrow>
          Some (failing i (set_huffman i inp READ_VALUELEN) (\<lambda>i. step_read_valuelen grant i inp))
      | READ_VALUELEN \<Rightarrow> Some (step_read_valuelen grant i inp)
      | READ_VALUEHUFF \<Rightarrow> step_read_value grant i inp True
      | READ_VALUE \<Rightarrow> step_read_value grant i inp False)"

section \<open>The loop\<close>

text \<open>A round that goes on takes bytes, or leads to a state that will.\<close>

fun state_rank :: "inflate_state \<Rightarrow> nat" where
  "state_rank EXPECT_TABLE_SIZE = 1"
| "state_rank INFLATE_START = 1"
| "state_rank STATE_OPCODE = 1"
| "state_rank NEWNAME_READ_NAMEHUFF = 1"
| "state_rank NEWNAME_READ_NAME = 1"
| "state_rank s = 0"

definition advances :: "inflater \<Rightarrow> bytes \<Rightarrow> round \<Rightarrow> bool" where
  "advances i inp r \<longleftrightarrow>
     (case r of
        Continue i' rest b \<Rightarrow> length rest < length inp \<or>
          (length rest \<le> length inp \<and> state_rank (inf_state i') < state_rank (inf_state i))
      | _ \<Rightarrow> True)"

lemma plain_loop_fin:
  "plain_loop n s bs t = Some r \<Longrightarrow> dl_fin r \<Longrightarrow> t < dl_taken r \<and> dl_taken r \<le> t + length bs"
  by (induction n s bs t rule: plain_loop.induct) (force simp: Let_def split: if_splits)+

lemma decode_length_fin:
  assumes "decode_length n s bs p = Inr (Some r)" "dl_fin r"
  shows "0 < dl_taken r \<and> dl_taken r \<le> length bs"
  using assms plain_loop_fin [of _ _ _ _ r]
  by (fastforce simp: decode_length_def Let_def split: if_splits list.splits)

lemma read_lenE:
  assumes "hd_inflate_read_len i inp p m = Inr (i', fin, rest)"
  obtains r where "decode_length (of_nat (inf_left i)) (hd_shift i) inp p = Inr (Some r)"
    "unat (dl_res r) \<le> m" "i' = i\<lparr>inf_left := unat (dl_res r), hd_shift := dl_shift r\<rparr>"
    "fin = dl_fin r" "rest = drop (dl_taken r) inp"
proof -
  obtain ro where ro: "decode_length (of_nat (inf_left i)) (hd_shift i) inp p = Inr ro"
    using assms by (auto simp: hd_inflate_read_len_def rbind_eq_Inr_iff)
  show thesis using assms that ro by (cases ro) (auto simp: hd_inflate_read_len_def split: if_splits)
qed

lemma read_len_shorter:
  assumes "hd_inflate_read_len i inp p m = Inr (i', fin, rest)" "fin"
  shows "length rest < length inp"
  using assms(1)
proof (rule read_lenE)
  fix r assume "decode_length (of_nat (inf_left i)) (hd_shift i) inp p = Inr (Some r)" "fin = dl_fin r"
    "rest = drop (dl_taken r) inp"
  then show ?thesis using decode_length_fin assms(2) by fastforce
qed

lemma advances_failing:
  "(\<And>x. r = Inr x \<Longrightarrow> advances i inp (f x)) \<Longrightarrow> advances i inp (failing j r f)"
  by (cases r) (auto simp: failing_def advances_def)

lemma advances_opcode: "state_rank (inf_state i) = 1 \<Longrightarrow> advances i inp (step_opcode i inp)"
  by (auto simp: advances_def step_opcode_def Let_def split: list.splits)

lemma advances_expect: "state_rank (inf_state i) = 1 \<Longrightarrow> advances i inp (step_expect_table_size i inp)"
  using advances_opcode [of i inp] by (auto simp: step_expect_table_size_def advances_def split: list.splits)

lemma advances_table_size: "advances i inp (step_read_table_size i inp)"
  unfolding step_read_table_size_def
  by (intro advances_failing) (auto simp: advances_def failing_def dest: read_len_shorter split: sum.splits)

lemma advances_index: "advances i inp (step_read_index i inp)"
  unfolding step_read_index_def Let_def
  by (intro advances_failing) (auto simp: advances_def failing_def dest: read_len_shorter split: sum.splits)

lemma advances_namelen: "advances i inp (step_read_namelen grant i inp)"
  unfolding step_read_namelen_def
  by (intro advances_failing) (auto simp: advances_def failing_def dest: read_len_shorter split: sum.splits)

lemma advances_valuelen: "advances i inp (step_read_valuelen grant i inp)"
  unfolding step_read_valuelen_def
  by (intro advances_failing) (auto simp: advances_def failing_def dest: read_len_shorter split: sum.splits)

lemma advances_name:
  assumes "state_rank (inf_state i) = 1"
  shows "advances i inp (step_read_name i inp huff)"
  using assms unfolding step_read_name_def Let_def
  by (intro advances_failing)
    (auto simp: advances_def failing_def hd_inflate_read_huff_def hd_inflate_read_def rbind_eq_Inr_iff Let_def
      split: sum.splits if_splits)

lemma advances_value: "step_read_value grant i inp huff = Some r \<Longrightarrow> advances i inp r"
  by (auto simp: step_read_value_def Let_def advances_def failing_def split: sum.splits if_splits)

lemma advances_other: "advances i' inp r \<Longrightarrow> state_rank (inf_state i') = state_rank (inf_state i) \<Longrightarrow> advances i inp r"
  by (simp add: advances_def split: round.splits)

lemma set_huffman_rank: "set_huffman i inp st = Inr i' \<Longrightarrow> inf_state i' = st"
  by (auto simp: set_huffman_def split: list.splits)

lemma inflate_step_advances: "inflate_step grant i inp = Some r \<Longrightarrow> advances i inp r"
proof (cases "inf_state i")
  case NEWNAME_CHECK_NAMELEN
  assume "inflate_step grant i inp = Some r"
  then have "r = failing i (set_huffman i inp NEWNAME_READ_NAMELEN) (\<lambda>i. step_read_namelen grant i inp)"
    using NEWNAME_CHECK_NAMELEN by (simp add: inflate_step_def)
  then show ?thesis
    using NEWNAME_CHECK_NAMELEN
    by (auto intro!: advances_failing advances_other [OF advances_namelen] dest: set_huffman_rank)
next
  case CHECK_VALUELEN
  assume "inflate_step grant i inp = Some r"
  then have "r = failing i (set_huffman i inp READ_VALUELEN) (\<lambda>i. step_read_valuelen grant i inp)"
    using CHECK_VALUELEN by (simp add: inflate_step_def)
  then show ?thesis
    using CHECK_VALUELEN
    by (auto intro!: advances_failing advances_other [OF advances_valuelen] dest: set_huffman_rank)
qed (auto simp: inflate_step_def intro: advances_opcode advances_expect advances_table_size advances_index
      advances_namelen advances_name advances_valuelen advances_value)

text \<open>The loop ends in \<open>Continue\<close> when all input is taken.\<close>

function inflate_loop :: "(nat \<Rightarrow> bytes option) \<Rightarrow> inflater \<Rightarrow> bytes \<Rightarrow> bool \<Rightarrow> round option" where
  "inflate_loop grant i inp busy =
     (if inp \<noteq> [] \<or> busy then
        (case inflate_step grant i inp of
           None \<Rightarrow> None
         | Some (Continue i' rest busy') \<Rightarrow> inflate_loop grant i' rest busy'
         | Some r \<Rightarrow> Some r)
      else Some (Continue i inp False))"
  by pat_completeness auto
termination
  by (relation "measures [\<lambda>(grant, i, inp, busy). length inp, \<lambda>(grant, i, inp, busy). state_rank (inf_state i)]")
    (auto dest!: inflate_step_advances simp: advances_def)

declare inflate_loop.simps [simp del]

text \<open>What a call leaves and reports: the field emitted, whether the block is complete, and the number
  of bytes taken.\<close>

record inflate_result =
  ir_inflater :: inflater
  ir_emit :: "hd_nv option"
  ir_final :: bool
  ir_taken :: "nat res"

definition inflate_fail :: "inflater \<Rightarrow> nghttp2_error fault \<Rightarrow> inflate_result" where
  "inflate_fail i e = \<lparr>ir_inflater = i\<lparr>ictx := (ictx i)\<lparr>ctx_bad := True\<rparr>\<rparr>, ir_emit = None,
     ir_final = False, ir_taken = Inl e\<rparr>"

definition nghttp2_hd_inflate_hd_nv :: "(nat \<Rightarrow> bytes option) \<Rightarrow> inflater \<Rightarrow> bytes \<Rightarrow> bool \<Rightarrow> inflate_result option" where
  "nghttp2_hd_inflate_hd_nv grant i inp in_final =
     (if ctx_bad (ictx i)
      then Some \<lparr>ir_inflater = i, ir_emit = None, ir_final = False, ir_taken = Inl (Code NGHTTP2_ERR_HEADER_COMP)\<rparr>
      else map_option (\<lambda>r. case r of
          Emitted i rest nv \<Rightarrow>
            \<lparr>ir_inflater = i, ir_emit = Some nv, ir_final = False, ir_taken = Inr (length inp - length rest)\<rparr>
        | Failed i e \<Rightarrow> inflate_fail i e
        | Almost i rest \<Rightarrow>
            if in_final then inflate_fail i (Code NGHTTP2_ERR_HEADER_COMP)
            else \<lparr>ir_inflater = i, ir_emit = None, ir_final = False, ir_taken = Inr (length inp - length rest)\<rparr>
        | Continue i rest busy \<Rightarrow>
            if in_final \<and> inf_state i \<noteq> STATE_OPCODE \<and> inf_state i \<noteq> INFLATE_START
            then inflate_fail i (Code NGHTTP2_ERR_HEADER_COMP)
            else \<lparr>ir_inflater = i, ir_emit = None, ir_final = in_final, ir_taken = Inr (length inp - length rest)\<rparr>)
        (inflate_loop grant i inp False))"

definition nghttp2_hd_inflate_end_headers :: "inflater \<Rightarrow> inflater" where
  "nghttp2_hd_inflate_end_headers i = i\<lparr>inf_state := INFLATE_START\<rparr>"

end
