(* ===== verification/HdInflateSafe.thy ===== *)
theory HdInflateSafe
  imports HdInflate
begin

text \<open>
  Whatever bytes the inflater of HPACK is fed, in whatever pieces, it returns, reads and writes
  inside its buffers, and keeps its state well formed. The invariant says, state by state, what the
  buffers, the counters and the dynamic table satisfy between two rounds.
\<close>

section \<open>The invariant\<close>

definition alloc_ok :: "(nat \<Rightarrow> bytes option) \<Rightarrow> bool" where
  "alloc_ok grant \<longleftrightarrow> (\<forall>n m. grant n = Some m \<longrightarrow> length m = n)"

text \<open>Names and values have at most 65536 bytes encoded, twice as many decoded. Tables of more than
  \<open>2\<^sup>30\<close> bytes, where sums of sizes could wrap around, are left out.\<close>

definition max_text :: nat where "max_text = 2 * NGHTTP2_HD_MAX_NV + 1"

definition inflate_ctx_ok :: "inflater \<Rightarrow> bool" where
  "inflate_ctx_ok i \<longleftrightarrow> context_ok (ictx i) \<and>
     table_size (table_nvs (ictx i)) \<le> unat (hd_table_bufsize_max (ictx i)) \<and>
     unat (hd_table_bufsize_max (ictx i)) \<le> 2 ^ 30 \<and> unat (settings_hd_table_bufsize_max i) \<le> 2 ^ 30"

definition filling :: "buf \<Rightarrow> nat \<Rightarrow> bool" where
  "filling b n \<longleftrightarrow> buf_ok b \<and> pos b = 0 \<and> n + 1 \<le> nghttp2_buf_avail b \<and> length (mem b) \<le> max_text"

definition huff_ok :: "u16 \<Rightarrow> bool" where
  "huff_ok fs \<longleftrightarrow> (\<exists>t. context_at fs (Some t))"

definition name_ok :: "inflater \<Rightarrow> bool" where
  "name_ok i \<longleftrightarrow>
     (if inf_opcode i = OPCODE_NEWNAME
      then \<exists>n. namercbuf i = Some n \<and> n \<le> length (mem (namebuf i)) \<and> n \<le> max_text
      else hd_index i < get_max_index (ictx i))"

fun state_ok :: "inflate_state \<Rightarrow> inflater \<Rightarrow> bool" where
  "state_ok READ_TABLE_SIZE i \<longleftrightarrow> inf_left i < 2 ^ 32"
| "state_ok READ_INDEX i \<longleftrightarrow> inf_left i < 2 ^ 32 \<and> inf_opcode i \<noteq> OPCODE_NEWNAME"
| "state_ok NEWNAME_CHECK_NAMELEN i \<longleftrightarrow> inf_opcode i = OPCODE_NEWNAME"
| "state_ok NEWNAME_READ_NAMELEN i \<longleftrightarrow> inf_left i < 2 ^ 32 \<and> inf_opcode i = OPCODE_NEWNAME"
| "state_ok NEWNAME_READ_NAMEHUFF i \<longleftrightarrow>
     inf_opcode i = OPCODE_NEWNAME \<and> filling (namebuf i) (2 * inf_left i) \<and> huff_ok (huff_decode_ctx i)"
| "state_ok NEWNAME_READ_NAME i \<longleftrightarrow> inf_opcode i = OPCODE_NEWNAME \<and> filling (namebuf i) (inf_left i)"
| "state_ok CHECK_VALUELEN i \<longleftrightarrow> name_ok i"
| "state_ok READ_VALUELEN i \<longleftrightarrow> name_ok i \<and> inf_left i < 2 ^ 32"
| "state_ok READ_VALUEHUFF i \<longleftrightarrow>
     name_ok i \<and> filling (valuebuf i) (2 * inf_left i) \<and> huff_ok (huff_decode_ctx i)"
| "state_ok READ_VALUE i \<longleftrightarrow> name_ok i \<and> filling (valuebuf i) (inf_left i)"
| "state_ok s i \<longleftrightarrow> True"

definition running_ok :: "inflater \<Rightarrow> bool" where
  "running_ok i \<longleftrightarrow> inflate_ctx_ok i \<and> state_ok (inf_state i) i"

definition inflater_ok :: "inflater \<Rightarrow> bool" where
  "inflater_ok i \<longleftrightarrow> inflate_ctx_ok i \<and> (\<not> ctx_bad (ictx i) \<longrightarrow> state_ok (inf_state i) i)"

text \<open>What a round of the loop may end in.\<close>

definition suffix_of :: "bytes \<Rightarrow> bytes \<Rightarrow> bool" where
  "suffix_of rest inp \<longleftrightarrow> (\<exists>k \<le> length inp. rest = drop k inp)"

definition value_state :: "inflate_state \<Rightarrow> bool" where
  "value_state s \<longleftrightarrow> s = READ_VALUE \<or> s = READ_VALUEHUFF"

fun round_ok :: "bytes \<Rightarrow> round \<Rightarrow> bool" where
  "round_ok inp (Continue i rest busy) \<longleftrightarrow>
     running_ok i \<and> suffix_of rest inp \<and> (busy \<longrightarrow> value_state (inf_state i))"
| "round_ok inp (Emitted i rest nv) \<longleftrightarrow> running_ok i \<and> suffix_of rest inp"
| "round_ok inp (Almost i rest) \<longleftrightarrow> running_ok i \<and> rest = []"
| "round_ok inp (Failed i e) \<longleftrightarrow>
     inflate_ctx_ok i \<and> (e = Code NGHTTP2_ERR_HEADER_COMP \<or> e = Code NGHTTP2_ERR_NOMEM)"

lemma suffix_of_refl [simp]: "suffix_of inp inp"
  by (auto simp: suffix_of_def intro: exI [of _ 0])

lemma suffix_of_drop [simp]: "suffix_of (drop k inp) inp"
  by (cases "k \<le> length inp") (auto simp: suffix_of_def intro: exI [of _ "length inp"])

lemma suffix_of_Cons [simp]: "suffix_of rest (b # rest)"
  using suffix_of_drop [of 1 "b # rest"] by simp

lemma suffix_of_trans: "suffix_of a b \<Longrightarrow> suffix_of b c \<Longrightarrow> suffix_of a c"
  by (metis drop_drop suffix_of_def suffix_of_drop)

lemma ctx_ok_update [simp]:
  "inflate_ctx_ok (i\<lparr>inf_left := a\<rparr>) = inflate_ctx_ok i"
  "inflate_ctx_ok (i\<lparr>hd_shift := b\<rparr>) = inflate_ctx_ok i"
  "inflate_ctx_ok (i\<lparr>hd_index := b\<rparr>) = inflate_ctx_ok i"
  "inflate_ctx_ok (i\<lparr>inf_state := c\<rparr>) = inflate_ctx_ok i"
  "inflate_ctx_ok (i\<lparr>inf_opcode := d\<rparr>) = inflate_ctx_ok i"
  "inflate_ctx_ok (i\<lparr>namebuf := e\<rparr>) = inflate_ctx_ok i"
  "inflate_ctx_ok (i\<lparr>valuebuf := e\<rparr>) = inflate_ctx_ok i"
  "inflate_ctx_ok (i\<lparr>namercbuf := f\<rparr>) = inflate_ctx_ok i"
  "inflate_ctx_ok (i\<lparr>valuercbuf := f\<rparr>) = inflate_ctx_ok i"
  "inflate_ctx_ok (i\<lparr>huff_decode_ctx := g\<rparr>) = inflate_ctx_ok i"
  "inflate_ctx_ok (i\<lparr>min_table_bufsize_max := h\<rparr>) = inflate_ctx_ok i"
  "inflate_ctx_ok (i\<lparr>huffman_encoded := k\<rparr>) = inflate_ctx_ok i"
  "inflate_ctx_ok (i\<lparr>index_required := k\<rparr>) = inflate_ctx_ok i"
  "inflate_ctx_ok (i\<lparr>no_index := k\<rparr>) = inflate_ctx_ok i"
  by (simp_all add: inflate_ctx_ok_def)

section \<open>Reading integers\<close>

lemma decode_length_ok:
  assumes "bs \<noteq> []"
  shows "decode_length n s bs p = Inr None \<or>
    (\<exists>r. decode_length n s bs p = Inr (Some r) \<and> (\<not> dl_fin r \<longrightarrow> drop (dl_taken r) bs = []))"
proof -
  obtain b rest where bs: "bs = b # rest" using assms by (cases bs) auto
  have loop: "\<not> dl_fin r \<longrightarrow> dl_taken r = t + length xs" if "plain_loop n' s xs t = Some r" for r n' xs t
    using plain_loop_bounds [OF that] by simp
  show ?thesis
  proof (cases "decode_length n s bs p")
    case (Inl e)
    then show ?thesis by (auto simp: bs decode_length_def Let_def split: if_splits)
  next
    case (Inr r)
    then show ?thesis
      using loop by (cases r) (auto simp: bs decode_length_def Let_def simp del: plain_loop.simps split: if_splits)
  qed
qed

lemma read_len_ok:
  assumes "inp \<noteq> []"
  shows "hd_inflate_read_len i inp p m = Inl (Code NGHTTP2_ERR_HEADER_COMP) \<or>
    (\<exists>l s fin rest. hd_inflate_read_len i inp p m = Inr (i\<lparr>inf_left := l, hd_shift := s\<rparr>, fin, rest) \<and>
       l \<le> m \<and> l < 2 ^ 32 \<and> suffix_of rest inp \<and> (\<not> fin \<longrightarrow> rest = []))"
proof -
  from decode_length_ok [OF assms, of "of_nat (inf_left i)" "hd_shift i" p] show ?thesis
  proof (elim disjE exE conjE)
    fix r assume r: "decode_length (of_nat (inf_left i)) (hd_shift i) inp p = Inr (Some r)"
      "\<not> dl_fin r \<longrightarrow> drop (dl_taken r) inp = []"
    have "unat (dl_res r) < 2 ^ 32" using unsigned_less [of "dl_res r"] by simp
    then show ?thesis using r by (auto simp: hd_inflate_read_len_def)
  qed (simp add: hd_inflate_read_len_def)
qed

lemma unat_of_nat32: "n < 2 ^ 32 \<Longrightarrow> unat (of_nat n :: u32) = n"
  by (simp add: unat_of_nat take_bit_nat_eq_self)

lemma resize_ok:
  assumes "inflate_ctx_ok i" "unat m \<le> 2 ^ 30"
  shows "\<exists>ctx hm. hd_context_shrink_table_size ((ictx i)\<lparr>hd_table_bufsize_max := m\<rparr>) None = Inr (ctx, hm) \<and>
    inflate_ctx_ok (i\<lparr>ictx := ctx\<rparr>) \<and> ctx_bad ctx = ctx_bad (ictx i) \<and> hd_table_bufsize_max ctx = m \<and>
    table_nvs ctx = fitting (unat m) (table_nvs (ictx i))"
proof -
  let ?ctx = "(ictx i)\<lparr>hd_table_bufsize_max := m\<rparr>"
  have nvs: "table_nvs ?ctx = table_nvs (ictx i)" "table_entries ?ctx = table_entries (ictx i)"
    by (simp_all add: table_nvs_def table_entries_def)
  have "context_ok ?ctx" using assms nvs by (simp add: inflate_ctx_ok_def context_ok_def)
  from shrink_ok [OF this, of None] obtain ctx hm where sh:
    "hd_context_shrink_table_size ?ctx None = Inr (ctx, hm)" "context_ok ctx"
    "table_nvs ctx = fitting (unat m) (table_nvs ?ctx)" "hd_table_bufsize_max ctx = m" "ctx_bad ctx = ctx_bad ?ctx"
    by (auto simp: opt_map_ok_def)
  moreover have "table_size (table_nvs ctx) \<le> unat m" unfolding sh(3) by (rule fitting_size)
  ultimately show ?thesis using assms nvs by (auto simp: inflate_ctx_ok_def)
qed

lemma rcbuf_new_ok:
  assumes "alloc_ok grant"
  shows "rcbuf_new grant n = Inl (Code NGHTTP2_ERR_NOMEM) \<or>
    (\<exists>b. rcbuf_new grant n = Inr (n, b) \<and> buf_ok b \<and> pos b = 0 \<and> last_pos b = 0 \<and> length (mem b) = n)"
proof (cases "grant (sizeof_rcbuf + n)")
  case (Some m)
  then have "length m = sizeof_rcbuf + n" using assms by (simp add: alloc_ok_def)
  then show ?thesis using Some by (simp add: rcbuf_new_def nghttp2_buf_wrap_init_def buf_ok_def)
qed (simp add: rcbuf_new_def)

lemma huff_init_ok: "huff_ok nghttp2_hd_huff_decode_context_init"
  using context_init_at by (auto simp: huff_ok_def)

text \<open>A new string buffer has the space the string will take.\<close>

lemma new_text:
  assumes "alloc_ok grant" "l \<le> NGHTTP2_HD_MAX_NV"
  shows "rcbuf_new grant (if huff then l * 2 + 1 else l + 1) = Inl (Code NGHTTP2_ERR_NOMEM) \<or>
    (\<exists>n b. rcbuf_new grant (if huff then l * 2 + 1 else l + 1) = Inr (n, b) \<and> n \<le> length (mem b) \<and> n \<le> max_text \<and>
       filling b (if huff then 2 * l else l) \<and> buf_data b = [])"
  using rcbuf_new_ok [OF assms(1), of "if huff then l * 2 + 1 else l + 1"] assms(2)
  by (auto simp: filling_def nghttp2_buf_avail_def max_text_def buf_data_def nghttp2_buf_len_def)

section \<open>The rounds that read integers\<close>

lemma step_opcode_ok:
  assumes "inflate_ctx_ok i" "inp \<noteq> []"
  shows "round_ok inp (step_opcode i inp)"
  using assms by (cases inp) (auto simp: step_opcode_def running_ok_def Let_def)

lemma step_expect_ok:
  assumes "inflate_ctx_ok i" "inp \<noteq> []"
  shows "round_ok inp (step_expect_table_size i inp)"
  using step_opcode_ok [OF assms] assms by (cases inp) (auto simp: step_expect_table_size_def)

lemma step_table_size_ok:
  assumes "inflate_ctx_ok i" "inp \<noteq> []" "inf_state i = READ_TABLE_SIZE"
  shows "round_ok inp (step_read_table_size i inp)"
proof -
  let ?m = "min (unat (min_table_bufsize_max i)) (unat (settings_hd_table_bufsize_max i))"
  from read_len_ok [OF assms(2), of i 5 ?m] show ?thesis
  proof (elim disjE exE conjE)
    fix l s fin rest
    assume r: "hd_inflate_read_len i inp 5 ?m = Inr (i\<lparr>inf_left := l, hd_shift := s\<rparr>, fin, rest)"
      "l \<le> ?m" "l < 2 ^ 32" "suffix_of rest inp" "\<not> fin \<longrightarrow> rest = []"
    let ?i = "i\<lparr>inf_left := l, hd_shift := s\<rparr>"
    show ?thesis
    proof (cases fin)
      case False
      then show ?thesis using r assms by (simp add: step_read_table_size_def failing_def running_ok_def)
    next
      case True
      have i: "inflate_ctx_ok ?i" using assms(1) by simp
      have "unat (of_nat l :: u32) \<le> 2 ^ 30"
        using r(2) assms(1) unat_of_nat32 [OF r(3)] by (simp add: inflate_ctx_ok_def)
      from resize_ok [OF i this] obtain ctx hm where
        "hd_context_shrink_table_size ((ictx ?i)\<lparr>hd_table_bufsize_max := of_nat l\<rparr>) None = Inr (ctx, hm)"
        "inflate_ctx_ok (?i\<lparr>ictx := ctx\<rparr>)" by blast
      then show ?thesis
        using True r by (simp add: step_read_table_size_def failing_def running_ok_def inflate_ctx_ok_def)
    qed
  qed (use assms in \<open>simp add: step_read_table_size_def failing_def\<close>)
qed

lemma step_index_ok:
  assumes "inflate_ctx_ok i" "inp \<noteq> []" "inf_state i = READ_INDEX" "inf_opcode i \<noteq> OPCODE_NEWNAME"
  shows "round_ok inp (step_read_index i inp)"
proof -
  let ?p = "if inf_opcode i = OPCODE_INDEXED then 7 else if index_required i then 6 else 4"
  let ?m = "get_max_index (ictx i)"
  from read_len_ok [OF assms(2), of i ?p ?m] show ?thesis
  proof (elim disjE exE conjE)
    fix l s fin rest
    assume r: "hd_inflate_read_len i inp ?p ?m = Inr (i\<lparr>inf_left := l, hd_shift := s\<rparr>, fin, rest)"
      "l \<le> ?m" "l < 2 ^ 32" "suffix_of rest inp" "\<not> fin \<longrightarrow> rest = []"
    have get: "nghttp2_hd_table_get (ictx i) (l - 1) = Inr (table_field (ictx i) (l - 1))" if "l \<noteq> 0"
      using hd_table_get_ok [of "ictx i" "l - 1"] assms(1) r(2) that by (simp add: inflate_ctx_ok_def)
    show ?thesis
      using r assms get
      by (auto simp: step_read_index_def failing_def Let_def running_ok_def hd_inflate_commit_indexed_def name_ok_def
          get_max_index_def)
  qed (use assms in \<open>simp add: step_read_index_def failing_def Let_def\<close>)
qed

lemma step_namelen_ok:
  assumes "inflate_ctx_ok i" "inp \<noteq> []" "inf_state i = NEWNAME_READ_NAMELEN" "inf_opcode i = OPCODE_NEWNAME"
    and grant: "alloc_ok grant"
  shows "round_ok inp (step_read_namelen grant i inp)"
proof -
  from read_len_ok [OF assms(2), of i 7 NGHTTP2_HD_MAX_NV] show ?thesis
  proof (elim disjE exE conjE)
    fix l s fin rest
    assume r: "hd_inflate_read_len i inp 7 NGHTTP2_HD_MAX_NV = Inr (i\<lparr>inf_left := l, hd_shift := s\<rparr>, fin, rest)"
      "l \<le> NGHTTP2_HD_MAX_NV" "l < 2 ^ 32" "suffix_of rest inp" "\<not> fin \<longrightarrow> rest = []"
    show ?thesis
      using r assms new_text [OF grant r(2), of "huffman_encoded i"] huff_init_ok
      by (cases fin; cases "huffman_encoded i") (auto simp: step_read_namelen_def failing_def running_ok_def)
  qed (use assms in \<open>simp add: step_read_namelen_def failing_def\<close>)
qed

lemma step_valuelen_ok:
  assumes "inflate_ctx_ok i" "inp \<noteq> []" "inf_state i = READ_VALUELEN" "name_ok i" and grant: "alloc_ok grant"
  shows "round_ok inp (step_read_valuelen grant i inp)"
proof -
  from read_len_ok [OF assms(2), of i 7 NGHTTP2_HD_MAX_NV] show ?thesis
  proof (elim disjE exE conjE)
    fix l s fin rest
    assume r: "hd_inflate_read_len i inp 7 NGHTTP2_HD_MAX_NV = Inr (i\<lparr>inf_left := l, hd_shift := s\<rparr>, fin, rest)"
      "l \<le> NGHTTP2_HD_MAX_NV" "l < 2 ^ 32" "suffix_of rest inp" "\<not> fin \<longrightarrow> rest = []"
    show ?thesis
      using r assms new_text [OF grant r(2), of "huffman_encoded i"] huff_init_ok
      by (cases fin; cases "huffman_encoded i")
        (auto simp: step_read_valuelen_def failing_def running_ok_def name_ok_def value_state_def)
  qed (use assms in \<open>simp add: step_read_valuelen_def failing_def\<close>)
qed

section \<open>The rounds that read strings\<close>

definition text_left :: "bool \<Rightarrow> nat \<Rightarrow> nat" where
  "text_left huff n = (if huff then 2 * n else n)"

definition read_text :: "bool \<Rightarrow> inflater \<Rightarrow> buf \<Rightarrow> bytes \<Rightarrow> (inflater \<times> buf \<times> bytes) res" where
  "read_text huff = (if huff then hd_inflate_read_huff else hd_inflate_read)"

lemma read_huff_ok:
  assumes "filling b (2 * inf_left i)" "huff_ok (huff_decode_ctx i)"
  shows "hd_inflate_read_huff i b inp = Inl (Code NGHTTP2_ERR_HEADER_COMP) \<or>
    (\<exists>fs l b'. hd_inflate_read_huff i b inp =
         Inr (i\<lparr>huff_decode_ctx := fs, inf_left := l\<rparr>, b', drop (min (length inp) (inf_left i)) inp) \<and>
       l = inf_left i - length inp \<and> filling b' (2 * l) \<and> huff_ok fs)"
proof -
  let ?src = "take (inf_left i) inp" and ?fin = "inf_left i \<le> length inp"
  have src: "(if ?fin then take (inf_left i) inp else inp) = ?src" by simp
  obtain t where t: "context_at (huff_decode_ctx i) (Some t)" using assms(2) by (auto simp: huff_ok_def)
  have b: "buf_ok b" "2 * length ?src \<le> nghttp2_buf_avail b" using assms(1) by (auto simp: filling_def)
  obtain fs b' where d: "huff_decode_loop (huff_decode_ctx i) ?src b = Inr (fs, b')"
      "decodes (Some t) (bytes_bits ?src) (2 * length ?src) b (fs, b')"
    using loop_decodes [OF t b] by blast
  have fill: "filling b' (2 * (inf_left i - length inp))"
    using decodes_avail [OF d(2), of "2 * (inf_left i - length inp) + 1"] assms(1) d(2)
    by (auto simp: filling_def decodes_def)
  have st: "huff_ok fs" if "fs \<noteq> 0x100"
    using decodes_context [OF d(2)] that by (cases "reached (Some t) (bytes_bits ?src)") (auto simp: huff_ok_def context_at_def)
  show ?thesis
  proof (cases "(?fin \<and> fs AND NGHTTP2_HUFF_ACCEPTED = 0) \<or> fs = 0x100")
    case True
    then show ?thesis
      by (auto simp: hd_inflate_read_huff_def src nghttp2_hd_huff_decode_def d(1) Let_def
          nghttp2_hd_huff_decode_failure_state_def)
  next
    case False
    have "inf_left i - length ?src = inf_left i - length inp" by auto
    moreover have "length ?src = min (length inp) (inf_left i)" by (simp add: min.commute)
    ultimately show ?thesis
      using False fill st
      by (auto simp: hd_inflate_read_huff_def src nghttp2_hd_huff_decode_def d(1) Let_def
          nghttp2_hd_huff_decode_failure_state_def)
  qed
qed

lemma read_plain_ok:
  assumes "filling b (inf_left i)"
  shows "\<exists>l b'. hd_inflate_read i b inp = Inr (i\<lparr>inf_left := l\<rparr>, b', drop (min (length inp) (inf_left i)) inp) \<and>
    l = inf_left i - length inp \<and> filling b' l \<and> buf_data b' = buf_data b @ take (inf_left i) inp"
proof -
  let ?n = "min (length inp) (inf_left i)"
  have tk: "take ?n inp = take (inf_left i) inp" by (simp add: min_def)
  have "buf_ok b" "length (take ?n inp) \<le> nghttp2_buf_avail b" using assms by (auto simp: filling_def)
  from buf_append_ok [OF this] obtain b' where b': "buf_append b (take ?n inp) = Inr b'" "buf_ok b'"
    "buf_data b' = buf_data b @ take ?n inp" "length (mem b') = length (mem b)" "pos b' = pos b"
    "last_pos b' = last_pos b + length (take ?n inp)" by blast
  have left: "inf_left i - ?n = inf_left i - length inp" by auto
  have "filling b' (inf_left i - length inp)"
    using assms b' by (auto simp: filling_def nghttp2_buf_avail_def)
  then show ?thesis using b' left tk by (simp add: hd_inflate_read_def Let_def)
qed

lemma read_text_ok:
  assumes "filling b (text_left huff (inf_left i))" "huff \<longrightarrow> huff_ok (huff_decode_ctx i)"
  shows "read_text huff i b inp = Inl (Code NGHTTP2_ERR_HEADER_COMP) \<or>
    (\<exists>fs l b' rest. read_text huff i b inp = Inr (i\<lparr>huff_decode_ctx := fs, inf_left := l\<rparr>, b', rest) \<and>
       filling b' (text_left huff l) \<and> (huff \<longrightarrow> huff_ok fs) \<and> suffix_of rest inp \<and> (l \<noteq> 0 \<longrightarrow> rest = []))"
proof (cases huff)
  case True
  then show ?thesis
    using read_huff_ok [of b i inp] assms by (auto simp: read_text_def text_left_def) fastforce+
next
  case False
  then obtain l b' where "hd_inflate_read i b inp = Inr (i\<lparr>inf_left := l\<rparr>, b', drop (min (length inp) (inf_left i)) inp)"
      "l = inf_left i - length inp" "filling b' l"
    using read_plain_ok [of b i inp] assms by (auto simp: text_left_def)
  moreover have "i\<lparr>inf_left := l\<rparr> = i\<lparr>huff_decode_ctx := huff_decode_ctx i, inf_left := l\<rparr>" by simp
  ultimately show ?thesis using False
    by (intro disjI2 exI [of _ "huff_decode_ctx i"] exI [of _ l] exI [of _ b'])
      (auto simp: read_text_def text_left_def)
qed

lemma terminate_ok:
  assumes "filling b n"
  shows "\<exists>b'. terminate b = Inr (b', nghttp2_buf_len b) \<and> nghttp2_buf_len b \<le> length (mem b') \<and>
    nghttp2_buf_len b \<le> max_text \<and> take (nghttp2_buf_len b) (mem b') = buf_data b"
  using assms
  by (auto simp: terminate_def buf_put_hold_def filling_def buf_ok_def nghttp2_buf_avail_def nghttp2_buf_len_def
      buf_data_def)

lemma step_name_ok:
  assumes "inflate_ctx_ok i" "inf_opcode i = OPCODE_NEWNAME" "filling (namebuf i) (text_left huff (inf_left i))"
    "huff \<longrightarrow> huff_ok (huff_decode_ctx i)"
    "inf_state i = (if huff then NEWNAME_READ_NAMEHUFF else NEWNAME_READ_NAME)"
  shows "round_ok inp (step_read_name i inp huff)"
  using read_text_ok [OF assms(3,4), of inp]
proof (elim disjE exE conjE)
  assume "read_text huff i (namebuf i) inp = Inl (Code NGHTTP2_ERR_HEADER_COMP)"
  then show ?thesis using assms(1) by (simp add: step_read_name_def failing_def read_text_def)
next
  fix fs l b' rest
  assume r: "read_text huff i (namebuf i) inp = Inr (i\<lparr>huff_decode_ctx := fs, inf_left := l\<rparr>, b', rest)"
    "filling b' (text_left huff l)" "huff \<longrightarrow> huff_ok fs" "suffix_of rest inp" "l \<noteq> 0 \<longrightarrow> rest = []"
  obtain b2 where t: "terminate b' = Inr (b2, nghttp2_buf_len b')" "nghttp2_buf_len b' \<le> length (mem b2)"
      "nghttp2_buf_len b' \<le> max_text"
    using terminate_ok [OF r(2)] by blast
  show ?thesis
    using r t assms
    by (cases "l = 0"; cases huff)
      (auto simp: step_read_name_def failing_def read_text_def Let_def running_ok_def name_ok_def text_left_def)
qed

section \<open>Committing a field\<close>

lemma rcbuf_bytes_ok:
  "n \<le> length (mem b) \<Longrightarrow> rcbuf_bytes b (Some n) = Inr (take n (mem b))"
  by (simp add: rcbuf_bytes_def mem_read_def)

lemma commit_store_ok:
  assumes "inflate_ctx_ok i" "room_of nv \<le> 2 ^ 31"
  shows "\<exists>ctx r. commit_store grant i nv = Some (i\<lparr>ictx := ctx\<rparr>, r) \<and> inflate_ctx_ok (i\<lparr>ictx := ctx\<rparr>) \<and>
    ctx_bad ctx = ctx_bad (ictx i) \<and> hd_table_bufsize_max ctx = hd_table_bufsize_max (ictx i) \<and>
    (r = Inl (Code NGHTTP2_ERR_NOMEM) \<or> r = Inr () \<and> table_nvs ctx =
       (if index_required i then rfc_insert (unat (hd_table_bufsize_max (ictx i))) nv (table_nvs (ictx i))
        else table_nvs (ictx i)))"
proof (cases "index_required i")
  case False
  then show ?thesis using assms(1) by (intro exI [of _ "ictx i"]) (simp add: commit_store_def)
next
  case True
  have "context_ok (ictx i)" "opt_map_ok None (table_entries (ictx i))"
    using assms(1) by (auto simp: inflate_ctx_ok_def opt_map_ok_def)
  from add_incremental_ok [OF this assms(2), of "\<lambda>n. grant n \<noteq> None" 0] obtain ctx hm r where a:
    "add_hd_table_incremental (\<lambda>n. grant n \<noteq> None) (ictx i) nv None 0 = Some (ctx, hm, r)" "context_ok ctx"
    "hd_table_bufsize_max ctx = hd_table_bufsize_max (ictx i)" "ctx_bad ctx = ctx_bad (ictx i)"
    "r = Inr () \<and> table_nvs ctx = rfc_insert (unat (hd_table_bufsize_max (ictx i))) nv (table_nvs (ictx i)) \<or>
     r = Inl (Code NGHTTP2_ERR_NOMEM) \<and> (\<exists>k. table_nvs ctx = take k (table_nvs (ictx i)))" by blast
  have "table_size (table_nvs ctx) \<le> unat (hd_table_bufsize_max (ictx i))"
    using a(5) rfc_insert_size table_size_take assms(1) by (metis inflate_ctx_ok_def le_trans)
  then have "inflate_ctx_ok (i\<lparr>ictx := ctx\<rparr>)" using assms(1) a(2,3) by (simp add: inflate_ctx_ok_def)
  then show ?thesis using True a by (auto simp: commit_store_def)
qed

definition value_ok :: "inflater \<Rightarrow> bool" where
  "value_ok i \<longleftrightarrow> (\<exists>n. valuercbuf i = Some n \<and> n \<le> length (mem (valuebuf i)) \<and> n \<le> max_text)"

text \<open>A commit stores the field, if required, and hands it out.\<close>

definition commits :: "inflater \<Rightarrow> hd_nv \<Rightarrow> (inflater \<times> hd_nv res) option \<Rightarrow> bool" where
  "commits i nv out \<longleftrightarrow> (\<exists>i' r. out = Some (i', r) \<and> inflate_ctx_ok i' \<and>
     ctx_bad (ictx i') = ctx_bad (ictx i) \<and> hd_table_bufsize_max (ictx i') = hd_table_bufsize_max (ictx i) \<and>
     min_table_bufsize_max i' = min_table_bufsize_max i \<and>
     settings_hd_table_bufsize_max i' = settings_hd_table_bufsize_max i \<and>
     (r = Inl (Code NGHTTP2_ERR_NOMEM) \<or> r = Inr nv \<and> table_nvs (ictx i') =
       (if index_required i then rfc_insert (unat (hd_table_bufsize_max (ictx i))) nv (table_nvs (ictx i))
        else table_nvs (ictx i))))"

lemma max_text_eq: "max_text = 131073"
  by (simp add: max_text_def NGHTTP2_HD_MAX_NV_def)

lemma commit_newname_ok:
  assumes i: "inflate_ctx_ok i" "value_ok i" "namercbuf i = Some k" "k \<le> length (mem (namebuf i))" "k \<le> max_text"
    and v: "valuercbuf i = Some n"
    and nv: "nv = \<lparr>nv_name = take k (mem (namebuf i)), nv_value = take n (mem (valuebuf i)),
      nv_token = lookup_token (take k (mem (namebuf i))), nv_flags = commit_flags i\<rparr>"
  shows "commits i nv (hd_inflate_commit_newname grant i)"
proof -
  have "n \<le> length (mem (valuebuf i))" "n \<le> max_text" using i(2) v by (auto simp: value_ok_def)
  moreover from this have "room_of nv \<le> 2 ^ 31" using i(4,5) by (simp add: nv room_of_def max_text_eq)
  ultimately show ?thesis
    using commit_store_ok [OF i(1), of nv grant] rcbuf_bytes_ok i(3,4) v unfolding nv
    by (fastforce simp: commits_def hd_inflate_commit_newname_def Let_def)
qed

lemma static_name_short: "i < 61 \<Longrightarrow> length (st_name (static_table ! i)) \<le> 2 ^ 30"
proof -
  have "list_all (\<lambda>e. length (st_name e) \<le> 2 ^ 30) static_table"
    by (simp add: static_table_def static_ent_def)
  then show "i < 61 \<Longrightarrow> length (st_name (static_table ! i)) \<le> 2 ^ 30"
    by (simp add: list_all_length length_static_table)
qed

lemma table_name_short: "i < length nvs \<Longrightarrow> length (nv_name (nvs ! i)) \<le> table_size nvs"
proof -
  assume "i < length nvs"
  then have "room_of (nvs ! i) \<le> table_size nvs"
    unfolding table_size_def by (intro elem_le_sum_list [of i "map room_of nvs", simplified]) simp
  then show ?thesis by (simp add: room_of_def)
qed

lemma commit_indname_ok:
  assumes i: "inflate_ctx_ok i" "value_ok i" "hd_index i < get_max_index (ictx i)" and v: "valuercbuf i = Some n"
    and nv: "nv = (table_field (ictx i) (hd_index i))\<lparr>nv_flags := commit_flags i, nv_value := take n (mem (valuebuf i))\<rparr>"
  shows "commits i nv (hd_inflate_commit_indname grant i)"
proof -
  have n: "n \<le> length (mem (valuebuf i))" "n \<le> max_text" using i(2) v by (auto simp: value_ok_def)
  have get: "nghttp2_hd_table_get (ictx i) (hd_index i) = Inr (table_field (ictx i) (hd_index i))"
    using hd_table_get_ok i(1,3) by (simp add: inflate_ctx_ok_def)
  have "length (nv_name (table_field (ictx i) (hd_index i))) \<le> 2 ^ 30"
  proof (cases "hd_index i < 61")
    case True
    then show ?thesis using static_name_short by (simp add: table_field_def)
  next
    case False
    then have "hd_index i - 61 < length (table_nvs (ictx i))" using i(3) by (simp add: get_max_index_eq)
    from table_name_short [OF this] show ?thesis
      using False i(1) by (simp add: table_field_def inflate_ctx_ok_def)
  qed
  then have "room_of nv \<le> 2 ^ 31" using n by (simp add: nv room_of_def max_text_eq)
  then show ?thesis
    using commit_store_ok [OF i(1), of nv grant] rcbuf_bytes_ok n(1) get v unfolding nv
    by (fastforce simp: commits_def hd_inflate_commit_indname_def Let_def)
qed

lemma commits_emitted:
  "commits i nv out \<Longrightarrow> suffix_of rest inp \<Longrightarrow>
   \<exists>r. map_option (\<lambda>(i, r). failing i r (\<lambda>nv. Emitted (i\<lparr>inf_state := STATE_OPCODE\<rparr>) rest nv)) out = Some r \<and>
     round_ok inp r"
  by (auto simp: commits_def failing_def running_ok_def)

lemma step_value_ok:
  assumes "inflate_ctx_ok i" "name_ok i" "filling (valuebuf i) (text_left huff (inf_left i))"
    "huff \<longrightarrow> huff_ok (huff_decode_ctx i)" "inf_state i = (if huff then READ_VALUEHUFF else READ_VALUE)"
  shows "\<exists>r. step_read_value grant i inp huff = Some r \<and> round_ok inp r"
  using read_text_ok [OF assms(3,4), of inp]
proof (elim disjE exE conjE)
  assume "read_text huff i (valuebuf i) inp = Inl (Code NGHTTP2_ERR_HEADER_COMP)"
  then show ?thesis using assms(1) by (simp add: step_read_value_def read_text_def)
next
  fix fs l b' rest
  assume r: "read_text huff i (valuebuf i) inp = Inr (i\<lparr>huff_decode_ctx := fs, inf_left := l\<rparr>, b', rest)"
    "filling b' (text_left huff l)" "huff \<longrightarrow> huff_ok fs" "suffix_of rest inp" "l \<noteq> 0 \<longrightarrow> rest = []"
  show ?thesis
  proof (cases "l = 0")
    case False
    then show ?thesis using r assms
      by (cases huff) (auto simp: step_read_value_def read_text_def Let_def running_ok_def name_ok_def text_left_def)
  next
    case True
    obtain b2 where t: "terminate b' = Inr (b2, nghttp2_buf_len b')" "nghttp2_buf_len b' \<le> length (mem b2)"
        "nghttp2_buf_len b' \<le> max_text"
      using terminate_ok [OF r(2)] by blast
    let ?i = "i\<lparr>huff_decode_ctx := fs, inf_left := l, valuebuf := b2, valuercbuf := Some (nghttp2_buf_len b')\<rparr>"
    have i: "inflate_ctx_ok ?i" "value_ok ?i" "name_ok ?i"
      using assms(1,2) t(2,3) by (auto simp: value_ok_def name_ok_def)
    have step: "step_read_value grant i inp huff =
        map_option (\<lambda>(i, r). failing i r (\<lambda>nv. Emitted (i\<lparr>inf_state := STATE_OPCODE\<rparr>) rest nv))
          (if inf_opcode ?i = OPCODE_NEWNAME then hd_inflate_commit_newname grant ?i
           else hd_inflate_commit_indname grant ?i)"
      using r(1) t(1) True by (simp add: step_read_value_def read_text_def Let_def)
    show ?thesis
    proof (cases "inf_opcode ?i = OPCODE_NEWNAME")
      case new: True
      then obtain k where "namercbuf ?i = Some k" "k \<le> length (mem (namebuf ?i))" "k \<le> max_text"
        using i(3) by (auto simp: name_ok_def)
      from commit_newname_ok [OF i(1,2) this _ refl, of "nghttp2_buf_len b'" grant]
      obtain nv where "commits ?i nv (hd_inflate_commit_newname grant ?i)" by auto
      from commits_emitted [OF this r(4)] show ?thesis unfolding step if_P [OF new] .
    next
      case False
      then have "hd_index ?i < get_max_index (ictx ?i)" using i(3) by (simp only: name_ok_def if_False)
      from commit_indname_ok [OF i(1,2) this _ refl, of "nghttp2_buf_len b'" grant]
      obtain nv where "commits ?i nv (hd_inflate_commit_indname grant ?i)" by auto
      from commits_emitted [OF this r(4)] show ?thesis unfolding step if_not_P [OF False] .
    qed
  qed
qed

section \<open>Every round\<close>

lemma inflate_step_ok:
  assumes run: "running_ok i" and grant: "alloc_ok grant" and inp: "inp \<noteq> [] \<or> value_state (inf_state i)"
  shows "\<exists>r. inflate_step grant i inp = Some r \<and> round_ok inp r"
proof -
  have ctx: "inflate_ctx_ok i" and st: "state_ok (inf_state i) i" using run by (auto simp: running_ok_def)
  note reading = inp [unfolded value_state_def]
  have set: "\<exists>i'. set_huffman i inp s = Inr i' \<and> inflate_ctx_ok i' \<and> inf_state i' = s \<and> inf_opcode i' = inf_opcode i \<and>
      name_ok i' = name_ok i" if "inp \<noteq> []" for s
    using that ctx by (cases inp) (auto simp: set_huffman_def name_ok_def)
  show ?thesis
  proof (cases "inf_state i")
    case NEWNAME_CHECK_NAMELEN
    then have "inp \<noteq> []" using reading by simp
    then show ?thesis
      using set [of NEWNAME_READ_NAMELEN] step_namelen_ok [OF _ _ _ _ grant] st NEWNAME_CHECK_NAMELEN
      by (fastforce simp: inflate_step_def failing_def)
  next
    case CHECK_VALUELEN
    then have "inp \<noteq> []" using reading by simp
    then show ?thesis
      using set [of READ_VALUELEN] step_valuelen_ok [OF _ _ _ _ grant] st CHECK_VALUELEN
      by (fastforce simp: inflate_step_def failing_def)
  qed (use ctx st reading step_opcode_ok [OF ctx] step_expect_ok [OF ctx] step_table_size_ok [OF ctx]
      step_index_ok [OF ctx] step_namelen_ok [OF ctx _ _ _ grant] step_valuelen_ok [OF ctx _ _ _ grant]
      step_name_ok [OF ctx, of True] step_name_ok [OF ctx, of False]
      step_value_ok [OF ctx, of True] step_value_ok [OF ctx, of False] in
      \<open>simp_all add: inflate_step_def text_left_def\<close>)
qed

lemma inflate_loop_ok:
  "running_ok i \<Longrightarrow> alloc_ok grant \<Longrightarrow> (busy \<longrightarrow> value_state (inf_state i)) \<Longrightarrow>
   \<exists>r. inflate_loop grant i inp busy = Some r \<and> round_ok inp r \<and> (\<forall>i' rest b. r = Continue i' rest b \<longrightarrow> rest = [])"
proof (induction grant i inp busy rule: inflate_loop.induct)
  case (1 grant i inp busy)
  show ?case
  proof (cases "inp \<noteq> [] \<or> busy")
    case False
    then show ?thesis using 1(2) by (subst inflate_loop.simps) simp
  next
    case True
    then obtain r where r: "inflate_step grant i inp = Some r" "round_ok inp r"
      using inflate_step_ok [OF 1(2,3), of inp] 1(4) by auto
    show ?thesis
    proof (cases r)
      case (Continue i' rest b)
      then have ok: "running_ok i'" "suffix_of rest inp" "b \<longrightarrow> value_state (inf_state i')" using r(2) by auto
      obtain r' where r': "inflate_loop grant i' rest b = Some r'" "round_ok rest r'"
          "\<forall>i'' rest' b'. r' = Continue i'' rest' b' \<longrightarrow> rest' = []"
        using 1(1) [OF True r(1) Continue ok(1) 1(3) ok(3)] by blast
      have "round_ok inp r'" using r'(2) suffix_of_trans [OF _ ok(2)] by (cases r') auto
      then show ?thesis using True r(1) Continue r'(1,3) by (subst inflate_loop.simps) simp
    qed (use True r in \<open>subst inflate_loop.simps, simp\<close>)+
  qed
qed

text \<open>C2: the inflater is safe against every input. A call on any bytes, first or following piece,
  returns; it takes at most the bytes it is given, and all of them unless it emits a field; it
  never reads or writes outside its buffers, never trips an assertion, and fails only with
  NGHTTP2_ERR_HEADER_COMP or for lack of memory, after which it refuses all further input; and it
  leaves a state from which the same holds.\<close>
theorem inflate_safe:
  assumes "inflater_ok i" "\<And>n m. grant n = Some m \<Longrightarrow> length m = n"
  shows "\<exists>r. nghttp2_hd_inflate_hd_nv grant i inp in_final = Some r \<and> inflater_ok (ir_inflater r) \<and>
    (case ir_taken r of
       Inr n \<Rightarrow> n \<le> length inp \<and> (ir_emit r = None \<longrightarrow> n = length inp)
     | Inl e \<Rightarrow> (e = Code NGHTTP2_ERR_HEADER_COMP \<or> e = Code NGHTTP2_ERR_NOMEM) \<and> ctx_bad (ictx (ir_inflater r)))"
proof (cases "ctx_bad (ictx i)")
  case True
  then show ?thesis using assms(1) by (simp add: nghttp2_hd_inflate_hd_nv_def)
next
  case False
  have run: "running_ok i" using assms(1) False by (simp add: inflater_ok_def running_ok_def)
  have grant: "alloc_ok grant" using assms(2) by (simp add: alloc_ok_def)
  obtain r where r: "inflate_loop grant i inp False = Some r" "round_ok inp r"
      "\<forall>i' rest b. r = Continue i' rest b \<longrightarrow> rest = []"
    using inflate_loop_ok [OF run grant, of False inp] by auto
  have ok: "inflater_ok i'" if "running_ok i'" for i' using that by (simp add: inflater_ok_def running_ok_def)
  have bad: "inflater_ok (i'\<lparr>ictx := ictx i'\<lparr>ctx_bad := True\<rparr>\<rparr>)" if "inflate_ctx_ok i'" for i'
    using that by (simp add: inflater_ok_def inflate_ctx_ok_def context_ok_def table_nvs_def table_entries_def)
  show ?thesis
    using r False ok bad
    by (cases r) (auto simp: nghttp2_hd_inflate_hd_nv_def inflate_fail_def running_ok_def split: if_splits)
qed

definition example_inflater :: inflater where
  "example_inflater = \<lparr>ictx = empty_context, huff_decode_ctx = 0, namebuf = nghttp2_buf_init,
     valuebuf = nghttp2_buf_wrap_init (replicate 3 0), namercbuf = None, valuercbuf = Some 3, inf_left = 2,
     hd_index = 1, settings_hd_table_bufsize_max = NGHTTP2_HD_DEFAULT_MAX_BUFFER_SIZE,
     min_table_bufsize_max = UINT32_MAX, hd_shift = 0, inf_opcode = OPCODE_INDNAME, inf_state = READ_VALUE,
     huffman_encoded = False, index_required = True, no_index = False\<rparr>"

lemma empty_context_simps:
  "hd_table_bufsize_max empty_context = 4096" "table_nvs empty_context = []" "ctx_bad empty_context = False"
  "get_max_index empty_context = 61"
  by (simp_all add: empty_context_def table_nvs_def empty_context_ok(2) [unfolded empty_context_def] get_max_index_def
      NGHTTP2_STATIC_TABLE_LENGTH_def)

lemma example_inflater_ok: "inflater_ok example_inflater"
  by (simp add: inflater_ok_def inflate_ctx_ok_def example_inflater_def empty_context_ok empty_context_simps
      name_ok_def filling_def buf_ok_def nghttp2_buf_wrap_init_def nghttp2_buf_avail_def max_text_eq
      NGHTTP2_HD_DEFAULT_MAX_BUFFER_SIZE_def)

text \<open>A value of which one byte comes first, and then the other and a broken field.\<close>
theorem inflate_safe_witness:
  "\<exists>r. nghttp2_hd_inflate_hd_nv (\<lambda>n. Some (replicate n 0)) example_inflater [0x47] False = Some r \<and>
    inflater_ok (ir_inflater r) \<and>
    (\<exists>r'. nghttp2_hd_inflate_hd_nv (\<lambda>n. Some (replicate n 0)) (ir_inflater r) [0x45, 0xff, 0xff] True = Some r' \<and>
       inflater_ok (ir_inflater r'))"
proof -
  note safe = inflate_safe [of _ "\<lambda>n. Some (replicate n 0)"]
  obtain r where r: "nghttp2_hd_inflate_hd_nv (\<lambda>n. Some (replicate n 0)) example_inflater [0x47] False = Some r"
      "inflater_ok (ir_inflater r)"
    using safe [OF example_inflater_ok, of "[0x47]" False] by auto
  then show ?thesis using safe [OF r(2), of "[0x45, 0xff, 0xff]" True] by auto
qed

end
