(* ===== verification/HdStrings.thy ===== *)
theory HdStrings
  imports HdDeflateOk HdInflateSafe
begin

text \<open>
  How the inflater reads what the deflater writes, piece by piece: integers, the first byte of a
  representation, and the strings of a literal, plain or in Huffman code.
\<close>

declare inflate_loop.simps [simp del]

section \<open>Integers\<close>

lemma read_len_encoded:
  assumes "inf_left i = 0" "hd_shift i = 0" "1 \<le> p" "p \<le> 7" "n < 2 ^ 32" "n \<le> m"
  shows "\<exists>s. hd_inflate_read_len i (encode_length b n p @ rest) p m =
    Inr (i\<lparr>inf_left := n, hd_shift := s\<rparr>, True, rest)"
  using encode_decode [OF assms(3-5), of b rest] assms by (auto simp: hd_inflate_read_len_def)

text \<open>The first byte keeps the bits above the prefix, and its prefix is zero only for zero.\<close>

lemma encode_first:
  assumes "p \<le> 7" "1 \<le> p"
  shows "\<exists>c tl. encode_length b n p = c # tl \<and> c AND NOT (mask p) = b AND NOT (mask p) \<and>
    (c AND mask p = 0 \<longrightarrow> n = 0)"
proof (cases "n < 2 ^ p - 1")
  case True
  then have n: "n < 2 ^ p" by simp
  have "(2 :: nat) ^ p \<le> 2 ^ 7" using assms by (intro power_increasing) auto
  then have un: "unat (of_nat n :: u8) = n" using n by (intro unat_small_u8) simp
  have "bit n k \<longrightarrow> k < p" for k
    using n take_bit_nat_eq_self [of n p] bit_take_bit_iff [of p n k] by auto
  then have "((b AND NOT (mask p)) OR of_nat n) AND NOT (mask p) = b AND NOT (mask p :: u8)"
    by (auto simp: bit_eq_iff bit_simps)
  then show ?thesis
    using un low_bits [OF n assms(1), of b] unfolding encode_length_short [OF True] by auto
next
  case False
  have "((b AND NOT (mask p)) OR mask p) AND mask p = (mask p :: u8)"
    "((b AND NOT (mask p)) OR mask p) AND NOT (mask p) = b AND NOT (mask p :: u8)"
    by (auto simp: bit_eq_iff bit_simps)
  moreover have "(2 :: nat) ^ 1 \<le> 2 ^ p" using assms(2) by (intro power_increasing) auto
  then have "mask p \<noteq> (0 :: u8)" using unat_prefix_mask [OF assms(1)] by (auto simp: word_unat_eq_iff)
  ultimately show ?thesis unfolding encode_length_long [OF False] by simp
qed

lemma and_and: "(c AND a) AND b = c AND (a AND (b :: u8))"
  by (simp add: and.assoc)

lemma high_masks:
  "NOT (mask 7) = (0x80 :: u8)" "NOT (mask 6) = (0xc0 :: u8)" "NOT (mask 5) = (0xe0 :: u8)" "NOT (mask 4) = (0xf0 :: u8)"
  by (simp_all add: mask_eq_exp_minus_1 word_uint_eq_iff)

text \<open>The opcode read from it.\<close>

lemma opcode_indexed:
  "c AND NOT (mask 7) = 0x80 \<Longrightarrow> c AND 0xe0 \<noteq> (0x20 :: u8) \<and> c AND 0x80 \<noteq> 0"
  using and_and [of c "0xe0" "0x80"] by (auto simp: high_masks)

lemma opcode_incremental:
  assumes "c AND NOT (mask 6) = 0x40"
  shows "c AND 0xe0 \<noteq> (0x20 :: u8)" "c AND 0x80 = 0" "c AND 0x40 \<noteq> 0" "c AND 0xf0 \<noteq> 0x10" "c \<noteq> 0" "c \<noteq> 0x10"
  using assms and_and [of c "0xe0" "0xc0"] and_and [of c "0xc0" "0x80"] and_and [of c "0xc0" "0x40"]
    and_and [of c "0xf0" "0xc0"]
  by (auto simp: high_masks)

lemma opcode_literal:
  assumes "c AND NOT (mask 4) = b" "b = 0 \<or> b = 0x10"
  shows "c AND 0xe0 \<noteq> (0x20 :: u8)" "c AND 0x80 = 0" "c AND 0x40 = 0" "c AND 0xf0 = b" "c \<noteq> 0x40"
  using assms and_and [of c "0xf0" "0xe0"] and_and [of c "0xf0" "0x80"] and_and [of c "0xf0" "0x40"]
  by (auto simp: high_masks)

section \<open>Strings\<close>

definition str_huff :: "bytes \<Rightarrow> bool" where
  "str_huff s \<longleftrightarrow> length (huff_enc s) < length s"

definition str_data :: "bytes \<Rightarrow> bytes" where
  "str_data s = (if str_huff s then huff_enc s else s)"

lemma str_bytes_split:
  "str_bytes s = encode_length (if str_huff s then 0x80 else 0) (length (str_data s)) 7 @ str_data s"
  by (simp add: str_bytes_def str_huff_def str_data_def)

lemma huff_enc_inj: "huff_enc a = huff_enc b \<Longrightarrow> a = b"
proof -
  assume eq: "huff_enc a = huff_enc b"
  obtain t where t: "feed huff_tree (bytes_bits (huff_enc b)) = Some (t, map unat a)"
    using feed_encoded [OF eq] by blast
  obtain u where "feed huff_tree (bytes_bits (huff_enc b)) = Some (u, map unat b)"
    using feed_encoded [OF refl] by blast
  then have "map unat a = map unat b" unfolding t by simp
  moreover have "inj (unat :: u8 \<Rightarrow> nat)" by (auto intro: injI dest: word_unat_eq_iff [THEN iffD2])
  ultimately show "a = b" by (simp add: inj_map_eq_map)
qed

lemma read_text_whole:
  assumes fill: "filling b (text_left (str_huff s) (length (str_data s)))" "buf_data b = []"
    and i: "inf_left i = length (str_data s)"
    and ctx: "str_huff s \<longrightarrow> huff_decode_ctx i = nghttp2_hd_huff_decode_context_init"
  shows "\<exists>fs b'. read_text (str_huff s) i b (str_data s @ rest) =
      Inr (i\<lparr>huff_decode_ctx := fs, inf_left := 0\<rparr>, b', rest) \<and> buf_data b' = s \<and> filling b' 0"
proof (cases "str_huff s")
  case False
  have left: "inf_left i = length s" using i False by (simp add: str_data_def)
  have "filling b (inf_left i)" using fill(1) i False by (simp add: text_left_def)
  from read_plain_ok [OF this, of "s @ rest"] obtain l b' where
    "hd_inflate_read i b (s @ rest) = Inr (i\<lparr>inf_left := l\<rparr>, b', drop (min (length (s @ rest)) (inf_left i)) (s @ rest))"
    "l = inf_left i - length (s @ rest)" "filling b' l" "buf_data b' = buf_data b @ take (inf_left i) (s @ rest)"
    by (elim exE conjE)
  then have "hd_inflate_read i b (s @ rest) = Inr (i\<lparr>inf_left := 0\<rparr>, b', rest)" "filling b' 0" "buf_data b' = s"
    using left fill(2) by simp_all
  then show ?thesis using False
    by (intro exI [of _ "huff_decode_ctx i"] exI [of _ b']) (simp add: read_text_def str_data_def)
next
  case True
  let ?enc = "huff_enc s"
  have b: "buf_ok b" "2 * length ?enc \<le> nghttp2_buf_avail b"
    using fill True by (auto simp: filling_def text_left_def str_data_def)
  obtain fs b' where d: "huff_decode_loop (huff_decode_ctx i) ?enc b = Inr (fs, b')"
      "decodes (Some huff_tree) (bytes_bits ?enc) (2 * length ?enc) b (fs, b')"
    using loop_decodes [OF context_init_at b] ctx True by auto
  obtain src where src: "fs AND NGHTTP2_HUFF_ACCEPTED \<noteq> 0" "huff_enc src = ?enc" "buf_data b' = buf_data b @ src"
    using decodes_final [OF d(2)] by blast
  have s: "src = s" by (rule huff_enc_inj [OF src(2)])
  have "fs \<noteq> 0x100" using src(1) by (auto simp: NGHTTP2_HUFF_ACCEPTED_def)
  have left: "inf_left i = length ?enc" using i True by (simp add: str_data_def)
  have "hd_inflate_read_huff i b (?enc @ rest) = Inr (i\<lparr>huff_decode_ctx := fs, inf_left := 0\<rparr>, b', rest)"
    using src(1) \<open>fs \<noteq> 0x100\<close> left d(1)
    by (simp add: hd_inflate_read_huff_def nghttp2_hd_huff_decode_def Let_def nghttp2_hd_huff_decode_failure_state_def)
  moreover have "filling b' 0"
    using decodes_avail [OF d(2), of 1] fill True d(2)
    by (auto simp: filling_def decodes_def text_left_def str_data_def)
  ultimately show ?thesis using True src(3) s fill(2)
    by (intro exI [of _ fs] exI [of _ b']) (simp add: read_text_def str_data_def)
qed

text \<open>What the reading of a string leaves of the inflater.\<close>

definition same_field :: "inflater \<Rightarrow> inflater \<Rightarrow> bool" where
  "same_field i i' \<longleftrightarrow> ictx i' = ictx i \<and> index_required i' = index_required i \<and> no_index i' = no_index i \<and>
     inf_opcode i' = inf_opcode i \<and> hd_index i' = hd_index i \<and>
     settings_hd_table_bufsize_max i' = settings_hd_table_bufsize_max i \<and>
     min_table_bufsize_max i' = min_table_bufsize_max i"

definition holds_text :: "buf \<Rightarrow> nat option \<Rightarrow> bytes \<Rightarrow> bool" where
  "holds_text b n s \<longleftrightarrow> n = Some (length s) \<and> length s \<le> length (mem b) \<and> take (length s) (mem b) = s \<and>
     length s \<le> max_text"

definition generous :: "(nat \<Rightarrow> bytes option) \<Rightarrow> bool" where
  "generous grant \<longleftrightarrow> (\<forall>n. \<exists>m. grant n = Some m \<and> length m = n)"

lemma generous_alloc: "generous grant \<Longrightarrow> alloc_ok grant"
  by (auto simp: generous_def alloc_ok_def) (metis option.inject)

text \<open>The strings an inflater accepts.\<close>

definition text_fits :: "bytes \<Rightarrow> bool" where
  "text_fits s \<longleftrightarrow> length (str_data s) \<le> NGHTTP2_HD_MAX_NV"

lemma new_text_generous:
  assumes "generous grant" "l \<le> NGHTTP2_HD_MAX_NV"
  obtains n b where "rcbuf_new grant (if huff then l * 2 + 1 else l + 1) = Inr (n, b)"
    "filling b (text_left huff l)" "buf_data b = []"
proof -
  have "rcbuf_new grant k \<noteq> Inl e" for k e
    using assms(1) [unfolded generous_def, rule_format, of "sizeof_rcbuf + k"] by (auto simp: rcbuf_new_def)
  then show thesis
    using new_text [OF generous_alloc [OF assms(1)] assms(2), of huff] that by (auto simp: text_left_def)
qed

lemma set_huffman_str:
  "\<exists>c. (c AND push_bit 7 1 \<noteq> (0 :: u8) \<longleftrightarrow> str_huff s) \<and>
    set_huffman i (str_bytes s @ rest) st = Inr (i\<lparr>inf_left := 0, hd_shift := 0, inf_state := st, huffman_encoded := str_huff s\<rparr>)"
proof -
  obtain c tl where c: "encode_length (if str_huff s then 0x80 else 0) (length (str_data s)) 7 = c # tl"
      "c AND NOT (mask 7) = (if str_huff s then 0x80 else 0) AND NOT (mask 7)"
    using encode_first [of 7 "if str_huff s then 0x80 else 0" "length (str_data s)"] by auto
  then have "c AND 0x80 = (if str_huff s then 0x80 else 0)" by (simp add: high_masks split: if_splits)
  then have "c AND push_bit 7 1 \<noteq> 0 \<longleftrightarrow> str_huff s" by (simp split: if_splits)
  then show ?thesis by (intro exI [of _ c]) (simp add: set_huffman_def str_bytes_split c(1))
qed

lemma read_len_str:
  assumes "text_fits s" "inf_left i = 0" "hd_shift i = 0"
  shows "\<exists>sh. hd_inflate_read_len i (str_bytes s @ rest) 7 NGHTTP2_HD_MAX_NV =
    Inr (i\<lparr>inf_left := length (str_data s), hd_shift := sh\<rparr>, True, str_data s @ rest)"
proof -
  have "length (str_data s) < 2 ^ 32" "length (str_data s) \<le> NGHTTP2_HD_MAX_NV"
    using assms(1) by (simp_all add: text_fits_def NGHTTP2_HD_MAX_NV_def)
  from read_len_encoded [OF assms(2,3) _ _ this, of 7 "if str_huff s then 0x80 else 0" "str_data s @ rest"]
  show ?thesis by (simp add: str_bytes_split)
qed

lemma terminate_text:
  assumes "filling b 0" "buf_data b = s"
  shows "\<exists>b'. terminate b = Inr (b', length s) \<and> holds_text b' (Some (length s)) s"
proof -
  have "nghttp2_buf_len b = length s"
    using assms by (auto simp: filling_def buf_ok_def buf_data_def nghttp2_buf_len_def)
  then show ?thesis using terminate_ok [OF assms(1)] assms(2) by (auto simp: holds_text_def)
qed

lemma loop_continue:
  assumes "inflate_step grant i inp = Some (Continue i' rest b)" "inp \<noteq> [] \<or> busy"
  shows "inflate_loop grant i inp busy = inflate_loop grant i' rest b"
  using assms by (subst inflate_loop.simps) simp

lemma loop_emit:
  assumes "inflate_step grant i inp = Some (Emitted i' rest nv)" "inp \<noteq> [] \<or> busy"
  shows "inflate_loop grant i inp busy = Some (Emitted i' rest nv)"
  using assms by (subst inflate_loop.simps) simp

lemma str_bytes_nonempty [simp]: "str_bytes s \<noteq> []"
  using encode_first [of 7 "if str_huff s then 0x80 else 0" "length (str_data s)"] by (auto simp: str_bytes_split)

text \<open>The name of a literal.\<close>

lemma loop_name:
  assumes g: "generous grant" and s: "text_fits s" and i: "inf_state i = NEWNAME_CHECK_NAMELEN" and rest: "rest \<noteq> []"
  shows "\<exists>i'. inflate_loop grant i (str_bytes s @ rest) busy = inflate_loop grant i' rest False \<and> same_field i i' \<and>
    inf_state i' = CHECK_VALUELEN \<and> holds_text (namebuf i') (namercbuf i') s"
proof -
  let ?i0 = "i\<lparr>inf_left := 0, hd_shift := 0, inf_state := NEWNAME_READ_NAMELEN, huffman_encoded := str_huff s\<rparr>"
  obtain sh where len: "hd_inflate_read_len ?i0 (str_bytes s @ rest) 7 NGHTTP2_HD_MAX_NV =
      Inr (?i0\<lparr>inf_left := length (str_data s), hd_shift := sh\<rparr>, True, str_data s @ rest)"
    using read_len_str [OF s, of ?i0 rest] by auto
  obtain n b where new: "rcbuf_new grant (if str_huff s then length (str_data s) * 2 + 1 else length (str_data s) + 1) = Inr (n, b)"
      "filling b (text_left (str_huff s) (length (str_data s)))" "buf_data b = []"
    using new_text_generous [OF g s [unfolded text_fits_def]] by blast
  let ?i1 = "i\<lparr>inf_left := length (str_data s), hd_shift := sh, huffman_encoded := str_huff s,
    huff_decode_ctx := (if str_huff s then nghttp2_hd_huff_decode_context_init else huff_decode_ctx i),
    namebuf := b, namercbuf := Some n, inf_state := (if str_huff s then NEWNAME_READ_NAMEHUFF else NEWNAME_READ_NAME)\<rparr>"
  have "step_read_namelen grant ?i0 (str_bytes s @ rest) = Continue ?i1 (str_data s @ rest) False"
    using len new(1) by (cases "str_huff s") (simp_all add: step_read_namelen_def failing_def)
  then have 1: "inflate_step grant i (str_bytes s @ rest) = Some (Continue ?i1 (str_data s @ rest) False)"
    using set_huffman_str [of s i rest NEWNAME_READ_NAMELEN] i by (auto simp: inflate_step_def failing_def)
  obtain fs b' where rd: "read_text (str_huff s) ?i1 b (str_data s @ rest) =
      Inr (?i1\<lparr>huff_decode_ctx := fs, inf_left := 0\<rparr>, b', rest)" "buf_data b' = s" "filling b' 0"
    using read_text_whole [OF new(2,3), of ?i1 rest] by auto
  obtain b2 where t: "terminate b' = Inr (b2, length s)" "holds_text b2 (Some (length s)) s"
    using terminate_text [OF rd(3,2)] by blast
  let ?i2 = "?i1\<lparr>huff_decode_ctx := fs, inf_left := 0, namebuf := b2, namercbuf := Some (length s), inf_state := CHECK_VALUELEN\<rparr>"
  have "step_read_name ?i1 (str_data s @ rest) (str_huff s) = Continue ?i2 rest False"
    using rd(1) t(1) by (simp add: step_read_name_def read_text_def failing_def Let_def)
  then have 2: "inflate_step grant ?i1 (str_data s @ rest) = Some (Continue ?i2 rest False)"
    by (cases "str_huff s") (simp_all add: inflate_step_def)
  have "inflate_loop grant i (str_bytes s @ rest) busy = inflate_loop grant ?i2 rest False"
    using loop_continue [OF 1] loop_continue [OF 2] rest by simp
  then show ?thesis using t(2) by (intro exI [of _ ?i2]) (simp add: same_field_def)
qed

text \<open>The value, and the commit of the field.\<close>

lemma loop_value:
  assumes g: "generous grant" and s: "text_fits s" and i: "inf_state i = CHECK_VALUELEN"
    and commit: "\<And>i'. same_field i i' \<Longrightarrow> namebuf i' = namebuf i \<Longrightarrow> namercbuf i' = namercbuf i \<Longrightarrow>
      holds_text (valuebuf i') (valuercbuf i') s \<Longrightarrow>
      \<exists>i''. (if inf_opcode i' = OPCODE_NEWNAME then hd_inflate_commit_newname grant i'
            else hd_inflate_commit_indname grant i') = Some (i'', Inr nv) \<and> P (i''\<lparr>inf_state := STATE_OPCODE\<rparr>)"
  shows "\<exists>i''. inflate_loop grant i (str_bytes s @ rest) busy = Some (Emitted i'' rest nv) \<and> P i'' \<and> inf_state i'' = STATE_OPCODE"
proof -
  let ?i0 = "i\<lparr>inf_left := 0, hd_shift := 0, inf_state := READ_VALUELEN, huffman_encoded := str_huff s\<rparr>"
  obtain sh where len: "hd_inflate_read_len ?i0 (str_bytes s @ rest) 7 NGHTTP2_HD_MAX_NV =
      Inr (?i0\<lparr>inf_left := length (str_data s), hd_shift := sh\<rparr>, True, str_data s @ rest)"
    using read_len_str [OF s, of ?i0 rest] by auto
  obtain n b where new: "rcbuf_new grant (if str_huff s then length (str_data s) * 2 + 1 else length (str_data s) + 1) = Inr (n, b)"
      "filling b (text_left (str_huff s) (length (str_data s)))" "buf_data b = []"
    using new_text_generous [OF g s [unfolded text_fits_def]] by blast
  let ?i1 = "i\<lparr>inf_left := length (str_data s), hd_shift := sh, huffman_encoded := str_huff s,
    huff_decode_ctx := (if str_huff s then nghttp2_hd_huff_decode_context_init else huff_decode_ctx i),
    valuebuf := b, valuercbuf := Some n, inf_state := (if str_huff s then READ_VALUEHUFF else READ_VALUE)\<rparr>"
  have "step_read_valuelen grant ?i0 (str_bytes s @ rest) = Continue ?i1 (str_data s @ rest) True"
    using len new(1) by (cases "str_huff s") (simp_all add: step_read_valuelen_def failing_def)
  then have 1: "inflate_step grant i (str_bytes s @ rest) = Some (Continue ?i1 (str_data s @ rest) True)"
    using set_huffman_str [of s i rest READ_VALUELEN] i by (auto simp: inflate_step_def failing_def)
  obtain fs b' where rd: "read_text (str_huff s) ?i1 b (str_data s @ rest) =
      Inr (?i1\<lparr>huff_decode_ctx := fs, inf_left := 0\<rparr>, b', rest)" "buf_data b' = s" "filling b' 0"
    using read_text_whole [OF new(2,3), of ?i1 rest] by auto
  obtain b2 where t: "terminate b' = Inr (b2, length s)" "holds_text b2 (Some (length s)) s"
    using terminate_text [OF rd(3,2)] by blast
  let ?i2 = "?i1\<lparr>huff_decode_ctx := fs, inf_left := 0, valuebuf := b2, valuercbuf := Some (length s)\<rparr>"
  obtain i'' where c: "(if inf_opcode ?i2 = OPCODE_NEWNAME then hd_inflate_commit_newname grant ?i2
      else hd_inflate_commit_indname grant ?i2) = Some (i'', Inr nv)" "P (i''\<lparr>inf_state := STATE_OPCODE\<rparr>)"
    using commit [of ?i2] t(2) by (auto simp: same_field_def)
  have "step_read_value grant ?i1 (str_data s @ rest) (str_huff s) =
      map_option (\<lambda>(i, r). failing i r (\<lambda>nv. Emitted (i\<lparr>inf_state := STATE_OPCODE\<rparr>) rest nv))
        (if inf_opcode ?i2 = OPCODE_NEWNAME then hd_inflate_commit_newname grant ?i2
         else hd_inflate_commit_indname grant ?i2)"
    using rd(1) t(1) by (simp add: step_read_value_def read_text_def Let_def)
  then have "step_read_value grant ?i1 (str_data s @ rest) (str_huff s) =
      Some (Emitted (i''\<lparr>inf_state := STATE_OPCODE\<rparr>) rest nv)"
    unfolding c(1) by (simp add: failing_def)
  then have 2: "inflate_step grant ?i1 (str_data s @ rest) = Some (Emitted (i''\<lparr>inf_state := STATE_OPCODE\<rparr>) rest nv)"
    by (cases "str_huff s") (simp_all add: inflate_step_def)
  have "inflate_loop grant i (str_bytes s @ rest) busy = Some (Emitted (i''\<lparr>inf_state := STATE_OPCODE\<rparr>) rest nv)"
    using loop_continue [OF 1] loop_emit [OF 2] by simp
  then show ?thesis using c(2) by auto
qed

end
