(* ===== verification/HpackRound.thy ===== *)
theory HpackRound
  imports HdStrings
begin

text \<open>
  The round trip of HPACK: a header block written by the deflater, read by the inflater, gives the
  fields back, and leaves both ends with the same dynamic table, block after block and through
  changes of the table size.
\<close>

section \<open>Two ends in step\<close>

definition between_fields :: "inflater \<Rightarrow> bool" where
  "between_fields i \<longleftrightarrow> inf_state i = INFLATE_START \<or> inf_state i = STATE_OPCODE"

definition in_step :: "deflater \<Rightarrow> inflater \<Rightarrow> bool" where
  "in_step d i \<longleftrightarrow> deflater_ok d \<and> inflate_ctx_ok i \<and> \<not> ctx_bad (ictx i) \<and> between_fields i \<and>
     table_nvs (ictx i) = table_nvs (dctx d) \<and>
     hd_table_bufsize_max (ictx i) = hd_table_bufsize_max (dctx d)"

text \<open>The field emitted for one that was deflated.\<close>

definition nv_field :: "deflater \<Rightarrow> nghttp2_nv \<Rightarrow> hd_nv" where
  "nv_field d nv = (stored_nv nv)\<lparr>nv_flags :=
     (if nv_mode d nv = NEVER_INDEXING then NGHTTP2_NV_FLAG_NO_INDEX else NGHTTP2_NV_FLAG_NONE)\<rparr>"

text \<open>What the inflater has after the field.\<close>

definition received :: "inflater \<Rightarrow> hd_nv list \<Rightarrow> inflater \<Rightarrow> bool" where
  "received i nvs i' \<longleftrightarrow> inflate_ctx_ok i' \<and> ctx_bad (ictx i') = ctx_bad (ictx i) \<and> inf_state i' = STATE_OPCODE \<and>
     table_nvs (ictx i') = nvs \<and> hd_table_bufsize_max (ictx i') = hd_table_bufsize_max (ictx i) \<and>
     min_table_bufsize_max i' = min_table_bufsize_max i \<and>
     settings_hd_table_bufsize_max i' = settings_hd_table_bufsize_max i"

lemma in_step_field:
  assumes "in_step d i" "idx < get_max_index (dctx d)"
  shows "idx < get_max_index (ictx i)" "table_field (ictx i) idx = table_field (dctx d) idx"
proof -
  have "length (table_nvs (ictx i)) = length (table_nvs (dctx d))" using assms(1) by (simp add: in_step_def)
  then show "idx < get_max_index (ictx i)" using assms(2) by (simp add: get_max_index_eq)
  show "table_field (ictx i) idx = table_field (dctx d) idx" using assms(1) by (simp add: in_step_def table_field_def)
qed

lemma field_of_table:
  assumes d: "deflater_ok d" and i: "sr_index (nv_found d nv) \<noteq> - 1"
  shows "nv_name (table_field (dctx d) (nat (sr_index (nv_found d nv)))) = nva_name nv"
    "nv_token (table_field (dctx d) (nat (sr_index (nv_found d nv)))) = lookup_token (nva_name nv)"
    "nv_flags (table_field (dctx d) (nat (sr_index (nv_found d nv)))) = NGHTTP2_NV_FLAG_NONE"
proof -
  let ?k = "nat (sr_index (nv_found d nv))"
  show name: "nv_name (table_field (dctx d) ?k) = nva_name nv"
    using nv_found_ok [OF d, of nv] i by (simp add: found_field_def)
  have "nv_token (table_field (dctx d) ?k) = lookup_token (nv_name (table_field (dctx d) ?k)) \<and>
      nv_flags (table_field (dctx d) ?k) = NGHTTP2_NV_FLAG_NONE"
  proof (cases "?k < 61")
    case True
    then show ?thesis using static_token [OF True] by (simp add: table_field_def)
  next
    case False
    then have "?k - 61 < length (table_entries (dctx d))"
      using found_index(1) [OF d i] by (auto simp: get_max_index_eq table_nvs_def)
    then show ?thesis using d False by (auto simp: table_field_def table_nvs_def deflater_ok_def entry_ok_def)
  qed
  then show "nv_token (table_field (dctx d) ?k) = lookup_token (nva_name nv)"
    "nv_flags (table_field (dctx d) ?k) = NGHTTP2_NV_FLAG_NONE" using name by simp_all
qed

section \<open>One field\<close>

text \<open>The first byte of a representation, and the index that follows it.\<close>

lemma loop_opcode:
  assumes "between_fields i" "step_opcode i inp = Continue i' rest False" "inp \<noteq> []"
  shows "inflate_loop grant i inp busy = inflate_loop grant i' rest False"
proof -
  have "inflate_step grant i inp = Some (Continue i' rest False)"
    using assms(1,2) by (auto simp: inflate_step_def between_fields_def)
  from loop_continue [OF this] assms(3) show ?thesis by simp
qed

lemma loop_read_index:
  assumes i: "inf_state i = READ_INDEX" "inf_left i = 0" "hd_shift i = 0" "inflate_ctx_ok i" "idx < get_max_index (ictx i)"
    and p: "p = (if inf_opcode i = OPCODE_INDEXED then 7 else if index_required i then 6 else 4)"
  shows "\<exists>sh. inflate_loop grant i (encode_length b (idx + 1) p @ rest) busy =
    (if inf_opcode i = OPCODE_INDEXED
     then Some (Emitted (i\<lparr>inf_left := idx + 1, hd_shift := sh, hd_index := idx, inf_state := STATE_OPCODE\<rparr>) rest
            (table_field (ictx i) idx))
     else inflate_loop grant (i\<lparr>inf_left := idx + 1, hd_shift := sh, hd_index := idx, inf_state := CHECK_VALUELEN\<rparr>) rest False)"
proof -
  let ?inp = "encode_length b (idx + 1) p @ rest"
  have p7: "1 \<le> p" "p \<le> 7" using p by auto
  have ne: "?inp \<noteq> []" using encode_first [OF p7(2,1), of b "idx + 1"] by auto
  have "32 * length (table_nvs (ictx i)) < 2 ^ 31"
    using table_size_length [of "table_nvs (ictx i)"] i(4) by (simp add: inflate_ctx_ok_def context_ok_def)
  then have n: "idx + 1 < 2 ^ 32" "idx + 1 \<le> get_max_index (ictx i)" using i(5) by (simp_all add: get_max_index_eq)
  obtain sh where rd: "hd_inflate_read_len i ?inp p (get_max_index (ictx i)) =
      Inr (i\<lparr>inf_left := idx + 1, hd_shift := sh\<rparr>, True, rest)"
    using read_len_encoded [OF i(2,3) p7 n, of b rest] by blast
  have get: "nghttp2_hd_table_get (ictx i) idx = Inr (table_field (ictx i) idx)"
    using hd_table_get_ok i(4,5) by (simp add: inflate_ctx_ok_def)
  let ?i = "i\<lparr>inf_left := idx + 1, hd_shift := sh, hd_index := idx\<rparr>"
  have step: "inflate_step grant i ?inp = Some (if inf_opcode i = OPCODE_INDEXED
      then Emitted (?i\<lparr>inf_state := STATE_OPCODE\<rparr>) rest (table_field (ictx i) idx)
      else Continue (?i\<lparr>inf_state := CHECK_VALUELEN\<rparr>) rest False)"
    using rd get i(1) unfolding p
    by (simp add: inflate_step_def step_read_index_def Let_def failing_def hd_inflate_commit_indexed_def)
  show ?thesis
  proof (cases "inf_opcode i = OPCODE_INDEXED")
    case True
    then show ?thesis using loop_emit [of grant i ?inp _ rest] step ne by (intro exI [of _ sh]) simp
  next
    case False
    then show ?thesis using loop_continue [of grant i ?inp _ rest False] step ne by (intro exI [of _ sh]) simp
  qed
qed

lemma loop_indexed:
  assumes i: "between_fields i" "inflate_ctx_ok i" "idx < get_max_index (ictx i)"
  shows "\<exists>i'. inflate_loop grant i (encode_length 0x80 (idx + 1) 7 @ rest) busy =
    Some (Emitted i' rest (table_field (ictx i) idx)) \<and> received i (table_nvs (ictx i)) i'"
proof -
  obtain c tl where c: "encode_length 0x80 (idx + 1) 7 = c # tl" "c AND NOT (mask 7) = 0x80"
    using encode_first [of 7 "0x80" "idx + 1"] by (auto simp: high_masks)
  let ?i = "i\<lparr>inf_left := 0, hd_shift := 0, inf_opcode := OPCODE_INDEXED, inf_state := READ_INDEX\<rparr>"
  have "step_opcode i ((c # tl) @ rest) = Continue ?i ((c # tl) @ rest) False"
    using opcode_indexed [OF c(2)] by (simp add: step_opcode_def)
  from loop_opcode [OF i(1) this, of grant busy] show ?thesis
    using loop_read_index [of ?i idx 7 grant "0x80" rest False] i unfolding c(1)
    by (auto simp: received_def)
qed

text \<open>A literal whose name is in a table.\<close>

definition literal_state :: "inflater \<Rightarrow> hd_opcode \<Rightarrow> indexing_mode \<Rightarrow> inflater \<Rightarrow> bool" where
  "literal_state i op mode i' \<longleftrightarrow> ictx i' = ictx i \<and> inf_opcode i' = op \<and>
     index_required i' = (mode = WITH_INDEXING) \<and> no_index i' = (mode = NEVER_INDEXING) \<and>
     settings_hd_table_bufsize_max i' = settings_hd_table_bufsize_max i \<and>
     min_table_bufsize_max i' = min_table_bufsize_max i"

lemma opcode_indname:
  assumes "c AND NOT (mask p) = pack_first_byte mode" "p = (if mode = WITH_INDEXING then 6 else 4)"
    "c AND mask p \<noteq> 0"
  shows "step_opcode i (c # rest) = Continue (i\<lparr>inf_left := 0, hd_shift := 0, inf_opcode := OPCODE_INDNAME,
    index_required := (mode = WITH_INDEXING), no_index := (mode = NEVER_INDEXING), inf_state := READ_INDEX\<rparr>) (c # rest) False"
proof (cases "mode = WITH_INDEXING")
  case True
  then have c: "c AND NOT (mask 6) = 0x40" "c AND mask 6 \<noteq> 0" using assms by (simp_all add: pack_first_byte_def)
  then have "c \<noteq> 0x40" by (auto simp: mask_eq_exp_minus_1)
  then show ?thesis using opcode_incremental [OF c(1)] True by (simp add: step_opcode_def Let_def)
next
  case False
  then have c: "c AND NOT (mask 4) = pack_first_byte mode" "c AND mask 4 \<noteq> 0" using assms by simp_all
  then have "c \<noteq> 0" "c \<noteq> 0x10" by (auto simp: mask_eq_exp_minus_1)
  moreover have "pack_first_byte mode = 0 \<or> pack_first_byte mode = 0x10" using False by (cases mode) (auto simp: pack_first_byte_def)
  ultimately show ?thesis
    using opcode_literal [OF c(1)] False by (cases mode) (auto simp: step_opcode_def Let_def pack_first_byte_def)
qed

lemma loop_indname:
  assumes i: "between_fields i" "inflate_ctx_ok i" "idx < get_max_index (ictx i)"
  shows "\<exists>i'. inflate_loop grant i (encode_length (pack_first_byte mode) (idx + 1)
      (if mode = WITH_INDEXING then 6 else 4) @ rest) busy = inflate_loop grant i' rest False \<and>
    literal_state i OPCODE_INDNAME mode i' \<and> hd_index i' = idx \<and> inf_state i' = CHECK_VALUELEN"
proof -
  let ?p = "if mode = WITH_INDEXING then 6 else 4 :: nat"
  have p: "1 \<le> ?p" "?p \<le> 7" by simp_all
  have high: "pack_first_byte mode AND NOT (mask ?p) = pack_first_byte mode"
    by (cases mode) (simp_all add: pack_first_byte_def high_masks)
  obtain c tl where c: "encode_length (pack_first_byte mode) (idx + 1) ?p = c # tl"
      "c AND NOT (mask ?p) = pack_first_byte mode" "c AND mask ?p \<noteq> 0"
    using encode_first [OF p(2,1), of "pack_first_byte mode" "idx + 1"] unfolding high by auto
  let ?i = "i\<lparr>inf_left := 0, hd_shift := 0, inf_opcode := OPCODE_INDNAME,
    index_required := (mode = WITH_INDEXING), no_index := (mode = NEVER_INDEXING), inf_state := READ_INDEX\<rparr>"
  have "step_opcode i ((c # tl) @ rest) = Continue ?i ((c # tl) @ rest) False"
    using opcode_indname [OF c(2) refl c(3), of i "tl @ rest"] by simp
  then have loop: "inflate_loop grant i ((c # tl) @ rest) busy = inflate_loop grant ?i ((c # tl) @ rest) False"
    using loop_opcode [OF i(1)] by simp
  obtain sh where "inflate_loop grant ?i ((c # tl) @ rest) False =
      inflate_loop grant (?i\<lparr>inf_left := idx + 1, hd_shift := sh, hd_index := idx, inf_state := CHECK_VALUELEN\<rparr>) rest False"
    using loop_read_index [of ?i idx ?p grant "pack_first_byte mode" rest False] i unfolding c(1) by auto
  then show ?thesis unfolding c(1) loop by (auto simp: literal_state_def)
qed

lemma loop_newname:
  assumes i: "between_fields i" and g: "generous grant" and s: "text_fits name" and rest: "rest \<noteq> []"
  shows "\<exists>i'. inflate_loop grant i ((pack_first_byte mode # str_bytes name) @ rest) busy = inflate_loop grant i' rest False \<and>
    literal_state i OPCODE_NEWNAME mode i' \<and> holds_text (namebuf i') (namercbuf i') name \<and> inf_state i' = CHECK_VALUELEN"
proof -
  let ?i = "i\<lparr>inf_left := 0, hd_shift := 0, inf_opcode := OPCODE_NEWNAME,
    index_required := (mode = WITH_INDEXING), no_index := (mode = NEVER_INDEXING), inf_state := NEWNAME_CHECK_NAMELEN\<rparr>"
  have "step_opcode i ((pack_first_byte mode # str_bytes name) @ rest) = Continue ?i (str_bytes name @ rest) False"
    by (cases mode) (simp_all add: step_opcode_def pack_first_byte_def Let_def)
  then have loop: "inflate_loop grant i ((pack_first_byte mode # str_bytes name) @ rest) busy =
      inflate_loop grant ?i (str_bytes name @ rest) False"
    using loop_opcode [OF i] by simp
  obtain i' where "inflate_loop grant ?i (str_bytes name @ rest) False = inflate_loop grant i' rest False" "same_field ?i i'"
      "inf_state i' = CHECK_VALUELEN" "holds_text (namebuf i') (namercbuf i') name"
    using loop_name [OF g s _ rest, of ?i False] by auto
  then show ?thesis unfolding loop by (intro exI [of _ i']) (simp add: same_field_def literal_state_def)
qed

section \<open>Committing with enough memory\<close>

text \<open>No error code but for lack of memory.\<close>

definition no_code :: "'a res \<Rightarrow> bool" where
  "no_code r \<longleftrightarrow> (\<forall>e. r \<noteq> Inl (Code e))"

lemma no_code_rbind: "no_code r \<Longrightarrow> (\<And>x. r = Inr x \<Longrightarrow> no_code (f x)) \<Longrightarrow> no_code (rbind r f)"
  by (cases r) (auto simp: no_code_def)

lemma no_code_simps [simp]:
  "no_code (Inr a)" "no_code (Inl Undefined)" "no_code (assert_that b)" "no_code (of_option c)"
  by (auto simp: no_code_def assert_that_def of_option_def split: option.splits)

lemma ring_get_no_code: "no_code (hd_ringbuf_get rb i)"
  unfolding hd_ringbuf_get_def Let_def by (intro no_code_rbind) simp_all

lemma ring_copy_no_code: "no_code (ring_copy rb i n b)"
  by (induction rb i n b rule: ring_copy.induct) (auto intro!: no_code_rbind ring_get_no_code)

lemma ring_pop_no_code: "no_code (hd_ringbuf_pop_back rb)"
  unfolding hd_ringbuf_pop_back_def by (intro no_code_rbind) simp_all

lemma evict_no_code: "no_code (hd_evict need ctx hm)"
proof (induction need ctx hm rule: hd_evict.induct)
  case (1 need ctx hm)
  then show ?case
    using ring_get_no_code [of "hd_table ctx" "rb_len (hd_table ctx) - 1"] ring_pop_no_code [of "hd_table ctx"]
    by (subst hd_evict.simps) (auto simp: no_code_def split: sum.splits)
qed

lemma push_front_granted: "hd_ringbuf_push_front (\<lambda>n. True) rb ent = Some r \<Longrightarrow> no_code r"
  by (auto simp: hd_ringbuf_push_front_def hd_ringbuf_reserve_def ring_alloc_def Let_def
      intro!: no_code_rbind ring_copy_no_code split: if_splits)

lemma push_front_no_code: "hd_ringbuf_push_front (\<lambda>n. True) rb ent \<noteq> Some (Inl (Code e))"
  using push_front_granted [of rb ent "Inl (Code e)"] by (auto simp: no_code_def)

lemma add_granted:
  "add_hd_table_incremental (\<lambda>n. True) ctx nv hm h = Some (ctx', hm', r) \<Longrightarrow> no_code r"
  using evict_no_code [of "entry_room (length (nv_name nv)) (length (nv_value nv))" ctx hm]
  by (auto simp: add_hd_table_incremental_def Let_def no_code_def push_front_no_code
      split: sum.splits option.splits if_splits)

lemma commit_granted:
  assumes "generous grant"
  shows "commit_store grant i nv \<noteq> Some (i', Inl (Code e))"
proof -
  have "grant n \<noteq> None" for n using assms [unfolded generous_def, rule_format, of n] by auto
  then have "(\<lambda>n. grant n \<noteq> None) = (\<lambda>n. True)" by (intro ext) simp
  then show ?thesis
    using add_granted [of "ictx i" nv None 0] by (fastforce simp: commit_store_def no_code_def split: if_splits)
qed

lemma rcbuf_bytes_no_code: "no_code (rcbuf_bytes b n)"
  unfolding rcbuf_bytes_def by (intro no_code_rbind) simp_all

lemma commit_newname_granted:
  assumes "generous grant"
  shows "hd_inflate_commit_newname grant i \<noteq> Some (i', Inl (Code e))"
proof -
  have "no_code (rbind (rcbuf_bytes (namebuf i) (namercbuf i)) (\<lambda>n.
      rbind (rcbuf_bytes (valuebuf i) (valuercbuf i)) (\<lambda>v. Inr (n, v))))"
    by (intro no_code_rbind rcbuf_bytes_no_code) simp
  then show ?thesis
    using commit_granted [OF assms]
    by (auto simp: hd_inflate_commit_newname_def no_code_def Let_def split: sum.splits)
qed

lemma commit_indname_granted:
  assumes "generous grant" "inflate_ctx_ok i" "hd_index i < get_max_index (ictx i)"
  shows "hd_inflate_commit_indname grant i \<noteq> Some (i', Inl (Code e))"
proof -
  have "nghttp2_hd_table_get (ictx i) (hd_index i) = Inr (table_field (ictx i) (hd_index i))"
    using hd_table_get_ok assms(2,3) by (simp add: inflate_ctx_ok_def)
  then have "no_code (rbind (nghttp2_hd_table_get (ictx i) (hd_index i)) (\<lambda>n.
      rbind (rcbuf_bytes (valuebuf i) (valuercbuf i)) (\<lambda>v. Inr (n, v))))"
    by (intro no_code_rbind rcbuf_bytes_no_code) simp_all
  then show ?thesis
    using commit_granted [OF assms(1)]
    by (auto simp: hd_inflate_commit_indname_def no_code_def Let_def split: sum.splits fault.splits)
qed

text \<open>A commit in the states the literals lead to.\<close>

lemma commits_received:
  assumes c: "commits i' nv out" "\<And>i'' e. out \<noteq> Some (i'', Inl (Code e))"
    and i: "ictx i' = ictx i" "settings_hd_table_bufsize_max i' = settings_hd_table_bufsize_max i"
      "min_table_bufsize_max i' = min_table_bufsize_max i"
    and nvs: "nvs = (if index_required i' then rfc_insert (unat (hd_table_bufsize_max (ictx i))) nv (table_nvs (ictx i))
      else table_nvs (ictx i))"
  shows "\<exists>i''. out = Some (i'', Inr nv) \<and> received i nvs (i''\<lparr>inf_state := STATE_OPCODE\<rparr>)"
  using assms by (auto simp: commits_def received_def)

section \<open>Field by field\<close>

definition nv_fits :: "nghttp2_nv \<Rightarrow> bool" where
  "nv_fits nv \<longleftrightarrow> text_fits (nva_name nv) \<and> text_fits (nva_value nv)"

lemma nv_table_in_step:
  assumes "in_step d i" "\<not> sr_match (nv_found d nv)"
  shows "nv_table d nv = (if nv_mode d nv = WITH_INDEXING
    then rfc_insert (unat (hd_table_bufsize_max (ictx i))) (nv_field d nv) (table_nvs (ictx i)) else table_nvs (ictx i))"
  using assms by (auto simp: nv_table_def in_step_def nv_field_def stored_nv_def)

lemma literal_flags: "literal_state i op mode i' \<Longrightarrow> same_field i' i'' \<Longrightarrow>
    commit_flags i'' = (if mode = NEVER_INDEXING then NGHTTP2_NV_FLAG_NO_INDEX else NGHTTP2_NV_FLAG_NONE)"
  by (simp add: literal_state_def same_field_def commit_flags_def)

lemma field_roundtrip:
  assumes step: "in_step d i" and g: "generous grant" and fits: "nv_fits nv"
  shows "\<exists>i'. inflate_loop grant i (nv_bytes d nv @ rest) False = Some (Emitted i' rest (nv_field d nv)) \<and>
    received i (nv_table d nv) i'"
proof -
  let ?r = "nv_found d nv" and ?mode = "nv_mode d nv"
  let ?k = "nat (sr_index ?r)"
  have d: "deflater_ok d" and ctx: "inflate_ctx_ok i" and at: "between_fields i" using step by (auto simp: in_step_def)
  have name: "text_fits (nva_name nv)" and val: "text_fits (nva_value nv)" using fits by (auto simp: nv_fits_def)
  note found = nv_found_ok [OF d, of nv]
  consider (indexed) "sr_match ?r" "sr_index ?r \<noteq> - 1" | (new) "\<not> sr_match ?r" "sr_index ?r = - 1"
    | (ind) "\<not> sr_match ?r" "sr_index ?r \<noteq> - 1"
    using found by (cases "sr_index ?r = - 1") (auto simp: found_field_def)
  then show ?thesis
  proof cases
    case indexed
    note k = in_step_field [OF step found_index(1) [OF d indexed(2)]]
    have "nv_value (table_field (dctx d) ?k) = nva_value nv" "?mode \<noteq> NEVER_INDEXING"
      using found indexed by (auto simp: found_field_def)
    then have "table_field (ictx i) ?k = nv_field d nv"
      using field_of_table [OF d indexed(2)] unfolding k(2) by (intro hd_nv.equality) (simp_all add: nv_field_def stored_nv_def)
    moreover have "nv_table d nv = table_nvs (ictx i)" using indexed(1) step by (simp add: nv_table_def in_step_def)
    ultimately show ?thesis
      using loop_indexed [OF at ctx k(1), of grant rest False] indexed(1) by (simp add: nv_bytes_def Let_def)
  next
    case new
    obtain i1 where i1: "inflate_loop grant i ((pack_first_byte ?mode # str_bytes (nva_name nv)) @ str_bytes (nva_value nv) @ rest) False =
          inflate_loop grant i1 (str_bytes (nva_value nv) @ rest) False"
        "literal_state i OPCODE_NEWNAME ?mode i1" "holds_text (namebuf i1) (namercbuf i1) (nva_name nv)" "inf_state i1 = CHECK_VALUELEN"
      using loop_newname [OF at g name, of "str_bytes (nva_value nv) @ rest" ?mode False] by auto
    have "\<exists>i''. (if inf_opcode i' = OPCODE_NEWNAME then hd_inflate_commit_newname grant i'
            else hd_inflate_commit_indname grant i') = Some (i'', Inr (nv_field d nv)) \<and>
          received i (nv_table d nv) (i''\<lparr>inf_state := STATE_OPCODE\<rparr>)"
      if i': "same_field i1 i'" "namebuf i' = namebuf i1" "namercbuf i' = namercbuf i1"
        "holds_text (valuebuf i') (valuercbuf i') (nva_value nv)" for i'
    proof -
      have eq: "ictx i' = ictx i" "inf_opcode i' = OPCODE_NEWNAME" "index_required i' = (?mode = WITH_INDEXING)"
          "settings_hd_table_bufsize_max i' = settings_hd_table_bufsize_max i" "min_table_bufsize_max i' = min_table_bufsize_max i"
        using i'(1) i1(2) by (simp_all add: same_field_def literal_state_def)
      have "inflate_ctx_ok i'" using ctx eq by (simp add: inflate_ctx_ok_def)
      moreover have "value_ok i'" using i'(4) by (auto simp: value_ok_def holds_text_def)
      moreover have "nv_field d nv = \<lparr>nv_name = take (length (nva_name nv)) (mem (namebuf i')),
          nv_value = take (length (nva_value nv)) (mem (valuebuf i')),
          nv_token = lookup_token (take (length (nva_name nv)) (mem (namebuf i'))), nv_flags = commit_flags i'\<rparr>"
        using i1(3) i'(2,4) literal_flags [OF i1(2) i'(1)] by (simp add: holds_text_def nv_field_def stored_nv_def)
      ultimately have "commits i' (nv_field d nv) (hd_inflate_commit_newname grant i')"
        using i1(3) i' by (intro commit_newname_ok) (auto simp: holds_text_def)
      from commits_received [OF this commit_newname_granted [OF g] eq(1,4,5) nv_table_in_step [OF step new(1), folded eq(3)]]
      show ?thesis by (simp only: eq(2) if_True simp_thms)
    qed
    from loop_value [OF g val i1(4), where P = "received i (nv_table d nv)", OF this]
    obtain i2 where "inflate_loop grant i1 (str_bytes (nva_value nv) @ rest) False = Some (Emitted i2 rest (nv_field d nv))"
      "received i (nv_table d nv) i2" by blast
    moreover have "nv_bytes d nv @ rest = (pack_first_byte ?mode # str_bytes (nva_name nv)) @ str_bytes (nva_value nv) @ rest"
      using new by (simp add: nv_bytes_def Let_def)
    ultimately show ?thesis using i1(1) by (intro exI [of _ i2]) (simp only:)
  next
    case ind
    note k = in_step_field [OF step found_index(1) [OF d ind(2)]]
    obtain i1 where i1: "inflate_loop grant i (encode_length (pack_first_byte ?mode) (?k + 1)
          (if ?mode = WITH_INDEXING then 6 else 4) @ str_bytes (nva_value nv) @ rest) False =
          inflate_loop grant i1 (str_bytes (nva_value nv) @ rest) False"
        "literal_state i OPCODE_INDNAME ?mode i1" "hd_index i1 = ?k" "inf_state i1 = CHECK_VALUELEN"
      using loop_indname [OF at ctx k(1), of grant ?mode "str_bytes (nva_value nv) @ rest" False] by (elim exE conjE)
    have "\<exists>i''. (if inf_opcode i' = OPCODE_NEWNAME then hd_inflate_commit_newname grant i'
            else hd_inflate_commit_indname grant i') = Some (i'', Inr (nv_field d nv)) \<and>
          received i (nv_table d nv) (i''\<lparr>inf_state := STATE_OPCODE\<rparr>)"
      if i': "same_field i1 i'" "namebuf i' = namebuf i1" "namercbuf i' = namercbuf i1"
        "holds_text (valuebuf i') (valuercbuf i') (nva_value nv)" for i'
    proof -
      have eq: "ictx i' = ictx i" "inf_opcode i' \<noteq> OPCODE_NEWNAME" "index_required i' = (?mode = WITH_INDEXING)"
          "settings_hd_table_bufsize_max i' = settings_hd_table_bufsize_max i" "min_table_bufsize_max i' = min_table_bufsize_max i"
          "hd_index i' = ?k"
        using i'(1) i1(2,3) by (simp_all add: same_field_def literal_state_def)
      have i: "inflate_ctx_ok i'" "value_ok i'" "hd_index i' < get_max_index (ictx i')"
        using ctx eq k(1) i'(4) by (auto simp: inflate_ctx_ok_def value_ok_def holds_text_def)
      have "nv_field d nv = (table_field (ictx i') (hd_index i'))\<lparr>nv_flags := commit_flags i',
          nv_value := take (length (nva_value nv)) (mem (valuebuf i'))\<rparr>"
        using i'(4) literal_flags [OF i1(2) i'(1)] field_of_table [OF d ind(2)] k(2) eq(1,6)
        by (intro hd_nv.equality) (simp_all add: holds_text_def nv_field_def stored_nv_def)
      then have "commits i' (nv_field d nv) (hd_inflate_commit_indname grant i')"
        using i i'(4) by (intro commit_indname_ok) (auto simp: holds_text_def)
      from commits_received [OF this commit_indname_granted [OF g i(1,3)] eq(1,4,5) nv_table_in_step [OF step ind(1), folded eq(3)]]
      show ?thesis by (simp only: eq(2) if_False simp_thms)
    qed
    from loop_value [OF g val i1(4), where P = "received i (nv_table d nv)", OF this]
    obtain i2 where "inflate_loop grant i1 (str_bytes (nva_value nv) @ rest) False = Some (Emitted i2 rest (nv_field d nv))"
      "received i (nv_table d nv) i2" by blast
    moreover have "nv_bytes d nv @ rest = encode_length (pack_first_byte ?mode) (?k + 1)
        (if ?mode = WITH_INDEXING then 6 else 4) @ str_bytes (nva_value nv) @ rest"
      using ind by (simp add: nv_bytes_def Let_def)
    ultimately show ?thesis using i1(1) by (intro exI [of _ i2]) (simp only:)
  qed
qed

end
