(* ===== verification/HpackBlock.thy ===== *)
theory HpackBlock
  imports HpackRound
begin

text \<open>
  Whole header blocks: table size updates, the fields one after the other, and the state both ends
  are in between two blocks.
\<close>

section \<open>Table sizes\<close>

lemma fitting_fitting: "fitting a (fitting b nvs) = fitting (min a b) nvs"
proof (induction nvs arbitrary: a b)
  case (Cons nv nvs)
  have "min (a - room_of nv) (b - room_of nv) = min a b - room_of nv" by simp
  then show ?case using Cons by simp
qed simp

lemma loop_table_size:
  assumes i: "inf_state i = INFLATE_START \<or> inf_state i = EXPECT_TABLE_SIZE" "inflate_ctx_ok i"
    and n: "n \<le> unat (min_table_bufsize_max i)" "n \<le> unat (settings_hd_table_bufsize_max i)"
  shows "\<exists>i'. inflate_loop grant i (encode_length 0x20 n 5 @ rest) busy = inflate_loop grant i' rest False \<and>
    inflate_ctx_ok i' \<and> ctx_bad (ictx i') = ctx_bad (ictx i) \<and> inf_state i' = INFLATE_START \<and>
    hd_table_bufsize_max (ictx i') = of_nat n \<and> table_nvs (ictx i') = fitting n (table_nvs (ictx i)) \<and>
    min_table_bufsize_max i' = UINT32_MAX \<and> settings_hd_table_bufsize_max i' = settings_hd_table_bufsize_max i"
proof -
  obtain c tl where c: "encode_length 0x20 n 5 = c # tl" "c AND 0xe0 = 0x20"
    using encode_first [of 5 "0x20" n] by (auto simp: high_masks)
  let ?i = "i\<lparr>inf_left := 0, hd_shift := 0, inf_opcode := OPCODE_INDEXED, inf_state := READ_TABLE_SIZE\<rparr>"
  have 1: "inflate_step grant i ((c # tl) @ rest) = Some (Continue ?i ((c # tl) @ rest) False)"
    using i(1) c(2) by (auto simp: inflate_step_def step_expect_table_size_def step_opcode_def)
  have n30: "n \<le> 2 ^ 30" using n(2) i(2) by (simp add: inflate_ctx_ok_def)
  then have n32: "n < 2 ^ 32" and un: "unat (of_nat n :: u32) = n" by (simp_all add: unat_of_nat32)
  let ?m = "min (unat (min_table_bufsize_max ?i)) (unat (settings_hd_table_bufsize_max ?i))"
  have "n \<le> ?m" using n by simp
  from read_len_encoded [OF _ _ _ _ n32 this, of ?i 5 "0x20" rest]
  obtain sh where rd: "hd_inflate_read_len ?i ((c # tl) @ rest) 5 ?m = Inr (?i\<lparr>inf_left := n, hd_shift := sh\<rparr>, True, rest)"
    unfolding c(1) by auto
  have "inflate_ctx_ok (?i\<lparr>inf_left := n, hd_shift := sh\<rparr>)" using i(2) by simp
  from resize_ok [OF this, of "of_nat n"] obtain ctx hm where sh:
    "hd_context_shrink_table_size ((ictx i)\<lparr>hd_table_bufsize_max := of_nat n\<rparr>) None = Inr (ctx, hm)"
    "inflate_ctx_ok (?i\<lparr>inf_left := n, hd_shift := sh, ictx := ctx\<rparr>)" "ctx_bad ctx = ctx_bad (ictx i)"
    "hd_table_bufsize_max ctx = of_nat n" "table_nvs ctx = fitting n (table_nvs (ictx i))"
    using un n30 by auto
  let ?i' = "?i\<lparr>inf_left := n, hd_shift := sh, min_table_bufsize_max := UINT32_MAX, ictx := ctx, inf_state := INFLATE_START\<rparr>"
  have "step_read_table_size ?i ((c # tl) @ rest) = Continue ?i' rest False"
    using rd sh(1) by (simp add: step_read_table_size_def failing_def)
  then have 2: "inflate_step grant ?i ((c # tl) @ rest) = Some (Continue ?i' rest False)"
    by (simp add: inflate_step_def)
  have "inflate_loop grant i ((c # tl) @ rest) busy = inflate_loop grant ?i' rest False"
    using loop_continue [OF 1] loop_continue [OF 2] by simp
  then show ?thesis using sh unfolding c(1) by (intro exI [of _ ?i']) (simp add: inflate_ctx_ok_def)
qed

section \<open>Between two blocks\<close>

text \<open>The two ends are linked: in step, or the deflater has changes of the table size to announce.\<close>

definition linked :: "deflater \<Rightarrow> inflater \<Rightarrow> bool" where
  "linked d i \<longleftrightarrow> deflater_ok d \<and> \<not> ctx_bad (dctx d) \<and> inflate_ctx_ok i \<and> \<not> ctx_bad (ictx i) \<and>
     (if notify_table_size_change d
      then (inf_state i = INFLATE_START \<or> inf_state i = EXPECT_TABLE_SIZE) \<and>
        (let m = min (min_hd_table_bufsize_max d) (hd_table_bufsize_max (dctx d)) in
         table_nvs (dctx d) = fitting (unat m) (table_nvs (ictx i)) \<and> m \<le> min_table_bufsize_max i \<and>
         hd_table_bufsize_max (dctx d) \<le> settings_hd_table_bufsize_max i \<and>
         (min_hd_table_bufsize_max d \<le> hd_table_bufsize_max (dctx d) \<or>
          deflate_hd_table_bufsize_max d \<le> hd_table_bufsize_max (dctx d)))
      else inf_state i = INFLATE_START \<and> min_hd_table_bufsize_max d = UINT32_MAX \<and>
        min_table_bufsize_max i = UINT32_MAX \<and> in_step d i)"

definition size_bytes :: "deflater \<Rightarrow> bytes" where
  "size_bytes d =
     (if notify_table_size_change d
      then (if hd_table_bufsize_max (dctx d) > min_hd_table_bufsize_max d
            then encode_length 0x20 (unat (min_hd_table_bufsize_max d)) 5 else []) @
           encode_length 0x20 (unat (hd_table_bufsize_max (dctx d))) 5
      else [])"

definition announced :: "deflater \<Rightarrow> deflater" where
  "announced d = (if notify_table_size_change d
     then d\<lparr>notify_table_size_change := False, min_hd_table_bufsize_max := UINT32_MAX\<rparr> else d)"

lemma deflater_ok_announced [simp]: "deflater_ok (announced d) = deflater_ok d"
  by (simp add: deflater_ok_def announced_def)

lemma unat_u32 [simp]: "unat (a :: u32) < 4294967296"
  using unsigned_less [of a] by simp

lemma unat_min: "unat (min a b) = min (unat a) (unat (b :: u32))"
  by (simp add: min_def word_le_nat_alt)

text \<open>The table size updates bring the two ends in step.\<close>

lemma loop_sizes:
  assumes l: "linked d i"
  shows "\<exists>i'. inflate_loop grant i (size_bytes d @ rest) busy = inflate_loop grant i' rest (busy \<and> size_bytes d = []) \<and>
    in_step (announced d) i' \<and> inf_state i' = INFLATE_START \<and> min_table_bufsize_max i' = UINT32_MAX"
proof (cases "notify_table_size_change d")
  case False
  then show ?thesis using l by (intro exI [of _ i]) (simp add: linked_def size_bytes_def announced_def)
next
  case True
  let ?min = "min_hd_table_bufsize_max d" and ?max = "hd_table_bufsize_max (dctx d)"
  have i: "inf_state i = INFLATE_START \<or> inf_state i = EXPECT_TABLE_SIZE" "inflate_ctx_ok i" "\<not> ctx_bad (ictx i)"
    "table_nvs (dctx d) = fitting (unat (min ?min ?max)) (table_nvs (ictx i))" "min ?min ?max \<le> min_table_bufsize_max i"
    "?max \<le> settings_hd_table_bufsize_max i" and d: "deflater_ok d"
    using l True by (auto simp: linked_def Let_def)
  have ne: "encode_length 0x20 n 5 \<noteq> []" for n using encode_first [of 5 "0x20" n] by auto
  have finish: ?thesis
    if "inflate_loop grant i (size_bytes d @ rest) busy = inflate_loop grant i' rest False" "inflate_ctx_ok i'"
      "\<not> ctx_bad (ictx i')" "inf_state i' = INFLATE_START" "hd_table_bufsize_max (ictx i') = ?max"
      "table_nvs (ictx i') = table_nvs (dctx d)" "min_table_bufsize_max i' = UINT32_MAX" for i'
    using that True d ne
    by (intro exI [of _ i']) (simp add: in_step_def between_fields_def announced_def deflater_ok_def size_bytes_def)
  show ?thesis
  proof (cases "?max > ?min")
    case False
    then have m: "min ?min ?max = ?max" by (simp add: min_def)
    then have n: "unat ?max \<le> unat (min_table_bufsize_max i)" "unat ?max \<le> unat (settings_hd_table_bufsize_max i)"
      using i(5,6) by (simp_all add: word_le_nat_alt)
    have "size_bytes d = encode_length 0x20 (unat ?max) 5" using True False by (simp add: size_bytes_def)
    with loop_table_size [OF i(1,2) n, of grant rest busy] show ?thesis using finish i(3,4) unfolding m by auto
  next
    case gt: True
    then have m: "min ?min ?max = ?min" by (intro min_absorb1 less_imp_le)
    have lt: "unat ?min < unat ?max" using gt by (simp add: word_less_nat_alt)
    have n: "unat ?min \<le> unat (min_table_bufsize_max i)" "unat ?min \<le> unat (settings_hd_table_bufsize_max i)"
      using i(5,6) lt unfolding m by (simp_all add: word_le_nat_alt)
    let ?second = "encode_length 0x20 (unat ?max) 5"
    obtain i1 where i1: "inflate_loop grant i (encode_length 0x20 (unat ?min) 5 @ ?second @ rest) busy =
        inflate_loop grant i1 (?second @ rest) False" "inflate_ctx_ok i1" "ctx_bad (ictx i1) = ctx_bad (ictx i)"
        "inf_state i1 = INFLATE_START" "table_nvs (ictx i1) = fitting (unat ?min) (table_nvs (ictx i))"
        "min_table_bufsize_max i1 = UINT32_MAX" "settings_hd_table_bufsize_max i1 = settings_hd_table_bufsize_max i"
      using loop_table_size [OF i(1,2) n, of grant "?second @ rest" busy] by (elim exE conjE)
    have "?max \<le> UINT32_MAX" by (simp add: UINT32_MAX_def)
    then have n1: "unat ?max \<le> unat (min_table_bufsize_max i1)" "unat ?max \<le> unat (settings_hd_table_bufsize_max i1)"
      using i(6) i1(6,7) by (simp_all add: word_le_nat_alt)
    obtain i2 where i2: "inflate_loop grant i1 (?second @ rest) False = inflate_loop grant i2 rest False"
        "inflate_ctx_ok i2" "ctx_bad (ictx i2) = ctx_bad (ictx i1)" "inf_state i2 = INFLATE_START"
        "hd_table_bufsize_max (ictx i2) = of_nat (unat ?max)"
        "table_nvs (ictx i2) = fitting (unat ?max) (table_nvs (ictx i1))" "min_table_bufsize_max i2 = UINT32_MAX"
      using loop_table_size [OF disjI1 [OF i1(4)] i1(2) n1, of grant rest False] by (elim exE conjE)
    have "size_bytes d @ rest = encode_length 0x20 (unat ?min) 5 @ ?second @ rest" using True gt by (simp add: size_bytes_def)
    moreover have "table_nvs (ictx i2) = table_nvs (dctx d)"
      using lt i(4) unfolding i2(6) i1(5) fitting_fitting m by (simp add: min_def)
    ultimately show ?thesis using finish [of i2] i1(1,3) i2(1-5,7) i(3) by simp
  qed
qed

section \<open>The deflater's side\<close>

lemma size_bytes_appended:
  assumes "grants alloc" "bufs_ok bs" "notify_table_size_change d"
  shows "appended bs (size_bytes d) (deflate_sizes alloc d bs)"
proof -
  have a: "appended bs' (encode_length 0x20 (unat (n :: u32)) 5) (emit_table_size alloc (unat n) bs')" if "bufs_ok bs'" for bs' n
    by (rule emit_table_size_appended [OF assms(1) that]) simp
  show ?thesis
  proof (cases "hd_table_bufsize_max (dctx d) > min_hd_table_bufsize_max d")
    case True
    have "appended bs (encode_length 0x20 (unat (min_hd_table_bufsize_max d)) 5 @
          encode_length 0x20 (unat (hd_table_bufsize_max (dctx d))) 5) (deflate_sizes alloc d bs)"
      using True unfolding deflate_sizes_def Let_def
      by (simp only: if_True) (rule and_then_appended; use a assms(2) in blast)
    then show ?thesis using True assms(3) by (simp add: size_bytes_def)
  next
    case False
    then show ?thesis using a [OF assms(2)] assms(3) by (simp add: deflate_sizes_def size_bytes_def and_then_def ok_def Let_def)
  qed
qed

lemma in_step_next:
  assumes "in_step d i" "received i nvs i'" "deflater_ok d'" "same_sizes d d'" "table_nvs (dctx d') = nvs"
  shows "in_step d' i'"
  using assms by (simp add: in_step_def received_def same_sizes_def between_fields_def)

text \<open>A block read by calling the inflater until it says that the block is complete.\<close>

fun inflate_block :: "nat \<Rightarrow> (nat \<Rightarrow> bytes option) \<Rightarrow> inflater \<Rightarrow> bytes \<Rightarrow> (inflater \<times> hd_nv list) option" where
  "inflate_block 0 grant i inp = None"
| "inflate_block (Suc n) grant i inp =
     (case nghttp2_hd_inflate_hd_nv grant i inp True of
        None \<Rightarrow> None
      | Some r \<Rightarrow>
          (case ir_taken r of
             Inl e \<Rightarrow> None
           | Inr k \<Rightarrow>
               (case ir_emit r of
                  Some nv \<Rightarrow> map_option (\<lambda>(i, nvs). (i, nv # nvs)) (inflate_block n grant (ir_inflater r) (drop k inp))
                | None \<Rightarrow> if ir_final r then Some (nghttp2_hd_inflate_end_headers (ir_inflater r), []) else None)))"

lemma block_field:
  assumes "inflate_loop grant i (xs @ rest) False = Some (Emitted i' rest nv)" "\<not> ctx_bad (ictx i)"
  shows "inflate_block (Suc n) grant i (xs @ rest) =
    map_option (\<lambda>(i, nvs). (i, nv # nvs)) (inflate_block n grant i' rest)"
  using assms by (simp add: nghttp2_hd_inflate_hd_nv_def)

lemma block_end:
  assumes "inflate_loop grant i xs False = Some (Continue i' [] False)" "\<not> ctx_bad (ictx i)" "between_fields i'"
  shows "inflate_block (Suc n) grant i xs = Some (nghttp2_hd_inflate_end_headers i', [])"
  using assms by (auto simp: nghttp2_hd_inflate_hd_nv_def between_fields_def)

text \<open>What is kept of a field.\<close>

definition same_nv :: "nghttp2_nv \<Rightarrow> hd_nv \<Rightarrow> bool" where
  "same_nv nv f \<longleftrightarrow> nv_name f = nva_name nv \<and> nv_value f = nva_value nv \<and>
     nv_token f = lookup_token (nva_name nv) \<and>
     (nva_flags nv AND NGHTTP2_NV_FLAG_NO_INDEX \<noteq> 0 \<longrightarrow> nv_flags f = NGHTTP2_NV_FLAG_NO_INDEX)"

lemma same_nv_field: "same_nv nv (nv_field d nv)"
  by (auto simp: same_nv_def nv_field_def stored_nv_def nv_mode_def deflate_mode_def)

lemma nv_step:
  assumes "grants alloc" "bufs_ok bs" "deflater_ok d" "short_nv nv"
    and "deflate_nvs grant alloc d (nv # nvs) bs = Some (d', bs', Inr ())"
  obtains d1 bs1 where "deflate_nvs grant alloc d1 nvs bs1 = Some (d', bs', Inr ())"
    "deflater_ok d1" "same_sizes d d1" "bufs_ok bs1" "same_limits bs bs1" "bufs_data bs1 = bufs_data bs @ nv_bytes d nv"
    "table_nvs (dctx d1) = nv_table d nv"
proof -
  obtain d1 bs1 where nv: "deflate_nv grant alloc d nv bs = Some (d1, bs1, Inr ())"
      "deflate_nvs grant alloc d1 nvs bs1 = Some (d', bs', Inr ())"
    using assms(5) by (auto split: option.splits sum.splits prod.splits)
  then show thesis
    using deflate_nv_ok [OF assms(1-4), of grant] that [of d1 bs1] by (auto simp: deflated_def appended_def)
qed

lemma nvs_appended:
  assumes "grants alloc"
  shows "\<lbrakk>bufs_ok bs; deflater_ok d; list_all short_nv nvs; deflate_nvs grant alloc d nvs bs = Some (d', bs', Inr ())\<rbrakk> \<Longrightarrow>
    \<exists>ys. bufs_data bs' = bufs_data bs @ ys \<and> bufs_ok bs' \<and> same_limits bs bs' \<and> same_sizes d d'"
proof (induction nvs arbitrary: d bs)
  case Nil
  then show ?case by (simp add: same_limits_def)
next
  case (Cons nv nvs)
  have nv: "short_nv nv" "list_all short_nv nvs" using Cons.prems(3) by auto
  obtain d1 bs1 where 1: "deflate_nvs grant alloc d1 nvs bs1 = Some (d', bs', Inr ())"
    "deflater_ok d1" "same_sizes d d1" "bufs_ok bs1" "same_limits bs bs1" "bufs_data bs1 = bufs_data bs @ nv_bytes d nv"
    using nv_step [OF assms Cons.prems(1,2) nv(1) Cons.prems(4)] by metis
  then show ?case
    using Cons.IH [OF 1(4,2) nv(2) 1(1)] same_limits_trans [OF 1(5)] same_sizes_trans [OF 1(3)] by auto
qed

text \<open>The fields, when the bytes in front lead the inflater to a state in step.\<close>

lemma nvs_roundtrip:
  assumes "grants alloc" "generous grant'"
  shows "\<lbrakk>list_all short_nv nvs; list_all nv_fits nvs; deflate_nvs grant alloc d nvs bs = Some (d', bs', Inr ());
      in_step d i; bufs_ok bs; \<not> ctx_bad (ictx i0); bufs_data bs' = bufs_data bs @ ys;
      inflate_loop grant' i0 (xs @ ys) False = inflate_loop grant' i ys False\<rbrakk> \<Longrightarrow>
    \<exists>i' fs. in_step d' i' \<and> min_table_bufsize_max i' = min_table_bufsize_max i \<and> list_all2 same_nv nvs fs \<and>
      inflate_block (Suc (length nvs)) grant' i0 (xs @ ys) = Some (nghttp2_hd_inflate_end_headers i', fs)"
proof (induction nvs arbitrary: d bs i i0 xs ys)
  case Nil
  then have ys: "ys = []" by simp
  have "inflate_loop grant' i [] False = Some (Continue i [] False)" by (subst inflate_loop.simps) simp
  then have "inflate_loop grant' i0 xs False = Some (Continue i [] False)" using Nil.prems(8) ys by simp
  from block_end [OF this Nil.prems(6)] Nil.prems(3,4) ys show ?case
    by (intro exI [of _ i] exI [of _ "[]"]) (simp add: in_step_def)
next
  case (Cons nv nvs)
  have d: "deflater_ok d" and bad: "\<not> ctx_bad (ictx i)" using Cons.prems(4) by (simp_all add: in_step_def)
  have fits: "short_nv nv" "nv_fits nv" "list_all short_nv nvs" "list_all nv_fits nvs" using Cons.prems(1,2) by auto
  obtain d1 bs1 where 1: "deflate_nvs grant alloc d1 nvs bs1 = Some (d', bs', Inr ())"
    "deflater_ok d1" "same_sizes d d1" "bufs_ok bs1" "bufs_data bs1 = bufs_data bs @ nv_bytes d nv"
    "table_nvs (dctx d1) = nv_table d nv"
    using nv_step [OF assms(1) Cons.prems(5) d fits(1) Cons.prems(3)] by metis
  obtain zs where zs: "bufs_data bs' = bufs_data bs1 @ zs" using nvs_appended [OF assms(1) 1(4,2) fits(3) 1(1)] by blast
  then have ys: "ys = nv_bytes d nv @ zs" using Cons.prems(7) 1(5) by simp
  obtain i1 where i1: "inflate_loop grant' i (nv_bytes d nv @ zs) False = Some (Emitted i1 zs (nv_field d nv))"
      "received i (nv_table d nv) i1"
    using field_roundtrip [OF Cons.prems(4) assms(2) fits(2)] by blast
  have step: "in_step d1 i1" by (rule in_step_next [OF Cons.prems(4) i1(2) 1(2,3,6)])
  then have bad1: "\<not> ctx_bad (ictx i1)" by (simp add: in_step_def)
  obtain i' fs where ih: "in_step d' i'" "min_table_bufsize_max i' = min_table_bufsize_max i1" "list_all2 same_nv nvs fs"
      "inflate_block (Suc (length nvs)) grant' i1 ([] @ zs) = Some (nghttp2_hd_inflate_end_headers i', fs)"
    using Cons.IH [OF fits(3,4) 1(1) step 1(4) bad1 zs, of "[]"] by auto
  have "min_table_bufsize_max i1 = min_table_bufsize_max i" using i1(2) by (simp add: received_def)
  with ih(2) have min: "min_table_bufsize_max i' = min_table_bufsize_max i" by simp
  have "inflate_loop grant' i0 ((xs @ nv_bytes d nv) @ zs) False = Some (Emitted i1 zs (nv_field d nv))"
    using Cons.prems(8) i1(1) ys by simp
  from block_field [OF this Cons.prems(6), of "Suc (length nvs)"] ih min ys show ?case
    by (intro exI [of _ i'] exI [of _ "nv_field d nv # fs"]) (simp add: same_nv_field del: inflate_block.simps)
qed

section \<open>The round trip\<close>

lemma short_str_data: "length (str_data s) \<le> length s"
  by (simp add: str_data_def str_huff_def)

definition sendable :: "nghttp2_nv \<Rightarrow> bool" where
  "sendable nv \<longleftrightarrow> length (nva_name nv) \<le> NGHTTP2_HD_MAX_NV \<and> length (nva_value nv) \<le> NGHTTP2_HD_MAX_NV"

lemma sendable_short: "list_all sendable nvs \<Longrightarrow> list_all short_nv nvs"
  by (auto simp: list_all_iff sendable_def short_nv_def NGHTTP2_HD_MAX_NV_def)

lemma sendable_fits: "list_all sendable nvs \<Longrightarrow> list_all nv_fits nvs"
  by (auto simp: list_all_iff sendable_def nv_fits_def text_fits_def intro: le_trans [OF short_str_data])

lemma linked_end: "in_step d i \<Longrightarrow> \<not> ctx_bad (dctx d) \<Longrightarrow> \<not> notify_table_size_change d \<Longrightarrow>
    min_hd_table_bufsize_max d = UINT32_MAX \<Longrightarrow> min_table_bufsize_max i = UINT32_MAX \<Longrightarrow>
    linked d (nghttp2_hd_inflate_end_headers i)"
  by (simp add: linked_def in_step_def nghttp2_hd_inflate_end_headers_def between_fields_def)

lemma deflate_block_cases:
  assumes "grants alloc" "bufs_ok bs" "\<not> ctx_bad (dctx d)"
    and "nghttp2_hd_deflate_hd_bufs grant alloc d nvs bs = Some (d', bs', Inr ())"
  obtains bs1 where "bufs_ok bs1" "bufs_data bs1 = bufs_data bs @ size_bytes d"
    "deflate_nvs grant alloc (announced d) nvs bs1 = Some (d', bs', Inr ())"
proof (cases "notify_table_size_change d")
  case False
  then show thesis
    using assms that [of bs] by (auto simp: nghttp2_hd_deflate_hd_bufs_def size_bytes_def announced_def split: sum.splits)
next
  case True
  obtain bs1 r where s: "deflate_sizes alloc d bs = (bs1, r)" by fastforce
  have "r = Inr ()"
    using assms(3,4) True s by (cases r) (auto simp: nghttp2_hd_deflate_hd_bufs_def)
  then show thesis
    using size_bytes_appended [OF assms(1,2) True] assms(3,4) True s that [of bs1]
    by (auto simp: nghttp2_hd_deflate_hd_bufs_def announced_def appended_def split: sum.splits)
qed

lemma hpack_block:
  assumes "grants alloc" "generous grant'" "bufs_ok bs" "linked d i" "list_all sendable nvs"
    and "nghttp2_hd_deflate_hd_bufs grant alloc d nvs bs = Some (d', bs', Inr ())"
  shows "\<exists>ys i' fs. bufs_data bs' = bufs_data bs @ ys \<and> linked d' i' \<and> list_all2 same_nv nvs fs \<and>
    inflate_block (Suc (length nvs)) grant' i ys = Some (i', fs)"
proof -
  have l: "deflater_ok d" "\<not> ctx_bad (dctx d)" "\<not> ctx_bad (ictx i)"
      "\<not> notify_table_size_change d \<Longrightarrow> min_hd_table_bufsize_max d = UINT32_MAX"
    using assms(4) by (auto simp: linked_def)
  obtain bs1 where 1: "bufs_ok bs1" "bufs_data bs1 = bufs_data bs @ size_bytes d"
      "deflate_nvs grant alloc (announced d) nvs bs1 = Some (d', bs', Inr ())"
    using deflate_block_cases [OF assms(1,3) l(2) assms(6)] by metis
  have ok: "deflater_ok (announced d)" using l(1) by simp
  obtain ys where ys: "bufs_data bs' = bufs_data bs1 @ ys" "same_sizes (announced d) d'"
    using nvs_appended [OF assms(1) 1(1) ok sendable_short [OF assms(5)] 1(3)] by blast
  obtain i1 where i1: "inflate_loop grant' i (size_bytes d @ ys) False = inflate_loop grant' i1 ys False"
      "in_step (announced d) i1" "min_table_bufsize_max i1 = UINT32_MAX"
    using loop_sizes [OF assms(4), of grant' ys False] by auto
  obtain i' fs where r: "in_step d' i'" "min_table_bufsize_max i' = min_table_bufsize_max i1" "list_all2 same_nv nvs fs"
      "inflate_block (Suc (length nvs)) grant' i (size_bytes d @ ys) = Some (nghttp2_hd_inflate_end_headers i', fs)"
    using nvs_roundtrip [OF assms(1,2) sendable_short [OF assms(5)] sendable_fits [OF assms(5)] 1(3) i1(2) 1(1) l(3) ys(1) i1(1)]
    by (elim exE conjE)
  have "linked d' (nghttp2_hd_inflate_end_headers i')"
    using ys(2) l(2,4) r(2) i1(3)
    by (intro linked_end [OF r(1)]) (auto simp: same_sizes_def announced_def split: if_splits)
  then show ?thesis
    using ys(1) 1(2) r(3,4) by (intro exI [of _ "size_bytes d @ ys"]) (auto simp del: inflate_block.simps)
qed

text \<open>Deflating returns.\<close>

lemma nvs_returns:
  assumes "grants alloc"
  shows "bufs_ok bs \<Longrightarrow> deflater_ok d \<Longrightarrow> list_all short_nv nvs \<Longrightarrow> deflate_nvs grant alloc d nvs bs \<noteq> None"
proof (induction nvs arbitrary: d bs)
  case (Cons nv nvs)
  have nv: "short_nv nv" "list_all short_nv nvs" using Cons.prems(3) by auto
  obtain d1 bs1 r where 1: "deflate_nv grant alloc d nv bs = Some (d1, bs1, r)" "deflater_ok d1" "bufs_ok bs1"
    using deflate_nv_ok [OF assms Cons.prems(1,2) nv(1), of grant] by (auto simp: deflated_def)
  then show ?case using Cons.IH [OF 1(3,2) nv(2)] by (cases r) auto
qed simp

lemma block_returns:
  assumes "grants alloc" "bufs_ok bs" "linked d i" "list_all sendable nvs"
  shows "\<exists>d' bs' r. nghttp2_hd_deflate_hd_bufs grant alloc d nvs bs = Some (d', bs', r)"
proof -
  have d: "deflater_ok (announced d)" "\<not> ctx_bad (dctx d)" using assms(3) by (auto simp: linked_def)
  note ret = nvs_returns [OF assms(1) _ d(1) sendable_short [OF assms(4)], of _ grant]
  show ?thesis
  proof (cases "notify_table_size_change d")
    case False
    then show ?thesis using ret [OF assms(2)] d(2)
      by (auto simp: nghttp2_hd_deflate_hd_bufs_def announced_def Let_def split: sum.splits)
  next
    case True
    obtain bs1 r where s: "deflate_sizes alloc d bs = (bs1, r)" by fastforce
    then have "bufs_ok bs1" using size_bytes_appended [OF assms(1,2) True] by (auto simp: appended_def)
    from ret [OF this] show ?thesis using True s d(2)
      by (cases r) (auto simp: nghttp2_hd_deflate_hd_bufs_def announced_def Let_def split: sum.splits)
  qed
qed

text \<open>C1: HPACK makes the round trip. When two ends are linked, deflating a list of fields returns, and
  if it reports success, then the bytes it wrote, inflated with enough memory in as many calls as
  there are fields and one more, give back every name and value in order, the token of each name,
  and the mark of the fields that must never be indexed; and the two ends are linked again, so that
  their dynamic tables agree for the next block.\<close>
theorem hpack_roundtrip:
  assumes "linked d i" "list_all sendable nvs" "grants alloc" "bufs_ok bs" "bufs_data bs = []"
    and "\<And>n. \<exists>m. grant' n = Some m \<and> length m = n"
  shows "\<exists>d' bs' r. nghttp2_hd_deflate_hd_bufs grant alloc d nvs bs = Some (d', bs', r) \<and>
    (r = Inr () \<longrightarrow> (\<exists>i' fs. inflate_block (length nvs + 1) grant' i (bufs_data bs') = Some (i', fs) \<and>
       list_all2 same_nv nvs fs \<and> linked d' i'))"
proof -
  have g: "generous grant'" using assms(6) by (simp add: generous_def)
  obtain d' bs' r where out: "nghttp2_hd_deflate_hd_bufs grant alloc d nvs bs = Some (d', bs', r)"
    using block_returns [OF assms(3,4,1,2)] by blast
  show ?thesis
    using hpack_block [OF assms(3) g assms(4,1,2), of grant d' bs'] assms(5) out
    by (intro exI [of _ d'] exI [of _ bs'] exI [of _ r]) (auto simp del: inflate_block.simps)
qed

text \<open>Two new ends, the deflater about to announce a smaller table.\<close>

definition example_deflater :: deflater where
  "example_deflater = \<lparr>dctx = empty_context\<lparr>hd_table_bufsize_max := 100\<rparr>, dmap = hd_map_init,
     deflate_hd_table_bufsize_max = 100, min_hd_table_bufsize_max = UINT32_MAX, notify_table_size_change = True\<rparr>"

definition new_inflater :: inflater where
  "new_inflater = example_inflater\<lparr>inf_state := INFLATE_START\<rparr>"

definition example_nvs :: "nghttp2_nv list" where
  "example_nvs = [\<lparr>nva_name = ascii '':method'', nva_value = ascii ''GET'', nva_flags = 0\<rparr>,
     \<lparr>nva_name = ascii ''x-key'', nva_value = ascii ''secret'', nva_flags = 1\<rparr>]"

lemma example_linked: "linked example_deflater new_inflater"
  by (auto simp: linked_def example_deflater_def new_inflater_def example_inflater_def deflater_ok_def context_ok_def
      inflate_ctx_ok_def empty_context_def ring_ok_def table_nvs_def table_entries_def ring_list_def hd_map_init_ok
      UINT32_MAX_def NGHTTP2_HD_DEFAULT_MAX_BUFFER_SIZE_def min_def Let_def intro!: exI [of _ 0])

definition large_bufs :: bufs where
  "large_bufs = \<lparr>chunks = [\<lparr>mem = replicate 60 0, pos = 0, last_pos = 0, mark = 0\<rparr>], cur = 0,
     chunk_length = 60, max_chunk = 2, chunk_used = 1, chunk_keep = 1, hd_offset = 0\<rparr>"

lemma large_bufs_ok: "bufs_ok large_bufs" "bufs_data large_bufs = []"
  by (simp_all add: large_bufs_def bufs_ok_def buf_ok_def bufs_data_def buf_data_def nghttp2_buf_len_def)

theorem hpack_roundtrip_witness:
  "\<exists>d' bs' r. nghttp2_hd_deflate_hd_bufs (\<lambda>n. True) (\<lambda>k n. Some (replicate n 0)) example_deflater example_nvs
      large_bufs = Some (d', bs', r) \<and>
    (r = Inr () \<longrightarrow> (\<exists>i' fs. inflate_block 3 (\<lambda>n. Some (replicate n 0)) new_inflater (bufs_data bs') = Some (i', fs) \<and>
       list_all2 same_nv example_nvs fs \<and> linked d' i'))"
  using hpack_roundtrip [OF example_linked _ replicate_grants large_bufs_ok, of example_nvs
      "\<lambda>n. Some (replicate n 0)" "\<lambda>n. True"]
  by (simp add: example_nvs_def sendable_def ascii_def NGHTTP2_HD_MAX_NV_def numeral_3_eq_3 del: inflate_block.simps)

section \<open>The start, and changes of the table size\<close>

lemma deflate_init_ok:
  assumes "nghttp2_hd_deflate_init2 grant max_size = Some (Inr d)"
  shows "deflater_ok d \<and> \<not> ctx_bad (dctx d) \<and> table_nvs (dctx d) = [] \<and> min_hd_table_bufsize_max d = UINT32_MAX \<and>
    deflate_hd_table_bufsize_max d = max_size \<and> notify_table_size_change d = (max_size < 4096) \<and>
    hd_table_bufsize_max (dctx d) = min max_size 4096"
proof -
  obtain ctx where ctx: "hd_context_init grant = Some (Inr ctx)" "context_ok ctx" "table_entries ctx = []"
      "hd_table_bufsize_max ctx = 4096" "\<not> ctx_bad ctx"
    using assms context_init_ok [of grant] by (auto simp: nghttp2_hd_deflate_init2_def)
  have small: "unat max_size < 2 ^ 31" if "max_size < 4096"
    using that by (simp add: word_less_nat_alt)
  show ?thesis
    using assms ctx small
    by (cases "max_size < 4096")
      (auto simp: nghttp2_hd_deflate_init2_def deflater_ok_def context_ok_def table_nvs_def table_entries_def
        hd_map_init_ok NGHTTP2_HD_DEFAULT_MAX_BUFFER_SIZE_def Let_def min_def)
qed

lemma inflate_init_ok:
  assumes "nghttp2_hd_inflate_init grant = Some (Inr i)"
  shows "inflate_ctx_ok i \<and> \<not> ctx_bad (ictx i) \<and> table_nvs (ictx i) = [] \<and> inf_state i = INFLATE_START \<and>
    hd_table_bufsize_max (ictx i) = 4096 \<and> settings_hd_table_bufsize_max i = 4096 \<and> min_table_bufsize_max i = UINT32_MAX"
proof -
  obtain ctx where "hd_context_init grant = Some (Inr ctx)" "context_ok ctx" "table_entries ctx = []"
      "hd_table_bufsize_max ctx = 4096" "\<not> ctx_bad ctx"
    using assms context_init_ok [of grant] by (auto simp: nghttp2_hd_inflate_init_def)
  then show ?thesis
    using assms by (auto simp: nghttp2_hd_inflate_init_def inflate_ctx_ok_def table_nvs_def NGHTTP2_HD_DEFAULT_MAX_BUFFER_SIZE_def)
qed

lemma linked_init:
  assumes "nghttp2_hd_deflate_init2 grant max_size = Some (Inr d)" "nghttp2_hd_inflate_init grant' = Some (Inr i)"
  shows "linked d i"
  using deflate_init_ok [OF assms(1)] inflate_init_ok [OF assms(2)]
  by (auto simp: linked_def Let_def in_step_def between_fields_def UINT32_MAX_def min_def)

lemma deflate_change_ok:
  assumes "deflater_ok d" "unat s \<le> 2 ^ 30"
  shows "\<exists>d'. nghttp2_hd_deflate_change_table_size d s = Inr d' \<and> deflater_ok d' \<and> ctx_bad (dctx d') = ctx_bad (dctx d) \<and>
    notify_table_size_change d' \<and> deflate_hd_table_bufsize_max d' = deflate_hd_table_bufsize_max d \<and>
    hd_table_bufsize_max (dctx d') = min s (deflate_hd_table_bufsize_max d) \<and>
    min_hd_table_bufsize_max d' = min (min_hd_table_bufsize_max d) (min s (deflate_hd_table_bufsize_max d)) \<and>
    table_nvs (dctx d') = fitting (unat (min s (deflate_hd_table_bufsize_max d))) (table_nvs (dctx d))"
proof -
  let ?n = "min s (deflate_hd_table_bufsize_max d)" and ?ctx = "(dctx d)\<lparr>hd_table_bufsize_max := min s (deflate_hd_table_bufsize_max d)\<rparr>"
  have "unat ?n \<le> 2 ^ 30" using assms(2) by (simp add: unat_min min_le_iff_disj)
  then have "context_ok ?ctx" using assms(1) by (simp add: deflater_ok_def context_ok_def table_nvs_def table_entries_def)
  moreover have "opt_map_ok (Some (dmap d)) (table_entries ?ctx)"
    using assms(1) by (simp add: deflater_ok_def opt_map_ok_def table_entries_def)
  ultimately obtain ctx hm where sh: "hd_context_shrink_table_size ?ctx (Some (dmap d)) = Inr (ctx, hm)" "context_ok ctx"
      "opt_map_ok hm (table_entries ctx)" "hm \<noteq> None" "table_nvs ctx = fitting (unat ?n) (table_nvs ?ctx)"
      "hd_table_bufsize_max ctx = ?n" "ctx_bad ctx = ctx_bad (dctx d)" "set (table_entries ctx) \<subseteq> set (table_entries ?ctx)"
    using shrink_ok [of ?ctx "Some (dmap d)"] by auto
  moreover have "table_entries ?ctx = table_entries (dctx d)" "table_nvs ?ctx = table_nvs (dctx d)"
    by (simp_all add: table_entries_def table_nvs_def)
  ultimately show ?thesis
    using assms(1) by (auto simp: nghttp2_hd_deflate_change_table_size_def Let_def deflater_ok_def opt_map_ok_def)
qed

lemma inflate_change_ok:
  assumes i: "inflate_ctx_ok i" "inf_state i = INFLATE_START \<or> inf_state i = EXPECT_TABLE_SIZE" and s: "unat s \<le> 2 ^ 30"
  shows "\<exists>i'. nghttp2_hd_inflate_change_table_size i s = Inr i' \<and> inflate_ctx_ok i' \<and> ctx_bad (ictx i') = ctx_bad (ictx i) \<and>
    settings_hd_table_bufsize_max i' = s \<and>
    (if hd_table_bufsize_max (ictx i) > s
     then inf_state i' = EXPECT_TABLE_SIZE \<and> min_table_bufsize_max i' = s \<and> table_nvs (ictx i') = fitting (unat s) (table_nvs (ictx i))
     else inf_state i' = inf_state i \<and> min_table_bufsize_max i' = min_table_bufsize_max i \<and>
       table_nvs (ictx i') = table_nvs (ictx i))"
proof (cases "hd_table_bufsize_max (ictx i) > s")
  case False
  then show ?thesis using i s by (auto simp: nghttp2_hd_inflate_change_table_size_def inflate_ctx_ok_def)
next
  case True
  from resize_ok [OF i(1) s] obtain ctx hm where
    "hd_context_shrink_table_size ((ictx i)\<lparr>hd_table_bufsize_max := s\<rparr>) None = Inr (ctx, hm)"
    "inflate_ctx_ok (i\<lparr>ictx := ctx\<rparr>)" "ctx_bad ctx = ctx_bad (ictx i)" "hd_table_bufsize_max ctx = s"
    "table_nvs ctx = fitting (unat s) (table_nvs (ictx i))" by blast
  then show ?thesis using True i s by (auto simp: nghttp2_hd_inflate_change_table_size_def Let_def inflate_ctx_ok_def)
qed

text \<open>C29: two new ends are linked, whatever limit the deflater was given, and they stay linked when a
  setting for the size of the dynamic table takes effect at both, any number of times before the
  next block and whether it grows or shrinks the table: the deflater will announce what the inflater
  then expects.\<close>
theorem hpack_table_size_linked:
  assumes "unat s \<le> 2 ^ 30"
  shows "(nghttp2_hd_deflate_init2 grant max_size = Some (Inr d) \<longrightarrow> nghttp2_hd_inflate_init grant' = Some (Inr i) \<longrightarrow>
      linked d i) \<and>
    (linked d i \<longrightarrow> (\<exists>d' i'. nghttp2_hd_deflate_change_table_size d s = Inr d' \<and>
      nghttp2_hd_inflate_change_table_size i s = Inr i' \<and> linked d' i'))"
proof (intro conjI impI)
  assume l: "linked d i"
  let ?min = "min_hd_table_bufsize_max d" and ?cur = "hd_table_bufsize_max (dctx d)" and ?n = "min s (deflate_hd_table_bufsize_max d)"
  let ?m = "min ?min ?cur"
  have d: "deflater_ok d" and i: "inflate_ctx_ok i" "inf_state i = INFLATE_START \<or> inf_state i = EXPECT_TABLE_SIZE"
    using l by (auto simp: linked_def split: if_splits)
  obtain d' where d': "nghttp2_hd_deflate_change_table_size d s = Inr d'" "deflater_ok d'" "ctx_bad (dctx d') = ctx_bad (dctx d)"
      "notify_table_size_change d'" "hd_table_bufsize_max (dctx d') = ?n" "min_hd_table_bufsize_max d' = min ?min ?n"
      "table_nvs (dctx d') = fitting (unat ?n) (table_nvs (dctx d))"
    using deflate_change_ok [OF d assms] by auto
  obtain i' where i': "nghttp2_hd_inflate_change_table_size i s = Inr i'" "inflate_ctx_ok i'" "ctx_bad (ictx i') = ctx_bad (ictx i)"
      "settings_hd_table_bufsize_max i' = s" "inf_state i' = INFLATE_START \<or> inf_state i' = EXPECT_TABLE_SIZE"
      "min_table_bufsize_max i' = s \<and> table_nvs (ictx i') = fitting (unat s) (table_nvs (ictx i)) \<or>
       min_table_bufsize_max i' = min_table_bufsize_max i \<and> table_nvs (ictx i') = table_nvs (ictx i)"
    using inflate_change_ok [OF i assms] i(2) by (auto split: if_splits)
  have before: "table_nvs (dctx d') = fitting (unat (min ?min ?n)) (table_nvs (ictx i)) \<and> min ?min ?n \<le> min_table_bufsize_max i"
  proof (cases "notify_table_size_change d")
    case True
    then have t: "table_nvs (dctx d) = fitting (unat ?m) (table_nvs (ictx i))" "?m \<le> min_table_bufsize_max i"
        "?min \<le> ?cur \<or> deflate_hd_table_bufsize_max d \<le> ?cur"
      using l by (auto simp: linked_def Let_def)
    have "min ?n ?m = min ?min ?n" using t(3) by (auto simp: min_def)
    then show ?thesis
      using t(2) order.trans [of "min ?min ?n" ?m "min_table_bufsize_max i"] min.cobounded2 [of ?n ?m]
      by (simp add: d'(7) t(1) fitting_fitting flip: unat_min)
  next
    case False
    then have "table_nvs (dctx d) = table_nvs (ictx i)" "?min = UINT32_MAX" "min_table_bufsize_max i = UINT32_MAX"
      using l by (auto simp: linked_def in_step_def)
    moreover have "min UINT32_MAX ?n = ?n" by (intro min_absorb2) (simp add: UINT32_MAX_def)
    ultimately show ?thesis by (simp add: d'(7) UINT32_MAX_def)
  qed
  have "min ?min ?n \<le> s" by (simp add: min_le_iff_disj)
  then have "table_nvs (dctx d') = fitting (unat (min ?min ?n)) (table_nvs (ictx i')) \<and> min ?min ?n \<le> min_table_bufsize_max i'"
    using i'(6) before by (auto simp: fitting_fitting min_absorb1 simp flip: unat_min)
  moreover have "min (min ?min ?n) ?n = min ?min ?n" by simp
  moreover have "?n \<le> s" "min ?min ?n \<le> ?n" by (rule min.cobounded1, rule min.cobounded2)
  moreover have "\<not> ctx_bad (dctx d)" "\<not> ctx_bad (ictx i)" using l by (simp_all add: linked_def)
  ultimately have "linked d' i'"
    using d'(2-4) i'(2,3,5) unfolding linked_def Let_def d'(5,6) i'(4) by (simp add: min_le_iff_disj)
  then show "\<exists>d' i'. nghttp2_hd_deflate_change_table_size d s = Inr d' \<and>
      nghttp2_hd_inflate_change_table_size i s = Inr i' \<and> linked d' i'"
    using d'(1) i'(1) by blast
qed (rule linked_init)

theorem hpack_table_size_linked_witness:
  "\<exists>d' i'. nghttp2_hd_deflate_change_table_size example_deflater 64 = Inr d' \<and>
     nghttp2_hd_inflate_change_table_size new_inflater 64 = Inr i' \<and> linked d' i'"
  using hpack_table_size_linked [of 64 "\<lambda>n. True" 100 example_deflater "\<lambda>n. True" new_inflater] example_linked by simp

end
