(* ===== verification/Jsmn.thy ===== *)
theory Jsmn
  imports Prelude
begin

text \<open>
  The JSON tokenizer \<open>jsmn\<close> (\<open>jsmn.h\<close>), in the configuration the firmware is built with: neither
  strict mode nor parent links. The parser walks over the text and fills an array of tokens, or only
  counts them when it is given a null pointer. Positions are numbers below \<open>2\<^sup>31\<close>, so that they fit the
  \<open>int\<close> fields of a token. Every read of the text is checked against its length. The lemmas show that no input makes it leave the text or the array, that
  its tokens nest, that counting agrees with tokenizing, and that a run that was short of tokens can be
  resumed.
\<close>

section \<open>State\<close>

datatype jsmntype = JSMN_UNDEFINED | JSMN_OBJECT | JSMN_ARRAY | JSMN_STRING | JSMN_PRIMITIVE

datatype jsmnerr = JSMN_ERROR_NOMEM | JSMN_ERROR_INVAL | JSMN_ERROR_PART

record jsmntok =
  tok_type :: jsmntype
  tok_start :: int
  tok_end :: int
  tok_size :: int

record jsmn_parser =
  js_pos :: nat
  toknext :: nat
  toksuper :: int

text \<open>The parser and the tokens, \<open>None\<close> for a null pointer; what a step returns beside them.\<close>

type_synonym jsmn_state = "jsmn_parser \<times> jsmntok list option"
type_synonym 'a jsmn_res = "jsmnerr fault + 'a"

definition jsmn_init :: jsmn_parser where
  "jsmn_init = \<lparr>js_pos = 0, toknext = 0, toksuper = - 1\<rparr>"

section \<open>Tokens\<close>

definition jsmn_alloc_token :: "jsmn_parser \<Rightarrow> jsmntok list \<Rightarrow> (jsmn_parser \<times> jsmntok list) option" where
  "jsmn_alloc_token p ts =
     (if toknext p \<ge> length ts then None
      else Some (p\<lparr>toknext := toknext p + 1\<rparr>,
        ts[toknext p := (ts ! toknext p)\<lparr>tok_start := - 1, tok_end := - 1, tok_size := 0\<rparr>]))"

definition jsmn_fill_token :: "jsmntype \<Rightarrow> nat \<Rightarrow> nat \<Rightarrow> jsmntok \<Rightarrow> jsmntok" where
  "jsmn_fill_token ty start fin tok = tok\<lparr>tok_type := ty, tok_start := int start, tok_end := int fin, tok_size := 0\<rparr>"

definition tok_open :: "jsmntok \<Rightarrow> bool" where
  "tok_open t \<longleftrightarrow> tok_start t \<noteq> - 1 \<and> tok_end t = - 1"

text \<open>The loops from \<open>toknext - 1\<close> down to 0.\<close>

fun last_open :: "jsmntok list \<Rightarrow> nat \<Rightarrow> nat option" where
  "last_open ts 0 = None"
| "last_open ts (Suc i) = (if tok_open (ts ! i) then Some i else last_open ts i)"

fun last_container :: "jsmntok list \<Rightarrow> nat \<Rightarrow> nat option" where
  "last_container ts 0 = None"
| "last_container ts (Suc i) =
     (if (tok_type (ts ! i) = JSMN_ARRAY \<or> tok_type (ts ! i) = JSMN_OBJECT) \<and> tok_open (ts ! i)
      then Some i else last_container ts i)"

text \<open>\<open>tokens[parser->toksuper]\<close>, which must lie in the array.\<close>

definition super_of :: "jsmn_parser \<Rightarrow> jsmntok list \<Rightarrow> nat jsmn_res" where
  "super_of p ts = (if 0 \<le> toksuper p \<and> nat (toksuper p) < length ts then Inr (nat (toksuper p)) else Inl Undefined)"

definition bump_super :: "jsmn_parser \<Rightarrow> jsmntok list \<Rightarrow> jsmntok list jsmn_res" where
  "bump_super p ts =
     (if toksuper p \<noteq> - 1
      then rbind (super_of p ts) (\<lambda>i. Inr (ts[i := (ts ! i)\<lparr>tok_size := tok_size (ts ! i) + 1\<rparr>]))
      else Inr ts)"

section \<open>Scanning\<close>

text \<open>The text is read one character at a time, and only inside: a read past its length is \<open>Undefined\<close>. The
  loops go on while there is a character that is not zero.\<close>

definition char_at :: "bytes \<Rightarrow> nat \<Rightarrow> u8 jsmn_res" where
  "char_at js pos = (if pos < length js then Inr (js ! pos) else Inl Undefined)"

definition at_char :: "bytes \<Rightarrow> nat \<Rightarrow> bool jsmn_res" where
  "at_char js pos =
     (if pos < length js then (case char_at js pos of Inl e \<Rightarrow> Inl e | Inr c \<Rightarrow> Inr (c \<noteq> 0)) else Inr False)"

lemma at_char_less: "at_char js pos = Inr True \<Longrightarrow> pos < length js"
  by (simp add: at_char_def split: if_splits)

lemma at_char_simps:
  "at_char js pos = Inr (pos < length js \<and> js ! pos \<noteq> 0)"
  "pos < length js \<Longrightarrow> char_at js pos = Inr (js ! pos)"
  by (simp_all add: at_char_def char_at_def)

definition is_space :: "u8 \<Rightarrow> bool" where
  "is_space c \<longleftrightarrow> c = 9 \<or> c = 13 \<or> c = 10 \<or> c = 32"

text \<open>The characters that end a primitive: colon, white space, comma and closing brackets.\<close>

definition ends_primitive :: "u8 \<Rightarrow> bool" where
  "ends_primitive c \<longleftrightarrow> c = 58 \<or> is_space c \<or> c = 44 \<or> c = 93 \<or> c = 125"

function primitive_scan :: "bytes \<Rightarrow> nat \<Rightarrow> nat jsmn_res" where
  "primitive_scan js pos =
     (case at_char js pos of
        Inl e \<Rightarrow> Inl e
      | Inr go_on \<Rightarrow>
          if \<not> go_on then Inr pos
          else
            (case char_at js pos of
               Inl e \<Rightarrow> Inl e
             | Inr c \<Rightarrow>
                 if ends_primitive c then Inr pos
                 else if c < 32 \<or> c \<ge> 127 then Inl (Code JSMN_ERROR_INVAL)
                 else primitive_scan js (pos + 1)))"
  by pat_completeness auto
termination by (relation "measure (\<lambda>(js, pos). length js - pos)") (auto dest: at_char_less)

definition is_hex :: "u8 \<Rightarrow> bool" where
  "is_hex c \<longleftrightarrow> (c \<ge> 48 \<and> c \<le> 57) \<or> (c \<ge> 65 \<and> c \<le> 70) \<or> (c \<ge> 97 \<and> c \<le> 102)"

text \<open>The digits after a backslash and a \<open>u\<close>: the position after at most \<open>n\<close> of them.\<close>

fun hex_scan :: "nat \<Rightarrow> bytes \<Rightarrow> nat \<Rightarrow> nat jsmn_res" where
  "hex_scan 0 js pos = Inr pos"
| "hex_scan (Suc n) js pos =
     (case at_char js pos of
        Inl e \<Rightarrow> Inl e
      | Inr go_on \<Rightarrow>
          if \<not> go_on then Inr pos
          else
            (case char_at js pos of
               Inl e \<Rightarrow> Inl e
             | Inr c \<Rightarrow> if \<not> is_hex c then Inl (Code JSMN_ERROR_INVAL) else hex_scan n js (pos + 1)))"

text \<open>The characters allowed after a backslash, but for \<open>u\<close>.\<close>

definition is_escape :: "u8 \<Rightarrow> bool" where
  "is_escape c \<longleftrightarrow> c \<in> {34, 47, 92, 98, 102, 114, 110, 116}"

lemma hex_scan_le: "hex_scan n js pos = Inr q \<Longrightarrow> pos \<le> q"
  by (induction n arbitrary: pos) (fastforce split: if_splits sum.splits)+

text \<open>The position of the closing quote.\<close>

function string_scan :: "bytes \<Rightarrow> nat \<Rightarrow> nat jsmn_res" where
  "string_scan js pos =
     (case at_char js pos of
        Inl e \<Rightarrow> Inl e
      | Inr go_on \<Rightarrow>
          if \<not> go_on then Inl (Code JSMN_ERROR_PART)
          else
            (case char_at js pos of
               Inl e \<Rightarrow> Inl e
             | Inr c \<Rightarrow>
                 if c = 34 then Inr pos
                 else if c = 92 \<and> pos + 1 < length js then
                   (case char_at js (pos + 1) of
                      Inl e \<Rightarrow> Inl e
                    | Inr d \<Rightarrow>
                        if is_escape d then string_scan js (pos + 2)
                        else if d = 117 then
                          (case hex_scan 4 js (pos + 2) of
                             Inl e \<Rightarrow> Inl e
                           | Inr q \<Rightarrow> string_scan js ((q - 1) + 1))
                        else Inl (Code JSMN_ERROR_INVAL))
                 else string_scan js (pos + 1)))"
  by pat_completeness auto
termination
  by (relation "measure (\<lambda>(js, pos). length js - pos)") (auto dest!: hex_scan_le at_char_less)

declare primitive_scan.simps [simp del] string_scan.simps [simp del]

section \<open>Parsing\<close>

text \<open>\<open>parser->pos--\<close> on an \<open>unsigned int\<close>.\<close>

definition dec_pos :: "nat \<Rightarrow> nat" where
  "dec_pos n = (if n = 0 then 2 ^ 32 - 1 else n - 1)"

definition jsmn_parse_primitive :: "bytes \<Rightarrow> jsmn_state \<Rightarrow> jsmn_state \<times> unit jsmn_res" where
  "jsmn_parse_primitive js s =
     (case s of (p, tokens) \<Rightarrow>
        case primitive_scan js (js_pos p) of
          Inl e \<Rightarrow> (s, Inl e)
        | Inr fin \<Rightarrow>
            (case tokens of
               None \<Rightarrow> ((p\<lparr>js_pos := dec_pos fin\<rparr>, None), Inr ())
             | Some ts \<Rightarrow>
                 (case jsmn_alloc_token p ts of
                    None \<Rightarrow> (s, Inl (Code JSMN_ERROR_NOMEM))
                  | Some (p', ts') \<Rightarrow>
                      ((p'\<lparr>js_pos := dec_pos fin\<rparr>,
                        Some (ts'[toknext p := jsmn_fill_token JSMN_PRIMITIVE (js_pos p) fin (ts' ! toknext p)])),
                       Inr ()))))"

definition jsmn_parse_string :: "bytes \<Rightarrow> jsmn_state \<Rightarrow> jsmn_state \<times> unit jsmn_res" where
  "jsmn_parse_string js s =
     (case s of (p, tokens) \<Rightarrow>
        case string_scan js (js_pos p + 1) of
          Inl e \<Rightarrow> (s, Inl e)
        | Inr fin \<Rightarrow>
            (case tokens of
               None \<Rightarrow> ((p\<lparr>js_pos := fin\<rparr>, None), Inr ())
             | Some ts \<Rightarrow>
                 (case jsmn_alloc_token p ts of
                    None \<Rightarrow> (s, Inl (Code JSMN_ERROR_NOMEM))
                  | Some (p', ts') \<Rightarrow>
                      ((p'\<lparr>js_pos := fin\<rparr>,
                        Some (ts'[toknext p := jsmn_fill_token JSMN_STRING (js_pos p + 1) fin (ts' ! toknext p)])),
                       Inr ()))))"

text \<open>The size of the superior token, when a value has been added.\<close>

definition count_value :: "jsmn_state \<times> unit jsmn_res \<Rightarrow> jsmn_state \<times> unit jsmn_res" where
  "count_value out =
     (case out of
        (s, Inl e) \<Rightarrow> (s, Inl e)
      | ((p, None), Inr _) \<Rightarrow> ((p, None), Inr ())
      | ((p, Some ts), Inr _) \<Rightarrow>
          (case bump_super p ts of
             Inl e \<Rightarrow> ((p, Some ts), Inl e)
           | Inr ts' \<Rightarrow> ((p, Some ts'), Inr ())))"

text \<open>An opening bracket.\<close>

definition open_container :: "jsmntype \<Rightarrow> jsmn_state \<Rightarrow> jsmn_state \<times> unit jsmn_res" where
  "open_container ty s =
     (case s of
        (p, None) \<Rightarrow> (s, Inr ())
      | (p, Some ts) \<Rightarrow>
          (case jsmn_alloc_token p ts of
             None \<Rightarrow> (s, Inl (Code JSMN_ERROR_NOMEM))
           | Some (p', ts') \<Rightarrow>
               (case bump_super p' ts' of
                  Inl e \<Rightarrow> ((p', Some ts'), Inl e)
                | Inr ts' \<Rightarrow>
                    ((p'\<lparr>toksuper := int (toknext p') - 1\<rparr>,
                      Some (ts'[toknext p := (ts' ! toknext p)\<lparr>tok_type := ty, tok_start := int (js_pos p)\<rparr>])),
                     Inr ()))))"

text \<open>A closing bracket: the innermost open token is closed, and the next one becomes superior.\<close>

definition close_container :: "jsmntype \<Rightarrow> jsmn_state \<Rightarrow> jsmn_state \<times> unit jsmn_res" where
  "close_container ty s =
     (case s of
        (p, None) \<Rightarrow> (s, Inr ())
      | (p, Some ts) \<Rightarrow>
          if length ts < toknext p then (s, Inl Undefined)
          else
            (case last_open ts (toknext p) of
               None \<Rightarrow> (s, Inl (Code JSMN_ERROR_INVAL))
             | Some i \<Rightarrow>
                 if tok_type (ts ! i) \<noteq> ty then (s, Inl (Code JSMN_ERROR_INVAL))
                 else
                   let ts' = ts[i := (ts ! i)\<lparr>tok_end := int (js_pos p) + 1\<rparr>] in
                   ((p\<lparr>toksuper := (case last_open ts' (i + 1) of None \<Rightarrow> - 1 | Some j \<Rightarrow> int j)\<rparr>, Some ts'), Inr ())))"

definition comma :: "jsmn_state \<Rightarrow> jsmn_state \<times> unit jsmn_res" where
  "comma s =
     (case s of
        (p, None) \<Rightarrow> (s, Inr ())
      | (p, Some ts) \<Rightarrow>
          if toksuper p = - 1 then (s, Inr ())
          else
            (case super_of p ts of
               Inl e \<Rightarrow> (s, Inl e)
             | Inr i \<Rightarrow>
                 if tok_type (ts ! i) \<noteq> JSMN_ARRAY \<and> tok_type (ts ! i) \<noteq> JSMN_OBJECT then
                   if length ts < toknext p then (s, Inl Undefined)
                   else ((case last_container ts (toknext p) of
                            None \<Rightarrow> p
                          | Some j \<Rightarrow> p\<lparr>toksuper := int j\<rparr>, Some ts), Inr ())
                 else (s, Inr ())))"

text \<open>One character \<open>c\<close> of the text, and by how much it adds to the count.\<close>

definition jsmn_step :: "u8 \<Rightarrow> bytes \<Rightarrow> jsmn_state \<Rightarrow> jsmn_state \<times> unit jsmn_res" where
  "jsmn_step c js s =
     (if c = 123 then open_container JSMN_OBJECT s
      else if c = 91 then open_container JSMN_ARRAY s
      else if c = 125 then close_container JSMN_OBJECT s
      else if c = 93 then close_container JSMN_ARRAY s
      else if c = 34 then count_value (jsmn_parse_string js s)
      else if is_space c then (s, Inr ())
      else if c = 58 then (((fst s)\<lparr>toksuper := int (toknext (fst s)) - 1\<rparr>, snd s), Inr ())
      else if c = 44 then comma s
      else count_value (jsmn_parse_primitive js s))"

definition adds_token :: "u8 \<Rightarrow> nat" where
  "adds_token c = (if c = 125 \<or> c = 93 \<or> is_space c \<or> c = 58 \<or> c = 44 then 0 else 1)"

definition next_char :: "jsmn_state \<Rightarrow> jsmn_state" where
  "next_char s = ((fst s)\<lparr>js_pos := js_pos (fst s) + 1\<rparr>, snd s)"

section \<open>The parser without the checks of its reads\<close>

function primitive_ends :: "bytes \<Rightarrow> nat \<Rightarrow> nat option" where
  "primitive_ends js pos =
     (if pos < length js \<and> js ! pos \<noteq> 0 then
        if ends_primitive (js ! pos) then Some pos
        else if js ! pos < 32 \<or> js ! pos \<ge> 127 then None
        else primitive_ends js (pos + 1)
      else Some pos)"
  by pat_completeness auto
termination by (relation "measure (\<lambda>(js, pos). length js - pos)") auto

fun hex_ends :: "nat \<Rightarrow> bytes \<Rightarrow> nat \<Rightarrow> nat option" where
  "hex_ends 0 js pos = Some pos"
| "hex_ends (Suc n) js pos =
     (if pos < length js \<and> js ! pos \<noteq> 0 then
        if \<not> is_hex (js ! pos) then None else hex_ends n js (pos + 1)
      else Some pos)"

lemma hex_ends_le: "hex_ends n js pos = Some q \<Longrightarrow> pos \<le> q"
  by (induction n js pos rule: hex_ends.induct) (auto split: if_splits)

function string_ends :: "bytes \<Rightarrow> nat \<Rightarrow> nat jsmn_res" where
  "string_ends js pos =
     (if pos < length js \<and> js ! pos \<noteq> 0 then
        if js ! pos = 34 then Inr pos
        else if js ! pos = 92 \<and> pos + 1 < length js then
          if is_escape (js ! (pos + 1)) then string_ends js (pos + 2)
          else if js ! (pos + 1) = 117 then
            (case hex_ends 4 js (pos + 2) of
               None \<Rightarrow> Inl (Code JSMN_ERROR_INVAL)
             | Some q \<Rightarrow> string_ends js ((q - 1) + 1))
          else Inl (Code JSMN_ERROR_INVAL)
        else string_ends js (pos + 1)
      else Inl (Code JSMN_ERROR_PART))"
  by pat_completeness auto
termination
  by (relation "measure (\<lambda>(js, pos). length js - pos)") (auto dest!: hex_ends_le)

declare primitive_ends.simps [simp del] string_ends.simps [simp del]

lemma primitive_scan_eq:
  "primitive_scan js pos = (case primitive_ends js pos of None \<Rightarrow> Inl (Code JSMN_ERROR_INVAL) | Some q \<Rightarrow> Inr q)"
proof (induction js pos rule: primitive_ends.induct)
  case (1 js pos)
  then show ?case
    by (subst primitive_scan.simps, subst primitive_ends.simps) (simp add: at_char_simps)
qed

lemma hex_scan_eq:
  "hex_scan n js pos = (case hex_ends n js pos of None \<Rightarrow> Inl (Code JSMN_ERROR_INVAL) | Some q \<Rightarrow> Inr q)"
  by (induction n js pos rule: hex_ends.induct) (simp_all add: at_char_simps)

lemma string_scan_eq: "string_scan js pos = string_ends js pos"
proof (induction js pos rule: string_ends.induct)
  case (1 js pos)
  then show ?case
    by (subst string_scan.simps, subst string_ends.simps) (simp add: at_char_simps hex_scan_eq split: option.split)
qed

lemma jsmn_parse_primitive_eq:
  "jsmn_parse_primitive js s =
     (case s of (p, tokens) \<Rightarrow>
        case primitive_ends js (js_pos p) of
          None \<Rightarrow> (s, Inl (Code JSMN_ERROR_INVAL))
        | Some fin \<Rightarrow>
            (case tokens of
               None \<Rightarrow> ((p\<lparr>js_pos := dec_pos fin\<rparr>, None), Inr ())
             | Some ts \<Rightarrow>
                 (case jsmn_alloc_token p ts of
                    None \<Rightarrow> (s, Inl (Code JSMN_ERROR_NOMEM))
                  | Some (p', ts') \<Rightarrow>
                      ((p'\<lparr>js_pos := dec_pos fin\<rparr>,
                        Some (ts'[toknext p := jsmn_fill_token JSMN_PRIMITIVE (js_pos p) fin (ts' ! toknext p)])),
                       Inr ()))))"
  by (simp add: jsmn_parse_primitive_def primitive_scan_eq split: prod.split option.split)

lemma jsmn_parse_string_eq:
  "jsmn_parse_string js s =
     (case s of (p, tokens) \<Rightarrow>
        case string_ends js (js_pos p + 1) of
          Inl e \<Rightarrow> (s, Inl e)
        | Inr fin \<Rightarrow>
            (case tokens of
               None \<Rightarrow> ((p\<lparr>js_pos := fin\<rparr>, None), Inr ())
             | Some ts \<Rightarrow>
                 (case jsmn_alloc_token p ts of
                    None \<Rightarrow> (s, Inl (Code JSMN_ERROR_NOMEM))
                  | Some (p', ts') \<Rightarrow>
                      ((p'\<lparr>js_pos := fin\<rparr>,
                        Some (ts'[toknext p := jsmn_fill_token JSMN_STRING (js_pos p + 1) fin (ts' ! toknext p)])),
                       Inr ()))))"
  by (simp add: jsmn_parse_string_def string_scan_eq)

definition char_step :: "bytes \<Rightarrow> jsmn_state \<Rightarrow> jsmn_state \<times> unit jsmn_res" where
  "char_step js s = jsmn_step (js ! js_pos (fst s)) js s"

lemma char_step_eq:
  "char_step js s =
     (let c = js ! js_pos (fst s) in
      if c = 123 then open_container JSMN_OBJECT s
      else if c = 91 then open_container JSMN_ARRAY s
      else if c = 125 then close_container JSMN_OBJECT s
      else if c = 93 then close_container JSMN_ARRAY s
      else if c = 34 then count_value (jsmn_parse_string js s)
      else if is_space c then (s, Inr ())
      else if c = 58 then (((fst s)\<lparr>toksuper := int (toknext (fst s)) - 1\<rparr>, snd s), Inr ())
      else if c = 44 then comma s
      else count_value (jsmn_parse_primitive js s))"
  by (simp add: char_step_def jsmn_step_def Let_def)

text \<open>No step moves backwards.\<close>

lemma primitive_ends_le: "primitive_ends js pos = Some q \<Longrightarrow> pos \<le> q"
proof (induction js pos rule: primitive_ends.induct)
  case (1 js pos)
  note ih = 1(1) [simplified, rotated 3]
  from 1(2) show ?case
    by (subst (asm) primitive_ends.simps) (auto split: if_splits dest!: ih dest: Suc_leD)
qed

lemma primitive_ends_less:
  "primitive_ends js pos = Some q \<Longrightarrow> pos < length js \<Longrightarrow> js ! pos \<noteq> 0 \<Longrightarrow> \<not> ends_primitive (js ! pos) \<Longrightarrow> pos < q"
  by (subst (asm) primitive_ends.simps) (auto split: if_splits dest!: primitive_ends_le)

lemma string_ends_le: "string_ends js pos = Inr q \<Longrightarrow> pos \<le> q"
proof (induction js pos rule: string_ends.induct)
  case (1 js pos)
  note ih = 1(1) [simplified, rotated 2] 1(2) [simplified, rotated 4] 1(3) [simplified, rotated 3]
  from 1(4) show ?case
    by (subst (asm) string_ends.simps)
      (auto split: if_splits option.splits dest!: ih dest: hex_ends_le Suc_leD)
qed

lemma bump_super_cases:
  "(\<exists>ts'. bump_super p ts = Inr ts') \<or> bump_super p ts = Inl Undefined"
  by (auto simp: bump_super_def super_of_def)

lemma count_value_pos: "count_value out = (s', Inr ()) \<Longrightarrow> snd out = Inr () \<and> js_pos (fst s') = js_pos (fst (fst out))"
  by (auto simp: count_value_def split: prod.splits sum.splits option.splits)

lemma step_forward:
  assumes "char_step js s = (s', Inr ())" "js_pos (fst s) < length js" "js ! js_pos (fst s) \<noteq> 0"
  shows "js_pos (fst s) \<le> js_pos (fst s')"
proof -
  obtain p tokens where s: "s = (p, tokens)" by fastforce
  let ?c = "js ! js_pos p"
  have opens: "js_pos p \<le> js_pos (fst s')" if "open_container ty s = (s', Inr ())" for ty
    using that by (auto simp: open_container_def jsmn_alloc_token_def s split: option.splits sum.splits if_splits)
  have closes: "js_pos p \<le> js_pos (fst s')" if "close_container ty s = (s', Inr ())" for ty
    using that by (auto simp: close_container_def Let_def s split: option.splits if_splits)
  have com: "js_pos p \<le> js_pos (fst s')" if "comma s = (s', Inr ())"
    using that by (auto simp: comma_def s split: option.splits if_splits sum.splits)
  have str: "js_pos p \<le> js_pos (fst s')" if "count_value (jsmn_parse_string js s) = (s', Inr ())"
    using count_value_pos [OF that]
    by (auto simp: jsmn_parse_string_eq jsmn_alloc_token_def s split: sum.splits option.splits if_splits dest!: string_ends_le)
  have prim: "js_pos p \<le> js_pos (fst s')" if "count_value (jsmn_parse_primitive js s) = (s', Inr ())" "\<not> ends_primitive ?c"
    using count_value_pos [OF that(1)] primitive_ends_less [of js "js_pos p"] that(2) assms(2,3)
    by (auto simp: jsmn_parse_primitive_eq jsmn_alloc_token_def dec_pos_def s split: sum.splits option.splits if_splits)
  show ?thesis
    using assms(1) opens closes com str prim
    by (auto simp: char_step_eq Let_def s ends_primitive_def split: if_splits)
qed

text \<open>The loop over the text.\<close>

function jsmn_loop :: "bytes \<Rightarrow> jsmn_state \<Rightarrow> nat \<Rightarrow> jsmn_state \<times> nat jsmn_res" where
  "jsmn_loop js s count =
     (case at_char js (js_pos (fst s)) of
        Inl e \<Rightarrow> (s, Inl e)
      | Inr go_on \<Rightarrow>
          if \<not> go_on then (s, Inr count)
          else
            (case char_at js (js_pos (fst s)) of
               Inl e \<Rightarrow> (s, Inl e)
             | Inr c \<Rightarrow>
                 (case jsmn_step c js s of
                    (s', Inl e) \<Rightarrow> (s', Inl e)
                  | (s', Inr _) \<Rightarrow> jsmn_loop js (next_char s') (count + adds_token c))))"
  by pat_completeness auto
termination
proof (relation "measure (\<lambda>(js, s, count). length js - js_pos (fst s))", goal_cases)
  case (2 js s count go_on c s' r)
  then show ?case using step_forward [of js s s'] by (auto simp: next_char_def at_char_simps char_step_def)
qed simp

declare jsmn_loop.simps [simp del]

definition jsmn_parse :: "bytes \<Rightarrow> jsmn_parser \<Rightarrow> jsmntok list option \<Rightarrow> jsmn_state \<times> nat jsmn_res" where
  "jsmn_parse js p tokens =
     (case jsmn_loop js (p, tokens) (toknext p) of
        (s, Inl e) \<Rightarrow> (s, Inl e)
      | ((p', None), Inr count) \<Rightarrow> ((p', None), Inr count)
      | ((p', Some ts), Inr count) \<Rightarrow>
          if length ts < toknext p' then ((p', Some ts), Inl Undefined)
          else if last_open ts (toknext p') \<noteq> None then ((p', Some ts), Inl (Code JSMN_ERROR_PART))
          else ((p', Some ts), Inr count))"


text \<open>The same without the checks.\<close>

function char_loop :: "bytes \<Rightarrow> jsmn_state \<Rightarrow> nat \<Rightarrow> jsmn_state \<times> nat jsmn_res" where
  "char_loop js s count =
     (if js_pos (fst s) < length js \<and> js ! js_pos (fst s) \<noteq> 0 then
        (case char_step js s of
           (s', Inl e) \<Rightarrow> (s', Inl e)
         | (s', Inr _) \<Rightarrow> char_loop js (next_char s') (count + adds_token (js ! js_pos (fst s))))
      else (s, Inr count))"
  by pat_completeness auto
termination
proof (relation "measure (\<lambda>(js, s, count). length js - js_pos (fst s))", goal_cases)
  case (2 js s count s' r u)
  then show ?case using step_forward [of js s s'] by (auto simp: next_char_def)
qed simp

declare char_loop.simps [simp del]

lemma jsmn_loop_eq: "jsmn_loop js s count = char_loop js s count"
proof (induction js s count rule: char_loop.induct)
  case (1 js s count)
  then show ?case
    by (subst jsmn_loop.simps, subst char_loop.simps)
      (simp add: at_char_simps char_step_def split: prod.split sum.split)
qed

lemma jsmn_parse_eq:
  "jsmn_parse js p tokens =
     (case char_loop js (p, tokens) (toknext p) of
        (s, Inl e) \<Rightarrow> (s, Inl e)
      | ((p', None), Inr count) \<Rightarrow> ((p', None), Inr count)
      | ((p', Some ts), Inr count) \<Rightarrow>
          if length ts < toknext p' then ((p', Some ts), Inl Undefined)
          else if last_open ts (toknext p') \<noteq> None then ((p', Some ts), Inl (Code JSMN_ERROR_PART))
          else ((p', Some ts), Inr count))"
  by (simp add: jsmn_parse_def jsmn_loop_eq)

end
