(* ===== verification/JsmnSafe.thy ===== *)
theory JsmnSafe
  imports Jsmn
begin

text \<open>
  The tokenizer is safe: an invariant of the tokens filled so far, kept by every step, and what a
  whole run returns. A step that fails leaves parser and tokens as they were.
\<close>

section \<open>The invariant\<close>

text \<open>A token is open, with a start before the position, or closed between its start and the position;
  later tokens start later, and lie inside an earlier one or behind it.\<close>

definition tok_ok :: "nat \<Rightarrow> jsmntok \<Rightarrow> bool" where
  "tok_ok pos t \<longleftrightarrow> 0 \<le> tok_start t \<and> tok_start t < int pos \<and>
     (if tok_end t = - 1 then tok_type t = JSMN_OBJECT \<or> tok_type t = JSMN_ARRAY
      else tok_start t \<le> tok_end t \<and> tok_end t \<le> int pos)"

definition nested :: "jsmntok \<Rightarrow> jsmntok \<Rightarrow> bool" where
  "nested t u \<longleftrightarrow> tok_start t < tok_start u \<and>
     (tok_end t = - 1 \<or> tok_end t \<le> tok_start u \<or> (tok_end u \<noteq> - 1 \<and> tok_end u \<le> tok_end t))"

definition toks_ok :: "nat \<Rightarrow> jsmntok list \<Rightarrow> nat \<Rightarrow> bool" where
  "toks_ok pos ts n \<longleftrightarrow> n \<le> length ts \<and> (\<forall>i < n. tok_ok pos (ts ! i)) \<and> (\<forall>j < n. \<forall>i < j. nested (ts ! i) (ts ! j))"

definition jsmn_ok :: "nat \<Rightarrow> jsmn_parser \<Rightarrow> jsmntok list \<Rightarrow> bool" where
  "jsmn_ok len p ts \<longleftrightarrow> js_pos p \<le> len \<and> toks_ok (js_pos p) ts (toknext p) \<and>
     - 1 \<le> toksuper p \<and> toksuper p < int (toknext p)"

lemma tok_ok_mono: "tok_ok pos t \<Longrightarrow> pos \<le> pos' \<Longrightarrow> tok_ok pos' t"
  by (auto simp: tok_ok_def)

lemma toks_ok_mono: "toks_ok pos ts n \<Longrightarrow> pos \<le> pos' \<Longrightarrow> toks_ok pos' ts n"
  by (auto simp: toks_ok_def intro: tok_ok_mono)

lemma open_iff: "tok_ok pos t \<Longrightarrow> tok_open t \<longleftrightarrow> tok_end t = - 1"
  by (auto simp: tok_ok_def tok_open_def)

lemma toks_ok_cong:
  assumes "toks_ok pos ts n" "length ts' = length ts"
    and "\<And>i. i < n \<Longrightarrow> tok_start (ts' ! i) = tok_start (ts ! i) \<and> tok_end (ts' ! i) = tok_end (ts ! i) \<and>
      tok_type (ts' ! i) = tok_type (ts ! i)"
  shows "toks_ok pos ts' n"
  using assms by (simp add: toks_ok_def tok_ok_def nested_def)

lemma toks_ok_add:
  assumes ok: "toks_ok pos ts n" and n: "n < length ts" and pos: "pos \<le> pos'"
    and t: "int pos \<le> tok_start t" "tok_ok pos' t"
  shows "toks_ok pos' (ts[n := t]) (Suc n)"
proof -
  have "nested (ts ! i) t" if "i < n" for i
    using ok t(1) that by (auto simp: toks_ok_def tok_ok_def nested_def split: if_splits)
  then show ?thesis
    using ok n t(2) by (auto simp: toks_ok_def nth_list_update less_Suc_eq intro: tok_ok_mono [OF _ pos])
qed

lemma last_open_cases:
  "case last_open ts n of
     None \<Rightarrow> \<forall>i < n. \<not> tok_open (ts ! i)
   | Some i \<Rightarrow> i < n \<and> tok_open (ts ! i) \<and> (\<forall>j. i < j \<and> j < n \<longrightarrow> \<not> tok_open (ts ! j))"
  by (induction n) (auto simp: less_Suc_eq split: option.splits)

lemma last_container_less: "last_container ts n = Some i \<Longrightarrow> i < n"
  by (induction n) (auto split: if_splits)

lemma toks_ok_close:
  assumes ok: "toks_ok pos ts n" and i: "last_open ts n = Some i"
  shows "toks_ok (Suc pos) (ts[i := (ts ! i)\<lparr>tok_end := int pos + 1\<rparr>]) n"
proof -
  let ?t = "(ts ! i)\<lparr>tok_end := int pos + 1\<rparr>"
  have o: "i < n" "tok_open (ts ! i)" "\<And>j. i < j \<Longrightarrow> j < n \<Longrightarrow> \<not> tok_open (ts ! j)"
    using last_open_cases [of n ts] i by auto
  have tok: "\<And>k. k < n \<Longrightarrow> tok_ok pos (ts ! k)" and len: "n \<le> length ts"
    and nest: "\<And>j k. j < n \<Longrightarrow> k < j \<Longrightarrow> nested (ts ! k) (ts ! j)"
    using ok by (auto simp: toks_ok_def)
  have e: "tok_end (ts ! i) = - 1" "tok_start (ts ! i) < int pos" "0 \<le> tok_start (ts ! i)"
    using tok [OF o(1)] o(2) by (auto simp: tok_open_def tok_ok_def)
  have "nested ?t (ts ! j)" if "i < j" "j < n" for j
    using nest [OF that(2,1)] tok [OF that(2)] o(3) [OF that] by (auto simp: nested_def tok_ok_def tok_open_def split: if_splits)
  moreover have "nested (ts ! k) ?t" if "k < i" for k
    using nest [OF o(1) that] e tok [of k] that o(1) by (auto simp: nested_def tok_ok_def)
  moreover have "tok_ok (Suc pos) ?t" using e by (simp add: tok_ok_def)
  moreover have "tok_ok (Suc pos) (ts ! k)" if "k < n" for k by (rule tok_ok_mono [OF tok [OF that]]) simp
  ultimately show ?thesis
    using len nest o(1) unfolding toks_ok_def by (auto simp: nth_list_update)
qed

section \<open>One step\<close>

text \<open>The outcome of a step: the invariant at the next character, or the old state with an error.\<close>

definition step_good :: "nat \<Rightarrow> jsmn_parser \<Rightarrow> jsmntok list \<Rightarrow> nat \<Rightarrow> jsmn_state \<times> unit jsmn_res \<Rightarrow> bool" where
  "step_good len p ts n out \<longleftrightarrow>
     (\<exists>p' ts'. out = ((p', Some ts'), Inr ()) \<and> jsmn_ok len (fst (next_char (p', Some ts'))) ts' \<and>
        length ts' = length ts \<and> toknext p' = toknext p + n) \<or>
     (\<exists>e. out = ((p, Some ts), Inl (Code e)) \<and> (e = JSMN_ERROR_NOMEM \<longrightarrow> toknext p = length ts))"

lemma bump_super_ok:
  assumes "- 1 \<le> toksuper p" "toksuper p < int n" "n \<le> length ts"
  shows "\<exists>ts'. bump_super p ts = Inr ts' \<and> length ts' = length ts \<and>
    (\<forall>i. tok_start (ts' ! i) = tok_start (ts ! i) \<and> tok_end (ts' ! i) = tok_end (ts ! i) \<and>
       tok_type (ts' ! i) = tok_type (ts ! i))"
  using assms by (auto simp: bump_super_def super_of_def nth_list_update)

text \<open>A string or a primitive.\<close>

lemma value_good:
  assumes ok: "jsmn_ok len p ts" and n: "toknext p < length ts"
    and t: "int (js_pos p) \<le> tok_start t" "tok_ok pos' t" "js_pos p \<le> pos'" "pos' \<le> len"
    and p': "p' = p\<lparr>toknext := toknext p + 1, js_pos := q\<rparr>" "q + 1 = pos'"
  shows "step_good len p ts 1 (count_value ((p', Some (ts[toknext p := t])), Inr ()))"
proof -
  have toks: "toks_ok pos' (ts[toknext p := t]) (Suc (toknext p))"
    using toks_ok_add [OF _ n t(3,1,2)] ok by (simp add: jsmn_ok_def)
  obtain ts' where ts': "bump_super p' (ts[toknext p := t]) = Inr ts'" "length ts' = length (ts[toknext p := t])"
      "\<And>i. tok_start (ts' ! i) = tok_start (ts[toknext p := t] ! i) \<and> tok_end (ts' ! i) = tok_end (ts[toknext p := t] ! i) \<and>
         tok_type (ts' ! i) = tok_type (ts[toknext p := t] ! i)"
    using bump_super_ok [of p' "Suc (toknext p)" "ts[toknext p := t]"] ok n p'(1) by (auto simp: jsmn_ok_def)
  have "toks_ok pos' ts' (Suc (toknext p))" by (rule toks_ok_cong [OF toks ts'(2)]) (rule ts'(3))
  then show ?thesis
    using ts'(1,2) ok t(4) p' by (auto simp: step_good_def count_value_def next_char_def jsmn_ok_def)
qed

lemma string_ends_less: "string_ends js pos = Inr q \<Longrightarrow> q < length js"
proof (induction js pos rule: string_ends.induct)
  case (1 js pos)
  note ih = 1(1) [simplified, rotated 2] 1(2) [simplified, rotated 4] 1(3) [simplified, rotated 3]
  from 1(4) show ?case
    by (subst (asm) string_ends.simps) (auto split: if_splits option.splits dest!: ih)
qed

lemma primitive_ends_bound: "primitive_ends js pos = Some q \<Longrightarrow> pos \<le> length js \<Longrightarrow> q \<le> length js"
proof (induction js pos rule: primitive_ends.induct)
  case (1 js pos)
  note ih = 1(1) [simplified, rotated 3]
  from 1(2,3) show ?case
    by (subst (asm) primitive_ends.simps) (auto split: if_splits dest!: ih)
qed

lemma string_ends_error: "string_ends js pos = Inl e \<Longrightarrow> e = Code JSMN_ERROR_INVAL \<or> e = Code JSMN_ERROR_PART"
proof (induction js pos rule: string_ends.induct)
  case (1 js pos)
  note ih = 1(1) [simplified, rotated 2] 1(2) [simplified, rotated 4] 1(3) [simplified, rotated 3]
  from 1(4) show ?case
    by (subst (asm) string_ends.simps) (auto split: if_splits option.splits dest!: ih)
qed

lemma string_good:
  assumes ok: "jsmn_ok (length js) p ts"
  shows "step_good (length js) p ts 1 (count_value (jsmn_parse_string js (p, Some ts)))"
proof (cases "string_ends js (js_pos p + 1)")
  case (Inl e)
  then show ?thesis
    using string_ends_error [OF Inl] by (auto simp: jsmn_parse_string_eq count_value_def step_good_def)
next
  case (Inr q)
  show ?thesis
  proof (cases "toknext p < length ts")
    case False
    then show ?thesis
      using Inr ok by (auto simp: jsmn_parse_string_eq jsmn_alloc_token_def count_value_def step_good_def jsmn_ok_def toks_ok_def)
  next
    case True
    let ?t = "jsmn_fill_token JSMN_STRING (js_pos p + 1) q ((ts ! toknext p)\<lparr>tok_start := - 1, tok_end := - 1, tok_size := 0\<rparr>)"
    have "js_pos p + 1 \<le> q" "q < length js" using string_ends_le [OF Inr] string_ends_less [OF Inr] by auto
    then have "step_good (length js) p ts 1 (count_value ((p\<lparr>toknext := toknext p + 1, js_pos := q\<rparr>, Some (ts[toknext p := ?t])), Inr ()))"
      by (intro value_good [OF ok True, of _ "q + 1"]) (auto simp: jsmn_fill_token_def tok_ok_def)
    then show ?thesis using Inr True by (simp add: jsmn_parse_string_eq jsmn_alloc_token_def)
  qed
qed

lemma primitive_good:
  assumes ok: "jsmn_ok (length js) p ts" and c: "js_pos p < length js" "js ! js_pos p \<noteq> 0" "\<not> ends_primitive (js ! js_pos p)"
  shows "step_good (length js) p ts 1 (count_value (jsmn_parse_primitive js (p, Some ts)))"
proof (cases "primitive_ends js (js_pos p)")
  case None
  then show ?thesis by (auto simp: jsmn_parse_primitive_eq count_value_def step_good_def)
next
  case (Some q)
  show ?thesis
  proof (cases "toknext p < length ts")
    case False
    then show ?thesis
      using Some ok by (auto simp: jsmn_parse_primitive_eq jsmn_alloc_token_def count_value_def step_good_def jsmn_ok_def toks_ok_def)
  next
    case True
    let ?t = "jsmn_fill_token JSMN_PRIMITIVE (js_pos p) q ((ts ! toknext p)\<lparr>tok_start := - 1, tok_end := - 1, tok_size := 0\<rparr>)"
    have q: "js_pos p < q" "q \<le> length js"
      using primitive_ends_less [OF Some c] primitive_ends_bound [OF Some] c(1) by auto
    then have "step_good (length js) p ts 1
        (count_value ((p\<lparr>toknext := toknext p + 1, js_pos := q - 1\<rparr>, Some (ts[toknext p := ?t])), Inr ()))"
      by (intro value_good [OF ok True, of _ q]) (auto simp: jsmn_fill_token_def tok_ok_def)
    then show ?thesis using Some True q by (simp add: jsmn_parse_primitive_eq jsmn_alloc_token_def dec_pos_def)
  qed
qed

lemma open_good:
  assumes ok: "jsmn_ok len p ts" and c: "js_pos p < len" and ty: "ty = JSMN_OBJECT \<or> ty = JSMN_ARRAY"
  shows "step_good len p ts 1 (open_container ty (p, Some ts))"
proof (cases "toknext p < length ts")
  case False
  then show ?thesis
    using ok by (auto simp: open_container_def jsmn_alloc_token_def step_good_def jsmn_ok_def toks_ok_def)
next
  case True
  let ?p = "p\<lparr>toknext := toknext p + 1\<rparr>"
  let ?t0 = "(ts ! toknext p)\<lparr>tok_start := - 1, tok_end := - 1, tok_size := 0\<rparr>"
  obtain ts' where ts': "bump_super ?p (ts[toknext p := ?t0]) = Inr ts'" "length ts' = length (ts[toknext p := ?t0])"
      "\<And>i. tok_start (ts' ! i) = tok_start (ts[toknext p := ?t0] ! i) \<and> tok_end (ts' ! i) = tok_end (ts[toknext p := ?t0] ! i) \<and>
         tok_type (ts' ! i) = tok_type (ts[toknext p := ?t0] ! i)"
    using bump_super_ok [of ?p "Suc (toknext p)" "ts[toknext p := ?t0]"] ok True by (auto simp: jsmn_ok_def)
  let ?t = "(ts' ! toknext p)\<lparr>tok_type := ty, tok_start := int (js_pos p)\<rparr>"
  have "toks_ok (js_pos p) ts (toknext p)" using ok by (simp add: jsmn_ok_def)
  then have "toks_ok (js_pos p) ts' (toknext p)"
    by (rule toks_ok_cong) (use ts'(2) in simp, simp only: ts'(3), simp)
  moreover have "tok_end ?t = - 1" using ts'(3) [of "toknext p"] True by simp
  ultimately have "toks_ok (Suc (js_pos p)) (ts'[toknext p := ?t]) (Suc (toknext p))"
    using True ts'(2) ty by (intro toks_ok_add [of "js_pos p"]) (simp_all add: tok_ok_def)
  moreover have "open_container ty (p, Some ts) =
      ((?p\<lparr>toksuper := int (toknext p)\<rparr>, Some (ts'[toknext p := ?t])), Inr ())"
    using True ts'(1) by (simp add: open_container_def jsmn_alloc_token_def)
  ultimately show ?thesis
    using ts'(2) c by (simp add: step_good_def next_char_def jsmn_ok_def)
qed

lemma close_good:
  assumes ok: "jsmn_ok len p ts" and c: "js_pos p < len"
  shows "step_good len p ts 0 (close_container ty (p, Some ts))"
proof (cases "last_open ts (toknext p)")
  case None
  then show ?thesis using ok by (auto simp: close_container_def step_good_def jsmn_ok_def toks_ok_def)
next
  case (Some i)
  show ?thesis
  proof (cases "tok_type (ts ! i) = ty")
    case False
    then show ?thesis using Some ok by (auto simp: close_container_def step_good_def jsmn_ok_def toks_ok_def)
  next
    case True
    let ?ts = "ts[i := (ts ! i)\<lparr>tok_end := int (js_pos p) + 1\<rparr>]"
    have "i < toknext p" using last_open_cases [of "toknext p" ts] Some by simp
    moreover have "j < i + 1" if "last_open ?ts (i + 1) = Some j" for j using last_open_cases [of "i + 1" ?ts] that by simp
    moreover have "toks_ok (Suc (js_pos p)) ?ts (toknext p)" using toks_ok_close [OF _ Some] ok by (simp add: jsmn_ok_def)
    ultimately show ?thesis
      using Some True ok c
      by (fastforce simp: close_container_def step_good_def next_char_def jsmn_ok_def Let_def toks_ok_def split: option.splits)
  qed
qed

lemma skip_good: "jsmn_ok len p ts \<Longrightarrow> js_pos p < len \<Longrightarrow> - 1 \<le> s \<Longrightarrow> s < int (toknext p) \<Longrightarrow>
    step_good len p ts 0 ((p\<lparr>toksuper := s\<rparr>, Some ts), Inr ())"
  by (auto simp: step_good_def next_char_def jsmn_ok_def intro: toks_ok_mono)

lemma comma_good:
  assumes ok: "jsmn_ok len p ts" and c: "js_pos p < len"
  shows "step_good len p ts 0 (comma (p, Some ts))"
proof -
  have stay: "step_good len p ts 0 ((p, Some ts), Inr ())"
    using skip_good [OF ok c, of "toksuper p"] ok by (simp add: jsmn_ok_def)
  moreover have "step_good len p ts 0 ((p\<lparr>toksuper := int j\<rparr>, Some ts), Inr ())" if "last_container ts (toknext p) = Some j" for j
    using skip_good [OF ok c, of "int j"] last_container_less [OF that] by simp
  moreover have "super_of p ts = Inr (nat (toksuper p))" if "toksuper p \<noteq> - 1"
    using ok that by (auto simp: super_of_def jsmn_ok_def toks_ok_def)
  ultimately show ?thesis
    using ok by (auto simp: comma_def jsmn_ok_def toks_ok_def split: option.splits)
qed

lemma step_ok:
  assumes ok: "jsmn_ok (length js) p ts" and c: "js_pos p < length js" "js ! js_pos p \<noteq> 0"
  shows "step_good (length js) p ts (adds_token (js ! js_pos p)) (char_step js (p, Some ts))"
proof -
  have "step_good (length js) p ts 0 ((p, Some ts), Inr ())"
    "step_good (length js) p ts 0 ((p\<lparr>toksuper := int (toknext p) - 1\<rparr>, Some ts), Inr ())"
    using skip_good [OF ok c(1), of "toksuper p"] skip_good [OF ok c(1), of "int (toknext p) - 1"] ok
    by (simp_all add: jsmn_ok_def)
  then show ?thesis
    using open_good [OF ok c(1), of JSMN_OBJECT] open_good [OF ok c(1), of JSMN_ARRAY]
      close_good [OF ok c(1), of JSMN_OBJECT] close_good [OF ok c(1), of JSMN_ARRAY]
      string_good [OF ok] comma_good [OF ok c(1)] primitive_good [OF ok c]
    by (auto simp: char_step_eq Let_def adds_token_def is_space_def ends_primitive_def)
qed

section \<open>A whole run\<close>

text \<open>What a run returns: on success the invariant, and a count that is the number of tokens.\<close>

definition loop_good :: "nat \<Rightarrow> jsmntok list \<Rightarrow> jsmn_state \<times> nat jsmn_res \<Rightarrow> bool" where
  "loop_good len ts out \<longleftrightarrow>
     (\<exists>p' ts' r. out = ((p', Some ts'), r) \<and> jsmn_ok len p' ts' \<and> length ts' = length ts \<and>
        (case r of Inr n \<Rightarrow> n = toknext p'
         | Inl f \<Rightarrow> \<exists>e. f = Code e \<and> (e = JSMN_ERROR_NOMEM \<longrightarrow> toknext p' = length ts)))"

lemma loop_ok: "jsmn_ok (length js) p ts \<Longrightarrow> loop_good (length js) ts (char_loop js (p, Some ts) (toknext p))"
proof (induction "length js - js_pos p" arbitrary: p ts rule: less_induct)
  case less
  show ?case
  proof (cases "js_pos p < length js \<and> js ! js_pos p \<noteq> 0")
    case False
    then show ?thesis using less.prems by (subst char_loop.simps) (auto simp: loop_good_def)
  next
    case True
    from step_ok [OF less.prems] True
    have "step_good (length js) p ts (adds_token (js ! js_pos p)) (char_step js (p, Some ts))" by simp
    then consider
        (go) p' ts' where "char_step js (p, Some ts) = ((p', Some ts'), Inr ())" "jsmn_ok (length js) (fst (next_char (p', Some ts'))) ts'"
          "length ts' = length ts" "toknext p' = toknext p + adds_token (js ! js_pos p)"
      | (stop) e where "char_step js (p, Some ts) = ((p, Some ts), Inl (Code e))" "e = JSMN_ERROR_NOMEM \<longrightarrow> toknext p = length ts"
      unfolding step_good_def by (elim disjE exE conjE) metis+
    then show ?thesis
    proof cases
      case go
      have "length js - Suc (js_pos p') < length js - js_pos p"
        using step_forward [OF go(1)] True by (intro diff_less_mono2) simp_all
      then have "loop_good (length js) ts' (char_loop js (p'\<lparr>js_pos := js_pos p' + 1\<rparr>, Some ts') (toknext p'))"
        using less.hyps [of "p'\<lparr>js_pos := js_pos p' + 1\<rparr>" ts'] go(2) by (simp add: next_char_def)
      moreover have "loop_good (length js) ts = loop_good (length js) ts'" unfolding loop_good_def go(3) ..
      ultimately show ?thesis
        using True go(1,4) by (subst char_loop.simps) (simp add: next_char_def)
    next
      case stop
      then show ?thesis
        using True less.prems by (subst char_loop.simps) (simp add: loop_good_def)
    qed
  qed
qed


text \<open>A run that only counts.\<close>

lemma null_step:
  "\<exists>p' r. char_step js (p, None) = ((p', None), r) \<and> (\<forall>f. r = Inl f \<longrightarrow> (\<exists>e. f = Code e))"
  by (auto simp: char_step_eq Let_def open_container_def close_container_def comma_def count_value_def
      jsmn_parse_string_eq jsmn_parse_primitive_eq dest: string_ends_error split: sum.splits option.splits)

lemma null_loop:
  "\<exists>p' r. char_loop js (p, None) count = ((p', None), r) \<and> (\<forall>f. r = Inl f \<longrightarrow> (\<exists>e. f = Code e))"
proof (induction js "(p, None :: jsmntok list option)" count arbitrary: p rule: char_loop.induct)
  case (1 js count p)
  show ?case
  proof (cases "js_pos p < length js \<and> js ! js_pos p \<noteq> 0")
    case True
    obtain p' r where step: "char_step js (p, None) = ((p', None), r)" "\<forall>f. r = Inl f \<longrightarrow> (\<exists>e. f = Code e)"
      using null_step by blast
    then show ?thesis
      using True 1 [of "(p', None)" r] by (cases r) (auto simp: char_loop.simps [of js "(p, None)"] next_char_def)
  qed (auto simp: char_loop.simps [of js "(p, None)"])
qed

text \<open>C19: Started from a parser at its initial values, or from any state an earlier run left behind, the
  tokenizer returns, and never reads outside the text or the tokens: every read of either is checked, and
  no result is \<open>Undefined\<close>. Every token lies inside the text read so far and tokens nest; a run that succeeds
  returns the number of tokens and leaves none of them open, and it is short of tokens only when all of
  them are used. With a null pointer for the tokens it counts, just as safely.\<close>
theorem jsmn_parse_safe:
  assumes "jsmn_ok (length js) p ts"
  shows "(\<exists>p' ts' r. jsmn_parse js p (Some ts) = ((p', Some ts'), r) \<and> jsmn_ok (length js) p' ts' \<and> length ts' = length ts \<and>
    (case r of
       Inr n \<Rightarrow> n = toknext p' \<and> (\<forall>i < n. \<not> tok_open (ts' ! i))
     | Inl f \<Rightarrow> \<exists>e. f = Code e \<and> (e = JSMN_ERROR_NOMEM \<longrightarrow> toknext p' = length ts))) \<and>
    (\<exists>p' r. jsmn_parse js p None = ((p', None), r) \<and> (\<forall>f. r = Inl f \<longrightarrow> (\<exists>e. f = Code e)))"
proof -
  obtain p' ts' r where loop: "char_loop js (p, Some ts) (toknext p) = ((p', Some ts'), r)"
      "jsmn_ok (length js) p' ts'" "length ts' = length ts"
      "case r of Inr n \<Rightarrow> n = toknext p' | Inl f \<Rightarrow> \<exists>e. f = Code e \<and> (e = JSMN_ERROR_NOMEM \<longrightarrow> toknext p' = length ts)"
    using loop_ok [OF assms] unfolding loop_good_def by blast
  then show ?thesis
    using last_open_cases [of "toknext p'" ts'] null_loop [of js p "toknext p"]
    by (cases r; cases "last_open ts' (toknext p')") (auto simp: jsmn_parse_eq jsmn_ok_def toks_ok_def split: sum.splits)
qed

lemma jsmn_ok_init: "jsmn_ok len jsmn_init ts"
  by (simp add: jsmn_ok_def jsmn_init_def toks_ok_def)

definition blank_tok :: jsmntok where
  "blank_tok = \<lparr>tok_type = JSMN_UNDEFINED, tok_start = 0, tok_end = 0, tok_size = 0\<rparr>"

text \<open>A text that is short of tokens, and one that ends with a backslash in a string.\<close>

theorem jsmn_parse_safe_witness:
  "(\<exists>p' ts' r. jsmn_parse (map (of_nat \<circ> of_char) ''[1,{2'') jsmn_init (Some [blank_tok]) = ((p', Some ts'), r) \<and> length ts' = 1) \<and>
   (\<exists>p' ts' e. jsmn_parse [91, 34, 92] jsmn_init (Some [blank_tok, blank_tok]) = ((p', Some ts'), Inl (Code e)) \<and> tok_open (ts' ! 0))"
proof -
  have "jsmn_parse [91, 34, 92] jsmn_init (Some [blank_tok, blank_tok]) =
      ((\<lparr>js_pos = 1, toknext = 1, toksuper = 0\<rparr>,
        Some [\<lparr>tok_type = JSMN_ARRAY, tok_start = 0, tok_end = - 1, tok_size = 0\<rparr>, blank_tok]), Inl (Code JSMN_ERROR_PART))"
    by (simp add: jsmn_parse_eq char_loop.simps char_step_eq open_container_def jsmn_alloc_token_def bump_super_def
        next_char_def count_value_def jsmn_parse_string_eq string_ends.simps jsmn_init_def blank_tok_def)
  then show ?thesis
    using jsmn_parse_safe [OF jsmn_ok_init, of "map (of_nat \<circ> of_char) ''[1,{2''" "[blank_tok]"] by (auto simp: tok_open_def)
qed

end
