(* ===== verification/JsmnModes.thy ===== *)
theory JsmnModes
  imports JsmnSafe
begin

text \<open>
  The three ways the tokenizer is used agree: with the null pointer it returns the number of tokens that a
  run with tokens fills, and a run that was short of tokens, continued on a longer array, ends as a
  run on the longer array does.
\<close>

section \<open>Counting\<close>

text \<open>A step that only counts does as the step with tokens; it fails less often.\<close>

definition count_agrees :: "jsmn_state \<times> unit jsmn_res \<Rightarrow> jsmn_state \<times> unit jsmn_res \<Rightarrow> bool" where
  "count_agrees out cnt \<longleftrightarrow>
     (case out of
        ((p', _), Inr _) \<Rightarrow> \<exists>q'. cnt = ((q', None), Inr ()) \<and> js_pos q' = js_pos p'
      | (_, Inl (Code JSMN_ERROR_NOMEM)) \<Rightarrow> True
      | (_, Inl _) \<Rightarrow> True)"

text \<open>What a step does is chosen by the character alone.\<close>

lemma step_kind:
  obtains (opens) ty where "\<And>s. js_pos (fst s) = pos \<Longrightarrow> char_step js s = open_container ty s"
  | (closes) ty where "\<And>s. js_pos (fst s) = pos \<Longrightarrow> char_step js s = close_container ty s"
  | (str) "\<And>s. js_pos (fst s) = pos \<Longrightarrow> char_step js s = count_value (jsmn_parse_string js s)"
  | (space) "\<And>s. js_pos (fst s) = pos \<Longrightarrow> char_step js s = (s, Inr ())"
  | (colon) "\<And>s. js_pos (fst s) = pos \<Longrightarrow> char_step js s = (((fst s)\<lparr>toksuper := int (toknext (fst s)) - 1\<rparr>, snd s), Inr ())"
  | (com) "\<And>s. js_pos (fst s) = pos \<Longrightarrow> char_step js s = comma s"
  | (prim) "\<And>s. js_pos (fst s) = pos \<Longrightarrow> char_step js s = count_value (jsmn_parse_primitive js s)"
proof -
  let ?c = "js ! pos"
  consider "?c = 123" | "?c = 91" | "?c = 125" | "?c = 93" | "?c = 34" | "is_space ?c" | "?c = 58" | "?c = 44"
    | "?c \<notin> {123, 91, 125, 93, 34, 58, 44}" "\<not> is_space ?c" by blast
  then show thesis
  proof cases
    case 1 then show thesis by (intro opens) (simp add: char_step_eq)
  next
    case 2 then show thesis by (intro opens) (simp add: char_step_eq)
  next
    case 3 then show thesis by (intro closes) (simp add: char_step_eq)
  next
    case 4 then show thesis by (intro closes) (simp add: char_step_eq)
  next
    case 5 then show thesis by (intro str) (simp add: char_step_eq)
  next
    case 6 then show thesis by (intro space) (auto simp: char_step_eq is_space_def Let_def)
  next
    case 7 then show thesis by (intro colon) (simp add: char_step_eq is_space_def)
  next
    case 8 then show thesis by (intro com) (simp add: char_step_eq is_space_def)
  next
    case 9 then show thesis by (intro prim) (simp add: char_step_eq)
  qed
qed

lemma count_value_counts:
  "count_value out = ((p', Some ts'), Inr ()) \<Longrightarrow> \<exists>ts. out = ((p', Some ts), Inr ())"
  by (auto simp: count_value_def split: prod.splits sum.splits option.splits)

lemma open_counts: "open_container ty (p, Some ts) = ((p', Some ts'), Inr ()) \<Longrightarrow> js_pos p' = js_pos p"
  by (auto simp: open_container_def jsmn_alloc_token_def split: if_splits sum.splits)

lemma close_counts: "close_container ty (p, Some ts) = ((p', Some ts'), Inr ()) \<Longrightarrow> js_pos p' = js_pos p"
  by (auto simp: close_container_def Let_def split: if_splits option.splits)

lemma comma_counts: "comma (p, Some ts) = ((p', Some ts'), Inr ()) \<Longrightarrow> js_pos p' = js_pos p"
  by (auto simp: comma_def split: if_splits option.splits sum.splits)

lemma string_counts:
  "jsmn_parse_string js (p, Some ts) = ((p', Some ts'), Inr ()) \<Longrightarrow> string_ends js (js_pos p + 1) = Inr (js_pos p')"
  by (auto simp: jsmn_parse_string_eq jsmn_alloc_token_def split: if_splits sum.splits)

lemma primitive_counts:
  "jsmn_parse_primitive js (p, Some ts) = ((p', Some ts'), Inr ()) \<Longrightarrow>
     \<exists>q. primitive_ends js (js_pos p) = Some q \<and> js_pos p' = dec_pos q"
  by (auto simp: jsmn_parse_primitive_eq jsmn_alloc_token_def split: if_splits option.splits)

text \<open>A step that only counts does as a step with tokens.\<close>

lemma step_counts:
  assumes step: "char_step js (p, Some ts) = ((p', Some ts'), Inr ())" and q: "js_pos q = js_pos p"
  shows "\<exists>q'. char_step js (q, None) = ((q', None), Inr ()) \<and> js_pos q' = js_pos p'"
proof (cases rule: step_kind [of "js_pos p" js])
  case (opens ty)
  show ?thesis using opens [of "(p, Some ts)"] opens [of "(q, None)"] open_counts [of ty p ts p' ts'] step q
    by (simp add: open_container_def)
next
  case (closes ty)
  show ?thesis using closes [of "(p, Some ts)"] closes [of "(q, None)"] close_counts [of ty p ts p' ts'] step q
    by (simp add: close_container_def)
next
  case str
  obtain us where "jsmn_parse_string js (p, Some ts) = ((p', Some us), Inr ())"
    using step str [of "(p, Some ts)"] count_value_counts [of "jsmn_parse_string js (p, Some ts)"] by auto
  then show ?thesis
    using str [of "(q, None)"] string_counts [of js p ts p' us] q by (simp add: jsmn_parse_string_eq count_value_def)
next
  case space
  show ?thesis using space [of "(p, Some ts)"] space [of "(q, None)"] step q by simp
next
  case colon
  show ?thesis using colon [of "(p, Some ts)"] colon [of "(q, None)"] step q by auto
next
  case com
  show ?thesis using com [of "(p, Some ts)"] com [of "(q, None)"] comma_counts [of p ts p' ts'] step q
    by (simp add: comma_def)
next
  case prim
  obtain us where "jsmn_parse_primitive js (p, Some ts) = ((p', Some us), Inr ())"
    using step prim [of "(p, Some ts)"] count_value_counts [of "jsmn_parse_primitive js (p, Some ts)"] by auto
  then show ?thesis
    using prim [of "(q, None)"] primitive_counts [of js p ts p' us] q by (force simp: jsmn_parse_primitive_eq count_value_def)
qed

section \<open>Counting and tokenizing agree\<close>

lemma loop_step:
  "js_pos (fst s) < length js \<Longrightarrow> js ! js_pos (fst s) \<noteq> 0 \<Longrightarrow> char_step js s = (s', Inr u) \<Longrightarrow>
     char_loop js s count = char_loop js (next_char s') (count + adds_token (js ! js_pos (fst s)))"
  by (subst char_loop.simps) simp

lemma loop_stop:
  "js_pos (fst s) < length js \<Longrightarrow> js ! js_pos (fst s) \<noteq> 0 \<Longrightarrow> char_step js s = (s', Inl e) \<Longrightarrow>
     char_loop js s count = (s', Inl e)"
  by (subst char_loop.simps) simp

lemma loop_count_grows: "char_loop js s count = (s', Inr n) \<Longrightarrow> count \<le> n"
proof (induction js s count rule: char_loop.induct)
  case (1 js s count)
  show ?case
  proof (cases "js_pos (fst s) < length js \<and> js ! js_pos (fst s) \<noteq> 0")
    case True
    obtain s2 r where out: "char_step js s = (s2, r)" by fastforce
    then show ?thesis
    proof (cases r)
      case (Inl e)
      then show ?thesis using 1(2) True loop_stop out by simp
    next
      case (Inr u)
      then show ?thesis
        using 1(1) [OF True, of s2 r u] out 1(2) True loop_step [of s js s2 u count] by simp
    qed
  next
    case False
    then show ?thesis using 1(2) by (subst (asm) char_loop.simps) (auto split: if_splits)
  qed
qed

lemma nomem_adds:
  "char_step js (p, Some ts) = (s', Inl (Code JSMN_ERROR_NOMEM)) \<Longrightarrow> adds_token (js ! js_pos p) = 1"
  by (auto simp: char_step_eq Let_def adds_token_def is_space_def close_container_def comma_def super_of_def
      split: if_splits option.splits)

text \<open>The error a loop with tokens may end with, when the loop that counts returned \<open>n\<close>.\<close>

lemma loop_counts:
  assumes "jsmn_ok (length js) p ts" "js_pos q = js_pos p" "char_loop js (q, None) (toknext p) = (cs, cr)"
    and "char_loop js (p, Some ts) (toknext p) = (s', r)"
  shows "(\<forall>n. r = Inr n \<longrightarrow> cr = Inr n) \<and>
    (\<forall>n. cr = Inr n \<longrightarrow> n \<le> length ts \<longrightarrow> r \<in> {Inr n, Inl (Code JSMN_ERROR_INVAL), Inl (Code JSMN_ERROR_PART)})"
  using assms
proof (induction "length js - js_pos p" arbitrary: p q ts rule: less_induct)
  case less
  note q = less.prems(2)
  show ?case
  proof (cases "js_pos p < length js \<and> js ! js_pos p \<noteq> 0")
    case False
    then show ?thesis using less.prems(2-4) by (auto simp: char_loop.simps)
  next
    case True
    let ?n = "toknext p + adds_token (js ! js_pos p)"
    from step_ok [OF less.prems(1)] True
    have "step_good (length js) p ts (adds_token (js ! js_pos p)) (char_step js (p, Some ts))" by simp
    then consider
        (go) p' ts' where "char_step js (p, Some ts) = ((p', Some ts'), Inr ())" "jsmn_ok (length js) (fst (next_char (p', Some ts'))) ts'"
          "length ts' = length ts" "toknext p' = ?n"
      | (stop) e where "char_step js (p, Some ts) = ((p, Some ts), Inl (Code e))" "e = JSMN_ERROR_NOMEM \<longrightarrow> toknext p = length ts"
      unfolding step_good_def by (elim disjE exE conjE) metis+
    then show ?thesis
    proof cases
      case go
      obtain q' where q': "char_step js (q, None) = ((q', None), Inr ())" "js_pos q' = js_pos p'"
        using step_counts [OF go(1) q] by blast
      let ?p = "p'\<lparr>js_pos := js_pos p' + 1\<rparr>" and ?q = "q'\<lparr>js_pos := js_pos q' + 1\<rparr>"
      have "char_loop js (?q, None) (toknext ?p) = (cs, cr)" "char_loop js (?p, Some ts') (toknext ?p) = (s', r)"
        using less.prems(3,4) True go(4) loop_step [of "(q, None)" js _ "()" "toknext p"] loop_step [of "(p, Some ts)" js _ "()" "toknext p"]
        by (simp_all add: next_char_def q q'(1) go(1))
      moreover have "length js - js_pos ?p < length js - js_pos p"
        using step_forward [OF go(1)] True by (intro diff_less_mono2) simp_all
      ultimately show ?thesis
        using less.hyps [of ?p ts' ?q] go(2) q'(2) unfolding go(3) by (simp add: next_char_def)
    next
      case stop
      have r: "r = Inl (Code e)" using less.prems(4) True loop_stop [OF _ _ stop(1)] by simp
      have "length ts < n" if n: "e = JSMN_ERROR_NOMEM" "cr = Inr n" for n
      proof -
        obtain s'' where "char_step js (q, None) = (s'', Inr ())"
          using less.prems(3) True q n(2) loop_stop [of "(q, None)" js]
          by (cases "char_step js (q, None)"; cases "snd (char_step js (q, None))") auto
        then have "char_loop js (next_char s'') (toknext p + adds_token (js ! js_pos p)) = (cs, Inr n)"
          using less.prems(3) True q n(2) loop_step [of "(q, None)" js s'' "()" "toknext p"] by simp
        then have "toknext p + adds_token (js ! js_pos p) \<le> n" by (rule loop_count_grows)
        moreover have "adds_token (js ! js_pos p) = 1" by (rule nomem_adds) (use stop(1) n(1) in simp)
        ultimately have "toknext p + 1 \<le> n" by simp
        then show ?thesis using stop(2) n(1) by simp
      qed
      then show ?thesis using r by (cases e) auto
    qed
  qed
qed


lemma step_none: "char_step js (q, None) = (s', r) \<Longrightarrow> snd s' = None"
  by (auto simp: char_step_eq Let_def open_container_def close_container_def comma_def count_value_def
      jsmn_parse_string_eq jsmn_parse_primitive_eq split: if_splits sum.splits option.splits)

lemma loop_none: "snd (fst (char_loop js (q, None) count)) = None"
proof (induction js "(q, None :: jsmntok list option)" count arbitrary: q rule: char_loop.induct)
  case (1 js count q)
  show ?case
  proof (cases "js_pos q < length js \<and> js ! js_pos q \<noteq> 0")
    case True
    obtain q' r where out: "char_step js (q, None) = ((q', None), r)"
      using step_none [of js q] by (metis prod.collapse)
    then show ?thesis
    proof (cases r)
      case (Inl e)
      then show ?thesis using True loop_stop out by simp
    next
      case (Inr u)
      then show ?thesis
        using 1(1) [of "(q', None)" r u] out True loop_step [of "(q, None)" js "(q', None)" u count]
        by (simp add: next_char_def)
    qed
  next
    case False
    then show ?thesis by (subst char_loop.simps) auto
  qed
qed

text \<open>C31: The two passes agree. A run that fills tokens and succeeds returns the number that the run with
  the null pointer returns; and if that number is not larger than the array, a run with tokens is never
  short of tokens: it returns the number, or refuses the brackets of the text.\<close>

theorem jsmn_two_passes_agree:
  assumes "jsmn_ok (length js) p ts"
  shows "(\<forall>n. snd (jsmn_parse js p (Some ts)) = Inr n \<longrightarrow> snd (jsmn_parse js p None) = Inr n) \<and>
    (\<forall>n. snd (jsmn_parse js p None) = Inr n \<and> n \<le> length ts \<longrightarrow>
      snd (jsmn_parse js p (Some ts)) \<in> {Inr n, Inl (Code JSMN_ERROR_INVAL), Inl (Code JSMN_ERROR_PART)})"
proof -
  obtain cs cr where c: "char_loop js (p, None) (toknext p) = (cs, cr)" by fastforce
  obtain p' ts' r where t: "char_loop js (p, Some ts) (toknext p) = ((p', Some ts'), r)" "jsmn_ok (length js) p' ts'"
    using loop_ok [OF assms] unfolding loop_good_def by blast
  have "snd (jsmn_parse js p None) = cr"
    using c loop_none [of js p "toknext p"] by (auto simp: jsmn_parse_eq split: sum.splits prod.splits)
  moreover have "snd (jsmn_parse js p (Some ts)) \<in> {r, Inl (Code JSMN_ERROR_PART)}"
    using t by (auto simp: jsmn_parse_eq jsmn_ok_def toks_ok_def split: sum.splits)
  ultimately show ?thesis
    using loop_counts [OF assms refl c t(1)] by auto
qed

lemma jsmn_two_passes_agree_witness:
  "snd (jsmn_parse [91, 49, 44, 34, 34, 93] jsmn_init (Some (replicate 3 blank_tok))) \<in>
     {Inr 3, Inl (Code JSMN_ERROR_INVAL), Inl (Code JSMN_ERROR_PART)}"
proof -
  have "snd (jsmn_parse [91, 49, 44, 34, 34, 93] jsmn_init None) = Inr 3" by code_simp
  then show ?thesis
    using jsmn_two_passes_agree [OF jsmn_ok_init, of "[91, 49, 44, 34, 34, 93]" "replicate 3 blank_tok"] by auto
qed

section \<open>Resuming\<close>

lemma last_open_append: "n \<le> length ts \<Longrightarrow> last_open (ts @ us) n = last_open ts n"
  by (induction n) (auto simp: nth_append)

lemma last_container_append: "n \<le> length ts \<Longrightarrow> last_container (ts @ us) n = last_container ts n"
  by (induction n) (auto simp: nth_append)

text \<open>On a longer array an operation does the same, unless it was short of tokens.\<close>

definition grows :: "jsmntok list \<Rightarrow> jsmn_state \<times> 'a jsmn_res \<Rightarrow> jsmn_state \<times> 'a jsmn_res \<Rightarrow> bool" where
  "grows us out out' \<longleftrightarrow>
     (\<exists>p ts r. out = ((p, Some ts), r) \<and> (r = Inl (Code JSMN_ERROR_NOMEM) \<or> out' = ((p, Some (ts @ us)), r)))"

lemma alloc_append:
  "jsmn_alloc_token p ts = Some (p', ts') \<Longrightarrow> jsmn_alloc_token p (ts @ us) = Some (p', ts' @ us)"
  by (auto simp: jsmn_alloc_token_def nth_append list_update_append split: if_splits)

lemma bump_append:
  assumes "- 1 \<le> toksuper p" "toksuper p < int (length ts)"
  shows "bump_super p (ts @ us) = rbind (bump_super p ts) (\<lambda>ts'. Inr (ts' @ us))"
  using assms by (auto simp: bump_super_def super_of_def nth_append list_update_append)

lemma count_value_grows:
  assumes "grows us out out'" "\<And>p ts. out = ((p, Some ts), Inr ()) \<Longrightarrow> - 1 \<le> toksuper p \<and> toksuper p < int (length ts)"
  shows "grows us (count_value out) (count_value out')"
  using assms bump_append
  by (fastforce simp: grows_def count_value_def split: sum.splits)

lemma open_grows:
  assumes ok: "jsmn_ok len p ts"
  shows "grows us (open_container ty (p, Some ts)) (open_container ty (p, Some (ts @ us)))"
proof (cases "jsmn_alloc_token p ts")
  case None
  then show ?thesis by (simp add: open_container_def grows_def)
next
  case (Some a)
  obtain p' ts' where a: "a = (p', ts')" by fastforce
  have p': "p' = p\<lparr>toknext := toknext p + 1\<rparr>" "toknext p < length ts" "length ts' = length ts"
    using Some a by (auto simp: jsmn_alloc_token_def split: if_splits)
  have s: "- 1 \<le> toksuper p'" "toksuper p' < int (length ts')" using ok p' by (auto simp: jsmn_ok_def)
  obtain bs where bs: "bump_super p' ts' = Inr bs" "length bs = length ts'"
    using bump_super_ok [of p' "length ts'" ts'] s by auto
  have "bump_super p' (ts' @ us) = Inr (bs @ us)" using bump_append [OF s, of us] bs by simp
  then show ?thesis
    using Some bs p'(2,3) alloc_append [of p ts p' ts' us]
    by (simp add: a open_container_def grows_def list_update_append nth_append)
qed

lemma close_grows:
  assumes ok: "jsmn_ok len p ts"
  shows "grows us (close_container ty (p, Some ts)) (close_container ty (p, Some (ts @ us)))"
proof -
  have n: "toknext p \<le> length ts" using ok by (simp add: jsmn_ok_def toks_ok_def)
  show ?thesis
  proof (cases "last_open ts (toknext p)")
    case None
    then show ?thesis using n by (simp add: close_container_def grows_def last_open_append)
  next
    case (Some i)
    have i: "i < length ts" using last_open_cases [of "toknext p" ts] Some n by simp
    let ?ts = "ts[i := (ts ! i)\<lparr>tok_end := int (js_pos p) + 1\<rparr>]"
    have "(ts @ us)[i := ((ts @ us) ! i)\<lparr>tok_end := int (js_pos p) + 1\<rparr>] = ?ts @ us"
      using i by (simp add: list_update_append nth_append)
    moreover have "last_open (?ts @ us) (i + 1) = last_open ?ts (i + 1)" using i by (intro last_open_append) simp
    ultimately show ?thesis
      using Some n i by (simp add: close_container_def grows_def last_open_append nth_append Let_def)
  qed
qed

lemma comma_grows:
  assumes ok: "jsmn_ok len p ts"
  shows "grows us (comma (p, Some ts)) (comma (p, Some (ts @ us)))"
  using ok
  by (auto simp: comma_def grows_def super_of_def jsmn_ok_def toks_ok_def last_container_append nth_append)

lemma string_grows:
  "grows us (jsmn_parse_string js (p, Some ts)) (jsmn_parse_string js (p, Some (ts @ us)))"
  by (cases "string_ends js (js_pos p + 1)"; cases "toknext p < length ts")
    (auto simp: jsmn_parse_string_eq grows_def jsmn_alloc_token_def nth_append list_update_append)

lemma primitive_grows:
  "grows us (jsmn_parse_primitive js (p, Some ts)) (jsmn_parse_primitive js (p, Some (ts @ us)))"
  by (cases "primitive_ends js (js_pos p)"; cases "toknext p < length ts")
    (auto simp: jsmn_parse_primitive_eq grows_def jsmn_alloc_token_def nth_append list_update_append)

lemma step_grows:
  assumes ok: "jsmn_ok len p ts"
  shows "grows us (char_step js (p, Some ts)) (char_step js (p, Some (ts @ us)))"
proof -
  have super: "- 1 \<le> toksuper p" "toksuper p < int (toknext p)" using ok by (auto simp: jsmn_ok_def)
  show ?thesis
  proof (cases rule: step_kind [of "js_pos p" js])
    case (opens ty)
    then show ?thesis using open_grows [OF ok] by simp
  next
    case (closes ty)
    then show ?thesis using close_grows [OF ok] by simp
  next
    case str
    have "grows us (count_value (jsmn_parse_string js (p, Some ts))) (count_value (jsmn_parse_string js (p, Some (ts @ us))))"
      using super
      by (intro count_value_grows string_grows)
        (auto simp: jsmn_parse_string_eq jsmn_alloc_token_def split: sum.splits option.splits if_splits)
    then show ?thesis using str by simp
  next
    case space
    then show ?thesis by (simp add: grows_def)
  next
    case colon
    then show ?thesis by (simp add: grows_def)
  next
    case com
    then show ?thesis using comma_grows [OF ok] by simp
  next
    case prim
    have "grows us (count_value (jsmn_parse_primitive js (p, Some ts))) (count_value (jsmn_parse_primitive js (p, Some (ts @ us))))"
      using super
      by (intro count_value_grows primitive_grows)
        (auto simp: jsmn_parse_primitive_eq jsmn_alloc_token_def split: sum.splits option.splits if_splits)
    then show ?thesis using prim by simp
  qed
qed

lemma loop_grows:
  assumes "jsmn_ok (length js) p ts"
    and "char_loop js (p, Some ts) (toknext p) = ((p', Some ts'), Inl (Code JSMN_ERROR_NOMEM))"
  shows "char_loop js (p, Some (ts @ us)) (toknext p) = char_loop js (p', Some (ts' @ us)) (toknext p')"
  using assms
proof (induction "length js - js_pos p" arbitrary: p ts rule: less_induct)
  case less
  show ?case
  proof (cases "js_pos p < length js \<and> js ! js_pos p \<noteq> 0")
    case False
    then show ?thesis using less.prems(2) by (auto simp: char_loop.simps)
  next
    case True
    let ?n = "toknext p + adds_token (js ! js_pos p)"
    from step_ok [OF less.prems(1)] True
    have "step_good (length js) p ts (adds_token (js ! js_pos p)) (char_step js (p, Some ts))" by simp
    then consider
        (go) q qs where "char_step js (p, Some ts) = ((q, Some qs), Inr ())" "jsmn_ok (length js) (fst (next_char (q, Some qs))) qs"
          "length qs = length ts" "toknext q = ?n"
      | (stop) e where "char_step js (p, Some ts) = ((p, Some ts), Inl (Code e))"
      unfolding step_good_def by (elim disjE exE conjE) metis+
    then show ?thesis
    proof cases
      case go
      let ?q = "q\<lparr>js_pos := js_pos q + 1\<rparr>"
      have long: "char_step js (p, Some (ts @ us)) = ((q, Some (qs @ us)), Inr ())"
        using step_grows [OF less.prems(1), of us js] go(1) by (simp add: grows_def)
      have "char_loop js (?q, Some qs) (toknext ?q) = ((p', Some ts'), Inl (Code JSMN_ERROR_NOMEM))"
        using less.prems(2) True go(4) loop_step [of "(p, Some ts)" js _ "()" "toknext p"] by (simp add: next_char_def go(1))
      moreover have "length js - js_pos ?q < length js - js_pos p"
        using step_forward [OF go(1)] True by (intro diff_less_mono2) simp_all
      ultimately have "char_loop js (?q, Some (qs @ us)) (toknext ?q) = char_loop js (p', Some (ts' @ us)) (toknext p')"
        using less.hyps [of ?q qs] go(2) by (simp add: next_char_def)
      then show ?thesis
        using True go(4) long loop_step [of "(p, Some (ts @ us))" js _ "()" "toknext p"] by (simp add: next_char_def)
    next
      case stop
      then have "p' = p \<and> ts' = ts" using less.prems(2) True loop_stop [OF _ _ stop] by simp
      then show ?thesis by simp
    qed
  qed
qed

text \<open>C30: A run that was short of tokens can be continued. When the tokens it has filled are put in front
  of an array of any length and the parser is called again on the same text, it ends with the parser,
  the tokens and the result of one run over the longer array.\<close>

theorem jsmn_resume:
  assumes "jsmn_ok (length js) p ts"
    and "jsmn_parse js p (Some ts) = ((p', Some ts'), Inl (Code JSMN_ERROR_NOMEM))"
  shows "jsmn_parse js p' (Some (ts' @ us)) = jsmn_parse js p (Some (ts @ us))"
proof -
  obtain q qs r where run: "char_loop js (p, Some ts) (toknext p) = ((q, Some qs), r)"
    using loop_ok [OF assms(1)] unfolding loop_good_def by blast
  then have "char_loop js (p, Some ts) (toknext p) = ((p', Some ts'), Inl (Code JSMN_ERROR_NOMEM))"
    using assms(2) by (cases r) (auto simp: jsmn_parse_eq split: if_splits)
  from loop_grows [OF assms(1) this] show ?thesis by (simp add: jsmn_parse_eq)
qed

lemma jsmn_resume_witness:
  "case jsmn_parse [91, 49, 44, 34, 34, 93] jsmn_init (Some (replicate 2 blank_tok)) of
     ((p', Some ts'), r) \<Rightarrow> r = Inl (Code JSMN_ERROR_NOMEM) \<and>
       jsmn_parse [91, 49, 44, 34, 34, 93] p' (Some (ts' @ [blank_tok])) =
       jsmn_parse [91, 49, 44, 34, 34, 93] jsmn_init (Some (replicate 3 blank_tok))
   | _ \<Rightarrow> False"
proof -
  have run: "jsmn_parse [91, 49, 44, 34, 34, 93] jsmn_init (Some (replicate 2 blank_tok)) =
      ((\<lparr>js_pos = 3, toknext = 2, toksuper = 0\<rparr>,
        Some [\<lparr>tok_type = JSMN_ARRAY, tok_start = 0, tok_end = - 1, tok_size = 1\<rparr>,
              \<lparr>tok_type = JSMN_PRIMITIVE, tok_start = 1, tok_end = 2, tok_size = 0\<rparr>]), Inl (Code JSMN_ERROR_NOMEM))"
    by code_simp
  show ?thesis
    using jsmn_resume [OF jsmn_ok_init run, of "[blank_tok]"] unfolding run by (simp add: numeral_3_eq_3 numeral_2_eq_2)
qed

end
