(* ===== verification/JsmnTree.thy ===== *)
theory JsmnTree
  imports JsmnModes
begin

text \<open>
  The tokenizer against the grammar of JSON: for every value, written out without white space, the tokens
  are those of a recursive definition over the value.
\<close>

section \<open>Values, their text and their tokens\<close>

datatype json = Prim bytes | Str bytes | Arr "json list" | Obj "(bytes \<times> json) list"

fun print_json :: "json \<Rightarrow> bytes" and print_elems :: "json list \<Rightarrow> bytes" and print_members :: "(bytes \<times> json) list \<Rightarrow> bytes" where
  "print_json (Prim b) = b"
| "print_json (Str s) = 34 # s @ [34]"
| "print_json (Arr vs) = 91 # print_elems vs @ [93]"
| "print_json (Obj ms) = 123 # print_members ms @ [125]"
| "print_elems [] = []"
| "print_elems (v # vs) = print_json v @ (if vs = [] then [] else 44 # print_elems vs)"
| "print_members [] = []"
| "print_members ((k, v) # ms) = 34 # k @ [34, 58] @ print_json v @ (if ms = [] then [] else 44 # print_members ms)"

definition tok :: "jsmntype \<Rightarrow> nat \<Rightarrow> nat \<Rightarrow> nat \<Rightarrow> jsmntok" where
  "tok ty start fin n = \<lparr>tok_type = ty, tok_start = int start, tok_end = int fin, tok_size = int n\<rparr>"

text \<open>The tokens of a value whose text begins at a position; a key has size 1, a container the number of
  its elements.\<close>

fun toks_json :: "nat \<Rightarrow> json \<Rightarrow> jsmntok list" and toks_elems :: "nat \<Rightarrow> json list \<Rightarrow> jsmntok list"
  and toks_members :: "nat \<Rightarrow> (bytes \<times> json) list \<Rightarrow> jsmntok list" where
  "toks_json pos (Prim b) = [tok JSMN_PRIMITIVE pos (pos + length b) 0]"
| "toks_json pos (Str s) = [tok JSMN_STRING (pos + 1) (pos + 1 + length s) 0]"
| "toks_json pos (Arr vs) = tok JSMN_ARRAY pos (pos + length (print_elems vs) + 2) (length vs) # toks_elems (pos + 1) vs"
| "toks_json pos (Obj ms) = tok JSMN_OBJECT pos (pos + length (print_members ms) + 2) (length ms) # toks_members (pos + 1) ms"
| "toks_elems pos [] = []"
| "toks_elems pos (v # vs) = toks_json pos v @ toks_elems (pos + length (print_json v) + 1) vs"
| "toks_members pos [] = []"
| "toks_members pos ((k, v) # ms) =
     tok JSMN_STRING (pos + 1) (pos + 1 + length k) 1 # toks_json (pos + length k + 3) v @
     toks_members (pos + length k + length (print_json v) + 4) ms"

text \<open>What a string may hold between its quotes, and a primitive.\<close>

function str_ok :: "bytes \<Rightarrow> bool" where
  "str_ok [] = True"
| "str_ok (c # s) =
     (if c = 92 then
        (case s of [] \<Rightarrow> False
         | e # s' \<Rightarrow> if is_escape e then str_ok s'
                     else e = 117 \<and> 4 \<le> length s' \<and> list_all is_hex (take 4 s') \<and> str_ok (drop 4 s'))
      else c \<noteq> 0 \<and> c \<noteq> 34 \<and> str_ok s)"
  by pat_completeness auto
termination by (relation "measure length") auto

definition prim_ok :: "bytes \<Rightarrow> bool" where
  "prim_ok b \<longleftrightarrow> b \<noteq> [] \<and> hd b \<notin> {123, 91, 34} \<and> list_all (\<lambda>c. 32 \<le> c \<and> c < 127 \<and> \<not> ends_primitive c) b"

fun json_ok :: "json \<Rightarrow> bool" and elems_ok :: "json list \<Rightarrow> bool" and members_ok :: "(bytes \<times> json) list \<Rightarrow> bool" where
  "json_ok (Prim b) = prim_ok b"
| "json_ok (Str s) = str_ok s"
| "json_ok (Arr vs) = elems_ok vs"
| "json_ok (Obj ms) = members_ok ms"
| "elems_ok [] = True"
| "elems_ok (v # vs) = (json_ok v \<and> elems_ok vs)"
| "members_ok [] = True"
| "members_ok ((k, v) # ms) = (str_ok k \<and> json_ok v \<and> members_ok ms)"

section \<open>Scanning\<close>

lemma hex_ends_ok:
  "list_all is_hex (take n s) \<Longrightarrow> n \<le> length s \<Longrightarrow> hex_ends n (a @ s @ r) (length a) = Some (length a + n)"
proof (induction n arbitrary: a s)
  case (Suc n)
  then obtain c s' where s: "s = c # s'" by (cases s) auto
  have "hex_ends n ((a @ [c]) @ s' @ r) (length (a @ [c])) = Some (length (a @ [c]) + n)"
    using Suc.prems s by (intro Suc.IH) auto
  moreover have "c \<noteq> 0" "is_hex c" using Suc.prems s by (auto simp: is_hex_def)
  ultimately show ?case using s by simp
qed simp

lemma string_ends_ok: "str_ok s \<Longrightarrow> string_ends (a @ s @ 34 # r) (length a) = Inr (length a + length s)"
proof (induction s arbitrary: a rule: str_ok.induct)
  case 1
  show ?case by (subst string_ends.simps) (simp add: nth_append)
next
  case (2 c s)
  show ?case
  proof (cases "c = 92")
    case False
    have "string_ends ((a @ [c]) @ s @ 34 # r) (length (a @ [c])) = Inr (length (a @ [c]) + length s)"
      using 2(3) [OF False, of "a @ [c]"] 2(4) False by simp
    then show ?thesis using 2(4) False by (subst string_ends.simps) (simp add: nth_append)
  next
    case True
    then obtain e s' where s: "s = e # s'" using 2(4) by (cases s) auto
    show ?thesis
    proof (cases "is_escape e")
      case esc: True
      have "string_ends ((a @ [c, e]) @ s' @ 34 # r) (length (a @ [c, e])) = Inr (length (a @ [c, e]) + length s')"
        using 2(1) [OF True s esc, of "a @ [c, e]"] 2(4) True s esc by simp
      then show ?thesis using True s esc by (subst string_ends.simps) (simp add: nth_append)
    next
      case esc: False
      have e: "e = 117" "4 \<le> length s'" "list_all is_hex (take 4 s')" "str_ok (drop 4 s')"
        using 2(4) True s esc by auto
      have "string_ends ((a @ [c, e] @ take 4 s') @ drop 4 s' @ 34 # r) (length (a @ [c, e] @ take 4 s')) =
          Inr (length (a @ [c, e] @ take 4 s') + length (drop 4 s'))"
        using 2(2) [OF True s esc, of "a @ [c, e] @ take 4 s'"] e by simp
      then have rec: "string_ends (a @ c # e # s' @ 34 # r) (length a + 6) = Inr (length a + 2 + length s')"
        using e(2) by (simp add: min_absorb2) (simp add: append_assoc [symmetric] del: append_assoc)
      have "hex_ends 4 ((a @ [c, e]) @ s' @ 34 # r) (length (a @ [c, e])) = Some (length (a @ [c, e]) + 4)"
        by (rule hex_ends_ok) (use e in auto)
      then show ?thesis
        using True s esc e(1) rec [unfolded add.commute [of "length a" 6]] by (subst string_ends.simps) (simp add: nth_append)
    qed
  qed
qed

lemma primitive_ends_ok:
  "list_all (\<lambda>c. 32 \<le> c \<and> c < 127 \<and> \<not> ends_primitive c) b \<Longrightarrow> r = [] \<or> ends_primitive (hd r) \<Longrightarrow>
     primitive_ends (a @ b @ r) (length a) = Some (length a + length b)"
proof (induction b arbitrary: a)
  case Nil
  then show ?case by (cases r) (auto simp: primitive_ends.simps nth_append)
next
  case (Cons c b)
  have "primitive_ends ((a @ [c]) @ b @ r) (length (a @ [c])) = Some (length (a @ [c]) + length b)"
    using Cons by (intro Cons.IH) auto
  moreover have "c \<noteq> 0" "\<not> c < 32" "\<not> 127 \<le> c" using Cons.prems(1) by auto
  ultimately show ?case using Cons.prems(1) by (subst primitive_ends.simps) (simp add: nth_append)
qed

section \<open>Steps on tokens split at the next one\<close>

definition super_in :: "jsmn_parser \<Rightarrow> jsmntok list \<Rightarrow> bool" where
  "super_in p pre \<longleftrightarrow> toknext p = length pre \<and> - 1 \<le> toksuper p \<and> toksuper p < int (length pre)"

text \<open>One more value under the superior token, and the index of the innermost open token.\<close>

definition bump :: "int \<Rightarrow> jsmntok list \<Rightarrow> jsmntok list" where
  "bump s pre = (if s = - 1 then pre else pre[nat s := (pre ! nat s)\<lparr>tok_size := tok_size (pre ! nat s) + 1\<rparr>])"

definition idx :: "jsmntok list \<Rightarrow> int" where
  "idx pre = (case last_open pre (length pre) of None \<Rightarrow> - 1 | Some i \<Rightarrow> int i)"

lemma length_bump [simp]: "length (bump s pre) = length pre"
  by (simp add: bump_def)

lemma bump_super_in: "super_in p pre \<Longrightarrow> bump_super p (pre @ ts) = Inr (bump (toksuper p) pre @ ts)"
  by (auto simp: bump_super_def super_of_def super_in_def bump_def nth_append list_update_append)

lemma bump_super_at:
  "toksuper p = s \<Longrightarrow> - 1 \<le> s \<Longrightarrow> s < int (length pre) \<Longrightarrow> bump_super p (pre @ ts) = Inr (bump s pre @ ts)"
  by (auto simp: bump_super_def super_of_def bump_def nth_append list_update_append)

lemma open_step:
  assumes p: "super_in p pre" "js_pos p < length js" "js ! js_pos p = (if ty = JSMN_OBJECT then 123 else 91)"
    and ty: "ty = JSMN_OBJECT \<or> ty = JSMN_ARRAY"
  shows "char_loop js (p, Some (pre @ t # rest)) c =
    char_loop js (\<lparr>js_pos = js_pos p + 1, toknext = length pre + 1, toksuper = int (length pre)\<rparr>,
      Some (bump (toksuper p) pre @ \<lparr>tok_type = ty, tok_start = int (js_pos p), tok_end = - 1, tok_size = 0\<rparr> # rest)) (c + 1)"
proof -
  let ?p = "p\<lparr>toknext := toknext p + 1\<rparr>" and ?t = "t\<lparr>tok_start := - 1, tok_end := - 1, tok_size := 0\<rparr>"
  have "bump_super ?p (pre @ ?t # rest) = Inr (bump (toksuper p) pre @ ?t # rest)"
    using p(1) by (intro bump_super_at) (auto simp: super_in_def)
  then have "open_container ty (p, Some (pre @ t # rest)) =
      ((p\<lparr>toknext := length pre + 1, toksuper := int (length pre)\<rparr>,
        Some (bump (toksuper p) pre @ \<lparr>tok_type = ty, tok_start = int (js_pos p), tok_end = - 1, tok_size = 0\<rparr> # rest)), Inr ())"
    using p(1) by (simp add: open_container_def jsmn_alloc_token_def super_in_def nth_append list_update_append)
  then have "char_step js (p, Some (pre @ t # rest)) =
      ((p\<lparr>toknext := length pre + 1, toksuper := int (length pre)\<rparr>,
        Some (bump (toksuper p) pre @ \<lparr>tok_type = ty, tok_start = int (js_pos p), tok_end = - 1, tok_size = 0\<rparr> # rest)), Inr ())"
    using p(3) ty by (auto simp: char_step_eq)
  from loop_step [OF _ _ this, of c] show ?thesis
    using p(2,3) ty by (cases p) (auto simp: next_char_def adds_token_def is_space_def)
qed

lemma string_step:
  assumes p: "super_in p pre" "js_pos p = length a" and js: "js = a @ 34 # s @ 34 # b" "str_ok s"
  shows "char_loop js (p, Some (pre @ t # rest)) c =
    char_loop js (\<lparr>js_pos = length a + length s + 2, toknext = length pre + 1, toksuper = toksuper p\<rparr>,
      Some (bump (toksuper p) pre @ tok JSMN_STRING (length a + 1) (length a + 1 + length s) 0 # rest)) (c + 1)"
proof -
  have "string_ends js (js_pos p + 1) = Inr (length a + 1 + length s)"
    using string_ends_ok [OF js(2), of "a @ [34]" b] p(2) js(1) by simp
  then have "jsmn_parse_string js (p, Some (pre @ t # rest)) =
      ((p\<lparr>toknext := length pre + 1, js_pos := length a + 1 + length s\<rparr>,
        Some (pre @ tok JSMN_STRING (length a + 1) (length a + 1 + length s) 0 # rest)), Inr ())"
    using p by (simp add: jsmn_parse_string_eq jsmn_alloc_token_def super_in_def nth_append list_update_append
        jsmn_fill_token_def tok_def)
  moreover have "bump_super (p\<lparr>toknext := length pre + 1, js_pos := length a + 1 + length s\<rparr>)
      (pre @ tok JSMN_STRING (length a + 1) (length a + 1 + length s) 0 # rest) =
      Inr (bump (toksuper p) pre @ tok JSMN_STRING (length a + 1) (length a + 1 + length s) 0 # rest)"
    using p(1) by (intro bump_super_at) (auto simp: super_in_def)
  ultimately have "char_step js (p, Some (pre @ t # rest)) =
      ((p\<lparr>toknext := length pre + 1, js_pos := length a + 1 + length s\<rparr>,
        Some (bump (toksuper p) pre @ tok JSMN_STRING (length a + 1) (length a + 1 + length s) 0 # rest)), Inr ())"
    using p(2) js(1) by (simp add: char_step_eq count_value_def nth_append)
  from loop_step [OF _ _ this, of c] show ?thesis
    using p(2) js(1) by (cases p) (simp add: next_char_def adds_token_def is_space_def nth_append)
qed

lemma primitive_step:
  assumes p: "super_in p pre" "js_pos p = length a" and js: "js = a @ s @ b" "prim_ok s" "b = [] \<or> ends_primitive (hd b)"
  shows "char_loop js (p, Some (pre @ t # rest)) c =
    char_loop js (\<lparr>js_pos = length a + length s, toknext = length pre + 1, toksuper = toksuper p\<rparr>,
      Some (bump (toksuper p) pre @ tok JSMN_PRIMITIVE (length a) (length a + length s) 0 # rest)) (c + 1)"
proof -
  obtain x s' where s: "s = x # s'" "x \<notin> {123, 91, 34}" "\<not> ends_primitive x" "32 \<le> x"
    using js(2) by (cases s) (auto simp: prim_ok_def)
  have x: "x \<noteq> 0" "x \<notin> {125, 93, 58, 44}" "\<not> is_space x" using s(3,4) by (auto simp: ends_primitive_def)
  have "primitive_ends js (js_pos p) = Some (length a + length s)"
    using primitive_ends_ok [of s b a] js p(2) by (simp add: prim_ok_def)
  then have "jsmn_parse_primitive js (p, Some (pre @ t # rest)) =
      ((p\<lparr>toknext := length pre + 1, js_pos := length a + length s'\<rparr>,
        Some (pre @ tok JSMN_PRIMITIVE (length a) (length a + length s) 0 # rest)), Inr ())"
    using p by (simp add: jsmn_parse_primitive_eq jsmn_alloc_token_def super_in_def nth_append list_update_append
        jsmn_fill_token_def tok_def dec_pos_def s(1))
  moreover have "bump_super (p\<lparr>toknext := length pre + 1, js_pos := length a + length s'\<rparr>)
      (pre @ tok JSMN_PRIMITIVE (length a) (length a + length s) 0 # rest) =
      Inr (bump (toksuper p) pre @ tok JSMN_PRIMITIVE (length a) (length a + length s) 0 # rest)"
    using p(1) by (intro bump_super_at) (auto simp: super_in_def)
  ultimately have "char_step js (p, Some (pre @ t # rest)) =
      ((p\<lparr>toknext := length pre + 1, js_pos := length a + length s'\<rparr>,
        Some (bump (toksuper p) pre @ tok JSMN_PRIMITIVE (length a) (length a + length s) 0 # rest)), Inr ())"
    using p(2) js(1) s x by (simp add: char_step_eq count_value_def nth_append)
  from loop_step [OF _ _ this, of c] show ?thesis
    using p(2) js(1) s x by (cases p) (simp add: next_char_def adds_token_def nth_append)
qed

text \<open>The innermost open token among closed ones.\<close>

lemma last_open_closed: "\<forall>t \<in> set us. \<not> tok_open t \<Longrightarrow> last_open (pre @ us) (length pre + length us) = last_open pre (length pre)"
proof (induction us rule: rev_induct)
  case Nil
  show ?case by simp
next
  case (snoc u us)
  then show ?case
    using last_open_append [of "length pre + length us" "pre @ us" "[u]"] by (simp add: nth_append)
qed

lemma idx_closed: "\<forall>t \<in> set us. \<not> tok_open t \<Longrightarrow> idx (pre @ us) = idx pre"
  using last_open_closed [of us pre] by (simp add: idx_def)

lemma idx_open: "tok_open t \<Longrightarrow> \<forall>u \<in> set us. \<not> tok_open u \<Longrightarrow> idx (pre @ t # us) = int (length pre)"
  using idx_closed [of us "pre @ [t]"] by (simp add: idx_def)

lemma tok_open_bump: "i < length pre \<Longrightarrow> tok_open (bump s pre ! i) = tok_open (pre ! i)"
  by (cases "nat s = i") (simp_all add: bump_def tok_open_def)

lemma idx_bump: "idx (bump s pre) = idx pre"
proof -
  have "n \<le> length pre \<Longrightarrow> last_open (bump s pre) n = last_open pre n" for n
    by (induction n) (auto simp: tok_open_bump)
  then show ?thesis by (simp add: idx_def)
qed

lemma closed_tok [simp]: "\<not> tok_open (tok ty start fin n)"
  by (simp add: tok_def tok_open_def)

lemma toks_closed:
  "t \<in> set (toks_json pos v) \<Longrightarrow> \<not> tok_open t"
  "t \<in> set (toks_elems pos vs) \<Longrightarrow> \<not> tok_open t"
  "t \<in> set (toks_members pos ms) \<Longrightarrow> \<not> tok_open t"
  by (induction pos v and pos vs and pos ms rule: toks_json_toks_elems_toks_members.induct) auto

lemma close_step:
  assumes p: "toknext p = length (pre @ t # us)" "js_pos p < length js" "js ! js_pos p = (if tok_type t = JSMN_OBJECT then 125 else 93)"
    and t: "tok_type t = JSMN_OBJECT \<or> tok_type t = JSMN_ARRAY" "tok_open t" "\<forall>u \<in> set us. \<not> tok_open u"
  shows "char_loop js (p, Some (pre @ t # us @ rest)) c =
    char_loop js (p\<lparr>js_pos := js_pos p + 1, toksuper := idx pre\<rparr>,
      Some (pre @ t\<lparr>tok_end := int (js_pos p) + 1\<rparr> # us @ rest)) c"
proof -
  let ?t = "t\<lparr>tok_end := int (js_pos p) + 1\<rparr>"
  have n: "length pre + Suc (length us) \<le> length (pre @ t # us @ rest)" by simp
  have "last_open ((pre @ t # us) @ rest) (length (pre @ t # us)) = last_open ((pre @ [t]) @ us) (length (pre @ [t]) + length us)"
    using last_open_append [of "length (pre @ t # us)" "pre @ t # us" rest] by simp
  then have "last_open (pre @ t # us @ rest) (toknext p) = Some (length pre)"
    using last_open_closed [OF t(3), of "pre @ [t]"] t(2) p(1) by simp
  moreover have "last_open (pre @ ?t # us @ rest) (length pre + 1) = last_open pre (length pre)"
    using last_open_append [of "length pre" pre "?t # us @ rest"] by (simp add: tok_open_def)
  ultimately have "char_step js (p, Some (pre @ t # us @ rest)) =
      ((p\<lparr>toksuper := idx pre\<rparr>, Some (pre @ ?t # us @ rest)), Inr ())"
    using p t(1) by (auto simp: char_step_eq close_container_def list_update_append idx_def)
  from loop_step [OF _ _ this, of c] show ?thesis
    using p(2,3) t(1) by (cases p) (auto simp: next_char_def adds_token_def)
qed

lemma colon_step:
  assumes "js_pos p < length js" "js ! js_pos p = 58"
  shows "char_loop js (p, Some ts) c = char_loop js (p\<lparr>js_pos := js_pos p + 1, toksuper := int (toknext p) - 1\<rparr>, Some ts) c"
proof -
  have "char_step js (p, Some ts) = ((p\<lparr>toksuper := int (toknext p) - 1\<rparr>, Some ts), Inr ())"
    using assms(2) by (simp add: char_step_eq is_space_def)
  from loop_step [OF _ _ this, of c] show ?thesis
    using assms by (cases p) (simp add: next_char_def adds_token_def)
qed

text \<open>After a comma the innermost open token is superior again.\<close>

lemma last_container_open:
  "last_open ts n = Some i \<Longrightarrow> tok_type (ts ! i) = JSMN_ARRAY \<or> tok_type (ts ! i) = JSMN_OBJECT \<Longrightarrow> last_container ts n = Some i"
  by (induction n) (auto split: if_splits)

lemma comma_step:
  assumes p: "toknext p = length (pre @ t # us)" "js_pos p < length js" "js ! js_pos p = 44"
    and t: "tok_type t = JSMN_OBJECT \<or> tok_type t = JSMN_ARRAY" "tok_open t" "\<forall>u \<in> set us. \<not> tok_open u"
    and s: "toksuper p = int (length pre) \<or>
      (\<exists>i < length us. toksuper p = int (length pre + 1 + i) \<and> tok_type (us ! i) \<noteq> JSMN_OBJECT \<and> tok_type (us ! i) \<noteq> JSMN_ARRAY)"
  shows "char_loop js (p, Some (pre @ t # us @ rest)) c =
    char_loop js (p\<lparr>js_pos := js_pos p + 1, toksuper := int (length pre)\<rparr>, Some (pre @ t # us @ rest)) c"
proof -
  have "last_open ((pre @ t # us) @ rest) (length (pre @ t # us)) = last_open ((pre @ [t]) @ us) (length (pre @ [t]) + length us)"
    using last_open_append [of "length (pre @ t # us)" "pre @ t # us" rest] by simp
  then have "last_open (pre @ t # us @ rest) (toknext p) = Some (length pre)"
    using last_open_closed [OF t(3), of "pre @ [t]"] t(2) p(1) by simp
  then have c: "last_container (pre @ t # us @ rest) (toknext p) = Some (length pre)"
    using t(1) by (intro last_container_open) auto
  have "comma (p, Some (pre @ t # us @ rest)) = ((p\<lparr>toksuper := int (length pre)\<rparr>, Some (pre @ t # us @ rest)), Inr ())"
    using s
  proof
    assume "toksuper p = int (length pre)"
    then show ?thesis using t(1) by (cases p) (auto simp: comma_def super_of_def)
  next
    assume "\<exists>i < length us. toksuper p = int (length pre + 1 + i) \<and> tok_type (us ! i) \<noteq> JSMN_OBJECT \<and> tok_type (us ! i) \<noteq> JSMN_ARRAY"
    then obtain i where i: "i < length us" "toksuper p = int (length pre + 1 + i)"
        "tok_type (us ! i) \<noteq> JSMN_OBJECT" "tok_type (us ! i) \<noteq> JSMN_ARRAY" by blast
    have "(pre @ t # us @ rest) ! (length pre + 1 + i) = us ! i" using i(1) by (simp add: nth_append)
    moreover have "super_of p (pre @ t # us @ rest) = Inr (length pre + 1 + i)" using i(1,2) by (simp add: super_of_def nat_add_distrib)
    ultimately show ?thesis using i c p(1) by (simp add: comma_def)
  qed
  then have "char_step js (p, Some (pre @ t # us @ rest)) = ((p\<lparr>toksuper := int (length pre)\<rparr>, Some (pre @ t # us @ rest)), Inr ())"
    using p(3) by (simp add: char_step_eq is_space_def)
  from loop_step [OF _ _ this, of c] show ?thesis
    using p(2,3) by (cases p) (simp add: next_char_def adds_token_def)
qed

section \<open>Values, elements and members\<close>

text \<open>What a run over a value, over the elements of an array and over the members of an object does.\<close>

definition value_runs :: "json \<Rightarrow> bool" where
  "value_runs v \<longleftrightarrow> (\<forall>js a b p pre mid rest c.
     js = a @ print_json v @ b \<longrightarrow> b = [] \<or> ends_primitive (hd b) \<longrightarrow> super_in p pre \<longrightarrow> js_pos p = length a \<longrightarrow>
     length mid = length (toks_json (length a) v) \<longrightarrow>
     (\<exists>s. (s = toksuper p \<or> s = idx pre) \<and>
        char_loop js (p, Some (pre @ mid @ rest)) c =
        char_loop js (\<lparr>js_pos = length a + length (print_json v), toknext = length pre + length mid, toksuper = s\<rparr>,
          Some (bump (toksuper p) pre @ toks_json (length a) v @ rest)) (c + length mid)))"

definition elems_run :: "json list \<Rightarrow> bool" where
  "elems_run vs \<longleftrightarrow> (\<forall>js a b pre t us mid rest c.
     js = a @ print_elems vs @ 93 # b \<longrightarrow> tok_type t = JSMN_ARRAY \<and> tok_open t \<and> (\<forall>u \<in> set us. \<not> tok_open u) \<longrightarrow>
     length mid = length (toks_elems (length a) vs) \<longrightarrow>
     char_loop js (\<lparr>js_pos = length a, toknext = length pre + 1 + length us, toksuper = int (length pre)\<rparr>,
       Some (pre @ t # us @ mid @ rest)) c =
     char_loop js (\<lparr>js_pos = length a + length (print_elems vs), toknext = length pre + 1 + length us + length mid,
         toksuper = int (length pre)\<rparr>,
       Some (pre @ t\<lparr>tok_size := tok_size t + int (length vs)\<rparr> # us @ toks_elems (length a) vs @ rest)) (c + length mid))"

definition members_run :: "(bytes \<times> json) list \<Rightarrow> bool" where
  "members_run ms \<longleftrightarrow> (\<forall>js a b pre t us mid rest c.
     js = a @ print_members ms @ 125 # b \<longrightarrow> tok_type t = JSMN_OBJECT \<and> tok_open t \<and> (\<forall>u \<in> set us. \<not> tok_open u) \<longrightarrow>
     length mid = length (toks_members (length a) ms) \<longrightarrow>
     (\<exists>s. char_loop js (\<lparr>js_pos = length a, toknext = length pre + 1 + length us, toksuper = int (length pre)\<rparr>,
       Some (pre @ t # us @ mid @ rest)) c =
     char_loop js (\<lparr>js_pos = length a + length (print_members ms), toknext = length pre + 1 + length us + length mid,
         toksuper = s\<rparr>,
       Some (pre @ t\<lparr>tok_size := tok_size t + int (length ms)\<rparr> # us @ toks_members (length a) ms @ rest)) (c + length mid)))"

lemma elems_runD:
  assumes "elems_run vs" "js = a @ print_elems vs @ 93 # b"
    and "tok_type t = JSMN_ARRAY \<and> tok_open t \<and> (\<forall>u \<in> set us. \<not> tok_open u)"
    and "length mid = length (toks_elems (length a) vs)"
  shows "char_loop js (\<lparr>js_pos = length a, toknext = length pre + 1 + length us, toksuper = int (length pre)\<rparr>,
       Some (pre @ t # us @ mid @ rest)) c =
     char_loop js (\<lparr>js_pos = length a + length (print_elems vs), toknext = length pre + 1 + length us + length mid,
         toksuper = int (length pre)\<rparr>,
       Some (pre @ t\<lparr>tok_size := tok_size t + int (length vs)\<rparr> # us @ toks_elems (length a) vs @ rest)) (c + length mid)"
  using assms(1) [unfolded elems_run_def, rule_format, OF assms(2-4)] .

lemma members_runD:
  assumes "members_run ms" "js = a @ print_members ms @ 125 # b"
    and "tok_type t = JSMN_OBJECT \<and> tok_open t \<and> (\<forall>u \<in> set us. \<not> tok_open u)"
    and "length mid = length (toks_members (length a) ms)"
  shows "\<exists>s. char_loop js (\<lparr>js_pos = length a, toknext = length pre + 1 + length us, toksuper = int (length pre)\<rparr>,
       Some (pre @ t # us @ mid @ rest)) c =
     char_loop js (\<lparr>js_pos = length a + length (print_members ms), toknext = length pre + 1 + length us + length mid,
         toksuper = s\<rparr>,
       Some (pre @ t\<lparr>tok_size := tok_size t + int (length ms)\<rparr> # us @ toks_members (length a) ms @ rest)) (c + length mid)"
  using assms(1) [unfolded members_run_def, rule_format, OF assms(2-4)] .

lemma value_runsD:
  assumes "value_runs v" "js = a @ print_json v @ b" "b = [] \<or> ends_primitive (hd b)" "super_in p pre" "js_pos p = length a"
    and "length mid = length (toks_json (length a) v)"
  shows "\<exists>s. (s = toksuper p \<or> s = idx pre) \<and>
        char_loop js (p, Some (pre @ mid @ rest)) c =
        char_loop js (\<lparr>js_pos = length a + length (print_json v), toknext = length pre + length mid, toksuper = s\<rparr>,
          Some (bump (toksuper p) pre @ toks_json (length a) v @ rest)) (c + length mid)"
  using assms(1) [unfolded value_runs_def, rule_format, OF assms(2-6)] .

lemma bump_at: "bump (int (length pre)) (pre @ t # us) = pre @ t\<lparr>tok_size := tok_size t + 1\<rparr> # us"
  by (simp add: bump_def list_update_append nth_append)

lemma split_at: "length m = i + j \<Longrightarrow> \<exists>m1 m2. m = m1 @ m2 \<and> length m1 = i \<and> length m2 = j"
  by (rule exI [of _ "take i m"], rule exI [of _ "drop i m"]) simp

lemma elems_step:
  assumes v: "value_runs v" and vs: "elems_run vs"
  shows "elems_run (v # vs)"
  unfolding elems_run_def
proof (intro allI impI)
  fix js a b c t and pre us mid rest :: "jsmntok list"
  assume js: "js = a @ print_elems (v # vs) @ 93 # b"
    and t: "tok_type t = JSMN_ARRAY \<and> tok_open t \<and> (\<forall>u \<in> set us. \<not> tok_open u)"
    and len: "length mid = length (toks_elems (length a) (v # vs))"
  let ?n = "length (toks_json (length a) v)"
  obtain m1 m2 where mid: "mid = m1 @ m2" "length m1 = ?n" "length m2 = length (toks_elems (length a + length (print_json v) + 1) vs)"
    using split_at [of mid ?n] len by auto
  let ?p = "\<lparr>js_pos = length a, toknext = length pre + 1 + length us, toksuper = int (length pre)\<rparr>"
  let ?t = "t\<lparr>tok_size := tok_size t + 1\<rparr>"
  let ?b = "(if vs = [] then [] else 44 # print_elems vs) @ 93 # b"
  have i: "idx (pre @ t # us) = int (length pre)" using t by (intro idx_open) auto
  have p: "super_in ?p (pre @ t # us)" "js = a @ print_json v @ ?b" "?b = [] \<or> ends_primitive (hd ?b)" "js_pos ?p = length a"
    using js by (auto simp: super_in_def ends_primitive_def)
  obtain s where s: "s = toksuper ?p \<or> s = idx (pre @ t # us)"
      "char_loop js (?p, Some ((pre @ t # us) @ m1 @ m2 @ rest)) c =
       char_loop js (\<lparr>js_pos = length a + length (print_json v), toknext = length (pre @ t # us) + length m1, toksuper = s\<rparr>,
         Some (bump (toksuper ?p) (pre @ t # us) @ toks_json (length a) v @ m2 @ rest)) (c + length m1)"
    using value_runsD [OF v p(2,3,1,4) mid(2)] by blast
  have s': "s = int (length pre)" using s(1) i by auto
  let ?q = "\<lparr>js_pos = length a + length (print_json v), toknext = length pre + 1 + length us + ?n, toksuper = int (length pre)\<rparr>"
  have run: "char_loop js (?p, Some (pre @ t # us @ mid @ rest)) c =
      char_loop js (?q, Some (pre @ ?t # us @ toks_json (length a) v @ m2 @ rest)) (c + ?n)"
    using s(2) mid(1,2) by (simp add: s' bump_at)
  show "char_loop js (?p, Some (pre @ t # us @ mid @ rest)) c =
      char_loop js (\<lparr>js_pos = length a + length (print_elems (v # vs)), toknext = length pre + 1 + length us + length mid,
         toksuper = int (length pre)\<rparr>,
       Some (pre @ t\<lparr>tok_size := tok_size t + int (length (v # vs))\<rparr> # us @ toks_elems (length a) (v # vs) @ rest)) (c + length mid)"
  proof (cases "vs = []")
    case True
    then show ?thesis using run mid by simp
  next
    case False
    let ?us = "us @ toks_json (length a) v" and ?a = "a @ print_json v @ [44]"
    have "char_loop js (?q, Some (pre @ ?t # ?us @ m2 @ rest)) (c + ?n) =
        char_loop js (?q\<lparr>js_pos := js_pos ?q + 1, toksuper := int (length pre)\<rparr>, Some (pre @ ?t # ?us @ m2 @ rest)) (c + ?n)"
      using js False t toks_closed(1) by (intro comma_step) (auto simp: nth_append tok_open_def)
    moreover have "char_loop js (\<lparr>js_pos = length ?a, toknext = length pre + 1 + length ?us, toksuper = int (length pre)\<rparr>,
         Some (pre @ ?t # ?us @ m2 @ rest)) (c + ?n) =
        char_loop js (\<lparr>js_pos = length ?a + length (print_elems vs), toknext = length pre + 1 + length ?us + length m2,
           toksuper = int (length pre)\<rparr>,
         Some (pre @ ?t\<lparr>tok_size := tok_size ?t + int (length vs)\<rparr> # ?us @ toks_elems (length ?a) vs @ rest)) (c + ?n + length m2)"
      using js False mid(3) t toks_closed(1) by (intro elems_runD [OF vs]) (auto simp: tok_open_def)
    ultimately have "char_loop js (?q, Some (pre @ ?t # ?us @ m2 @ rest)) (c + ?n) =
        char_loop js (\<lparr>js_pos = length ?a + length (print_elems vs), toknext = length pre + 1 + length ?us + length m2,
           toksuper = int (length pre)\<rparr>,
         Some (pre @ ?t\<lparr>tok_size := tok_size ?t + int (length vs)\<rparr> # ?us @ toks_elems (length ?a) vs @ rest)) (c + ?n + length m2)"
      by (simp add: add.assoc)
    then show ?thesis using run False mid by (simp add: add.assoc)
  qed
qed

text \<open>A key, its colon and its value.\<close>

lemma member_step:
  assumes v: "value_runs v" and k: "str_ok k" and js: "js = a @ 34 # k @ [34, 58] @ print_json v @ b"
    and b: "b = [] \<or> ends_primitive (hd b)" and t: "tok_open t" "\<forall>u \<in> set us. \<not> tok_open u"
    and len: "length m = length (toks_json (length a + length k + 3) v)"
  shows "\<exists>s. (s = int (length pre) \<or> s = int (length pre + 1 + length us)) \<and>
    char_loop js (\<lparr>js_pos = length a, toknext = length pre + 1 + length us, toksuper = int (length pre)\<rparr>,
      Some (pre @ t # us @ t0 # m @ rest)) c =
    char_loop js (\<lparr>js_pos = length a + length k + 3 + length (print_json v), toknext = length pre + 1 + length us + 1 + length m,
        toksuper = s\<rparr>,
      Some (pre @ t\<lparr>tok_size := tok_size t + 1\<rparr> # us @ tok JSMN_STRING (length a + 1) (length a + 1 + length k) 1 #
        toks_json (length a + length k + 3) v @ rest)) (c + 1 + length m)"
proof -
  let ?p = "\<lparr>js_pos = length a, toknext = length pre + 1 + length us, toksuper = int (length pre)\<rparr>"
  let ?t = "t\<lparr>tok_size := tok_size t + 1\<rparr>" and ?k = "tok JSMN_STRING (length a + 1) (length a + 1 + length k)"
  let ?q = "\<lparr>js_pos = length a + length k + 2, toknext = length pre + 1 + length us + 1, toksuper = int (length pre)\<rparr>"
  let ?r = "\<lparr>js_pos = length a + length k + 3, toknext = length pre + 1 + length us + 1, toksuper = int (length pre + 1 + length us)\<rparr>"
  let ?a = "a @ 34 # k @ [34, 58]" and ?pre = "pre @ ?t # us @ [?k 0]"
  have "char_loop js (?p, Some ((pre @ t # us) @ t0 # m @ rest)) c =
      char_loop js (?q, Some (bump (toksuper ?p) (pre @ t # us) @ ?k 0 # m @ rest)) (c + 1)"
    using string_step [of ?p "pre @ t # us" a js k "[58] @ print_json v @ b" t0 "m @ rest" c] js k by (simp add: super_in_def)
  then have key: "char_loop js (?p, Some (pre @ t # us @ t0 # m @ rest)) c =
      char_loop js (?q, Some (pre @ ?t # us @ ?k 0 # m @ rest)) (c + 1)"
    by (simp add: bump_at)
  have colon: "char_loop js (?q, Some (pre @ ?t # us @ ?k 0 # m @ rest)) (c + 1) =
      char_loop js (?r, Some (?pre @ m @ rest)) (c + 1)"
    using colon_step [of ?q js] js by (simp add: nth_append numeral_3_eq_3)
  have r: "super_in ?r ?pre" "js = ?a @ print_json v @ b" "js_pos ?r = length ?a" "length m = length (toks_json (length ?a) v)"
    using js len by (auto simp: super_in_def numeral_3_eq_3)
  have i: "idx ?pre = int (length pre)"
    using t by (intro idx_open) (auto simp: tok_open_def [of "t\<lparr>tok_size := _\<rparr>"] tok_open_def [of t])
  have bump: "bump (toksuper ?r) ?pre = pre @ ?t # us @ [?k 1]"
    using bump_at [of "pre @ ?t # us" "?k 0" "[]"] by (simp add: tok_def)
  obtain s where "s = toksuper ?r \<or> s = idx ?pre"
      "char_loop js (?r, Some (?pre @ m @ rest)) (c + 1) =
       char_loop js (\<lparr>js_pos = length ?a + length (print_json v), toknext = length ?pre + length m, toksuper = s\<rparr>,
         Some (bump (toksuper ?r) ?pre @ toks_json (length ?a) v @ rest)) (c + 1 + length m)"
    using value_runsD [OF v r(2) b r(1,3,4)] by blast
  then show ?thesis using key colon i unfolding bump by (intro exI [of _ s]) (auto simp: numeral_3_eq_3)
qed

lemma members_step:
  assumes v: "value_runs v" and k: "str_ok k" and ms: "members_run ms"
  shows "members_run ((k, v) # ms)"
  unfolding members_run_def
proof (intro allI impI)
  fix js a b c t and pre us mid rest :: "jsmntok list"
  assume js: "js = a @ print_members ((k, v) # ms) @ 125 # b"
    and t: "tok_type t = JSMN_OBJECT \<and> tok_open t \<and> (\<forall>u \<in> set us. \<not> tok_open u)"
    and len: "length mid = length (toks_members (length a) ((k, v) # ms))"
  let ?v = "toks_json (length a + length k + 3) v"
  obtain t0 mid' where mid0: "mid = t0 # mid'" using len by (cases mid) auto
  obtain m1 m2 where mid: "mid = t0 # m1 @ m2" "length m1 = length ?v"
      "length m2 = length (toks_members (length a + length k + length (print_json v) + 4) ms)"
    using split_at [of mid' "length ?v"] len mid0 by auto
  let ?p = "\<lparr>js_pos = length a, toknext = length pre + 1 + length us, toksuper = int (length pre)\<rparr>"
  let ?t = "t\<lparr>tok_size := tok_size t + 1\<rparr>" and ?k = "tok JSMN_STRING (length a + 1) (length a + 1 + length k) 1"
  let ?b = "(if ms = [] then [] else 44 # print_members ms) @ 125 # b"
  have b: "js = a @ 34 # k @ [34, 58] @ print_json v @ ?b" "?b = [] \<or> ends_primitive (hd ?b)"
    using js by (auto simp: ends_primitive_def)
  have o: "tok_open t" "\<forall>u \<in> set us. \<not> tok_open u" using t by auto
  let ?q = "\<lambda>s. \<lparr>js_pos = length a + length k + 3 + length (print_json v), toknext = length pre + 1 + length us + 1 + length m1, toksuper = s\<rparr>"
  obtain s where s: "s = int (length pre) \<or> s = int (length pre + 1 + length us)"
      "char_loop js (?p, Some (pre @ t # us @ t0 # m1 @ m2 @ rest)) c =
       char_loop js (?q s, Some (pre @ ?t # us @ ?k # ?v @ m2 @ rest)) (c + 1 + length m1)"
    using member_step [OF v k b o mid(2)] by blast
  show "\<exists>s. char_loop js (?p, Some (pre @ t # us @ mid @ rest)) c =
      char_loop js (\<lparr>js_pos = length a + length (print_members ((k, v) # ms)), toknext = length pre + 1 + length us + length mid,
         toksuper = s\<rparr>,
       Some (pre @ t\<lparr>tok_size := tok_size t + int (length ((k, v) # ms))\<rparr> # us @ toks_members (length a) ((k, v) # ms) @ rest)) (c + length mid)"
  proof (cases "ms = []")
    case True
    then show ?thesis using s(2) mid by (intro exI [of _ s]) (simp add: eval_nat_numeral add.assoc)
  next
    case False
    let ?us = "us @ ?k # ?v" and ?a = "a @ 34 # k @ [34, 58] @ print_json v @ [44]"
    have "char_loop js (?q s, Some (pre @ ?t # ?us @ m2 @ rest)) (c + 1 + length m1) =
        char_loop js ((?q s)\<lparr>js_pos := js_pos (?q s) + 1, toksuper := int (length pre)\<rparr>, Some (pre @ ?t # ?us @ m2 @ rest)) (c + 1 + length m1)"
      using b(1) False t toks_closed(1) s(1) mid(2)
      by (intro comma_step) (auto simp: nth_append tok_open_def tok_def intro: exI [of _ "length us"])
    moreover obtain s' where "char_loop js (\<lparr>js_pos = length ?a, toknext = length pre + 1 + length ?us, toksuper = int (length pre)\<rparr>,
         Some (pre @ ?t # ?us @ m2 @ rest)) (c + 1 + length m1) =
        char_loop js (\<lparr>js_pos = length ?a + length (print_members ms), toknext = length pre + 1 + length ?us + length m2,
           toksuper = s'\<rparr>,
         Some (pre @ ?t\<lparr>tok_size := tok_size ?t + int (length ms)\<rparr> # ?us @ toks_members (length ?a) ms @ rest)) (c + 1 + length m1 + length m2)"
    proof -
      have "js = ?a @ print_members ms @ 125 # b" using js False by simp
      moreover have "tok_type ?t = JSMN_OBJECT \<and> tok_open ?t \<and> (\<forall>u \<in> set ?us. \<not> tok_open u)"
        using t toks_closed(1) by (auto simp: tok_open_def tok_def)
      moreover have "length m2 = length (toks_members (length ?a) ms)" using mid(3) by (simp add: eval_nat_numeral add.assoc)
      ultimately show thesis using members_runD [OF ms] that by blast
    qed
    ultimately show ?thesis
      using s(2) mid False by (intro exI [of _ s']) (simp add: eval_nat_numeral add.assoc add.commute add.left_commute)
  qed
qed

lemma prim_runs: "prim_ok s \<Longrightarrow> value_runs (Prim s)"
  unfolding value_runs_def
proof (intro allI impI)
  fix js a b c and p :: jsmn_parser and pre mid rest :: "jsmntok list"
  assume s: "prim_ok s" and js: "js = a @ print_json (Prim s) @ b" and b: "b = [] \<or> ends_primitive (hd b)"
    and p: "super_in p pre" "js_pos p = length a" and len: "length mid = length (toks_json (length a) (Prim s))"
  obtain t where mid: "mid = [t]" using len by (cases mid) auto
  show "\<exists>s'. (s' = toksuper p \<or> s' = idx pre) \<and> char_loop js (p, Some (pre @ mid @ rest)) c =
      char_loop js (\<lparr>js_pos = length a + length (print_json (Prim s)), toknext = length pre + length mid, toksuper = s'\<rparr>,
        Some (bump (toksuper p) pre @ toks_json (length a) (Prim s) @ rest)) (c + length mid)"
    using primitive_step [OF p, of js s b t rest c] js s b mid by (intro exI [of _ "toksuper p"]) simp
qed

lemma str_runs: "str_ok s \<Longrightarrow> value_runs (Str s)"
  unfolding value_runs_def
proof (intro allI impI)
  fix js a b c and p :: jsmn_parser and pre mid rest :: "jsmntok list"
  assume s: "str_ok s" and js: "js = a @ print_json (Str s) @ b"
    and p: "super_in p pre" "js_pos p = length a" and len: "length mid = length (toks_json (length a) (Str s))"
  obtain t where mid: "mid = [t]" using len by (cases mid) auto
  show "\<exists>s'. (s' = toksuper p \<or> s' = idx pre) \<and> char_loop js (p, Some (pre @ mid @ rest)) c =
      char_loop js (\<lparr>js_pos = length a + length (print_json (Str s)), toknext = length pre + length mid, toksuper = s'\<rparr>,
        Some (bump (toksuper p) pre @ toks_json (length a) (Str s) @ rest)) (c + length mid)"
    using string_step [OF p, of js s b t rest c] js s mid by (intro exI [of _ "toksuper p"]) simp
qed

lemma arr_runs:
  assumes vs: "elems_run vs"
  shows "value_runs (Arr vs)"
  unfolding value_runs_def
proof (intro allI impI)
  fix js a b c and p :: jsmn_parser and pre mid rest :: "jsmntok list"
  assume js: "js = a @ print_json (Arr vs) @ b"
    and p: "super_in p pre" "js_pos p = length a" and len: "length mid = length (toks_json (length a) (Arr vs))"
  let ?pre = "bump (toksuper p) pre" and ?n = "length (print_elems vs)"
  let ?t = "\<lparr>tok_type = JSMN_ARRAY, tok_start = int (length a), tok_end = - 1, tok_size = 0\<rparr>"
  obtain t m where mid: "mid = t # m" using len by (cases mid) auto
  let ?p = "\<lparr>js_pos = length a + 1, toknext = length pre + 1, toksuper = int (length pre)\<rparr>"
  let ?q = "\<lparr>js_pos = length a + 1 + ?n, toknext = length pre + 1 + length m, toksuper = int (length pre)\<rparr>"
  have 1: "char_loop js (p, Some (pre @ t # m @ rest)) c = char_loop js (?p, Some (?pre @ ?t # m @ rest)) (c + 1)"
    using open_step [OF p(1), of js JSMN_ARRAY t "m @ rest" c] js p(2) by simp
  have 2: "char_loop js (?p, Some (?pre @ ?t # m @ rest)) (c + 1) =
      char_loop js (?q, Some (?pre @ ?t\<lparr>tok_size := int (length vs)\<rparr> # toks_elems (length a + 1) vs @ rest)) (c + 1 + length m)"
    using elems_runD [OF vs, of js "a @ [91]" b ?t "[]" m ?pre rest "c + 1"] js len mid by (simp add: tok_open_def)
  have 3: "char_loop js (?q, Some (?pre @ ?t\<lparr>tok_size := int (length vs)\<rparr> # toks_elems (length a + 1) vs @ rest)) (c + 1 + length m) =
      char_loop js (?q\<lparr>js_pos := js_pos ?q + 1, toksuper := idx ?pre\<rparr>,
        Some (?pre @ (?t\<lparr>tok_size := int (length vs)\<rparr>)\<lparr>tok_end := int (js_pos ?q) + 1\<rparr> # toks_elems (length a + 1) vs @ rest)) (c + 1 + length m)"
    using js len mid toks_closed(2) by (intro close_step) (auto simp: nth_append tok_open_def)
  show "\<exists>s'. (s' = toksuper p \<or> s' = idx pre) \<and> char_loop js (p, Some (pre @ mid @ rest)) c =
      char_loop js (\<lparr>js_pos = length a + length (print_json (Arr vs)), toknext = length pre + length mid, toksuper = s'\<rparr>,
        Some (?pre @ toks_json (length a) (Arr vs) @ rest)) (c + length mid)"
    using 1 [unfolded 2 3] mid by (intro exI [of _ "idx pre"]) (simp add: idx_bump tok_def add.commute)
qed

lemma obj_runs:
  assumes ms: "members_run ms"
  shows "value_runs (Obj ms)"
  unfolding value_runs_def
proof (intro allI impI)
  fix js a b c and p :: jsmn_parser and pre mid rest :: "jsmntok list"
  assume js: "js = a @ print_json (Obj ms) @ b"
    and p: "super_in p pre" "js_pos p = length a" and len: "length mid = length (toks_json (length a) (Obj ms))"
  let ?pre = "bump (toksuper p) pre" and ?n = "length (print_members ms)"
  let ?t = "\<lparr>tok_type = JSMN_OBJECT, tok_start = int (length a), tok_end = - 1, tok_size = 0\<rparr>"
  obtain t m where mid: "mid = t # m" using len by (cases mid) auto
  let ?p = "\<lparr>js_pos = length a + 1, toknext = length pre + 1, toksuper = int (length pre)\<rparr>"
  let ?q = "\<lambda>s. \<lparr>js_pos = length a + 1 + ?n, toknext = length pre + 1 + length m, toksuper = s\<rparr>"
  have 1: "char_loop js (p, Some (pre @ t # m @ rest)) c = char_loop js (?p, Some (?pre @ ?t # m @ rest)) (c + 1)"
    using open_step [OF p(1), of js JSMN_OBJECT t "m @ rest" c] js p(2) by simp
  obtain s where 2: "char_loop js (?p, Some (?pre @ ?t # m @ rest)) (c + 1) =
      char_loop js (?q s, Some (?pre @ ?t\<lparr>tok_size := int (length ms)\<rparr> # toks_members (length a + 1) ms @ rest)) (c + 1 + length m)"
    using members_runD [OF ms, of js "a @ [123]" b ?t "[]" m ?pre rest "c + 1"] js len mid by (auto simp: tok_open_def)
  have 3: "char_loop js (?q s, Some (?pre @ ?t\<lparr>tok_size := int (length ms)\<rparr> # toks_members (length a + 1) ms @ rest)) (c + 1 + length m) =
      char_loop js ((?q s)\<lparr>js_pos := js_pos (?q s) + 1, toksuper := idx ?pre\<rparr>,
        Some (?pre @ (?t\<lparr>tok_size := int (length ms)\<rparr>)\<lparr>tok_end := int (js_pos (?q s)) + 1\<rparr> # toks_members (length a + 1) ms @ rest)) (c + 1 + length m)"
    using js len mid toks_closed(3) by (intro close_step) (auto simp: nth_append tok_open_def)
  show "\<exists>s'. (s' = toksuper p \<or> s' = idx pre) \<and> char_loop js (p, Some (pre @ mid @ rest)) c =
      char_loop js (\<lparr>js_pos = length a + length (print_json (Obj ms)), toknext = length pre + length mid, toksuper = s'\<rparr>,
        Some (?pre @ toks_json (length a) (Obj ms) @ rest)) (c + length mid)"
    using 1 [unfolded 2 3] mid by (intro exI [of _ "idx pre"]) (simp add: idx_bump tok_def add.commute)
qed

lemma json_runs:
  "json_ok v \<Longrightarrow> value_runs v"
  "elems_ok vs \<Longrightarrow> elems_run vs"
  "members_ok ms \<Longrightarrow> members_run ms"
proof (induction v and vs and ms rule: json_ok_elems_ok_members_ok.induct)
  case 5
  show ?case by (simp add: elems_run_def)
next
  case 7
  show ?case by (auto simp: members_run_def)
qed (simp_all add: prim_runs str_runs arr_runs obj_runs elems_step members_step)

text \<open>C13: The tokenizer reads what the grammar of JSON writes. For every value, written without white
  space and given enough tokens, the run succeeds with the number of tokens of the value; they are, in
  order, the tokens of the value, with the type, the bounds in the text and the number of elements of
  each part, and the tokens behind them are not touched.\<close>

theorem jsmn_parse_print:
  assumes "json_ok v" "length mid = length (toks_json 0 v)"
  shows "\<exists>p'. jsmn_parse (print_json v) jsmn_init (Some (mid @ rest)) =
    ((p', Some (toks_json 0 v @ rest)), Inr (length (toks_json 0 v)))"
proof -
  let ?js = "print_json v" and ?n = "length (toks_json 0 v)"
  let ?p = "\<lambda>s. \<lparr>js_pos = length ?js, toknext = ?n, toksuper = s\<rparr>"
  obtain s where run: "char_loop ?js (jsmn_init, Some ([] @ mid @ rest)) 0 = char_loop ?js (?p s, Some (toks_json 0 v @ rest)) ?n"
    using value_runsD [OF json_runs(1) [OF assms(1)], of ?js "[]" "[]" jsmn_init "[]" mid rest 0] assms(2)
    by (auto simp: super_in_def jsmn_init_def bump_def idx_def)
  have "char_loop ?js (jsmn_init, Some (mid @ rest)) (toknext jsmn_init) = ((?p s, Some (toks_json 0 v @ rest)), Inr ?n)"
    using run by (simp add: char_loop.simps [of _ "(?p s, _)"] jsmn_init_def)
  moreover have "last_open (toks_json 0 v @ rest) ?n = None"
    using last_open_append [of ?n "toks_json 0 v" rest] last_open_closed [of "toks_json 0 v" "[]"] toks_closed(1) by simp
  ultimately show ?thesis by (simp add: jsmn_parse_eq)
qed

lemma jsmn_parse_print_witness:
  "\<exists>p'. jsmn_parse [123, 34, 97, 34, 58, 91, 49, 44, 50, 93, 125] jsmn_init (Some (replicate 6 blank_tok)) =
     ((p', Some [tok JSMN_OBJECT 0 11 1, tok JSMN_STRING 2 3 1, tok JSMN_ARRAY 5 10 2,
        tok JSMN_PRIMITIVE 6 7 0, tok JSMN_PRIMITIVE 8 9 0, blank_tok]), Inr 5)"
proof -
  have "json_ok (Obj [([97], Arr [Prim [49], Prim [50]])])" by (simp add: prim_ok_def ends_primitive_def is_space_def)
  from jsmn_parse_print [OF this, of "replicate 5 blank_tok" "[blank_tok]"] show ?thesis
    by (simp add: eval_nat_numeral)
qed

end
