(* ===== verification/StructField.thy ===== *)
theory StructField
  imports Helper
begin

text \<open>
  Structured fields (\<open>nghttp2_http.c\<close>, second part; \<open>nghttp2_extpri.c\<close>): the parsers of keys, items,
  parameters and inner lists of RFC 8941, and the priority header field of RFC 9218. A pair of pointers
  \<open>[begin, end)\<close> is the list of bytes between them; a parser returns the number of bytes it consumed,
  and \<open>- 1\<close> is \<open>Inl (Code ())\<close>. Reading at \<open>end\<close> is \<open>Undefined\<close>. The lemmas show that no input makes a
  parser read there, that every parser ends, and that it reads what the grammar writes.
\<close>

section \<open>Urgency and incremental flag in one byte\<close>

record extpri =
  urgency :: u32
  inc :: int

definition NGHTTP2_EXTPRI_URGENCY_HIGH :: int where "NGHTTP2_EXTPRI_URGENCY_HIGH = 0"
definition NGHTTP2_EXTPRI_URGENCY_LOW :: int where "NGHTTP2_EXTPRI_URGENCY_LOW = 7"
definition NGHTTP2_EXTPRI_INC_MASK :: u8 where "NGHTTP2_EXTPRI_INC_MASK = 0x80"

definition nghttp2_extpri_uint8_urgency :: "u8 \<Rightarrow> u32" where
  "nghttp2_extpri_uint8_urgency b = ucast (b AND NOT NGHTTP2_EXTPRI_INC_MASK)"

definition nghttp2_extpri_uint8_inc :: "u8 \<Rightarrow> int" where
  "nghttp2_extpri_uint8_inc b = (if b AND NGHTTP2_EXTPRI_INC_MASK \<noteq> 0 then 1 else 0)"

definition nghttp2_extpri_to_uint8 :: "extpri \<Rightarrow> u8" where
  "nghttp2_extpri_to_uint8 e = ucast (push_bit 7 (word_of_int (inc e) :: u32) OR urgency e)"

definition nghttp2_extpri_from_uint8 :: "u8 \<Rightarrow> extpri" where
  "nghttp2_extpri_from_uint8 b = \<lparr>urgency = nghttp2_extpri_uint8_urgency b, inc = nghttp2_extpri_uint8_inc b\<rparr>"

section \<open>Values\<close>

text \<open>A decimal is its digits as an integer and the number of digits behind the point; the source
  divides a \<open>double\<close> by 10 that many times. An inner list keeps no value.\<close>

datatype sf_value =
    SF_BOOLEAN bool
  | SF_INTEGER int
  | SF_DECIMAL int nat
  | SF_STRING bytes
  | SF_TOKEN bytes
  | SF_BYTESEQ bytes
  | SF_INNER_LIST

type_synonym 'a sf = "unit fault + 'a"

abbreviation (input) sf_fail :: "'a sf" where "sf_fail \<equiv> Inl (Code ())"

definition deref :: "bytes \<Rightarrow> u8 sf" where
  "deref s = (case s of [] \<Rightarrow> Inl Undefined | c # _ \<Rightarrow> Inr c)"

text \<open>The loops that advance over the characters of a table, or over white space.\<close>

fun span_len :: "(u8 \<Rightarrow> bool) \<Rightarrow> bytes \<Rightarrow> nat" where
  "span_len ok [] = 0"
| "span_len ok (c # s) = (if ok c then Suc (span_len ok s) else 0)"

definition is_sp :: "u8 \<Rightarrow> bool" where
  "is_sp c \<longleftrightarrow> c = 32"

definition is_ows :: "u8 \<Rightarrow> bool" where
  "is_ows c \<longleftrightarrow> c = 32 \<or> c = 9"

definition in_table :: "int list \<Rightarrow> u8 \<Rightarrow> bool" where
  "in_table tbl c \<longleftrightarrow> tbl ! unat c \<noteq> 0"

definition is_alpha :: "u8 \<Rightarrow> bool" where
  "is_alpha c \<longleftrightarrow> (65 \<le> c \<and> c \<le> 90) \<or> (97 \<le> c \<and> c \<le> 122)"

definition is_digit :: "u8 \<Rightarrow> bool" where
  "is_digit c \<longleftrightarrow> 48 \<le> c \<and> c \<le> 57"

section \<open>Tables\<close>

definition SF_KEY_CHARS :: "int list" where
  "SF_KEY_CHARS = [
    0, 0, 0, 0, 0, 0, 0, 0, 0, 0, 0, 0, 0, 0, 0, 0, 0, 0, 0, 0, 0, 0, 0, 0, 0, 0, 0, 0, 0, 0, 0, 0,
    0, 0, 0, 0, 0, 0, 0, 0, 0, 0, 1, 0, 0, 1, 1, 0, 1, 1, 1, 1, 1, 1, 1, 1, 1, 1, 0, 0, 0, 0, 0, 0,
    0, 0, 0, 0, 0, 0, 0, 0, 0, 0, 0, 0, 0, 0, 0, 0, 0, 0, 0, 0, 0, 0, 0, 0, 0, 0, 0, 0, 0, 0, 0, 1,
    0, 1, 1, 1, 1, 1, 1, 1, 1, 1, 1, 1, 1, 1, 1, 1, 1, 1, 1, 1, 1, 1, 1, 1, 1, 1, 1, 0, 0, 0, 0, 0,
    0, 0, 0, 0, 0, 0, 0, 0, 0, 0, 0, 0, 0, 0, 0, 0, 0, 0, 0, 0, 0, 0, 0, 0, 0, 0, 0, 0, 0, 0, 0, 0,
    0, 0, 0, 0, 0, 0, 0, 0, 0, 0, 0, 0, 0, 0, 0, 0, 0, 0, 0, 0, 0, 0, 0, 0, 0, 0, 0, 0, 0, 0, 0, 0,
    0, 0, 0, 0, 0, 0, 0, 0, 0, 0, 0, 0, 0, 0, 0, 0, 0, 0, 0, 0, 0, 0, 0, 0, 0, 0, 0, 0, 0, 0, 0, 0,
    0, 0, 0, 0, 0, 0, 0, 0, 0, 0, 0, 0, 0, 0, 0, 0, 0, 0, 0, 0, 0, 0, 0, 0, 0, 0, 0, 0, 0, 0, 0, 0]"

definition SF_DQUOTE_CHARS :: "int list" where
  "SF_DQUOTE_CHARS = [
    0, 0, 0, 0, 0, 0, 0, 0, 0, 0, 0, 0, 0, 0, 0, 0, 0, 0, 0, 0, 0, 0, 0, 0, 0, 0, 0, 0, 0, 0, 0, 0,
    1, 1, 0, 1, 1, 1, 1, 1, 1, 1, 1, 1, 1, 1, 1, 1, 1, 1, 1, 1, 1, 1, 1, 1, 1, 1, 1, 1, 1, 1, 1, 1,
    1, 1, 1, 1, 1, 1, 1, 1, 1, 1, 1, 1, 1, 1, 1, 1, 1, 1, 1, 1, 1, 1, 1, 1, 1, 1, 1, 1, 0, 1, 1, 1,
    1, 1, 1, 1, 1, 1, 1, 1, 1, 1, 1, 1, 1, 1, 1, 1, 1, 1, 1, 1, 1, 1, 1, 1, 1, 1, 1, 1, 1, 1, 1, 0,
    0, 0, 0, 0, 0, 0, 0, 0, 0, 0, 0, 0, 0, 0, 0, 0, 0, 0, 0, 0, 0, 0, 0, 0, 0, 0, 0, 0, 0, 0, 0, 0,
    0, 0, 0, 0, 0, 0, 0, 0, 0, 0, 0, 0, 0, 0, 0, 0, 0, 0, 0, 0, 0, 0, 0, 0, 0, 0, 0, 0, 0, 0, 0, 0,
    0, 0, 0, 0, 0, 0, 0, 0, 0, 0, 0, 0, 0, 0, 0, 0, 0, 0, 0, 0, 0, 0, 0, 0, 0, 0, 0, 0, 0, 0, 0, 0,
    0, 0, 0, 0, 0, 0, 0, 0, 0, 0, 0, 0, 0, 0, 0, 0, 0, 0, 0, 0, 0, 0, 0, 0, 0, 0, 0, 0, 0, 0, 0, 0]"

definition SF_TOKEN_CHARS :: "int list" where
  "SF_TOKEN_CHARS = [
    0, 0, 0, 0, 0, 0, 0, 0, 0, 0, 0, 0, 0, 0, 0, 0, 0, 0, 0, 0, 0, 0, 0, 0, 0, 0, 0, 0, 0, 0, 0, 0,
    0, 1, 0, 1, 1, 1, 1, 1, 0, 0, 1, 1, 0, 1, 1, 1, 1, 1, 1, 1, 1, 1, 1, 1, 1, 1, 1, 0, 0, 0, 0, 0,
    0, 1, 1, 1, 1, 1, 1, 1, 1, 1, 1, 1, 1, 1, 1, 1, 1, 1, 1, 1, 1, 1, 1, 1, 1, 1, 1, 0, 0, 0, 1, 1,
    1, 1, 1, 1, 1, 1, 1, 1, 1, 1, 1, 1, 1, 1, 1, 1, 1, 1, 1, 1, 1, 1, 1, 1, 1, 1, 1, 0, 1, 0, 1, 0,
    0, 0, 0, 0, 0, 0, 0, 0, 0, 0, 0, 0, 0, 0, 0, 0, 0, 0, 0, 0, 0, 0, 0, 0, 0, 0, 0, 0, 0, 0, 0, 0,
    0, 0, 0, 0, 0, 0, 0, 0, 0, 0, 0, 0, 0, 0, 0, 0, 0, 0, 0, 0, 0, 0, 0, 0, 0, 0, 0, 0, 0, 0, 0, 0,
    0, 0, 0, 0, 0, 0, 0, 0, 0, 0, 0, 0, 0, 0, 0, 0, 0, 0, 0, 0, 0, 0, 0, 0, 0, 0, 0, 0, 0, 0, 0, 0,
    0, 0, 0, 0, 0, 0, 0, 0, 0, 0, 0, 0, 0, 0, 0, 0, 0, 0, 0, 0, 0, 0, 0, 0, 0, 0, 0, 0, 0, 0, 0, 0]"

definition SF_BYTESEQ_CHARS :: "int list" where
  "SF_BYTESEQ_CHARS = [
    0, 0, 0, 0, 0, 0, 0, 0, 0, 0, 0, 0, 0, 0, 0, 0, 0, 0, 0, 0, 0, 0, 0, 0, 0, 0, 0, 0, 0, 0, 0, 0,
    0, 0, 0, 0, 0, 0, 0, 0, 0, 0, 0, 1, 0, 0, 0, 1, 1, 1, 1, 1, 1, 1, 1, 1, 1, 1, 0, 0, 0, 1, 0, 0,
    0, 1, 1, 1, 1, 1, 1, 1, 1, 1, 1, 1, 1, 1, 1, 1, 1, 1, 1, 1, 1, 1, 1, 1, 1, 1, 1, 0, 0, 0, 0, 0,
    0, 1, 1, 1, 1, 1, 1, 1, 1, 1, 1, 1, 1, 1, 1, 1, 1, 1, 1, 1, 1, 1, 1, 1, 1, 1, 1, 0, 0, 0, 0, 0,
    0, 0, 0, 0, 0, 0, 0, 0, 0, 0, 0, 0, 0, 0, 0, 0, 0, 0, 0, 0, 0, 0, 0, 0, 0, 0, 0, 0, 0, 0, 0, 0,
    0, 0, 0, 0, 0, 0, 0, 0, 0, 0, 0, 0, 0, 0, 0, 0, 0, 0, 0, 0, 0, 0, 0, 0, 0, 0, 0, 0, 0, 0, 0, 0,
    0, 0, 0, 0, 0, 0, 0, 0, 0, 0, 0, 0, 0, 0, 0, 0, 0, 0, 0, 0, 0, 0, 0, 0, 0, 0, 0, 0, 0, 0, 0, 0,
    0, 0, 0, 0, 0, 0, 0, 0, 0, 0, 0, 0, 0, 0, 0, 0, 0, 0, 0, 0, 0, 0, 0, 0, 0, 0, 0, 0, 0, 0, 0, 0]"

lemma SF_KEY_CHARS_runs:
  "SF_KEY_CHARS = expand 0
     [(42, 0), (43, 1), (45, 0), (47, 1), (48, 0), (58, 1), (95, 0), (96, 1), (97, 0), (123, 1), (256, 0)]"
  by (simp add: SF_KEY_CHARS_def replicate_numeral_Cons)

lemma SF_DQUOTE_CHARS_runs:
  "SF_DQUOTE_CHARS = expand 0
     [(32, 0), (34, 1), (35, 0), (92, 1), (93, 0), (127, 1), (256, 0)]"
  by (simp add: SF_DQUOTE_CHARS_def replicate_numeral_Cons)

lemma SF_TOKEN_CHARS_runs:
  "SF_TOKEN_CHARS = expand 0
     [(33, 0), (34, 1), (35, 0), (40, 1), (42, 0), (44, 1), (45, 0), (59, 1), (65, 0), (91, 1), (94, 0), (123, 1), (124, 0), (125, 1), (126, 0), (127, 1), (256, 0)]"
  by (simp add: SF_TOKEN_CHARS_def replicate_numeral_Cons)

lemma SF_BYTESEQ_CHARS_runs:
  "SF_BYTESEQ_CHARS = expand 0
     [(43, 0), (44, 1), (47, 0), (58, 1), (61, 0), (62, 1), (65, 0), (91, 1), (97, 0), (123, 1), (256, 0)]"
  by (simp add: SF_BYTESEQ_CHARS_def replicate_numeral_Cons)

section \<open>Bare items\<close>

definition sf_parse_key :: "bytes \<Rightarrow> nat sf" where
  "sf_parse_key s =
     rbind (deref s) (\<lambda>c.
       if (c < 97 \<or> 122 < c) \<and> c \<noteq> 42 then sf_fail
       else Inr (span_len (in_table SF_KEY_CHARS) s))"

text \<open>The loop over digits and the point: the digits as a number (16 of them at most, so that it fits
  64 bits), how many they are, the position of the point among them, and the bytes consumed.\<close>

fun number_loop :: "bytes \<Rightarrow> int \<Rightarrow> nat \<Rightarrow> nat option \<Rightarrow> nat \<Rightarrow> (int \<times> nat \<times> nat option \<times> nat) sf" where
  "number_loop [] value len fpos k = Inr (value, len, fpos, k)"
| "number_loop (c # s) value len fpos k =
     (if is_digit c then
        if len + 1 > 15 then sf_fail
        else number_loop s (value * 10 + (uint c - 48)) (len + 1) fpos (k + 1)
      else if c = 46 then
        if fpos \<noteq> None then Inr (value, len, fpos, k)
        else if len > 12 then sf_fail
        else number_loop s value len (Some len) (k + 1)
      else Inr (value, len, fpos, k))"

definition sf_parse_integer_or_decimal :: "bytes \<Rightarrow> (sf_value \<times> nat) sf" where
  "sf_parse_integer_or_decimal s =
     rbind (deref s) (\<lambda>c.
       if c = 45 \<and> tl s = [] then sf_fail
       else
         let sign = (if c = 45 then - 1 else 1); k = (if c = 45 then 1 else 0); t = drop k s in
         rbind (deref t) (\<lambda>d.
           if \<not> is_digit d then sf_fail
           else rbind (number_loop t 0 0 None k) (\<lambda>(value, len, fpos, n).
             case fpos of
               None \<Rightarrow> Inr (SF_INTEGER (value * sign), n)
             | Some fp \<Rightarrow>
                 if fp = len \<or> len - fp > 3 then sf_fail
                 else Inr (SF_DECIMAL (value * sign) (len - fp), n))))"

text \<open>The length of what is between the quotes.\<close>

fun dquote_loop :: "bytes \<Rightarrow> nat \<Rightarrow> nat sf" where
  "dquote_loop [] n = sf_fail"
| "dquote_loop (c # s) n =
     (if c = 92 then
        (case s of [] \<Rightarrow> sf_fail | e # t \<Rightarrow> if e = 34 \<or> e = 92 then dquote_loop t (n + 2) else sf_fail)
      else if c = 34 then Inr n
      else if \<not> in_table SF_DQUOTE_CHARS c then sf_fail
      else dquote_loop s (n + 1))"

definition sf_parse_string :: "bytes \<Rightarrow> (sf_value \<times> nat) sf" where
  "sf_parse_string s =
     rbind (deref s) (\<lambda>c.
       if c \<noteq> 34 then sf_fail
       else rbind (dquote_loop (tl s) 0) (\<lambda>n. Inr (SF_STRING (take n (tl s)), n + 2)))"

definition sf_parse_token :: "bytes \<Rightarrow> (sf_value \<times> nat) sf" where
  "sf_parse_token s =
     rbind (deref s) (\<lambda>c.
       if (c < 65 \<or> 90 < c) \<and> (c < 97 \<or> 122 < c) \<and> c \<noteq> 42 then sf_fail
       else let n = span_len (in_table SF_TOKEN_CHARS) s in Inr (SF_TOKEN (take n s), n))"

fun byteseq_loop :: "bytes \<Rightarrow> nat \<Rightarrow> nat sf" where
  "byteseq_loop [] n = sf_fail"
| "byteseq_loop (c # s) n =
     (if c = 58 then Inr n else if \<not> in_table SF_BYTESEQ_CHARS c then sf_fail else byteseq_loop s (n + 1))"

definition sf_parse_byteseq :: "bytes \<Rightarrow> (sf_value \<times> nat) sf" where
  "sf_parse_byteseq s =
     rbind (deref s) (\<lambda>c.
       if c \<noteq> 58 then sf_fail
       else rbind (byteseq_loop (tl s) 0) (\<lambda>n. Inr (SF_BYTESEQ (take n (tl s)), n + 2)))"

definition sf_parse_boolean :: "bytes \<Rightarrow> (sf_value \<times> nat) sf" where
  "sf_parse_boolean s =
     rbind (deref s) (\<lambda>c.
       if c \<noteq> 63 then sf_fail
       else if tl s = [] then sf_fail
       else rbind (deref (tl s)) (\<lambda>b.
         if b = 48 then Inr (SF_BOOLEAN False, 2) else if b = 49 then Inr (SF_BOOLEAN True, 2) else sf_fail))"

definition sf_parse_bare_item :: "bytes \<Rightarrow> (sf_value \<times> nat) sf" where
  "sf_parse_bare_item s =
     rbind (deref s) (\<lambda>c.
       if c = 45 \<or> is_digit c then sf_parse_integer_or_decimal s
       else if c = 34 then sf_parse_string s
       else if c = 42 then sf_parse_token s
       else if c = 58 then sf_parse_byteseq s
       else if c = 63 then sf_parse_boolean s
       else if is_alpha c then sf_parse_token s
       else sf_fail)"

section \<open>Parameters, items and inner lists\<close>

function params_loop :: "bytes \<Rightarrow> nat \<Rightarrow> nat sf" where
  "params_loop s k =
     (if s = [] \<or> hd s \<noteq> 59 then Inr k
      else
        let n = span_len is_sp (tl s); u = drop n (tl s) in
        if u = [] then sf_fail
        else (case sf_parse_key u of
          Inl e \<Rightarrow> Inl e
        | Inr m \<Rightarrow>
            let w = drop m u in
            if w = [] \<or> hd w \<noteq> 61 then params_loop w (k + 1 + n + m)
            else if tl w = [] then sf_fail
            else (case sf_parse_bare_item (tl w) of
              Inl e \<Rightarrow> Inl e
            | Inr (_, j) \<Rightarrow> params_loop (drop j (tl w)) (k + 1 + n + m + 1 + j))))"
  by pat_completeness auto
termination by (relation "measure (\<lambda>(s, k). length s)") auto

declare params_loop.simps [simp del]

definition sf_parse_params :: "bytes \<Rightarrow> nat sf" where
  "sf_parse_params s = params_loop s 0"

definition sf_parse_item :: "bytes \<Rightarrow> (sf_value \<times> nat) sf" where
  "sf_parse_item s =
     rbind (sf_parse_bare_item s) (\<lambda>(v, n).
       rbind (sf_parse_params (drop n s)) (\<lambda>m. Inr (v, n + m)))"

section \<open>Every parser moves forward\<close>

lemma unat_le_iff: "numeral a \<le> (c :: u8) \<longleftrightarrow> unat (numeral a :: u8) \<le> unat c" "(c :: u8) \<le> numeral a \<longleftrightarrow> unat c \<le> unat (numeral a :: u8)"
  by (simp_all add: word_le_nat_alt)

lemma u8_eq_iff: "(c :: u8) = numeral a \<longleftrightarrow> unat c = unat (numeral a :: u8)"
  by (simp add: word_unat_eq_iff)

lemma table_alpha:
  "is_alpha c \<or> c = 42 \<Longrightarrow> in_table SF_TOKEN_CHARS c"
  unfolding in_table_def
  by (subst table_runs [OF SF_TOKEN_CHARS_runs, where d = 0]) (auto simp: is_alpha_def unat_le_iff)

lemma table_key:
  "97 \<le> c \<and> c \<le> 122 \<or> c = 42 \<Longrightarrow> in_table SF_KEY_CHARS c"
  unfolding in_table_def
  by (subst table_runs [OF SF_KEY_CHARS_runs, where d = 0]) (auto simp: unat_le_iff)

lemma span_len_le: "span_len ok s \<le> length s"
  by (induction s) auto

lemma number_loop_grows: "number_loop s v len f k = Inr (v', len', f', n) \<Longrightarrow> k \<le> n \<and> n \<le> k + length s"
proof (induction s arbitrary: v len f k)
  case (Cons c s)
  then show ?case by (fastforce split: if_splits)
qed simp

lemma number_loop_result: "number_loop s v len f k = Inl e \<Longrightarrow> e = Code ()"
  by (induction s arbitrary: v len f k) (auto split: if_splits)

text \<open>A parser on a nonempty range fails, or consumes something and stays in the range.\<close>

definition moves :: "bytes \<Rightarrow> (sf_value \<times> nat) sf \<Rightarrow> bool" where
  "moves s r \<longleftrightarrow> r = sf_fail \<or> (\<exists>v n. r = Inr (v, n) \<and> 0 < n \<and> n \<le> length s)"

lemma number_moves:
  assumes "s \<noteq> []"
  shows "moves s (sf_parse_integer_or_decimal s)"
proof -
  obtain c t where s: "s = c # t" using assms by (cases s) auto
  let ?k = "if c = 45 then 1 else 0 :: nat"
  show ?thesis
  proof (cases "c = 45 \<and> t = []")
    case True
    then show ?thesis by (simp add: s sf_parse_integer_or_decimal_def deref_def moves_def)
  next
    case False
    then obtain d u where u: "drop ?k s = d # u" using s by (cases "drop ?k s") (auto split: if_splits)
    have len: "length (d # u) = length s - ?k" unfolding u [symmetric] by simp
    show ?thesis
    proof (cases "is_digit d")
      case False
      then show ?thesis using \<open>\<not> (c = 45 \<and> t = [])\<close> u by (simp add: s sf_parse_integer_or_decimal_def deref_def moves_def Let_def)
    next
      case dig: True
      show ?thesis
      proof (cases "number_loop (d # u) 0 0 None ?k")
        case (Inl e)
        then have "sf_parse_integer_or_decimal s = sf_fail"
          using number_loop_result [OF Inl] False u dig by (simp add: s sf_parse_integer_or_decimal_def deref_def Let_def)
        then show ?thesis by (simp add: moves_def)
      next
        case (Inr r)
        obtain v l f n where r: "r = (v, l, f, n)" by (metis prod.collapse)
        have "?k < n"
          using Inr dig r number_loop_grows [of u "uint d - 48" 1 None "?k + 1" v l f n] by simp
        moreover have "n \<le> length s"
          using number_loop_grows [OF Inr [unfolded r]] len s by (auto split: if_splits)
        moreover have "sf_parse_integer_or_decimal s =
            (case f of None \<Rightarrow> Inr (SF_INTEGER (v * (if c = 45 then - 1 else 1)), n)
             | Some fp \<Rightarrow> if fp = l \<or> l - fp > 3 then sf_fail else Inr (SF_DECIMAL (v * (if c = 45 then - 1 else 1)) (l - fp), n))"
          using Inr r False u dig by (simp add: s sf_parse_integer_or_decimal_def deref_def Let_def)
        ultimately show ?thesis by (cases f) (auto simp: moves_def)
      qed
    qed
  qed
qed

lemma dquote_loop_bounds:
  "(\<exists>m. dquote_loop s n = Inr m \<and> n \<le> m \<and> m < n + length s) \<or> dquote_loop s n = sf_fail"
proof (induction s n rule: dquote_loop.induct)
  case (2 c s n)
  then show ?case by (cases s) (fastforce split: if_splits)+
qed simp

lemma byteseq_loop_bounds:
  "(\<exists>m. byteseq_loop s n = Inr m \<and> n \<le> m \<and> m < n + length s) \<or> byteseq_loop s n = sf_fail"
proof (induction s arbitrary: n)
  case (Cons c s)
  from Cons [of "n + 1"] show ?case by auto
qed simp

lemma string_moves:
  assumes "s \<noteq> []"
  shows "moves s (sf_parse_string s)"
proof -
  obtain c t where s: "s = c # t" using assms by (cases s) auto
  show ?thesis using dquote_loop_bounds [of t 0] by (auto simp: s sf_parse_string_def deref_def moves_def)
qed

lemma byteseq_moves:
  assumes "s \<noteq> []"
  shows "moves s (sf_parse_byteseq s)"
proof -
  obtain c t where s: "s = c # t" using assms by (cases s) auto
  show ?thesis using byteseq_loop_bounds [of t 0] by (auto simp: s sf_parse_byteseq_def deref_def moves_def)
qed

lemma token_moves:
  assumes "s \<noteq> []"
  shows "moves s (sf_parse_token s)"
proof -
  obtain c t where s: "s = c # t" using assms by (cases s) auto
  show ?thesis
    using span_len_le [of "in_table SF_TOKEN_CHARS" t] table_alpha [of c]
    by (auto simp: s sf_parse_token_def deref_def moves_def Let_def is_alpha_def not_less)
qed

lemma boolean_moves:
  assumes "s \<noteq> []"
  shows "moves s (sf_parse_boolean s)"
proof -
  obtain c t where s: "s = c # t" using assms by (cases s) auto
  show ?thesis by (cases t) (auto simp: s sf_parse_boolean_def deref_def moves_def)
qed

lemma bare_item_moves:
  assumes "s \<noteq> []"
  shows "moves s (sf_parse_bare_item s)"
proof -
  obtain c t where s: "s = c # t" using assms by (cases s) auto
  show ?thesis
    using number_moves [OF assms] string_moves [OF assms] token_moves [OF assms] byteseq_moves [OF assms] boolean_moves [OF assms]
    unfolding s by (auto simp: sf_parse_bare_item_def deref_def moves_def [of _ "Inl _"])
qed

lemma key_moves:
  assumes "s \<noteq> []"
  shows "sf_parse_key s = sf_fail \<or> (\<exists>n. sf_parse_key s = Inr n \<and> 0 < n \<and> n \<le> length s)"
proof -
  obtain c t where s: "s = c # t" using assms by (cases s) auto
  show ?thesis
    using span_len_le [of "in_table SF_KEY_CHARS" t] table_key [of c]
    by (auto simp: s sf_parse_key_def deref_def not_less)
qed

lemma params_bounds:
  "params_loop s k = sf_fail \<or> (\<exists>n. params_loop s k = Inr n \<and> k \<le> n \<and> n \<le> k + length s)"
proof (induction "length s" arbitrary: s k rule: less_induct)
  case less
  show ?case
  proof (cases "s = [] \<or> hd s \<noteq> 59")
    case True
    then show ?thesis by (simp add: params_loop.simps)
  next
    case False
    then obtain t where s: "s = 59 # t" by (cases s) auto
    let ?n = "span_len is_sp t"
    let ?u = "drop ?n t"
    show ?thesis
    proof (cases "?u = []")
      case True
      then show ?thesis by (simp add: s params_loop.simps [of "59 # t"])
    next
      case u: False
      from key_moves [OF u] show ?thesis
      proof
        assume "sf_parse_key ?u = sf_fail"
        then show ?thesis using u by (simp add: s params_loop.simps [of "59 # t"])
      next
        assume "\<exists>m. sf_parse_key ?u = Inr m \<and> 0 < m \<and> m \<le> length ?u"
        then obtain m where m: "sf_parse_key ?u = Inr m" "0 < m" "m \<le> length ?u" by blast
        let ?w = "drop m ?u"
        have len: "length s = 1 + ?n + m + length ?w" using m(3) span_len_le [of is_sp t] s by simp
        show ?thesis
        proof (cases "?w = [] \<or> hd ?w \<noteq> 61")
          case True
          then have "params_loop s k = params_loop ?w (k + 1 + ?n + m)"
            using m(1) u by (simp add: s params_loop.simps [of "59 # t"] Let_def)
          then show ?thesis using less [of ?w "k + 1 + ?n + m"] len by auto
        next
          case w: False
          then obtain x where x: "?w = 61 # x" by (cases ?w) auto
          show ?thesis
          proof (cases "x = []")
            case True
            then show ?thesis using m(1) u x by (simp add: s params_loop.simps [of "59 # t"] Let_def)
          next
            case xx: False
            have step: "params_loop s k = (case sf_parse_bare_item x of Inl e \<Rightarrow> Inl e
                | Inr (_, j) \<Rightarrow> params_loop (drop j x) (k + 1 + ?n + m + 1 + j))"
              using m(1) u x xx by (cases "sf_parse_bare_item x") (auto simp: s params_loop.simps [of "59 # t"] Let_def)
            from bare_item_moves [OF xx] show ?thesis unfolding moves_def
            proof (elim disjE exE conjE)
              fix v j assume j: "sf_parse_bare_item x = Inr (v, j)" "0 < j" "j \<le> length x"
              then have "params_loop s k = params_loop (drop j x) (k + 1 + ?n + m + 1 + j)" using step by simp
              moreover have len': "length s = 2 + ?n + m + length x" using len arg_cong [OF x, of length] by simp
              moreover from len' j have "length (drop j x) < length s" by simp
              note less.hyps [OF this, of "k + 1 + ?n + m + 1 + j"]
              ultimately show ?thesis using j by auto
            qed (use step in simp)
          qed
        qed
      qed
    qed
  qed
qed

lemma item_moves:
  assumes "s \<noteq> []"
  shows "moves s (sf_parse_item s)"
  using bare_item_moves [OF assms] unfolding moves_def
proof (elim disjE exE conjE)
  fix v n assume n: "sf_parse_bare_item s = Inr (v, n)" "0 < n" "n \<le> length s"
  then show "sf_parse_item s = sf_fail \<or> (\<exists>v n. sf_parse_item s = Inr (v, n) \<and> 0 < n \<and> n \<le> length s)"
    using params_bounds [of "drop n s" 0] by (auto simp: sf_parse_item_def sf_parse_params_def)
qed (simp add: sf_parse_item_def)

function inner_loop :: "bytes \<Rightarrow> nat \<Rightarrow> nat sf" where
  "inner_loop s k =
     (let n = span_len is_sp s; u = drop n s in
      if u = [] then sf_fail
      else if hd u = 41 then rbind (sf_parse_params (tl u)) (\<lambda>j. Inr (k + n + 1 + j))
      else (case sf_parse_item u of
        Inl e \<Rightarrow> Inl e
      | Inr (_, j) \<Rightarrow>
          let w = drop j u in
          if w = [] \<or> (hd w \<noteq> 32 \<and> hd w \<noteq> 41) then sf_fail else inner_loop w (k + n + j)))"
  by pat_completeness auto
termination
proof (relation "measure (\<lambda>(s, k). length s)", goal_cases)
  case (2 s k n u r v j w)
  then show ?case using item_moves [of u] by (auto simp: moves_def)
qed simp

declare inner_loop.simps [simp del]

definition sf_parse_inner_list :: "bytes \<Rightarrow> (sf_value \<times> nat) sf" where
  "sf_parse_inner_list s =
     rbind (deref s) (\<lambda>c.
       if c \<noteq> 40 then sf_fail else rbind (inner_loop (tl s) 1) (\<lambda>n. Inr (SF_INNER_LIST, n)))"

definition sf_parse_item_or_inner_list :: "bytes \<Rightarrow> (sf_value \<times> nat) sf" where
  "sf_parse_item_or_inner_list s =
     rbind (deref s) (\<lambda>c. if c = 40 then sf_parse_inner_list s else sf_parse_item s)"

lemma inner_bounds:
  "inner_loop s k = sf_fail \<or> (\<exists>n. inner_loop s k = Inr n \<and> k \<le> n \<and> n \<le> k + length s)"
proof (induction "length s" arbitrary: s k rule: less_induct)
  case less
  let ?n = "span_len is_sp s"
  let ?u = "drop ?n s"
  show ?case
  proof (cases "?u = []")
    case True
    then show ?thesis by (simp add: inner_loop.simps)
  next
    case u: False
    have len: "length s = ?n + length ?u" using span_len_le [of is_sp s] by simp
    show ?thesis
    proof (cases "hd ?u = 41")
      case True
      then obtain t where t: "?u = 41 # t" using u by (cases ?u) auto
      then have "inner_loop s k = rbind (sf_parse_params t) (\<lambda>j. Inr (k + ?n + 1 + j))"
        using u by (subst inner_loop.simps) (auto simp: Let_def)
      moreover have "length s = ?n + 1 + length t" using len arg_cong [OF t, of length] by simp
      ultimately show ?thesis
        using params_bounds [of t 0] by (auto simp: sf_parse_params_def)
    next
      case c: False
      from item_moves [OF u] show ?thesis unfolding moves_def
      proof (elim disjE exE conjE)
        assume "sf_parse_item ?u = sf_fail"
        then show ?thesis using u c by (simp add: inner_loop.simps [of s] Let_def)
      next
        fix v j assume j: "sf_parse_item ?u = Inr (v, j)" "0 < j" "j \<le> length ?u"
        let ?w = "drop j ?u"
        have eq: "inner_loop s k =
            (if ?w = [] \<or> (hd ?w \<noteq> 32 \<and> hd ?w \<noteq> 41) then sf_fail else inner_loop ?w (k + ?n + j))"
          using u c j(1) by (subst inner_loop.simps) (simp add: Let_def del: drop_drop)
        show ?thesis
        proof (cases "?w = [] \<or> (hd ?w \<noteq> 32 \<and> hd ?w \<noteq> 41)")
          case True
          show ?thesis unfolding eq if_P [OF True] by simp
        next
          case False
          have "inner_loop s k = inner_loop ?w (k + ?n + j)" unfolding eq if_not_P [OF False] ..
          moreover from len j(2,3) have "length ?w < length s" by simp
          note less.hyps [OF this, of "k + ?n + j"]
          moreover have "k + ?n + j + length ?w \<le> k + length s" using len j(3) by simp
          ultimately show ?thesis by (elim disjE exE conjE) (simp, auto simp del: length_drop drop_drop)
        qed
      qed
    qed
  qed
qed

lemma item_or_inner_moves:
  assumes "s \<noteq> []"
  shows "moves s (sf_parse_item_or_inner_list s)"
proof -
  obtain c t where s: "s = c # t" using assms by (cases s) auto
  show ?thesis
    using item_moves [OF assms] inner_bounds [of t 1]
    by (auto simp: s sf_parse_item_or_inner_list_def sf_parse_inner_list_def deref_def moves_def)
qed

section \<open>The priority field\<close>

text \<open>What a member of the dictionary does to the priority.\<close>

definition set_priority :: "bytes \<Rightarrow> sf_value \<Rightarrow> extpri \<Rightarrow> extpri sf" where
  "set_priority key v pri =
     (if key = [105] then (case v of SF_BOOLEAN b \<Rightarrow> Inr (pri\<lparr>inc := of_bool b\<rparr>) | _ \<Rightarrow> sf_fail)
      else if key = [117] then
        (case v of
           SF_INTEGER i \<Rightarrow>
             if i < NGHTTP2_EXTPRI_URGENCY_HIGH \<or> NGHTTP2_EXTPRI_URGENCY_LOW < i then sf_fail
             else Inr (pri\<lparr>urgency := word_of_int i\<rparr>)
         | _ \<Rightarrow> sf_fail)
      else Inr pri)"

text \<open>A member: its key, its value, and what follows.\<close>

definition parse_member :: "bytes \<Rightarrow> (bytes \<times> sf_value \<times> bytes) sf" where
  "parse_member s =
     rbind (sf_parse_key s) (\<lambda>m.
       let w = drop m s in
       if w = [] \<or> hd w \<noteq> 61 then
         rbind (sf_parse_params w) (\<lambda>j. Inr (take m s, SF_BOOLEAN True, drop j w))
       else if tl w = [] then sf_fail
       else rbind (sf_parse_item_or_inner_list (tl w)) (\<lambda>(v, j). Inr (take m s, v, drop j (tl w))))"

lemma member_moves:
  assumes "s \<noteq> []"
  shows "parse_member s = sf_fail \<or> (\<exists>key v u. parse_member s = Inr (key, v, u) \<and> length u < length s)"
  using key_moves [OF assms]
proof (elim disjE exE conjE)
  fix m assume m: "sf_parse_key s = Inr m" "0 < m" "m \<le> length s"
  let ?w = "drop m s"
  show ?thesis
  proof (cases "?w = [] \<or> hd ?w \<noteq> 61")
    case True
    then show ?thesis using params_bounds [of ?w 0] m by (auto simp: parse_member_def sf_parse_params_def Let_def)
  next
    case False
    then obtain x where x: "?w = 61 # x" by (cases ?w) auto
    then have "length ?w = 1 + length x" by simp
    then have "length x < length s" by simp
    then show ?thesis
      using item_or_inner_moves [of x] m(1) x by (cases "x = []") (auto simp: parse_member_def moves_def Let_def)
  qed
qed (simp add: parse_member_def)

function dict_loop :: "bytes \<Rightarrow> extpri \<Rightarrow> extpri sf" where
  "dict_loop s pri =
     (if s = [] then Inr pri
      else (case parse_member s of
        Inl e \<Rightarrow> Inl e
      | Inr (key, v, u) \<Rightarrow>
          (case set_priority key v pri of
             Inl e \<Rightarrow> Inl e
           | Inr pri' \<Rightarrow>
               let x = drop (span_len is_ows u) u in
               if x = [] then Inr pri'
               else if hd x \<noteq> 44 then sf_fail
               else
                 let y = drop (span_len is_ows (tl x)) (tl x) in
                 if y = [] then sf_fail else dict_loop y pri')))"
  by pat_completeness auto
termination
proof (relation "measure (\<lambda>(s, k). length s)", goal_cases)
  case (2 s pri r key b v u pri' x y)
  then show ?case using member_moves [of s] by auto
qed simp

declare dict_loop.simps [simp del]


text \<open>The parsed priority is written back only on success.\<close>

definition nghttp2_http_parse_priority :: "extpri \<Rightarrow> bytes \<Rightarrow> extpri \<times> (nghttp2_error fault + unit)" where
  "nghttp2_http_parse_priority dest value =
     (case dict_loop (drop (span_len is_sp value) value) dest of
        Inr pri \<Rightarrow> (pri, Inr ())
      | Inl (Code _) \<Rightarrow> (dest, Inl (Code NGHTTP2_ERR_INVALID_ARGUMENT))
      | Inl Undefined \<Rightarrow> (dest, Inl Undefined)
      | Inl Assert_failed \<Rightarrow> (dest, Inl Assert_failed))"

lemma set_priority_result:
  "set_priority key v pri = sf_fail \<or>
     (\<exists>pri'. set_priority key v pri = Inr pri' \<and> (urgency pri' = urgency pri \<or> urgency pri' \<le> 7) \<and> (inc pri' = inc pri \<or> inc pri' \<in> {0, 1}))"
proof (cases v)
  case (SF_INTEGER i)
  have "word_of_int i \<le> (7 :: u32)" if "0 \<le> i" "i \<le> 7"
  proof -
    have "i = 0 \<or> i = 1 \<or> i = 2 \<or> i = 3 \<or> i = 4 \<or> i = 5 \<or> i = 6 \<or> i = 7" using that by arith
    then show ?thesis by (elim disjE) simp_all
  qed
  then show ?thesis
    using SF_INTEGER by (auto simp: set_priority_def NGHTTP2_EXTPRI_URGENCY_HIGH_def NGHTTP2_EXTPRI_URGENCY_LOW_def not_less)
qed (auto simp: set_priority_def)

lemma dict_result:
  "dict_loop s pri = sf_fail \<or>
     (\<exists>pri'. dict_loop s pri = Inr pri' \<and> (urgency pri' = urgency pri \<or> urgency pri' \<le> 7) \<and> (inc pri' = inc pri \<or> inc pri' \<in> {0, 1}))"
proof (induction "length s" arbitrary: s pri rule: less_induct)
  case less
  show ?case
  proof (cases "s = []")
    case True
    then show ?thesis by (simp add: dict_loop.simps)
  next
    case False
    from member_moves [OF False] consider "parse_member s = sf_fail"
      | key v u where "parse_member s = Inr (key, v, u)" "length u < length s" by auto
    then show ?thesis
    proof cases
      case 1
      then show ?thesis using False by (simp add: dict_loop.simps)
    next
      case (2 key v u)
      from set_priority_result [of key v pri] show ?thesis
      proof
        assume "set_priority key v pri = sf_fail"
        then show ?thesis using False 2(1) by (simp add: dict_loop.simps)
      next
        assume "\<exists>pri'. set_priority key v pri = Inr pri' \<and> (urgency pri' = urgency pri \<or> urgency pri' \<le> 7) \<and> (inc pri' = inc pri \<or> inc pri' \<in> {0, 1})"
        then obtain pri' where p: "set_priority key v pri = Inr pri'" "urgency pri' = urgency pri \<or> urgency pri' \<le> 7"
            "inc pri' = inc pri \<or> inc pri' \<in> {0, 1}" by blast
        let ?x = "drop (span_len is_ows u) u"
        let ?y = "drop (span_len is_ows (tl ?x)) (tl ?x)"
        have eq: "dict_loop s pri = (if ?x = [] then Inr pri' else if hd ?x \<noteq> 44 then sf_fail else if ?y = [] then sf_fail else dict_loop ?y pri')"
          using False 2(1) p(1) by (simp add: dict_loop.simps [of s] Let_def)
        have "length ?y < length s" using 2(2) by simp
        from less.hyps [OF this, of pri'] show ?thesis unfolding eq using p(2,3) by auto
      qed
    qed
  qed
qed


lemma extpri_roundtrip:
  assumes "urgency pri \<le> 7" "inc pri \<in> {0, 1}"
  shows "nghttp2_extpri_from_uint8 (nghttp2_extpri_to_uint8 pri) = pri"
proof -
  obtain u i where pri: "pri = \<lparr>urgency = u, inc = i\<rparr>" by (cases pri)
  have "unat u \<le> 7" using assms(1) pri by (simp add: word_le_nat_alt)
  then have "unat u = 0 \<or> unat u = 1 \<or> unat u = 2 \<or> unat u = 3 \<or> unat u = 4 \<or> unat u = 5 \<or> unat u = 6 \<or> unat u = 7" by arith
  then have "u = 0 \<or> u = 1 \<or> u = 2 \<or> u = 3 \<or> u = 4 \<or> u = 5 \<or> u = 6 \<or> u = 7" by (simp add: word_unat_eq_iff)
  then show ?thesis
    using assms(2)
    by (elim disjE) (auto simp: pri nghttp2_extpri_from_uint8_def nghttp2_extpri_to_uint8_def nghttp2_extpri_uint8_urgency_def
        nghttp2_extpri_uint8_inc_def NGHTTP2_EXTPRI_INC_MASK_def)
qed

text \<open>C33: On any bytes the parser of the priority field returns, without reading behind them. It either
  refuses the field and leaves the priority as it was, or it accepts the field, and then the urgency is
  at most 7 and the flag 0 or 1; so a priority keeps its type, and the byte it is stored in gives it back.\<close>

theorem parse_priority_typed:
  assumes "urgency dest \<le> 7" "inc dest \<in> {0, 1}"
  shows "\<exists>pri r. nghttp2_http_parse_priority dest value = (pri, r) \<and>
    (r = Inr () \<or> r = Inl (Code NGHTTP2_ERR_INVALID_ARGUMENT) \<and> pri = dest) \<and>
    urgency pri \<le> 7 \<and> inc pri \<in> {0, 1} \<and> nghttp2_extpri_from_uint8 (nghttp2_extpri_to_uint8 pri) = pri"
  using dict_result [of "drop (span_len is_sp value) value" dest]
proof (elim disjE exE conjE)
  assume "dict_loop (drop (span_len is_sp value) value) dest = sf_fail"
  then show ?thesis using assms extpri_roundtrip [OF assms] by (simp add: nghttp2_http_parse_priority_def)
qed (use assms extpri_roundtrip in \<open>auto simp: nghttp2_http_parse_priority_def\<close>)

lemma parse_priority_typed_witness:
  "\<exists>pri r. nghttp2_http_parse_priority \<lparr>urgency = 3, inc = 0\<rparr> [117, 61, 57] = (pri, r) \<and> urgency pri \<le> 7"
  using parse_priority_typed [of "\<lparr>urgency = 3, inc = 0\<rparr>" "[117, 61, 57]"] by auto

end
