(* ===== verification/StructGrammar.thy ===== *)
theory StructGrammar
  imports StructField
begin

text \<open>
  The grammar of a dictionary of structured fields (RFC 8941, 4.1.2), as a function from members to
  bytes, and that the priority parser reads back what it writes.
\<close>

section \<open>Members and their text\<close>

datatype bare =
    Num bool bytes
  | Dec bool bytes bytes
  | Quoted bytes
  | Tok bytes
  | Seq bytes
  | Flag bool

type_synonym params = "(nat \<times> bytes \<times> bare option) list"
type_synonym item = "bare \<times> params"

text \<open>The value of a member: none, an item, or an inner list, whose items follow spaces, and spaces
  at its end.\<close>

datatype mvalue = No_value params | Item item | Inner "(nat \<times> item) list" nat params

type_synonym member = "bytes \<times> mvalue"

fun print_bare :: "bare \<Rightarrow> bytes" where
  "print_bare (Num neg ds) = (if neg then [45] else []) @ ds"
| "print_bare (Dec neg ds fs) = (if neg then [45] else []) @ ds @ 46 # fs"
| "print_bare (Quoted s) = 34 # s @ [34]"
| "print_bare (Tok s) = s"
| "print_bare (Seq s) = 58 # s @ [58]"
| "print_bare (Flag b) = [63, if b then 49 else 48]"

fun print_params :: "params \<Rightarrow> bytes" where
  "print_params [] = []"
| "print_params ((n, key, v) # ps) =
     59 # replicate n 32 @ key @ (case v of None \<Rightarrow> [] | Some b \<Rightarrow> 61 # print_bare b) @ print_params ps"

definition print_item :: "item \<Rightarrow> bytes" where
  "print_item i = print_bare (fst i) @ print_params (snd i)"

fun print_items :: "(nat \<times> item) list \<Rightarrow> bytes" where
  "print_items [] = []"
| "print_items ((n, i) # is) = replicate n 32 @ print_item i @ print_items is"

fun print_mvalue :: "mvalue \<Rightarrow> bytes" where
  "print_mvalue (No_value ps) = print_params ps"
| "print_mvalue (Item i) = 61 # print_item i"
| "print_mvalue (Inner is n ps) = [61, 40] @ print_items is @ replicate n 32 @ 41 # print_params ps"

definition print_member :: "member \<Rightarrow> bytes" where
  "print_member m = fst m @ print_mvalue (snd m)"

text \<open>Members with the white space in front of the comma and behind it; white space at the end.\<close>

fun print_dict :: "(member \<times> bytes \<times> bytes) list \<Rightarrow> member \<Rightarrow> bytes \<Rightarrow> bytes" where
  "print_dict [] m w = print_member m @ w"
| "print_dict ((m, w1, w2) # ms) m' w = print_member m @ w1 @ 44 # w2 @ print_dict ms m' w"

fun digits_value :: "int \<Rightarrow> bytes \<Rightarrow> int" where
  "digits_value v [] = v"
| "digits_value v (c # s) = digits_value (v * 10 + (uint c - 48)) s"

fun bare_value :: "bare \<Rightarrow> sf_value" where
  "bare_value (Num neg ds) = SF_INTEGER (digits_value 0 ds * (if neg then - 1 else 1))"
| "bare_value (Dec neg ds fs) = SF_DECIMAL (digits_value 0 (ds @ fs) * (if neg then - 1 else 1)) (length fs)"
| "bare_value (Quoted s) = SF_STRING s"
| "bare_value (Tok s) = SF_TOKEN s"
| "bare_value (Seq s) = SF_BYTESEQ s"
| "bare_value (Flag b) = SF_BOOLEAN b"

fun member_value :: "mvalue \<Rightarrow> sf_value" where
  "member_value (No_value ps) = SF_BOOLEAN True"
| "member_value (Item i) = bare_value (fst i)"
| "member_value (Inner is n ps) = SF_INNER_LIST"

section \<open>Well-formed members\<close>

definition key_ok :: "bytes \<Rightarrow> bool" where
  "key_ok key \<longleftrightarrow> key \<noteq> [] \<and> (97 \<le> hd key \<and> hd key \<le> 122 \<or> hd key = 42) \<and> list_all (in_table SF_KEY_CHARS) key"

fun quoted_ok :: "bytes \<Rightarrow> bool" where
  "quoted_ok [] = True"
| "quoted_ok [c] = in_table SF_DQUOTE_CHARS c"
| "quoted_ok (c # e # s) =
     (if c = 92 then (e = 34 \<or> e = 92) \<and> quoted_ok s else in_table SF_DQUOTE_CHARS c \<and> quoted_ok (e # s))"

fun bare_ok :: "bare \<Rightarrow> bool" where
  "bare_ok (Num neg ds) = (ds \<noteq> [] \<and> length ds \<le> 15 \<and> list_all is_digit ds)"
| "bare_ok (Dec neg ds fs) =
     (ds \<noteq> [] \<and> length ds \<le> 12 \<and> list_all is_digit ds \<and> fs \<noteq> [] \<and> length fs \<le> 3 \<and> list_all is_digit fs)"
| "bare_ok (Quoted s) = quoted_ok s"
| "bare_ok (Tok s) = (s \<noteq> [] \<and> (is_alpha (hd s) \<or> hd s = 42) \<and> list_all (in_table SF_TOKEN_CHARS) s)"
| "bare_ok (Seq s) = list_all (in_table SF_BYTESEQ_CHARS) s"
| "bare_ok (Flag b) = True"

definition params_ok :: "params \<Rightarrow> bool" where
  "params_ok ps \<longleftrightarrow> (\<forall>(n, key, v) \<in> set ps. key_ok key \<and> (case v of None \<Rightarrow> True | Some b \<Rightarrow> bare_ok b))"

definition item_ok :: "item \<Rightarrow> bool" where
  "item_ok i \<longleftrightarrow> bare_ok (fst i) \<and> params_ok (snd i)"

text \<open>Every item of an inner list but the first follows a space.\<close>

fun mvalue_ok :: "mvalue \<Rightarrow> bool" where
  "mvalue_ok (No_value ps) = params_ok ps"
| "mvalue_ok (Item i) = item_ok i"
| "mvalue_ok (Inner is n ps) =
     (list_all (\<lambda>(n, i). item_ok i) is \<and> list_all (\<lambda>(n, i). 0 < n) (tl is) \<and> params_ok ps)"

definition member_ok :: "member \<Rightarrow> bool" where
  "member_ok m \<longleftrightarrow> key_ok (fst m) \<and> mvalue_ok (snd m)"

fun dict_ok :: "(member \<times> bytes \<times> bytes) list \<Rightarrow> member \<Rightarrow> bytes \<Rightarrow> bool" where
  "dict_ok [] m w = (member_ok m \<and> list_all is_ows w)"
| "dict_ok ((m, w1, w2) # ms) m' w = (member_ok m \<and> list_all is_ows w1 \<and> list_all is_ows w2 \<and> dict_ok ms m' w)"

section \<open>What ends a value\<close>

lemma in_table_runs:
  "tbl = expand 0 rs \<Longrightarrow> runs_end 0 rs = 256 \<Longrightarrow> in_table tbl c \<longleftrightarrow> at_runs rs 0 (unat c) \<noteq> 0"
  unfolding in_table_def by (subst table_runs [where d = 0]) auto

text \<open>Behind a value stands nothing, or one of semicolon, comma, white space and closing parenthesis.\<close>

definition ends :: "bytes \<Rightarrow> bool" where
  "ends r \<longleftrightarrow> r = [] \<or> hd r \<in> {59, 44, 32, 9, 41}"

lemma ends_not:
  assumes "ends r" "r \<noteq> []"
  shows "\<not> in_table SF_KEY_CHARS (hd r)" "\<not> in_table SF_TOKEN_CHARS (hd r)" "\<not> is_digit (hd r)" "hd r \<noteq> 46" "hd r \<noteq> 61"
proof -
  have c: "hd r \<in> {59, 44, 32, 9, 41}" using assms by (simp add: ends_def)
  show "\<not> in_table SF_KEY_CHARS (hd r)" using c by (auto simp: in_table_runs [OF SF_KEY_CHARS_runs])
  show "\<not> in_table SF_TOKEN_CHARS (hd r)" using c by (auto simp: in_table_runs [OF SF_TOKEN_CHARS_runs])
  show "\<not> is_digit (hd r)" "hd r \<noteq> 46" "hd r \<noteq> 61" using c by (auto simp: is_digit_def)
qed

lemma span_len_app: "list_all ok t \<Longrightarrow> r = [] \<or> \<not> ok (hd r) \<Longrightarrow> span_len ok (t @ r) = length t"
proof (induction t)
  case Nil
  then show ?case by (cases r) auto
qed simp

lemma key_reads: "key_ok key \<Longrightarrow> r = [] \<or> \<not> in_table SF_KEY_CHARS (hd r) \<Longrightarrow> sf_parse_key (key @ r) = Inr (length key)"
  using span_len_app [of "in_table SF_KEY_CHARS" key r]
  by (cases key) (auto simp: sf_parse_key_def key_ok_def deref_def)

lemma equals_not_key: "\<not> in_table SF_KEY_CHARS 61"
  by (simp add: in_table_runs [OF SF_KEY_CHARS_runs])

section \<open>Bare items\<close>

lemma number_loop_digits:
  "list_all is_digit ds \<Longrightarrow> len + length ds \<le> 15 \<Longrightarrow>
     number_loop (ds @ r) v len f k = number_loop r (digits_value v ds) (len + length ds) f (k + length ds)"
  by (induction ds arbitrary: v len k) auto

lemma number_loop_ends: "ends r \<Longrightarrow> number_loop r v len f k = Inr (v, len, f, k)"
  using ends_not [of r] by (cases r) auto

lemma digits_value_append: "digits_value v (ds @ fs) = digits_value (digits_value v ds) fs"
  by (induction ds arbitrary: v) auto

lemma num_reads:
  assumes ok: "bare_ok (Num neg ds)" and r: "ends r"
  shows "sf_parse_integer_or_decimal (print_bare (Num neg ds) @ r) =
    Inr (bare_value (Num neg ds), length (print_bare (Num neg ds)))"
proof -
  obtain d t where ds: "ds = d # t" "is_digit d" using ok by (cases ds) auto
  have "d \<noteq> 45" using ds(2) by (auto simp: is_digit_def)
  moreover have "number_loop (ds @ r) 0 0 None k = Inr (digits_value 0 ds, length ds, None, k + length ds)" for k
    using number_loop_digits [of ds 0 r 0 None k] number_loop_ends [OF r] ok by simp
  ultimately show ?thesis
    using ds by (cases neg) (simp_all add: sf_parse_integer_or_decimal_def deref_def Let_def del: number_loop.simps)
qed

lemma dec_reads:
  assumes ok: "bare_ok (Dec neg ds fs)" and r: "ends r"
  shows "sf_parse_integer_or_decimal (print_bare (Dec neg ds fs) @ r) =
    Inr (bare_value (Dec neg ds fs), length (print_bare (Dec neg ds fs)))"
proof -
  obtain d t where ds: "ds = d # t" "is_digit d" using ok by (cases ds) auto
  have "d \<noteq> 45" using ds(2) by (auto simp: is_digit_def)
  moreover have "number_loop (ds @ 46 # fs @ r) 0 0 None k =
      Inr (digits_value 0 (ds @ fs), length ds + length fs, Some (length ds), k + length ds + 1 + length fs)" for k
  proof -
    have "number_loop (46 # fs @ r) v (length ds) None j = number_loop (fs @ r) v (length ds) (Some (length ds)) (j + 1)" for v j
      using ok by (simp add: is_digit_def)
    then show ?thesis
      using number_loop_digits [of ds 0 "46 # fs @ r" 0 None k] number_loop_ends [OF r] ok
        number_loop_digits [of fs "length ds" r "digits_value 0 ds" "Some (length ds)" "k + length ds + 1"]
      by (simp add: digits_value_append del: number_loop.simps)
  qed
  ultimately show ?thesis
    using ds ok by (cases neg) (simp_all add: sf_parse_integer_or_decimal_def deref_def Let_def del: number_loop.simps)
qed

lemma dquote_reads: "quoted_ok s \<Longrightarrow> dquote_loop (s @ 34 # r) n = Inr (n + length s)"
proof (induction s arbitrary: n rule: quoted_ok.induct)
  case (2 c)
  have "\<not> in_table SF_DQUOTE_CHARS 92" "\<not> in_table SF_DQUOTE_CHARS 34"
    by (simp_all add: in_table_runs [OF SF_DQUOTE_CHARS_runs])
  then show ?case using 2 by auto
next
  case (3 c e s)
  have "\<not> in_table SF_DQUOTE_CHARS 92" "\<not> in_table SF_DQUOTE_CHARS 34"
    by (simp_all add: in_table_runs [OF SF_DQUOTE_CHARS_runs])
  then show ?case using 3 by (auto split: if_splits)
qed simp

lemma byteseq_reads: "list_all (in_table SF_BYTESEQ_CHARS) s \<Longrightarrow> byteseq_loop (s @ 58 # r) n = Inr (n + length s)"
proof (induction s arbitrary: n)
  case (Cons c s)
  have "\<not> in_table SF_BYTESEQ_CHARS 58" by (simp add: in_table_runs [OF SF_BYTESEQ_CHARS_runs])
  then show ?case using Cons by auto
qed simp

lemma bare_reads:
  assumes ok: "bare_ok b" and r: "ends r"
  shows "sf_parse_bare_item (print_bare b @ r) = Inr (bare_value b, length (print_bare b))"
proof (cases b)
  case (Num neg ds)
  then obtain d t where "ds = d # t" "is_digit d" using ok by (cases ds) auto
  then show ?thesis using num_reads [of neg ds r] ok r Num by (auto simp: sf_parse_bare_item_def deref_def)
next
  case (Dec neg ds fs)
  then obtain d t where "ds = d # t" "is_digit d" using ok by (cases ds) auto
  then show ?thesis using dec_reads [of neg ds fs r] ok r Dec by (auto simp: sf_parse_bare_item_def deref_def)
next
  case (Quoted s)
  then show ?thesis
    using dquote_reads [of s r 0] ok by (simp add: sf_parse_bare_item_def deref_def is_digit_def sf_parse_string_def)
next
  case (Tok s)
  then obtain c t where s: "s = c # t" "is_alpha c \<or> c = 42" using ok by (cases s) auto
  have "span_len (in_table SF_TOKEN_CHARS) (s @ r) = length s"
    using ends_not(2) [OF r] ok Tok by (intro span_len_app) auto
  then have "sf_parse_token (s @ r) = Inr (SF_TOKEN s, length s)"
    using s by (auto simp: sf_parse_token_def deref_def is_alpha_def not_less Let_def)
  moreover have "\<not> is_digit c" "c \<notin> {45, 34, 58, 63}" using s(2) by (auto simp: is_alpha_def is_digit_def word_le_nat_alt)
  ultimately show ?thesis using Tok s by (auto simp: sf_parse_bare_item_def deref_def)
next
  case (Seq s)
  then show ?thesis
    using byteseq_reads [of s r 0] ok by (simp add: sf_parse_bare_item_def deref_def is_digit_def sf_parse_byteseq_def)
next
  case (Flag f)
  then show ?thesis by (simp add: sf_parse_bare_item_def deref_def is_digit_def sf_parse_boolean_def)
qed

section \<open>Parameters, items, inner lists\<close>

lemma print_bare_hd: "bare_ok b \<Longrightarrow> print_bare b \<noteq> [] \<and> hd (print_bare b) \<notin> {32, 41, 40, 9, 44}"
proof (cases b)
  case (Tok s)
  assume "bare_ok b"
  then show ?thesis using Tok by (cases s) (auto simp: is_alpha_def)
next
  case (Num neg ds)
  assume "bare_ok b"
  then show ?thesis using Num by (cases ds) (auto simp: is_digit_def)
next
  case (Dec neg ds fs)
  assume "bare_ok b"
  then show ?thesis using Dec by (cases ds) (auto simp: is_digit_def)
qed auto

lemma params_reads:
  "params_ok ps \<Longrightarrow> ends r \<Longrightarrow> r = [] \<or> hd r \<noteq> 59 \<Longrightarrow> params_loop (print_params ps @ r) k = Inr (k + length (print_params ps))"
proof (induction ps arbitrary: k)
  case Nil
  then show ?case by (simp add: params_loop.simps)
next
  case (Cons p ps)
  obtain n key v where p: "p = (n, key, v)" by (cases p)
  let ?q = "print_params ps @ r"
  have ok: "key_ok key" "\<And>b. v = Some b \<Longrightarrow> bare_ok b" "params_ok ps" using Cons.prems(1) by (auto simp: p params_ok_def)
  have q: "ends ?q" using Cons.prems(2) by (cases ps) (auto simp: ends_def)
  have key: "key \<noteq> []" "hd key \<noteq> 32" using ok(1) by (auto simp: key_ok_def)
  let ?v = "case v of None \<Rightarrow> [] | Some b \<Rightarrow> 61 # print_bare b"
  have sp: "span_len is_sp (replicate n 32 @ key @ ?v @ ?q) = n"
    using span_len_app [of is_sp "replicate n 32" "key @ ?v @ ?q"] key by (simp add: list_all_iff is_sp_def)
  have k: "sf_parse_key (key @ ?v @ ?q) = Inr (length key)"
    using ends_not(1) [OF q] equals_not_key by (intro key_reads [OF ok(1)]) (auto split: option.splits)
  show ?case
  proof (cases v)
    case None
    have "params_loop (print_params (p # ps) @ r) k = params_loop ?q (k + 1 + n + length key)"
      using sp k key None ends_not(5) [OF q] by (subst params_loop.simps) (auto simp: p Let_def)
    then show ?thesis using Cons.IH [OF ok(3) Cons.prems(2,3)] None by (simp add: p)
  next
    case (Some b)
    have "params_loop (print_params (p # ps) @ r) k = params_loop ?q (k + 1 + n + length key + 1 + length (print_bare b))"
      using sp k key Some bare_reads [OF ok(2) [OF Some] q] print_bare_hd [OF ok(2) [OF Some]] by (subst params_loop.simps) (auto simp: p Let_def)
    then show ?thesis using Cons.IH [OF ok(3) Cons.prems(2,3)] Some by (simp add: p)
  qed
qed

lemma params_end: "ends r \<Longrightarrow> ends (print_params ps @ r)"
  by (cases ps) (auto simp: ends_def)

lemma item_reads:
  assumes "item_ok i" "ends r" "r = [] \<or> hd r \<noteq> 59"
  shows "sf_parse_item (print_item i @ r) = Inr (bare_value (fst i), length (print_item i))"
  using assms bare_reads [OF _ params_end [OF assms(2)], of "fst i" "snd i"] params_reads [of "snd i" r 0]
  by (simp add: sf_parse_item_def print_item_def item_ok_def sf_parse_params_def)

lemma inner_reads:
  "list_all (\<lambda>(n, i). item_ok i) is \<Longrightarrow> list_all (\<lambda>(n, i). 0 < n) (tl is) \<Longrightarrow> params_ok ps \<Longrightarrow> ends r \<Longrightarrow> r = [] \<or> hd r \<noteq> 59 \<Longrightarrow>
     inner_loop (print_items is @ replicate n 32 @ 41 # print_params ps @ r) k =
     Inr (k + length (print_items is) + n + 1 + length (print_params ps))"
proof (induction "is" arbitrary: k)
  case Nil
  have "span_len is_sp (replicate n 32 @ 41 # print_params ps @ r) = n"
    using span_len_app [of is_sp "replicate n 32" "41 # print_params ps @ r"] by (simp add: list_all_iff is_sp_def)
  then show ?case
    using Nil params_reads [of ps r 0] by (subst inner_loop.simps) (simp add: Let_def sf_parse_params_def)
next
  case (Cons x "is")
  obtain m i where x: "x = (m, i)" by (cases x)
  let ?q = "print_items is @ replicate n 32 @ 41 # print_params ps @ r"
  have ok: "item_ok i" "list_all (\<lambda>(n, i). item_ok i) is" "list_all (\<lambda>(n, i). 0 < n) is"
    using Cons.prems(1,2) by (auto simp: x)
  have hd_q: "hd ?q = 32 \<or> hd ?q = 41" "?q \<noteq> []"
  proof -
    show "hd ?q = 32 \<or> hd ?q = 41"
    proof (cases "is")
      case Nil
      then show ?thesis by (cases n) auto
    next
      case (Cons y ys)
      then obtain m' i' where "y = (Suc m', i')" using ok(3) by (cases y) (auto simp: gr0_conv_Suc)
      then show ?thesis using Cons by simp
    qed
  qed simp
  have q: "ends ?q" "?q = [] \<or> hd ?q \<noteq> 59" using hd_q by (auto simp: ends_def)
  have i: "print_item i \<noteq> []" "hd (print_item i @ s) \<notin> {32, 41}" for s
    using print_bare_hd [of "fst i"] ok(1) by (auto simp: print_item_def item_ok_def hd_append)
  have "span_len is_sp (replicate m 32 @ print_item i @ ?q) = m"
    using span_len_app [of is_sp "replicate m 32" "print_item i @ ?q"] i(2) [of ?q] by (simp add: list_all_iff is_sp_def)
  then have "inner_loop (print_items (x # is) @ replicate n 32 @ 41 # print_params ps @ r) k =
      inner_loop ?q (k + m + length (print_item i))"
    using item_reads [OF ok(1) q] i hd_q by (subst inner_loop.simps) (auto simp: x Let_def)
  moreover have "list_all (\<lambda>(n, i). 0 < n) (tl is)" using ok(3) by (cases "is") auto
  ultimately show ?case using Cons.IH [OF ok(2) _ Cons.prems(3-5)] by (simp add: x)
qed

section \<open>Members and dictionaries\<close>

lemma member_reads:
  assumes ok: "member_ok m" and r: "ends r" "r = [] \<or> hd r \<noteq> 59"
  shows "parse_member (print_member m @ r) = Inr (fst m, member_value (snd m), r)"
proof -
  obtain key v where m: "m = (key, v)" by (cases m)
  have key: "sf_parse_key (key @ print_mvalue v @ r) = Inr (length key)"
  proof (rule key_reads)
    show "key_ok key" using ok m by (simp add: member_ok_def)
    show "print_mvalue v @ r = [] \<or> \<not> in_table SF_KEY_CHARS (hd (print_mvalue v @ r))"
      using ends_not(1) [OF params_end [OF r(1)]] equals_not_key by (cases v) auto
  qed
  show ?thesis
  proof (cases v)
    case (No_value ps)
    then show ?thesis
      using key ok params_reads [of ps r 0] r ends_not(5) [OF params_end [OF r(1)], of ps]
      by (auto simp: parse_member_def print_member_def m member_ok_def sf_parse_params_def Let_def)
  next
    case (Item i)
    have i: "print_item i \<noteq> []" "hd (print_item i @ r) \<noteq> 40"
      using print_bare_hd [of "fst i"] ok Item by (auto simp: m member_ok_def print_item_def item_ok_def hd_append)
    then have "sf_parse_item_or_inner_list (print_item i @ r) = Inr (bare_value (fst i), length (print_item i))"
      using item_reads [of i r] r ok Item
      by (cases "print_item i") (auto simp: m member_ok_def sf_parse_item_or_inner_list_def deref_def)
    then show ?thesis
      using key i(1) Item by (simp add: parse_member_def print_member_def m Let_def)
  next
    case (Inner "is" n ps)
    have "sf_parse_item_or_inner_list (40 # print_items is @ replicate n 32 @ 41 # print_params ps @ r) =
        Inr (SF_INNER_LIST, 1 + length (print_items is) + n + 1 + length (print_params ps))"
      using inner_reads [of "is" ps r n 1] ok Inner r
      by (simp add: m member_ok_def sf_parse_item_or_inner_list_def sf_parse_inner_list_def deref_def)
    then show ?thesis
      using key Inner by (simp add: parse_member_def print_member_def m Let_def)
  qed
qed

text \<open>What a dictionary does to the priority: its members in order, up to the first bad value.\<close>

fun set_members :: "member list \<Rightarrow> extpri \<Rightarrow> extpri sf" where
  "set_members [] pri = Inr pri"
| "set_members (m # ms) pri = rbind (set_priority (fst m) (member_value (snd m)) pri) (set_members ms)"

lemma ows_end:
  assumes "list_all is_ows w" "r = [] \<or> hd r = 44"
  shows "ends (w @ r)" "w @ r = [] \<or> hd (w @ r) \<noteq> 59" "drop (span_len is_ows (w @ r)) (w @ r) = r"
proof -
  show "ends (w @ r)" "w @ r = [] \<or> hd (w @ r) \<noteq> 59"
    using assms by (cases w; auto simp: ends_def is_ows_def)+
  have "span_len is_ows (w @ r) = length w" using assms by (intro span_len_app) (auto simp: is_ows_def)
  then show "drop (span_len is_ows (w @ r)) (w @ r) = r" by simp
qed

lemma member_nonempty: "member_ok m \<Longrightarrow> print_member m \<noteq> [] \<and> \<not> is_ows (hd (print_member m))"
  by (cases m; cases "fst m") (auto simp: member_ok_def key_ok_def print_member_def is_ows_def)

lemma dict_reads:
  "dict_ok ms m w \<Longrightarrow> dict_loop (print_dict ms m w) pri = set_members (map fst ms @ [m]) pri"
proof (induction ms m w arbitrary: pri rule: print_dict.induct)
  case (1 m w)
  have ok: "member_ok m" "list_all is_ows w" using 1 by simp_all
  have "parse_member (print_member m @ w) = Inr (fst m, member_value (snd m), w)"
    using member_reads [OF ok(1), of w] ows_end(1,2) [OF ok(2), of "[]"] by simp
  then show ?case
    using member_nonempty [OF ok(1)] ows_end(3) [OF ok(2), of "[]"]
    by (subst dict_loop.simps) (simp add: Let_def rbind_def split: sum.splits)
next
  case (2 m w1 w2 ms m' w)
  let ?q = "print_dict ms m' w"
  have ok: "member_ok m" "list_all is_ows w1" "list_all is_ows w2" "dict_ok ms m' w" using 2(2) by simp_all
  have q: "?q \<noteq> []" "\<not> is_ows (hd ?q)"
    using ok(4) member_nonempty by (cases ms; auto simp: hd_append)+
  have "parse_member (print_member m @ w1 @ 44 # w2 @ ?q) = Inr (fst m, member_value (snd m), w1 @ 44 # w2 @ ?q)"
    using member_reads [OF ok(1), of "w1 @ 44 # w2 @ ?q"] ows_end(1,2) [OF ok(2), of "44 # w2 @ ?q"] by simp
  moreover have "span_len is_ows (w2 @ ?q) = length w2" using q ok(3) by (intro span_len_app) auto
  ultimately have "dict_loop (print_dict ((m, w1, w2) # ms) m' w) pri =
      rbind (set_priority (fst m) (member_value (snd m)) pri) (dict_loop ?q)"
    using member_nonempty [OF ok(1)] ows_end(3) [OF ok(2), of "44 # w2 @ ?q"] q(1)
    by (subst dict_loop.simps) (simp add: Let_def rbind_def split: sum.splits)
  then show ?case using 2(1) [OF ok(4)] by (simp add: fun_eq_iff rbind_def split: sum.splits)
qed

text \<open>What a member says of the priority, in terms of what was written: \<open>i\<close> is a boolean, true when no value
  is given, and \<open>u\<close> an integer from 0 to 7, which may have a sign only when it is 0.\<close>

fun inc_given :: "mvalue \<Rightarrow> bool option" where
  "inc_given (No_value ps) = Some True"
| "inc_given (Item i) = (case fst i of Flag b \<Rightarrow> Some b | _ \<Rightarrow> None)"
| "inc_given (Inner is n ps) = None"

fun urgency_given :: "mvalue \<Rightarrow> int option" where
  "urgency_given (Item i) =
     (case fst i of
        Num neg ds \<Rightarrow>
          let n = digits_value 0 ds
          in if n = 0 \<or> \<not> neg \<and> n \<in> {1..7} then Some n else None
      | _ \<Rightarrow> None)"
| "urgency_given v = None"

definition good_member :: "member \<Rightarrow> bool" where
  "good_member m \<longleftrightarrow> (fst m = [105] \<longrightarrow> inc_given (snd m) \<noteq> None) \<and> (fst m = [117] \<longrightarrow> urgency_given (snd m) \<noteq> None)"

text \<open>The last of the members with a key.\<close>

definition last_given :: "bytes \<Rightarrow> (mvalue \<Rightarrow> 'a option) \<Rightarrow> member list \<Rightarrow> 'a option" where
  "last_given key f ms =
     (let vs = filter (\<lambda>m. fst m = key) ms in if vs = [] then None else f (snd (last vs)))"

definition priority_given :: "member list \<Rightarrow> extpri \<Rightarrow> extpri" where
  "priority_given ms pri = pri
     \<lparr>inc := (case last_given [105] inc_given ms of None \<Rightarrow> inc pri | Some b \<Rightarrow> of_bool b),
      urgency := (case last_given [117] urgency_given ms of None \<Rightarrow> urgency pri | Some n \<Rightarrow> word_of_int n)\<rparr>"

lemma digits_value_nonneg: "0 \<le> v \<Longrightarrow> list_all is_digit ds \<Longrightarrow> 0 \<le> digits_value v ds"
proof (induction v ds rule: digits_value.induct)
  case (2 v c ds)
  then have "48 \<le> uint c" by (simp add: is_digit_def word_le_def)
  then show ?case using 2 by simp
qed simp

lemma set_priority_given:
  assumes "member_ok m"
  shows "set_priority (fst m) (member_value (snd m)) pri = (if good_member m then Inr (priority_given [m] pri) else sf_fail)"
proof -
  note meaning = set_priority_def good_member_def priority_given_def last_given_def Let_def
    NGHTTP2_EXTPRI_URGENCY_HIGH_def NGHTTP2_EXTPRI_URGENCY_LOW_def
  show ?thesis
  proof (cases "snd m")
    case (Item i)
    show ?thesis
    proof (cases "fst i")
      case (Num neg ds)
      have "0 \<le> digits_value 0 ds"
        using assms Item Num by (intro digits_value_nonneg) (simp_all add: member_ok_def item_ok_def)
      then show ?thesis using Item Num by (auto simp: meaning)
    qed (auto simp: meaning Item)
  qed (auto simp: meaning)
qed

lemma priority_given_Cons: "priority_given (m # ms) pri = priority_given ms (priority_given [m] pri)"
  if "good_member m" "list_all good_member ms"
proof -
  have ends: "good_member (last (filter P ms)) \<and> P (last (filter P ms))" if "filter P ms \<noteq> []" for P
    using last_in_set [OF that] \<open>list_all good_member ms\<close> by (auto simp: list_all_iff)
  have "last_given key f (m # ms) = (case last_given key f ms of None \<Rightarrow> last_given key f [m] | Some x \<Rightarrow> Some x)"
    if "\<And>m. good_member m \<Longrightarrow> fst m = key \<Longrightarrow> f (snd m) \<noteq> None" for key and f :: "mvalue \<Rightarrow> 'b option"
    using that [of "last (filter (\<lambda>m. fst m = key) ms)"] ends [of "\<lambda>m. fst m = key"] by (auto simp: last_given_def Let_def split: option.split)
  from this [of "[105]" inc_given] this [of "[117]" urgency_given] show ?thesis
    by (auto simp: priority_given_def good_member_def split: option.splits)
qed

lemma set_members_given:
  "list_all member_ok ms \<Longrightarrow>
   set_members ms pri = (if list_all good_member ms then Inr (priority_given ms pri) else sf_fail)"
proof (induction ms arbitrary: pri)
  case Nil
  then show ?case by (simp add: priority_given_def last_given_def)
next
  case (Cons m ms)
  then show ?case using priority_given_Cons [of m ms pri]
    by (auto simp: set_priority_given)
qed

lemma dict_members: "dict_ok ms m w \<Longrightarrow> list_all member_ok (map fst ms @ [m])"
  by (induction ms m w rule: dict_ok.induct) auto

text \<open>C20: The parser of the priority field reads what the grammar of RFC 8941 writes. On the text of
  any well-formed dictionary, with parameters, inner lists and optional white space, it accepts exactly
  when each member \<open>i\<close> is a boolean and each member \<open>u\<close> an integer from 0 to 7, and then the last of
  each gives the priority, where what no member gives stays as it was; other members are skipped. When
  it refuses, the priority is unchanged.\<close>

theorem parse_priority_print:
  assumes "dict_ok ms m w"
  shows "nghttp2_http_parse_priority dest (replicate n 32 @ print_dict ms m w) =
    (if list_all good_member (map fst ms @ [m]) then (priority_given (map fst ms @ [m]) dest, Inr ())
     else (dest, Inl (Code NGHTTP2_ERR_INVALID_ARGUMENT)))"
proof -
  have "print_dict ms m w \<noteq> [] \<and> \<not> is_ows (hd (print_dict ms m w))"
    using assms member_nonempty by (cases ms) (auto simp: hd_append)
  then have "span_len is_sp (replicate n 32 @ print_dict ms m w) = n"
    using span_len_app [of is_sp "replicate n 32" "print_dict ms m w"] by (auto simp: list_all_iff is_sp_def is_ows_def)
  then show ?thesis
    using dict_reads [OF assms, of dest] set_members_given [OF dict_members [OF assms], of dest]
      dict_result [of "print_dict ms m w" dest]
    by (auto simp: nghttp2_http_parse_priority_def split: sum.splits)
qed

text \<open>\<open>u=5, i, u=7\<close> is accepted and the last urgency counts; \<open>u=5, i, u=8\<close> is refused.\<close>

theorem parse_priority_print_witness:
  "nghttp2_http_parse_priority \<lparr>urgency = 3, inc = 0\<rparr> [117, 61, 53, 44, 32, 105, 44, 117, 61, 55] =
     (\<lparr>urgency = 7, inc = 1\<rparr>, Inr ()) \<and>
   nghttp2_http_parse_priority \<lparr>urgency = 3, inc = 0\<rparr> [117, 61, 53, 44, 32, 105, 44, 117, 61, 56] =
     (\<lparr>urgency = 3, inc = 0\<rparr>, Inl (Code NGHTTP2_ERR_INVALID_ARGUMENT))"
proof -
  have ok: "dict_ok [(([117], Item (Num False [53], [])), [], [32]), (([105], No_value []), [], [])]
      ([117], Item (Num False [d], [])) []" if "d = 55 \<or> d = 56" for d
    using that
    by (auto simp: member_ok_def key_ok_def item_ok_def params_ok_def is_ows_def is_digit_def in_table_runs [OF SF_KEY_CHARS_runs])
  show ?thesis
    using parse_priority_print [OF ok, of 55 _ 0] parse_priority_print [OF ok, of 56 _ 0]
    by (simp add: print_member_def print_item_def good_member_def priority_given_def last_given_def)
qed

end
