(* ===== verification/Http.thy ===== *)
theory Http
  imports Stream Frame HdDeflate StructField "HOL-Library.Signed_Division"
begin

text \<open>
  HTTP semantics on top of the frames (\<open>nghttp2_http.c\<close>, first part): the checks of the header fields of
  requests and responses, which keep what they have seen in the flags of the stream, and of the length
  of a body. The fields come one by one from the decompressor; a name or a value ends with a NUL byte
  the source may read. Of the session an operation takes what it reads: whether it is a server, whether
  it has enabled \<open>:protocol\<close>, and the type of the frame.
\<close>

section \<open>Flags of a stream\<close>

definition NGHTTP2_HTTP_FLAG__AUTHORITY :: u32 where "NGHTTP2_HTTP_FLAG__AUTHORITY = push_bit 0 1"
definition NGHTTP2_HTTP_FLAG__PATH :: u32 where "NGHTTP2_HTTP_FLAG__PATH = push_bit 1 1"
definition NGHTTP2_HTTP_FLAG__METHOD :: u32 where "NGHTTP2_HTTP_FLAG__METHOD = push_bit 2 1"
definition NGHTTP2_HTTP_FLAG__SCHEME :: u32 where "NGHTTP2_HTTP_FLAG__SCHEME = push_bit 3 1"
definition NGHTTP2_HTTP_FLAG_HOST :: u32 where "NGHTTP2_HTTP_FLAG_HOST = push_bit 4 1"
definition NGHTTP2_HTTP_FLAG__STATUS :: u32 where "NGHTTP2_HTTP_FLAG__STATUS = push_bit 5 1"
definition NGHTTP2_HTTP_FLAG_REQ_HEADERS :: u32 where
  "NGHTTP2_HTTP_FLAG_REQ_HEADERS = NGHTTP2_HTTP_FLAG__METHOD OR NGHTTP2_HTTP_FLAG__PATH OR NGHTTP2_HTTP_FLAG__SCHEME"
definition NGHTTP2_HTTP_FLAG_PSEUDO_HEADER_DISALLOWED :: u32 where
  "NGHTTP2_HTTP_FLAG_PSEUDO_HEADER_DISALLOWED = push_bit 6 1"
definition NGHTTP2_HTTP_FLAG_METH_CONNECT :: u32 where "NGHTTP2_HTTP_FLAG_METH_CONNECT = push_bit 7 1"
definition NGHTTP2_HTTP_FLAG_METH_HEAD :: u32 where "NGHTTP2_HTTP_FLAG_METH_HEAD = push_bit 8 1"
definition NGHTTP2_HTTP_FLAG_METH_OPTIONS :: u32 where "NGHTTP2_HTTP_FLAG_METH_OPTIONS = push_bit 9 1"
definition NGHTTP2_HTTP_FLAG_METH_UPGRADE_WORKAROUND :: u32 where
  "NGHTTP2_HTTP_FLAG_METH_UPGRADE_WORKAROUND = push_bit 10 1"
definition NGHTTP2_HTTP_FLAG_METH_ALL :: u32 where
  "NGHTTP2_HTTP_FLAG_METH_ALL =
     NGHTTP2_HTTP_FLAG_METH_CONNECT OR NGHTTP2_HTTP_FLAG_METH_HEAD OR
     NGHTTP2_HTTP_FLAG_METH_OPTIONS OR NGHTTP2_HTTP_FLAG_METH_UPGRADE_WORKAROUND"
definition NGHTTP2_HTTP_FLAG_PATH_REGULAR :: u32 where "NGHTTP2_HTTP_FLAG_PATH_REGULAR = push_bit 11 1"
definition NGHTTP2_HTTP_FLAG_PATH_ASTERISK :: u32 where "NGHTTP2_HTTP_FLAG_PATH_ASTERISK = push_bit 12 1"
definition NGHTTP2_HTTP_FLAG_SCHEME_HTTP :: u32 where "NGHTTP2_HTTP_FLAG_SCHEME_HTTP = push_bit 13 1"
definition NGHTTP2_HTTP_FLAG_EXPECT_FINAL_RESPONSE :: u32 where
  "NGHTTP2_HTTP_FLAG_EXPECT_FINAL_RESPONSE = push_bit 14 1"
definition NGHTTP2_HTTP_FLAG__PROTOCOL :: u32 where "NGHTTP2_HTTP_FLAG__PROTOCOL = push_bit 15 1"
definition NGHTTP2_HTTP_FLAG_PRIORITY :: u32 where "NGHTTP2_HTTP_FLAG_PRIORITY = push_bit 16 1"
definition NGHTTP2_HTTP_FLAG_BAD_PRIORITY :: u32 where "NGHTTP2_HTTP_FLAG_BAD_PRIORITY = push_bit 17 1"

definition NGHTTP2_STREAM_FLAG_IGNORE_CLIENT_PRIORITIES :: u8 where
  "NGHTTP2_STREAM_FLAG_IGNORE_CLIENT_PRIORITIES = 0x20"
definition NGHTTP2_STREAM_FLAG_NO_RFC9113_LEADING_AND_TRAILING_WS_VALIDATION :: u8 where
  "NGHTTP2_STREAM_FLAG_NO_RFC9113_LEADING_AND_TRAILING_WS_VALIDATION = 0x40"

definition NGHTTP2_FLAG_END_STREAM :: u8 where "NGHTTP2_FLAG_END_STREAM = 0x01"

definition has_flag :: "stream \<Rightarrow> u32 \<Rightarrow> bool" where
  "has_flag s f \<longleftrightarrow> http_flags s AND f \<noteq> 0"

definition add_flag :: "u32 \<Rightarrow> stream \<Rightarrow> stream" where
  "add_flag f s = s\<lparr>http_flags := http_flags s OR f\<rparr>"

section \<open>Texts and numbers\<close>

definition downcase :: "u8 \<Rightarrow> u8" where
  "downcase c = (if 65 \<le> c \<and> c \<le> 90 then c - 65 + 97 else c)"

fun memieq :: "bytes \<Rightarrow> bytes \<Rightarrow> nat \<Rightarrow> bool" where
  "memieq a b 0 = True"
| "memieq (x # a) (y # b) (Suc n) = (if downcase x \<noteq> downcase y then False else memieq a b n)"
| "memieq _ _ (Suc n) = False"

definition lstrieq :: "string \<Rightarrow> bytes \<Rightarrow> bool" where
  "lstrieq a b \<longleftrightarrow> length a = length b \<and> memieq (ascii a) b (length b)"

definition lstreq :: "string \<Rightarrow> bytes \<Rightarrow> bool" where
  "lstreq a b \<longleftrightarrow> length a = length b \<and> ascii a = b"

text \<open>\<open>base[0] == c\<close>; the byte behind an empty text is NUL.\<close>

definition first_is :: "u8 \<Rightarrow> bytes \<Rightarrow> bool" where
  "first_is c s \<longleftrightarrow> (case s of [] \<Rightarrow> c = 0 | x # _ \<Rightarrow> x = c)"

definition INT64_MAX :: int where "INT64_MAX = 9223372036854775807"

fun uint_loop :: "bytes \<Rightarrow> int \<Rightarrow> int" where
  "uint_loop [] n = n"
| "uint_loop (c # s) n =
     (if 48 \<le> c \<and> c \<le> 57 then
        if n > INT64_MAX div 10 then - 1
        else if n * 10 > INT64_MAX - (uint c - 48) then - 1
        else uint_loop s (n * 10 + (uint c - 48))
      else - 1)"

definition parse_uint :: "bytes \<Rightarrow> int" where
  "parse_uint s = (if s = [] then - 1 else uint_loop s 0)"

section \<open>Checks of one field\<close>

definition check_pseudo_header :: "stream \<Rightarrow> hd_nv \<Rightarrow> u32 \<Rightarrow> stream option" where
  "check_pseudo_header s nv flag =
     (if has_flag s flag \<or> length (nv_value nv) = 0 then None else Some (add_flag flag s))"

definition expect_response_body :: "stream \<Rightarrow> bool" where
  "expect_response_body s \<longleftrightarrow>
     \<not> has_flag s NGHTTP2_HTTP_FLAG_METH_HEAD \<and> status_code s sdiv 100 \<noteq> 1 \<and> status_code s \<noteq> 304 \<and> status_code s \<noteq> 204"

definition check_path :: "stream \<Rightarrow> bool" where
  "check_path s \<longleftrightarrow>
     \<not> has_flag s NGHTTP2_HTTP_FLAG_SCHEME_HTTP \<or>
     (has_flag s NGHTTP2_HTTP_FLAG_PATH_REGULAR \<or>
      (has_flag s NGHTTP2_HTTP_FLAG_METH_OPTIONS \<and> has_flag s NGHTTP2_HTTP_FLAG_PATH_ASTERISK))"

definition bad_header :: "stream \<Rightarrow> stream \<times> unit res" where
  "bad_header s = (s, Inl (Code NGHTTP2_ERR_HTTP_HEADER))"

definition pseudo :: "hd_nv \<Rightarrow> bool" where
  "pseudo nv \<longleftrightarrow> first_is 58 (nv_name nv)"

text \<open>The fields of a connection, which a message must not have.\<close>

definition connection_token :: "int \<Rightarrow> bool" where
  "connection_token t \<longleftrightarrow>
     t = NGHTTP2_TOKEN_CONNECTION \<or> t = NGHTTP2_TOKEN_KEEP_ALIVE \<or> t = NGHTTP2_TOKEN_PROXY_CONNECTION \<or>
     t = NGHTTP2_TOKEN_TRANSFER_ENCODING \<or> t = NGHTTP2_TOKEN_UPGRADE"

text \<open>The method, once it is known to be new and nonempty.\<close>

definition on_method :: "stream \<Rightarrow> bytes \<Rightarrow> stream option" where
  "on_method s v =
     (if length v = 4 then Some (if lstreq ''HEAD'' v then add_flag NGHTTP2_HTTP_FLAG_METH_HEAD s else s)
      else if length v = 7 then
        (if v ! 6 = of_char (CHR ''T'') then
           if lstreq ''CONNECT'' v then
             if stream_id s mod 2 = 0 then None else Some (add_flag NGHTTP2_HTTP_FLAG_METH_CONNECT s)
           else Some s
         else if v ! 6 = of_char (CHR ''S'') then
           Some (if lstreq ''OPTIONS'' v then add_flag NGHTTP2_HTTP_FLAG_METH_OPTIONS s else s)
         else Some s)
      else Some s)"

definition on_path :: "stream \<Rightarrow> bytes \<Rightarrow> stream" where
  "on_path s v =
     (if first_is 47 v then add_flag NGHTTP2_HTTP_FLAG_PATH_REGULAR s
      else if length v = 1 \<and> first_is 42 v then add_flag NGHTTP2_HTTP_FLAG_PATH_ASTERISK s
      else s)"

definition on_scheme :: "stream \<Rightarrow> bytes \<Rightarrow> stream" where
  "on_scheme s v =
     (if (length v = 4 \<and> memieq (ascii ''http'') v 4) \<or> (length v = 5 \<and> memieq (ascii ''https'') v 5)
      then add_flag NGHTTP2_HTTP_FLAG_SCHEME_HTTP s else s)"

definition on_priority :: "stream \<Rightarrow> bytes \<Rightarrow> bool \<Rightarrow> stream" where
  "on_priority s v trailer =
     (if \<not> trailer \<and> stream_id s mod 2 = 1 \<and>
         flags s AND NGHTTP2_STREAM_FLAG_NO_RFC7540_PRIORITIES \<noteq> 0 \<and> \<not> has_flag s NGHTTP2_HTTP_FLAG_BAD_PRIORITY
      then
        (case nghttp2_http_parse_priority (nghttp2_extpri_from_uint8 (http_extpri s)) v of
           (pri, Inr _) \<Rightarrow> add_flag NGHTTP2_HTTP_FLAG_PRIORITY (s\<lparr>http_extpri := nghttp2_extpri_to_uint8 pri\<rparr>)
         | (_, Inl _) \<Rightarrow>
             add_flag NGHTTP2_HTTP_FLAG_BAD_PRIORITY
               (s\<lparr>http_flags := http_flags s AND NOT NGHTTP2_HTTP_FLAG_PRIORITY\<rparr>))
      else s)"

definition on_content_length :: "stream \<Rightarrow> bytes \<Rightarrow> stream \<times> bool" where
  "on_content_length s v =
     (if content_length s \<noteq> - 1 then (s, False)
      else let s' = s\<lparr>content_length := parse_uint v\<rparr> in (s', content_length s' \<noteq> - 1))"

section \<open>A field of a request, a field of a response\<close>

text \<open>The end of both switches: a field that is not pseudo forbids pseudo fields behind it.\<close>

definition field_done :: "hd_nv \<Rightarrow> stream \<Rightarrow> stream \<times> unit res" where
  "field_done nv s = (if \<not> pseudo nv then add_flag NGHTTP2_HTTP_FLAG_PSEUDO_HEADER_DISALLOWED s else s, Inr ())"

text \<open>A field that may come once: its flag, and what its value does.\<close>

definition once :: "stream \<Rightarrow> hd_nv \<Rightarrow> u32 \<Rightarrow> (stream \<Rightarrow> stream) \<Rightarrow> stream \<times> unit res" where
  "once s nv flag f =
     (case check_pseudo_header s nv flag of None \<Rightarrow> bad_header s | Some s' \<Rightarrow> field_done nv (f s'))"

definition http_request_on_header :: "stream \<Rightarrow> hd_nv \<Rightarrow> bool \<Rightarrow> bool \<Rightarrow> stream \<times> unit res" where
  "http_request_on_header s nv trailer connect_protocol =
     (let t = nv_token nv; v = nv_value nv in
      if pseudo nv \<and> (trailer \<or> has_flag s NGHTTP2_HTTP_FLAG_PSEUDO_HEADER_DISALLOWED) then bad_header s
      else if t = NGHTTP2_TOKEN__AUTHORITY then once s nv NGHTTP2_HTTP_FLAG__AUTHORITY id
      else if t = NGHTTP2_TOKEN__METHOD then
        (case check_pseudo_header s nv NGHTTP2_HTTP_FLAG__METHOD of
           None \<Rightarrow> bad_header s
         | Some s' \<Rightarrow> (case on_method s' v of None \<Rightarrow> bad_header s' | Some s'' \<Rightarrow> field_done nv s''))
      else if t = NGHTTP2_TOKEN__PATH then once s nv NGHTTP2_HTTP_FLAG__PATH (\<lambda>s. on_path s v)
      else if t = NGHTTP2_TOKEN__SCHEME then once s nv NGHTTP2_HTTP_FLAG__SCHEME (\<lambda>s. on_scheme s v)
      else if t = NGHTTP2_TOKEN__PROTOCOL then
        (if \<not> connect_protocol then bad_header s else once s nv NGHTTP2_HTTP_FLAG__PROTOCOL id)
      else if t = NGHTTP2_TOKEN_HOST then once s nv NGHTTP2_HTTP_FLAG_HOST id
      else if t = NGHTTP2_TOKEN_CONTENT_LENGTH then
        (case on_content_length s v of (s', fine) \<Rightarrow> if fine then field_done nv s' else bad_header s')
      else if connection_token t then bad_header s
      else if t = NGHTTP2_TOKEN_TE then
        (if \<not> lstrieq ''trailers'' v then bad_header s else field_done nv s)
      else if t = NGHTTP2_TOKEN_PRIORITY then field_done nv (on_priority s v trailer)
      else if pseudo nv then bad_header s
      else field_done nv s)"

definition to_i16 :: "int \<Rightarrow> int" where
  "to_i16 n = sint (word_of_int n :: 16 word)"

definition http_response_on_header :: "stream \<Rightarrow> hd_nv \<Rightarrow> bool \<Rightarrow> stream \<times> unit res" where
  "http_response_on_header s nv trailer =
     (let t = nv_token nv; v = nv_value nv in
      if pseudo nv \<and> (trailer \<or> has_flag s NGHTTP2_HTTP_FLAG_PSEUDO_HEADER_DISALLOWED) then bad_header s
      else if t = NGHTTP2_TOKEN__STATUS then
        (case check_pseudo_header s nv NGHTTP2_HTTP_FLAG__STATUS of
           None \<Rightarrow> bad_header s
         | Some s' \<Rightarrow>
             if length v \<noteq> 3 then bad_header s'
             else
               let s'' = s'\<lparr>status_code := to_i16 (parse_uint v)\<rparr> in
               if status_code s'' = - 1 \<or> status_code s'' = 101 then bad_header s'' else field_done nv s'')
      else if t = NGHTTP2_TOKEN_CONTENT_LENGTH then
        (if status_code s = 204 then
           if content_length s \<noteq> - 1 then bad_header s
           else if \<not> lstrieq ''0'' v then bad_header s
           else (s\<lparr>content_length := 0\<rparr>, Inl (Code NGHTTP2_ERR_REMOVE_HTTP_HEADER))
         else if status_code s sdiv 100 = 1 then bad_header s
         else if status_code s sdiv 100 = 2 \<and> has_flag s NGHTTP2_HTTP_FLAG_METH_CONNECT then
           (s, Inl (Code NGHTTP2_ERR_REMOVE_HTTP_HEADER))
         else (case on_content_length s v of (s', fine) \<Rightarrow> if fine then field_done nv s' else bad_header s'))
      else if connection_token t then bad_header s
      else if t = NGHTTP2_TOKEN_TE then
        (if \<not> lstrieq ''trailers'' v then bad_header s else field_done nv s)
      else if pseudo nv then bad_header s
      else field_done nv s)"

section \<open>A field from the decompressor\<close>

definition scheme_char :: "u8 \<Rightarrow> bool" where
  "scheme_char c \<longleftrightarrow>
     (65 \<le> c \<and> c \<le> 90) \<or> (97 \<le> c \<and> c \<le> 122) \<or> (48 \<le> c \<and> c \<le> 57) \<or> c = 43 \<or> c = 45 \<or> c = 46"

fun scheme_loop :: "bytes \<Rightarrow> bool" where
  "scheme_loop [] = True"
| "scheme_loop (c # s) = (if \<not> scheme_char c then False else scheme_loop s)"

definition check_scheme :: "bytes \<Rightarrow> bool" where
  "check_scheme s =
     (case s of
        [] \<Rightarrow> False
      | c # t \<Rightarrow> if \<not> ((65 \<le> c \<and> c \<le> 90) \<or> (97 \<le> c \<and> c \<le> 122)) then False else scheme_loop t)"

fun lws :: "bytes \<Rightarrow> bool" where
  "lws [] = True"
| "lws (c # s) = (if c \<noteq> 32 \<and> c \<noteq> 9 then False else lws s)"

fun has_upper :: "bytes \<Rightarrow> bool" where
  "has_upper [] = False"
| "has_upper (c # s) = (if 65 \<le> c \<and> c \<le> 90 then True else has_upper s)"

text \<open>The check of the value; \<open>server\<close> is true also of a pushed request.\<close>

definition check_value :: "bool \<Rightarrow> stream \<Rightarrow> hd_nv \<Rightarrow> bool" where
  "check_value request s nv =
     (let t = nv_token nv; v = nv_value nv;
          lax = flags s AND NGHTTP2_STREAM_FLAG_NO_RFC9113_LEADING_AND_TRAILING_WS_VALIDATION \<noteq> 0 in
      if t = NGHTTP2_TOKEN__METHOD then nghttp2_check_method v
      else if t = NGHTTP2_TOKEN__PATH then nghttp2_check_path v
      else if (t = NGHTTP2_TOKEN__AUTHORITY \<or> t = NGHTTP2_TOKEN_HOST) \<and> request then nghttp2_check_authority v
      else if t = NGHTTP2_TOKEN__SCHEME then check_scheme v
      else if t = NGHTTP2_TOKEN__PROTOCOL \<and> lax \<and> lws v then False
      else if lax then nghttp2_check_header_value v
      else nghttp2_check_header_value_rfc9113 v)"

definition ignore_header :: "stream \<Rightarrow> stream \<times> unit res" where
  "ignore_header s = (add_flag NGHTTP2_HTTP_FLAG_PSEUDO_HEADER_DISALLOWED s, Inl (Code NGHTTP2_ERR_IGN_HTTP_HEADER))"

definition nghttp2_http_on_header :: "bool \<Rightarrow> bool \<Rightarrow> u8 \<Rightarrow> stream \<Rightarrow> hd_nv \<Rightarrow> bool \<Rightarrow> stream \<times> unit res" where
  "nghttp2_http_on_header server enable_connect ftype s nv trailer =
     (let request = (server \<or> ftype = NGHTTP2_PUSH_PROMISE) in
      if \<not> nghttp2_check_header_name (nv_name nv) then
        if length (nv_name nv) > 0 \<and> pseudo nv then bad_header s
        else if has_upper (nv_name nv) then bad_header s
        else ignore_header s
      else if \<not> check_value request s nv then
        if nv_name nv = [] then (s, Inl Assert_failed)
        else if pseudo nv then bad_header s
        else ignore_header s
      else if request then http_request_on_header s nv trailer (server \<and> enable_connect)
      else http_response_on_header s nv trailer)"

section \<open>The end of a header block, the body\<close>

definition nghttp2_http_on_request_headers :: "u8 \<Rightarrow> stream \<Rightarrow> stream \<times> bool" where
  "nghttp2_http_on_request_headers ftype s =
     (let pushed = (\<lambda>s. (if ftype = NGHTTP2_PUSH_PROMISE
            then s\<lparr>http_flags := http_flags s AND NGHTTP2_HTTP_FLAG_METH_ALL, content_length := - 1\<rparr> else s, True)) in
      if \<not> has_flag s NGHTTP2_HTTP_FLAG__PROTOCOL \<and> has_flag s NGHTTP2_HTTP_FLAG_METH_CONNECT then
        if has_flag s (NGHTTP2_HTTP_FLAG__SCHEME OR NGHTTP2_HTTP_FLAG__PATH) \<or>
           \<not> has_flag s NGHTTP2_HTTP_FLAG__AUTHORITY then (s, False)
        else pushed (s\<lparr>content_length := - 1\<rparr>)
      else if http_flags s AND NGHTTP2_HTTP_FLAG_REQ_HEADERS \<noteq> NGHTTP2_HTTP_FLAG_REQ_HEADERS \<or>
          \<not> has_flag s (NGHTTP2_HTTP_FLAG__AUTHORITY OR NGHTTP2_HTTP_FLAG_HOST) then (s, False)
      else if has_flag s NGHTTP2_HTTP_FLAG__PROTOCOL \<and>
          (\<not> has_flag s NGHTTP2_HTTP_FLAG_METH_CONNECT \<or> \<not> has_flag s NGHTTP2_HTTP_FLAG__AUTHORITY) then (s, False)
      else if \<not> check_path s then (s, False)
      else pushed s)"

definition nghttp2_http_on_response_headers :: "stream \<Rightarrow> stream \<times> bool" where
  "nghttp2_http_on_response_headers s =
     (if \<not> has_flag s NGHTTP2_HTTP_FLAG__STATUS then (s, False)
      else if status_code s sdiv 100 = 1 then
        (s\<lparr>http_flags := (http_flags s AND NGHTTP2_HTTP_FLAG_METH_ALL) OR NGHTTP2_HTTP_FLAG_EXPECT_FINAL_RESPONSE,
           content_length := - 1, status_code := - 1\<rparr>, True)
      else
        let s' = s\<lparr>http_flags := http_flags s AND NOT NGHTTP2_HTTP_FLAG_EXPECT_FINAL_RESPONSE\<rparr> in
        (if \<not> expect_response_body s' then s'\<lparr>content_length := 0\<rparr>
         else if has_flag s' (NGHTTP2_HTTP_FLAG_METH_CONNECT OR NGHTTP2_HTTP_FLAG_METH_UPGRADE_WORKAROUND)
         then s'\<lparr>content_length := - 1\<rparr>
         else s', True))"

definition nghttp2_http_on_trailer_headers :: "u8 \<Rightarrow> bool" where
  "nghttp2_http_on_trailer_headers fl \<longleftrightarrow> fl AND NGHTTP2_FLAG_END_STREAM \<noteq> 0"

definition nghttp2_http_on_remote_end_stream :: "stream \<Rightarrow> bool" where
  "nghttp2_http_on_remote_end_stream s =
     (if has_flag s NGHTTP2_HTTP_FLAG_EXPECT_FINAL_RESPONSE then False
      else if content_length s \<noteq> - 1 \<and> content_length s \<noteq> recv_content_length s then False
      else True)"

text \<open>The length received so far is an \<open>int64_t\<close>: a sum that does not fit is undefined.\<close>

definition i64 :: "int \<Rightarrow> int res" where
  "i64 x = (if - (2 ^ 63) \<le> x \<and> x < 2 ^ 63 then Inr x else Inl Undefined)"

definition nghttp2_http_on_data_chunk :: "stream \<Rightarrow> nat \<Rightarrow> (stream \<times> bool) res" where
  "nghttp2_http_on_data_chunk s n =
     rbind (i64 (recv_content_length s + int n)) (\<lambda>received.
       let s' = s\<lparr>recv_content_length := received\<rparr> in
       Inr (s', \<not> (has_flag s' NGHTTP2_HTTP_FLAG_EXPECT_FINAL_RESPONSE \<or>
                  (content_length s' \<noteq> - 1 \<and> recv_content_length s' > content_length s'))))"

text \<open>The method of a request the client sends; the frame is \<open>HEADERS\<close> or \<open>PUSH_PROMISE\<close>.\<close>

fun record_loop :: "stream \<Rightarrow> nghttp2_nv list \<Rightarrow> stream" where
  "record_loop s [] = s"
| "record_loop s (nv # nva) =
     (if \<not> (length (nva_name nv) = 7 \<and> nva_name nv ! 6 = of_char (CHR ''d'') \<and>
            take 6 (nva_name nv) = ascii '':metho'') then record_loop s nva
      else if lstreq ''CONNECT'' (nva_value nv) then add_flag NGHTTP2_HTTP_FLAG_METH_CONNECT s
      else if lstreq ''HEAD'' (nva_value nv) then add_flag NGHTTP2_HTTP_FLAG_METH_HEAD s
      else s)"

definition nghttp2_http_record_request_method :: "stream \<Rightarrow> u8 \<Rightarrow> nghttp2_nv list \<Rightarrow> stream" where
  "nghttp2_http_record_request_method s ftype nva =
     (if ftype = NGHTTP2_HEADERS \<or> ftype = NGHTTP2_PUSH_PROMISE then record_loop s nva else s)"

end
