(* ===== verification/HttpRequest.thy ===== *)
theory HttpRequest
  imports Http
begin

text \<open>
  Which requests a server takes: the checks of one field after the other, which remember in the flags of
  the stream what they have seen, are together a condition on the list of fields (RFC 9113, 8.2 and 8.3).
\<close>

section \<open>Bits of the flags\<close>

lemma and_bit_iff: "(x :: u32) AND push_bit n 1 \<noteq> 0 \<longleftrightarrow> bit x n"
  by (simp add: push_bit_of_1 and_exp_eq_0_iff_not_bit)

lemma has_flag_or: "has_flag s (f OR g) \<longleftrightarrow> has_flag s f \<or> has_flag s g"
  by (auto simp: has_flag_def bit_eq_iff bit_simps)

lemmas flag_defs = NGHTTP2_HTTP_FLAG__AUTHORITY_def NGHTTP2_HTTP_FLAG__PATH_def NGHTTP2_HTTP_FLAG__METHOD_def
  NGHTTP2_HTTP_FLAG__SCHEME_def NGHTTP2_HTTP_FLAG_HOST_def NGHTTP2_HTTP_FLAG__STATUS_def
  NGHTTP2_HTTP_FLAG_PSEUDO_HEADER_DISALLOWED_def NGHTTP2_HTTP_FLAG_METH_CONNECT_def
  NGHTTP2_HTTP_FLAG_METH_HEAD_def NGHTTP2_HTTP_FLAG_METH_OPTIONS_def
  NGHTTP2_HTTP_FLAG_METH_UPGRADE_WORKAROUND_def NGHTTP2_HTTP_FLAG_PATH_REGULAR_def
  NGHTTP2_HTTP_FLAG_PATH_ASTERISK_def NGHTTP2_HTTP_FLAG_SCHEME_HTTP_def
  NGHTTP2_HTTP_FLAG_EXPECT_FINAL_RESPONSE_def NGHTTP2_HTTP_FLAG__PROTOCOL_def
  NGHTTP2_HTTP_FLAG_PRIORITY_def NGHTTP2_HTTP_FLAG_BAD_PRIORITY_def

definition fbit :: "stream \<Rightarrow> nat \<Rightarrow> bool" where
  "fbit s n \<longleftrightarrow> bit (http_flags s) n"

lemma has_flag_bit: "has_flag s (push_bit n 1) \<longleftrightarrow> fbit s n"
  by (simp only: has_flag_def and_bit_iff fbit_def)

lemma has_flags:
  "has_flag s NGHTTP2_HTTP_FLAG__AUTHORITY \<longleftrightarrow> fbit s 0"
  "has_flag s NGHTTP2_HTTP_FLAG__PATH \<longleftrightarrow> fbit s 1"
  "has_flag s NGHTTP2_HTTP_FLAG__METHOD \<longleftrightarrow> fbit s 2"
  "has_flag s NGHTTP2_HTTP_FLAG__SCHEME \<longleftrightarrow> fbit s 3"
  "has_flag s NGHTTP2_HTTP_FLAG_HOST \<longleftrightarrow> fbit s 4"
  "has_flag s NGHTTP2_HTTP_FLAG_PSEUDO_HEADER_DISALLOWED \<longleftrightarrow> fbit s 6"
  "has_flag s NGHTTP2_HTTP_FLAG_METH_CONNECT \<longleftrightarrow> fbit s 7"
  "has_flag s NGHTTP2_HTTP_FLAG_METH_OPTIONS \<longleftrightarrow> fbit s 9"
  "has_flag s NGHTTP2_HTTP_FLAG_PATH_REGULAR \<longleftrightarrow> fbit s 11"
  "has_flag s NGHTTP2_HTTP_FLAG_PATH_ASTERISK \<longleftrightarrow> fbit s 12"
  "has_flag s NGHTTP2_HTTP_FLAG_SCHEME_HTTP \<longleftrightarrow> fbit s 13"
  "has_flag s NGHTTP2_HTTP_FLAG__PROTOCOL \<longleftrightarrow> fbit s 15"
  unfolding flag_defs by (rule has_flag_bit)+

lemma fbit_add: "m < 32 \<Longrightarrow> fbit (add_flag (push_bit m 1) s) n \<longleftrightarrow> fbit s n \<or> n = m"
  by (auto simp: fbit_def add_flag_def bit_simps)

lemma fbit_adds:
  "fbit (add_flag NGHTTP2_HTTP_FLAG__AUTHORITY s) n \<longleftrightarrow> fbit s n \<or> n = 0"
  "fbit (add_flag NGHTTP2_HTTP_FLAG__PATH s) n \<longleftrightarrow> fbit s n \<or> n = 1"
  "fbit (add_flag NGHTTP2_HTTP_FLAG__METHOD s) n \<longleftrightarrow> fbit s n \<or> n = 2"
  "fbit (add_flag NGHTTP2_HTTP_FLAG__SCHEME s) n \<longleftrightarrow> fbit s n \<or> n = 3"
  "fbit (add_flag NGHTTP2_HTTP_FLAG_HOST s) n \<longleftrightarrow> fbit s n \<or> n = 4"
  "fbit (add_flag NGHTTP2_HTTP_FLAG_PSEUDO_HEADER_DISALLOWED s) n \<longleftrightarrow> fbit s n \<or> n = 6"
  "fbit (add_flag NGHTTP2_HTTP_FLAG_METH_CONNECT s) n \<longleftrightarrow> fbit s n \<or> n = 7"
  "fbit (add_flag NGHTTP2_HTTP_FLAG_METH_HEAD s) n \<longleftrightarrow> fbit s n \<or> n = 8"
  "fbit (add_flag NGHTTP2_HTTP_FLAG_METH_OPTIONS s) n \<longleftrightarrow> fbit s n \<or> n = 9"
  "fbit (add_flag NGHTTP2_HTTP_FLAG_PATH_REGULAR s) n \<longleftrightarrow> fbit s n \<or> n = 11"
  "fbit (add_flag NGHTTP2_HTTP_FLAG_PATH_ASTERISK s) n \<longleftrightarrow> fbit s n \<or> n = 12"
  "fbit (add_flag NGHTTP2_HTTP_FLAG_SCHEME_HTTP s) n \<longleftrightarrow> fbit s n \<or> n = 13"
  "fbit (add_flag NGHTTP2_HTTP_FLAG__PROTOCOL s) n \<longleftrightarrow> fbit s n \<or> n = 15"
  "fbit (add_flag NGHTTP2_HTTP_FLAG_PRIORITY s) n \<longleftrightarrow> fbit s n \<or> n = 16"
  "fbit (add_flag NGHTTP2_HTTP_FLAG_BAD_PRIORITY s) n \<longleftrightarrow> fbit s n \<or> n = 17"
  unfolding flag_defs by (rule fbit_add; simp)+

lemma add_flag_fields [simp]:
  "stream_id (add_flag f s) = stream_id s" "flags (add_flag f s) = flags s"
  "content_length (add_flag f s) = content_length s" "status_code (add_flag f s) = status_code s"
  "http_extpri (add_flag f s) = http_extpri s"
  by (simp_all add: add_flag_def)

lemma fbit_clear: "fbit (s\<lparr>http_flags := http_flags s AND NOT (push_bit m 1)\<rparr>) n \<longleftrightarrow> fbit s n \<and> n \<noteq> m"
  by (cases "n < 32") (auto simp: fbit_def bit_simps dest: bit_imp_le_length)

lemma fbit_clear_priority:
  "fbit (s\<lparr>http_flags := http_flags s AND NOT NGHTTP2_HTTP_FLAG_PRIORITY\<rparr>) n \<longleftrightarrow> fbit s n \<and> n \<noteq> 16"
  unfolding NGHTTP2_HTTP_FLAG_PRIORITY_def by (rule fbit_clear)

lemma fbit_cong [simp]:
  "fbit (s\<lparr>content_length := x\<rparr>) n = fbit s n" "fbit (s\<lparr>http_extpri := e\<rparr>) n = fbit s n"
  by (simp_all add: fbit_def)

section \<open>Names for tokens\<close>

definition named :: "hd_nv \<Rightarrow> string \<Rightarrow> bool" where
  "named nv s \<longleftrightarrow> nv_name nv = ascii s"

text \<open>The decompressor gives every field the token of its name.\<close>

definition tokenized :: "hd_nv \<Rightarrow> bool" where
  "tokenized nv \<longleftrightarrow> nv_token nv = lookup_token (nv_name nv)"

lemma token_named:
  assumes "tokenized nv" "lookup_token (ascii s) = t" "t \<noteq> - 1"
  shows "nv_token nv = t \<longleftrightarrow> named nv s"
  using assms lookup_token_inj [of "nv_name nv" "ascii s"] by (auto simp: tokenized_def named_def)

lemma tokens:
  assumes "tokenized nv"
  shows "nv_token nv = NGHTTP2_TOKEN__AUTHORITY \<longleftrightarrow> named nv '':authority''"
    "nv_token nv = NGHTTP2_TOKEN__METHOD \<longleftrightarrow> named nv '':method''"
    "nv_token nv = NGHTTP2_TOKEN__PATH \<longleftrightarrow> named nv '':path''"
    "nv_token nv = NGHTTP2_TOKEN__SCHEME \<longleftrightarrow> named nv '':scheme''"
    "nv_token nv = NGHTTP2_TOKEN__PROTOCOL \<longleftrightarrow> named nv '':protocol''"
    "nv_token nv = NGHTTP2_TOKEN_HOST \<longleftrightarrow> named nv ''host''"
    "nv_token nv = NGHTTP2_TOKEN_CONTENT_LENGTH \<longleftrightarrow> named nv ''content-length''"
    "nv_token nv = NGHTTP2_TOKEN_CONNECTION \<longleftrightarrow> named nv ''connection''"
    "nv_token nv = NGHTTP2_TOKEN_KEEP_ALIVE \<longleftrightarrow> named nv ''keep-alive''"
    "nv_token nv = NGHTTP2_TOKEN_PROXY_CONNECTION \<longleftrightarrow> named nv ''proxy-connection''"
    "nv_token nv = NGHTTP2_TOKEN_TRANSFER_ENCODING \<longleftrightarrow> named nv ''transfer-encoding''"
    "nv_token nv = NGHTTP2_TOKEN_UPGRADE \<longleftrightarrow> named nv ''upgrade''"
    "nv_token nv = NGHTTP2_TOKEN_TE \<longleftrightarrow> named nv ''te''"
    "nv_token nv = NGHTTP2_TOKEN_PRIORITY \<longleftrightarrow> named nv ''priority''"
  by (rule token_named [OF assms]; simp add: lookup_token_def token_data)+

section \<open>A request as a list of fields\<close>

text \<open>A name is a token in lower case, behind a colon for a pseudo field.\<close>

definition name_good :: "hd_nv \<Rightarrow> bool" where
  "name_good nv \<longleftrightarrow>
     (let body = (if pseudo nv then tl (nv_name nv) else nv_name nv) in
      body \<noteq> [] \<and> list_all (\<lambda>c. token_char c \<and> \<not> ascii_upper c) body)"

text \<open>The form of the value; \<open>fl\<close> are the flags of the stream, one of which allows white space around it.\<close>

definition value_good :: "u8 \<Rightarrow> hd_nv \<Rightarrow> bool" where
  "value_good fl nv \<longleftrightarrow>
     (let v = nv_value nv;
          lax = fl AND NGHTTP2_STREAM_FLAG_NO_RFC9113_LEADING_AND_TRAILING_WS_VALIDATION \<noteq> 0 in
      if named nv '':method'' then v \<noteq> [] \<and> list_all token_char v
      else if named nv '':path'' then list_all path_char v
      else if named nv '':authority'' \<or> named nv ''host'' then list_all authority_char v
      else if named nv '':scheme'' then check_scheme v
      else if named nv '':protocol'' \<and> lax \<and> list_all is_ows v then False
      else list_all field_value_char v \<and> (lax \<or> v = [] \<or> \<not> is_ows (hd v) \<and> \<not> is_ows (last v)))"

text \<open>A regular field with a bad name, but for upper case, or with a bad value is skipped.\<close>

definition ignorable :: "u8 \<Rightarrow> hd_nv \<Rightarrow> bool" where
  "ignorable fl nv \<longleftrightarrow>
     \<not> pseudo nv \<and> (if name_good nv then \<not> value_good fl nv else \<not> has_upper (nv_name nv))"

text \<open>The fields a request may have at most once.\<close>

definition single_names :: "string list" where
  "single_names = ['':authority'', '':method'', '':path'', '':scheme'', '':protocol'', ''host'', ''content-length'']"

definition connection_names :: "string list" where
  "connection_names = [''connection'', ''keep-alive'', ''proxy-connection'', ''transfer-encoding'', ''upgrade'']"

definition acceptable :: "bool \<Rightarrow> int \<Rightarrow> u8 \<Rightarrow> hd_nv \<Rightarrow> bool" where
  "acceptable ec sid fl nv \<longleftrightarrow>
     name_good nv \<and> value_good fl nv \<and>
     (pseudo nv \<longrightarrow> (\<exists>n \<in> {'':authority'', '':method'', '':path'', '':scheme'', '':protocol''}. named nv n)) \<and>
     ((pseudo nv \<or> named nv ''host'') \<longrightarrow> nv_value nv \<noteq> []) \<and>
     (named nv '':protocol'' \<longrightarrow> ec) \<and>
     (named nv '':method'' \<and> nv_value nv = ascii ''CONNECT'' \<longrightarrow> sid mod 2 \<noteq> 0) \<and>
     (named nv ''content-length'' \<longrightarrow> parse_uint (nv_value nv) \<noteq> - 1) \<and>
     (\<forall>n \<in> set connection_names. \<not> named nv n) \<and>
     (named nv ''te'' \<longrightarrow> lstrieq ''trailers'' (nv_value nv))"

text \<open>A field may stand behind another: no pseudo field behind a regular one, no second one of a kind.\<close>

definition may_follow :: "u8 \<Rightarrow> hd_nv \<Rightarrow> hd_nv \<Rightarrow> bool" where
  "may_follow fl x y \<longleftrightarrow>
     (pseudo y \<longrightarrow> pseudo x) \<and>
     \<not> (\<not> ignorable fl x \<and> \<not> ignorable fl y \<and> (\<exists>n \<in> set single_names. named x n \<and> named y n))"

definition fields_good :: "bool \<Rightarrow> int \<Rightarrow> u8 \<Rightarrow> hd_nv list \<Rightarrow> bool" where
  "fields_good ec sid fl l \<longleftrightarrow>
     list_all (\<lambda>nv. ignorable fl nv \<or> acceptable ec sid fl nv) l \<and> sorted_wrt (may_follow fl) l"

lemma lws_iff: "lws s \<longleftrightarrow> list_all is_ows s"
  by (induction s) (auto simp: is_ows_def)

lemmas check_defs = nghttp2_check_header_name_def nghttp2_check_header_value_def nghttp2_check_header_value_rfc9113_def
  nghttp2_check_method_def nghttp2_check_authority_def nghttp2_check_path_def all_valid_iff VALID_HD_NAME_CHARS_iff
  VALID_HD_VALUE_CHARS_iff VALID_METHOD_CHARS_iff VALID_AUTHORITY_CHARS_iff VALID_PATH_CHARS_iff

lemma check_value_good: "tokenized nv \<Longrightarrow> check_value True s nv = value_good (flags s) nv"
  using tokens [of nv] by (auto simp: check_value_def value_good_def Let_def lws_iff is_ows_def check_defs)

lemma check_name_good: "nghttp2_check_header_name (nv_name nv) = name_good nv"
proof (cases "nv_name nv")
  case (Cons c t)
  then show ?thesis by (cases t) (auto simp: name_good_def pseudo_def first_is_def check_defs Let_def)
qed (simp add: name_good_def pseudo_def first_is_def check_defs)

lemma pseudo_names:
  "pseudo nv \<longleftrightarrow> False" if "named nv s" "s \<in> {''host'', ''content-length'', ''te'', ''priority'', ''connection'', ''keep-alive'', ''proxy-connection'', ''transfer-encoding'', ''upgrade''}"
  using that by (auto simp: named_def pseudo_def first_is_def)

lemma pseudo_named:
  "named nv s \<Longrightarrow> s \<in> {'':authority'', '':method'', '':path'', '':scheme'', '':protocol''} \<Longrightarrow> pseudo nv"
  by (auto simp: named_def pseudo_def first_is_def)

lemma named_unique: "named nv s \<Longrightarrow> named nv s' \<longleftrightarrow> ascii s = ascii s'"
  by (auto simp: named_def)

section \<open>One field\<close>

lemma lstreq_iff: "lstreq a b \<longleftrightarrow> b = ascii a"
  by (auto simp: lstreq_def)

lemma on_method_iff:
  "on_method s v =
     (if v = ascii ''CONNECT'' then
        if stream_id s mod 2 = 0 then None else Some (add_flag NGHTTP2_HTTP_FLAG_METH_CONNECT s)
      else if v = ascii ''HEAD'' then Some (add_flag NGHTTP2_HTTP_FLAG_METH_HEAD s)
      else if v = ascii ''OPTIONS'' then Some (add_flag NGHTTP2_HTTP_FLAG_METH_OPTIONS s)
      else Some s)"
  by (auto simp: on_method_def lstreq_iff)

text \<open>The flags a field sets, but for those of the priority.\<close>

definition field_bits :: "hd_nv \<Rightarrow> nat set" where
  "field_bits nv =
     (let v = nv_value nv in
      (if pseudo nv then {} else {6}) \<union>
      (if named nv '':authority'' then {0} else {}) \<union>
      (if named nv '':path'' then {1} \<union> (if first_is 47 v then {11} else if v = [42] then {12} else {}) else {}) \<union>
      (if named nv '':method'' then {2} \<union> (if v = ascii ''CONNECT'' then {7} else {}) \<union>
         (if v = ascii ''HEAD'' then {8} else {}) \<union> (if v = ascii ''OPTIONS'' then {9} else {}) else {}) \<union>
      (if named nv '':scheme'' then {3} \<union> (if lstrieq ''http'' v \<or> lstrieq ''https'' v then {13} else {}) else {}) \<union>
      (if named nv ''host'' then {4} else {}) \<union>
      (if named nv '':protocol'' then {15} else {}))"

definition takes :: "stream \<Rightarrow> hd_nv \<Rightarrow> bool" where
  "takes s nv \<longleftrightarrow>
     (pseudo nv \<longrightarrow> \<not> fbit s 6) \<and>
     (\<forall>(n, b) \<in> {('':authority'', 0), ('':path'', 1), ('':method'', 2), ('':scheme'', 3), (''host'', 4), ('':protocol'', 15)}.
        named nv n \<longrightarrow> \<not> fbit s b) \<and>
     (named nv ''content-length'' \<longrightarrow> content_length s = - 1)"

definition field_taken :: "stream \<Rightarrow> hd_nv \<Rightarrow> stream \<times> unit res \<Rightarrow> bool" where
  "field_taken s nv out \<longleftrightarrow>
     (\<exists>s'. out = (s', Inr ()) \<and> (\<forall>n < 16. fbit s' n \<longleftrightarrow> fbit s n \<or> n \<in> field_bits nv) \<and>
        (content_length s' = - 1 \<longleftrightarrow> content_length s = - 1 \<and> \<not> named nv ''content-length'') \<and>
        stream_id s' = stream_id s \<and> flags s' = flags s)"

definition field_refused :: "stream \<times> unit res \<Rightarrow> bool" where
  "field_refused out \<longleftrightarrow> (\<exists>s'. out = bad_header s')"

lemma once_step:
  assumes "\<And>s. has_flag s flag \<longleftrightarrow> fbit s b"
  shows "once s nv flag f =
    (if fbit s b \<or> nv_value nv = [] then bad_header s else field_done nv (f (add_flag flag s)))"
  using assms by (simp add: once_def check_pseudo_header_def)

lemma taken_done:
  assumes "\<forall>n < 16. fbit t n \<or> (\<not> pseudo nv \<and> n = 6) \<longleftrightarrow> fbit s n \<or> n \<in> field_bits nv"
    and "content_length t = - 1 \<longleftrightarrow> content_length s = - 1 \<and> \<not> named nv ''content-length''"
    and "stream_id t = stream_id s" "flags t = flags s"
  shows "field_taken s nv (field_done nv t)"
  using assms unfolding field_taken_def field_done_def by (cases "pseudo nv") (simp_all add: fbit_adds)

lemma priority_bits: "n < 16 \<Longrightarrow> fbit (on_priority s v tr) n = fbit s n"
  by (auto simp: on_priority_def fbit_adds fbit_clear_priority split: prod.splits sum.splits)

lemma on_priority_keeps:
  "content_length (on_priority s v tr) = content_length s" "stream_id (on_priority s v tr) = stream_id s"
  "flags (on_priority s v tr) = flags s"
  by (auto simp: on_priority_def split: prod.splits sum.splits)

text \<open>What a field with a good name and a good value leads to.\<close>

definition outcome :: "bool \<Rightarrow> stream \<Rightarrow> hd_nv \<Rightarrow> stream \<times> unit res \<Rightarrow> bool" where
  "outcome ec s nv out \<longleftrightarrow>
     (if acceptable ec (stream_id s) (flags s) nv \<and> takes s nv then field_taken s nv out else field_refused out)"

lemma bad_refused: "field_refused (bad_header s)"
  by (auto simp: field_refused_def)

lemma outcome_bad: "\<not> (acceptable ec (stream_id s) (flags s) nv \<and> takes s nv) \<Longrightarrow> outcome ec s nv (bad_header t)"
  by (simp add: outcome_def bad_refused del: de_Morgan_conj)

lemma outcome_taken: "acceptable ec (stream_id s) (flags s) nv \<Longrightarrow> takes s nv \<Longrightarrow> field_taken s nv out \<Longrightarrow> outcome ec s nv out"
  by (simp add: outcome_def)

lemmas name_sets = acceptable_def takes_def field_bits_def connection_names_def

lemma request_late:
  "pseudo nv \<Longrightarrow> fbit s 6 \<Longrightarrow> outcome ec s nv (http_request_on_header s nv False ec)"
  by (simp add: http_request_on_header_def has_flags outcome_bad takes_def)

text \<open>A field that may come once.\<close>

lemma once_outcome:
  assumes "\<And>s. has_flag s flag \<longleftrightarrow> fbit s b"
    and "fbit s b \<or> nv_value nv = [] \<Longrightarrow> \<not> (acceptable ec (stream_id s) (flags s) nv \<and> takes s nv)"
    and "\<not> (fbit s b \<or> nv_value nv = []) \<Longrightarrow> acceptable ec (stream_id s) (flags s) nv \<and> takes s nv \<and>
      field_taken s nv (field_done nv (f (add_flag flag s)))"
  shows "outcome ec s nv (once s nv flag f)"
  unfolding once_step [OF assms(1)]
proof (cases "fbit s b \<or> nv_value nv = []")
  case True
  then show "outcome ec s nv (if fbit s b \<or> nv_value nv = [] then bad_header s else field_done nv (f (add_flag flag s)))"
    using outcome_bad [OF assms(2) [OF True]] by simp
next
  case False
  then show "outcome ec s nv (if fbit s b \<or> nv_value nv = [] then bad_header s else field_done nv (f (add_flag flag s)))"
    using outcome_taken assms(3) [OF False] by (simp add: outcome_taken)
qed

lemma request_authority:
  assumes nv: "tokenized nv" "name_good nv" "value_good (flags s) nv" "named nv '':authority''" and s: "\<not> fbit s 6"
  shows "outcome ec s nv (http_request_on_header s nv False ec)"
proof -
  have out: "http_request_on_header s nv False ec = once s nv NGHTTP2_HTTP_FLAG__AUTHORITY id"
    using nv tokens(1) [OF nv(1)] s by (simp add: http_request_on_header_def has_flags)
  have p: "pseudo nv" using pseudo_named [OF nv(4)] by simp
  note n = named_unique [OF nv(4)]
  show ?thesis unfolding out
    by (rule once_outcome [OF has_flags(1)])
      (use nv s p in \<open>auto intro!: taken_done simp: name_sets n fbit_adds\<close>)
qed

lemma request_path:
  assumes nv: "tokenized nv" "name_good nv" "value_good (flags s) nv" "named nv '':path''" and s: "\<not> fbit s 6"
  shows "outcome ec s nv (http_request_on_header s nv False ec)"
proof -
  have out: "http_request_on_header s nv False ec = once s nv NGHTTP2_HTTP_FLAG__PATH (\<lambda>s. on_path s (nv_value nv))"
    using nv tokens(3) [OF nv(1)] s by (simp add: http_request_on_header_def has_flags)
  have p: "pseudo nv" using pseudo_named [OF nv(4)] by simp
  note n = named_unique [OF nv(4)]
  have star: "length v = Suc 0 \<and> first_is 42 v \<longleftrightarrow> v = [42]" for v by (auto simp: first_is_def length_Suc_conv)
  show ?thesis unfolding out
    by (rule once_outcome [OF has_flags(2)])
      (use nv s p in \<open>auto intro!: taken_done simp: name_sets n fbit_adds on_path_def star split: if_splits\<close>)
qed

lemma request_scheme:
  assumes nv: "tokenized nv" "name_good nv" "value_good (flags s) nv" "named nv '':scheme''" and s: "\<not> fbit s 6"
  shows "outcome ec s nv (http_request_on_header s nv False ec)"
proof -
  have out: "http_request_on_header s nv False ec = once s nv NGHTTP2_HTTP_FLAG__SCHEME (\<lambda>s. on_scheme s (nv_value nv))"
    using nv tokens(4) [OF nv(1)] s by (simp add: http_request_on_header_def has_flags)
  have p: "pseudo nv" using pseudo_named [OF nv(4)] by simp
  note n = named_unique [OF nv(4)]
  have http: "on_scheme s v = (if lstrieq ''http'' v \<or> lstrieq ''https'' v then add_flag NGHTTP2_HTTP_FLAG_SCHEME_HTTP s else s)" for s v
  proof -
    have "lstrieq ''http'' v \<longleftrightarrow> length v = 4 \<and> memieq (ascii ''http'') v 4"
      by (cases "length v = 4") (auto simp: lstrieq_def eval_nat_numeral)
    moreover have "lstrieq ''https'' v \<longleftrightarrow> length v = 5 \<and> memieq (ascii ''https'') v 5"
      by (cases "length v = 5") (auto simp: lstrieq_def eval_nat_numeral)
    ultimately show ?thesis by (simp only: on_scheme_def)
  qed
  show ?thesis unfolding out
    by (rule once_outcome [OF has_flags(4)])
      (use nv s p in \<open>auto intro!: taken_done simp: name_sets n fbit_adds http\<close>)
qed

lemma request_protocol:
  assumes nv: "tokenized nv" "name_good nv" "value_good (flags s) nv" "named nv '':protocol''" and s: "\<not> fbit s 6"
  shows "outcome ec s nv (http_request_on_header s nv False ec)"
proof -
  have out: "http_request_on_header s nv False ec =
      (if \<not> ec then bad_header s else once s nv NGHTTP2_HTTP_FLAG__PROTOCOL id)"
    using nv tokens(5) [OF nv(1)] s by (simp add: http_request_on_header_def has_flags)
  have p: "pseudo nv" using pseudo_named [OF nv(4)] by simp
  note n = named_unique [OF nv(4)]
  show ?thesis
  proof (cases ec)
    case False
    then have "\<not> acceptable ec (stream_id s) (flags s) nv" using nv(4) by (simp add: acceptable_def)
    then show ?thesis using False unfolding out by (simp add: outcome_bad)
  next
    case True
    have "outcome ec s nv (once s nv NGHTTP2_HTTP_FLAG__PROTOCOL id)"
      by (rule once_outcome [OF has_flags(12)])
        (use nv s p True in \<open>auto intro!: taken_done simp: name_sets n fbit_adds\<close>)
    then show ?thesis using True unfolding out by simp
  qed
qed

lemma request_host:
  assumes nv: "tokenized nv" "name_good nv" "value_good (flags s) nv" "named nv ''host''"
  shows "outcome ec s nv (http_request_on_header s nv False ec)"
proof -
  have p: "\<not> pseudo nv" using pseudo_names [OF nv(4)] by simp
  then have out: "http_request_on_header s nv False ec = once s nv NGHTTP2_HTTP_FLAG_HOST id"
    using nv tokens(6) [OF nv(1)] by (simp add: http_request_on_header_def has_flags)
  note n = named_unique [OF nv(4)]
  show ?thesis unfolding out
    by (rule once_outcome [OF has_flags(5)])
      (use nv p in \<open>auto intro!: taken_done simp: name_sets n fbit_adds\<close>)
qed

lemma request_method:
  assumes nv: "tokenized nv" "name_good nv" "value_good (flags s) nv" "named nv '':method''" and s: "\<not> fbit s 6"
  shows "outcome ec s nv (http_request_on_header s nv False ec)"
proof -
  let ?v = "nv_value nv" and ?s = "add_flag NGHTTP2_HTTP_FLAG__METHOD s"
  have p: "pseudo nv" using pseudo_named [OF nv(4)] by simp
  note n = named_unique [OF nv(4)]
  have out: "http_request_on_header s nv False ec =
      (if fbit s 2 \<or> ?v = [] then bad_header s
       else case on_method ?s ?v of None \<Rightarrow> bad_header ?s | Some s' \<Rightarrow> field_done nv s')"
    using nv tokens(2) [OF nv(1)] s by (simp add: http_request_on_header_def has_flags check_pseudo_header_def)
  consider (bad) "fbit s 2 \<or> ?v = []" | (push) "\<not> (fbit s 2 \<or> ?v = [])" "?v = ascii ''CONNECT''" "stream_id s mod 2 = 0"
    | (good) "\<not> (fbit s 2 \<or> ?v = [])" "\<not> (?v = ascii ''CONNECT'' \<and> stream_id s mod 2 = 0)" by blast
  then show ?thesis
  proof cases
    case bad
    then have "\<not> (acceptable ec (stream_id s) (flags s) nv \<and> takes s nv)" using p by (auto simp: acceptable_def takes_def n)
    then show ?thesis using bad unfolding out by (simp add: outcome_bad del: de_Morgan_conj)
  next
    case push
    then have "\<not> (acceptable ec (stream_id s) (flags s) nv \<and> takes s nv)" using nv(4) by (auto simp: acceptable_def)
    then show ?thesis using push unfolding out by (simp add: on_method_iff outcome_bad del: de_Morgan_conj)
  next
    case good
    then have "acceptable ec (stream_id s) (flags s) nv \<and> takes s nv"
      using nv s p by (auto simp: name_sets n)
    moreover have "field_taken s nv (case on_method ?s ?v of None \<Rightarrow> bad_header ?s | Some s' \<Rightarrow> field_done nv s')"
      using good p by (auto simp: on_method_iff name_sets n fbit_adds intro!: taken_done)
    ultimately show ?thesis using good(1) unfolding out by (simp add: outcome_taken)
  qed
qed

lemma request_length:
  assumes nv: "tokenized nv" "name_good nv" "value_good (flags s) nv" "named nv ''content-length''"
  shows "outcome ec s nv (http_request_on_header s nv False ec)"
proof -
  have p: "\<not> pseudo nv" using pseudo_names [OF nv(4)] by simp
  note n = named_unique [OF nv(4)]
  let ?t = "s\<lparr>content_length := parse_uint (nv_value nv)\<rparr>"
  have out: "http_request_on_header s nv False ec =
      (if content_length s \<noteq> - 1 then bad_header s
       else if parse_uint (nv_value nv) = - 1 then bad_header ?t else field_done nv ?t)"
    using nv tokens(7) [OF nv(1)] p by (simp add: http_request_on_header_def on_content_length_def Let_def)
  consider (bad) "content_length s \<noteq> - 1" | (nan) "content_length s = - 1" "parse_uint (nv_value nv) = - 1"
    | (good) "content_length s = - 1" "parse_uint (nv_value nv) \<noteq> - 1" by blast
  then show ?thesis
  proof cases
    case bad
    then have "\<not> takes s nv" using nv(4) by (simp add: takes_def)
    then show ?thesis using bad unfolding out by (simp add: outcome_bad)
  next
    case nan
    then have "\<not> acceptable ec (stream_id s) (flags s) nv" using nv(4) by (simp add: acceptable_def)
    then show ?thesis using nan unfolding out by (simp add: outcome_bad)
  next
    case good
    then have "acceptable ec (stream_id s) (flags s) nv" "takes s nv" using nv p by (auto simp: name_sets n)
    moreover have "field_taken s nv (field_done nv ?t)"
      using good p nv(4) by (intro taken_done) (auto simp: name_sets n fbit_adds)
    ultimately show ?thesis using good unfolding out by (simp add: outcome_taken)
  qed
qed

lemma request_tail:
  assumes "\<not> (pseudo nv \<and> fbit s 6)" "nv_token nv \<notin> {0, 1, 3, 5, 66, NGHTTP2_TOKEN_HOST, NGHTTP2_TOKEN_CONTENT_LENGTH}"
  shows "http_request_on_header s nv False ec =
    (if connection_token (nv_token nv) then bad_header s
     else if nv_token nv = NGHTTP2_TOKEN_TE then
       (if \<not> lstrieq ''trailers'' (nv_value nv) then bad_header s else field_done nv s)
     else if nv_token nv = NGHTTP2_TOKEN_PRIORITY then field_done nv (on_priority s (nv_value nv) False)
     else if pseudo nv then bad_header s
     else field_done nv s)"
  using assms by (auto simp: http_request_on_header_def has_flags Let_def)

lemma request_connection:
  assumes nv: "tokenized nv" "\<exists>c \<in> set connection_names. named nv c"
  shows "outcome ec s nv (http_request_on_header s nv False ec)"
proof -
  obtain c where c: "c \<in> set connection_names" "named nv c" using nv(2) by blast
  then have p: "\<not> pseudo nv" using pseudo_names [OF c(2)] by (auto simp: connection_names_def)
  have t: "connection_token (nv_token nv)"
    using c tokens(8-12) [OF nv(1)] by (auto simp: connection_names_def connection_token_def)
  then have "http_request_on_header s nv False ec = bad_header s"
    using p by (subst request_tail) (auto simp: connection_token_def)
  moreover have "\<not> acceptable ec (stream_id s) (flags s) nv" using nv(2) by (simp add: acceptable_def)
  ultimately show ?thesis by (simp add: outcome_bad)
qed

lemma request_te:
  assumes nv: "tokenized nv" "name_good nv" "value_good (flags s) nv" "named nv ''te''"
  shows "outcome ec s nv (http_request_on_header s nv False ec)"
proof -
  have p: "\<not> pseudo nv" using pseudo_names [OF nv(4)] by simp
  note n = named_unique [OF nv(4)]
  have out: "http_request_on_header s nv False ec =
      (if \<not> lstrieq ''trailers'' (nv_value nv) then bad_header s else field_done nv s)"
    using nv tokens(13) [OF nv(1)] p by (subst request_tail) (simp_all add: connection_token_def)
  show ?thesis
  proof (cases "lstrieq ''trailers'' (nv_value nv)")
    case False
    then have "\<not> acceptable ec (stream_id s) (flags s) nv" using nv(4) by (simp add: acceptable_def)
    then show ?thesis using False unfolding out by (simp add: outcome_bad)
  next
    case True
    then have "acceptable ec (stream_id s) (flags s) nv" "takes s nv" using nv p by (auto simp: name_sets n)
    moreover have "field_taken s nv (field_done nv s)"
      using p by (intro taken_done) (auto simp: name_sets n)
    ultimately show ?thesis using True unfolding out by (simp add: outcome_taken)
  qed
qed

lemma request_priority:
  assumes nv: "tokenized nv" "name_good nv" "value_good (flags s) nv" "named nv ''priority''"
  shows "outcome ec s nv (http_request_on_header s nv False ec)"
proof -
  have p: "\<not> pseudo nv" using pseudo_names [OF nv(4)] by simp
  note n = named_unique [OF nv(4)]
  have out: "http_request_on_header s nv False ec = field_done nv (on_priority s (nv_value nv) False)"
    using nv tokens(14) [OF nv(1)] p by (subst request_tail) (simp_all add: connection_token_def)
  have "acceptable ec (stream_id s) (flags s) nv" "takes s nv" using nv p by (auto simp: name_sets n)
  moreover have "field_taken s nv (field_done nv (on_priority s (nv_value nv) False))"
    using p by (intro taken_done) (auto simp: name_sets n priority_bits on_priority_keeps)
  ultimately show ?thesis unfolding out by (simp add: outcome_taken)
qed

definition known_names :: "string list" where
  "known_names = single_names @ connection_names @ [''te'', ''priority'']"

lemma request_other:
  assumes nv: "tokenized nv" "name_good nv" "value_good (flags s) nv" "\<forall>n \<in> set known_names. \<not> named nv n"
    and False6: "\<not> (pseudo nv \<and> fbit s 6)"
  shows "outcome ec s nv (http_request_on_header s nv False ec)"
proof -
  have t: "nv_token nv \<notin> {0, 1, 3, 5, 66}" "\<not> connection_token (nv_token nv)" "nv_token nv \<noteq> NGHTTP2_TOKEN_HOST"
      "nv_token nv \<noteq> NGHTTP2_TOKEN_CONTENT_LENGTH" "nv_token nv \<noteq> NGHTTP2_TOKEN_TE" "nv_token nv \<noteq> NGHTTP2_TOKEN_PRIORITY"
    using tokens [OF nv(1)] nv(4) by (auto simp: known_names_def single_names_def connection_names_def connection_token_def)
  have n: "\<not> named nv '':authority''" "\<not> named nv '':method''" "\<not> named nv '':path''" "\<not> named nv '':scheme''"
      "\<not> named nv '':protocol''" "\<not> named nv ''host''" "\<not> named nv ''content-length''" "\<not> named nv ''te''"
    using nv(4) by (auto simp: known_names_def single_names_def)
  show ?thesis
  proof (cases "pseudo nv")
    case True
    then have "\<not> acceptable ec (stream_id s) (flags s) nv" using n by (simp add: acceptable_def)
    moreover have "http_request_on_header s nv False ec = bad_header s"
      using t True False6 by (subst request_tail) auto
    ultimately show ?thesis by (simp add: outcome_bad)
  next
    case False
    then have "acceptable ec (stream_id s) (flags s) nv" "takes s nv"
      using nv n by (auto simp: name_sets known_names_def)
    moreover have "field_taken s nv (field_done nv s)" using False n by (intro taken_done) (auto simp: name_sets)
    moreover have "http_request_on_header s nv False ec = field_done nv s"
      using t False by (subst request_tail) auto
    ultimately show ?thesis by (simp add: outcome_taken)
  qed
qed

lemma request_step:
  assumes nv: "tokenized nv" "name_good nv" "value_good (flags s) nv"
  shows "outcome ec s nv (http_request_on_header s nv False ec)"
proof (cases "pseudo nv \<and> fbit s 6")
  case True
  then show ?thesis using request_late by blast
next
  case False
  show ?thesis
  proof (cases "\<exists>n \<in> set known_names. named nv n")
    case True
    then obtain n where n: "n \<in> set known_names" "named nv n" by blast
    have six: "\<not> fbit s 6" if "named nv m" "m \<in> {'':authority'', '':method'', '':path'', '':scheme'', '':protocol''}" for m
      using pseudo_named [OF that] False by simp
    have "named nv '':authority'' \<or> named nv '':method'' \<or> named nv '':path'' \<or> named nv '':scheme'' \<or> named nv '':protocol'' \<or>
        named nv ''host'' \<or> named nv ''content-length'' \<or> named nv ''te'' \<or> named nv ''priority'' \<or>
        (\<exists>c \<in> set connection_names. named nv c)"
      using n by (auto simp: known_names_def single_names_def)
    then show ?thesis
    proof (elim disjE)
      assume m: "named nv '':authority''"
      show ?thesis by (rule request_authority [OF nv m six [OF m]]) simp
    next
      assume m: "named nv '':method''"
      show ?thesis by (rule request_method [OF nv m six [OF m]]) simp
    next
      assume m: "named nv '':path''"
      show ?thesis by (rule request_path [OF nv m six [OF m]]) simp
    next
      assume m: "named nv '':scheme''"
      show ?thesis by (rule request_scheme [OF nv m six [OF m]]) simp
    next
      assume m: "named nv '':protocol''"
      show ?thesis by (rule request_protocol [OF nv m six [OF m]]) simp
    qed (erule request_host [OF nv] request_length [OF nv] request_te [OF nv] request_priority [OF nv] request_connection [OF nv(1)])+
  next
    case none: False
    then show ?thesis using request_other [OF nv] False by blast
  qed
qed

section \<open>All fields of a request\<close>

lemma ignored_step:
  assumes "tokenized nv" "ignorable (flags s) nv"
  shows "nghttp2_http_on_header True ec NGHTTP2_HEADERS s nv False = ignore_header s"
proof -
  have "nv_name nv \<noteq> []" if "name_good nv" using that by (auto simp: name_good_def pseudo_def first_is_def)
  then show ?thesis
    using assms
    by (auto simp: nghttp2_http_on_header_def ignorable_def check_name_good check_value_good Let_def split: if_splits)
qed

lemma kept_step:
  assumes nv: "tokenized nv" "\<not> ignorable (flags s) nv"
  shows "outcome ec s nv (nghttp2_http_on_header True ec NGHTTP2_HEADERS s nv False)"
proof (cases "name_good nv \<and> value_good (flags s) nv")
  case True
  then show ?thesis
    using request_step [OF nv(1)] by (simp add: nghttp2_http_on_header_def check_name_good check_value_good nv(1))
next
  case False
  have "pseudo nv \<Longrightarrow> nv_name nv \<noteq> []" by (auto simp: pseudo_def first_is_def)
  moreover have "nv_name nv \<noteq> []" if "name_good nv" using that by (auto simp: name_good_def pseudo_def first_is_def)
  ultimately have "nghttp2_http_on_header True ec NGHTTP2_HEADERS s nv False = bad_header s"
    using nv False
    by (auto simp: nghttp2_http_on_header_def ignorable_def check_name_good check_value_good Let_def split: if_splits)
  moreover have "\<not> acceptable ec (stream_id s) (flags s) nv" using False by (auto simp: acceptable_def)
  ultimately show ?thesis by (simp add: outcome_bad)
qed

text \<open>The fields of a header block, one after the other; an ignored field does not end the block.\<close>

fun request_block :: "bool \<Rightarrow> stream \<Rightarrow> hd_nv list \<Rightarrow> stream option" where
  "request_block ec s [] = Some s"
| "request_block ec s (nv # nvs) =
     (case nghttp2_http_on_header True ec NGHTTP2_HEADERS s nv False of
        (s', Inr _) \<Rightarrow> request_block ec s' nvs
      | (s', Inl e) \<Rightarrow> if e = Code NGHTTP2_ERR_IGN_HTTP_HEADER then request_block ec s' nvs else None)"

text \<open>The stream remembers the fields it has seen.\<close>

definition kept :: "u8 \<Rightarrow> hd_nv list \<Rightarrow> string \<Rightarrow> bool" where
  "kept fl l n \<longleftrightarrow> (\<exists>nv \<in> set l. \<not> ignorable fl nv \<and> named nv n)"

definition bits_of :: "u8 \<Rightarrow> hd_nv \<Rightarrow> nat set" where
  "bits_of fl nv = (if ignorable fl nv then {6} else field_bits nv)"

definition seen :: "int \<Rightarrow> u8 \<Rightarrow> hd_nv list \<Rightarrow> stream \<Rightarrow> bool" where
  "seen sid fl l s \<longleftrightarrow>
     stream_id s = sid \<and> flags s = fl \<and> (\<forall>n < 16. fbit s n \<longleftrightarrow> (\<exists>nv \<in> set l. n \<in> bits_of fl nv)) \<and>
     (content_length s = - 1 \<longleftrightarrow> \<not> kept fl l ''content-length'')"

lemma mem_if: "x \<in> (if c then A else B) \<longleftrightarrow> (if c then x \<in> A else x \<in> B)"
  by simp

lemma bits_of_simps:
  "0 \<in> bits_of fl nv \<longleftrightarrow> \<not> ignorable fl nv \<and> named nv '':authority''"
  "1 \<in> bits_of fl nv \<longleftrightarrow> \<not> ignorable fl nv \<and> named nv '':path''"
  "2 \<in> bits_of fl nv \<longleftrightarrow> \<not> ignorable fl nv \<and> named nv '':method''"
  "3 \<in> bits_of fl nv \<longleftrightarrow> \<not> ignorable fl nv \<and> named nv '':scheme''"
  "4 \<in> bits_of fl nv \<longleftrightarrow> \<not> ignorable fl nv \<and> named nv ''host''"
  "15 \<in> bits_of fl nv \<longleftrightarrow> \<not> ignorable fl nv \<and> named nv '':protocol''"
  "7 \<in> bits_of fl nv \<longleftrightarrow> \<not> ignorable fl nv \<and> named nv '':method'' \<and> nv_value nv = ascii ''CONNECT''"
  "9 \<in> bits_of fl nv \<longleftrightarrow> \<not> ignorable fl nv \<and> named nv '':method'' \<and> nv_value nv = ascii ''OPTIONS''"
  "11 \<in> bits_of fl nv \<longleftrightarrow> \<not> ignorable fl nv \<and> named nv '':path'' \<and> first_is 47 (nv_value nv)"
  "12 \<in> bits_of fl nv \<longleftrightarrow> \<not> ignorable fl nv \<and> named nv '':path'' \<and> nv_value nv = [42]"
  "13 \<in> bits_of fl nv \<longleftrightarrow> \<not> ignorable fl nv \<and> named nv '':scheme'' \<and>
     (lstrieq ''http'' (nv_value nv) \<or> lstrieq ''https'' (nv_value nv))"
  unfolding bits_of_def field_bits_def Let_def
  by (simp_all only: mem_if Un_iff insert_iff empty_iff) (auto simp: first_is_def)

lemma bits_six: "6 \<in> bits_of fl nv \<longleftrightarrow> \<not> pseudo nv"
  unfolding bits_of_def field_bits_def Let_def
  by (simp only: mem_if Un_iff insert_iff empty_iff) (auto simp: ignorable_def)

lemma bits_single:
  "(n, b) \<in> {('':authority'', 0), ('':path'', 1), ('':method'', 2), ('':scheme'', 3), (''host'', 4), ('':protocol'', 15)} \<Longrightarrow>
     b \<in> bits_of fl nv \<longleftrightarrow> \<not> ignorable fl nv \<and> named nv n"
  by (elim insertE emptyE) (simp_all only: prod.inject bits_of_simps)

lemma takes_iff:
  assumes s: "seen sid fl l s" and nv: "\<not> ignorable fl nv"
  shows "takes s nv \<longleftrightarrow> (\<forall>x \<in> set l. may_follow fl x nv)"
proof -
  have six: "fbit s 6 \<longleftrightarrow> (\<exists>x \<in> set l. \<not> pseudo x)" using s by (simp add: seen_def bits_six)
  have bit: "fbit s b \<longleftrightarrow> kept fl l n"
    if "(n, b) \<in> {('':authority'', 0), ('':path'', 1), ('':method'', 2), ('':scheme'', 3), (''host'', 4), ('':protocol'', 15)}" for n b
    using s bits_single [OF that] that by (auto simp: seen_def kept_def)
  have len: "content_length s = - 1 \<longleftrightarrow> \<not> kept fl l ''content-length''" using s by (simp add: seen_def)
  have "takes s nv \<longleftrightarrow> (pseudo nv \<longrightarrow> (\<forall>x \<in> set l. pseudo x)) \<and> (\<forall>n \<in> set single_names. named nv n \<longrightarrow> \<not> kept fl l n)"
    unfolding takes_def six len
    using bit [of "'':authority''" 0] bit [of "'':path''" 1] bit [of "'':method''" 2] bit [of "'':scheme''" 3]
      bit [of "''host''" 4] bit [of "'':protocol''" 15]
    by (auto simp: single_names_def)
  also have "\<dots> \<longleftrightarrow> (\<forall>x \<in> set l. may_follow fl x nv)"
    using nv by (auto simp: may_follow_def kept_def)
  finally show ?thesis .
qed

lemma seen_snoc_ignored:
  assumes s: "seen sid fl l s" and nv: "ignorable fl nv"
  shows "seen sid fl (l @ [nv]) (add_flag NGHTTP2_HTTP_FLAG_PSEUDO_HEADER_DISALLOWED s)"
  using s nv by (auto simp: seen_def fbit_adds bits_of_def kept_def)

lemma seen_snoc_taken:
  assumes s: "seen sid fl l s" and nv: "\<not> ignorable fl nv" and t: "field_taken s nv (s', Inr ())"
  shows "seen sid fl (l @ [nv]) s'"
  using s nv t by (auto simp: seen_def bits_of_def kept_def field_taken_def)

lemma fields_good_snoc:
  "fields_good ec sid fl (l @ [nv]) \<longleftrightarrow>
     fields_good ec sid fl l \<and> (ignorable fl nv \<or> acceptable ec sid fl nv) \<and> (\<forall>x \<in> set l. may_follow fl x nv)"
  by (auto simp: fields_good_def sorted_wrt_append)

lemma fields_good_append: "fields_good ec sid fl (l @ l') \<Longrightarrow> fields_good ec sid fl l"
  by (auto simp: fields_good_def sorted_wrt_append)

lemma block_fields:
  assumes "list_all tokenized nvs" "seen sid fl l s" "fields_good ec sid fl l"
  shows "case request_block ec s nvs of
      None \<Rightarrow> \<not> fields_good ec sid fl (l @ nvs)
    | Some s' \<Rightarrow> fields_good ec sid fl (l @ nvs) \<and> seen sid fl (l @ nvs) s'"
  using assms
proof (induction nvs arbitrary: l s)
  case Nil
  then show ?case by simp
next
  case (Cons nv nvs)
  have s: "flags s = fl" "stream_id s = sid" using Cons.prems(2) by (simp_all add: seen_def)
  have nv: "tokenized nv" using Cons.prems(1) by simp
  have app: "l @ nv # nvs = (l @ [nv]) @ nvs" by simp
  show ?case
  proof (cases "ignorable fl nv")
    case True
    have "fields_good ec sid fl (l @ [nv])"
      using True Cons.prems(3) by (auto simp: fields_good_snoc may_follow_def ignorable_def)
    then show ?thesis
      unfolding app using Cons.IH [OF _ seen_snoc_ignored [OF Cons.prems(2) True]] Cons.prems(1)
        ignored_step [OF nv, of s ec] True s by (simp add: ignore_header_def del: append_assoc)
  next
    case False
    let ?out = "nghttp2_http_on_header True ec NGHTTP2_HEADERS s nv False"
    have out: "outcome ec s nv ?out" using kept_step [OF nv, of s ec] False s by simp
    have good: "fields_good ec sid fl (l @ [nv]) \<longleftrightarrow> acceptable ec sid fl nv \<and> takes s nv"
      using False Cons.prems(3) takes_iff [OF Cons.prems(2) False] by (simp add: fields_good_snoc)
    show ?thesis
    proof (cases "acceptable ec sid fl nv \<and> takes s nv")
      case True
      then have "field_taken s nv ?out" using out s by (simp add: outcome_def)
      then obtain s' where s': "?out = (s', Inr ())" "field_taken s nv (s', Inr ())"
        by (auto simp: field_taken_def)
      show ?thesis
        unfolding app using Cons.IH [OF _ seen_snoc_taken [OF Cons.prems(2) False s'(2)]] Cons.prems(1) good True s'(1)
        by (simp del: append_assoc)
    next
      case bad: False
      then have "field_refused ?out" using out s by (simp add: outcome_def del: de_Morgan_conj)
      then have "request_block ec s (nv # nvs) = None" by (auto simp: field_refused_def bad_header_def)
      moreover have "\<not> fields_good ec sid fl ((l @ [nv]) @ nvs)" using good bad fields_good_append by blast
      ultimately show ?thesis by simp
    qed
  qed
qed

section \<open>A complete request\<close>

text \<open>What a request must have: a target and a method; of \<open>CONNECT\<close> the authority alone, or with
  \<open>:protocol\<close> both; the path of an \<open>http\<close> URI begins with a slash, or is \<open>*\<close> for \<open>OPTIONS\<close>.\<close>

definition kept_with :: "u8 \<Rightarrow> hd_nv list \<Rightarrow> string \<Rightarrow> (bytes \<Rightarrow> bool) \<Rightarrow> bool" where
  "kept_with fl l n P \<longleftrightarrow> (\<exists>nv \<in> set l. \<not> ignorable fl nv \<and> named nv n \<and> P (nv_value nv))"

definition request_complete :: "u8 \<Rightarrow> hd_nv list \<Rightarrow> bool" where
  "request_complete fl l \<longleftrightarrow>
     (let connect = kept_with fl l '':method'' (\<lambda>v. v = ascii ''CONNECT'') in
      if connect \<and> \<not> kept fl l '':protocol'' then
        kept fl l '':authority'' \<and> \<not> kept fl l '':scheme'' \<and> \<not> kept fl l '':path''
      else
        kept fl l '':method'' \<and> kept fl l '':path'' \<and> kept fl l '':scheme'' \<and>
        (kept fl l '':authority'' \<or> kept fl l ''host'') \<and>
        (kept fl l '':protocol'' \<longrightarrow> connect \<and> kept fl l '':authority'') \<and>
        (kept_with fl l '':scheme'' (\<lambda>v. lstrieq ''http'' v \<or> lstrieq ''https'' v) \<longrightarrow>
           kept_with fl l '':path'' (\<lambda>v. first_is 47 v) \<or>
           kept_with fl l '':method'' (\<lambda>v. v = ascii ''OPTIONS'') \<and> kept_with fl l '':path'' (\<lambda>v. v = [42])))"

lemma seen_bits:
  assumes "seen sid fl l s"
  shows "fbit s 0 \<longleftrightarrow> kept fl l '':authority''" "fbit s 1 \<longleftrightarrow> kept fl l '':path''" "fbit s 2 \<longleftrightarrow> kept fl l '':method''"
    "fbit s 3 \<longleftrightarrow> kept fl l '':scheme''" "fbit s 4 \<longleftrightarrow> kept fl l ''host''" "fbit s 15 \<longleftrightarrow> kept fl l '':protocol''"
    "fbit s 7 \<longleftrightarrow> kept_with fl l '':method'' (\<lambda>v. v = ascii ''CONNECT'')"
    "fbit s 9 \<longleftrightarrow> kept_with fl l '':method'' (\<lambda>v. v = ascii ''OPTIONS'')"
    "fbit s 11 \<longleftrightarrow> kept_with fl l '':path'' (first_is 47)"
    "fbit s 12 \<longleftrightarrow> kept_with fl l '':path'' (\<lambda>v. v = [42])"
    "fbit s 13 \<longleftrightarrow> kept_with fl l '':scheme'' (\<lambda>v. lstrieq ''http'' v \<or> lstrieq ''https'' v)"
proof -
  have "fbit s n \<longleftrightarrow> (\<exists>nv \<in> set l. n \<in> bits_of fl nv)" if "n < 16" for n using assms that by (simp add: seen_def)
  note bits = this [of 0, unfolded bits_of_simps] this [of 1, unfolded bits_of_simps] this [of 2, unfolded bits_of_simps]
    this [of 3, unfolded bits_of_simps] this [of 4, unfolded bits_of_simps] this [of 15, unfolded bits_of_simps]
    this [of 7, unfolded bits_of_simps] this [of 9, unfolded bits_of_simps] this [of 11, unfolded bits_of_simps]
    this [of 12, unfolded bits_of_simps] this [of 13, unfolded bits_of_simps]
  show "fbit s 0 \<longleftrightarrow> kept fl l '':authority''" "fbit s 1 \<longleftrightarrow> kept fl l '':path''" "fbit s 2 \<longleftrightarrow> kept fl l '':method''"
    "fbit s 3 \<longleftrightarrow> kept fl l '':scheme''" "fbit s 4 \<longleftrightarrow> kept fl l ''host''" "fbit s 15 \<longleftrightarrow> kept fl l '':protocol''"
    "fbit s 7 \<longleftrightarrow> kept_with fl l '':method'' (\<lambda>v. v = ascii ''CONNECT'')"
    "fbit s 9 \<longleftrightarrow> kept_with fl l '':method'' (\<lambda>v. v = ascii ''OPTIONS'')"
    "fbit s 11 \<longleftrightarrow> kept_with fl l '':path'' (first_is 47)"
    "fbit s 12 \<longleftrightarrow> kept_with fl l '':path'' (\<lambda>v. v = [42])"
    "fbit s 13 \<longleftrightarrow> kept_with fl l '':scheme'' (\<lambda>v. lstrieq ''http'' v \<or> lstrieq ''https'' v)"
    unfolding kept_def kept_with_def by (rule bits; simp)+
qed

lemma req_headers_iff:
  "http_flags s AND NGHTTP2_HTTP_FLAG_REQ_HEADERS = NGHTTP2_HTTP_FLAG_REQ_HEADERS \<longleftrightarrow> fbit s 1 \<and> fbit s 2 \<and> fbit s 3"
proof -
  have "x AND push_bit n 1 = push_bit n 1 \<longleftrightarrow> bit x n" if "n < 32" for n and x :: u32
  proof
    assume "x AND push_bit n 1 = push_bit n 1"
    then have "bit (x AND push_bit n 1) n" using that by (simp add: bit_simps)
    then show "bit x n" by (simp add: bit_and_iff)
  next
    assume "bit x n"
    then show "x AND push_bit n 1 = push_bit n 1" by (intro bit_word_eqI) (auto simp: bit_simps)
  qed
  moreover have "x AND (f OR g) = f OR g \<longleftrightarrow> x AND f = f \<and> x AND g = g" for x f g :: u32
    by (auto simp: bit_eq_iff bit_simps)
  ultimately show ?thesis
    by (simp only: NGHTTP2_HTTP_FLAG_REQ_HEADERS_def flag_defs fbit_def) auto
qed

lemma on_request_headers_iff:
  "snd (nghttp2_http_on_request_headers ftype s) \<longleftrightarrow>
     (if fbit s 7 \<and> \<not> fbit s 15 then fbit s 0 \<and> \<not> fbit s 3 \<and> \<not> fbit s 1
      else fbit s 2 \<and> fbit s 1 \<and> fbit s 3 \<and> (fbit s 0 \<or> fbit s 4) \<and> (fbit s 15 \<longrightarrow> fbit s 7 \<and> fbit s 0) \<and>
        (fbit s 13 \<longrightarrow> fbit s 11 \<or> fbit s 9 \<and> fbit s 12))"
  by (simp add: nghttp2_http_on_request_headers_def check_path_def has_flag_or has_flags req_headers_iff Let_def) blast

text \<open>C6: A server takes exactly the well-formed requests of RFC 9113. On a fresh stream, when the fields
  of a header block come one by one and the block ends, it is accepted if and only if every field is
  well formed (or regular with a bad value, and ignored), no pseudo field follows a regular one, each of
  the pseudo fields, \<open>host\<close> and \<open>content-length\<close> comes at most once, no field belongs to the connection,
  and together they name a method, a scheme, a path and an authority, or are a \<open>CONNECT\<close> without
  scheme and path, or an extended \<open>CONNECT\<close> when the server has enabled it.\<close>

theorem request_accepted_iff:
  assumes "list_all tokenized nvs" "http_flags s = 0" "content_length s = - 1"
  shows "(case request_block ec s nvs of
      None \<Rightarrow> False
    | Some s' \<Rightarrow> snd (nghttp2_http_on_request_headers NGHTTP2_HEADERS s')) \<longleftrightarrow>
    fields_good ec (stream_id s) (flags s) nvs \<and> request_complete (flags s) nvs"
proof -
  have start: "seen (stream_id s) (flags s) [] s" "fields_good ec (stream_id s) (flags s) []"
    using assms(2,3) by (simp_all add: seen_def fbit_def kept_def fields_good_def)
  note run = block_fields [OF assms(1) start, unfolded append_Nil]
  show ?thesis
  proof (cases "request_block ec s nvs")
    case None
    then show ?thesis using run by simp
  next
    case (Some s')
    then have "fields_good ec (stream_id s) (flags s) nvs" and seen: "seen (stream_id s) (flags s) nvs s'" using run by simp_all
    moreover have "snd (nghttp2_http_on_request_headers NGHTTP2_HEADERS s') \<longleftrightarrow> request_complete (flags s) nvs"
      unfolding on_request_headers_iff seen_bits [OF seen] request_complete_def Let_def by auto
    ultimately show ?thesis using Some by simp
  qed
qed

definition example_field :: "string \<Rightarrow> string \<Rightarrow> hd_nv" where
  "example_field n v = \<lparr>nv_name = ascii n, nv_value = ascii v, nv_token = lookup_token (ascii n), nv_flags = 0\<rparr>"

lemma request_accepted_iff_witness:
  "request_complete 0 [example_field '':method'' ''GET'', example_field '':scheme'' ''https'', example_field '':path'' ''/'',
     example_field '':authority'' ''a.b'', example_field ''te'' ''trailers'']"
proof -
  let ?l = "[example_field '':method'' ''GET'', example_field '':scheme'' ''https'', example_field '':path'' ''/'',
     example_field '':authority'' ''a.b'', example_field ''te'' ''trailers'']"
  let ?s = "nghttp2_stream_init 1 0 NGHTTP2_STREAM_OPENING 16 65535 65535 0"
  have "case request_block False ?s ?l of
      None \<Rightarrow> False
    | Some s' \<Rightarrow> snd (nghttp2_http_on_request_headers NGHTTP2_HEADERS s')" by code_simp
  moreover have "list_all tokenized ?l" by (simp add: tokenized_def example_field_def)
  ultimately show ?thesis
    using request_accepted_iff [of ?l ?s False] by (simp add: nghttp2_stream_init_def)
qed

end
