(* ===== verification/HttpBody.thy ===== *)
theory HttpBody
  imports HttpRequest
begin

text \<open>
  The length of a body: the bytes that arrive after the header fields of a response, chunk by chunk,
  against its status, its request method and its \<open>content-length\<close>.
\<close>

text \<open>The chunks of a body in order, then the end of the stream.\<close>

fun body_ok :: "stream \<Rightarrow> nat list \<Rightarrow> bool res" where
  "body_ok s [] = Inr (nghttp2_http_on_remote_end_stream s)"
| "body_ok s (n # ns) =
     rbind (nghttp2_http_on_data_chunk s n) (\<lambda>(s', fine). if fine then body_ok s' ns else Inr False)"

lemma has_final: "has_flag s NGHTTP2_HTTP_FLAG_EXPECT_FINAL_RESPONSE \<longleftrightarrow> fbit s 14"
  unfolding flag_defs by (rule has_flag_bit)

lemma has_status: "has_flag s NGHTTP2_HTTP_FLAG__STATUS \<longleftrightarrow> fbit s 5"
  unfolding flag_defs by (rule has_flag_bit)

lemma has_head: "has_flag s NGHTTP2_HTTP_FLAG_METH_HEAD \<longleftrightarrow> fbit s 8"
  unfolding flag_defs by (rule has_flag_bit)

lemma has_workaround: "has_flag s NGHTTP2_HTTP_FLAG_METH_UPGRADE_WORKAROUND \<longleftrightarrow> fbit s 10"
  unfolding flag_defs by (rule has_flag_bit)

lemma body_ok_iff:
  assumes "0 \<le> recv_content_length s"
  shows "body_ok s ns = Inr (\<not> fbit s 14 \<and>
      (content_length s = - 1 \<or> recv_content_length s + int (sum_list ns) = content_length s)) \<or>
    recv_content_length s + int (sum_list ns) \<ge> 2 ^ 63 \<and> body_ok s ns = Inl Undefined"
  using assms
proof (induction ns arbitrary: s)
  case Nil
  show ?case by (auto simp: nghttp2_http_on_remote_end_stream_def has_final)
next
  case (Cons n ns)
  let ?s = "s\<lparr>recv_content_length := recv_content_length s + int n\<rparr>"
  have bit: "fbit ?s 14 = fbit s 14" by (simp add: fbit_def)
  show ?case
  proof (cases "recv_content_length s + int n < 2 ^ 63")
    case True
    then have "nghttp2_http_on_data_chunk s n =
        Inr (?s, \<not> (fbit s 14 \<or> (content_length s \<noteq> - 1 \<and> recv_content_length s + int n > content_length s)))"
      using Cons.prems bit by (simp add: nghttp2_http_on_data_chunk_def i64_def has_final Let_def)
    then show ?thesis
      using Cons.IH [of ?s] Cons.prems bit by auto
  next
    case False
    then show ?thesis by (simp add: nghttp2_http_on_data_chunk_def i64_def)
  qed
qed

text \<open>C32: After the header fields of a final response a body of any pieces is accepted exactly when its
  length is right: none at all for the answer to a \<open>HEAD\<close> request and for the statuses 204 and 304;
  any length for the answer to \<open>CONNECT\<close>; else any length when no \<open>content-length\<close> was given, and
  otherwise that many bytes. Only a body of more than 2^63 - 1 bytes may make the count overflow.\<close>

theorem response_body_iff:
  assumes "has_flag s NGHTTP2_HTTP_FLAG__STATUS" "status_code s sdiv 100 \<noteq> 1" "recv_content_length s = 0"
  shows "snd (nghttp2_http_on_response_headers s) \<and>
    (body_ok (fst (nghttp2_http_on_response_headers s)) ns = Inr
      (if has_flag s NGHTTP2_HTTP_FLAG_METH_HEAD \<or> status_code s = 204 \<or> status_code s = 304 then sum_list ns = 0
       else if has_flag s NGHTTP2_HTTP_FLAG_METH_CONNECT \<or> has_flag s NGHTTP2_HTTP_FLAG_METH_UPGRADE_WORKAROUND then True
       else content_length s = - 1 \<or> int (sum_list ns) = content_length s) \<or>
     int (sum_list ns) \<ge> 2 ^ 63 \<and> body_ok (fst (nghttp2_http_on_response_headers s)) ns = Inl Undefined)"
proof -
  let ?s = "s\<lparr>http_flags := http_flags s AND NOT NGHTTP2_HTTP_FLAG_EXPECT_FINAL_RESPONSE\<rparr>"
  have bits: "fbit ?s n \<longleftrightarrow> fbit s n \<and> n \<noteq> 14" for n
    unfolding NGHTTP2_HTTP_FLAG_EXPECT_FINAL_RESPONSE_def by (rule fbit_clear)
  have body: "expect_response_body ?s \<longleftrightarrow> \<not> (fbit s 8 \<or> status_code s = 204 \<or> status_code s = 304)"
    using assms(2) by (auto simp: expect_response_body_def has_head bits)
  have run: "nghttp2_http_on_response_headers s =
      (if \<not> expect_response_body ?s then ?s\<lparr>content_length := 0\<rparr>
       else if fbit s 7 \<or> fbit s 10 then ?s\<lparr>content_length := - 1\<rparr> else ?s, True)"
    using assms(1,2)
    by (simp add: nghttp2_http_on_response_headers_def has_flag_or has_flags has_workaround bits Let_def)
  define t where "t = fst (nghttp2_http_on_response_headers s)"
  have t: "recv_content_length t = 0" "\<not> fbit t 14"
    unfolding t_def run using assms(3) bits by (simp_all add: fbit_def)
  have "content_length t = - 1 \<or> int (sum_list ns) = content_length t \<longleftrightarrow>
      (if fbit s 8 \<or> status_code s = 204 \<or> status_code s = 304 then sum_list ns = 0
       else if fbit s 7 \<or> fbit s 10 then True
       else content_length s = - 1 \<or> int (sum_list ns) = content_length s)"
    unfolding t_def run body by simp
  then show ?thesis
    using body_ok_iff [of t ns] t run unfolding t_def [symmetric] has_head has_flags(7) has_workaround by simp
qed

lemma response_body_iff_witness:
  "body_ok (fst (nghttp2_http_on_response_headers ((nghttp2_stream_init 1 0 NGHTTP2_STREAM_OPENED 16 65535 65535 0)
      \<lparr>http_flags := push_bit 5 1, status_code := 200, content_length := 5\<rparr>))) [4, 2] = Inr False"
proof -
  let ?s = "(nghttp2_stream_init 1 0 NGHTTP2_STREAM_OPENED 16 65535 65535 0)
      \<lparr>http_flags := push_bit 5 1, status_code := 200, content_length := 5\<rparr>"
  have "has_flag ?s NGHTTP2_HTTP_FLAG__STATUS" "status_code ?s sdiv 100 \<noteq> 1" "recv_content_length ?s = 0"
      "\<not> has_flag ?s NGHTTP2_HTTP_FLAG_METH_HEAD" "\<not> has_flag ?s NGHTTP2_HTTP_FLAG_METH_CONNECT"
      "\<not> has_flag ?s NGHTTP2_HTTP_FLAG_METH_UPGRADE_WORKAROUND"
    by (simp_all add: has_flag_def flag_defs nghttp2_stream_init_def signed_divide_int_def)
  from response_body_iff [OF this(1-3), of "[4, 2]"] this(4-6) show ?thesis by (simp add: nghttp2_stream_init_def)
qed

end
