(* ===== verification/Session.thy ===== *)
theory Session
  imports DepRemove HMap Http FrameVar HdInflate
begin

text \<open>
  The connection of \<open>nghttp2_session.c\<close>: its state, which stream identifiers are whose and which are new,
  and what may be sent on a stream in which state. Streams live in the store of \<open>DepTree\<close>, the root of the
  dependency tree under 0; the hash map of \<open>HMap\<close> gives the stream of an identifier. Outbound items are
  identifiers of a store of items, and the three queues of items are lists, as \<open>Queue\<close> shows them to be.
\<close>

section \<open>Frames\<close>

datatype nghttp2_headers_category =
    NGHTTP2_HCAT_REQUEST
  | NGHTTP2_HCAT_RESPONSE
  | NGHTTP2_HCAT_PUSH_RESPONSE
  | NGHTTP2_HCAT_HEADERS

text \<open>The union of frames, with the fields the session reads. The kind of a frame is its constructor.\<close>

datatype frame_body =
    Data_frame
  | Headers_frame nghttp2_headers_category priority_spec "nghttp2_nv list"
  | Priority_frame priority_spec
  | Rst_stream_frame u32
  | Settings_frame "settings_entry list"
  | Push_promise_frame int "nghttp2_nv list"
  | Ping_frame bytes
  | Goaway_frame int u32 bytes
  | Window_update_frame int
  | Altsvc_frame bytes bytes
  | Origin_frame "bytes list"
  | Priority_update_frame int bytes
  | Other_frame u8

record frame =
  fr_length :: u32
  fr_id :: int
  fr_flags :: u8
  body :: frame_body

definition NGHTTP2_FLAG_ACK :: u8 where "NGHTTP2_FLAG_ACK = 0x01"

definition nghttp2_frame_headers_init ::
  "u8 \<Rightarrow> int \<Rightarrow> nghttp2_headers_category \<Rightarrow> priority_spec option \<Rightarrow> nghttp2_nv list \<Rightarrow> frame" where
  "nghttp2_frame_headers_init fl sid cat ps nva =
     \<lparr>fr_length = 0, fr_id = sid, fr_flags = fl,
      body = Headers_frame cat (case ps of Some p \<Rightarrow> p | None \<Rightarrow> nghttp2_priority_spec_default_init) nva\<rparr>"

definition nghttp2_frame_priority_init :: "int \<Rightarrow> priority_spec \<Rightarrow> frame" where
  "nghttp2_frame_priority_init sid ps =
     \<lparr>fr_length = of_nat NGHTTP2_PRIORITY_SPECLEN, fr_id = sid, fr_flags = NGHTTP2_FLAG_NONE,
      body = Priority_frame ps\<rparr>"

definition nghttp2_frame_rst_stream_init :: "int \<Rightarrow> u32 \<Rightarrow> frame" where
  "nghttp2_frame_rst_stream_init sid code =
     \<lparr>fr_length = 4, fr_id = sid, fr_flags = NGHTTP2_FLAG_NONE, body = Rst_stream_frame code\<rparr>"

definition nghttp2_frame_settings_init :: "u8 \<Rightarrow> settings_entry list \<Rightarrow> frame" where
  "nghttp2_frame_settings_init fl iv =
     \<lparr>fr_length = of_nat (length iv) * of_nat NGHTTP2_FRAME_SETTINGS_ENTRY_LENGTH, fr_id = 0, fr_flags = fl,
      body = Settings_frame iv\<rparr>"

definition nghttp2_frame_push_promise_init :: "u8 \<Rightarrow> int \<Rightarrow> int \<Rightarrow> nghttp2_nv list \<Rightarrow> frame" where
  "nghttp2_frame_push_promise_init fl sid promised nva =
     \<lparr>fr_length = 0, fr_id = sid, fr_flags = fl, body = Push_promise_frame promised nva\<rparr>"

definition nghttp2_frame_ping_init :: "u8 \<Rightarrow> bytes option \<Rightarrow> frame" where
  "nghttp2_frame_ping_init fl opaque =
     \<lparr>fr_length = 8, fr_id = 0, fr_flags = fl,
      body = Ping_frame (case opaque of Some d \<Rightarrow> take 8 d | None \<Rightarrow> replicate 8 0)\<rparr>"

definition nghttp2_frame_goaway_init :: "int \<Rightarrow> u32 \<Rightarrow> bytes \<Rightarrow> frame" where
  "nghttp2_frame_goaway_init last_id code opaque =
     \<lparr>fr_length = 8 + of_nat (length opaque), fr_id = 0, fr_flags = NGHTTP2_FLAG_NONE,
      body = Goaway_frame last_id code opaque\<rparr>"

definition nghttp2_frame_window_update_init :: "u8 \<Rightarrow> int \<Rightarrow> int \<Rightarrow> frame" where
  "nghttp2_frame_window_update_init fl sid increment =
     \<lparr>fr_length = 4, fr_id = sid, fr_flags = fl, body = Window_update_frame increment\<rparr>"

definition nghttp2_frame_data_init :: "u8 \<Rightarrow> int \<Rightarrow> frame" where
  "nghttp2_frame_data_init fl sid = \<lparr>fr_length = 0, fr_id = sid, fr_flags = fl, body = Data_frame\<rparr>"

definition nghttp2_frame_extension_init :: "u8 \<Rightarrow> u8 \<Rightarrow> int \<Rightarrow> frame" where
  "nghttp2_frame_extension_init ty fl sid =
     \<lparr>fr_length = 0, fr_id = sid, fr_flags = fl, body = Other_frame ty\<rparr>"

definition nghttp2_frame_altsvc_init :: "int \<Rightarrow> bytes \<Rightarrow> bytes \<Rightarrow> frame" where
  "nghttp2_frame_altsvc_init sid origin field_value =
     \<lparr>fr_length = of_nat (2 + length origin + length field_value), fr_id = sid, fr_flags = NGHTTP2_FLAG_NONE,
      body = Altsvc_frame origin field_value\<rparr>"

definition nghttp2_frame_origin_init :: "bytes list \<Rightarrow> frame" where
  "nghttp2_frame_origin_init ov =
     \<lparr>fr_length = of_nat (sum_list (map (\<lambda>x. 2 + length x) ov)), fr_id = 0, fr_flags = NGHTTP2_FLAG_NONE,
      body = Origin_frame ov\<rparr>"

definition nghttp2_frame_priority_update_init :: "int \<Rightarrow> bytes \<Rightarrow> frame" where
  "nghttp2_frame_priority_update_init sid field_value =
     \<lparr>fr_length = of_nat (4 + length field_value), fr_id = 0, fr_flags = NGHTTP2_FLAG_NONE,
      body = Priority_update_frame sid field_value\<rparr>"

section \<open>The state of a connection\<close>

text \<open>An outbound item: its frame, whether it is in a queue, and the auxiliary data: \<open>aux_data_prd\<close> says whether
  there is a callback to read data from, \<open>aux_flags\<close> are the flags of DATA and of GOAWAY.\<close>

record outbound_item =
  oi_frame :: frame
  oi_queued :: bool
  aux_data_prd :: bool
  aux_eof :: bool
  aux_user_data :: nat
  aux_error_code :: u32
  aux_canceled :: bool
  aux_flags :: u8

definition nghttp2_outbound_item_init :: "frame \<Rightarrow> outbound_item" where
  "nghttp2_outbound_item_init fr =
     \<lparr>oi_frame = fr, oi_queued = False, aux_data_prd = False, aux_eof = False, aux_user_data = 0, aux_error_code = 0, aux_canceled = False,
      aux_flags = 0\<rparr>"

datatype nghttp2_inbound_state =
    NGHTTP2_IB_READ_CLIENT_MAGIC
  | NGHTTP2_IB_READ_FIRST_SETTINGS
  | NGHTTP2_IB_READ_HEAD
  | NGHTTP2_IB_READ_NBYTE
  | NGHTTP2_IB_READ_HEADER_BLOCK
  | NGHTTP2_IB_IGN_HEADER_BLOCK
  | NGHTTP2_IB_IGN_PAYLOAD
  | NGHTTP2_IB_FRAME_SIZE_ERROR
  | NGHTTP2_IB_READ_SETTINGS
  | NGHTTP2_IB_READ_GOAWAY_DEBUG
  | NGHTTP2_IB_EXPECT_CONTINUATION
  | NGHTTP2_IB_IGN_CONTINUATION
  | NGHTTP2_IB_READ_PAD_DATA
  | NGHTTP2_IB_READ_DATA
  | NGHTTP2_IB_IGN_DATA
  | NGHTTP2_IB_IGN_ALL
  | NGHTTP2_IB_READ_ALTSVC_PAYLOAD
  | NGHTTP2_IB_READ_ORIGIN_PAYLOAD
  | NGHTTP2_IB_READ_EXTENSION_PAYLOAD

datatype nghttp2_outbound_state =
    NGHTTP2_OB_POP_ITEM
  | NGHTTP2_OB_SEND_DATA
  | NGHTTP2_OB_SEND_NO_COPY
  | NGHTTP2_OB_SEND_CLIENT_MAGIC

record settings_storage =
  header_table_size :: u32
  enable_push :: u32
  max_concurrent_streams :: u32
  initial_window_size :: u32
  max_frame_size :: u32
  max_header_list_size :: u32
  enable_connect_protocol :: u32
  no_rfc7540_priorities :: u32

text \<open>\<open>ob_data u\<close> is the heap of the streams of urgency \<open>u\<close> and its capacity; \<open>new_item\<close> is the address the
  next outbound item gets. Counters of type \<open>size_t\<close> have 32 bits.\<close>

record session =
  streams :: "nat hmap"
  tree :: dtree
  items :: "nat \<Rightarrow> outbound_item"
  new_item :: nat
  ob_urgent :: "nat list"
  ob_reg :: "nat list"
  ob_syn :: "nat list"
  ob_data :: "nat \<Rightarrow> nat list \<times> nat"
  aob_item :: "nat option"
  aob_state :: nghttp2_outbound_state
  framebufs :: bufs
  iframe_state :: nghttp2_inbound_state
  iframe_payloadleft :: u32
  hd_deflater :: deflater
  hd_inflater :: inflater
  closed_stream_head :: "nat option"
  closed_stream_tail :: "nat option"
  idle_stream_head :: "nat option"
  idle_stream_tail :: "nat option"
  inflight_settings :: "settings_entry list list"
  stream_seq :: u64
  num_outgoing_streams :: u32
  num_incoming_streams :: u32
  num_incoming_reserved_streams :: u32
  max_incoming_reserved_streams :: u32
  num_closed_streams :: u32
  num_idle_streams :: u32
  obq_flood_counter :: u32
  max_outbound_ack :: u32
  max_settings :: u32
  max_send_header_block_length :: u32
  builtin_recv_ext_types :: u32
  user_recv_ext_types :: bytes
  next_stream_id :: u32
  last_sent_stream_id :: int
  last_recv_stream_id :: int
  last_proc_stream_id :: int
  local_last_stream_id :: int
  remote_last_stream_id :: int
  conn_remote_window_size :: int
  conn_recv_window_size :: int
  conn_consumed_size :: int
  conn_recv_reduction :: int
  conn_local_window_size :: int
  remote_settings_received :: bool
  remote_settings :: settings_storage
  local_settings :: settings_storage
  opt_flags :: u32
  pending_local_max_concurrent_stream :: u32
  pending_enable_push :: u8
  pending_enable_connect_protocol :: u8
  pending_no_rfc7540_priorities :: u8
  fallback_rfc7540_priorities :: bool
  server :: bool
  goaway_flags :: u8
  conn_window_update_queued :: bool

definition NGHTTP2_OPTMASK_NO_AUTO_WINDOW_UPDATE :: u32 where
  "NGHTTP2_OPTMASK_NO_AUTO_WINDOW_UPDATE = 0x01"
definition NGHTTP2_OPTMASK_NO_HTTP_MESSAGING :: u32 where "NGHTTP2_OPTMASK_NO_HTTP_MESSAGING = 0x04"
definition NGHTTP2_OPTMASK_NO_AUTO_PING_ACK :: u32 where "NGHTTP2_OPTMASK_NO_AUTO_PING_ACK = 0x08"
definition NGHTTP2_OPTMASK_NO_CLOSED_STREAMS :: u32 where "NGHTTP2_OPTMASK_NO_CLOSED_STREAMS = 0x10"
definition NGHTTP2_OPTMASK_SERVER_FALLBACK_RFC7540_PRIORITIES :: u32 where
  "NGHTTP2_OPTMASK_SERVER_FALLBACK_RFC7540_PRIORITIES = 0x20"
definition NGHTTP2_OPTMASK_NO_RFC9113_LEADING_AND_TRAILING_WS_VALIDATION :: u32 where
  "NGHTTP2_OPTMASK_NO_RFC9113_LEADING_AND_TRAILING_WS_VALIDATION = 0x40"

definition NGHTTP2_GOAWAY_TERM_ON_SEND :: u8 where "NGHTTP2_GOAWAY_TERM_ON_SEND = 0x01"
definition NGHTTP2_GOAWAY_TERM_SENT :: u8 where "NGHTTP2_GOAWAY_TERM_SENT = 0x02"
definition NGHTTP2_GOAWAY_SENT :: u8 where "NGHTTP2_GOAWAY_SENT = 0x04"
definition NGHTTP2_GOAWAY_RECV :: u8 where "NGHTTP2_GOAWAY_RECV = 0x08"

definition NGHTTP2_STREAM_FLAG_DEFERRED_USER :: u8 where "NGHTTP2_STREAM_FLAG_DEFERRED_USER = 0x08"
definition NGHTTP2_DEFAULT_MAX_CONCURRENT_STREAMS :: u32 where
  "NGHTTP2_DEFAULT_MAX_CONCURRENT_STREAMS = 0xffffffff"

definition has :: "'a::len word \<Rightarrow> 'a word \<Rightarrow> bool" where
  "has x f \<longleftrightarrow> x AND f \<noteq> 0"

section \<open>Streams of a connection\<close>

abbreviation stream_at :: "session \<Rightarrow> nat \<Rightarrow> stream" where
  "stream_at s k \<equiv> str (tree s) k"

definition nghttp2_session_get_stream_raw :: "session \<Rightarrow> int \<Rightarrow> nat option" where
  "nghttp2_session_get_stream_raw s i = hmap_contents (streams s) (word_of_int i)"

definition nghttp2_session_get_stream :: "session \<Rightarrow> int \<Rightarrow> nat option" where
  "nghttp2_session_get_stream s i =
     (case nghttp2_session_get_stream_raw s i of
        None \<Rightarrow> None
      | Some k \<Rightarrow> if has (flags (stream_at s k)) NGHTTP2_STREAM_FLAG_CLOSED \<or>
                     state (stream_at s k) = NGHTTP2_STREAM_IDLE then None else Some k)"

definition nghttp2_session_find_stream :: "session \<Rightarrow> int \<Rightarrow> nat option" where
  "nghttp2_session_find_stream s i = (if i = 0 then Some 0 else nghttp2_session_get_stream_raw s i)"

definition nghttp2_session_is_my_stream_id :: "session \<Rightarrow> int \<Rightarrow> bool" where
  "nghttp2_session_is_my_stream_id s i \<longleftrightarrow>
     (if i = 0 then False else if server s then i AND 1 = 0 else i AND 1 = 1)"

definition session_is_outgoing_concurrent_streams_max :: "session \<Rightarrow> bool" where
  "session_is_outgoing_concurrent_streams_max s \<longleftrightarrow>
     max_concurrent_streams (remote_settings s) \<le> num_outgoing_streams s"

definition session_is_incoming_concurrent_streams_max :: "session \<Rightarrow> bool" where
  "session_is_incoming_concurrent_streams_max s \<longleftrightarrow>
     max_concurrent_streams (local_settings s) \<le> num_incoming_streams s"

definition session_is_incoming_concurrent_streams_pending_max :: "session \<Rightarrow> bool" where
  "session_is_incoming_concurrent_streams_pending_max s \<longleftrightarrow>
     pending_local_max_concurrent_stream s \<le> num_incoming_streams s"

definition session_enforce_http_messaging :: "session \<Rightarrow> bool" where
  "session_enforce_http_messaging s \<longleftrightarrow> opt_flags s AND NGHTTP2_OPTMASK_NO_HTTP_MESSAGING = 0"

definition session_trailer_headers :: "session \<Rightarrow> nat option \<Rightarrow> frame \<Rightarrow> bool" where
  "session_trailer_headers s k fr \<longleftrightarrow>
     (case (k, body fr) of
        (Some k, Headers_frame cat _ _) \<Rightarrow>
          if server s then cat = NGHTTP2_HCAT_HEADERS
          else cat = NGHTTP2_HCAT_HEADERS \<and>
            http_flags (stream_at s k) AND NGHTTP2_HTTP_FLAG_EXPECT_FINAL_RESPONSE = 0
      | _ \<Rightarrow> False)"

definition state_reserved_remote :: "session \<Rightarrow> nat \<Rightarrow> bool" where
  "state_reserved_remote s k \<longleftrightarrow> state (stream_at s k) = NGHTTP2_STREAM_RESERVED \<and>
     \<not> nghttp2_session_is_my_stream_id s (stream_id (stream_at s k))"

definition state_reserved_local :: "session \<Rightarrow> nat \<Rightarrow> bool" where
  "state_reserved_local s k \<longleftrightarrow> state (stream_at s k) = NGHTTP2_STREAM_RESERVED \<and>
     nghttp2_session_is_my_stream_id s (stream_id (stream_at s k))"

definition session_is_new_peer_stream_id :: "session \<Rightarrow> int \<Rightarrow> bool" where
  "session_is_new_peer_stream_id s i \<longleftrightarrow>
     i \<noteq> 0 \<and> \<not> nghttp2_session_is_my_stream_id s i \<and> last_recv_stream_id s < i"

definition session_detect_idle_stream :: "session \<Rightarrow> int \<Rightarrow> bool" where
  "session_detect_idle_stream s i \<longleftrightarrow>
     (if nghttp2_session_is_my_stream_id s i then last_sent_stream_id s < i
      else session_is_new_peer_stream_id s i)"

definition session_no_rfc7540_pri_no_fallback :: "session \<Rightarrow> bool" where
  "session_no_rfc7540_pri_no_fallback s \<longleftrightarrow>
     pending_no_rfc7540_priorities s = 1 \<and> \<not> fallback_rfc7540_priorities s"

definition session_allow_incoming_new_stream :: "session \<Rightarrow> bool" where
  "session_allow_incoming_new_stream s \<longleftrightarrow>
     goaway_flags s AND (NGHTTP2_GOAWAY_TERM_ON_SEND OR NGHTTP2_GOAWAY_SENT) = 0"

section \<open>Whether there is anything left to do\<close>

definition session_get_num_active_streams :: "session \<Rightarrow> u32" where
  "session_get_num_active_streams s =
     nghttp2_map_size (streams s) - num_closed_streams s - num_idle_streams s"

definition nghttp2_session_want_read :: "session \<Rightarrow> bool" where
  "nghttp2_session_want_read s \<longleftrightarrow>
     (if has (goaway_flags s) NGHTTP2_GOAWAY_TERM_SENT then False
      else if session_get_num_active_streams s > 0 then True
      else goaway_flags s AND (NGHTTP2_GOAWAY_SENT OR NGHTTP2_GOAWAY_RECV) = 0)"

definition NGHTTP2_EXTPRI_URGENCY_LEVELS :: nat where "NGHTTP2_EXTPRI_URGENCY_LEVELS = 8"

text \<open>The order of the streams of one urgency; \<open>stream_less\<close> is another function in \<open>nghttp2_stream.c\<close>.\<close>

definition NGHTTP2_STREAM_MAX_CYCLE_GAP :: u64 where "NGHTTP2_STREAM_MAX_CYCLE_GAP = NGHTTP2_MAX_FRAME_SIZE_MAX"

definition session_stream_less :: "stream \<Rightarrow> stream \<Rightarrow> bool" where
  "session_stream_less lhs rhs \<longleftrightarrow>
     (if cycle lhs = cycle rhs then seq lhs < seq rhs else cycle rhs - cycle lhs \<le> NGHTTP2_STREAM_MAX_CYCLE_GAP)"

definition data_less :: "(nat \<Rightarrow> stream) \<Rightarrow> nat \<Rightarrow> nat \<Rightarrow> bool" where
  "data_less st a b \<longleftrightarrow> session_stream_less (st a) (st b)"

definition data_queue :: "session \<Rightarrow> nat \<Rightarrow> nat pq" where
  "data_queue s u = \<lparr>q = fst (ob_data s u), capacity = snd (ob_data s u), index = pqi (tree s)\<rparr>"

definition session_sched_empty :: "session \<Rightarrow> bool" where
  "session_sched_empty s \<longleftrightarrow> (\<forall>u\<in>set [0..<NGHTTP2_EXTPRI_URGENCY_LEVELS]. nghttp2_pq_empty (data_queue s u))"

definition nghttp2_session_want_write :: "session \<Rightarrow> bool" where
  "nghttp2_session_want_write s \<longleftrightarrow>
     (if has (goaway_flags s) NGHTTP2_GOAWAY_TERM_SENT then False
      else aob_item s \<noteq> None \<or> ob_urgent s \<noteq> [] \<or> ob_reg s \<noteq> [] \<or>
        (\<not> nghttp2_pq_empty (obq_of (tree s) 0) \<or> \<not> session_sched_empty s) \<and> conn_remote_window_size s > 0 \<or>
        ob_syn s \<noteq> [] \<and> \<not> session_is_outgoing_concurrent_streams_max s)"

definition session_is_closing :: "session \<Rightarrow> bool" where
  "session_is_closing s \<longleftrightarrow> has (goaway_flags s) NGHTTP2_GOAWAY_TERM_ON_SEND \<or>
     \<not> nghttp2_session_want_read s \<and> \<not> nghttp2_session_want_write s"

definition nghttp2_session_check_request_allowed :: "session \<Rightarrow> bool" where
  "nghttp2_session_check_request_allowed s \<longleftrightarrow>
     \<not> server s \<and> next_stream_id s \<le> 0x7fffffff \<and> goaway_flags s AND NGHTTP2_GOAWAY_RECV = 0 \<and>
     \<not> session_is_closing s"

end
