(* ===== verification/SessStream.thy ===== *)
theory SessStream
  imports Session
begin

text \<open>
  The streams of a connection come and go: the queues of streams that have data to send, outbound items,
  opening and closing a stream, and the lists of closed and idle streams that are kept. What is not under
  \<open>src/\<close> is in the environment: the allocator, the sizes of the structures it is asked for, and the callbacks
  of the application, which may use the connection.
\<close>

section \<open>Environment and outcomes\<close>

datatype event =
    On_stream_close int u32
  | On_frame_recv frame
  | On_begin_headers frame
  | On_invalid_frame_recv frame nghttp2_error
  | On_frame_send frame

record env =
  alloc :: "nat \<Rightarrow> bool"
  callback :: "event \<Rightarrow> session \<Rightarrow> session \<times> int"
  sizeof_stream :: nat
  sizeof_item :: nat
  sizeof_inflight :: nat

type_synonym ses = "(session \<times> nghttp2_error option) res"

definition ret :: "session \<Rightarrow> ses" where "ret s = Inr (s, None)"

definition fails :: "session \<Rightarrow> nghttp2_error \<Rightarrow> ses" where "fails s e = Inr (s, Some e)"

definition fatal :: "nghttp2_error option \<Rightarrow> bool" where
  "fatal rv \<longleftrightarrow> (case rv of None \<Rightarrow> False | Some e \<Rightarrow> nghttp2_is_fatal (err_code e))"

text \<open>\<open>if (rv != 0) return rv;\<close> and \<open>if (nghttp2_is_fatal(rv)) return rv;\<close> before going on.\<close>

definition if_ok :: "ses \<Rightarrow> (session \<Rightarrow> ses) \<Rightarrow> ses" where
  "if_ok m f = rbind m (\<lambda>(s, rv). case rv of None \<Rightarrow> f s | Some e \<Rightarrow> Inr (s, Some e))"

definition unless_fatal :: "ses \<Rightarrow> (session \<Rightarrow> nghttp2_error option \<Rightarrow> ses) \<Rightarrow> ses" where
  "unless_fatal m f = rbind m (\<lambda>(s, rv). if fatal rv then Inr (s, rv) else f s rv)"

definition on_tree :: "session \<Rightarrow> coded \<Rightarrow> ses" where
  "on_tree s m = rbind m (\<lambda>(t, rv). Inr (s\<lparr>tree := t\<rparr>, rv))"

definition on_tree' :: "session \<Rightarrow> dtree res \<Rightarrow> ses" where
  "on_tree' s m = rbind m (\<lambda>t. Inr (s\<lparr>tree := t\<rparr>, None))"

definition upd_stream :: "session \<Rightarrow> nat \<Rightarrow> (stream \<Rightarrow> stream) \<Rightarrow> session" where
  "upd_stream s k f = s\<lparr>tree := upd (tree s) k f\<rparr>"

text \<open>Loops along the links of the tree run at most once for every stream and the root, loops in the table of
  the map once for every bucket, also after it has doubled.\<close>

definition rounds :: "session \<Rightarrow> nat" where
  "rounds s = Suc (unat (nghttp2_map_size (streams s)))"

definition probes :: "session \<Rightarrow> nat" where
  "probes s = 2 * length (table (streams s))"

section \<open>The queues of streams by urgency\<close>

definition in_tree :: "stream \<Rightarrow> bool" where
  "in_tree st \<longleftrightarrow> flags st AND NGHTTP2_STREAM_FLAG_NO_RFC7540_PRIORITIES = 0"

definition store_data_queue :: "session \<Rightarrow> nat \<Rightarrow> nat pq \<Rightarrow> session" where
  "store_data_queue s u p =
     s\<lparr>ob_data := (ob_data s)(u := (q p, capacity p)), tree := (tree s)\<lparr>pqi := index p\<rparr>\<rparr>"

definition pq_get_first_cycle :: "session \<Rightarrow> nat pq \<Rightarrow> u64" where
  "pq_get_first_cycle s p = (case nghttp2_pq_top p of None \<Rightarrow> 0 | Some k \<Rightarrow> cycle (stream_at s k))"

definition urgency_of :: "session \<Rightarrow> nat \<Rightarrow> nat" where
  "urgency_of s k = unat (nghttp2_extpri_uint8_urgency (extpri (stream_at s k)))"

definition push_data_queue :: "env \<Rightarrow> session \<Rightarrow> nat \<Rightarrow> nat \<Rightarrow> ses" where
  "push_data_queue e s u k =
     (case nghttp2_pq_push (alloc e) (data_less (str (tree s))) (data_queue s u) k of
        Inr p \<Rightarrow> ret (store_data_queue s u p)
      | Inl (Code c) \<Rightarrow> fails s c
      | Inl Assert_failed \<Rightarrow> Inl Assert_failed
      | Inl Undefined \<Rightarrow> Inl Undefined)"

definition session_ob_data_push :: "env \<Rightarrow> session \<Rightarrow> nat \<Rightarrow> ses" where
  "session_ob_data_push e s k =
     rbind (assert_that (\<not> in_tree (stream_at s k))) (\<lambda>_.
     rbind (assert_that (\<not> queued (stream_at s k))) (\<lambda>_.
     let u = urgency_of s k
     in rbind (assert_that (u < NGHTTP2_EXTPRI_URGENCY_LEVELS)) (\<lambda>_.
        let first = pq_get_first_cycle s (data_queue s u);
            s1 = upd_stream s k (\<lambda>x. x\<lparr>cycle :=
                   (if nghttp2_extpri_uint8_inc (extpri x) \<noteq> 0 then first + ucast (last_writelen x) else first)\<rparr>)
        in if_ok (push_data_queue e s1 u k) (\<lambda>s2. ret (upd_stream s2 k (\<lambda>x. x\<lparr>queued := True\<rparr>))))))"

definition session_ob_data_remove :: "session \<Rightarrow> nat \<Rightarrow> ses" where
  "session_ob_data_remove s k =
     rbind (assert_that (\<not> in_tree (stream_at s k))) (\<lambda>_.
     rbind (assert_that (queued (stream_at s k))) (\<lambda>_.
     let u = urgency_of s k
     in rbind (assert_that (u < NGHTTP2_EXTPRI_URGENCY_LEVELS)) (\<lambda>_.
        rbind (nghttp2_pq_remove (data_less (str (tree s))) (data_queue s u) k) (\<lambda>p.
        ret (upd_stream (store_data_queue s u p) k (\<lambda>x. x\<lparr>queued := False\<rparr>))))))"

definition session_attach_stream_item :: "env \<Rightarrow> session \<Rightarrow> nat \<Rightarrow> nat \<Rightarrow> ses" where
  "session_attach_stream_item e s k it =
     if_ok (on_tree s (nghttp2_stream_attach_item (alloc e) (rounds s) (tree s) k it)) (\<lambda>s1.
     if in_tree (stream_at s1 k) then ret s1 else session_ob_data_push e s1 k)"

definition session_detach_stream_item :: "session \<Rightarrow> nat \<Rightarrow> ses" where
  "session_detach_stream_item s k =
     if_ok (on_tree' s (nghttp2_stream_detach_item (rounds s) (tree s) k)) (\<lambda>s1.
     if in_tree (stream_at s1 k) \<or> \<not> queued (stream_at s1 k) then ret s1 else session_ob_data_remove s1 k)"

definition session_defer_stream_item :: "session \<Rightarrow> nat \<Rightarrow> u8 \<Rightarrow> ses" where
  "session_defer_stream_item s k fl =
     if_ok (on_tree' s (nghttp2_stream_defer_item (rounds s) (tree s) k fl)) (\<lambda>s1.
     if in_tree (stream_at s1 k) \<or> \<not> queued (stream_at s1 k) then ret s1 else session_ob_data_remove s1 k)"

definition session_resume_deferred_stream_item :: "env \<Rightarrow> session \<Rightarrow> nat \<Rightarrow> u8 \<Rightarrow> ses" where
  "session_resume_deferred_stream_item e s k fl =
     if_ok (on_tree s (nghttp2_stream_resume_deferred_item (alloc e) (rounds s) (tree s) k fl)) (\<lambda>s1.
     if in_tree (stream_at s1 k) \<or> has (flags (stream_at s1 k)) NGHTTP2_STREAM_FLAG_DEFERRED_ALL then ret s1
     else session_ob_data_push e s1 k)"

fun first_data_stream :: "session \<Rightarrow> nat list \<Rightarrow> nat option" where
  "first_data_stream s [] = None"
| "first_data_stream s (u # us) =
     (case nghttp2_pq_top (data_queue s u) of None \<Rightarrow> first_data_stream s us | Some k \<Rightarrow> Some k)"

definition session_sched_get_next_outbound_item :: "session \<Rightarrow> nat option" where
  "session_sched_get_next_outbound_item s =
     (case first_data_stream s [0..<NGHTTP2_EXTPRI_URGENCY_LEVELS] of
        None \<Rightarrow> None | Some k \<Rightarrow> item (stream_at s k))"

definition session_sched_reschedule_stream :: "env \<Rightarrow> session \<Rightarrow> nat \<Rightarrow> ses" where
  "session_sched_reschedule_stream e s k =
     (let u = urgency_of s k; penalty = ucast (last_writelen (stream_at s k)) :: u64
      in rbind (assert_that (u < NGHTTP2_EXTPRI_URGENCY_LEVELS)) (\<lambda>_.
         if nghttp2_extpri_uint8_inc (extpri (stream_at s k)) = 0 \<or> length (q (data_queue s u)) = 1 then ret s
         else rbind (nghttp2_pq_remove (data_less (str (tree s))) (data_queue s u) k) (\<lambda>p.
           let s1 = upd_stream (store_data_queue s u p) k (\<lambda>x. x\<lparr>cycle := cycle x + penalty\<rparr>)
           in rbind (push_data_queue e s1 u k) (\<lambda>(s2, rv).
              rbind (assert_that (rv = None)) (\<lambda>_. ret s2)))))"

definition session_update_stream_priority :: "env \<Rightarrow> session \<Rightarrow> nat \<Rightarrow> u8 \<Rightarrow> ses" where
  "session_update_stream_priority e s k u8extpri =
     (if extpri (stream_at s k) = u8extpri then ret s
      else if queued (stream_at s k) then
        rbind (session_ob_data_remove s k) (\<lambda>(s1, _).
        session_ob_data_push e (upd_stream s1 k (\<lambda>x. x\<lparr>extpri := u8extpri\<rparr>)) k)
      else ret (upd_stream s k (\<lambda>x. x\<lparr>extpri := u8extpri\<rparr>)))"

section \<open>Closed and idle streams\<close>

text \<open>A pointer in one of the two lists must be to a stream that is still in the map.\<close>

definition live :: "session \<Rightarrow> nat \<Rightarrow> bool" where
  "live s k \<longleftrightarrow> k = 0 \<or> hmap_contents (streams s) (of_nat k) = Some k"

definition write_stream :: "session \<Rightarrow> nat \<Rightarrow> (stream \<Rightarrow> stream) \<Rightarrow> session res" where
  "write_stream s k f = (if live s k then Inr (upd_stream s k f) else Inl Undefined)"

definition nghttp2_session_destroy_stream :: "env \<Rightarrow> session \<Rightarrow> nat \<Rightarrow> ses" where
  "nghttp2_session_destroy_stream e s k =
     if_ok (if nghttp2_stream_in_dep_tree (stream_at s k)
            then on_tree s (nghttp2_stream_dep_remove (alloc e) (rounds s) (tree s) k) else ret s) (\<lambda>s1.
     case nghttp2_map_remove (probes s1) (streams s1) (word_of_int (stream_id (stream_at s1 k))) of
       None \<Rightarrow> Inl Undefined
     | Some (m, _) \<Rightarrow> ret (s1\<lparr>streams := m\<rparr>))"

definition nghttp2_session_keep_closed_stream :: "session \<Rightarrow> nat \<Rightarrow> session res" where
  "nghttp2_session_keep_closed_stream s k =
     rbind (case closed_stream_tail s of
              Some t \<Rightarrow> rbind (write_stream s t (\<lambda>x. x\<lparr>closed_next := Some k\<rparr>)) (\<lambda>s1.
                Inr (upd_stream s1 k (\<lambda>x. x\<lparr>closed_prev := Some t\<rparr>)))
            | None \<Rightarrow> Inr (s\<lparr>closed_stream_head := Some k\<rparr>)) (\<lambda>s1.
     Inr (s1\<lparr>closed_stream_tail := Some k, num_closed_streams := num_closed_streams s1 + 1\<rparr>))"

definition nghttp2_session_keep_idle_stream :: "session \<Rightarrow> nat \<Rightarrow> session res" where
  "nghttp2_session_keep_idle_stream s k =
     rbind (case idle_stream_tail s of
              Some t \<Rightarrow> rbind (write_stream s t (\<lambda>x. x\<lparr>closed_next := Some k\<rparr>)) (\<lambda>s1.
                Inr (upd_stream s1 k (\<lambda>x. x\<lparr>closed_prev := Some t\<rparr>)))
            | None \<Rightarrow> Inr (s\<lparr>idle_stream_head := Some k\<rparr>)) (\<lambda>s1.
     Inr (s1\<lparr>idle_stream_tail := Some k, num_idle_streams := num_idle_streams s1 + 1\<rparr>))"

definition nghttp2_session_detach_idle_stream :: "session \<Rightarrow> nat \<Rightarrow> session res" where
  "nghttp2_session_detach_idle_stream s k =
     (let prev_stream = closed_prev (stream_at s k); next_stream = closed_next (stream_at s k)
      in rbind (case prev_stream of
                  Some p \<Rightarrow> write_stream s p (\<lambda>x. x\<lparr>closed_next := next_stream\<rparr>)
                | None \<Rightarrow> Inr (s\<lparr>idle_stream_head := next_stream\<rparr>)) (\<lambda>s1.
         rbind (case next_stream of
                  Some n \<Rightarrow> write_stream s1 n (\<lambda>x. x\<lparr>closed_prev := prev_stream\<rparr>)
                | None \<Rightarrow> Inr (s1\<lparr>idle_stream_tail := prev_stream\<rparr>)) (\<lambda>s2.
         Inr ((upd_stream s2 k (\<lambda>x. x\<lparr>closed_prev := None, closed_next := None\<rparr>))
                \<lparr>num_idle_streams := num_idle_streams s2 - 1\<rparr>))))"

fun adjust_closed_loop :: "nat \<Rightarrow> env \<Rightarrow> u32 \<Rightarrow> session \<Rightarrow> ses" where
  "adjust_closed_loop 0 e num_stream_max s = Inl Undefined"
| "adjust_closed_loop (Suc n) e num_stream_max s =
     (if \<not> (num_closed_streams s > 0 \<and> num_closed_streams s + num_incoming_streams s > num_stream_max)
      then ret s
      else case closed_stream_head s of
             None \<Rightarrow> Inl Assert_failed
           | Some h \<Rightarrow>
               if \<not> live s h then Inl Undefined
               else let next_stream = closed_next (stream_at s h)
               in if_ok (nghttp2_session_destroy_stream e s h) (\<lambda>s1.
                  let s2 = s1\<lparr>closed_stream_head := next_stream\<rparr>
                  in rbind (case next_stream of
                              Some k \<Rightarrow> write_stream s2 k (\<lambda>x. x\<lparr>closed_prev := None\<rparr>)
                            | None \<Rightarrow> Inr (s2\<lparr>closed_stream_tail := None\<rparr>)) (\<lambda>s3.
                     adjust_closed_loop n e num_stream_max (s3\<lparr>num_closed_streams := num_closed_streams s3 - 1\<rparr>))))"

definition nghttp2_session_adjust_closed_stream :: "env \<Rightarrow> session \<Rightarrow> ses" where
  "nghttp2_session_adjust_closed_stream e s =
     adjust_closed_loop (Suc (unat (num_closed_streams s))) e
       (if max_concurrent_streams (local_settings s) = NGHTTP2_DEFAULT_MAX_CONCURRENT_STREAMS
        then pending_local_max_concurrent_stream s else max_concurrent_streams (local_settings s)) s"

fun adjust_idle_loop :: "nat \<Rightarrow> env \<Rightarrow> u32 \<Rightarrow> session \<Rightarrow> ses" where
  "adjust_idle_loop 0 e max_idle s = Inl Undefined"
| "adjust_idle_loop (Suc n) e max_idle s =
     (if \<not> num_idle_streams s > max_idle then ret s
      else case idle_stream_head s of
             None \<Rightarrow> Inl Assert_failed
           | Some h \<Rightarrow>
               if \<not> live s h then Inl Undefined
               else let next_stream = closed_next (stream_at s h)
               in if_ok (nghttp2_session_destroy_stream e s h) (\<lambda>s1.
                  let s2 = s1\<lparr>idle_stream_head := next_stream\<rparr>
                  in rbind (case next_stream of
                              Some k \<Rightarrow> write_stream s2 k (\<lambda>x. x\<lparr>closed_prev := None\<rparr>)
                            | None \<Rightarrow> Inr (s2\<lparr>idle_stream_tail := None\<rparr>)) (\<lambda>s3.
                     adjust_idle_loop n e max_idle (s3\<lparr>num_idle_streams := num_idle_streams s3 - 1\<rparr>))))"

definition nghttp2_session_adjust_idle_stream :: "env \<Rightarrow> session \<Rightarrow> ses" where
  "nghttp2_session_adjust_idle_stream e s =
     adjust_idle_loop (Suc (unat (num_idle_streams s))) e
       (min 100 (max 16 (min (max_concurrent_streams (local_settings s)) (pending_local_max_concurrent_stream s)))) s"

section \<open>Opening and closing\<close>

text \<open>The pointer returned is \<open>NULL\<close> for \<open>False\<close>. A dependency on an idle stream that is not in memory opens
  that one first, with the default priority, which depends on no stream; so the function calls itself at
  most once, and the inner call is an argument of \<open>open_stream_body\<close>.\<close>

type_synonym opened = "(session \<times> bool) res"

definition stream_of_spec :: "priority_spec \<Rightarrow> int" where "stream_of_spec ps = sint (ps_stream_id ps)"

definition reuse_idle_stream :: "env \<Rightarrow> session \<Rightarrow> nat \<Rightarrow> opened" where
  "reuse_idle_stream e s k =
     rbind (assert_that (state (stream_at s k) = NGHTTP2_STREAM_IDLE)) (\<lambda>_.
     rbind (assert_that (\<not> in_tree (stream_at s k) \<or> nghttp2_stream_in_dep_tree (stream_at s k))) (\<lambda>_.
     if nghttp2_stream_in_dep_tree (stream_at s k) then
       rbind (assert_that (in_tree (stream_at s k))) (\<lambda>_.
       rbind (nghttp2_session_detach_idle_stream s k) (\<lambda>s1.
       rbind (on_tree s1 (nghttp2_stream_dep_remove (alloc e) (rounds s1) (tree s1) k)) (\<lambda>(s2, rv).
       if rv \<noteq> None then Inr (s2, False)
       else Inr (if session_no_rfc7540_pri_no_fallback s2
                 then upd_stream s2 k (\<lambda>x. x\<lparr>flags := flags x OR NGHTTP2_STREAM_FLAG_NO_RFC7540_PRIORITIES\<rparr>)
                 else s2, True))))
     else Inr (s, True)))"

definition dep_of_spec ::
  "(session \<Rightarrow> int \<Rightarrow> opened) \<Rightarrow> session \<Rightarrow> u8 \<Rightarrow> priority_spec \<Rightarrow>
     (session \<times> (u8 \<times> priority_spec \<times> nat option) option) res" where
  "dep_of_spec open_idle s fl ps =
     (if session_no_rfc7540_pri_no_fallback s \<or> no_rfc7540_priorities (remote_settings s) = 1 then
        Inr (s, Some (if pending_no_rfc7540_priorities s = 1
                      then fl OR NGHTTP2_STREAM_FLAG_NO_RFC7540_PRIORITIES else fl,
                      if server s \<or> no_rfc7540_priorities (remote_settings s) = 1
                      then nghttp2_priority_spec_default_init else ps, None))
      else if stream_of_spec ps \<noteq> 0 then
        (case nghttp2_session_get_stream_raw s (stream_of_spec ps) of
           None \<Rightarrow>
             if session_detect_idle_stream s (stream_of_spec ps) then
               rbind (open_idle s (stream_of_spec ps)) (\<lambda>(s1, opened).
               if opened then Inr (s1, Some (fl, ps, Some (nat (stream_of_spec ps))))
               else Inr (s1, None))
             else Inr (s, Some (fl, nghttp2_priority_spec_default_init, None))
         | Some d \<Rightarrow>
             if nghttp2_stream_in_dep_tree (stream_at s d) then Inr (s, Some (fl, ps, Some d))
             else Inr (s, Some (fl, nghttp2_priority_spec_default_init, Some d)))
      else Inr (s, Some (fl, ps, None)))"

definition place_stream ::
  "env \<Rightarrow> session \<Rightarrow> nat \<Rightarrow> priority_spec \<Rightarrow> nat option \<Rightarrow> opened" where
  "place_stream e s k ps dep =
     (if \<not> in_tree (stream_at s k) then Inr (s, True)
      else case (if stream_of_spec ps = 0 then Some 0 else dep) of
             None \<Rightarrow> Inl Assert_failed
           | Some d \<Rightarrow>
               if ps_exclusive ps then
                 rbind (on_tree s (nghttp2_stream_dep_insert (alloc e) (rounds s) (tree s) d k)) (\<lambda>(s1, rv).
                 Inr (s1, rv = None))
               else rbind (nghttp2_stream_dep_add (tree s) d k) (\<lambda>t. Inr (s\<lparr>tree := t\<rparr>, True)))"

definition count_stream :: "session \<Rightarrow> nat \<Rightarrow> int \<Rightarrow> nghttp2_stream_state \<Rightarrow> session res" where
  "count_stream s k i initial_state =
     (case initial_state of
        NGHTTP2_STREAM_RESERVED \<Rightarrow>
          Inr (if nghttp2_session_is_my_stream_id s i
               then upd_stream s k (\<lambda>x. nghttp2_stream_shutdown x NGHTTP2_SHUT_RD)
               else (upd_stream s k (\<lambda>x. nghttp2_stream_shutdown x NGHTTP2_SHUT_WR))
                      \<lparr>num_incoming_reserved_streams := num_incoming_reserved_streams s + 1\<rparr>)
      | NGHTTP2_STREAM_IDLE \<Rightarrow> nghttp2_session_keep_idle_stream s k
      | _ \<Rightarrow>
          Inr (if nghttp2_session_is_my_stream_id s i
               then s\<lparr>num_outgoing_streams := num_outgoing_streams s + 1\<rparr>
               else s\<lparr>num_incoming_streams := num_incoming_streams s + 1\<rparr>))"

text \<open>The object of a new stream has the address of its identifier; its heap of children is empty.\<close>

definition new_stream ::
  "env \<Rightarrow> session \<Rightarrow> int \<Rightarrow> u8 \<Rightarrow> priority_spec \<Rightarrow> nghttp2_stream_state \<Rightarrow> nat \<Rightarrow> opened" where
  "new_stream e s i fl ps initial_state user_data =
     (let k = nat i;
          fresh = nghttp2_stream_init i fl initial_state (ps_weight ps)
            (sint (initial_window_size (remote_settings s))) (sint (initial_window_size (local_settings s))) user_data;
          s1 = s\<lparr>tree := (tree s)\<lparr>str := (str (tree s))(k := fresh), heaps := (heaps (tree s))(k := ([], 0))\<rparr>\<rparr>;
          s2 = (if session_no_rfc7540_pri_no_fallback s1
                then (upd_stream s1 k (\<lambda>x. x\<lparr>seq := stream_seq s1\<rparr>))\<lparr>stream_seq := stream_seq s1 + 1\<rparr> else s1)
      in case nghttp2_map_insert (probes s2) (alloc e) (streams s2) (word_of_int i) (Some k) of
           None \<Rightarrow> Inl Undefined
         | Some (m, r) \<Rightarrow> Inr (s2\<lparr>streams := m\<rparr>, r = Inr ()))"

definition open_stream_body ::
  "(session \<Rightarrow> int \<Rightarrow> opened) \<Rightarrow> env \<Rightarrow> session \<Rightarrow> int \<Rightarrow> u8 \<Rightarrow> priority_spec \<Rightarrow> nghttp2_stream_state \<Rightarrow> nat \<Rightarrow> opened" where
  "open_stream_body open_idle e s i fl ps initial_state user_data =
     (let present = nghttp2_session_get_stream_raw s i;
          fl = (if has (opt_flags s) NGHTTP2_OPTMASK_NO_RFC9113_LEADING_AND_TRAILING_WS_VALIDATION
                then fl OR NGHTTP2_STREAM_FLAG_NO_RFC9113_LEADING_AND_TRAILING_WS_VALIDATION else fl)
      in rbind (case present of
                  Some k \<Rightarrow> reuse_idle_stream e s k
                | None \<Rightarrow> Inr (s, alloc e (sizeof_stream e))) (\<lambda>(s1, go).
         if \<not> go then Inr (s1, False)
         else rbind (dep_of_spec open_idle s1 fl ps) (\<lambda>(s2, r).
         case r of
           None \<Rightarrow> Inr (s2, False)
         | Some (fl, ps, dep) \<Rightarrow>
             let fl = (if initial_state = NGHTTP2_STREAM_RESERVED then fl OR NGHTTP2_STREAM_FLAG_PUSH else fl)
             in rbind (case present of
                  None \<Rightarrow> new_stream e s2 i fl ps initial_state user_data
                | Some k \<Rightarrow> Inr (upd_stream s2 k (\<lambda>x. x\<lparr>flags := fl, state := initial_state,
                                weight := ps_weight ps, stream_user_data := user_data\<rparr>), True)) (\<lambda>(s3, go).
                if \<not> go then Inr (s3, False)
                else let k = (case present of None \<Rightarrow> nat i | Some k \<Rightarrow> k)
                in rbind (count_stream s3 k i initial_state) (\<lambda>s4.
                   place_stream e s4 k ps dep)))))"

definition open_idle_stream :: "env \<Rightarrow> session \<Rightarrow> int \<Rightarrow> opened" where
  "open_idle_stream e s i =
     open_stream_body (\<lambda>_ _. Inl Undefined) e s i NGHTTP2_FLAG_NONE nghttp2_priority_spec_default_init
       NGHTTP2_STREAM_IDLE 0"

definition nghttp2_session_open_stream ::
  "env \<Rightarrow> session \<Rightarrow> int \<Rightarrow> u8 \<Rightarrow> priority_spec \<Rightarrow> nghttp2_stream_state \<Rightarrow> nat \<Rightarrow> opened" where
  "nghttp2_session_open_stream e s i fl ps initial_state user_data =
     open_stream_body (open_idle_stream e) e s i fl ps initial_state user_data"

text \<open>The recursion of the source: the inner call is the function itself.\<close>

lemma open_idle_stream_rec:
  "open_idle_stream e s i =
     nghttp2_session_open_stream e s i NGHTTP2_FLAG_NONE nghttp2_priority_spec_default_init NGHTTP2_STREAM_IDLE 0"
proof -
  have plain: "dep_of_spec f s fl nghttp2_priority_spec_default_init = dep_of_spec g s fl nghttp2_priority_spec_default_init"
    for f g s fl
    by (simp add: dep_of_spec_def stream_of_spec_def nghttp2_priority_spec_default_init_def)
  then show ?thesis
    unfolding open_idle_stream_def [of e s i] nghttp2_session_open_stream_def open_stream_body_def
    by (simp only: plain [of "\<lambda>_ _. Inl Undefined" _ _ "open_idle_stream e"])
qed

end
