(* ===== verification/SessOut.thy ===== *)
theory SessOut
  imports SessStream
begin

text \<open>
  What a connection sends and gives up: outbound items and the frames the library itself queues, closing
  a stream, tearing down the connection.
\<close>

section \<open>Outbound items\<close>

definition mark_queued :: "session \<Rightarrow> nat \<Rightarrow> session" where
  "mark_queued s it = s\<lparr>items := (items s)(it := (items s it)\<lparr>oi_queued := True\<rparr>)\<rparr>"

definition queue_urgent :: "session \<Rightarrow> nat \<Rightarrow> ses" where
  "queue_urgent s it = ret (mark_queued (s\<lparr>ob_urgent := ob_urgent s @ [it]\<rparr>) it)"

definition queue_reg :: "session \<Rightarrow> nat \<Rightarrow> ses" where
  "queue_reg s it = ret (mark_queued (s\<lparr>ob_reg := ob_reg s @ [it]\<rparr>) it)"

definition queue_syn :: "session \<Rightarrow> nat \<Rightarrow> ses" where
  "queue_syn s it = ret (mark_queued (s\<lparr>ob_syn := ob_syn s @ [it]\<rparr>) it)"

definition stream_is :: "session \<Rightarrow> nat option \<Rightarrow> nghttp2_stream_state \<Rightarrow> bool" where
  "stream_is s stream st \<longleftrightarrow> (case stream of None \<Rightarrow> False | Some k \<Rightarrow> state (stream_at s k) = st)"

definition nghttp2_session_add_item :: "env \<Rightarrow> session \<Rightarrow> nat \<Rightarrow> ses" where
  "nghttp2_session_add_item e s it =
     (let fr = oi_frame (items s it); stream = nghttp2_session_get_stream s (fr_id fr)
      in case body fr of
           Data_frame \<Rightarrow>
             (case stream of
                None \<Rightarrow> fails s NGHTTP2_ERR_STREAM_CLOSED
              | Some k \<Rightarrow>
                  if item (stream_at s k) \<noteq> None then fails s NGHTTP2_ERR_DATA_EXIST
                  else session_attach_stream_item e s k it)
         | Headers_frame cat _ _ \<Rightarrow>
             if cat = NGHTTP2_HCAT_REQUEST \<or> stream_is s stream NGHTTP2_STREAM_RESERVED
             then queue_syn s it else queue_reg s it
         | Settings_frame _ \<Rightarrow> queue_urgent s it
         | Ping_frame _ \<Rightarrow> queue_urgent s it
         | Rst_stream_frame _ \<Rightarrow>
             queue_reg (case stream of
                          None \<Rightarrow> s
                        | Some k \<Rightarrow> upd_stream s k (\<lambda>x. x\<lparr>state := NGHTTP2_STREAM_CLOSING\<rparr>)) it
         | Push_promise_frame promised _ \<Rightarrow>
             (case stream of
                None \<Rightarrow> fails s NGHTTP2_ERR_STREAM_CLOSED
              | Some k \<Rightarrow>
                  rbind (nghttp2_session_open_stream e s promised 0
                    (nghttp2_priority_spec_init (word_of_int (stream_id (stream_at s k))) NGHTTP2_DEFAULT_WEIGHT 0)
                    NGHTTP2_STREAM_RESERVED (aux_user_data (items s it))) (\<lambda>(s1, opened).
                  if \<not> opened then fails s1 NGHTTP2_ERR_NOMEM else queue_reg s1 it))
         | Window_update_frame _ \<Rightarrow>
             queue_reg (case stream of
                          Some k \<Rightarrow> upd_stream s k (\<lambda>x. x\<lparr>window_update_queued := True\<rparr>)
                        | None \<Rightarrow> if fr_id fr = 0 then s\<lparr>conn_window_update_queued := True\<rparr> else s) it
         | _ \<Rightarrow> queue_reg s it)"

text \<open>A new item, if there is memory for it, handed to \<open>nghttp2_session_add_item\<close>.\<close>

definition submit_item :: "env \<Rightarrow> session \<Rightarrow> outbound_item \<Rightarrow> ses" where
  "submit_item e s oi =
     (if \<not> alloc e (sizeof_item e) then fails s NGHTTP2_ERR_NOMEM
      else nghttp2_session_add_item e
             (s\<lparr>items := (items s)(new_item s := oi), new_item := new_item s + 1\<rparr>) (new_item s))"

definition submit_new :: "env \<Rightarrow> session \<Rightarrow> frame \<Rightarrow> ses" where
  "submit_new e s fr = submit_item e s (nghttp2_outbound_item_init fr)"

text \<open>The request in \<open>ob_syn\<close> that a reset of stream \<open>i\<close> cancels; identifiers grow along the queue.\<close>

fun pending_request :: "(nat \<Rightarrow> outbound_item) \<Rightarrow> int \<Rightarrow> nat list \<Rightarrow> nat option" where
  "pending_request its i [] = None"
| "pending_request its i (it # syn) =
     (if fr_id (oi_frame (its it)) < i then pending_request its i syn
      else if fr_id (oi_frame (its it)) > i \<or> aux_canceled (its it) then None
      else Some it)"

definition is_headers :: "frame \<Rightarrow> bool" where
  "is_headers fr \<longleftrightarrow> (case body fr of Headers_frame _ _ _ \<Rightarrow> True | _ \<Rightarrow> False)"

definition cancels_request :: "session \<Rightarrow> int \<Rightarrow> nat option res" where
  "cancels_request s i =
     (if \<not> server s \<and> nghttp2_session_is_my_stream_id s i \<and> ob_syn s \<noteq> [] then
        let top = oi_frame (items s (hd (ob_syn s)))
        in rbind (assert_that (is_headers top)) (\<lambda>_.
           Inr (if fr_id top \<le> i then pending_request (items s) i (ob_syn s) else None))
      else Inr None)"

definition nghttp2_session_add_rst_stream :: "env \<Rightarrow> session \<Rightarrow> int \<Rightarrow> u32 \<Rightarrow> ses" where
  "nghttp2_session_add_rst_stream e s i code =
     (if stream_is s (nghttp2_session_get_stream s i) NGHTTP2_STREAM_CLOSING then ret s
      else if nghttp2_session_is_my_stream_id s i \<and> (word_of_int i :: u32) \<ge> next_stream_id s then ret s
      else if \<not> nghttp2_session_is_my_stream_id s i \<and> last_recv_stream_id s < i then ret s
      else rbind (cancels_request s i) (\<lambda>r.
        case r of
          Some it \<Rightarrow>
            ret (s\<lparr>items := (items s)(it := (items s it)\<lparr>aux_error_code := code, aux_canceled := True\<rparr>)\<rparr>)
        | None \<Rightarrow> submit_new e s (nghttp2_frame_rst_stream_init i code)))"

definition nghttp2_session_add_ping :: "env \<Rightarrow> session \<Rightarrow> u8 \<Rightarrow> bytes option \<Rightarrow> ses" where
  "nghttp2_session_add_ping e s fl opaque =
     (if has fl NGHTTP2_FLAG_ACK \<and> obq_flood_counter s \<ge> max_outbound_ack s then fails s NGHTTP2_ERR_FLOODED
      else if_ok (submit_new e s (nghttp2_frame_ping_init fl opaque)) (\<lambda>s1.
        ret (if has fl NGHTTP2_FLAG_ACK then s1\<lparr>obq_flood_counter := obq_flood_counter s1 + 1\<rparr> else s1)))"

definition NGHTTP2_MAX_PAYLOADLEN :: nat where "NGHTTP2_MAX_PAYLOADLEN = 16384"

definition NGHTTP2_GOAWAY_AUX_TERM_ON_SEND :: u8 where "NGHTTP2_GOAWAY_AUX_TERM_ON_SEND = 0x01"

definition nghttp2_session_add_goaway :: "env \<Rightarrow> session \<Rightarrow> int \<Rightarrow> u32 \<Rightarrow> bytes \<Rightarrow> u8 \<Rightarrow> ses" where
  "nghttp2_session_add_goaway e s last_id code opaque aux =
     (if nghttp2_session_is_my_stream_id s last_id then fails s NGHTTP2_ERR_INVALID_ARGUMENT
      else if opaque \<noteq> [] \<and> length opaque + 8 > NGHTTP2_MAX_PAYLOADLEN then fails s NGHTTP2_ERR_INVALID_ARGUMENT
      else if opaque \<noteq> [] \<and> \<not> alloc e (length opaque) then fails s NGHTTP2_ERR_NOMEM
      else submit_item e s ((nghttp2_outbound_item_init (nghttp2_frame_goaway_init
             (min last_id (local_last_stream_id s)) code opaque))\<lparr>aux_flags := aux\<rparr>))"

definition nghttp2_session_add_window_update :: "env \<Rightarrow> session \<Rightarrow> u8 \<Rightarrow> int \<Rightarrow> int \<Rightarrow> ses" where
  "nghttp2_session_add_window_update e s fl i increment =
     submit_new e s (nghttp2_frame_window_update_init fl i increment)"

section \<open>SETTINGS of this end\<close>

definition NGHTTP2_SETTINGS_HEADER_TABLE_SIZE :: int where "NGHTTP2_SETTINGS_HEADER_TABLE_SIZE = 1"
definition NGHTTP2_SETTINGS_MAX_CONCURRENT_STREAMS :: int where "NGHTTP2_SETTINGS_MAX_CONCURRENT_STREAMS = 3"
definition NGHTTP2_SETTINGS_MAX_HEADER_LIST_SIZE :: int where "NGHTTP2_SETTINGS_MAX_HEADER_LIST_SIZE = 6"

definition sizeof_settings_entry :: nat where "sizeof_settings_entry = 8"

text \<open>The value of \<open>SETTINGS_NO_RFC7540_PRIORITIES\<close> must not change: 255 stands for not set yet.\<close>

fun same_priorities :: "u8 \<Rightarrow> settings_entry list \<Rightarrow> u8 option" where
  "same_priorities pri [] = Some pri"
| "same_priorities pri (x # iv) =
     (if settings_id x \<noteq> NGHTTP2_SETTINGS_NO_RFC7540_PRIORITIES then same_priorities pri iv
      else if pri = 255 then same_priorities (ucast (settings_value x)) iv
      else if settings_value x \<noteq> ucast pri then None
      else same_priorities pri iv)"

definition last_setting :: "int \<Rightarrow> settings_entry list \<Rightarrow> u32 option" where
  "last_setting i iv = map_option settings_value (find (\<lambda>x. settings_id x = i) (rev iv))"

definition note_pending :: "session \<Rightarrow> settings_entry list \<Rightarrow> u8 \<Rightarrow> session" where
  "note_pending s iv pri =
     s\<lparr>pending_local_max_concurrent_stream :=
          (case last_setting NGHTTP2_SETTINGS_MAX_CONCURRENT_STREAMS iv of
             Some v \<Rightarrow> v | None \<Rightarrow> pending_local_max_concurrent_stream s),
       pending_enable_push :=
          (case last_setting NGHTTP2_SETTINGS_ENABLE_PUSH iv of
             Some v \<Rightarrow> ucast v | None \<Rightarrow> pending_enable_push s),
       pending_enable_connect_protocol :=
          (case last_setting NGHTTP2_SETTINGS_ENABLE_CONNECT_PROTOCOL iv of
             Some v \<Rightarrow> ucast v | None \<Rightarrow> pending_enable_connect_protocol s),
       pending_no_rfc7540_priorities := (if pri = 255 then 0 else pri)\<rparr>"

definition nghttp2_session_add_settings :: "env \<Rightarrow> session \<Rightarrow> u8 \<Rightarrow> settings_entry list \<Rightarrow> ses" where
  "nghttp2_session_add_settings e s fl iv =
     (let ack = has fl NGHTTP2_FLAG_ACK
      in if ack \<and> iv \<noteq> [] then fails s NGHTTP2_ERR_INVALID_ARGUMENT
         else if ack \<and> obq_flood_counter s \<ge> max_outbound_ack s then fails s NGHTTP2_ERR_FLOODED
         else if \<not> nghttp2_iv_check iv then fails s NGHTTP2_ERR_INVALID_ARGUMENT
         else case same_priorities (pending_no_rfc7540_priorities s) iv of
                None \<Rightarrow> fails s NGHTTP2_ERR_INVALID_ARGUMENT
              | Some pri \<Rightarrow>
                  if \<not> alloc e (sizeof_item e) \<or> iv \<noteq> [] \<and> \<not> alloc e (length iv * sizeof_settings_entry) \<or>
                     \<not> ack \<and> \<not> alloc e (sizeof_inflight e)
                  then fails s NGHTTP2_ERR_NOMEM
                  else rbind (submit_new e s (nghttp2_frame_settings_init fl iv)) (\<lambda>(s1, rv).
                    case rv of
                      Some err \<Rightarrow> rbind (assert_that (fatal rv)) (\<lambda>_. Inr (s1, rv))
                    | None \<Rightarrow>
                        ret (note_pending (if ack then s1\<lparr>obq_flood_counter := obq_flood_counter s1 + 1\<rparr>
                          else s1\<lparr>inflight_settings := inflight_settings s1 @ [iv]\<rparr>) iv pri)))"

section \<open>Closing streams\<close>

definition report :: "env \<Rightarrow> session \<Rightarrow> event \<Rightarrow> (session \<Rightarrow> ses) \<Rightarrow> ses" where
  "report e s ev f = (case callback e ev s of (s1, rv) \<Rightarrow>
     if rv \<noteq> 0 then fails s1 NGHTTP2_ERR_CALLBACK_FAILURE else f s1)"

definition uncount_stream :: "session \<Rightarrow> nat \<Rightarrow> int \<Rightarrow> session" where
  "uncount_stream s k i =
     (if has (flags (stream_at s k)) NGHTTP2_STREAM_FLAG_PUSH then
        if nghttp2_session_is_my_stream_id s i then s
        else s\<lparr>num_incoming_reserved_streams := num_incoming_reserved_streams s - 1\<rparr>
      else if nghttp2_session_is_my_stream_id s i then s\<lparr>num_outgoing_streams := num_outgoing_streams s - 1\<rparr>
      else s\<lparr>num_incoming_streams := num_incoming_streams s - 1\<rparr>)"

definition nghttp2_session_close_stream :: "env \<Rightarrow> session \<Rightarrow> int \<Rightarrow> u32 \<Rightarrow> ses" where
  "nghttp2_session_close_stream e s i code =
     (case nghttp2_session_get_stream s i of
        None \<Rightarrow> fails s NGHTTP2_ERR_INVALID_ARGUMENT
      | Some k \<Rightarrow>
          if_ok (if item (stream_at s k) \<noteq> None then session_detach_stream_item s k else ret s) (\<lambda>s1.
          report e s1 (On_stream_close i code) (\<lambda>s2.
          let s3 = upd_stream (uncount_stream s2 k i) k
                     (\<lambda>x. x\<lparr>flags := flags x OR NGHTTP2_STREAM_FLAG_CLOSED\<rparr>)
          in if pending_no_rfc7540_priorities s3 = 1 then nghttp2_session_destroy_stream e s3 k
             else if opt_flags s3 AND NGHTTP2_OPTMASK_NO_CLOSED_STREAMS = 0 \<and> server s3 \<and>
                     \<not> nghttp2_session_is_my_stream_id s3 i \<and> nghttp2_stream_in_dep_tree (stream_at s3 k)
             then rbind (nghttp2_session_keep_closed_stream s3 k) ret
             else nghttp2_session_destroy_stream e s3 k)))"

definition nghttp2_session_close_stream_if_shut_rdwr :: "env \<Rightarrow> session \<Rightarrow> nat \<Rightarrow> ses" where
  "nghttp2_session_close_stream_if_shut_rdwr e s k =
     (if shut_flags (stream_at s k) AND NGHTTP2_SHUT_RDWR = NGHTTP2_SHUT_RDWR
      then nghttp2_session_close_stream e s (stream_id (stream_at s k)) (http2_code NGHTTP2_NO_ERROR)
      else ret s)"

section \<open>Ending the connection\<close>

definition session_terminate_session :: "env \<Rightarrow> session \<Rightarrow> int \<Rightarrow> u32 \<Rightarrow> string \<Rightarrow> ses" where
  "session_terminate_session e s last_id code reason =
     (if has (goaway_flags s) NGHTTP2_GOAWAY_TERM_ON_SEND then ret s
      else if_ok (nghttp2_session_add_goaway e (s\<lparr>iframe_state := NGHTTP2_IB_IGN_ALL\<rparr>) last_id code (ascii reason)
                    NGHTTP2_GOAWAY_AUX_TERM_ON_SEND) (\<lambda>s1.
           ret (s1\<lparr>goaway_flags := goaway_flags s1 OR NGHTTP2_GOAWAY_TERM_ON_SEND\<rparr>)))"

definition nghttp2_session_terminate_session :: "env \<Rightarrow> session \<Rightarrow> u32 \<Rightarrow> ses" where
  "nghttp2_session_terminate_session e s code =
     session_terminate_session e s (last_proc_stream_id s) code []"

definition nghttp2_session_terminate_session2 :: "env \<Rightarrow> session \<Rightarrow> int \<Rightarrow> u32 \<Rightarrow> ses" where
  "nghttp2_session_terminate_session2 e s last_id code = session_terminate_session e s last_id code []"

definition nghttp2_session_terminate_session_with_reason :: "env \<Rightarrow> session \<Rightarrow> u32 \<Rightarrow> string \<Rightarrow> ses" where
  "nghttp2_session_terminate_session_with_reason e s code reason =
     session_terminate_session e s (last_proc_stream_id s) code reason"

section \<open>Frames that are not acceptable\<close>

definition get_error_code_from_lib_error_code :: "nghttp2_error \<Rightarrow> u32" where
  "get_error_code_from_lib_error_code lib =
     http2_code (case lib of
        NGHTTP2_ERR_STREAM_CLOSED \<Rightarrow> NGHTTP2_STREAM_CLOSED
      | NGHTTP2_ERR_HEADER_COMP \<Rightarrow> NGHTTP2_COMPRESSION_ERROR
      | NGHTTP2_ERR_FRAME_SIZE_ERROR \<Rightarrow> NGHTTP2_FRAME_SIZE_ERROR
      | NGHTTP2_ERR_FLOW_CONTROL \<Rightarrow> NGHTTP2_FLOW_CONTROL_ERROR
      | NGHTTP2_ERR_REFUSED_STREAM \<Rightarrow> NGHTTP2_REFUSED_STREAM
      | NGHTTP2_ERR_PROTO \<Rightarrow> NGHTTP2_PROTOCOL_ERROR
      | NGHTTP2_ERR_HTTP_HEADER \<Rightarrow> NGHTTP2_PROTOCOL_ERROR
      | NGHTTP2_ERR_HTTP_MESSAGING \<Rightarrow> NGHTTP2_PROTOCOL_ERROR
      | _ \<Rightarrow> NGHTTP2_INTERNAL_ERROR)"

definition session_call_on_invalid_frame_recv_callback :: "env \<Rightarrow> session \<Rightarrow> frame \<Rightarrow> nghttp2_error \<Rightarrow> ses" where
  "session_call_on_invalid_frame_recv_callback e s fr lib = report e s (On_invalid_frame_recv fr lib) ret"

definition session_handle_invalid_stream2 :: "env \<Rightarrow> session \<Rightarrow> int \<Rightarrow> frame \<Rightarrow> nghttp2_error \<Rightarrow> ses" where
  "session_handle_invalid_stream2 e s i fr lib =
     if_ok (nghttp2_session_add_rst_stream e s i (get_error_code_from_lib_error_code lib)) (\<lambda>s1.
     report e s1 (On_invalid_frame_recv fr lib) ret)"

definition session_handle_invalid_stream :: "env \<Rightarrow> session \<Rightarrow> frame \<Rightarrow> nghttp2_error \<Rightarrow> ses" where
  "session_handle_invalid_stream e s fr lib = session_handle_invalid_stream2 e s (fr_id fr) fr lib"

definition session_inflate_handle_invalid_stream :: "env \<Rightarrow> session \<Rightarrow> frame \<Rightarrow> nghttp2_error \<Rightarrow> ses" where
  "session_inflate_handle_invalid_stream e s fr lib =
     unless_fatal (session_handle_invalid_stream e s fr lib) (\<lambda>s1 _. fails s1 NGHTTP2_ERR_IGN_HEADER_BLOCK)"

definition session_handle_invalid_connection ::
  "env \<Rightarrow> session \<Rightarrow> frame \<Rightarrow> nghttp2_error \<Rightarrow> string \<Rightarrow> ses" where
  "session_handle_invalid_connection e s fr lib reason =
     report e s (On_invalid_frame_recv fr lib) (\<lambda>s1.
     nghttp2_session_terminate_session_with_reason e s1 (get_error_code_from_lib_error_code lib) reason)"

definition session_inflate_handle_invalid_connection ::
  "env \<Rightarrow> session \<Rightarrow> frame \<Rightarrow> nghttp2_error \<Rightarrow> string \<Rightarrow> ses" where
  "session_inflate_handle_invalid_connection e s fr lib reason =
     unless_fatal (session_handle_invalid_connection e s fr lib reason) (\<lambda>s1 _. fails s1 NGHTTP2_ERR_IGN_HEADER_BLOCK)"

definition session_handle_frame_size_error :: "env \<Rightarrow> session \<Rightarrow> ses" where
  "session_handle_frame_size_error e s = nghttp2_session_terminate_session e s (http2_code NGHTTP2_FRAME_SIZE_ERROR)"

end
