(* ===== verification/SessRecv.thy ===== *)
theory SessRecv
  imports SessOut
begin

text \<open>
  What a connection does with a frame it received: the handlers of \<open>nghttp2_session.c\<close> for every kind of
  frame, once its payload is unpacked.
\<close>

definition session_call_on_frame_received :: "env \<Rightarrow> session \<Rightarrow> frame \<Rightarrow> ses" where
  "session_call_on_frame_received e s fr = report e s (On_frame_recv fr) ret"

definition session_call_on_begin_headers :: "env \<Rightarrow> session \<Rightarrow> frame \<Rightarrow> ses" where
  "session_call_on_begin_headers e s fr =
     (case callback e (On_begin_headers fr) s of (s1, rv) \<Rightarrow>
        if rv = err_code NGHTTP2_ERR_TEMPORAL_CALLBACK_FAILURE then fails s1 NGHTTP2_ERR_TEMPORAL_CALLBACK_FAILURE
        else if rv \<noteq> 0 then fails s1 NGHTTP2_ERR_CALLBACK_FAILURE
        else ret s1)"

abbreviation shut_rd :: "session \<Rightarrow> nat \<Rightarrow> session" where
  "shut_rd s k \<equiv> upd_stream s k (\<lambda>x. nghttp2_stream_shutdown x NGHTTP2_SHUT_RD)"

section \<open>HEADERS\<close>

definition headers_spec :: "frame \<Rightarrow> priority_spec" where
  "headers_spec fr = (case body fr of
     Headers_frame _ ps _ \<Rightarrow> ps | Priority_frame ps \<Rightarrow> ps | _ \<Rightarrow> nghttp2_priority_spec_default_init)"

definition nghttp2_session_on_request_headers_received :: "env \<Rightarrow> session \<Rightarrow> frame \<Rightarrow> ses" where
  "nghttp2_session_on_request_headers_received e s fr =
     (if fr_id fr = 0 then
        session_inflate_handle_invalid_connection e s fr NGHTTP2_ERR_PROTO ''request HEADERS: stream_id == 0''
      else if \<not> server s then
        (if session_detect_idle_stream s (fr_id fr) then
           session_inflate_handle_invalid_connection e s fr NGHTTP2_ERR_PROTO
             ''request HEADERS: client received request''
         else fails s NGHTTP2_ERR_IGN_HEADER_BLOCK)
      else if \<not> session_is_new_peer_stream_id s (fr_id fr) then
        (if fr_id fr = 0 \<or> nghttp2_session_is_my_stream_id s (fr_id fr) then
           session_inflate_handle_invalid_connection e s fr NGHTTP2_ERR_PROTO ''request HEADERS: invalid stream_id''
         else case nghttp2_session_get_stream_raw s (fr_id fr) of
                Some k \<Rightarrow>
                  if has (shut_flags (stream_at s k)) NGHTTP2_SHUT_RD then
                    session_inflate_handle_invalid_connection e s fr NGHTTP2_ERR_STREAM_CLOSED
                      ''HEADERS: stream closed''
                  else fails s NGHTTP2_ERR_IGN_HEADER_BLOCK
              | None \<Rightarrow> fails s NGHTTP2_ERR_IGN_HEADER_BLOCK)
      else let s = s\<lparr>last_recv_stream_id := fr_id fr\<rparr>
      in if session_is_incoming_concurrent_streams_max s then
        session_inflate_handle_invalid_connection e s fr NGHTTP2_ERR_PROTO
          ''request HEADERS: max concurrent streams exceeded''
      else if \<not> session_allow_incoming_new_stream s then fails s NGHTTP2_ERR_IGN_HEADER_BLOCK
      else if stream_of_spec (headers_spec fr) = fr_id fr then
        session_inflate_handle_invalid_connection e s fr NGHTTP2_ERR_PROTO ''request HEADERS: depend on itself''
      else if session_is_incoming_concurrent_streams_pending_max s then
        session_inflate_handle_invalid_stream e s fr NGHTTP2_ERR_REFUSED_STREAM
      else rbind (nghttp2_session_open_stream e s (fr_id fr) 0 (headers_spec fr) NGHTTP2_STREAM_OPENING 0) (\<lambda>(s1, opened).
        if \<not> opened then fails s1 NGHTTP2_ERR_NOMEM
        else unless_fatal (nghttp2_session_adjust_closed_stream e s1) (\<lambda>s2 _.
          session_call_on_begin_headers e (s2\<lparr>last_proc_stream_id := last_recv_stream_id s2\<rparr>) fr)))"

definition nghttp2_session_on_response_headers_received :: "env \<Rightarrow> session \<Rightarrow> frame \<Rightarrow> nat \<Rightarrow> ses" where
  "nghttp2_session_on_response_headers_received e s fr k =
     rbind (assert_that (state (stream_at s k) = NGHTTP2_STREAM_OPENING \<and>
                         nghttp2_session_is_my_stream_id s (fr_id fr))) (\<lambda>_.
     if fr_id fr = 0 then
       session_inflate_handle_invalid_connection e s fr NGHTTP2_ERR_PROTO ''response HEADERS: stream_id == 0''
     else if has (shut_flags (stream_at s k)) NGHTTP2_SHUT_RD then
       session_inflate_handle_invalid_connection e s fr NGHTTP2_ERR_STREAM_CLOSED ''HEADERS: stream closed''
     else session_call_on_begin_headers e (upd_stream s k (\<lambda>x. x\<lparr>state := NGHTTP2_STREAM_OPENED\<rparr>)) fr)"

definition nghttp2_session_on_push_response_headers_received :: "env \<Rightarrow> session \<Rightarrow> frame \<Rightarrow> nat \<Rightarrow> ses" where
  "nghttp2_session_on_push_response_headers_received e s fr k =
     rbind (assert_that (state (stream_at s k) = NGHTTP2_STREAM_RESERVED)) (\<lambda>_.
     if fr_id fr = 0 then
       session_inflate_handle_invalid_connection e s fr NGHTTP2_ERR_PROTO ''push response HEADERS: stream_id == 0''
     else if server s then
       session_inflate_handle_invalid_connection e s fr NGHTTP2_ERR_PROTO
         ''HEADERS: no HEADERS allowed from client in reserved state''
     else if session_is_incoming_concurrent_streams_max s then
       session_inflate_handle_invalid_connection e s fr NGHTTP2_ERR_PROTO
         ''push response HEADERS: max concurrent streams exceeded''
     else if \<not> session_allow_incoming_new_stream s then fails s NGHTTP2_ERR_IGN_HEADER_BLOCK
     else if session_is_incoming_concurrent_streams_pending_max s then
       session_inflate_handle_invalid_stream e s fr NGHTTP2_ERR_REFUSED_STREAM
     else let s1 = upd_stream s k nghttp2_stream_promise_fulfilled;
              s2 = (if nghttp2_session_is_my_stream_id s1 (stream_id (stream_at s1 k)) then s1
                    else s1\<lparr>num_incoming_reserved_streams := num_incoming_reserved_streams s1 - 1\<rparr>)
          in session_call_on_begin_headers e (s2\<lparr>num_incoming_streams := num_incoming_streams s2 + 1\<rparr>) fr)"

definition nghttp2_session_on_headers_received :: "env \<Rightarrow> session \<Rightarrow> frame \<Rightarrow> nat \<Rightarrow> ses" where
  "nghttp2_session_on_headers_received e s fr k =
     (if fr_id fr = 0 then
        session_inflate_handle_invalid_connection e s fr NGHTTP2_ERR_PROTO ''HEADERS: stream_id == 0''
      else if has (shut_flags (stream_at s k)) NGHTTP2_SHUT_RD then
        session_inflate_handle_invalid_connection e s fr NGHTTP2_ERR_STREAM_CLOSED ''HEADERS: stream closed''
      else if nghttp2_session_is_my_stream_id s (fr_id fr) then
        (if state (stream_at s k) = NGHTTP2_STREAM_OPENED then session_call_on_begin_headers e s fr
         else fails s NGHTTP2_ERR_IGN_HEADER_BLOCK)
      else if state (stream_at s k) \<noteq> NGHTTP2_STREAM_CLOSING then session_call_on_begin_headers e s fr
      else fails s NGHTTP2_ERR_IGN_HEADER_BLOCK)"

text \<open>The handler of an unpacked HEADERS frame; the category is set before the handler sees the frame.\<close>

definition set_category :: "frame \<Rightarrow> nghttp2_headers_category \<Rightarrow> frame" where
  "set_category fr cat = (case body fr of Headers_frame _ ps nva \<Rightarrow> fr\<lparr>body := Headers_frame cat ps nva\<rparr> | _ \<Rightarrow> fr)"

definition session_process_headers_frame :: "env \<Rightarrow> session \<Rightarrow> frame \<Rightarrow> ses" where
  "session_process_headers_frame e s fr =
     (case nghttp2_session_get_stream s (fr_id fr) of
        None \<Rightarrow> nghttp2_session_on_request_headers_received e s (set_category fr NGHTTP2_HCAT_REQUEST)
      | Some k \<Rightarrow>
          if state (stream_at s k) = NGHTTP2_STREAM_RESERVED then
            nghttp2_session_on_push_response_headers_received e s (set_category fr NGHTTP2_HCAT_PUSH_RESPONSE) k
          else if state (stream_at s k) = NGHTTP2_STREAM_OPENING \<and> nghttp2_session_is_my_stream_id s (fr_id fr) then
            nghttp2_session_on_response_headers_received e s (set_category fr NGHTTP2_HCAT_RESPONSE) k
          else nghttp2_session_on_headers_received e s (set_category fr NGHTTP2_HCAT_HEADERS) k)"

section \<open>The end of a header block\<close>

definition category :: "frame \<Rightarrow> nghttp2_headers_category option" where
  "category fr = (case body fr of Headers_frame cat _ _ \<Rightarrow> Some cat | _ \<Rightarrow> None)"

definition session_end_stream_headers_received :: "env \<Rightarrow> session \<Rightarrow> frame \<Rightarrow> nat \<Rightarrow> ses" where
  "session_end_stream_headers_received e s fr k =
     rbind (assert_that (is_headers fr)) (\<lambda>_.
     if_ok (if server s \<and> session_enforce_http_messaging s \<and>
               category fr = Some NGHTTP2_HCAT_REQUEST \<and> \<not> in_tree (stream_at s k) \<and>
               flags (stream_at s k) AND NGHTTP2_STREAM_FLAG_IGNORE_CLIENT_PRIORITIES = 0 \<and>
               has (http_flags (stream_at s k)) NGHTTP2_HTTP_FLAG_PRIORITY
            then rbind (session_update_stream_priority e s k (http_extpri (stream_at s k))) (\<lambda>(s1, rv).
              rbind (assert_that (rv = None \<or> fatal rv)) (\<lambda>_. Inr (s1, rv)))
            else ret s) (\<lambda>s1.
     if fr_flags fr AND NGHTTP2_FLAG_END_STREAM = 0 then ret s1
     else unless_fatal (nghttp2_session_close_stream_if_shut_rdwr e (shut_rd s1 k) k) (\<lambda>s2 _. ret s2)))"

text \<open>The checks of \<open>nghttp2_http.c\<close> on a complete header block, and what they change in the stream.\<close>

definition http_checks :: "session \<Rightarrow> frame \<Rightarrow> nat \<Rightarrow> (session \<times> bool) res" where
  "http_checks s fr k =
     (let request = (\<lambda>s k' ft. case nghttp2_http_on_request_headers ft (stream_at s k') of
            (x, good) \<Rightarrow> (upd_stream s k' (\<lambda>_. x), good));
          response = (\<lambda>s k'. case nghttp2_http_on_response_headers (stream_at s k') of
            (x, good) \<Rightarrow> (upd_stream s k' (\<lambda>_. x), good));
          ended = (\<lambda>(s, good). (s, good \<and> (has (fr_flags fr) NGHTTP2_FLAG_END_STREAM \<longrightarrow>
            nghttp2_http_on_remote_end_stream (stream_at s k))))
      in case body fr of
           Push_promise_frame promised _ \<Rightarrow>
             Inr (case nghttp2_session_get_stream s promised of
                    Some k' \<Rightarrow> request s k' NGHTTP2_PUSH_PROMISE
                  | None \<Rightarrow> (s, True))
         | Headers_frame cat _ _ \<Rightarrow>
             (case cat of
                NGHTTP2_HCAT_REQUEST \<Rightarrow> Inr (ended (request s k NGHTTP2_HEADERS))
              | NGHTTP2_HCAT_RESPONSE \<Rightarrow> Inr (ended (response s k))
              | NGHTTP2_HCAT_PUSH_RESPONSE \<Rightarrow> Inr (ended (response s k))
              | NGHTTP2_HCAT_HEADERS \<Rightarrow>
                  if has (http_flags (stream_at s k)) NGHTTP2_HTTP_FLAG_EXPECT_FINAL_RESPONSE then
                    rbind (assert_that (\<not> server s)) (\<lambda>_. Inr (ended (response s k)))
                  else Inr (ended (s, nghttp2_http_on_trailer_headers (fr_flags fr))))
         | _ \<Rightarrow> Inl Assert_failed)"

definition session_after_header_block_received :: "env \<Rightarrow> session \<Rightarrow> frame \<Rightarrow> ses" where
  "session_after_header_block_received e s fr =
     (case nghttp2_session_get_stream s (fr_id fr) of
        None \<Rightarrow> ret s
      | Some k \<Rightarrow>
          if state (stream_at s k) = NGHTTP2_STREAM_CLOSING then ret s
          else rbind (if session_enforce_http_messaging s then http_checks s fr k else Inr (s, True)) (\<lambda>(s1, good).
            if \<not> good then
              unless_fatal (session_handle_invalid_stream2 e s1
                  (case body fr of Push_promise_frame promised _ \<Rightarrow> promised | _ \<Rightarrow> fr_id fr) fr
                  NGHTTP2_ERR_HTTP_MESSAGING) (\<lambda>s2 _.
                ret (if is_headers fr \<and> has (fr_flags fr) NGHTTP2_FLAG_END_STREAM then shut_rd s2 k else s2))
            else unless_fatal (session_call_on_frame_received e s1 fr) (\<lambda>s2 _.
              if \<not> is_headers fr then ret s2 else session_end_stream_headers_received e s2 fr k)))"

section \<open>PRIORITY\<close>

definition nghttp2_session_reprioritize_stream :: "env \<Rightarrow> session \<Rightarrow> nat \<Rightarrow> priority_spec \<Rightarrow> ses" where
  "nghttp2_session_reprioritize_stream e s k ps =
     rbind (assert_that (\<not> server s \<and> pending_no_rfc7540_priorities s \<noteq> 1 \<or>
                         server s \<and> \<not> session_no_rfc7540_pri_no_fallback s)) (\<lambda>_.
     rbind (assert_that (stream_of_spec ps \<noteq> stream_id (stream_at s k))) (\<lambda>_.
     if \<not> nghttp2_stream_in_dep_tree (stream_at s k) then ret s
     else rbind (if stream_of_spec ps = 0 then Inr (s, Some (ps, None))
            else case nghttp2_session_get_stream_raw s (stream_of_spec ps) of
                   None \<Rightarrow>
                     if session_detect_idle_stream s (stream_of_spec ps) then
                       rbind (nghttp2_session_open_stream e s (stream_of_spec ps) NGHTTP2_FLAG_NONE
                         nghttp2_priority_spec_default_init NGHTTP2_STREAM_IDLE 0) (\<lambda>(s1, opened).
                       Inr (s1, if opened then Some (ps, Some (nat (stream_of_spec ps))) else None))
                     else Inr (s, Some (nghttp2_priority_spec_default_init, None))
                 | Some d \<Rightarrow>
                     if nghttp2_stream_in_dep_tree (stream_at s d) then Inr (s, Some (ps, Some d))
                     else Inr (s, Some (nghttp2_priority_spec_default_init, Some d))) (\<lambda>(s1, r).
       case r of
         None \<Rightarrow> fails s1 NGHTTP2_ERR_NOMEM
       | Some (ps, dep) \<Rightarrow>
           (case (if stream_of_spec ps = 0 then Some 0 else dep) of
              None \<Rightarrow> Inl Assert_failed
            | Some d \<Rightarrow>
                if_ok (if stream_of_spec ps = 0 then ret s1
                       else rbind (nghttp2_stream_dep_find_ancestor (rounds s1) (tree s1) d k) (\<lambda>cyclic.
                         if \<not> cyclic then ret s1
                         else rbind (nghttp2_stream_dep_remove_subtree (rounds s1) (tree s1) d) (\<lambda>t.
                           case dep_prev (str t k) of
                             None \<Rightarrow> Inl Undefined
                           | Some p \<Rightarrow>
                               on_tree s1 (nghttp2_stream_dep_add_subtree (alloc e) (rounds s1) t p d)))) (\<lambda>s2.
                if Some d = dep_prev (stream_at s2 k) \<and> \<not> ps_exclusive ps then
                  rbind (nghttp2_stream_change_weight (alloc e) (tree s2) k (ps_weight ps)) (\<lambda>t. ret (s2\<lparr>tree := t\<rparr>))
                else rbind (nghttp2_stream_dep_remove_subtree (rounds s2) (tree s2) k) (\<lambda>t.
                  let s3 = upd_stream (s2\<lparr>tree := t\<rparr>) k (\<lambda>x. x\<lparr>weight := ps_weight ps\<rparr>)
                  in on_tree s3 (if ps_exclusive ps
                       then nghttp2_stream_dep_insert_subtree (alloc e) (rounds s3) (tree s3) d k
                       else nghttp2_stream_dep_add_subtree (alloc e) (rounds s3) (tree s3) d k)))))))"

definition nghttp2_session_on_priority_received :: "env \<Rightarrow> session \<Rightarrow> frame \<Rightarrow> ses" where
  "nghttp2_session_on_priority_received e s fr =
     rbind (assert_that (\<not> session_no_rfc7540_pri_no_fallback s)) (\<lambda>_.
     if fr_id fr = 0 then
       session_handle_invalid_connection e s fr NGHTTP2_ERR_PROTO ''PRIORITY: stream_id == 0''
     else if stream_of_spec (headers_spec fr) = fr_id fr then
       nghttp2_session_terminate_session_with_reason e s (http2_code NGHTTP2_PROTOCOL_ERROR) ''depend on itself''
     else if \<not> server s then session_call_on_frame_received e s fr
     else case nghttp2_session_get_stream_raw s (fr_id fr) of
            None \<Rightarrow>
              if \<not> session_detect_idle_stream s (fr_id fr) then ret s
              else rbind (nghttp2_session_open_stream e s (fr_id fr) 0 (headers_spec fr) NGHTTP2_STREAM_IDLE 0)
                (\<lambda>(s1, opened).
                if \<not> opened then fails s1 NGHTTP2_ERR_NOMEM
                else unless_fatal (nghttp2_session_adjust_idle_stream e s1) (\<lambda>s2 _.
                  session_call_on_frame_received e s2 fr))
          | Some k \<Rightarrow>
              unless_fatal (nghttp2_session_reprioritize_stream e s k (headers_spec fr)) (\<lambda>s1 _.
              unless_fatal (nghttp2_session_adjust_idle_stream e s1) (\<lambda>s2 _.
              session_call_on_frame_received e s2 fr)))"

section \<open>RST_STREAM, PUSH_PROMISE, PING, GOAWAY\<close>

definition nghttp2_session_on_rst_stream_received :: "env \<Rightarrow> session \<Rightarrow> frame \<Rightarrow> u32 \<Rightarrow> ses" where
  "nghttp2_session_on_rst_stream_received e s fr code =
     (if fr_id fr = 0 then
        session_handle_invalid_connection e s fr NGHTTP2_ERR_PROTO ''RST_STREAM: stream_id == 0''
      else if session_detect_idle_stream s (fr_id fr) then
        session_handle_invalid_connection e s fr NGHTTP2_ERR_PROTO ''RST_STREAM: stream in idle''
      else if_ok (session_call_on_frame_received e
               (case nghttp2_session_get_stream s (fr_id fr) of Some k \<Rightarrow> shut_rd s k | None \<Rightarrow> s) fr) (\<lambda>s1.
           unless_fatal (nghttp2_session_close_stream e s1 (fr_id fr) code) (\<lambda>s2 _. ret s2)))"

definition nghttp2_session_on_push_promise_received :: "env \<Rightarrow> session \<Rightarrow> frame \<Rightarrow> int \<Rightarrow> ses" where
  "nghttp2_session_on_push_promise_received e s fr promised =
     (if fr_id fr = 0 then
        session_inflate_handle_invalid_connection e s fr NGHTTP2_ERR_PROTO ''PUSH_PROMISE: stream_id == 0''
      else if server s \<or> enable_push (local_settings s) = 0 then
        session_inflate_handle_invalid_connection e s fr NGHTTP2_ERR_PROTO ''PUSH_PROMISE: push disabled''
      else if \<not> nghttp2_session_is_my_stream_id s (fr_id fr) then
        session_inflate_handle_invalid_connection e s fr NGHTTP2_ERR_PROTO ''PUSH_PROMISE: invalid stream_id''
      else if \<not> session_allow_incoming_new_stream s then fails s NGHTTP2_ERR_IGN_HEADER_BLOCK
      else if \<not> session_is_new_peer_stream_id s promised then
        session_inflate_handle_invalid_connection e s fr NGHTTP2_ERR_PROTO
          ''PUSH_PROMISE: invalid promised_stream_id''
      else if session_detect_idle_stream s (fr_id fr) then
        session_inflate_handle_invalid_connection e s fr NGHTTP2_ERR_PROTO ''PUSH_PROMISE: stream in idle''
      else let s = s\<lparr>last_recv_stream_id := promised\<rparr>
      in let cancel = if_ok (nghttp2_session_add_rst_stream e s promised (http2_code NGHTTP2_CANCEL)) (\<lambda>s1.
                        fails s1 NGHTTP2_ERR_IGN_HEADER_BLOCK)
      in case nghttp2_session_get_stream s (fr_id fr) of
           None \<Rightarrow> cancel
         | Some k \<Rightarrow>
             if state (stream_at s k) = NGHTTP2_STREAM_CLOSING \<or> pending_enable_push s = 0 \<or>
                num_incoming_reserved_streams s \<ge> max_incoming_reserved_streams s then cancel
             else if has (shut_flags (stream_at s k)) NGHTTP2_SHUT_RD then
               session_inflate_handle_invalid_connection e s fr NGHTTP2_ERR_STREAM_CLOSED
                 ''PUSH_PROMISE: stream closed''
             else rbind (nghttp2_session_open_stream e s promised 0
                    (nghttp2_priority_spec_init (word_of_int (stream_id (stream_at s k))) NGHTTP2_DEFAULT_WEIGHT 0)
                    NGHTTP2_STREAM_RESERVED 0) (\<lambda>(s1, opened).
               if \<not> opened then fails s1 NGHTTP2_ERR_NOMEM
               else session_call_on_begin_headers e (s1\<lparr>last_proc_stream_id := last_recv_stream_id s1\<rparr>) fr))"

definition nghttp2_session_on_ping_received :: "env \<Rightarrow> session \<Rightarrow> frame \<Rightarrow> bytes \<Rightarrow> ses" where
  "nghttp2_session_on_ping_received e s fr opaque =
     (if fr_id fr \<noteq> 0 then
        session_handle_invalid_connection e s fr NGHTTP2_ERR_PROTO ''PING: stream_id != 0''
      else if_ok (if opt_flags s AND NGHTTP2_OPTMASK_NO_AUTO_PING_ACK = 0 \<and>
                     fr_flags fr AND NGHTTP2_FLAG_ACK = 0 \<and> \<not> session_is_closing s
                  then nghttp2_session_add_ping e s NGHTTP2_FLAG_ACK (Some opaque) else ret s) (\<lambda>s1.
           session_call_on_frame_received e s1 fr))"

text \<open>\<open>nghttp2_map_each\<close> over the streams, with a function that may fail.\<close>

definition each_stream :: "session \<Rightarrow> (nat \<Rightarrow> session \<Rightarrow> ses) \<Rightarrow> ses" where
  "each_stream s f =
     fst (nghttp2_map_each (\<lambda>k acc. case acc of
            Inl x \<Rightarrow> (Inl x, - 1)
          | Inr (s1, _) \<Rightarrow>
              (case f k s1 of
                 Inl x \<Rightarrow> (Inl x, - 1)
               | Inr (s2, None) \<Rightarrow> (Inr (s2, None), 0)
               | Inr (s2, Some err) \<Rightarrow> (Inr (s2, Some err), err_code err))) (streams s) (ret s))"

text \<open>The streams to close are linked through \<open>closed_next\<close> while they are collected.\<close>

definition find_stream_on_goaway_func ::
  "bool \<Rightarrow> int \<Rightarrow> nat \<Rightarrow> session \<times> nat option \<Rightarrow> (session \<times> nat option) res" where
  "find_stream_on_goaway_func incoming last_id k = (\<lambda>(s, head).
     let x = stream_at s k in
     if nghttp2_session_is_my_stream_id s (stream_id x) = incoming then Inr (s, head)
     else if state x \<noteq> NGHTTP2_STREAM_IDLE \<and> flags x AND NGHTTP2_STREAM_FLAG_CLOSED = 0 \<and> stream_id x > last_id then
       rbind (assert_that (closed_next x = None)) (\<lambda>_.
       rbind (assert_that (closed_prev x = None)) (\<lambda>_.
       Inr (case head of
              Some h \<Rightarrow> upd_stream s k (\<lambda>x. x\<lparr>closed_next := Some h\<rparr>)
            | None \<Rightarrow> s, Some k)))
     else Inr (s, head))"

definition collect_on_goaway :: "session \<Rightarrow> bool \<Rightarrow> int \<Rightarrow> (session \<times> nat option) res" where
  "collect_on_goaway s incoming last_id =
     fst (nghttp2_map_each (\<lambda>k acc. case rbind acc (find_stream_on_goaway_func incoming last_id k) of
            Inl x \<Rightarrow> (Inl x, - 1)
          | Inr r \<Rightarrow> (Inr r, 0)) (streams s) (Inr (s, None)))"

fun unlink_loop :: "nat \<Rightarrow> session \<Rightarrow> nat option \<Rightarrow> session res" where
  "unlink_loop n s None = Inr s"
| "unlink_loop 0 s (Some k) = Inl Undefined"
| "unlink_loop (Suc n) s (Some k) =
     (if \<not> live s k then Inl Undefined
      else unlink_loop n (upd_stream s k (\<lambda>x. x\<lparr>closed_next := None\<rparr>)) (closed_next (stream_at s k)))"

fun close_loop :: "nat \<Rightarrow> env \<Rightarrow> session \<Rightarrow> nat option \<Rightarrow> ses" where
  "close_loop n e s None = ret s"
| "close_loop 0 e s (Some k) = Inl Undefined"
| "close_loop (Suc n) e s (Some k) =
     (if \<not> live s k then Inl Undefined
      else let next_stream = closed_next (stream_at s k);
               s1 = upd_stream s k (\<lambda>x. x\<lparr>closed_next := None\<rparr>)
           in rbind (nghttp2_session_close_stream e s1 (stream_id (stream_at s1 k)) (http2_code NGHTTP2_REFUSED_STREAM))
                (\<lambda>(s2, rv).
                if fatal rv then rbind (unlink_loop n s2 next_stream) (\<lambda>s3. Inr (s3, rv))
                else close_loop n e s2 next_stream))"

definition session_close_stream_on_goaway :: "env \<Rightarrow> session \<Rightarrow> int \<Rightarrow> bool \<Rightarrow> ses" where
  "session_close_stream_on_goaway e s last_id incoming =
     rbind (collect_on_goaway s incoming last_id) (\<lambda>(s1, head). close_loop (rounds s1) e s1 head)"

definition nghttp2_session_on_goaway_received :: "env \<Rightarrow> session \<Rightarrow> frame \<Rightarrow> int \<Rightarrow> ses" where
  "nghttp2_session_on_goaway_received e s fr last_id =
     (if fr_id fr \<noteq> 0 then
        session_handle_invalid_connection e s fr NGHTTP2_ERR_PROTO ''GOAWAY: stream_id != 0''
      else if last_id > 0 \<and> \<not> nghttp2_session_is_my_stream_id s last_id \<or> remote_last_stream_id s < last_id then
        session_handle_invalid_connection e s fr NGHTTP2_ERR_PROTO ''GOAWAY: invalid last_stream_id''
      else unless_fatal (session_call_on_frame_received e
             (s\<lparr>goaway_flags := goaway_flags s OR NGHTTP2_GOAWAY_RECV, remote_last_stream_id := last_id\<rparr>) fr) (\<lambda>s1 _.
           session_close_stream_on_goaway e s1 last_id False))"

end
