(* ===== verification/SessFlow.thy ===== *)
theory SessFlow
  imports SessRecv
begin

text \<open>
  Flow control and settings of a connection: the windows of the connection and of its streams when data is
  received, consumed or acknowledged, SETTINGS of both ends, DATA, and the extension frames.
\<close>

section \<open>Windows for received data\<close>

text \<open>The length is a \<open>size_t\<close> that is cast to \<open>int32_t\<close>; the new size, or nothing for the code \<open>-1\<close>.\<close>

definition adjust_recv_window_size :: "int \<Rightarrow> u32 \<Rightarrow> int \<Rightarrow> int option res" where
  "adjust_recv_window_size recv delta local_size =
     rbind (i32 (local_size - sint delta)) (\<lambda>a.
     if recv > a then Inr None
     else rbind (i32 (NGHTTP2_MAX_WINDOW_SIZE - sint delta)) (\<lambda>b.
     if recv > b then Inr None
     else rbind (i32 (recv + sint delta)) (\<lambda>r. Inr (Some r))))"

definition nghttp2_session_update_recv_stream_window_size :: "env \<Rightarrow> session \<Rightarrow> nat \<Rightarrow> u32 \<Rightarrow> bool \<Rightarrow> ses" where
  "nghttp2_session_update_recv_stream_window_size e s k delta send_window_update =
     rbind (adjust_recv_window_size (recv_window_size (stream_at s k)) delta
              (stream.local_window_size (stream_at s k))) (\<lambda>r.
     case r of
       None \<Rightarrow> nghttp2_session_add_rst_stream e s (stream_id (stream_at s k)) (http2_code NGHTTP2_FLOW_CONTROL_ERROR)
     | Some recv \<Rightarrow>
         let s = upd_stream s k (\<lambda>x. x\<lparr>recv_window_size := recv\<rparr>)
         in if send_window_update \<and> opt_flags s AND NGHTTP2_OPTMASK_NO_AUTO_WINDOW_UPDATE = 0 \<and>
               \<not> window_update_queued (stream_at s k) \<and>
               nghttp2_should_send_window_update (stream.local_window_size (stream_at s k)) recv
            then if_ok (nghttp2_session_add_window_update e s NGHTTP2_FLAG_NONE (stream_id (stream_at s k)) recv)
                   (\<lambda>s1. ret (upd_stream s1 k (\<lambda>x. x\<lparr>recv_window_size := 0\<rparr>)))
            else ret s)"

definition nghttp2_session_update_recv_connection_window_size :: "env \<Rightarrow> session \<Rightarrow> u32 \<Rightarrow> ses" where
  "nghttp2_session_update_recv_connection_window_size e s delta =
     rbind (adjust_recv_window_size (conn_recv_window_size s) delta (conn_local_window_size s)) (\<lambda>r.
     case r of
       None \<Rightarrow> nghttp2_session_terminate_session e s (http2_code NGHTTP2_FLOW_CONTROL_ERROR)
     | Some recv \<Rightarrow>
         let s = s\<lparr>conn_recv_window_size := recv\<rparr>
         in if opt_flags s AND NGHTTP2_OPTMASK_NO_AUTO_WINDOW_UPDATE = 0 \<and> \<not> conn_window_update_queued s \<and>
               nghttp2_should_send_window_update (conn_local_window_size s) recv
            then if_ok (nghttp2_session_add_window_update e s NGHTTP2_FLAG_NONE 0 recv)
                   (\<lambda>s1. ret (s1\<lparr>conn_recv_window_size := 0\<rparr>))
            else ret s)"

text \<open>The two sizes behind the pointers come from \<open>get\<close> and go to \<open>put\<close>; they belong to the connection
  or to a stream.\<close>

definition session_update_consumed_size ::
  "env \<Rightarrow> session \<Rightarrow> (session \<Rightarrow> int \<times> int) \<Rightarrow> (session \<Rightarrow> int \<times> int \<Rightarrow> session) \<Rightarrow> bool \<Rightarrow> int \<Rightarrow> u32 \<Rightarrow> int \<Rightarrow> ses" where
  "session_update_consumed_size e s get put update_queued i delta local_size =
     (let (consumed, recv) = get s
      in if (word_of_int consumed :: u32) > word_of_int NGHTTP2_MAX_WINDOW_SIZE - delta
         then nghttp2_session_terminate_session e s (http2_code NGHTTP2_FLOW_CONTROL_ERROR)
         else rbind (i32 (consumed + sint delta)) (\<lambda>consumed.
           let s = put s (consumed, recv)
           in if update_queued then ret s
              else let recv_size = min consumed recv
                   in if nghttp2_should_send_window_update local_size recv_size
                      then if_ok (nghttp2_session_add_window_update e s NGHTTP2_FLAG_NONE i recv_size) (\<lambda>s1.
                             let (consumed, recv) = get s1
                             in rbind (i32 (recv - recv_size)) (\<lambda>recv.
                                rbind (i32 (consumed - recv_size)) (\<lambda>consumed.
                                ret (put s1 (consumed, recv)))))
                      else ret s))"

definition session_update_stream_consumed_size :: "env \<Rightarrow> session \<Rightarrow> nat \<Rightarrow> u32 \<Rightarrow> ses" where
  "session_update_stream_consumed_size e s k delta =
     session_update_consumed_size e s
       (\<lambda>s. (consumed_size (stream_at s k), recv_window_size (stream_at s k)))
       (\<lambda>s (c, r). upd_stream s k (\<lambda>x. x\<lparr>consumed_size := c, recv_window_size := r\<rparr>))
       (window_update_queued (stream_at s k)) (stream_id (stream_at s k)) delta
       (stream.local_window_size (stream_at s k))"

definition session_update_connection_consumed_size :: "env \<Rightarrow> session \<Rightarrow> u32 \<Rightarrow> ses" where
  "session_update_connection_consumed_size e s delta =
     session_update_consumed_size e s (\<lambda>s. (conn_consumed_size s, conn_recv_window_size s))
       (\<lambda>s (c, r). s\<lparr>conn_consumed_size := c, conn_recv_window_size := r\<rparr>)
       (conn_window_update_queued s) 0 delta (conn_local_window_size s)"

definition nghttp2_session_consume :: "env \<Rightarrow> session \<Rightarrow> int \<Rightarrow> u32 \<Rightarrow> ses" where
  "nghttp2_session_consume e s i delta =
     (if i = 0 then fails s NGHTTP2_ERR_INVALID_ARGUMENT
      else if opt_flags s AND NGHTTP2_OPTMASK_NO_AUTO_WINDOW_UPDATE = 0 then fails s NGHTTP2_ERR_INVALID_STATE
      else unless_fatal (session_update_connection_consumed_size e s delta) (\<lambda>s1 _.
           case nghttp2_session_get_stream s1 i of
             None \<Rightarrow> ret s1
           | Some k \<Rightarrow> unless_fatal (session_update_stream_consumed_size e s1 k delta) (\<lambda>s2 _. ret s2)))"

definition nghttp2_session_consume_connection :: "env \<Rightarrow> session \<Rightarrow> u32 \<Rightarrow> ses" where
  "nghttp2_session_consume_connection e s delta =
     (if opt_flags s AND NGHTTP2_OPTMASK_NO_AUTO_WINDOW_UPDATE = 0 then fails s NGHTTP2_ERR_INVALID_STATE
      else unless_fatal (session_update_connection_consumed_size e s delta) (\<lambda>s1 _. ret s1))"

definition nghttp2_session_consume_stream :: "env \<Rightarrow> session \<Rightarrow> int \<Rightarrow> u32 \<Rightarrow> ses" where
  "nghttp2_session_consume_stream e s i delta =
     (if i = 0 then fails s NGHTTP2_ERR_INVALID_ARGUMENT
      else if opt_flags s AND NGHTTP2_OPTMASK_NO_AUTO_WINDOW_UPDATE = 0 then fails s NGHTTP2_ERR_INVALID_STATE
      else case nghttp2_session_get_stream s i of
             None \<Rightarrow> ret s
           | Some k \<Rightarrow> unless_fatal (session_update_stream_consumed_size e s k delta) (\<lambda>s1 _. ret s1))"

section \<open>DATA\<close>

definition session_on_data_received_fail_fast :: "env \<Rightarrow> session \<Rightarrow> int \<Rightarrow> ses" where
  "session_on_data_received_fail_fast e s i =
     (let fail = (\<lambda>code reason. unless_fatal (nghttp2_session_terminate_session_with_reason e s (http2_code code) reason)
            (\<lambda>s1 _. fails s1 NGHTTP2_ERR_IGN_PAYLOAD))
      in if i = 0 then fail NGHTTP2_PROTOCOL_ERROR ''DATA: stream_id == 0''
         else if session_detect_idle_stream s i then fail NGHTTP2_PROTOCOL_ERROR ''DATA: stream in idle''
         else case nghttp2_session_get_stream s i of
                None \<Rightarrow>
                  (case nghttp2_session_get_stream_raw s i of
                     Some k \<Rightarrow> if has (shut_flags (stream_at s k)) NGHTTP2_SHUT_RD
                               then fail NGHTTP2_STREAM_CLOSED ''DATA: stream closed''
                               else fails s NGHTTP2_ERR_IGN_PAYLOAD
                   | None \<Rightarrow> fails s NGHTTP2_ERR_IGN_PAYLOAD)
              | Some k \<Rightarrow>
                  if has (shut_flags (stream_at s k)) NGHTTP2_SHUT_RD
                  then fail NGHTTP2_STREAM_CLOSED ''DATA: stream in half-closed(remote)''
                  else if nghttp2_session_is_my_stream_id s i then
                    (if state (stream_at s k) = NGHTTP2_STREAM_CLOSING then fails s NGHTTP2_ERR_IGN_PAYLOAD
                     else if state (stream_at s k) \<noteq> NGHTTP2_STREAM_OPENED
                     then fail NGHTTP2_PROTOCOL_ERROR ''DATA: stream not opened''
                     else ret s)
                  else if state (stream_at s k) = NGHTTP2_STREAM_RESERVED
                  then fail NGHTTP2_PROTOCOL_ERROR ''DATA: stream in reserved''
                  else if state (stream_at s k) = NGHTTP2_STREAM_CLOSING then fails s NGHTTP2_ERR_IGN_PAYLOAD
                  else ret s)"

definition nghttp2_session_on_data_received :: "env \<Rightarrow> session \<Rightarrow> frame \<Rightarrow> ses" where
  "nghttp2_session_on_data_received e s fr =
     (case nghttp2_session_get_stream s (fr_id fr) of
        None \<Rightarrow> ret s
      | Some k \<Rightarrow>
          if state (stream_at s k) = NGHTTP2_STREAM_CLOSING then ret s
          else if session_enforce_http_messaging s \<and> has (fr_flags fr) NGHTTP2_FLAG_END_STREAM \<and>
                  \<not> nghttp2_http_on_remote_end_stream (stream_at s k)
          then unless_fatal (nghttp2_session_add_rst_stream e s (stream_id (stream_at s k))
                 (http2_code NGHTTP2_PROTOCOL_ERROR)) (\<lambda>s1 _. ret (shut_rd s1 k))
          else unless_fatal (session_call_on_frame_received e s fr) (\<lambda>s1 _.
               if has (fr_flags fr) NGHTTP2_FLAG_END_STREAM
               then unless_fatal (nghttp2_session_close_stream_if_shut_rdwr e (shut_rd s1 k) k) (\<lambda>s2 _. ret s2)
               else ret s1))"

definition session_process_data_frame :: "env \<Rightarrow> session \<Rightarrow> frame \<Rightarrow> ses" where
  "session_process_data_frame e s fr =
     unless_fatal (nghttp2_session_on_data_received e s fr) (\<lambda>s1 _. ret s1)"

section \<open>WINDOW_UPDATE\<close>

definition session_on_connection_window_update_received :: "env \<Rightarrow> session \<Rightarrow> frame \<Rightarrow> int \<Rightarrow> ses" where
  "session_on_connection_window_update_received e s fr increment =
     (if increment = 0 then
        session_handle_invalid_connection e s fr NGHTTP2_ERR_PROTO ''WINDOW_UPDATE: window_size_increment == 0''
      else rbind (i32 (NGHTTP2_MAX_WINDOW_SIZE - increment)) (\<lambda>left_over.
        if left_over < conn_remote_window_size s then
          session_handle_invalid_connection e s fr NGHTTP2_ERR_FLOW_CONTROL []
        else rbind (i32 (conn_remote_window_size s + increment)) (\<lambda>w.
          session_call_on_frame_received e (s\<lparr>conn_remote_window_size := w\<rparr>) fr)))"

definition session_on_stream_window_update_received :: "env \<Rightarrow> session \<Rightarrow> frame \<Rightarrow> int \<Rightarrow> ses" where
  "session_on_stream_window_update_received e s fr increment =
     (if session_detect_idle_stream s (fr_id fr) then
        session_handle_invalid_connection e s fr NGHTTP2_ERR_PROTO ''WINDOW_UPDATE to idle stream''
      else case nghttp2_session_get_stream s (fr_id fr) of
             None \<Rightarrow> ret s
           | Some k \<Rightarrow>
               if state_reserved_remote s k then
                 session_handle_invalid_connection e s fr NGHTTP2_ERR_PROTO ''WINDOW_UPADATE to reserved stream''
               else if increment = 0 then
                 session_handle_invalid_connection e s fr NGHTTP2_ERR_PROTO
                   ''WINDOW_UPDATE: window_size_increment == 0''
               else rbind (i32 (NGHTTP2_MAX_WINDOW_SIZE - increment)) (\<lambda>left_over.
                 if left_over < remote_window_size (stream_at s k) then
                   session_handle_invalid_stream e s fr NGHTTP2_ERR_FLOW_CONTROL
                 else rbind (i32 (remote_window_size (stream_at s k) + increment)) (\<lambda>w.
                   let s = upd_stream s k (\<lambda>x. x\<lparr>remote_window_size := w\<rparr>)
                   in unless_fatal (if w > 0 \<and> nghttp2_stream_check_deferred_by_flow_control (stream_at s k)
                        then session_resume_deferred_stream_item e s k NGHTTP2_STREAM_FLAG_DEFERRED_FLOW_CONTROL
                        else ret s) (\<lambda>s1 _. session_call_on_frame_received e s1 fr))))"

definition nghttp2_session_on_window_update_received :: "env \<Rightarrow> session \<Rightarrow> frame \<Rightarrow> int \<Rightarrow> ses" where
  "nghttp2_session_on_window_update_received e s fr increment =
     (if fr_id fr = 0 then session_on_connection_window_update_received e s fr increment
      else session_on_stream_window_update_received e s fr increment)"

section \<open>SETTINGS\<close>

definition update_remote_initial_window_size_func :: "env \<Rightarrow> int \<Rightarrow> int \<Rightarrow> nat \<Rightarrow> session \<Rightarrow> ses" where
  "update_remote_initial_window_size_func e new_size old_size k s =
     (case nghttp2_stream_update_remote_initial_window_size (stream_at s k) new_size old_size of
        None \<Rightarrow> nghttp2_session_add_rst_stream e s (stream_id (stream_at s k)) (http2_code NGHTTP2_FLOW_CONTROL_ERROR)
      | Some x \<Rightarrow>
          let s = upd_stream s k (\<lambda>_. x)
          in if remote_window_size x > 0 \<and> nghttp2_stream_check_deferred_by_flow_control x
             then unless_fatal (session_resume_deferred_stream_item e s k NGHTTP2_STREAM_FLAG_DEFERRED_FLOW_CONTROL)
                    (\<lambda>s1 _. ret s1)
             else ret s)"

definition session_update_remote_initial_window_size :: "env \<Rightarrow> session \<Rightarrow> int \<Rightarrow> ses" where
  "session_update_remote_initial_window_size e s new_size =
     each_stream s (update_remote_initial_window_size_func e new_size
       (sint (initial_window_size (remote_settings s))))"

definition update_local_initial_window_size_func :: "env \<Rightarrow> int \<Rightarrow> int \<Rightarrow> nat \<Rightarrow> session \<Rightarrow> ses" where
  "update_local_initial_window_size_func e new_size old_size k s =
     (case nghttp2_stream_update_local_initial_window_size (stream_at s k) new_size old_size of
        None \<Rightarrow> nghttp2_session_add_rst_stream e s (stream_id (stream_at s k)) (http2_code NGHTTP2_FLOW_CONTROL_ERROR)
      | Some x \<Rightarrow>
          let s = upd_stream s k (\<lambda>_. x)
          in if window_update_queued x then ret s
             else if has (opt_flags s) NGHTTP2_OPTMASK_NO_AUTO_WINDOW_UPDATE
             then session_update_stream_consumed_size e s k 0
             else if nghttp2_should_send_window_update (stream.local_window_size x) (recv_window_size x)
             then if_ok (nghttp2_session_add_window_update e s NGHTTP2_FLAG_NONE (stream_id x) (recv_window_size x))
                    (\<lambda>s1. ret (upd_stream s1 k (\<lambda>x. x\<lparr>recv_window_size := 0\<rparr>)))
             else ret s)"

definition session_update_local_initial_window_size :: "env \<Rightarrow> session \<Rightarrow> int \<Rightarrow> int \<Rightarrow> ses" where
  "session_update_local_initial_window_size e s new_size old_size =
     each_stream s (update_local_initial_window_size_func e new_size old_size)"

definition set_local_setting :: "settings_storage \<Rightarrow> settings_entry \<Rightarrow> settings_storage" where
  "set_local_setting st x =
     (let i = settings_id x; v = settings_value x
      in if i = NGHTTP2_SETTINGS_HEADER_TABLE_SIZE then st\<lparr>header_table_size := v\<rparr>
         else if i = NGHTTP2_SETTINGS_ENABLE_PUSH then st\<lparr>enable_push := v\<rparr>
         else if i = NGHTTP2_SETTINGS_MAX_CONCURRENT_STREAMS then st\<lparr>max_concurrent_streams := v\<rparr>
         else if i = NGHTTP2_SETTINGS_INITIAL_WINDOW_SIZE then st\<lparr>initial_window_size := v\<rparr>
         else if i = NGHTTP2_SETTINGS_MAX_FRAME_SIZE then st\<lparr>max_frame_size := v\<rparr>
         else if i = NGHTTP2_SETTINGS_MAX_HEADER_LIST_SIZE then st\<lparr>max_header_list_size := v\<rparr>
         else if i = NGHTTP2_SETTINGS_ENABLE_CONNECT_PROTOCOL then st\<lparr>enable_connect_protocol := v\<rparr>
         else if i = NGHTTP2_SETTINGS_NO_RFC7540_PRIORITIES then st\<lparr>no_rfc7540_priorities := v\<rparr>
         else st)"

definition table_sizes :: "settings_entry list \<Rightarrow> u32 list" where
  "table_sizes iv = map settings_value (filter (\<lambda>x. settings_id x = NGHTTP2_SETTINGS_HEADER_TABLE_SIZE) iv)"

definition resize_inflater :: "session \<Rightarrow> u32 \<Rightarrow> ses" where
  "resize_inflater s n =
     (case nghttp2_hd_inflate_change_table_size (hd_inflater s) n of
        Inr i \<Rightarrow> ret (s\<lparr>hd_inflater := i\<rparr>)
      | Inl (Code c) \<Rightarrow> fails s c
      | Inl Assert_failed \<Rightarrow> Inl Assert_failed
      | Inl Undefined \<Rightarrow> Inl Undefined)"

definition nghttp2_session_update_local_settings :: "env \<Rightarrow> session \<Rightarrow> settings_entry list \<Rightarrow> ses" where
  "nghttp2_session_update_local_settings e s iv =
     (let sizes = table_sizes iv; smallest = fold min sizes 0xffffffff;
          new_window = (case last_setting NGHTTP2_SETTINGS_INITIAL_WINDOW_SIZE iv of Some v \<Rightarrow> sint v | None \<Rightarrow> - 1)
      in if_ok (if sizes = [] then ret s
                else if_ok (if smallest < last sizes then resize_inflater s smallest else ret s) (\<lambda>s1.
                  resize_inflater s1 (last sizes))) (\<lambda>s1.
         if_ok (if new_window \<noteq> - 1
                then session_update_local_initial_window_size e s1 new_window
                       (sint (initial_window_size (local_settings s1)))
                else ret s1) (\<lambda>s2.
         ret (s2\<lparr>local_settings := foldl set_local_setting (local_settings s2) iv\<rparr>))))"

definition apply_remote_setting :: "env \<Rightarrow> session \<Rightarrow> frame \<Rightarrow> settings_entry \<Rightarrow> (session \<times> bool \<times> nghttp2_error option) res" where
  "apply_remote_setting e s fr x =
     (let i = settings_id x; v = settings_value x;
          going = (\<lambda>f. Inr (s\<lparr>remote_settings := f (remote_settings s)\<rparr>, True, None));
          refuse = (\<lambda>s lib reason. rbind (session_handle_invalid_connection e s fr lib reason) (\<lambda>(s1, rv). Inr (s1, False, rv)))
      in if i = NGHTTP2_SETTINGS_HEADER_TABLE_SIZE then
           (case nghttp2_hd_deflate_change_table_size (hd_deflater s) v of
              Inr d \<Rightarrow> Inr (s\<lparr>hd_deflater := d, remote_settings := (remote_settings s)\<lparr>header_table_size := v\<rparr>\<rparr>, True, None)
            | Inl (Code c) \<Rightarrow>
                if fatal (Some c) then Inr (s, False, Some c) else refuse s NGHTTP2_ERR_HEADER_COMP []
            | Inl Assert_failed \<Rightarrow> Inl Assert_failed
            | Inl Undefined \<Rightarrow> Inl Undefined)
         else if i = NGHTTP2_SETTINGS_ENABLE_PUSH then
           (if v \<noteq> 0 \<and> v \<noteq> 1 then refuse s NGHTTP2_ERR_PROTO ''SETTINGS: invalid SETTINGS_ENBLE_PUSH''
            else if \<not> server s \<and> v \<noteq> 0 then refuse s NGHTTP2_ERR_PROTO ''SETTINGS: server attempted to enable push''
            else going (\<lambda>st. st\<lparr>enable_push := v\<rparr>))
         else if i = NGHTTP2_SETTINGS_MAX_CONCURRENT_STREAMS then going (\<lambda>st. st\<lparr>max_concurrent_streams := v\<rparr>)
         else if i = NGHTTP2_SETTINGS_INITIAL_WINDOW_SIZE then
           (if v > word_of_int NGHTTP2_MAX_WINDOW_SIZE then
              refuse s NGHTTP2_ERR_FLOW_CONTROL ''SETTINGS: too large SETTINGS_INITIAL_WINDOW_SIZE''
            else rbind (session_update_remote_initial_window_size e s (sint v)) (\<lambda>(s1, rv).
              if fatal rv then Inr (s1, False, rv)
              else if rv \<noteq> None then refuse s1 NGHTTP2_ERR_FLOW_CONTROL []
              else Inr (s1\<lparr>remote_settings := (remote_settings s1)\<lparr>initial_window_size := v\<rparr>\<rparr>, True, None)))
         else if i = NGHTTP2_SETTINGS_MAX_FRAME_SIZE then
           (if v < 16384 \<or> v > 16777215 then refuse s NGHTTP2_ERR_PROTO ''SETTINGS: invalid SETTINGS_MAX_FRAME_SIZE''
            else going (\<lambda>st. st\<lparr>max_frame_size := v\<rparr>))
         else if i = NGHTTP2_SETTINGS_MAX_HEADER_LIST_SIZE then going (\<lambda>st. st\<lparr>max_header_list_size := v\<rparr>)
         else if i = NGHTTP2_SETTINGS_ENABLE_CONNECT_PROTOCOL then
           (if v \<noteq> 0 \<and> v \<noteq> 1 then
              refuse s NGHTTP2_ERR_PROTO ''SETTINGS: invalid SETTINGS_ENABLE_CONNECT_PROTOCOL''
            else if \<not> server s \<and> enable_connect_protocol (remote_settings s) \<noteq> 0 \<and> v = 0 then
              refuse s NGHTTP2_ERR_PROTO ''SETTINGS: server attempted to disable SETTINGS_ENABLE_CONNECT_PROTOCOL''
            else going (\<lambda>st. st\<lparr>enable_connect_protocol := v\<rparr>))
         else if i = NGHTTP2_SETTINGS_NO_RFC7540_PRIORITIES then
           (if v \<noteq> 0 \<and> v \<noteq> 1 then
              refuse s NGHTTP2_ERR_PROTO ''SETTINGS: invalid SETTINGS_NO_RFC7540_PRIORITIES''
            else if no_rfc7540_priorities (remote_settings s) \<noteq> 0xffffffff \<and>
                    no_rfc7540_priorities (remote_settings s) \<noteq> v then
              refuse s NGHTTP2_ERR_PROTO ''SETTINGS: SETTINGS_NO_RFC7540_PRIORITIES cannot be changed''
            else going (\<lambda>st. st\<lparr>no_rfc7540_priorities := v\<rparr>))
         else Inr (s, True, None))"

fun apply_remote_settings :: "env \<Rightarrow> session \<Rightarrow> frame \<Rightarrow> settings_entry list \<Rightarrow> (session \<times> bool \<times> nghttp2_error option) res" where
  "apply_remote_settings e s fr [] = Inr (s, True, None)"
| "apply_remote_settings e s fr (x # iv) =
     rbind (apply_remote_setting e s fr x) (\<lambda>(s1, go, rv).
     if go then apply_remote_settings e s1 fr iv else Inr (s1, False, rv))"

definition on_settings_ack :: "env \<Rightarrow> session \<Rightarrow> frame \<Rightarrow> settings_entry list \<Rightarrow> ses" where
  "on_settings_ack e s fr iv =
     (if iv \<noteq> [] then
        session_handle_invalid_connection e s fr NGHTTP2_ERR_FRAME_SIZE_ERROR ''SETTINGS: ACK and payload != 0''
      else case inflight_settings s of
             [] \<Rightarrow> session_handle_invalid_connection e s fr NGHTTP2_ERR_PROTO ''SETTINGS: unexpected ACK''
           | sent # later \<Rightarrow>
               rbind (nghttp2_session_update_local_settings e s sent) (\<lambda>(s1, rv).
               let s2 = s1\<lparr>inflight_settings := later\<rparr>
               in case rv of
                    None \<Rightarrow> session_call_on_frame_received e s2 fr
                  | Some c \<Rightarrow> if fatal rv then fails s2 c else session_handle_invalid_connection e s2 fr c []))"

definition nghttp2_session_on_settings_received :: "env \<Rightarrow> session \<Rightarrow> frame \<Rightarrow> settings_entry list \<Rightarrow> bool \<Rightarrow> ses" where
  "nghttp2_session_on_settings_received e s fr iv noack =
     (if fr_id fr \<noteq> 0 then
        session_handle_invalid_connection e s fr NGHTTP2_ERR_PROTO ''SETTINGS: stream_id != 0''
      else if has (fr_flags fr) NGHTTP2_FLAG_ACK then on_settings_ack e s fr iv
      else let s = (if remote_settings_received s then s
             else s\<lparr>remote_settings := (remote_settings s)\<lparr>max_concurrent_streams :=
                      NGHTTP2_DEFAULT_MAX_CONCURRENT_STREAMS\<rparr>, remote_settings_received := True\<rparr>)
      in rbind (apply_remote_settings e s fr iv) (\<lambda>(s1, go, rv).
         if \<not> go then Inr (s1, rv)
         else let s2 = (if no_rfc7540_priorities (remote_settings s1) = 0xffffffff then
                let s' = s1\<lparr>remote_settings := (remote_settings s1)\<lparr>no_rfc7540_priorities := 0\<rparr>\<rparr>
                in if server s' \<and> pending_no_rfc7540_priorities s' \<noteq> 0 \<and>
                      has (opt_flags s') NGHTTP2_OPTMASK_SERVER_FALLBACK_RFC7540_PRIORITIES
                   then s'\<lparr>fallback_rfc7540_priorities := True\<rparr> else s' else s1)
         in rbind (if \<not> noack \<and> \<not> session_is_closing s2
                   then nghttp2_session_add_settings e s2 NGHTTP2_FLAG_ACK [] else ret s2) (\<lambda>(s3, rv).
            case rv of
              None \<Rightarrow> session_call_on_frame_received e s3 fr
            | Some c \<Rightarrow> if fatal rv then fails s3 c
                        else session_handle_invalid_connection e s3 fr NGHTTP2_ERR_INTERNAL [])))"

section \<open>Extension frames\<close>

definition nghttp2_session_on_altsvc_received :: "env \<Rightarrow> session \<Rightarrow> frame \<Rightarrow> bytes \<Rightarrow> bytes \<Rightarrow> ses" where
  "nghttp2_session_on_altsvc_received e s fr origin field_value =
     (let invalid = session_call_on_invalid_frame_recv_callback e s fr NGHTTP2_ERR_PROTO;
          finish = (if field_value = [] then invalid else session_call_on_frame_received e s fr)
      in if fr_id fr = 0 then (if origin = [] then invalid else finish)
         else if origin \<noteq> [] then invalid
         else case nghttp2_session_get_stream s (fr_id fr) of
                None \<Rightarrow> ret s
              | Some k \<Rightarrow> if state (stream_at s k) = NGHTTP2_STREAM_CLOSING then ret s else finish)"

definition nghttp2_session_on_origin_received :: "env \<Rightarrow> session \<Rightarrow> frame \<Rightarrow> ses" where
  "nghttp2_session_on_origin_received e s fr = session_call_on_frame_received e s fr"

definition nghttp2_session_on_priority_update_received :: "env \<Rightarrow> session \<Rightarrow> frame \<Rightarrow> int \<Rightarrow> bytes \<Rightarrow> ses" where
  "nghttp2_session_on_priority_update_received e s fr i field_value =
     (let received = session_call_on_frame_received e s fr;
          update = (\<lambda>s k. case nghttp2_http_parse_priority \<lparr>urgency = NGHTTP2_EXTPRI_DEFAULT_URGENCY, inc = 0\<rparr> field_value of
              (pri, Inr _) \<Rightarrow>
                unless_fatal (session_update_stream_priority e s k (nghttp2_extpri_to_uint8 pri)) (\<lambda>s1 _.
                  session_call_on_frame_received e s1 fr)
            | (_, Inl (Code _)) \<Rightarrow> session_call_on_frame_received e s fr
            | (_, Inl Assert_failed) \<Rightarrow> Inl Assert_failed
            | (_, Inl Undefined) \<Rightarrow> Inl Undefined)
      in rbind (assert_that (server s)) (\<lambda>_.
         if fr_id fr \<noteq> 0 then
           session_handle_invalid_connection e s fr NGHTTP2_ERR_PROTO ''PRIORITY_UPDATE: stream_id == 0''
         else if nghttp2_session_is_my_stream_id s i then
           (if session_detect_idle_stream s i then
              session_handle_invalid_connection e s fr NGHTTP2_ERR_PROTO
                ''PRIORITY_UPDATE: prioritizing idle push is not allowed''
            else received)
         else case nghttp2_session_get_stream_raw s i of
                Some k \<Rightarrow>
                  if has (flags (stream_at s k)) NGHTTP2_STREAM_FLAG_IGNORE_CLIENT_PRIORITIES then received
                  else update s k
              | None \<Rightarrow>
                  if session_detect_idle_stream s i then
                    (if num_idle_streams s + num_incoming_streams s \<ge> max_concurrent_streams (local_settings s) then
                       session_handle_invalid_connection e s fr NGHTTP2_ERR_PROTO
                         ''PRIORITY_UPDATE: max concurrent streams exceeded''
                     else rbind (nghttp2_session_open_stream e s i NGHTTP2_FLAG_NONE
                            nghttp2_priority_spec_default_init NGHTTP2_STREAM_IDLE 0) (\<lambda>(s1, opened).
                       if \<not> opened then fails s1 NGHTTP2_ERR_NOMEM else update s1 (nat i)))
                  else received))"

end
