(* ===== verification/SessSend.thy ===== *)
theory SessSend
  imports SessFlow
begin

text \<open>
  What a connection may send, in which order, and what it does once a frame is sent; the functions of
  \<open>nghttp2_submit.c\<close> that applications use to queue frames.
\<close>

section \<open>Whether a frame may be sent\<close>

text \<open>The code of a frame that must not be sent, or nothing. Streams are \<open>None\<close> when they do not exist.\<close>

definition session_predicate_for_stream_send :: "session \<Rightarrow> nat option \<Rightarrow> nghttp2_error option" where
  "session_predicate_for_stream_send s stream =
     (case stream of
        None \<Rightarrow> Some NGHTTP2_ERR_STREAM_CLOSED
      | Some k \<Rightarrow>
          if session_is_closing s then Some NGHTTP2_ERR_SESSION_CLOSING
          else if has (shut_flags (stream_at s k)) NGHTTP2_SHUT_WR then Some NGHTTP2_ERR_STREAM_SHUT_WR
          else None)"

definition session_predicate_request_headers_send :: "session \<Rightarrow> outbound_item \<Rightarrow> nghttp2_error option" where
  "session_predicate_request_headers_send s oi =
     (if aux_canceled oi then Some NGHTTP2_ERR_STREAM_CLOSING
      else if has (goaway_flags s) NGHTTP2_GOAWAY_RECV \<or> session_is_closing s
      then Some NGHTTP2_ERR_START_STREAM_NOT_ALLOWED else None)"

text \<open>The check of \<open>session_predicate_for_stream_send\<close> first; the stream exists when it is passed.\<close>

definition when_sendable ::
  "session \<Rightarrow> nat option \<Rightarrow> (stream \<Rightarrow> nghttp2_error option) \<Rightarrow> nghttp2_error option" where
  "when_sendable s stream f =
     (case session_predicate_for_stream_send s stream of
        Some c \<Rightarrow> Some c
      | None \<Rightarrow> f (stream_at s (the stream)))"

definition session_predicate_response_headers_send :: "session \<Rightarrow> nat option \<Rightarrow> nghttp2_error option" where
  "session_predicate_response_headers_send s stream = when_sendable s stream (\<lambda>x.
     if \<not> server s then Some NGHTTP2_ERR_PROTO
     else if nghttp2_session_is_my_stream_id s (stream_id x) then Some NGHTTP2_ERR_INVALID_STREAM_ID
     else case state x of
            NGHTTP2_STREAM_OPENING \<Rightarrow> None
          | NGHTTP2_STREAM_CLOSING \<Rightarrow> Some NGHTTP2_ERR_STREAM_CLOSING
          | _ \<Rightarrow> Some NGHTTP2_ERR_INVALID_STREAM_STATE)"

definition session_predicate_push_response_headers_send :: "session \<Rightarrow> nat option \<Rightarrow> nghttp2_error option" where
  "session_predicate_push_response_headers_send s stream = when_sendable s stream (\<lambda>x.
     if \<not> server s then Some NGHTTP2_ERR_PROTO
     else if state x \<noteq> NGHTTP2_STREAM_RESERVED then Some NGHTTP2_ERR_PROTO
     else if has (goaway_flags s) NGHTTP2_GOAWAY_RECV then Some NGHTTP2_ERR_START_STREAM_NOT_ALLOWED
     else None)"

definition session_predicate_headers_send :: "session \<Rightarrow> nat option \<Rightarrow> nghttp2_error option" where
  "session_predicate_headers_send s stream = when_sendable s stream (\<lambda>x.
     case state x of
       NGHTTP2_STREAM_OPENED \<Rightarrow> None
     | NGHTTP2_STREAM_CLOSING \<Rightarrow> Some NGHTTP2_ERR_STREAM_CLOSING
     | _ \<Rightarrow> if nghttp2_session_is_my_stream_id s (stream_id x) then None
            else Some NGHTTP2_ERR_INVALID_STREAM_STATE)"

definition session_predicate_push_promise_send :: "session \<Rightarrow> nat option \<Rightarrow> nghttp2_error option" where
  "session_predicate_push_promise_send s stream =
     (if \<not> server s then Some NGHTTP2_ERR_PROTO
      else when_sendable s stream (\<lambda>x.
        if enable_push (remote_settings s) = 0 then Some NGHTTP2_ERR_PUSH_DISABLED
        else if state x = NGHTTP2_STREAM_CLOSING then Some NGHTTP2_ERR_STREAM_CLOSING
        else if has (goaway_flags s) NGHTTP2_GOAWAY_RECV then Some NGHTTP2_ERR_START_STREAM_NOT_ALLOWED
        else None))"

definition session_predicate_window_update_send :: "session \<Rightarrow> int \<Rightarrow> nghttp2_error option" where
  "session_predicate_window_update_send s i =
     (if session_is_closing s then Some NGHTTP2_ERR_SESSION_CLOSING
      else if i = 0 then None
      else case nghttp2_session_get_stream s i of
             None \<Rightarrow> Some NGHTTP2_ERR_STREAM_CLOSED
           | Some k \<Rightarrow>
               if state (stream_at s k) = NGHTTP2_STREAM_CLOSING then Some NGHTTP2_ERR_STREAM_CLOSING
               else if state_reserved_local s k then Some NGHTTP2_ERR_INVALID_STREAM_STATE
               else None)"

definition session_predicate_altsvc_send :: "session \<Rightarrow> int \<Rightarrow> nghttp2_error option" where
  "session_predicate_altsvc_send s i =
     (if session_is_closing s then Some NGHTTP2_ERR_SESSION_CLOSING
      else if i = 0 then None
      else case nghttp2_session_get_stream s i of
             None \<Rightarrow> Some NGHTTP2_ERR_STREAM_CLOSED
           | Some k \<Rightarrow>
               if state (stream_at s k) = NGHTTP2_STREAM_CLOSING then Some NGHTTP2_ERR_STREAM_CLOSING else None)"

definition session_predicate_origin_send :: "session \<Rightarrow> nghttp2_error option" where
  "session_predicate_origin_send s = (if session_is_closing s then Some NGHTTP2_ERR_SESSION_CLOSING else None)"

definition session_predicate_priority_update_send :: "session \<Rightarrow> int \<Rightarrow> nghttp2_error option" where
  "session_predicate_priority_update_send s i =
     (if session_is_closing s then Some NGHTTP2_ERR_SESSION_CLOSING
      else case nghttp2_session_get_stream s i of
             None \<Rightarrow> None
           | Some k \<Rightarrow>
               if state (stream_at s k) = NGHTTP2_STREAM_CLOSING then Some NGHTTP2_ERR_STREAM_CLOSING
               else if has (shut_flags (stream_at s k)) NGHTTP2_SHUT_RD then Some NGHTTP2_ERR_INVALID_STREAM_STATE
               else None)"

definition nghttp2_session_predicate_data_send :: "session \<Rightarrow> nat option \<Rightarrow> nghttp2_error option" where
  "nghttp2_session_predicate_data_send s stream = when_sendable s stream (\<lambda>x.
     if nghttp2_session_is_my_stream_id s (stream_id x) then
       (if state x = NGHTTP2_STREAM_CLOSING then Some NGHTTP2_ERR_STREAM_CLOSING
        else if state x = NGHTTP2_STREAM_RESERVED then Some NGHTTP2_ERR_INVALID_STREAM_STATE
        else None)
     else if state x = NGHTTP2_STREAM_OPENED then None
     else if state x = NGHTTP2_STREAM_CLOSING then Some NGHTTP2_ERR_STREAM_CLOSING
     else Some NGHTTP2_ERR_INVALID_STREAM_STATE)"

section \<open>How much data may be sent\<close>

definition NGHTTP2_DATA_PAYLOADLEN :: int where "NGHTTP2_DATA_PAYLOADLEN = 16384"

definition nghttp2_session_enforce_flow_control_limits :: "session \<Rightarrow> nat \<Rightarrow> int \<Rightarrow> int" where
  "nghttp2_session_enforce_flow_control_limits s k requested =
     min (min (min requested (remote_window_size (stream_at s k))) (conn_remote_window_size s))
       (sint (max_frame_size (remote_settings s)))"

definition nghttp2_session_next_data_read :: "session \<Rightarrow> nat \<Rightarrow> nat" where
  "nghttp2_session_next_data_read s k =
     (let window_size = nghttp2_session_enforce_flow_control_limits s k NGHTTP2_DATA_PAYLOADLEN
      in if window_size > 0 then nat window_size else 0)"

section \<open>The next item\<close>

definition next_data_item :: "session \<Rightarrow> (session \<times> nat option) res" where
  "next_data_item s =
     (if conn_remote_window_size s > 0 then
        rbind (nghttp2_stream_next_outbound_item (rounds s) (tree s) 0) (\<lambda>(t, r).
        let s1 = s\<lparr>tree := t\<rparr>
        in Inr (s1, case r of Some it \<Rightarrow> Some it | None \<Rightarrow> session_sched_get_next_outbound_item s1))
      else Inr (s, None))"

definition nghttp2_session_get_next_ob_item :: "session \<Rightarrow> (session \<times> nat option) res" where
  "nghttp2_session_get_next_ob_item s =
     (if ob_urgent s \<noteq> [] then Inr (s, Some (hd (ob_urgent s)))
      else if ob_reg s \<noteq> [] then Inr (s, Some (hd (ob_reg s)))
      else if \<not> session_is_outgoing_concurrent_streams_max s \<and> ob_syn s \<noteq> [] then Inr (s, Some (hd (ob_syn s)))
      else next_data_item s)"

definition unqueue :: "session \<Rightarrow> nat \<Rightarrow> session" where
  "unqueue s it = s\<lparr>items := (items s)(it := (items s it)\<lparr>oi_queued := False\<rparr>)\<rparr>"

definition nghttp2_session_pop_next_ob_item :: "session \<Rightarrow> (session \<times> nat option) res" where
  "nghttp2_session_pop_next_ob_item s =
     (case ob_urgent s of
        it # rest \<Rightarrow> Inr (unqueue (s\<lparr>ob_urgent := rest\<rparr>) it, Some it)
      | [] \<Rightarrow>
          (case ob_reg s of
             it # rest \<Rightarrow> Inr (unqueue (s\<lparr>ob_reg := rest\<rparr>) it, Some it)
           | [] \<Rightarrow>
               (case ob_syn s of
                  it # rest \<Rightarrow>
                    if session_is_outgoing_concurrent_streams_max s then next_data_item s
                    else Inr (unqueue (s\<lparr>ob_syn := rest\<rparr>) it, Some it)
                | [] \<Rightarrow> next_data_item s)))"

definition session_reschedule_stream :: "env \<Rightarrow> session \<Rightarrow> nat \<Rightarrow> ses" where
  "session_reschedule_stream e s k =
     (case item (stream_at s k) of
        None \<Rightarrow> Inl Undefined
      | Some it \<Rightarrow>
          let s1 = upd_stream s k (\<lambda>x. x\<lparr>last_writelen := fr_length (oi_frame (items s it))\<rparr>)
          in if in_tree (stream_at s1 k) then on_tree' s1 (nghttp2_stream_reschedule (alloc e) (rounds s1) (tree s1) k)
             else if \<not> server s1 then ret s1
             else session_sched_reschedule_stream e s1 k)"

section \<open>Submitting frames\<close>

definition NGHTTP2_NV_FLAG_NO_COPY_NAME :: u8 where "NGHTTP2_NV_FLAG_NO_COPY_NAME = 0x02"
definition NGHTTP2_NV_FLAG_NO_COPY_VALUE :: u8 where "NGHTTP2_NV_FLAG_NO_COPY_VALUE = 0x04"
definition sizeof_nv :: nat where "sizeof_nv = 20"

definition nv_copy_size :: "nghttp2_nv \<Rightarrow> nat" where
  "nv_copy_size nv =
     (if has (nva_flags nv) NGHTTP2_NV_FLAG_NO_COPY_NAME then 0 else length (nva_name nv) + 1) +
     (if has (nva_flags nv) NGHTTP2_NV_FLAG_NO_COPY_VALUE then 0 else length (nva_value nv) + 1)"

definition copy_nv :: "nghttp2_nv \<Rightarrow> nghttp2_nv res" where
  "copy_nv nv =
     (if has (nva_flags nv) NGHTTP2_NV_FLAG_NO_COPY_NAME then Inr nv
      else rbind (nghttp2_downcase (nva_name nv) (length (nva_name nv))) (\<lambda>name. Inr (nv\<lparr>nva_name := name\<rparr>)))"

fun copy_nvs :: "nghttp2_nv list \<Rightarrow> nghttp2_nv list res" where
  "copy_nvs [] = Inr []"
| "copy_nvs (nv # nva) = rbind (copy_nv nv) (\<lambda>nv'. rbind (copy_nvs nva) (\<lambda>nva'. Inr (nv' # nva')))"

definition nghttp2_nv_array_copy :: "env \<Rightarrow> nghttp2_nv list \<Rightarrow> nghttp2_nv list option res" where
  "nghttp2_nv_array_copy e nva =
     (if nva = [] then Inr (Some [])
      else if \<not> alloc e ((sum_list (map nv_copy_size nva) + sizeof_nv * length nva) mod 2 ^ 32) then Inr None
      else rbind (copy_nvs nva) (\<lambda>nva'. Inr (Some nva')))"

definition detect_self_dependency :: "session \<Rightarrow> int \<Rightarrow> priority_spec \<Rightarrow> bool" where
  "detect_self_dependency s i ps \<longleftrightarrow>
     (if i = - 1 then sint (next_stream_id s) = stream_of_spec ps else i = stream_of_spec ps)"

text \<open>The functions that take an identifier for a new stream return it; the others return 0.\<close>

type_synonym submitted = "(session \<times> (nghttp2_error + int)) res"

definition submit_headers_shared ::
  "env \<Rightarrow> session \<Rightarrow> u8 \<Rightarrow> int \<Rightarrow> priority_spec \<Rightarrow> nghttp2_nv list \<Rightarrow> bool \<Rightarrow> nat \<Rightarrow> submitted" where
  "submit_headers_shared e s fl i ps nva data_prd user_data =
     (if \<not> alloc e (sizeof_item e) then Inr (s, Inl NGHTTP2_ERR_NOMEM)
      else if i = - 1 \<and> next_stream_id s > 0x7fffffff then Inr (s, Inl NGHTTP2_ERR_STREAM_ID_NOT_AVAILABLE)
      else let fl' = (fl AND (NGHTTP2_FLAG_END_STREAM OR NGHTTP2_FLAG_PRIORITY)) OR NGHTTP2_FLAG_END_HEADERS;
               new = (i = - 1);
               i' = (if new then sint (next_stream_id s) else i);
               s1 = (if new then s\<lparr>next_stream_id := next_stream_id s + 2\<rparr> else s);
               cat = (if new then NGHTTP2_HCAT_REQUEST else NGHTTP2_HCAT_HEADERS)
           in rbind (submit_item e s1 ((nghttp2_outbound_item_init (nghttp2_frame_headers_init fl' i' cat (Some ps) nva))
                \<lparr>aux_data_prd := data_prd, aux_user_data := user_data\<rparr>)) (\<lambda>(s2, rv).
              Inr (s2, case rv of Some c \<Rightarrow> Inl c | None \<Rightarrow> Inr (if new then i' else 0))))"

definition submit_headers_shared_nva ::
  "env \<Rightarrow> session \<Rightarrow> u8 \<Rightarrow> int \<Rightarrow> priority_spec option \<Rightarrow> nghttp2_nv list \<Rightarrow> bool \<Rightarrow> nat \<Rightarrow> submitted" where
  "submit_headers_shared_nva e s fl i ps nva data_prd user_data =
     (let ps' = (case ps of Some p \<Rightarrow> nghttp2_priority_spec_normalize_weight p
                 | None \<Rightarrow> nghttp2_priority_spec_default_init)
      in rbind (nghttp2_nv_array_copy e nva) (\<lambda>r. case r of
           None \<Rightarrow> Inr (s, Inl NGHTTP2_ERR_NOMEM)
         | Some nva' \<Rightarrow> submit_headers_shared e s fl i ps' nva' data_prd user_data))"

definition nghttp2_submit_trailer :: "env \<Rightarrow> session \<Rightarrow> int \<Rightarrow> nghttp2_nv list \<Rightarrow> submitted" where
  "nghttp2_submit_trailer e s i nva =
     (if i \<le> 0 then Inr (s, Inl NGHTTP2_ERR_INVALID_ARGUMENT)
      else submit_headers_shared_nva e s NGHTTP2_FLAG_END_STREAM i None nva False 0)"

text \<open>A priority is sent along only when it is not the default and the peer has not switched priorities off.\<close>

definition usable_spec :: "session \<Rightarrow> priority_spec option \<Rightarrow> priority_spec option" where
  "usable_spec s ps =
     (case ps of
        None \<Rightarrow> None
      | Some p \<Rightarrow> if \<not> nghttp2_priority_spec_check_default p \<and> no_rfc7540_priorities (remote_settings s) \<noteq> 1
                  then Some p else None)"

definition nghttp2_submit_headers ::
  "env \<Rightarrow> session \<Rightarrow> u8 \<Rightarrow> int \<Rightarrow> priority_spec option \<Rightarrow> nghttp2_nv list \<Rightarrow> nat \<Rightarrow> submitted" where
  "nghttp2_submit_headers e s fl i ps nva user_data =
     (if i = - 1 \<and> server s then Inr (s, Inl NGHTTP2_ERR_PROTO)
      else if i \<noteq> - 1 \<and> i \<le> 0 then Inr (s, Inl NGHTTP2_ERR_INVALID_ARGUMENT)
      else let fl = fl AND NGHTTP2_FLAG_END_STREAM
      in case usable_spec s ps of
           Some p \<Rightarrow>
             if detect_self_dependency s i p then Inr (s, Inl NGHTTP2_ERR_INVALID_ARGUMENT)
             else submit_headers_shared_nva e s (fl OR NGHTTP2_FLAG_PRIORITY) i (Some p) nva False user_data
         | None \<Rightarrow> submit_headers_shared_nva e s fl i None nva False user_data)"

definition nghttp2_submit_ping :: "env \<Rightarrow> session \<Rightarrow> u8 \<Rightarrow> bytes option \<Rightarrow> ses" where
  "nghttp2_submit_ping e s fl opaque = nghttp2_session_add_ping e s (fl AND NGHTTP2_FLAG_ACK) opaque"

definition nghttp2_submit_priority :: "env \<Rightarrow> session \<Rightarrow> int \<Rightarrow> priority_spec option \<Rightarrow> ses" where
  "nghttp2_submit_priority e s i ps =
     (if no_rfc7540_priorities (remote_settings s) = 1 then ret s
      else case ps of
             None \<Rightarrow> fails s NGHTTP2_ERR_INVALID_ARGUMENT
           | Some p \<Rightarrow>
               if i = 0 \<or> i = stream_of_spec p then fails s NGHTTP2_ERR_INVALID_ARGUMENT
               else submit_new e s (nghttp2_frame_priority_init i (nghttp2_priority_spec_normalize_weight p)))"

definition nghttp2_submit_rst_stream :: "env \<Rightarrow> session \<Rightarrow> int \<Rightarrow> u32 \<Rightarrow> ses" where
  "nghttp2_submit_rst_stream e s i code =
     (if i = 0 then fails s NGHTTP2_ERR_INVALID_ARGUMENT else nghttp2_session_add_rst_stream e s i code)"

definition nghttp2_submit_goaway :: "env \<Rightarrow> session \<Rightarrow> int \<Rightarrow> u32 \<Rightarrow> bytes \<Rightarrow> ses" where
  "nghttp2_submit_goaway e s last_id code opaque =
     (if has (goaway_flags s) NGHTTP2_GOAWAY_TERM_ON_SEND then ret s
      else nghttp2_session_add_goaway e s last_id code opaque 0)"

definition NGHTTP2_GOAWAY_AUX_SHUTDOWN_NOTICE :: u8 where "NGHTTP2_GOAWAY_AUX_SHUTDOWN_NOTICE = 0x02"

definition nghttp2_submit_shutdown_notice :: "env \<Rightarrow> session \<Rightarrow> ses" where
  "nghttp2_submit_shutdown_notice e s =
     (if \<not> server s then fails s NGHTTP2_ERR_INVALID_STATE
      else if goaway_flags s \<noteq> 0 then ret s
      else nghttp2_session_add_goaway e s 2147483647 (http2_code NGHTTP2_NO_ERROR) []
             NGHTTP2_GOAWAY_AUX_SHUTDOWN_NOTICE)"

definition nghttp2_submit_settings :: "env \<Rightarrow> session \<Rightarrow> settings_entry list \<Rightarrow> ses" where
  "nghttp2_submit_settings e s iv = nghttp2_session_add_settings e s NGHTTP2_FLAG_NONE iv"

definition nghttp2_submit_push_promise :: "env \<Rightarrow> session \<Rightarrow> int \<Rightarrow> nghttp2_nv list \<Rightarrow> nat \<Rightarrow> submitted" where
  "nghttp2_submit_push_promise e s i nva user_data =
     (if i \<le> 0 \<or> nghttp2_session_is_my_stream_id s i then Inr (s, Inl NGHTTP2_ERR_INVALID_ARGUMENT)
      else if \<not> server s then Inr (s, Inl NGHTTP2_ERR_PROTO)
      else if next_stream_id s > 0x7fffffff then Inr (s, Inl NGHTTP2_ERR_STREAM_ID_NOT_AVAILABLE)
      else if \<not> alloc e (sizeof_item e) then Inr (s, Inl NGHTTP2_ERR_NOMEM)
      else rbind (nghttp2_nv_array_copy e nva) (\<lambda>r. case r of
             None \<Rightarrow> Inr (s, Inl NGHTTP2_ERR_NOMEM)
           | Some nva' \<Rightarrow>
               let promised = sint (next_stream_id s)
               in rbind (submit_item e (s\<lparr>next_stream_id := next_stream_id s + 2\<rparr>)
                    ((nghttp2_outbound_item_init (nghttp2_frame_push_promise_init NGHTTP2_FLAG_END_HEADERS i promised nva'))
                       \<lparr>aux_user_data := user_data\<rparr>)) (\<lambda>(s1, rv).
                  Inr (s1, case rv of Some c \<Rightarrow> Inl c | None \<Rightarrow> Inr promised))))"

text \<open>The window of a stream or of the connection, as \<open>Window\<close> has it.\<close>

definition stream_window :: "stream \<Rightarrow> window" where
  "stream_window x = \<lparr>window.local_window_size = stream.local_window_size x,
     recv_window_size = stream.recv_window_size x, recv_reduction = stream.recv_reduction x\<rparr>"

definition with_window :: "stream \<Rightarrow> window \<Rightarrow> stream" where
  "with_window x w = x\<lparr>stream.local_window_size := window.local_window_size w,
     stream.recv_window_size := window.recv_window_size w, stream.recv_reduction := window.recv_reduction w\<rparr>"

definition conn_window :: "session \<Rightarrow> window" where
  "conn_window s = \<lparr>window.local_window_size = conn_local_window_size s,
     recv_window_size = conn_recv_window_size s, recv_reduction = conn_recv_reduction s\<rparr>"

definition with_conn_window :: "session \<Rightarrow> window \<Rightarrow> session" where
  "with_conn_window s w = s\<lparr>conn_local_window_size := window.local_window_size w,
     conn_recv_window_size := window.recv_window_size w, conn_recv_reduction := window.recv_reduction w\<rparr>"

text \<open>The window that \<open>op\<close> changes, of the connection for 0, and what follows; a code that is not 0 is returned.\<close>

definition change_window ::
  "session \<Rightarrow> nat option \<Rightarrow> (window \<Rightarrow> (window \<times> int) res) \<Rightarrow> (session \<Rightarrow> int \<Rightarrow> ses) \<Rightarrow> ses" where
  "change_window s target f k =
     (case f (case target of None \<Rightarrow> conn_window s | Some a \<Rightarrow> stream_window (stream_at s a)) of
        Inr (w, increment) \<Rightarrow>
          k (case target of None \<Rightarrow> with_conn_window s w
             | Some a \<Rightarrow> upd_stream s a (\<lambda>x. with_window x w)) increment
      | Inl (Code c) \<Rightarrow> fails s c
      | Inl Assert_failed \<Rightarrow> Inl Assert_failed
      | Inl Undefined \<Rightarrow> Inl Undefined)"

definition nghttp2_submit_window_update :: "env \<Rightarrow> session \<Rightarrow> int \<Rightarrow> int \<Rightarrow> ses" where
  "nghttp2_submit_window_update e s i increment =
     (let change = (\<lambda>target. change_window s target (\<lambda>w. nghttp2_adjust_local_window_size w increment) (\<lambda>s1 inc1.
          if inc1 > 0 then
            rbind (case target of
                     None \<Rightarrow> rbind (i32 (conn_consumed_size s1 - inc1)) (\<lambda>c.
                       Inr (s1\<lparr>conn_consumed_size := max 0 c\<rparr>))
                   | Some k \<Rightarrow> rbind (i32 (consumed_size (stream_at s1 k) - inc1)) (\<lambda>c.
                       Inr (upd_stream s1 k (\<lambda>x. x\<lparr>consumed_size := max 0 c\<rparr>)))) (\<lambda>s2.
            nghttp2_session_add_window_update e s2 0 i inc1)
          else ret s1))
      in if increment = 0 then ret s
         else if i = 0 then change None
         else case nghttp2_session_get_stream s i of
                None \<Rightarrow> ret s
              | Some k \<Rightarrow> change (Some k))"

definition nghttp2_session_set_local_window_size :: "env \<Rightarrow> session \<Rightarrow> int \<Rightarrow> int \<Rightarrow> ses" where
  "nghttp2_session_set_local_window_size e s i window_size =
     (let change = (\<lambda>target local_size.
          rbind (i32 (window_size - local_size)) (\<lambda>increment.
          if increment = 0 then ret s
          else if increment < 0 then
            change_window s target (\<lambda>w. nghttp2_adjust_local_window_size w increment) (\<lambda>s1 _. ret s1)
          else change_window s target (\<lambda>w. nghttp2_increase_local_window_size w increment) (\<lambda>s1 inc1.
            if inc1 > 0 then nghttp2_session_add_window_update e s1 0 i inc1
            else case target of
                   None \<Rightarrow> nghttp2_session_update_recv_connection_window_size e s1 0
                 | Some k \<Rightarrow> nghttp2_session_update_recv_stream_window_size e s1 k 0 True)))
      in if window_size < 0 then fails s NGHTTP2_ERR_INVALID_ARGUMENT
         else if i = 0 then change None (conn_local_window_size s)
         else case nghttp2_session_get_stream s i of
                None \<Rightarrow> ret s
              | Some k \<Rightarrow> change (Some k) (stream.local_window_size (stream_at s k)))"

definition nghttp2_submit_altsvc :: "env \<Rightarrow> session \<Rightarrow> int \<Rightarrow> bytes \<Rightarrow> bytes \<Rightarrow> ses" where
  "nghttp2_submit_altsvc e s i origin field_value =
     (if \<not> server s then fails s NGHTTP2_ERR_INVALID_STATE
      else if 2 + length origin + length field_value > NGHTTP2_MAX_PAYLOADLEN then
        fails s NGHTTP2_ERR_INVALID_ARGUMENT
      else if i = 0 \<and> origin = [] \<or> i \<noteq> 0 \<and> origin \<noteq> [] then fails s NGHTTP2_ERR_INVALID_ARGUMENT
      else if \<not> alloc e (length origin + length field_value + 2) then fails s NGHTTP2_ERR_NOMEM
      else submit_new e s (nghttp2_frame_altsvc_init i origin field_value))"

definition sizeof_origin_entry :: nat where "sizeof_origin_entry = 8"

definition nghttp2_submit_origin :: "env \<Rightarrow> session \<Rightarrow> bytes list \<Rightarrow> ses" where
  "nghttp2_submit_origin e s ov =
     (let len = sum_list (map length ov); nov = length ov
      in if \<not> server s then fails s NGHTTP2_ERR_INVALID_STATE
         else if nov > 0 \<and> 2 * nov + len > NGHTTP2_MAX_PAYLOADLEN then fails s NGHTTP2_ERR_INVALID_ARGUMENT
         else if nov > 0 \<and> \<not> alloc e (nov * sizeof_origin_entry + len + nov) then fails s NGHTTP2_ERR_NOMEM
         else submit_new e s (nghttp2_frame_origin_init ov))"

definition nghttp2_submit_priority_update :: "env \<Rightarrow> session \<Rightarrow> int \<Rightarrow> bytes \<Rightarrow> ses" where
  "nghttp2_submit_priority_update e s i field_value =
     (if server s then fails s NGHTTP2_ERR_INVALID_STATE
      else if no_rfc7540_priorities (remote_settings s) = 0 then ret s
      else if i = 0 \<or> 4 + length field_value > NGHTTP2_MAX_PAYLOADLEN then fails s NGHTTP2_ERR_INVALID_ARGUMENT
      else if field_value \<noteq> [] \<and> \<not> alloc e (length field_value + 1) then fails s NGHTTP2_ERR_NOMEM
      else submit_new e s (nghttp2_frame_priority_update_init i field_value))"

definition set_request_flags :: "priority_spec option \<Rightarrow> bool \<Rightarrow> u8" where
  "set_request_flags ps data_prd =
     (if data_prd then NGHTTP2_FLAG_NONE else NGHTTP2_FLAG_END_STREAM) OR
     (if ps = None then 0 else NGHTTP2_FLAG_PRIORITY)"

definition nghttp2_submit_request ::
  "env \<Rightarrow> session \<Rightarrow> priority_spec option \<Rightarrow> nghttp2_nv list \<Rightarrow> bool \<Rightarrow> nat \<Rightarrow> submitted" where
  "nghttp2_submit_request e s ps nva data_prd user_data =
     (if server s then Inr (s, Inl NGHTTP2_ERR_PROTO)
      else let p = usable_spec s ps
      in if (case p of None \<Rightarrow> False | Some x \<Rightarrow> detect_self_dependency s (- 1) x) then Inr (s, Inl NGHTTP2_ERR_INVALID_ARGUMENT)
         else submit_headers_shared_nva e s (set_request_flags p data_prd) (- 1) p nva data_prd user_data)"

definition set_response_flags :: "bool \<Rightarrow> u8" where
  "set_response_flags data_prd = (if data_prd then NGHTTP2_FLAG_NONE else NGHTTP2_FLAG_END_STREAM)"

definition nghttp2_submit_response :: "env \<Rightarrow> session \<Rightarrow> int \<Rightarrow> nghttp2_nv list \<Rightarrow> bool \<Rightarrow> submitted" where
  "nghttp2_submit_response e s i nva data_prd =
     (if i \<le> 0 then Inr (s, Inl NGHTTP2_ERR_INVALID_ARGUMENT)
      else if \<not> server s then Inr (s, Inl NGHTTP2_ERR_PROTO)
      else submit_headers_shared_nva e s (set_response_flags data_prd) i None nva data_prd 0)"

definition nghttp2_submit_data :: "env \<Rightarrow> session \<Rightarrow> u8 \<Rightarrow> int \<Rightarrow> ses" where
  "nghttp2_submit_data e s fl i =
     (if i = 0 then fails s NGHTTP2_ERR_INVALID_ARGUMENT
      else submit_item e s ((nghttp2_outbound_item_init (nghttp2_frame_data_init NGHTTP2_FLAG_NONE i))
             \<lparr>aux_data_prd := True, aux_flags := fl AND NGHTTP2_FLAG_END_STREAM\<rparr>))"

definition nghttp2_submit_extension :: "env \<Rightarrow> session \<Rightarrow> bool \<Rightarrow> u8 \<Rightarrow> u8 \<Rightarrow> int \<Rightarrow> ses" where
  "nghttp2_submit_extension e s pack_extension_callback ty fl i =
     (if ty \<le> NGHTTP2_CONTINUATION then fails s NGHTTP2_ERR_INVALID_ARGUMENT
      else if \<not> pack_extension_callback then fails s NGHTTP2_ERR_INVALID_STATE
      else submit_new e s (nghttp2_frame_extension_init ty fl i))"

section \<open>After a frame is sent\<close>

text \<open>The data that follows the HEADERS of an item that has a callback to read it from. The code of \<open>nghttp2_submit_data\<close> matters only when
  it is fatal, as do the others.\<close>

definition data_follows :: "env \<Rightarrow> session \<Rightarrow> outbound_item \<Rightarrow> ses" where
  "data_follows e s oi =
     (if aux_data_prd oi then
        unless_fatal (nghttp2_submit_data e s NGHTTP2_FLAG_END_STREAM (fr_id (oi_frame oi))) (\<lambda>s1 _. ret s1)
      else ret s)"

definition half_closed :: "env \<Rightarrow> session \<Rightarrow> frame \<Rightarrow> nat \<Rightarrow> (session \<Rightarrow> ses) \<Rightarrow> ses" where
  "half_closed e s fr k f =
     (let s1 = (if has (fr_flags fr) NGHTTP2_FLAG_END_STREAM
                then upd_stream s k (\<lambda>x. nghttp2_stream_shutdown x NGHTTP2_SHUT_WR) else s)
      in unless_fatal (nghttp2_session_close_stream_if_shut_rdwr e s1 k) (\<lambda>s2 _. f s2))"

definition after_data_sent :: "env \<Rightarrow> session \<Rightarrow> outbound_item \<Rightarrow> ses" where
  "after_data_sent e s oi =
     (let fr = oi_frame oi; len = sint (fr_length fr); stream = nghttp2_session_get_stream s (fr_id fr)
      in rbind (i32 (conn_remote_window_size s - len)) (\<lambda>w.
         rbind (case stream of
                  None \<Rightarrow> Inr (s\<lparr>conn_remote_window_size := w\<rparr>)
                | Some k \<Rightarrow> rbind (i32 (remote_window_size (stream_at s k) - len)) (\<lambda>w'.
                    Inr (upd_stream (s\<lparr>conn_remote_window_size := w\<rparr>) k (\<lambda>x. x\<lparr>remote_window_size := w'\<rparr>)))) (\<lambda>s1.
         case stream of
           Some k \<Rightarrow>
             if aux_eof oi then
               unless_fatal (session_detach_stream_item s1 k) (\<lambda>s2 _.
               unless_fatal (report e s2 (On_frame_send fr) ret) (\<lambda>s3 _.
               if has (fr_flags fr) NGHTTP2_FLAG_END_STREAM then
                 unless_fatal (nghttp2_session_close_stream_if_shut_rdwr e
                     (upd_stream s3 k (\<lambda>x. nghttp2_stream_shutdown x NGHTTP2_SHUT_WR)) k) (\<lambda>s4 _. ret s4)
               else ret s3))
             else unless_fatal (report e s1 (On_frame_send fr) ret) (\<lambda>s2 _. ret s2)
         | None \<Rightarrow> unless_fatal (report e s1 (On_frame_send fr) ret) (\<lambda>s2 _. ret s2))))"

definition after_headers_sent :: "env \<Rightarrow> session \<Rightarrow> outbound_item \<Rightarrow> nghttp2_headers_category \<Rightarrow> ses" where
  "after_headers_sent e s oi cat =
     (let fr = oi_frame oi
      in case nghttp2_session_get_stream s (fr_id fr) of
           None \<Rightarrow> ret s
         | Some k \<Rightarrow>
             let s1 = (case cat of
                  NGHTTP2_HCAT_REQUEST \<Rightarrow> upd_stream s k (\<lambda>x. x\<lparr>state := NGHTTP2_STREAM_OPENING\<rparr>)
                | NGHTTP2_HCAT_PUSH_RESPONSE \<Rightarrow>
                    (upd_stream s k (\<lambda>x. x\<lparr>flags := flags x AND NOT NGHTTP2_STREAM_FLAG_PUSH,
                       state := NGHTTP2_STREAM_OPENED\<rparr>))\<lparr>num_outgoing_streams := num_outgoing_streams s + 1\<rparr>
                | NGHTTP2_HCAT_RESPONSE \<Rightarrow> upd_stream s k (\<lambda>x. x\<lparr>state := NGHTTP2_STREAM_OPENED\<rparr>)
                | NGHTTP2_HCAT_HEADERS \<Rightarrow> s)
             in half_closed e s1 fr k (\<lambda>s2. data_follows e s2 oi))"

definition after_priority_sent :: "env \<Rightarrow> session \<Rightarrow> frame \<Rightarrow> priority_spec \<Rightarrow> ses" where
  "after_priority_sent e s fr ps =
     (if server s \<or> pending_no_rfc7540_priorities s = 1 then ret s
      else let adjust = (\<lambda>s1. unless_fatal (nghttp2_session_adjust_idle_stream e s1) (\<lambda>s2 _. ret s2))
      in case nghttp2_session_get_stream_raw s (fr_id fr) of
           None \<Rightarrow>
             if \<not> session_detect_idle_stream s (fr_id fr) then ret s
             else rbind (nghttp2_session_open_stream e s (fr_id fr) NGHTTP2_FLAG_NONE ps NGHTTP2_STREAM_IDLE 0)
               (\<lambda>(s1, opened). if \<not> opened then fails s1 NGHTTP2_ERR_NOMEM else adjust s1)
         | Some k \<Rightarrow> unless_fatal (nghttp2_session_reprioritize_stream e s k ps) (\<lambda>s1 _. adjust s1))"

definition after_window_update_sent :: "env \<Rightarrow> session \<Rightarrow> frame \<Rightarrow> ses" where
  "after_window_update_sent e s fr =
     (let manual = has (opt_flags s) NGHTTP2_OPTMASK_NO_AUTO_WINDOW_UPDATE
      in if fr_id fr = 0 then
           (let s1 = s\<lparr>conn_window_update_queued := False\<rparr>
            in unless_fatal (if manual then session_update_connection_consumed_size e s1 0
                 else nghttp2_session_update_recv_connection_window_size e s1 0) (\<lambda>s2 _. ret s2))
         else case nghttp2_session_get_stream s (fr_id fr) of
                None \<Rightarrow> ret s
              | Some k \<Rightarrow>
                  let s1 = upd_stream s k (\<lambda>x. x\<lparr>window_update_queued := False\<rparr>)
                  in if has (shut_flags (stream_at s1 k)) NGHTTP2_SHUT_RD then ret s1
                     else unless_fatal (if manual then session_update_stream_consumed_size e s1 k 0
                            else nghttp2_session_update_recv_stream_window_size e s1 k 0 True) (\<lambda>s2 _. ret s2))"

definition after_goaway_sent :: "env \<Rightarrow> session \<Rightarrow> outbound_item \<Rightarrow> int \<Rightarrow> ses" where
  "after_goaway_sent e s oi last_id =
     (if has (aux_flags oi) NGHTTP2_GOAWAY_AUX_SHUTDOWN_NOTICE then ret s
      else let term = (if has (aux_flags oi) NGHTTP2_GOAWAY_AUX_TERM_ON_SEND then NGHTTP2_GOAWAY_TERM_SENT else 0)
      in unless_fatal (session_close_stream_on_goaway e
           (s\<lparr>goaway_flags := goaway_flags s OR term OR NGHTTP2_GOAWAY_SENT\<rparr>) last_id True) (\<lambda>s1 _. ret s1))"

text \<open>\<open>next_present\<close>: a CONTINUATION frame of the same header block is still to be sent.\<close>

definition session_after_frame_sent1 :: "env \<Rightarrow> session \<Rightarrow> bool \<Rightarrow> ses" where
  "session_after_frame_sent1 e s next_present =
     (case aob_item s of
        None \<Rightarrow> Inl Undefined
      | Some it \<Rightarrow>
          let oi = items s it; fr = oi_frame oi;
              block = (case body fr of Headers_frame _ _ _ \<Rightarrow> True | Push_promise_frame _ _ \<Rightarrow> True | _ \<Rightarrow> False)
          in if body fr = Data_frame then after_data_sent e s oi
             else if block \<and> next_present then ret s
             else unless_fatal (report e s (On_frame_send fr) ret) (\<lambda>s1 _.
               case body fr of
                 Headers_frame cat _ _ \<Rightarrow> after_headers_sent e s1 oi cat
               | Priority_frame ps \<Rightarrow> after_priority_sent e s1 fr ps
               | Rst_stream_frame code \<Rightarrow>
                   unless_fatal (nghttp2_session_close_stream e s1 (fr_id fr) code) (\<lambda>s2 _. ret s2)
               | Goaway_frame last_id _ _ \<Rightarrow> after_goaway_sent e s1 oi last_id
               | Window_update_frame _ \<Rightarrow> after_window_update_sent e s1 fr
               | _ \<Rightarrow> ret s1))"

end
