(* ===== verification/SessNew.thy ===== *)
theory SessNew
  imports SessStream
begin

text \<open>
  The options of a connection (\<open>nghttp2_option.c\<close>) and a new connection, as a client or as a server makes
  one, with \<open>nghttp2_enable_strict_preface\<close> as it is unless a test changes it. The object of the options
  comes from \<open>calloc\<close>: every field is 0.
\<close>

section \<open>Options\<close>

record nghttp2_option =
  opt_max_send_header_block_length :: u32
  opt_max_deflate_dynamic_table_size :: u32
  opt_max_outbound_ack :: u32
  opt_max_settings :: u32
  opt_set_mask :: u32
  opt_peer_max_concurrent_streams :: u32
  opt_max_reserved_remote_streams :: u32
  opt_builtin_recv_ext_types :: u32
  opt_no_auto_window_update :: int
  opt_no_recv_client_magic :: int
  opt_no_http_messaging :: int
  opt_no_auto_ping_ack :: int
  opt_no_closed_streams :: int
  opt_server_fallback_rfc7540_priorities :: int
  opt_no_rfc9113_ws_validation :: int
  opt_user_recv_ext_types :: bytes

definition NGHTTP2_OPT_NO_AUTO_WINDOW_UPDATE :: u32 where "NGHTTP2_OPT_NO_AUTO_WINDOW_UPDATE = 1"
definition NGHTTP2_OPT_PEER_MAX_CONCURRENT_STREAMS :: u32 where "NGHTTP2_OPT_PEER_MAX_CONCURRENT_STREAMS = 2"
definition NGHTTP2_OPT_NO_RECV_CLIENT_MAGIC :: u32 where "NGHTTP2_OPT_NO_RECV_CLIENT_MAGIC = 4"
definition NGHTTP2_OPT_NO_HTTP_MESSAGING :: u32 where "NGHTTP2_OPT_NO_HTTP_MESSAGING = 8"
definition NGHTTP2_OPT_MAX_RESERVED_REMOTE_STREAMS :: u32 where "NGHTTP2_OPT_MAX_RESERVED_REMOTE_STREAMS = 0x10"
definition NGHTTP2_OPT_USER_RECV_EXT_TYPES :: u32 where "NGHTTP2_OPT_USER_RECV_EXT_TYPES = 0x20"
definition NGHTTP2_OPT_NO_AUTO_PING_ACK :: u32 where "NGHTTP2_OPT_NO_AUTO_PING_ACK = 0x40"
definition NGHTTP2_OPT_BUILTIN_RECV_EXT_TYPES :: u32 where "NGHTTP2_OPT_BUILTIN_RECV_EXT_TYPES = 0x80"
definition NGHTTP2_OPT_MAX_SEND_HEADER_BLOCK_LENGTH :: u32 where "NGHTTP2_OPT_MAX_SEND_HEADER_BLOCK_LENGTH = 0x100"
definition NGHTTP2_OPT_MAX_DEFLATE_DYNAMIC_TABLE_SIZE :: u32 where "NGHTTP2_OPT_MAX_DEFLATE_DYNAMIC_TABLE_SIZE = 0x200"
definition NGHTTP2_OPT_NO_CLOSED_STREAMS :: u32 where "NGHTTP2_OPT_NO_CLOSED_STREAMS = 0x400"
definition NGHTTP2_OPT_MAX_OUTBOUND_ACK :: u32 where "NGHTTP2_OPT_MAX_OUTBOUND_ACK = 0x800"
definition NGHTTP2_OPT_MAX_SETTINGS :: u32 where "NGHTTP2_OPT_MAX_SETTINGS = 0x1000"
definition NGHTTP2_OPT_SERVER_FALLBACK_RFC7540_PRIORITIES :: u32 where
  "NGHTTP2_OPT_SERVER_FALLBACK_RFC7540_PRIORITIES = 0x2000"
definition NGHTTP2_OPT_NO_RFC9113_LEADING_AND_TRAILING_WS_VALIDATION :: u32 where
  "NGHTTP2_OPT_NO_RFC9113_LEADING_AND_TRAILING_WS_VALIDATION = 0x4000"

definition NGHTTP2_TYPEMASK_ALTSVC :: u32 where "NGHTTP2_TYPEMASK_ALTSVC = 1"
definition NGHTTP2_TYPEMASK_ORIGIN :: u32 where "NGHTTP2_TYPEMASK_ORIGIN = 2"
definition NGHTTP2_TYPEMASK_PRIORITY_UPDATE :: u32 where "NGHTTP2_TYPEMASK_PRIORITY_UPDATE = 4"

definition NGHTTP2_ALTSVC :: u8 where "NGHTTP2_ALTSVC = 0x0a"
definition NGHTTP2_ORIGIN :: u8 where "NGHTTP2_ORIGIN = 0x0c"
definition NGHTTP2_PRIORITY_UPDATE :: u8 where "NGHTTP2_PRIORITY_UPDATE = 0x10"

definition nghttp2_option_new :: nghttp2_option where
  "nghttp2_option_new =
     \<lparr>opt_max_send_header_block_length = 0, opt_max_deflate_dynamic_table_size = 0, opt_max_outbound_ack = 0,
      opt_max_settings = 0, opt_set_mask = 0, opt_peer_max_concurrent_streams = 0,
      opt_max_reserved_remote_streams = 0, opt_builtin_recv_ext_types = 0, opt_no_auto_window_update = 0,
      opt_no_recv_client_magic = 0, opt_no_http_messaging = 0, opt_no_auto_ping_ack = 0,
      opt_no_closed_streams = 0, opt_server_fallback_rfc7540_priorities = 0, opt_no_rfc9113_ws_validation = 0,
      opt_user_recv_ext_types = replicate 32 0\<rparr>"

definition mark_set :: "nghttp2_option \<Rightarrow> u32 \<Rightarrow> nghttp2_option" where
  "mark_set opt m = opt\<lparr>opt_set_mask := opt_set_mask opt OR m\<rparr>"

definition nghttp2_option_set_no_auto_window_update :: "nghttp2_option \<Rightarrow> int \<Rightarrow> nghttp2_option" where
  "nghttp2_option_set_no_auto_window_update opt v =
     (mark_set opt NGHTTP2_OPT_NO_AUTO_WINDOW_UPDATE)\<lparr>opt_no_auto_window_update := v\<rparr>"

definition nghttp2_option_set_peer_max_concurrent_streams :: "nghttp2_option \<Rightarrow> u32 \<Rightarrow> nghttp2_option" where
  "nghttp2_option_set_peer_max_concurrent_streams opt v =
     (mark_set opt NGHTTP2_OPT_PEER_MAX_CONCURRENT_STREAMS)\<lparr>opt_peer_max_concurrent_streams := v\<rparr>"

definition nghttp2_option_set_no_recv_client_magic :: "nghttp2_option \<Rightarrow> int \<Rightarrow> nghttp2_option" where
  "nghttp2_option_set_no_recv_client_magic opt v =
     (mark_set opt NGHTTP2_OPT_NO_RECV_CLIENT_MAGIC)\<lparr>opt_no_recv_client_magic := v\<rparr>"

definition nghttp2_option_set_no_http_messaging :: "nghttp2_option \<Rightarrow> int \<Rightarrow> nghttp2_option" where
  "nghttp2_option_set_no_http_messaging opt v =
     (mark_set opt NGHTTP2_OPT_NO_HTTP_MESSAGING)\<lparr>opt_no_http_messaging := v\<rparr>"

definition nghttp2_option_set_max_reserved_remote_streams :: "nghttp2_option \<Rightarrow> u32 \<Rightarrow> nghttp2_option" where
  "nghttp2_option_set_max_reserved_remote_streams opt v =
     (mark_set opt NGHTTP2_OPT_MAX_RESERVED_REMOTE_STREAMS)\<lparr>opt_max_reserved_remote_streams := v\<rparr>"

definition set_ext_type :: "bytes \<Rightarrow> u8 \<Rightarrow> bytes" where
  "set_ext_type ext_types ty =
     ext_types[unat ty div 8 := ext_types ! (unat ty div 8) OR push_bit (unat (ty AND 7)) 1]"

definition nghttp2_option_set_user_recv_extension_type :: "nghttp2_option \<Rightarrow> u8 \<Rightarrow> nghttp2_option" where
  "nghttp2_option_set_user_recv_extension_type opt ty =
     (if ty < 10 then opt
      else (mark_set opt NGHTTP2_OPT_USER_RECV_EXT_TYPES)
             \<lparr>opt_user_recv_ext_types := set_ext_type (opt_user_recv_ext_types opt) ty\<rparr>)"

definition nghttp2_option_set_builtin_recv_extension_type :: "nghttp2_option \<Rightarrow> u8 \<Rightarrow> nghttp2_option" where
  "nghttp2_option_set_builtin_recv_extension_type opt ty =
     (let builtin = (\<lambda>m. (mark_set opt NGHTTP2_OPT_BUILTIN_RECV_EXT_TYPES)
            \<lparr>opt_builtin_recv_ext_types := opt_builtin_recv_ext_types opt OR m\<rparr>)
      in if ty = NGHTTP2_ALTSVC then builtin NGHTTP2_TYPEMASK_ALTSVC
         else if ty = NGHTTP2_ORIGIN then builtin NGHTTP2_TYPEMASK_ORIGIN
         else if ty = NGHTTP2_PRIORITY_UPDATE then builtin NGHTTP2_TYPEMASK_PRIORITY_UPDATE
         else opt)"

definition nghttp2_option_set_no_auto_ping_ack :: "nghttp2_option \<Rightarrow> int \<Rightarrow> nghttp2_option" where
  "nghttp2_option_set_no_auto_ping_ack opt v =
     (mark_set opt NGHTTP2_OPT_NO_AUTO_PING_ACK)\<lparr>opt_no_auto_ping_ack := v\<rparr>"

definition nghttp2_option_set_max_send_header_block_length :: "nghttp2_option \<Rightarrow> u32 \<Rightarrow> nghttp2_option" where
  "nghttp2_option_set_max_send_header_block_length opt v =
     (mark_set opt NGHTTP2_OPT_MAX_SEND_HEADER_BLOCK_LENGTH)\<lparr>opt_max_send_header_block_length := v\<rparr>"

definition nghttp2_option_set_max_deflate_dynamic_table_size :: "nghttp2_option \<Rightarrow> u32 \<Rightarrow> nghttp2_option" where
  "nghttp2_option_set_max_deflate_dynamic_table_size opt v =
     (mark_set opt NGHTTP2_OPT_MAX_DEFLATE_DYNAMIC_TABLE_SIZE)\<lparr>opt_max_deflate_dynamic_table_size := v\<rparr>"

definition nghttp2_option_set_no_closed_streams :: "nghttp2_option \<Rightarrow> int \<Rightarrow> nghttp2_option" where
  "nghttp2_option_set_no_closed_streams opt v =
     (mark_set opt NGHTTP2_OPT_NO_CLOSED_STREAMS)\<lparr>opt_no_closed_streams := v\<rparr>"

definition nghttp2_option_set_max_outbound_ack :: "nghttp2_option \<Rightarrow> u32 \<Rightarrow> nghttp2_option" where
  "nghttp2_option_set_max_outbound_ack opt v =
     (mark_set opt NGHTTP2_OPT_MAX_OUTBOUND_ACK)\<lparr>opt_max_outbound_ack := v\<rparr>"

definition nghttp2_option_set_max_settings :: "nghttp2_option \<Rightarrow> u32 \<Rightarrow> nghttp2_option" where
  "nghttp2_option_set_max_settings opt v = (mark_set opt NGHTTP2_OPT_MAX_SETTINGS)\<lparr>opt_max_settings := v\<rparr>"

definition nghttp2_option_set_server_fallback_rfc7540_priorities :: "nghttp2_option \<Rightarrow> int \<Rightarrow> nghttp2_option" where
  "nghttp2_option_set_server_fallback_rfc7540_priorities opt v =
     (mark_set opt NGHTTP2_OPT_SERVER_FALLBACK_RFC7540_PRIORITIES)\<lparr>opt_server_fallback_rfc7540_priorities := v\<rparr>"

definition nghttp2_option_set_no_rfc9113_leading_and_trailing_ws_validation ::
  "nghttp2_option \<Rightarrow> int \<Rightarrow> nghttp2_option" where
  "nghttp2_option_set_no_rfc9113_leading_and_trailing_ws_validation opt v =
     (mark_set opt NGHTTP2_OPT_NO_RFC9113_LEADING_AND_TRAILING_WS_VALIDATION)\<lparr>opt_no_rfc9113_ws_validation := v\<rparr>"

section \<open>A new connection\<close>

definition NGHTTP2_HD_DEFAULT_MAX_DEFLATE_BUFFER_SIZE :: u32 where "NGHTTP2_HD_DEFAULT_MAX_DEFLATE_BUFFER_SIZE = 4096"
definition NGHTTP2_MAX_INCOMING_RESERVED_STREAMS :: u32 where "NGHTTP2_MAX_INCOMING_RESERVED_STREAMS = 200"
definition NGHTTP2_MAX_HEADERSLEN :: u32 where "NGHTTP2_MAX_HEADERSLEN = 65536"
definition NGHTTP2_DEFAULT_MAX_OBQ_FLOOD_ITEM :: u32 where "NGHTTP2_DEFAULT_MAX_OBQ_FLOOD_ITEM = 1000"
definition NGHTTP2_DEFAULT_MAX_SETTINGS :: u32 where "NGHTTP2_DEFAULT_MAX_SETTINGS = 32"
definition NGHTTP2_FRAMEBUF_CHUNKLEN :: nat where "NGHTTP2_FRAMEBUF_CHUNKLEN = NGHTTP2_FRAME_HDLEN + 1 + 16384"
definition NGHTTP2_OPTMASK_NO_RECV_CLIENT_MAGIC :: u32 where "NGHTTP2_OPTMASK_NO_RECV_CLIENT_MAGIC = 0x02"
definition NGHTTP2_INITIAL_WINDOW_SIZE :: int where "NGHTTP2_INITIAL_WINDOW_SIZE = 65535"
definition NGHTTP2_INITIAL_CONNECTION_WINDOW_SIZE :: int where "NGHTTP2_INITIAL_CONNECTION_WINDOW_SIZE = 65535"

definition NGHTTP2_CLIENT_MAGIC :: bytes where
  "NGHTTP2_CLIENT_MAGIC = ascii ''PRI * HTTP/2.0'' @ [13, 10, 13, 10] @ ascii ''SM'' @ [13, 10, 13, 10]"

definition init_settings :: settings_storage where
  "init_settings =
     \<lparr>header_table_size = NGHTTP2_HD_DEFAULT_MAX_BUFFER_SIZE, enable_push = 1,
      max_concurrent_streams = NGHTTP2_DEFAULT_MAX_CONCURRENT_STREAMS,
      initial_window_size = word_of_int NGHTTP2_INITIAL_WINDOW_SIZE, max_frame_size = 16384,
      max_header_list_size = UINT32_MAX, enable_connect_protocol = 0, no_rfc7540_priorities = UINT32_MAX\<rparr>"

text \<open>The value of an option, or what holds without it; the flags of an option that is on.\<close>

definition opt_or :: "nghttp2_option option \<Rightarrow> u32 \<Rightarrow> (nghttp2_option \<Rightarrow> 'a) \<Rightarrow> 'a \<Rightarrow> 'a" where
  "opt_or opt m f x = (case opt of Some p \<Rightarrow> if has (opt_set_mask p) m then f p else x | None \<Rightarrow> x)"

definition opt_flag :: "nghttp2_option option \<Rightarrow> u32 \<Rightarrow> (nghttp2_option \<Rightarrow> int) \<Rightarrow> u32 \<Rightarrow> u32" where
  "opt_flag opt m f fl = opt_or opt m (\<lambda>p. if f p \<noteq> 0 then fl else 0) 0"

definition option_flags :: "nghttp2_option option \<Rightarrow> u32" where
  "option_flags opt =
     opt_flag opt NGHTTP2_OPT_NO_AUTO_WINDOW_UPDATE opt_no_auto_window_update NGHTTP2_OPTMASK_NO_AUTO_WINDOW_UPDATE OR
     opt_flag opt NGHTTP2_OPT_NO_RECV_CLIENT_MAGIC opt_no_recv_client_magic NGHTTP2_OPTMASK_NO_RECV_CLIENT_MAGIC OR
     opt_flag opt NGHTTP2_OPT_NO_HTTP_MESSAGING opt_no_http_messaging NGHTTP2_OPTMASK_NO_HTTP_MESSAGING OR
     opt_flag opt NGHTTP2_OPT_NO_AUTO_PING_ACK opt_no_auto_ping_ack NGHTTP2_OPTMASK_NO_AUTO_PING_ACK OR
     opt_flag opt NGHTTP2_OPT_NO_CLOSED_STREAMS opt_no_closed_streams NGHTTP2_OPTMASK_NO_CLOSED_STREAMS OR
     opt_flag opt NGHTTP2_OPT_SERVER_FALLBACK_RFC7540_PRIORITIES opt_server_fallback_rfc7540_priorities
       NGHTTP2_OPTMASK_SERVER_FALLBACK_RFC7540_PRIORITIES OR
     opt_flag opt NGHTTP2_OPT_NO_RFC9113_LEADING_AND_TRAILING_WS_VALIDATION opt_no_rfc9113_ws_validation
       NGHTTP2_OPTMASK_NO_RFC9113_LEADING_AND_TRAILING_WS_VALIDATION"

text \<open>The root of the dependency tree, and nothing else in the store.\<close>

definition root_tree :: dtree where
  "root_tree =
     \<lparr>str = (\<lambda>_. nghttp2_stream_init 0 0 NGHTTP2_STREAM_IDLE NGHTTP2_DEFAULT_WEIGHT 0 0 0),
      heaps = (\<lambda>_. ([], 0)), pqi = (\<lambda>_. 0)\<rparr>"

definition initial_session ::
  "bool \<Rightarrow> nghttp2_option option \<Rightarrow> deflater \<Rightarrow> inflater \<Rightarrow> nat hmap \<Rightarrow> bufs \<Rightarrow> session" where
  "initial_session srv opt d i m bs =
     (let fl = option_flags opt
      in \<lparr>streams = m, tree = root_tree, items = (\<lambda>_. nghttp2_outbound_item_init (nghttp2_frame_data_init 0 0)),
          new_item = 0, ob_urgent = [], ob_reg = [], ob_syn = [], ob_data = (\<lambda>_. ([], 0)), aob_item = None,
          aob_state = (if srv then NGHTTP2_OB_POP_ITEM else NGHTTP2_OB_SEND_CLIENT_MAGIC), framebufs = bs,
          iframe_state = (if srv \<and> fl AND NGHTTP2_OPTMASK_NO_RECV_CLIENT_MAGIC = 0
            then NGHTTP2_IB_READ_CLIENT_MAGIC else NGHTTP2_IB_READ_FIRST_SETTINGS),
          iframe_payloadleft = (if srv \<and> fl AND NGHTTP2_OPTMASK_NO_RECV_CLIENT_MAGIC = 0
            then of_nat (length NGHTTP2_CLIENT_MAGIC) else 0),
          hd_deflater = d, hd_inflater = i, closed_stream_head = None, closed_stream_tail = None,
          idle_stream_head = None, idle_stream_tail = None, inflight_settings = [], stream_seq = 0,
          num_outgoing_streams = 0, num_incoming_streams = 0, num_incoming_reserved_streams = 0,
          max_incoming_reserved_streams = opt_or opt NGHTTP2_OPT_MAX_RESERVED_REMOTE_STREAMS
            opt_max_reserved_remote_streams NGHTTP2_MAX_INCOMING_RESERVED_STREAMS,
          num_closed_streams = 0, num_idle_streams = 0, obq_flood_counter = 0,
          max_outbound_ack = opt_or opt NGHTTP2_OPT_MAX_OUTBOUND_ACK opt_max_outbound_ack
            NGHTTP2_DEFAULT_MAX_OBQ_FLOOD_ITEM,
          max_settings = opt_or opt NGHTTP2_OPT_MAX_SETTINGS
            (\<lambda>p. if opt_max_settings p \<noteq> 0 then opt_max_settings p else NGHTTP2_DEFAULT_MAX_SETTINGS)
            NGHTTP2_DEFAULT_MAX_SETTINGS,
          max_send_header_block_length = opt_or opt NGHTTP2_OPT_MAX_SEND_HEADER_BLOCK_LENGTH
            opt_max_send_header_block_length NGHTTP2_MAX_HEADERSLEN,
          builtin_recv_ext_types = opt_or opt NGHTTP2_OPT_BUILTIN_RECV_EXT_TYPES opt_builtin_recv_ext_types 0,
          user_recv_ext_types = opt_or opt NGHTTP2_OPT_USER_RECV_EXT_TYPES opt_user_recv_ext_types (replicate 32 0),
          next_stream_id = 0, last_sent_stream_id = 0, last_recv_stream_id = 0, last_proc_stream_id = 0,
          local_last_stream_id = 2147483647, remote_last_stream_id = 2147483647,
          conn_remote_window_size = NGHTTP2_INITIAL_CONNECTION_WINDOW_SIZE, conn_recv_window_size = 0,
          conn_consumed_size = 0, conn_recv_reduction = 0,
          conn_local_window_size = NGHTTP2_INITIAL_CONNECTION_WINDOW_SIZE, remote_settings_received = False,
          remote_settings = init_settings\<lparr>max_concurrent_streams :=
            opt_or opt NGHTTP2_OPT_PEER_MAX_CONCURRENT_STREAMS opt_peer_max_concurrent_streams 100\<rparr>,
          local_settings = init_settings, opt_flags = fl,
          pending_local_max_concurrent_stream = NGHTTP2_DEFAULT_MAX_CONCURRENT_STREAMS, pending_enable_push = 1,
          pending_enable_connect_protocol = 0, pending_no_rfc7540_priorities = 255,
          fallback_rfc7540_priorities = False, server = srv, goaway_flags = 0, conn_window_update_queued = False\<rparr>)"

definition of_ring_loop :: "'a res option \<Rightarrow> 'a res" where
  "of_ring_loop r = (case r of None \<Rightarrow> Inl Undefined | Some x \<Rightarrow> x)"

text \<open>\<open>grant\<close> gives the memory of the buffers for sending. The magic of a client goes into them at once;
  the return value of \<open>nghttp2_bufs_add\<close> is not looked at.\<close>

definition buffer_count :: "u32 \<Rightarrow> nat" where
  "buffer_count block_length =
     (let nbuffer = (block_length + of_nat NGHTTP2_FRAMEBUF_CHUNKLEN - 1) div of_nat NGHTTP2_FRAMEBUF_CHUNKLEN
      in if nbuffer = 0 then 1 else unat nbuffer)"

definition frame_buffers :: "(nat \<Rightarrow> nat \<Rightarrow> bytes option) \<Rightarrow> bool \<Rightarrow> nat \<Rightarrow> bufs res" where
  "frame_buffers grant srv nbuffer =
     rbind (nghttp2_bufs_init3 (grant 0) NGHTTP2_FRAMEBUF_CHUNKLEN nbuffer 1 (NGHTTP2_FRAME_HDLEN + 1)) (\<lambda>bs.
       let bs = nghttp2_bufs_reset bs
       in if srv then Inr bs
          else case nghttp2_bufs_add (length NGHTTP2_CLIENT_MAGIC + nbuffer) grant NGHTTP2_CLIENT_MAGIC bs of
                 Some (bs', Inr _) \<Rightarrow> Inr bs'
               | Some (bs', Inl (Code _)) \<Rightarrow> Inr bs'
               | _ \<Rightarrow> Inl Undefined)"

definition session_new ::
  "(nat \<Rightarrow> bool) \<Rightarrow> (nat \<Rightarrow> nat \<Rightarrow> bytes option) \<Rightarrow> nat \<Rightarrow> bool \<Rightarrow> nghttp2_option option \<Rightarrow> session res" where
  "session_new grant buffers sizeof_session srv opt =
     (if \<not> grant sizeof_session then Inl (Code NGHTTP2_ERR_NOMEM)
      else rbind (of_ring_loop (nghttp2_hd_deflate_init2 grant
             (opt_or opt NGHTTP2_OPT_MAX_DEFLATE_DYNAMIC_TABLE_SIZE opt_max_deflate_dynamic_table_size
               NGHTTP2_HD_DEFAULT_MAX_DEFLATE_BUFFER_SIZE))) (\<lambda>d.
           rbind (of_ring_loop (nghttp2_hd_inflate_init grant)) (\<lambda>i.
           rbind (nghttp2_map_init grant) (\<lambda>m.
           rbind (frame_buffers buffers srv (buffer_count (opt_or opt NGHTTP2_OPT_MAX_SEND_HEADER_BLOCK_LENGTH
               opt_max_send_header_block_length NGHTTP2_MAX_HEADERSLEN))) (\<lambda>bs.
           Inr (initial_session srv opt d i m bs))))))"

definition nghttp2_session_client_new3 ::
  "(nat \<Rightarrow> bool) \<Rightarrow> (nat \<Rightarrow> nat \<Rightarrow> bytes option) \<Rightarrow> nat \<Rightarrow> nghttp2_option option \<Rightarrow> session res" where
  "nghttp2_session_client_new3 grant buffers sizeof_session opt =
     rbind (session_new grant buffers sizeof_session False opt) (\<lambda>s. Inr (s\<lparr>next_stream_id := 1\<rparr>))"

definition nghttp2_session_server_new3 ::
  "(nat \<Rightarrow> bool) \<Rightarrow> (nat \<Rightarrow> nat \<Rightarrow> bytes option) \<Rightarrow> nat \<Rightarrow> nghttp2_option option \<Rightarrow> session res" where
  "nghttp2_session_server_new3 grant buffers sizeof_session opt =
     rbind (session_new grant buffers sizeof_session True opt) (\<lambda>s. Inr (s\<lparr>next_stream_id := 2\<rparr>))"

end
