(* ===== verification/SessReq.thy ===== *)
theory SessReq
  imports SessSend SessNew
begin

text \<open>
  Requests of a client: how they get their identifiers, and what resetting one does before it is sent;
  and what a new connection is.
\<close>

section \<open>The steps of the environment monad\<close>

lemma ses_steps [simp]:
  "if_ok (Inr (s, None)) f = f s" "if_ok (Inr (s, Some c)) f = Inr (s, Some c)"
  "if_ok (ret s) f = f s" "if_ok (fails s c) f = fails s c"
  "unless_fatal (ret s) g = g s None" "fatal None = False"
  by (simp_all add: if_ok_def unless_fatal_def ret_def fails_def fatal_def)

lemma unless_fatal_fails: "unless_fatal (fails s c) g = (if fatal (Some c) then fails s c else g s (Some c))"
  by (simp add: unless_fatal_def fails_def)

lemma if_ok_Inr: "if_ok (Inr (s, rv)) f = (case rv of None \<Rightarrow> f s | Some c \<Rightarrow> Inr (s, Some c))"
  by (simp split: option.split)

lemma upd_stream_at [simp]:
  "stream_at (upd_stream s k f) k = f (stream_at s k)"
  "j \<noteq> k \<Longrightarrow> stream_at (upd_stream s k f) j = stream_at s j"
  by (simp_all add: upd_stream_def)

lemma get_stream_same:
  "streams s' = streams s \<Longrightarrow> tree s' = tree s \<Longrightarrow> nghttp2_session_get_stream s' i = nghttp2_session_get_stream s i"
  by (simp add: nghttp2_session_get_stream_def nghttp2_session_get_stream_raw_def cong: option.case_cong)

lemma my_stream_id_same: "server s' = server s \<Longrightarrow> nghttp2_session_is_my_stream_id s' i = nghttp2_session_is_my_stream_id s i"
  by (simp add: nghttp2_session_is_my_stream_id_def)

lemma get_stream_fields [simp]:
  "nghttp2_session_get_stream (s\<lparr>items := f\<rparr>) i = nghttp2_session_get_stream s i"
  "nghttp2_session_get_stream (s\<lparr>new_item := n\<rparr>) i = nghttp2_session_get_stream s i"
  "nghttp2_session_get_stream (s\<lparr>ob_reg := l\<rparr>) i = nghttp2_session_get_stream s i"
  "nghttp2_session_get_stream (s\<lparr>ob_syn := l\<rparr>) i = nghttp2_session_get_stream s i"
  "nghttp2_session_get_stream (s\<lparr>next_stream_id := m\<rparr>) i = nghttp2_session_get_stream s i"
  by (rule get_stream_same; simp)+

section \<open>Requests that wait\<close>

definition item_id :: "session \<Rightarrow> nat \<Rightarrow> int" where
  "item_id s it = fr_id (oi_frame (items s it))"

definition request_item :: "session \<Rightarrow> nat \<Rightarrow> bool" where
  "request_item s it \<longleftrightarrow>
     (case body (oi_frame (items s it)) of
        Headers_frame cat _ _ \<Rightarrow> cat = NGHTTP2_HCAT_REQUEST | _ \<Rightarrow> False) \<and>
     oi_queued (items s it) \<and> it < new_item s"

text \<open>The queue of requests of a client: identifiers are odd, grow, and are below the next one.\<close>

definition requests_ok :: "session \<Rightarrow> bool" where
  "requests_ok s \<longleftrightarrow>
     \<not> server s \<and> odd (uint (next_stream_id s)) \<and> next_stream_id s \<le> 0x80000001 \<and>
     (\<forall>it\<in>set (ob_syn s). request_item s it) \<and>
     sorted_wrt (<) (map (item_id s) (ob_syn s)) \<and>
     (\<forall>i\<in>set (map (item_id s) (ob_syn s)). odd i \<and> 0 < i \<and> i < uint (next_stream_id s))"

definition header_copy :: "nghttp2_nv \<Rightarrow> nghttp2_nv" where
  "header_copy nv = (if has (nva_flags nv) NGHTTP2_NV_FLAG_NO_COPY_NAME then nv
     else nv\<lparr>nva_name := map ascii_downcase (nva_name nv)\<rparr>)"

lemma copy_nvs_eq: "copy_nvs nva = Inr (map header_copy nva)"
  by (induction nva) (simp_all add: copy_nv_def header_copy_def downcase_correct)

text \<open>The frame a request becomes.\<close>

definition request_frame ::
  "session \<Rightarrow> priority_spec option \<Rightarrow> nghttp2_nv list \<Rightarrow> bool \<Rightarrow> frame" where
  "request_frame s ps nva data_prd =
     (let p = usable_spec s ps
      in nghttp2_frame_headers_init
        ((set_request_flags p data_prd AND (NGHTTP2_FLAG_END_STREAM OR NGHTTP2_FLAG_PRIORITY)) OR NGHTTP2_FLAG_END_HEADERS)
        (uint (next_stream_id s)) NGHTTP2_HCAT_REQUEST
        (Some (case p of Some x \<Rightarrow> nghttp2_priority_spec_normalize_weight x
               | None \<Rightarrow> nghttp2_priority_spec_default_init))
        (map header_copy nva))"

definition request_queued ::
  "session \<Rightarrow> frame \<Rightarrow> bool \<Rightarrow> nat \<Rightarrow> session" where
  "request_queued s fr data_prd user_data =
     s\<lparr>next_stream_id := next_stream_id s + 2, ob_syn := ob_syn s @ [new_item s], new_item := new_item s + 1,
       items := (items s)(new_item s := (nghttp2_outbound_item_init fr)
         \<lparr>aux_data_prd := data_prd, aux_user_data := user_data, oi_queued := True\<rparr>)\<rparr>"

lemma nghttp2_nv_array_copy_eq:
  "nghttp2_nv_array_copy e nva = Inr None \<and> (\<exists>n. \<not> alloc e n) \<or> nghttp2_nv_array_copy e nva = Inr (Some (map header_copy nva))"
  by (auto simp: nghttp2_nv_array_copy_def copy_nvs_eq)

lemma sint_small:
  assumes "(n :: u32) \<le> 0x7fffffff"
  shows "sint n = uint n"
proof -
  have "0 \<le> uint n" "uint n \<le> 2147483647"
    using assms by (simp_all add: word_le_def)
  then have "- 2147483648 \<le> uint n" "uint n < 2147483648" by linarith+
  then show ?thesis by (simp add: sint_uint signed_take_bit_int_eq_self_iff)
qed

text \<open>The priority a request carries: none when the peer has switched priorities off or the application asks for the
  default, which depends on no stream; weights are brought into the range from 1 to 256.\<close>

definition default_spec :: priority_spec where
  "default_spec = \<lparr>ps_stream_id = 0, ps_weight = 16, ps_exclusive = False\<rparr>"

definition sent_spec :: "session \<Rightarrow> priority_spec option \<Rightarrow> priority_spec option" where
  "sent_spec s ps =
     (case ps of
        None \<Rightarrow> None
      | Some p \<Rightarrow> if no_rfc7540_priorities (remote_settings s) = 1 \<or> p = default_spec then None
                  else Some (p\<lparr>ps_weight := max 1 (min 256 (ps_weight p))\<rparr>))"

definition depends_on_itself :: "session \<Rightarrow> priority_spec option \<Rightarrow> bool" where
  "depends_on_itself s ps \<longleftrightarrow> (\<exists>p. sent_spec s ps = Some p \<and> ps_stream_id p = next_stream_id s)"

lemma sent_spec_usable: "sent_spec s ps = map_option nghttp2_priority_spec_normalize_weight (usable_spec s ps)"
  by (auto simp: sent_spec_def usable_spec_def nghttp2_priority_spec_check_default_def default_spec_def
      nghttp2_priority_spec_normalize_weight_def NGHTTP2_DEFAULT_WEIGHT_def max_def min_def split: option.split)

lemma depends_on_itself_detected:
  "depends_on_itself s ps \<longleftrightarrow> (case usable_spec s ps of None \<Rightarrow> False | Some x \<Rightarrow> detect_self_dependency s (- 1) x)"
proof (cases "usable_spec s ps")
  case (Some x)
  have "ps_stream_id (nghttp2_priority_spec_normalize_weight x) = ps_stream_id x"
    by (simp add: nghttp2_priority_spec_normalize_weight_def)
  then show ?thesis
    using Some by (auto simp: depends_on_itself_def sent_spec_usable detect_self_dependency_def stream_of_spec_def
      dest: signed_word_eqI)
qed (simp add: depends_on_itself_def sent_spec_usable)

lemma submit_request_cases:
  assumes "\<not> server s"
  shows "nghttp2_submit_request e s ps nva data_prd user_data =
      Inr (request_queued s (request_frame s ps nva data_prd) data_prd user_data, Inr (uint (next_stream_id s))) \<and>
      \<not> depends_on_itself s ps \<and> next_stream_id s \<le> 0x7fffffff \<or>
    nghttp2_submit_request e s ps nva data_prd user_data = Inr (s, Inl NGHTTP2_ERR_INVALID_ARGUMENT) \<and> depends_on_itself s ps \<or>
    nghttp2_submit_request e s ps nva data_prd user_data = Inr (s, Inl NGHTTP2_ERR_NOMEM) \<and>
      \<not> depends_on_itself s ps \<and> (\<exists>n. \<not> alloc e n) \<or>
    nghttp2_submit_request e s ps nva data_prd user_data = Inr (s, Inl NGHTTP2_ERR_STREAM_ID_NOT_AVAILABLE) \<and>
      \<not> depends_on_itself s ps \<and> 0x7fffffff < next_stream_id s"
proof -
  let ?p = "usable_spec s ps"
  let ?spec = "case ?p of Some x \<Rightarrow> nghttp2_priority_spec_normalize_weight x | None \<Rightarrow> nghttp2_priority_spec_default_init"
  have "nghttp2_submit_request e s ps nva data_prd user_data =
      (if (case ?p of None \<Rightarrow> False | Some x \<Rightarrow> detect_self_dependency s (- 1) x) then Inr (s, Inl NGHTTP2_ERR_INVALID_ARGUMENT)
       else case nghttp2_nv_array_copy e nva of Inl x \<Rightarrow> Inl x | Inr None \<Rightarrow> Inr (s, Inl NGHTTP2_ERR_NOMEM)
          | Inr (Some nva') \<Rightarrow> submit_headers_shared e s (set_request_flags ?p data_prd) (- 1) ?spec nva' data_prd user_data)"
    using assms
    by (simp add: nghttp2_submit_request_def submit_headers_shared_nva_def Let_def rbind_def split: option.split sum.split)
  moreover have "submit_headers_shared e s (set_request_flags ?p data_prd) (- 1) ?spec (map header_copy nva) data_prd user_data =
     (if \<not> alloc e (sizeof_item e) then Inr (s, Inl NGHTTP2_ERR_NOMEM)
      else if next_stream_id s > 0x7fffffff then Inr (s, Inl NGHTTP2_ERR_STREAM_ID_NOT_AVAILABLE)
      else Inr (request_queued s (request_frame s ps nva data_prd) data_prd user_data, Inr (uint (next_stream_id s))))"
    by (simp add: submit_headers_shared_def Let_def
      submit_item_def nghttp2_session_add_item_def nghttp2_frame_headers_init_def queue_syn_def mark_queued_def
      request_frame_def request_queued_def nghttp2_outbound_item_init_def ret_def sint_small)
  ultimately show ?thesis
    using nghttp2_nv_array_copy_eq [of e nva]
    by (auto simp: not_less depends_on_itself_detected split: option.splits if_splits)
qed

lemma item_id_queued:
  "item_id (request_queued s fr p u) it = (if it = new_item s then fr_id fr else item_id s it)"
  by (simp add: item_id_def request_queued_def nghttp2_outbound_item_init_def)

lemma request_frame_fields:
  "fr_id (request_frame s ps nva p) = uint (next_stream_id s)"
  "\<exists>sp. body (request_frame s ps nva p) = Headers_frame NGHTTP2_HCAT_REQUEST sp (map header_copy nva)"
  by (simp_all add: request_frame_def nghttp2_frame_headers_init_def Let_def)

lemma request_item_queued:
  assumes "body fr = Headers_frame NGHTTP2_HCAT_REQUEST sp nva"
    and "it = new_item s \<or> request_item s it"
  shows "request_item (request_queued s fr p u) it"
  using assms by (auto simp: request_item_def request_queued_def nghttp2_outbound_item_init_def)

lemma requests_ok_queued:
  assumes ok: "requests_ok s" and n: "next_stream_id s \<le> 0x7fffffff"
  shows "requests_ok (request_queued s (request_frame s ps nva p) p u)"
proof -
  let ?fr = "request_frame s ps nva p"
  let ?s = "request_queued s ?fr p u"
  obtain sp where fr: "body ?fr = Headers_frame NGHTTP2_HCAT_REQUEST sp (map header_copy nva)"
    using request_frame_fields(2) by blast
  have small: "uint (next_stream_id s + 2) = uint (next_stream_id s) + 2"
    using n by (simp add: uint_word_ariths word_le_def)
  have old: "it \<noteq> new_item s" if "it \<in> set (ob_syn s)" for it
    using ok that by (auto simp: requests_ok_def request_item_def)
  have ids: "map (item_id ?s) (ob_syn s) = map (item_id s) (ob_syn s)"
    using old by (simp add: item_id_queued)
  have fields: "server ?s = server s" "next_stream_id ?s = next_stream_id s + 2" "ob_syn ?s = ob_syn s @ [new_item s]"
    by (simp_all add: request_queued_def)
  have items: "request_item ?s it" if "it \<in> set (ob_syn s) \<or> it = new_item s" for it
    using ok that by (intro request_item_queued [OF fr]) (auto simp: requests_ok_def)
  have below: "\<forall>i\<in>set (map (item_id s) (ob_syn s)). odd i \<and> 0 < i \<and> i < uint (next_stream_id s)"
    and order: "sorted_wrt (<) (map (item_id s) (ob_syn s))" and me: "odd (uint (next_stream_id s))"
    using ok by (simp_all add: requests_ok_def)
  have pos: "0 < uint (next_stream_id s)"
    proof -
    have "0 \<le> uint (next_stream_id s)" "uint (next_stream_id s) \<noteq> 0" using me by auto
    then show ?thesis by linarith
  qed
  have "next_stream_id s + 2 \<le> 0x80000001"
    using n small by (simp add: word_le_def)
  moreover have "sorted_wrt (<) (map (item_id ?s) (ob_syn ?s))"
    unfolding fields map_append ids using order below
    by (simp add: sorted_wrt_append item_id_queued request_frame_fields)
  moreover have "odd i \<and> 0 < i \<and> i < uint (next_stream_id ?s)" if "i \<in> set (map (item_id ?s) (ob_syn ?s))" for i
    using that below me pos unfolding fields map_append ids small
    by (fastforce simp: item_id_queued request_frame_fields)
  ultimately show ?thesis
    using ok me items small by (simp add: requests_ok_def fields)
qed

lemma request_frame_eq:
  "fr_flags (request_frame s ps nva p) =
     0x04 OR (if p then 0 else 0x01) OR (if sent_spec s ps = None then 0 else 0x20)"
  "body (request_frame s ps nva p) = Headers_frame NGHTTP2_HCAT_REQUEST
     (case sent_spec s ps of None \<Rightarrow> default_spec | Some x \<Rightarrow> x) (map header_copy nva)"
  by (auto simp: request_frame_def nghttp2_frame_headers_init_def Let_def set_request_flags_def sent_spec_usable
      NGHTTP2_FLAG_END_HEADERS_def NGHTTP2_FLAG_END_STREAM_def NGHTTP2_FLAG_PRIORITY_def NGHTTP2_FLAG_NONE_def
      nghttp2_priority_spec_default_init_def default_spec_def NGHTTP2_DEFAULT_WEIGHT_def split: option.split)

text \<open>C3: A request of a client that asks to depend on itself is refused with \<open>NGHTTP2_ERR_INVALID_ARGUMENT\<close>. Any other
  gets the next identifier of the client, and its HEADERS frame goes to the end of the queue of requests; the
  queue keeps its order: identifiers are odd and grow. It fails only when an allocation is refused or the
  identifiers have run out. When it fails nothing changes. The frame has the header fields with their names in
  lower case, unless the application said that they need no copy; it ends the stream exactly when there is no
  data to follow, and it has the PRIORITY flag and the priority, its weight brought into range, exactly when
  the application gave one that is not the default and the peer has not switched priorities off.\<close>
theorem submit_request_correct:
  assumes "requests_ok s"
  shows "\<exists>s' r. nghttp2_submit_request e s ps nva data_prd user_data = Inr (s', r) \<and> requests_ok s' \<and>
    (case r of
       Inl c \<Rightarrow> s' = s \<and>
         (if depends_on_itself s ps then c = NGHTTP2_ERR_INVALID_ARGUMENT
          else c = NGHTTP2_ERR_NOMEM \<and> (\<exists>n. \<not> alloc e n) \<or>
               c = NGHTTP2_ERR_STREAM_ID_NOT_AVAILABLE \<and> 0x7fffffff < next_stream_id s)
     | Inr i \<Rightarrow> \<not> depends_on_itself s ps \<and>
         i = uint (next_stream_id s) \<and> i < 2 ^ 31 \<and> next_stream_id s' = next_stream_id s + 2 \<and>
         ob_syn s' = ob_syn s @ [new_item s] \<and>
         (\<forall>it. it \<noteq> new_item s \<longrightarrow> items s' it = items s it) \<and>
         (let oi = items s' (new_item s); fr = oi_frame oi
          in aux_data_prd oi = data_prd \<and> aux_user_data oi = user_data \<and> fr_id fr = i \<and>
             fr_flags fr = 0x04 OR (if data_prd then 0 else 0x01) OR (if sent_spec s ps = None then 0 else 0x20) \<and>
             body fr = Headers_frame NGHTTP2_HCAT_REQUEST
               (case sent_spec s ps of None \<Rightarrow> default_spec | Some p \<Rightarrow> p) (map header_copy nva)))"
proof -
  have "\<not> server s"
    using assms by (simp add: requests_ok_def)
  from submit_request_cases [OF this, of e ps nva data_prd user_data] show ?thesis
  proof (elim disjE conjE)
    assume "nghttp2_submit_request e s ps nva data_prd user_data =
        Inr (request_queued s (request_frame s ps nva data_prd) data_prd user_data, Inr (uint (next_stream_id s)))"
      "\<not> depends_on_itself s ps" "next_stream_id s \<le> 0x7fffffff"
    then show ?thesis
      using requests_ok_queued [OF assms, of ps nva data_prd user_data]
      by (simp add: request_frame_fields request_frame_eq request_queued_def nghttp2_outbound_item_init_def word_le_def Let_def)
  qed (use assms in auto)
qed

section \<open>Resets of requests that wait\<close>

lemma pending_request_found:
  assumes "sorted_wrt (<) (map (\<lambda>it. fr_id (oi_frame (its it))) syn)" and "it \<in> set syn"
  shows "pending_request its (fr_id (oi_frame (its it))) syn = (if aux_canceled (its it) then None else Some it)"
  using assms
proof (induction syn)
  case (Cons a syn)
  then show ?case
    by (cases "it = a") (auto simp: less_le)
qed simp

lemma request_is_mine:
  assumes "requests_ok s" "it \<in> set (ob_syn s)"
  shows "nghttp2_session_is_my_stream_id s (item_id s it)"
    "\<not> next_stream_id s \<le> word_of_int (item_id s it)" "0 < item_id s it" "odd (item_id s it)"
proof -
  have i: "odd (item_id s it)" "0 < item_id s it" "item_id s it < uint (next_stream_id s)" and "\<not> server s"
    using assms by (auto simp: requests_ok_def)
  then show "nghttp2_session_is_my_stream_id s (item_id s it)" "0 < item_id s it" "odd (item_id s it)"
    by (auto simp: nghttp2_session_is_my_stream_id_def and_one_eq odd_iff_mod_2_eq_one)
  have "uint (word_of_int (item_id s it) :: u32) = item_id s it"
    using i uint_bounded [of "next_stream_id s"] by (simp add: uint_word_of_int take_bit_int_eq_self)
  then show "\<not> next_stream_id s \<le> word_of_int (item_id s it)"
    using i by (simp add: word_le_def)
qed

lemma top_request:
  assumes ok: "requests_ok s" and it: "it \<in> set (ob_syn s)"
  shows "is_headers (oi_frame (items s (hd (ob_syn s))))"
    "fr_id (oi_frame (items s (hd (ob_syn s)))) \<le> item_id s it" "ob_syn s \<noteq> []"
proof -
  obtain a syn where syn: "ob_syn s = a # syn"
    using it by (cases "ob_syn s") auto
  then have "request_item s a"
    using ok by (simp add: requests_ok_def)
  then show "is_headers (oi_frame (items s (hd (ob_syn s))))"
    by (auto simp: syn request_item_def is_headers_def split: frame_body.splits)
  have "sorted_wrt (<) (map (item_id s) (ob_syn s))"
    using ok by (simp add: requests_ok_def)
  then show "fr_id (oi_frame (items s (hd (ob_syn s)))) \<le> item_id s it"
    using it by (auto simp: syn item_id_def)
  show "ob_syn s \<noteq> []" using syn by simp
qed

lemma cancels_request_found:
  assumes ok: "requests_ok s" and it: "it \<in> set (ob_syn s)"
  shows "cancels_request s (item_id s it) = Inr (if aux_canceled (items s it) then None else Some it)"
proof -
  have "sorted_wrt (<) (map (\<lambda>it. fr_id (oi_frame (items s it))) (ob_syn s))" "\<not> server s"
    using ok by (simp_all add: requests_ok_def item_id_def [abs_def])
  then show ?thesis
    using pending_request_found [of "items s" "ob_syn s" it] top_request [OF assms] request_is_mine [OF assms] it
    by (simp add: cancels_request_def Let_def assert_that_def item_id_def)
qed

lemma add_rst_stream_request:
  assumes ok: "requests_ok s" and it: "it \<in> set (ob_syn s)"
    and none: "nghttp2_session_get_stream s (item_id s it) = None"
  shows "nghttp2_session_add_rst_stream e s (item_id s it) code =
    (if aux_canceled (items s it) then submit_new e s (nghttp2_frame_rst_stream_init (item_id s it) code)
     else ret (s\<lparr>items := (items s)(it := (items s it)\<lparr>aux_error_code := code, aux_canceled := True\<rparr>)\<rparr>))"
  using none request_is_mine [OF ok it]
  by (simp add: nghttp2_session_add_rst_stream_def stream_is_def cancels_request_found [OF ok it])

lemma requests_ok_same_frames:
  assumes "requests_ok s" and "\<And>it. oi_frame (f it) = oi_frame (items s it)" "\<And>it. oi_queued (f it) = oi_queued (items s it)"
  shows "requests_ok (s\<lparr>items := f\<rparr>)"
  using assms by (simp add: requests_ok_def request_item_def item_id_def [abs_def])

text \<open>C15: A client that resets a request whose HEADERS frame still waits in the queue takes it back: the item is
  marked, with the error code, and nothing is queued; when its turn comes, the request is not sent,
  because \<open>session_predicate_request_headers_send\<close> refuses it. The queue stays in order.\<close>
theorem reset_of_waiting_request:
  assumes ok: "requests_ok s" and it: "it \<in> set (ob_syn s)" and new: "\<not> aux_canceled (items s it)"
    and none: "nghttp2_session_get_stream s (item_id s it) = None"
  shows "\<exists>s'. nghttp2_submit_rst_stream e s (item_id s it) code = Inr (s', None) \<and> requests_ok s' \<and>
    session_predicate_request_headers_send s' (items s' it) = Some NGHTTP2_ERR_STREAM_CLOSING \<and>
    aux_error_code (items s' it) = code \<and> items s' = (items s)(it := items s' it) \<and> s'\<lparr>items := items s\<rparr> = s"
  using add_rst_stream_request [OF ok it none, of e code] request_is_mine [OF ok it] new
  by (simp add: nghttp2_submit_rst_stream_def ret_def session_predicate_request_headers_send_def
      requests_ok_same_frames [OF ok])

text \<open>Callbacks that do nothing, as those an application does not set.\<close>

definition quiet :: "env \<Rightarrow> bool" where
  "quiet e \<longleftrightarrow> (\<forall>ev s. callback e ev s = (s, 0))"

lemma report_quiet [simp]: "quiet e \<Longrightarrow> report e s ev f = f s"
  by (simp add: quiet_def report_def)

text \<open>The connection after \<open>session_terminate_session\<close>, which queues GOAWAY.\<close>

definition terminated :: "session \<Rightarrow> int \<Rightarrow> u32 \<Rightarrow> string \<Rightarrow> session" where
  "terminated s last_id code reason =
     s\<lparr>iframe_state := NGHTTP2_IB_IGN_ALL, goaway_flags := goaway_flags s OR NGHTTP2_GOAWAY_TERM_ON_SEND,
       ob_reg := ob_reg s @ [new_item s], new_item := new_item s + 1,
       items := (items s)(new_item s := (nghttp2_outbound_item_init (nghttp2_frame_goaway_init
         (min last_id (local_last_stream_id s)) code (ascii reason)))
           \<lparr>aux_flags := NGHTTP2_GOAWAY_AUX_TERM_ON_SEND, oi_queued := True\<rparr>)\<rparr>"

lemma terminate_eq:
  assumes "alloc e (sizeof_item e)" "alloc e (length reason)" "\<not> nghttp2_session_is_my_stream_id s last_id"
    and "length reason + 8 \<le> NGHTTP2_MAX_PAYLOADLEN"
  shows "session_terminate_session e s last_id code reason =
    Inr (if has (goaway_flags s) NGHTTP2_GOAWAY_TERM_ON_SEND then s else terminated s last_id code reason, None)"
  using assms
  by (simp add: session_terminate_session_def nghttp2_session_add_goaway_def
      my_stream_id_same [of "s\<lparr>iframe_state := NGHTTP2_IB_IGN_ALL\<rparr>" s] submit_item_def nghttp2_session_add_item_def nghttp2_frame_goaway_init_def queue_reg_def mark_queued_def ascii_def
      nghttp2_outbound_item_init_def terminated_def ret_def Let_def)

text \<open>C16: A second reset of a request that still waits is not ignored, as the comment in
  \<open>nghttp2_session_add_rst_stream\<close> wants resets of idle streams to be: it puts RST_STREAM in front of the
  cancelled HEADERS, for a stream the peer has never seen. A server of this library answers that frame
  with GOAWAY and PROTOCOL_ERROR and reads nothing more of the connection.\<close>
theorem second_reset_ends_connection:
  assumes ok: "requests_ok s" and it: "it \<in> set (ob_syn s)" and again: "aux_canceled (items s it)"
    and none: "nghttp2_session_get_stream s (item_id s it) = None" and memory: "alloc e (sizeof_item e)"
    and peer: "server p" "last_recv_stream_id p < item_id s it" "\<not> has (goaway_flags p) NGHTTP2_GOAWAY_TERM_ON_SEND"
      "\<not> nghttp2_session_is_my_stream_id p (last_proc_stream_id p)"
    and peer_env: "quiet e'" "alloc e' (sizeof_item e')" "alloc e' (length ''RST_STREAM: stream in idle'')"
  shows "\<exists>s'. nghttp2_submit_rst_stream e s (item_id s it) code = Inr (s', None) \<and>
    ob_reg s' = ob_reg s @ [new_item s] \<and> ob_syn s' = ob_syn s \<and>
    (let fr = oi_frame (items s' (new_item s))
     in fr = nghttp2_frame_rst_stream_init (item_id s it) code \<and>
        nghttp2_session_on_rst_stream_received e' p fr code =
          Inr (terminated p (last_proc_stream_id p) (http2_code NGHTTP2_PROTOCOL_ERROR)
                 ''RST_STREAM: stream in idle'', None))"
proof -
  let ?i = "item_id s it" and ?why = "''RST_STREAM: stream in idle''"
  let ?fr = "nghttp2_frame_rst_stream_init ?i code"
  have i: "0 < ?i" "odd ?i" by (rule request_is_mine [OF ok it])+
  have sent: "nghttp2_submit_rst_stream e s ?i code = submit_new e s ?fr"
    using add_rst_stream_request [OF ok it none, of e code] again i by (simp add: nghttp2_submit_rst_stream_def)
  have "session_detect_idle_stream p ?i"
    using peer(1,2) i
    by (simp add: session_detect_idle_stream_def session_is_new_peer_stream_id_def nghttp2_session_is_my_stream_id_def
        and_one_eq odd_iff_mod_2_eq_one)
  then have "nghttp2_session_on_rst_stream_received e' p ?fr code =
      session_terminate_session e' p (last_proc_stream_id p) (http2_code NGHTTP2_PROTOCOL_ERROR) ?why"
    using i peer_env(1)
    by (simp add: nghttp2_session_on_rst_stream_received_def nghttp2_frame_rst_stream_init_def
        session_handle_invalid_connection_def nghttp2_session_terminate_session_with_reason_def
        get_error_code_from_lib_error_code_def)
  also have "\<dots> = Inr (terminated p (last_proc_stream_id p) (http2_code NGHTTP2_PROTOCOL_ERROR) ?why, None)"
    using peer(3,4) peer_env(2,3)
    by (subst terminate_eq) (simp_all add: NGHTTP2_MAX_PAYLOADLEN_def)
  finally show ?thesis
    using sent none memory
    by (simp add: submit_new_def submit_item_def nghttp2_session_add_item_def nghttp2_frame_rst_stream_init_def Let_def
        queue_reg_def mark_queued_def ret_def nghttp2_outbound_item_init_def)
qed

section \<open>What a new connection is\<close>

text \<open>The options are numbered by their bits in \<open>nghttp2_option.h\<close>. The value an application chose for one,
  if it did, and whether it switched one on.\<close>

definition chosen :: "nghttp2_option option \<Rightarrow> nat \<Rightarrow> (nghttp2_option \<Rightarrow> 'a) \<Rightarrow> 'a option" where
  "chosen opt k f = (case opt of None \<Rightarrow> None | Some p \<Rightarrow> if bit (opt_set_mask p) k then Some (f p) else None)"

definition given :: "nghttp2_option option \<Rightarrow> nat \<Rightarrow> (nghttp2_option \<Rightarrow> 'a) \<Rightarrow> 'a \<Rightarrow> 'a" where
  "given opt k f x = (case chosen opt k f of None \<Rightarrow> x | Some v \<Rightarrow> v)"

definition switched_on :: "nghttp2_option option \<Rightarrow> nat \<Rightarrow> (nghttp2_option \<Rightarrow> int) \<Rightarrow> bool" where
  "switched_on opt k f \<longleftrightarrow> given opt k f 0 \<noteq> 0"

text \<open>The limits of a connection, each with its option and its default. A limit of no SETTINGS entries means the
  default. The table for compression holds at most what HPACK starts with.\<close>

definition limits_set :: "session \<Rightarrow> nghttp2_option option \<Rightarrow> bool" where
  "limits_set s opt \<longleftrightarrow>
     max_concurrent_streams (remote_settings s) = given opt 1 opt_peer_max_concurrent_streams 100 \<and>
     max_incoming_reserved_streams s = given opt 4 opt_max_reserved_remote_streams 200 \<and>
     user_recv_ext_types s = given opt 5 opt_user_recv_ext_types (replicate 32 0) \<and>
     builtin_recv_ext_types s = given opt 7 opt_builtin_recv_ext_types 0 \<and>
     max_send_header_block_length s = given opt 8 opt_max_send_header_block_length 65536 \<and>
     deflate_hd_table_bufsize_max (hd_deflater s) = given opt 9 opt_max_deflate_dynamic_table_size 4096 \<and>
     hd_table_bufsize_max (dctx (hd_deflater s)) = min 4096 (given opt 9 opt_max_deflate_dynamic_table_size 4096) \<and>
     max_outbound_ack s = given opt 11 opt_max_outbound_ack 1000 \<and>
     max_settings s = (if given opt 12 opt_max_settings 0 = 0 then 32 else given opt 12 opt_max_settings 0)"

text \<open>The flags of a connection, each with its option.\<close>

definition flags_set :: "session \<Rightarrow> nghttp2_option option \<Rightarrow> bool" where
  "flags_set s opt \<longleftrightarrow> (\<forall>j. bit (opt_flags s) j \<longleftrightarrow>
     j = 0 \<and> switched_on opt 0 opt_no_auto_window_update \<or>
     j = 1 \<and> switched_on opt 2 opt_no_recv_client_magic \<or>
     j = 2 \<and> switched_on opt 3 opt_no_http_messaging \<or>
     j = 3 \<and> switched_on opt 6 opt_no_auto_ping_ack \<or>
     j = 4 \<and> switched_on opt 10 opt_no_closed_streams \<or>
     j = 5 \<and> switched_on opt 13 opt_server_fallback_rfc7540_priorities \<or>
     j = 6 \<and> switched_on opt 14 opt_no_rfc9113_ws_validation)"

text \<open>What is read first: a client's magic, of 24 bytes, by a server that was not told otherwise.\<close>

definition reads_first :: "session \<Rightarrow> nghttp2_option option \<Rightarrow> bool" where
  "reads_first s opt \<longleftrightarrow>
     (if server s \<and> \<not> switched_on opt 2 opt_no_recv_client_magic
      then iframe_state s = NGHTTP2_IB_READ_CLIENT_MAGIC \<and> iframe_payloadleft s = 24
      else iframe_state s = NGHTTP2_IB_READ_FIRST_SETTINGS \<and> iframe_payloadleft s = 0)"

definition default_settings :: settings_storage where
  "default_settings = \<lparr>header_table_size = 4096, enable_push = 1, max_concurrent_streams = 0xffffffff,
     initial_window_size = 65535, max_frame_size = 16384, max_header_list_size = 0xffffffff,
     enable_connect_protocol = 0, no_rfc7540_priorities = 0xffffffff\<rparr>"

text \<open>Nothing has been sent or received, and nothing waits.\<close>

definition idle_session :: "session \<Rightarrow> bool" where
  "idle_session s \<longleftrightarrow>
     map_ok (streams s) \<and> hmap_contents (streams s) = Map.empty \<and> nghttp2_map_size (streams s) = 0 \<and>
     tree s = root_tree \<and> context_ok (dctx (hd_deflater s)) \<and> table_entries (dctx (hd_deflater s)) = [] \<and>
     context_ok (ictx (hd_inflater s)) \<and> table_entries (ictx (hd_inflater s)) = [] \<and>
     hd_table_bufsize_max (ictx (hd_inflater s)) = 4096 \<and> bufs_ok (framebufs s) \<and>
     ob_data s = (\<lambda>_. ([], 0)) \<and> ob_urgent s = [] \<and> ob_reg s = [] \<and> ob_syn s = [] \<and> aob_item s = None \<and>
     aob_state s = (if server s then NGHTTP2_OB_POP_ITEM else NGHTTP2_OB_SEND_CLIENT_MAGIC) \<and>
     inflight_settings s = [] \<and> closed_stream_head s = None \<and> closed_stream_tail s = None \<and>
     idle_stream_head s = None \<and> idle_stream_tail s = None \<and> goaway_flags s = 0 \<and> stream_seq s = 0 \<and>
     num_outgoing_streams s = 0 \<and> num_incoming_streams s = 0 \<and> num_incoming_reserved_streams s = 0 \<and>
     num_closed_streams s = 0 \<and> num_idle_streams s = 0 \<and> obq_flood_counter s = 0 \<and>
     last_sent_stream_id s = 0 \<and> last_recv_stream_id s = 0 \<and> last_proc_stream_id s = 0 \<and>
     local_last_stream_id s = 2 ^ 31 - 1 \<and> remote_last_stream_id s = 2 ^ 31 - 1 \<and>
     conn_remote_window_size s = 65535 \<and> conn_local_window_size s = 65535 \<and> conn_recv_window_size s = 0 \<and>
     conn_recv_reduction s = 0 \<and> conn_consumed_size s = 0 \<and> \<not> conn_window_update_queued s \<and>
     \<not> remote_settings_received s \<and> local_settings s = default_settings \<and>
     (remote_settings s)\<lparr>max_concurrent_streams := 0xffffffff\<rparr> = default_settings \<and>
     pending_local_max_concurrent_stream s = 0xffffffff \<and> pending_enable_push s = 1 \<and>
     pending_enable_connect_protocol s = 0 \<and> pending_no_rfc7540_priorities s = 0xff \<and> \<not> fallback_rfc7540_priorities s"

definition fresh_session :: "session \<Rightarrow> nghttp2_option option \<Rightarrow> bool" where
  "fresh_session s opt \<longleftrightarrow> idle_session s \<and> limits_set s opt \<and> flags_set s opt \<and> reads_first s opt"

lemma fresh_idle: "fresh_session s opt \<Longrightarrow> idle_session s"
  by (simp add: fresh_session_def)

lemma fresh_remote:
  assumes "fresh_session s opt"
  shows "no_rfc7540_priorities (remote_settings s) = 0xffffffff" "max_frame_size (remote_settings s) = 16384"
proof -
  have "(remote_settings s)\<lparr>max_concurrent_streams := 0xffffffff\<rparr> = default_settings"
    using fresh_idle [OF assms] by (simp add: idle_session_def)
  from arg_cong [OF this, of no_rfc7540_priorities] arg_cong [OF this, of max_frame_size]
  show "no_rfc7540_priorities (remote_settings s) = 0xffffffff" "max_frame_size (remote_settings s) = 16384"
    by (simp_all add: default_settings_def)
qed

lemma fresh_flags: "fresh_session s None \<Longrightarrow> opt_flags s = 0"
  by (rule bit_word_eqI) (simp add: fresh_session_def flags_set_def switched_on_def given_def chosen_def)

definition bit_of :: "nat \<Rightarrow> u32" where "bit_of k = 2 ^ k"

lemmas option_bits = NGHTTP2_OPT_NO_AUTO_WINDOW_UPDATE_def NGHTTP2_OPT_PEER_MAX_CONCURRENT_STREAMS_def
  NGHTTP2_OPT_NO_RECV_CLIENT_MAGIC_def NGHTTP2_OPT_NO_HTTP_MESSAGING_def NGHTTP2_OPT_MAX_RESERVED_REMOTE_STREAMS_def
  NGHTTP2_OPT_USER_RECV_EXT_TYPES_def NGHTTP2_OPT_NO_AUTO_PING_ACK_def NGHTTP2_OPT_BUILTIN_RECV_EXT_TYPES_def
  NGHTTP2_OPT_MAX_SEND_HEADER_BLOCK_LENGTH_def NGHTTP2_OPT_MAX_DEFLATE_DYNAMIC_TABLE_SIZE_def
  NGHTTP2_OPT_NO_CLOSED_STREAMS_def NGHTTP2_OPT_MAX_OUTBOUND_ACK_def NGHTTP2_OPT_MAX_SETTINGS_def
  NGHTTP2_OPT_SERVER_FALLBACK_RFC7540_PRIORITIES_def NGHTTP2_OPT_NO_RFC9113_LEADING_AND_TRAILING_WS_VALIDATION_def

lemma option_masks:
  "NGHTTP2_OPT_NO_AUTO_WINDOW_UPDATE = bit_of 0" "NGHTTP2_OPT_PEER_MAX_CONCURRENT_STREAMS = bit_of 1"
  "NGHTTP2_OPT_NO_RECV_CLIENT_MAGIC = bit_of 2" "NGHTTP2_OPT_NO_HTTP_MESSAGING = bit_of 3"
  "NGHTTP2_OPT_MAX_RESERVED_REMOTE_STREAMS = bit_of 4" "NGHTTP2_OPT_USER_RECV_EXT_TYPES = bit_of 5"
  "NGHTTP2_OPT_NO_AUTO_PING_ACK = bit_of 6" "NGHTTP2_OPT_BUILTIN_RECV_EXT_TYPES = bit_of 7"
  "NGHTTP2_OPT_MAX_SEND_HEADER_BLOCK_LENGTH = bit_of 8" "NGHTTP2_OPT_MAX_DEFLATE_DYNAMIC_TABLE_SIZE = bit_of 9"
  "NGHTTP2_OPT_NO_CLOSED_STREAMS = bit_of 10" "NGHTTP2_OPT_MAX_OUTBOUND_ACK = bit_of 11"
  "NGHTTP2_OPT_MAX_SETTINGS = bit_of 12" "NGHTTP2_OPT_SERVER_FALLBACK_RFC7540_PRIORITIES = bit_of 13"
  "NGHTTP2_OPT_NO_RFC9113_LEADING_AND_TRAILING_WS_VALIDATION = bit_of 14"
  by (simp_all add: option_bits bit_of_def)

lemma has_bit: "has (x :: u32) (bit_of k) \<longleftrightarrow> bit x k"
  by (simp add: has_def bit_of_def bit_iff_and_push_bit_not_eq_0 push_bit_eq_mult)

lemma bit_mask: "bit (x OR bit_of k :: u32) j \<longleftrightarrow> bit x j \<or> j = k \<and> k < 32"
  by (auto simp: bit_or_iff bit_of_def bit_exp_iff)

lemma bit_of_bit: "bit (bit_of k) j \<longleftrightarrow> j = k \<and> k < 32"
  by (auto simp: bit_of_def bit_exp_iff)

lemmas option_setters =
  nghttp2_option_set_no_auto_window_update_def nghttp2_option_set_peer_max_concurrent_streams_def
  nghttp2_option_set_no_recv_client_magic_def nghttp2_option_set_no_http_messaging_def
  nghttp2_option_set_max_reserved_remote_streams_def nghttp2_option_set_no_auto_ping_ack_def
  nghttp2_option_set_max_send_header_block_length_def nghttp2_option_set_max_deflate_dynamic_table_size_def
  nghttp2_option_set_no_closed_streams_def nghttp2_option_set_max_outbound_ack_def nghttp2_option_set_max_settings_def
  nghttp2_option_set_server_fallback_rfc7540_priorities_def
  nghttp2_option_set_no_rfc9113_leading_and_trailing_ws_validation_def

text \<open>Each function of \<open>nghttp2_option.c\<close> chooses its own option.\<close>

lemma chosen_set [simp]:
  "chosen (Some (nghttp2_option_set_no_auto_window_update p v)) 0 opt_no_auto_window_update = Some v"
  "chosen (Some (nghttp2_option_set_peer_max_concurrent_streams p n)) 1 opt_peer_max_concurrent_streams = Some n"
  "chosen (Some (nghttp2_option_set_no_recv_client_magic p v)) 2 opt_no_recv_client_magic = Some v"
  "chosen (Some (nghttp2_option_set_no_http_messaging p v)) 3 opt_no_http_messaging = Some v"
  "chosen (Some (nghttp2_option_set_max_reserved_remote_streams p n)) 4 opt_max_reserved_remote_streams = Some n"
  "chosen (Some (nghttp2_option_set_no_auto_ping_ack p v)) 6 opt_no_auto_ping_ack = Some v"
  "chosen (Some (nghttp2_option_set_max_send_header_block_length p n)) 8 opt_max_send_header_block_length = Some n"
  "chosen (Some (nghttp2_option_set_max_deflate_dynamic_table_size p n)) 9 opt_max_deflate_dynamic_table_size = Some n"
  "chosen (Some (nghttp2_option_set_no_closed_streams p v)) 10 opt_no_closed_streams = Some v"
  "chosen (Some (nghttp2_option_set_max_outbound_ack p n)) 11 opt_max_outbound_ack = Some n"
  "chosen (Some (nghttp2_option_set_max_settings p n)) 12 opt_max_settings = Some n"
  "chosen (Some (nghttp2_option_set_server_fallback_rfc7540_priorities p v)) 13 opt_server_fallback_rfc7540_priorities = Some v"
  "chosen (Some (nghttp2_option_set_no_rfc9113_leading_and_trailing_ws_validation p v)) 14 opt_no_rfc9113_ws_validation = Some v"
  by (simp_all add: chosen_def option_setters mark_set_def option_masks bit_mask)

lemma given_opt:
  "opt_or opt NGHTTP2_OPT_PEER_MAX_CONCURRENT_STREAMS f x = given opt 1 f x"
  "opt_or opt NGHTTP2_OPT_MAX_RESERVED_REMOTE_STREAMS f x = given opt 4 f x"
  "opt_or opt NGHTTP2_OPT_USER_RECV_EXT_TYPES g y = given opt 5 g y"
  "opt_or opt NGHTTP2_OPT_BUILTIN_RECV_EXT_TYPES f x = given opt 7 f x"
  "opt_or opt NGHTTP2_OPT_MAX_SEND_HEADER_BLOCK_LENGTH f x = given opt 8 f x"
  "opt_or opt NGHTTP2_OPT_MAX_DEFLATE_DYNAMIC_TABLE_SIZE f x = given opt 9 f x"
  "opt_or opt NGHTTP2_OPT_MAX_OUTBOUND_ACK f x = given opt 11 f x"
  "opt_or opt NGHTTP2_OPT_MAX_SETTINGS f x = given opt 12 f x"
  by (simp_all add: opt_or_def given_def chosen_def option_masks has_bit split: option.split)

lemma switched_opt:
  "opt_flag opt NGHTTP2_OPT_NO_AUTO_WINDOW_UPDATE f m = (if switched_on opt 0 f then m else 0)"
  "opt_flag opt NGHTTP2_OPT_NO_RECV_CLIENT_MAGIC f m = (if switched_on opt 2 f then m else 0)"
  "opt_flag opt NGHTTP2_OPT_NO_HTTP_MESSAGING f m = (if switched_on opt 3 f then m else 0)"
  "opt_flag opt NGHTTP2_OPT_NO_AUTO_PING_ACK f m = (if switched_on opt 6 f then m else 0)"
  "opt_flag opt NGHTTP2_OPT_NO_CLOSED_STREAMS f m = (if switched_on opt 10 f then m else 0)"
  "opt_flag opt NGHTTP2_OPT_SERVER_FALLBACK_RFC7540_PRIORITIES f m = (if switched_on opt 13 f then m else 0)"
  "opt_flag opt NGHTTP2_OPT_NO_RFC9113_LEADING_AND_TRAILING_WS_VALIDATION f m = (if switched_on opt 14 f then m else 0)"
  by (simp_all add: opt_flag_def opt_or_def switched_on_def given_def chosen_def option_masks has_bit split: option.split)

lemma flag_masks:
  "NGHTTP2_OPTMASK_NO_AUTO_WINDOW_UPDATE = bit_of 0" "NGHTTP2_OPTMASK_NO_RECV_CLIENT_MAGIC = bit_of 1"
  "NGHTTP2_OPTMASK_NO_HTTP_MESSAGING = bit_of 2" "NGHTTP2_OPTMASK_NO_AUTO_PING_ACK = bit_of 3"
  "NGHTTP2_OPTMASK_NO_CLOSED_STREAMS = bit_of 4" "NGHTTP2_OPTMASK_SERVER_FALLBACK_RFC7540_PRIORITIES = bit_of 5"
  "NGHTTP2_OPTMASK_NO_RFC9113_LEADING_AND_TRAILING_WS_VALIDATION = bit_of 6"
  by (simp_all add: bit_of_def NGHTTP2_OPTMASK_NO_AUTO_WINDOW_UPDATE_def NGHTTP2_OPTMASK_NO_RECV_CLIENT_MAGIC_def
    NGHTTP2_OPTMASK_NO_HTTP_MESSAGING_def NGHTTP2_OPTMASK_NO_AUTO_PING_ACK_def NGHTTP2_OPTMASK_NO_CLOSED_STREAMS_def
    NGHTTP2_OPTMASK_SERVER_FALLBACK_RFC7540_PRIORITIES_def NGHTTP2_OPTMASK_NO_RFC9113_LEADING_AND_TRAILING_WS_VALIDATION_def)

lemma bit_if_mask: "bit (if c then bit_of k else 0 :: u32) j \<longleftrightarrow> j = k \<and> k < 32 \<and> c"
  by (auto simp: bit_of_def bit_exp_iff)

lemma option_flags_bits:
  "bit (option_flags opt) j \<longleftrightarrow>
     j = 0 \<and> switched_on opt 0 opt_no_auto_window_update \<or>
     j = 1 \<and> switched_on opt 2 opt_no_recv_client_magic \<or>
     j = 2 \<and> switched_on opt 3 opt_no_http_messaging \<or>
     j = 3 \<and> switched_on opt 6 opt_no_auto_ping_ack \<or>
     j = 4 \<and> switched_on opt 10 opt_no_closed_streams \<or>
     j = 5 \<and> switched_on opt 13 opt_server_fallback_rfc7540_priorities \<or>
     j = 6 \<and> switched_on opt 14 opt_no_rfc9113_ws_validation"
  unfolding option_flags_def switched_opt flag_masks bit_or_iff bit_if_mask by auto

lemma empty_bufs_add:
  assumes bs: "bufs_ok bs" and fits: "length xs \<le> cur_avail bs" and xs: "xs \<noteq> []" and f: "0 < fuel"
  shows "\<exists>bs'. nghttp2_bufs_add fuel grant xs bs = Some (bs', Inr ()) \<and> bufs_ok bs' \<and>
    bufs_data bs' = bufs_data bs @ xs"
proof -
  obtain bs' where "upd_cur (\<lambda>b. buf_append b xs) bs = (bs', Inr ())" "bufs_ok bs'" "bufs_data bs' = bufs_data bs @ xs"
    using upd_cur_append [OF bs fits] by blast
  moreover obtain x ys n where "xs = x # ys" "fuel = Suc n"
    using xs f by (cases xs; cases fuel) auto
  ultimately show ?thesis
    using fits by (simp add: Let_def min_absorb2)
qed

lemma frame_buffers_ok:
  assumes "grants buffers" and k: "0 < k"
  shows "frame_buffers buffers srv k = Inl (Code NGHTTP2_ERR_NOMEM) \<or>
    (\<exists>bs. frame_buffers buffers srv k = Inr bs \<and> bufs_ok bs \<and>
       bufs_data bs = (if srv then [] else NGHTTP2_CLIENT_MAGIC))"
proof -
  have len: "NGHTTP2_FRAMEBUF_CHUNKLEN = 16394" "NGHTTP2_FRAME_HDLEN = 9"
    by (simp_all add: NGHTTP2_FRAMEBUF_CHUNKLEN_def NGHTTP2_FRAME_HDLEN_def)
  consider "buf_chain_new (buffers 0) 16394 = Inl (Code NGHTTP2_ERR_NOMEM)"
    | b where "buf_chain_new (buffers 0) 16394 = Inr b" "length (mem b) = 16394" "pos b = 0" "last_pos b = 0"
    using chain_new_ok [OF assms(1), of 16394] by auto
  then show ?thesis
  proof cases
    case 1
    then show ?thesis using k by (simp add: frame_buffers_def nghttp2_bufs_init3_def len)
  next
    case (2 b)
    let ?bs = "\<lparr>chunks = [reset_chunk 10 (nghttp2_buf_shift_right b 10)], cur = 0, chunk_length = 16394,
      max_chunk = k, chunk_used = 1, chunk_keep = 1, hd_offset = 10\<rparr>"
    have ok: "bufs_ok ?bs" and data: "bufs_data ?bs = []" and av: "cur_avail ?bs = 16384"
      using 2 k by (auto simp: bufs_ok_def buf_ok_def nghttp2_buf_shift_right_def nghttp2_buf_reset_def bufs_data_def
        buf_data_def nghttp2_buf_len_def cur_avail_def nghttp2_buf_avail_def fresh_chunk_def reset_chunk_def)
    have magic: "length NGHTTP2_CLIENT_MAGIC = 24" "NGHTTP2_CLIENT_MAGIC \<noteq> []"
      by (simp_all add: NGHTTP2_CLIENT_MAGIC_def ascii_def)
    obtain bs' where add: "nghttp2_bufs_add (24 + k) buffers NGHTTP2_CLIENT_MAGIC ?bs = Some (bs', Inr ())"
        and bs': "bufs_ok bs'" "bufs_data bs' = NGHTTP2_CLIENT_MAGIC"
      using empty_bufs_add [OF ok, of NGHTTP2_CLIENT_MAGIC "24 + k" buffers] magic av data by auto
    have "frame_buffers buffers srv k = Inr (if srv then ?bs else bs')"
      using 2 k add by (cases srv) (simp_all add: frame_buffers_def len nghttp2_bufs_init3_def nghttp2_bufs_reset_def
          Let_def magic)
    then show ?thesis using ok data bs' by auto
  qed
qed

lemma map_init_cases:
  "(nghttp2_map_init grant :: nat hmap res) = Inl (Code NGHTTP2_ERR_NOMEM) \<or>
   (\<exists>m :: nat hmap. nghttp2_map_init grant = Inr m \<and> map_ok m \<and> hmap_contents m = Map.empty \<and> nghttp2_map_size m = 0)"
proof -
  have "map_ok \<lparr>table = replicate 256 (empty_bucket :: nat bucket), tablelen = 256, tablelenbits = 8, map_size = 0\<rparr>"
    using robin_hood_empty [of 8] by (simp add: map_ok_def dims_def keys_distinct_def bucket_ok_def)
  then show ?thesis
    by (simp add: nghttp2_map_init_def calloc_table_def sizeof_bucket_def
        NGHTTP2_INITIAL_TABLE_LENBITS_def hmap_contents_def contents_def nghttp2_map_size_def)
qed

lemma deflater_new_cases:
  "nghttp2_hd_deflate_init2 grant n = Some (Inl (Code NGHTTP2_ERR_NOMEM)) \<or>
   (\<exists>d. nghttp2_hd_deflate_init2 grant n = Some (Inr d) \<and> context_ok (dctx d) \<and> table_entries (dctx d) = [] \<and>
      deflate_hd_table_bufsize_max d = n \<and> hd_table_bufsize_max (dctx d) = min 4096 n)"
proof -
  have "min 4096 n = (if n < 4096 then n else 4096)" by (auto simp: min_def)
  moreover have "n < 4096 \<Longrightarrow> unat n \<le> 4096" by (simp add: word_less_nat_alt)
  ultimately show ?thesis
    using context_init_ok [of grant]
    by (auto simp: nghttp2_hd_deflate_init2_def context_ok_def table_nvs_def table_entries_def Let_def
        NGHTTP2_HD_DEFAULT_MAX_BUFFER_SIZE_def)
qed

lemma inflater_new_cases:
  "nghttp2_hd_inflate_init grant = Some (Inl (Code NGHTTP2_ERR_NOMEM)) \<or>
   (\<exists>i. nghttp2_hd_inflate_init grant = Some (Inr i) \<and> context_ok (ictx i) \<and> table_entries (ictx i) = [] \<and>
      hd_table_bufsize_max (ictx i) = 4096)"
  using context_init_ok [of grant] by (auto simp: nghttp2_hd_inflate_init_def)

lemma given_nonzero:
  "given opt k (\<lambda>p. if f p \<noteq> 0 then f p else x) x = (if given opt k f 0 = 0 then x else given opt k f 0)"
  "given opt k (\<lambda>p. if f p = 0 then x else f p) x = (if given opt k f 0 = 0 then x else given opt k f 0)"
  by (auto simp: given_def chosen_def split: option.splits)

definition fresh_parts :: "nghttp2_option option \<Rightarrow> deflater \<Rightarrow> inflater \<Rightarrow> nat hmap \<Rightarrow> bufs \<Rightarrow> bool" where
  "fresh_parts opt d i m bs \<longleftrightarrow>
     context_ok (dctx d) \<and> table_entries (dctx d) = [] \<and>
     deflate_hd_table_bufsize_max d = given opt 9 opt_max_deflate_dynamic_table_size 4096 \<and>
     hd_table_bufsize_max (dctx d) = min 4096 (given opt 9 opt_max_deflate_dynamic_table_size 4096) \<and>
     context_ok (ictx i) \<and> table_entries (ictx i) = [] \<and> hd_table_bufsize_max (ictx i) = 4096 \<and>
     map_ok m \<and> hmap_contents m = Map.empty \<and> nghttp2_map_size m = 0 \<and> bufs_ok bs"

lemma initial_settings: "init_settings = default_settings"
  by (simp add: init_settings_def default_settings_def NGHTTP2_HD_DEFAULT_MAX_BUFFER_SIZE_def
      NGHTTP2_DEFAULT_MAX_CONCURRENT_STREAMS_def NGHTTP2_INITIAL_WINDOW_SIZE_def UINT32_MAX_def)

lemma fresh_initial_session:
  assumes "fresh_parts opt d i m bs"
  shows "fresh_session (initial_session srv opt d i m bs\<lparr>next_stream_id := n\<rparr>) opt"
proof -
  let ?s = "initial_session srv opt d i m bs\<lparr>next_stream_id := n\<rparr>"
  have "idle_session ?s"
    using assms
    by (simp add: idle_session_def fresh_parts_def initial_session_def Let_def NGHTTP2_INITIAL_CONNECTION_WINDOW_SIZE_def
        initial_settings NGHTTP2_DEFAULT_MAX_CONCURRENT_STREAMS_def)
      (simp add: default_settings_def)
  moreover have "limits_set ?s opt"
    using assms
    by (simp add: limits_set_def fresh_parts_def initial_session_def Let_def given_opt given_nonzero
        NGHTTP2_MAX_INCOMING_RESERVED_STREAMS_def NGHTTP2_DEFAULT_MAX_OBQ_FLOOD_ITEM_def NGHTTP2_DEFAULT_MAX_SETTINGS_def
        NGHTTP2_MAX_HEADERSLEN_def cong: if_cong)
  moreover have "flags_set ?s opt"
    by (simp add: flags_set_def initial_session_def Let_def option_flags_bits)
  moreover have "option_flags opt AND NGHTTP2_OPTMASK_NO_RECV_CLIENT_MAGIC = 0 \<longleftrightarrow>
      \<not> switched_on opt 2 opt_no_recv_client_magic"
    using has_bit [of "option_flags opt" 1] by (auto simp: has_def flag_masks option_flags_bits)
  then have "reads_first ?s opt"
    by (simp add: reads_first_def initial_session_def Let_def NGHTTP2_CLIENT_MAGIC_def ascii_def)
  ultimately show ?thesis by (simp add: fresh_session_def)
qed

lemma session_new_cases:
  assumes "grants buffers"
  shows "session_new grant buffers n srv opt = Inl (Code NGHTTP2_ERR_NOMEM) \<or>
    (\<exists>s. session_new grant buffers n srv opt = Inr s \<and> (\<forall>i. fresh_session (s\<lparr>next_stream_id := i\<rparr>) opt) \<and>
       server s = srv \<and> bufs_data (framebufs s) = (if srv then [] else NGHTTP2_CLIENT_MAGIC))"
proof -
  let ?k = "buffer_count (opt_or opt NGHTTP2_OPT_MAX_SEND_HEADER_BLOCK_LENGTH opt_max_send_header_block_length NGHTTP2_MAX_HEADERSLEN)"
  have "0 < ?k"
    by (simp add: buffer_count_def Let_def unat_gt_0)
  from frame_buffers_ok [OF assms this, of srv]
  consider (none) "frame_buffers buffers srv ?k = Inl (Code NGHTTP2_ERR_NOMEM)"
    | (some) bs where "frame_buffers buffers srv ?k = Inr bs" "bufs_ok bs"
      "bufs_data bs = (if srv then [] else NGHTTP2_CLIENT_MAGIC)" by blast
  note bs = this
  note cases = deflater_new_cases [of grant "opt_or opt NGHTTP2_OPT_MAX_DEFLATE_DYNAMIC_TABLE_SIZE
      opt_max_deflate_dynamic_table_size NGHTTP2_HD_DEFAULT_MAX_DEFLATE_BUFFER_SIZE"]
    inflater_new_cases [of grant] map_init_cases [of grant]
  have fields: "server (initial_session v opt d i m bs) = v" "framebufs (initial_session v opt d i m bs) = bs"
    for v d i m bs by (simp_all add: initial_session_def Let_def)
  from bs show ?thesis
  proof cases
    case none
    then show ?thesis using cases by (auto simp: session_new_def of_ring_loop_def)
  next
    case (some bs)
    then show ?thesis using cases fresh_initial_session [of opt _ _ _ bs]
      by (auto simp: session_new_def of_ring_loop_def fields fresh_parts_def given_opt
          NGHTTP2_HD_DEFAULT_MAX_DEFLATE_BUFFER_SIZE_def)
  qed
qed

definition memory_refused :: "(nat \<Rightarrow> bool) \<Rightarrow> (nat \<Rightarrow> nat \<Rightarrow> bytes option) \<Rightarrow> bool" where
  "memory_refused grant buffers \<longleftrightarrow> (\<exists>n. \<not> grant n) \<or> (\<exists>k n. buffers k n = None)"

text \<open>With memory for everything.\<close>

lemma plenty_of_memory:
  assumes grant: "\<forall>n. grant n" and buffers: "grants buffers" "\<forall>k n. buffers k n \<noteq> None"
  shows "\<exists>s. session_new grant buffers n srv opt = Inr s"
proof -
  have all: "grant = (\<lambda>_. True)" using grant by (intro ext) simp
  have ctx: "hd_context_init grant \<noteq> Some (Inl (Code NGHTTP2_ERR_NOMEM))"
    by (auto simp: hd_context_init_def hd_ringbuf_init_def ring_alloc_def all)
  then obtain c where "hd_context_init grant = Some (Inr c)"
    using context_init_ok [of grant] by auto
  then obtain i d where i: "nghttp2_hd_inflate_init grant = Some (Inr i)"
      and d: "nghttp2_hd_deflate_init2 grant (opt_or opt NGHTTP2_OPT_MAX_DEFLATE_DYNAMIC_TABLE_SIZE
        opt_max_deflate_dynamic_table_size NGHTTP2_HD_DEFAULT_MAX_DEFLATE_BUFFER_SIZE) = Some (Inr d)"
    by (simp add: nghttp2_hd_deflate_init2_def nghttp2_hd_inflate_init_def Let_def)
  obtain m :: "nat hmap" where m: "nghttp2_map_init grant = Inr m"
    by (simp add: nghttp2_map_init_def calloc_table_def sizeof_bucket_def NGHTTP2_INITIAL_TABLE_LENBITS_def all)
  let ?k = "buffer_count (opt_or opt NGHTTP2_OPT_MAX_SEND_HEADER_BLOCK_LENGTH opt_max_send_header_block_length NGHTTP2_MAX_HEADERSLEN)"
  have k: "0 < ?k" by (simp add: buffer_count_def Let_def unat_gt_0)
  have "frame_buffers buffers srv ?k \<noteq> Inl (Code NGHTTP2_ERR_NOMEM)"
    using k buffers(2)
    by (auto simp: frame_buffers_def nghttp2_bufs_init3_def buf_chain_new_def nghttp2_buf_init2_def
      nghttp2_buf_reserve_def nghttp2_buf_init_def nghttp2_buf_cap_def Let_def NGHTTP2_FRAMEBUF_CHUNKLEN_def
      NGHTTP2_FRAME_HDLEN_def split: option.split sum.split fault.split)
  then obtain bs where "frame_buffers buffers srv ?k = Inr bs"
    using frame_buffers_ok [OF buffers(1) k, of srv] by blast
  then show ?thesis using d i m grant
    by (simp add: session_new_def of_ring_loop_def)
qed

text \<open>C17: \<open>nghttp2_session_client_new3\<close> and \<open>nghttp2_session_server_new3\<close>, with any options, fail only when an
  allocation is refused. A new connection has no stream, empty header tables, nothing to send but a
  client's magic, which lies in its buffers, windows of 65535 bytes and the initial settings of RFC 9113.
  Each of its nine limits is the value its option was given, or else its default (\<open>limits_set\<close>), its flags are
  exactly those of the options that were switched on (\<open>flags_set\<close>), and it reads first the magic or the
  first SETTINGS frame (\<open>reads_first\<close>). Its own identifiers start at 1 for a client and at 2 for a server.\<close>
theorem new_connection:
  assumes "grants buffers"
  shows "(nghttp2_session_client_new3 grant buffers n opt = Inl (Code NGHTTP2_ERR_NOMEM) \<and> memory_refused grant buffers \<or>
      (\<exists>s. nghttp2_session_client_new3 grant buffers n opt = Inr s \<and> fresh_session s opt \<and> requests_ok s \<and>
         next_stream_id s = 1 \<and> bufs_data (framebufs s) = NGHTTP2_CLIENT_MAGIC)) \<and>
    (nghttp2_session_server_new3 grant buffers n opt = Inl (Code NGHTTP2_ERR_NOMEM) \<and> memory_refused grant buffers \<or>
      (\<exists>s. nghttp2_session_server_new3 grant buffers n opt = Inr s \<and> fresh_session s opt \<and> server s \<and>
         next_stream_id s = 2 \<and> bufs_data (framebufs s) = []))"
proof -
  have new: "session_new grant buffers n srv opt = Inl (Code NGHTTP2_ERR_NOMEM) \<and> memory_refused grant buffers \<or>
      (\<exists>s. session_new grant buffers n srv opt = Inr s \<and> (\<forall>i. fresh_session (s\<lparr>next_stream_id := i\<rparr>) opt) \<and>
       server s = srv \<and> bufs_data (framebufs s) = (if srv then [] else NGHTTP2_CLIENT_MAGIC))" for srv
    using session_new_cases [OF assms(1), of grant n srv opt] plenty_of_memory [OF _ assms(1), of grant n srv opt]
    by (auto simp: memory_refused_def)
  have "requests_ok (s\<lparr>next_stream_id := 1\<rparr>)" if "fresh_session (s\<lparr>next_stream_id := 1\<rparr>) opt" "\<not> server s" for s
    using that by (simp add: requests_ok_def fresh_session_def idle_session_def)
  then show ?thesis
    using new [of False] new [of True]
    by (fastforce simp: nghttp2_session_client_new3_def nghttp2_session_server_new3_def)
qed

text \<open>A server with three options set: at most 7 entries of SETTINGS, no automatic PING answers and no magic.\<close>

definition some_options :: nghttp2_option where
  "some_options = nghttp2_option_set_max_settings (nghttp2_option_set_no_auto_ping_ack
     (nghttp2_option_set_no_recv_client_magic nghttp2_option_new 1) 1) 7"

theorem new_connection_witness:
  "\<exists>s. nghttp2_session_server_new3 (\<lambda>_. True) (\<lambda>k n. Some (replicate n 0)) 2000 (Some some_options) = Inr s \<and>
     next_stream_id s = 2 \<and> max_settings s = 7 \<and> max_outbound_ack s = 1000 \<and> opt_flags s = 0x0a \<and>
     iframe_state s = NGHTTP2_IB_READ_FIRST_SETTINGS"
proof -
  have chosen: "chosen (Some some_options) k f = (if k = 2 \<or> k = 6 \<or> k = 12 then Some (f some_options) else None)"
    for k and f :: "nghttp2_option \<Rightarrow> 'a"
    by (auto simp: chosen_def some_options_def option_setters mark_set_def option_masks
        nghttp2_option_new_def bit_mask bit_of_bit)
  have sw: "switched_on (Some some_options) k f \<longleftrightarrow> (k = 2 \<or> k = 6 \<or> k = 12) \<and> f some_options \<noteq> 0" for k f
    by (simp add: switched_on_def given_def chosen)
  have opts: "opt_no_recv_client_magic some_options = 1" "opt_no_auto_ping_ack some_options = 1"
      "opt_max_settings some_options = 7"
    by (simp_all add: some_options_def option_setters mark_set_def)
  obtain s where s: "nghttp2_session_server_new3 (\<lambda>_. True) (\<lambda>k n. Some (replicate n 0)) 2000 (Some some_options) = Inr s"
      "fresh_session s (Some some_options)" "server s" "next_stream_id s = 2"
    using new_connection [OF replicate_grants, of "\<lambda>_. True" 2000 "Some some_options"]
    by (auto simp: memory_refused_def)
  have "bit (opt_flags s) j \<longleftrightarrow> j = 1 \<or> j = 3" for j
    using s(2) by (simp add: fresh_session_def flags_set_def sw opts)
  moreover have "bit (0x0a :: u32) j \<longleftrightarrow> j = 1 \<or> j = 3" for j
    using bit_mask [of "bit_of 1" 3 j] bit_of_bit [of 1 j] by (simp add: bit_of_def)
  ultimately have "opt_flags s = 0x0a" by (intro bit_word_eqI) blast
  moreover have "max_settings s = 7" "max_outbound_ack s = 1000"
    using s(2) by (simp_all add: fresh_session_def limits_set_def given_def chosen opts)
  moreover have "iframe_state s = NGHTTP2_IB_READ_FIRST_SETTINGS"
    using s(2) by (simp add: fresh_session_def reads_first_def sw opts)
  ultimately show ?thesis using s by blast
qed

definition plain_env :: env where
  "plain_env = \<lparr>alloc = (\<lambda>_. True), callback = (\<lambda>ev s. (s, 0)), sizeof_stream = 200, sizeof_item = 200, sizeof_inflight = 12\<rparr>"

lemma plain_env_ok [simp]: "quiet plain_env" "alloc plain_env n"
  by (simp_all add: plain_env_def quiet_def)

lemma submit_request_plain:
  assumes "requests_ok s" "next_stream_id s \<le> 0x7fffffff"
  shows "nghttp2_submit_request plain_env s None nva p u =
    Inr (request_queued s (request_frame s None nva p) p u, Inr (uint (next_stream_id s)))"
  using assms
  by (simp add: nghttp2_submit_request_def submit_headers_shared_nva_def usable_spec_def submit_headers_shared_def Let_def
      nghttp2_nv_array_copy_def copy_nvs_eq requests_ok_def
      submit_item_def nghttp2_session_add_item_def nghttp2_frame_headers_init_def queue_syn_def mark_queued_def
      request_frame_def request_queued_def nghttp2_outbound_item_init_def ret_def sint_small)

text \<open>A client that has just submitted a request.\<close>

definition one_request :: "session \<Rightarrow> session" where
  "one_request s = request_queued s (request_frame s None [] False) False 7"

lemma one_request_ok:
  assumes "fresh_session s None" "requests_ok s" "next_stream_id s = 1"
  shows "requests_ok (one_request s)" "ob_syn (one_request s) = [new_item s]" "item_id (one_request s) (new_item s) = 1"
    "\<not> aux_canceled (items (one_request s) (new_item s))" "nghttp2_session_get_stream (one_request s) i = None"
proof -
  show "requests_ok (one_request s)"
    unfolding one_request_def using assms by (intro requests_ok_queued) simp_all
  show "item_id (one_request s) (new_item s) = 1"
    using assms by (simp add: one_request_def item_id_queued request_frame_fields)
  show "ob_syn (one_request s) = [new_item s]" "\<not> aux_canceled (items (one_request s) (new_item s))"
    using assms by (simp_all add: one_request_def request_queued_def fresh_session_def idle_session_def nghttp2_outbound_item_init_def)
  show "nghttp2_session_get_stream (one_request s) i = None"
    using assms
    by (simp add: nghttp2_session_get_stream_def nghttp2_session_get_stream_raw_def one_request_def request_queued_def
        fresh_session_def idle_session_def)
qed

lemma new_client_made:
  "\<exists>s. nghttp2_session_client_new3 (\<lambda>_. True) (\<lambda>k n. Some (replicate n 0)) 2000 opt = Inr s"
  using plenty_of_memory [OF _ replicate_grants, of "\<lambda>_. True" 2000 False opt]
  by (auto simp: nghttp2_session_client_new3_def)

lemma new_client:
  obtains s where "nghttp2_session_client_new3 (\<lambda>_. True) (\<lambda>k n. Some (replicate n 0)) 2000 None = Inr s"
    "fresh_session s None" "requests_ok s" "next_stream_id s = 1"
proof -
  obtain s where s: "nghttp2_session_client_new3 (\<lambda>_. True) (\<lambda>k n. Some (replicate n 0)) 2000 None = Inr s"
    using new_client_made by blast
  then obtain s0 where new: "session_new (\<lambda>_. True) (\<lambda>k n. Some (replicate n 0)) 2000 False None = Inr s0"
      and s0: "s = s0\<lparr>next_stream_id := 1\<rparr>"
    by (auto simp: nghttp2_session_client_new3_def rbind_def split: sum.splits)
  have "fresh_session s None" "server s = False"
    using session_new_cases [OF replicate_grants, of "\<lambda>_. True" 2000 False None] new s0 by auto
  then show thesis
    using s s0 by (intro that [of s]) (simp_all add: requests_ok_def fresh_session_def idle_session_def)
qed

text \<open>A new client: a request of weight 300 that depends on stream 3, which is queued as stream 1 with weight 256, and
  one that would depend on itself.\<close>

theorem submit_request_correct_witness:
  "\<exists>s s' s''. nghttp2_session_client_new3 (\<lambda>_. True) (\<lambda>k n. Some (replicate n 0)) 2000 None = Inr s \<and>
     nghttp2_submit_request plain_env s (Some \<lparr>ps_stream_id = 3, ps_weight = 300, ps_exclusive = True\<rparr>) [] False 7 =
       Inr (s', Inr 1) \<and> requests_ok s' \<and> ob_syn s' = [new_item s] \<and>
     fr_flags (oi_frame (items s' (new_item s))) = 0x25 \<and>
     body (oi_frame (items s' (new_item s))) = Headers_frame NGHTTP2_HCAT_REQUEST
       \<lparr>ps_stream_id = 3, ps_weight = 256, ps_exclusive = True\<rparr> [] \<and>
     nghttp2_submit_request plain_env s (Some \<lparr>ps_stream_id = 1, ps_weight = 16, ps_exclusive = False\<rparr>) [] False 7 =
       Inr (s'', Inl NGHTTP2_ERR_INVALID_ARGUMENT)"
proof -
  obtain s where new: "nghttp2_session_client_new3 (\<lambda>_. True) (\<lambda>k n. Some (replicate n 0)) 2000 None = Inr s"
    "fresh_session s None" "requests_ok s" "next_stream_id s = 1" by (rule new_client)
  let ?p = "Some \<lparr>ps_stream_id = 3, ps_weight = 300, ps_exclusive = True\<rparr>"
  let ?q = "Some \<lparr>ps_stream_id = 1, ps_weight = 16, ps_exclusive = False\<rparr>"
  have pri: "no_rfc7540_priorities (remote_settings s) \<noteq> 1"
    using fresh_remote [OF new(2)] by simp
  then have "\<not> depends_on_itself s ?p" "depends_on_itself s ?q"
    "sent_spec s ?p = Some \<lparr>ps_stream_id = 3, ps_weight = 256, ps_exclusive = True\<rparr>"
    using new(4) by (auto simp: depends_on_itself_def sent_spec_def default_spec_def)
  then show ?thesis
    using submit_request_correct [OF new(3), of plain_env ?p "[]" False 7]
      submit_request_correct [OF new(3), of plain_env ?q "[]" False 7] new
    by (fastforce simp: fresh_session_def idle_session_def Let_def split: sum.splits)
qed

theorem reset_of_waiting_request_witness:
  "\<exists>s s'. nghttp2_session_client_new3 (\<lambda>_. True) (\<lambda>k n. Some (replicate n 0)) 2000 None = Inr s \<and>
     nghttp2_submit_rst_stream plain_env (one_request s) 1 8 = Inr (s', None) \<and> requests_ok s' \<and>
     aux_error_code (items s' (new_item s)) = 8"
proof -
  obtain s where new: "nghttp2_session_client_new3 (\<lambda>_. True) (\<lambda>k n. Some (replicate n 0)) 2000 None = Inr s"
    "fresh_session s None" "requests_ok s" "next_stream_id s = 1" by (rule new_client)
  note one = one_request_ok [OF new(2-4)]
  show ?thesis
    using new(1) reset_of_waiting_request [OF one(1) _ one(4) one(5), of plain_env 8] one(2,3) by auto
qed

theorem second_reset_ends_connection_witness:
  "\<exists>s s1 s2 p. nghttp2_session_client_new3 (\<lambda>_. True) (\<lambda>k n. Some (replicate n 0)) 2000 None = Inr s \<and>
     nghttp2_submit_rst_stream plain_env (one_request s) 1 8 = Inr (s1, None) \<and>
     nghttp2_submit_rst_stream plain_env s1 1 8 = Inr (s2, None) \<and> ob_reg s2 = [new_item s1] \<and>
     nghttp2_session_on_rst_stream_received plain_env (s\<lparr>server := True\<rparr>) (oi_frame (items s2 (new_item s1))) 8 = Inr (p, None) \<and>
     has (goaway_flags p) NGHTTP2_GOAWAY_TERM_ON_SEND"
proof -
  obtain s where new: "nghttp2_session_client_new3 (\<lambda>_. True) (\<lambda>k n. Some (replicate n 0)) 2000 None = Inr s"
    "fresh_session s None" "requests_ok s" "next_stream_id s = 1" by (rule new_client)
  note one = one_request_ok [OF new(2-4)]
  let ?s1 = "one_request s\<lparr>items := (items (one_request s))(new_item s := (items (one_request s) (new_item s))
    \<lparr>aux_error_code := 8, aux_canceled := True\<rparr>)\<rparr>"
  have first: "nghttp2_submit_rst_stream plain_env (one_request s) 1 8 = Inr (?s1, None)"
    using add_rst_stream_request [OF one(1) _ one(5), of "new_item s" plain_env 8] one(2-4)
    by (simp add: nghttp2_submit_rst_stream_def ret_def)
  have ok: "requests_ok ?s1"
    by (rule requests_ok_same_frames [OF one(1)]) simp_all
  have id: "item_id ?s1 (new_item s) = 1"
    using one(3) by (simp add: item_id_def)
  have empty: "ob_reg ?s1 = []" and it: "new_item s \<in> set (ob_syn ?s1)"
    using new(2) one(2) by (simp_all add: one_request_def request_queued_def fresh_session_def idle_session_def)
  have none: "nghttp2_session_get_stream ?s1 (item_id ?s1 (new_item s)) = None"
    using one(5) by simp
  have peer: "server (s\<lparr>server := True\<rparr>)" "last_recv_stream_id (s\<lparr>server := True\<rparr>) < item_id ?s1 (new_item s)"
      "\<not> has (goaway_flags (s\<lparr>server := True\<rparr>)) NGHTTP2_GOAWAY_TERM_ON_SEND"
      "\<not> nghttp2_session_is_my_stream_id (s\<lparr>server := True\<rparr>) (last_proc_stream_id (s\<lparr>server := True\<rparr>))"
    using new(2) id by (simp_all add: fresh_session_def idle_session_def has_def nghttp2_session_is_my_stream_id_def)
  have "has (goaway_flags (terminated p l c r)) NGHTTP2_GOAWAY_TERM_ON_SEND" for p l c r
    by (simp add: terminated_def has_def NGHTTP2_GOAWAY_TERM_ON_SEND_def bit.conj_disj_distrib2 word_bw_comms)
  then show ?thesis
    using second_reset_ends_connection [OF ok it _ none _ peer, of plain_env plain_env 8] new(1) first empty id
    by (auto simp: Let_def)
qed

end
