(* ===== verification/SendWindow.thy ===== *)
theory SendWindow
  imports SessSend
begin

text \<open>
  What the operations on streams do to the windows for sending: nothing. The windows change when DATA is sent, and when
  the peer sends WINDOW_UPDATE or SETTINGS; to take an item off a stream, to close a stream, and to keep or forget a
  closed one leaves all of them alone, whatever the dependency tree looks like.
\<close>

named_theorems keeps_windows "the operations that leave the windows for sending alone"

section \<open>The dependency tree\<close>

definition same_windows :: "dtree \<Rightarrow> dtree \<Rightarrow> bool" where
  "same_windows t0 t \<longleftrightarrow> (\<forall>k. remote_window_size (str t k) = remote_window_size (str t0 k))"

definition tree_keeps :: "dtree \<Rightarrow> dtree res \<Rightarrow> bool" where
  "tree_keeps t0 m \<longleftrightarrow> (\<forall>t. m = Inr t \<longrightarrow> same_windows t0 t)"

definition code_keeps :: "dtree \<Rightarrow> (dtree \<times> 'a) res \<Rightarrow> bool" where
  "code_keeps t0 m \<longleftrightarrow> (\<forall>t x. m = Inr (t, x) \<longrightarrow> same_windows t0 t)"

lemma same_windows_refl [simp]: "same_windows t t"
  by (simp add: same_windows_def)

lemma same_windows_upd [keeps_windows]:
  "same_windows t0 t \<Longrightarrow> remote_window_size (f (str t a)) = remote_window_size (str t a) \<Longrightarrow> same_windows t0 (upd t a f)"
  "same_windows t0 t \<Longrightarrow> same_windows t0 (store_obq t d p)"
  by (simp_all add: same_windows_def upd_def store_obq_def)

lemma results_keep [keeps_windows]:
  "same_windows t0 t \<Longrightarrow> tree_keeps t0 (Inr t)" "tree_keeps t0 (Inl f)"
  "same_windows t0 t \<Longrightarrow> code_keeps t0 (Inr (t, x))" "code_keeps t0 (Inl f)"
  by (simp_all add: tree_keeps_def code_keeps_def)

lemma binds_keep [keeps_windows]:
  "tree_keeps t0 m \<Longrightarrow> (\<And>t. same_windows t0 t \<Longrightarrow> tree_keeps t0 (f t)) \<Longrightarrow> tree_keeps t0 (rbind m f)"
  "tree_keeps t0 m \<Longrightarrow> (\<And>t. same_windows t0 t \<Longrightarrow> code_keeps t0 (g t)) \<Longrightarrow> code_keeps t0 (rbind m g)"
  "code_keeps t0 n \<Longrightarrow> (\<And>t x. same_windows t0 t \<Longrightarrow> tree_keeps t0 (f' (t, x))) \<Longrightarrow> tree_keeps t0 (rbind n f')"
  "code_keeps t0 n \<Longrightarrow> (\<And>t x. same_windows t0 t \<Longrightarrow> code_keeps t0 (g' (t, x))) \<Longrightarrow> code_keeps t0 (rbind n g')"
  "code_keeps t0 c \<Longrightarrow> (\<And>t. same_windows t0 t \<Longrightarrow> code_keeps t0 (h t)) \<Longrightarrow> code_keeps t0 (and_ok c h)"
  unfolding tree_keeps_def code_keeps_def and_ok_def rbind_eq_Inr_iff
  by (blast | clarsimp split: option.splits; blast)+

text \<open>Steps that compute something else.\<close>

lemma skips_keep:
  "(\<And>x. r = Inr x \<Longrightarrow> tree_keeps t0 (f x)) \<Longrightarrow> tree_keeps t0 (rbind r f)"
  "(\<And>x. r = Inr x \<Longrightarrow> code_keeps t0 (g x)) \<Longrightarrow> code_keeps t0 (rbind r g)"
  by (auto simp: tree_keeps_def code_keeps_def rbind_eq_Inr_iff)

lemmas skip_keeps [keeps_windows] =
  skips_keep [where r = "r :: stream res" for r] skips_keep [where r = "r :: int res" for r]
  skips_keep [where r = "r :: unit res" for r] skips_keep [where r = "r :: nat res" for r]

lemma branches_keep [keeps_windows]:
  "(b \<Longrightarrow> tree_keeps t0 m) \<Longrightarrow> (\<not> b \<Longrightarrow> tree_keeps t0 n) \<Longrightarrow> tree_keeps t0 (if b then m else n)"
  "(b \<Longrightarrow> code_keeps t0 c) \<Longrightarrow> (\<not> b \<Longrightarrow> code_keeps t0 d) \<Longrightarrow> code_keeps t0 (if b then c else d)"
  by simp_all

lemma options_keep [keeps_windows]:
  "tree_keeps t0 m \<Longrightarrow> (\<And>k. tree_keeps t0 (f k)) \<Longrightarrow> tree_keeps t0 (case opt of None \<Rightarrow> m | Some k \<Rightarrow> f k)"
  "code_keeps t0 c \<Longrightarrow> (\<And>k. code_keeps t0 (g k)) \<Longrightarrow> code_keeps t0 (case opt of None \<Rightarrow> c | Some k \<Rightarrow> g k)"
  by (simp_all split: option.split)

lemma next_cycle_window: "stream_next_cycle s c = Inr s' \<Longrightarrow> remote_window_size s' = remote_window_size s"
  by (auto simp: stream_next_cycle_def Let_def split: if_splits)

lemma queue_ops_keep [keeps_windows]:
  "same_windows t0 t \<Longrightarrow> code_keeps t0 (queue_push grant t d s)"
  "same_windows t0 t \<Longrightarrow> tree_keeps t0 (queue_remove t d s)"
  by (auto simp: queue_push_def queue_remove_def code_keeps_def tree_keeps_def rbind_eq_Inr_iff same_windows_upd(2)
      split: sum.splits fault.splits)

lemma obq_push_keeps [keeps_windows]: "same_windows t0 t \<Longrightarrow> code_keeps t0 (stream_obq_push grant n t d s)"
proof (induction grant n t d s rule: stream_obq_push.induct)
  case (3 grant n t d s)
  show ?case
    unfolding stream_obq_push.simps Let_def
    by (rule keeps_windows 3 | assumption | simp add: upd_def next_cycle_window)+
qed (simp_all add: code_keeps_def)

lemma obq_remove_keeps [keeps_windows]:
  "same_windows t0 t \<Longrightarrow> tree_keeps t0 (obq_remove_loop n t d s)"
proof (induction n t d s rule: obq_remove_loop.induct)
  case (3 n t d s)
  show ?case
    unfolding obq_remove_loop.simps Let_def
    by (rule keeps_windows 3 | assumption | simp)+
qed (simp_all add: tree_keeps_def)

lemma queues_keep [keeps_windows]:
  "same_windows t0 t \<Longrightarrow> tree_keeps t0 (stream_obq_remove n t s)"
  "same_windows t0 t \<Longrightarrow> code_keeps t0 (stream_obq_move grant n t d src s)"
  "same_windows t0 t \<Longrightarrow> tree_keeps t0 (nghttp2_stream_detach_item n t s)"
  unfolding stream_obq_remove_def stream_obq_move_def nghttp2_stream_detach_item_def Let_def
    stream_update_dep_on_detach_item_def stream_obq_remove_def
  by (rule keeps_windows | assumption | simp)+

lemma links_keep [keeps_windows]:
  "same_windows t0 t \<Longrightarrow> same_windows t0 (link_dep t d o1)"
  "same_windows t0 t \<Longrightarrow> same_windows t0 (link_sib t d o1)"
  by (auto simp: link_dep_def link_sib_def Let_def same_windows_def upd_def split: option.splits)

lemma set_dep_prev_keeps [keeps_windows]: "same_windows t0 t \<Longrightarrow> tree_keeps t0 (set_dep_prev n t s dep)"
proof (induction n t s dep rule: set_dep_prev.induct)
  case (3 n t s dep)
  show ?case
    unfolding set_dep_prev.simps Let_def by (rule 3 keeps_windows | rule 3(2) | simp)+
qed (simp_all add: tree_keeps_def)

lemma unlinks_keep [keeps_windows]:
  "same_windows t0 t \<Longrightarrow> tree_keeps t0 (splice_children n t s k)"
  "same_windows t0 t \<Longrightarrow> tree_keeps t0 (unlink_sib n t s)"
  "same_windows t0 t \<Longrightarrow> tree_keeps t0 (unlink_dep n t s)"
  "same_windows t0 t \<Longrightarrow> tree_keeps t0 (add_dep_weight t s w)"
  unfolding splice_children_def unlink_sib_def unlink_dep_def add_dep_weight_def Let_def
  by (rule keeps_windows | assumption | simp)+

lemma distribute_keeps:
  "same_windows t0 t \<Longrightarrow> distribute_loop grant m n t s delta si = Inr ((t', d'), rv) \<Longrightarrow> same_windows t0 t'"
proof (induction grant m n t s delta si rule: distribute_loop.induct)
  case (3 grant m n t s delta si)
  obtain w where w: "nghttp2_stream_dep_distributed_weight (str t s) (weight (str t si)) = Inr w"
    using 3(3) by (auto simp: rbind_eq_Inr_iff)
  let ?t1 = "upd t si (\<lambda>x. x\<lparr>weight := w\<rparr>)"
  have "same_windows t0 ?t1" using 3(2) by (rule keeps_windows) simp
  then have "code_keeps t0 (if queued (str ?t1 si) then stream_obq_move grant m ?t1 (dep_prev (str ?t1 s)) s si
      else Inr (?t1, None))"
    by - (rule branches_keep queues_keep results_keep | assumption)+
  then show ?case
    using 3(3) w 3(1) by (fastforce simp: rbind_eq_Inr_iff Let_def code_keeps_def split: option.splits)
qed simp_all

lemma dep_remove_keeps [keeps_windows]:
  assumes "same_windows t0 t"
  shows "code_keeps t0 (nghttp2_stream_dep_remove grant n t s)"
proof -
  have rest: "code_keeps t0 (case dep_prev (str t1 s) of None \<Rightarrow> Inl Assert_failed
      | Some d \<Rightarrow>
          rbind (add_dep_weight t1 d delta) (\<lambda>t2.
          rbind (if queued (str t2 s) then stream_obq_remove n t2 s else Inr t2) (\<lambda>t3.
          rbind (if sib_prev (str t3 s) \<noteq> None then unlink_sib n t3 s else unlink_dep n t3 s) (\<lambda>t4.
          Inr (upd t4 s (\<lambda>x. x\<lparr>sum_dep_weight := 0, dep_prev := None, dep_next := None,
                               sib_prev := None, sib_next := None\<rparr>), None :: nghttp2_error option)))))"
    if "same_windows t0 t1" for t1 delta
    using that by - (rule keeps_windows | assumption | simp)+
  show ?thesis
    unfolding nghttp2_stream_dep_remove_def
    by (intro skips_keep) (auto split: option.split intro!: keeps_windows rest intro: distribute_keeps [OF assms])
qed

section \<open>A connection\<close>

definition same_credit :: "session \<Rightarrow> session \<Rightarrow> bool" where
  "same_credit s0 s \<longleftrightarrow> conn_remote_window_size s = conn_remote_window_size s0 \<and> same_windows (tree s0) (tree s)"

definition keeps_credit :: "session \<Rightarrow> ses \<Rightarrow> bool" where
  "keeps_credit s0 m \<longleftrightarrow> (\<forall>s rv. m = Inr (s, rv) \<longrightarrow> same_credit s0 s)"

text \<open>The programmers' guide (\<open>doc/programmers-guide.rst\<close>) forbids to send or receive in a callback: what is left is
  to submit requests and frames, which does not touch the windows for sending.\<close>

definition callbacks_only_submit :: "env \<Rightarrow> bool" where
  "callbacks_only_submit e \<longleftrightarrow> (\<forall>ev s. same_credit s (fst (callback e ev s)))"

lemma same_credit_refl [simp]: "same_credit s s"
  by (simp add: same_credit_def)

lemma same_credit_trans: "same_credit s0 s1 \<Longrightarrow> same_credit s1 s2 \<Longrightarrow> same_credit s0 s2"
  by (simp add: same_credit_def same_windows_def)

lemma same_credit_upd:
  "same_credit s0 s \<Longrightarrow> remote_window_size (f (stream_at s k)) = remote_window_size (stream_at s k) \<Longrightarrow>
     same_credit s0 (upd_stream s k f)"
  by (simp add: same_credit_def upd_stream_def same_windows_upd)

lemma same_credit_fields [simp]:
  "same_credit s0 (store_data_queue s u p) = same_credit s0 s"
  "same_credit s0 (uncount_stream s k i) = same_credit s0 s"
  "same_credit s0 (s\<lparr>closed_stream_head := h\<rparr>) = same_credit s0 s"
  "same_credit s0 (s\<lparr>closed_stream_tail := h, num_closed_streams := n\<rparr>) = same_credit s0 s"
  "same_credit s0 (s\<lparr>streams := m\<rparr>) = same_credit s0 s"
  by (simp_all add: same_credit_def store_data_queue_def uncount_stream_def same_windows_def)

lemma credit_results:
  "same_credit s0 s \<Longrightarrow> keeps_credit s0 (ret s)" "same_credit s0 s \<Longrightarrow> keeps_credit s0 (fails s c)"
  "keeps_credit s0 (Inl f)" "same_credit s0 s \<Longrightarrow> keeps_credit s0 (Inr (s, x))"
  by (simp_all add: keeps_credit_def ret_def fails_def)

lemma credit_steps:
  "keeps_credit s0 m \<Longrightarrow> (\<And>s. same_credit s0 s \<Longrightarrow> keeps_credit s0 (f s)) \<Longrightarrow> keeps_credit s0 (if_ok m f)"
  "keeps_credit s0 m \<Longrightarrow> (\<And>s rv. same_credit s0 s \<Longrightarrow> keeps_credit s0 (g s rv)) \<Longrightarrow> keeps_credit s0 (unless_fatal m g)"
  "(b \<Longrightarrow> keeps_credit s0 m) \<Longrightarrow> (\<not> b \<Longrightarrow> keeps_credit s0 m') \<Longrightarrow> keeps_credit s0 (if b then m else m')"
  "keeps_credit s0 m \<Longrightarrow> (\<And>k. keeps_credit s0 (h k)) \<Longrightarrow> keeps_credit s0 (case opt of None \<Rightarrow> m | Some k \<Rightarrow> h k)"
  unfolding keeps_credit_def if_ok_def unless_fatal_def rbind_eq_Inr_iff
  by (fastforce split: option.splits if_splits)+

lemma credit_skips:
  "(\<And>x. r = Inr x \<Longrightarrow> keeps_credit s0 (f x)) \<Longrightarrow> keeps_credit s0 (rbind r f)"
  by (auto simp: keeps_credit_def rbind_eq_Inr_iff)

lemma credit_tree:
  "same_credit s0 s \<Longrightarrow> code_keeps (tree s) m \<Longrightarrow> keeps_credit s0 (on_tree s m)"
  "same_credit s0 s \<Longrightarrow> tree_keeps (tree s) m' \<Longrightarrow> keeps_credit s0 (on_tree' s m')"
  by (auto simp: keeps_credit_def on_tree_def on_tree'_def rbind_eq_Inr_iff code_keeps_def tree_keeps_def
      same_credit_def same_windows_def)

lemma credit_report:
  assumes "callbacks_only_submit e" "same_credit s0 s" "\<And>s. same_credit s0 s \<Longrightarrow> keeps_credit s0 (f s)"
  shows "keeps_credit s0 (report e s ev f)"
proof -
  obtain s1 rv where c: "callback e ev s = (s1, rv)" by fastforce
  then have "same_credit s s1"
    using assms(1) [unfolded callbacks_only_submit_def, rule_format, of s ev] by simp
  then show ?thesis
    using assms(2,3) same_credit_trans c by (auto simp: report_def intro!: credit_results)
qed

lemmas credit_rules = credit_results credit_steps credit_tree same_credit_upd keeps_windows same_windows_refl

lemma detach_item_credit: "same_credit s0 s \<Longrightarrow> keeps_credit s0 (session_detach_stream_item s k)"
  unfolding session_detach_stream_item_def session_ob_data_remove_def Let_def
  by (rule credit_rules | assumption | rule credit_skips | simp)+

lemma keep_closed_credit:
  "same_credit s0 s \<Longrightarrow> nghttp2_session_keep_closed_stream s k = Inr s' \<Longrightarrow> same_credit s0 s'"
  by (auto simp: nghttp2_session_keep_closed_stream_def write_stream_def rbind_eq_Inr_iff same_credit_upd
      split: option.splits if_splits)

lemma destroy_credit: "same_credit s0 s \<Longrightarrow> keeps_credit s0 (nghttp2_session_destroy_stream e s k)"
  unfolding nghttp2_session_destroy_stream_def
  by (rule credit_rules | assumption | simp split: option.split prod.split | intro allI impI)+

lemma close_stream_credit:
  assumes "callbacks_only_submit e" "same_credit s0 s"
  shows "keeps_credit s0 (nghttp2_session_close_stream e s i code)"
  unfolding nghttp2_session_close_stream_def Let_def
  by (rule credit_steps credit_results credit_report detach_item_credit destroy_credit same_credit_upd assms
      | assumption | erule keep_closed_credit [rotated] | rule credit_skips | simp)+

lemma close_if_shut_credit:
  "callbacks_only_submit e \<Longrightarrow> same_credit s0 s \<Longrightarrow> keeps_credit s0 (nghttp2_session_close_stream_if_shut_rdwr e s k)"
  unfolding nghttp2_session_close_stream_if_shut_rdwr_def
  by (rule credit_steps credit_results close_stream_credit | assumption)+

end
