(* ===== verification/SessWin.thy ===== *)
theory SessWin
  imports SessReq SendWindow
begin

text \<open>
  The windows of a connection and of its streams: what the peer may still send after data was received or
  consumed, and what this end may send. A target is the connection or the address of a stream.
\<close>

section \<open>Targets\<close>

definition window_of :: "session \<Rightarrow> nat option \<Rightarrow> window" where
  "window_of s t = (case t of None \<Rightarrow> conn_window s | Some k \<Rightarrow> stream_window (stream_at s k))"

definition consumed_of :: "session \<Rightarrow> nat option \<Rightarrow> int" where
  "consumed_of s t = (case t of None \<Rightarrow> conn_consumed_size s | Some k \<Rightarrow> consumed_size (stream_at s k))"

definition update_queued :: "session \<Rightarrow> nat option \<Rightarrow> bool" where
  "update_queued s t =
     (case t of None \<Rightarrow> conn_window_update_queued s | Some k \<Rightarrow> window_update_queued (stream_at s k))"

definition target_id :: "session \<Rightarrow> nat option \<Rightarrow> int" where
  "target_id s t = (case t of None \<Rightarrow> 0 | Some k \<Rightarrow> stream_id (stream_at s k))"

lemma target_id_simps [simp]: "target_id s None = 0" "target_id s (Some k) = stream_id (stream_at s k)"
  by (simp_all add: target_id_def)

text \<open>The target has its identifier in the map; the connection has 0, which no stream has.\<close>

definition target_ok :: "session \<Rightarrow> nat option \<Rightarrow> bool" where
  "target_ok s t \<longleftrightarrow> nghttp2_session_get_stream s (target_id s t) = t \<and> (t = None \<longleftrightarrow> target_id s t = 0)"

definition received :: "env \<Rightarrow> session \<Rightarrow> nat option \<Rightarrow> u32 \<Rightarrow> ses" where
  "received e s t delta =
     (case t of None \<Rightarrow> nghttp2_session_update_recv_connection_window_size e s delta
      | Some k \<Rightarrow> nghttp2_session_update_recv_stream_window_size e s k delta True)"

definition consumed :: "env \<Rightarrow> session \<Rightarrow> nat option \<Rightarrow> u32 \<Rightarrow> ses" where
  "consumed e s t delta =
     (case t of None \<Rightarrow> session_update_connection_consumed_size e s delta
      | Some k \<Rightarrow> session_update_stream_consumed_size e s k delta)"

text \<open>A WINDOW_UPDATE frame at the end of the queue of ordinary frames.\<close>

definition announces :: "session \<Rightarrow> session \<Rightarrow> nat option \<Rightarrow> int \<Rightarrow> bool" where
  "announces s s' t increment \<longleftrightarrow>
     ob_reg s' = ob_reg s @ [new_item s] \<and> update_queued s' t \<and>
     oi_frame (items s' (new_item s)) = nghttp2_frame_window_update_init NGHTTP2_FLAG_NONE (target_id s t) increment"

definition with_update :: "session \<Rightarrow> nat option \<Rightarrow> int \<Rightarrow> session" where
  "with_update s t increment =
     (let s1 = s\<lparr>new_item := new_item s + 1, ob_reg := ob_reg s @ [new_item s],
            items := (items s)(new_item s := (nghttp2_outbound_item_init
              (nghttp2_frame_window_update_init NGHTTP2_FLAG_NONE (target_id s t) increment))\<lparr>oi_queued := True\<rparr>)\<rparr>
      in case t of None \<Rightarrow> s1\<lparr>conn_window_update_queued := True\<rparr>
         | Some k \<Rightarrow> upd_stream s1 k (\<lambda>x. x\<lparr>window_update_queued := True\<rparr>))"

lemma add_window_update_eq:
  assumes "target_ok s t"
  shows "nghttp2_session_add_window_update e s NGHTTP2_FLAG_NONE (target_id s t) increment =
    (if alloc e (sizeof_item e) then Inr (with_update s t increment, None) else Inr (s, Some NGHTTP2_ERR_NOMEM))"
  using assms
  by (cases t)
    (simp_all add: nghttp2_session_add_window_update_def submit_new_def submit_item_def nghttp2_session_add_item_def
      nghttp2_frame_window_update_init_def target_ok_def Let_def queue_reg_def mark_queued_def ret_def fails_def
      with_update_def upd_stream_def nghttp2_outbound_item_init_def)

lemma with_update_fields:
  "window_of (with_update s t c) t = window_of s t" "consumed_of (with_update s t c) t = consumed_of s t"
  "announces s (with_update s t c) t c" "target_id (with_update s t c) t = target_id s t"
  by (cases t; simp add: with_update_def window_of_def consumed_of_def announces_def update_queued_def target_id_def
      conn_window_def stream_window_def nghttp2_outbound_item_init_def upd_stream_def upd_def Let_def)+

text \<open>The two sizes of a target, written.\<close>

definition put_sizes :: "session \<Rightarrow> nat option \<Rightarrow> int \<Rightarrow> int \<Rightarrow> session" where
  "put_sizes s t c r =
     (case t of None \<Rightarrow> s\<lparr>conn_consumed_size := c, conn_recv_window_size := r\<rparr>
      | Some k \<Rightarrow> upd_stream s k (\<lambda>x. x\<lparr>consumed_size := c, stream.recv_window_size := r\<rparr>))"

lemma put_sizes_fields [simp]:
  "window_of (put_sizes s t c r) t = (window_of s t)\<lparr>window.recv_window_size := r\<rparr>"
  "consumed_of (put_sizes s t c r) t = c" "update_queued (put_sizes s t c r) t = update_queued s t"
  "target_id (put_sizes s t c r) t = target_id s t" "ob_reg (put_sizes s t c r) = ob_reg s"
  "items (put_sizes s t c r) = items s" "new_item (put_sizes s t c r) = new_item s"
  "opt_flags (put_sizes s t c r) = opt_flags s"
  by (cases t; simp add: put_sizes_def window_of_def consumed_of_def update_queued_def target_id_def
      conn_window_def stream_window_def upd_stream_def upd_def)+

lemma target_ok_put_sizes [simp]: "target_ok (put_sizes s t c r) t = target_ok s t"
proof -
  have "nghttp2_session_get_stream (put_sizes s t c r) i = nghttp2_session_get_stream s i" for i
    by (cases t) (simp_all add: put_sizes_def nghttp2_session_get_stream_def nghttp2_session_get_stream_raw_def
      upd_stream_def upd_def split: option.split)
  then show ?thesis by (simp add: target_ok_def)
qed

section \<open>Data received\<close>

lemma put_recv:
  "s\<lparr>conn_recv_window_size := r\<rparr> = put_sizes s None (consumed_of s None) r"
  "upd_stream s k (\<lambda>x. x\<lparr>stream.recv_window_size := r\<rparr>) = put_sizes s (Some k) (consumed_of s (Some k)) r"
  by (simp_all add: put_sizes_def consumed_of_def upd_stream_def upd_def)

lemma adjust_recv_eq:
  assumes "window_ok w" "0 \<le> sint delta"
  shows "adjust_recv_window_size (window.recv_window_size w) delta (window.local_window_size w) =
    Inr (if sint delta > available w then None else Some (window.recv_window_size w + sint delta))"
proof -
  have "sint delta \<le> 2147483647"
    using sint_lt [of delta] by simp
  then show ?thesis
    using assms by (auto simp: adjust_recv_window_size_def window_arith)
qed

definition automatic :: "session \<Rightarrow> bool" where
  "automatic s \<longleftrightarrow> opt_flags s AND NGHTTP2_OPTMASK_NO_AUTO_WINDOW_UPDATE = 0"

definition flow_error :: "env \<Rightarrow> session \<Rightarrow> nat option \<Rightarrow> ses" where
  "flow_error e s t =
     (case t of None \<Rightarrow> nghttp2_session_terminate_session e s (http2_code NGHTTP2_FLOW_CONTROL_ERROR)
      | Some k \<Rightarrow> nghttp2_session_add_rst_stream e s (target_id s t) (http2_code NGHTTP2_FLOW_CONTROL_ERROR))"

lemma received_eq:
  assumes ok: "window_ok (window_of s t)" and d: "0 \<le> sint delta" and t: "target_ok s t"
  defines "w \<equiv> window_of s t"
  defines "s1 \<equiv> put_sizes s t (consumed_of s t) (window.recv_window_size w + sint delta)"
  shows "received e s t delta =
    (if sint delta > available w then flow_error e s t
     else if automatic s \<and> \<not> update_queued s t \<and>
             nghttp2_should_send_window_update (window.local_window_size w) (window.recv_window_size w + sint delta)
     then if alloc e (sizeof_item e)
          then Inr (put_sizes (with_update s1 t (window.recv_window_size w + sint delta)) t (consumed_of s t) 0, None)
          else Inr (s1, Some NGHTTP2_ERR_NOMEM)
     else Inr (s1, None))"
proof (cases t)
  case None
  have add: "nghttp2_session_add_window_update e (put_sizes s None c r) NGHTTP2_FLAG_NONE 0 increment =
    (if alloc e (sizeof_item e) then Inr (with_update (put_sizes s None c r) None increment, None)
     else Inr (put_sizes s None c r, Some NGHTTP2_ERR_NOMEM))" for c r increment
    using add_window_update_eq [of "put_sizes s None c r" None] t None by simp
  have fields: "conn_recv_window_size s = window.recv_window_size (window_of s None)"
    "conn_local_window_size s = window.local_window_size (window_of s None)" "conn_window_update_queued s = update_queued s None"
    by (simp_all add: window_of_def conn_window_def update_queued_def)
  have same: "conn_local_window_size (put_sizes s None c r) = conn_local_window_size s"
    "conn_window_update_queued (put_sizes s None c r) = conn_window_update_queued s" for c r
    by (simp_all add: put_sizes_def)
  show ?thesis
    using adjust_recv_eq [OF ok d] None
    by (auto simp: received_def nghttp2_session_update_recv_connection_window_size_def flow_error_def w_def s1_def Let_def
        put_recv add same fields automatic_def ret_def with_update_fields)
next
  case (Some k)
  have add: "nghttp2_session_add_window_update e (put_sizes s t c r) NGHTTP2_FLAG_NONE (stream_id (stream_at s k)) increment =
    (if alloc e (sizeof_item e) then Inr (with_update (put_sizes s t c r) t increment, None)
     else Inr (put_sizes s t c r, Some NGHTTP2_ERR_NOMEM))" for c r increment
    using add_window_update_eq [of "put_sizes s t c r" t] t Some put_sizes_fields(4) [of s t c r] by simp
  have fields: "stream.recv_window_size (stream_at s k) = window.recv_window_size (window_of s t)"
    "stream.local_window_size (stream_at s k) = window.local_window_size (window_of s t)"
    "window_update_queued (stream_at s k) = update_queued s t"
    by (simp_all add: window_of_def stream_window_def update_queued_def Some)
  have same: "stream_id (stream_at (put_sizes s t c r) k) = stream_id (stream_at s k)"
    "stream.local_window_size (stream_at (put_sizes s t c r) k) = stream.local_window_size (stream_at s k)"
    "window_update_queued (stream_at (put_sizes s t c r) k) = window_update_queued (stream_at s k)" for c r
    by (simp_all add: put_sizes_def Some)
  show ?thesis
    using adjust_recv_eq [OF ok d] Some
    by (auto simp: received_def nghttp2_session_update_recv_stream_window_size_def flow_error_def w_def s1_def Let_def
        put_recv add [unfolded Some] same [unfolded Some] fields [unfolded Some] automatic_def ret_def with_update_fields)
qed

lemma half_open:
  assumes "window_ok w" "\<not> nghttp2_should_send_window_update (window.local_window_size w) r"
  shows "window.local_window_size w \<le> 2 * (window.local_window_size w - r)"
  using assms
  by (auto simp: nghttp2_should_send_window_update_def window_arith signed_divide_int_def sgn_if split: if_splits)

text \<open>Before and after a WINDOW_UPDATE frame for the bytes received.\<close>

lemma received_windows:
  assumes w: "window_ok (window_of s t)" and d: "0 \<le> sint delta" "sint delta \<le> available (window_of s t)"
  defines "r \<equiv> window.recv_window_size (window_of s t) + sint delta"
  defines "s1 \<equiv> put_sizes s t (consumed_of s t) r"
  defines "s2 \<equiv> put_sizes (with_update s1 t r) t (consumed_of s t) 0"
  shows "window_ok (window_of s1 t)" "available (window_of s1 t) = available (window_of s t) - sint delta"
    "window_ok (window_of s2 t)" "available (window_of s2 t) = available (window_of s t) - sint delta + r"
    "window.local_window_size (window_of s1 t) = window.local_window_size (window_of s t)"
    "window.local_window_size (window_of s2 t) = window.local_window_size (window_of s t)"
    "ob_reg s1 = ob_reg s" "announces s s2 t r"
proof -
  have win: "window_of s1 t = (window_of s t)\<lparr>window.recv_window_size := r\<rparr>"
      "window_of s2 t = (window_of s t)\<lparr>window.recv_window_size := 0\<rparr>"
    by (simp_all add: s1_def s2_def with_update_fields)
  show "window_ok (window_of s1 t)" "available (window_of s1 t) = available (window_of s t) - sint delta"
      "window_ok (window_of s2 t)" "available (window_of s2 t) = available (window_of s t) - sint delta + r"
      "window.local_window_size (window_of s1 t) = window.local_window_size (window_of s t)"
      "window.local_window_size (window_of s2 t) = window.local_window_size (window_of s t)"
    using w d unfolding win by (auto simp: r_def window_arith)
  show "ob_reg s1 = ob_reg s" by (simp add: s1_def)
  show "announces s s2 t r"
    using with_update_fields(3) [of s1 t r] by (simp add: announces_def s1_def s2_def)
qed

text \<open>C4: Data that arrives, on the connection or on a stream, in automatic mode or not. What exceeds what the
  peer may still send is a flow-control error, of the connection or of the stream, and nothing else is.
  Otherwise the bytes are taken off what the peer may send, and given back only by a WINDOW_UPDATE frame
  that announces exactly as many: no credit is lost or made up. In automatic mode, unless an update is
  already on its way or memory is out, at least half of the window is open afterwards, so the peer is
  never stuck. No sum overflows, and the window keeps its invariant.\<close>
theorem received_data_window:
  assumes ok: "window_ok (window_of s t)" and d: "0 \<le> sint delta" and t: "target_ok s t"
  shows "if sint delta > available (window_of s t) then received e s t delta = flow_error e s t
    else \<exists>s' rv increment. received e s t delta = Inr (s', rv) \<and> window_ok (window_of s' t) \<and>
      available (window_of s' t) = available (window_of s t) - sint delta + increment \<and>
      (increment = 0 \<and> ob_reg s' = ob_reg s \<or> 0 < increment \<and> announces s s' t increment) \<and>
      (rv = None \<and> automatic s \<and> \<not> update_queued s t \<longrightarrow>
         window.local_window_size (window_of s' t) \<le> 2 * available (window_of s' t)) \<and>
      (rv \<noteq> None \<longrightarrow> rv = Some NGHTTP2_ERR_NOMEM \<and> increment = 0)"
proof (cases "sint delta > available (window_of s t)")
  case True
  then show ?thesis using received_eq [OF ok d t] by simp
next
  case False
  define r where "r = window.recv_window_size (window_of s t) + sint delta"
  define s1 where "s1 = put_sizes s t (consumed_of s t) r"
  define s2 where "s2 = put_sizes (with_update s1 t r) t (consumed_of s t) 0"
  define send where "send \<longleftrightarrow> automatic s \<and> \<not> update_queued s t \<and>
    nghttp2_should_send_window_update (window.local_window_size (window_of s t)) r"
  have fits: "sint delta \<le> available (window_of s t)" using False by simp
  note W = received_windows [OF ok d fits, folded r_def, folded s1_def, folded s2_def]
  have eq: "received e s t delta = (if send then if alloc e (sizeof_item e) then Inr (s2, None)
      else Inr (s1, Some NGHTTP2_ERR_NOMEM) else Inr (s1, None))"
    using received_eq [OF ok d t, of e] False by (auto simp: send_def r_def s1_def s2_def)
  have half: "window.local_window_size (window_of s1 t) \<le> 2 * available (window_of s1 t)"
    if "\<not> send" "automatic s" "\<not> update_queued s t"
    using half_open [OF ok, of r] that W(2,5) by (simp add: send_def available_def r_def)
  have pos: "0 < r" if send
    using that by (simp add: send_def nghttp2_should_send_window_update_def)
  have full: "window.local_window_size (window_of s2 t) \<le> 2 * available (window_of s2 t)"
    using W(4,6) ok d by (simp add: r_def window_arith)
  consider "send" "alloc e (sizeof_item e)" | "send" "\<not> alloc e (sizeof_item e)" | "\<not> send" by blast
  then show ?thesis
  proof cases
    case 1
    then show ?thesis using False eq W pos full
      by (intro if_not_P [THEN iffD2] exI [of _ s2] exI [of _ None] exI [of _ r]) simp_all
  next
    case 2
    then show ?thesis using False eq W by auto
  next
    case 3
    then show ?thesis using False eq W half by auto
  qed
qed

section \<open>Data consumed\<close>

lemma consumed_check:
  assumes "0 \<le> c" "c \<le> 2147483647"
  shows "(word_of_int c :: u32) > word_of_int NGHTTP2_MAX_WINDOW_SIZE - delta \<longleftrightarrow> c + sint delta > NGHTTP2_MAX_WINDOW_SIZE"
proof -
  have range: "- 2147483648 \<le> sint delta" "sint delta \<le> 2147483647"
    using sint_ge [of delta] sint_lt [of delta] by simp_all
  have "uint (word_of_int 2147483647 - delta :: u32) = uint (word_of_int (2147483647 - sint delta) :: u32)"
    by simp
  also have "\<dots> = 2147483647 - sint delta"
    using range by (subst uint_word_of_int) simp
  finally have "uint (word_of_int 2147483647 - delta :: u32) = 2147483647 - sint delta" .
  moreover have "uint (word_of_int c :: u32) = c"
    using assms by (simp add: uint_word_of_int take_bit_int_eq_self)
  ultimately show ?thesis
    by (simp only: word_less_def NGHTTP2_MAX_WINDOW_SIZE_def) linarith
qed

lemma consumed_form:
  "consumed e s t delta =
    (if (word_of_int (consumed_of s t) :: u32) > word_of_int NGHTTP2_MAX_WINDOW_SIZE - delta
     then nghttp2_session_terminate_session e s (http2_code NGHTTP2_FLOW_CONTROL_ERROR)
     else rbind (i32 (consumed_of s t + sint delta)) (\<lambda>c.
       let s' = put_sizes s t c (window.recv_window_size (window_of s t));
           recv_size = min c (window.recv_window_size (window_of s t))
       in if update_queued s t then ret s'
          else if nghttp2_should_send_window_update (window.local_window_size (window_of s t)) recv_size
          then if_ok (nghttp2_session_add_window_update e s' NGHTTP2_FLAG_NONE (target_id s t) recv_size) (\<lambda>s1.
                 rbind (i32 (window.recv_window_size (window_of s1 t) - recv_size)) (\<lambda>r.
                 rbind (i32 (consumed_of s1 t - recv_size)) (\<lambda>c. ret (put_sizes s1 t c r))))
          else ret s'))"
  by (cases t; hypsubst) (simp_all add: consumed_def session_update_connection_consumed_size_def
      session_update_stream_consumed_size_def session_update_consumed_size_def put_sizes_def consumed_of_def window_of_def
      conn_window_def stream_window_def update_queued_def Let_def cong: if_cong)

lemma consumed_eq:
  assumes ok: "window_ok (window_of s t)" and c: "0 \<le> consumed_of s t" "consumed_of s t \<le> NGHTTP2_MAX_WINDOW_SIZE"
    and t: "target_ok s t" and fits: "consumed_of s t + sint delta \<le> NGHTTP2_MAX_WINDOW_SIZE"
  defines "w \<equiv> window_of s t"
  defines "c' \<equiv> consumed_of s t + sint delta"
  defines "m \<equiv> min c' (window.recv_window_size w)"
  defines "s1 \<equiv> put_sizes s t c' (window.recv_window_size w)"
  shows "consumed e s t delta =
    (if \<not> update_queued s t \<and> nghttp2_should_send_window_update (window.local_window_size w) m
     then if alloc e (sizeof_item e)
          then Inr (put_sizes (with_update s1 t m) t (c' - m) (window.recv_window_size w - m), None)
          else Inr (s1, Some NGHTTP2_ERR_NOMEM)
     else Inr (s1, None))"
proof -
  let ?r = "window.recv_window_size w"
  have w: "window_ok w" using ok by (simp add: w_def)
  have c_range: "in_i32 c'"
    using c(1) fits sint_ge [of delta] by (simp add: c'_def i32_range NGHTTP2_MAX_WINDOW_SIZE_def)
  have unwrapped: "\<not> (word_of_int (consumed_of s t) :: u32) > word_of_int NGHTTP2_MAX_WINDOW_SIZE - delta"
    using consumed_check [of "consumed_of s t" delta] c fits by (simp add: NGHTTP2_MAX_WINDOW_SIZE_def)
  show ?thesis
  proof (cases "\<not> update_queued s t \<and> nghttp2_should_send_window_update (window.local_window_size w) m")
    case True
    then have "0 < m" by (simp add: nghttp2_should_send_window_update_def)
    then have "in_i32 (?r - m)" "in_i32 (c' - m)"
      using c_range w by (auto simp: m_def window_arith)
    then show ?thesis
      using True unwrapped c_range add_window_update_eq [of "put_sizes s t c' ?r" t e m] t
      unfolding s1_def
      by (simp add: consumed_form Let_def w_def [symmetric] c'_def [symmetric] m_def [symmetric] with_update_fields ret_def)
  next
    case False
    then show ?thesis using unwrapped c_range
      by (auto simp: consumed_form Let_def w_def [symmetric] c'_def [symmetric] m_def [symmetric] s1_def [symmetric] ret_def)
  qed
qed

text \<open>C11: Data the application reports as consumed, when it controls the windows itself. A sum of more than the
  largest window is refused. Otherwise the bytes are counted. When those that are both received and consumed
  make half a window, and no update is on its way, exactly all of them are given back by one
  WINDOW_UPDATE frame, which takes them off both counts; only a refused allocation prevents it. In every other case
  nothing is given back: no credit is lost or made up. The size is a \<open>size_t\<close>: one of 2147483648 or more
  is not refused, as \<open>NGHTTP2_MAX_WINDOW_SIZE - delta_size\<close> wraps around, and counts as a negative
  number, so that the consumed bytes become fewer.\<close>
theorem consumed_data_window:
  assumes ok: "window_ok (window_of s t)" and c: "0 \<le> consumed_of s t" "consumed_of s t \<le> NGHTTP2_MAX_WINDOW_SIZE"
    and t: "target_ok s t"
  shows "if consumed_of s t + sint delta > NGHTTP2_MAX_WINDOW_SIZE
    then consumed e s t delta = nghttp2_session_terminate_session e s (http2_code NGHTTP2_FLOW_CONTROL_ERROR)
    else let both = min (consumed_of s t + sint delta) (window.recv_window_size (window_of s t));
             due = (\<not> update_queued s t \<and> 0 < both \<and> both \<ge> window.local_window_size (window_of s t) div 2);
             given = (if due \<and> alloc e (sizeof_item e) then both else 0)
      in \<exists>s'. consumed e s t delta =
             Inr (s', if due \<and> \<not> alloc e (sizeof_item e) then Some NGHTTP2_ERR_NOMEM else None) \<and>
           window_ok (window_of s' t) \<and>
           window.local_window_size (window_of s' t) = window.local_window_size (window_of s t) \<and>
           consumed_of s' t = consumed_of s t + sint delta - given \<and>
           available (window_of s' t) = available (window_of s t) + given \<and>
           (if given = 0 then ob_reg s' = ob_reg s else announces s s' t given)"
proof (cases "consumed_of s t + sint delta > NGHTTP2_MAX_WINDOW_SIZE")
  case True
  then show ?thesis using consumed_check [of "consumed_of s t" delta] c
    by (simp add: consumed_form NGHTTP2_MAX_WINDOW_SIZE_def)
next
  case False
  define w where "w = window_of s t"
  let ?c = "consumed_of s t + sint delta" and ?r = "window.recv_window_size w"
  define m where "m = min ?c ?r"
  let ?s1 = "put_sizes s t ?c ?r"
  let ?s2 = "put_sizes (with_update ?s1 t m) t (?c - m) (?r - m)"
  have w: "window_ok w" using ok by (simp add: w_def)
  have outcome: "consumed e s t delta =
      (if \<not> update_queued s t \<and> nghttp2_should_send_window_update (window.local_window_size w) m
       then if alloc e (sizeof_item e) then Inr (?s2, None) else Inr (?s1, Some NGHTTP2_ERR_NOMEM)
       else Inr (?s1, None))"
    using consumed_eq [OF ok c t, of delta e] False by (simp add: w_def m_def)
  have w2: "0 < m \<Longrightarrow> window_ok (w\<lparr>window.recv_window_size := ?r - m\<rparr>)"
      "available (w\<lparr>window.recv_window_size := ?r - m\<rparr>) = available w + m"
    using w by (auto simp: window_arith m_def)
  have win: "window_of ?s2 t = w\<lparr>window.recv_window_size := ?r - m\<rparr>" "consumed_of ?s2 t = ?c - m"
    by (simp_all add: w_def with_update_fields)
  have due: "nghttp2_should_send_window_update (window.local_window_size w) m \<longleftrightarrow>
      0 < m \<and> m \<ge> window.local_window_size w div 2"
    using w by (auto simp: nghttp2_should_send_window_update_def signed_divide_int_def sgn_if window_arith m_def)
  have ann: "announces s ?s2 t m"
    using with_update_fields(3) [of ?s1 t m] by (simp add: announces_def)
  show ?thesis
  proof (cases "\<not> update_queued s t \<and> nghttp2_should_send_window_update (window.local_window_size w) m \<and> alloc e (sizeof_item e)")
    case True
    then have "0 < m" by (simp add: due)
    then show ?thesis using outcome True False win w2 ann
      by (simp add: w_def [symmetric] m_def [symmetric] due Let_def)
  next
    case keep: False
    then show ?thesis using outcome False w
      by (auto simp: w_def [symmetric] m_def [symmetric] due Let_def)
  qed
qed

lemma fresh_window:
  assumes "fresh_session s None"
  shows "window_of s None = \<lparr>window.local_window_size = 65535, recv_window_size = 0, recv_reduction = 0\<rparr>"
    "window_ok (window_of s None)" "target_ok s None" "\<not> update_queued s None" "consumed_of s None = 0"
    "automatic s"
  using fresh_idle [OF assms] fresh_flags [OF assms]
  by (simp_all add: idle_session_def window_of_def conn_window_def target_ok_def update_queued_def consumed_of_def
      nghttp2_session_get_stream_def nghttp2_session_get_stream_raw_def window_ok_def i32_range NGHTTP2_MAX_WINDOW_SIZE_def
      automatic_def)

theorem received_data_window_witness:
  "\<exists>s s'. nghttp2_session_client_new3 (\<lambda>_. True) (\<lambda>k n. Some (replicate n 0)) 2000 None = Inr s \<and>
     received plain_env s None 40000 = Inr (s', None) \<and> available (window_of s' None) = 65535 \<and>
     announces s s' None 40000"
proof -
  obtain s where new: "nghttp2_session_client_new3 (\<lambda>_. True) (\<lambda>k n. Some (replicate n 0)) 2000 None = Inr s"
    "fresh_session s None" by (rule new_client)
  note w = fresh_window [OF new(2)]
  obtain s' rv increment where s': "received plain_env s None 40000 = Inr (s', rv)"
    "available (window_of s' None) = 25535 + increment" "increment = 0 \<or> announces s s' None increment"
    "rv = None \<longrightarrow> window.local_window_size (window_of s' None) \<le> 2 * available (window_of s' None)"
    using received_data_window [OF w(2) _ w(3), of 40000 plain_env] w(1,4,6)
    by (auto simp: available_def)
  have r: "received plain_env s None 40000 =
      Inr (put_sizes (with_update (put_sizes s None 0 40000) None 40000) None 0 0, None)"
    using received_eq [OF w(2) _ w(3), of 40000 plain_env] w
    by (simp add: available_def nghttp2_should_send_window_update_def)
  have "window_of s' None = \<lparr>window.local_window_size = 65535, recv_window_size = 0, recv_reduction = 0\<rparr>"
    using s'(1) r w(1) by (auto simp: with_update_fields)
  then show ?thesis
    using s' r new(1) by (auto simp: available_def)
qed

text \<open>After 40000 bytes were received and 33000 consumed, 33000 are given back; a size that counts as -1.\<close>

theorem consumed_data_window_witness:
  "\<exists>s s1 s2. nghttp2_session_client_new3 (\<lambda>_. True) (\<lambda>k n. Some (replicate n 0)) 2000 None = Inr s \<and>
     consumed plain_env (put_sizes s None 0 40000) None 33000 = Inr (s1, None) \<and>
     announces (put_sizes s None 0 40000) s1 None 33000 \<and> available (window_of s1 None) = 58535 \<and>
     consumed plain_env s None (- 1) = Inr (s2, None) \<and> consumed_of s2 None = - 1 \<and> ob_reg s2 = ob_reg s"
proof -
  obtain s where new: "nghttp2_session_client_new3 (\<lambda>_. True) (\<lambda>k n. Some (replicate n 0)) 2000 None = Inr s"
    "fresh_session s None" by (rule new_client)
  note w = fresh_window [OF new(2)]
  let ?s = "put_sizes s None 0 40000"
  have "window_ok (window_of ?s None)" "target_ok ?s None"
    using w(1,3) by (simp_all add: window_ok_def i32_range NGHTTP2_MAX_WINDOW_SIZE_def)
  from consumed_data_window [OF this(1) _ _ this(2), of 33000 plain_env]
  have "\<exists>s1. consumed plain_env ?s None 33000 = Inr (s1, None) \<and> announces ?s s1 None 33000 \<and>
      available (window_of s1 None) = 58535"
    using w by (auto simp: available_def NGHTTP2_MAX_WINDOW_SIZE_def Let_def)
  moreover have "\<exists>s2. consumed plain_env s None (- 1) = Inr (s2, None) \<and> consumed_of s2 None = - 1 \<and> ob_reg s2 = ob_reg s"
    using consumed_data_window [OF w(2) _ _ w(3), of "- 1" plain_env] w(1,4,5)
    by (auto simp: available_def NGHTTP2_MAX_WINDOW_SIZE_def Let_def)
  ultimately show ?thesis using new(1) by blast
qed

section \<open>Data sent\<close>

lemma next_data_read_bounds:
  assumes "nghttp2_session_next_data_read s k = n" "0 < n"
  shows "int n \<le> conn_remote_window_size s" "int n \<le> remote_window_size (stream_at s k)"
    "int n \<le> sint (max_frame_size (remote_settings s))" "n \<le> 16384"
  using assms
  by (auto simp: nghttp2_session_next_data_read_def nghttp2_session_enforce_flow_control_limits_def Let_def
      NGHTTP2_DATA_PAYLOADLEN_def split: if_splits)

text \<open>Both windows for sending, with the length of a frame taken off.\<close>

definition windows_taken :: "session \<Rightarrow> nat \<Rightarrow> int \<Rightarrow> session" where
  "windows_taken s k n =
     upd_stream (s\<lparr>conn_remote_window_size := conn_remote_window_size s - n\<rparr>) k
       (\<lambda>x. x\<lparr>remote_window_size := remote_window_size (stream_at s k) - n\<rparr>)"

lemma windows_taken_fields:
  "conn_remote_window_size (windows_taken s k n) = conn_remote_window_size s - n"
  "remote_window_size (stream_at (windows_taken s k n) j) = remote_window_size (stream_at s j) - (if j = k then n else 0)"
  by (simp_all add: windows_taken_def upd_stream_def upd_def)

text \<open>After the windows were taken, the rest of the work on a DATA frame that was sent.\<close>

lemma after_data_sent_eq:
  assumes "aob_item s = Some it" "body (oi_frame (items s it)) = Data_frame"
    and "nghttp2_session_get_stream s (fr_id (oi_frame (items s it))) = Some k"
    and "sint (fr_length (oi_frame (items s it))) = n"
    and "in_i32 (conn_remote_window_size s - n)" "in_i32 (remote_window_size (stream_at s k) - n)"
  defines "fr \<equiv> oi_frame (items s it)"
  shows "session_after_frame_sent1 e s False =
    (if aux_eof (items s it) then
       unless_fatal (session_detach_stream_item (windows_taken s k n) k) (\<lambda>s2 _.
       unless_fatal (report e s2 (On_frame_send fr) ret) (\<lambda>s3 _.
       if has (fr_flags fr) NGHTTP2_FLAG_END_STREAM then
         unless_fatal (nghttp2_session_close_stream_if_shut_rdwr e
             (upd_stream s3 k (\<lambda>x. nghttp2_stream_shutdown x NGHTTP2_SHUT_WR)) k) (\<lambda>s4 _. ret s4)
       else ret s3))
     else unless_fatal (report e (windows_taken s k n) (On_frame_send fr) ret) (\<lambda>s2 _. ret s2))"
  using assms
  by (simp add: session_after_frame_sent1_def after_data_sent_def Let_def windows_taken_def upd_stream_def)

text \<open>C12: DATA that is no longer than \<open>nghttp2_session_next_data_read\<close> allows fits both windows of the peer and
  its largest frame, and something is allowed exactly when all of these are open. However the work after
  such a frame was sent comes to an end, the last frame of a stream included, whether the stream is closed or
  not, and also when the application reports an error: the length of the frame has been taken off both
  windows, which do not become negative, whatever SETTINGS of the peer did to the window of the stream
  before, and off no other window. The callbacks only submit, as the programmers' guide asks. The work
  does come to an end, without error or with that of the callback, when the frame is not the last of its
  item, or does not end the stream and its item can be taken off.\<close>
theorem data_sent_within_windows:
  assumes it: "aob_item s = Some it" and data: "body (oi_frame (items s it)) = Data_frame"
    and k: "nghttp2_session_get_stream s (fr_id (oi_frame (items s it))) = Some k"
    and len: "fr_length (oi_frame (items s it)) = of_nat len" "len \<le> nghttp2_session_next_data_read s k"
    and range: "in_i32 (conn_remote_window_size s)" "in_i32 (remote_window_size (stream_at s k))"
    and app: "callbacks_only_submit e"
  shows "(0 < nghttp2_session_next_data_read s k \<longleftrightarrow> 0 < conn_remote_window_size s \<and>
      0 < remote_window_size (stream_at s k) \<and> 0 < sint (max_frame_size (remote_settings s))) \<and>
    len \<le> 16384 \<and> (0 < len \<longrightarrow> int len \<le> sint (max_frame_size (remote_settings s))) \<and>
    (\<forall>s' rv. session_after_frame_sent1 e s False = Inr (s', rv) \<longrightarrow>
      conn_remote_window_size s' = conn_remote_window_size s - int len \<and>
      remote_window_size (stream_at s' k) = remote_window_size (stream_at s k) - int len \<and>
      (0 < len \<longrightarrow> 0 \<le> conn_remote_window_size s' \<and> 0 \<le> remote_window_size (stream_at s' k)) \<and>
      (\<forall>j. j \<noteq> k \<longrightarrow> remote_window_size (stream_at s' j) = remote_window_size (stream_at s j))) \<and>
    (\<not> aux_eof (items s it) \<or> \<not> has (fr_flags (oi_frame (items s it))) NGHTTP2_FLAG_END_STREAM \<and>
        (\<exists>s2. session_detach_stream_item (windows_taken s k (int len)) k = Inr (s2, None)) \<longrightarrow>
      (\<exists>s' rv. session_after_frame_sent1 e s False = Inr (s', rv) \<and> (rv = None \<or> rv = Some NGHTTP2_ERR_CALLBACK_FAILURE)))"
proof -
  let ?n = "nghttp2_session_next_data_read s k"
  let ?s = "windows_taken s k (int len)"
  have small: "len \<le> 16384"
    using len(2) next_data_read_bounds(4) [of s k ?n] by (cases "?n = 0") auto
  have fits: "int len \<le> conn_remote_window_size s" "int len \<le> remote_window_size (stream_at s k)"
      "int len \<le> sint (max_frame_size (remote_settings s))" if "0 < len"
    using len(2) next_data_read_bounds [of s k ?n] that by auto
  have sint: "sint (of_nat len :: u32) = int len"
    using small by (simp add: sint_small word_le_def take_bit_nat_eq_self unsigned_of_nat)
  have "in_i32 (conn_remote_window_size s - int len)" "in_i32 (remote_window_size (stream_at s k) - int len)"
    using range fits by (cases "len = 0"; simp add: i32_range)+
  note eq = after_data_sent_eq [OF it data k, of "int len" e, unfolded len(1), OF sint this]
  have "keeps_credit ?s (session_after_frame_sent1 e s False)"
    unfolding eq
    by (rule credit_steps credit_results credit_report [OF app] close_if_shut_credit [OF app] detach_item_credit
        same_credit_upd same_credit_refl | assumption | simp add: nghttp2_stream_shutdown_def)+
  then have "same_credit ?s s'" if "session_after_frame_sent1 e s False = Inr (s', rv)" for s' rv
    using that by (simp add: keeps_credit_def)
  then have windows: "conn_remote_window_size s' = conn_remote_window_size s - int len \<and>
      remote_window_size (stream_at s' j) = remote_window_size (stream_at s j) - (if j = k then int len else 0)"
    if "session_after_frame_sent1 e s False = Inr (s', rv)" for s' rv j
    using that by (simp add: same_credit_def same_windows_def windows_taken_fields)
  have told: "\<exists>s' rv. unless_fatal (report e s1 ev ret) (\<lambda>s2 _. ret s2) = Inr (s', rv) \<and>
      (rv = None \<or> rv = Some NGHTTP2_ERR_CALLBACK_FAILURE)" for s1 ev
    by (cases "callback e ev s1") (simp add: report_def unless_fatal_def ret_def fails_def)
  have ends: "\<exists>s' rv. session_after_frame_sent1 e s False = Inr (s', rv) \<and> (rv = None \<or> rv = Some NGHTTP2_ERR_CALLBACK_FAILURE)"
    if "\<not> aux_eof (items s it) \<or> \<not> has (fr_flags (oi_frame (items s it))) NGHTTP2_FLAG_END_STREAM \<and>
        (\<exists>s2. session_detach_stream_item ?s k = Inr (s2, None))"
    using that told unfolding eq by (auto simp: unless_fatal_def)
  have opened: "0 < ?n \<longleftrightarrow> 0 < conn_remote_window_size s \<and>
      0 < remote_window_size (stream_at s k) \<and> 0 < sint (max_frame_size (remote_settings s))"
    by (auto simp: nghttp2_session_next_data_read_def nghttp2_session_enforce_flow_control_limits_def Let_def
      NGHTTP2_DATA_PAYLOADLEN_def)
  show ?thesis
    using small fits opened windows ends by (intro conjI allI impI) simp_all
qed

text \<open>A client with an open stream and a DATA frame of 1000 bytes that was sent, the last of the stream.\<close>

definition sending :: "session \<Rightarrow> session" where
  "sending s = s\<lparr>streams := example_hmap,
     tree := upd root_tree 7 (\<lambda>_. nghttp2_stream_init 1 NGHTTP2_STREAM_FLAG_NO_RFC7540_PRIORITIES
       NGHTTP2_STREAM_OPENED 16 65535 65535 0),
     aob_item := Some 0,
     items := (\<lambda>_. (nghttp2_outbound_item_init ((nghttp2_frame_data_init NGHTTP2_FLAG_END_STREAM 1)\<lparr>fr_length := 1000\<rparr>))
       \<lparr>aux_eof := True\<rparr>)\<rparr>"

lemma plain_env_submits: "callbacks_only_submit plain_env"
  by (simp add: callbacks_only_submit_def plain_env_def)

theorem data_sent_within_windows_witness:
  "\<exists>s s'. nghttp2_session_client_new3 (\<lambda>_. True) (\<lambda>k n. Some (replicate n 0)) 2000 None = Inr s \<and>
     session_after_frame_sent1 plain_env (sending s) False = Inr (s', None) \<and> conn_remote_window_size s' = 64535 \<and>
     remote_window_size (stream_at s' 7) = 64535"
proof -
  obtain s where new: "nghttp2_session_client_new3 (\<lambda>_. True) (\<lambda>k n. Some (replicate n 0)) 2000 None = Inr s"
    "fresh_session s None" by (rule new_client)
  have k: "nghttp2_session_get_stream (sending s) 1 = Some 7"
    using example_hmap_facts(3)
    by (simp add: nghttp2_session_get_stream_def nghttp2_session_get_stream_raw_def sending_def upd_def nghttp2_stream_init_def
        has_def NGHTTP2_STREAM_FLAG_NO_RFC7540_PRIORITIES_def NGHTTP2_STREAM_FLAG_CLOSED_def)
  have fields: "conn_remote_window_size (sending s) = 65535" "remote_window_size (stream_at (sending s) 7) = 65535"
      "max_frame_size (remote_settings (sending s)) = 16384" "aob_item (sending s) = Some 0"
      "oi_frame (items (sending s) 0) = (nghttp2_frame_data_init NGHTTP2_FLAG_END_STREAM 1)\<lparr>fr_length := 1000\<rparr>"
      "aux_eof (items (sending s) 0)"
    using fresh_idle [OF new(2)] fresh_remote [OF new(2)]
    by (simp_all add: sending_def idle_session_def upd_def nghttp2_stream_init_def nghttp2_outbound_item_init_def)
  have allowed: "nghttp2_session_next_data_read (sending s) 7 = 16384"
    using fields by (simp add: nghttp2_session_next_data_read_def nghttp2_session_enforce_flow_control_limits_def
        NGHTTP2_DATA_PAYLOADLEN_def)
  note sent = data_sent_within_windows [OF fields(4), of 7 1000 plain_env]
  have detach: "\<exists>s'. session_detach_stream_item (windows_taken (sending s) 7 1000) 7 = Inr (s', None) \<and>
      shut_flags (stream_at s' 7) = 0"
    by (simp add: session_detach_stream_item_def nghttp2_stream_detach_item_def on_tree'_def if_ok_def ret_def Let_def
        windows_taken_def upd_stream_def upd_def sending_def nghttp2_stream_init_def no_tree_def in_tree_def
        NGHTTP2_STREAM_FLAG_NO_RFC7540_PRIORITIES_def NGHTTP2_STREAM_FLAG_DEFERRED_ALL_def)
  have "\<exists>s'. session_after_frame_sent1 plain_env (sending s) False = Inr (s', None)"
    using detach fields k
    by (subst after_data_sent_eq [OF fields(4), where n = 1000 and k = 7])
      (auto simp: nghttp2_frame_data_init_def i32_range unless_fatal_def report_def plain_env_def ret_def nghttp2_session_close_stream_if_shut_rdwr_def nghttp2_stream_shutdown_def
        upd_stream_def upd_def NGHTTP2_SHUT_WR_def NGHTTP2_SHUT_RD_def NGHTTP2_SHUT_RDWR_def)
  then show ?thesis
    using sent fields k allowed new(1) plain_env_submits
    by (auto simp: nghttp2_frame_data_init_def i32_range)
qed

end
