(* ===== verification/SessHeap.thy ===== *)
theory SessHeap
  imports SessReq
begin

text \<open>
  The heaps of streams that are not in the dependency tree (RFC 9218), one for each urgency. They share the field
  of their streams that holds the index. Which streams are in them, and what putting one in and taking
  one out does.
\<close>

section \<open>The order of one heap\<close>

text \<open>The cycles that follow \<open>base\<close> within the gap, modulo \<open>2 ^ 64\<close>.\<close>

definition gap_entries :: "(nat \<Rightarrow> stream) \<Rightarrow> u64 \<Rightarrow> nat set" where
  "gap_entries st base = {a. cycle (st a) - base \<le> NGHTTP2_STREAM_MAX_CYCLE_GAP}"

lemma gap_value: "NGHTTP2_STREAM_MAX_CYCLE_GAP = 16777215"
  by (simp add: NGHTTP2_STREAM_MAX_CYCLE_GAP_def NGHTTP2_MAX_FRAME_SIZE_MAX_def)

lemma gap_distance:
  fixes x y :: u64
  assumes "x \<le> 16777215" "y \<le> 16777215"
  shows "y - x \<le> 16777215 \<longleftrightarrow> x \<le> y"
  using assms unsigned_less [of x] unsigned_less [of y]
  by (auto simp: word_le_nat_alt unat_sub_if')

lemma data_less_iff:
  assumes "a \<in> gap_entries st base" "b \<in> gap_entries st base"
  shows "data_less st a b \<longleftrightarrow>
    cycle (st a) - base < cycle (st b) - base \<or> cycle (st a) = cycle (st b) \<and> seq (st a) < seq (st b)"
proof -
  have "cycle (st b) - cycle (st a) = (cycle (st b) - base) - (cycle (st a) - base)" by simp
  then have "cycle (st b) - cycle (st a) \<le> 16777215 \<longleftrightarrow> cycle (st a) - base \<le> cycle (st b) - base"
    using gap_distance [of "cycle (st a) - base" "cycle (st b) - base"] assms
    by (simp add: gap_entries_def gap_value)
  moreover have "cycle (st a) - base = cycle (st b) - base \<longleftrightarrow> cycle (st a) = cycle (st b)" by simp
  ultimately show ?thesis
    by (auto simp: data_less_def session_stream_less_def gap_value order.order_iff_strict)
qed

interpretation dq: pq_order "data_less st" "gap_entries st base"
  for st :: "nat \<Rightarrow> stream" and base :: u64
  by unfold_locales (auto simp: data_less_iff [where base = base])

lemma pq_ok_gap_subset:
  assumes "pq_ok (gap_entries st base) (data_less st) p" "set (q p) \<subseteq> gap_entries st base'"
  shows "pq_ok (gap_entries st base') (data_less st) p"
  using assms by (simp add: pq_ok_def)

text \<open>The same heap when streams change that are not in it, or only in what the order does not read.\<close>

lemma pq_ok_streams:
  assumes "pq_ok (gap_entries st base) (data_less st) p"
    and same: "\<And>k. k \<in> set (q p) \<Longrightarrow> cycle (st' k) = cycle (st k) \<and> seq (st' k) = seq (st k)"
  shows "pq_ok (gap_entries st' base) (data_less st') p"
proof -
  have "data_less st' (q p ! i) (q p ! parent i) = data_less st (q p ! i) (q p ! parent i)"
    if "0 < i" "i < length (q p)" for i
    using that parent_less [OF that(1)] same by (simp add: data_less_def session_stream_less_def)
  then have "heap (data_less st') (q p) = heap (data_less st) (q p)"
    by (auto simp: heap_from_def)
  moreover have "set (q p) \<subseteq> gap_entries st' base"
    using assms by (force simp: pq_ok_def gap_entries_def)
  ultimately show ?thesis using assms(1) by (simp add: pq_ok_def)
qed

lemma pq_ok_index:
  assumes "pq_ok S lt p" "q p' = q p" "capacity p' = capacity p" "\<And>k. k \<in> set (q p) \<Longrightarrow> index p' k = index p k"
  shows "pq_ok S lt p'"
  using assms by (auto simp: pq_ok_def indexed_def)

section \<open>The eight heaps\<close>

text \<open>A heap that holds the streams \<open>A\<close>.\<close>

definition queue_good :: "(nat \<Rightarrow> stream) \<Rightarrow> nat pq \<Rightarrow> nat set \<Rightarrow> bool" where
  "queue_good st p A \<longleftrightarrow> (\<exists>base. pq_ok (gap_entries st base) (data_less st) p) \<and> capacity p < 2 ^ 29 \<and> set (q p) = A"

text \<open>\<open>m u\<close> is the set of streams in the heap of urgency \<open>u\<close>.\<close>

definition queues :: "session \<Rightarrow> (nat \<Rightarrow> nat set) \<Rightarrow> bool" where
  "queues s m \<longleftrightarrow> (\<forall>u<NGHTTP2_EXTPRI_URGENCY_LEVELS. queue_good (str (tree s)) (data_queue s u) (m u))"

lemma queue_goodD:
  assumes "queue_good st p A"
  obtains base where "pq_ok (gap_entries st base) (data_less st) p" "heap_shape p" "set (q p) = A"
  using assms by (auto simp: queue_good_def heap_shape_def pq_ok_def)

lemma queue_good_streams:
  assumes "queue_good st p A" and "\<And>k. k \<in> A \<Longrightarrow> cycle (st' k) = cycle (st k) \<and> seq (st' k) = seq (st k)"
  shows "queue_good st' p A"
  using assms pq_ok_streams [of st _ p st'] by (auto simp: queue_good_def)

lemma queue_good_index:
  assumes "queue_good st p A" and "\<And>k. k \<in> A \<Longrightarrow> ix k = index p k"
  shows "queue_good st (p\<lparr>index := ix\<rparr>) A"
  using assms pq_ok_index [of _ _ p "p\<lparr>index := ix\<rparr>"] by (auto simp: queue_good_def)

lemma store_data_queue_fields [simp]:
  "ob_data (store_data_queue s u p) = (ob_data s)(u := (q p, capacity p))"
  "tree (store_data_queue s u p) = (tree s)\<lparr>pqi := index p\<rparr>"
  by (simp_all add: store_data_queue_def)

lemma data_queue_store [simp]:
  "data_queue (store_data_queue s u p) u = p"
  "v \<noteq> u \<Longrightarrow> data_queue (store_data_queue s u p) v = (data_queue s v)\<lparr>index := index p\<rparr>"
  by (simp_all add: data_queue_def)

lemma data_queue_upd [simp]: "data_queue (upd_stream s k f) u = data_queue s u"
  by (simp add: data_queue_def upd_stream_def upd_def)

lemma queues_store:
  assumes qs: "queues s m" and p: "queue_good (str (tree s)) p A" and ix: "same_index C (data_queue s u) p"
    and away: "\<And>v. v < NGHTTP2_EXTPRI_URGENCY_LEVELS \<Longrightarrow> v \<noteq> u \<Longrightarrow> m v \<inter> C = {}"
  shows "queues (store_data_queue s u p) (m(u := A))"
proof -
  have "queue_good (str (tree s)) ((data_queue s v)\<lparr>index := index p\<rparr>) (m v)"
    if v: "v < NGHTTP2_EXTPRI_URGENCY_LEVELS" "v \<noteq> u" for v
  proof (rule queue_good_index)
    show "queue_good (str (tree s)) (data_queue s v) (m v)" using qs v by (simp add: queues_def)
    show "index p k = index (data_queue s v) k" if "k \<in> m v" for k
      using ix away [OF v] that by (auto simp: same_index_def data_queue_def)
  qed
  then have "queue_good (str (tree s)) (data_queue (store_data_queue s u p) v) ((m(u := A)) v)"
    if "v < NGHTTP2_EXTPRI_URGENCY_LEVELS" for v
    using p that by (cases "v = u") simp_all
  then show ?thesis by (simp add: queues_def)
qed

lemma queues_upd:
  assumes "queues s m" and "\<And>u. u < NGHTTP2_EXTPRI_URGENCY_LEVELS \<Longrightarrow> k \<in> m u \<Longrightarrow>
      cycle (f (stream_at s k)) = cycle (stream_at s k) \<and> seq (f (stream_at s k)) = seq (stream_at s k)"
  shows "queues (upd_stream s k f) m"
  unfolding queues_def data_queue_upd
proof (intro allI impI)
  fix u assume u: "u < NGHTTP2_EXTPRI_URGENCY_LEVELS"
  show "queue_good (str (tree (upd_stream s k f))) (data_queue s u) (m u)"
  proof (rule queue_good_streams)
    show "queue_good (str (tree s)) (data_queue s u) (m u)" using assms(1) u by (simp add: queues_def)
    show "cycle (stream_at (upd_stream s k f) j) = cycle (stream_at s j) \<and>
        seq (stream_at (upd_stream s k f) j) = seq (stream_at s j)" if "j \<in> m u" for j
      using assms(2) [OF u] that by (cases "j = k") simp_all
  qed
qed

lemma queues_cong:
  "queues s m \<Longrightarrow> (\<And>u. u < NGHTTP2_EXTPRI_URGENCY_LEVELS \<Longrightarrow> m' u = m u) \<Longrightarrow> queues s m'"
  by (simp add: queues_def)

lemma queues_push:
  assumes qs: "queues s m" and u: "u < NGHTTP2_EXTPRI_URGENCY_LEVELS"
    and k: "\<And>v. v < NGHTTP2_EXTPRI_URGENCY_LEVELS \<Longrightarrow> k \<notin> m v"
    and ap: "\<And>v. v < NGHTTP2_EXTPRI_URGENCY_LEVELS \<Longrightarrow> v \<noteq> u \<Longrightarrow> m v \<inter> m u = {}"
    and fits: "insert k (m u) \<subseteq> gap_entries (str (tree s)) base"
  shows "length (q (data_queue s u)) \<le> 2 ^ 27 \<Longrightarrow>
      push_data_queue e s u k = fails s NGHTTP2_ERR_NOMEM \<and> (\<exists>n. \<not> alloc e n) \<or>
      (\<exists>p. push_data_queue e s u k = ret (store_data_queue s u p) \<and> queues (store_data_queue s u p) (m(u := insert k (m u))))"
    and "length (q (data_queue s u)) < capacity (data_queue s u) \<Longrightarrow>
      \<exists>p. push_data_queue e s u k = ret (store_data_queue s u p) \<and> queues (store_data_queue s u p) (m(u := insert k (m u)))"
proof -
  let ?lt = "data_less (str (tree s))" and ?p = "data_queue s u"
  have "queue_good (str (tree s)) ?p (m u)" using qs u by (simp add: queues_def)
  then obtain b where b: "pq_ok (gap_entries (str (tree s)) b) ?lt ?p" "heap_shape ?p" "set (q ?p) = m u"
    by (rule queue_goodD)
  have pq: "pq_ok (gap_entries (str (tree s)) base) ?lt ?p"
    using fits b(3) by (intro pq_ok_gap_subset [OF b(1)]) auto
  have new: "k \<in> gap_entries (str (tree s)) base" "k \<notin> set (q ?p)" using fits k [OF u] b(3) by auto
  have small: "capacity ?p < 2 ^ 29" using b(2) by (simp add: heap_shape_def)
  have hold: "queues (store_data_queue s u p) (m(u := insert k (m u)))"
    if p: "nghttp2_pq_push (alloc e) ?lt ?p k = Inr p" "heap_shape p" "set (q p) = insert k (set (q ?p))"
      "same_index (insert k (set (q ?p))) ?p p" for p
  proof (rule queues_store [OF qs _ p(4)])
    have "pq_ok (gap_entries (str (tree s)) base) ?lt p"
      using dq.push_ok [OF pq new small, of "alloc e"] p(1) by auto
    then show "queue_good (str (tree s)) p (insert k (m u))"
      using p(2,3) b(3) by (auto simp: queue_good_def heap_shape_def)
    show "m v \<inter> insert k (set (q ?p)) = {}" if "v < NGHTTP2_EXTPRI_URGENCY_LEVELS" "v \<noteq> u" for v
      using k [OF that(1)] ap [OF that] b(3) by auto
  qed
  have grown: "\<exists>n. \<not> alloc e n" if "nghttp2_pq_push (alloc e) ?lt ?p k = Inl (Code NGHTTP2_ERR_NOMEM)"
    using dq.push_ok [OF pq new small, of "alloc e"] that by auto
  show "push_data_queue e s u k = fails s NGHTTP2_ERR_NOMEM \<and> (\<exists>n. \<not> alloc e n) \<or>
      (\<exists>p. push_data_queue e s u k = ret (store_data_queue s u p) \<and> queues (store_data_queue s u p) (m(u := insert k (m u))))"
    if "length (q ?p) \<le> 2 ^ 27"
    using push_shape [OF b(2) new(2) that, of "alloc e" ?lt] hold grown by (auto simp: push_data_queue_def)
  show "\<exists>p. push_data_queue e s u k = ret (store_data_queue s u p) \<and> queues (store_data_queue s u p) (m(u := insert k (m u)))"
    if "length (q ?p) < capacity ?p"
    using push_shape_room [OF b(2) new(2) that, of "alloc e" ?lt] hold by (auto simp: push_data_queue_def)
qed

lemma queues_remove:
  assumes qs: "queues s m" and u: "u < NGHTTP2_EXTPRI_URGENCY_LEVELS" and k: "k \<in> m u"
    and ap: "\<And>v. v < NGHTTP2_EXTPRI_URGENCY_LEVELS \<Longrightarrow> v \<noteq> u \<Longrightarrow> m v \<inter> m u = {}"
  shows "\<exists>p. nghttp2_pq_remove (data_less (str (tree s))) (data_queue s u) k = Inr p \<and>
    queues (store_data_queue s u p) (m(u := m u - {k})) \<and> length (q p) < capacity p \<and>
    length (q p) \<le> length (q (data_queue s u))"
proof -
  let ?lt = "data_less (str (tree s))" and ?p = "data_queue s u"
  have "queue_good (str (tree s)) ?p (m u)" using qs u by (simp add: queues_def)
  then obtain b where b: "pq_ok (gap_entries (str (tree s)) b) ?lt ?p" "heap_shape ?p" "set (q ?p) = m u"
    by (rule queue_goodD)
  have e: "k \<in> set (q ?p)" using k b(3) by simp
  obtain p where p: "nghttp2_pq_remove ?lt ?p k = Inr p" "heap_shape p" "set (q p) = set (q ?p) - {k}"
    "same_index (set (q ?p)) ?p p" "length (q p) < capacity p"
    using remove_shape [OF b(2) e, of ?lt] by blast
  have "queues (store_data_queue s u p) (m(u := m u - {k}))"
  proof (rule queues_store [OF qs _ p(4)])
    have "pq_ok (gap_entries (str (tree s)) b) ?lt p"
      using dq.remove_ok [OF b(1) e] p(1) by auto
    then show "queue_good (str (tree s)) p (m u - {k})"
      using p(2,3) b(3) by (auto simp: queue_good_def heap_shape_def)
    show "m v \<inter> set (q ?p) = {}" if "v < NGHTTP2_EXTPRI_URGENCY_LEVELS" "v \<noteq> u" for v
      using ap [OF that] b(3) by simp
  qed
  moreover have "mset (q p) = mset (q ?p) - {#k#}"
    using dq.remove_ok [OF b(1) e] p(1) by auto
  then have "length (q p) \<le> length (q ?p)"
    by (metis diff_subset_eq_self size_mset size_mset_mono)
  ultimately show ?thesis using p(1,5) by blast
qed

section \<open>The streams that wait\<close>

text \<open>The streams \<open>W\<close> are in the heap of their urgency, and know it; all are outside the tree.\<close>

definition data_sched :: "session \<Rightarrow> nat set \<Rightarrow> bool" where
  "data_sched s W \<longleftrightarrow> queues s (\<lambda>u. {k \<in> W. urgency_of s k = u}) \<and> (\<forall>k\<in>W. \<not> in_tree (stream_at s k)) \<and>
     (\<forall>k. \<not> in_tree (stream_at s k) \<longrightarrow>
        urgency_of s k < NGHTTP2_EXTPRI_URGENCY_LEVELS \<and> (queued (stream_at s k) \<longleftrightarrow> k \<in> W))"

lemma data_schedD:
  assumes "data_sched s W"
  shows "queues s (\<lambda>u. {k \<in> W. urgency_of s k = u})" "k \<in> W \<Longrightarrow> \<not> in_tree (stream_at s k)"
    "\<not> in_tree (stream_at s k) \<Longrightarrow> urgency_of s k < NGHTTP2_EXTPRI_URGENCY_LEVELS"
    "\<not> in_tree (stream_at s k) \<Longrightarrow> queued (stream_at s k) \<longleftrightarrow> k \<in> W"
  using assms by (simp_all add: data_sched_def)

lemma urgency_upd:
  "urgency_of (upd_stream s k f) j =
     (if j = k then unat (nghttp2_extpri_uint8_urgency (extpri (f (stream_at s k)))) else urgency_of s j)"
  by (simp add: urgency_of_def)

lemma urgency_store [simp]: "urgency_of (store_data_queue s u p) j = urgency_of s j"
  by (simp add: urgency_of_def)

lemma data_sched_upd:
  assumes ok: "data_sched s W" and tree: "in_tree (f (stream_at s k)) = in_tree (stream_at s k)"
    and queued: "queued (f (stream_at s k)) = queued (stream_at s k)"
    and inside: "k \<in> W \<Longrightarrow> cycle (f (stream_at s k)) = cycle (stream_at s k) \<and>
      seq (f (stream_at s k)) = seq (stream_at s k) \<and> extpri (f (stream_at s k)) = extpri (stream_at s k)"
    and outside: "k \<notin> W \<Longrightarrow> \<not> in_tree (stream_at s k) \<Longrightarrow>
      unat (nghttp2_extpri_uint8_urgency (extpri (f (stream_at s k)))) < NGHTTP2_EXTPRI_URGENCY_LEVELS"
  shows "data_sched (upd_stream s k f) W"
proof -
  have same: "urgency_of (upd_stream s k f) j = urgency_of s j" if "j \<in> W" for j
    using inside that by (auto simp: urgency_upd) (simp add: urgency_of_def)
  have "queues (upd_stream s k f) (\<lambda>u. {j \<in> W. urgency_of s j = u})"
    using data_schedD(1) [OF ok] inside by (intro queues_upd) auto
  then have "queues (upd_stream s k f) (\<lambda>u. {j \<in> W. urgency_of (upd_stream s k f) j = u})"
    by (rule queues_cong) (use same in auto)
  moreover have "\<not> in_tree (stream_at (upd_stream s k f) j)" if "j \<in> W" for j
    using data_schedD(2) [OF ok that] tree by (cases "j = k") simp_all
  moreover have "urgency_of (upd_stream s k f) j < NGHTTP2_EXTPRI_URGENCY_LEVELS \<and>
      (queued (stream_at (upd_stream s k f) j) \<longleftrightarrow> j \<in> W)" if "\<not> in_tree (stream_at (upd_stream s k f) j)" for j
  proof (cases "j = k")
    case True
    then have out: "\<not> in_tree (stream_at s k)" using that tree by simp
    then have "urgency_of (upd_stream s k f) k < NGHTTP2_EXTPRI_URGENCY_LEVELS"
      using outside same [of k] data_schedD(3) [OF ok out] by (cases "k \<in> W") (simp_all add: urgency_upd)
    then show ?thesis using True out queued data_schedD(4) [OF ok out] by simp
  next
    case False
    then show ?thesis using that data_schedD(3,4) [OF ok, of j] by (simp add: urgency_upd)
  qed
  ultimately show ?thesis by (simp add: data_sched_def)
qed

text \<open>The first stream of a heap starts a stretch of cycles that holds all the others.\<close>

lemma first_cycle_fits:
  assumes "queue_good (str (tree s)) p A" "a \<in> A"
  shows "a \<in> gap_entries (str (tree s)) (pq_get_first_cycle s p)"
proof -
  let ?st = "str (tree s)"
  obtain b where b: "pq_ok (gap_entries ?st b) (data_less ?st) p" "set (q p) = A"
    using queue_goodD [OF assms(1)] by blast
  obtain k where k: "nghttp2_pq_top p = Some k"
    using assms(2) b(2) by (cases "q p") (auto simp: nghttp2_pq_top_def)
  have "k \<in> A" "\<not> data_less ?st a k"
    using dq.top_minimum [OF b(1) k] assms(2) b(2) by auto
  moreover have sub: "A \<subseteq> gap_entries ?st b"
    using b by (auto simp: pq_ok_def)
  ultimately have "a \<in> gap_entries ?st b" "k \<in> gap_entries ?st b" and "\<not> data_less ?st a k"
    using assms(2) by auto
  then have least: "cycle (?st k) - b \<le> cycle (?st a) - b"
    using data_less_iff [of a ?st b k] by (simp add: not_less)
  have "cycle (?st a) - cycle (?st k) = (cycle (?st a) - b) - (cycle (?st k) - b)" by simp
  also have "\<dots> \<le> cycle (?st a) - b"
    using least by (rule word_sub_le)
  also have "\<dots> \<le> NGHTTP2_STREAM_MAX_CYCLE_GAP"
    using sub assms(2) by (auto simp: gap_entries_def)
  finally show ?thesis
    by (simp add: gap_entries_def pq_get_first_cycle_def k)
qed

text \<open>What an operation on stream \<open>k\<close> changes besides the heaps: the place of \<open>k\<close> in the schedule.\<close>

definition only_scheduled :: "session \<Rightarrow> nat \<Rightarrow> session \<Rightarrow> bool" where
  "only_scheduled s k s' \<longleftrightarrow> (\<exists>d ix c b. s' = s\<lparr>ob_data := d,
     tree := (tree s)\<lparr>str := (str (tree s))(k := (stream_at s k)\<lparr>cycle := c, queued := b\<rparr>), pqi := ix\<rparr>\<rparr>)"

lemma only_scheduledI:
  "s' = s\<lparr>ob_data := d, tree := (tree s)\<lparr>str := (str (tree s))(k := (stream_at s k)\<lparr>cycle := c, queued := b\<rparr>), pqi := ix\<rparr>\<rparr>
   \<Longrightarrow> only_scheduled s k s'"
  unfolding only_scheduled_def by blast

lemma only_scheduled_trans:
  assumes "only_scheduled s k s1" "only_scheduled s1 k s2"
  shows "only_scheduled s k s2"
proof -
  obtain d ix c b where 1: "s1 = s\<lparr>ob_data := d,
      tree := (tree s)\<lparr>str := (str (tree s))(k := (stream_at s k)\<lparr>cycle := c, queued := b\<rparr>), pqi := ix\<rparr>\<rparr>"
    using assms(1) by (auto simp: only_scheduled_def)
  obtain d' ix' c' b' where 2: "s2 = s1\<lparr>ob_data := d',
      tree := (tree s1)\<lparr>str := (str (tree s1))(k := (stream_at s1 k)\<lparr>cycle := c', queued := b'\<rparr>), pqi := ix'\<rparr>\<rparr>"
    using assms(2) by (auto simp: only_scheduled_def)
  show ?thesis
    by (rule only_scheduledI [where d = d' and c = c' and b = b' and ix = ix']) (simp add: 1 2)
qed

lemma only_scheduled_steps:
  "only_scheduled s k s"
  "only_scheduled s k (store_data_queue s u p)"
  "only_scheduled s k (upd_stream s k (\<lambda>x. x\<lparr>cycle := g x\<rparr>))"
  "only_scheduled s k (upd_stream s k (\<lambda>x. x\<lparr>queued := h x\<rparr>))"
proof -
  let ?c = "cycle (stream_at s k)" and ?b = "queued (stream_at s k)"
  show "only_scheduled s k s"
    by (rule only_scheduledI [where d = "ob_data s" and c = ?c and b = ?b and ix = "pqi (tree s)"]) simp
  show "only_scheduled s k (store_data_queue s u p)"
    by (rule only_scheduledI [where d = "(ob_data s)(u := (q p, capacity p))" and c = ?c and b = ?b and ix = "index p"]) (simp add: store_data_queue_def)
  show "only_scheduled s k (upd_stream s k (\<lambda>x. x\<lparr>cycle := g x\<rparr>))"
    by (rule only_scheduledI [where d = "ob_data s" and c = "g (stream_at s k)" and b = ?b and ix = "pqi (tree s)"]) (simp add: upd_stream_def upd_def)
  show "only_scheduled s k (upd_stream s k (\<lambda>x. x\<lparr>queued := h x\<rparr>))"
    by (rule only_scheduledI [where d = "ob_data s" and c = ?c and b = "h (stream_at s k)" and ix = "pqi (tree s)"]) (simp add: upd_stream_def upd_def)
qed

text \<open>Putting a stream in, and taking it out.\<close>

lemma placed:
  assumes ok: "data_sched s W" and k: "k \<notin> W" "\<not> in_tree (stream_at s k)"
    and qs: "queues (store_data_queue s u p) ((\<lambda>v. {j \<in> W. urgency_of s j = v})(u := insert k {j \<in> W. urgency_of s j = u}))"
    and u: "u = urgency_of s k"
  shows "data_sched (upd_stream (store_data_queue s u p) k (\<lambda>x. x\<lparr>queued := True\<rparr>)) (insert k W)"
proof -
  let ?s = "upd_stream (store_data_queue s u p) k (\<lambda>x. x\<lparr>queued := True\<rparr>)"
  have same: "urgency_of ?s j = urgency_of s j" "in_tree (stream_at ?s j) = in_tree (stream_at s j)"
      "queued (stream_at ?s j) \<longleftrightarrow> j = k \<or> queued (stream_at s j)" for j
    by (cases "j = k"; simp add: urgency_of_def in_tree_def)+
  have "queues ?s ((\<lambda>v. {j \<in> W. urgency_of s j = v})(u := insert k {j \<in> W. urgency_of s j = u}))"
    by (rule queues_upd [OF qs]) simp
  then have "queues ?s (\<lambda>v. {j \<in> insert k W. urgency_of ?s j = v})"
    by (rule queues_cong) (use u same in auto)
  then show ?thesis
    using data_schedD(2-4) [OF ok] k by (auto simp: data_sched_def same)
qed

lemma data_push_ok:
  assumes ok: "data_sched s W" and k: "k \<notin> W" "\<not> in_tree (stream_at s k)"
    and penalty: "ucast (last_writelen (stream_at s k)) \<le> NGHTTP2_STREAM_MAX_CYCLE_GAP"
    and few: "\<And>u. length (fst (ob_data s u)) \<le> 2 ^ 27"
  shows "\<exists>s' rv. session_ob_data_push e s k = Inr (s', rv) \<and> only_scheduled s k s' \<and>
    (rv = None \<and> data_sched s' (insert k W) \<or> rv = Some NGHTTP2_ERR_NOMEM \<and> (\<exists>n. \<not> alloc e n) \<and> data_sched s' W)"
proof -
  define u where "u = urgency_of s k"
  define c where "c = (\<lambda>x::stream. let first = pq_get_first_cycle s (data_queue s u)
    in if nghttp2_extpri_uint8_inc (extpri x) \<noteq> 0 then first + ucast (last_writelen x) else first)"
  define s1 where "s1 = upd_stream s k (\<lambda>x. x\<lparr>cycle := c x\<rparr>)"
  let ?first = "pq_get_first_cycle s (data_queue s u)"
  let ?m = "\<lambda>v. {j \<in> W. urgency_of s1 j = v}"
  have u: "u < NGHTTP2_EXTPRI_URGENCY_LEVELS" and out: "\<not> queued (stream_at s k)"
    using data_schedD(3,4) [OF ok k(2)] k(1) by (simp_all add: u_def)
  have ok1: "data_sched s1 W"
    unfolding s1_def using ok k(1) u by (intro data_sched_upd) (simp_all add: in_tree_def u_def urgency_of_def)
  have same_u: "urgency_of s1 j = urgency_of s j" for j
    by (cases "j = k") (simp_all add: s1_def urgency_of_def)
  have out1: "\<not> in_tree (stream_at s1 k)" using k(2) by (simp add: s1_def in_tree_def)
  have "queue_good (str (tree s)) (data_queue s u) {j \<in> W. urgency_of s j = u}"
    using data_schedD(1) [OF ok] u by (simp add: queues_def)
  then have "j \<in> gap_entries (str (tree s1)) ?first" if "j \<in> ?m u" for j
    using first_cycle_fits [of s "data_queue s u" _ j] that same_u k(1)
    by (cases "j = k") (simp_all add: gap_entries_def s1_def)
  moreover have "k \<in> gap_entries (str (tree s1)) ?first"
    using penalty by (simp add: gap_entries_def s1_def c_def Let_def)
  ultimately have fits: "insert k (?m u) \<subseteq> gap_entries (str (tree s1)) ?first" by blast
  have small: "length (q (data_queue s1 u)) \<le> 2 ^ 27"
    using few [of u] unfolding s1_def data_queue_upd by (simp add: data_queue_def)
  have push: "push_data_queue e s1 u k = fails s1 NGHTTP2_ERR_NOMEM \<and> (\<exists>n. \<not> alloc e n) \<or>
      (\<exists>p. push_data_queue e s1 u k = ret (store_data_queue s1 u p) \<and>
        queues (store_data_queue s1 u p) (?m(u := insert k (?m u))))"
    using k(1) by (intro queues_push(1) [OF data_schedD(1) [OF ok1] u _ _ fits small]) auto
  have eq: "session_ob_data_push e s k =
      if_ok (push_data_queue e s1 u k) (\<lambda>s2. ret (upd_stream s2 k (\<lambda>x. x\<lparr>queued := True\<rparr>)))"
    using k(2) out u by (simp add: session_ob_data_push_def u_def [symmetric] s1_def c_def Let_def)
  have first: "only_scheduled s k s1"
    unfolding s1_def by (rule only_scheduled_steps)
  then have only: "only_scheduled s k (upd_stream (store_data_queue s1 u p) k (\<lambda>x. x\<lparr>queued := True\<rparr>))" for p
    by (rule only_scheduled_trans [OF _ only_scheduled_trans [OF only_scheduled_steps(2,4)]])
  show ?thesis
    using push
  proof (elim disjE exE conjE)
    fix n assume "push_data_queue e s1 u k = fails s1 NGHTTP2_ERR_NOMEM" "\<not> alloc e n"
    then have "session_ob_data_push e s k = Inr (s1, Some NGHTTP2_ERR_NOMEM)" by (simp add: eq fails_def)
    then show ?thesis using ok1 first \<open>\<not> alloc e n\<close> by blast
  next
    fix p
    let ?s = "upd_stream (store_data_queue s1 u p) k (\<lambda>x. x\<lparr>queued := True\<rparr>)"
    assume p: "push_data_queue e s1 u k = ret (store_data_queue s1 u p)"
      and qs: "queues (store_data_queue s1 u p) (?m(u := insert k (?m u)))"
    have "data_sched ?s (insert k W)"
      by (rule placed [OF ok1 k(1) out1 qs]) (simp add: same_u u_def)
    moreover have "session_ob_data_push e s k = Inr (?s, None)" using p by (simp add: eq ret_def)
    ultimately show ?thesis using only by blast
  qed
qed

lemma data_remove_ok:
  assumes ok: "data_sched s W" and k: "k \<in> W"
  shows "\<exists>s'. session_ob_data_remove s k = Inr (s', None) \<and> only_scheduled s k s' \<and> data_sched s' (W - {k}) \<and>
    (\<forall>v. length (fst (ob_data s' v)) \<le> length (fst (ob_data s v)))"
proof -
  define u where "u = urgency_of s k"
  let ?m = "\<lambda>v. {j \<in> W. urgency_of s j = v}"
  have out: "\<not> in_tree (stream_at s k)" by (rule data_schedD(2) [OF ok k])
  have u: "u < NGHTTP2_EXTPRI_URGENCY_LEVELS" and queued: "queued (stream_at s k)"
    using data_schedD(3,4) [OF ok out] k by (simp_all add: u_def)
  have "\<exists>p. nghttp2_pq_remove (data_less (str (tree s))) (data_queue s u) k = Inr p \<and>
      queues (store_data_queue s u p) (?m(u := ?m u - {k})) \<and> length (q p) < capacity p \<and>
      length (q p) \<le> length (q (data_queue s u))"
    using k by (intro queues_remove [OF data_schedD(1) [OF ok] u]) (auto simp: u_def)
  then obtain p where p: "nghttp2_pq_remove (data_less (str (tree s))) (data_queue s u) k = Inr p"
    and qs: "queues (store_data_queue s u p) (?m(u := ?m u - {k}))" and fewer: "length (q p) \<le> length (q (data_queue s u))"
    by blast
  let ?s = "upd_stream (store_data_queue s u p) k (\<lambda>x. x\<lparr>queued := False\<rparr>)"
  have same: "urgency_of ?s j = urgency_of s j" "in_tree (stream_at ?s j) = in_tree (stream_at s j)"
      "queued (stream_at ?s j) \<longleftrightarrow> j \<noteq> k \<and> queued (stream_at s j)" for j
    by (cases "j = k"; simp add: urgency_of_def in_tree_def)+
  have "queues ?s (?m(u := ?m u - {k}))"
    by (rule queues_upd [OF qs]) simp
  then have "queues ?s (\<lambda>v. {j \<in> W - {k}. urgency_of ?s j = v})"
    by (rule queues_cong) (use u_def same in auto)
  then have "data_sched ?s (W - {k})"
    using data_schedD(2-4) [OF ok] k by (auto simp: data_sched_def same)
  moreover have "length (fst (ob_data ?s v)) \<le> length (fst (ob_data s v))" for v
    using fewer by (simp add: upd_stream_def data_queue_def)
  moreover have "only_scheduled s k ?s"
    by (rule only_scheduled_trans [OF only_scheduled_steps(2,4)])
  moreover have "session_ob_data_remove s k = Inr (?s, None)"
    using out queued u p by (simp add: session_ob_data_remove_def u_def [symmetric] Let_def ret_def)
  ultimately show ?thesis by blast
qed

end
