(* ===== verification/SessSched.thy ===== *)
theory SessSched
  imports SessHeap
begin

text \<open>
  The scheduler of RFC 9218: after every operation on a stream the heaps hold exactly the streams that have
  something to send, and the next one is the first in line.
\<close>

section \<open>The schedule of a connection\<close>

definition waits :: "stream \<Rightarrow> bool" where
  "waits x \<longleftrightarrow> \<not> in_tree x \<and> stream_active x"

definition sched_ok :: "session \<Rightarrow> bool" where
  "sched_ok s \<longleftrightarrow> data_sched s {k. waits (stream_at s k)} \<and>
     (\<forall>k. \<not> in_tree (stream_at s k) \<longrightarrow> ucast (last_writelen (stream_at s k)) \<le> NGHTTP2_STREAM_MAX_CYCLE_GAP)"

lemma only_scheduled_fields:
  assumes "only_scheduled s k s'"
  shows "waits (stream_at s' j) = waits (stream_at s j)" "in_tree (stream_at s' j) = in_tree (stream_at s j)"
    "last_writelen (stream_at s' j) = last_writelen (stream_at s j)" "j \<noteq> k \<Longrightarrow> stream_at s' j = stream_at s j"
proof -
  obtain c b where st: "str (tree s') = (str (tree s))(k := (stream_at s k)\<lparr>cycle := c, queued := b\<rparr>)"
    using assms by (auto simp: only_scheduled_def)
  show "waits (stream_at s' j) = waits (stream_at s j)" "in_tree (stream_at s' j) = in_tree (stream_at s j)"
      "last_writelen (stream_at s' j) = last_writelen (stream_at s j)"
    by (cases "j = k"; simp add: st waits_def in_tree_def stream_active_def)+
  show "j \<noteq> k \<Longrightarrow> stream_at s' j = stream_at s j" by (simp add: st)
qed

lemma only_scheduled_ok:
  assumes "only_scheduled s k s'" "data_sched s' {j. waits (stream_at s j)}"
    "\<And>j. \<not> in_tree (stream_at s j) \<Longrightarrow> ucast (last_writelen (stream_at s j)) \<le> NGHTTP2_STREAM_MAX_CYCLE_GAP"
  shows "sched_ok s'"
  using assms(2,3) only_scheduled_fields [OF assms(1)] by (simp add: sched_ok_def)

text \<open>An operation that makes the change \<open>f\<close> on stream \<open>k\<close>, and puts it where it belongs; if memory for a heap
  runs out the change is made, and the stream is in no heap.\<close>

definition puts :: "env \<Rightarrow> session \<Rightarrow> nat \<Rightarrow> (stream \<Rightarrow> stream) \<Rightarrow> ses \<Rightarrow> bool" where
  "puts e s k f r \<longleftrightarrow> (\<exists>s' rv. r = Inr (s', rv) \<and> only_scheduled (upd_stream s k f) k s' \<and>
     (rv = None \<and> sched_ok s' \<or>
      rv = Some NGHTTP2_ERR_NOMEM \<and> (\<exists>n. \<not> alloc e n) \<and> waits (stream_at s' k) \<and> \<not> queued (stream_at s' k)))"

definition takes :: "session \<Rightarrow> nat \<Rightarrow> (stream \<Rightarrow> stream) \<Rightarrow> ses \<Rightarrow> bool" where
  "takes s k f r \<longleftrightarrow> (\<exists>s'. r = Inr (s', None) \<and> only_scheduled (upd_stream s k f) k s' \<and> sched_ok s')"

lemma waits_upd:
  "{j. waits (stream_at (upd_stream s k f) j)} =
     (if waits (f (stream_at s k)) then insert k {j. waits (stream_at s j)} else {j. waits (stream_at s j)} - {k})"
proof (rule set_eqI)
  show "j \<in> {j. waits (stream_at (upd_stream s k f) j)} \<longleftrightarrow>
    j \<in> (if waits (f (stream_at s k)) then insert k {j. waits (stream_at s j)} else {j. waits (stream_at s j)} - {k})" for j
    by (cases "j = k") simp_all
qed

lemma sched_okD:
  assumes "sched_ok s"
  shows "data_sched s {k. waits (stream_at s k)}"
    "\<not> in_tree (stream_at s j) \<Longrightarrow> ucast (last_writelen (stream_at s j)) \<le> NGHTTP2_STREAM_MAX_CYCLE_GAP"
  using assms by (simp_all add: sched_ok_def)

lemma writelen_upd:
  assumes "sched_ok s" "in_tree (f (stream_at s k)) = in_tree (stream_at s k)"
    "last_writelen (f (stream_at s k)) = last_writelen (stream_at s k)" "\<not> in_tree (stream_at (upd_stream s k f) j)"
  shows "ucast (last_writelen (stream_at (upd_stream s k f) j)) \<le> NGHTTP2_STREAM_MAX_CYCLE_GAP"
  using sched_okD(2) [OF assms(1), of j] assms(2-4) by (cases "j = k") simp_all

text \<open>A stream that starts to wait, and one that stops.\<close>

lemma puts_push:
  assumes ok: "sched_ok s" and k: "\<not> waits (stream_at s k)" and few: "\<And>u. length (fst (ob_data s u)) \<le> 2 ^ 27"
    and f: "waits (f (stream_at s k))" "in_tree (f (stream_at s k)) = in_tree (stream_at s k)"
      "queued (f (stream_at s k)) = queued (stream_at s k)" "extpri (f (stream_at s k)) = extpri (stream_at s k)"
      "last_writelen (f (stream_at s k)) = last_writelen (stream_at s k)"
  shows "puts e s k f (session_ob_data_push e (upd_stream s k f) k)"
proof -
  let ?W = "{j. waits (stream_at s j)}" and ?s = "upd_stream s k f"
  have out: "\<not> in_tree (stream_at ?s k)" using f(1) by (simp add: waits_def)
  then have urgency: "urgency_of s k < NGHTTP2_EXTPRI_URGENCY_LEVELS"
    using f(2) data_schedD(3) [OF sched_okD(1) [OF ok], of k] by simp
  have lens: "ucast (last_writelen (stream_at ?s j)) \<le> NGHTTP2_STREAM_MAX_CYCLE_GAP"
    if "\<not> in_tree (stream_at ?s j)" for j
    by (rule writelen_upd [where f = f, OF ok f(2,5) that])
  have "data_sched ?s ?W"
    using k f urgency by (intro data_sched_upd [OF sched_okD(1) [OF ok]]) (simp_all add: urgency_of_def)
  moreover have "length (fst (ob_data ?s u)) \<le> 2 ^ 27" for u
    using few [of u] by (simp add: upd_stream_def)
  ultimately obtain s' rv where r: "session_ob_data_push e ?s k = Inr (s', rv)" "only_scheduled ?s k s'"
      and c: "rv = None \<and> data_sched s' (insert k ?W) \<or> rv = Some NGHTTP2_ERR_NOMEM \<and> (\<exists>n. \<not> alloc e n) \<and> data_sched s' ?W"
    using data_push_ok [of ?s ?W k e, OF _ _ out lens [OF out]] k by auto
  have "waits (stream_at s' k)" "\<not> in_tree (stream_at s' k)"
    using only_scheduled_fields(1,2) [OF r(2), of k] f(1) out by simp_all
  then have "\<not> queued (stream_at s' k)" if "data_sched s' ?W"
    using data_schedD(4) [OF that, of k] k by simp
  moreover have "sched_ok s'" if "data_sched s' (insert k ?W)"
    using that f(1) lens by (intro only_scheduled_ok [OF r(2)]) (simp_all add: waits_upd)
  ultimately show ?thesis
    using r c \<open>waits (stream_at s' k)\<close> by (auto simp: puts_def)
qed

lemma takes_remove:
  assumes ok: "sched_ok s" and k: "waits (stream_at s k)"
    and f: "\<not> waits (f (stream_at s k))" "in_tree (f (stream_at s k)) = in_tree (stream_at s k)"
      "queued (f (stream_at s k)) = queued (stream_at s k)" "extpri (f (stream_at s k)) = extpri (stream_at s k)"
      "last_writelen (f (stream_at s k)) = last_writelen (stream_at s k)"
      "cycle (f (stream_at s k)) = cycle (stream_at s k)" "seq (f (stream_at s k)) = seq (stream_at s k)"
  shows "takes s k f (session_ob_data_remove (upd_stream s k f) k)"
proof -
  let ?W = "{j. waits (stream_at s j)}" and ?s = "upd_stream s k f"
  have "data_sched ?s ?W"
    using k f by (intro data_sched_upd [OF sched_okD(1) [OF ok]]) simp_all
  then obtain s' where r: "session_ob_data_remove ?s k = Inr (s', None)" "only_scheduled ?s k s'"
      and s': "data_sched s' (?W - {k})"
    using data_remove_ok [of ?s ?W k] k by auto
  have "ucast (last_writelen (stream_at ?s j)) \<le> NGHTTP2_STREAM_MAX_CYCLE_GAP" if "\<not> in_tree (stream_at ?s j)" for j
    by (rule writelen_upd [where f = f, OF ok f(2,5) that])
  then have "sched_ok s'"
    using s' f(1) by (intro only_scheduled_ok [OF r(2)]) (simp_all add: waits_upd)
  then show ?thesis using r by (auto simp: takes_def)
qed

lemma takes_stay:
  assumes ok: "sched_ok s" and f: "waits (f (stream_at s k)) = waits (stream_at s k)"
      "in_tree (f (stream_at s k)) = in_tree (stream_at s k)"
      "queued (f (stream_at s k)) = queued (stream_at s k)"
      "last_writelen (f (stream_at s k)) = last_writelen (stream_at s k)"
    and inside: "waits (stream_at s k) \<Longrightarrow> cycle (f (stream_at s k)) = cycle (stream_at s k) \<and>
      seq (f (stream_at s k)) = seq (stream_at s k) \<and> extpri (f (stream_at s k)) = extpri (stream_at s k)"
    and outside: "\<not> waits (stream_at s k) \<Longrightarrow> \<not> in_tree (stream_at s k) \<Longrightarrow>
      unat (nghttp2_extpri_uint8_urgency (extpri (f (stream_at s k)))) < NGHTTP2_EXTPRI_URGENCY_LEVELS"
  shows "takes s k f (ret (upd_stream s k f))"
proof -
  let ?W = "{j. waits (stream_at s j)}" and ?s = "upd_stream s k f"
  have "data_sched ?s ?W"
    using f inside outside by (intro data_sched_upd [OF sched_okD(1) [OF ok]]) simp_all
  moreover have "{j. waits (stream_at ?s j)} = ?W"
    using f(1) by (auto simp: waits_upd)
  moreover have "ucast (last_writelen (stream_at ?s j)) \<le> NGHTTP2_STREAM_MAX_CYCLE_GAP" if "\<not> in_tree (stream_at ?s j)" for j
    by (rule writelen_upd [where f = f, OF ok f(2,4) that])
  ultimately have "sched_ok ?s" by (simp add: sched_ok_def)
  then show ?thesis using only_scheduled_steps(1) [of ?s k] by (auto simp: takes_def ret_def)
qed

lemma takes_puts: "takes s k f r \<Longrightarrow> puts e s k f r"
  by (auto simp: takes_def puts_def)

section \<open>The operations\<close>

lemma tree_steps:
  "on_tree s (Inr (upd (tree s) k f, rv)) = Inr (upd_stream s k f, rv)"
  "on_tree' s (Inr (upd (tree s) k f)) = ret (upd_stream s k f)"
  by (simp_all add: on_tree_def on_tree'_def upd_stream_def ret_def)

lemma no_tree_iff: "no_tree x \<longleftrightarrow> \<not> in_tree x"
  by (simp add: no_tree_def in_tree_def)

lemma attach_puts:
  assumes ok: "sched_ok s" and k: "\<not> in_tree (stream_at s k)" and few: "\<And>u. length (fst (ob_data s u)) \<le> 2 ^ 27"
    and free: "item (stream_at s k) = None" "flags (stream_at s k) AND NGHTTP2_STREAM_FLAG_DEFERRED_ALL = 0"
  shows "puts e s k (\<lambda>x. x\<lparr>item := Some it\<rparr>) (session_attach_stream_item e s k it)"
proof -
  have "session_attach_stream_item e s k it = session_ob_data_push e (upd_stream s k (\<lambda>x. x\<lparr>item := Some it\<rparr>)) k"
    using k free by (simp add: session_attach_stream_item_def nghttp2_stream_attach_item_def Let_def no_tree_iff
        tree_steps if_ok_Inr in_tree_def)
  then show ?thesis
    using puts_push [where f = "\<lambda>x. x\<lparr>item := Some it\<rparr>", OF ok _ few] k free
    by (simp add: waits_def stream_active_def in_tree_def)
qed

lemma detach_takes:
  assumes ok: "sched_ok s" and k: "\<not> in_tree (stream_at s k)"
  shows "takes s k (\<lambda>x. x\<lparr>item := None, flags := flags x AND NOT NGHTTP2_STREAM_FLAG_DEFERRED_ALL\<rparr>)
    (session_detach_stream_item s k)"
proof -
  let ?f = "\<lambda>x::stream. x\<lparr>item := None, flags := flags x AND NOT NGHTTP2_STREAM_FLAG_DEFERRED_ALL\<rparr>"
  have bits: "in_tree (?f x) = in_tree x" for x
    by (subst in_tree_def, subst in_tree_def, simp, subst and_not_disjoint)
      (simp_all add: NGHTTP2_STREAM_FLAG_DEFERRED_ALL_def NGHTTP2_STREAM_FLAG_NO_RFC7540_PRIORITIES_def)
  have wq: "queued (stream_at s k) \<longleftrightarrow> waits (stream_at s k)"
    using data_schedD(4) [OF sched_okD(1) [OF ok] k] by simp
  have gone: "\<not> waits (?f x)" for x by (simp add: waits_def stream_active_def)
  have eq: "session_detach_stream_item s k =
      (if waits (stream_at s k) then session_ob_data_remove (upd_stream s k ?f) k else ret (upd_stream s k ?f))"
    using k wq bits [of "stream_at s k"]
    by (simp add: session_detach_stream_item_def nghttp2_stream_detach_item_def Let_def no_tree_iff tree_steps)
  show ?thesis
  proof (cases "waits (stream_at s k)")
    case True
    then show ?thesis
      unfolding eq using takes_remove [where f = ?f, OF ok True gone bits] by simp
  next
    case False
    have "unat (nghttp2_extpri_uint8_urgency (extpri (stream_at s k))) < NGHTTP2_EXTPRI_URGENCY_LEVELS"
      using data_schedD(3) [OF sched_okD(1) [OF ok] k] by (simp add: urgency_of_def)
    then show ?thesis
      unfolding eq using False gone bits takes_stay [where f = ?f, OF ok] by simp
  qed
qed

lemma defer_takes:
  assumes ok: "sched_ok s" and k: "\<not> in_tree (stream_at s k)" "item (stream_at s k) \<noteq> None"
    and fl: "fl AND NGHTTP2_STREAM_FLAG_DEFERRED_ALL \<noteq> 0" "fl AND NGHTTP2_STREAM_FLAG_NO_RFC7540_PRIORITIES = 0"
  shows "takes s k (\<lambda>x. x\<lparr>flags := flags x OR fl\<rparr>) (session_defer_stream_item s k fl)"
proof -
  let ?f = "\<lambda>x::stream. x\<lparr>flags := flags x OR fl\<rparr>"
  have bits: "in_tree (?f x) = in_tree x" for x
    using fl(2) by (simp add: in_tree_def bit.conj_disj_distrib2)
  have wq: "queued (stream_at s k) \<longleftrightarrow> waits (stream_at s k)"
    using data_schedD(4) [OF sched_okD(1) [OF ok] k(1)] by simp
  have gone: "\<not> waits (?f x)" for x
    using fl(1) by (simp add: waits_def stream_active_def bit.conj_disj_distrib2 or_eq_0_iff)
  have eq: "session_defer_stream_item s k fl =
      (if waits (stream_at s k) then session_ob_data_remove (upd_stream s k ?f) k else ret (upd_stream s k ?f))"
    using k wq bits [of "stream_at s k"]
    by (simp add: session_defer_stream_item_def nghttp2_stream_defer_item_def Let_def no_tree_iff tree_steps)
  show ?thesis
  proof (cases "waits (stream_at s k)")
    case True
    then show ?thesis
      unfolding eq using takes_remove [where f = ?f, OF ok True gone bits] by simp
  next
    case False
    have "unat (nghttp2_extpri_uint8_urgency (extpri (stream_at s k))) < NGHTTP2_EXTPRI_URGENCY_LEVELS"
      using data_schedD(3) [OF sched_okD(1) [OF ok] k(1)] by (simp add: urgency_of_def)
    then show ?thesis
      unfolding eq using False gone bits takes_stay [where f = ?f, OF ok] by simp
  qed
qed

lemma resume_puts:
  assumes ok: "sched_ok s" and k: "\<not> in_tree (stream_at s k)" and few: "\<And>u. length (fst (ob_data s u)) \<le> 2 ^ 27"
    and deferred: "item (stream_at s k) \<noteq> None" "flags (stream_at s k) AND NGHTTP2_STREAM_FLAG_DEFERRED_ALL \<noteq> 0"
    and fl: "fl AND NGHTTP2_STREAM_FLAG_NO_RFC7540_PRIORITIES = 0"
  shows "puts e s k (\<lambda>x. x\<lparr>flags := flags x AND NOT fl\<rparr>) (session_resume_deferred_stream_item e s k fl)"
proof -
  let ?f = "\<lambda>x::stream. x\<lparr>flags := flags x AND NOT fl\<rparr>"
  have bits: "in_tree (?f x) = in_tree x" for x
    using and_not_disjoint [OF fl] by (simp add: in_tree_def)
  have before: "\<not> waits (stream_at s k)" using deferred by (simp add: waits_def stream_active_def)
  have eq: "session_resume_deferred_stream_item e s k fl =
      (if waits (?f (stream_at s k)) then session_ob_data_push e (upd_stream s k ?f) k else ret (upd_stream s k ?f))"
    using k deferred(1) bits [of "stream_at s k"]
    by (auto simp: session_resume_deferred_stream_item_def nghttp2_stream_resume_deferred_item_def Let_def no_tree_iff
      tree_steps if_ok_Inr waits_def stream_active_def has_def)
  show ?thesis
  proof (cases "waits (?f (stream_at s k))")
    case True
    then show ?thesis
      unfolding eq using puts_push [where f = ?f, OF ok before few True bits] by simp
  next
    case False
    have "unat (nghttp2_extpri_uint8_urgency (extpri (stream_at s k))) < NGHTTP2_EXTPRI_URGENCY_LEVELS"
      using data_schedD(3) [OF sched_okD(1) [OF ok] k] by (simp add: urgency_of_def)
    then show ?thesis
      unfolding eq using False before bits takes_stay [where f = ?f, OF ok] by (intro takes_puts) simp
  qed
qed

lemma only_scheduled_commute:
  assumes "only_scheduled s k s'" and f: "\<And>x c b. f (x\<lparr>cycle := c, queued := b\<rparr>) = (f x)\<lparr>cycle := c, queued := b\<rparr>"
  shows "only_scheduled (upd_stream s k f) k (upd_stream s' k f)"
proof -
  obtain d ix c b where s': "s' = s\<lparr>ob_data := d,
      tree := (tree s)\<lparr>str := (str (tree s))(k := (stream_at s k)\<lparr>cycle := c, queued := b\<rparr>), pqi := ix\<rparr>\<rparr>"
    using assms(1) by (auto simp: only_scheduled_def)
  show ?thesis
    by (rule only_scheduledI [where d = d and c = c and b = b and ix = ix]) (simp add: s' upd_stream_def upd_def f)
qed

lemma priority_puts:
  assumes ok: "sched_ok s" and k: "\<not> in_tree (stream_at s k)" and few: "\<And>u. length (fst (ob_data s u)) \<le> 2 ^ 27"
    and p: "unat (nghttp2_extpri_uint8_urgency p) < NGHTTP2_EXTPRI_URGENCY_LEVELS"
  shows "puts e s k (\<lambda>x. x\<lparr>extpri := p\<rparr>) (session_update_stream_priority e s k p)"
proof -
  let ?f = "\<lambda>x::stream. x\<lparr>extpri := p\<rparr>" and ?W = "{j. waits (stream_at s j)}"
  have keeps: "waits (?f x) = waits x" "in_tree (?f x) = in_tree x" for x
    by (simp_all add: waits_def in_tree_def stream_active_def)
  have wq: "queued (stream_at s k) \<longleftrightarrow> waits (stream_at s k)"
    using data_schedD(4) [OF sched_okD(1) [OF ok] k] by simp
  consider "extpri (stream_at s k) = p" | "extpri (stream_at s k) \<noteq> p" "\<not> waits (stream_at s k)"
    | "extpri (stream_at s k) \<noteq> p" "waits (stream_at s k)" by blast
  then show ?thesis
  proof cases
    case 1
    then have "?f (stream_at s k) = stream_at s k" by simp
    then have "upd_stream s k ?f = s" by (simp add: upd_stream_def upd_def fun_upd_idem)
    then show ?thesis
      using 1 takes_stay [where f = ?f and k = k, OF ok keeps] p by (intro takes_puts) (simp add: session_update_stream_priority_def)
  next
    case 2
    then show ?thesis
      using wq takes_stay [where f = ?f and k = k, OF ok keeps] p by (intro takes_puts) (simp add: session_update_stream_priority_def)
  next
    case 3
    obtain s1 where r1: "session_ob_data_remove s k = Inr (s1, None)" "only_scheduled s k s1" "data_sched s1 (?W - {k})"
        "\<And>v. length (fst (ob_data s1 v)) \<le> length (fst (ob_data s v))"
      using data_remove_ok [OF sched_okD(1) [OF ok], of k] 3(2) by auto
    let ?s2 = "upd_stream s1 k ?f"
    have out: "\<not> in_tree (stream_at s1 k)" "\<not> in_tree (stream_at ?s2 k)"
      using k only_scheduled_fields(2) [OF r1(2), of k] keeps by simp_all
    have "data_sched ?s2 (?W - {k})"
      using keeps p by (intro data_sched_upd [OF r1(3)]) simp_all
    moreover have "ucast (last_writelen (stream_at ?s2 k)) \<le> NGHTTP2_STREAM_MAX_CYCLE_GAP"
      using only_scheduled_fields(3) [OF r1(2), of k] sched_okD(2) [OF ok k] by simp
    moreover have "length (fst (ob_data ?s2 u)) \<le> 2 ^ 27" for u
      using order.trans [OF r1(4) few, of u] by (simp add: upd_stream_def)
    ultimately obtain s' rv where r: "session_ob_data_push e ?s2 k = Inr (s', rv)" "only_scheduled ?s2 k s'"
        and c: "rv = None \<and> data_sched s' (insert k (?W - {k})) \<or>
          rv = Some NGHTTP2_ERR_NOMEM \<and> (\<exists>n. \<not> alloc e n) \<and> data_sched s' (?W - {k})"
      using data_push_ok [of ?s2 "?W - {k}" k e, OF _ _ out(2)] by auto
    have only: "only_scheduled (upd_stream s k ?f) k s'"
      by (rule only_scheduled_trans [OF only_scheduled_commute [OF r1(2)] r(2)]) simp
    have W: "{j. waits (stream_at (upd_stream s k ?f) j)} = insert k (?W - {k})"
      using 3(2) keeps by (auto simp: waits_upd)
    have "ucast (last_writelen (stream_at (upd_stream s k ?f) j)) \<le> NGHTTP2_STREAM_MAX_CYCLE_GAP"
      if "\<not> in_tree (stream_at (upd_stream s k ?f) j)" for j
      by (rule writelen_upd [where f = ?f, OF ok keeps(2) _ that]) simp
    then have "sched_ok s'" if "data_sched s' (insert k (?W - {k}))"
      using that by (intro only_scheduled_ok [OF only]) (simp_all only: W)
    moreover have "waits (stream_at s' k)" "\<not> in_tree (stream_at s' k)"
      using only_scheduled_fields(1,2) [OF only, of k] 3(2) keeps k by simp_all
    moreover have "\<not> queued (stream_at s' k)" if "data_sched s' (?W - {k})"
      using data_schedD(4) [OF that \<open>\<not> in_tree (stream_at s' k)\<close>] by simp
    moreover have "session_update_stream_priority e s k p = Inr (s', rv)"
      using 3 wq r1(1) r(1) by (simp add: session_update_stream_priority_def)
    ultimately show ?thesis using only c by (auto simp: puts_def)
  qed
qed

section \<open>The next stream\<close>

lemma first_data_stream_None:
  "first_data_stream s us = None \<longleftrightarrow> (\<forall>u\<in>set us. q (data_queue s u) = [])"
  by (induction us) (auto simp: nghttp2_pq_top_def)

lemma first_data_stream_Some:
  assumes "first_data_stream s us = Some k"
  shows "\<exists>i<length us. nghttp2_pq_top (data_queue s (us ! i)) = Some k \<and> (\<forall>j<i. q (data_queue s (us ! j)) = [])"
  using assms
proof (induction us)
  case (Cons u us)
  show ?case
  proof (cases "nghttp2_pq_top (data_queue s u)")
    case None
    then have "q (data_queue s u) = []" by (simp add: nghttp2_pq_top_def split: if_splits)
    moreover obtain i where "i < length us" "nghttp2_pq_top (data_queue s (us ! i)) = Some k"
        "\<forall>j<i. q (data_queue s (us ! j)) = []"
      using Cons None by auto
    ultimately show ?thesis
      by (intro exI [of _ "Suc i"]) (auto simp: less_Suc_eq_0_disj)
  next
    case (Some a)
    then show ?thesis using Cons.prems by (intro exI [of _ 0]) simp
  qed
qed simp

lemma waiting_queue:
  assumes "sched_ok s" "u < NGHTTP2_EXTPRI_URGENCY_LEVELS"
  shows "set (q (data_queue s u)) = {j. waits (stream_at s j) \<and> urgency_of s j = u}"
  using data_schedD(1) [OF sched_okD(1) [OF assms(1)]] assms(2) by (auto simp: queues_def queue_good_def)

lemma waiting_urgency: "sched_ok s \<Longrightarrow> waits (stream_at s j) \<Longrightarrow> urgency_of s j < NGHTTP2_EXTPRI_URGENCY_LEVELS"
  using data_schedD(3) [OF sched_okD(1)] by (simp add: waits_def)

lemma no_stream_waits:
  assumes ok: "sched_ok s"
  shows "first_data_stream s [0..<NGHTTP2_EXTPRI_URGENCY_LEVELS] = None \<longleftrightarrow> (\<forall>j. \<not> waits (stream_at s j))"
proof -
  have "q (data_queue s u) = [] \<longleftrightarrow> {j. waits (stream_at s j) \<and> urgency_of s j = u} = {}"
    if "u < NGHTTP2_EXTPRI_URGENCY_LEVELS" for u
    using waiting_queue [OF ok that] by (metis set_empty)
  then show ?thesis
    using waiting_urgency [OF ok] by (auto simp: first_data_stream_None)
qed

text \<open>The stream found is the top of its heap, and no stream goes before it.\<close>

definition first_in_line :: "session \<Rightarrow> nat \<Rightarrow> bool" where
  "first_in_line s k \<longleftrightarrow> waits (stream_at s k) \<and> (\<forall>j. waits (stream_at s j) \<longrightarrow>
     urgency_of s k < urgency_of s j \<or>
     urgency_of s k = urgency_of s j \<and> \<not> session_stream_less (stream_at s j) (stream_at s k))"

lemma first_data_stream_first:
  assumes ok: "sched_ok s" and k: "first_data_stream s [0..<NGHTTP2_EXTPRI_URGENCY_LEVELS] = Some k"
  shows "nghttp2_pq_top (data_queue s (urgency_of s k)) = Some k" "first_in_line s k"
proof -
  obtain u where u: "u < NGHTTP2_EXTPRI_URGENCY_LEVELS" "nghttp2_pq_top (data_queue s u) = Some k"
      "\<And>v. v < u \<Longrightarrow> q (data_queue s v) = []"
    using first_data_stream_Some [OF k] by auto
  have "queue_good (str (tree s)) (data_queue s u) {j. waits (stream_at s j) \<and> urgency_of s j = u}"
    using data_schedD(1) [OF sched_okD(1) [OF ok]] u(1) by (simp add: queues_def)
  then obtain b where "pq_ok (gap_entries (str (tree s)) b) (data_less (str (tree s))) (data_queue s u)"
      "set (q (data_queue s u)) = {j. waits (stream_at s j) \<and> urgency_of s j = u}"
    by (rule queue_goodD)
  then have top: "waits (stream_at s k)" "urgency_of s k = u"
      "\<And>j. waits (stream_at s j) \<Longrightarrow> urgency_of s j = u \<Longrightarrow> \<not> session_stream_less (stream_at s j) (stream_at s k)"
    using dq.top_minimum u(2) by (auto simp: data_less_def)
  have low: "\<not> urgency_of s j < u" if j: "waits (stream_at s j)" for j
    using waiting_queue [OF ok waiting_urgency [OF ok j]] u(3) [of "urgency_of s j"] j by auto
  have "urgency_of s k < urgency_of s j \<or>
      urgency_of s k = urgency_of s j \<and> \<not> session_stream_less (stream_at s j) (stream_at s k)"
    if "waits (stream_at s j)" for j
    using low [OF that] top(2,3) that by (cases "urgency_of s j = u") auto
  then show "first_in_line s k" using top(1) by (simp add: first_in_line_def)
  show "nghttp2_pq_top (data_queue s (urgency_of s k)) = Some k" using top(2) u(2) by simp
qed

section \<open>Another turn\<close>

text \<open>The stream \<open>k\<close> whose data was sent, the top of its heap, goes back by what was sent.\<close>

definition in_turns :: "session \<Rightarrow> nat \<Rightarrow> bool" where
  "in_turns s k \<longleftrightarrow> nghttp2_extpri_uint8_inc (extpri (stream_at s k)) \<noteq> 0 \<and>
     (\<exists>j. j \<noteq> k \<and> waits (stream_at s j) \<and> urgency_of s j = urgency_of s k)"

lemma alone_in_queue:
  assumes ok: "sched_ok s" and k: "waits (stream_at s k)"
  shows "length (q (data_queue s (urgency_of s k))) = 1 \<longleftrightarrow>
    (\<forall>j. waits (stream_at s j) \<and> urgency_of s j = urgency_of s k \<longrightarrow> j = k)"
proof -
  let ?q = "q (data_queue s (urgency_of s k))"
  define S where "S = {j. waits (stream_at s j) \<and> urgency_of s j = urgency_of s k}"
  have u: "urgency_of s k < NGHTTP2_EXTPRI_URGENCY_LEVELS" by (rule waiting_urgency [OF ok k])
  have "queue_good (str (tree s)) (data_queue s (urgency_of s k)) S"
    using data_schedD(1) [OF sched_okD(1) [OF ok]] u by (simp add: queues_def S_def)
  then have "distinct ?q" "set ?q = S"
    by (auto simp: queue_good_def pq_ok_def indexed_distinct)
  then have "length ?q = card S" by (metis distinct_card)
  moreover have "k \<in> S" using k by (simp add: S_def)
  ultimately have "length ?q = 1 \<longleftrightarrow> (\<forall>j. j \<in> S \<longrightarrow> j = k)" by (auto simp: card_1_singleton_iff)
  then show ?thesis by (simp add: S_def)
qed

lemma requeue_ok:
  assumes ok: "data_sched s W" and k: "k \<in> W"
    and penalty: "ucast (last_writelen (stream_at s k)) \<le> NGHTTP2_STREAM_MAX_CYCLE_GAP"
  defines "u \<equiv> urgency_of s k"
  defines "moved \<equiv> \<lambda>p. upd_stream (store_data_queue s u p) k (\<lambda>x. x\<lparr>cycle := cycle x + ucast (last_writelen (stream_at s k))\<rparr>)"
  assumes top: "nghttp2_pq_top (data_queue s u) = Some k"
  shows "\<exists>p p'. nghttp2_pq_remove (data_less (str (tree s))) (data_queue s u) k = Inr p \<and>
    push_data_queue e (moved p) u k = ret (store_data_queue (moved p) u p') \<and> data_sched (store_data_queue (moved p) u p') W"
proof -
  let ?m = "\<lambda>v. {j \<in> W. urgency_of s j = v}" and ?first = "cycle (stream_at s k)"
  let ?m1 = "?m(u := ?m u - {k})"
  have u: "u < NGHTTP2_EXTPRI_URGENCY_LEVELS"
    unfolding u_def by (rule data_schedD(3) [OF ok data_schedD(2) [OF ok k]])
  obtain p where p: "nghttp2_pq_remove (data_less (str (tree s))) (data_queue s u) k = Inr p"
      and qs: "queues (store_data_queue s u p) ?m1" and room: "length (q p) < capacity p"
    using queues_remove [OF data_schedD(1) [OF ok] u, of k] k by (auto simp: u_def)
  have qs1: "queues (moved p) ?m1"
    unfolding moved_def by (intro queues_upd [OF qs]) (auto simp: u_def split: if_splits)
  have "queue_good (str (tree s)) (data_queue s u) (?m u)"
    using data_schedD(1) [OF ok] u by (simp add: queues_def)
  then have "j \<in> gap_entries (str (tree s)) ?first" if "j \<in> ?m u" for j
    using first_cycle_fits [of s "data_queue s u" _ j] that top by (simp add: pq_get_first_cycle_def)
  then have "j \<in> gap_entries (str (tree (moved p))) ?first" if "j \<in> ?m1 u" for j
    using that by (simp add: gap_entries_def moved_def)
  moreover have "k \<in> gap_entries (str (tree (moved p))) ?first"
    using penalty by (simp add: gap_entries_def moved_def)
  ultimately have fits: "insert k (?m1 u) \<subseteq> gap_entries (str (tree (moved p))) ?first" by blast
  have "length (q (data_queue (moved p) u)) < capacity (data_queue (moved p) u)"
    using room by (simp add: moved_def)
  then have "\<exists>p'. push_data_queue e (moved p) u k = ret (store_data_queue (moved p) u p') \<and>
      queues (store_data_queue (moved p) u p') (?m1(u := insert k (?m1 u)))"
    by (intro queues_push(2) [OF qs1 u _ _ fits]) (auto simp: u_def split: if_splits)
  then obtain p' where p': "push_data_queue e (moved p) u k = ret (store_data_queue (moved p) u p')"
      and qs': "queues (store_data_queue (moved p) u p') (?m1(u := insert k (?m1 u)))" by blast
  have same: "urgency_of (moved p) j = urgency_of s j"
      "in_tree (stream_at (moved p) j) = in_tree (stream_at s j)"
      "queued (stream_at (moved p) j) = queued (stream_at s j)" for j
    by (cases "j = k"; simp add: moved_def urgency_of_def in_tree_def)+
  have "queues (store_data_queue (moved p) u p') (\<lambda>v. {j \<in> W. urgency_of (store_data_queue (moved p) u p') j = v})"
    using qs' by (rule queues_cong) (use k in \<open>auto simp: u_def same\<close>)
  then have "data_sched (store_data_queue (moved p) u p') W"
    using data_schedD(2-4) [OF ok] by (simp add: data_sched_def same)
  then show ?thesis using p p' by blast
qed

lemma sched_reschedule_ok:
  assumes ok: "sched_ok s" and k: "waits (stream_at s k)"
    and top: "nghttp2_pq_top (data_queue s (urgency_of s k)) = Some k"
  shows "\<exists>s'. session_sched_reschedule_stream e s k = Inr (s', None) \<and> only_scheduled s k s' \<and> sched_ok s' \<and>
    cycle (stream_at s' k) = (if in_turns s k then cycle (stream_at s k) + ucast (last_writelen (stream_at s k))
                              else cycle (stream_at s k))"
proof (cases "in_turns s k")
  case False
  then have "session_sched_reschedule_stream e s k = ret s"
    using waiting_urgency [OF ok k] alone_in_queue [OF ok k]
    by (auto simp: session_sched_reschedule_stream_def in_turns_def Let_def)
  then show ?thesis
    using False ok only_scheduled_steps(1) [of s k] by (auto simp: ret_def)
next
  case True
  define u where "u = urgency_of s k"
  define moved where "moved = (\<lambda>p. upd_stream (store_data_queue s u p) k (\<lambda>x. x\<lparr>cycle := cycle x + ucast (last_writelen (stream_at s k))\<rparr>))"
  have u: "u < NGHTTP2_EXTPRI_URGENCY_LEVELS" unfolding u_def by (rule waiting_urgency [OF ok k])
  have more: "length (q (data_queue s u)) \<noteq> 1" "nghttp2_extpri_uint8_inc (extpri (stream_at s k)) \<noteq> 0"
    using True alone_in_queue [OF ok k] by (auto simp: in_turns_def u_def)
  have "ucast (last_writelen (stream_at s k)) \<le> NGHTTP2_STREAM_MAX_CYCLE_GAP"
    using k by (intro sched_okD(2) [OF ok]) (simp add: waits_def)
  then obtain p p' where p: "nghttp2_pq_remove (data_less (str (tree s))) (data_queue s u) k = Inr p"
      "push_data_queue e (moved p) u k = ret (store_data_queue (moved p) u p')"
      and good: "data_sched (store_data_queue (moved p) u p') {j. waits (stream_at s j)}"
    using requeue_ok [OF sched_okD(1) [OF ok], of k e] k top by (auto simp: moved_def u_def)
  let ?s = "store_data_queue (moved p) u p'"
  have only: "only_scheduled s k ?s"
    unfolding moved_def
    by (rule only_scheduled_trans [OF only_scheduled_trans [OF only_scheduled_steps(2,3)] only_scheduled_steps(2)])
  then have "sched_ok ?s"
    using sched_okD(2) [OF ok] good by (intro only_scheduled_ok [OF only])
  moreover have "session_sched_reschedule_stream e s k = Inr (?s, None)"
    using u more p by (simp add: session_sched_reschedule_stream_def u_def [symmetric] moved_def Let_def ret_def)
  ultimately show ?thesis using only True by (auto simp: moved_def)
qed

lemma reschedule_turn:
  assumes ok: "sched_ok s" and top: "nghttp2_pq_top (data_queue s (urgency_of s k)) = Some k"
    and k: "waits (stream_at s k)" and it: "item (stream_at s k) = Some it" and srv: "server s"
    and len: "ucast (fr_length (oi_frame (items s it))) \<le> NGHTTP2_STREAM_MAX_CYCLE_GAP"
  shows "\<exists>s'. session_reschedule_stream e s k = Inr (s', None) \<and> sched_ok s' \<and>
    only_scheduled (upd_stream s k (\<lambda>x. x\<lparr>last_writelen := fr_length (oi_frame (items s it))\<rparr>)) k s' \<and>
    cycle (stream_at s' k) = cycle (stream_at s k) +
      (if in_turns s k then ucast (fr_length (oi_frame (items s it))) else 0)"
proof -
  let ?f = "\<lambda>x::stream. x\<lparr>last_writelen := fr_length (oi_frame (items s it))\<rparr>"
  let ?s = "upd_stream s k ?f"
  have keeps: "waits (?f x) = waits x" "in_tree (?f x) = in_tree x" for x
    by (simp_all add: waits_def in_tree_def stream_active_def)
  have same: "waits (stream_at ?s j) = waits (stream_at s j)" "urgency_of ?s j = urgency_of s j"
      "in_tree (stream_at ?s j) = in_tree (stream_at s j)" for j
    by (cases "j = k"; simp add: keeps urgency_of_def)+
  have "data_sched ?s {j. waits (stream_at s j)}"
    using k by (intro data_sched_upd [OF sched_okD(1) [OF ok]]) (simp_all add: in_tree_def)
  moreover have "ucast (last_writelen (stream_at ?s j)) \<le> NGHTTP2_STREAM_MAX_CYCLE_GAP"
    if "\<not> in_tree (stream_at ?s j)" for j
    using that len sched_okD(2) [OF ok, of j] same by (cases "j = k") simp_all
  ultimately have "sched_ok ?s" by (simp add: sched_ok_def same)
  moreover have "in_turns ?s k = in_turns s k" by (simp add: in_turns_def same)
  moreover have "session_reschedule_stream e s k = session_sched_reschedule_stream e ?s k"
    using it k srv keeps by (simp add: session_reschedule_stream_def Let_def waits_def upd_stream_def)
  ultimately show ?thesis
    using sched_reschedule_ok [of ?s k e] top k same by (auto simp: keeps)
qed

section \<open>The scheduler\<close>

lemma next_data_turn:
  assumes ok: "sched_ok s" and next_it: "session_sched_get_next_outbound_item s = Some it"
  shows "\<exists>k. first_in_line s k \<and> item (stream_at s k) = Some it \<and>
    (server s \<and> ucast (fr_length (oi_frame (items s it))) \<le> NGHTTP2_STREAM_MAX_CYCLE_GAP \<longrightarrow>
     (\<exists>s'. session_reschedule_stream e s k = Inr (s', None) \<and> sched_ok s' \<and>
       only_scheduled (upd_stream s k (\<lambda>x. x\<lparr>last_writelen := fr_length (oi_frame (items s it))\<rparr>)) k s' \<and>
       cycle (stream_at s' k) = cycle (stream_at s k) +
         (if in_turns s k then ucast (fr_length (oi_frame (items s it))) else 0)))"
proof -
  obtain k where k: "first_data_stream s [0..<NGHTTP2_EXTPRI_URGENCY_LEVELS] = Some k"
    and it: "item (stream_at s k) = Some it"
    using next_it by (auto simp: session_sched_get_next_outbound_item_def split: option.splits)
  show ?thesis
    using first_data_stream_first [OF ok k] reschedule_turn [OF ok first_data_stream_first(1) [OF ok k] _ it] it
    by (intro exI [of _ k]) (auto simp: first_in_line_def)
qed

lemma no_data_iff:
  assumes ok: "sched_ok s"
  shows "session_sched_empty s \<longleftrightarrow> (\<forall>j. \<not> waits (stream_at s j))"
    and "session_sched_get_next_outbound_item s = None \<longleftrightarrow> session_sched_empty s"
proof -
  show empty: "session_sched_empty s \<longleftrightarrow> (\<forall>j. \<not> waits (stream_at s j))"
    using no_stream_waits [OF ok] by (simp add: first_data_stream_None session_sched_empty_def nghttp2_pq_empty_def)
  have "item (stream_at s k) \<noteq> None" if "first_data_stream s [0..<NGHTTP2_EXTPRI_URGENCY_LEVELS] = Some k" for k
    using first_data_stream_first(2) [OF ok that] by (simp add: first_in_line_def waits_def stream_active_def)
  then show "session_sched_get_next_outbound_item s = None \<longleftrightarrow> session_sched_empty s"
    using no_stream_waits [OF ok] empty
    by (auto simp: session_sched_get_next_outbound_item_def split: option.split)
qed

text \<open>C9: The operations on the item of a stream outside the dependency tree keep the schedule of RFC 9218: a
  stream is in the heap of its urgency exactly when it has something to send that is not put off, all
  eight heaps are heaps of the order by cycle and sequence number although the cycles wrap around, and
  no assertion fails. Taking an item away and putting it off always succeed. Attaching, resuming and a new
  priority fail only when the allocator refuses memory; then the change is made all the same, so the
  stream keeps the item whose owner is told that it was not taken, and is in no heap.\<close>
theorem data_stream_operations:
  assumes ok: "sched_ok s" and k: "\<not> in_tree (stream_at s k)" and few: "\<And>u. length (fst (ob_data s u)) \<le> 2 ^ 27"
    and fl: "fl AND NGHTTP2_STREAM_FLAG_DEFERRED_ALL \<noteq> 0" "fl AND NGHTTP2_STREAM_FLAG_NO_RFC7540_PRIORITIES = 0"
  shows "(item (stream_at s k) = None \<and> flags (stream_at s k) AND NGHTTP2_STREAM_FLAG_DEFERRED_ALL = 0 \<longrightarrow>
      puts e s k (\<lambda>x. x\<lparr>item := Some it\<rparr>) (session_attach_stream_item e s k it)) \<and>
    takes s k (\<lambda>x. x\<lparr>item := None, flags := flags x AND NOT NGHTTP2_STREAM_FLAG_DEFERRED_ALL\<rparr>)
      (session_detach_stream_item s k) \<and>
    (item (stream_at s k) \<noteq> None \<longrightarrow>
      takes s k (\<lambda>x. x\<lparr>flags := flags x OR fl\<rparr>) (session_defer_stream_item s k fl)) \<and>
    (nghttp2_stream_check_deferred_item (stream_at s k) \<longrightarrow>
      puts e s k (\<lambda>x. x\<lparr>flags := flags x AND NOT fl\<rparr>) (session_resume_deferred_stream_item e s k fl)) \<and>
    (unat (nghttp2_extpri_uint8_urgency p) < NGHTTP2_EXTPRI_URGENCY_LEVELS \<longrightarrow>
      puts e s k (\<lambda>x. x\<lparr>extpri := p\<rparr>) (session_update_stream_priority e s k p))"
  using attach_puts [OF ok k few] detach_takes [OF ok k] defer_takes [OF ok k _ fl] resume_puts [OF ok k few _ _ fl(2)]
    priority_puts [OF ok k few]
  by (simp add: nghttp2_stream_check_deferred_item_def)

text \<open>C10: The next data to send is that of a stream of the most urgent level that has any, and within the level of
  one that no other stream goes before; there is none exactly when no stream waits, which is what
  \<open>session_sched_empty\<close> says. When its data was sent, an incremental stream that shares its level with
  others goes back by the number of bytes, and any other stream stays; the schedule is kept, and the
  assertion that the heap takes it back holds.\<close>
theorem next_data_stream:
  assumes ok: "sched_ok s"
  shows "(session_sched_empty s \<longleftrightarrow> (\<forall>j. \<not> waits (stream_at s j))) \<and>
    (session_sched_get_next_outbound_item s = None \<longleftrightarrow> session_sched_empty s) \<and>
    (session_sched_get_next_outbound_item s = Some it \<longrightarrow>
      (\<exists>k. first_in_line s k \<and> item (stream_at s k) = Some it \<and>
        (server s \<and> ucast (fr_length (oi_frame (items s it))) \<le> NGHTTP2_STREAM_MAX_CYCLE_GAP \<longrightarrow>
         (\<exists>s'. session_reschedule_stream e s k = Inr (s', None) \<and> sched_ok s' \<and>
           only_scheduled (upd_stream s k (\<lambda>x. x\<lparr>last_writelen := fr_length (oi_frame (items s it))\<rparr>)) k s' \<and>
           cycle (stream_at s' k) = cycle (stream_at s k) +
             (if in_turns s k then ucast (fr_length (oi_frame (items s it))) else 0)))))"
  using no_data_iff [OF ok] next_data_turn [OF ok] by blast

text \<open>Streams that have never had anything to send, as in a new connection.\<close>

lemma empty_sched_ok:
  assumes empty: "ob_data s = (\<lambda>_. ([], 0))" and idle: "\<And>k. \<not> in_tree (stream_at s k) \<Longrightarrow>
    urgency_of s k < NGHTTP2_EXTPRI_URGENCY_LEVELS \<and> \<not> queued (stream_at s k) \<and> item (stream_at s k) = None \<and>
    last_writelen (stream_at s k) = 0"
  shows "sched_ok s"
proof -
  have none: "{k. waits (stream_at s k)} = {}"
    using idle by (auto simp: waits_def stream_active_def)
  have "queue_good (str (tree s)) (data_queue s u) {}" for u
    by (simp add: queue_good_def pq_ok_def data_queue_def empty heap_from_def indexed_def)
  then have "queues s (\<lambda>u. {})" by (simp add: queues_def)
  then show ?thesis
    using idle by (simp add: sched_ok_def data_sched_def none)
qed

lemma fresh_sched_ok: "fresh_session s opt \<Longrightarrow> sched_ok s"
  by (rule empty_sched_ok) (simp_all add: fresh_session_def idle_session_def root_tree_def in_tree_def nghttp2_stream_init_def)

text \<open>A server with one stream outside the tree.\<close>

definition one_stream :: "session \<Rightarrow> session" where
  "one_stream s = upd_stream (s\<lparr>server := True, items := (\<lambda>_. nghttp2_outbound_item_init (nghttp2_frame_data_init 0 1))\<rparr>) 1
     (\<lambda>x. x\<lparr>flags := NGHTTP2_STREAM_FLAG_NO_RFC7540_PRIORITIES, extpri := 3\<rparr>)"

lemma one_stream_ok:
  assumes "fresh_session s opt"
  shows "sched_ok (one_stream s)" "\<not> in_tree (stream_at (one_stream s) 1)" "item (stream_at (one_stream s) 1) = None"
    "flags (stream_at (one_stream s) 1) AND NGHTTP2_STREAM_FLAG_DEFERRED_ALL = 0"
    "fst (ob_data (one_stream s) u) = []" "server (one_stream s)" "\<not> waits (stream_at (one_stream s) j)"
    "items (one_stream s) it = nghttp2_outbound_item_init (nghttp2_frame_data_init 0 1)"
proof -
  have st: "stream_at (one_stream s) k = (if k = 1 then (nghttp2_stream_init 0 0 NGHTTP2_STREAM_IDLE NGHTTP2_DEFAULT_WEIGHT 0 0 0)
      \<lparr>flags := NGHTTP2_STREAM_FLAG_NO_RFC7540_PRIORITIES, extpri := 3\<rparr>
    else nghttp2_stream_init 0 0 NGHTTP2_STREAM_IDLE NGHTTP2_DEFAULT_WEIGHT 0 0 0)" for k
    using assms by (simp add: one_stream_def upd_stream_def fresh_session_def idle_session_def root_tree_def)
  have empty: "ob_data (one_stream s) = (\<lambda>_. ([], 0))"
    using assms by (simp add: one_stream_def upd_stream_def fresh_session_def idle_session_def)
  then show "fst (ob_data (one_stream s) u) = []" by simp
  show "server (one_stream s)" "items (one_stream s) it = nghttp2_outbound_item_init (nghttp2_frame_data_init 0 1)"
    by (simp_all add: one_stream_def upd_stream_def)
  show "\<not> in_tree (stream_at (one_stream s) 1)" "item (stream_at (one_stream s) 1) = None"
      "flags (stream_at (one_stream s) 1) AND NGHTTP2_STREAM_FLAG_DEFERRED_ALL = 0"
    by (simp_all add: st in_tree_def nghttp2_stream_init_def NGHTTP2_STREAM_FLAG_NO_RFC7540_PRIORITIES_def
        NGHTTP2_STREAM_FLAG_DEFERRED_ALL_def)
  show "\<not> waits (stream_at (one_stream s) j)"
    by (simp add: st waits_def stream_active_def nghttp2_stream_init_def)
  show "sched_ok (one_stream s)"
    by (rule empty_sched_ok [OF empty]) (simp add: st urgency_of_def nghttp2_stream_init_def
        nghttp2_extpri_uint8_urgency_def NGHTTP2_EXTPRI_INC_MASK_def NGHTTP2_EXTPRI_URGENCY_LEVELS_def
        NGHTTP2_EXTPRI_DEFAULT_URGENCY_def)
qed

theorem data_stream_operations_witness:
  "\<exists>s s1. nghttp2_session_client_new3 (\<lambda>_. True) (\<lambda>k n. Some (replicate n 0)) 2000 None = Inr s \<and>
     session_attach_stream_item plain_env (one_stream s) 1 5 = Inr (s1, None) \<and> sched_ok s1 \<and>
     item (stream_at s1 1) = Some 5 \<and> waits (stream_at s1 1)"
proof -
  obtain s where new: "nghttp2_session_client_new3 (\<lambda>_. True) (\<lambda>k n. Some (replicate n 0)) 2000 None = Inr s"
    "fresh_session s None" by (rule new_client)
  note one = one_stream_ok [OF new(2)]
  let ?f = "\<lambda>x::stream. x\<lparr>item := Some 5\<rparr>"
  have bits: "NGHTTP2_STREAM_FLAG_DEFERRED_FLOW_CONTROL AND NGHTTP2_STREAM_FLAG_DEFERRED_ALL \<noteq> 0"
      "NGHTTP2_STREAM_FLAG_DEFERRED_FLOW_CONTROL AND NGHTTP2_STREAM_FLAG_NO_RFC7540_PRIORITIES = 0"
    by (simp_all add: NGHTTP2_STREAM_FLAG_DEFERRED_FLOW_CONTROL_def NGHTTP2_STREAM_FLAG_DEFERRED_ALL_def
        NGHTTP2_STREAM_FLAG_NO_RFC7540_PRIORITIES_def)
  have "puts plain_env (one_stream s) 1 ?f (session_attach_stream_item plain_env (one_stream s) 1 5)"
    using data_stream_operations [OF one(1,2) _ bits, of plain_env 5] one(3-5)
    by simp
  then obtain s1 where s1: "session_attach_stream_item plain_env (one_stream s) 1 5 = Inr (s1, None)"
      "only_scheduled (upd_stream (one_stream s) 1 ?f) 1 s1" "sched_ok s1"
    by (auto simp: puts_def)
  obtain c b where "str (tree s1) = (str (tree (upd_stream (one_stream s) 1 ?f)))(1 := (stream_at (upd_stream (one_stream s) 1 ?f) 1)
      \<lparr>cycle := c, queued := b\<rparr>)"
    using s1(2) by (auto simp: only_scheduled_def)
  then have "item (stream_at s1 1) = Some 5" by simp
  moreover have "waits (stream_at s1 1)"
    using one(2,4) by (simp add: only_scheduled_fields(1) [OF s1(2)]) (simp add: waits_def stream_active_def in_tree_def)
  ultimately show ?thesis using new(1) s1 by blast
qed

theorem next_data_stream_witness:
  "\<exists>s s1 s2. nghttp2_session_client_new3 (\<lambda>_. True) (\<lambda>k n. Some (replicate n 0)) 2000 None = Inr s \<and>
     session_attach_stream_item plain_env (one_stream s) 1 5 = Inr (s1, None) \<and>
     session_sched_get_next_outbound_item s1 = Some 5 \<and>
     session_reschedule_stream plain_env s1 1 = Inr (s2, None) \<and> cycle (stream_at s2 1) = cycle (stream_at s1 1)"
proof -
  obtain s where new: "nghttp2_session_client_new3 (\<lambda>_. True) (\<lambda>k n. Some (replicate n 0)) 2000 None = Inr s"
    "fresh_session s None" by (rule new_client)
  note one = one_stream_ok [OF new(2)]
  let ?s = "upd_stream (one_stream s) 1 (\<lambda>x. x\<lparr>item := Some 5\<rparr>)"
  obtain s1 where s1: "session_attach_stream_item plain_env (one_stream s) 1 5 = Inr (s1, None)"
      "only_scheduled ?s 1 s1" "sched_ok s1"
    using attach_puts [OF one(1,2) _ one(3,4), of plain_env 5] one(5) by (auto simp: puts_def)
  obtain d ix c b where eq: "s1 = ?s\<lparr>ob_data := d,
      tree := (tree ?s)\<lparr>str := (str (tree ?s))(1 := (stream_at ?s 1)\<lparr>cycle := c, queued := b\<rparr>), pqi := ix\<rparr>\<rparr>"
    using s1(2) by (auto simp: only_scheduled_def)
  have fields: "item (stream_at s1 1) = Some 5" "server s1" "fr_length (oi_frame (items s1 5)) = 0"
    using one(6,8) by (simp_all add: eq upd_stream_def nghttp2_outbound_item_init_def nghttp2_frame_data_init_def)
  have waits: "waits (stream_at s1 j) \<longleftrightarrow> j = 1" for j
    using one(2,4,7) by (cases "j = 1"; simp add: only_scheduled_fields(1) [OF s1(2)])
      (simp add: waits_def stream_active_def in_tree_def)
  then obtain it where it: "session_sched_get_next_outbound_item s1 = Some it"
    using next_data_stream [OF s1(3), of undefined plain_env] by auto
  have "first_in_line s1 k \<Longrightarrow> k = 1" for k
    using waits by (simp add: first_in_line_def)
  then show ?thesis
    using next_data_stream [OF s1(3), of it plain_env] it fields new(1) s1(1) by (fastforce split: if_splits)
qed

end
