(* ===== verification/Spec2Isabelle.thy ===== *)
theory Spec2Isabelle
  imports Helper DepSpec Queue App FrameExt FrameShared HMap HpackBlock JsmnTree StructGrammar HttpBody SessWin SessSched
begin

text \<open>
  Verification of the firmware \<open>codec2-on-esp-lyrat\<close> and of the two libraries it links.

  \<^bold>\<open>The program.\<close> \<open>src/main/main.c\<close> is the firmware's own code: it builds an audio pipeline from
  the microphone to the speaker of an ESP32 board. The image also contains a JSON tokenizer
  (\<open>src/managed_components/espressif__jsmn/include/jsmn.h\<close>) and an HTTP/2 library
  (\<open>src/managed_components/espressif__nghttp/nghttp2/lib\<close>, written \<open>lib\<close> below; its public header is
  \<open>inc\<close>). Bytes that come from the network pass through the frame readers, the HPACK inflater (tables,
  integers, Huffman code), the checks of HTTP header fields, the structured-field parsers for
  priorities and the flow-control arithmetic; bytes that leave pass through the HPACK deflater, the frame
  writers and the buffer chains, in the order the stream scheduler gives. Streams live in a hash map,
  are scheduled by a priority queue, and frames wait in linked queues. The session (\<open>lib/nghttp2_session.c\<close>)
  holds all of these: the application submits frames to it (\<open>lib/nghttp2_submit.c\<close>), it opens and closes
  streams, keeps the windows and settings of both ends, and reports to the application by callbacks.

  \<^bold>\<open>Theories.\<close>

    \<^item> \<open>Prelude\<close>: 32-bit \<open>size_t\<close>, outcomes of C operations, bounded memory, shared lemmas.
    \<^item> \<open>Errors\<close>: the error codes of \<open>inc/nghttp2.h\<close>, the messages of \<open>lib/nghttp2_helper.c\<close>.
    \<^item> \<open>Helper\<close>, \<open>Window\<close>: \<open>lib/nghttp2_helper.c\<close>; byte order, character checks, window arithmetic.
    \<^item> \<open>Pq\<close>, \<open>Queue\<close>, \<open>HMap\<close>, \<open>Buf\<close>: \<open>lib/nghttp2_pq.c\<close>, \<open>lib/nghttp2_queue.c\<close> with
      \<open>lib/nghttp2_outbound_item.c\<close>, \<open>lib/nghttp2_map.c\<close>, \<open>lib/nghttp2_buf.c\<close>.
    \<^item> \<open>Stream\<close>, \<open>DepTree\<close>, \<open>DepQueue\<close>, \<open>DepSched\<close>, \<open>DepShape\<close>, \<open>DepForest\<close>, \<open>DepRemove\<close>, \<open>DepSpec\<close>:
      \<open>lib/nghttp2_stream.c\<close>; the stream, its windows, the schedule of one parent; then the dependency
      tree: the code (\<open>DepTree\<close>), the heaps and who is in them (\<open>DepQueue\<close>, \<open>DepSched\<close>), the links
      (\<open>DepShape\<close>), the operations that move streams (\<open>DepForest\<close>, \<open>DepRemove\<close>).
    \<^item> \<open>Frame\<close>, \<open>FrameVar\<close>, \<open>FrameExt\<close>, \<open>FrameShared\<close>: \<open>lib/nghttp2_frame.c\<close> and
      \<open>lib/nghttp2_priority_spec.c\<close>; frames of fixed and variable length, extension frames, header blocks
      split into frames, padding.
    \<^item> \<open>Token\<close>, \<open>Ring\<close>, \<open>HdTable\<close>, \<open>HdSearch\<close>, \<open>HdInt\<close>, \<open>HdDeflate\<close>, \<open>HdDeflateOk\<close>, \<open>HdInflate\<close>,
      \<open>HdInflateSafe\<close>, \<open>HdStrings\<close>, \<open>HpackRound\<close>, \<open>HpackBlock\<close>: \<open>lib/nghttp2_hd.c\<close>, from the tables to whole
      header blocks.
    \<^item> \<open>HuffData\<close>, \<open>HuffTree\<close>, \<open>HuffCode\<close>, \<open>Huff\<close>, \<open>HuffDecode\<close>: \<open>lib/nghttp2_hd_huffman.c\<close> and the
      tables of \<open>lib/nghttp2_hd_huffman_data.c\<close>.
    \<^item> \<open>StructField\<close>, \<open>StructGrammar\<close>, \<open>Http\<close>, \<open>HttpRequest\<close>, \<open>HttpBody\<close>: \<open>lib/nghttp2_http.c\<close> and
      \<open>lib/nghttp2_extpri.c\<close>.
    \<^item> \<open>Session\<close>, \<open>SessStream\<close>, \<open>SessOut\<close>, \<open>SessRecv\<close>, \<open>SessFlow\<close>: \<open>lib/nghttp2_session.c\<close>; the records of
      the connection, of frames and of outbound items; the streams of a connection and the eight heaps of
      RFC 9218; queueing frames and ending streams and connections; the handlers of received frames;
      windows, SETTINGS, DATA and extension frames.
    \<^item> \<open>SessSend\<close>, \<open>SessNew\<close>: \<open>lib/nghttp2_submit.c\<close>, with the conditions under which \<open>lib/nghttp2_session.c\<close> sends a
      frame, the choice of the next one and what follows it; \<open>lib/nghttp2_option.c\<close> and the creation of
      connections.
    \<^item> \<open>SessReq\<close>, \<open>SendWindow\<close>, \<open>SessWin\<close>, \<open>SessHeap\<close>, \<open>SessSched\<close>: what holds of requests and new connections, of
      windows (\<open>SendWindow\<close>: what leaves them alone), and of the scheduler.
    \<^item> \<open>Jsmn\<close>, \<open>JsmnSafe\<close>, \<open>JsmnModes\<close>, \<open>JsmnTree\<close>: \<open>jsmn.h\<close> in its default configuration.
    \<^item> \<open>App\<close>: \<open>src/main/main.c\<close>.
\<close>

text \<open>
  \<^bold>\<open>How code becomes definitions.\<close> A C function is a definition of the same name. Structs are records,
  unsigned integers are words of their width, signed ones are \<open>int\<close> with every overflow an outcome. The
  result of a function that can fail is \<open>'a res\<close>: \<open>Inr\<close> a value, or \<open>Inl\<close> of an error code (\<open>Code\<close>), of a
  failed \<open>assert\<close> (\<open>Abort\<close>), or of behaviour C does not define (\<open>Undefined\<close>), in particular a read or
  write outside an object, a shift by the width of a word or more, and a sum that does not fit. A function that changes an object returns the object. Pointers into a buffer
  are offsets, pointers to objects are identifiers of a store where sharing matters. The allocator and
  the audio framework are parameters. Of the allocator it is asked that what it grants has the size asked for;
  of the framework nothing: it may answer null and equal handles.
  A session is a record that every function of \<open>lib/nghttp2_session.c\<close> takes and returns, with an error code or
  none (\<open>ses\<close>); its streams are the nodes of the dependency tree, found by identifier in the hash
  map, and its outbound items a store with fresh addresses. The environment \<open>env\<close> of a session is the allocator,
  which grants or refuses by size, and the callbacks, which may change what the application may change; where
  it matters, a hypothesis says that they do not send or receive, which the programmers' guide forbids
  (\<open>callbacks_only_submit\<close>).
  A stream that is destroyed leaves the hash map; a write through a pointer kept in the lists of closed
  and idle streams is \<open>Undefined\<close> when the stream has left it.

  \<^bold>\<open>Loops and fuel.\<close> Loops that C bounds by a pointer are structural recursion or \<open>function\<close> with a
  measure. The loops of the hash map, of the chains of buffers and of the inflater take the number of
  rounds; the theorems about them state how many are enough (the length of the table, the number of bytes
  left, twice the number of bytes and a constant) and that the result is then a proper one. Loops along the
  links of the dependency tree take as many rounds as there are streams; the session computes the rounds
  (\<open>rounds\<close>) and those of its hash map (\<open>probes\<close>) from its own size.

  \<^bold>\<open>What is shown.\<close>

    \<^item> HPACK: every header block the deflater writes is read back by the inflater, with both dynamic
      tables equal afterwards, across changes of the table size (\<open>hpack_roundtrip\<close>,
      \<open>hpack_table_size_linked\<close>); on arbitrary bytes in arbitrary pieces the inflater is memory safe
      (\<open>inflate_safe\<close>). Below it, integers, tables, search and Huffman code have their own theorems; the
      integer reader is exact also where it refuses and when it is resumed (\<open>hpack_integer_sound\<close>).
    \<^item> Containers: the hash map refines a finite map, both queues refine lists through the locale
      \<open>fifo\<close>, the heap is a priority queue through the locale \<open>pq_order\<close>, and the scheduler, whose
      64-bit cycle counters wrap, stays where its comparison is an order.
    \<^item> Dependency tree: its operations are steps on a forest of lists of children, with the sums of
      weights and the heaps kept right (\<open>dep_tree_operations\<close>); operations on the item of one stream keep
      the schedule (\<open>stream_item_operations\<close>); whatever has something to send is found
      (\<open>next_outbound_item_found\<close>). When a heap cannot grow the code \<open>NGHTTP2_ERR_NOMEM\<close> comes back with the
      tree as it is then, of which nothing is claimed. The checks compiled with \<open>STREAM_DEP_DEBUG\<close> are
      not code here: they are the invariants.
    \<^item> Frames: what a writer writes is what the reader reads; padding and splitting into CONTINUATION
      frames keep the content.
    \<^item> HTTP: the checks spread over the header fields of a request amount to one condition on the list
      of fields; the length of a body is checked against \<open>content-length\<close>, status and method.
    \<^item> Priorities: the parser of structured fields never reads outside its input and reads what the
      grammar of RFC 8941 writes.
    \<^item> Session: a new connection is what its options say, each limit and each flag against the bits of
      \<open>lib/nghttp2_option.h\<close> (\<open>new_connection\<close>); requests get growing odd identifiers and wait in order, and
      one that depends on itself is refused (\<open>submit_request_correct\<close>), a reset takes a waiting one back, and a
      second reset harms the connection; flow control loses and invents no credit in
      either direction (\<open>received_data_window\<close>, \<open>consumed_data_window\<close>, \<open>data_sent_within_windows\<close>); the
      scheduler of RFC 9218 holds exactly the streams that wait, in order, and picks the first in line
      (\<open>data_stream_operations\<close>, \<open>next_data_stream\<close>).
    \<^item> JSON: the tokenizer is safe on every input, measures what it later fills in, can be resumed,
      and gives the tokens a value of the grammar has.
    \<^item> Firmware: the calls of \<open>app_main\<close> respect the order the audio framework asks for on every answer of
      the framework, and it fails only for want of a board or a pipeline; the tear-down code after the event loop is never reached.

  \<^bold>\<open>Not modelled.\<close> Of the session: the loops that cut the received bytes into frames and call the
  handlers (\<open>nghttp2_session_mem_recv\<close>) and that pack and hand out the bytes to send (\<open>nghttp2_session_mem_send\<close>,
  \<open>session_prep_frame\<close>), the upgrade from HTTP/1.1, and functions that read one field. The release of an item
  has no trace in the model. Setters of callbacks and the choice of a protocol name change one field.
  Wrappers of the C library (\<open>nghttp2_mem.c\<close>, \<open>nghttp2_debug.c\<close>, \<open>nghttp2_version.c\<close>) compute nothing.
  The programs, examples and tests that come with the HTTP/2 library are not part of the firmware, nor
  are the build artefacts. The audio framework and codec2 are not in the repository.
\<close>

end
